(* ===== verification/Toard_Prelude.thy ===== *)
theory Toard_Prelude
  imports Complex_Main "HOL-Library.AList" "HOL-Library.Multiset" "HOL-Library.Char_ord"
    "HOL-Library.List_Lexorder" "HOL-Library.Sublist"
begin

text \<open>
  What the components share: the part of the JavaScript standard library the sources call
  (\<open>Array.prototype.sort\<close>, \<open>Set\<close>, \<open>Map\<close>, \<open>String.prototype.split\<close>, \<open>trim\<close>, \<open>toLowerCase\<close>,
  the character classes of the regular expressions), with the lemmas every component uses.

  Strings are lists of code units below 256 (Isabelle's \<open>char\<close>); instants are
  milliseconds since the epoch as \<open>int\<close>, an invalid \<open>Date\<close> being \<open>None\<close> where the code checks
  for it. A JavaScript \<open>Map\<close> is an association list in insertion order: \<open>AList.update\<close> keeps
  the position of an existing key and appends a new one, as \<open>Map.set\<close> does.
\<close>

named_theorems js_defs "definitions of the modelled JavaScript library"

section \<open>Instants and time spans\<close>

type_synonym instant = int

abbreviation (input) one_minute_ms :: int where "one_minute_ms \<equiv> 60000"

section \<open>Tables\<close>

text \<open>A table is a list of rows; \<open>find\<close> is a query that expects at most one.\<close>

lemma find_SomeD: "find P xs = Some x \<Longrightarrow> x \<in> set xs \<and> P x"
  by (auto simp: find_Some_iff)

lemma find_map: "find P (map f xs) = map_option f (find (P \<circ> f) xs)"
  by (induction xs) auto

lemma find_filter: "(\<And>x. P x \<Longrightarrow> Q x) \<Longrightarrow> find P (filter Q xs) = find P xs"
  by (induction xs) auto

lemma find_key: "distinct (map f xs) \<Longrightarrow> x \<in> set xs \<Longrightarrow> find (\<lambda>y. f y = f x) xs = Some x"
  by (induction xs) (auto simp: image_iff)

lemma find_snoc: "find P xs = None \<Longrightarrow> find P (xs @ [x]) = (if P x then Some x else None)"
  by (induction xs) (auto split: if_splits)

lemma distinct_at_most_one:
  assumes "distinct xs" "set xs \<subseteq> {a}"
  shows "length xs \<le> 1"
  using card_mono [OF _ assms(2)] distinct_card [OF assms(1)] by simp

section \<open>Sorting with a comparator\<close>

text \<open>
  \<open>Array.prototype.sort\<close> is stable; a comparator's result matters only by its sign, and NaN
  counts as 0. Insertion from the right keeps equal elements in their order, which for a
  consistent comparator is the only stable sorted permutation.
\<close>

fun js_insert :: "('a \<Rightarrow> 'a \<Rightarrow> int) \<Rightarrow> 'a \<Rightarrow> 'a list \<Rightarrow> 'a list" where
  "js_insert cmp x [] = [x]"
| "js_insert cmp x (y # ys) = (if cmp x y \<le> 0 then x # y # ys else y # js_insert cmp x ys)"

fun js_sort :: "('a \<Rightarrow> 'a \<Rightarrow> int) \<Rightarrow> 'a list \<Rightarrow> 'a list" where
  "js_sort cmp [] = []"
| "js_sort cmp (x # xs) = js_insert cmp x (js_sort cmp xs)"

lemma mset_js_insert [simp]: "mset (js_insert cmp x xs) = add_mset x (mset xs)"
  by (induction xs) auto

lemma mset_js_sort [simp]: "mset (js_sort cmp xs) = mset xs"
  by (induction xs) auto

lemma set_js_insert [simp]: "set (js_insert cmp x xs) = insert x (set xs)"
  by (induction xs) auto

lemma set_js_sort [simp]: "set (js_sort cmp xs) = set xs"
  by (induction xs) auto

lemma length_js_sort [simp]: "length (js_sort cmp xs) = length xs"
  by (metis mset_js_sort size_mset)

lemma distinct_js_sort [simp]: "distinct (js_sort cmp xs) = distinct xs"
  by (metis mset_js_sort mset_eq_imp_distinct_iff)

lemma js_sort_eq_Nil [simp]: "js_sort cmp xs = [] \<longleftrightarrow> xs = []"
  by (metis length_0_conv length_js_sort)

lemma js_insert_cong:
  "(\<And>y. y \<in> set xs \<Longrightarrow> cmp x y = cmp' x y) \<Longrightarrow> js_insert cmp x xs = js_insert cmp' x xs"
  by (induction xs) auto

text \<open>The interface a comparator has to meet for \<open>sort\<close> to be determined.\<close>

locale comparator =
  fixes cmp :: "'a \<Rightarrow> 'a \<Rightarrow> int"
  assumes flip: "0 < cmp x y \<longleftrightarrow> cmp y x < 0"
    and trans: "cmp x y \<le> 0 \<Longrightarrow> cmp y z \<le> 0 \<Longrightarrow> cmp x z \<le> 0"
begin

lemma total: "cmp x y \<le> 0 \<or> cmp y x \<le> 0"
  using flip [of x y] by linarith

lemma refl: "cmp x x = 0"
  using flip [of x x] by linarith

lemma sorted_js_insert:
  assumes "sorted_wrt (\<lambda>x y. cmp x y \<le> 0) xs"
  shows "sorted_wrt (\<lambda>x y. cmp x y \<le> 0) (js_insert cmp x xs)"
  using assms
proof (induction xs)
  case Nil
  then show ?case by simp
next
  case (Cons y ys)
  show ?case
  proof (cases "cmp x y \<le> 0")
    case True
    then show ?thesis using Cons.prems by (auto intro: trans)
  next
    case False
    then have "cmp y x \<le> 0" using total by blast
    then show ?thesis using False Cons by auto
  qed
qed

lemma sorted_js_sort: "sorted_wrt (\<lambda>x y. cmp x y \<le> 0) (js_sort cmp xs)"
  by (induction xs) (auto intro: sorted_js_insert)

lemma js_sort_hd_le:
  assumes "x \<in> set xs"
  shows "cmp (hd (js_sort cmp xs)) x \<le> 0"
proof (cases "js_sort cmp xs")
  case Nil
  with assms show ?thesis by auto
next
  case (Cons y ys)
  moreover have "x \<in> insert y (set ys)" using assms Cons set_js_sort [of cmp xs] by simp
  moreover have "\<forall>z \<in> set ys. cmp y z \<le> 0" using sorted_js_sort [of xs] Cons by simp
  ultimately show ?thesis using refl [of y] by auto
qed

text \<open>Stability: the elements that tie with \<open>z\<close> keep their order.\<close>

lemma filter_js_insert:
  "filter (\<lambda>y. cmp z y = 0) (js_insert cmp x xs)
     = filter (\<lambda>y. cmp z y = 0) (x # xs)"
  if "sorted_wrt (\<lambda>x y. cmp x y \<le> 0) xs" for x xs
  using that
proof (induction xs)
  case Nil
  then show ?case by simp
next
  case (Cons y ys)
  show ?case
  proof (cases "cmp x y \<le> 0")
    case True
    then show ?thesis by simp
  next
    case False
    have "\<not> (cmp z x = 0 \<and> cmp z y = 0)"
    proof
      assume "cmp z x = 0 \<and> cmp z y = 0"
      then have "cmp x z \<le> 0" "cmp z y \<le> 0" using flip [of x z] by auto
      then show False using trans False by blast
    qed
    then show ?thesis using False Cons by auto
  qed
qed

lemma js_sort_stable: "filter (\<lambda>y. cmp z y = 0) (js_sort cmp xs) = filter (\<lambda>y. cmp z y = 0) xs"
  by (induction xs) (auto simp: filter_js_insert [OF sorted_js_sort])

end

text \<open>The comparator \<open>(a, b) => key(a) - key(b)\<close> over an integer key.\<close>

interpretation by_int_key: comparator "\<lambda>a b. key a - key b" for key :: "'a \<Rightarrow> int"
  by unfold_locales auto

text \<open>The comparator \<open>(a, b) => a < b ? -1 : a > b ? 1 : 0\<close>, also the default of \<open>sort()\<close>.\<close>

definition cmp_ord :: "'a :: linorder \<Rightarrow> 'a \<Rightarrow> int" where
  "cmp_ord a b = (if a < b then -1 else if b < a then 1 else 0)"

interpretation by_ord: comparator "cmp_ord :: 'a :: linorder \<Rightarrow> 'a \<Rightarrow> int"
  by unfold_locales (auto simp: cmp_ord_def split: if_splits)

interpretation by_ord_key: comparator "\<lambda>a b. cmp_ord (key a) (key b)"
  for key :: "'a \<Rightarrow> 'b :: linorder"
  by unfold_locales (auto simp: cmp_ord_def split: if_splits)

lemma cmp_ord_le [simp]: "cmp_ord a b \<le> 0 \<longleftrightarrow> a \<le> b"
  by (auto simp: cmp_ord_def)

lemma sorted_js_sort_ord: "sorted (js_sort cmp_ord xs)"
  using by_ord.sorted_js_sort [of xs] by simp

text \<open>Sorting by distinct keys is strict.\<close>

lemma sorted_js_sort_key:
  "sorted_wrt (\<lambda>a b. key a \<le> key b) (js_sort (\<lambda>a b. cmp_ord (key a) (key b)) xs)"
  using by_ord_key.sorted_js_sort [of key xs] by simp

lemma strict_of_distinct:
  fixes key :: "'a \<Rightarrow> 'b :: linorder"
  shows "sorted_wrt (\<lambda>a b. key a \<le> key b) xs \<Longrightarrow> distinct (map key xs) \<Longrightarrow>
    sorted_wrt (\<lambda>a b. key a < key b) xs"
  by (induction xs) (auto simp: order.strict_iff_order image_iff)

lemma strict_js_sort_key:
  assumes "distinct (map key xs)"
  shows "sorted_wrt (\<lambda>a b. key a < key b) (js_sort (\<lambda>a b. cmp_ord (key a) (key b)) xs)"
proof (rule strict_of_distinct [OF sorted_js_sort_key])
  show "distinct (map key (js_sort (\<lambda>a b. cmp_ord (key a) (key b)) xs))"
    using assms by (metis mset_js_sort mset_map mset_eq_imp_distinct_iff)
qed

lemma js_sort_ord_eq: "js_sort cmp_ord xs = sort xs"
  by (rule properties_for_sort [symmetric]) (auto simp: sorted_js_sort_ord)

section \<open>Sets and maps in insertion order\<close>

text \<open>\<open>[...new Set(xs)]\<close>: the first occurrence of each element is kept.\<close>

definition js_unique :: "'a list \<Rightarrow> 'a list" where
  "js_unique xs = rev (remdups (rev xs))"

lemma set_js_unique [simp]: "set (js_unique xs) = set xs"
  by (simp add: js_unique_def)

lemma distinct_js_unique [simp]: "distinct (js_unique xs)"
  by (simp add: js_unique_def)

lemma js_unique_Nil [simp]: "js_unique [] = []"
  by (simp add: js_unique_def)

lemma length_js_unique: "length (js_unique xs) = card (set xs)"
  by (metis distinct_card distinct_js_unique set_js_unique)

lemma js_unique_distinct: "distinct xs \<Longrightarrow> js_unique xs = xs"
  by (simp add: js_unique_def distinct_remdups_id)

text \<open>\<open>new Map(pairs)\<close>: the last pair of a key wins, at the position of the first.\<close>

definition js_map_of_list :: "('k \<times> 'v) list \<Rightarrow> ('k \<times> 'v) list" where
  "js_map_of_list ps = foldl (\<lambda>m (k, v). AList.update k v m) [] ps"

lemma distinct_keys_update_fold:
  "distinct (map fst m) \<Longrightarrow>
   distinct (map fst (foldl (\<lambda>m (k, v). AList.update k v m) m ps))"
  by (induction ps arbitrary: m) (auto simp: distinct_update)

lemma distinct_js_map_of_list [simp]: "distinct (map fst (js_map_of_list ps))"
  by (simp add: js_map_of_list_def distinct_keys_update_fold)

lemma map_of_update_fold:
  "map_of (foldl (\<lambda>m (k, v). AList.update k v m) m ps) = map_of m ++ map_of (rev ps)"
proof (induction ps arbitrary: m)
  case Nil
  then show ?case by simp
next
  case (Cons p ps)
  obtain k v where p: "p = (k, v)" by (cases p)
  show ?case unfolding p
    by (auto simp: Cons.IH update_conv' map_add_def fun_eq_iff split: option.splits)
qed

lemma map_of_js_map_of_list [simp]: "map_of (js_map_of_list ps) = map_of (rev ps)"
  by (simp add: js_map_of_list_def map_of_update_fold)

lemma dom_js_map_of_list: "fst ` set (js_map_of_list ps) = fst ` set ps"
  by (metis dom_map_of_conv_image_fst map_of_js_map_of_list set_rev)

section \<open>Characters and strings\<close>

definition code_of :: "char \<Rightarrow> nat" where
  "code_of c = of_char c"

definition is_digit :: "char \<Rightarrow> bool" where
  "is_digit c \<longleftrightarrow> 48 \<le> code_of c \<and> code_of c \<le> 57"

definition is_lower :: "char \<Rightarrow> bool" where
  "is_lower c \<longleftrightarrow> 97 \<le> code_of c \<and> code_of c \<le> 122"

definition is_upper :: "char \<Rightarrow> bool" where
  "is_upper c \<longleftrightarrow> 65 \<le> code_of c \<and> code_of c \<le> 90"

definition is_lower_hex :: "char \<Rightarrow> bool" where
  "is_lower_hex c \<longleftrightarrow> is_digit c \<or> (97 \<le> code_of c \<and> code_of c \<le> 102)"

text \<open>\<open>\s\<close> and the characters \<open>trim\<close> removes, below code unit 256.\<close>

definition is_space :: "char \<Rightarrow> bool" where
  "is_space c \<longleftrightarrow> code_of c \<in> {9, 10, 11, 12, 13, 32, 160}"

lemmas char_class_defs =
  is_digit_def is_lower_def is_upper_def is_lower_hex_def is_space_def code_of_def

text \<open>\<open>/^\d+$/\<close>\<close>

definition digits1 :: "string \<Rightarrow> bool" where
  "digits1 s \<longleftrightarrow> s \<noteq> [] \<and> list_all is_digit s"

definition digit_value :: "char \<Rightarrow> int" where
  "digit_value c = int (code_of c) - 48"

text \<open>\<open>Number(s)\<close> of a string of decimal digits.\<close>

definition digits_value :: "string \<Rightarrow> int" where
  "digits_value s = foldl (\<lambda>n c. 10 * n + digit_value c) 0 s"

lemma digit_value_nonneg: "is_digit c \<Longrightarrow> 0 \<le> digit_value c"
  by (simp add: is_digit_def digit_value_def)

lemma digits_value_nonneg_aux:
  "0 \<le> n \<Longrightarrow> list_all is_digit s \<Longrightarrow> 0 \<le> foldl (\<lambda>n c. 10 * n + digit_value c) n s"
  by (induction s arbitrary: n) (auto simp: digit_value_nonneg)

lemma digits_value_nonneg: "digits1 s \<Longrightarrow> 0 \<le> digits_value s"
  by (simp add: digits1_def digits_value_def digits_value_nonneg_aux)

text \<open>\<open>s.split(c)\<close> for a one-character separator.\<close>

fun split_on :: "char \<Rightarrow> string \<Rightarrow> string list" where
  "split_on c [] = [[]]"
| "split_on c (x # xs) =
     (if x = c then [] # split_on c xs
      else (case split_on c xs of [] \<Rightarrow> [[x]] | y # ys \<Rightarrow> (x # y) # ys))"

fun join_with :: "string \<Rightarrow> string list \<Rightarrow> string" where
  "join_with sep [] = []"
| "join_with sep [x] = x"
| "join_with sep (x # y # ys) = x @ sep @ join_with sep (y # ys)"

lemma split_on_not_Nil [simp]: "split_on c s \<noteq> []"
  by (induction s) (auto split: list.splits)

lemma join_split_on [simp]: "join_with [c] (split_on c s) = s"
proof (induction s)
  case (Cons x xs)
  obtain y ys where "split_on c xs = y # ys" by (cases "split_on c xs") auto
  then show ?case using Cons by (cases ys) auto
qed simp

lemma split_on_append:
  "c \<notin> set u \<Longrightarrow> split_on c (u @ c # v) = u # split_on c v"
  by (induction u) auto

lemma split_on_no_sep: "c \<notin> set u \<Longrightarrow> split_on c u = [u]"
  by (induction u) auto

lemma split_on_parts: "p \<in> set (split_on c s) \<Longrightarrow> c \<notin> set p"
proof (induction s arbitrary: p)
  case (Cons x xs)
  obtain y ys where "split_on c xs = y # ys" by (cases "split_on c xs") auto
  then show ?case using Cons by (auto split: if_splits)
qed simp

text \<open>\<open>trim\<close>, \<open>toLowerCase\<close> (code units below 256), \<open>startsWith\<close>, \<open>str_includes\<close>, \<open>slice(0, n)\<close>.\<close>

definition js_trim :: "string \<Rightarrow> string" where
  "js_trim s = rev (dropWhile is_space (rev (dropWhile is_space s)))"

definition lower_char :: "char \<Rightarrow> char" where
  "lower_char c =
     (if is_upper c \<or> (192 \<le> code_of c \<and> code_of c \<le> 222 \<and> code_of c \<noteq> 215)
      then char_of (code_of c + 32) else c)"

definition js_lower :: "string \<Rightarrow> string" where
  "js_lower s = map lower_char s"

definition starts_with :: "string \<Rightarrow> string \<Rightarrow> bool" where
  "starts_with s p \<longleftrightarrow> prefix p s"

definition ends_with :: "string \<Rightarrow> string \<Rightarrow> bool" where
  "ends_with s p \<longleftrightarrow> suffix p s"

definition str_includes :: "string \<Rightarrow> string \<Rightarrow> bool" where
  "str_includes s p \<longleftrightarrow> sublist p s"

lemmas js_string_defs = js_trim_def js_lower_def starts_with_def ends_with_def str_includes_def

lemma js_trim_no_leading: "js_trim s = c # cs \<Longrightarrow> \<not> is_space c"
proof -
  assume a: "js_trim s = c # cs"
  let ?t = "dropWhile is_space s"
  have "prefix (js_trim s) ?t"
    unfolding js_trim_def by (metis prefix_def rev_append rev_rev_ident takeWhile_dropWhile_id)
  with a obtain v where "?t = c # v" by (auto simp: prefix_def)
  then show ?thesis by (metis hd_dropWhile list.distinct(1) list.sel(1))
qed


text \<open>\<open>String(n)\<close> of an integer.\<close>

function nat_digits :: "nat \<Rightarrow> string" where
  "nat_digits n = (if n < 10 then [char_of (48 + n)] else nat_digits (n div 10) @ [char_of (48 + n mod 10)])"
  by pat_completeness auto
termination by (relation "measure id") auto

declare nat_digits.simps [simp del]

definition int_to_string :: "int \<Rightarrow> string" where
  "int_to_string n = (if n < 0 then CHR ''-'' # nat_digits (nat (- n)) else nat_digits (nat n))"

section \<open>Effects\<close>

text \<open>
  An \<open>async\<close> method over a world \<open>'w\<close>: it returns the new world and either a rejection or a
  value. \<open>bindE\<close> is \<open>await\<close> followed by the rest of the body.
\<close>

type_synonym ('w, 'e, 'a) io = "'w \<Rightarrow> 'w \<times> ('e + 'a)"

definition returnE :: "'a \<Rightarrow> ('w, 'e, 'a) io" where
  "returnE a w = (w, Inr a)"

definition throwE :: "'e \<Rightarrow> ('w, 'e, 'a) io" where
  "throwE e w = (w, Inl e)"

definition bindE :: "('w, 'e, 'a) io \<Rightarrow> ('a \<Rightarrow> ('w, 'e, 'b) io) \<Rightarrow> ('w, 'e, 'b) io" where
  "bindE m f w = (case m w of (w', Inl e) \<Rightarrow> (w', Inl e) | (w', Inr a) \<Rightarrow> f a w')"

lemmas io_defs = returnE_def throwE_def bindE_def

lemma bindE_simps [simp]:
  "m w = (w', Inl e) \<Longrightarrow> bindE m f w = (w', Inl e)"
  "m w = (w', Inr a) \<Longrightarrow> bindE m f w = f a w'"
  "returnE a w = (w, Inr a)" "throwE e w = (w, Inl e)"
  by (simp_all add: io_defs)

lemma bindE_eq:
  "bindE m f w = (w', r) \<longleftrightarrow>
     (\<exists>e. m w = (w', Inl e) \<and> r = Inl e) \<or> (\<exists>w1 a. m w = (w1, Inr a) \<and> f a w1 = (w', r))"
  by (auto simp: bindE_def split: prod.splits sum.splits)

text \<open>The same for code without a world: a value or an exception.\<close>

definition and_then :: "'e + 'a \<Rightarrow> ('a \<Rightarrow> 'e + 'b) \<Rightarrow> 'e + 'b" where
  "and_then x f = (case x of Inl e \<Rightarrow> Inl e | Inr a \<Rightarrow> f a)"

lemma and_then_simps [simp]: "and_then (Inl e) f = Inl e" "and_then (Inr a) f = f a"
  by (simp_all add: and_then_def)

lemma and_then_eq_Inr: "and_then x f = Inr b \<longleftrightarrow> (\<exists>a. x = Inr a \<and> f a = Inr b)"
  by (auto simp: and_then_def split: sum.splits)

text \<open>A relation between the worlds before and after, whether or not the method throws.\<close>

definition relates :: "('w \<Rightarrow> 'w \<Rightarrow> bool) \<Rightarrow> ('w, 'e, 'a) io \<Rightarrow> 'w \<Rightarrow> bool" where
  "relates R m w \<longleftrightarrow> R w (fst (m w))"

end
