(* ===== verification/Rollup_Worker_State.thy ===== *)
theory Rollup_Worker_State
  imports Toard_Prelude
begin

text \<open>
  \<open>apps/web/lib/rollup-worker-state.ts\<close>: the status row of a rollup worker, the operations
  of \<open>PgRollupWorkerRepository\<close> on the table \<open>clickhouse_rollup_worker_status\<close>, the state shown to
  administrators (\<open>deriveWorkerState\<close>), the switch of a shadow worker, the redaction of error
  texts and the advisory lock around a load slot.

  The table is a partial function from worker names to rows. An UPDATE of a missing row changes
  nothing; \<open>RETURNING\<close> then gives no row and the repository throws. The SQL of \<open>markFailed\<close> is
  translated with PostgreSQL's \<open>integer\<close> arithmetic, whose overflow raises and leaves the row.
  Double precision values are exact rationals.
\<close>

section \<open>Rows\<close>

datatype rollup_worker_name = Usage_15m_v2 | Timezone

datatype rollup_worker_state =
  Not_applicable | Disabled | Paused | Starting | Catching_up | Waiting_for_base
| Ready | Stalled | Error

datatype load_state = Normal | Throttled

record rollup_worker_record =
  worker :: rollup_worker_name
  paused :: bool
  activatedAt :: instant
  lastStartedAt :: "instant option"
  lastFinishedAt :: "instant option"
  lastSuccessAt :: "instant option"
  lastProgressAt :: "instant option"
  lastErrorAt :: "instant option"
  lastError :: "string option"
  lastDurationMs :: "int option"
  lastProcessedUnits :: int
  lastProcessedRows :: int
  processedUnitsTotal :: int
  processedRowsTotal :: int
  throughputUnitsPerMinute :: "rat option"
  adaptiveLimit :: int
  loadState :: load_state
  eligibleSince :: "instant option"
  nextAttemptAt :: "instant option"
  consecutiveFailures :: nat

type_synonym worker_table = "rollup_worker_name \<Rightarrow> rollup_worker_record option"

text \<open>The row the migrations insert for a worker at time \<open>t\<close>.\<close>

definition initial_worker_row :: "rollup_worker_name \<Rightarrow> instant \<Rightarrow> rollup_worker_record" where
  "initial_worker_row w t =
     \<lparr>worker = w, paused = False, activatedAt = t, lastStartedAt = None,
      lastFinishedAt = None, lastSuccessAt = None, lastProgressAt = None, lastErrorAt = None,
      lastError = None, lastDurationMs = None, lastProcessedUnits = 0, lastProcessedRows = 0,
      processedUnitsTotal = 0, processedRowsTotal = 0, throughputUnitsPerMinute = None,
      adaptiveLimit = (if w = Timezone then 8 else 16), loadState = Normal,
      eligibleSince = None, nextAttemptAt = None, consecutiveFailures = 0\<rparr>"

datatype pg_error = Row_not_found | Integer_out_of_range

section \<open>Switches and error texts\<close>

type_synonym env = "string \<Rightarrow> string option"

definition shadowWorkerEnabled :: "env \<Rightarrow> string \<Rightarrow> bool" where
  "shadowWorkerEnabled env key =
     (case env key of
        None \<Rightarrow> True
      | Some raw \<Rightarrow> js_lower (js_trim raw) \<notin> {''0'', ''false'', ''off''})"

text \<open>
  The two \<open>replace\<close> calls of \<open>sanitizeRollupError\<close> as scans from left to right. In the first
  regular expression both classes exclude white space, \<open>/\<close> and \<open>@\<close>, so a match after
  \<open>://\<close> is the maximal run of such characters, which must be followed by \<open>@\<close> and have a colon with
  a character on each side.
\<close>

definition cred_char :: "char \<Rightarrow> bool" where
  "cred_char c \<longleftrightarrow> \<not> is_space c \<and> c \<noteq> CHR ''/'' \<and> c \<noteq> CHR ''@''"

definition credentials_at :: "string \<Rightarrow> bool" where
  "credentials_at s \<longleftrightarrow>
     take 3 s = ''://'' \<and>
     CHR '':'' \<in> set (butlast (tl (takeWhile cred_char (drop 3 s)))) \<and>
     take 1 (dropWhile cred_char (drop 3 s)) = ''@''"

function redact_credentials :: "string \<Rightarrow> string" where
  "redact_credentials [] = []"
| "redact_credentials (c # s) =
     (if credentials_at (c # s)
      then ''://[redacted]@'' @ redact_credentials (tl (dropWhile cred_char (drop 3 (c # s))))
      else c # redact_credentials s)"
  by pat_completeness auto
termination
proof (relation "measure length", goal_cases)
  case 1
  show ?case by simp
next
  case (2 c s)
  have "length (tl (dropWhile cred_char (drop 3 (c # s)))) \<le> length (drop 3 (c # s))"
    by (metis diff_le_self length_dropWhile_le length_tl order_trans)
  then show ?case by simp
next
  case (3 c s)
  then show ?case by simp
qed

definition secret_names :: "string list" where
  "secret_names = [''password'', ''token'', ''secret'']"

definition value_char :: "char \<Rightarrow> bool" where
  "value_char c \<longleftrightarrow> \<not> is_space c \<and> c \<noteq> CHR ''&''"

text \<open>The length of \<open>(password|token|secret)=\<close> at the head of \<open>s\<close>, ignoring case; 0 if absent or
  if no value follows.\<close>

definition secret_at :: "string \<Rightarrow> nat" where
  "secret_at s =
     (case filter (\<lambda>k. js_lower (take (length k) s) = k
                     \<and> take 1 (drop (length k) s) = ''=''
                     \<and> takeWhile value_char (drop (Suc (length k)) s) \<noteq> []) secret_names
      of [] \<Rightarrow> 0 | k # _ \<Rightarrow> Suc (length k))"

function redact_secrets :: "string \<Rightarrow> string" where
  "redact_secrets [] = []"
| "redact_secrets (c # s) =
     (let n = secret_at (c # s) in
      if n = 0 then c # redact_secrets s
      else take n (c # s) @ ''[redacted]''
           @ redact_secrets (dropWhile value_char (drop n (c # s))))"
  by pat_completeness auto
termination
proof (relation "measure length", goal_cases)
  case 1
  show ?case by simp
next
  case (2 c s n)
  then show ?case by simp
next
  case (3 c s n)
  have "length (dropWhile value_char (drop n (c # s))) \<le> length (drop n (c # s))"
    by (rule length_dropWhile_le)
  with 3 show ?case by simp
qed

definition sanitizeRollupError :: "string \<Rightarrow> string" where
  "sanitizeRollupError e = take 500 (redact_secrets (redact_credentials e))"

section \<open>The displayed state\<close>

definition STALLED_AFTER_MS :: int where "STALLED_AFTER_MS = 3 * 60 * 1000"
definition MIN_THROUGHPUT_WINDOW_MS :: int where "MIN_THROUGHPUT_WINDOW_MS = 60 * 1000"

record derive_worker_state_input =
  d_applicable :: "bool option"
  d_hardDisabled :: bool
  d_paused :: bool
  d_remaining :: int
  d_activatedAt :: instant
  d_lastStartedAt :: "instant option"
  d_lastSuccessAt :: "instant option"
  d_lastProgressAt :: "instant option"
  d_lastErrorAt :: "instant option"
  d_now :: instant

definition error_unrecovered :: "derive_worker_state_input \<Rightarrow> bool" where
  "error_unrecovered i =
     (case d_lastErrorAt i of
        None \<Rightarrow> False
      | Some e \<Rightarrow> (case d_lastSuccessAt i of None \<Rightarrow> True | Some s \<Rightarrow> e > s))"

definition deriveWorkerState :: "derive_worker_state_input \<Rightarrow> rollup_worker_state" where
  "deriveWorkerState i =
     (if d_applicable i = Some False then Not_applicable
      else if d_hardDisabled i then Disabled
      else if d_paused i then Paused
      else if error_unrecovered i then Error
      else if d_remaining i \<le> 0 then Ready
      else (case d_lastProgressAt i of
        Some p \<Rightarrow> if d_now i - p \<le> STALLED_AFTER_MS then Catching_up else Stalled
      | None \<Rightarrow>
          (case d_lastSuccessAt i of
             None \<Rightarrow>
               (let started = (case d_lastStartedAt i of Some t \<Rightarrow> t | None \<Rightarrow> d_activatedAt i)
                in if d_now i - started \<le> STALLED_AFTER_MS then Starting else Stalled)
           | Some _ \<Rightarrow> Stalled)))"

section \<open>The repository\<close>

definition update_row ::
  "worker_table \<Rightarrow> rollup_worker_name \<Rightarrow> (rollup_worker_record \<Rightarrow> rollup_worker_record)
   \<Rightarrow> worker_table" where
  "update_row tbl w f = tbl(w := map_option f (tbl w))"

definition requireWorkerRow :: "rollup_worker_record option \<Rightarrow> pg_error + rollup_worker_record" where
  "requireWorkerRow row = (case row of None \<Rightarrow> Inl Row_not_found | Some r \<Rightarrow> Inr r)"

definition get_worker :: "worker_table \<Rightarrow> rollup_worker_name \<Rightarrow> pg_error + rollup_worker_record" where
  "get_worker tbl w = requireWorkerRow (tbl w)"

definition setPaused ::
  "worker_table \<Rightarrow> rollup_worker_name \<Rightarrow> bool \<Rightarrow> worker_table \<times> (pg_error + rollup_worker_record)"
where
  "setPaused tbl w p =
     (let tbl' = update_row tbl w (\<lambda>r. r\<lparr>paused := p,
                    eligibleSince := (if p then None else eligibleSince r)\<rparr>)
      in (tbl', requireWorkerRow (tbl' w)))"

definition setEligibility :: "worker_table \<Rightarrow> rollup_worker_name \<Rightarrow> bool \<Rightarrow> instant \<Rightarrow> worker_table"
where
  "setEligibility tbl w eligible now =
     update_row tbl w (\<lambda>r. r\<lparr>eligibleSince :=
       (if eligible then (case eligibleSince r of Some t \<Rightarrow> Some t | None \<Rightarrow> Some now) else None)\<rparr>)"

definition markStarted :: "worker_table \<Rightarrow> rollup_worker_name \<Rightarrow> instant \<Rightarrow> worker_table" where
  "markStarted tbl w now = update_row tbl w (\<lambda>r. r\<lparr>lastStartedAt := Some now\<rparr>)"

definition throughput_sample :: "int \<Rightarrow> int \<Rightarrow> rat" where
  "throughput_sample units durationMs =
     of_int units /
       (of_int (max durationMs MIN_THROUGHPUT_WINDOW_MS) / of_int MIN_THROUGHPUT_WINDOW_MS)"

definition markSucceeded ::
  "worker_table \<Rightarrow> rollup_worker_name \<Rightarrow> instant \<Rightarrow> instant \<Rightarrow> int \<Rightarrow> int \<Rightarrow> worker_table" where
  "markSucceeded tbl w startedAt finishedAt units rows =
     (let durationMs = max 0 (finishedAt - startedAt);
          sample = throughput_sample units durationMs
      in update_row tbl w (\<lambda>r. r\<lparr>
           lastStartedAt := Some startedAt,
           lastFinishedAt := Some finishedAt,
           lastSuccessAt := Some finishedAt,
           lastProgressAt := (if units > 0 then Some finishedAt else lastProgressAt r),
           lastDurationMs := Some durationMs,
           lastProcessedUnits := units,
           lastProcessedRows := rows,
           processedUnitsTotal := processedUnitsTotal r + units,
           processedRowsTotal := processedRowsTotal r + rows,
           throughputUnitsPerMinute :=
             (if units \<le> 0 then throughputUnitsPerMinute r
              else (case throughputUnitsPerMinute r of
                      None \<Rightarrow> Some sample
                    | Some t \<Rightarrow> Some (t * (7/10) + sample * (3/10)))),
           consecutiveFailures := 0,
           nextAttemptAt := None\<rparr>))"

text \<open>
  \<open>LEAST(300, 60 * power(2, consecutive_failures)::integer)\<close>: the cast and the product are
  evaluated before \<open>LEAST\<close>, in 32-bit integers.
\<close>

definition int4_max :: int where "int4_max = 2147483647"

definition backoff_seconds :: "nat \<Rightarrow> pg_error + int" where
  "backoff_seconds failures =
     (if 2 ^ failures > int4_max then Inl Integer_out_of_range
      else if 60 * 2 ^ failures > int4_max then Inl Integer_out_of_range
      else Inr (min 300 (60 * 2 ^ failures)))"

definition markFailed ::
  "worker_table \<Rightarrow> rollup_worker_name \<Rightarrow> instant \<Rightarrow> instant \<Rightarrow> string \<Rightarrow> pg_error + worker_table" where
  "markFailed tbl w startedAt finishedAt err =
     (case tbl w of
        None \<Rightarrow> Inr tbl
      | Some r \<Rightarrow>
          (case backoff_seconds (consecutiveFailures r) of
             Inl e \<Rightarrow> Inl e
           | Inr secs \<Rightarrow>
               Inr (update_row tbl w (\<lambda>r. r\<lparr>
                 lastStartedAt := Some startedAt,
                 lastFinishedAt := Some finishedAt,
                 lastErrorAt := Some finishedAt,
                 lastError := Some (sanitizeRollupError err),
                 lastDurationMs := Some (max 0 (finishedAt - startedAt)),
                 consecutiveFailures := consecutiveFailures r + 1,
                 nextAttemptAt := Some (finishedAt + secs * 1000)\<rparr>))))"

definition setAdaptiveState :: "worker_table \<Rightarrow> rollup_worker_name \<Rightarrow> int \<Rightarrow> load_state \<Rightarrow> worker_table"
where
  "setAdaptiveState tbl w limit ls =
     update_row tbl w (\<lambda>r. r\<lparr>adaptiveLimit := max 1 limit, loadState := ls\<rparr>)"

text \<open>
  \<open>withLoadSlot\<close>: the first component of the state says whether some session holds the advisory
  lock \<open>toard:rollup-load-slot\<close>. \<open>Inr None\<close> is \<open>{ acquired: false }\<close>, \<open>Inl\<close> an exception
  of the operation, which the \<open>finally\<close> block lets through after unlocking.
\<close>

definition withLoadSlot ::
  "('s \<Rightarrow> 's \<times> ('e + 'a)) \<Rightarrow> bool \<times> 's \<Rightarrow> (bool \<times> 's) \<times> ('e + 'a option)" where
  "withLoadSlot operation st =
     (if fst st then (st, Inr None)
      else (let (s', r) = operation (snd st)
            in ((False, s'), (case r of Inl e \<Rightarrow> Inl e | Inr v \<Rightarrow> Inr (Some v)))))"


section \<open>Facts about the error texts\<close>

lemma length_sanitizeRollupError: "length (sanitizeRollupError e) \<le> 500"
  by (simp add: sanitizeRollupError_def)

declare redact_credentials.simps(2) [simp del] redact_secrets.simps(2) [simp del]

lemma redact_credentials_step:
  "\<not> credentials_at (c # s) \<Longrightarrow> redact_credentials (c # s) = c # redact_credentials s"
  by (simp add: redact_credentials.simps)

lemma redact_credentials_match:
  "credentials_at q \<Longrightarrow>
   redact_credentials q
     = ''://[redacted]@'' @ redact_credentials (tl (dropWhile cred_char (drop 3 q)))"
  by (cases q) (auto simp: redact_credentials.simps credentials_at_def)

text \<open>Up to the first match the text is copied; there both texts read \<open>://\<close>.\<close>

lemma redact_credentials_split:
  "\<exists>p q r. s = p @ q \<and> redact_credentials s = p @ r
     \<and> (q = [] \<and> r = [] \<or> take 3 q = ''://'' \<and> take 3 r = ''://'')"
proof (induction s)
  case Nil
  show ?case by simp
next
  case (Cons c s)
  show ?case
  proof (cases "credentials_at (c # s)")
    case True
    then have "take 3 (c # s) = ''://''" by (simp add: credentials_at_def)
    moreover have "take 3 (redact_credentials (c # s)) = ''://''"
      by (simp add: redact_credentials_match [OF True] eval_nat_numeral)
    ultimately show ?thesis by (metis append_Nil)
  next
    case False
    from Cons.IH obtain p q r where pq: "s = p @ q" "redact_credentials s = p @ r"
      and qr: "q = [] \<and> r = [] \<or> take 3 q = ''://'' \<and> take 3 r = ''://''" by blast
    from pq have "c # s = (c # p) @ q" "redact_credentials (c # s) = (c # p) @ r"
      using redact_credentials_step [OF False] by simp_all
    with qr show ?thesis by blast
  qed
qed

text \<open>A match needs no more than \<open>://\<close>, its run and the \<open>@\<close> behind it.\<close>

lemma credentials_at_iff:
  "credentials_at s \<longleftrightarrow>
     (\<exists>run rest. s = ''://'' @ run @ CHR ''@'' # rest \<and> list_all cred_char run
        \<and> CHR '':'' \<in> set (butlast (tl run)))"
proof
  assume c: "credentials_at s"
  let ?run = "takeWhile cred_char (drop 3 s)" and ?more = "dropWhile cred_char (drop 3 s)"
  have "s = take 3 s @ ?run @ ?more" by simp
  moreover obtain rest where "?more = CHR ''@'' # rest"
    using c by (cases ?more) (auto simp: credentials_at_def)
  ultimately have "s = ''://'' @ ?run @ CHR ''@'' # rest"
    using c by (simp add: credentials_at_def)
  moreover have "list_all cred_char ?run" by (auto simp: list_all_iff dest: set_takeWhileD)
  ultimately show "\<exists>run rest. s = ''://'' @ run @ CHR ''@'' # rest \<and> list_all cred_char run
        \<and> CHR '':'' \<in> set (butlast (tl run))"
    using c by (intro exI [of _ ?run] exI [of _ rest]) (simp add: credentials_at_def)
next
  assume "\<exists>run rest. s = ''://'' @ run @ CHR ''@'' # rest \<and> list_all cred_char run
        \<and> CHR '':'' \<in> set (butlast (tl run))"
  then obtain run rest where s: "s = ''://'' @ run @ CHR ''@'' # rest"
    and run: "list_all cred_char run" "CHR '':'' \<in> set (butlast (tl run))" by blast
  have "\<not> cred_char (CHR ''@'')" by (simp add: cred_char_def)
  then have "takeWhile cred_char (drop 3 s) = run" "dropWhile cred_char (drop 3 s) = CHR ''@'' # rest"
    using run(1) by (simp_all add: s eval_nat_numeral list_all_iff)
  then show "credentials_at s" using run(2) by (simp add: credentials_at_def s eval_nat_numeral)
qed

lemma credentials_prefix_in_copied:
  assumes eq: "''//'' @ run @ CHR ''@'' # rest = p @ r"
    and run: "list_all cred_char run" and r: "take 3 r = ''://''"
  shows "\<exists>rest'. p = ''//'' @ run @ CHR ''@'' # rest'"
proof -
  let ?x = "''//'' @ run @ ''@''"
  have xr: "?x @ rest = p @ r" using eq by simp
  obtain z where z: "r = CHR '':'' # CHR ''/'' # z"
    using r by (cases r; cases "tl r") (auto simp: eval_nat_numeral)
  have no_suffix: False if y: "?x = p @ y" "y @ rest = r" "y \<noteq> []" for y
  proof (cases "tl y")
    case Nil
    then have "y = '':''" using y(2,3) z by (cases y) auto
    then have "last ?x = CHR '':''" unfolding y(1) by simp
    then show False by simp
  next
    case (Cons b ys)
    then have yy: "y = CHR '':'' # CHR ''/'' # ys" using y(2,3) z by (cases y) auto
    show False
    proof (cases p)
      case Nil
      then show False using y(1) yy by simp
    next
      case p1: (Cons a p')
      show False
      proof (cases p')
        case Nil
        then show False using y(1) yy p1 by simp
      next
        case (Cons a' p'')
        then have "run @ ''@'' = p'' @ y" using y(1) p1 by simp
        then have "CHR ''/'' \<in> set (run @ ''@'')" using yy by simp
        then show False using run by (auto simp: list_all_iff cred_char_def)
      qed
    qed
  qed
  obtain us where "?x = p @ us \<and> us @ rest = r \<or> ?x @ us = p \<and> rest = us @ r"
    using append_eq_append_conv2 [THEN iffD1, OF xr] by blast
  then have "\<exists>w. p = ?x @ w"
  proof
    assume us: "?x = p @ us \<and> us @ rest = r"
    then have "us = []" using no_suffix by blast
    with us show ?thesis by (intro exI [of _ "[]"]) simp
  qed blast
  then show ?thesis by auto
qed

lemma redact_credentials_none_at_head:
  assumes "\<not> credentials_at (c # s)"
  shows "\<not> credentials_at (c # redact_credentials s)"
proof
  assume m: "credentials_at (c # redact_credentials s)"
  obtain p q r where pq: "s = p @ q" "redact_credentials s = p @ r"
    and qr: "q = [] \<and> r = [] \<or> take 3 q = ''://'' \<and> take 3 r = ''://''"
    using redact_credentials_split by blast
  obtain run rest where c: "c = CHR '':''"
    and eq: "redact_credentials s = ''//'' @ run @ CHR ''@'' # rest"
    and run: "list_all cred_char run" "CHR '':'' \<in> set (butlast (tl run))"
    using m unfolding credentials_at_iff by auto
  obtain rest' where "p = ''//'' @ run @ CHR ''@'' # rest'"
    using qr
  proof
    assume "q = [] \<and> r = []"
    then show thesis using that pq eq by simp
  next
    assume "take 3 q = ''://'' \<and> take 3 r = ''://''"
    then show thesis
      using that credentials_prefix_in_copied [of run rest p r] eq pq(2) run(1) by auto
  qed
  then have "c # s = ''://'' @ run @ CHR ''@'' # (rest' @ q)" using pq(1) c by simp
  then have "credentials_at (c # s)" unfolding credentials_at_iff using run by blast
  then show False using assms by simp
qed

lemma redacted_marker_no_credentials:
  assumes "i < 14"
  shows "\<not> credentials_at (drop i (''://[redacted]@'' @ t))"
proof -
  have at: "\<not> cred_char (CHR ''@'')" by (simp add: cred_char_def)
  have run: "takeWhile cred_char (drop 3 (''://[redacted]@'' @ t)) = ''[redacted]''"
    by (simp add: eval_nat_numeral at) (simp add: cred_char_def is_space_def code_of_def)
  have "i = 0 \<or> take 3 (drop i (''://[redacted]@'' @ t)) \<noteq> ''://''"
    using assms by (cases t) (auto simp: eval_nat_numeral less_Suc_eq)
  then show ?thesis using run by (auto simp: credentials_at_def)
qed

lemma redact_credentials_clean: "\<not> credentials_at (drop i (redact_credentials s))"
proof (induction s arbitrary: i rule: redact_credentials.induct)
  case 1
  show ?case by (simp add: credentials_at_def)
next
  case (2 c s)
  show ?case
  proof (cases "credentials_at (c # s)")
    case True
    let ?t = "redact_credentials (tl (dropWhile cred_char (drop 3 (c # s))))"
    have out: "redact_credentials (c # s) = ''://[redacted]@'' @ ?t"
      by (rule redact_credentials_match [OF True])
    show ?thesis
    proof (cases "i < 14")
      case True
      then show ?thesis unfolding out by (rule redacted_marker_no_credentials)
    next
      case False
      then have "drop i (redact_credentials (c # s)) = drop (i - 14) ?t"
        unfolding out drop_append by (simp add: eval_nat_numeral)
      then show ?thesis using "2.IH"(1) [OF \<open>credentials_at (c # s)\<close>] by simp
    qed
  next
    case False
    then show ?thesis
      using "2.IH"(2) [OF False] redact_credentials_none_at_head [OF False]
      by (cases i) (simp_all add: redact_credentials_step)
  qed
qed


text \<open>whatever the text of an error, what is stored has at most 500 characters, and after the
  first pass of the redaction no position of the text reads \<open>://user:password@\<close> any more: the
  replacement never joins with its surroundings into a new match.\<close>

theorem sanitize_no_url_credentials:
  "length (sanitizeRollupError e) \<le> 500 \<and>
   \<not> (\<exists>pre u v post. redact_credentials e = pre @ ''://'' @ u @ '':'' @ v @ ''@'' @ post
        \<and> u \<noteq> [] \<and> v \<noteq> [] \<and> list_all cred_char (u @ v))"
proof (rule conjI [OF length_sanitizeRollupError], rule notI, elim exE conjE)
  fix pre u v post
  assume out: "redact_credentials e = pre @ ''://'' @ u @ '':'' @ v @ ''@'' @ post"
    and ne: "u \<noteq> []" "v \<noteq> []" and cred: "list_all cred_char (u @ v)"
  let ?run = "u @ '':'' @ v"
  have "list_all cred_char ?run"
    using cred by (auto simp: list_all_iff cred_char_def is_space_def code_of_def)
  moreover have "CHR '':'' \<in> set (butlast (tl ?run))"
    using ne by (cases u) (auto simp: butlast_append)
  ultimately have "credentials_at (drop (length pre) (redact_credentials e))"
    unfolding out credentials_at_iff
    by (intro exI [of _ ?run] exI [of _ post]) simp
  then show False by (simp add: redact_credentials_clean)
qed

section \<open>Facts about the displayed state\<close>

lemma deriveWorkerState_Ready_iff:
  "deriveWorkerState i = Ready \<longleftrightarrow>
     d_applicable i \<noteq> Some False \<and> \<not> d_hardDisabled i \<and> \<not> d_paused i
     \<and> \<not> error_unrecovered i \<and> d_remaining i \<le> 0"
  by (auto simp: deriveWorkerState_def Let_def split: option.splits)

lemma deriveWorkerState_Error_iff:
  "deriveWorkerState i = Error \<longleftrightarrow>
     d_applicable i \<noteq> Some False \<and> \<not> d_hardDisabled i \<and> \<not> d_paused i \<and> error_unrecovered i"
  by (auto simp: deriveWorkerState_def Let_def split: option.splits)

lemma error_unrecovered_now [simp]: "error_unrecovered (i\<lparr>d_now := t\<rparr>) = error_unrecovered i"
  by (simp add: error_unrecovered_def split: option.split)

text \<open>without new reports a worker's displayed state changes in one way only as time passes:
  from \<open>starting\<close> or \<open>catching_up\<close> to \<open>stalled\<close>, and a worker with work left is \<open>stalled\<close> for
  good once its last sign of life is more than three minutes old.\<close>

theorem deriveWorkerState_time:
  assumes "d_now i \<le> t"
  shows "deriveWorkerState (i\<lparr>d_now := t\<rparr>) = deriveWorkerState i \<or>
    deriveWorkerState i \<in> {Starting, Catching_up} \<and> deriveWorkerState (i\<lparr>d_now := t\<rparr>) = Stalled"
  using assms by (auto simp: deriveWorkerState_def Let_def split: option.splits)

theorem deriveWorkerState_time_witness:
  "let i = \<lparr>d_applicable = None, d_hardDisabled = False, d_paused = False, d_remaining = 3,
            d_activatedAt = 0, d_lastStartedAt = None, d_lastSuccessAt = None,
            d_lastProgressAt = Some 1000, d_lastErrorAt = None, d_now = 2000\<rparr>
   in deriveWorkerState i = Catching_up \<and> deriveWorkerState (i\<lparr>d_now := 181001\<rparr>) = Stalled"
proof -
  let ?i = "\<lparr>d_applicable = None, d_hardDisabled = False, d_paused = False, d_remaining = 3,
            d_activatedAt = 0, d_lastStartedAt = None, d_lastSuccessAt = None,
            d_lastProgressAt = Some 1000, d_lastErrorAt = None, d_now = 2000\<rparr>"
  have "deriveWorkerState ?i = Catching_up"
    by (simp add: deriveWorkerState_def error_unrecovered_def STALLED_AFTER_MS_def)
  moreover have "deriveWorkerState (?i\<lparr>d_now := 181001\<rparr>) \<noteq> deriveWorkerState ?i"
    by (simp add: deriveWorkerState_def error_unrecovered_def STALLED_AFTER_MS_def)
  moreover have "d_now ?i \<le> 181001" by simp
  ultimately show ?thesis using deriveWorkerState_time [of ?i 181001] by (simp add: Let_def)
qed

section \<open>Facts about the repository\<close>

lemma update_row_other [simp]: "v \<noteq> w \<Longrightarrow> update_row tbl w f v = tbl v"
  by (simp add: update_row_def)

lemma update_row_same [simp]: "update_row tbl w f w = map_option f (tbl w)"
  by (simp add: update_row_def)

lemma backoff_seconds_eq:
  "backoff_seconds n = (if n \<le> 25 then Inr (min 300 (60 * 2 ^ n)) else Inl Integer_out_of_range)"
proof (cases "n \<le> 25")
  case True
  then have "(2::int) ^ n \<le> 2 ^ 25" by (intro power_increasing) auto
  then show ?thesis using True by (simp add: backoff_seconds_def int4_max_def)
next
  case False
  then have "(2::int) ^ 26 \<le> 2 ^ n" by (intro power_increasing) auto
  then show ?thesis using False by (simp add: backoff_seconds_def int4_max_def)
qed

lemma backoff_seconds_bounds:
  "backoff_seconds n = Inr s \<Longrightarrow> 60 \<le> s \<and> s \<le> 300"
  using one_le_power [of "2::int" n] by (auto simp: backoff_seconds_eq split: if_splits)

lemma markFailed_eq:
  "tbl w = Some r \<Longrightarrow> markFailed tbl w s f e =
     (if consecutiveFailures r \<le> 25
      then Inr (update_row tbl w (\<lambda>r. r\<lparr>
                 lastStartedAt := Some s, lastFinishedAt := Some f, lastErrorAt := Some f,
                 lastError := Some (sanitizeRollupError e),
                 lastDurationMs := Some (max 0 (f - s)),
                 consecutiveFailures := consecutiveFailures r + 1,
                 nextAttemptAt := Some (f + min 300 (60 * 2 ^ consecutiveFailures r) * 1000)\<rparr>))
      else Inl Integer_out_of_range)"
  by (auto simp: markFailed_def backoff_seconds_eq update_row_def fun_eq_iff)

text \<open>A run of failing attempts \<open>(startedAt, finishedAt, error)\<close>; an exception ends it.\<close>

fun failing_run ::
  "worker_table \<Rightarrow> rollup_worker_name \<Rightarrow> (instant \<times> instant \<times> string) list
   \<Rightarrow> pg_error + worker_table" where
  "failing_run tbl w [] = Inr tbl"
| "failing_run tbl w ((s, f, e) # as) =
     (case markFailed tbl w s f e of Inl err \<Rightarrow> Inl err | Inr tbl' \<Rightarrow> failing_run tbl' w as)"

text \<open>C40: repeated failures back off by 60, 120, 240 and then 300 seconds, but the 32-bit product in
  the SQL overflows at the 27th failure in a row: from then on \<open>markFailed\<close> raises, and neither the
  error nor the next attempt is stored.\<close>

theorem failing_run_overflows:
  assumes "tbl w = Some r" and "consecutiveFailures r \<le> 26"
  shows "failing_run tbl w as = Inl Integer_out_of_range
           \<longleftrightarrow> 26 < consecutiveFailures r + length as"
  using assms
proof (induction as arbitrary: tbl r)
  case Nil
  then show ?case by simp
next
  case (Cons a as)
  obtain s f e where a: "a = (s, f, e)" by (cases a)
  show ?case
  proof (cases "consecutiveFailures r \<le> 25")
    case True
    then show ?thesis using Cons.prems by (subst a) (simp add: markFailed_eq Cons.IH)
  next
    case False
    then show ?thesis using Cons.prems by (simp add: a markFailed_eq)
  qed
qed


theorem failing_run_overflows_witness:
  "failing_run [Timezone \<mapsto> initial_worker_row Timezone 0] Timezone
      (replicate 27 (0, 1000, ''timeout'')) = Inl Integer_out_of_range
   \<and> failing_run [Timezone \<mapsto> initial_worker_row Timezone 0] Timezone
      (replicate 26 (0, 1000, ''timeout'')) \<noteq> Inl Integer_out_of_range"
  using failing_run_overflows [of "[Timezone \<mapsto> initial_worker_row Timezone 0]" Timezone
      "initial_worker_row Timezone 0"]
  by (simp add: initial_worker_row_def)

end
