(* ===== verification/Rollup_Cutover.thy ===== *)
theory Rollup_Cutover
  imports Rollup_Worker_State
begin

text \<open>
  \<open>apps/web/lib/rollup-cutover-state.ts\<close> and \<open>rollup-cutover.ts\<close>: the state machine that decides
  when queries may read the rolled-up tables. Each of the two layers has a row in
  \<open>clickhouse_rollup_cutover_status\<close>; a layer is backfilled, validated, observed for an hour,
  validated again and only then active, and it falls back on a mismatch or on the third failure
  in a row.

  The functions with suffix \<open>With\<close> take their environment as a record of operations, as in the
  code; the repository is an interface (locale \<open>cutover_repository\<close>), which
  \<open>PgRollupCutoverRepository\<close> implements on the model of the table.
\<close>

section \<open>Rows and the repository\<close>

datatype cutover_layer = Layer_usage_15m_v2 | Layer_timezone
datatype cutover_state = Backfilling | Observing | Active | Fallback
datatype failure_kind = Mismatch | Lag | Unavailable

record cutover_update =
  cut_state :: cutover_state
  targetWatermark :: "instant option"
  healthySeconds :: int
  lastCheckedAt :: "instant option"
  lastValidationAt :: "instant option"
  cut_failures :: int
  lastFailureKind :: "failure_kind option"
  lastFailure :: "string option"
  cut_activatedAt :: "instant option"

record cutover_record = cutover_update +
  cut_layer :: cutover_layer
  cut_updatedAt :: instant

type_synonym exn = string

text \<open>\<open>layer\<close> is the primary key, so the row found for a layer carries it.\<close>

definition mapRow :: "cutover_layer \<Rightarrow> cutover_record \<Rightarrow> cutover_record" where
  "mapRow layer r = r\<lparr>cut_layer := layer\<rparr>"

definition requireRow :: "cutover_layer \<Rightarrow> cutover_record option \<Rightarrow> exn + cutover_record" where
  "requireRow layer row =
     (case row of None \<Rightarrow> Inl ''Rollup cutover status not found''
      | Some r \<Rightarrow> Inr (mapRow layer r))"

text \<open>The database: the rows, its clock, and the transitions written to the log.\<close>

record cutover_db =
  cut_rows :: "cutover_layer \<Rightarrow> cutover_record option"
  db_now :: instant
  cut_log :: "(cutover_layer \<times> cutover_state \<times> cutover_state \<times> instant option) list"

definition pg_get :: "cutover_layer \<Rightarrow> (cutover_db, exn, cutover_record) io" where
  "pg_get layer db = (db, requireRow layer (cut_rows db layer))"

definition stored_row :: "cutover_layer \<Rightarrow> instant \<Rightarrow> cutover_update \<Rightarrow> cutover_record" where
  "stored_row layer now u =
     \<lparr>cut_state = cut_state u, targetWatermark = targetWatermark u,
      healthySeconds = max 0 (healthySeconds u),
      lastCheckedAt = lastCheckedAt u, lastValidationAt = lastValidationAt u,
      cut_failures = max 0 (cut_failures u),
      lastFailureKind = lastFailureKind u,
      lastFailure = map_option sanitizeRollupError (lastFailure u),
      cut_activatedAt = cut_activatedAt u, cut_layer = layer, cut_updatedAt = now\<rparr>"

definition pg_save ::
  "cutover_layer \<Rightarrow> cutover_update \<Rightarrow> (cutover_db, exn, cutover_record) io" where
  "pg_save layer u db =
     (case cut_rows db layer of
        None \<Rightarrow> (db, requireRow layer None)
      | Some _ \<Rightarrow>
          (let r = stored_row layer (db_now db) u
           in (db\<lparr>cut_rows := (cut_rows db)(layer \<mapsto> r)\<rparr>, requireRow layer (Some r))))"

definition pg_logTransition ::
  "cutover_layer \<Rightarrow> cutover_state \<Rightarrow> cutover_state \<Rightarrow> instant option \<Rightarrow> cutover_db \<Rightarrow> cutover_db"
where
  "pg_logTransition layer from_state to_state target db =
     db\<lparr>cut_log := cut_log db @ [(layer, from_state, to_state, target)]\<rparr>"

section \<open>Readiness\<close>

definition REQUIRED_HEALTHY_SECONDS :: int where "REQUIRED_HEALTHY_SECONDS = 60 * 60"
definition ACTIVE_VALIDATION_INTERVAL_MS :: int where
  "ACTIVE_VALIDATION_INTERVAL_MS = 6 * 60 * 60 * 1000"
definition MAX_TRANSIENT_FAILURES :: int where "MAX_TRANSIENT_FAILURES = 3"
definition MAX_OBSERVATION_INCREMENT_SECONDS :: int where "MAX_OBSERVATION_INCREMENT_SECONDS = 60"
definition VALIDATION_RETRY_DELAY_MS :: int where "VALIDATION_RETRY_DELAY_MS = 60 * 1000"
definition FIFTEEN_MINUTES_MS :: int where "FIFTEEN_MINUTES_MS = 15 * 60 * 1000"
definition DEFAULT_FINALIZE_DELAY_MS :: int where "DEFAULT_FINALIZE_DELAY_MS = 30 * 60 * 1000"
definition MAX_TIMEZONE_PENDING_JOBS :: int where "MAX_TIMEZONE_PENDING_JOBS = 10000"

lemmas cutover_constants = REQUIRED_HEALTHY_SECONDS_def ACTIVE_VALIDATION_INTERVAL_MS_def
  MAX_TRANSIENT_FAILURES_def MAX_OBSERVATION_INCREMENT_SECONDS_def VALIDATION_RETRY_DELAY_MS_def
  FIFTEEN_MINUTES_MS_def DEFAULT_FINALIZE_DELAY_MS_def MAX_TIMEZONE_PENDING_JOBS_def

record validation_result =
  v_ok :: bool
  v_kind :: "failure_kind option"
  v_detail :: "string option"

record layer_readiness =
  ready :: bool
  validationReady :: "bool option"
  forceValidation :: "bool option"
  r_kind :: "failure_kind option"
  r_detail :: "string option"
  activeTimezones :: "string list"

text \<open>
  \<open>rollupEligibleTargetAt\<close>: \<open>configured\<close> is \<open>Number(env.CLICKHOUSE_ROLLUP_FINALIZE_DELAY_MS)\<close>,
  \<open>None\<close> when that is not finite; the instant is \<open>None\<close> for an invalid date.
\<close>

definition rollupEligibleTargetAt :: "instant option \<Rightarrow> rat option \<Rightarrow> exn + instant" where
  "rollupEligibleTargetAt now configured =
     (case now of
        None \<Rightarrow> Inl ''invalid rollup cutover time''
      | Some t \<Rightarrow>
          (let delayMs = (case configured of
                            Some d \<Rightarrow> if d > 0 then \<lfloor>d\<rfloor> else DEFAULT_FINALIZE_DELAY_MS
                          | None \<Rightarrow> DEFAULT_FINALIZE_DELAY_MS)
           in Inr ((t - delayMs) div FIFTEEN_MINUTES_MS * FIFTEEN_MINUTES_MS)))"

text \<open>
  The answers of the queries of \<open>loadRollupLayerReadinessWith\<close>: the watermark, the number of dirty
  buckets, the outstanding jobs, and the time zones with their time of validation.
\<close>

record readiness_rows =
  q_watermark :: "instant option"
  q_dirty :: int
  q_pending :: int
  q_inflight :: int
  q_timezones :: "(string \<times> instant option) list"

definition loadRollupLayerReadiness ::
  "readiness_rows \<Rightarrow> cutover_layer \<Rightarrow> instant \<Rightarrow> cutover_state \<Rightarrow> layer_readiness" where
  "loadRollupLayerReadiness q layer target state =
     (case layer of
        Layer_usage_15m_v2 \<Rightarrow>
          (let rdy = (case q_watermark q of None \<Rightarrow> False | Some w \<Rightarrow> w \<ge> target) \<and> q_dirty q = 0
           in \<lparr>ready = rdy, validationReady = Some rdy, forceValidation = None,
               r_kind = (if rdy then None else Some Lag),
               r_detail = (if rdy then None else Some ''15m watermark/dirty not ready''),
               activeTimezones = map fst (q_timezones q)\<rparr>)
      | Layer_timezone \<Rightarrow>
          (let outstanding = q_pending q + q_inflight q;
               hasUnvalidatedTimezone = (\<exists>z \<in> set (q_timezones q). snd z = None);
               rdy = (if state = Active then outstanding \<le> MAX_TIMEZONE_PENDING_JOBS
                      else outstanding = 0)
           in \<lparr>ready = rdy, validationReady = Some (outstanding = 0),
               forceValidation =
                 Some (state = Active \<and> outstanding = 0 \<and> hasUnvalidatedTimezone),
               r_kind = (if rdy then None else Some Lag),
               r_detail = (if rdy then None else Some ''timezone rollup jobs outstanding''),
               activeTimezones = map fst (q_timezones q)\<rparr>))"

definition elapsedHealthySeconds :: "cutover_record \<Rightarrow> instant \<Rightarrow> int" where
  "elapsedHealthySeconds r now =
     (case lastCheckedAt r of
        None \<Rightarrow> 0
      | Some t \<Rightarrow> max 0 (min MAX_OBSERVATION_INCREMENT_SECONDS ((now - t) div 1000)))"

definition recurringValidationDue :: "cutover_record \<Rightarrow> instant \<Rightarrow> bool" where
  "recurringValidationDue r now =
     (case lastValidationAt r of
        None \<Rightarrow> True | Some t \<Rightarrow> now - t \<ge> ACTIVE_VALIDATION_INTERVAL_MS)"

definition validationRetryDue :: "cutover_record \<Rightarrow> instant \<Rightarrow> bool" where
  "validationRetryDue r now =
     (lastFailureKind r = None \<or>
      (case lastCheckedAt r of
         None \<Rightarrow> True | Some t \<Rightarrow> now - t \<ge> VALIDATION_RETRY_DELAY_MS))"

section \<open>Transitions\<close>

datatype validation_scope = Initial | Recurring

text \<open>\<open>readiness\<close> and \<open>validate\<close> may throw; \<open>Inl\<close> carries \<open>String(error)\<close>.\<close>

record 'w cutover_deps =
  dep_get :: "cutover_layer \<Rightarrow> ('w, exn, cutover_record) io"
  dep_save :: "cutover_layer \<Rightarrow> cutover_update \<Rightarrow> ('w, exn, cutover_record) io"
  dep_eligibleTarget :: "instant \<Rightarrow> instant"
  dep_readiness :: "cutover_layer \<Rightarrow> instant \<Rightarrow> cutover_state \<Rightarrow> exn + layer_readiness"
  dep_validate ::
    "cutover_layer \<Rightarrow> instant \<Rightarrow> string list \<Rightarrow> validation_scope \<Rightarrow> exn + validation_result"
  dep_logTransition ::
    "cutover_layer \<Rightarrow> cutover_state \<Rightarrow> cutover_state \<Rightarrow> instant option \<Rightarrow> 'w \<Rightarrow> 'w"

definition runValidation ::
  "'w cutover_deps \<Rightarrow> cutover_layer \<Rightarrow> instant \<Rightarrow> string list \<Rightarrow> validation_scope
   \<Rightarrow> validation_result" where
  "runValidation deps layer target zones scope =
     (case dep_validate deps layer target zones scope of
        Inl err \<Rightarrow> \<lparr>v_ok = False, v_kind = Some Unavailable, v_detail = Some err\<rparr>
      | Inr res \<Rightarrow> res)"

definition saveTransition ::
  "'w cutover_deps \<Rightarrow> cutover_record \<Rightarrow> cutover_update \<Rightarrow> ('w, exn, cutover_record) io" where
  "saveTransition deps r update =
     bindE (dep_save deps (cut_layer r) update)
       (\<lambda>saved w.
          (if cut_state r \<noteq> cut_state saved
           then dep_logTransition deps (cut_layer r) (cut_state r) (cut_state saved)
                  (targetWatermark saved) w
           else w, Inr saved))"

definition baseUpdate :: "cutover_record \<Rightarrow> instant \<Rightarrow> cutover_update" where
  "baseUpdate r now =
     \<lparr>cut_state = cut_state r, targetWatermark = targetWatermark r,
      healthySeconds = healthySeconds r, lastCheckedAt = Some now,
      lastValidationAt = lastValidationAt r, cut_failures = cut_failures r,
      lastFailureKind = lastFailureKind r, lastFailure = lastFailure r,
      cut_activatedAt = cut_activatedAt r\<rparr>"

definition clearedUpdate :: "cutover_record \<Rightarrow> instant \<Rightarrow> cutover_update" where
  "clearedUpdate r now =
     (baseUpdate r now)\<lparr>cut_failures := 0, lastFailureKind := None, lastFailure := None\<rparr>"

definition unhealthyUpdate ::
  "cutover_record \<Rightarrow> instant \<Rightarrow> failure_kind \<Rightarrow> string option \<Rightarrow> cutover_update" where
  "unhealthyUpdate r now kind detail =
     (let failures = (if cut_state r = Active then cut_failures r + 1 else cut_failures r);
          fallback = (cut_state r = Active \<and> failures \<ge> MAX_TRANSIENT_FAILURES)
      in (baseUpdate r now)\<lparr>
           cut_state := (if fallback then Fallback else cut_state r),
           cut_failures := failures, lastFailureKind := Some kind, lastFailure := detail\<rparr>)"

definition recordUnhealthy ::
  "'w cutover_deps \<Rightarrow> cutover_record \<Rightarrow> instant \<Rightarrow> failure_kind \<Rightarrow> string option
   \<Rightarrow> ('w, exn, cutover_record) io" where
  "recordUnhealthy deps r now kind detail =
     saveTransition deps r (unhealthyUpdate r now kind detail)"

definition validationFailureUpdate ::
  "cutover_record \<Rightarrow> instant \<Rightarrow> validation_result \<Rightarrow> cutover_update" where
  "validationFailureUpdate r now res =
     (let kind = (case v_kind res of Some k \<Rightarrow> k | None \<Rightarrow> Unavailable);
          failures = cut_failures r + 1;
          fallback = (kind = Mismatch
                      \<or> (cut_state r = Active \<and> failures \<ge> MAX_TRANSIENT_FAILURES))
      in (baseUpdate r now)\<lparr>
           cut_state := (if fallback then Fallback else cut_state r),
           cut_failures := failures, lastFailureKind := Some kind, lastFailure := v_detail res\<rparr>)"

definition recordValidationFailure ::
  "'w cutover_deps \<Rightarrow> cutover_record \<Rightarrow> instant \<Rightarrow> validation_result
   \<Rightarrow> ('w, exn, cutover_record) io" where
  "recordValidationFailure deps r now res =
     saveTransition deps r (validationFailureUpdate r now res)"

record validation_task =
  t_layer :: cutover_layer
  t_target :: instant
  t_scope :: validation_scope
  t_activeTimezones :: "string list"

definition reconcileTarget :: "cutover_record \<Rightarrow> instant \<Rightarrow> instant" where
  "reconcileTarget r eligibleTarget =
     (case targetWatermark r of
        Some t \<Rightarrow> if cut_state r = Observing then t else eligibleTarget
      | None \<Rightarrow> eligibleTarget)"

definition observedSeconds :: "cutover_record \<Rightarrow> instant \<Rightarrow> int" where
  "observedSeconds r now =
     min REQUIRED_HEALTHY_SECONDS (healthySeconds r + elapsedHealthySeconds r now)"

definition kind_or_unavailable :: "failure_kind option \<Rightarrow> failure_kind" where
  "kind_or_unavailable k = (case k of Some x \<Rightarrow> x | None \<Rightarrow> Unavailable)"

definition save_only ::
  "'w cutover_deps \<Rightarrow> cutover_record \<Rightarrow> cutover_update
   \<Rightarrow> ('w, exn, cutover_record \<times> validation_task option) io" where
  "save_only deps r u = bindE (saveTransition deps r u) (\<lambda>saved. returnE (saved, None))"

definition save_and_validate ::
  "'w cutover_deps \<Rightarrow> cutover_record \<Rightarrow> cutover_update \<Rightarrow> instant \<Rightarrow> validation_scope
   \<Rightarrow> string list \<Rightarrow> ('w, exn, cutover_record \<times> validation_task option) io" where
  "save_and_validate deps r u target scope zones =
     bindE (saveTransition deps r u) (\<lambda>saved. returnE (saved,
       Some \<lparr>t_layer = cut_layer r, t_target = target, t_scope = scope,
             t_activeTimezones = zones\<rparr>))"

definition reconcileLayer ::
  "'w cutover_deps \<Rightarrow> cutover_record \<Rightarrow> instant \<Rightarrow> instant
   \<Rightarrow> ('w, exn, cutover_record \<times> validation_task option) io" where
  "reconcileLayer deps r now eligibleTarget =
     (let target = reconcileTarget r eligibleTarget in
      case dep_readiness deps (cut_layer r) target (cut_state r) of
        Inl err \<Rightarrow> save_only deps r (unhealthyUpdate r now Unavailable (Some err))
      | Inr rd \<Rightarrow>
          if \<not> ready rd
          then save_only deps r
                 (unhealthyUpdate r now (kind_or_unavailable (r_kind rd)) (r_detail rd))
          else if \<not> validationRetryDue r now then returnE (r, None)
          else if cut_state r = Backfilling \<or> cut_state r = Fallback
          then save_and_validate deps r (baseUpdate r now) target Initial (activeTimezones rd)
          else if cut_state r = Observing
          then (if observedSeconds r now < REQUIRED_HEALTHY_SECONDS
                then save_only deps r
                       ((clearedUpdate r now)\<lparr>healthySeconds := observedSeconds r now\<rparr>)
                else save_and_validate deps r
                       ((baseUpdate r now)\<lparr>healthySeconds := observedSeconds r now\<rparr>)
                       target Initial (activeTimezones rd))
          else if forceValidation rd \<noteq> Some True \<and> \<not> recurringValidationDue r now
          then save_only deps r (clearedUpdate r now)
          else if validationReady rd = Some False
          then save_only deps r (clearedUpdate r now)
          else save_and_validate deps r (baseUpdate r now) target Recurring (activeTimezones rd))"

definition resetUpdate :: "cutover_record \<Rightarrow> instant \<Rightarrow> cutover_update" where
  "resetUpdate r now =
     (clearedUpdate r now)\<lparr>cut_state := Backfilling, targetWatermark := None,
        healthySeconds := 0, cut_activatedAt := None\<rparr>"

definition reconcileRollupCutoverWith ::
  "'w cutover_deps \<Rightarrow> instant option \<Rightarrow> ('w, exn, validation_task option) io" where
  "reconcileRollupCutoverWith deps nowDate =
     (case nowDate of
        None \<Rightarrow> throwE ''invalid rollup cutover time''
      | Some now \<Rightarrow>
        (let eligibleTarget = dep_eligibleTarget deps now in
         bindE (dep_get deps Layer_usage_15m_v2) (\<lambda>u.
         bindE (reconcileLayer deps u now eligibleTarget) (\<lambda>(usage, usageValidation).
         if usageValidation \<noteq> None then returnE usageValidation
         else bindE (dep_get deps Layer_timezone) (\<lambda>tz.
           if cut_state usage \<noteq> Active
           then (if cut_state tz \<noteq> Backfilling \<or> targetWatermark tz \<noteq> None
                    \<or> healthySeconds tz \<noteq> 0
                 then bindE (saveTransition deps tz (resetUpdate tz now)) (\<lambda>_. returnE None)
                 else returnE None)
           else
             (let timezoneTarget =
                    (if cut_state tz = Active \<or> cut_activatedAt tz \<noteq> None then eligibleTarget
                     else (case targetWatermark usage of Some t \<Rightarrow> t | None \<Rightarrow> eligibleTarget))
              in bindE (reconcileLayer deps tz now timezoneTarget)
                   (\<lambda>(_, tzValidation). returnE tzValidation)))))))"

datatype validation_outcome = Success | Failed | Superseded

definition outcome_after ::
  "('w, exn, cutover_record) io \<Rightarrow> validation_outcome \<Rightarrow> ('w, exn, validation_outcome) io" where
  "outcome_after m res = bindE m (\<lambda>_. returnE res)"

definition executeRollupValidationWith ::
  "validation_task \<Rightarrow> 'w cutover_deps \<Rightarrow> instant \<Rightarrow> ('w, exn, validation_outcome) io" where
  "executeRollupValidationWith task deps now =
     bindE (dep_get deps (t_layer task)) (\<lambda>r.
       if (t_scope task = Recurring \<and> cut_state r \<noteq> Active)
          \<or> (t_scope task = Initial \<and> cut_state r \<notin> {Backfilling, Fallback, Observing})
       then returnE Superseded
       else (case dep_readiness deps (t_layer task) (t_target task) (cut_state r) of
         Inl err \<Rightarrow> outcome_after (recordUnhealthy deps r now Unavailable (Some err)) Failed
       | Inr rd \<Rightarrow>
         if \<not> ready rd
         then outcome_after (recordUnhealthy deps r now (kind_or_unavailable (r_kind rd))
                (r_detail rd)) Superseded
         else if t_scope task = Recurring \<and> validationReady rd = Some False
         then outcome_after (saveTransition deps r (clearedUpdate r now)) Superseded
         else
           (let validation = runValidation deps (t_layer task) (t_target task)
                               (activeTimezones rd) (t_scope task) in
            if \<not> v_ok validation
            then outcome_after (recordValidationFailure deps r now validation) Failed
            else if t_scope task = Recurring
            then outcome_after (saveTransition deps r
                   ((clearedUpdate r now)\<lparr>lastValidationAt := Some now\<rparr>)) Success
            else if cut_state r = Observing
            then (if healthySeconds r < REQUIRED_HEALTHY_SECONDS then returnE Superseded
                  else outcome_after (saveTransition deps r
                    ((clearedUpdate r now)\<lparr>cut_state := Active, lastValidationAt := Some now,
                       cut_activatedAt := Some now\<rparr>)) Success)
            else outcome_after (saveTransition deps r
                   ((clearedUpdate r now)\<lparr>cut_state := Observing,
                      targetWatermark := Some (t_target task), healthySeconds := 0,
                      lastValidationAt := Some now, cut_activatedAt := None\<rparr>)) Success)))"

definition advanceRollupCutoverWith ::
  "'w cutover_deps \<Rightarrow> instant \<Rightarrow> ('w, exn, unit) io" where
  "advanceRollupCutoverWith deps now =
     bindE (reconcileRollupCutoverWith deps (Some now)) (\<lambda>validation.
       case validation of
         None \<Rightarrow> returnE ()
       | Some task \<Rightarrow> bindE (executeRollupValidationWith task deps now) (\<lambda>_. returnE ()))"

end
