(* ===== verification/Rollup_Cutover_Proofs.thy ===== *)
theory Rollup_Cutover_Proofs
  imports Rollup_Cutover
begin

text \<open>
  The abstract state machine of a cutover row (\<open>cutover_step\<close>), the invariant of a row
  (\<open>row_ok\<close>), the contract of the repository (locale \<open>cutover_repository\<close>) with the refinement
  proofs for \<open>reconcileRollupCutoverWith\<close> and \<open>executeRollupValidationWith\<close>, its interpretation on the
  model of the table, and the properties of the cutover.
\<close>

section \<open>The abstract state machine\<close>

inductive cutover_step :: "instant \<Rightarrow> cutover_record \<Rightarrow> cutover_update \<Rightarrow> bool" where
  unhealthy: "cutover_step now r (unhealthyUpdate r now kind detail)"
| failed_validation: "cutover_step now r (validationFailureUpdate r now res)"
| scheduled: "cutover_step now r (baseUpdate r now)"
| checked: "cut_state r = Active \<Longrightarrow> cutover_step now r (clearedUpdate r now)"
| observed: "cut_state r = Observing \<Longrightarrow> observedSeconds r now < REQUIRED_HEALTHY_SECONDS \<Longrightarrow>
    cutover_step now r ((clearedUpdate r now)\<lparr>healthySeconds := observedSeconds r now\<rparr>)"
| observed_enough: "cut_state r = Observing \<Longrightarrow>
    cutover_step now r ((baseUpdate r now)\<lparr>healthySeconds := observedSeconds r now\<rparr>)"
| revalidated: "cut_state r = Active \<Longrightarrow>
    cutover_step now r ((clearedUpdate r now)\<lparr>lastValidationAt := Some now\<rparr>)"
| activated: "cut_state r = Observing \<Longrightarrow> REQUIRED_HEALTHY_SECONDS \<le> healthySeconds r \<Longrightarrow>
    cutover_step now r ((clearedUpdate r now)\<lparr>cut_state := Active,
      lastValidationAt := Some now, cut_activatedAt := Some now\<rparr>)"
| validated: "cut_state r = Backfilling \<or> cut_state r = Fallback \<Longrightarrow>
    cutover_step now r ((clearedUpdate r now)\<lparr>cut_state := Observing,
      targetWatermark := Some target, healthySeconds := 0,
      lastValidationAt := Some now, cut_activatedAt := None\<rparr>)"
| reset: "cutover_step now r (resetUpdate r now)"

type_synonym cutover_view = "cutover_layer \<Rightarrow> cutover_record option"

text \<open>A step of some kind \<open>P\<close> on one of the rows.\<close>

inductive row_step ::
  "(cutover_record \<Rightarrow> cutover_update \<Rightarrow> bool) \<Rightarrow> cutover_view \<Rightarrow> cutover_view \<Rightarrow> bool" for P where
  row_step: "v l = Some r \<Longrightarrow> P r u \<Longrightarrow> row_step P v (v(l \<mapsto> stored_row l t u))"

text \<open>The steps that do not activate a layer.\<close>

definition quiet_step :: "instant \<Rightarrow> cutover_record \<Rightarrow> cutover_update \<Rightarrow> bool" where
  "quiet_step now r u \<longleftrightarrow> cutover_step now r u \<and> (cut_state u = Active \<longrightarrow> cut_state r = Active)"

lemma stored_row_simps [simp]:
  "cut_state (stored_row l t u) = cut_state u"
  "targetWatermark (stored_row l t u) = targetWatermark u"
  "healthySeconds (stored_row l t u) = max 0 (healthySeconds u)"
  "lastCheckedAt (stored_row l t u) = lastCheckedAt u"
  "lastValidationAt (stored_row l t u) = lastValidationAt u"
  "cut_failures (stored_row l t u) = max 0 (cut_failures u)"
  "lastFailureKind (stored_row l t u) = lastFailureKind u"
  "cut_activatedAt (stored_row l t u) = cut_activatedAt u"
  "cut_layer (stored_row l t u) = l"
  by (simp_all add: stored_row_def)

lemmas update_defs = baseUpdate_def clearedUpdate_def unhealthyUpdate_def
  validationFailureUpdate_def resetUpdate_def

lemma quiet_rules:
  "quiet_step now r (unhealthyUpdate r now kind detail)"
  "quiet_step now r (baseUpdate r now)"
  "cut_state r = Active \<Longrightarrow> quiet_step now r (clearedUpdate r now)"
  "cut_state r = Observing \<Longrightarrow> observedSeconds r now < REQUIRED_HEALTHY_SECONDS \<Longrightarrow>
    quiet_step now r ((clearedUpdate r now)\<lparr>healthySeconds := observedSeconds r now\<rparr>)"
  "cut_state r = Observing \<Longrightarrow>
    quiet_step now r ((baseUpdate r now)\<lparr>healthySeconds := observedSeconds r now\<rparr>)"
  "quiet_step now r (resetUpdate r now)"
  by (auto simp: quiet_step_def intro: cutover_step.intros)
    (auto simp: update_defs Let_def split: if_splits)

section \<open>The invariant of a row\<close>

definition checked_by :: "instant \<Rightarrow> cutover_record \<Rightarrow> bool" where
  "checked_by t r = (case lastCheckedAt r of None \<Rightarrow> True | Some c \<Rightarrow> c \<le> t)"

fun state_ok :: "cutover_state \<Rightarrow> instant \<Rightarrow> cutover_record \<Rightarrow> bool" where
  "state_ok Backfilling t r =
     (healthySeconds r = 0 \<and> targetWatermark r = None \<and> cut_activatedAt r = None)"
| "state_ok Observing t r =
     (targetWatermark r \<noteq> None \<and> cut_activatedAt r = None \<and>
      (\<exists>v c. lastValidationAt r = Some v \<and> lastCheckedAt r = Some c
         \<and> 1000 * healthySeconds r \<le> c - v))"
| "state_ok Active t r =
     (targetWatermark r \<noteq> None \<and> healthySeconds r = REQUIRED_HEALTHY_SECONDS
      \<and> cut_failures r < MAX_TRANSIENT_FAILURES \<and>
      (\<exists>a v. cut_activatedAt r = Some a \<and> lastValidationAt r = Some v \<and> a \<le> v \<and> v \<le> t))"
| "state_ok Fallback t r = True"

definition row_ok :: "instant \<Rightarrow> cutover_record \<Rightarrow> bool" where
  "row_ok t r \<longleftrightarrow>
     checked_by t r \<and> 0 \<le> healthySeconds r \<and> healthySeconds r \<le> REQUIRED_HEALTHY_SECONDS
     \<and> 0 \<le> cut_failures r \<and> state_ok (cut_state r) t r"

lemma row_ok_later: "row_ok t r \<Longrightarrow> t \<le> now \<Longrightarrow> row_ok now r"
  by (cases "cut_state r") (auto simp: row_ok_def checked_by_def split: option.splits)

lemma elapsed_nonneg: "0 \<le> elapsedHealthySeconds r now"
  by (simp add: elapsedHealthySeconds_def split: option.split)

lemma elapsed_le:
  assumes "lastCheckedAt r = Some c" "c \<le> now"
  shows "1000 * elapsedHealthySeconds r now \<le> now - c"
proof -
  have "(now - c) div 1000 * 1000 \<le> now - c" by simp
  with assms show ?thesis by (simp add: elapsedHealthySeconds_def max_def min_def)
qed

lemma observed_bound:
  assumes "row_ok now r" "cut_state r = Observing"
  shows "\<exists>v. lastValidationAt r = Some v \<and> 1000 * observedSeconds r now \<le> now - v
           \<and> 0 \<le> observedSeconds r now \<and> observedSeconds r now \<le> REQUIRED_HEALTHY_SECONDS"
proof -
  from assms obtain v c where vc: "lastValidationAt r = Some v" "lastCheckedAt r = Some c"
    "1000 * healthySeconds r \<le> c - v" "c \<le> now" "0 \<le> healthySeconds r"
    by (auto simp: row_ok_def checked_by_def)
  have "1000 * (healthySeconds r + elapsedHealthySeconds r now) \<le> now - v"
    using elapsed_le [OF vc(2,4)] vc(3) by (simp add: distrib_left)
  moreover have "observedSeconds r now \<le> healthySeconds r + elapsedHealthySeconds r now"
    by (simp add: observedSeconds_def)
  ultimately have "1000 * observedSeconds r now \<le> now - v"
    using mult_left_mono [of "observedSeconds r now" _ 1000] by (meson order_trans zero_le_numeral)
  then show ?thesis
    using vc(1,5) elapsed_nonneg [of r now] by (simp add: observedSeconds_def cutover_constants)
qed

lemma cutover_step_row_ok:
  assumes "cutover_step now r u" and ok: "row_ok now r"
  shows "row_ok now (stored_row l t u)"
  using assms(1)
proof cases
  case (unhealthy kind detail)
  then show ?thesis
    using ok by (cases "cut_state r")
      (auto simp: row_ok_def checked_by_def update_defs Let_def cutover_constants
        split: option.splits)
next
  case (failed_validation res)
  then show ?thesis
    using ok by (cases "cut_state r")
      (auto simp: row_ok_def checked_by_def update_defs Let_def cutover_constants
        split: option.splits)
next
  case observed
  then show ?thesis
    using ok observed_bound [OF ok] by (auto simp: row_ok_def checked_by_def update_defs)
next
  case observed_enough
  then show ?thesis
    using ok observed_bound [OF ok] by (auto simp: row_ok_def checked_by_def update_defs)
qed (use ok in \<open>cases "cut_state r";
       auto simp: row_ok_def checked_by_def update_defs cutover_constants split: option.splits\<close>)+

text \<open>Which steps can reach the state \<open>active\<close>.\<close>

lemma cutover_step_activates:
  assumes "cutover_step now r u" "cut_state u = Active" "cut_state r \<noteq> Active"
  shows "cut_state r = Observing \<and> REQUIRED_HEALTHY_SECONDS \<le> healthySeconds r
         \<and> cut_activatedAt u = Some now \<and> lastValidationAt u = Some now"
  using assms by (induction rule: cutover_step.induct)
    (auto simp: update_defs Let_def split: if_splits option.splits)


section \<open>The contract of the repository and the refinement\<close>

abbreviation row_steps ::
  "(cutover_record \<Rightarrow> cutover_update \<Rightarrow> bool) \<Rightarrow> cutover_view \<Rightarrow> cutover_view \<Rightarrow> bool" where
  "row_steps P \<equiv> (row_step P)\<^sup>*\<^sup>*"

lemma outcome_after_fst: "outcome_after m res w = (w', x) \<Longrightarrow> \<exists>y. m w = (w', y)"
  by (auto simp: outcome_after_def bindE_eq returnE_def)

locale cutover_repository =
  fixes deps :: "'w cutover_deps" and view :: "'w \<Rightarrow> cutover_view"
  assumes get_view: "dep_get deps l w = (w', res) \<Longrightarrow> view w' = view w"
    and get_row: "dep_get deps l w = (w', Inr r) \<Longrightarrow> view w l = Some r \<and> cut_layer r = l"
    and save_row: "dep_save deps l u w = (w', Inr r) \<Longrightarrow>
      \<exists>t. r = stored_row l t u \<and> view w' = (view w)(l \<mapsto> r)"
    and save_err: "dep_save deps l u w = (w', Inl e) \<Longrightarrow> view w' = view w"
    and log_view: "view (dep_logTransition deps l a b t w) = view w"
begin

lemma saveTransition_Inr:
  assumes "saveTransition deps r u w = (w', Inr s)"
  shows "\<exists>t. s = stored_row (cut_layer r) t u \<and> view w' = (view w)(cut_layer r \<mapsto> s)"
proof -
  obtain w1 where "dep_save deps (cut_layer r) u w = (w1, Inr s)" "view w' = view w1"
    using assms by (auto simp: saveTransition_def bindE_eq log_view split: if_splits)
  with save_row show ?thesis by metis
qed

lemma saveTransition_steps:
  assumes "saveTransition deps r u w = (w', res)"
    and "view w (cut_layer r) = Some r" and "P r u"
  shows "row_steps P (view w) (view w')"
proof (cases res)
  case (Inl e)
  then have "view w' = view w"
    using assms(1) save_err by (auto simp: saveTransition_def bindE_eq)
  then show ?thesis by simp
next
  case (Inr s)
  then obtain t where "view w' = (view w)(cut_layer r \<mapsto> stored_row (cut_layer r) t u)"
    using assms(1) saveTransition_Inr by metis
  then have "row_step P (view w) (view w')"
    using row_step.intros [of "view w" "cut_layer r" r P u t] assms(2,3) by simp
  then show ?thesis by auto
qed

lemma save_only_steps:
  assumes "save_only deps r u w = (w', res)"
    and "view w (cut_layer r) = Some r" and "P r u"
  shows "row_steps P (view w) (view w')
    \<and> (\<forall>s v. res = Inr (s, v) \<longrightarrow> view w' (cut_layer r) = Some s \<and> cut_state s = cut_state u
          \<and> v = None)"
  using assms saveTransition_steps [of r u w _ _ P] saveTransition_Inr [of r u w w']
  by (auto simp: save_only_def bindE_eq)

lemma save_and_validate_steps:
  assumes "save_and_validate deps r u target scope zones w = (w', res)"
    and "view w (cut_layer r) = Some r" and "P r u"
  shows "row_steps P (view w) (view w')
    \<and> (\<forall>s v. res = Inr (s, v) \<longrightarrow> view w' (cut_layer r) = Some s \<and> cut_state s = cut_state u
          \<and> v \<noteq> None)"
  using assms saveTransition_steps [of r u w _ _ P] saveTransition_Inr [of r u w w']
  by (auto simp: save_and_validate_def bindE_eq)

lemma reconcileLayer_steps:
  assumes "reconcileLayer deps r now target w = (w', res)"
    and "view w (cut_layer r) = Some r"
  shows "row_steps (quiet_step now) (view w) (view w')
    \<and> (\<forall>s v. res = Inr (s, v) \<longrightarrow> view w' (cut_layer r) = Some s)"
proof -
  note save = save_only_steps [OF _ assms(2), of _ _ _ "quiet_step now"]
    save_and_validate_steps [OF _ assms(2), of _ _ _ _ _ _ "quiet_step now"]
  show ?thesis
    using assms(1) assms(2)
    by (cases "cut_state r")
      (auto simp: reconcileLayer_def Let_def
        dest!: save(1) [OF _ quiet_rules(1)] save(1) [OF _ quiet_rules(3)]
          save(1) [OF _ quiet_rules(4)] save(2) [OF _ quiet_rules(5)] save(2) [OF _ quiet_rules(2)]
        split: sum.splits if_splits)
qed

text \<open>Reconciling one layer leaves the row of the other.\<close>

lemma saveTransition_frame:
  assumes "saveTransition deps r u w = (w', res)" and "l \<noteq> cut_layer r"
  shows "view w' l = view w l"
proof (cases res)
  case (Inl e)
  then show ?thesis using assms(1) save_err by (auto simp: saveTransition_def bindE_eq)
next
  case (Inr s)
  then show ?thesis using assms saveTransition_Inr [of r u w w' s] by auto
qed

lemma reconcileLayer_frame:
  assumes "reconcileLayer deps r now target w = (w', res)" and "l \<noteq> cut_layer r"
  shows "view w' l = view w l"
proof -
  have "w' = w \<or> (\<exists>u res'. saveTransition deps r u w = (w', res'))"
    using assms(1)
    by (auto simp: reconcileLayer_def Let_def save_only_def save_and_validate_def bindE_eq
        returnE_def split: sum.splits if_splits)
  then show ?thesis using saveTransition_frame [OF _ assms(2)] by blast
qed

text \<open>Reconciling performs abstract steps only.\<close>

lemma reconcile_steps:
  assumes "reconcileRollupCutoverWith deps (Some now) w = (w', res)"
  shows "row_steps (quiet_step now) (view w) (view w')"
proof -
  let ?eligible = "dep_eligibleTarget deps now"
  consider (no_usage) e where "dep_get deps Layer_usage_15m_v2 w = (w', Inl e)"
    | (usage) w1 u where "dep_get deps Layer_usage_15m_v2 w = (w1, Inr u)"
    using assms by (auto simp: reconcileRollupCutoverWith_def Let_def bindE_eq)
  then show ?thesis
  proof cases
    case no_usage
    then show ?thesis using get_view by simp
  next
    case usage
    have v1: "view w1 = view w" and u: "view w1 (cut_layer u) = Some u"
      using get_view [OF usage] get_row [OF usage] by simp_all
    obtain w2 res2 where r2: "reconcileLayer deps u now ?eligible w1 = (w2, res2)"
      by (cases "reconcileLayer deps u now ?eligible w1")
    have s12: "row_steps (quiet_step now) (view w) (view w2)"
      using reconcileLayer_steps [OF r2 u] v1 by simp
    show ?thesis
    proof (cases "\<exists>s. res2 = Inr (s, None)")
      case False
      then have "w' = w2"
        using assms usage r2
        by (cases res2) (auto simp: reconcileRollupCutoverWith_def Let_def bindE_eq returnE_def
            split: if_splits)
      with s12 show ?thesis by simp
    next
      case True
      then obtain s where res2: "res2 = Inr (s, None)" by blast
      obtain w3 res3 where g: "dep_get deps Layer_timezone w2 = (w3, res3)"
        by (cases "dep_get deps Layer_timezone w2")
      have v3: "view w3 = view w2" using get_view [OF g] .
      show ?thesis
      proof (cases res3)
        case (Inl e)
        then have "w' = w3"
          using assms usage r2 res2 g
          by (auto simp: reconcileRollupCutoverWith_def Let_def bindE_eq)
        with s12 v3 show ?thesis by simp
      next
        case (Inr tz)
        have tz: "view w3 (cut_layer tz) = Some tz"
          using get_row [of Layer_timezone w2 w3 tz] g Inr v3 by simp
        have "row_steps (quiet_step now) (view w3) (view w')"
          using assms usage r2 res2 g Inr saveTransition_steps [of tz _ w3 _ _ "quiet_step now", OF _ tz quiet_rules(6)]
            reconcileLayer_steps [OF _ tz]
          by (auto simp: reconcileRollupCutoverWith_def Let_def bindE_eq returnE_def
              split: if_splits)
        with s12 v3 show ?thesis by simp
      qed
    qed
  qed
qed

text \<open>Executing a validation performs at most one abstract step, on the row of its layer.\<close>

lemma execute_steps:
  assumes "executeRollupValidationWith task deps now w = (w', res)"
  shows "row_steps (cutover_step now) (view w) (view w')"
proof -
  obtain w1 res1 where g: "dep_get deps (t_layer task) w = (w1, res1)"
    by (cases "dep_get deps (t_layer task) w")
  have v1: "view w1 = view w" using get_view [OF g] .
  show ?thesis
  proof (cases res1)
    case (Inl e)
    then show ?thesis using assms g v1 by (auto simp: executeRollupValidationWith_def)
  next
    case (Inr r)
    have r: "view w1 (cut_layer r) = Some r" using get_row g Inr v1 by metis
    note st = saveTransition_steps [OF _ r, of _ _ _ "cutover_step now"]
    have "row_steps (cutover_step now) (view w1) (view w')"
      using assms g Inr
      by (cases "cut_state r"; cases "t_scope task")
        (auto simp: executeRollupValidationWith_def Let_def recordUnhealthy_def
          recordValidationFailure_def
          dest!: outcome_after_fst dest: st [OF _ unhealthy] st [OF _ failed_validation]
            st [OF _ checked] st [OF _ revalidated] st [OF _ activated] st [OF _ validated]
          split: sum.splits if_splits)
    then show ?thesis by (simp add: v1)
  qed
qed

end

section \<open>The PostgreSQL repository\<close>

definition pg_view :: "cutover_db \<Rightarrow> cutover_view" where
  "pg_view db = (\<lambda>l. map_option (mapRow l) (cut_rows db l))"

definition pg_deps ::
  "(instant \<Rightarrow> instant) \<Rightarrow> (cutover_layer \<Rightarrow> instant \<Rightarrow> cutover_state \<Rightarrow> exn + layer_readiness)
   \<Rightarrow> (cutover_layer \<Rightarrow> instant \<Rightarrow> string list \<Rightarrow> validation_scope \<Rightarrow> exn + validation_result)
   \<Rightarrow> cutover_db cutover_deps" where
  "pg_deps eligible readiness validate =
     \<lparr>dep_get = pg_get, dep_save = pg_save, dep_eligibleTarget = eligible,
      dep_readiness = readiness, dep_validate = validate,
      dep_logTransition = pg_logTransition\<rparr>"

lemma mapRow_stored [simp]: "mapRow l (stored_row l t u) = stored_row l t u"
  by (simp add: mapRow_def stored_row_def)

lemma cut_layer_mapRow [simp]: "cut_layer (mapRow l r) = l"
  by (simp add: mapRow_def)

interpretation pg: cutover_repository "pg_deps eligible readiness validate" pg_view
  for eligible readiness validate
  by unfold_locales
    (auto simp: pg_deps_def pg_get_def pg_save_def pg_view_def requireRow_def
      pg_logTransition_def Let_def fun_eq_iff split: option.splits)


section \<open>Reachable states\<close>

text \<open>
  The rows the migration inserts, and every database reached from them by reconciling and
  executing validations at times that never go back, whatever the environment answers each time
  and however the database's own clock moves.
\<close>

definition initial_cutover_row :: "cutover_layer \<Rightarrow> instant \<Rightarrow> cutover_record" where
  "initial_cutover_row l t =
     \<lparr>cut_state = Backfilling, targetWatermark = None, healthySeconds = 0, lastCheckedAt = None,
      lastValidationAt = None, cut_failures = 0, lastFailureKind = None, lastFailure = None,
      cut_activatedAt = None, cut_layer = l, cut_updatedAt = t\<rparr>"

definition initial_db :: "instant \<Rightarrow> cutover_db" where
  "initial_db t = \<lparr>cut_rows = (\<lambda>l. Some (initial_cutover_row l t)), db_now = t, cut_log = []\<rparr>"

inductive reachable_at :: "instant \<Rightarrow> cutover_db \<Rightarrow> bool" where
  start: "reachable_at t (initial_db t)"
| clock: "reachable_at t db \<Longrightarrow> reachable_at t (db\<lparr>db_now := x\<rparr>)"
| reconcile: "reachable_at t db \<Longrightarrow> t \<le> now \<Longrightarrow>
    reconcileRollupCutoverWith (pg_deps e rd v) (Some now) db = (db', res) \<Longrightarrow>
    reachable_at now db'"
| execute: "reachable_at t db \<Longrightarrow> t \<le> now \<Longrightarrow>
    executeRollupValidationWith task (pg_deps e rd v) now db = (db', res) \<Longrightarrow>
    reachable_at now db'"

definition view_ok :: "instant \<Rightarrow> cutover_view \<Rightarrow> bool" where
  "view_ok t v \<longleftrightarrow> (\<forall>l r. v l = Some r \<longrightarrow> row_ok t r)"

lemma row_step_view_ok:
  "row_step P v v' \<Longrightarrow> (\<And>r u. P r u \<Longrightarrow> cutover_step now r u) \<Longrightarrow> view_ok now v \<Longrightarrow> view_ok now v'"
proof (induction rule: row_step.induct)
  case (row_step v l r u t)
  then have "row_ok now (stored_row l t u)"
    by (intro cutover_step_row_ok) (auto simp: view_ok_def)
  with row_step.prems show ?case by (simp add: view_ok_def)
qed

lemma row_steps_view_ok:
  "row_steps P v v' \<Longrightarrow> (\<And>r u. P r u \<Longrightarrow> cutover_step now r u) \<Longrightarrow> view_ok now v \<Longrightarrow> view_ok now v'"
  by (induction rule: rtranclp_induct) (auto intro: row_step_view_ok)

lemma view_ok_later: "view_ok t v \<Longrightarrow> t \<le> now \<Longrightarrow> view_ok now v"
  by (auto simp: view_ok_def intro: row_ok_later)

lemma reachable_view_ok: "reachable_at t db \<Longrightarrow> view_ok t (pg_view db)"
proof (induction rule: reachable_at.induct)
  case (start t)
  show ?case
    by (auto simp: view_ok_def pg_view_def initial_db_def initial_cutover_row_def row_ok_def
        checked_by_def mapRow_def cutover_constants)
next
  case (clock t db x)
  then show ?case by (simp add: pg_view_def)
next
  case (reconcile t db now e rd v db' res)
  then show ?case
    using pg.reconcile_steps row_steps_view_ok [of "quiet_step now"] view_ok_later
    by (metis quiet_step_def)
next
  case (execute t db now task e rd v db' res)
  then show ?case
    using pg.execute_steps row_steps_view_ok [of "cutover_step now"] view_ok_later by metis
qed

lemma row_ok_mapRow [simp]: "row_ok t (mapRow l r) = row_ok t r"
  by (cases "cut_state r") (simp_all add: row_ok_def mapRow_def checked_by_def)

lemma reachable_row_ok: "reachable_at t db \<Longrightarrow> cut_rows db l = Some r \<Longrightarrow> row_ok t r"
  using reachable_view_ok [of t db] row_ok_mapRow
  unfolding view_ok_def pg_view_def by (metis option.simps(9))

section \<open>Properties\<close>

text \<open>C2: in every reachable state of the cutover table, an active layer has a watermark, a full hour
  of observed health, fewer than three failures in a row and a validation not older than its
  activation; an observing layer has not been activated, and its healthy seconds never exceed the
  time that passed since its validation; a backfilling layer has no watermark.\<close>

theorem cutover_invariant:
  assumes "reachable_at t db" and "cut_rows db l = Some r"
  shows "0 \<le> healthySeconds r \<and> healthySeconds r \<le> 3600
    \<and> (case cut_state r of
         Backfilling \<Rightarrow> targetWatermark r = None \<and> cut_activatedAt r = None \<and> healthySeconds r = 0
       | Observing \<Rightarrow> targetWatermark r \<noteq> None \<and> cut_activatedAt r = None
           \<and> (\<exists>v c. lastValidationAt r = Some v \<and> lastCheckedAt r = Some c
                \<and> v + 1000 * healthySeconds r \<le> c \<and> c \<le> t)
       | Active \<Rightarrow> targetWatermark r \<noteq> None \<and> healthySeconds r = 3600 \<and> cut_failures r < 3
           \<and> (\<exists>a v. cut_activatedAt r = Some a \<and> lastValidationAt r = Some v \<and> a \<le> v \<and> v \<le> t)
       | Fallback \<Rightarrow> True)"
  using reachable_row_ok [OF assms]
  by (cases "cut_state r") (auto simp: row_ok_def checked_by_def cutover_constants)

lemma quiet_steps_not_activate:
  "row_steps (quiet_step now) v v' \<Longrightarrow> v' l = Some r' \<Longrightarrow> cut_state r' = Active \<Longrightarrow>
   \<exists>r. v l = Some r \<and> cut_state r = Active"
proof (induction arbitrary: r' rule: rtranclp_induct)
  case base
  then show ?case by blast
next
  case (step y z)
  from step.hyps(2) step.prems have "\<exists>r. y l = Some r \<and> cut_state r = Active"
    by (induction rule: row_step.induct) (auto simp: quiet_step_def split: if_splits)
  with step.IH show ?case by blast
qed

lemma reconcile_active_before:
  assumes "reconcileRollupCutoverWith (pg_deps e rd v) (Some now) db = (db', res)"
    and "cut_rows db' l = Some r'" and "cut_state r' = Active"
  shows "\<exists>r. cut_rows db l = Some r \<and> cut_state r = Active"
proof -
  have "pg_view db' l = Some (mapRow l r')" "cut_state (mapRow l r') = Active"
    using assms(2,3) by (simp_all add: pg_view_def mapRow_def)
  from quiet_steps_not_activate [OF pg.reconcile_steps [OF assms(1)] this]
  show ?thesis by (auto simp: pg_view_def mapRow_def)
qed

text \<open>reconciling never activates a layer: whatever the environment answers, a layer that is
  active after \<open>reconcileRollupCutoverWith\<close> was active before.\<close>

theorem reconcile_never_activates:
  assumes "reconcileRollupCutoverWith (pg_deps e rd v) (Some now) db = (db', res)"
    and "cut_rows db' l = Some r'" and "cut_state r' = Active"
  shows "\<exists>r. cut_rows db l = Some r \<and> cut_state r = Active"
  using assms by (rule reconcile_active_before)

lemma mapRow_simps [simp]:
  "cut_state (mapRow l r) = cut_state r" "targetWatermark (mapRow l r) = targetWatermark r"
  "healthySeconds (mapRow l r) = healthySeconds r" "lastCheckedAt (mapRow l r) = lastCheckedAt r"
  "lastValidationAt (mapRow l r) = lastValidationAt r" "cut_failures (mapRow l r) = cut_failures r"
  "lastFailureKind (mapRow l r) = lastFailureKind r" "lastFailure (mapRow l r) = lastFailure r"
  "cut_activatedAt (mapRow l r) = cut_activatedAt r"
  by (simp_all add: mapRow_def)

lemma pg_deps_sel [simp]:
  "dep_readiness (pg_deps e rd v) = rd" "dep_validate (pg_deps e rd v) = v"
  "dep_eligibleTarget (pg_deps e rd v) = e"
  by (simp_all add: pg_deps_def)

lemma pg_get_eq:
  "dep_get (pg_deps e rd v) l db
     = (db, case cut_rows db l of None \<Rightarrow> Inl ''Rollup cutover status not found''
                                | Some r \<Rightarrow> Inr (mapRow l r))"
  by (simp add: pg_deps_def pg_get_def requireRow_def)

lemma pg_saveTransition_rows:
  "saveTransition (pg_deps e rd v) r u db = (db', res) \<Longrightarrow> cut_layer r = l \<Longrightarrow>
   cut_rows db l = Some x \<Longrightarrow> cut_rows db' = (cut_rows db)(l \<mapsto> stored_row l (db_now db) u)"
  by (auto simp: saveTransition_def bindE_def pg_deps_def pg_save_def pg_logTransition_def
      requireRow_def Let_def split: if_splits)

text \<open>What executing a validation does to the table.\<close>

definition activation_conditions ::
  "validation_task \<Rightarrow> (cutover_layer \<Rightarrow> instant \<Rightarrow> cutover_state \<Rightarrow> exn + layer_readiness)
   \<Rightarrow> (cutover_layer \<Rightarrow> instant \<Rightarrow> string list \<Rightarrow> validation_scope \<Rightarrow> exn + validation_result)
   \<Rightarrow> cutover_record \<Rightarrow> bool" where
  "activation_conditions task rd v r \<longleftrightarrow>
     t_scope task = Initial \<and> cut_state r = Observing
     \<and> REQUIRED_HEALTHY_SECONDS \<le> healthySeconds r
     \<and> (\<exists>rdy val. rd (t_layer task) (t_target task) Observing = Inr rdy \<and> ready rdy
          \<and> v (t_layer task) (t_target task) (activeTimezones rdy) Initial = Inr val \<and> v_ok val)"

lemma runValidation_ok:
  "v_ok (runValidation (pg_deps e rd v) l t zs sc) \<Longrightarrow>
   \<exists>val. v l t zs sc = Inr val \<and> v_ok val"
  by (auto simp: runValidation_def pg_deps_def split: sum.splits)

lemma execute_cases:
  assumes ex: "executeRollupValidationWith task (pg_deps e rd v) now db = (db', res)"
  shows "cut_rows db' = cut_rows db \<or>
    (\<exists>r u. cut_rows db (t_layer task) = Some r
      \<and> cut_rows db' = (cut_rows db)(t_layer task \<mapsto> stored_row (t_layer task) (db_now db) u)
      \<and> (cut_state u = Active \<longrightarrow> cut_state r = Active \<or> activation_conditions task rd v r))"
proof (cases "cut_rows db (t_layer task)")
  case None
  then show ?thesis using ex by (auto simp: executeRollupValidationWith_def bindE_def pg_get_eq)
next
  case (Some r)
  let ?q = "mapRow (t_layer task) r" and ?deps = "pg_deps e rd v"
  let ?changed = "\<lambda>u. cut_rows db' = (cut_rows db)(t_layer task \<mapsto>
      stored_row (t_layer task) (db_now db) u)"
  have saved: "?changed u" if "outcome_after (saveTransition ?deps ?q u) y db = (db', res)" for u y
    using outcome_after_fst [OF that] pg_saveTransition_rows [OF _ _ Some] by fastforce
  have get: "dep_get ?deps (t_layer task) db = (db, Inr ?q)" by (simp add: pg_get_eq Some)
  have rdy: "dep_readiness ?deps = rd" by (simp add: pg_deps_def)
  have "db' = db \<or> (\<exists>u. ?changed u \<and>
      (cut_state u = Active \<longrightarrow> cut_state r = Active \<or> activation_conditions task rd v r))"
  proof (cases "rd (t_layer task) (t_target task) (cut_state r)")
    case (Inl err)
    then have "db' = db \<or> ?changed (unhealthyUpdate ?q now Unavailable (Some err))"
      using ex saved
      by (auto simp: executeRollupValidationWith_def bindE_def get rdy recordUnhealthy_def
          returnE_def split: if_splits)
    then show ?thesis by (auto simp: update_defs Let_def split: if_splits)
  next
    case (Inr rd0)
    let ?val = "runValidation ?deps (t_layer task) (t_target task) (activeTimezones rd0)
        (t_scope task)"
    let ?act = "(clearedUpdate ?q now)\<lparr>cut_state := Active, lastValidationAt := Some now,
                       cut_activatedAt := Some now\<rparr>"
    consider (same) "db' = db"
      | (unhealthy) k d where "?changed (unhealthyUpdate ?q now k d)"
      | (cleared) "?changed (clearedUpdate ?q now)"
      | (failure) "?changed (validationFailureUpdate ?q now ?val)"
      | (revalidated) "?changed ((clearedUpdate ?q now)\<lparr>lastValidationAt := Some now\<rparr>)"
      | (activated) "?changed ?act" "activation_conditions task rd v r"
      | (observing) t where "?changed ((clearedUpdate ?q now)\<lparr>cut_state := Observing,
                      targetWatermark := Some t, healthySeconds := 0,
                      lastValidationAt := Some now, cut_activatedAt := None\<rparr>)"
    proof (cases "ready rd0 \<and> v_ok ?val \<and> t_scope task = Initial \<and> cut_state r = Observing
        \<and> REQUIRED_HEALTHY_SECONDS \<le> healthySeconds r")
      case True
      then have "activation_conditions task rd v r"
        using Inr runValidation_ok [of e rd v] unfolding activation_conditions_def by metis
      moreover have "?changed ?act"
        using ex saved Inr True
        by (auto simp: executeRollupValidationWith_def bindE_def get rdy Let_def)
      ultimately show thesis using activated by blast
    next
      case False
      then show thesis
        using ex saved Inr same unhealthy cleared failure revalidated observing
        by (cases "t_scope task"; cases "ready rd0"; cases "v_ok ?val")
          (auto simp: executeRollupValidationWith_def bindE_def get rdy Let_def returnE_def
            recordUnhealthy_def recordValidationFailure_def split: if_splits)
    qed
    then show ?thesis by cases (auto simp: update_defs Let_def split: if_splits)
  qed
  then show ?thesis using Some by auto
qed

text \<open>C38: a layer becomes active only when an initial validation of it is executed while it is
  observing, its data are ready, the validation succeeds, it has been healthy for 3600 observed
  seconds, and at least one hour has passed since the validation that started the observation.\<close>

theorem activation_after_observed_hour:
  assumes "reachable_at t db" and "t \<le> now"
    and "executeRollupValidationWith task (pg_deps e rd v) now db = (db', res)"
    and "cut_rows db l = Some r" and "cut_state r \<noteq> Active"
    and "cut_rows db' l = Some r'" and "cut_state r' = Active"
  shows "l = t_layer task \<and> t_scope task = Initial \<and> cut_state r = Observing
    \<and> healthySeconds r = 3600
    \<and> (\<exists>started. lastValidationAt r = Some started \<and> started + 3600000 \<le> now)
    \<and> (\<exists>rdy val. rd l (t_target task) Observing = Inr rdy \<and> ready rdy
         \<and> v l (t_target task) (activeTimezones rdy) Initial = Inr val \<and> v_ok val)"
proof -
  have act: "l = t_layer task" "activation_conditions task rd v r"
    using execute_cases [OF assms(3)] assms(4-7) by (auto split: if_splits)
  note act' = act(2) [unfolded activation_conditions_def]
  have ok: "row_ok t r" using reachable_row_ok [OF assms(1,4)] .
  have hs: "healthySeconds r = 3600"
    using act' ok by (simp add: row_ok_def cutover_constants)
  obtain s c where "lastValidationAt r = Some s" "lastCheckedAt r = Some c" "c \<le> t"
    "1000 * healthySeconds r \<le> c - s"
    using act' ok by (auto simp: row_ok_def checked_by_def)
  then show ?thesis using act(1) act' hs assms(2) by auto
qed


text \<open>a mismatch found by a validation takes the layer out of use at once: whatever state the
  layer is in, executing the validation ends with outcome \<open>failed\<close> and the layer in fallback.\<close>

theorem mismatch_falls_back:
  assumes "cut_rows db (t_layer task) = Some r"
    and "if t_scope task = Recurring then cut_state r = Active else cut_state r \<noteq> Active"
    and "rd (t_layer task) (t_target task) (cut_state r) = Inr rdy" and "ready rdy"
    and "t_scope task = Initial \<or> validationReady rdy \<noteq> Some False"
    and "v (t_layer task) (t_target task) (activeTimezones rdy) (t_scope task)
           = Inr \<lparr>v_ok = False, v_kind = Some Mismatch, v_detail = d\<rparr>"
  shows "\<exists>db' r'. executeRollupValidationWith task (pg_deps e rd v) now db = (db', Inr Failed)
    \<and> cut_rows db' (t_layer task) = Some r' \<and> cut_state r' = Fallback
    \<and> lastFailureKind r' = Some Mismatch"
proof -
  let ?l = "t_layer task" and ?deps = "pg_deps e rd v"
  let ?u = "validationFailureUpdate (mapRow ?l r) now
      \<lparr>v_ok = False, v_kind = Some Mismatch, v_detail = d\<rparr>"
  obtain db' where st: "saveTransition ?deps (mapRow ?l r) ?u db
      = (db', Inr (stored_row ?l (db_now db) ?u))"
    using assms(1)
    by (simp add: saveTransition_def bindE_def pg_deps_def pg_save_def requireRow_def Let_def)
  have "executeRollupValidationWith task ?deps now db = (db', Inr Failed)"
    using assms st
    by (cases "cut_state r"; cases "t_scope task")
      (auto simp: executeRollupValidationWith_def bindE_def pg_get_eq runValidation_def
        recordValidationFailure_def outcome_after_def returnE_def Let_def)
  moreover have "cut_rows db' ?l = Some (stored_row ?l (db_now db) ?u)"
    using pg_saveTransition_rows [OF st _ assms(1)] by simp
  ultimately show ?thesis by (simp add: update_defs Let_def)
qed

text \<open>when reconciling ends without scheduling a validation and the 15-minute layer is not
  active, the time zone layer built on it is back in backfilling, with no watermark and no
  observed time.\<close>

theorem reconcile_resets_timezone:
  assumes "reconcileRollupCutoverWith (pg_deps e rd v) (Some now) db = (db', Inr None)"
    and "cut_rows db' Layer_usage_15m_v2 = Some u" and "cut_state u \<noteq> Active"
  shows "\<exists>tz. cut_rows db' Layer_timezone = Some tz \<and> cut_state tz = Backfilling
    \<and> targetWatermark tz = None \<and> healthySeconds tz = 0"
proof -
  let ?deps = "pg_deps e rd v" and ?U = Layer_usage_15m_v2 and ?T = Layer_timezone
  obtain u0 where u0: "cut_rows db ?U = Some u0"
    using assms(1)
    by (auto simp: reconcileRollupCutoverWith_def Let_def bindE_def pg_get_eq split: option.splits)
  obtain db2 s where r2: "reconcileLayer ?deps (mapRow ?U u0) now
      (dep_eligibleTarget ?deps now) db = (db2, Inr (s, None))"
    using assms(1) u0
    by (auto simp: reconcileRollupCutoverWith_def Let_def bindE_eq pg_get_eq returnE_def
        split: if_splits)
  have s: "pg_view db2 ?U = Some s"
    using pg.reconcileLayer_steps [OF r2] u0 by (simp add: pg_view_def)
  obtain tz where tz: "cut_rows db2 ?T = Some tz"
    using assms(1) u0 r2
    by (auto simp: reconcileRollupCutoverWith_def Let_def bindE_def pg_get_eq split: option.splits)
  show ?thesis
  proof (cases "cut_state s = Active")
    case True
    then obtain t res where "reconcileLayer ?deps (mapRow ?T tz) now t db2 = (db', res)"
      using assms(1) u0 r2 tz
      by (auto simp: reconcileRollupCutoverWith_def Let_def bindE_eq pg_get_eq returnE_def)
    then have "pg_view db' ?U = Some s"
      using pg.reconcileLayer_frame [of e rd v _ now t db2 db' res ?U] s by simp
    with True assms(2,3) show ?thesis by (auto simp: pg_view_def)
  next
    case False
    show ?thesis
    proof (cases "cut_state tz \<noteq> Backfilling \<or> targetWatermark tz \<noteq> None \<or> healthySeconds tz \<noteq> 0")
      case True
      then obtain res where "saveTransition ?deps (mapRow ?T tz)
          (resetUpdate (mapRow ?T tz) now) db2 = (db', res)"
        using assms(1) u0 r2 tz False
        by (auto simp: reconcileRollupCutoverWith_def Let_def bindE_eq pg_get_eq returnE_def
            mapRow_def)
      from pg_saveTransition_rows [OF this _ tz] show ?thesis by (simp add: update_defs)
    next
      case ok: False
      then have "db' = db2"
        using assms(1) u0 r2 tz False
        by (auto simp: reconcileRollupCutoverWith_def Let_def bindE_eq pg_get_eq returnE_def
            mapRow_def)
      then show ?thesis using ok tz by simp
    qed
  qed
qed


section \<open>A healthy layer becomes active\<close>

fun advance_at :: "'w cutover_deps \<Rightarrow> instant list \<Rightarrow> 'w \<Rightarrow> 'w" where
  "advance_at deps [] w = w"
| "advance_at deps (t # ts) w = advance_at deps ts (fst (advanceRollupCutoverWith deps t w))"

lemma advance_at_append: "advance_at deps (ts @ us) w = advance_at deps us (advance_at deps ts w)"
  by (induction ts arbitrary: w) auto

definition always_healthy ::
  "(cutover_layer \<Rightarrow> instant \<Rightarrow> cutover_state \<Rightarrow> exn + layer_readiness)
   \<Rightarrow> (cutover_layer \<Rightarrow> instant \<Rightarrow> string list \<Rightarrow> validation_scope \<Rightarrow> exn + validation_result)
   \<Rightarrow> bool" where
  "always_healthy rd v \<longleftrightarrow>
     (\<forall>l t st. \<exists>rdy. rd l t st = Inr rdy \<and> ready rdy)
     \<and> (\<forall>l t zs sc. \<exists>val. v l t zs sc = Inr val \<and> v_ok val)"

lemma pg_saveTransition_eq:
  "cut_rows db (cut_layer r) \<noteq> None \<Longrightarrow>
   saveTransition (pg_deps e rd v) r u db =
     (db\<lparr>cut_rows := (cut_rows db)(cut_layer r \<mapsto> stored_row (cut_layer r) (db_now db) u),
         cut_log := cut_log db @ (if cut_state r \<noteq> cut_state u
           then [(cut_layer r, cut_state r, cut_state u, targetWatermark u)] else [])\<rparr>,
      Inr (stored_row (cut_layer r) (db_now db) u))"
  by (auto simp: saveTransition_def bindE_def pg_deps_def pg_save_def pg_logTransition_def
      requireRow_def Let_def)

lemma runValidation_healthy:
  "always_healthy rd v \<Longrightarrow> v_ok (runValidation (pg_deps e rd v) l t zs sc)"
  by (auto simp: always_healthy_def runValidation_def split: sum.split)
     (metis Inl_Inr_False, metis sum.inject(2))

definition timezone_untouched :: "cutover_db \<Rightarrow> bool" where
  "timezone_untouched db \<longleftrightarrow> (\<exists>tz. cut_rows db Layer_timezone = Some tz
     \<and> cut_state tz = Backfilling \<and> targetWatermark tz = None \<and> healthySeconds tz = 0)"

definition observing_since :: "int \<Rightarrow> instant \<Rightarrow> cutover_db \<Rightarrow> bool" where
  "observing_since h c db \<longleftrightarrow> timezone_untouched db \<and>
     (\<exists>u. cut_rows db Layer_usage_15m_v2 = Some u \<and> cut_state u = Observing
        \<and> healthySeconds u = h \<and> lastCheckedAt u = Some c \<and> lastFailureKind u = None)"

lemmas advance_defs = advanceRollupCutoverWith_def reconcileRollupCutoverWith_def
  reconcileLayer_def executeRollupValidationWith_def save_only_def save_and_validate_def
  outcome_after_def

lemma healthy_readiness:
  assumes "always_healthy rd v"
  obtains rdy where "rd l t st = Inr rdy" "ready rdy"
  using assms unfolding always_healthy_def by metis

lemma advance_start:
  assumes h: "always_healthy rd v" and "timezone_untouched db"
    and u: "cut_rows db Layer_usage_15m_v2 = Some u" "cut_state u = Backfilling"
      "lastFailureKind u = None"
  shows "observing_since 0 now (fst (advanceRollupCutoverWith (pg_deps e rd v) now db))"
proof -
  obtain rdy where rdy: "rd Layer_usage_15m_v2
      (reconcileTarget (mapRow Layer_usage_15m_v2 u) (e now)) Backfilling = Inr rdy" "ready rdy"
    using healthy_readiness [OF h] by metis
  show ?thesis
    using assms rdy runValidation_healthy [OF h]
    by (simp add: advance_defs bindE_def pg_get_eq Let_def returnE_def pg_saveTransition_eq
        validationRetryDue_def update_defs
        observing_since_def timezone_untouched_def)
qed

lemma advance_observe:
  assumes h: "always_healthy rd v" and o: "observing_since n c db"
    and "0 \<le> n" "n + 60 < REQUIRED_HEALTHY_SECONDS"
  shows "observing_since (n + 60) (c + 60000)
           (fst (advanceRollupCutoverWith (pg_deps e rd v) (c + 60000) db))"
proof -
  obtain u where u: "cut_rows db Layer_usage_15m_v2 = Some u" "cut_state u = Observing"
    "healthySeconds u = n" "lastCheckedAt u = Some c" "lastFailureKind u = None"
    using o by (auto simp: observing_since_def)
  obtain rdy where rdy: "rd Layer_usage_15m_v2
      (reconcileTarget (mapRow Layer_usage_15m_v2 u) (e (c + 60000))) Observing = Inr rdy" "ready rdy"
    using healthy_readiness [OF h] by metis
  have obs: "observedSeconds (mapRow Layer_usage_15m_v2 u) (c + 60000) = n + 60"
    using u assms(3,4) by (simp add: observedSeconds_def elapsedHealthySeconds_def
        cutover_constants)
  show ?thesis
    using o u rdy obs assms(3,4)
    by (auto simp: advance_defs bindE_def pg_get_eq Let_def returnE_def pg_saveTransition_eq
        validationRetryDue_def update_defs
        observing_since_def timezone_untouched_def)
qed

lemma advance_activate:
  assumes h: "always_healthy rd v" and o: "observing_since 3540 c db"
  shows "\<exists>u. cut_rows (fst (advanceRollupCutoverWith (pg_deps e rd v) (c + 60000) db))
           Layer_usage_15m_v2 = Some u \<and> cut_state u = Active
           \<and> cut_activatedAt u = Some (c + 60000)"
proof -
  obtain u where u: "cut_rows db Layer_usage_15m_v2 = Some u" "cut_state u = Observing"
    "healthySeconds u = 3540" "lastCheckedAt u = Some c" "lastFailureKind u = None"
    using o by (auto simp: observing_since_def)
  let ?t = "reconcileTarget (mapRow Layer_usage_15m_v2 u) (e (c + 60000))"
  obtain rdy where rdy: "rd Layer_usage_15m_v2 ?t Observing = Inr rdy" "ready rdy"
    using healthy_readiness [OF h] by metis
  have obs: "observedSeconds (mapRow Layer_usage_15m_v2 u) (c + 60000) = 3600"
    using u by (simp add: observedSeconds_def elapsedHealthySeconds_def
        cutover_constants)
  show ?thesis
    using u rdy obs runValidation_healthy [OF h]
    by (auto simp: advance_defs bindE_def pg_get_eq Let_def returnE_def pg_saveTransition_eq
        validationRetryDue_def update_defs REQUIRED_HEALTHY_SECONDS_def)
qed

lemma advance_minutes:
  assumes h: "always_healthy rd v" and "observing_since 0 c db" and "k \<le> 59"
  shows "observing_since (60 * int k) (c + 60000 * int k)
           (advance_at (pg_deps e rd v) (map (\<lambda>i. c + 60000 * int (Suc i)) [0..<k]) db)"
  using assms(3)
proof (induction k)
  case 0
  then show ?case using assms(2) by simp
next
  case (Suc k)
  then have "60 * int k + 60 < REQUIRED_HEALTHY_SECONDS" by (simp add: cutover_constants)
  from advance_observe [OF h Suc.IH _ this] Suc.prems
  show ?case by (simp add: advance_at_append algebra_simps)
qed

lemma healthy_activates:
  assumes "always_healthy rd v"
  shows "\<exists>u. cut_rows (advance_at (pg_deps e rd v)
             (map (\<lambda>i. t + 60000 * int i) [0..<61]) (initial_db t)) Layer_usage_15m_v2 = Some u
    \<and> cut_state u = Active \<and> cut_activatedAt u = Some (t + 3600000)"
proof -
  let ?deps = "pg_deps e rd v"
  let ?db1 = "fst (advanceRollupCutoverWith ?deps t (initial_db t))"
  let ?mid = "map (\<lambda>i. t + 60000 * int (Suc i)) [0..<59]"
  have "timezone_untouched (initial_db t)"
    by (simp add: timezone_untouched_def initial_db_def initial_cutover_row_def)
  then have "observing_since 0 t ?db1"
    by (rule advance_start [OF assms, where u = "initial_cutover_row Layer_usage_15m_v2 t"])
      (simp_all add: initial_db_def initial_cutover_row_def)
  from advance_minutes [OF assms this, of 59]
  have "observing_since 3540 (t + 3540000) (advance_at ?deps ?mid ?db1)" by simp
  from advance_activate [OF assms this, of e]
  have act: "\<exists>u. cut_rows (advance_at ?deps (?mid @ [t + 3600000]) ?db1) Layer_usage_15m_v2 = Some u
    \<and> cut_state u = Active \<and> cut_activatedAt u = Some (t + 3600000)"
    by (simp add: advance_at_append add.assoc)
  have split: "[0..<61] = 0 # map Suc [0..<60]" "[0..<60] = [0..<59] @ [59]"
    by (simp_all add: upt_rec [of 0 61] map_Suc_upt) (simp add: upt_Suc_append [of 0 59, simplified])
  have "map (\<lambda>i. t + 60000 * int i) [0..<61] = t # ?mid @ [t + 3600000]"
    unfolding split by simp
  then show ?thesis using act by simp
qed

text \<open>when the data stay ready and validations succeed, the 15-minute layer of a fresh
  installation, advanced once a minute, is active after exactly 61 advances, one hour after the
  first.\<close>

theorem healthy_layer_activates:
  assumes "always_healthy rd v"
  shows "\<exists>u. cut_rows (advance_at (pg_deps e rd v)
             (map (\<lambda>i. t + 60000 * int i) [0..<61]) (initial_db t)) Layer_usage_15m_v2 = Some u
    \<and> cut_state u = Active \<and> cut_activatedAt u = Some (t + 3600000)"
  using assms by (rule healthy_activates)

section \<open>Witnesses\<close>

definition ready_env ::
  "cutover_layer \<Rightarrow> instant \<Rightarrow> cutover_state \<Rightarrow> exn + layer_readiness" where
  "ready_env l t st = Inr \<lparr>ready = True, validationReady = Some True, forceValidation = None,
     r_kind = None, r_detail = None, activeTimezones = [''Asia/Seoul'']\<rparr>"

definition valid_env ::
  "cutover_layer \<Rightarrow> instant \<Rightarrow> string list \<Rightarrow> validation_scope \<Rightarrow> exn + validation_result" where
  "valid_env l t zs sc = Inr \<lparr>v_ok = True, v_kind = None, v_detail = None\<rparr>"

definition mismatch_env ::
  "cutover_layer \<Rightarrow> instant \<Rightarrow> string list \<Rightarrow> validation_scope \<Rightarrow> exn + validation_result" where
  "mismatch_env l t zs sc =
     Inr \<lparr>v_ok = False, v_kind = Some Mismatch, v_detail = Some ''row counts differ''\<rparr>"

lemma healthy_env: "always_healthy ready_env valid_env"
  by (simp add: always_healthy_def ready_env_def valid_env_def)

abbreviation example_deps :: "cutover_db cutover_deps" where
  "example_deps \<equiv> pg_deps (\<lambda>t. t - 1800000) ready_env valid_env"

theorem healthy_layer_activates_witness:
  "\<exists>u. cut_rows (advance_at example_deps (map (\<lambda>i. 0 + 60000 * int i) [0..<61]) (initial_db 0))
          Layer_usage_15m_v2 = Some u
    \<and> cut_state u = Active \<and> cut_activatedAt u = Some (0 + 3600000)"
  by (rule healthy_layer_activates [OF healthy_env])

lemma reachable_advance:
  assumes "reachable_at t db" "t \<le> now"
  shows "reachable_at now (fst (advanceRollupCutoverWith (pg_deps e rd v) now db))"
proof -
  obtain db1 res1 where r: "reconcileRollupCutoverWith (pg_deps e rd v) (Some now) db = (db1, res1)"
    by fastforce
  have r1: "reachable_at now db1" using reachable_at.reconcile [OF assms r] .
  show ?thesis
  proof (cases "\<exists>task. res1 = Inr (Some task)")
    case True
    then obtain task where res1: "res1 = Inr (Some task)" by blast
    obtain db2 res2 where x: "executeRollupValidationWith task (pg_deps e rd v) now db1 = (db2, res2)"
      by fastforce
    have "reachable_at now db2" using reachable_at.execute [OF r1 order.refl x] .
    then show ?thesis using r res1 x
      by (cases res2) (simp_all add: advanceRollupCutoverWith_def bindE_def returnE_def)
  next
    case False
    then show ?thesis using r r1
      by (cases res1) (auto simp: advanceRollupCutoverWith_def bindE_def returnE_def
          split: option.splits)
  qed
qed

lemma reachable_advance_at:
  "reachable_at t db \<Longrightarrow> sorted (t # ts) \<Longrightarrow>
   reachable_at (last (t # ts)) (advance_at (pg_deps e rd v) ts db)"
proof (induction ts arbitrary: t db)
  case Nil
  then show ?case by simp
next
  case (Cons a ts)
  have "reachable_at a (fst (advanceRollupCutoverWith (pg_deps e rd v) a db))"
    using Cons.prems by (intro reachable_advance) auto
  from Cons.IH [OF this] Cons.prems(2) show ?case by simp
qed

definition example_times :: "nat \<Rightarrow> instant list" where
  "example_times n = map (\<lambda>i. 60000 * int i) [0..<n]"

lemma reachable_example:
  assumes "0 < n"
  shows "reachable_at (60000 * int (n - 1)) (advance_at example_deps (example_times n) (initial_db 0))"
proof -
  have "sorted (0 # example_times n)"
    by (auto simp: example_times_def sorted_map sorted_wrt_map simp flip: sorted_wrt_upt
        intro!: sorted_wrt_mono_rel [OF _ sorted_wrt_upt])
  from reachable_advance_at [OF reachable_at.start this]
  show ?thesis using assms by (simp add: example_times_def last_map)
qed

text \<open>An active layer is reachable, and the invariant says this of it.\<close>

theorem cutover_invariant_witness:
  "\<exists>t db r. reachable_at t db \<and> cut_rows db Layer_usage_15m_v2 = Some r \<and> cut_state r = Active
     \<and> healthySeconds r = 3600 \<and> cut_failures r < 3"
proof -
  let ?db = "advance_at example_deps (example_times 61) (initial_db 0)"
  obtain u where u: "cut_rows ?db Layer_usage_15m_v2 = Some u" "cut_state u = Active"
    using healthy_activates [OF healthy_env, of "\<lambda>t. t - 1800000" 0]
    by (auto simp: example_times_def)
  have r: "reachable_at 3600000 ?db" using reachable_example [of 61] by simp
  from cutover_invariant [OF r u(1)] u(2) have "healthySeconds u = 3600 \<and> cut_failures u < 3" by simp
  with r u show ?thesis by blast
qed

theorem reconcile_never_activates_witness:
  "cut_state (initial_cutover_row Layer_timezone 0) \<noteq> Active \<and>
   \<not> (\<exists>r'. cut_rows (fst (reconcileRollupCutoverWith example_deps (Some 0) (initial_db 0)))
              Layer_timezone = Some r' \<and> cut_state r' = Active)"
proof -
  obtain db' res where r: "reconcileRollupCutoverWith example_deps (Some 0) (initial_db 0) = (db', res)"
    by fastforce
  show ?thesis
    using reconcile_never_activates [OF r, of Layer_timezone] r
    by (auto simp: initial_db_def initial_cutover_row_def)
qed

theorem mismatch_falls_back_witness:
  "\<exists>db' r'. executeRollupValidationWith
       \<lparr>t_layer = Layer_timezone, t_target = 900000, t_scope = Initial, t_activeTimezones = []\<rparr>
       (pg_deps (\<lambda>t. t) ready_env mismatch_env) 1000000 (initial_db 0) = (db', Inr Failed)
    \<and> cut_rows db' Layer_timezone = Some r' \<and> cut_state r' = Fallback
    \<and> lastFailureKind r' = Some Mismatch"
  using mismatch_falls_back [of "initial_db 0"
      "\<lparr>t_layer = Layer_timezone, t_target = 900000, t_scope = Initial, t_activeTimezones = []\<rparr>"
      "initial_cutover_row Layer_timezone 0" ready_env _ mismatch_env "Some ''row counts differ''"
      "\<lambda>t. t" 1000000]
  by (simp add: initial_db_def initial_cutover_row_def ready_env_def mismatch_env_def)


text \<open>The last minute of the hour: reconciling schedules the second validation, executing it
  activates the layer.\<close>

lemma example_observing:
  "observing_since 3540 3540000 (advance_at example_deps (example_times 60) (initial_db 0))"
proof -
  let ?db1 = "fst (advanceRollupCutoverWith example_deps 0 (initial_db 0))"
  have "observing_since 0 0 ?db1"
    by (rule advance_start [OF healthy_env, where u = "initial_cutover_row Layer_usage_15m_v2 0"])
      (simp_all add: timezone_untouched_def initial_db_def initial_cutover_row_def)
  from advance_minutes [OF healthy_env this, of 59]
  have "observing_since 3540 3540000
    (advance_at example_deps (map (\<lambda>i. 60000 * int (Suc i)) [0..<59]) ?db1)" by simp
  moreover have "example_times 60 = 0 # map (\<lambda>i. 60000 * int (Suc i)) [0..<59]"
    by code_simp
  ultimately show ?thesis by simp
qed

theorem activation_after_observed_hour_witness:
  "\<exists>db r started. reachable_at 3600000 db \<and> cut_rows db Layer_usage_15m_v2 = Some r
     \<and> cut_state r = Observing \<and> lastValidationAt r = Some started \<and> started + 3600000 \<le> 3600000
     \<and> (\<exists>task db' res r'. executeRollupValidationWith task example_deps 3600000 db = (db', res)
          \<and> cut_rows db' Layer_usage_15m_v2 = Some r' \<and> cut_state r' = Active)"
proof -
  let ?U = Layer_usage_15m_v2 and ?now = "3600000 :: int"
  let ?db0 = "advance_at example_deps (example_times 60) (initial_db 0)"
  obtain db res where rec: "reconcileRollupCutoverWith example_deps (Some ?now) ?db0 = (db, res)"
    by fastforce
  have o: "observing_since 3540 3540000 ?db0" by (rule example_observing)
  obtain r' where r': "cut_rows (fst (advanceRollupCutoverWith example_deps ?now ?db0)) ?U = Some r'"
    "cut_state r' = Active"
    using advance_activate [OF healthy_env o, of "\<lambda>t. t - 1800000"] by auto
  have not_before: "\<not> (\<exists>r. cut_rows db ?U = Some r \<and> cut_state r = Active)"
    using reconcile_active_before [OF rec, of ?U] o by (auto simp: observing_since_def)
  obtain task where res: "res = Inr (Some task)"
    using r' rec not_before by (cases res) (auto simp: advanceRollupCutoverWith_def bindE_def
        returnE_def split: option.splits)
  obtain db' res' where ex: "executeRollupValidationWith task example_deps ?now db = (db', res')"
    by fastforce
  have after: "cut_rows db' ?U = Some r'"
    using r' rec res ex by (cases res') (simp_all add: advanceRollupCutoverWith_def bindE_def
        returnE_def)
  have reach: "reachable_at ?now db"
    using reachable_at.reconcile [OF reachable_example [of 60] _ rec] by simp
  obtain r where r: "cut_rows db ?U = Some r"
    using execute_cases [OF ex] after by (cases "t_layer task = ?U") (auto split: if_splits)
  from activation_after_observed_hour [OF reach order.refl ex r _ after r'(2)] not_before r
  show ?thesis using reach ex after r'(2) by blast
qed

definition down_env ::
  "cutover_layer \<Rightarrow> instant \<Rightarrow> cutover_state \<Rightarrow> exn + layer_readiness" where
  "down_env l t st = Inl ''connection refused''"

theorem reconcile_resets_timezone_witness:
  "\<exists>tz. cut_rows (fst (reconcileRollupCutoverWith (pg_deps (\<lambda>t. t) down_env valid_env) (Some 5)
            (initial_db 0))) Layer_timezone = Some tz
     \<and> cut_state tz = Backfilling \<and> targetWatermark tz = None \<and> healthySeconds tz = 0"
proof -
  let ?deps = "pg_deps (\<lambda>t. t) down_env valid_env"
  let ?out = "reconcileRollupCutoverWith ?deps (Some 5) (initial_db 0)"
  let ?u = "unhealthyUpdate (mapRow Layer_usage_15m_v2 (initial_cutover_row Layer_usage_15m_v2 0)) 5
      Unavailable (Some ''connection refused'')"
  have run: "snd ?out = Inr None \<and> cut_rows (fst ?out) Layer_usage_15m_v2
      = Some (stored_row Layer_usage_15m_v2 0 ?u)"
    by (simp add: reconcileRollupCutoverWith_def reconcileLayer_def down_env_def save_only_def
        bindE_def pg_get_eq pg_saveTransition_eq returnE_def Let_def initial_db_def
        initial_cutover_row_def unhealthyUpdate_def baseUpdate_def)
  then have "?out = (fst ?out, Inr None)" by (metis prod.collapse)
  from reconcile_resets_timezone [OF this conjunct2 [OF run]]
  show ?thesis by (simp add: unhealthyUpdate_def baseUpdate_def initial_cutover_row_def)
qed

end
