(* ===== verification/Rollup_Coordinator.thy ===== *)
theory Rollup_Coordinator
  imports Rollup_Cutover
begin

text \<open>
  \<open>apps/web/lib/rollup-coordinator.ts\<close> and \<open>rollup-coordinator-state.ts\<close>: the scheduler's
  status row, the choice of the next task among the candidates (\<open>selectRollupTask\<close>), one tick
  of the coordinator over its record of dependencies, and the candidate that
  \<open>pricing-repair.ts\<close> contributes. The comparator of the choice is an instance of the
  interface \<open>comparator\<close> of the prelude, from which the fairness of the choice follows.
\<close>

section \<open>The status row of the scheduler\<close>

datatype scheduler_task = Task_usage_15m_v2 | Task_timezone | Task_pricing_repair | Task_validation | Task_idle

datatype scheduler_outcome = Out_success | Out_failed | Out_superseded | Out_idle

record rollup_scheduler_record =
  s_lastHeartbeatAt :: "instant option"
  s_lastSelectedTask :: "scheduler_task option"
  s_lastTaskStartedAt :: "instant option"
  s_lastTaskFinishedAt :: "instant option"
  s_lastTaskOutcome :: "scheduler_outcome option"
  s_lastError :: "string option"
  s_updatedAt :: instant

type_synonym scheduler_table = "rollup_scheduler_record option"

definition scheduler_get :: "scheduler_table \<Rightarrow> pg_error + rollup_scheduler_record" where
  "scheduler_get tbl = (case tbl of None \<Rightarrow> Inl Row_not_found | Some r \<Rightarrow> Inr r)"

definition recordHeartbeat :: "instant \<Rightarrow> scheduler_table \<Rightarrow> scheduler_table" where
  "recordHeartbeat t = map_option (\<lambda>r. r\<lparr>s_lastHeartbeatAt := Some t, s_updatedAt := t\<rparr>)"

definition recordStarted :: "scheduler_task \<Rightarrow> instant \<Rightarrow> scheduler_table \<Rightarrow> scheduler_table" where
  "recordStarted task t = map_option (\<lambda>r. r\<lparr>
     s_lastHeartbeatAt := Some t, s_lastSelectedTask := Some task,
     s_lastTaskStartedAt := Some t, s_updatedAt := t\<rparr>)"

definition recordFinished ::
  "scheduler_task \<Rightarrow> scheduler_outcome \<Rightarrow> instant \<Rightarrow> string option \<Rightarrow> scheduler_table \<Rightarrow> scheduler_table"
where
  "recordFinished task outcome t err = map_option (\<lambda>r. r\<lparr>
     s_lastSelectedTask := Some task, s_lastTaskOutcome := Some outcome,
     s_lastTaskFinishedAt := Some t, s_lastError := map_option sanitizeRollupError err,
     s_lastHeartbeatAt := Some t, s_updatedAt := t\<rparr>)"

section \<open>The choice of a task\<close>

definition COORDINATOR_TICK_MS :: int where "COORDINATOR_TICK_MS = 10000"
definition WORKER_MIN_CADENCE_MS :: int where "WORKER_MIN_CADENCE_MS = 60000"
definition PRICING_REPAIR_MIN_CADENCE_MS :: int where
  "PRICING_REPAIR_MIN_CADENCE_MS = COORDINATOR_TICK_MS"
definition STARVATION_LIMIT_MS :: int where "STARVATION_LIMIT_MS = 120000"
definition ROLLUP_BUCKET_MS :: int where "ROLLUP_BUCKET_MS = 15 * 60 * 1000"
definition DEFAULT_FINALIZE_MS :: int where "DEFAULT_FINALIZE_MS = 30 * 60 * 1000"

record coordinator_candidate =
  cand_task :: scheduler_task
  cand_due :: bool
  cand_eligibleSince :: "instant option"
  cand_lastStartedAt :: "instant option"
  cand_nextAttemptAt :: "instant option"

definition isRunnable :: "coordinator_candidate \<Rightarrow> instant \<Rightarrow> bool" where
  "isRunnable c now =
     (if \<not> cand_due c then False
      else if (case cand_nextAttemptAt c of Some t \<Rightarrow> t > now | None \<Rightarrow> False) then False
      else (let minimumCadence = (if cand_task c = Task_pricing_repair
                                  then PRICING_REPAIR_MIN_CADENCE_MS else WORKER_MIN_CADENCE_MS)
            in (case cand_lastStartedAt c of None \<Rightarrow> True | Some t \<Rightarrow> now - t \<ge> minimumCadence)))"

definition waitedTooLong :: "coordinator_candidate \<Rightarrow> instant \<Rightarrow> bool" where
  "waitedTooLong c now =
     (case cand_eligibleSince c of None \<Rightarrow> False | Some t \<Rightarrow> now - t \<ge> STARVATION_LIMIT_MS)"

text \<open>
  \<open>lastStartedRank\<close> is a double that may be minus infinity. The difference of two ranks is NaN
  when both are minus infinity; NaN differs from 0, so the comparator returns it, and \<open>sort\<close>
  reads it as 0.
\<close>

datatype rank = Neg_infinity | Finite_rank int

definition lastStartedRank :: "coordinator_candidate \<Rightarrow> rank" where
  "lastStartedRank c = (case cand_lastStartedAt c of Some t \<Rightarrow> Finite_rank t | None \<Rightarrow> Neg_infinity)"

datatype rank_difference = Not_a_number | Neg_infinite | Pos_infinite | Finite_difference int

fun rank_minus :: "rank \<Rightarrow> rank \<Rightarrow> rank_difference" where
  "rank_minus Neg_infinity Neg_infinity = Not_a_number"
| "rank_minus Neg_infinity (Finite_rank _) = Neg_infinite"
| "rank_minus (Finite_rank _) Neg_infinity = Pos_infinite"
| "rank_minus (Finite_rank a) (Finite_rank b) = Finite_difference (a - b)"

text \<open>The sign \<open>sort\<close> reads off a comparator's result.\<close>

fun sort_sign :: "rank_difference \<Rightarrow> int" where
  "sort_sign Not_a_number = 0"
| "sort_sign Neg_infinite = -1"
| "sort_sign Pos_infinite = 1"
| "sort_sign (Finite_difference d) = d"

fun STABLE_TASK_ORDER :: "scheduler_task \<Rightarrow> int" where
  "STABLE_TASK_ORDER Task_validation = 0"
| "STABLE_TASK_ORDER Task_pricing_repair = 1"
| "STABLE_TASK_ORDER Task_usage_15m_v2 = 2"
| "STABLE_TASK_ORDER Task_timezone = 3"
| "STABLE_TASK_ORDER Task_idle = 4"

definition compareCandidates :: "instant \<Rightarrow> coordinator_candidate \<Rightarrow> coordinator_candidate \<Rightarrow> int" where
  "compareCandidates now l r =
     (if cand_task l = Task_validation \<or> cand_task r = Task_validation
      then (if cand_task l = cand_task r then 0
            else if cand_task l = Task_validation then -1 else 1)
      else if waitedTooLong l now \<noteq> waitedTooLong r now
      then (if waitedTooLong l now then -1 else 1)
      else (let lastStarted = rank_minus (lastStartedRank l) (lastStartedRank r)
            in if lastStarted \<noteq> Finite_difference 0 then sort_sign lastStarted
               else STABLE_TASK_ORDER (cand_task l) - STABLE_TASK_ORDER (cand_task r)))"

definition selectCandidate ::
  "coordinator_candidate list \<Rightarrow> instant \<Rightarrow> coordinator_candidate option" where
  "selectCandidate cs now =
     (case js_sort (compareCandidates now) (filter (\<lambda>c. isRunnable c now) cs) of
        [] \<Rightarrow> None | c # _ \<Rightarrow> Some c)"

definition selectRollupTask :: "coordinator_candidate list \<Rightarrow> instant \<Rightarrow> scheduler_task option" where
  "selectRollupTask cs now = map_option cand_task (selectCandidate cs now)"

section \<open>One tick\<close>

datatype tick_status = Tick_busy | Tick_idle | Tick_completed | Tick_failed

record tick_outcome =
  tick_status :: tick_status
  tick_task :: scheduler_task
  tick_result :: scheduler_outcome

record timezone_backlog =
  backlog_eligible :: int
  backlog_waitingForBase :: int

text \<open>
  \<open>RollupCoordinatorDependencies\<close> over a world \<open>'w\<close> with exceptions \<open>'e\<close>; \<open>c_newDate\<close> is the
  clock \<open>new Date()\<close> reads and \<open>c_String\<close> the text \<open>String(error)\<close>. The members of a
  \<open>Promise.all\<close> are awaited in the order they are listed.
\<close>

record ('w, 'e) coordinator_deps =
  c_withLoadSlot :: "('w, 'e, tick_outcome) io \<Rightarrow> ('w, 'e, tick_outcome option) io"
  c_recordHeartbeat :: "instant \<Rightarrow> ('w, 'e, unit) io"
  c_recordStarted :: "scheduler_task \<Rightarrow> instant \<Rightarrow> ('w, 'e, unit) io"
  c_recordFinished ::
    "scheduler_task \<Rightarrow> scheduler_outcome \<Rightarrow> instant \<Rightarrow> string option \<Rightarrow> ('w, 'e, unit) io"
  c_getWorker :: "rollup_worker_name \<Rightarrow> ('w, 'e, rollup_worker_record) io"
  c_setEligibility :: "rollup_worker_name \<Rightarrow> bool \<Rightarrow> instant \<Rightarrow> ('w, 'e, unit) io"
  c_countUsageBacklog :: "instant \<Rightarrow> ('w, 'e, int) io"
  c_countTimezoneBacklog :: "('w, 'e, timezone_backlog) io"
  c_pricingRepairCandidate :: "instant \<Rightarrow> ('w, 'e, coordinator_candidate option) io"
  c_validationCandidate :: "instant \<Rightarrow> ('w, 'e, coordinator_candidate option) io"
  c_runTask :: "scheduler_task \<Rightarrow> ('w, 'e, scheduler_outcome) io"
  c_newDate :: "'w \<Rightarrow> instant"
  c_String :: "'e \<Rightarrow> string"

definition workerCandidate ::
  "scheduler_task \<Rightarrow> rollup_worker_record \<Rightarrow> bool \<Rightarrow> instant \<Rightarrow> coordinator_candidate" where
  "workerCandidate task w due now =
     \<lparr>cand_task = task, cand_due = due,
      cand_eligibleSince =
        (if due then Some (case eligibleSince w of Some t \<Rightarrow> t | None \<Rightarrow> now) else None),
      cand_lastStartedAt = lastStartedAt w,
      cand_nextAttemptAt = nextAttemptAt w\<rparr>"

definition optional :: "'a option \<Rightarrow> 'a list" where
  "optional x = (case x of None \<Rightarrow> [] | Some a \<Rightarrow> [a])"

definition runSelected ::
  "('w, 'e) coordinator_deps \<Rightarrow> scheduler_task \<Rightarrow> ('w, 'e, tick_outcome) io" where
  "runSelected d task w =
     (let attempt = bindE (c_runTask d task) (\<lambda>outcome w.
            bindE (c_recordFinished d task outcome (c_newDate d w) None) (\<lambda>_.
            returnE \<lparr>tick_status = (if outcome = Out_failed then Tick_failed else Tick_completed),
                     tick_task = task, tick_result = outcome\<rparr>) w)
      in case attempt w of
           (w', Inr v) \<Rightarrow> (w', Inr v)
         | (w', Inl e) \<Rightarrow>
             bindE (c_recordFinished d task Out_failed (c_newDate d w') (Some (c_String d e))) (\<lambda>_.
             returnE \<lparr>tick_status = Tick_failed, tick_task = task, tick_result = Out_failed\<rparr>) w')"

definition coordinatorOperation ::
  "('w, 'e) coordinator_deps \<Rightarrow> instant \<Rightarrow> ('w, 'e, tick_outcome) io" where
  "coordinatorOperation d now =
     bindE (c_recordHeartbeat d now) (\<lambda>_.
     bindE (c_getWorker d Usage_15m_v2) (\<lambda>usage.
     bindE (c_getWorker d Timezone) (\<lambda>timezone.
     bindE (c_countUsageBacklog d now) (\<lambda>usageBacklog.
     bindE (c_countTimezoneBacklog d) (\<lambda>timezoneBacklog.
     bindE (c_pricingRepairCandidate d now) (\<lambda>pricingRepair.
     bindE (c_validationCandidate d now) (\<lambda>validation.
       let usageDue = (\<not> paused usage \<and> usageBacklog > 0);
           timezoneDue = (\<not> paused timezone \<and> backlog_eligible timezoneBacklog > 0)
       in bindE (c_setEligibility d Usage_15m_v2 usageDue now) (\<lambda>_.
          bindE (c_setEligibility d Timezone timezoneDue now) (\<lambda>_.
          case selectRollupTask
                 ([workerCandidate Task_usage_15m_v2 usage usageDue now,
                   workerCandidate Task_timezone timezone timezoneDue now]
                  @ optional pricingRepair @ optional validation) now of
            None \<Rightarrow>
              bindE (c_recordFinished d Task_idle Out_idle now None) (\<lambda>_.
              returnE \<lparr>tick_status = Tick_idle, tick_task = Task_idle, tick_result = Out_idle\<rparr>)
          | Some task \<Rightarrow>
              bindE (c_recordStarted d task now) (\<lambda>_. runSelected d task))))))))))"

definition runRollupCoordinatorTickWith ::
  "('w, 'e) coordinator_deps \<Rightarrow> instant \<Rightarrow> ('w, 'e, tick_outcome) io" where
  "runRollupCoordinatorTickWith d now =
     bindE (c_withLoadSlot d (coordinatorOperation d now)) (\<lambda>slot.
     returnE (case slot of
       Some v \<Rightarrow> v
     | None \<Rightarrow> \<lparr>tick_status = Tick_busy, tick_task = Task_idle, tick_result = Out_idle\<rparr>))"

text \<open>\<open>finalizeTarget\<close>, with the environment variable already read as a finite number or not.\<close>

definition finalizeTarget :: "rat option \<Rightarrow> instant \<Rightarrow> instant" where
  "finalizeTarget configured now =
     (let delay = (case configured of
          Some c \<Rightarrow> if c > 0 then \<lfloor>c\<rfloor> else DEFAULT_FINALIZE_MS
        | None \<Rightarrow> DEFAULT_FINALIZE_MS)
      in ((now - delay) div ROLLUP_BUCKET_MS) * ROLLUP_BUCKET_MS)"

datatype observed_worker_outcome = Obs_completed | Obs_superseded | Obs_failed

fun workerOutcome :: "observed_worker_outcome \<Rightarrow> scheduler_outcome" where
  "workerOutcome Obs_failed = Out_failed"
| "workerOutcome Obs_completed = Out_success"
| "workerOutcome Obs_superseded = Out_superseded"

section \<open>The production coordinator\<close>

text \<open>
  \<open>runRollupCoordinatorTick\<close> on the tables: the workers' rows, the advisory lock, the
  scheduler's row, the closure variable \<open>pendingValidation\<close>, and the rest of the process. What it
  calls of the other modules is in \<open>coordinator_env\<close>; the cutover is the model of
  \<open>Rollup_Cutover\<close>.
\<close>

record 'x coordinator_world =
  cw_workers :: worker_table
  cw_slot_held :: bool
  cw_scheduler :: scheduler_table
  cw_pendingValidation :: "validation_task option"
  cw_rest :: 'x

record 'x coordinator_env =
  e_clickhouse :: bool
  e_countUsageBacklog :: "instant \<Rightarrow> 'x \<Rightarrow> int"
  e_countTimezoneBacklog :: "'x \<Rightarrow> timezone_backlog"
  e_pricingRepairCandidate :: "instant \<Rightarrow> ('x, exn, coordinator_candidate option) io"
  e_cutover :: "'x cutover_deps"
  e_runPricingRepairTask :: "('x, exn, scheduler_outcome) io"
  e_runUsageTask :: "('x, exn, observed_worker_outcome) io"
  e_runTimezoneTask :: "('x, exn, observed_worker_outcome) io"
  e_newDate :: "'x \<Rightarrow> instant"

definition on_rest :: "('x, exn, 'a) io \<Rightarrow> ('x coordinator_world, exn, 'a) io" where
  "on_rest m w = (let (x, r) = m (cw_rest w) in (w\<lparr>cw_rest := x\<rparr>, r))"

definition on_scheduler ::
  "(scheduler_table \<Rightarrow> scheduler_table) \<Rightarrow> ('x coordinator_world, exn, unit) io" where
  "on_scheduler f w = (w\<lparr>cw_scheduler := f (cw_scheduler w)\<rparr>, Inr ())"

fun validation_to_scheduler :: "validation_outcome \<Rightarrow> scheduler_outcome" where
  "validation_to_scheduler Success = Out_success"
| "validation_to_scheduler Failed = Out_failed"
| "validation_to_scheduler Superseded = Out_superseded"

definition with_world_slot ::
  "('x coordinator_world, exn, 'a) io \<Rightarrow> ('x coordinator_world, exn, 'a option) io" where
  "with_world_slot operation w =
     (let ((held, w'), r) = withLoadSlot (\<lambda>w. operation (w\<lparr>cw_slot_held := True\<rparr>)) (cw_slot_held w, w)
      in (w'\<lparr>cw_slot_held := held\<rparr>, r))"

definition validationCandidate ::
  "'x coordinator_env \<Rightarrow> instant \<Rightarrow> ('x coordinator_world, exn, coordinator_candidate option) io"
where
  "validationCandidate env t =
     (if \<not> e_clickhouse env then returnE None
      else bindE (on_rest (reconcileRollupCutoverWith (e_cutover env) (Some t))) (\<lambda>pending w.
        (w\<lparr>cw_pendingValidation := pending\<rparr>,
         Inr (case pending of None \<Rightarrow> None
              | Some _ \<Rightarrow> Some \<lparr>cand_task = Task_validation, cand_due = True,
                  cand_eligibleSince = Some t, cand_lastStartedAt = None,
                  cand_nextAttemptAt = None\<rparr>))))"

definition runTask ::
  "'x coordinator_env \<Rightarrow> scheduler_task \<Rightarrow> ('x coordinator_world, exn, scheduler_outcome) io" where
  "runTask env task =
     (if task = Task_pricing_repair then on_rest (e_runPricingRepairTask env)
      else if task = Task_usage_15m_v2
      then bindE (on_rest (e_runUsageTask env)) (\<lambda>r. returnE (workerOutcome r))
      else if task = Task_timezone
      then bindE (on_rest (e_runTimezoneTask env)) (\<lambda>r. returnE (workerOutcome r))
      else (\<lambda>w. case cw_pendingValidation w of
          None \<Rightarrow> (w, Inr Out_superseded)
        | Some v \<Rightarrow>
            bindE (on_rest (executeRollupValidationWith v (e_cutover env) (e_newDate env (cw_rest w))))
              (\<lambda>r. returnE (validation_to_scheduler r)) w))"

definition productionDependencies ::
  "'x coordinator_env \<Rightarrow> ('x coordinator_world, exn) coordinator_deps" where
  "productionDependencies env =
     \<lparr>c_withLoadSlot = with_world_slot,
      c_recordHeartbeat = (\<lambda>t. on_scheduler (recordHeartbeat t)),
      c_recordStarted = (\<lambda>task t. on_scheduler (recordStarted task t)),
      c_recordFinished = (\<lambda>task out t err. on_scheduler (recordFinished task out t err)),
      c_getWorker = (\<lambda>name w. (w, case get_worker (cw_workers w) name of
          Inl _ \<Rightarrow> Inl ''Rollup worker status not found'' | Inr r \<Rightarrow> Inr r)),
      c_setEligibility = (\<lambda>name eligible t w.
          (w\<lparr>cw_workers := setEligibility (cw_workers w) name eligible t\<rparr>, Inr ())),
      c_countUsageBacklog = (\<lambda>t w.
          (w, Inr (if e_clickhouse env then e_countUsageBacklog env t (cw_rest w) else 0))),
      c_countTimezoneBacklog = (\<lambda>w.
          (w, Inr (if e_clickhouse env then e_countTimezoneBacklog env (cw_rest w)
                   else \<lparr>backlog_eligible = 0, backlog_waitingForBase = 0\<rparr>))),
      c_pricingRepairCandidate = (\<lambda>t. on_rest (e_pricingRepairCandidate env t)),
      c_validationCandidate = validationCandidate env,
      c_runTask = runTask env,
      c_newDate = (\<lambda>w. e_newDate env (cw_rest w)),
      c_String = (\<lambda>e. e)\<rparr>"

definition runRollupCoordinatorTick ::
  "'x coordinator_env \<Rightarrow> instant \<Rightarrow> ('x coordinator_world, exn, tick_outcome) io" where
  "runRollupCoordinatorTick env now w =
     runRollupCoordinatorTickWith (productionDependencies env) now
       (w\<lparr>cw_pendingValidation := None\<rparr>)"

section \<open>Who runs a coordinator\<close>

definition truthy_env :: "env \<Rightarrow> string \<Rightarrow> bool" where
  "truthy_env env key = (case env key of None \<Rightarrow> False | Some v \<Rightarrow> v \<noteq> [])"

definition schedulerEligible :: "env \<Rightarrow> bool" where
  "schedulerEligible env =
     (if truthy_env env ''VERCEL'' then False
      else (let flag = js_lower (case env ''PRICING_AUTO_SYNC'' of Some v \<Rightarrow> v | None \<Rightarrow> [])
            in if flag = ''off'' \<or> flag = ''0'' \<or> flag = ''false'' then False
               else if flag = ''on'' \<or> flag = ''1'' \<or> flag = ''true'' then True
               else env ''NODE_ENV'' = Some ''production''))"

definition pricingSyncDueToday :: "string option \<Rightarrow> string \<Rightarrow> bool" where
  "pricingSyncDueToday lastDay today \<longleftrightarrow> lastDay \<noteq> Some today"

definition coordinatorEligible :: "env \<Rightarrow> bool" where
  "coordinatorEligible env =
     ((env ''STORAGE_BACKEND'' = Some ''clickhouse'' \<and>
        (shadowWorkerEnabled env ''CLICKHOUSE_15M_V2_COMPACTOR''
         \<or> shadowWorkerEnabled env ''CLICKHOUSE_TIMEZONE_ROLLUP_COMPACTOR''))
      \<or> schedulerEligible env)"


section \<open>Facts about the choice\<close>

text \<open>
  The comparator orders by the first differing component of this key, never-started candidates
  being equal in the last one. Hence it meets the interface of \<open>sort\<close>.
\<close>

definition started_class :: "coordinator_candidate \<Rightarrow> int" where
  "started_class c = (if cand_lastStartedAt c = None then 0 else 1)"

lemma compareCandidates_validation:
  "cand_task l = Task_validation \<Longrightarrow> cand_task r = Task_validation \<Longrightarrow> compareCandidates now l r = 0"
  "cand_task l = Task_validation \<Longrightarrow> cand_task r \<noteq> Task_validation \<Longrightarrow> compareCandidates now l r = -1"
  "cand_task l \<noteq> Task_validation \<Longrightarrow> cand_task r = Task_validation \<Longrightarrow> compareCandidates now l r = 1"
  by (auto simp: compareCandidates_def)

lemma compareCandidates_starved:
  assumes "cand_task l \<noteq> Task_validation" "cand_task r \<noteq> Task_validation"
  shows "waitedTooLong l now \<Longrightarrow> \<not> waitedTooLong r now \<Longrightarrow> compareCandidates now l r = -1"
    and "\<not> waitedTooLong l now \<Longrightarrow> waitedTooLong r now \<Longrightarrow> compareCandidates now l r = 1"
  using assms by (auto simp: compareCandidates_def)

lemma compareCandidates_rank:
  assumes "cand_task l \<noteq> Task_validation" "cand_task r \<noteq> Task_validation"
    and "waitedTooLong l now = waitedTooLong r now"
  shows "compareCandidates now l r =
    (case (cand_lastStartedAt l, cand_lastStartedAt r) of
       (None, None) \<Rightarrow> 0
     | (None, Some _) \<Rightarrow> -1
     | (Some _, None) \<Rightarrow> 1
     | (Some a, Some b) \<Rightarrow>
         if a \<noteq> b then a - b
         else STABLE_TASK_ORDER (cand_task l) - STABLE_TASK_ORDER (cand_task r))"
  using assms
  by (cases "cand_lastStartedAt l"; cases "cand_lastStartedAt r")
     (simp_all add: compareCandidates_def lastStartedRank_def Let_def)

lemma compareCandidates_flip:
  "0 < compareCandidates now x y \<longleftrightarrow> compareCandidates now y x < 0"
proof (cases "cand_task x = Task_validation \<or> cand_task y = Task_validation")
  case True
  then show ?thesis by (auto simp: compareCandidates_def)
next
  case False
  then show ?thesis
  proof (cases "waitedTooLong x now = waitedTooLong y now")
    case True
    with False show ?thesis
      by (cases "cand_lastStartedAt x"; cases "cand_lastStartedAt y")
         (auto simp: compareCandidates_rank)
  next
    case w: False
    with False show ?thesis by (auto simp: compareCandidates_def)
  qed
qed

text \<open>Below or equal in the comparator, spelled out.\<close>

lemma compareCandidates_le:
  "compareCandidates now x y \<le> 0 \<longleftrightarrow>
     cand_task x = Task_validation \<or>
     (cand_task y \<noteq> Task_validation \<and>
       (waitedTooLong x now \<and> \<not> waitedTooLong y now \<or>
        waitedTooLong x now = waitedTooLong y now \<and>
          (case cand_lastStartedAt x of None \<Rightarrow> True
           | Some a \<Rightarrow> (case cand_lastStartedAt y of None \<Rightarrow> False
               | Some b \<Rightarrow> a < b \<or> a = b \<and>
                   STABLE_TASK_ORDER (cand_task x) \<le> STABLE_TASK_ORDER (cand_task y)))))"
proof (cases "cand_task x = Task_validation \<or> cand_task y = Task_validation")
  case True
  then show ?thesis by (auto simp: compareCandidates_def)
next
  case False
  then show ?thesis
  proof (cases "waitedTooLong x now = waitedTooLong y now")
    case True
    with False show ?thesis
      by (cases "cand_lastStartedAt x"; cases "cand_lastStartedAt y")
         (auto simp: compareCandidates_rank)
  next
    case w: False
    with False show ?thesis by (auto simp: compareCandidates_def)
  qed
qed

lemma compareCandidates_trans:
  assumes "compareCandidates now x y \<le> 0" "compareCandidates now y z \<le> 0"
  shows "compareCandidates now x z \<le> 0"
  using assms unfolding compareCandidates_le
  by (cases "cand_lastStartedAt x"; cases "cand_lastStartedAt y"; cases "cand_lastStartedAt z") auto

interpretation candidates: comparator "compareCandidates now" for now
  by unfold_locales (use compareCandidates_flip compareCandidates_trans in blast)+

lemma selectCandidate_Some:
  assumes "selectCandidate cs now = Some c"
  shows "c \<in> set cs" "isRunnable c now"
    "\<And>d. d \<in> set cs \<Longrightarrow> isRunnable d now \<Longrightarrow> compareCandidates now c d \<le> 0"
proof -
  let ?s = "js_sort (compareCandidates now) (filter (\<lambda>c. isRunnable c now) cs)"
  obtain ds where s: "?s = c # ds"
    using assms by (auto simp: selectCandidate_def split: list.splits)
  have "c \<in> set ?s" using s by simp
  then show "c \<in> set cs" "isRunnable c now" by auto
  show "compareCandidates now c d \<le> 0" if "d \<in> set cs" "isRunnable d now" for d
    using candidates.js_sort_hd_le [of d "filter (\<lambda>c. isRunnable c now) cs" now] that s by simp
qed

lemma selectCandidate_None: "selectCandidate cs now = None \<longleftrightarrow> (\<forall>c \<in> set cs. \<not> isRunnable c now)"
proof -
  have "selectCandidate cs now = None \<longleftrightarrow>
      js_sort (compareCandidates now) (filter (\<lambda>c. isRunnable c now) cs) = []"
    by (auto simp: selectCandidate_def split: list.splits)
  then show ?thesis by (simp add: filter_empty_conv)
qed

text \<open>Who can be chosen while a starved candidate waits.\<close>

lemma chosen_over_starved:
  assumes sel: "selectCandidate cs now = Some c"
    and a: "a \<in> set cs" "isRunnable a now" "waitedTooLong a now" "cand_task a \<noteq> Task_validation"
    and c: "cand_task c \<noteq> Task_validation"
  shows "waitedTooLong c now"
    and "cand_lastStartedAt c = None \<or>
         (\<exists>s t. cand_lastStartedAt c = Some s \<and> cand_lastStartedAt a = Some t \<and> s \<le> t)"
  using selectCandidate_Some(3) [OF sel a(1,2)] a c unfolding compareCandidates_le
  by (auto split: option.splits)

text \<open>The tasks that are not one-shot validations.\<close>

lemma two_other_tasks:
  assumes "x \<notin> {a, Task_validation, Task_idle}" "y \<notin> {a, Task_validation, Task_idle}"
    "z \<notin> {a, Task_validation, Task_idle}" "a \<in> {Task_usage_15m_v2, Task_timezone, Task_pricing_repair}"
  shows "x = y \<or> x = z \<or> y = z"
  using assms by (cases x; cases y; cases z) auto

text \<open>A later choice of the same task would have to be no more recent than the waiting one.\<close>

lemma chosen_again_contradiction:
  assumes sel: "selectCandidate cs now = Some c"
    and a: "a \<in> set cs" "isRunnable a now" "waitedTooLong a now" "cand_task a \<noteq> Task_validation"
    and c: "cand_task c \<noteq> Task_validation"
    and after: "cand_lastStartedAt c = Some s" "cand_lastStartedAt a \<noteq> None \<Longrightarrow> the (cand_lastStartedAt a) < s"
  shows False
  using chosen_over_starved(2) [OF sel a c] after by auto


section \<open>Properties\<close>

text \<open>C29: The choice respects the scheduler's priorities: the chosen task belongs to a runnable
  candidate; it is a validation whenever a validation is runnable; otherwise it has waited past the
  starvation limit whenever some runnable candidate has; and among the candidates of its class none
  was started earlier, a candidate that never started counting as the earliest.\<close>
theorem selectRollupTask_priorities:
  assumes "selectRollupTask cs now = Some t"
  shows "\<exists>c \<in> set cs. cand_task c = t \<and> isRunnable c now \<and>
    (\<forall>d \<in> set cs. isRunnable d now \<longrightarrow>
       (cand_task d = Task_validation \<longrightarrow> t = Task_validation) \<and>
       (t \<noteq> Task_validation \<longrightarrow> waitedTooLong d now \<longrightarrow> waitedTooLong c now) \<and>
       (t \<noteq> Task_validation \<longrightarrow> waitedTooLong d now = waitedTooLong c now \<longrightarrow>
          cand_lastStartedAt c = None \<or>
          (\<exists>a b. cand_lastStartedAt c = Some a \<and> cand_lastStartedAt d = Some b \<and> a \<le> b)))"
proof -
  obtain c where sel: "selectCandidate cs now = Some c" and t: "cand_task c = t"
    using assms by (auto simp: selectRollupTask_def)
  note c = selectCandidate_Some [OF sel]
  show ?thesis
  proof (intro bexI [of _ c] conjI ballI impI)
    fix d assume d: "d \<in> set cs" "isRunnable d now"
    note le = c(3) [OF d, unfolded compareCandidates_le]
    show "cand_task d = Task_validation \<Longrightarrow> t = Task_validation" using le t by auto
    show "t \<noteq> Task_validation \<Longrightarrow> waitedTooLong d now \<Longrightarrow> waitedTooLong c now" using le t by auto
    show "cand_lastStartedAt c = None \<or>
        (\<exists>a b. cand_lastStartedAt c = Some a \<and> cand_lastStartedAt d = Some b \<and> a \<le> b)"
      if "t \<noteq> Task_validation" "waitedTooLong d now = waitedTooLong c now"
      using le t that by (auto split: option.splits)
  qed (use c t in auto)
qed

definition example_candidates :: "coordinator_candidate list" where
  "example_candidates =
     [\<lparr>cand_task = Task_usage_15m_v2, cand_due = True, cand_eligibleSince = Some 400000,
        cand_lastStartedAt = Some 1000, cand_nextAttemptAt = None\<rparr>,
      \<lparr>cand_task = Task_timezone, cand_due = True, cand_eligibleSince = Some 300000,
        cand_lastStartedAt = Some 2000, cand_nextAttemptAt = None\<rparr>]"

theorem selectRollupTask_priorities_witness:
  "selectRollupTask example_candidates 420000 = Some Task_timezone \<and>
   (\<exists>c \<in> set example_candidates. cand_task c = Task_timezone \<and> isRunnable c 420000)"
proof -
  have s: "selectRollupTask example_candidates 420000 = Some Task_timezone" by code_simp
  show ?thesis using s selectRollupTask_priorities [OF s] by blast
qed

text \<open>C28: If a worker stays due, runnable and past the starvation limit over three successive ticks with no
  validation pending, one of the three ticks runs it, whatever else is due and whatever the rest of the
  candidates' fields; or else one of the ticks has selected another task whose start was not recorded
  by the time of a later one (the observed workers and the repair record theirs when they begin, unless
  they are switched off, find nothing to claim or fail to write).\<close>
theorem starved_task_runs_within_three_ticks:
  assumes waiting: "\<And>i. i < 3 \<Longrightarrow>
      a \<in> set (cands i) \<and> isRunnable a (now i) \<and> waitedTooLong a (now i)"
    and workers: "\<And>i d. i < 3 \<Longrightarrow> d \<in> set (cands i) \<Longrightarrow>
      cand_task d \<in> {Task_usage_15m_v2, Task_timezone, Task_pricing_repair}"
  shows "(\<exists>i < 3. selectRollupTask (cands i) (now i) = Some (cand_task a))
    \<or> (\<exists>i j d. i < j \<and> j < (3 :: nat) \<and> d \<in> set (cands j) \<and> selectRollupTask (cands i) (now i) = Some (cand_task d)
         \<and> cand_task d \<noteq> cand_task a \<and> (case cand_lastStartedAt d of None \<Rightarrow> True | Some s \<Rightarrow> s < now i))"
proof (rule ccontr)
  assume "\<not> ?thesis"
  then have none: "\<not> (\<exists>i < 3. selectRollupTask (cands i) (now i) = Some (cand_task a))"
    and unrecorded: "\<not> (\<exists>i j d. i < j \<and> j < (3 :: nat) \<and> d \<in> set (cands j) \<and> selectRollupTask (cands i) (now i) = Some (cand_task d)
         \<and> cand_task d \<noteq> cand_task a \<and> (case cand_lastStartedAt d of None \<Rightarrow> True | Some s \<Rightarrow> s < now i))"
    by blast+
  have recorded: "\<exists>s. cand_lastStartedAt d = Some s \<and> now i \<le> s"
    if "i < j" "j < (3 :: nat)" "d \<in> set (cands j)" "selectRollupTask (cands i) (now i) = Some (cand_task d)" "cand_task d \<noteq> cand_task a" for i j d
  proof (cases "cand_lastStartedAt d")
    case None
    then show ?thesis using unrecorded that by force
  next
    case (Some s)
    then have "\<not> s < now i" using unrecorded that by force
    then show ?thesis using Some by simp
  qed
  have "\<exists>c. selectCandidate (cands i) (now i) = Some c" if "i < 3" for i
    using selectCandidate_None [of "cands i" "now i"] waiting [OF that] by auto
  then obtain c where c: "\<And>i. i < 3 \<Longrightarrow> selectCandidate (cands i) (now i) = Some (c i)" by metis
  have sel: "selectRollupTask (cands i) (now i) = Some (cand_task (c i))" if "i < 3" for i
    using c [OF that] by (simp add: selectRollupTask_def)
  have other: "cand_task (c i) \<noteq> cand_task a" if "i < 3" for i using none sel that by metis
  have mem: "c i \<in> set (cands i)" if "i < 3" for i using selectCandidate_Some(1) c that by blast
  have a_task: "cand_task a \<in> {Task_usage_15m_v2, Task_timezone, Task_pricing_repair}"
    using workers [of 0 a] waiting [of 0] by simp
  have started: "cand_lastStartedAt a \<noteq> None \<Longrightarrow> the (cand_lastStartedAt a) < now i" if "i < 3" for i
    using waiting [OF that]
    by (auto simp: isRunnable_def Let_def PRICING_REPAIR_MIN_CADENCE_MS_def COORDINATOR_TICK_MS_def
          WORKER_MIN_CADENCE_MS_def split: if_splits)
  have no_repeat: "cand_task (c i) \<noteq> cand_task (c j)" if ij: "i < j" "j < 3" for i j
  proof
    assume eq: "cand_task (c i) = cand_task (c j)"
    have i: "i < 3" using ij by simp
    obtain s where s: "cand_lastStartedAt (c j) = Some s" "now i \<le> s"
      using recorded [OF ij mem [OF ij(2)]] sel [OF i] other [OF ij(2)] eq by auto
    have "cand_task (c j) \<noteq> Task_validation" using workers [OF ij(2) mem [OF ij(2)]] by auto
    moreover have "cand_task a \<noteq> Task_validation" using a_task by auto
    ultimately show False
      using chosen_again_contradiction [OF c [OF ij(2)], of a s] waiting [OF ij(2)] started [OF i] s
      by force
  qed
  show False
    using two_other_tasks [of "cand_task (c 0)" "cand_task a" "cand_task (c 1)" "cand_task (c 2)"]
      workers [of 0, OF _ mem] workers [of 1, OF _ mem] workers [of 2, OF _ mem] other [of 0]
      other [of 1] other [of 2] a_task no_repeat [of 0 1] no_repeat [of 0 2] no_repeat [of 1 2]
    by auto
qed

definition repair_at :: "instant option \<Rightarrow> coordinator_candidate" where
  "repair_at s = \<lparr>cand_task = Task_pricing_repair, cand_due = True, cand_eligibleSince = Some 0,
     cand_lastStartedAt = s, cand_nextAttemptAt = None\<rparr>"

definition waiting_timezone :: coordinator_candidate where
  "waiting_timezone = \<lparr>cand_task = Task_timezone, cand_due = True, cand_eligibleSince = Some 0,
     cand_lastStartedAt = Some 90000, cand_nextAttemptAt = None\<rparr>"

fun example_ticks :: "nat \<Rightarrow> coordinator_candidate list" where
  "example_ticks 0 = [waiting_timezone, repair_at None]"
| "example_ticks (Suc n) = [waiting_timezone, repair_at (Some 200000)]"

lemma example_repair_selected:
  "selectRollupTask (example_ticks i) (200000 + 10000 * int i) = Some Task_pricing_repair \<longleftrightarrow> i = 0"
proof (cases i)
  case 0
  then show ?thesis by (simp add: selectRollupTask_def selectCandidate_def isRunnable_def waiting_timezone_def repair_at_def Let_def
      WORKER_MIN_CADENCE_MS_def compareCandidates_le waitedTooLong_def STARVATION_LIMIT_MS_def)
next
  case (Suc n)
  have "compareCandidates t waiting_timezone (repair_at (Some 200000)) \<le> 0" if "200000 \<le> t" for t
    using that by (simp add: compareCandidates_le waiting_timezone_def repair_at_def waitedTooLong_def STARVATION_LIMIT_MS_def)
  then show ?thesis
    by (simp add: Suc selectRollupTask_def selectCandidate_def isRunnable_def waiting_timezone_def Let_def WORKER_MIN_CADENCE_MS_def)
qed

theorem starved_task_runs_within_three_ticks_witness:
  "\<exists>i < (3 :: nat). selectRollupTask (example_ticks i) (200000 + 10000 * int i)
     = Some (cand_task waiting_timezone)"
proof -
  have "(\<exists>i < 3. selectRollupTask (example_ticks i) (200000 + 10000 * int i) = Some (cand_task waiting_timezone))
    \<or> (\<exists>i j d. i < j \<and> j < (3 :: nat) \<and> d \<in> set (example_ticks j)
         \<and> selectRollupTask (example_ticks i) (200000 + 10000 * int i) = Some (cand_task d) \<and> cand_task d \<noteq> cand_task waiting_timezone
         \<and> (case cand_lastStartedAt d of None \<Rightarrow> True | Some s \<Rightarrow> s < 200000 + 10000 * int i))"
  proof (rule starved_task_runs_within_three_ticks)
    show "waiting_timezone \<in> set (example_ticks i)
        \<and> isRunnable waiting_timezone (200000 + 10000 * int i)
        \<and> waitedTooLong waiting_timezone (200000 + 10000 * int i)" if "i < 3" for i
      by (cases i) (simp_all add: isRunnable_def waitedTooLong_def waiting_timezone_def Let_def
          WORKER_MIN_CADENCE_MS_def STARVATION_LIMIT_MS_def)
    show "cand_task d \<in> {Task_usage_15m_v2, Task_timezone, Task_pricing_repair}"
      if "d \<in> set (example_ticks i)" for i d
      using that by (cases i) (auto simp: repair_at_def waiting_timezone_def)
  qed
  then show ?thesis
  proof (elim disjE exE conjE)
    fix i j :: nat and d
    assume a: "i < j" "d \<in> set (example_ticks j)" "selectRollupTask (example_ticks i) (200000 + 10000 * int i) = Some (cand_task d)"
      "cand_task d \<noteq> cand_task waiting_timezone" "case cand_lastStartedAt d of None \<Rightarrow> True | Some s \<Rightarrow> s < 200000 + 10000 * int i"
    have d: "d = repair_at (Some 200000)" using a(1,2,4) by (cases j) auto
    then have "i = 0" using a(3) example_repair_selected [of i] by (simp add: repair_at_def)
    then show ?thesis using a(5) d by (simp add: repair_at_def)
  qed blast
qed

text \<open>
  A worker that is switched off records no start, and its candidate does not ask for the switch: with a
  backlog, not paused and never started, it is selected at every tick once it is past the starvation
  limit, and no other task runs.
\<close>

lemma never_started_is_always_selected:
  assumes a: "a \<in> set cs" "isRunnable a now" "waitedTooLong a now" "cand_task a \<noteq> Task_validation" "cand_lastStartedAt a = None"
    and others: "\<forall>d \<in> set cs. d \<noteq> a \<longrightarrow> cand_task d \<noteq> Task_validation \<and> cand_lastStartedAt d \<noteq> None"
  shows "selectRollupTask cs now = Some (cand_task a)"
proof -
  obtain c where c: "selectCandidate cs now = Some c" using selectCandidate_None [of cs now] a(1,2) by auto
  have cs: "c \<in> set cs" by (rule selectCandidate_Some(1) [OF c])
  have "c = a"
  proof (rule ccontr)
    assume "c \<noteq> a"
    then have "cand_task c \<noteq> Task_validation" "cand_lastStartedAt c \<noteq> None" using others cs by auto
    then show False using chosen_over_starved(2) [OF c a(1-4)] a(5) by auto
  qed
  then show ?thesis using c by (simp add: selectRollupTask_def)
qed

lemma unstarted_worker_candidate:
  assumes "lastStartedAt u = None" "nextAttemptAt u = None" "eligibleSince u = Some e" "e + 120000 \<le> now"
  shows "isRunnable (workerCandidate task u True now) now" "waitedTooLong (workerCandidate task u True now) now"
    "cand_lastStartedAt (workerCandidate task u True now) = None"
  using assms by (simp_all add: workerCandidate_def isRunnable_def waitedTooLong_def STARVATION_LIMIT_MS_def)

section \<open>The tick on the tables\<close>

lemma on_rest_frame:
  "on_rest m w = (w', r) \<Longrightarrow> cw_scheduler w' = cw_scheduler w \<and> cw_workers w' = cw_workers w
     \<and> cw_slot_held w' = cw_slot_held w \<and> cw_pendingValidation w' = cw_pendingValidation w"
  by (auto simp: on_rest_def split: prod.splits)

lemma bind_rest_frame:
  "bindE (on_rest m) (\<lambda>r. returnE (f r)) w = (w', r) \<Longrightarrow>
     cw_scheduler w' = cw_scheduler w \<and> cw_slot_held w' = cw_slot_held w"
  by (auto simp: bindE_eq dest: on_rest_frame)

lemma runTask_frame:
  "runTask env task w = (w', r) \<Longrightarrow>
     cw_scheduler w' = cw_scheduler w \<and> cw_slot_held w' = cw_slot_held w"
  unfolding runTask_def
  by (auto split: if_splits option.splits dest: bind_rest_frame on_rest_frame)

text \<open>What the scheduler's row says after a task with this result.\<close>

definition recorded :: "tick_outcome \<Rightarrow> scheduler_table \<Rightarrow> bool" where
  "recorded out tbl \<longleftrightarrow> (\<exists>r. tbl = Some r \<and> s_lastSelectedTask r = Some (tick_task out)
     \<and> s_lastTaskOutcome r = Some (tick_result out) \<and> s_lastTaskFinishedAt r \<noteq> None
     \<and> s_lastHeartbeatAt r = s_lastTaskFinishedAt r)"

lemma recorded_recordFinished:
  "tbl \<noteq> None \<Longrightarrow> recorded \<lparr>tick_status = st, tick_task = task, tick_result = out\<rparr>
     (recordFinished task out t err tbl)"
  by (auto simp: recorded_def recordFinished_def)

lemma runSelected_recorded:
  assumes "cw_scheduler w \<noteq> None"
  shows "\<exists>w' out. runSelected (productionDependencies env) task w = (w', Inr out)
    \<and> recorded out (cw_scheduler w') \<and> tick_task out = task
    \<and> (tick_status out = Tick_failed \<longleftrightarrow> tick_result out = Out_failed)"
proof (cases "runTask env task w")
  case (Pair w1 r)
  have sched: "cw_scheduler w1 \<noteq> None" using runTask_frame [OF Pair] assms by simp
  note rec = recorded_recordFinished [OF sched]
  show ?thesis
    using Pair sched
    by (cases r) (auto simp: runSelected_def productionDependencies_def on_scheduler_def Let_def
        bindE_def returnE_def intro: rec)
qed

lemma prod_simps:
  "c_recordHeartbeat (productionDependencies env) t w
     = (w\<lparr>cw_scheduler := recordHeartbeat t (cw_scheduler w)\<rparr>, Inr ())"
  "c_recordStarted (productionDependencies env) task t w
     = (w\<lparr>cw_scheduler := recordStarted task t (cw_scheduler w)\<rparr>, Inr ())"
  "c_recordFinished (productionDependencies env) task out t err w
     = (w\<lparr>cw_scheduler := recordFinished task out t err (cw_scheduler w)\<rparr>, Inr ())"
  "c_setEligibility (productionDependencies env) name el t w
     = (w\<lparr>cw_workers := setEligibility (cw_workers w) name el t\<rparr>, Inr ())"
  "c_withLoadSlot (productionDependencies env) = with_world_slot"
  by (simp_all add: productionDependencies_def on_scheduler_def)

lemma prod_getWorker:
  "cw_workers w name = Some r \<Longrightarrow> c_getWorker (productionDependencies env) name w = (w, Inr r)"
  by (simp add: productionDependencies_def get_worker_def requireWorkerRow_def)

lemma prod_counts:
  "\<exists>n. c_countUsageBacklog (productionDependencies env) t w = (w, Inr n)"
  "\<exists>b. c_countTimezoneBacklog (productionDependencies env) w = (w, Inr b)"
  by (simp_all add: productionDependencies_def)

text \<open>A query of the rest of the process that does not reject keeps the tables.\<close>

definition accepts :: "('x, exn, 'a) io \<Rightarrow> bool" where
  "accepts m \<longleftrightarrow> (\<forall>x. \<exists>x' v. m x = (x', Inr v))"

lemma accepts_on_rest:
  assumes "accepts m"
  shows "\<exists>w' v. on_rest m w = (w', Inr v) \<and> cw_scheduler w' = cw_scheduler w
    \<and> cw_workers w' = cw_workers w"
proof -
  obtain x v where m: "m (cw_rest w) = (x, Inr v)" using assms unfolding accepts_def by blast
  then have "on_rest m w = (w\<lparr>cw_rest := x\<rparr>, Inr v)" by (simp add: on_rest_def)
  then show ?thesis by auto
qed

lemma validationCandidate_accepts:
  assumes "e_clickhouse env \<Longrightarrow> accepts (reconcileRollupCutoverWith (e_cutover env) (Some now))"
  shows "\<exists>w' v. c_validationCandidate (productionDependencies env) now w = (w', Inr v)
    \<and> cw_scheduler w' = cw_scheduler w \<and> cw_workers w' = cw_workers w"
proof (cases "e_clickhouse env")
  case True
  obtain w' v where "on_rest (reconcileRollupCutoverWith (e_cutover env) (Some now)) w = (w', Inr v)"
    "cw_scheduler w' = cw_scheduler w" "cw_workers w' = cw_workers w"
    using accepts_on_rest [OF assms [OF True], of w] by blast
  then show ?thesis using True by (simp add: productionDependencies_def validationCandidate_def)
next
  case False
  then show ?thesis by (simp add: productionDependencies_def validationCandidate_def)
qed

lemma coordinatorOperation_recorded:
  assumes sched: "cw_scheduler w \<noteq> None"
    and workers: "cw_workers w Usage_15m_v2 = Some u" "cw_workers w Timezone = Some z"
    and repair: "accepts (e_pricingRepairCandidate env now)"
    and cutover: "e_clickhouse env \<Longrightarrow> accepts (reconcileRollupCutoverWith (e_cutover env) (Some now))"
  shows "\<exists>w' out. coordinatorOperation (productionDependencies env) now w = (w', Inr out)
    \<and> recorded out (cw_scheduler w')"
proof -
  let ?d = "productionDependencies env"
  let ?w1 = "w\<lparr>cw_scheduler := recordHeartbeat now (cw_scheduler w)\<rparr>"
  obtain n where n: "c_countUsageBacklog ?d now ?w1 = (?w1, Inr n)" using prod_counts(1) by blast
  obtain b where b: "c_countTimezoneBacklog ?d ?w1 = (?w1, Inr b)" using prod_counts(2) by blast
  obtain w2 p where p: "c_pricingRepairCandidate ?d now ?w1 = (w2, Inr p)"
    and w2: "cw_scheduler w2 = cw_scheduler ?w1"
    using accepts_on_rest [OF repair, of ?w1] by (auto simp: productionDependencies_def)
  obtain w3 v where v: "c_validationCandidate ?d now w2 = (w3, Inr v)"
    and w3: "cw_scheduler w3 = cw_scheduler w2"
    using validationCandidate_accepts [of env now w2] cutover by blast
  have s3: "cw_scheduler w3 \<noteq> None" using w2 w3 sched by (simp add: recordHeartbeat_def)
  have g: "c_getWorker ?d Usage_15m_v2 ?w1 = (?w1, Inr u)" "c_getWorker ?d Timezone ?w1 = (?w1, Inr z)"
    using workers by (simp_all add: prod_getWorker)
  define ud where "ud = (\<not> paused u \<and> n > 0)"
  define zd where "zd = (\<not> paused z \<and> backlog_eligible b > 0)"
  define sel where "sel = selectRollupTask
    ([workerCandidate Task_usage_15m_v2 u ud now, workerCandidate Task_timezone z zd now]
      @ optional p @ optional v) now"
  define w4 where "w4 = w3\<lparr>cw_workers := setEligibility
      (setEligibility (cw_workers w3) Usage_15m_v2 ud now) Timezone zd now\<rparr>"
  have s4: "cw_scheduler w4 \<noteq> None" using s3 by (simp add: w4_def)
  have body: "coordinatorOperation ?d now w =
    (case sel of
       None \<Rightarrow> (w4\<lparr>cw_scheduler := recordFinished Task_idle Out_idle now None (cw_scheduler w4)\<rparr>,
          Inr \<lparr>tick_status = Tick_idle, tick_task = Task_idle, tick_result = Out_idle\<rparr>)
     | Some task \<Rightarrow> runSelected ?d task
          (w4\<lparr>cw_scheduler := recordStarted task now (cw_scheduler w4)\<rparr>))"
    unfolding coordinatorOperation_def
    by (simp add: prod_simps g n b p v Let_def sel_def ud_def zd_def w4_def split: option.splits)
  show ?thesis
  proof (cases sel)
    case None
    then show ?thesis unfolding body by (auto intro: recorded_recordFinished [OF s4])
  next
    case (Some task)
    have "cw_scheduler (w4\<lparr>cw_scheduler := recordStarted task now (cw_scheduler w4)\<rparr>) \<noteq> None"
      using s4 by (simp add: recordStarted_def)
    from runSelected_recorded [OF this, of env task] show ?thesis unfolding body Some by auto
  qed
qed

text \<open>C30: A tick that gets the load slot always ends by recording what it did: whatever task it
  starts and however that task ends, rejections included, the tick does not reject, the
  scheduler's row names the task, its outcome and a finishing time, and the slot is free again.\<close>
theorem tick_records_its_outcome:
  assumes "\<not> cw_slot_held w" "cw_scheduler w \<noteq> None"
    and "cw_workers w Usage_15m_v2 = Some u" "cw_workers w Timezone = Some z"
    and "accepts (e_pricingRepairCandidate env now)"
    and "e_clickhouse env \<Longrightarrow> accepts (reconcileRollupCutoverWith (e_cutover env) (Some now))"
  shows "\<exists>w' out. runRollupCoordinatorTick env now w = (w', Inr out)
    \<and> recorded out (cw_scheduler w') \<and> \<not> cw_slot_held w'"
proof -
  let ?w = "w\<lparr>cw_pendingValidation := None\<rparr>"
  obtain w1 out where op:
    "coordinatorOperation (productionDependencies env) now (?w\<lparr>cw_slot_held := True\<rparr>) = (w1, Inr out)"
    and rec: "recorded out (cw_scheduler w1)"
    using coordinatorOperation_recorded [of "?w\<lparr>cw_slot_held := True\<rparr>" u z env now] assms by auto
  have "c_withLoadSlot (productionDependencies env) (coordinatorOperation (productionDependencies env) now) ?w
      = (w1\<lparr>cw_slot_held := False\<rparr>, Inr (Some out))"
    using op assms(1) by (simp add: prod_simps with_world_slot_def withLoadSlot_def)
  then show ?thesis
    using rec by (simp add: runRollupCoordinatorTick_def runRollupCoordinatorTickWith_def)
qed

definition example_scheduler_row :: rollup_scheduler_record where
  "example_scheduler_row =
     \<lparr>s_lastHeartbeatAt = None, s_lastSelectedTask = None, s_lastTaskStartedAt = None,
      s_lastTaskFinishedAt = None, s_lastTaskOutcome = None, s_lastError = None, s_updatedAt = 0\<rparr>"

definition example_world :: "unit coordinator_world" where
  "example_world =
     \<lparr>cw_workers = (\<lambda>n. Some (initial_worker_row n 0)), cw_slot_held = False,
      cw_scheduler = Some example_scheduler_row, cw_pendingValidation = None, cw_rest = ()\<rparr>"

text \<open>A process whose pricing repair is due and throws.\<close>

definition throwing_env :: "unit coordinator_env" where
  "throwing_env =
     \<lparr>e_clickhouse = False, e_countUsageBacklog = (\<lambda>_ _. 0),
      e_countTimezoneBacklog = (\<lambda>_. \<lparr>backlog_eligible = 0, backlog_waitingForBase = 0\<rparr>),
      e_pricingRepairCandidate = (\<lambda>t. returnE (Some (repair_at None))),
      e_cutover = \<lparr>dep_get = (\<lambda>_. throwE []), dep_save = (\<lambda>_ _. throwE []),
        dep_eligibleTarget = (\<lambda>t. t), dep_readiness = (\<lambda>_ _ _. Inl []),
        dep_validate = (\<lambda>_ _ _ _. Inl []), dep_logTransition = (\<lambda>_ _ _ _ x. x)\<rparr>,
      e_runPricingRepairTask = throwE ''connection reset'',
      e_runUsageTask = returnE Obs_completed, e_runTimezoneTask = returnE Obs_completed,
      e_newDate = (\<lambda>_. 7)\<rparr>"

theorem tick_records_its_outcome_witness:
  "\<exists>w' out. runRollupCoordinatorTick throwing_env 5 example_world = (w', Inr out)
    \<and> recorded out (cw_scheduler w') \<and> \<not> cw_slot_held w'"
  by (rule tick_records_its_outcome
        [of example_world "initial_worker_row Usage_15m_v2 0" "initial_worker_row Timezone 0"])
     (simp_all add: example_world_def throwing_env_def accepts_def)

text \<open>The tie-break of \<open>selectRollupTask\<close> is not reached when neither candidate has started yet:
  the difference of two missing starts is NaN, so two such candidates compare as equal and the
  usage worker, listed first, is chosen although \<open>STABLE_TASK_ORDER\<close> puts the repair before it;
  as soon as both have started at the same time, the repair is chosen.\<close>
theorem never_started_tie_ignores_task_order:
  "selectRollupTask
     [\<lparr>cand_task = Task_usage_15m_v2, cand_due = True, cand_eligibleSince = e,
       cand_lastStartedAt = s, cand_nextAttemptAt = None\<rparr>,
      \<lparr>cand_task = Task_pricing_repair, cand_due = True, cand_eligibleSince = e,
       cand_lastStartedAt = s, cand_nextAttemptAt = None\<rparr>] now
   = (case s of
        None \<Rightarrow> Some Task_usage_15m_v2
      | Some t \<Rightarrow> if now - t \<ge> 10000 then Some Task_pricing_repair else None)"
proof (cases s)
  case None
  then show ?thesis
    by (simp add: selectRollupTask_def selectCandidate_def isRunnable_def compareCandidates_le
        waitedTooLong_def)
next
  case (Some t)
  then show ?thesis
    by (simp add: selectRollupTask_def selectCandidate_def isRunnable_def compareCandidates_le
        waitedTooLong_def Let_def PRICING_REPAIR_MIN_CADENCE_MS_def COORDINATOR_TICK_MS_def
        WORKER_MIN_CADENCE_MS_def)
qed

end
