(* ===== verification/Js_Value.thy ===== *)
theory Js_Value
  imports Toard_Prelude
begin

text \<open>
  JavaScript numbers and JSON values. A number is a rational, an infinity or NaN; arithmetic on
  finite numbers is exact (rounding of doubles is not modelled). A parsed JSON value, or any
  \<open>unknown\<close> the code inspects with \<open>typeof\<close>, is a \<open>jsvalue\<close>; an object is its list of own
  properties in enumeration order. Also here: calendar dates of instants (\<open>toISOString\<close>).
\<close>

section \<open>Numbers\<close>

datatype jsnum = Fin rat | PInf | NInf | NaN

definition num_of_int :: "int \<Rightarrow> jsnum" where
  "num_of_int n = Fin (of_int n)"

definition num_finite :: "jsnum \<Rightarrow> bool" where
  "num_finite x = (case x of Fin _ \<Rightarrow> True | _ \<Rightarrow> False)"

text \<open>\<open>MAX_SAFE_INTEGER\<close> is \<open>2^53 - 1\<close>.\<close>

definition max_safe_integer :: int where "max_safe_integer = 9007199254740991"

definition rat_is_int :: "rat \<Rightarrow> bool" where
  "rat_is_int q \<longleftrightarrow> of_int \<lfloor>q\<rfloor> = q"

definition num_is_integer :: "jsnum \<Rightarrow> bool" where
  "num_is_integer x = (case x of Fin q \<Rightarrow> rat_is_int q | _ \<Rightarrow> False)"

definition num_is_safe_integer :: "jsnum \<Rightarrow> bool" where
  "num_is_safe_integer x =
     (case x of Fin q \<Rightarrow> rat_is_int q \<and> \<bar>q\<bar> \<le> of_int max_safe_integer | _ \<Rightarrow> False)"

text \<open>\<open>a < b\<close> and \<open>a <= b\<close>; every comparison with NaN is false.\<close>

fun num_lt :: "jsnum \<Rightarrow> jsnum \<Rightarrow> bool" where
  "num_lt NaN _ = False"
| "num_lt _ NaN = False"
| "num_lt PInf _ = False"
| "num_lt _ NInf = False"
| "num_lt NInf _ = True"
| "num_lt _ PInf = True"
| "num_lt (Fin a) (Fin b) = (a < b)"

definition num_eq :: "jsnum \<Rightarrow> jsnum \<Rightarrow> bool" where
  "num_eq a b \<longleftrightarrow> a = b \<and> a \<noteq> NaN"

definition num_le :: "jsnum \<Rightarrow> jsnum \<Rightarrow> bool" where
  "num_le a b \<longleftrightarrow> num_lt a b \<or> num_eq a b"

fun num_add :: "jsnum \<Rightarrow> jsnum \<Rightarrow> jsnum" where
  "num_add (Fin a) (Fin b) = Fin (a + b)"
| "num_add NaN _ = NaN"
| "num_add _ NaN = NaN"
| "num_add PInf NInf = NaN"
| "num_add NInf PInf = NaN"
| "num_add PInf _ = PInf"
| "num_add _ PInf = PInf"
| "num_add NInf _ = NInf"
| "num_add _ NInf = NInf"

fun num_neg :: "jsnum \<Rightarrow> jsnum" where
  "num_neg (Fin a) = Fin (- a)"
| "num_neg PInf = NInf"
| "num_neg NInf = PInf"
| "num_neg NaN = NaN"

definition num_sub :: "jsnum \<Rightarrow> jsnum \<Rightarrow> jsnum" where
  "num_sub a b = num_add a (num_neg b)"

definition signed_inf :: "rat \<Rightarrow> jsnum" where
  "signed_inf s = (if s > 0 then PInf else if s < 0 then NInf else NaN)"

definition num_sign :: "jsnum \<Rightarrow> rat" where
  "num_sign x = (case x of Fin q \<Rightarrow> sgn q | PInf \<Rightarrow> 1 | NInf \<Rightarrow> -1 | NaN \<Rightarrow> 0)"

fun num_mul :: "jsnum \<Rightarrow> jsnum \<Rightarrow> jsnum" where
  "num_mul (Fin a) (Fin b) = Fin (a * b)"
| "num_mul a b = signed_inf (num_sign a * num_sign b)"

text \<open>Division; a zero divisor is a positive zero.\<close>

definition num_div :: "jsnum \<Rightarrow> jsnum \<Rightarrow> jsnum" where
  "num_div x y =
     (case y of
        NaN \<Rightarrow> NaN
      | Fin b \<Rightarrow>
          (case x of
             NaN \<Rightarrow> NaN
           | Fin a \<Rightarrow> if b = 0 then signed_inf (sgn a) else Fin (a / b)
           | _ \<Rightarrow> signed_inf (num_sign x * (if b = 0 then 1 else sgn b)))
      | _ \<Rightarrow> (case x of Fin _ \<Rightarrow> Fin 0 | _ \<Rightarrow> NaN))"

lemma num_div_Fin [simp]: "b \<noteq> 0 \<Longrightarrow> num_div (Fin a) (Fin b) = Fin (a / b)"
  by (simp add: num_div_def)

definition num_min :: "jsnum \<Rightarrow> jsnum \<Rightarrow> jsnum" where
  "num_min a b = (if a = NaN \<or> b = NaN then NaN else if num_lt b a then b else a)"

lemma num_eq_Fin [simp]: "num_eq (Fin a) (Fin b) \<longleftrightarrow> a = b"
  by (simp add: num_eq_def)

lemma num_le_Fin [simp]: "num_le (Fin a) (Fin b) \<longleftrightarrow> a \<le> b"
  by (auto simp: num_le_def)

lemma num_sub_Fin [simp]: "num_sub (Fin a) (Fin b) = Fin (a - b)"
  by (simp add: num_sub_def)

lemma num_finite_Fin [simp]: "num_finite (Fin a)"
  by (simp add: num_finite_def)

lemma num_finiteD: "num_finite x \<Longrightarrow> \<exists>q. x = Fin q"
  by (cases x) (auto simp: num_finite_def)

lemma num_safe_integerD: "num_is_safe_integer x \<Longrightarrow> \<exists>n. x = Fin (of_int n) \<and> \<bar>n\<bar> \<le> max_safe_integer"
proof (cases x)
  case (Fin q)
  assume "num_is_safe_integer x"
  then have "of_int \<lfloor>q\<rfloor> = q" "\<bar>q\<bar> \<le> of_int max_safe_integer"
    using Fin by (auto simp: num_is_safe_integer_def rat_is_int_def)
  then have "x = Fin (of_int \<lfloor>q\<rfloor>)" "\<bar>of_int \<lfloor>q\<rfloor> :: rat\<bar> \<le> of_int max_safe_integer" using Fin by auto
  moreover from this(2) have "\<bar>\<lfloor>q\<rfloor>\<bar> \<le> max_safe_integer" by (metis of_int_abs of_int_le_iff)
  ultimately show ?thesis by blast
qed (auto simp: num_is_safe_integer_def)

section \<open>JSON values\<close>

datatype jsvalue =
  JUndef | JNull | JBool bool | JNum jsnum | JStr string
| JArr "jsvalue list" | JObj "(string \<times> jsvalue) list"

text \<open>\<open>o[key]\<close> of own properties; \<open>undefined\<close> when absent.\<close>

definition js_get :: "(string \<times> jsvalue) list \<Rightarrow> string \<Rightarrow> jsvalue" where
  "js_get ps k = (case map_of ps k of None \<Rightarrow> JUndef | Some v \<Rightarrow> v)"

fun is_nullish :: "jsvalue \<Rightarrow> bool" where
  "is_nullish JUndef = True"
| "is_nullish JNull = True"
| "is_nullish _ = False"

section \<open>Calendar dates\<close>

definition MS_PER_DAY :: int where "MS_PER_DAY = 86400000"

text \<open>The proleptic Gregorian date of a day number (day 0 is 1970-01-01), in years that begin
  in March.\<close>

definition civil_from_days :: "int \<Rightarrow> int \<times> int \<times> int" where
  "civil_from_days z =
     (let z' = z + 719468;
          era = z' div 146097;
          doe = z' mod 146097;
          yoe = (doe - doe div 1460 + doe div 36524 - doe div 146096) div 365;
          doy = doe - (365 * yoe + yoe div 4 - yoe div 100);
          mp = (5 * doy + 2) div 153;
          d = doy - (153 * mp + 2) div 5 + 1;
          m = (if mp < 10 then mp + 3 else mp - 9);
          y = yoe + era * 400 + (if m \<le> 2 then 1 else 0)
      in (y, m, d))"

text \<open>The inverse, also the day number \<open>Date.UTC(y, m - 1, d)\<close> gives.\<close>

definition days_from_civil :: "int \<Rightarrow> int \<Rightarrow> int \<Rightarrow> int" where
  "days_from_civil y m d =
     (let y' = (if m \<le> 2 then y - 1 else y);
          era = y' div 400;
          yoe = y' mod 400;
          mp = (if m > 2 then m - 3 else m + 9);
          doy = (153 * mp + 2) div 5 + d - 1;
          doe = yoe * 365 + yoe div 4 - yoe div 100 + doy
      in era * 146097 + doe - 719468)"

definition digit_char :: "int \<Rightarrow> char" where
  "digit_char n = char_of (nat (48 + n mod 10))"

fun fixed_digits :: "nat \<Rightarrow> int \<Rightarrow> string" where
  "fixed_digits 0 n = []"
| "fixed_digits (Suc k) n = fixed_digits k (n div 10) @ [digit_char n]"

text \<open>\<open>toISOString().slice(0, 10)\<close> for years 0 to 9999; other years have a sign and six digits.\<close>

definition iso_date :: "instant \<Rightarrow> string" where
  "iso_date t =
     (let (y, m, d) = civil_from_days (t div MS_PER_DAY);
          year = (if 0 \<le> y \<and> y \<le> 9999 then fixed_digits 4 y
                  else (if y < 0 then ''-'' else ''+'') @ fixed_digits 6 \<bar>y\<bar>)
      in take 10 (year @ ''-'' @ fixed_digits 2 m @ ''-'' @ fixed_digits 2 d))"

end
