(* ===== verification/Pricing.thy ===== *)
theory Pricing
  imports Js_Value
begin

text \<open>
  \<open>packages/pricing/src\<close>: the price records (\<open>types.ts\<close>), the lookup of a model's price by
  exact, normalised or inferred name (\<open>aliases.ts\<close>), the cost of a request with context tiers,
  cache rates and the fast multiplier, and its explanation at a point in time against the
  schedule of immutable revisions (\<open>cost.ts\<close>). Prices and token counts are JavaScript numbers;
  a \<open>Map\<close> is its list of entries in insertion order.
\<close>

section \<open>Price records\<close>

datatype cost_mode = Display | Auto | Calculate

record context_tier =
  ct_aboveTokens :: rat
  ct_inputPerM :: "jsnum option"
  ct_outputPerM :: "jsnum option"
  ct_cacheReadPerM :: "jsnum option"
  ct_cacheCreatePerM :: "jsnum option"
  ct_cacheCreate1hPerM :: "jsnum option"

datatype context_scope = Scope_request | Scope_session

record pricing_details =
  p_contextTiers :: "context_tier list option"
  p_cacheCreate1hPerM :: "jsnum option"
  p_contextScope :: "context_scope option"

record model_pricing = pricing_details +
  p_inputPerM :: jsnum
  p_outputPerM :: jsnum
  p_cacheReadPerM :: "jsnum option"
  p_cacheCreatePerM :: "jsnum option"
  p_inputAbove200kPerM :: "jsnum option"
  p_outputAbove200kPerM :: "jsnum option"
  p_fastMultiplier :: "jsnum option"

type_synonym pricing_map = "(string \<times> model_pricing) list"

record pricing_revision =
  rev_id :: string
  rev_modelId :: string
  rev_effectiveAt :: instant
  rev_validUntil :: "instant option"
  rev_pricing :: model_pricing
  rev_sourceModelId :: "string option"

type_synonym pricing_schedule = "(string \<times> pricing_revision list) list"

datatype cost_status = Priced | Estimated | Unpriced

record cost_resolution =
  res_costUsd :: jsnum
  res_pricingRevisionId :: "string option"
  res_status :: cost_status

section \<open>Names of models\<close>

definition VENDOR_PREFIXES :: "string list" where
  "VENDOR_PREFIXES = [''us.anthropic.'', ''anthropic.'', ''openai/'', ''bedrock/'']"

fun strip_vendor_prefix :: "string list \<Rightarrow> string \<Rightarrow> string" where
  "strip_vendor_prefix [] key = key"
| "strip_vendor_prefix (p # ps) key =
     (if starts_with key p then drop (length p) key else strip_vendor_prefix ps key)"

text \<open>\<open>/-(\d{8}|\d{4}-\d{2}-\d{2})$/\<close>; the two alternatives exclude each other.\<close>

definition is_compact_date_suffix :: "string \<Rightarrow> bool" where
  "is_compact_date_suffix s \<longleftrightarrow> length s = 9 \<and> hd s = CHR ''-'' \<and> list_all is_digit (tl s)"

definition is_dashed_date_suffix :: "string \<Rightarrow> bool" where
  "is_dashed_date_suffix s \<longleftrightarrow> length s = 11 \<and> hd s = CHR ''-'' \<and> s ! 5 = CHR ''-'' \<and> s ! 8 = CHR ''-''
     \<and> list_all is_digit (take 4 (drop 1 s)) \<and> list_all is_digit (take 2 (drop 6 s))
     \<and> list_all is_digit (take 2 (drop 9 s))"

definition strip_date_suffix :: "string \<Rightarrow> string" where
  "strip_date_suffix s =
     (if is_dashed_date_suffix (drop (length s - 11) s) then take (length s - 11) s
      else if is_compact_date_suffix (drop (length s - 9) s) then take (length s - 9) s
      else s)"

datatype alias_match = Exact | Normalized | Inferred

record 'a resolved_alias =
  al_key :: string
  al_value :: 'a
  al_match :: alias_match

text \<open>The loop over the map that keeps the first longest key related to the name.\<close>

definition fuzzy_related :: "string \<Rightarrow> string \<Rightarrow> string \<Rightarrow> bool" where
  "fuzzy_related key stripped k \<longleftrightarrow> str_includes key k \<or> str_includes k stripped"

fun fuzzy_search ::
  "string \<Rightarrow> string \<Rightarrow> (string \<times> 'a) list \<Rightarrow> 'a resolved_alias option \<Rightarrow> nat \<Rightarrow> 'a resolved_alias option"
where
  "fuzzy_search key stripped [] best bestLen = best"
| "fuzzy_search key stripped ((k, v) # vs) best bestLen =
     (if fuzzy_related key stripped k \<and> length k > bestLen
      then fuzzy_search key stripped vs (Some \<lparr>al_key = k, al_value = v, al_match = Inferred\<rparr>) (length k)
      else fuzzy_search key stripped vs best bestLen)"

definition resolveAliasEntry ::
  "string option \<Rightarrow> (string \<times> 'a) list \<Rightarrow> 'a resolved_alias option" where
  "resolveAliasEntry model vals =
     (if model = None \<or> model = Some [] then None
      else (let m = the model in
       (case map_of vals m of
          Some v \<Rightarrow> Some \<lparr>al_key = m, al_value = v, al_match = Exact\<rparr>
        | None \<Rightarrow>
          (let key = strip_vendor_prefix VENDOR_PREFIXES m in
           (case map_of vals key of
              Some v \<Rightarrow> Some \<lparr>al_key = key, al_value = v, al_match = Normalized\<rparr>
            | None \<Rightarrow>
              (let stripped = strip_date_suffix key in
               (case (if stripped \<noteq> key then map_of vals stripped else None) of
                  Some v \<Rightarrow> Some \<lparr>al_key = stripped, al_value = v, al_match = Normalized\<rparr>
                | None \<Rightarrow> fuzzy_search key stripped vals None 0)))))))"

definition resolveAlias :: "string option \<Rightarrow> (string \<times> 'a) list \<Rightarrow> 'a option" where
  "resolveAlias model vals = map_option al_value (resolveAliasEntry model vals)"

definition resolvePricingEntry ::
  "string option \<Rightarrow> pricing_map \<Rightarrow> (string \<times> model_pricing) option" where
  "resolvePricingEntry model pricing =
     map_option (\<lambda>r. (al_key r, al_value r)) (resolveAliasEntry model pricing)"

definition resolvePricing :: "string option \<Rightarrow> pricing_map \<Rightarrow> model_pricing option" where
  "resolvePricing model pricing = resolveAlias model pricing"

definition resolvePricingRevisions ::
  "string option \<Rightarrow> pricing_schedule \<Rightarrow> pricing_revision list option" where
  "resolvePricingRevisions model schedule = resolveAlias model schedule"

definition resolvePricingRevisionEntry ::
  "string option \<Rightarrow> pricing_schedule \<Rightarrow> pricing_revision list resolved_alias option" where
  "resolvePricingRevisionEntry model schedule = resolveAliasEntry model schedule"

section \<open>The cost of a request\<close>

record cost_args =
  a_model :: "string option"
  a_inputTokens :: jsnum
  a_outputTokens :: jsnum
  a_cacheReadTokens :: jsnum
  a_cacheCreationTokens :: jsnum
  a_cacheCreation1hTokens :: "jsnum option"
  a_isFast :: bool
  a_providedCostUsd :: "jsnum option"
  a_mode :: "cost_mode option"

record rates =
  r_input :: jsnum
  r_output :: jsnum
  r_cacheRead :: "jsnum option"
  r_cacheCreate :: "jsnum option"
  r_cacheCreate1h :: "jsnum option"

record cost_breakdown =
  b_contextTokens :: jsnum
  b_ratesPerMillion :: rates
  b_components :: "jsnum list"
  b_totalUsd :: jsnum

text \<open>\<open>/(?:^|[./])w/.test(s)\<close>: \<open>w\<close> at the start or after a dot or a slash. \<open>prev\<close> says whether
  the position before \<open>s\<close> is such a boundary.\<close>

fun word_at_boundary :: "(string \<Rightarrow> bool) \<Rightarrow> bool \<Rightarrow> string \<Rightarrow> bool" where
  "word_at_boundary w boundary [] = (boundary \<and> w [])"
| "word_at_boundary w boundary (c # cs) =
     ((boundary \<and> w (c # cs)) \<or> word_at_boundary w (c = CHR ''.'' \<or> c = CHR ''/'') cs)"

definition anthropic_model :: "string option \<Rightarrow> bool" where
  "anthropic_model m =
     word_at_boundary (\<lambda>s. starts_with s ''claude-'' \<or> starts_with s ''claude.'') True
       (case m of Some s \<Rightarrow> s | None \<Rightarrow> [])"

definition gemini_model :: "string option \<Rightarrow> bool" where
  "gemini_model m =
     word_at_boundary (\<lambda>s. starts_with s ''gemini-'') True (case m of Some s \<Rightarrow> s | None \<Rightarrow> [])"

text \<open>\<open>a ?? b\<close>\<close>

definition coalesce :: "'a option \<Rightarrow> 'a option \<Rightarrow> 'a option" where
  "coalesce a b = (case a of Some x \<Rightarrow> Some x | None \<Rightarrow> b)"

definition base_rates :: "bool \<Rightarrow> model_pricing \<Rightarrow> rates" where
  "base_rates anthropic p =
     \<lparr>r_input = p_inputPerM p, r_output = p_outputPerM p,
      r_cacheRead = coalesce (p_cacheReadPerM p)
        (if anthropic then Some (num_mul (p_inputPerM p) (Fin (1/10))) else None),
      r_cacheCreate = coalesce (p_cacheCreatePerM p)
        (if anthropic then Some (num_mul (p_inputPerM p) (Fin (5/4))) else None),
      r_cacheCreate1h = coalesce (p_cacheCreate1hPerM p)
        (if anthropic then Some (num_mul (p_inputPerM p) (Fin 2)) else None)\<rparr>"

definition pricing_tiers :: "model_pricing \<Rightarrow> context_tier list" where
  "pricing_tiers p =
     (let tiers = (case p_contextTiers p of Some ts \<Rightarrow> ts | None \<Rightarrow> [])
      in if \<not> list_ex (\<lambda>t. ct_aboveTokens t = 200000) tiers
            \<and> (p_inputAbove200kPerM p \<noteq> None \<or> p_outputAbove200kPerM p \<noteq> None)
         then tiers @ [\<lparr>ct_aboveTokens = 200000, ct_inputPerM = p_inputAbove200kPerM p,
                ct_outputPerM = p_outputAbove200kPerM p, ct_cacheReadPerM = None,
                ct_cacheCreatePerM = None, ct_cacheCreate1hPerM = None\<rparr>]
         else tiers)"

definition compare_tiers :: "context_tier \<Rightarrow> context_tier \<Rightarrow> int" where
  "compare_tiers l r = cmp_ord (ct_aboveTokens l) (ct_aboveTokens r)"

definition apply_tier :: "bool \<Rightarrow> jsnum \<Rightarrow> rates \<Rightarrow> context_tier \<Rightarrow> rates" where
  "apply_tier cacheRatio contextTokens r tier =
     (if num_le contextTokens (Fin (ct_aboveTokens tier)) then r
      else (let previousInput = r_input r;
                input' = the (coalesce (ct_inputPerM tier) (Some (r_input r)));
                output' = the (coalesce (ct_outputPerM tier) (Some (r_output r)));
                scale = (if num_lt (Fin 0) previousInput then num_div input' previousInput else Fin 1);
                fallback = (\<lambda>v. if num_eq scale (Fin 1) then v
                             else if cacheRatio then map_option (\<lambda>x. num_mul x scale) v else None)
            in \<lparr>r_input = input', r_output = output',
                r_cacheRead = coalesce (ct_cacheReadPerM tier) (fallback (r_cacheRead r)),
                r_cacheCreate = coalesce (ct_cacheCreatePerM tier) (fallback (r_cacheCreate r)),
                r_cacheCreate1h = coalesce (ct_cacheCreate1hPerM tier) (fallback (r_cacheCreate1h r))\<rparr>))"

definition apply_tiers :: "bool \<Rightarrow> jsnum \<Rightarrow> rates \<Rightarrow> context_tier list \<Rightarrow> rates" where
  "apply_tiers cacheRatio contextTokens r tiers =
     foldl (apply_tier cacheRatio contextTokens) r (js_sort compare_tiers tiers)"

text \<open>One component: no units cost nothing, whatever the rate; otherwise the rate must be a finite
  non-negative number.\<close>

definition cost_component :: "jsnum \<Rightarrow> jsnum \<Rightarrow> jsnum option \<Rightarrow> jsnum option" where
  "cost_component multiplier u rate =
     (if num_eq u (Fin 0) then Some (Fin 0)
      else (case rate of
              None \<Rightarrow> None
            | Some x \<Rightarrow> if \<not> num_finite x \<or> num_lt x (Fin 0) then None
                else Some (num_div (num_mul (num_mul u x) multiplier) (Fin 1000000))))"

fun cost_components :: "jsnum \<Rightarrow> (jsnum \<times> jsnum option) list \<Rightarrow> jsnum list option" where
  "cost_components m [] = Some []"
| "cost_components m ((u, rate) # rest) =
     (case cost_component m u rate of
        None \<Rightarrow> None
      | Some c \<Rightarrow> map_option (\<lambda>cs. c # cs) (cost_components m rest))"

definition cost_quantities :: "cost_args \<Rightarrow> jsnum list" where
  "cost_quantities a = [a_inputTokens a, a_outputTokens a, a_cacheReadTokens a,
     a_cacheCreationTokens a, (case a_cacheCreation1hTokens a of Some x \<Rightarrow> x | None \<Rightarrow> Fin 0)]"

definition cost_multiplier :: "cost_args \<Rightarrow> model_pricing \<Rightarrow> jsnum option" where
  "cost_multiplier a p =
     (let multiplier = (if a_isFast a then p_fastMultiplier p else Some (Fin 1)) in
      if a_isFast a \<and> (case multiplier of None \<Rightarrow> True | Some m \<Rightarrow> num_le m (Fin 1)) then None
      else (case multiplier of
              None \<Rightarrow> None
            | Some m \<Rightarrow> if \<not> num_finite m \<or> num_le m (Fin 0) then None else Some m))"

definition context_tokens :: "cost_args \<Rightarrow> jsnum" where
  "context_tokens a =
     num_add (num_add (a_inputTokens a) (a_cacheReadTokens a)) (a_cacheCreationTokens a)"

definition effective_rates :: "cost_args \<Rightarrow> model_pricing \<Rightarrow> rates" where
  "effective_rates a p =
     apply_tiers (anthropic_model (a_model a) \<or> gemini_model (a_model a)) (context_tokens a)
       (base_rates (anthropic_model (a_model a)) p) (pricing_tiers p)"

definition cost_units :: "cost_args \<Rightarrow> jsnum list" where
  "cost_units a =
     (let oneHour = num_min (case a_cacheCreation1hTokens a of Some x \<Rightarrow> x | None \<Rightarrow> Fin 0)
                      (a_cacheCreationTokens a)
      in [a_inputTokens a, a_outputTokens a, a_cacheReadTokens a,
          num_sub (a_cacheCreationTokens a) oneHour, oneHour])"

definition rate_list :: "rates \<Rightarrow> jsnum option list" where
  "rate_list r = [Some (r_input r), Some (r_output r), r_cacheRead r, r_cacheCreate r, r_cacheCreate1h r]"

definition calculateTokenCost :: "cost_args \<Rightarrow> model_pricing \<Rightarrow> cost_breakdown option" where
  "calculateTokenCost a p =
     (if list_ex (\<lambda>v. \<not> num_is_safe_integer v \<or> num_lt v (Fin 0)) (cost_quantities a) then None
      else (let r = effective_rates a p in
       (case cost_multiplier a p of
          None \<Rightarrow> None
        | Some multiplier \<Rightarrow>
           (case cost_components multiplier (zip (cost_units a) (rate_list r)) of
              None \<Rightarrow> None
            | Some cs \<Rightarrow>
               (let total = foldl num_add (Fin 0) cs
                in if num_finite total
                   then Some \<lparr>b_contextTokens = context_tokens a, b_ratesPerMillion = r,
                          b_components = cs, b_totalUsd = total\<rparr>
                   else None)))))"

definition resolveCost :: "cost_args \<Rightarrow> pricing_map \<Rightarrow> jsnum" where
  "resolveCost a pricing =
     (let mode = (case a_mode a of Some m \<Rightarrow> m | None \<Rightarrow> Auto) in
      if mode = Display then (case a_providedCostUsd a of Some c \<Rightarrow> c | None \<Rightarrow> Fin 0)
      else if mode = Auto \<and> a_providedCostUsd a \<noteq> None then the (a_providedCostUsd a)
      else (case resolvePricingEntry (a_model a) pricing of
              None \<Rightarrow> Fin 0
            | Some (modelId, p) \<Rightarrow>
                (case calculateTokenCost (a\<lparr>a_model := Some modelId\<rparr>) p of
                   Some b \<Rightarrow> b_totalUsd b | None \<Rightarrow> Fin 0)))"

section \<open>The cost at a point in time\<close>

definition CODEX_AUTO_REVIEW_MODELS :: "(string \<times> string) list" where
  "CODEX_AUTO_REVIEW_MODELS =
     [(''2026-04-23'', ''gpt-5.5''), (''2026-03-05'', ''gpt-5.4''), (''2026-02-05'', ''gpt-5.3-codex''),
      (''2025-12-11'', ''gpt-5.2-codex''), (''2025-11-13'', ''gpt-5.1-codex''),
      (''2025-09-15'', ''gpt-5-codex''), (''2025-08-07'', ''gpt-5'')]"

record resolve_at_args = cost_args +
  a_occurredAt :: instant
  a_providerKey :: "string option"
  a_logAdapter :: "string option"

datatype model_match = Match_exact | Match_normalized | Match_inferred | Match_unknown

fun match_of :: "alias_match \<Rightarrow> model_match" where
  "match_of Exact = Match_exact"
| "match_of Normalized = Match_normalized"
| "match_of Inferred = Match_inferred"

datatype cost_reason =
  Missing_price | Missing_rate | Inferred_model | Session_context_unavailable | Cache_ttl_unavailable

record cost_explanation =
  x_resolution :: cost_resolution
  x_pricingModel :: "string option"
  x_modelMatch :: model_match
  x_reason :: "cost_reason option"
  x_breakdown :: "cost_breakdown option"

definition pricing_model :: "resolve_at_args \<Rightarrow> string option" where
  "pricing_model args =
     (let occurredOn = iso_date (a_occurredAt args) in
      if a_model args = Some ''codex-auto-review''
      then Some (case find (\<lambda>(releasedOn, _). releasedOn \<le> occurredOn) CODEX_AUTO_REVIEW_MODELS of
                   Some (_, m) \<Rightarrow> m | None \<Rightarrow> ''gpt-5'')
      else if a_model args = None \<and> a_providerKey args = Some ''codex''
              \<and> a_logAdapter args = Some ''codex''
      then Some ''gpt-5'' else a_model args)"

definition revision_valid :: "instant \<Rightarrow> pricing_revision \<Rightarrow> bool" where
  "revision_valid t r \<longleftrightarrow>
     rev_effectiveAt r \<le> t \<and> (case rev_validUntil r of None \<Rightarrow> True | Some u \<Rightarrow> t < u)"

fun select_revision ::
  "instant \<Rightarrow> pricing_revision list \<Rightarrow> pricing_revision option \<Rightarrow> pricing_revision option" where
  "select_revision t [] selected = selected"
| "select_revision t (r # rs) selected =
     (if revision_valid t r
         \<and> (case selected of None \<Rightarrow> True | Some s \<Rightarrow> rev_effectiveAt s \<le> rev_effectiveAt r)
      then select_revision t rs (Some r) else select_revision t rs selected)"

text \<open>A truthy \<open>sourceModelId\<close>.\<close>

definition source_model :: "pricing_revision \<Rightarrow> string option" where
  "source_model r = (if rev_sourceModelId r = Some [] then None else rev_sourceModelId r)"

definition model_match_of ::
  "resolve_at_args \<Rightarrow> pricing_revision list resolved_alias option \<Rightarrow> pricing_revision option \<Rightarrow> model_match"
where
  "model_match_of args entry selected =
     (let initial = (if pricing_model args \<noteq> a_model args then Match_inferred
                     else (case entry of Some e \<Rightarrow> match_of (al_match e) | None \<Rightarrow> Match_unknown))
      in (case selected of
            None \<Rightarrow> initial
          | Some s \<Rightarrow>
             (case source_model s of
                None \<Rightarrow> initial
              | Some src \<Rightarrow>
                 if initial = Match_inferred then initial
                 else (case resolvePricingRevisionEntry (a_model args) [(src, [s])] of
                         Some e \<Rightarrow> match_of (al_match e) | None \<Rightarrow> Match_inferred))))"

definition cost_reason_of :: "resolve_at_args \<Rightarrow> model_match \<Rightarrow> pricing_revision \<Rightarrow> cost_reason option" where
  "cost_reason_of args mm selected =
     (if mm = Match_inferred then Some Inferred_model
      else if p_contextScope (rev_pricing selected) = Some Scope_session
      then Some Session_context_unavailable
      else if num_lt (Fin 0) (a_cacheCreationTokens args) \<and> a_cacheCreation1hTokens args = None
      then Some Cache_ttl_unavailable else None)"

definition unpriced :: "string option \<Rightarrow> cost_resolution" where
  "unpriced revision =
     \<lparr>res_costUsd = Fin 0, res_pricingRevisionId = revision, res_status = Unpriced\<rparr>"

definition explainCostAt :: "resolve_at_args \<Rightarrow> pricing_schedule \<Rightarrow> cost_explanation" where
  "explainCostAt args schedule =
     (let entry = resolvePricingRevisionEntry (pricing_model args) schedule;
          selected = select_revision (a_occurredAt args)
                       (case entry of Some e \<Rightarrow> al_value e | None \<Rightarrow> []) None;
          mm = model_match_of args entry selected
      in (case selected of
            None \<Rightarrow> \<lparr>x_resolution = unpriced None, x_pricingModel = None, x_modelMatch = mm,
                     x_reason = Some Missing_price, x_breakdown = None\<rparr>
          | Some s \<Rightarrow>
             (case calculateTokenCost
                     (cost_args.truncate (args\<lparr>a_model := Some (case rev_sourceModelId s of
                         Some m \<Rightarrow> m | None \<Rightarrow> rev_modelId s)\<rparr>)) (rev_pricing s) of
                None \<Rightarrow> \<lparr>x_resolution = unpriced (Some (rev_id s)),
                         x_pricingModel = Some (rev_modelId s), x_modelMatch = mm,
                         x_reason = Some Missing_rate, x_breakdown = None\<rparr>
              | Some b \<Rightarrow>
                 (let reason = cost_reason_of args mm s
                  in \<lparr>x_resolution = \<lparr>res_costUsd = b_totalUsd b,
                         res_pricingRevisionId = Some (rev_id s),
                         res_status = (if reason = None then Priced else Estimated)\<rparr>,
                      x_pricingModel = Some (rev_modelId s), x_modelMatch = mm,
                      x_reason = reason, x_breakdown = Some b\<rparr>))))"

definition resolveCostAt :: "resolve_at_args \<Rightarrow> pricing_schedule \<Rightarrow> cost_resolution" where
  "resolveCostAt args schedule = x_resolution (explainCostAt args schedule)"


section \<open>Facts about the names\<close>

text \<open>The loop of the fuzzy search returns the given best entry or a longer related key of the map.\<close>

lemma fuzzy_search_sound:
  assumes "fuzzy_search key stripped vs best n = Some r"
  shows "best = Some r \<or>
    ((al_key r, al_value r) \<in> set vs \<and> fuzzy_related key stripped (al_key r)
      \<and> al_match r = Inferred \<and> length (al_key r) > n)"
  using assms
  by (induction key stripped vs best n rule: fuzzy_search.induct) (auto split: if_splits)

lemma fuzzy_search_length:
  assumes "fuzzy_search key stripped vs best n = Some r" "\<And>b. best = Some b \<Longrightarrow> length (al_key b) = n"
  shows "n \<le> length (al_key r)"
  using assms
  by (induction key stripped vs best n rule: fuzzy_search.induct) (force split: if_splits)+

lemma fuzzy_search_longest:
  assumes "fuzzy_search key stripped vs best n = Some r" "\<And>b. best = Some b \<Longrightarrow> length (al_key b) = n"
    and "(k, v) \<in> set vs" "fuzzy_related key stripped k"
  shows "length k \<le> length (al_key r)"
  using assms
proof (induction key stripped vs best n rule: fuzzy_search.induct)
  case (1 key stripped best n)
  then show ?case by simp
next
  case (2 key stripped k' v' vs best n)
  show ?case
  proof (cases "fuzzy_related key stripped k' \<and> n < length k'")
    case True
    let ?b = "Some \<lparr>al_key = k', al_value = v', al_match = Inferred\<rparr>"
    have r: "fuzzy_search key stripped vs ?b (length k') = Some r" using 2(3) True by simp
    show ?thesis
    proof (cases "(k, v) = (k', v')")
      case True
      then show ?thesis using fuzzy_search_length [OF r] by simp
    next
      case False
      then show ?thesis using 2(1) [OF True r] 2(5,6) by auto
    qed
  next
    case False
    have r: "fuzzy_search key stripped vs best n = Some r" using 2(3) False by (simp split: if_splits)
    show ?thesis
    proof (cases "(k, v) = (k', v')")
      case True
      then have "length k \<le> n" using False 2(6) by auto
      then show ?thesis using fuzzy_search_length [OF r] 2(4) by fastforce
    next
      case False
      then show ?thesis using 2(2) [OF _ r] 2(4,5,6) \<open>\<not> (_ \<and> _)\<close> by auto
    qed
  qed
qed

lemma resolveAliasEntry_in_map:
  assumes "distinct (map fst vals)" "resolveAliasEntry model vals = Some r"
  shows "map_of vals (al_key r) = Some (al_value r)"
  using assms
  by (auto simp: resolveAliasEntry_def Let_def split: if_splits option.splits
      dest: fuzzy_search_sound intro: map_of_is_SomeI)

lemma resolveAliasEntry_exact:
  assumes "m \<noteq> []" "map_of vals m = Some v"
  shows "resolveAliasEntry (Some m) vals = Some \<lparr>al_key = m, al_value = v, al_match = Exact\<rparr>"
  using assms by (simp add: resolveAliasEntry_def)

lemma resolveAliasEntry_inferred:
  assumes "resolveAliasEntry (Some m) vals = Some r" "al_match r = Inferred"
  shows "fuzzy_search (strip_vendor_prefix VENDOR_PREFIXES m)
      (strip_date_suffix (strip_vendor_prefix VENDOR_PREFIXES m)) vals None 0 = Some r"
    and "map_of vals m = None"
  using assms by (auto simp: resolveAliasEntry_def Let_def split: if_splits option.splits)

section \<open>Facts about the cost\<close>

text \<open>The value of a rate that is charged: a missing rate is only met by zero units.\<close>

definition rate_value :: "jsnum option \<Rightarrow> rat" where
  "rate_value r = (case r of Some (Fin y) \<Rightarrow> y | _ \<Rightarrow> 0)"

definition chargeable :: "rat \<Rightarrow> jsnum option \<Rightarrow> bool" where
  "chargeable u r \<longleftrightarrow> u = 0 \<or> (\<exists>y. r = Some (Fin y) \<and> 0 \<le> y)"

lemma cost_component_eq:
  "cost_component (Fin m) (Fin u) r =
     (if chargeable u r then Some (Fin (u * rate_value r * m / 1000000)) else None)"
proof (cases "u = 0")
  case True
  then show ?thesis by (simp add: cost_component_def chargeable_def)
next
  case False
  then show ?thesis
    by (cases r) (auto simp: cost_component_def chargeable_def rate_value_def num_finite_def
        split: jsnum.splits)
qed

lemma cost_components_eq:
  "cost_components (Fin m) (zip (map Fin us) rs) =
     (if list_all (\<lambda>(u, r). chargeable u r) (zip us rs)
      then Some (map (\<lambda>(u, r). Fin (u * rate_value r * m / 1000000)) (zip us rs)) else None)"
proof (induction us arbitrary: rs)
  case (Cons u us)
  then show ?case by (cases rs) (auto simp: cost_component_eq)
qed simp

lemma foldl_num_add: "foldl num_add (Fin a) (map Fin xs) = Fin (a + sum_list xs)"
  by (induction xs arbitrary: a) (auto simp: add.assoc)

lemma chargeable_nonneg: "chargeable u r \<Longrightarrow> 0 \<le> u \<Longrightarrow> 0 \<le> u * rate_value r"
  by (auto simp: chargeable_def rate_value_def)

definition quantity :: "int \<Rightarrow> jsnum \<Rightarrow> bool" where
  "quantity n x \<longleftrightarrow> x = Fin (of_int n) \<and> 0 \<le> n"

lemma quantity_of_safe:
  assumes "num_is_safe_integer x" "\<not> num_lt x (Fin 0)"
  shows "\<exists>n. quantity n x"
proof -
  obtain n where "x = Fin (of_int n)" using num_safe_integerD [OF assms(1)] by blast
  then show ?thesis using assms(2) by (auto simp: quantity_def)
qed

lemma num_min_Fin [simp]: "num_min (Fin a) (Fin b) = Fin (min a b)"
  by (auto simp: num_min_def)

lemma cost_multiplier_pos:
  "cost_multiplier a p = Some m \<Longrightarrow> \<exists>q. m = Fin q \<and> 0 < q \<and> (a_isFast a \<longrightarrow> 1 < q)"
  by (auto simp: cost_multiplier_def Let_def num_finite_def split: if_splits option.splits jsnum.splits)

text \<open>What \<open>calculateTokenCost\<close> computes when it returns a breakdown.\<close>

lemma calculateTokenCost_SomeE:
  assumes "calculateTokenCost a p = Some b"
  obtains i out cr cc h m where
    "quantity i (a_inputTokens a)" "quantity out (a_outputTokens a)" "quantity cr (a_cacheReadTokens a)"
    "quantity cc (a_cacheCreationTokens a)"
    "quantity h (case a_cacheCreation1hTokens a of Some x \<Rightarrow> x | None \<Rightarrow> Fin 0)"
    "cost_multiplier a p = Some (Fin m)" "0 < m" "b_ratesPerMillion b = effective_rates a p"
    "b_contextTokens b = context_tokens a"
    "cost_components (Fin m) (zip (map Fin [of_int i, of_int out, of_int cr,
        of_int (cc - min h cc), of_int (min h cc)]) (rate_list (effective_rates a p))) = Some (b_components b)"
    "b_totalUsd b = foldl num_add (Fin 0) (b_components b)"
proof -
  have q: "\<not> list_ex (\<lambda>v. \<not> num_is_safe_integer v \<or> num_lt v (Fin 0)) (cost_quantities a)"
    using assms by (auto simp: calculateTokenCost_def split: if_splits)
  obtain i out cr cc h where u: "quantity i (a_inputTokens a)" "quantity out (a_outputTokens a)"
    "quantity cr (a_cacheReadTokens a)" "quantity cc (a_cacheCreationTokens a)"
    "quantity h (case a_cacheCreation1hTokens a of Some x \<Rightarrow> x | None \<Rightarrow> Fin 0)"
    using q quantity_of_safe unfolding cost_quantities_def by fastforce
  have units: "cost_units a = map Fin [of_int i, of_int out, of_int cr, of_int (cc - min h cc), of_int (min h cc)]"
    using u by (simp add: cost_units_def quantity_def Let_def of_int_min)
  obtain m cs where m: "cost_multiplier a p = Some m"
    and cs: "cost_components m (zip (cost_units a) (rate_list (effective_rates a p))) = Some cs"
    and b: "b = \<lparr>b_contextTokens = context_tokens a, b_ratesPerMillion = effective_rates a p,
        b_components = cs, b_totalUsd = foldl num_add (Fin 0) cs\<rparr>"
    using assms q by (auto simp: calculateTokenCost_def Let_def split: option.splits if_splits)
  obtain r where r: "m = Fin r" "0 < r" using cost_multiplier_pos [OF m] by blast
  show ?thesis using that [OF u m [unfolded r(1)] r(2)] cs b unfolding units r(1) by simp
qed

section \<open>Facts about the tiers\<close>

interpretation tiers: comparator compare_tiers
  by unfold_locales (auto simp: compare_tiers_def cmp_ord_def split: if_splits)

definition applicable :: "jsnum \<Rightarrow> context_tier \<Rightarrow> bool" where
  "applicable ctx tier \<longleftrightarrow> \<not> num_le ctx (Fin (ct_aboveTokens tier))"

lemma apply_tier_rates:
  "r_input (apply_tier c ctx r t) =
     (if applicable ctx t then (case ct_inputPerM t of Some x \<Rightarrow> x | None \<Rightarrow> r_input r) else r_input r)"
  "r_output (apply_tier c ctx r t) =
     (if applicable ctx t then (case ct_outputPerM t of Some x \<Rightarrow> x | None \<Rightarrow> r_output r) else r_output r)"
  by (auto simp: apply_tier_def applicable_def Let_def coalesce_def split: option.splits)

text \<open>The last rate given by an applicable tier, else the base rate.\<close>

definition last_given :: "(context_tier \<Rightarrow> jsnum option) \<Rightarrow> jsnum \<Rightarrow> context_tier list \<Rightarrow> jsnum \<Rightarrow> jsnum" where
  "last_given f ctx ts base = foldl (\<lambda>acc t. case f t of Some x \<Rightarrow> x | None \<Rightarrow> acc) base
     (filter (applicable ctx) ts)"

lemma foldl_apply_tier_rates:
  "r_input (foldl (apply_tier c ctx) r ts) = last_given ct_inputPerM ctx ts (r_input r)"
  "r_output (foldl (apply_tier c ctx) r ts) = last_given ct_outputPerM ctx ts (r_output r)"
  by (induction ts arbitrary: r) (simp_all add: last_given_def apply_tier_rates)

lemma last_given_cases:
  "last_given f ctx ts base = base \<and> (\<forall>t \<in> set ts. applicable ctx t \<longrightarrow> f t = None) \<or>
   (\<exists>us t vs. ts = us @ t # vs \<and> applicable ctx t \<and> f t = Some (last_given f ctx ts base)
      \<and> (\<forall>v \<in> set vs. applicable ctx v \<longrightarrow> f v = None))"
proof (induction ts rule: rev_induct)
  case Nil
  then show ?case by (simp add: last_given_def)
next
  case (snoc t ts)
  show ?case
  proof (cases "applicable ctx t \<and> f t \<noteq> None")
    case True
    then have "f t = Some (last_given f ctx (ts @ [t]) base)" by (auto simp: last_given_def)
    then show ?thesis using True by (intro disjI2 exI [of _ ts] exI [of _ t] exI [of _ "[]"]) auto
  next
    case False
    then have eq: "last_given f ctx (ts @ [t]) base = last_given f ctx ts base"
      by (auto simp: last_given_def split: option.splits)
    from snoc show ?thesis
    proof
      assume "last_given f ctx ts base = base \<and> (\<forall>t \<in> set ts. applicable ctx t \<longrightarrow> f t = None)"
      then show ?thesis using False eq by auto
    next
      assume "\<exists>us u vs. ts = us @ u # vs \<and> applicable ctx u \<and> f u = Some (last_given f ctx ts base)
        \<and> (\<forall>v \<in> set vs. applicable ctx v \<longrightarrow> f v = None)"
      then obtain us u vs where "ts = us @ u # vs" "applicable ctx u"
        "f u = Some (last_given f ctx ts base)" "\<forall>v \<in> set vs. applicable ctx v \<longrightarrow> f v = None" by blast
      then show ?thesis using False eq
        by (intro disjI2 exI [of _ us] exI [of _ u] exI [of _ "vs @ [t]"]) auto
    qed
  qed
qed

text \<open>In sorted order the last applicable tier is the one with the highest threshold.\<close>

lemma last_given_sorted:
  assumes "last_given f ctx (js_sort compare_tiers ts) base \<noteq> base"
  shows "\<exists>t \<in> set ts. applicable ctx t \<and> f t = Some (last_given f ctx (js_sort compare_tiers ts) base)
    \<and> (\<forall>v \<in> set ts. applicable ctx v \<longrightarrow> f v \<noteq> None \<longrightarrow> ct_aboveTokens v \<le> ct_aboveTokens t)"
proof -
  let ?s = "js_sort compare_tiers ts" and ?x = "last_given f ctx (js_sort compare_tiers ts) base"
  obtain us t vs where s: "?s = us @ t # vs" and t: "applicable ctx t" "f t = Some ?x"
    and later: "\<forall>v \<in> set vs. applicable ctx v \<longrightarrow> f v = None"
    using last_given_cases [of f ctx ?s base] assms by auto
  have "sorted_wrt (\<lambda>x y. compare_tiers x y \<le> 0) ?s" by (rule tiers.sorted_js_sort)
  then have "\<forall>u \<in> set us. ct_aboveTokens u \<le> ct_aboveTokens t"
    unfolding s by (auto simp: sorted_wrt_append compare_tiers_def)
  moreover have "set ts = set us \<union> insert t (set vs)" using s by (metis set_js_sort set_append list.set(2))
  ultimately show ?thesis using t later by auto
qed

section \<open>Facts about the revisions\<close>

lemma select_revision_keeps:
  "(case select_revision t rs (Some s) of
      None \<Rightarrow> False
    | Some r \<Rightarrow> rev_effectiveAt s \<le> rev_effectiveAt r \<and> (r = s \<or> r \<in> set rs \<and> revision_valid t r))"
proof (induction rs arbitrary: s)
  case (Cons r rs)
  show ?case using Cons [of r] Cons [of s] by (auto split: option.splits)
qed simp

lemma select_revision_latest:
  assumes "select_revision t rs sel = Some s" "r \<in> set rs" "revision_valid t r"
  shows "rev_effectiveAt r \<le> rev_effectiveAt s"
  using assms
proof (induction rs arbitrary: sel)
  case (Cons q rs)
  show ?case
  proof (cases "r = q \<and> \<not> (case sel of None \<Rightarrow> True | Some s \<Rightarrow> rev_effectiveAt s \<le> rev_effectiveAt q)")
    case True
    then obtain z where "sel = Some z" "rev_effectiveAt q < rev_effectiveAt z" by (auto split: option.splits)
    then show ?thesis using Cons.prems True select_revision_keeps [where t = t and rs = rs and s = z] by (auto split: if_splits)
  next
    case False
    then show ?thesis
      using Cons.prems Cons.IH select_revision_keeps [where t = t and rs = rs and s = q] by (auto split: if_splits)
  qed
qed simp

lemma select_revision_Some:
  assumes "select_revision t rs None = Some s"
  shows "s \<in> set rs" "revision_valid t s"
    "\<And>r. r \<in> set rs \<Longrightarrow> revision_valid t r \<Longrightarrow> rev_effectiveAt r \<le> rev_effectiveAt s"
proof -
  have "s \<in> set rs \<and> revision_valid t s"
    using assms
  proof (induction rs)
    case (Cons r rs)
    then show ?case using select_revision_keeps [where t = t and rs = rs and s = r] by (auto split: if_splits)
  qed simp
  then show "s \<in> set rs" "revision_valid t s" by auto
qed (use select_revision_latest [OF assms] in blast)

lemma select_revision_None:
  "select_revision t rs None = None \<longleftrightarrow> (\<forall>r \<in> set rs. \<not> revision_valid t r)"
proof (induction rs)
  case (Cons r rs)
  then show ?case using select_revision_keeps [where t = t and rs = rs and s = r] by (auto split: option.splits)
qed simp

lemma total_nonneg:
  assumes "calculateTokenCost a p = Some b"
  shows "\<exists>t. b_totalUsd b = Fin t \<and> 0 \<le> t"
  using assms
proof (rule calculateTokenCost_SomeE)
  fix i out cr cc h m
  let ?us = "map of_int [i, out, cr, cc - min h cc, min h cc] :: rat list"
    and ?rs = "rate_list (effective_rates a p)"
  assume nonneg: "quantity i (a_inputTokens a)" "quantity out (a_outputTokens a)"
      "quantity cr (a_cacheReadTokens a)" "quantity cc (a_cacheCreationTokens a)"
      "quantity h (case a_cacheCreation1hTokens a of Some x \<Rightarrow> x | None \<Rightarrow> Fin 0)"
    and m: "0 < m" and total: "b_totalUsd b = foldl num_add (Fin 0) (b_components b)"
    and cs: "cost_components (Fin m) (zip (map Fin [of_int i, of_int out, of_int cr,
        of_int (cc - min h cc), of_int (min h cc)]) ?rs) = Some (b_components b)"
  from cs have ok: "list_all (\<lambda>(u, r). chargeable u r) (zip ?us ?rs)"
    and b: "b_components b = map Fin (map (\<lambda>(u, r). u * rate_value r * m / 1000000) (zip ?us ?rs))"
    using cost_components_eq [of m ?us ?rs] by (auto split: if_splits)
  have "0 \<le> sum_list (map (\<lambda>(u, r). u * rate_value r * m / 1000000) (zip ?us ?rs))"
  proof (rule sum_list_nonneg)
    fix x assume "x \<in> set (map (\<lambda>(u, r). u * rate_value r * m / 1000000) (zip ?us ?rs))"
    then obtain z where z: "x = (\<lambda>(u, r). u * rate_value r * m / 1000000) z" "z \<in> set (zip ?us ?rs)"
      unfolding set_map by (rule imageE)
    obtain u r where "z = (u, r)" by (cases z)
    with z have x: "x = u * rate_value r * m / 1000000" and ur: "(u, r) \<in> set (zip ?us ?rs)"
      by simp_all
    have "0 \<le> u" using set_zip_leftD [OF ur] nonneg by (auto simp: quantity_def)
    moreover have "chargeable u r" using ok ur by (auto simp: list_all_iff)
    ultimately show "0 \<le> x" using chargeable_nonneg [of u r] m unfolding x by simp
  qed
  then show ?thesis unfolding total b foldl_num_add by simp
qed

section \<open>Properties\<close>

text \<open>The price lookup of a model returns an entry of the map: the model's own entry, as an
  exact match, whenever the map has one; and when it only infers a name, the key it returns is a
  longest one among all keys related to the model's name.\<close>
theorem resolveAliasEntry_correct:
  assumes "distinct (map fst vals)" "resolveAliasEntry (Some m) vals = Some r"
  shows "map_of vals (al_key r) = Some (al_value r)
    \<and> (m \<in> fst ` set vals \<longrightarrow> al_key r = m \<and> al_match r = Exact)
    \<and> (al_match r = Inferred \<longrightarrow>
        (\<forall>k \<in> fst ` set vals.
           fuzzy_related (strip_vendor_prefix VENDOR_PREFIXES m)
             (strip_date_suffix (strip_vendor_prefix VENDOR_PREFIXES m)) k \<longrightarrow>
           length k \<le> length (al_key r)))"
proof (intro conjI impI ballI)
  show "map_of vals (al_key r) = Some (al_value r)" by (rule resolveAliasEntry_in_map [OF assms])
  have m: "m \<noteq> []" using assms(2) by (auto simp: resolveAliasEntry_def)
  assume "m \<in> fst ` set vals"
  then obtain v where v: "map_of vals m = Some v" by (metis map_of_eq_None_iff not_None_eq)
  then have r: "r = \<lparr>al_key = m, al_value = v, al_match = Exact\<rparr>"
    using resolveAliasEntry_exact [OF m v] assms(2) by simp
  show "al_key r = m" "al_match r = Exact" unfolding r by simp_all
next
  fix k
  assume "al_match r = Inferred" "k \<in> fst ` set vals"
    and "fuzzy_related (strip_vendor_prefix VENDOR_PREFIXES m)
             (strip_date_suffix (strip_vendor_prefix VENDOR_PREFIXES m)) k"
  then show "length k \<le> length (al_key r)"
    using resolveAliasEntry_inferred(1) [OF assms(2)] fuzzy_search_longest by fastforce
qed

theorem resolveAliasEntry_correct_witness:
  "resolveAliasEntry (Some ''openai/gpt-4-20240101'') [(''gpt'', 1 :: nat), (''gpt-4'', 2)]
     = Some \<lparr>al_key = ''gpt-4'', al_value = 2, al_match = Normalized\<rparr>
   \<and> map_of [(''gpt'', 1 :: nat), (''gpt-4'', 2)] ''gpt-4'' = Some 2"
proof -
  have r: "resolveAliasEntry (Some ''openai/gpt-4-20240101'') [(''gpt'', 1 :: nat), (''gpt-4'', 2)]
     = Some \<lparr>al_key = ''gpt-4'', al_value = 2, al_match = Normalized\<rparr>" by code_simp
  have d: "distinct (map fst [(''gpt'', 1 :: nat), (''gpt-4'', 2)])" by simp
  show ?thesis using r resolveAliasEntry_correct [OF d r] by simp
qed

text \<open>The total of a cost breakdown is exactly the sum of tokens times rate times multiplier per
  million over the five kinds of tokens, with the cache writes split between the two lifetimes and
  the rates those in force at the request's context size; every token that is charged has a finite
  non-negative rate, so the total is never negative.\<close>
theorem calculateTokenCost_total:
  assumes "calculateTokenCost a p = Some b"
  shows "\<exists>i out cr cc h m. quantity i (a_inputTokens a) \<and> quantity out (a_outputTokens a)
    \<and> quantity cr (a_cacheReadTokens a) \<and> quantity cc (a_cacheCreationTokens a)
    \<and> quantity h (case a_cacheCreation1hTokens a of Some x \<Rightarrow> x | None \<Rightarrow> Fin 0)
    \<and> cost_multiplier a p = Some (Fin m) \<and> 0 < m
    \<and> b_contextTokens b = Fin (of_int (i + cr + cc))
    \<and> list_all2 chargeable
        [of_int i, of_int out, of_int cr, of_int (cc - min h cc), of_int (min h cc)]
        (rate_list (effective_rates a p))
    \<and> b_totalUsd b = Fin (m / 1000000 *
        (of_int i * rate_value (Some (r_input (effective_rates a p)))
         + of_int out * rate_value (Some (r_output (effective_rates a p)))
         + of_int cr * rate_value (r_cacheRead (effective_rates a p))
         + of_int (cc - min h cc) * rate_value (r_cacheCreate (effective_rates a p))
         + of_int (min h cc) * rate_value (r_cacheCreate1h (effective_rates a p))))
    \<and> (\<exists>t. b_totalUsd b = Fin t \<and> 0 \<le> t)"
  using assms
proof (rule calculateTokenCost_SomeE)
  fix i out cr cc h m
  let ?us = "[of_int i, of_int out, of_int cr, of_int (cc - min h cc), of_int (min h cc)] :: rat list"
    and ?rs = "rate_list (effective_rates a p)"
  assume q: "quantity i (a_inputTokens a)" "quantity out (a_outputTokens a)"
      "quantity cr (a_cacheReadTokens a)" "quantity cc (a_cacheCreationTokens a)"
      "quantity h (case a_cacheCreation1hTokens a of Some x \<Rightarrow> x | None \<Rightarrow> Fin 0)"
    and m: "cost_multiplier a p = Some (Fin m)" "0 < m"
    and ctx: "b_contextTokens b = context_tokens a"
    and total: "b_totalUsd b = foldl num_add (Fin 0) (b_components b)"
    and cs: "cost_components (Fin m) (zip (map Fin ?us) ?rs) = Some (b_components b)"
  from cs have ok: "list_all (\<lambda>(u, r). chargeable u r) (zip ?us ?rs)"
    and b: "b_components b = map Fin (map (\<lambda>(u, r). u * rate_value r * m / 1000000) (zip ?us ?rs))"
    using cost_components_eq [of m ?us ?rs] by (auto split: if_splits)
  have rs: "?rs = [Some (r_input (effective_rates a p)), Some (r_output (effective_rates a p)),
      r_cacheRead (effective_rates a p), r_cacheCreate (effective_rates a p),
      r_cacheCreate1h (effective_rates a p)]" by (simp add: rate_list_def)
  have sum: "b_totalUsd b = Fin (m / 1000000 *
        (of_int i * rate_value (Some (r_input (effective_rates a p)))
         + of_int out * rate_value (Some (r_output (effective_rates a p)))
         + of_int cr * rate_value (r_cacheRead (effective_rates a p))
         + of_int (cc - min h cc) * rate_value (r_cacheCreate (effective_rates a p))
         + of_int (min h cc) * rate_value (r_cacheCreate1h (effective_rates a p))))"
    unfolding total b foldl_num_add unfolding rs by (simp add: field_simps)
  have "list_all2 chargeable ?us ?rs" using ok unfolding rs by simp
  moreover have "b_contextTokens b = Fin (of_int (i + cr + cc))"
    using q unfolding ctx context_tokens_def quantity_def by simp
  ultimately show ?thesis using q m sum total_nonneg [OF assms] by blast
qed

definition example_pricing :: model_pricing where
  "example_pricing =
     \<lparr>p_contextTiers = None, p_cacheCreate1hPerM = None, p_contextScope = None,
      p_inputPerM = Fin 3, p_outputPerM = Fin 15, p_cacheReadPerM = Some (Fin (3/10)),
      p_cacheCreatePerM = None, p_inputAbove200kPerM = Some (Fin 6), p_outputAbove200kPerM = None,
      p_fastMultiplier = None\<rparr>"

definition example_request :: cost_args where
  "example_request =
     \<lparr>a_model = Some ''claude-sonnet'', a_inputTokens = Fin 250000, a_outputTokens = Fin 1000,
      a_cacheReadTokens = Fin 0, a_cacheCreationTokens = Fin 0, a_cacheCreation1hTokens = None,
      a_isFast = False, a_providedCostUsd = None, a_mode = None\<rparr>"

theorem calculateTokenCost_total_witness:
  "map_option b_totalUsd (calculateTokenCost example_request example_pricing) = Some (Fin (303/200))
   \<and> (\<exists>b. calculateTokenCost example_request example_pricing = Some b
        \<and> (\<exists>t. b_totalUsd b = Fin t \<and> 0 \<le> t))"
proof -
  have v: "map_option b_totalUsd (calculateTokenCost example_request example_pricing)
      = Some (Fin (303/200))" by code_simp
  then obtain b where "calculateTokenCost example_request example_pricing = Some b" by blast
  then show ?thesis using v calculateTokenCost_total [of example_request example_pricing b] by blast
qed

text \<open>A context tier prices the whole request: the input rate in force is the one given by the
  highest tier below the request's context size that gives one, and the base rate when none does.\<close>
theorem input_rate_of_highest_tier:
  assumes "r_input (effective_rates a p) \<noteq> p_inputPerM p"
  shows "\<exists>t \<in> set (pricing_tiers p). applicable (context_tokens a) t
    \<and> ct_inputPerM t = Some (r_input (effective_rates a p))
    \<and> (\<forall>v \<in> set (pricing_tiers p). applicable (context_tokens a) v \<longrightarrow> ct_inputPerM v \<noteq> None \<longrightarrow>
         ct_aboveTokens v \<le> ct_aboveTokens t)"
proof -
  have eq: "r_input (effective_rates a p) = last_given ct_inputPerM (context_tokens a)
      (js_sort compare_tiers (pricing_tiers p)) (p_inputPerM p)"
    by (simp add: effective_rates_def apply_tiers_def foldl_apply_tier_rates base_rates_def)
  show ?thesis
    using last_given_sorted [of ct_inputPerM "context_tokens a" "pricing_tiers p" "p_inputPerM p"] assms
    unfolding eq by blast
qed

theorem input_rate_of_highest_tier_witness:
  "r_input (effective_rates example_request example_pricing) = Fin 6
   \<and> (\<exists>t \<in> set (pricing_tiers example_pricing). applicable (context_tokens example_request) t
        \<and> ct_inputPerM t = Some (Fin 6))"
proof -
  have r: "r_input (effective_rates example_request example_pricing) = Fin 6" by code_simp
  have b: "p_inputPerM example_pricing = Fin 3" by (simp add: example_pricing_def)
  have ne: "r_input (effective_rates example_request example_pricing) \<noteq> p_inputPerM example_pricing"
    unfolding r b by simp
  show ?thesis using input_rate_of_highest_tier [OF ne] r by auto
qed

text \<open>C35: The explanation of a cost uses the latest revision in force. When it names a revision, that revision
  belongs to the schedule entry of the priced model, is valid at the time of the request, no valid
  revision of the entry is later, and the breakdown is the token cost at the pricing of that revision,
  for the model the pricing stems from; when it names none, no revision is valid and there is no
  breakdown. It is unpriced exactly when there is no breakdown, its cost is the total of the breakdown
  and never negative, and it is certain only when no reason for doubt is given.\<close>
theorem explainCostAt_revision_in_force:
  fixes args :: resolve_at_args and schedule :: pricing_schedule
  defines "x \<equiv> explainCostAt args schedule"
    and "revisions \<equiv> (case resolvePricingRevisionEntry (pricing_model args) schedule of
       Some e \<Rightarrow> al_value e | None \<Rightarrow> [])"
  shows "(case res_pricingRevisionId (x_resolution x) of
      None \<Rightarrow> x_breakdown x = None \<and> (\<forall>r \<in> set revisions. \<not> revision_valid (a_occurredAt args) r)
    | Some i \<Rightarrow> (\<exists>s \<in> set revisions. rev_id s = i \<and> revision_valid (a_occurredAt args) s
        \<and> (\<forall>r \<in> set revisions. revision_valid (a_occurredAt args) r \<longrightarrow>
             rev_effectiveAt r \<le> rev_effectiveAt s)
        \<and> x_pricingModel x = Some (rev_modelId s)
        \<and> x_breakdown x = calculateTokenCost (cost_args.truncate (args\<lparr>a_model := Some (case rev_sourceModelId s of
             Some m \<Rightarrow> m | None \<Rightarrow> rev_modelId s)\<rparr>)) (rev_pricing s)))
    \<and> (res_status (x_resolution x) = Unpriced \<longleftrightarrow> x_breakdown x = None)
    \<and> (res_status (x_resolution x) = Priced \<longleftrightarrow> x_reason x = None)
    \<and> (\<exists>c. res_costUsd (x_resolution x) = Fin c \<and> 0 \<le> c
         \<and> (case x_breakdown x of None \<Rightarrow> c = 0 | Some b \<Rightarrow> b_totalUsd b = Fin c))"
proof -
  let ?sel = "select_revision (a_occurredAt args) revisions None"
  show ?thesis
  proof (cases ?sel)
    case None
    then have "\<forall>r \<in> set revisions. \<not> revision_valid (a_occurredAt args) r"
      by (simp add: select_revision_None)
    then show ?thesis using None
      by (simp add: x_def revisions_def explainCostAt_def Let_def unpriced_def)
  next
    case (Some s)
    note s = select_revision_Some [OF Some]
    let ?c = "calculateTokenCost (cost_args.truncate (args\<lparr>a_model := Some (case rev_sourceModelId s of
                         Some m \<Rightarrow> m | None \<Rightarrow> rev_modelId s)\<rparr>)) (rev_pricing s)"
    have explained: "res_pricingRevisionId (x_resolution x) = Some (rev_id s)" "x_pricingModel x = Some (rev_modelId s)" "x_breakdown x = ?c"
      using Some by (simp_all add: x_def revisions_def explainCostAt_def Let_def unpriced_def split: option.split)
    have "\<exists>c. b_totalUsd b = Fin c \<and> 0 \<le> c" if "?c = Some b" for b by (rule total_nonneg [OF that])
    then have "(res_status (x_resolution x) = Unpriced \<longleftrightarrow> ?c = None) \<and> (res_status (x_resolution x) = Priced \<longleftrightarrow> x_reason x = None)
      \<and> (\<exists>c. res_costUsd (x_resolution x) = Fin c \<and> 0 \<le> c \<and> (case ?c of None \<Rightarrow> c = 0 | Some b \<Rightarrow> b_totalUsd b = Fin c))"
      using Some by (cases ?c) (auto simp: x_def revisions_def explainCostAt_def Let_def unpriced_def split: if_splits)
    then show ?thesis using s unfolding explained by auto
  qed
qed

definition example_args :: resolve_at_args where
  "example_args = cost_args.extend example_request
     \<lparr>a_occurredAt = 1776902400000, a_providerKey = None, a_logAdapter = None\<rparr>"

definition example_schedule :: pricing_schedule where
  "example_schedule =
     [(''claude-sonnet'',
       [\<lparr>rev_id = ''r1'', rev_modelId = ''claude-sonnet'', rev_effectiveAt = 0, rev_validUntil = None,
         rev_pricing = example_pricing, rev_sourceModelId = None\<rparr>,
        \<lparr>rev_id = ''r2'', rev_modelId = ''claude-sonnet'', rev_effectiveAt = 5, rev_validUntil = Some 9,
         rev_pricing = example_pricing, rev_sourceModelId = None\<rparr>])]"

theorem explainCostAt_revision_in_force_witness:
  "res_pricingRevisionId (x_resolution (explainCostAt example_args example_schedule)) = Some ''r1''
   \<and> (\<exists>b c. x_breakdown (explainCostAt example_args example_schedule) = Some b \<and> b_totalUsd b = Fin c \<and> 0 < c)
   \<and> (\<exists>c. res_costUsd (x_resolution (explainCostAt example_args example_schedule)) = Fin c \<and> 0 \<le> c)"
proof -
  have "res_pricingRevisionId (x_resolution (explainCostAt example_args example_schedule)) = Some ''r1''"
    "case x_breakdown (explainCostAt example_args example_schedule) of None \<Rightarrow> False
      | Some b \<Rightarrow> (case b_totalUsd b of Fin c \<Rightarrow> 0 < c | _ \<Rightarrow> False)"
    by code_simp+
  then show ?thesis using explainCostAt_revision_in_force [of example_args example_schedule]
    by (auto split: option.splits jsnum.splits)
qed

text \<open>A model name that is only a vendor prefix is priced like the longest key of the map: the
  empty rest of the name is a substring of every key.\<close>
theorem bare_vendor_prefix_matches_any_model:
  "map_option al_key (resolveAliasEntry (Some ''openai/'') [(''gpt-4'', a), (''claude-opus-4'', b)])
     = Some ''claude-opus-4''"
  by code_simp

end
