(* ===== verification/Pricing_History.thy ===== *)
theory Pricing_History
  imports Pricing
begin

text \<open>
  \<open>packages/pricing/src/sync.ts\<close>, the translation of a LiteLLM catalogue into prices, and
  \<open>apps/web/lib/pricing-history-intervals.ts\<close>, which turns a chronological series of price
  snapshots into validity intervals per model. The main fact is that looking a time up in the
  intervals is looking a model up in the snapshot in force at that time.
\<close>

section \<open>The catalogue\<close>

definition PER_TOKEN_TO_PER_M :: rat where "PER_TOKEN_TO_PER_M = 1000000"

definition perM :: "jsvalue \<Rightarrow> jsnum option" where
  "perM v = (case v of
       JNum x \<Rightarrow> if num_finite x \<and> num_le (Fin 0) x then Some (num_mul x (Fin PER_TOKEN_TO_PER_M)) else None
     | _ \<Rightarrow> None)"

definition pricingDetails :: "('a pricing_details_scheme) \<Rightarrow> pricing_details" where
  "pricingDetails p =
     \<lparr>p_contextTiers = (case p_contextTiers p of
          Some (t # ts) \<Rightarrow> Some (js_sort compare_tiers (t # ts)) | _ \<Rightarrow> None),
      p_cacheCreate1hPerM = p_cacheCreate1hPerM p,
      p_contextScope = p_contextScope p\<rparr>"

text \<open>
  \<open>key.match(/^(.*)_above_(\d+)k_tokens$/)\<close>: the digits are the run before \<open>k_tokens\<close>, the first
  group what precedes \<open>_above_\<close>. \<open>.\<close> matches no line terminator.
\<close>

definition tier_suffix :: string where "tier_suffix = ''k_tokens''"
definition tier_infix :: string where "tier_infix = ''_above_''"

definition match_tier_key :: "string \<Rightarrow> (string \<times> string) option" where
  "match_tier_key key =
     (if \<not> ends_with key tier_suffix then None
      else (let body = take (length key - length tier_suffix) key;
                digits = rev (takeWhile is_digit (rev body));
                front = take (length body - length digits) body
            in if digits = [] \<or> \<not> ends_with front tier_infix then None
               else (let group1 = take (length front - length tier_infix) front
                     in if list_ex (\<lambda>c. code_of c \<in> {10, 13}) group1 then None
                        else Some (group1, digits))))"

text \<open>\<open>fields[match[1]]\<close>: a rate of the tier, or a member every object inherits, which is truthy
  too but names no rate.\<close>

datatype tier_field =
  Field_input | Field_output | Field_cacheRead | Field_cacheCreate | Field_cacheCreate1h | Field_inherited

definition object_members :: "string list" where
  "object_members = [''constructor'', ''__defineGetter__'', ''__defineSetter__'', ''hasOwnProperty'',
     ''__lookupGetter__'', ''__lookupSetter__'', ''isPrototypeOf'', ''propertyIsEnumerable'',
     ''toString'', ''valueOf'', ''__proto__'', ''toLocaleString'']"

definition tier_field_of :: "string \<Rightarrow> tier_field option" where
  "tier_field_of k =
     (if k = ''input_cost_per_token'' then Some Field_input
      else if k = ''output_cost_per_token'' then Some Field_output
      else if k = ''cache_read_input_token_cost'' then Some Field_cacheRead
      else if k = ''cache_creation_input_token_cost'' then Some Field_cacheCreate
      else if k = ''cache_creation_input_token_cost_above_1hr'' then Some Field_cacheCreate1h
      else if k \<in> set object_members then Some Field_inherited else None)"

fun set_tier_field :: "tier_field \<Rightarrow> jsnum \<Rightarrow> context_tier \<Rightarrow> context_tier" where
  "set_tier_field Field_input x t = t\<lparr>ct_inputPerM := Some x\<rparr>"
| "set_tier_field Field_output x t = t\<lparr>ct_outputPerM := Some x\<rparr>"
| "set_tier_field Field_cacheRead x t = t\<lparr>ct_cacheReadPerM := Some x\<rparr>"
| "set_tier_field Field_cacheCreate x t = t\<lparr>ct_cacheCreatePerM := Some x\<rparr>"
| "set_tier_field Field_cacheCreate1h x t = t\<lparr>ct_cacheCreate1hPerM := Some x\<rparr>"
| "set_tier_field Field_inherited x t = t"

definition empty_tier :: "rat \<Rightarrow> context_tier" where
  "empty_tier thr = \<lparr>ct_aboveTokens = thr, ct_inputPerM = None, ct_outputPerM = None,
     ct_cacheReadPerM = None, ct_cacheCreatePerM = None, ct_cacheCreate1hPerM = None\<rparr>"

definition add_tier_entry ::
  "(rat \<times> context_tier) list \<Rightarrow> string \<times> jsvalue \<Rightarrow> (rat \<times> context_tier) list" where
  "add_tier_entry tiers kv =
     (case match_tier_key (fst kv) of
        None \<Rightarrow> tiers
      | Some (group1, digits) \<Rightarrow>
         (case (tier_field_of group1, perM (snd kv)) of
            (Some field, Some rate) \<Rightarrow>
              (let thr = digits_value digits * 1000 in
               if thr > max_safe_integer \<or> thr \<le> 0 then tiers
               else (let tier = (case map_of tiers (of_int thr) of
                           Some t \<Rightarrow> t | None \<Rightarrow> empty_tier (of_int thr))
                     in AList.update (of_int thr) (set_tier_field field rate tier) tiers))
          | _ \<Rightarrow> tiers))"

text \<open>\<open>/(?:^|\/)gpt-5\.(?:4|5)(?:-pro)?(?:-\d{4}-\d{2}-\d{2})?$/\<close>: the pattern has no slash, so it
  matches the last segment of the name.\<close>

definition session_scoped :: "string \<Rightarrow> bool" where
  "session_scoped model =
     (let seg = last (split_on (CHR ''/'') model) in
      list_ex (\<lambda>b. starts_with seg b \<and>
         (let rest = drop (length b) seg;
              rest' = (if starts_with rest ''-pro'' then drop 4 rest else rest)
          in rest' = [] \<or> is_dashed_date_suffix rest'))
        [''gpt-5.4'', ''gpt-5.5''])"

definition detailsFromLiteLLM :: "string \<Rightarrow> (string \<times> jsvalue) list \<Rightarrow> pricing_details" where
  "detailsFromLiteLLM model entry =
     (let tiers = foldl add_tier_entry [] entry in
      \<lparr>p_contextTiers = (if tiers = [] then None else Some (js_sort compare_tiers (map snd tiers))),
       p_cacheCreate1hPerM = perM (js_get entry ''cache_creation_input_token_cost_above_1hr''),
       p_contextScope = (if session_scoped model then Some Scope_session else None)\<rparr>)"

definition scaled :: "jsvalue \<Rightarrow> jsnum option" where
  "scaled v = (case v of JNum x \<Rightarrow> Some (num_mul x (Fin PER_TOKEN_TO_PER_M)) | _ \<Rightarrow> None)"

definition pricing_of_entry :: "string \<Rightarrow> jsvalue \<Rightarrow> model_pricing option" where
  "pricing_of_entry model v =
     (case v of
        JObj e \<Rightarrow>
          (case (perM (js_get e ''input_cost_per_token''), perM (js_get e ''output_cost_per_token'')) of
             (Some i, Some out) \<Rightarrow> Some (pricing_details.extend (detailsFromLiteLLM model e)
               \<lparr>p_inputPerM = i, p_outputPerM = out,
                p_cacheReadPerM = scaled (js_get e ''cache_read_input_token_cost''),
                p_cacheCreatePerM = scaled (js_get e ''cache_creation_input_token_cost''),
                p_inputAbove200kPerM = scaled (js_get e ''input_cost_per_token_above_200k_tokens''),
                p_outputAbove200kPerM = scaled (js_get e ''output_cost_per_token_above_200k_tokens''),
                p_fastMultiplier = None\<rparr>)
           | _ \<Rightarrow> None)
      | _ \<Rightarrow> None)"

definition fromLiteLLM :: "(string \<times> jsvalue) list \<Rightarrow> pricing_map" where
  "fromLiteLLM raw =
     foldl (\<lambda>m (model, v). case pricing_of_entry model v of
         None \<Rightarrow> m | Some p \<Rightarrow> AList.update model p m) [] raw"

text \<open>\<open>fetchLiteLLMPricing\<close>, given the response: its status or the parsed body.\<close>

definition fetchLiteLLMPricing :: "int + (string \<times> jsvalue) list \<Rightarrow> string + pricing_map" where
  "fetchLiteLLMPricing response =
     (case response of
        Inl status \<Rightarrow> Inl ''LiteLLM fetch failed''
      | Inr raw \<Rightarrow> (let m = fromLiteLLM raw in
          if m = [] then Inl ''LiteLLM parsed 0 models'' else Inr m))"

section \<open>Intervals\<close>

record commit_ref =
  ref_sha :: string
  ref_committedAt :: "instant option"

record pricing_snapshot =
  snap_ref :: commit_ref
  snap_pricing :: pricing_map

record open_candidate =
  oc_modelId :: string
  oc_sourceModelId :: string
  oc_effectiveAt :: instant
  oc_pricing :: model_pricing
  oc_sourceCommitSha :: string
  oc_sourceCommittedAt :: instant

record pricing_candidate = open_candidate +
  pc_validUntil :: instant

record interval_state =
  iv_rangeFrom :: instant
  iv_models :: "string list"
  iv_lastCommittedAt :: "instant option"
  iv_open :: "(string \<times> open_candidate) list"
  iv_closed :: "pricing_candidate list"

definition createPricingIntervalState ::
  "instant option \<Rightarrow> string list \<Rightarrow> string + interval_state" where
  "createPricingIntervalState rangeFrom models =
     (case rangeFrom of
        None \<Rightarrow> Inl ''invalid pricing history range start''
      | Some t \<Rightarrow> Inr
         \<lparr>iv_rangeFrom = t,
          iv_models = js_sort cmp_ord (js_unique (filter (\<lambda>m. js_trim m \<noteq> []) models)),
          iv_lastCommittedAt = None, iv_open = [], iv_closed = []\<rparr>)"

text \<open>\<open>(a ?? null) === (b ?? null)\<close>\<close>

definition same_optional :: "jsnum option \<Rightarrow> jsnum option \<Rightarrow> bool" where
  "same_optional a b = (case (a, b) of
      (None, None) \<Rightarrow> True | (Some x, Some y) \<Rightarrow> num_eq x y | _ \<Rightarrow> False)"

text \<open>What \<open>JSON.stringify\<close> keeps of the details: a number that is not finite becomes \<open>null\<close>.\<close>

definition json_number :: "jsnum \<Rightarrow> jsnum option" where
  "json_number x = (if num_finite x then Some x else None)"

definition json_tier :: "context_tier \<Rightarrow> rat \<times> jsnum option option list" where
  "json_tier t = (ct_aboveTokens t, map (map_option json_number)
     [ct_inputPerM t, ct_outputPerM t, ct_cacheReadPerM t, ct_cacheCreatePerM t, ct_cacheCreate1hPerM t])"

definition json_details ::
  "pricing_details \<Rightarrow> (rat \<times> jsnum option option list) list option \<times> jsnum option option \<times> context_scope option"
where
  "json_details d = (map_option (map json_tier) (p_contextTiers d),
     map_option json_number (p_cacheCreate1hPerM d), p_contextScope d)"

definition samePricing :: "model_pricing \<Rightarrow> model_pricing \<Rightarrow> bool" where
  "samePricing l r \<longleftrightarrow>
     num_eq (p_inputPerM l) (p_inputPerM r) \<and> num_eq (p_outputPerM l) (p_outputPerM r) \<and>
     same_optional (p_cacheReadPerM l) (p_cacheReadPerM r) \<and>
     same_optional (p_cacheCreatePerM l) (p_cacheCreatePerM r) \<and>
     same_optional (p_inputAbove200kPerM l) (p_inputAbove200kPerM r) \<and>
     same_optional (p_outputAbove200kPerM l) (p_outputAbove200kPerM r) \<and>
     num_eq (the (coalesce (p_fastMultiplier l) (Some (Fin 1))))
            (the (coalesce (p_fastMultiplier r) (Some (Fin 1)))) \<and>
     json_details (pricingDetails l) = json_details (pricingDetails r)"

definition closeCandidate :: "open_candidate \<Rightarrow> instant \<Rightarrow> pricing_candidate option" where
  "closeCandidate c validUntil =
     (if validUntil \<le> oc_effectiveAt c then None
      else Some (open_candidate.extend c \<lparr>pc_validUntil = validUntil\<rparr>))"

text \<open>The body of the loop over the models.\<close>

definition snapshot_model ::
  "instant \<Rightarrow> instant \<Rightarrow> pricing_snapshot \<Rightarrow>
   (string \<times> open_candidate) list \<times> pricing_candidate list \<Rightarrow> string \<Rightarrow>
   (string \<times> open_candidate) list \<times> pricing_candidate list" where
  "snapshot_model boundary committedAt snapshot st model =
     (let opened = fst st; closed = snd st;
          previous = map_of opened model;
          resolved = resolvePricingEntry (Some model) (snap_pricing snapshot)
      in if (case (previous, resolved) of
               (Some c, Some (src, p)) \<Rightarrow> oc_sourceModelId c = src \<and> samePricing (oc_pricing c) p
             | _ \<Rightarrow> False)
         then (opened, closed)
         else (let closed' = (case previous of
                     Some c \<Rightarrow> closed @ (case closeCandidate c boundary of Some x \<Rightarrow> [x] | None \<Rightarrow> [])
                   | None \<Rightarrow> closed);
                   opened' = (if previous \<noteq> None then AList.delete model opened else opened)
               in (case resolved of
                     None \<Rightarrow> (opened', closed')
                   | Some (src, p) \<Rightarrow>
                       (AList.update model
                          \<lparr>oc_modelId = model, oc_sourceModelId = src, oc_effectiveAt = boundary,
                           oc_pricing = p, oc_sourceCommitSha = ref_sha (snap_ref snapshot),
                           oc_sourceCommittedAt = committedAt\<rparr> opened', closed'))))"

definition applyPricingSnapshot :: "interval_state \<Rightarrow> pricing_snapshot \<Rightarrow> string + interval_state" where
  "applyPricingSnapshot state snapshot =
     (case ref_committedAt (snap_ref snapshot) of
        None \<Rightarrow> Inl ''invalid pricing snapshot time''
      | Some committedAt \<Rightarrow>
         if iv_lastCommittedAt state = None \<and> committedAt > iv_rangeFrom state
         then Inl ''baseline snapshot must not be after range start''
         else if (case iv_lastCommittedAt state of None \<Rightarrow> False | Some l \<Rightarrow> committedAt \<le> l)
         then Inl ''pricing snapshots must be chronological''
         else (let boundary = (if committedAt < iv_rangeFrom state then iv_rangeFrom state else committedAt);
                   (opened, closed) = foldl (snapshot_model boundary committedAt snapshot)
                      (iv_open state, iv_closed state) (iv_models state)
               in Inr (state\<lparr>iv_lastCommittedAt := Some committedAt,
                             iv_open := opened, iv_closed := closed\<rparr>)))"

text \<open>The order of the result uses \<open>localeCompare\<close>, a parameter.\<close>

definition compare_pricing_candidates ::
  "(string \<Rightarrow> string \<Rightarrow> int) \<Rightarrow> pricing_candidate \<Rightarrow> pricing_candidate \<Rightarrow> int" where
  "compare_pricing_candidates localeCompare l r =
     (let c = localeCompare (oc_modelId l) (oc_modelId r)
      in if c \<noteq> 0 then c else oc_effectiveAt l - oc_effectiveAt r)"

definition closePricingIntervals ::
  "(string \<Rightarrow> string \<Rightarrow> int) \<Rightarrow> interval_state \<Rightarrow> instant option \<Rightarrow> string + pricing_candidate list" where
  "closePricingIntervals localeCompare state rangeTo =
     (case rangeTo of
        None \<Rightarrow> Inl ''invalid pricing history range end''
      | Some t \<Rightarrow>
         if t < iv_rangeFrom state then Inl ''invalid pricing history range end''
         else Inr (js_sort (compare_pricing_candidates localeCompare)
           (filter (\<lambda>c. oc_effectiveAt c \<ge> iv_rangeFrom state \<and> pc_validUntil c \<le> t)
             (iv_closed state @ List.map_filter (\<lambda>(_, c). closeCandidate c t) (iv_open state)))))"

section \<open>One model through a snapshot\<close>

definition keeps_open :: "pricing_snapshot \<Rightarrow> string \<Rightarrow> open_candidate option \<Rightarrow> bool" where
  "keeps_open snap m prev =
     (case (prev, resolvePricingEntry (Some m) (snap_pricing snap)) of
        (Some c, Some (src, p)) \<Rightarrow> oc_sourceModelId c = src \<and> samePricing (oc_pricing c) p
      | _ \<Rightarrow> False)"

definition opened_by :: "instant \<Rightarrow> instant \<Rightarrow> pricing_snapshot \<Rightarrow> string \<Rightarrow> open_candidate option" where
  "opened_by b t snap m =
     map_option (\<lambda>(src, p). \<lparr>oc_modelId = m, oc_sourceModelId = src, oc_effectiveAt = b,
         oc_pricing = p, oc_sourceCommitSha = ref_sha (snap_ref snap), oc_sourceCommittedAt = t\<rparr>)
       (resolvePricingEntry (Some m) (snap_pricing snap))"

definition next_open ::
  "instant \<Rightarrow> instant \<Rightarrow> pricing_snapshot \<Rightarrow> string \<Rightarrow> open_candidate option \<Rightarrow> open_candidate option" where
  "next_open b t snap m prev = (if keeps_open snap m prev then prev else opened_by b t snap m)"

definition newly_closed ::
  "instant \<Rightarrow> pricing_snapshot \<Rightarrow> string \<Rightarrow> open_candidate option \<Rightarrow> pricing_candidate list" where
  "newly_closed b snap m prev =
     (if keeps_open snap m prev then []
      else (case prev of None \<Rightarrow> []
            | Some c \<Rightarrow> (case closeCandidate c b of Some x \<Rightarrow> [x] | None \<Rightarrow> [])))"

text \<open>The loop body by cases of the two lookups.\<close>

lemma snapshot_model_cases:
  "snapshot_model b t snap st m =
     (if keeps_open snap m (map_of (fst st) m) then st
      else ((case opened_by b t snap m of
               None \<Rightarrow> (if map_of (fst st) m \<noteq> None then AList.delete m (fst st) else fst st)
             | Some c \<Rightarrow> AList.update m c
                 (if map_of (fst st) m \<noteq> None then AList.delete m (fst st) else fst st)),
            snd st @ newly_closed b snap m (map_of (fst st) m)))"
  by (cases "map_of (fst st) m"; cases "resolvePricingEntry (Some m) (snap_pricing snap)")
     (simp_all add: snapshot_model_def keeps_open_def opened_by_def newly_closed_def Let_def
        split: prod.splits)

lemma snapshot_model_open:
  "map_of (fst (snapshot_model b t snap st m))
     = (map_of (fst st))(m := next_open b t snap m (map_of (fst st) m))"
proof (cases "keeps_open snap m (map_of (fst st) m)")
  case True
  then show ?thesis by (simp add: snapshot_model_cases next_open_def)
next
  case False
  then show ?thesis
    by (cases "opened_by b t snap m"; cases "map_of (fst st) m")
       (simp_all add: snapshot_model_cases next_open_def update_conv' delete_conv' fun_eq_iff
          restrict_map_def)
qed

lemma snapshot_model_closed:
  "snd (snapshot_model b t snap st m) = snd st @ newly_closed b snap m (map_of (fst st) m)"
  by (simp add: snapshot_model_cases newly_closed_def)

lemma snapshot_model_distinct:
  "distinct (map fst (fst st)) \<Longrightarrow> distinct (map fst (fst (snapshot_model b t snap st m)))"
  by (simp add: snapshot_model_cases distinct_update distinct_delete split: option.splits)

lemma snapshot_models_distinct:
  "distinct (map fst (fst st)) \<Longrightarrow>
     distinct (map fst (fst (foldl (snapshot_model b t snap) st ms)))"
  by (induction ms arbitrary: st) (auto simp: snapshot_model_distinct)

lemma snapshot_models_open:
  "distinct ms \<Longrightarrow> map_of (fst (foldl (snapshot_model b t snap) st ms)) k
     = (if k \<in> set ms then next_open b t snap k (map_of (fst st) k) else map_of (fst st) k)"
  by (induction ms arbitrary: st) (auto simp: snapshot_model_open)

definition of_model :: "string \<Rightarrow> 'a open_candidate_scheme \<Rightarrow> bool" where
  "of_model m c \<longleftrightarrow> oc_modelId c = m"

definition keyed :: "(string \<times> open_candidate) list \<Rightarrow> bool" where
  "keyed opened \<longleftrightarrow> distinct (map fst opened) \<and> (\<forall>(m, c) \<in> set opened. oc_modelId c = m)"

lemma keyed_map_of: "keyed opened \<Longrightarrow> map_of opened m = Some c \<Longrightarrow> oc_modelId c = m"
  by (auto simp: keyed_def dest: map_of_SomeD)

lemma newly_closed_model:
  assumes "\<And>c. prev = Some c \<Longrightarrow> oc_modelId c = m"
  shows "filter (of_model k) (newly_closed b snap m prev) = (if k = m then newly_closed b snap m prev else [])"
  using assms
  by (auto simp: newly_closed_def closeCandidate_def of_model_def open_candidate.defs
      split: option.splits if_splits)

lemma keyedI:
  assumes "distinct (map fst opened)" "\<And>m c. map_of opened m = Some c \<Longrightarrow> oc_modelId c = m"
  shows "keyed opened"
  using assms by (auto simp: keyed_def)

lemma next_open_model:
  assumes "\<And>c. prev = Some c \<Longrightarrow> oc_modelId c = m" "next_open b t snap m prev = Some c"
  shows "oc_modelId c = m"
  using assms by (auto simp: next_open_def opened_by_def split: if_splits)

lemma keyed_snapshot_model:
  assumes "keyed (fst st)"
  shows "keyed (fst (snapshot_model b t snap st m))"
proof (rule keyedI)
  show "distinct (map fst (fst (snapshot_model b t snap st m)))"
    using assms snapshot_model_distinct by (auto simp: keyed_def)
  show "oc_modelId c = k" if "map_of (fst (snapshot_model b t snap st m)) k = Some c" for k c
    using that keyed_map_of [OF assms] next_open_model [of "map_of (fst st) m" m b t snap c]
    by (auto simp: snapshot_model_open split: if_splits)
qed

lemma keyed_snapshot_models:
  "keyed (fst st) \<Longrightarrow> keyed (fst (foldl (snapshot_model b t snap) st ms))"
  by (induction ms arbitrary: st) (auto simp: keyed_snapshot_model)

lemma snapshot_models_closed:
  "distinct ms \<Longrightarrow> keyed (fst st) \<Longrightarrow>
   filter (of_model k) (snd (foldl (snapshot_model b t snap) st ms))
     = filter (of_model k) (snd st)
       @ (if k \<in> set ms then newly_closed b snap k (map_of (fst st) k) else [])"
proof (induction ms arbitrary: st)
  case (Cons m ms)
  have new: "filter (of_model k) (newly_closed b snap m (map_of (fst st) m))
      = (if k = m then newly_closed b snap m (map_of (fst st) m) else [])"
    by (rule newly_closed_model) (rule keyed_map_of [OF Cons.prems(2)])
  show ?case
    using Cons.prems Cons.IH [of "snapshot_model b t snap st m"] new
    by (auto simp: snapshot_model_closed snapshot_model_open keyed_snapshot_model)
qed simp

section \<open>The intervals of one model\<close>

type_synonym snapshots = "(instant \<times> pricing_map) list"

text \<open>The reference: the price of the last snapshot committed at or before \<open>t\<close>.\<close>

definition price_in_force :: "snapshots \<Rightarrow> instant \<Rightarrow> string \<Rightarrow> (string \<times> model_pricing) option" where
  "price_in_force snaps t m =
     (let past = filter (\<lambda>s. fst s \<le> t) snaps
      in if past = [] then None else resolvePricingEntry (Some m) (snd (last past)))"

definition agrees :: "'a open_candidate_scheme \<Rightarrow> string \<times> model_pricing \<Rightarrow> bool" where
  "agrees c sp \<longleftrightarrow> oc_sourceModelId c = fst sp
     \<and> (oc_pricing c = snd sp \<or> samePricing (oc_pricing c) (snd sp))"

definition covers :: "instant \<Rightarrow> pricing_candidate \<Rightarrow> bool" where
  "covers t c \<longleftrightarrow> oc_effectiveAt c \<le> t \<and> t < pc_validUntil c"

text \<open>The candidates covering a time are one that agrees with the price in force, or none.\<close>

definition matches_price :: "'a open_candidate_scheme list \<Rightarrow> (string \<times> model_pricing) option \<Rightarrow> bool" where
  "matches_price cs price =
     (case price of None \<Rightarrow> cs = [] | Some sp \<Rightarrow> (\<exists>c. cs = [c] \<and> agrees c sp))"

definition open_covering :: "instant \<Rightarrow> open_candidate option \<Rightarrow> open_candidate list" where
  "open_covering t prev = (case prev of Some c \<Rightarrow> if oc_effectiveAt c \<le> t then [c] else [] | None \<Rightarrow> [])"

definition covering :: "instant \<Rightarrow> open_candidate option \<Rightarrow> pricing_candidate list \<Rightarrow> open_candidate list" where
  "covering t prev shut = map open_candidate.truncate (filter (covers t) shut) @ open_covering t prev"

definition model_ok ::
  "instant \<Rightarrow> snapshots \<Rightarrow> string \<Rightarrow> instant \<Rightarrow> open_candidate option \<Rightarrow> pricing_candidate list \<Rightarrow> bool" where
  "model_ok from snaps m boundary prev shut \<longleftrightarrow>
     (\<forall>t \<ge> from. matches_price (covering t prev shut) (price_in_force snaps t m)) \<and>
     (\<forall>c \<in> set shut. from \<le> oc_effectiveAt c \<and> pc_validUntil c \<le> boundary) \<and>
     (case prev of Some c \<Rightarrow> from \<le> oc_effectiveAt c \<and> oc_effectiveAt c \<le> boundary | None \<Rightarrow> True)"

lemma price_in_force_append:
  "price_in_force (snaps @ [(c, p)]) t m =
     (if c \<le> t then resolvePricingEntry (Some m) p else price_in_force snaps t m)"
  by (simp add: price_in_force_def Let_def)

lemma covering_after:
  assumes "\<forall>c \<in> set shut. pc_validUntil c \<le> b" "b \<le> t"
  shows "covering t prev shut = open_covering t prev"
proof -
  have "filter (covers t) shut = []" using assms by (force simp: filter_empty_conv covers_def)
  then show ?thesis by (simp add: covering_def)
qed

text \<open>Before the boundary, closing the open interval there changes nothing.\<close>

lemma covering_before:
  assumes "t < b"
  shows "covering t (next_open b ca snap m prev) (shut @ newly_closed b snap m prev)
    = covering t prev shut"
proof (cases "keeps_open snap m prev")
  case True
  then show ?thesis by (simp add: next_open_def newly_closed_def)
next
  case False
  have opened: "open_covering t (opened_by b ca snap m) = []"
    using assms by (auto simp: opened_by_def open_covering_def split: option.splits)
  have "map open_candidate.truncate (filter (covers t) (newly_closed b snap m prev)) = open_covering t prev"
    using False assms
    by (cases prev) (auto simp: newly_closed_def closeCandidate_def covers_def open_covering_def
        open_candidate.defs)
  then show ?thesis using False opened by (simp add: next_open_def covering_def)
qed

lemma open_covering_next:
  assumes "b \<le> t" "case prev of Some c \<Rightarrow> oc_effectiveAt c \<le> b | None \<Rightarrow> True"
  shows "matches_price (open_covering t (next_open b ca snap m prev))
    (resolvePricingEntry (Some m) (snap_pricing snap))"
proof (cases "keeps_open snap m prev")
  case True
  then obtain c src p where c: "prev = Some c"
      "resolvePricingEntry (Some m) (snap_pricing snap) = Some (src, p)"
      "oc_sourceModelId c = src" "samePricing (oc_pricing c) p"
    by (auto simp: keeps_open_def split: option.splits)
  then show ?thesis
    using True assms by (auto simp: next_open_def open_covering_def matches_price_def agrees_def)
next
  case False
  then show ?thesis
    using assms(1) by (auto simp: next_open_def opened_by_def open_covering_def matches_price_def
        agrees_def split: option.splits)
qed

lemma model_ok_step:
  assumes ok: "model_ok from snaps m b0 prev shut" and b: "b = max from ca" "b0 \<le> b"
  shows "model_ok from (snaps @ [(ca, snap_pricing snap)]) m b
    (next_open b ca snap m prev) (shut @ newly_closed b snap m prev)"
proof -
  have old: "\<And>t. from \<le> t \<Longrightarrow> matches_price (covering t prev shut) (price_in_force snaps t m)"
    and shut: "\<And>c. c \<in> set shut \<Longrightarrow> from \<le> oc_effectiveAt c \<and> pc_validUntil c \<le> b0"
    and prev: "case prev of Some c \<Rightarrow> from \<le> oc_effectiveAt c \<and> oc_effectiveAt c \<le> b0 | None \<Rightarrow> True"
    using ok by (auto simp: model_ok_def)
  have prev_b: "case prev of Some c \<Rightarrow> oc_effectiveAt c \<le> b | None \<Rightarrow> True"
    using prev b(2) by (auto split: option.splits)
  have new: "c \<in> set (newly_closed b snap m prev) \<Longrightarrow> from \<le> oc_effectiveAt c \<and> pc_validUntil c \<le> b" for c
    using prev by (auto simp: newly_closed_def closeCandidate_def open_candidate.defs split: if_splits option.splits)
  have all_b: "\<forall>c \<in> set (shut @ newly_closed b snap m prev). pc_validUntil c \<le> b"
    using shut new b(2) by fastforce
  have "matches_price (covering t (next_open b ca snap m prev) (shut @ newly_closed b snap m prev))
      (price_in_force (snaps @ [(ca, snap_pricing snap)]) t m)" if t: "from \<le> t" for t
  proof (cases "t < b")
    case True
    then have "\<not> ca \<le> t" using t b(1) by auto
    then show ?thesis using old [OF t] covering_before [OF True] by (simp add: price_in_force_append)
  next
    case False
    then have "ca \<le> t" "b \<le> t" using b(1) by auto
    then show ?thesis
      using covering_after [OF all_b] open_covering_next [OF _ prev_b] by (simp add: price_in_force_append)
  qed
  moreover have "case next_open b ca snap m prev of
      Some c \<Rightarrow> from \<le> oc_effectiveAt c \<and> oc_effectiveAt c \<le> b | None \<Rightarrow> True"
    using prev prev_b b(1) by (auto simp: next_open_def opened_by_def split: option.splits)
  ultimately show ?thesis
    unfolding model_ok_def using shut new b(2) by fastforce
qed

section \<open>A series of snapshots\<close>

fun applyPricingSnapshots :: "interval_state \<Rightarrow> pricing_snapshot list \<Rightarrow> string + interval_state" where
  "applyPricingSnapshots state [] = Inr state"
| "applyPricingSnapshots state (s # ss) =
     (case applyPricingSnapshot state s of Inl e \<Rightarrow> Inl e | Inr state' \<Rightarrow> applyPricingSnapshots state' ss)"

definition snapshots_of :: "pricing_snapshot list \<Rightarrow> snapshots" where
  "snapshots_of ss = map (\<lambda>s. (the (ref_committedAt (snap_ref s)), snap_pricing s)) ss"

text \<open>The invariant of a state that has seen the snapshots \<open>snaps\<close>.\<close>

definition state_ok :: "snapshots \<Rightarrow> interval_state \<Rightarrow> bool" where
  "state_ok snaps st \<longleftrightarrow>
     distinct (iv_models st) \<and> keyed (iv_open st) \<and>
     (case iv_lastCommittedAt st of
        None \<Rightarrow> snaps = [] \<and> iv_open st = [] \<and> iv_closed st = []
      | Some l \<Rightarrow> \<forall>m \<in> set (iv_models st).
          model_ok (iv_rangeFrom st) snaps m (max (iv_rangeFrom st) l)
            (map_of (iv_open st) m) (filter (of_model m) (iv_closed st)))"

lemma model_ok_initial: "model_ok from [] m from None []"
  by (simp add: model_ok_def matches_price_def price_in_force_def covering_def open_covering_def)

lemma state_ok_step:
  assumes ok: "state_ok snaps st" and appl: "applyPricingSnapshot st snap = Inr st'"
  shows "\<exists>c. ref_committedAt (snap_ref snap) = Some c \<and> state_ok (snaps @ [(c, snap_pricing snap)]) st'
    \<and> iv_lastCommittedAt st' = Some c \<and> iv_models st' = iv_models st
    \<and> iv_rangeFrom st' = iv_rangeFrom st"
proof -
  obtain c where c: "ref_committedAt (snap_ref snap) = Some c"
    using appl by (auto simp: applyPricingSnapshot_def split: option.splits)
  let ?b = "max (iv_rangeFrom st) c"
  let ?f = "foldl (snapshot_model ?b c snap) (iv_open st, iv_closed st) (iv_models st)"
  have b: "(if c < iv_rangeFrom st then iv_rangeFrom st else c) = ?b" by simp
  have later: "case iv_lastCommittedAt st of None \<Rightarrow> c \<le> iv_rangeFrom st | Some l \<Rightarrow> l < c"
    using appl c by (auto simp: applyPricingSnapshot_def split: option.splits if_splits)
  have st': "st' = st\<lparr>iv_lastCommittedAt := Some c, iv_open := fst ?f, iv_closed := snd ?f\<rparr>"
    using appl c later unfolding applyPricingSnapshot_def b
    by (auto simp: Let_def split: option.splits if_splits prod.splits)
  have d: "distinct (iv_models st)" and k: "keyed (fst (iv_open st, iv_closed st))"
    using ok by (simp_all add: state_ok_def)
  have "model_ok (iv_rangeFrom st) (snaps @ [(c, snap_pricing snap)]) m ?b
      (map_of (fst ?f) m) (filter (of_model m) (snd ?f))" if m: "m \<in> set (iv_models st)" for m
  proof -
    obtain b0 where "model_ok (iv_rangeFrom st) snaps m b0 (map_of (iv_open st) m)
        (filter (of_model m) (iv_closed st))" "b0 \<le> ?b"
    proof (cases "iv_lastCommittedAt st")
      case None
      then have "snaps = []" "iv_open st = []" "iv_closed st = []" using ok by (auto simp: state_ok_def)
      then show ?thesis using that [of "iv_rangeFrom st"] model_ok_initial by simp
    next
      case (Some l)
      then have "model_ok (iv_rangeFrom st) snaps m (max (iv_rangeFrom st) l) (map_of (iv_open st) m)
        (filter (of_model m) (iv_closed st))" using ok m by (simp add: state_ok_def)
      then show ?thesis using that later Some by auto
    qed
    then show ?thesis
      using model_ok_step [of "iv_rangeFrom st" snaps m b0 _ _ ?b c snap] m
        snapshot_models_open [OF d] snapshot_models_closed [OF d k] by simp
  qed
  then have "state_ok (snaps @ [(c, snap_pricing snap)]) st'"
    using d keyed_snapshot_models [OF k] by (simp add: state_ok_def st')
  then show ?thesis using c st' by simp
qed

lemma state_ok_snapshots:
  assumes "state_ok snaps st" "applyPricingSnapshots st ss = Inr st'"
  shows "state_ok (snaps @ snapshots_of ss) st' \<and> iv_models st' = iv_models st
    \<and> iv_rangeFrom st' = iv_rangeFrom st
    \<and> iv_lastCommittedAt st' = (if ss = [] then iv_lastCommittedAt st
         else ref_committedAt (snap_ref (last ss)))"
  using assms
proof (induction ss arbitrary: snaps st)
  case Nil
  then show ?case by (simp add: snapshots_of_def)
next
  case (Cons s ss)
  obtain st1 where st1: "applyPricingSnapshot st s = Inr st1" "applyPricingSnapshots st1 ss = Inr st'"
    using Cons.prems(2) by (auto split: sum.splits)
  obtain c where c: "ref_committedAt (snap_ref s) = Some c"
    "state_ok (snaps @ [(c, snap_pricing s)]) st1" "iv_lastCommittedAt st1 = Some c"
    "iv_models st1 = iv_models st" "iv_rangeFrom st1 = iv_rangeFrom st"
    using state_ok_step [OF Cons.prems(1) st1(1)] by blast
  show ?case using Cons.IH [OF c(2) st1(2)] c by (simp add: snapshots_of_def)
qed

lemma state_ok_created:
  "createPricingIntervalState from models = Inr st \<Longrightarrow>
     state_ok [] st \<and> from = Some (iv_rangeFrom st) \<and> iv_lastCommittedAt st = None
     \<and> set (iv_models st) = {m \<in> set models. js_trim m \<noteq> []}"
  by (auto simp: createPricingIntervalState_def state_ok_def keyed_def split: option.splits)

section \<open>The closed intervals\<close>

lemma map_filter_keyed:
  assumes "keyed opened"
  shows "filter (of_model m) (List.map_filter (\<lambda>(_, c). closeCandidate c t) opened)
    = (case map_of opened m of None \<Rightarrow> [] | Some c \<Rightarrow>
        (case closeCandidate c t of None \<Rightarrow> [] | Some x \<Rightarrow> [x]))"
  using assms
proof (induction opened)
  case Nil
  then show ?case by simp
next
  case (Cons mc opened)
  obtain k c where mc: "mc = (k, c)" by (cases mc)
  have k: "keyed opened" "oc_modelId c = k" "k \<notin> fst ` set opened"
    using Cons.prems by (auto simp: keyed_def mc)
  have om: "of_model m x \<longleftrightarrow> k = m" if "closeCandidate c t = Some x" for x
    using that k(2) by (auto simp: closeCandidate_def of_model_def open_candidate.defs split: if_splits)
  have none: "map_of opened k = None" using k(3) by (simp add: map_of_eq_None_iff)
  show ?case
    using Cons.IH [OF k(1)] om none
    by (cases "closeCandidate c t") (auto simp: mc)
qed

lemma covering_closed_at:
  assumes "t < u"
  shows "map open_candidate.truncate (filter (covers t)
      (case prev of None \<Rightarrow> [] | Some c \<Rightarrow> (case closeCandidate c u of None \<Rightarrow> [] | Some x \<Rightarrow> [x])))
    = open_covering t prev"
  using assms by (cases prev)
    (auto simp: closeCandidate_def covers_def open_covering_def open_candidate.defs)

lemma agrees_truncate: "agrees (open_candidate.truncate c) sp = agrees c sp"
  by (simp add: agrees_def open_candidate.defs)

lemma matches_price_truncate:
  "matches_price (map open_candidate.truncate cs) price = matches_price cs price"
  by (auto simp: matches_price_def agrees_truncate split: option.splits)

lemma matches_price_perm:
  assumes "mset cs = mset ds" "matches_price cs price"
  shows "matches_price ds price"
  using assms by (cases price) (auto simp: matches_price_def)

text \<open>C27: Validity intervals are equivalent to the snapshots they were built from. After any
  chronological series of snapshots up to the end of the range, for every tracked model and every
  time in the range: if the snapshot in force at that time resolves the model, exactly one of the
  returned intervals of the model covers the time, and it has that source and price; if the
  snapshot has no price for the model, no interval covers it.\<close>
theorem intervals_match_snapshot_in_force:
  assumes created: "createPricingIntervalState from models = Inr st0"
    and applied: "applyPricingSnapshots st0 ss = Inr st" and ss: "ss \<noteq> []"
    and range: "the (ref_committedAt (snap_ref (last ss))) \<le> rangeTo"
    and result: "closePricingIntervals localeCompare st (Some rangeTo) = Inr cs"
    and m: "m \<in> set models" "js_trim m \<noteq> []" and t: "iv_rangeFrom st0 \<le> t" "t < rangeTo"
  shows "matches_price (filter (\<lambda>c. oc_modelId c = m \<and> covers t c) cs)
    (price_in_force (snapshots_of ss) t m)"
proof -
  have ok: "state_ok (snapshots_of ss) st" and models: "iv_models st = iv_models st0"
    and frm: "iv_rangeFrom st = iv_rangeFrom st0"
    and last: "iv_lastCommittedAt st = ref_committedAt (snap_ref (last ss))"
    using state_ok_snapshots [OF conjunct1 [OF state_ok_created [OF created]] applied] ss by simp_all
  have mem: "m \<in> set (iv_models st)" using m state_ok_created [OF created] models by simp
  let ?F = "iv_rangeFrom st"
  obtain l where l: "iv_lastCommittedAt st = Some l" "l \<le> rangeTo"
  proof (cases "iv_lastCommittedAt st")
    case None
    then have "snapshots_of ss = []" using ok by (auto simp: state_ok_def)
    then show ?thesis using ss by (simp add: snapshots_of_def)
  qed (use range last that in auto)
  have mok: "model_ok ?F (snapshots_of ss) m (max ?F l) (map_of (iv_open st) m)
      (filter (of_model m) (iv_closed st))"
    and keyed: "keyed (iv_open st)"
    using ok mem l(1) by (simp_all add: state_ok_def)
  have rangeTo: "?F \<le> rangeTo" and cs: "cs = js_sort (compare_pricing_candidates localeCompare)
           (filter (\<lambda>c. oc_effectiveAt c \<ge> ?F \<and> pc_validUntil c \<le> rangeTo)
             (iv_closed st @ List.map_filter (\<lambda>(_, c). closeCandidate c rangeTo) (iv_open st)))"
    using result by (auto simp: closePricingIntervals_def split: if_splits)
  let ?new = "case map_of (iv_open st) m of None \<Rightarrow> []
      | Some c \<Rightarrow> (case closeCandidate c rangeTo of None \<Rightarrow> [] | Some x \<Rightarrow> [x])"
  have inside: "\<forall>c \<in> set (filter (of_model m) (iv_closed st)) \<union> set ?new.
      oc_effectiveAt c \<ge> ?F \<and> pc_validUntil c \<le> rangeTo"
    using mok rangeTo l(2)
    by (auto simp: model_ok_def closeCandidate_def open_candidate.defs split: option.splits if_splits)
  have sel: "filter (\<lambda>c. oc_modelId c = m \<and> covers t c) (filter (\<lambda>c. oc_effectiveAt c \<ge> ?F \<and> pc_validUntil c \<le> rangeTo)
             (iv_closed st @ List.map_filter (\<lambda>(_, c). closeCandidate c rangeTo) (iv_open st)))
      = filter (covers t) (filter (of_model m) (iv_closed st)) @ filter (covers t) ?new"
  proof -
    have "filter (\<lambda>c. oc_modelId c = m \<and> covers t c) (filter (\<lambda>c. oc_effectiveAt c \<ge> ?F \<and> pc_validUntil c \<le> rangeTo)
             (iv_closed st @ List.map_filter (\<lambda>(_, c). closeCandidate c rangeTo) (iv_open st)))
      = filter (covers t) (filter (\<lambda>c. oc_effectiveAt c \<ge> ?F \<and> pc_validUntil c \<le> rangeTo)
          (filter (of_model m) (iv_closed st) @ ?new))"
      unfolding map_filter_keyed [OF keyed, symmetric] of_model_def
      by (simp add: conj_commute conj_left_commute cong: filter_cong)
    also have "filter (\<lambda>c. oc_effectiveAt c \<ge> ?F \<and> pc_validUntil c \<le> rangeTo)
          (filter (of_model m) (iv_closed st) @ ?new) = filter (of_model m) (iv_closed st) @ ?new"
      using inside by (intro filter_True) auto
    finally show ?thesis by simp
  qed
  have "map open_candidate.truncate (filter (covers t) (filter (of_model m) (iv_closed st)) @ filter (covers t) ?new)
      = covering t (map_of (iv_open st) m) (filter (of_model m) (iv_closed st))"
    using covering_closed_at [OF t(2), of "map_of (iv_open st) m"] by (simp add: covering_def)
  moreover have "matches_price \<dots> (price_in_force (snapshots_of ss) t m)"
    using mok t(1) frm by (simp add: model_ok_def)
  ultimately have "matches_price (filter (\<lambda>c. oc_modelId c = m \<and> covers t c) (filter (\<lambda>c. oc_effectiveAt c \<ge> ?F \<and> pc_validUntil c \<le> rangeTo)
             (iv_closed st @ List.map_filter (\<lambda>(_, c). closeCandidate c rangeTo) (iv_open st))))
      (price_in_force (snapshots_of ss) t m)"
    unfolding sel using matches_price_truncate by metis
  then show ?thesis
    unfolding cs by (rule matches_price_perm [rotated]) (simp only: mset_filter mset_js_sort)
qed

definition example_snapshots :: "pricing_snapshot list" where
  "example_snapshots =
     [\<lparr>snap_ref = \<lparr>ref_sha = ''a'', ref_committedAt = Some 50\<rparr>,
       snap_pricing = [(''claude-sonnet'', example_pricing)]\<rparr>,
      \<lparr>snap_ref = \<lparr>ref_sha = ''b'', ref_committedAt = Some 200\<rparr>,
       snap_pricing = [(''claude-sonnet'', example_pricing\<lparr>p_outputPerM := Fin 20\<rparr>)]\<rparr>,
      \<lparr>snap_ref = \<lparr>ref_sha = ''c'', ref_committedAt = Some 300\<rparr>, snap_pricing = []\<rparr>]"

definition example_state :: "string + interval_state" where
  "example_state = (case createPricingIntervalState (Some 100) [''claude-sonnet''] of
     Inl e \<Rightarrow> Inl e | Inr st \<Rightarrow> applyPricingSnapshots st example_snapshots)"

definition by_length :: "string \<Rightarrow> string \<Rightarrow> int" where
  "by_length a b = int (length a) - int (length b)"

theorem intervals_match_snapshot_in_force_witness:
  "\<exists>st0 st cs. createPricingIntervalState (Some 100) [''claude-sonnet''] = Inr st0
    \<and> applyPricingSnapshots st0 example_snapshots = Inr st
    \<and> closePricingIntervals by_length st (Some 400) = Inr cs
    \<and> map (\<lambda>c. (oc_effectiveAt c, pc_validUntil c)) cs = [(100, 200), (200, 300)]
    \<and> matches_price (filter (\<lambda>c. oc_modelId c = ''claude-sonnet'' \<and> covers 250 c) cs)
        (price_in_force (snapshots_of example_snapshots) 250 ''claude-sonnet'')"
proof -
  have ex: "case createPricingIntervalState (Some 100) [''claude-sonnet''] of
      Inr st0 \<Rightarrow> iv_rangeFrom st0 = 100 \<and>
        (case applyPricingSnapshots st0 example_snapshots of
         Inr st \<Rightarrow> (case closePricingIntervals by_length st (Some 400) of
             Inr cs \<Rightarrow> map (\<lambda>c. (oc_effectiveAt c, pc_validUntil c)) cs = [(100, 200), (200, 300)]
           | Inl e \<Rightarrow> False) | Inl e \<Rightarrow> False) | Inl e \<Rightarrow> False"
    by code_simp
  obtain st0 st cs where r: "createPricingIntervalState (Some 100) [''claude-sonnet''] = Inr st0"
    "iv_rangeFrom st0 = 100" "applyPricingSnapshots st0 example_snapshots = Inr st"
    "closePricingIntervals by_length st (Some 400) = Inr cs"
    "map (\<lambda>c. (oc_effectiveAt c, pc_validUntil c)) cs = [(100, 200), (200, 300)]"
    using ex by (auto split: sum.splits)
  have last: "the (ref_committedAt (snap_ref (last example_snapshots))) \<le> 400"
    and ne: "example_snapshots \<noteq> []" by (simp_all add: example_snapshots_def)
  have trim: "js_trim ''claude-sonnet'' \<noteq> []" by code_simp
  have "matches_price (filter (\<lambda>c. oc_modelId c = ''claude-sonnet'' \<and> covers 250 c) cs)
        (price_in_force (snapshots_of example_snapshots) 250 ''claude-sonnet'')"
    by (rule intervals_match_snapshot_in_force [OF r(1,3) ne last r(4) _ trim]) (simp_all add: r(2))
  with r show ?thesis by (intro exI conjI)
qed

end
