(* ===== verification/Operation_Controller.thy ===== *)
theory Operation_Controller
  imports Toard_Prelude
begin

text \<open>
  \<open>packages/storage-clickhouse/src/operation-controller.ts\<close>: the classification of errors by the
  codes along their chain of causes, the admission queue in front of ClickHouse, and the retry
  loop of \<open>run\<close>. Error objects live in a heap, since chains of causes can be cyclic. The
  admission controller is a state machine over the events of the process (a call of
  \<open>acquire\<close>, a timer, an abort signal, a release); the retry loop is a function of what each
  attempt does.
\<close>

section \<open>Errors\<close>

text \<open>A caught value: an object, a string, or another primitive without fields.\<close>

datatype caught = Ref nat | Text string | Primitive string

datatype error_class = Plain_error | Admission_timeout_error int int | Overload_error_class

datatype error_code = Code_string string | Code_number int | Code_absent

record error_object =
  eo_class :: error_class
  eo_is_error :: bool
  eo_code :: error_code
  eo_type :: "string option"
  eo_cause :: caught
  eo_message :: string

type_synonym error_heap = "(nat \<times> error_object) list"

datatype identifier_kind = Kind_code | Kind_type

definition upper_char :: "char \<Rightarrow> char" where
  "upper_char c = (if is_lower c then char_of (code_of c - 32) else c)"

definition object_identifiers :: "error_object \<Rightarrow> (identifier_kind \<times> string) list" where
  "object_identifiers ob =
     (case eo_code ob of
        Code_string s \<Rightarrow> [(Kind_code, s)]
      | Code_number n \<Rightarrow> [(Kind_code, int_to_string n)]
      | Code_absent \<Rightarrow> [])
     @ (case eo_type ob of Some t \<Rightarrow> [(Kind_type, map upper_char (js_trim t))] | None \<Rightarrow> [])"

function identifiers_from ::
  "error_heap \<Rightarrow> nat list \<Rightarrow> caught \<Rightarrow> (identifier_kind \<times> string) list" where
  "identifiers_from h visited (Ref r) =
     (if r \<in> set visited then []
      else (case map_of h r of
              None \<Rightarrow> []
            | Some ob \<Rightarrow> object_identifiers ob @ identifiers_from h (r # visited) (eo_cause ob)))"
| "identifiers_from h visited (Text s) = []"
| "identifiers_from h visited (Primitive s) = []"
  by pat_completeness auto
termination
proof (relation "measure (\<lambda>(h, visited, v). card (fst ` set h - set visited))", goal_cases)
  case 1
  show ?case by simp
next
  case (2 h visited r ob)
  then have "r \<in> fst ` set h - set visited"
    by (metis DiffI map_of_eq_None_iff option.distinct(1))
  then have "card (fst ` set h - set visited - {r}) < card (fst ` set h - set visited)"
    by (intro card_Diff1_less) auto
  moreover have "fst ` set h - set (r # visited) = fst ` set h - set visited - {r}" by auto
  ultimately show ?case by (simp only: in_measure case_prod_conv)
qed

definition errorIdentifiers :: "error_heap \<Rightarrow> caught \<Rightarrow> (identifier_kind \<times> string) list" where
  "errorIdentifiers h e = identifiers_from h [] e"

definition isOverloadError :: "error_heap \<Rightarrow> caught \<Rightarrow> bool" where
  "isOverloadError h e =
     (let identifiers = map snd (errorIdentifiers h e)
      in ''202'' \<in> set identifiers \<or> ''TOO_MANY_SIMULTANEOUS_QUERIES'' \<in> set identifiers)"

definition TRANSIENT_NETWORK_ERROR_CODES :: "string list" where
  "TRANSIENT_NETWORK_ERROR_CODES =
     [''ECONNREFUSED'', ''ECONNRESET'', ''EPIPE'', ''ENOTFOUND'', ''EAI_AGAIN'', ''ETIMEDOUT'',
      ''UND_ERR_CONNECT_TIMEOUT'', ''UND_ERR_SOCKET'']"

text \<open>\<open>String(error instanceof Error ? error.message : error)\<close>; a plain object prints as
  \<open>[object Object]\<close>.\<close>

definition error_text :: "error_heap \<Rightarrow> caught \<Rightarrow> string" where
  "error_text h e =
     (case e of
        Ref r \<Rightarrow> (case map_of h r of
             Some ob \<Rightarrow> if eo_is_error ob then eo_message ob else ''[object Object]''
           | None \<Rightarrow> ''[object Object]'')
      | Text s \<Rightarrow> s
      | Primitive s \<Rightarrow> s)"

definition isTransientNetworkError :: "error_heap \<Rightarrow> caught \<Rightarrow> bool" where
  "isTransientNetworkError h e =
     (let codes = map snd (errorIdentifiers h e) in
      if list_ex (\<lambda>c. c \<in> set TRANSIENT_NETWORK_ERROR_CODES) codes then True
      else list_ex (\<lambda>c. str_includes (error_text h e) c) TRANSIENT_NETWORK_ERROR_CODES)"

definition errorCode :: "(identifier_kind \<times> string) list \<Rightarrow> string option" where
  "errorCode identifiers =
     (case find (\<lambda>(k, v). k = Kind_code \<and> digits1 v) identifiers of
        Some (_, v) \<Rightarrow> Some v
      | None \<Rightarrow>
         (case find (\<lambda>(k, v). k = Kind_code) identifiers of
            Some (_, v) \<Rightarrow> Some v
          | None \<Rightarrow> map_option snd (find (\<lambda>(k, v). k = Kind_type) identifiers)))"

section \<open>The admission queue\<close>

text \<open>
  A call of \<open>acquire\<close> is named by a number; its lease and its promise carry the same name.
  \<open>ad_released\<close> are the closure variables \<open>released\<close> of the leases, \<open>ad_settled\<close> what the
  promises were settled with, in the order they were.
\<close>

record queue_entry =
  qe_id :: nat
  qe_enqueuedAt :: instant

record admission_lease =
  le_queueWaitMs :: int
  le_inFlight :: nat

datatype settlement =
  Admitted admission_lease | Timed_out int nat | Aborted

record admission =
  ad_maxConcurrent :: nat
  ad_active :: nat
  ad_queue :: "queue_entry list"
  ad_released :: "nat list"
  ad_settled :: "(nat \<times> settlement) list"

definition new_controller :: "nat \<Rightarrow> admission" where
  "new_controller limit = \<lparr>ad_maxConcurrent = limit, ad_active = 0, ad_queue = [], ad_released = [],
     ad_settled = []\<rparr>"

definition settle_call :: "nat \<Rightarrow> settlement \<Rightarrow> admission \<Rightarrow> admission" where
  "settle_call i s ad = ad\<lparr>ad_settled := ad_settled ad @ [(i, s)]\<rparr>"

definition createLease :: "instant \<Rightarrow> nat \<Rightarrow> instant \<Rightarrow> admission \<Rightarrow> admission" where
  "createLease now i enqueuedAt ad =
     (let ad' = ad\<lparr>ad_active := ad_active ad + 1\<rparr>
      in settle_call i (Admitted \<lparr>le_queueWaitMs = now - enqueuedAt, le_inFlight = ad_active ad'\<rparr>) ad')"

definition acquire :: "instant \<Rightarrow> nat \<Rightarrow> bool \<Rightarrow> admission \<Rightarrow> admission" where
  "acquire now i aborted ad =
     (if aborted then settle_call i Aborted ad
      else if ad_active ad < ad_maxConcurrent ad then createLease now i now ad
      else ad\<lparr>ad_queue := ad_queue ad @ [\<lparr>qe_id = i, qe_enqueuedAt = now\<rparr>]\<rparr>)"

fun drain_queue :: "instant \<Rightarrow> queue_entry list \<Rightarrow> admission \<Rightarrow> admission" where
  "drain_queue now [] ad = ad\<lparr>ad_queue := []\<rparr>"
| "drain_queue now (e # es) ad =
     (if ad_active ad < ad_maxConcurrent ad
      then drain_queue now es (createLease now (qe_id e) (qe_enqueuedAt e) ad)
      else ad\<lparr>ad_queue := e # es\<rparr>)"

definition drain :: "instant \<Rightarrow> admission \<Rightarrow> admission" where
  "drain now ad = drain_queue now (ad_queue ad) ad"

definition release :: "instant \<Rightarrow> nat \<Rightarrow> admission \<Rightarrow> admission" where
  "release now i ad =
     (if i \<in> set (ad_released ad) then ad
      else drain now (ad\<lparr>ad_released := i # ad_released ad, ad_active := ad_active ad - 1\<rparr>))"

definition removeQueuedEntry :: "nat \<Rightarrow> admission \<Rightarrow> admission option" where
  "removeQueuedEntry i ad =
     (if i \<in> qe_id ` set (ad_queue ad)
      then Some (ad\<lparr>ad_queue := filter (\<lambda>e. qe_id e \<noteq> i) (ad_queue ad)\<rparr>) else None)"

definition timeout_fires :: "instant \<Rightarrow> queue_entry \<Rightarrow> admission \<Rightarrow> admission" where
  "timeout_fires now e ad =
     (case removeQueuedEntry (qe_id e) ad of
        None \<Rightarrow> ad
      | Some ad' \<Rightarrow> settle_call (qe_id e) (Timed_out (now - qe_enqueuedAt e) (ad_active ad')) ad')"

definition abort_fires :: "nat \<Rightarrow> admission \<Rightarrow> admission" where
  "abort_fires i ad = (case removeQueuedEntry i ad of None \<Rightarrow> ad | Some ad' \<Rightarrow> settle_call i Aborted ad')"

definition admitted :: "admission \<Rightarrow> nat list" where
  "admitted ad = map fst (filter (\<lambda>(i, s). case s of Admitted _ \<Rightarrow> True | _ \<Rightarrow> False) (ad_settled ad))"

definition known :: "admission \<Rightarrow> nat set" where
  "known ad = qe_id ` set (ad_queue ad) \<union> fst ` set (ad_settled ad)"

text \<open>
  The events of the process: a new call, the timer or the abort signal of a queued call (also
  after it was settled: a stale listener), and a call of \<open>release\<close> on an obtained lease, any
  number of times.
\<close>

inductive admission_step :: "admission \<Rightarrow> admission \<Rightarrow> bool" where
  call: "i \<notin> known ad \<Longrightarrow> admission_step ad (acquire now i aborted ad)"
| timer: "qe_id e \<in> known ad \<Longrightarrow> admission_step ad (timeout_fires now e ad)"
| signal: "i \<in> known ad \<Longrightarrow> admission_step ad (abort_fires i ad)"
| finished: "i \<in> set (admitted ad) \<Longrightarrow> admission_step ad (release now i ad)"

inductive_cases admission_stepE: "admission_step ad ad'"

section \<open>The retry loop\<close>

definition NETWORK_ATTEMPTS :: nat where "NETWORK_ATTEMPTS = 5"
definition NETWORK_BACKOFF_BASE_MS :: int where "NETWORK_BACKOFF_BASE_MS = 150"
definition OVERLOAD_ATTEMPTS :: nat where "OVERLOAD_ATTEMPTS = 2"

text \<open>What the \<open>try\<close> block does at an attempt: \<open>acquire\<close> may reject; once there is a lease, it is
  released in any case (\<open>finally\<close>), and the action returns or throws.\<close>

datatype 'a attempt =
  Not_admitted caught | Action_threw admission_lease caught | Action_returned admission_lease 'a

datatype class_of_failure = Class_network | Class_overload | Class_admission_timeout | Class_query

record operation_log =
  lg_operation :: string
  lg_errorClass :: class_of_failure
  lg_errorCode :: "string option"
  lg_attempt :: nat
  lg_durationMs :: int
  lg_queueWaitMs :: int
  lg_inFlight :: nat

datatype final_error = Overload_error string caught | Same_error caught

record operation_options =
  op_retryTransient :: bool
  op_retryOverload :: "bool option"

text \<open>The surroundings of a run: the heap of error objects, what attempt \<open>n\<close> does, the random
  number drawn and the clock and the number of active operations read after it.\<close>

record 'a run_env =
  en_heap :: error_heap
  en_attempt :: "nat \<Rightarrow> 'a attempt"
  en_random :: "nat \<Rightarrow> rat"
  en_now :: "nat \<Rightarrow> instant"
  en_active :: "nat \<Rightarrow> nat"

record 'a run_result =
  ru_attempts :: nat
  ru_sleeps :: "int list"
  ru_logs :: "operation_log list"
  ru_result :: "final_error + 'a"

definition admission_timeout_of :: "error_heap \<Rightarrow> final_error \<Rightarrow> (int \<times> nat) option" where
  "admission_timeout_of h f =
     (case f of
        Same_error (Ref r) \<Rightarrow> (case map_of h r of
             Some ob \<Rightarrow> (case eo_class ob of Admission_timeout_error w n \<Rightarrow> Some (w, nat n) | _ \<Rightarrow> None)
           | None \<Rightarrow> None)
      | _ \<Rightarrow> None)"

text \<open>The identifiers of an \<open>Overload_error\<close> are its own code followed by those of its cause.\<close>

definition final_identifiers :: "error_heap \<Rightarrow> final_error \<Rightarrow> (identifier_kind \<times> string) list" where
  "final_identifiers h f = (case f of
      Overload_error op c \<Rightarrow> (Kind_code, ''202'') # errorIdentifiers h c
    | Same_error c \<Rightarrow> errorIdentifiers h c)"

definition classify :: "error_heap \<Rightarrow> final_error \<Rightarrow> class_of_failure" where
  "classify h f =
     (if admission_timeout_of h f \<noteq> None then Class_admission_timeout
      else (case f of
              Overload_error _ _ \<Rightarrow> Class_overload
            | Same_error e \<Rightarrow>
                if isOverloadError h e then Class_overload
                else if isTransientNetworkError h e then Class_network else Class_query))"

definition finalError :: "error_heap \<Rightarrow> string \<Rightarrow> caught \<Rightarrow> final_error" where
  "finalError h op e = (if isOverloadError h e then Overload_error op e else Same_error e)"

definition failure_log ::
  "'a run_env \<Rightarrow> string \<Rightarrow> instant \<Rightarrow> nat \<Rightarrow> admission_lease option \<Rightarrow> final_error \<Rightarrow> operation_log" where
  "failure_log env op startedAt n lastLease f =
     (let adm = admission_timeout_of (en_heap env) f;
          code = errorCode (final_identifiers (en_heap env) f)
      in \<lparr>lg_operation = op, lg_errorClass = classify (en_heap env) f,
          lg_errorCode = (if code = Some [] then None else code),
          lg_attempt = n, lg_durationMs = en_now env n - startedAt,
          lg_queueWaitMs = (case adm of Some (w, _) \<Rightarrow> w | None \<Rightarrow>
             (case lastLease of Some l \<Rightarrow> le_queueWaitMs l | None \<Rightarrow> 0)),
          lg_inFlight = (case adm of Some (_, k) \<Rightarrow> k | None \<Rightarrow>
             (case lastLease of Some l \<Rightarrow> le_inFlight l | None \<Rightarrow> en_active env n))\<rparr>)"

text \<open>The decision of the \<open>catch\<close> block: how long to sleep before the next attempt, if there is
  one, and the new counts of failures.\<close>

definition retry_after ::
  "'a run_env \<Rightarrow> operation_options \<Rightarrow> nat \<Rightarrow> nat \<Rightarrow> nat \<Rightarrow> caught \<Rightarrow> (int \<times> nat \<times> nat) option" where
  "retry_after env opts n networkFailures overloadFailures e =
     (if isOverloadError (en_heap env) e
      then (if op_retryOverload opts \<noteq> Some False \<and> overloadFailures + 1 < OVERLOAD_ATTEMPTS
            then Some (100 + \<lfloor>en_random env n * 200\<rfloor>, networkFailures, overloadFailures + 1) else None)
      else if op_retryTransient opts \<and> isTransientNetworkError (en_heap env) e
      then (if networkFailures + 1 < NETWORK_ATTEMPTS
            then Some (NETWORK_BACKOFF_BASE_MS * 2 ^ networkFailures, networkFailures + 1, overloadFailures)
            else None)
      else None)"

lemma retry_after_less:
  "retry_after env opts n nf ov e = Some (ms, nf', ov') \<Longrightarrow>
     ov' = ov + 1 \<and> nf' = nf \<and> ov' < OVERLOAD_ATTEMPTS \<or> nf' = nf + 1 \<and> ov' = ov \<and> nf' < NETWORK_ATTEMPTS"
  by (auto simp: retry_after_def split: if_splits)

definition lease_of_attempt :: "'a attempt \<Rightarrow> admission_lease option" where
  "lease_of_attempt a = (case a of
      Not_admitted _ \<Rightarrow> None | Action_threw l _ \<Rightarrow> Some l | Action_returned l _ \<Rightarrow> Some l)"

definition error_of_attempt :: "'a attempt \<Rightarrow> caught option" where
  "error_of_attempt a = (case a of
      Not_admitted e \<Rightarrow> Some e | Action_threw _ e \<Rightarrow> Some e | Action_returned _ _ \<Rightarrow> None)"

function run_loop ::
  "'a run_env \<Rightarrow> operation_options \<Rightarrow> string \<Rightarrow> instant \<Rightarrow> nat \<Rightarrow> nat \<Rightarrow> nat \<Rightarrow> admission_lease option
   \<Rightarrow> int list \<Rightarrow> 'a run_result" where
  "run_loop env opts op startedAt n nf ov lastLease sleeps =
     (let a = en_attempt env (n + 1);
          lease = (case lease_of_attempt a of Some l \<Rightarrow> Some l | None \<Rightarrow> lastLease)
      in case a of
           Action_returned l v \<Rightarrow>
             \<lparr>ru_attempts = n + 1, ru_sleeps = sleeps, ru_logs = [], ru_result = Inr v\<rparr>
         | _ \<Rightarrow>
            (let e = the (error_of_attempt a) in
             case retry_after env opts (n + 1) nf ov e of
               Some (ms, nf', ov') \<Rightarrow>
                 run_loop env opts op startedAt (n + 1) nf' ov' lease (sleeps @ [ms])
             | None \<Rightarrow>
                 (let f = finalError (en_heap env) op e
                  in \<lparr>ru_attempts = n + 1, ru_sleeps = sleeps,
                      ru_logs = [failure_log env op startedAt (n + 1) lease f],
                      ru_result = Inl f\<rparr>)))"
  by pat_completeness auto
termination
  by (relation "measure (\<lambda>(env, opts, op, startedAt, n, nf, ov, lease, sleeps).
        (NETWORK_ATTEMPTS - nf) + (OVERLOAD_ATTEMPTS - ov))")
     (use retry_after_less in \<open>force\<close>)+

declare run_loop.simps [simp del]

definition run_operation ::
  "'a run_env \<Rightarrow> operation_options \<Rightarrow> string \<Rightarrow> instant \<Rightarrow> 'a run_result" where
  "run_operation env opts op startedAt = run_loop env opts op startedAt 0 0 0 None []"

section \<open>The invariant of the admission queue\<close>

definition unreleased :: "admission \<Rightarrow> nat list" where
  "unreleased ad = filter (\<lambda>i. i \<notin> set (ad_released ad)) (admitted ad)"

text \<open>Each call is in one place, each released lease was given out, and \<open>ad_active\<close> counts the
  leases that are out, never more than the limit.\<close>

definition admission_core :: "admission \<Rightarrow> bool" where
  "admission_core ad \<longleftrightarrow>
     distinct (map qe_id (ad_queue ad) @ map fst (ad_settled ad)) \<and>
     set (ad_released ad) \<subseteq> set (admitted ad) \<and>
     ad_active ad = length (unreleased ad) \<and> ad_active ad \<le> ad_maxConcurrent ad"

definition admission_ok :: "admission \<Rightarrow> bool" where
  "admission_ok ad \<longleftrightarrow> admission_core ad \<and> (ad_queue ad = [] \<or> ad_active ad = ad_maxConcurrent ad)"

lemma admitted_settled: "set (admitted ad) \<subseteq> fst ` set (ad_settled ad)"
  by (auto simp: admitted_def)

lemma distinct_admitted: "distinct (map fst (ad_settled ad)) \<Longrightarrow> distinct (admitted ad)"
  by (simp add: admitted_def distinct_map_filter)

lemma createLease_simps [simp]:
  "ad_active (createLease now i t ad) = Suc (ad_active ad)"
  "ad_queue (createLease now i t ad) = ad_queue ad"
  "ad_released (createLease now i t ad) = ad_released ad"
  "ad_maxConcurrent (createLease now i t ad) = ad_maxConcurrent ad"
  "ad_settled (createLease now i t ad) = ad_settled ad
     @ [(i, Admitted \<lparr>le_queueWaitMs = now - t, le_inFlight = Suc (ad_active ad)\<rparr>)]"
  "admitted (createLease now i t ad) = admitted ad @ [i]"
  by (simp_all add: createLease_def settle_call_def admitted_def Let_def)

lemma createLease_queue_update [simp]:
  "createLease now i t (ad\<lparr>ad_queue := q\<rparr>) = (createLease now i t ad)\<lparr>ad_queue := q\<rparr>"
  by (simp add: createLease_def settle_call_def)

lemma settle_simps [simp]:
  "ad_active (settle_call i s ad) = ad_active ad" "ad_queue (settle_call i s ad) = ad_queue ad"
  "ad_released (settle_call i s ad) = ad_released ad" "ad_maxConcurrent (settle_call i s ad) = ad_maxConcurrent ad"
  "ad_settled (settle_call i s ad) = ad_settled ad @ [(i, s)]"
  by (simp_all add: settle_call_def)

lemma admitted_settle [simp]:
  "admitted (settle_call i (Timed_out w n) ad) = admitted ad" "admitted (settle_call i Aborted ad) = admitted ad"
  by (simp_all add: settle_call_def admitted_def)

lemma admitted_queue_update [simp]:
  "admitted (ad\<lparr>ad_queue := q\<rparr>) = admitted ad" "admitted (ad\<lparr>ad_released := r\<rparr>) = admitted ad"
  "admitted (ad\<lparr>ad_active := n\<rparr>) = admitted ad"
  by (simp_all add: admitted_def)

text \<open>A lease for a call that is new or was just taken off the queue.\<close>

lemma core_createLease:
  assumes core: "admission_core ad" and room: "ad_active ad < ad_maxConcurrent ad"
    and q: "ad_queue ad = us @ vs" and new: "i \<notin> fst ` set (ad_settled ad)" "i \<notin> qe_id ` set vs"
  shows "admission_core ((createLease now i t ad)\<lparr>ad_queue := vs\<rparr>)"
proof -
  have "i \<notin> set (ad_released ad)" using core new admitted_settled [of ad] by (auto simp: admission_core_def)
  then show ?thesis using assms
    by (auto simp: admission_core_def unreleased_def)
qed

lemma drain_queue_core:
  assumes "admission_core (ad\<lparr>ad_queue := es\<rparr>)"
  shows "admission_ok (drain_queue now es ad)"
  using assms
proof (induction now es ad rule: drain_queue.induct)
  case (1 now ad)
  then show ?case by (simp add: admission_ok_def)
next
  case (2 now e es ad)
  let ?c = "createLease now (qe_id e) (qe_enqueuedAt e) ad"
  show ?case
  proof (cases "ad_active ad < ad_maxConcurrent ad")
    case True
    have d: "qe_id e \<notin> fst ` set (ad_settled ad)" "qe_id e \<notin> qe_id ` set es"
      using 2(2) by (auto simp: admission_core_def)
    have "admission_core (?c\<lparr>ad_queue := es\<rparr>)"
      using core_createLease [OF 2(2), of "[e]" es "qe_id e" now "qe_enqueuedAt e"] True d by simp
    then show ?thesis using 2(1) [OF True] True by simp
  next
    case False
    then show ?thesis using 2(2) by (auto simp: admission_ok_def admission_core_def)
  qed
qed

lemma acquire_ok:
  assumes ok: "admission_ok ad" and new: "i \<notin> known ad"
  shows "admission_ok (acquire now i aborted ad)"
proof -
  have core: "admission_core ad" and n: "i \<notin> fst ` set (ad_settled ad)" "i \<notin> qe_id ` set (ad_queue ad)"
    using ok new by (auto simp: admission_ok_def known_def)
  consider "aborted" | "\<not> aborted" "ad_active ad < ad_maxConcurrent ad"
    | "\<not> aborted" "\<not> ad_active ad < ad_maxConcurrent ad" by blast
  then show ?thesis
  proof cases
    case 1
    then show ?thesis using ok n by (auto simp: acquire_def admission_ok_def admission_core_def unreleased_def)
  next
    case 2
    then have "ad_queue ad = []" using ok by (auto simp: admission_ok_def)
    then show ?thesis
      using 2 core_createLease [OF core 2(2), of "[]" "[]" i now now] n
      by (simp add: acquire_def admission_ok_def)
         (metis admission.surjective admission.update_convs(3) createLease_simps(2))
  next
    case 3
    then show ?thesis using ok n
      by (auto simp: acquire_def admission_ok_def admission_core_def unreleased_def)
  qed
qed

lemma removeQueuedEntry_ok:
  assumes "admission_ok ad" "removeQueuedEntry i ad = Some ad'" "admitted (settle_call i s ad') = admitted ad'"
  shows "admission_ok (settle_call i s ad')"
proof -
  have ad': "ad' = ad\<lparr>ad_queue := filter (\<lambda>e. qe_id e \<noteq> i) (ad_queue ad)\<rparr>" and i: "i \<in> qe_id ` set (ad_queue ad)"
    using assms(2) by (auto simp: removeQueuedEntry_def split: if_splits)
  show ?thesis
    using assms(1,3) i unfolding ad'
    by (auto simp: admission_ok_def admission_core_def unreleased_def distinct_map_filter)
qed

lemma filter_remove1_length:
  "distinct xs \<Longrightarrow> i \<in> set xs \<Longrightarrow> P i \<Longrightarrow>
     length (filter (\<lambda>x. x \<noteq> i \<and> P x) xs) = length (filter P xs) - 1"
proof (induction xs)
  case (Cons x xs)
  show ?case
  proof (cases "x = i")
    case True
    then have "filter (\<lambda>x. x \<noteq> i \<and> P x) xs = filter P xs"
      using Cons.prems by (intro filter_cong) auto
    then show ?thesis using True Cons.prems by simp
  next
    case False
    then have "filter P xs \<noteq> []" using Cons.prems by (auto simp: filter_empty_conv)
    then have "0 < length (filter P xs)" by simp
    then show ?thesis using False Cons by (auto simp del: length_greater_0_conv)
  qed
qed simp

lemma core_given_back:
  assumes core: "admission_core ad" and i: "i \<in> set (admitted ad)" "i \<notin> set (ad_released ad)"
  shows "admission_core (ad\<lparr>ad_released := i # ad_released ad, ad_active := ad_active ad - 1\<rparr>)"
proof -
  have "distinct (admitted ad)" using core distinct_admitted by (auto simp: admission_core_def)
  from filter_remove1_length [OF this i(1), of "\<lambda>x. x \<notin> set (ad_released ad)"] i
  show ?thesis using core by (auto simp: admission_core_def unreleased_def)
qed

lemma release_ok:
  assumes "admission_ok ad" "i \<in> set (admitted ad)"
  shows "admission_ok (release now i ad)"
proof (cases "i \<in> set (ad_released ad)")
  case True
  then show ?thesis using assms by (simp add: release_def)
next
  case False
  let ?a = "ad\<lparr>ad_released := i # ad_released ad, ad_active := ad_active ad - 1\<rparr>"
  have "admission_core ?a" using core_given_back [OF _ assms(2) False] assms(1) by (simp add: admission_ok_def)
  then have "admission_core (?a\<lparr>ad_queue := ad_queue ?a\<rparr>)" by simp
  from drain_queue_core [OF this, of now] show ?thesis using False by (simp add: release_def drain_def)
qed

lemma step_ok: "admission_ok ad \<Longrightarrow> admission_step ad ad' \<Longrightarrow> admission_ok ad'"
  by (erule admission_stepE)
     (auto simp: timeout_fires_def abort_fires_def intro!: acquire_ok release_ok
        intro: removeQueuedEntry_ok split: option.splits)

lemma new_controller_ok: "admission_ok (new_controller limit)"
  by (simp add: admission_ok_def admission_core_def new_controller_def unreleased_def admitted_def)

lemma reachable_ok: "admission_step\<^sup>*\<^sup>* (new_controller limit) ad \<Longrightarrow> admission_ok ad"
  by (induction rule: rtranclp_induct) (auto intro: new_controller_ok step_ok)

text \<open>With all slots taken, one release admits exactly the first waiting call.\<close>

lemma release_admits_head:
  assumes ok: "admission_ok ad" and i: "i \<in> set (admitted ad)" "i \<notin> set (ad_released ad)"
    and q: "ad_queue ad = e # es"
  shows "ad_queue (release now i ad) = es \<and> ad_active (release now i ad) = ad_active ad
    \<and> ad_settled (release now i ad) = ad_settled ad @
        [(qe_id e, Admitted \<lparr>le_queueWaitMs = now - qe_enqueuedAt e, le_inFlight = ad_active ad\<rparr>)]"
proof -
  have full: "ad_active ad = ad_maxConcurrent ad" and active: "ad_active ad = length (unreleased ad)"
    using ok q by (auto simp: admission_ok_def admission_core_def)
  have "i \<in> set (unreleased ad)" using i by (simp add: unreleased_def)
  then have pos: "0 < ad_active ad" unfolding active by (metis length_pos_if_in_set)
  have stop: "drain_queue now es ad' = ad'\<lparr>ad_queue := es\<rparr>"
    if "ad_active ad' = ad_maxConcurrent ad'" for ad'
    using that by (cases es) simp_all
  show ?thesis using i q full pos by (simp add: release_def drain_def stop)
qed

section \<open>Facts about the retry loop\<close>

text \<open>The pause before the next attempt, by what failed.\<close>

lemma retry_after_sleep:
  assumes "retry_after env opts n nf ov e = Some (ms, nf', ov')" "0 \<le> en_random env n" "en_random env n < 1"
  shows "100 \<le> ms \<and> ms \<le> 299 \<and> ov' = ov + 1 \<and> nf' = nf \<and> ov' < OVERLOAD_ATTEMPTS
       \<or> ms = 150 * 2 ^ nf \<and> nf' = nf + 1 \<and> ov' = ov \<and> nf' < NETWORK_ATTEMPTS"
proof -
  have "0 \<le> \<lfloor>en_random env n * 200\<rfloor>" "\<lfloor>en_random env n * 200\<rfloor> < 200"
    using assms(2,3) by (simp_all add: floor_less_iff)
  then show ?thesis
    using assms(1) by (auto simp: retry_after_def NETWORK_BACKOFF_BASE_MS_def split: if_splits)
qed

definition sleep_ok :: "int \<Rightarrow> bool" where
  "sleep_ok ms \<longleftrightarrow> 100 \<le> ms \<and> ms \<le> 299 \<or> ms \<in> {150, 300, 600, 1200}"

lemma retry_after_sleep_ok:
  assumes "retry_after env opts n nf ov e = Some (ms, nf', ov')" "0 \<le> en_random env n" "en_random env n < 1"
  shows "sleep_ok ms"
  using retry_after_sleep [OF assms]
proof
  assume "ms = 150 * 2 ^ nf \<and> nf' = nf + 1 \<and> ov' = ov \<and> nf' < NETWORK_ATTEMPTS"
  then have ms: "ms = 150 * 2 ^ nf" and "nf < 4" by (auto simp: NETWORK_ATTEMPTS_def)
  from this(2) have "nf \<in> {0, 1, 2, 3}" by auto
  then show ?thesis unfolding ms sleep_ok_def by auto
qed (simp add: sleep_ok_def)

text \<open>Whether an attempt failed with an error the options retry.\<close>

definition retryable :: "error_heap \<Rightarrow> operation_options \<Rightarrow> 'a attempt \<Rightarrow> bool" where
  "retryable h opts a = (case error_of_attempt a of
      None \<Rightarrow> False
    | Some e \<Rightarrow> isOverloadError h e \<and> op_retryOverload opts \<noteq> Some False
              \<or> \<not> isOverloadError h e \<and> op_retryTransient opts \<and> isTransientNetworkError h e)"

lemma retry_after_retryable:
  "retry_after env opts n nf ov e = Some x \<Longrightarrow> error_of_attempt a = Some e \<Longrightarrow>
     retryable (en_heap env) opts a"
  by (auto simp: retry_after_def retryable_def split: if_splits)

text \<open>The result is that of the last attempt; all attempts before it failed with errors that are
  retried; it slept once between two attempts; it logs exactly when it fails.\<close>

definition run_ok ::
  "'a run_env \<Rightarrow> operation_options \<Rightarrow> string \<Rightarrow> nat \<Rightarrow> int list \<Rightarrow> 'a run_result \<Rightarrow> bool" where
  "run_ok env opts op n sleeps r \<longleftrightarrow>
     n < ru_attempts r \<and> (\<forall>k. n < k \<longrightarrow> k < ru_attempts r \<longrightarrow> retryable (en_heap env) opts (en_attempt env k)) \<and>
     (case en_attempt env (ru_attempts r) of
        Action_returned l v \<Rightarrow> ru_result r = Inr v \<and> ru_logs r = []
      | a \<Rightarrow> ru_result r = Inl (finalError (en_heap env) op (the (error_of_attempt a)))
             \<and> length (ru_logs r) = 1) \<and>
     (\<exists>ss. ru_sleeps r = sleeps @ ss \<and> Suc (length ss + n) = ru_attempts r)"

lemma run_ok_step:
  assumes ok: "run_ok env opts op (Suc n) (sleeps @ [ms]) r"
    and first: "retryable (en_heap env) opts (en_attempt env (Suc n))"
  shows "run_ok env opts op n sleeps r"
proof -
  have "retryable (en_heap env) opts (en_attempt env k)" if "n < k" "k < ru_attempts r" for k
    using ok first that by (cases "k = Suc n") (auto simp: run_ok_def)
  moreover obtain ss where "ru_sleeps r = sleeps @ (ms # ss)" "Suc (length (ms # ss) + n) = ru_attempts r"
    using ok by (auto simp: run_ok_def)
  ultimately show ?thesis using ok unfolding run_ok_def by (meson Suc_lessD)
qed

text \<open>The two ways a pass of the loop goes.\<close>

lemma run_loop_retry:
  assumes "error_of_attempt (en_attempt env (Suc n)) = Some e"
    "retry_after env opts (Suc n) nf ov e = Some (ms, nf', ov')"
  shows "run_loop env opts op startedAt n nf ov lease sleeps =
    run_loop env opts op startedAt (Suc n) nf' ov'
      (case lease_of_attempt (en_attempt env (Suc n)) of Some l \<Rightarrow> Some l | None \<Rightarrow> lease) (sleeps @ [ms])"
  using assms by (cases "en_attempt env (Suc n)")
    (auto simp: run_loop.simps [of env opts op startedAt n] Let_def error_of_attempt_def)

lemma run_loop_ends:
  assumes "\<And>e. error_of_attempt (en_attempt env (Suc n)) = Some e \<Longrightarrow> retry_after env opts (Suc n) nf ov e = None"
  shows "ru_attempts (run_loop env opts op startedAt n nf ov lease sleeps) = Suc n"
    "ru_sleeps (run_loop env opts op startedAt n nf ov lease sleeps) = sleeps"
    "run_ok env opts op n sleeps (run_loop env opts op startedAt n nf ov lease sleeps)"
  using assms by (cases "en_attempt env (Suc n)",
      auto simp: run_loop.simps [of env opts op startedAt n] Let_def error_of_attempt_def run_ok_def)+

lemma run_loop_induct [case_names ends retry]:
  assumes ends: "\<And>n nf ov lease sleeps.
      (\<And>e. error_of_attempt (en_attempt env (Suc n)) = Some e \<Longrightarrow> retry_after env opts (Suc n) nf ov e = None) \<Longrightarrow>
      P n nf ov lease sleeps"
    and retry: "\<And>n nf ov lease sleeps e ms nf' ov'.
      error_of_attempt (en_attempt env (Suc n)) = Some e \<Longrightarrow>
      retry_after env opts (Suc n) nf ov e = Some (ms, nf', ov') \<Longrightarrow>
      (\<And>lease. P (Suc n) nf' ov' lease (sleeps @ [ms])) \<Longrightarrow> P n nf ov lease sleeps"
  shows "P n nf ov lease sleeps"
proof (induction "(NETWORK_ATTEMPTS - nf) + (OVERLOAD_ATTEMPTS - ov)" arbitrary: n nf ov lease sleeps
    rule: less_induct)
  case less
  show ?case
  proof (cases "\<exists>e x. error_of_attempt (en_attempt env (Suc n)) = Some e
      \<and> retry_after env opts (Suc n) nf ov e = Some x")
    case True
    then obtain e ms nf' ov' where e: "error_of_attempt (en_attempt env (Suc n)) = Some e"
      and x: "retry_after env opts (Suc n) nf ov e = Some (ms, nf', ov')" by (metis surj_pair)
    have "(NETWORK_ATTEMPTS - nf') + (OVERLOAD_ATTEMPTS - ov') < (NETWORK_ATTEMPTS - nf) + (OVERLOAD_ATTEMPTS - ov)"
      using retry_after_less [OF x] by auto
    then show ?thesis using retry [OF e x] less by blast
  next
    case False
    then show ?thesis using ends by (metis not_Some_eq)
  qed
qed

lemma run_loop_ok:
  "run_ok env opts op n sleeps (run_loop env opts op startedAt n nf ov lease sleeps)"
proof (induction n nf ov lease sleeps rule: run_loop_induct [where env = env and opts = opts])
  case (ends n nf ov lease sleeps)
  then show ?case by (rule run_loop_ends(3))
next
  case (retry n nf ov lease sleeps e ms nf' ov')
  show ?case
    unfolding run_loop_retry [OF retry(1,2)]
    by (rule run_ok_step [OF retry(3)]) (rule retry_after_retryable [OF retry(2,1)])
qed

lemma run_loop_bounds:
  assumes "\<And>k. 0 \<le> en_random env k \<and> en_random env k < 1" "nf < NETWORK_ATTEMPTS" "ov < OVERLOAD_ATTEMPTS"
    and "list_all sleep_ok sleeps"
  shows "ru_attempts (run_loop env opts op startedAt n nf ov lease sleeps) + nf + ov
           \<le> n + NETWORK_ATTEMPTS + OVERLOAD_ATTEMPTS - 1
    \<and> list_all sleep_ok (ru_sleeps (run_loop env opts op startedAt n nf ov lease sleeps))"
  using assms
proof (induction n nf ov lease sleeps rule: run_loop_induct [where env = env and opts = opts])
  case (ends n nf ov lease sleeps)
  then show ?case using run_loop_ends(1,2) [OF ends(1)] by simp
next
  case (retry n nf ov lease sleeps e ms nf' ov')
  have less: "nf' < NETWORK_ATTEMPTS" "ov' < OVERLOAD_ATTEMPTS" "nf' + ov' = Suc (nf + ov)"
    using retry_after_less [OF retry(2)] retry.prems by auto
  have "list_all sleep_ok (sleeps @ [ms])"
    using retry.prems retry_after_sleep_ok [OF retry(2)] by simp
  let ?l = "case lease_of_attempt (en_attempt env (Suc n)) of Some l \<Rightarrow> Some l | None \<Rightarrow> lease"
  from retry(3) [OF retry.prems(1) less(1,2) \<open>list_all sleep_ok (sleeps @ [ms])\<close>, of ?l] less
  show ?case
    unfolding run_loop_retry [OF retry(1,2)] by (auto simp: NETWORK_ATTEMPTS_def OVERLOAD_ATTEMPTS_def)
qed

section \<open>Facts about chains of causes\<close>

text \<open>The \<open>n\<close>-th cause of a caught value, and the object there.\<close>

fun cause_of :: "error_heap \<Rightarrow> caught \<Rightarrow> caught" where
  "cause_of h (Ref r) = (case map_of h r of Some ob \<Rightarrow> eo_cause ob | None \<Rightarrow> Primitive ''undefined'')"
| "cause_of h v = Primitive ''undefined''"

definition nth_cause :: "error_heap \<Rightarrow> caught \<Rightarrow> nat \<Rightarrow> caught" where
  "nth_cause h e n = (cause_of h ^^ n) e"

definition identifiers_at :: "error_heap \<Rightarrow> caught \<Rightarrow> (identifier_kind \<times> string) list" where
  "identifiers_at h v = (case v of
      Ref r \<Rightarrow> (case map_of h r of Some ob \<Rightarrow> object_identifiers ob | None \<Rightarrow> [])
    | _ \<Rightarrow> [])"

lemma nth_cause_Suc: "nth_cause h e (Suc n) = cause_of h (nth_cause h e n)"
  by (simp add: nth_cause_def)

lemma not_object_stays:
  "(\<And>r. nth_cause h e n = Ref r \<Longrightarrow> map_of h r = None) \<Longrightarrow> n < k \<Longrightarrow> nth_cause h e k = Primitive ''undefined''"
proof (induction k)
  case (Suc k)
  show ?case
  proof (cases "n = k")
    case True
    then show ?thesis using Suc.prems(1) by (cases "nth_cause h e k") (auto simp: nth_cause_Suc)
  qed (use Suc in \<open>auto simp: nth_cause_Suc\<close>)
qed simp

text \<open>Once a cause repeats, all later causes repeat earlier ones.\<close>

lemma causes_cycle:
  assumes "nth_cause h e n = nth_cause h e m" "m < n"
  shows "\<exists>j < n. nth_cause h e k = nth_cause h e j"
proof (induction k rule: less_induct)
  case (less k)
  show ?case
  proof (cases "k < n")
    case False
    have "nth_cause h e k = (cause_of h ^^ (k - n)) (nth_cause h e n)"
      using False by (simp add: nth_cause_def funpow_add [symmetric, THEN fun_cong, unfolded comp_def])
    also have "\<dots> = nth_cause h e (k - n + m)"
      unfolding assms(1) by (simp add: nth_cause_def funpow_add)
    finally show ?thesis using less [of "k - n + m"] False assms(2) by auto
  qed auto
qed

text \<open>The loop collects the identifiers of every cause, also on a cycle.\<close>

lemma identifiers_from_complete:
  assumes "set visited = {r. \<exists>i < n. nth_cause h e i = Ref r}"
    and "\<And>i. i < n \<Longrightarrow> \<exists>r. nth_cause h e i = Ref r"
  shows "set (identifiers_from h visited (nth_cause h e n))
    \<union> (\<Union>i < n. set (identifiers_at h (nth_cause h e i))) = (\<Union>i. set (identifiers_at h (nth_cause h e i)))"
  using assms
proof (induction "card (fst ` set h - set visited)" arbitrary: n visited rule: less_induct)
  case less
  let ?I = "\<lambda>i. set (identifiers_at h (nth_cause h e i))"
  consider r ob where "nth_cause h e n = Ref r" "r \<notin> set visited" "map_of h r = Some ob"
    | r where "nth_cause h e n = Ref r" "r \<in> set visited"
    | "\<forall>r. nth_cause h e n = Ref r \<longrightarrow> map_of h r = None"
    by (metis not_None_eq)
  then show ?case
  proof cases
    case 1
    have mem: "r \<in> fst ` set h - set visited"
      using 1(2,3) by (metis DiffI map_of_eq_None_iff option.distinct(1))
    have "fst ` set h - set (r # visited) = fst ` set h - set visited - {r}" by auto
    then have card: "card (fst ` set h - set (r # visited)) < card (fst ` set h - set visited)"
      using mem by (metis card_Diff1_less finite_Diff finite_imageI finite_set)
    have v: "set (r # visited) = {q. \<exists>i < Suc n. nth_cause h e i = Ref q}"
      using less.prems(1) 1(1) by (auto simp: less_Suc_eq)
    have refs: "\<exists>q. nth_cause h e i = Ref q" if "i < Suc n" for i
      using that less.prems(2) 1(1) by (cases "i = n") auto
    have nxt: "nth_cause h e (Suc n) = eo_cause ob" using 1 by (simp add: nth_cause_Suc)
    have "identifiers_from h visited (nth_cause h e n) =
        identifiers_at h (nth_cause h e n) @ identifiers_from h (r # visited) (nth_cause h e (Suc n))"
      using 1 nxt by (simp add: identifiers_at_def)
    then show ?thesis
      using less.hyps [OF card v refs] by (auto simp: lessThan_Suc)
  next
    case 2
    then obtain m where m: "m < n" "nth_cause h e m = Ref r" using less.prems(1) by auto
    have "?I k \<subseteq> (\<Union>i < n. ?I i)" for k
      using causes_cycle [of h e n m k] m 2(1) by auto
    then have "(\<Union>k. ?I k) = (\<Union>i < n. ?I i)" by blast
    moreover have "identifiers_from h visited (nth_cause h e n) = []" using 2 by simp
    ultimately show ?thesis by simp
  next
    case 3
    have "identifiers_from h visited (nth_cause h e n) = []"
      using 3 by (cases "nth_cause h e n") auto
    moreover have "?I k \<subseteq> (\<Union>i < n. ?I i)" for k
    proof -
      have "k < n \<or> k = n \<or> n < k" by linarith
      moreover have "?I n = {}" using 3 by (cases "nth_cause h e n") (auto simp: identifiers_at_def)
      moreover have "?I k = {}" if "n < k"
        using not_object_stays [of h e n k] 3 that by (simp add: identifiers_at_def)
      ultimately show ?thesis by auto
    qed
    ultimately show ?thesis by auto
  qed
qed

section \<open>Properties\<close>

text \<open>C7: Admission control. In every reachable state of the controller the operations in flight are
  exactly the leases given out and not yet released, and never more than the limit; calls wait only
  while every slot is taken; and every call is either waiting or settled, once, never both.\<close>
theorem admission_control:
  assumes "admission_step\<^sup>*\<^sup>* (new_controller limit) ad"
  shows "ad_active ad = length (filter (\<lambda>i. i \<notin> set (ad_released ad)) (admitted ad))
    \<and> ad_active ad \<le> limit \<and> (ad_queue ad = [] \<or> ad_active ad = limit)
    \<and> distinct (map qe_id (ad_queue ad) @ map fst (ad_settled ad))"
proof -
  have "ad_maxConcurrent ad = limit"
    using assms
  proof (induction rule: rtranclp_induct)
    case base
    then show ?case by (simp add: new_controller_def)
  next
    case (step ad ad')
    have drain: "ad_maxConcurrent (drain_queue now es ad) = ad_maxConcurrent ad" for now es ad
      by (induction now es ad rule: drain_queue.induct) simp_all
    from step(2,3) show ?case
      by (auto elim!: admission_stepE simp: acquire_def timeout_fires_def abort_fires_def release_def
          drain_def drain removeQueuedEntry_def split: option.splits if_splits)
  qed
  then show ?thesis
    using reachable_ok [OF assms] by (auto simp: admission_ok_def admission_core_def unreleased_def)
qed

theorem admission_control_witness:
  "map fst (ad_settled (release 9 1 (acquire 5 2 False (acquire 3 1 False (new_controller 1))))) = [1, 2]
   \<and> ad_active (release 9 1 (acquire 5 2 False (acquire 3 1 False (new_controller 1)))) \<le> 1"
proof -
  let ?a1 = "acquire 3 1 False (new_controller 1)"
  let ?a2 = "acquire 5 2 False ?a1"
  have s1: "admission_step (new_controller 1) ?a1" by (rule admission_step.call) (simp add: known_def new_controller_def)
  have s2: "admission_step ?a1 ?a2"
    by (rule admission_step.call) (simp add: known_def new_controller_def acquire_def createLease_def settle_call_def)
  have s3: "admission_step ?a2 (release 9 1 ?a2)"
    by (rule admission_step.finished)
       (simp add: new_controller_def acquire_def createLease_def settle_call_def admitted_def)
  have reach: "admission_step\<^sup>*\<^sup>* (new_controller 1) (release 9 1 ?a2)"
    using s1 s2 s3 by (meson converse_rtranclp_into_rtranclp rtranclp.rtrancl_refl)
  have "map fst (ad_settled (release 9 1 ?a2)) = [1, 2]" by code_simp
  then show ?thesis using admission_control [OF reach] by blast
qed

text \<open>The queue is first in, first out: in a reachable state with calls waiting, releasing a lease
  that is out admits exactly the call that has waited longest, the others keep their order, and the
  number of operations in flight stays the same. Releasing a lease twice changes nothing.\<close>
theorem release_admits_longest_waiting:
  assumes "admission_step\<^sup>*\<^sup>* (new_controller limit) ad" "i \<in> set (admitted ad)"
    "ad_queue ad = e # es"
  shows "release now i ad =
    (if i \<in> set (ad_released ad) then ad
     else ad\<lparr>ad_queue := es, ad_released := i # ad_released ad,
        ad_settled := ad_settled ad @
          [(qe_id e, Admitted \<lparr>le_queueWaitMs = now - qe_enqueuedAt e, le_inFlight = ad_active ad\<rparr>)]\<rparr>)"
proof (cases "i \<in> set (ad_released ad)")
  case True
  then show ?thesis by (simp add: release_def)
next
  case False
  have frame: "ad_maxConcurrent (drain_queue t qs a) = ad_maxConcurrent a
      \<and> ad_released (drain_queue t qs a) = ad_released a" for t qs a
    by (induction t qs a rule: drain_queue.induct) simp_all
  show ?thesis
    using release_admits_head [OF reachable_ok [OF assms(1)] assms(2) False assms(3), of now] False frame
    by (intro admission.equality) (simp_all add: release_def drain_def)
qed

theorem release_admits_longest_waiting_witness:
  "\<exists>ad. ad_queue ad = [\<lparr>qe_id = 2, qe_enqueuedAt = 5\<rparr>]
    \<and> ad_queue (release 9 1 ad) = [] \<and> map fst (ad_settled (release 9 1 ad)) = [1, 2]"
proof -
  let ?a1 = "acquire 3 1 False (new_controller 1)"
  let ?a2 = "acquire 5 2 False ?a1"
  have a2: "ad_queue ?a2 = [\<lparr>qe_id = 2, qe_enqueuedAt = 5\<rparr>]" "1 \<in> set (admitted ?a2)"
    "ad_released ?a2 = []" "map fst (ad_settled ?a2) = [1]" by code_simp+
  have s1: "admission_step (new_controller 1) ?a1" by (rule admission_step.call) (simp add: known_def new_controller_def)
  have s2: "admission_step ?a1 ?a2"
    by (rule admission_step.call) (simp add: known_def new_controller_def acquire_def createLease_def settle_call_def)
  have reach: "admission_step\<^sup>*\<^sup>* (new_controller 1) ?a2"
    using s1 s2 by (meson converse_rtranclp_into_rtranclp rtranclp.rtrancl_refl)
  have "ad_queue (release 9 1 ?a2) = [] \<and> map fst (ad_settled (release 9 1 ?a2)) = [1, 2]"
    unfolding release_admits_longest_waiting [OF reach a2(2,1), of 9] using a2(3,4) by simp
  with a2(1) show ?thesis by (intro exI [of _ ?a2] conjI) simp_all
qed

text \<open>C26: \<open>run\<close> always ends, after at most six attempts: every attempt but the last failed with an
  error its options retry, its result is what the last attempt returned or its error (an overload
  wrapped as such), it writes one log record exactly when it fails, and it pauses once between two
  attempts, 100 to 299 ms after an overload and 150, 300, 600 or 1200 ms after a network error.\<close>
theorem run_operation_retries:
  fixes env :: "'a run_env" and opts op startedAt
  assumes "\<And>k. 0 \<le> en_random env k \<and> en_random env k < 1"
  defines "r \<equiv> run_operation env opts op startedAt"
  shows "0 < ru_attempts r \<and> ru_attempts r \<le> 6
    \<and> (\<forall>k. 0 < k \<longrightarrow> k < ru_attempts r \<longrightarrow> retryable (en_heap env) opts (en_attempt env k))
    \<and> (case en_attempt env (ru_attempts r) of
         Action_returned l v \<Rightarrow> ru_result r = Inr v \<and> ru_logs r = []
       | a \<Rightarrow> ru_result r = Inl (finalError (en_heap env) op (the (error_of_attempt a)))
              \<and> length (ru_logs r) = 1)
    \<and> Suc (length (ru_sleeps r)) = ru_attempts r
    \<and> list_all (\<lambda>ms. 100 \<le> ms \<and> ms \<le> 299 \<or> ms \<in> {150, 300, 600, 1200}) (ru_sleeps r)"
proof -
  have ok: "run_ok env opts op 0 [] r"
    unfolding r_def run_operation_def by (rule run_loop_ok)
  have "ru_attempts r + 0 + 0 \<le> 0 + NETWORK_ATTEMPTS + OVERLOAD_ATTEMPTS - 1 \<and> list_all sleep_ok (ru_sleeps r)"
    unfolding r_def run_operation_def
    by (rule run_loop_bounds [OF assms(1)]) (simp_all add: NETWORK_ATTEMPTS_def OVERLOAD_ATTEMPTS_def)
  then have "ru_attempts r \<le> 6" "list_all sleep_ok (ru_sleeps r)"
    by (simp_all add: NETWORK_ATTEMPTS_def OVERLOAD_ATTEMPTS_def)
  then show ?thesis using ok unfolding run_ok_def sleep_ok_def by simp
qed

definition example_env :: "nat run_env" where
  "example_env =
     \<lparr>en_heap = [(0, \<lparr>eo_class = Plain_error, eo_is_error = True, eo_code = Code_number 202, eo_type = None,
                    eo_cause = Ref 0, eo_message = ''busy''\<rparr>)],
      en_attempt = (\<lambda>n. if n = 1 then Action_threw \<lparr>le_queueWaitMs = 0, le_inFlight = 1\<rparr> (Ref 0)
                        else Action_returned \<lparr>le_queueWaitMs = 0, le_inFlight = 1\<rparr> 7),
      en_random = (\<lambda>_. 1/2), en_now = (\<lambda>n. 10 * int n), en_active = (\<lambda>_. 1)\<rparr>"

definition example_options :: operation_options where
  "example_options = \<lparr>op_retryTransient = False, op_retryOverload = None\<rparr>"

theorem run_operation_retries_witness:
  "ru_result (run_operation example_env example_options ''query'' 0) = Inr 7
   \<and> ru_sleeps (run_operation example_env example_options ''query'' 0) = [200]
   \<and> ru_attempts (run_operation example_env example_options ''query'' 0) \<le> 6"
proof -
  have h: "isOverloadError (en_heap example_env) (Ref 0)"
    by (simp add: isOverloadError_def errorIdentifiers_def example_env_def object_identifiers_def
        int_to_string_def nat_digits.simps Let_def) code_simp
  have fail: "error_of_attempt (en_attempt example_env (Suc 0)) = Some (Ref 0)"
    by (simp add: example_env_def error_of_attempt_def)
  have again: "retry_after example_env example_options (Suc 0) 0 0 (Ref 0) = Some (200, 0, 1)"
    using h by (simp add: retry_after_def example_options_def OVERLOAD_ATTEMPTS_def)
       (simp add: example_env_def)
  have second: "en_attempt example_env (Suc (Suc 0)) = Action_returned \<lparr>le_queueWaitMs = 0, le_inFlight = 1\<rparr> 7"
    by (simp add: example_env_def)
  have v: "ru_result (run_operation example_env example_options ''query'' 0) = Inr 7
     \<and> ru_sleeps (run_operation example_env example_options ''query'' 0) = [200]"
    unfolding run_operation_def run_loop_retry [OF fail again]
    by (simp add: run_loop.simps [of example_env] second)
  have "\<And>k. 0 \<le> en_random example_env k \<and> en_random example_env k < 1" by (simp add: example_env_def)
  from run_operation_retries [OF this, of example_options "''query''" 0] v show ?thesis by blast
qed

text \<open>The identifiers of an error are those of all its causes, however deep, and collecting them
  ends even when the chain of causes is a cycle: an identifier is found exactly when some object on
  the chain carries it.\<close>
theorem errorIdentifiers_complete:
  "(k, v) \<in> set (errorIdentifiers h e) \<longleftrightarrow> (\<exists>n. (k, v) \<in> set (identifiers_at h (nth_cause h e n)))"
proof -
  have "set (errorIdentifiers h e) = (\<Union>i. set (identifiers_at h (nth_cause h e i)))"
    using identifiers_from_complete [of "[]" 0 h e]
    by (simp add: errorIdentifiers_def nth_cause_def)
  then show ?thesis by auto
qed

end
