(* ===== verification/Tool_Deployment.thy ===== *)
theory Tool_Deployment
  imports Toard_Prelude "HOL-Library.Word"
begin

unbundle bit_operations_syntax

text \<open>
  \<open>packages/core/src/tool-deployment.ts\<close>: which tools a device should have, the difference in
  permissions between two versions of a tool, the cohort of a device as a 32-bit FNV-1a hash, and
  the evaluation of a rollout; and \<open>apps/web/lib/tool-rollout-coordinator.ts\<close>: the coordinator's
  tick over the table of team policies, whose phases form a state machine.
\<close>

section \<open>Manifests and permissions\<close>

datatype catalog_kind = Kind_skill | Kind_mcp | Kind_plugin

record deployment_permissions =
  perm_env :: "string list"
  perm_networkHosts :: "string list"
  perm_executables :: "string list"

datatype component_type = Type_skill | Type_mcp_stdio | Type_mcp_http

datatype http_auth = Auth_none | Auth_oauth | Auth_manual_secret_header

datatype deployment_payload =
  Skill_payload "string list" string
| Mcp_stdio_payload string "string list" "string list" string
| Mcp_http_payload string http_auth string
| Plugin_payload "(component_type \<times> string) list"

text \<open>The provider of a source is always \<open>github\<close>.\<close>

record deployment_source =
  src_repository :: string
  src_exactRef :: string
  src_path :: string
  src_treeDigest :: string
  src_downloadUrl :: string

record deployment_manifest =
  man_catalogItemId :: string
  man_versionId :: string
  man_slug :: string
  man_source :: deployment_source
  man_permissions :: deployment_permissions
  man_payload :: deployment_payload

record permission_diff =
  df_approvalRequired :: bool
  df_addedEnv :: "string list"
  df_addedHosts :: "string list"
  df_sourceChanged :: bool
  df_commandChanged :: bool
  df_componentsAdded :: "string list"

definition addedValues :: "string list \<Rightarrow> string list \<Rightarrow> string list" where
  "addedValues previous new = js_sort cmp_ord (filter (\<lambda>v. v \<notin> set previous) (js_unique new))"

text \<open>\<open>JSON.stringify([command, args])\<close> is injective; the pair stands for it.\<close>

definition stdioIdentity :: "deployment_payload \<Rightarrow> (string \<times> string list) option" where
  "stdioIdentity p = (case p of Mcp_stdio_payload command args _ _ \<Rightarrow> Some (command, args) | _ \<Rightarrow> None)"

fun component_type_name :: "component_type \<Rightarrow> string" where
  "component_type_name Type_skill = ''skill''"
| "component_type_name Type_mcp_stdio = ''mcp_stdio''"
| "component_type_name Type_mcp_http = ''mcp_http''"

definition componentKeys :: "deployment_payload \<Rightarrow> string list" where
  "componentKeys p = (case p of
      Plugin_payload cs \<Rightarrow> map (\<lambda>(t, k). component_type_name t @ '':'' @ k) cs
    | _ \<Rightarrow> [])"

definition diffToolPermissions :: "deployment_manifest \<Rightarrow> deployment_manifest \<Rightarrow> permission_diff" where
  "diffToolPermissions previous new =
     (let addedEnv = addedValues (perm_env (man_permissions previous)) (perm_env (man_permissions new));
          addedHosts = addedValues (perm_networkHosts (man_permissions previous))
                         (perm_networkHosts (man_permissions new));
          componentsAdded = addedValues (componentKeys (man_payload previous)) (componentKeys (man_payload new));
          sourceChanged = (src_repository (man_source previous) \<noteq> src_repository (man_source new));
          commandChanged = (stdioIdentity (man_payload previous) \<noteq> stdioIdentity (man_payload new))
      in \<lparr>df_approvalRequired = (addedEnv \<noteq> [] \<or> addedHosts \<noteq> [] \<or> componentsAdded \<noteq> []
            \<or> sourceChanged \<or> commandChanged),
          df_addedEnv = addedEnv, df_addedHosts = addedHosts, df_sourceChanged = sourceChanged,
          df_commandChanged = commandChanged, df_componentsAdded = componentsAdded\<rparr>)"

section \<open>Cohorts\<close>

text \<open>\<open>new TextEncoder().encode(s)\<close> for code units below 256.\<close>

definition utf8_char :: "char \<Rightarrow> nat list" where
  "utf8_char c = (let n = code_of c in
     if n < 128 then [n] else [192 + n div 64, 128 + n mod 64])"

definition utf8_bytes :: "string \<Rightarrow> nat list" where
  "utf8_bytes s = concat (map utf8_char s)"

text \<open>The hash is the 32-bit integer \<open>^\<close> and \<open>Math.imul\<close> work on; \<open>hash >>> 0\<close> reads it unsigned.\<close>

definition fnv_step :: "32 word \<Rightarrow> nat \<Rightarrow> 32 word" where
  "fnv_step hash byte = (hash XOR of_nat byte) * 16777619"

definition rolloutCohortPercent :: "string \<Rightarrow> string \<Rightarrow> nat" where
  "rolloutCohortPercent seed fingerprint =
     unat (foldl fnv_step 2166136261 (utf8_bytes (seed @ '':'' @ fingerprint))) mod 100"

section \<open>Desired tools\<close>

datatype preference_mode = Install | Exclude
datatype preference_scope = All_devices | Selected_devices
datatype deployment_origin = Personal | Team

record tool_preference =
  pf_catalogItemId :: string
  pf_mode :: preference_mode
  pf_scope :: preference_scope
  pf_versionId :: "string option"
  pf_deviceFingerprints :: "string list"

record team_policy =
  tp_catalogItemId :: string
  tp_versionId :: string
  tp_rolloutId :: string
  tp_rolloutSeed :: string
  tp_rolloutPercent :: int

record resolve_desired_input =
  in_userId :: string
  in_deviceFingerprint :: string
  in_preferences :: "tool_preference list"
  in_teamPolicies :: "team_policy list"

record desired_tool =
  dt_catalogItemId :: string
  dt_versionId :: string
  dt_origin :: deployment_origin
  dt_rolloutId :: "string option"

definition selectedForDevice :: "tool_preference \<Rightarrow> string \<Rightarrow> bool" where
  "selectedForDevice p fingerprint \<longleftrightarrow> pf_scope p = All_devices \<or> fingerprint \<in> set (pf_deviceFingerprints p)"

definition excluded_items :: "resolve_desired_input \<Rightarrow> string list" where
  "excluded_items i = map pf_catalogItemId (filter (\<lambda>p. pf_mode p = Exclude) (in_preferences i))"

definition personal_map :: "resolve_desired_input \<Rightarrow> (string \<times> tool_preference) list" where
  "personal_map i = js_map_of_list (map (\<lambda>p. (pf_catalogItemId p, p))
     (filter (\<lambda>p. pf_mode p = Install \<and> pf_versionId p \<noteq> None
                \<and> selectedForDevice p (in_deviceFingerprint i)) (in_preferences i)))"

definition policy_map :: "resolve_desired_input \<Rightarrow> (string \<times> team_policy) list" where
  "policy_map i = js_map_of_list (map (\<lambda>p. (tp_catalogItemId p, p)) (in_teamPolicies i))"

text \<open>The body of the \<open>flatMap\<close>; \<open>preference?.versionId\<close> is falsy for the empty string too.\<close>

definition desired_for_item :: "resolve_desired_input \<Rightarrow> string \<Rightarrow> desired_tool list" where
  "desired_for_item i item =
     (if item \<in> set (excluded_items i) then []
      else (case map_option pf_versionId (map_of (personal_map i) item) of
              Some (Some (c # v)) \<Rightarrow>
                [\<lparr>dt_catalogItemId = item, dt_versionId = c # v, dt_origin = Personal, dt_rolloutId = None\<rparr>]
            | _ \<Rightarrow>
                (case map_of (policy_map i) item of
                   None \<Rightarrow> []
                 | Some p \<Rightarrow>
                    if int (rolloutCohortPercent (tp_rolloutSeed p) (in_deviceFingerprint i)) \<ge> tp_rolloutPercent p
                    then []
                    else [\<lparr>dt_catalogItemId = item, dt_versionId = tp_versionId p, dt_origin = Team,
                           dt_rolloutId = Some (tp_rolloutId p)\<rparr>])))"

definition resolveDesiredTools :: "resolve_desired_input \<Rightarrow> desired_tool list" where
  "resolveDesiredTools i =
     concat (map (desired_for_item i)
       (js_sort cmp_ord (js_unique (map fst (personal_map i) @ map fst (policy_map i)))))"

section \<open>Rollouts\<close>

datatype rollout_phase = Preflight | Canary | Expand | Active | Paused | Rollback

record rollout_evaluation =
  ro_phase :: rollout_phase
  ro_eligible :: int
  ro_attempted :: int
  ro_failed :: int
  ro_phaseStartedAt :: instant

datatype rollout_decision = Hold | Advance rollout_phase int | Roll_back

text \<open>
  The comparison with 0.2 is exact for counts of this size, and so is rounding \<open>eligible * 0.1\<close> up.
\<close>

definition ceil_share :: "int \<Rightarrow> int \<Rightarrow> int" where
  "ceil_share n d = - ((- n) div d)"

definition failure_threshold :: "rollout_evaluation \<Rightarrow> bool" where
  "failure_threshold s \<longleftrightarrow>
     ro_failed s \<ge> 2 \<or> (ro_attempted s > 0 \<and> of_int (ro_failed s) / (of_int (ro_attempted s) :: rat) \<ge> 1/5)"

definition evaluateRollout :: "rollout_evaluation \<Rightarrow> instant \<Rightarrow> rollout_decision" where
  "evaluateRollout s now =
     (if failure_threshold s then Roll_back
      else (let elapsedMs = now - ro_phaseStartedAt s;
                canaryTarget = max 1 (ceil_share (ro_eligible s) 10);
                expandTarget = max 1 (ceil_share (ro_eligible s) 2)
            in if ro_phase s = Canary \<and> elapsedMs \<ge> 30 * 60000 \<and> ro_attempted s \<ge> canaryTarget
               then Advance Expand 50
               else if ro_phase s = Expand \<and> elapsedMs \<ge> 60 * 60000 \<and> ro_attempted s \<ge> expandTarget
               then Advance Active 100
               else Hold))"

text \<open>A row of \<open>team_tool_policies\<close>, as far as a rollout reads and writes it.\<close>

record policy_row =
  po_id :: string
  po_enabled :: bool
  po_phase :: rollout_phase
  po_percent :: int
  po_target :: string
  po_lastKnownGood :: "string option"
  po_phaseStartedAt :: instant

text \<open>The counts the joins of \<open>listOpenRollouts\<close> give for a row: eligible, attempted, failed.\<close>

type_synonym rollout_counts = "policy_row \<Rightarrow> int \<times> int \<times> int"

definition listOpenRollouts :: "rollout_counts \<Rightarrow> policy_row list \<Rightarrow> (string \<times> rollout_evaluation) list" where
  "listOpenRollouts counts tbl =
     map (\<lambda>p. (po_id p, case counts p of (e, a, f) \<Rightarrow>
            \<lparr>ro_phase = po_phase p, ro_eligible = e, ro_attempted = a, ro_failed = f,
             ro_phaseStartedAt = po_phaseStartedAt p\<rparr>))
       (filter (\<lambda>p. po_enabled p \<and> po_phase p \<in> {Preflight, Canary, Expand}) tbl)"

definition advance :: "string \<Rightarrow> rollout_phase \<Rightarrow> int \<Rightarrow> instant \<Rightarrow> policy_row list \<Rightarrow> policy_row list" where
  "advance i phase percent now tbl =
     map (\<lambda>p. if po_id p = i \<and> po_phase p \<in> {Preflight, Canary, Expand}
              then p\<lparr>po_phase := phase, po_percent := percent, po_phaseStartedAt := now,
                     po_lastKnownGood := (if phase = Active then Some (po_target p) else po_lastKnownGood p)\<rparr>
              else p) tbl"

definition rollbackToLastKnownGood :: "string \<Rightarrow> instant \<Rightarrow> policy_row list \<Rightarrow> policy_row list" where
  "rollbackToLastKnownGood i now tbl =
     map (\<lambda>p. if po_id p = i \<and> po_phase p \<in> {Canary, Expand}
              then p\<lparr>po_target := (case po_lastKnownGood p of Some v \<Rightarrow> v | None \<Rightarrow> po_target p),
                     po_phase := (if po_lastKnownGood p = None then Paused else Rollback),
                     po_percent := (if po_lastKnownGood p = None then 0 else 100),
                     po_enabled := po_lastKnownGood p \<noteq> None,
                     po_phaseStartedAt := now\<rparr>
              else p) tbl"

definition rollout_action ::
  "instant \<Rightarrow> policy_row list \<Rightarrow> string \<times> rollout_evaluation \<Rightarrow> policy_row list" where
  "rollout_action now tbl r =
     (if ro_phase (snd r) = Preflight then advance (fst r) Canary 10 now tbl
      else (case evaluateRollout (snd r) now of
              Advance phase percent \<Rightarrow> advance (fst r) phase percent now tbl
            | Roll_back \<Rightarrow> rollbackToLastKnownGood (fst r) now tbl
            | Hold \<Rightarrow> tbl))"

text \<open>The tick; \<open>leased\<close> is whether \<open>tryLease\<close> gets the advisory lock.\<close>

definition runToolRolloutCoordinator ::
  "bool \<Rightarrow> rollout_counts \<Rightarrow> instant \<Rightarrow> policy_row list \<Rightarrow> policy_row list" where
  "runToolRolloutCoordinator leased counts now tbl =
     (if \<not> leased then tbl else foldl (rollout_action now) tbl (listOpenRollouts counts tbl))"

section \<open>Facts about desired tools\<close>

lemma desired_for_item_single:
  "t \<in> set (desired_for_item i item) \<Longrightarrow> dt_catalogItemId t = item \<and> desired_for_item i item = [t]"
  by (auto simp: desired_for_item_def split: if_splits option.splits list.splits dest: sym)

lemma map_of_personal_map:
  "map_of (personal_map i) item = Some p \<Longrightarrow>
     p \<in> set (in_preferences i) \<and> pf_catalogItemId p = item \<and> pf_mode p = Install \<and> pf_versionId p \<noteq> None
     \<and> selectedForDevice p (in_deviceFingerprint i)"
  by (auto simp: personal_map_def dest: map_of_SomeD)

lemma map_of_policy_map:
  "map_of (policy_map i) item = Some p \<Longrightarrow> p \<in> set (in_teamPolicies i) \<and> tp_catalogItemId p = item"
  by (auto simp: policy_map_def dest: map_of_SomeD)

lemma set_resolveDesiredTools:
  "t \<in> set (resolveDesiredTools i) \<longleftrightarrow> t \<in> set (desired_for_item i (dt_catalogItemId t))"
proof
  assume "t \<in> set (resolveDesiredTools i)"
  then show "t \<in> set (desired_for_item i (dt_catalogItemId t))"
    by (auto simp: resolveDesiredTools_def dest: desired_for_item_single)
next
  assume t: "t \<in> set (desired_for_item i (dt_catalogItemId t))"
  then have "map_of (personal_map i) (dt_catalogItemId t) \<noteq> None \<or> map_of (policy_map i) (dt_catalogItemId t) \<noteq> None"
    by (auto simp: desired_for_item_def split: if_splits option.splits list.splits dest: sym)
  then have "dt_catalogItemId t \<in> fst ` set (personal_map i) \<union> fst ` set (policy_map i)"
    by (auto simp: map_of_eq_None_iff)
  then have "dt_catalogItemId t \<in> set (js_sort cmp_ord (js_unique (map fst (personal_map i) @ map fst (policy_map i))))"
    by simp
  then show "t \<in> set (resolveDesiredTools i)" using t unfolding resolveDesiredTools_def by (auto simp del: set_js_sort)
qed

lemma concat_single_distinct:
  assumes "distinct items" "\<And>x t. t \<in> set (f x) \<Longrightarrow> g t = x \<and> f x = [t]"
  shows "distinct (map g (concat (map f items)))"
  using assms(1)
proof (induction items)
  case (Cons x items)
  have "f x = [] \<or> (\<exists>t. f x = [t] \<and> g t = x)" using assms(2) [of _ x] by (cases "f x") auto
  moreover have "x \<notin> g ` set (concat (map f items))" using Cons.prems assms(2) by fastforce
  ultimately show ?case using Cons by auto
qed simp

section \<open>Facts about rollouts\<close>

text \<open>The edges of the state machine of a policy, with their guards.\<close>

inductive rollout_edge :: "rollout_counts \<Rightarrow> instant \<Rightarrow> policy_row \<Rightarrow> policy_row \<Rightarrow> bool"
  for counts now where
  start_canary:
    "po_phase p = Preflight \<Longrightarrow> rollout_edge counts now p
       (p\<lparr>po_phase := Canary, po_percent := 10, po_phaseStartedAt := now\<rparr>)"
| widen:
    "po_phase p = Canary \<Longrightarrow> counts p = (e, a, f) \<Longrightarrow> f < 2 \<Longrightarrow> 5 * f < a \<Longrightarrow> e \<le> 10 * a \<Longrightarrow>
     30 * 60000 \<le> now - po_phaseStartedAt p \<Longrightarrow> rollout_edge counts now p
       (p\<lparr>po_phase := Expand, po_percent := 50, po_phaseStartedAt := now\<rparr>)"
| activate:
    "po_phase p = Expand \<Longrightarrow> counts p = (e, a, f) \<Longrightarrow> f < 2 \<Longrightarrow> 5 * f < a \<Longrightarrow> e \<le> 2 * a \<Longrightarrow>
     60 * 60000 \<le> now - po_phaseStartedAt p \<Longrightarrow> rollout_edge counts now p
       (p\<lparr>po_phase := Active, po_percent := 100, po_phaseStartedAt := now, po_lastKnownGood := Some (po_target p)\<rparr>)"
| roll_back:
    "po_phase p \<in> {Canary, Expand} \<Longrightarrow> counts p = (e, a, f) \<Longrightarrow> 2 \<le> f \<or> (0 < a \<and> a \<le> 5 * f) \<Longrightarrow>
     po_lastKnownGood p = Some v \<Longrightarrow> rollout_edge counts now p
       (p\<lparr>po_target := v, po_phase := Rollback, po_percent := 100, po_enabled := True,
          po_phaseStartedAt := now\<rparr>)"
| pause:
    "po_phase p \<in> {Canary, Expand} \<Longrightarrow> counts p = (e, a, f) \<Longrightarrow> 2 \<le> f \<or> (0 < a \<and> a \<le> 5 * f) \<Longrightarrow>
     po_lastKnownGood p = None \<Longrightarrow> rollout_edge counts now p
       (p\<lparr>po_enabled := False, po_phase := Paused, po_percent := 0, po_phaseStartedAt := now\<rparr>)"

inductive_cases rollout_edgeE: "rollout_edge counts now p q"

lemma le_div_iff: "0 < (d :: int) \<Longrightarrow> a \<le> n div d \<longleftrightarrow> a * d \<le> n"
proof
  assume d: "0 < d" and "a \<le> n div d"
  then have "a * d \<le> (n div d) * d" by (simp add: mult_right_mono)
  also have "\<dots> \<le> n" using d by (metis minus_mod_eq_div_mult diff_le_eq le_add_same_cancel1 pos_mod_sign)
  finally show "a * d \<le> n" .
next
  assume "0 < d" and "a * d \<le> n"
  then have "(a * d) div d \<le> n div d" using zdiv_mono1 by blast
  moreover have "(a * d) div d = a" using \<open>0 < d\<close> by simp
  ultimately show "a \<le> n div d" by simp
qed

lemma ceil_share_le: "0 < d \<Longrightarrow> ceil_share n d \<le> a \<longleftrightarrow> n \<le> d * a"
  using le_div_iff [of d "- a" "- n"] by (auto simp: ceil_share_def mult.commute)

lemma failure_threshold_iff:
  "failure_threshold s \<longleftrightarrow> 2 \<le> ro_failed s \<or> (0 < ro_attempted s \<and> ro_attempted s \<le> 5 * ro_failed s)"
proof -
  have "of_int (ro_failed s) / (of_int (ro_attempted s) :: rat) \<ge> 1/5 \<longleftrightarrow> ro_attempted s \<le> 5 * ro_failed s"
    if "0 < ro_attempted s"
  proof -
    have "of_int (ro_failed s) / (of_int (ro_attempted s) :: rat) \<ge> 1/5 \<longleftrightarrow>
        (of_int (ro_attempted s) :: rat) \<le> 5 * of_int (ro_failed s)"
      using that by (simp add: field_simps)
    also have "\<dots> \<longleftrightarrow> (of_int (ro_attempted s) :: rat) \<le> of_int (5 * ro_failed s)" by simp
    finally show ?thesis by (simp only: of_int_le_iff)
  qed
  then show ?thesis by (auto simp: failure_threshold_def)
qed

text \<open>What the coordinator does to the row it evaluated.\<close>

definition act :: "instant \<Rightarrow> rollout_evaluation \<Rightarrow> policy_row \<Rightarrow> policy_row" where
  "act now ev p = hd (rollout_action now [p] (po_id p, ev))"

lemma rollout_action_map:
  "rollout_action now tbl (i, ev) = map (\<lambda>p. if po_id p = i then act now ev p else p) tbl"
proof (cases "ro_phase ev = Preflight")
  case True
  then show ?thesis by (simp add: rollout_action_def act_def advance_def)
next
  case False
  then show ?thesis
    by (cases "evaluateRollout ev now")
       (auto simp: rollout_action_def act_def advance_def rollbackToLastKnownGood_def map_idI
          intro!: map_cong)
qed

lemma po_id_act [simp]: "po_id (act now ev p) = po_id p"
  by (simp add: act_def rollout_action_def advance_def rollbackToLastKnownGood_def
      split: rollout_decision.splits)

lemma tick_map:
  "distinct (map fst rs) \<Longrightarrow> foldl (rollout_action now) tbl rs
     = map (\<lambda>p. case map_of rs (po_id p) of None \<Rightarrow> p | Some ev \<Rightarrow> act now ev p) tbl"
proof (induction rs arbitrary: tbl)
  case Nil
  then show ?case by simp
next
  case (Cons r rs)
  obtain i ev where r: "r = (i, ev)" by (cases r)
  have "map_of rs i = None" using Cons.prems by (simp add: r map_of_eq_None_iff)
  then show ?case using Cons by (auto simp: r rollout_action_map)
qed

definition evaluation_of :: "rollout_counts \<Rightarrow> policy_row \<Rightarrow> rollout_evaluation" where
  "evaluation_of counts p = (case counts p of (e, a, f) \<Rightarrow>
     \<lparr>ro_phase = po_phase p, ro_eligible = e, ro_attempted = a, ro_failed = f,
      ro_phaseStartedAt = po_phaseStartedAt p\<rparr>)"

lemma ro_phase_evaluation [simp]: "ro_phase (evaluation_of counts p) = po_phase p"
  by (simp add: evaluation_of_def split: prod.splits)

lemma map_of_open_rollouts:
  assumes "distinct (map po_id tbl)" "p \<in> set tbl"
  shows "map_of (listOpenRollouts counts tbl) (po_id p) =
    (if po_enabled p \<and> po_phase p \<in> {Preflight, Canary, Expand} then Some (evaluation_of counts p) else None)"
  using assms
proof (induction tbl)
  case (Cons q tbl)
  have out: "map_of (listOpenRollouts counts tbl) (po_id q) = None"
    using Cons.prems(1) by (force simp: map_of_eq_None_iff listOpenRollouts_def)
  have cons: "listOpenRollouts counts (q # tbl) =
      (if po_enabled q \<and> po_phase q \<in> {Preflight, Canary, Expand} then [(po_id q, evaluation_of counts q)] else [])
      @ listOpenRollouts counts tbl"
    by (simp add: listOpenRollouts_def evaluation_of_def split: prod.splits)
  show ?case
  proof (cases "p = q")
    case True
    then show ?thesis using out unfolding cons by auto
  next
    case False
    then have "p \<in> set tbl" using Cons.prems by simp
    moreover from this have "po_id p \<noteq> po_id q" using Cons.prems(1) by (metis distinct.simps(2) image_eqI list.map(2) list.set_map)
    ultimately have "p \<in> set tbl" "po_id p \<noteq> po_id q" by simp_all
    then show ?thesis using Cons unfolding cons by auto
  qed
qed simp

lemma act_edge:
  assumes "po_phase p \<in> {Preflight, Canary, Expand}"
  shows "act now (evaluation_of counts p) p = p \<or> rollout_edge counts now p (act now (evaluation_of counts p) p)"
proof -
  obtain e a f where c: "counts p = (e, a, f)" by (cases "counts p")
  show ?thesis
  proof (cases "po_phase p = Preflight")
    case True
    then have "act now (evaluation_of counts p) p = p\<lparr>po_phase := Canary, po_percent := 10, po_phaseStartedAt := now\<rparr>"
      by (simp add: act_def rollout_action_def evaluation_of_def c advance_def)
    then show ?thesis using True by (auto intro: rollout_edge.start_canary)
  next
    case False
    then have ph: "po_phase p \<in> {Canary, Expand}" using assms by auto
    show ?thesis
    proof (cases "2 \<le> f \<or> (0 < a \<and> a \<le> 5 * f)")
      case True
      then have "failure_threshold (evaluation_of counts p)"
        by (simp add: failure_threshold_iff evaluation_of_def c)
      then have r: "act now (evaluation_of counts p) p = hd (rollbackToLastKnownGood (po_id p) now [p])"
        using False by (simp add: act_def rollout_action_def evaluateRollout_def evaluation_of_def c)
      show ?thesis
      proof (cases "po_lastKnownGood p")
        case None
        then have "act now (evaluation_of counts p) p
            = p\<lparr>po_enabled := False, po_phase := Paused, po_percent := 0, po_phaseStartedAt := now\<rparr>"
          using ph unfolding r by (auto simp: rollbackToLastKnownGood_def)
        then show ?thesis using rollout_edge.pause [where p = p and counts = counts, OF ph c True None, of now] by simp
      next
        case (Some v)
        have "act now (evaluation_of counts p) p
            = p\<lparr>po_target := v, po_phase := Rollback, po_percent := 100, po_enabled := True, po_phaseStartedAt := now\<rparr>"
          using ph Some unfolding r by (auto simp: rollbackToLastKnownGood_def)
        then show ?thesis using rollout_edge.roll_back [where p = p and counts = counts, OF ph c True Some, of now] by simp
      qed
    next
      case ok: False
      then have "\<not> failure_threshold (evaluation_of counts p)"
        by (simp add: failure_threshold_iff evaluation_of_def c)
      then have d: "evaluateRollout (evaluation_of counts p) now =
          (if po_phase p = Canary \<and> now - po_phaseStartedAt p \<ge> 30 * 60000 \<and> 1 \<le> a \<and> e \<le> 10 * a
           then Advance Expand 50
           else if po_phase p = Expand \<and> now - po_phaseStartedAt p \<ge> 60 * 60000 \<and> 1 \<le> a \<and> e \<le> 2 * a
           then Advance Active 100 else Hold)"
        by (simp add: evaluateRollout_def evaluation_of_def c ceil_share_le Let_def)
      have f: "1 \<le> a \<Longrightarrow> f < 2 \<and> 5 * f < a" using ok by linarith
      consider (expand) "po_phase p = Canary" "now - po_phaseStartedAt p \<ge> 30 * 60000" "1 \<le> a" "e \<le> 10 * a"
        | (active) "po_phase p = Expand" "now - po_phaseStartedAt p \<ge> 60 * 60000" "1 \<le> a" "e \<le> 2 * a"
        | (hold) "\<not> (po_phase p = Canary \<and> now - po_phaseStartedAt p \<ge> 30 * 60000 \<and> 1 \<le> a \<and> e \<le> 10 * a)"
            "\<not> (po_phase p = Expand \<and> now - po_phaseStartedAt p \<ge> 60 * 60000 \<and> 1 \<le> a \<and> e \<le> 2 * a)"
        by blast
      then show ?thesis
      proof cases
        case expand
        then have "act now (evaluation_of counts p) p
            = p\<lparr>po_phase := Expand, po_percent := 50, po_phaseStartedAt := now\<rparr>"
          by (simp add: act_def rollout_action_def d advance_def)
        then show ?thesis
          using rollout_edge.widen [where p = p and counts = counts, OF expand(1) c _ _ expand(4,2)] f expand(3)
          by simp
      next
        case active
        then have "act now (evaluation_of counts p) p = p\<lparr>po_phase := Active, po_percent := 100,
            po_phaseStartedAt := now, po_lastKnownGood := Some (po_target p)\<rparr>"
          by (simp add: act_def rollout_action_def d advance_def)
        then show ?thesis
          using rollout_edge.activate [where p = p and counts = counts, OF active(1) c _ _ active(4,2)] f active(3)
          by simp
      next
        case hold
        then have "evaluateRollout (evaluation_of counts p) now = Hold" unfolding d by auto
        then show ?thesis using ph by (auto simp: act_def rollout_action_def)
      qed
    qed
  qed
qed

section \<open>Properties\<close>

text \<open>C24: A tick of the rollout coordinator moves every policy along an edge of the rollout state
  machine or leaves it alone. In particular a policy only widens after 30 minutes of canary and only
  activates after 60 minutes of expansion, with enough devices attempted, fewer than two failures and
  fewer than 20 percent failing; activation records the target as last known good; and a failing
  rollout goes back to the last known good version, or is paused when there is none.\<close>
theorem coordinator_tick_follows_edges:
  assumes "distinct (map po_id tbl)"
  shows "list_all2 (\<lambda>p q. q = p \<or> (leased \<and> po_enabled p \<and> rollout_edge counts now p q))
    tbl (runToolRolloutCoordinator leased counts now tbl)"
proof (cases leased)
  case True
  have d: "distinct (map fst (listOpenRollouts counts tbl))"
    using assms by (simp add: listOpenRollouts_def distinct_map_filter comp_def)
  have row: "q = p \<or> (po_enabled p \<and> rollout_edge counts now p q)"
    if p: "p \<in> set tbl" and q: "q = (case map_of (listOpenRollouts counts tbl) (po_id p) of
        None \<Rightarrow> p | Some ev \<Rightarrow> act now ev p)" for p q
    using q act_edge [of p now counts] unfolding map_of_open_rollouts [OF assms p] by (auto split: if_splits)
  show ?thesis
    using True row by (auto simp: runToolRolloutCoordinator_def tick_map [OF d] list_all2_conv_all_nth)
next
  case False
  then show ?thesis by (simp add: runToolRolloutCoordinator_def list_all2_refl)
qed

definition example_policy :: policy_row where
  "example_policy = \<lparr>po_id = ''p'', po_enabled = True, po_phase = Canary, po_percent = 10,
     po_target = ''v2'', po_lastKnownGood = Some ''v1'', po_phaseStartedAt = 0\<rparr>"

theorem coordinator_tick_follows_edges_witness:
  "runToolRolloutCoordinator True (\<lambda>_. (30, 4, 1)) 1800000 [example_policy]
     = [example_policy\<lparr>po_target := ''v1'', po_phase := Rollback, po_percent := 100, po_phaseStartedAt := 1800000\<rparr>]
   \<and> rollout_edge (\<lambda>_. (30, 4, 1)) 1800000 example_policy
       (example_policy\<lparr>po_target := ''v1'', po_phase := Rollback, po_percent := 100, po_phaseStartedAt := 1800000\<rparr>)"
proof -
  let ?q = "example_policy\<lparr>po_target := ''v1'', po_phase := Rollback, po_percent := 100, po_phaseStartedAt := 1800000\<rparr>"
  have r: "runToolRolloutCoordinator True (\<lambda>_. (30, 4, 1)) 1800000 [example_policy] = [?q]"
    by (simp add: runToolRolloutCoordinator_def listOpenRollouts_def rollout_action_def evaluateRollout_def
        failure_threshold_def rollbackToLastKnownGood_def example_policy_def)
  have d: "distinct (map po_id [example_policy])" by simp
  have ne: "?q \<noteq> example_policy" by (simp add: example_policy_def)
  show ?thesis
    using coordinator_tick_follows_edges [OF d, of True "\<lambda>_. (30, 4, 1)" 1800000] r ne by simp
qed

text \<open>The desired tools of a device, completely: a tool is desired exactly when its item is not
  excluded by the user and either the user installed it for this device, with the version chosen
  last, or no such choice exists and the team's last policy for the item covers the device's cohort.
  The list names each item at most once, in sorted order.\<close>
theorem resolveDesiredTools_correct:
  "(t \<in> set (resolveDesiredTools i) \<longleftrightarrow>
     dt_catalogItemId t \<notin> set (excluded_items i) \<and>
     (case map_option pf_versionId (map_of (personal_map i) (dt_catalogItemId t)) of
        Some (Some (c # v)) \<Rightarrow> dt_versionId t = c # v \<and> dt_origin t = Personal \<and> dt_rolloutId t = None
      | _ \<Rightarrow> (\<exists>p. map_of (policy_map i) (dt_catalogItemId t) = Some p \<and>
          int (rolloutCohortPercent (tp_rolloutSeed p) (in_deviceFingerprint i)) < tp_rolloutPercent p \<and>
          dt_versionId t = tp_versionId p \<and> dt_origin t = Team \<and> dt_rolloutId t = Some (tp_rolloutId p))))
   \<and> distinct (map dt_catalogItemId (resolveDesiredTools i))
   \<and> sorted (map dt_catalogItemId (resolveDesiredTools i))"
proof (intro conjI)
  show "t \<in> set (resolveDesiredTools i) \<longleftrightarrow>
     dt_catalogItemId t \<notin> set (excluded_items i) \<and>
     (case map_option pf_versionId (map_of (personal_map i) (dt_catalogItemId t)) of
        Some (Some (c # v)) \<Rightarrow> dt_versionId t = c # v \<and> dt_origin t = Personal \<and> dt_rolloutId t = None
      | _ \<Rightarrow> (\<exists>p. map_of (policy_map i) (dt_catalogItemId t) = Some p \<and>
          int (rolloutCohortPercent (tp_rolloutSeed p) (in_deviceFingerprint i)) < tp_rolloutPercent p \<and>
          dt_versionId t = tp_versionId p \<and> dt_origin t = Team \<and> dt_rolloutId t = Some (tp_rolloutId p)))"
    unfolding set_resolveDesiredTools
    by (cases t) (auto simp: desired_for_item_def split: option.splits list.splits)
  let ?items = "js_sort cmp_ord (js_unique (map fst (personal_map i) @ map fst (policy_map i)))"
  have d: "distinct ?items" by simp
  show "distinct (map dt_catalogItemId (resolveDesiredTools i))"
    unfolding resolveDesiredTools_def by (rule concat_single_distinct [OF d]) (rule desired_for_item_single)
  have "sorted (map dt_catalogItemId (concat (map (desired_for_item i) items)))" if "sorted items" for items
    using that
  proof (induction items)
    case (Cons x items)
    have "desired_for_item i x = [] \<or> (\<exists>t. desired_for_item i x = [t] \<and> dt_catalogItemId t = x)"
      using desired_for_item_single [of _ i x] by (cases "desired_for_item i x") auto
    then show ?case using Cons by (fastforce dest: desired_for_item_single)
  qed simp
  then show "sorted (map dt_catalogItemId (resolveDesiredTools i))"
    unfolding resolveDesiredTools_def using sorted_js_sort_ord by blast
qed

text \<open>A new version is deployed without approval exactly when it adds no environment variable, no
  network host and no component, and keeps the repository and the command. The executables a version
  declares play no part in the decision.\<close>
theorem approval_required_iff:
  "\<not> df_approvalRequired (diffToolPermissions previous
      (new\<lparr>man_permissions := (man_permissions new)\<lparr>perm_executables := anything\<rparr>\<rparr>)) \<longleftrightarrow>
    set (perm_env (man_permissions new)) \<subseteq> set (perm_env (man_permissions previous)) \<and>
    set (perm_networkHosts (man_permissions new)) \<subseteq> set (perm_networkHosts (man_permissions previous)) \<and>
    set (componentKeys (man_payload new)) \<subseteq> set (componentKeys (man_payload previous)) \<and>
    src_repository (man_source new) = src_repository (man_source previous) \<and>
    stdioIdentity (man_payload new) = stdioIdentity (man_payload previous)"
proof -
  have "addedValues xs ys = [] \<longleftrightarrow> set ys \<subseteq> set xs" for xs ys
    by (auto simp: addedValues_def filter_empty_conv)
  then show ?thesis by (auto simp: diffToolPermissions_def Let_def)
qed

end
