(* ===== verification/Versions.thy ===== *)
theory Versions
  imports Toard_Prelude
begin

text \<open>
  \<open>packages/core/src/version.ts\<close>: the version contract between the shim and the server. The order of
  releases is not that of semantic versions, since public versions restarted at 0.0.1.
\<close>

section \<open>Versions\<close>

definition PUBLIC_VERSION_BASELINE :: string where "PUBLIC_VERSION_BASELINE = ''0.0.1''"

text \<open>\<open>/^\d+\.\d+\.\d+$/\<close>\<close>

definition isSemver :: "string \<Rightarrow> bool" where
  "isSemver v \<longleftrightarrow> length (split_on CHR ''.'' v) = 3 \<and> list_all digits1 (split_on CHR ''.'' v)"

definition shim_ua_prefix :: string where "shim_ua_prefix = ''toard-shim/''"

definition parseShimUserAgent :: "string option \<Rightarrow> string option" where
  "parseShimUserAgent ua =
     (case ua of
        None \<Rightarrow> None
      | Some u \<Rightarrow>
         if u = [] then None
         else (let t = js_trim u; v = drop (length shim_ua_prefix) t
               in if starts_with t shim_ua_prefix \<and> isSemver v then Some v else None))"

definition normalizeVersion :: "string \<Rightarrow> string" where
  "normalizeVersion v =
     (let stripped = (if starts_with v ''v'' then drop 1 v else v)
      in if isSemver stripped then stripped else v)"

text \<open>\<open>v.split(".").map(Number)\<close>, for versions made of digits.\<close>

definition version_parts :: "string \<Rightarrow> int list" where
  "version_parts v = map digits_value (split_on CHR ''.'' v)"

fun compare_parts :: "int list \<Rightarrow> int list \<Rightarrow> int" where
  "compare_parts (a # as) (b # bs) = (if a \<noteq> b then a - b else compare_parts as bs)"
| "compare_parts _ _ = 0"

definition compareSemver :: "string \<Rightarrow> string \<Rightarrow> int" where
  "compareSemver a b = compare_parts (take 3 (version_parts a)) (take 3 (version_parts b))"

definition version_epoch :: "string \<Rightarrow> int" where
  "version_epoch v =
     (if version_parts v ! 0 \<ge> 1 then 2 else if version_parts v ! 1 = 0 then 1 else 0)"

definition compareToardVersions :: "string \<Rightarrow> string \<Rightarrow> int" where
  "compareToardVersions a b =
     (if a = ''0.0.0'' \<or> b = ''0.0.0'' then compareSemver a b
      else (let epochDifference = version_epoch a - version_epoch b
            in if epochDifference = 0 then compareSemver a b else epochDifference))"

definition isPublicReleaseVersion :: "string \<Rightarrow> bool" where
  "isPublicReleaseVersion v \<longleftrightarrow>
     isSemver v \<and> v \<noteq> ''0.0.0'' \<and> (version_parts v ! 0 \<ge> 1 \<or> version_parts v ! 1 = 0)"

definition isShimOutdated :: "string \<Rightarrow> string \<Rightarrow> bool" where
  "isShimOutdated shimVersion serverVersion =
     (if \<not> isSemver shimVersion \<or> \<not> isSemver serverVersion then False
      else if shimVersion = ''0.0.0'' \<or> serverVersion = ''0.0.0'' then False
      else compareToardVersions shimVersion serverVersion < 0)"

definition formatVersion :: "string \<Rightarrow> string" where
  "formatVersion v =
     (if v = ''0.0.0'' then ''dev'' else if \<not> isSemver v then v
      else if isPublicReleaseVersion v then v else CHR ''v'' # v)"

section \<open>Facts about the order\<close>

definition triple :: "string \<Rightarrow> int \<times> int \<times> int" where
  "triple v = (version_parts v ! 0, version_parts v ! 1, version_parts v ! 2)"

lemma semver_parts:
  assumes "isSemver v"
  obtains a b c where "version_parts v = [a, b, c]" "triple v = (a, b, c)" "0 \<le> a" "0 \<le> b" "0 \<le> c"
proof -
  have "length (split_on CHR ''.'' v) = 3" "\<forall>p \<in> set (split_on CHR ''.'' v). digits1 p"
    using assms by (auto simp: isSemver_def list_all_iff)
  then obtain x y z where "split_on CHR ''.'' v = [x, y, z]" "digits1 x" "digits1 y" "digits1 z"
    by (auto simp: numeral_3_eq_3 length_Suc_conv)
  then show ?thesis using that [of "digits_value x" "digits_value y" "digits_value z"]
    by (simp add: version_parts_def triple_def digits_value_nonneg)
qed

text \<open>The key that orders the releases: legacy, public 0.0.x, then 1.x and later.\<close>

definition release_key :: "int \<times> int \<times> int \<Rightarrow> int \<times> int \<times> int \<times> int" where
  "release_key t = (case t of (a, b, c) \<Rightarrow> (if a \<ge> 1 then 2 else if b = 0 then 1 else 0, a, b, c))"

definition key_less :: "int \<times> int \<times> int \<times> int \<Rightarrow> int \<times> int \<times> int \<times> int \<Rightarrow> bool" where
  "key_less x y \<longleftrightarrow> (case x of (e, a, b, c) \<Rightarrow> case y of (e', a', b', c') \<Rightarrow>
     e < e' \<or> e = e' \<and> (a < a' \<or> a = a' \<and> (b < b' \<or> b = b' \<and> c < c')))"

lemma compareToardVersions_key:
  assumes a: "isSemver a" "a \<noteq> ''0.0.0''" and b: "isSemver b" "b \<noteq> ''0.0.0''"
  shows "compareToardVersions a b < 0 \<longleftrightarrow> key_less (release_key (triple a)) (release_key (triple b))"
    and "compareToardVersions a b = 0 \<longleftrightarrow> triple a = triple b"
proof -
  obtain x y z where x: "version_parts a = [x, y, z]" "triple a = (x, y, z)" by (rule semver_parts [OF a(1)])
  obtain x' y' z' where x': "version_parts b = [x', y', z']" "triple b = (x', y', z')"
    by (rule semver_parts [OF b(1)])
  note defs = compareToardVersions_def version_epoch_def compareSemver_def key_less_def release_key_def
    Let_def x x'
  show "compareToardVersions a b < 0 \<longleftrightarrow> key_less (release_key (triple a)) (release_key (triple b))"
    using a(2) b(2) by (auto simp: defs)
  show "compareToardVersions a b = 0 \<longleftrightarrow> triple a = triple b"
    using a(2) b(2) by (auto simp: defs)
qed

section \<open>Properties\<close>

text \<open>On release versions (three numbers, not the development build 0.0.0) the comparison is a strict
  total order of the numbers, with every legacy release before every public 0.0.x release before every
  release from 1.0.0 on: it is transitive, exactly one of earlier, same and later holds, and a shim is
  outdated exactly when it is earlier than the server.\<close>
theorem compareToardVersions_order:
  assumes "isSemver a" "a \<noteq> ''0.0.0''" "isSemver b" "b \<noteq> ''0.0.0''" "isSemver c" "c \<noteq> ''0.0.0''"
  shows "(isShimOutdated a b \<longleftrightarrow> key_less (release_key (triple a)) (release_key (triple b)))
    \<and> (isShimOutdated a b \<longrightarrow> isShimOutdated b c \<longrightarrow> isShimOutdated a c)
    \<and> (isShimOutdated a b \<or> triple a = triple b \<or> isShimOutdated b a)
    \<and> \<not> (isShimOutdated a b \<and> (isShimOutdated b a \<or> triple a = triple b))"
proof -
  have out: "isShimOutdated x y \<longleftrightarrow> key_less (release_key (triple x)) (release_key (triple y))"
    if "isSemver x" "x \<noteq> ''0.0.0''" "isSemver y" "y \<noteq> ''0.0.0''" for x y
    using that compareToardVersions_key(1) [OF that] by (simp add: isShimOutdated_def)
  have trans: "key_less k l \<Longrightarrow> key_less l m \<Longrightarrow> key_less k m" for k l m
    by (cases k; cases l; cases m) (auto simp: key_less_def)
  have total: "key_less (release_key t) (release_key u) \<or> t = u \<or> key_less (release_key u) (release_key t)" for t u
    by (cases t; cases u) (auto simp: key_less_def release_key_def)
  have irrefl: "\<not> (key_less k l \<and> (key_less l k \<or> k = l))" for k l
    by (cases k; cases l) (auto simp: key_less_def)
  let ?k = "\<lambda>v. release_key (triple v)"
  have ab: "isShimOutdated a b \<longleftrightarrow> key_less (?k a) (?k b)" by (rule out [OF assms(1-4)])
  have ba: "isShimOutdated b a \<longleftrightarrow> key_less (?k b) (?k a)" by (rule out [OF assms(3,4,1,2)])
  have bc: "isShimOutdated b c \<longleftrightarrow> key_less (?k b) (?k c)" by (rule out [OF assms(3-6)])
  have ac: "isShimOutdated a c \<longleftrightarrow> key_less (?k a) (?k c)" by (rule out [OF assms(1,2,5,6)])
  show ?thesis
    unfolding ab ba bc ac
    using trans [of "?k a" "?k b" "?k c"] total [of "triple a" "triple b"] irrefl [of "?k a" "?k b"] by auto
qed

theorem compareToardVersions_order_witness:
  "isShimOutdated ''0.9.12'' ''0.0.1'' \<and> isShimOutdated ''0.0.1'' ''1.0.0'' \<and> isShimOutdated ''0.9.12'' ''1.0.0''"
proof -
  have v: "isSemver ''0.9.12''" "isSemver ''0.0.1''" "isSemver ''1.0.0''" by code_simp+
  have "isShimOutdated ''0.9.12'' ''0.0.1''" "isShimOutdated ''0.0.1'' ''1.0.0''" by code_simp+
  then show ?thesis
    using compareToardVersions_order [OF v(1) _ v(2) _ v(3)] by simp
qed

text \<open>A shim announces its version and the server reads it back: the user agent built from a version
  parses to that version, with any white space around it, and nothing else parses.\<close>
theorem parseShimUserAgent_roundtrip:
  "parseShimUserAgent (Some u) = Some v \<longleftrightarrow> isSemver v \<and> js_trim u = ''toard-shim/'' @ v"
proof -
  have "js_trim [] = []" by (simp add: js_trim_def)
  then show ?thesis
    by (auto simp: parseShimUserAgent_def Let_def starts_with_def prefix_def shim_ua_prefix_def)
qed

end
