(* ===== verification/Local_Dates.thy ===== *)
theory Local_Dates
  imports Js_Value
begin

text \<open>
  \<open>packages/core/src/timezone.ts\<close>: canonical zone names, local dates, calendar arithmetic and the
  search for the first instant of a local date; and \<open>packages/core/src/timeseries.ts\<close>: the filling of
  gaps in a series of time buckets. The time zone database of the host (\<open>Intl\<close>) is a parameter, the
  record \<open>intl\<close>.
\<close>

section \<open>Time zones\<close>

text \<open>
  \<open>tz_resolve\<close> is the zone \<open>resolvedOptions().timeZone\<close> gives, \<open>None\<close> where the constructor throws;
  \<open>tz_date\<close> and \<open>tz_parts\<close> are the formatted date and the parts hour and minute of an instant.
\<close>

record intl =
  tz_resolve :: "string \<Rightarrow> string option"
  tz_date :: "string \<Rightarrow> instant \<Rightarrow> string"
  tz_parts :: "string \<Rightarrow> instant \<Rightarrow> string \<times> int"

definition zone_char :: "char \<Rightarrow> bool" where
  "zone_char c \<longleftrightarrow> is_lower c \<or> is_upper c \<or> is_digit c \<or> c = CHR ''_'' \<or> c = CHR ''+'' \<or> c = CHR ''-''"

text \<open>\<open>/^[A-Za-z0-9_+-]+(?:\/[A-Za-z0-9_+-]+)+$/\<close>\<close>

definition iana_shape :: "string \<Rightarrow> bool" where
  "iana_shape s \<longleftrightarrow> (let parts = split_on CHR ''/'' s in
     2 \<le> length parts \<and> list_all (\<lambda>p. p \<noteq> [] \<and> list_all zone_char p) parts)"

definition canonicalTimezoneId :: "intl \<Rightarrow> string \<Rightarrow> string option" where
  "canonicalTimezoneId db input =
     (let timezone = js_trim input in
      if timezone = ''UTC'' \<or> iana_shape timezone then tz_resolve db timezone else None)"

definition localDateKey :: "intl \<Rightarrow> instant option \<Rightarrow> string \<Rightarrow> string + string" where
  "localDateKey db t timezoneInput =
     (case (canonicalTimezoneId db timezoneInput, t) of
        (Some (c # tz), Some u) \<Rightarrow> Inr (tz_date db (c # tz) u)
      | _ \<Rightarrow> Inl ''invalid timezone or instant'')"

section \<open>Calendar days\<close>

text \<open>\<open>/^(\d{4})-(\d{2})-(\d{2})$/\<close>\<close>

definition match_ymd :: "string \<Rightarrow> (int \<times> int \<times> int) option" where
  "match_ymd s =
     (if length s = 10 \<and> s ! 4 = CHR ''-'' \<and> s ! 7 = CHR ''-''
         \<and> list_all is_digit (take 4 s) \<and> list_all is_digit (take 2 (drop 5 s))
         \<and> list_all is_digit (drop 8 s)
      then Some (digits_value (take 4 s), digits_value (take 2 (drop 5 s)), digits_value (drop 8 s))
      else None)"

text \<open>
  \<open>Date.UTC(year, month - 1, day)\<close>: months and days outside their range carry over, and a year from
  0 to 99 means 1900 to 1999.
\<close>

definition date_utc :: "int \<Rightarrow> int \<Rightarrow> int \<Rightarrow> instant" where
  "date_utc year month day =
     (let y = (if 0 \<le> year \<and> year \<le> 99 then 1900 + year else year);
          y' = y + (month - 1) div 12;
          m' = (month - 1) mod 12 + 1
      in (days_from_civil y' m' 1 + day - 1) * MS_PER_DAY)"

record local_date =
  ld_year :: int
  ld_month :: int
  ld_day :: int
  ld_midnightUtc :: instant

definition parseLocalDate :: "string \<Rightarrow> string + local_date" where
  "parseLocalDate date =
     (case match_ymd date of
        None \<Rightarrow> Inl ''not a YYYY-MM-DD local date''
      | Some (year, month, day) \<Rightarrow>
          (let midnightUtc = date_utc year month day in
           if iso_date midnightUtc \<noteq> date then Inl ''not a YYYY-MM-DD local date''
           else Inr \<lparr>ld_year = year, ld_month = month, ld_day = day, ld_midnightUtc = midnightUtc\<rparr>))"

definition addLocalCalendarDays :: "string \<Rightarrow> int \<Rightarrow> string + string" where
  "addLocalCalendarDays date days =
     (case parseLocalDate date of
        Inl e \<Rightarrow> Inl e
      | Inr d \<Rightarrow> Inr (iso_date (date_utc (ld_year d) (ld_month d) (ld_day d + days))))"

section \<open>The first instant of a local date\<close>

definition SEARCH_WINDOW_MS :: int where "SEARCH_WINDOW_MS = 48 * 60 * 60 * 1000"

text \<open>The binary search for the first instant whose date is not before \<open>date\<close>.\<close>

function first_not_before :: "(instant \<Rightarrow> string) \<Rightarrow> string \<Rightarrow> instant \<Rightarrow> instant \<Rightarrow> instant" where
  "first_not_before f date low high =
     (if low < high then
        (let mid = low + (high - low) div 2
         in if f mid < date then first_not_before f date (mid + 1) high
            else first_not_before f date low mid)
      else low)"
  by pat_completeness auto
termination
  by (relation "measure (\<lambda>(f, date, low, high). nat (high - low))") auto

declare first_not_before.simps [simp del]

definition firstInstantOfLocalDate :: "intl \<Rightarrow> string \<Rightarrow> string \<Rightarrow> string + instant" where
  "firstInstantOfLocalDate db date timezoneInput =
     (case canonicalTimezoneId db timezoneInput of
        None \<Rightarrow> Inl ''not an IANA timezone''
      | Some [] \<Rightarrow> Inl ''not an IANA timezone''
      | Some (c # tz) \<Rightarrow>
         (case parseLocalDate date of
            Inl e \<Rightarrow> Inl e
          | Inr d \<Rightarrow>
             (let low = first_not_before (tz_date db (c # tz)) date
                          (ld_midnightUtc d - SEARCH_WINDOW_MS) (ld_midnightUtc d + SEARCH_WINDOW_MS)
              in if tz_date db (c # tz) low \<noteq> date then Inl ''local date does not exist'' else Inr low)))"

section \<open>Time buckets\<close>

datatype time_bucket = Bucket_hour | Bucket_30m | Bucket_15m

fun bucketMinutes :: "time_bucket \<Rightarrow> int" where
  "bucketMinutes Bucket_hour = 60"
| "bucketMinutes Bucket_30m = 30"
| "bucketMinutes Bucket_15m = 15"

definition BUCKET_MS :: "time_bucket \<Rightarrow> int" where
  "BUCKET_MS b = bucketMinutes b * 60 * 1000"

definition timeBucketKey :: "intl \<Rightarrow> instant \<Rightarrow> string \<Rightarrow> time_bucket \<Rightarrow> string" where
  "timeBucketKey db t timezone bucket =
     (let interval = bucketMinutes bucket;
          (hour, minute) = tz_parts db timezone t
      in tz_date db timezone t @ '' '' @ hour @ '':'' @ fixed_digits 2 ((minute div interval) * interval))"

definition hourKey :: "intl \<Rightarrow> instant \<Rightarrow> string \<Rightarrow> string" where
  "hourKey db t timezone = timeBucketKey db t timezone Bucket_hour"

record daily_point =
  dp_day :: string
  dp_sessions :: int
  dp_activeUsers :: int
  dp_costUsd :: rat
  dp_inputTokens :: int
  dp_outputTokens :: int
  dp_cacheReadTokens :: int
  dp_cacheCreationTokens :: int

definition zero_point :: "string \<Rightarrow> daily_point" where
  "zero_point day = \<lparr>dp_day = day, dp_sessions = 0, dp_activeUsers = 0, dp_costUsd = 0, dp_inputTokens = 0,
     dp_outputTokens = 0, dp_cacheReadTokens = 0, dp_cacheCreationTokens = 0\<rparr>"

text \<open>The instants of the loop \<open>for (t = from; t <= end; t += BUCKET_MS[bucket])\<close>.\<close>

definition bucket_instants :: "instant \<Rightarrow> instant \<Rightarrow> time_bucket \<Rightarrow> instant list" where
  "bucket_instants from upto_ms bucket =
     (if upto_ms < from then []
      else map (\<lambda>k. from + int k * BUCKET_MS bucket) [0 ..< Suc (nat ((upto_ms - from) div BUCKET_MS bucket))])"

text \<open>\<open>if (!out.has(key)) out.set(key, v)\<close>\<close>

definition set_if_absent :: "'k \<Rightarrow> 'v \<Rightarrow> ('k \<times> 'v) list \<Rightarrow> ('k \<times> 'v) list" where
  "set_if_absent k v m = (if map_of m k = None then m @ [(k, v)] else m)"

definition fillTimeBucketGaps ::
  "intl \<Rightarrow> daily_point list \<Rightarrow> instant \<Rightarrow> instant \<Rightarrow> string \<Rightarrow> time_bucket \<Rightarrow> instant \<Rightarrow> daily_point list"
where
  "fillTimeBucketGaps db points from upto_ms timezone bucket now =
     (let byKey = js_map_of_list (map (\<lambda>p. (dp_day p, p)) points);
          keys = map (\<lambda>t. timeBucketKey db t timezone bucket)
                   (bucket_instants from (min (upto_ms - 1) now) bucket);
          filled = foldl (\<lambda>out key. set_if_absent key
                     (case map_of byKey key of Some p \<Rightarrow> p | None \<Rightarrow> zero_point key) out) [] keys;
          merged = foldl (\<lambda>out (key, p). set_if_absent key p out) filled byKey
      in js_sort (\<lambda>a b. cmp_ord (dp_day a) (dp_day b)) (map snd merged))"

definition fillHourlyGaps ::
  "intl \<Rightarrow> daily_point list \<Rightarrow> instant \<Rightarrow> instant \<Rightarrow> string \<Rightarrow> instant \<Rightarrow> daily_point list" where
  "fillHourlyGaps db points from upto_ms timezone now =
     fillTimeBucketGaps db points from upto_ms timezone Bucket_hour now"

section \<open>Facts about the search\<close>

lemma first_not_before_step:
  assumes "low < high"
  shows "\<exists>m. low \<le> m \<and> m < high \<and> m = low + (high - low) div 2
    \<and> first_not_before f date low high =
        (if f m < date then first_not_before f date (m + 1) high else first_not_before f date low m)"
  using assms by (intro exI [of _ "low + (high - low) div 2"])
    (auto simp: first_not_before.simps [of f date low high] Let_def)

text \<open>For any function: the instant found is in the window, is not before the date unless it is the
  upper end, and the instant just below it, if in the window, is before the date.\<close>

definition search_result :: "(instant \<Rightarrow> string) \<Rightarrow> string \<Rightarrow> instant \<Rightarrow> instant \<Rightarrow> instant \<Rightarrow> bool" where
  "search_result f date low high r \<longleftrightarrow> low \<le> r \<and> r \<le> high \<and> (r = high \<or> \<not> f r < date)
     \<and> (r = low \<or> f (r - 1) < date)"

lemma search_result_right: "search_result f date (m + 1) high r \<Longrightarrow> f m < date \<Longrightarrow> low \<le> m \<Longrightarrow>
    search_result f date low high r"
  by (auto simp: search_result_def)

lemma search_result_left: "search_result f date low m r \<Longrightarrow> \<not> f m < date \<Longrightarrow> m < high \<Longrightarrow>
    search_result f date low high r"
  by (auto simp: search_result_def)

lemma first_not_before_result:
  assumes "low \<le> high"
  shows "search_result f date low high (first_not_before f date low high)"
  using assms
proof (induction f date low high rule: first_not_before.induct)
  case (1 f date low high)
  show ?case
  proof (cases "low < high")
    case True
    then obtain m where m: "low \<le> m" "m < high" "m = low + (high - low) div 2"
      "first_not_before f date low high =
        (if f m < date then first_not_before f date (m + 1) high else first_not_before f date low m)"
      using first_not_before_step [of low high f date] by blast
    show ?thesis
    proof (cases "f m < date")
      case less: True
      have "search_result f date (m + 1) high (first_not_before f date (m + 1) high)"
        using 1(1) [OF True refl] less m by simp
      then show ?thesis using search_result_right less m by simp
    next
      case nless: False
      have "search_result f date low m (first_not_before f date low m)"
        using 1(2) [OF True refl] nless m by simp
      then show ?thesis using search_result_left nless m by simp
    qed
  qed (use 1 in \<open>simp add: first_not_before.simps search_result_def\<close>)
qed

text \<open>When dates never go back, the search finds the first instant of the date in the window.\<close>

lemma first_not_before_first:
  assumes mono: "\<And>s t. s \<le> t \<Longrightarrow> f s \<le> f t" and t: "f t = date" "low \<le> t" "t \<le> high"
  shows "first_not_before f date low high \<le> t \<and> f (first_not_before f date low high) = date
    \<and> (first_not_before f date low high = low \<or>
        (\<forall>s < first_not_before f date low high. f s < date))"
proof -
  let ?r = "first_not_before f date low high"
  have b: "low \<le> ?r" "?r \<le> high" and B: "?r = high \<or> \<not> f ?r < date" "?r = low \<or> f (?r - 1) < date"
    using first_not_before_result [of low high f date] t by (auto simp: search_result_def)
  have le: "?r \<le> t"
  proof (rule ccontr)
    assume "\<not> ?r \<le> t"
    then have "f (?r - 1) < date" "t \<le> ?r - 1" using B(2) t(2) by auto
    then show False using mono [of t "?r - 1"] t(1) by simp
  qed
  have "\<not> f ?r < date" using B(1) le t(1,3) by auto
  then have "f ?r = date" using mono [OF le] t(1) by simp
  moreover have "\<forall>s < ?r. f s < date" if "?r \<noteq> low"
  proof (intro allI impI)
    fix s assume "s < ?r"
    then have "f s \<le> f (?r - 1)" using mono [of s "?r - 1"] by simp
    then show "f s < date" using B(2) that by (metis order.strict_trans1)
  qed
  ultimately show ?thesis using le by auto
qed

section \<open>Facts about filling\<close>

lemma map_of_set_if_absent:
  "map_of (set_if_absent k v m) = (map_of m)(k := Some (case map_of m k of Some w \<Rightarrow> w | None \<Rightarrow> v))"
  by (auto simp: set_if_absent_def map_add_def fun_eq_iff split: option.splits)

lemma distinct_set_if_absent:
  "distinct (map fst m) \<Longrightarrow> distinct (map fst (set_if_absent k v m))"
  by (auto simp: set_if_absent_def map_of_eq_None_iff)

lemma distinct_fill_keys:
  "distinct (map fst m) \<Longrightarrow> distinct (map fst (foldl (\<lambda>out k. set_if_absent k (f k) out) m ks))"
  by (induction ks arbitrary: m) (auto simp: distinct_set_if_absent)

lemma map_of_fill_keys:
  "map_of (foldl (\<lambda>out k. set_if_absent k (f k) out) m ks) k
     = (case map_of m k of Some v \<Rightarrow> Some v | None \<Rightarrow> if k \<in> set ks then Some (f k) else None)"
  by (induction ks arbitrary: m) (auto simp: map_of_set_if_absent split: option.splits)

lemma distinct_merge:
  "distinct (map fst m) \<Longrightarrow> distinct (map fst (foldl (\<lambda>out (k, v). set_if_absent k v out) m ps))"
  by (induction ps arbitrary: m) (auto simp: distinct_set_if_absent)

lemma map_of_merge:
  "map_of (foldl (\<lambda>out (k, v). set_if_absent k v out) m ps) k
     = (case map_of m k of Some v \<Rightarrow> Some v | None \<Rightarrow> map_of ps k)"
  by (induction ps arbitrary: m) (auto simp: map_of_set_if_absent split: option.splits)

lemma bucket_instants_set:
  "t \<in> set (bucket_instants from u b) \<longleftrightarrow> (\<exists>k :: nat. t = from + int k * BUCKET_MS b \<and> t \<le> u)"
proof -
  have pos: "0 < BUCKET_MS b" by (cases b) (simp_all add: BUCKET_MS_def)
  have "k < Suc (nat ((u - from) div BUCKET_MS b)) \<longleftrightarrow> from + int k * BUCKET_MS b \<le> u" if "from \<le> u" for k
  proof -
    have nn: "0 \<le> (u - from) div BUCKET_MS b" using that pos by (simp add: pos_imp_zdiv_nonneg_iff)
    have "k < Suc (nat ((u - from) div BUCKET_MS b)) \<longleftrightarrow> int k \<le> (u - from) div BUCKET_MS b"
      using nn by (simp add: less_Suc_eq_le nat_le_eq_zle le_nat_iff)
    also have "\<dots> \<longleftrightarrow> int k * BUCKET_MS b \<le> u - from"
    proof
      assume "int k \<le> (u - from) div BUCKET_MS b"
      then have "int k * BUCKET_MS b \<le> (u - from) div BUCKET_MS b * BUCKET_MS b"
        using pos by (simp add: mult_right_mono)
      also have "\<dots> \<le> u - from"
        using pos by (metis minus_mod_eq_div_mult diff_le_eq le_add_same_cancel1 pos_mod_sign)
      finally show "int k * BUCKET_MS b \<le> u - from" .
    next
      assume "int k * BUCKET_MS b \<le> u - from"
      then have "(int k * BUCKET_MS b) div BUCKET_MS b \<le> (u - from) div BUCKET_MS b"
        using pos zdiv_mono1 by blast
      then show "int k \<le> (u - from) div BUCKET_MS b" using pos by simp
    qed
    finally show ?thesis by linarith
  qed
  then have in_range: "from \<le> u \<Longrightarrow> t \<in> set (bucket_instants from u b) \<longleftrightarrow>
      (\<exists>k :: nat. from + int k * BUCKET_MS b \<le> u \<and> t = from + int k * BUCKET_MS b)"
    by (auto simp: bucket_instants_def simp del: upt_Suc)
  have "0 \<le> int k * BUCKET_MS b" for k :: nat using pos by simp
  then have "\<not> from + int k * BUCKET_MS b \<le> u" if "u < from" for k :: nat using that by (smt (verit))
  then have "u < from \<Longrightarrow> \<not> (\<exists>k :: nat. t = from + int k * BUCKET_MS b \<and> t \<le> u)" by blast
  moreover have "u < from \<Longrightarrow> t \<notin> set (bucket_instants from u b)" by (simp add: bucket_instants_def)
  ultimately show ?thesis using in_range by (cases "u < from") auto
qed

text \<open>The points of the result by key.\<close>

lemma fill_parts:
  obtains merged where
    "fillTimeBucketGaps db points from u tz b now = js_sort (\<lambda>x y. cmp_ord (dp_day x) (dp_day y)) (map snd merged)"
    "distinct (map fst merged)"
    "\<And>k. map_of merged k =
      (case map_of (rev (map (\<lambda>p. (dp_day p, p)) points)) k of
         Some p \<Rightarrow> Some p
       | None \<Rightarrow> if k \<in> (\<lambda>t. timeBucketKey db t tz b) ` set (bucket_instants from (min (u - 1) now) b)
                then Some (zero_point k) else None)"
proof
  let ?byKey = "js_map_of_list (map (\<lambda>p. (dp_day p, p)) points)"
  let ?keys = "map (\<lambda>t. timeBucketKey db t tz b) (bucket_instants from (min (u - 1) now) b)"
  let ?filled = "foldl (\<lambda>out key. set_if_absent key
        (case map_of ?byKey key of Some p \<Rightarrow> p | None \<Rightarrow> zero_point key) out) [] ?keys"
  let ?merged = "foldl (\<lambda>out (key, p). set_if_absent key p out) ?filled ?byKey"
  show "fillTimeBucketGaps db points from u tz b now
      = js_sort (\<lambda>x y. cmp_ord (dp_day x) (dp_day y)) (map snd ?merged)"
    by (simp add: fillTimeBucketGaps_def Let_def)
  show "distinct (map fst ?merged)" by (intro distinct_merge distinct_fill_keys) simp
  show "map_of ?merged k =
      (case map_of (rev (map (\<lambda>p. (dp_day p, p)) points)) k of
         Some p \<Rightarrow> Some p
       | None \<Rightarrow> if k \<in> (\<lambda>t. timeBucketKey db t tz b) ` set (bucket_instants from (min (u - 1) now) b)
                then Some (zero_point k) else None)" for k
    unfolding map_of_merge map_of_fill_keys by (simp split: option.splits)
qed

section \<open>Properties\<close>

text \<open>In a zone whose local dates never go back, and when the two ends of the search window lie before
  and after the date, \<open>firstInstantOfLocalDate\<close> returns the earliest instant of that date over all
  time, and fails exactly when no instant has the date (a skipped day).\<close>
theorem firstInstantOfLocalDate_earliest:
  assumes zone: "canonicalTimezoneId db timezone = Some (c # tz)" and d: "parseLocalDate date = Inr d"
    and mono: "\<And>s t. s \<le> t \<Longrightarrow> tz_date db (c # tz) s \<le> tz_date db (c # tz) t"
    and window: "tz_date db (c # tz) (ld_midnightUtc d - SEARCH_WINDOW_MS) < date"
      "date < tz_date db (c # tz) (ld_midnightUtc d + SEARCH_WINDOW_MS)"
  shows "case firstInstantOfLocalDate db date timezone of
      Inr r \<Rightarrow> tz_date db (c # tz) r = date \<and> (\<forall>s. tz_date db (c # tz) s = date \<longrightarrow> r \<le> s)
    | Inl e \<Rightarrow> \<forall>s. tz_date db (c # tz) s \<noteq> date"
proof -
  let ?f = "tz_date db (c # tz)"
  let ?low = "ld_midnightUtc d - SEARCH_WINDOW_MS" and ?high = "ld_midnightUtc d + SEARCH_WINDOW_MS"
  let ?r = "first_not_before ?f date ?low ?high"
  have first: "?f ?r = date \<and> ?r \<le> s" if s: "?f s = date" for s
  proof -
    have "?low \<le> s"
    proof (rule ccontr)
      assume "\<not> ?low \<le> s"
      then have "?f s \<le> ?f ?low" by (intro mono) simp
      then show False using window(1) s by simp
    qed
    moreover have "s \<le> ?high"
    proof (rule ccontr)
      assume "\<not> s \<le> ?high"
      then have "?f ?high \<le> ?f s" by (intro mono) simp
      then show False using window(2) s by simp
    qed
    ultimately show ?thesis using first_not_before_first [of ?f s date ?low ?high, OF mono s] by simp
  qed
  show ?thesis
  proof (cases "?f ?r = date")
    case True
    then show ?thesis using first by (simp add: firstInstantOfLocalDate_def zone d Let_def)
  next
    case False
    then show ?thesis using first by (auto simp: firstInstantOfLocalDate_def zone d Let_def)
  qed
qed

text \<open>Seoul as a fixed offset of nine hours, near 2026.\<close>

definition seoul_date :: "instant \<Rightarrow> string" where
  "seoul_date t =
     (if t < 1776870000000 then ''2026-04-22'' else if t < 1776956400000 then ''2026-04-23'' else ''2026-04-24'')"

definition seoul :: intl where
  "seoul = \<lparr>tz_resolve = (\<lambda>s. if s = ''Asia/Seoul'' then Some s else None), tz_date = (\<lambda>_. seoul_date),
     tz_parts = (\<lambda>_ t. (fixed_digits 2 ((t + 32400000) div 3600000 mod 24), (t div 60000) mod 60))\<rparr>"

lemma date_order:
  "''2026-04-22'' < ''2026-04-23''" "''2026-04-23'' < ''2026-04-24''" "''2026-04-22'' < ''2026-04-24''"
  "''1987-10-24'' < ''1987-10-25''" "''1987-10-25'' < ''1987-10-26''"
  by simp_all

lemma example_day:
  "match_ymd ''2026-04-23'' = Some (2026, 4, 23)" "date_utc 2026 4 23 = 1776902400000"
  "iso_date 1776902400000 = ''2026-04-23''"
  by code_simp+

theorem firstInstantOfLocalDate_earliest_witness:
  "firstInstantOfLocalDate seoul ''2026-04-23'' ''Asia/Seoul'' = Inr 1776870000000"
proof -
  let ?tz = "CHR ''A'' # ''sia/Seoul''"
  have zone: "canonicalTimezoneId seoul ''Asia/Seoul'' = Some ?tz" by code_simp
  have d: "parseLocalDate ''2026-04-23'' = Inr \<lparr>ld_year = 2026, ld_month = 4, ld_day = 23, ld_midnightUtc = 1776902400000\<rparr>"
    by (simp add: parseLocalDate_def example_day)
  have f: "tz_date seoul ?tz = seoul_date" by (simp add: seoul_def)
  have mono: "tz_date seoul ?tz s \<le> tz_date seoul ?tz t" if "s \<le> t" for s t
    using that date_order(1,2,3) unfolding f seoul_date_def by (auto simp del: Cons_less_Cons Cons_le_Cons)
  have low: "tz_date seoul ?tz (ld_midnightUtc \<lparr>ld_year = 2026, ld_month = 4, ld_day = 23,
      ld_midnightUtc = 1776902400000\<rparr> - SEARCH_WINDOW_MS) < ''2026-04-23''"
    and high: "''2026-04-23'' < tz_date seoul ?tz (ld_midnightUtc \<lparr>ld_year = 2026, ld_month = 4, ld_day = 23,
      ld_midnightUtc = 1776902400000\<rparr> + SEARCH_WINDOW_MS)"
    unfolding f seoul_date_def SEARCH_WINDOW_MS_def using date_order(1,2) by simp_all
  have at: "seoul_date s = ''2026-04-23'' \<longleftrightarrow> 1776870000000 \<le> s \<and> s < 1776956400000" for s
    by (auto simp: seoul_date_def)
  from firstInstantOfLocalDate_earliest [OF zone d mono low high] show ?thesis
    unfolding f at by (auto split: sum.splits dest!: spec [of _ 1776870000000])
qed

text \<open>A zone whose clocks go back from 00:01 to 23:01 of the day before, as St. John's did; the first
  instant of 25 October is 0.\<close>

definition folding_date :: "instant \<Rightarrow> string" where
  "folding_date t =
     (if t < 0 then ''1987-10-24'' else if t < 60000 then ''1987-10-25''
      else if t < 3600000 then ''1987-10-24''
      else if t < 90000000 then ''1987-10-25'' else ''1987-10-26'')"

text \<open>In a zone whose clocks go back across midnight local dates go back too, and there the instant
  found need not be the earliest of its date: the search returns the second start of the day.\<close>
theorem first_instant_after_fold_is_not_earliest:
  "folding_date 0 = ''1987-10-25''
   \<and> first_not_before folding_date ''1987-10-25'' (9000000 - SEARCH_WINDOW_MS) (9000000 + SEARCH_WINDOW_MS) = 3600000"
  by (simp add: first_not_before.simps Let_def folding_date_def SEARCH_WINDOW_MS_def)

text \<open>Filling the gaps of a bucketed series loses nothing and invents nothing: the result has strictly
  increasing keys; a point is in it exactly when it is the last given point of its key, or a zero
  point at a key without one that some bucket instant before the end of the range and not after now
  falls into.\<close>
theorem fillTimeBucketGaps_correct:
  "(p \<in> set (fillTimeBucketGaps db points from upto_ms tz bucket now) \<longleftrightarrow>
     map_of (rev (map (\<lambda>p. (dp_day p, p)) points)) (dp_day p) = Some p \<or>
     (dp_day p \<notin> dp_day ` set points \<and> p = zero_point (dp_day p) \<and>
      (\<exists>k :: nat. from + int k * BUCKET_MS bucket < upto_ms \<and> from + int k * BUCKET_MS bucket \<le> now
          \<and> dp_day p = timeBucketKey db (from + int k * BUCKET_MS bucket) tz bucket)))
   \<and> sorted_wrt (\<lambda>x y. dp_day x < dp_day y) (fillTimeBucketGaps db points from upto_ms tz bucket now)"
proof (rule fill_parts [of db points "from" upto_ms tz bucket now])
  fix merged
  let ?last = "map_of (rev (map (\<lambda>p. (dp_day p, p)) points))"
  let ?keys = "(\<lambda>t. timeBucketKey db t tz bucket) ` set (bucket_instants from (min (upto_ms - 1) now) bucket)"
  assume fill: "fillTimeBucketGaps db points from upto_ms tz bucket now
      = js_sort (\<lambda>x y. cmp_ord (dp_day x) (dp_day y)) (map snd merged)"
    and d: "distinct (map fst merged)"
    and m: "\<And>k. map_of merged k = (case ?last k of Some p \<Rightarrow> Some p
       | None \<Rightarrow> if k \<in> ?keys then Some (zero_point k) else None)"
  have last_key: "?last k = Some q \<Longrightarrow> dp_day q = k" for k q by (auto dest: map_of_SomeD)
  have key: "dp_day q = k" if "(k, q) \<in> set merged" for k q
  proof -
    have "map_of merged k = Some q" by (rule map_of_is_SomeI [OF d that])
    then show ?thesis
      unfolding m using last_key [of k q]
      by (cases "?last k") (simp_all add: zero_point_def split: if_splits, fastforce)
  qed
  have mem: "q \<in> snd ` set merged \<longleftrightarrow> map_of merged (dp_day q) = Some q" for q
    unfolding map_of_eq_Some_iff [OF d]
  proof
    assume "q \<in> snd ` set merged"
    then obtain k where "(k, q) \<in> set merged" by auto
    then show "(dp_day q, q) \<in> set merged" using key [of k q] by simp
  next
    assume "(dp_day q, q) \<in> set merged"
    then show "q \<in> snd ` set merged" by (rule image_eqI [rotated]) simp
  qed
  have none: "?last k = None \<longleftrightarrow> k \<notin> dp_day ` set points" for k
    by (force simp: map_of_eq_None_iff)
  have keys: "k \<in> ?keys \<longleftrightarrow> (\<exists>n :: nat. from + int n * BUCKET_MS bucket < upto_ms
      \<and> from + int n * BUCKET_MS bucket \<le> now \<and> k = timeBucketKey db (from + int n * BUCKET_MS bucket) tz bucket)" for k
    by (auto simp: image_iff bucket_instants_set)
  have "p \<in> snd ` set merged \<longleftrightarrow> ?last (dp_day p) = Some p \<or>
      (dp_day p \<notin> dp_day ` set points \<and> p = zero_point (dp_day p) \<and> dp_day p \<in> ?keys)"
    unfolding mem m using none [of "dp_day p"] by (auto split: option.splits)
  then have 1: "p \<in> set (fillTimeBucketGaps db points from upto_ms tz bucket now) \<longleftrightarrow>
     ?last (dp_day p) = Some p \<or>
     (dp_day p \<notin> dp_day ` set points \<and> p = zero_point (dp_day p) \<and>
      (\<exists>k :: nat. from + int k * BUCKET_MS bucket < upto_ms \<and> from + int k * BUCKET_MS bucket \<le> now
          \<and> dp_day p = timeBucketKey db (from + int k * BUCKET_MS bucket) tz bucket))"
    unfolding fill keys by simp
  have "map dp_day (map snd merged) = map fst merged" using key by auto
  then have "distinct (map dp_day (map snd merged))" using d by (simp only:)
  then have "sorted_wrt (\<lambda>x y. dp_day x < dp_day y) (fillTimeBucketGaps db points from upto_ms tz bucket now)"
    unfolding fill by (rule strict_js_sort_key)
  then show ?thesis using 1 by blast
qed

end
