(* ===== verification/Utilization.thy ===== *)
theory Utilization
  imports Local_Dates
begin

text \<open>
  \<open>packages/core/src/utilization.ts\<close>: the utilization scores. Daily features of a user are compared
  with the user's own baseline in two dimensions, and the personal results of an organisation are
  aggregated behind a minimum cohort. Ratios and medians are exact rationals.
\<close>

section \<open>Records\<close>

definition UTILIZATION_METHODOLOGY_VERSION :: string where
  "UTILIZATION_METHODOLOGY_VERSION = ''utilization-v2''"

definition CACHE_SIGNAL_PROVIDER_KEYS :: "string list" where
  "CACHE_SIGNAL_PROVIDER_KEYS = [''claude_code'', ''codex'', ''cursor'', ''gemini'', ''qwen'']"

definition TOOL_OUTCOME_PROVIDER_KEYS :: "string list" where
  "TOOL_OUTCOME_PROVIDER_KEYS = [''claude_code'', ''codex'', ''cursor'']"

datatype utilization_reason =
  Insufficient_current_days | Insufficient_current_sessions | Insufficient_baseline_days
| Unsupported_cache_signal | Insufficient_context_days | Insufficient_known_tool_calls
| Insufficient_tool_days | Low_tool_outcome_coverage | Insufficient_valid_dimensions

datatype dimension_key = Context_continuity | Execution_stability

record utilization_period =
  per_from :: instant
  per_to :: instant

record utilization_periods =
  ut_current :: utilization_period
  ut_baseline :: utilization_period
  ut_timezone :: string

record provider_capability =
  reportsCacheRead :: bool
  reportsToolOutcome :: bool
  reportsSessionId :: bool

record daily_feature =
  f_userId :: string
  f_day :: string
  f_sessions :: int
  f_inputTokens :: int
  f_cacheReadTokens :: int
  f_cacheCreationTokens :: int
  f_cacheSignalEvents :: int
  f_cacheUnsupportedEvents :: int
  f_toolSuccesses :: int
  f_toolFailures :: int
  f_toolUnknown :: int
  f_repeatedToolFailures :: int
  f_recoveryAttempts :: int
  f_successfulRecoveries :: int
  f_sessionToolKnownCalls :: int
  f_toolActiveSessions :: int
  f_distinctTools :: int

record dimension_result =
  dim_key :: dimension_key
  dim_score :: "int option"
  dim_currentValue :: "rat option"
  dim_baselineMedian :: "rat option"
  dim_currentSampleSize :: int
  dim_baselineSampleSize :: int
  dim_reason :: "utilization_reason option"

datatype confidence = High | Medium | Low

record observations =
  ob_activeDays :: nat
  ob_sessions :: int
  ob_toolActiveSessionRate :: "rat option"
  ob_distinctTools :: int
  ob_knownToolCalls :: int
  ob_toolOutcomeCoverage :: "rat option"
  ob_repeatedToolFailures :: int
  ob_recoveryAttempts :: int
  ob_successfulRecoveries :: int
  ob_recoveryRate :: "rat option"

record personal_result =
  pr_methodologyVersion :: string
  pr_score :: "int option"
  pr_confidence :: confidence
  pr_currentPeriod :: utilization_period
  pr_baselinePeriod :: utilization_period
  pr_dimensions :: "dimension_result list"
  pr_reasons :: "utilization_reason list"
  pr_observations :: observations

record organization_scores =
  org_sampleSize :: nat
  org_excludedUsers :: int
  org_median :: rat
  org_p25 :: int
  org_p75 :: int
  org_dimensionMedians :: "dimension_key \<Rightarrow> rat option"
  org_above :: nat
  org_usual :: nat
  org_below :: nat

datatype organization_result =
  Suppressed_small_cohort | Insufficient_eligible_users | Mixed_methodology_versions
| Available organization_scores

definition getUtilizationProviderCapability :: "string \<Rightarrow> provider_capability" where
  "getUtilizationProviderCapability providerKey =
     (let currentLogProvider = (providerKey \<in> set CACHE_SIGNAL_PROVIDER_KEYS);
          reportsTools = (providerKey \<in> set TOOL_OUTCOME_PROVIDER_KEYS)
      in \<lparr>reportsCacheRead = currentLogProvider, reportsToolOutcome = reportsTools,
          reportsSessionId = currentLogProvider\<rparr>)"

definition buildUtilizationPeriods ::
  "intl \<Rightarrow> instant option \<Rightarrow> string \<Rightarrow> string + utilization_periods" where
  "buildUtilizationPeriods db now timezone =
     and_then (localDateKey db now timezone) (\<lambda>today.
     and_then (firstInstantOfLocalDate db today timezone) (\<lambda>currentTo.
     and_then (addLocalCalendarDays today (-7)) (\<lambda>weekBefore.
     and_then (firstInstantOfLocalDate db weekBefore timezone) (\<lambda>currentFrom.
     and_then (addLocalCalendarDays today (-35)) (\<lambda>baselineDay.
     and_then (firstInstantOfLocalDate db baselineDay timezone) (\<lambda>baselineFrom.
     Inr \<lparr>ut_current = \<lparr>per_from = currentFrom, per_to = currentTo\<rparr>,
          ut_baseline = \<lparr>per_from = baselineFrom, per_to = currentFrom\<rparr>, ut_timezone = timezone\<rparr>))))))"

section \<open>Statistics\<close>

text \<open>\<open>Math.round\<close>: half up.\<close>

definition js_round :: "rat \<Rightarrow> int" where
  "js_round x = \<lfloor>x + 1/2\<rfloor>"

text \<open>The code throws on an empty list; its callers check the length first.\<close>

definition median_sorted :: "rat list \<Rightarrow> rat" where
  "median_sorted s =
     (let middle = length s div 2
      in if length s mod 2 = 1 then s ! middle else (s ! (middle - 1) + s ! middle) / 2)"

definition median :: "rat list \<Rightarrow> rat" where
  "median values = median_sorted (js_sort cmp_ord values)"

definition normalizeUtilizationDimension :: "rat \<Rightarrow> rat list \<Rightarrow> int \<Rightarrow> int" where
  "normalizeUtilizationDimension current baseline direction =
     (let center = median baseline;
          mad = median (map (\<lambda>v. \<bar>v - center\<bar>) baseline);
          scale = max (14826 / 10000 * mad) (5 / 100);
          raw = js_round (50 + 15 * of_int direction * ((current - center) / scale))
      in max 0 (min 100 raw))"

definition periodDays :: "intl \<Rightarrow> utilization_period \<Rightarrow> string \<Rightarrow> string + string \<times> string" where
  "periodDays db period timezone =
     and_then (localDateKey db (Some (per_from period)) timezone) (\<lambda>a.
     and_then (localDateKey db (Some (per_to period)) timezone) (\<lambda>b. Inr (a, b)))"

definition rowsInPeriod ::
  "intl \<Rightarrow> daily_feature list \<Rightarrow> utilization_period \<Rightarrow> string \<Rightarrow> string + daily_feature list" where
  "rowsInPeriod db rows period timezone =
     and_then (periodDays db period timezone) (\<lambda>(first_day, end_day).
     Inr (filter (\<lambda>row. first_day \<le> f_day row \<and> f_day row < end_day) rows))"

definition activeDays :: "daily_feature list \<Rightarrow> nat" where
  "activeDays rows = length (js_unique (map f_day (filter (\<lambda>row. f_sessions row > 0) rows)))"

definition contextValues :: "daily_feature list \<Rightarrow> rat list" where
  "contextValues rows = concat (map (\<lambda>row.
     (let denominator = f_inputTokens row + f_cacheReadTokens row + f_cacheCreationTokens row
      in if f_cacheSignalEvents row \<le> 0 \<or> denominator \<le> 0 then []
         else [of_int (f_cacheReadTokens row) / of_int denominator])) rows)"

definition executionValues :: "daily_feature list \<Rightarrow> rat list" where
  "executionValues rows = concat (map (\<lambda>row.
     (let known = f_toolSuccesses row + f_toolFailures row
      in if known > 0 then [of_int (f_toolSuccesses row) / of_int known] else [])) rows)"

record tool_totals =
  tt_successes :: int
  tt_failures :: int
  tt_unknown :: int
  tt_sessionKnown :: int
  tt_repeatedFailures :: int
  tt_recoveryAttempts :: int
  tt_successfulRecoveries :: int

definition sum_of :: "(daily_feature \<Rightarrow> int) \<Rightarrow> daily_feature list \<Rightarrow> int" where
  "sum_of f rows = foldl (\<lambda>sum row. sum + f row) 0 rows"

definition toolTotals :: "daily_feature list \<Rightarrow> tool_totals" where
  "toolTotals rows =
     \<lparr>tt_successes = sum_of f_toolSuccesses rows, tt_failures = sum_of f_toolFailures rows,
      tt_unknown = sum_of f_toolUnknown rows, tt_sessionKnown = sum_of f_sessionToolKnownCalls rows,
      tt_repeatedFailures = sum_of f_repeatedToolFailures rows,
      tt_recoveryAttempts = sum_of f_recoveryAttempts rows,
      tt_successfulRecoveries = sum_of f_successfulRecoveries rows\<rparr>"

definition toolCoverage :: "tool_totals \<Rightarrow> rat" where
  "toolCoverage t =
     (let all = tt_successes t + tt_failures t + tt_unknown t
      in if all > 0 then of_int (tt_successes t + tt_failures t) / of_int all else 0)"

section \<open>Dimensions\<close>

definition unavailableDimension :: "dimension_key \<Rightarrow> utilization_reason \<Rightarrow> int \<Rightarrow> int \<Rightarrow> dimension_result" where
  "unavailableDimension key reason currentSampleSize baselineSampleSize =
     \<lparr>dim_key = key, dim_score = None, dim_currentValue = None, dim_baselineMedian = None,
      dim_currentSampleSize = currentSampleSize, dim_baselineSampleSize = baselineSampleSize,
      dim_reason = Some reason\<rparr>"

definition contextDimension :: "daily_feature list \<Rightarrow> daily_feature list \<Rightarrow> dimension_result" where
  "contextDimension currentRows baselineRows =
     (let current = contextValues currentRows;
          baseline = contextValues baselineRows;
          currentSamples = sum_of f_cacheSignalEvents currentRows;
          baselineSamples = sum_of f_cacheSignalEvents baselineRows;
          supported = sum_of f_cacheSignalEvents (currentRows @ baselineRows);
          unsupported = sum_of f_cacheUnsupportedEvents (currentRows @ baselineRows)
      in if supported = 0 \<and> unsupported > 0
         then unavailableDimension Context_continuity Unsupported_cache_signal currentSamples baselineSamples
         else if length current < 3 \<or> length baseline < 7
         then unavailableDimension Context_continuity Insufficient_context_days currentSamples baselineSamples
         else \<lparr>dim_key = Context_continuity,
               dim_score = Some (normalizeUtilizationDimension (median current) baseline 1),
               dim_currentValue = Some (median current), dim_baselineMedian = Some (median baseline),
               dim_currentSampleSize = currentSamples, dim_baselineSampleSize = baselineSamples,
               dim_reason = None\<rparr>)"

definition executionDimension :: "daily_feature list \<Rightarrow> daily_feature list \<Rightarrow> dimension_result" where
  "executionDimension currentRows baselineRows =
     (let currentTotals = toolTotals currentRows;
          baselineTotals = toolTotals baselineRows;
          currentKnown = tt_successes currentTotals + tt_failures currentTotals;
          baselineKnown = tt_successes baselineTotals + tt_failures baselineTotals;
          current = executionValues currentRows;
          baseline = executionValues baselineRows
      in if currentKnown < 10 \<or> baselineKnown < 10
         then unavailableDimension Execution_stability Insufficient_known_tool_calls currentKnown baselineKnown
         else if toolCoverage currentTotals < 7/10 \<or> toolCoverage baselineTotals < 7/10
         then unavailableDimension Execution_stability Low_tool_outcome_coverage currentKnown baselineKnown
         else if length baseline < 7 \<or> length current < 2
         then unavailableDimension Execution_stability Insufficient_tool_days currentKnown baselineKnown
         else \<lparr>dim_key = Execution_stability,
               dim_score = Some (normalizeUtilizationDimension (median current) baseline 1),
               dim_currentValue = Some (median current), dim_baselineMedian = Some (median baseline),
               dim_currentSampleSize = currentKnown, dim_baselineSampleSize = baselineKnown,
               dim_reason = None\<rparr>)"

definition unsupportedEventShare :: "daily_feature list \<Rightarrow> rat" where
  "unsupportedEventShare rows =
     (let supported = sum_of f_cacheSignalEvents rows;
          unsupported = sum_of f_cacheUnsupportedEvents rows;
          total = supported + unsupported
      in if total > 0 then of_int unsupported / of_int total else 0)"

section \<open>The personal result\<close>

definition common_reasons :: "nat \<Rightarrow> int \<Rightarrow> nat \<Rightarrow> utilization_reason list" where
  "common_reasons currentDays currentSessions baselineDays =
     (if currentDays < 3 then [Insufficient_current_days] else [])
     @ (if currentSessions < 5 then [Insufficient_current_sessions] else [])
     @ (if baselineDays < 7 then [Insufficient_baseline_days] else [])"

definition valid_scores :: "dimension_result list \<Rightarrow> int list" where
  "valid_scores dims = concat (map (\<lambda>d. case dim_score d of None \<Rightarrow> [] | Some s \<Rightarrow> [s]) dims)"

definition personal_observations :: "daily_feature list \<Rightarrow> observations" where
  "personal_observations currentRows =
     (let currentTool = toolTotals currentRows;
          sessions = sum_of f_sessions currentRows;
          toolActiveSessions = sum_of f_toolActiveSessions currentRows;
          known = tt_successes currentTool + tt_failures currentTool
      in \<lparr>ob_activeDays = activeDays currentRows, ob_sessions = sessions,
          ob_toolActiveSessionRate =
            (if sessions > 0 then Some (min 1 (of_int toolActiveSessions / of_int sessions)) else None),
          ob_distinctTools = foldl (\<lambda>m row. max m (f_distinctTools row)) 0 currentRows,
          ob_knownToolCalls = known,
          ob_toolOutcomeCoverage =
            (if known + tt_unknown currentTool > 0 then Some (toolCoverage currentTool) else None),
          ob_repeatedToolFailures = tt_repeatedFailures currentTool,
          ob_recoveryAttempts = tt_recoveryAttempts currentTool,
          ob_successfulRecoveries = tt_successfulRecoveries currentTool,
          ob_recoveryRate = (if tt_recoveryAttempts currentTool > 0
            then Some (of_int (tt_successfulRecoveries currentTool) / of_int (tt_recoveryAttempts currentTool))
            else None)\<rparr>)"

definition personal_from_rows ::
  "daily_feature list \<Rightarrow> daily_feature list \<Rightarrow> utilization_periods \<Rightarrow> personal_result" where
  "personal_from_rows currentRows baselineRows periods =
     (let currentActiveDays = activeDays currentRows;
          baselineActiveDays = activeDays baselineRows;
          currentSessions = sum_of f_sessions currentRows;
          reasons = common_reasons currentActiveDays currentSessions baselineActiveDays;
          dimensions = [contextDimension currentRows baselineRows, executionDimension currentRows baselineRows];
          scores = valid_scores dimensions;
          reasons' = (if length scores < 2 then reasons @ [Insufficient_valid_dimensions] else reasons);
          score = (if reasons = [] \<and> length scores \<ge> 2
                   then Some (js_round (of_int (sum_list scores) / of_nat (length scores))) else None);
          highConfidence = (score \<noteq> None \<and> length scores = length dimensions \<and> baselineActiveDays \<ge> 14
            \<and> toolCoverage (toolTotals currentRows) \<ge> 9/10 \<and> toolCoverage (toolTotals baselineRows) \<ge> 9/10
            \<and> unsupportedEventShare (currentRows @ baselineRows) \<le> 1/10)
      in \<lparr>pr_methodologyVersion = UTILIZATION_METHODOLOGY_VERSION, pr_score = score,
          pr_confidence = (if highConfidence then High else if score = None then Low else Medium),
          pr_currentPeriod = ut_current periods, pr_baselinePeriod = ut_baseline periods,
          pr_dimensions = dimensions, pr_reasons = js_unique reasons',
          pr_observations = personal_observations currentRows\<rparr>)"

definition calculatePersonalUtilization ::
  "intl \<Rightarrow> daily_feature list \<Rightarrow> utilization_periods \<Rightarrow> string + personal_result" where
  "calculatePersonalUtilization db rows periods =
     and_then (rowsInPeriod db rows (ut_current periods) (ut_timezone periods)) (\<lambda>currentRows.
     and_then (rowsInPeriod db rows (ut_baseline periods) (ut_timezone periods)) (\<lambda>baselineRows.
     Inr (personal_from_rows currentRows baselineRows periods)))"

section \<open>The organisation\<close>

definition percentile :: "int list \<Rightarrow> rat \<Rightarrow> int" where
  "percentile values fraction =
     (let s = js_sort cmp_ord values in s ! nat (js_round (of_int (int (length s) - 1) * fraction)))"

definition dimension_median :: "personal_result list \<Rightarrow> dimension_key \<Rightarrow> rat option" where
  "dimension_median eligible key =
     (let dimensionScores = concat (map (\<lambda>r.
            case find (\<lambda>d. dim_key d = key) (pr_dimensions r) of
              None \<Rightarrow> [] | Some d \<Rightarrow> (case dim_score d of None \<Rightarrow> [] | Some s \<Rightarrow> [of_int s])) eligible)
      in if dimensionScores \<noteq> [] then Some (median dimensionScores) else None)"

definition eligible_results :: "personal_result list \<Rightarrow> personal_result list" where
  "eligible_results results = filter (\<lambda>r. pr_score r \<noteq> None \<and> pr_confidence r \<noteq> Low) results"

definition aggregateOrganizationUtilization :: "personal_result list \<Rightarrow> int \<Rightarrow> organization_result" where
  "aggregateOrganizationUtilization results activeUsers =
     (if activeUsers < 5 then Suppressed_small_cohort
      else if list_ex (\<lambda>r. pr_methodologyVersion r \<noteq> UTILIZATION_METHODOLOGY_VERSION) results
      then Mixed_methodology_versions
      else (let eligible = eligible_results results in
        if length eligible < 5 then Insufficient_eligible_users
        else (let scores = map (\<lambda>r. the (pr_score r)) eligible
              in Available \<lparr>org_sampleSize = length eligible,
                   org_excludedUsers = max 0 (activeUsers - int (length eligible)),
                   org_median = median (map of_int scores),
                   org_p25 = percentile scores (1/4), org_p75 = percentile scores (3/4),
                   org_dimensionMedians = dimension_median eligible,
                   org_above = length (filter (\<lambda>s. s \<ge> 56) scores),
                   org_usual = length (filter (\<lambda>s. s \<ge> 45 \<and> s \<le> 55) scores),
                   org_below = length (filter (\<lambda>s. s \<le> 44) scores)\<rparr>)))"

section \<open>Facts about the statistics\<close>

lemma sort_map_of_int: "sort (map (of_int :: int \<Rightarrow> rat) xs) = map of_int (sort xs)"
  by (rule properties_for_sort) (auto simp: sorted_map intro: sorted_wrt_mono_rel [OF _ sorted_sort])

lemma median_le_nth:
  assumes s: "sorted s" "s \<noteq> []" and i: "i < length s" "length s div 2 \<le> i"
  shows "median_sorted s \<le> s ! i"
proof -
  have "s ! (length s div 2 - 1) \<le> s ! i" "s ! (length s div 2) \<le> s ! i"
    using s i by (auto intro!: sorted_nth_mono)
  then show ?thesis by (simp add: median_sorted_def Let_def)
qed

lemma nth_le_median:
  assumes s: "sorted s" "s \<noteq> []" and i: "2 * i + 1 \<le> length s"
  shows "s ! i \<le> median_sorted s"
proof (cases "length s mod 2 = 1")
  case True
  have "s ! i \<le> s ! (length s div 2)" using s i by (intro sorted_nth_mono) auto
  then show ?thesis using True by (simp add: median_sorted_def)
next
  case False
  then obtain k where k: "length s = 2 * k" by (metis dvd_def mod2_eq_if)
  then have "i \<le> k - 1" "k - 1 < length s" "k < length s" using i s(2) by auto
  then have "s ! i \<le> s ! (k - 1)" "s ! i \<le> s ! k" using s by (auto intro!: sorted_nth_mono)
  then show ?thesis using False k by (simp add: median_sorted_def)
qed

lemma length_js_sort_map: "js_sort cmp_ord (map (of_int :: int \<Rightarrow> rat) xs) = map of_int (js_sort cmp_ord xs)"
  by (simp add: js_sort_ord_eq sort_map_of_int)

text \<open>The percentile ranks stand on their side of the middle.\<close>

lemma percentile_rank_low:
  assumes "5 \<le> n"
  shows "2 * nat (js_round (of_int (int n - 1) * (1/4))) + 1 \<le> n"
proof -
  define r where "r = js_round (of_int (int n - 1) * (1/4))"
  have "of_int r \<le> (of_int (int n - 1) * (1/4) + 1/2 :: rat)"
    unfolding r_def js_round_def by (rule of_int_floor_le)
  then have "(of_int (4 * r) :: rat) \<le> of_int (int n + 1)" by (auto simp: field_simps)
  then have "4 * r \<le> int n + 1" by (simp only: of_int_le_iff)
  then show ?thesis using assms unfolding r_def [symmetric] by linarith
qed

lemma percentile_rank_high:
  assumes "5 \<le> n"
  shows "n div 2 \<le> nat (js_round (of_int (int n - 1) * (3/4)))"
    and "nat (js_round (of_int (int n - 1) * (3/4))) < n"
proof -
  define r where "r = js_round (of_int (int n - 1) * (3/4))"
  have low: "of_int r \<le> (of_int (int n - 1) * (3/4) + 1/2 :: rat)"
    unfolding r_def js_round_def by (rule of_int_floor_le)
  have high: "(of_int (int n - 1) * (3/4) + 1/2 :: rat) < of_int r + 1"
    unfolding r_def js_round_def by (rule floor_correct [THEN conjunct2, simplified of_int_add of_int_1])
  have "(of_int (4 * r) :: rat) \<le> of_int (3 * int n - 1)" using low by (auto simp: field_simps)
  then have "4 * r \<le> 3 * int n - 1" by (simp only: of_int_le_iff)
  moreover have "(of_int (3 * int n - 1) :: rat) < of_int (4 * r + 4)" using high by (auto simp: field_simps)
  then have "3 * int n - 1 < 4 * r + 4" by (simp only: of_int_less_iff)
  ultimately show "n div 2 \<le> nat (js_round (of_int (int n - 1) * (3/4)))"
    "nat (js_round (of_int (int n - 1) * (3/4))) < n"
    using assms unfolding r_def [symmetric] by linarith+
qed

lemma percentile_median:
  assumes "5 \<le> length scores"
  shows "of_int (percentile scores (1/4)) \<le> median (map of_int scores)"
    and "median (map of_int scores) \<le> of_int (percentile scores (3/4))"
proof -
  let ?s = "js_sort cmp_ord scores" and ?q = "map (of_int :: int \<Rightarrow> rat) (js_sort cmp_ord scores)"
  have s: "sorted ?q" by (simp add: sorted_map sorted_js_sort_ord sorted_wrt_mono_rel [OF _ sorted_js_sort_ord])
  have ne: "?q \<noteq> []" using assms by auto
  have len: "length ?s = length scores" by simp
  let ?i = "nat (js_round (of_int (int (length scores) - 1) * (1/4)))"
    and ?j = "nat (js_round (of_int (int (length scores) - 1) * (3/4)))"
  have i: "2 * ?i + 1 \<le> length scores" by (rule percentile_rank_low [OF assms])
  then have "?i < length ?s" by simp
  then have "?q ! ?i = of_int (percentile scores (1/4))" by (simp add: percentile_def)
  moreover have "?q ! ?i \<le> median_sorted ?q" by (rule nth_le_median [OF s ne]) (use i in simp)
  ultimately show "of_int (percentile scores (1/4)) \<le> median (map of_int scores)"
    by (simp add: median_def length_js_sort_map)
  have "?q ! ?j = of_int (percentile scores (3/4))"
    using percentile_rank_high(2) [OF assms] by (simp add: percentile_def)
  moreover have "median_sorted ?q \<le> ?q ! ?j"
    by (rule median_le_nth [OF s ne]) (use percentile_rank_high [OF assms] in simp_all)
  ultimately show "median (map of_int scores) \<le> of_int (percentile scores (3/4))"
    by (simp add: median_def length_js_sort_map)
qed

lemma normalize_range: "0 \<le> normalizeUtilizationDimension c b d \<and> normalizeUtilizationDimension c b d \<le> 100"
  by (simp add: normalizeUtilizationDimension_def Let_def)

lemma context_dimension_cases:
  "dim_key (contextDimension cur bas) = Context_continuity \<and>
   (dim_score (contextDimension cur bas) = None) = (dim_reason (contextDimension cur bas) \<noteq> None) \<and>
   (\<forall>s. dim_score (contextDimension cur bas) = Some s \<longrightarrow> 0 \<le> s \<and> s \<le> 100
      \<and> length (contextValues cur) \<ge> 3 \<and> length (contextValues bas) \<ge> 7)"
  by (auto simp: contextDimension_def unavailableDimension_def Let_def normalize_range split: if_splits)

lemma execution_dimension_cases:
  "dim_key (executionDimension cur bas) = Execution_stability \<and>
   (dim_score (executionDimension cur bas) = None) = (dim_reason (executionDimension cur bas) \<noteq> None) \<and>
   (\<forall>s. dim_score (executionDimension cur bas) = Some s \<longrightarrow> 0 \<le> s \<and> s \<le> 100
      \<and> toolCoverage (toolTotals cur) \<ge> 7/10 \<and> toolCoverage (toolTotals bas) \<ge> 7/10)"
  by (auto simp: executionDimension_def unavailableDimension_def Let_def normalize_range split: if_splits)

lemma js_unique_empty_iff [simp]: "js_unique xs = [] \<longleftrightarrow> xs = []"
  by (metis set_js_unique set_empty)

lemma js_round_mean:
  fixes a b :: int
  shows "min a b \<le> js_round (of_int (a + b) / 2)" "js_round (of_int (a + b) / 2) \<le> max a b"
proof -
  have e: "js_round (of_int (a + b) / 2) = (a + b + 1) div 2"
    by (metis (no_types) add_divide_distrib floor_divide_of_int_eq js_round_def of_int_1 of_int_add of_int_numeral)
  show "min a b \<le> js_round (of_int (a + b) / 2)" "js_round (of_int (a + b) / 2) \<le> max a b"
    unfolding e by (cases "a \<le> b"; simp add: min_def max_def)+
qed

text \<open>With a score for both dimensions, the result carries their rounded mean.\<close>

lemma valid_scores_pair:
  "valid_scores [d, e] = (case dim_score d of None \<Rightarrow> [] | Some s \<Rightarrow> [s]) @ (case dim_score e of None \<Rightarrow> [] | Some s \<Rightarrow> [s])"
  by (simp add: valid_scores_def)

lemma personal_score_iff:
  "pr_score (personal_from_rows cur bas periods) = Some s \<longleftrightarrow>
     pr_reasons (personal_from_rows cur bas periods) = [] \<and>
     (\<exists>a b. dim_score (contextDimension cur bas) = Some a \<and> dim_score (executionDimension cur bas) = Some b
        \<and> s = js_round (of_int (a + b) / 2))"
  by (auto simp: personal_from_rows_def Let_def valid_scores_pair split: option.splits)

lemma personal_score_None:
  "pr_score (personal_from_rows cur bas periods) = None \<longleftrightarrow> pr_reasons (personal_from_rows cur bas periods) \<noteq> []"
  by (auto simp: personal_from_rows_def Let_def valid_scores_pair split: option.splits)

lemma personal_from_rows_dims:
  "pr_dimensions (personal_from_rows cur bas periods) = [contextDimension cur bas, executionDimension cur bas]"
  by (simp add: personal_from_rows_def Let_def)

lemma personal_confidence:
  "pr_confidence (personal_from_rows cur bas periods) = Low \<longleftrightarrow> pr_score (personal_from_rows cur bas periods) = None"
  "pr_confidence (personal_from_rows cur bas periods) = High \<Longrightarrow>
     14 \<le> activeDays bas \<and> toolCoverage (toolTotals cur) \<ge> 9/10 \<and> toolCoverage (toolTotals bas) \<ge> 9/10"
  by (auto simp: personal_from_rows_def Let_def split: if_splits)

text \<open>The common conditions of a score: three active days, five sessions, seven baseline days.\<close>

lemma personal_reasons_common:
  "pr_reasons (personal_from_rows cur bas periods) = [] \<Longrightarrow>
     3 \<le> activeDays cur \<and> 5 \<le> sum_of f_sessions cur \<and> 7 \<le> activeDays bas"
  by (auto simp: personal_from_rows_def Let_def common_reasons_def split: if_splits)

lemma calculate_personal_eq:
  "calculatePersonalUtilization db rows periods = Inr r \<Longrightarrow>
     \<exists>cur bas. rowsInPeriod db rows (ut_current periods) (ut_timezone periods) = Inr cur
       \<and> rowsInPeriod db rows (ut_baseline periods) (ut_timezone periods) = Inr bas
       \<and> r = personal_from_rows cur bas periods"
  by (auto simp: calculatePersonalUtilization_def and_then_eq_Inr)

section \<open>Properties\<close>

text \<open>the personal score exists exactly when no reason against it is listed, and exactly
  then the confidence is not low.  A score lies in \<open>0..100\<close> and between the scores of its two
  dimensions, and is only given to a user with five sessions on three active days whose tool
  outcomes are covered to 70 percent.  High confidence additionally needs coverage of 90 percent.\<close>

theorem personal_result_sound:
  assumes "calculatePersonalUtilization db rows periods = Inr r"
    and "rowsInPeriod db rows (ut_current periods) (ut_timezone periods) = Inr cur"
  shows "(pr_score r = None) = (pr_reasons r \<noteq> []) \<and> (pr_confidence r = Low) = (pr_score r = None)
    \<and> map dim_key (pr_dimensions r) = [Context_continuity, Execution_stability]
    \<and> (\<forall>s. pr_score r = Some s \<longrightarrow>
        (\<exists>a b. map dim_score (pr_dimensions r) = [Some a, Some b] \<and> 0 \<le> min a b \<and> min a b \<le> s
          \<and> s \<le> max a b \<and> max a b \<le> 100)
        \<and> 3 \<le> activeDays cur \<and> 5 \<le> sum_of f_sessions cur \<and> 7/10 \<le> toolCoverage (toolTotals cur))
    \<and> (pr_confidence r = High \<longrightarrow> pr_score r \<noteq> None \<and> 9/10 \<le> toolCoverage (toolTotals cur))"
proof -
  obtain bas where r: "r = personal_from_rows cur bas periods"
    using calculate_personal_eq [OF assms(1)] assms(2) by auto
  have low: "(pr_confidence r = Low) = (pr_score r = None)" unfolding r by (rule personal_confidence(1))
  have keys: "map dim_key (pr_dimensions r) = [Context_continuity, Execution_stability]"
    unfolding r personal_from_rows_dims by (simp add: context_dimension_cases execution_dimension_cases)
  have high: "pr_confidence r = High \<longrightarrow> pr_score r \<noteq> None \<and> 9/10 \<le> toolCoverage (toolTotals cur)"
    using personal_confidence(2) [of cur bas periods] low unfolding r by auto
  have "(\<exists>a b. map dim_score (pr_dimensions r) = [Some a, Some b] \<and> 0 \<le> min a b \<and> min a b \<le> s
      \<and> s \<le> max a b \<and> max a b \<le> 100)
    \<and> 3 \<le> activeDays cur \<and> 5 \<le> sum_of f_sessions cur \<and> 7/10 \<le> toolCoverage (toolTotals cur)"
    if s: "pr_score r = Some s" for s
  proof -
    obtain a b where ab: "dim_score (contextDimension cur bas) = Some a"
        "dim_score (executionDimension cur bas) = Some b" "s = js_round (of_int (a + b) / 2)"
      and none: "pr_reasons r = []"
      using s unfolding r personal_score_iff by auto
    have "map dim_score (pr_dimensions r) = [Some a, Some b]"
      unfolding r personal_from_rows_dims using ab by simp
    moreover have "0 \<le> min a b \<and> max a b \<le> 100"
      using ab context_dimension_cases execution_dimension_cases by simp
    moreover have "min a b \<le> s \<and> s \<le> max a b" unfolding ab(3) using js_round_mean by blast
    ultimately have "\<exists>a b. map dim_score (pr_dimensions r) = [Some a, Some b] \<and> 0 \<le> min a b \<and> min a b \<le> s
      \<and> s \<le> max a b \<and> max a b \<le> 100" by (intro exI [of _ a] exI [of _ b]) simp
    moreover have "7/10 \<le> toolCoverage (toolTotals cur)"
      using ab(2) execution_dimension_cases [of cur bas] by blast
    moreover have "3 \<le> activeDays cur" "5 \<le> sum_of f_sessions cur"
      using personal_reasons_common [of cur bas periods] none unfolding r by auto
    ultimately show ?thesis by simp
  qed
  moreover have "(pr_score r = None) = (pr_reasons r \<noteq> [])" unfolding r by (rule personal_score_None)
  ultimately show ?thesis using low keys high by simp
qed

definition utc_intl :: intl where
  "utc_intl = \<lparr>tz_resolve = (\<lambda>z. Some z), tz_date = (\<lambda>z t. iso_date t), tz_parts = (\<lambda>z t. ([], 0))\<rparr>"

text \<open>A day with five sessions, half of the input read from the cache and nine of ten tool calls successful.\<close>

definition example_feature :: "string \<Rightarrow> daily_feature" where
  "example_feature day =
     \<lparr>f_userId = ''u'', f_day = day, f_sessions = 5, f_inputTokens = 50, f_cacheReadTokens = 50,
      f_cacheCreationTokens = 0, f_cacheSignalEvents = 4, f_cacheUnsupportedEvents = 0, f_toolSuccesses = 9,
      f_toolFailures = 1, f_toolUnknown = 0, f_repeatedToolFailures = 0, f_recoveryAttempts = 0,
      f_successfulRecoveries = 0, f_sessionToolKnownCalls = 10, f_toolActiveSessions = 5, f_distinctTools = 3\<rparr>"

definition example_cur :: "daily_feature list" where
  "example_cur = map example_feature [''1970-01-08'', ''1970-01-09'', ''1970-01-10'']"

definition example_bas :: "daily_feature list" where
  "example_bas = map example_feature [''1970-01-01'', ''1970-01-02'', ''1970-01-03'', ''1970-01-04'',
     ''1970-01-05'', ''1970-01-06'', ''1970-01-07'']"

definition example_periods :: utilization_periods where
  "example_periods = \<lparr>ut_current = \<lparr>per_from = 604800000, per_to = 864000000\<rparr>,
     ut_baseline = \<lparr>per_from = 0, per_to = 604800000\<rparr>, ut_timezone = ''UTC''\<rparr>"

lemma example_rows:
  "rowsInPeriod utc_intl (example_cur @ example_bas) (ut_current example_periods) (ut_timezone example_periods) = Inr example_cur"
  "rowsInPeriod utc_intl (example_cur @ example_bas) (ut_baseline example_periods) (ut_timezone example_periods) = Inr example_bas"
  by code_simp+

lemma example_personal: "pr_score (personal_from_rows example_cur example_bas example_periods) = Some 50"
  by code_simp

lemma personal_result_sound_witness:
  "\<exists>r. calculatePersonalUtilization utc_intl (example_cur @ example_bas) example_periods = Inr r
    \<and> pr_score r = Some 50 \<and> pr_reasons r = [] \<and> 5 \<le> sum_of f_sessions example_cur"
proof -
  let ?r = "personal_from_rows example_cur example_bas example_periods"
  have r: "calculatePersonalUtilization utc_intl (example_cur @ example_bas) example_periods = Inr ?r"
    by (simp add: calculatePersonalUtilization_def example_rows)
  from personal_result_sound [OF r example_rows(1)] example_personal r show ?thesis by auto
qed

text \<open>the organisation's scores are only shown for at least five users with a score; the quartiles
  enclose the median, the three groups of the relative distribution count every user once, and with
  results for five or more of the active users the counts of shown and excluded users add up.\<close>

theorem organization_scores_sound:
  assumes "aggregateOrganizationUtilization results activeUsers = Available org"
  shows "5 \<le> activeUsers \<and> 5 \<le> org_sampleSize org
    \<and> of_int (org_p25 org) \<le> org_median org \<and> org_median org \<le> of_int (org_p75 org)
    \<and> org_above org + org_usual org + org_below org = org_sampleSize org
    \<and> max activeUsers (int (org_sampleSize org)) = int (org_sampleSize org) + org_excludedUsers org
    \<and> (\<forall>r \<in> set results. pr_methodologyVersion r = UTILIZATION_METHODOLOGY_VERSION)"
proof -
  define scores where "scores = map (\<lambda>r. the (pr_score r)) (eligible_results results)"
  have five: "5 \<le> length scores" and fields: "org_sampleSize org = length scores"
      "org_excludedUsers org = max 0 (activeUsers - int (length scores))"
      "org_median org = median (map of_int scores)" "org_p25 org = percentile scores (1/4)"
      "org_p75 org = percentile scores (3/4)" "org_above org = length (filter (\<lambda>s. s \<ge> 56) scores)"
      "org_usual org = length (filter (\<lambda>s. s \<ge> 45 \<and> s \<le> 55) scores)"
      "org_below org = length (filter (\<lambda>s. s \<le> 44) scores)"
    and act: "5 \<le> activeUsers"
    and version: "\<forall>r \<in> set results. pr_methodologyVersion r = UTILIZATION_METHODOLOGY_VERSION"
    using assms unfolding scores_def
    by (auto simp: aggregateOrganizationUtilization_def Let_def list_ex_iff split: if_splits)
  have groups: "length (filter (\<lambda>s. s \<ge> 56) xs) + length (filter (\<lambda>s. s \<ge> 45 \<and> s \<le> 55) xs)
      + length (filter (\<lambda>s. s \<le> 44) xs) = length xs" for xs :: "int list"
    by (induction xs) auto
  show ?thesis
    using five act version percentile_median [OF five] groups [of scores] unfolding fields by simp
qed

lemma organization_scores_sound_witness:
  "\<exists>o'. aggregateOrganizationUtilization
      (replicate 5 (personal_from_rows example_cur example_bas example_periods)) 6 = Available o'
    \<and> org_above o' + org_usual o' + org_below o' = org_sampleSize o'"
proof -
  let ?rs = "replicate 5 (personal_from_rows example_cur example_bas example_periods)"
  have v: "pr_methodologyVersion (personal_from_rows example_cur example_bas example_periods) = UTILIZATION_METHODOLOGY_VERSION"
    by (simp add: personal_from_rows_def Let_def)
  have "pr_confidence (personal_from_rows example_cur example_bas example_periods) \<noteq> Low"
    using personal_confidence(1) example_personal by simp
  then have "\<exists>o'. aggregateOrganizationUtilization ?rs 6 = Available o'"
    by (simp add: aggregateOrganizationUtilization_def Let_def eligible_results_def list_ex_iff v example_personal)
  with organization_scores_sound show ?thesis by blast
qed

end
