(* ===== verification/Wire.thy ===== *)
theory Wire
  imports Js_Value
begin

text \<open>
  \<open>packages/core/src/wire.ts\<close> (the body of \<open>POST /api/v1/events\<close>),
  \<open>packages/core/src/collection-health.ts\<close> (the health report of the collectors) and
  \<open>packages/core/src/deployment-release.ts\<close> (the release identity in the environment). What a
  thrown error says is a constructor of an error type; \<open>new Date(raw)\<close>, whose grammar beyond ISO
  8601 is the host's, is a parameter.
\<close>

type_synonym date_parser = "string \<Rightarrow> instant option"

section \<open>Parsing a list with the index of the first error\<close>

fun parse_items :: "('a \<Rightarrow> 'e + 'b) \<Rightarrow> nat \<Rightarrow> 'a list \<Rightarrow> ('e \<times> nat) + 'b list" where
  "parse_items f i [] = Inr []"
| "parse_items f i (x # xs) =
     (case f x of
        Inl e \<Rightarrow> Inl (e, i)
      | Inr b \<Rightarrow> (case parse_items f (Suc i) xs of Inl err \<Rightarrow> Inl err | Inr bs \<Rightarrow> Inr (b # bs)))"

lemma parse_items_Inr: "parse_items f i xs = Inr bs \<longleftrightarrow> list_all2 (\<lambda>x b. f x = Inr b) xs bs"
proof (induction xs arbitrary: i bs)
  case Nil
  then show ?case by auto
next
  case (Cons x xs)
  show ?case by (cases "f x") (auto simp: list_all2_Cons1 Cons.IH [of "Suc i", symmetric] split: sum.splits)
qed

text \<open>The reported index is that of the first item that fails.\<close>

lemma parse_items_Inl:
  "parse_items f i xs = Inl (e, j) \<Longrightarrow>
     i \<le> j \<and> j - i < length xs \<and> f (xs ! (j - i)) = Inl e \<and> (\<forall>k < j - i. \<exists>b. f (xs ! k) = Inr b)"
proof (induction xs arbitrary: i)
  case Nil
  then show ?case by simp
next
  case (Cons x xs)
  show ?case
  proof (cases "f x")
    case (Inl e')
    with Cons.prems show ?thesis by auto
  next
    case (Inr b)
    with Cons.prems have "parse_items f (Suc i) xs = Inl (e, j)" by (auto split: sum.splits)
    from Cons.IH [OF this] have s: "Suc i \<le> j" "j - Suc i < length xs" "f (xs ! (j - Suc i)) = Inl e"
      "\<forall>k < j - Suc i. \<exists>b. f (xs ! k) = Inr b" by auto
    have j: "j - i = Suc (j - Suc i)" using s(1) by simp
    show ?thesis unfolding j using s Inr by (auto simp: less_Suc_eq_0_disj)
  qed
qed

section \<open>Usage events\<close>

datatype wire_problem =
  Not_an_object | Not_nonempty string | Not_string_or_null string | Not_a_count string
| Not_iso_date string | Bad_cost | One_hour_exceeds_creation | Not_an_array

record wire_event =
  we_dedupKey :: string
  we_providerKey :: string
  we_userId :: "string option"
  we_sessionId :: "string option"
  we_model :: "string option"
  we_ts :: instant
  we_inputTokens :: int
  we_outputTokens :: int
  we_cacheReadTokens :: int
  we_cacheCreationTokens :: int
  we_cacheCreation1hTokens :: int
  we_costUsd :: rat
  we_logAdapter :: "string option"
  we_host :: "string option"

definition isRecord :: "jsvalue \<Rightarrow> bool" where
  "isRecord v = (case v of JObj _ \<Rightarrow> True | _ \<Rightarrow> False)"

fun fields_of :: "jsvalue \<Rightarrow> (string \<times> jsvalue) list" where
  "fields_of (JObj ps) = ps"
| "fields_of _ = []"

definition nonEmptyString :: "jsvalue \<Rightarrow> string \<Rightarrow> wire_problem + string" where
  "nonEmptyString v field =
     (case v of JStr s \<Rightarrow> if s = [] then Inl (Not_nonempty field) else Inr s | _ \<Rightarrow> Inl (Not_nonempty field))"

definition nullableString :: "jsvalue \<Rightarrow> string \<Rightarrow> wire_problem + string option" where
  "nullableString v field =
     (if is_nullish v then Inr None
      else case v of JStr s \<Rightarrow> Inr (Some s) | _ \<Rightarrow> Inl (Not_string_or_null field))"

definition tokenCount :: "jsvalue \<Rightarrow> string \<Rightarrow> wire_problem + int" where
  "tokenCount v field =
     (case v of
        JNum n \<Rightarrow> (case n of
            Fin q \<Rightarrow> if \<not> num_is_safe_integer n \<or> q < 0 then Inl (Not_a_count field) else Inr \<lfloor>q\<rfloor>
          | _ \<Rightarrow> Inl (Not_a_count field))
      | _ \<Rightarrow> Inl (Not_a_count field))"

definition optTokenCount :: "jsvalue \<Rightarrow> string \<Rightarrow> wire_problem + int" where
  "optTokenCount v field = (if is_nullish v then Inr 0 else tokenCount v field)"

definition wire_date :: "date_parser \<Rightarrow> string \<Rightarrow> wire_problem + instant" where
  "wire_date parse_date raw = (case parse_date raw of None \<Rightarrow> Inl (Not_iso_date raw) | Some t \<Rightarrow> Inr t)"

definition wire_cost :: "jsvalue \<Rightarrow> wire_problem + rat" where
  "wire_cost v =
     (let costUsd = (if v = JUndef then JNum (Fin 0) else v)
      in case costUsd of
           JNum (Fin q) \<Rightarrow> if q < 0 then Inl Bad_cost else Inr q
         | _ \<Rightarrow> Inl Bad_cost)"

definition parseUsageEventWire :: "date_parser \<Rightarrow> jsvalue \<Rightarrow> wire_problem + wire_event" where
  "parseUsageEventWire parse_date v =
     (if \<not> isRecord v then Inl Not_an_object else
      let g = js_get (fields_of v) in
      and_then (nonEmptyString (g ''dedupKey'') ''dedupKey'') (\<lambda>dedupKey.
      and_then (nonEmptyString (g ''providerKey'') ''providerKey'') (\<lambda>providerKey.
      and_then (nullableString (g ''userId'') ''userId'') (\<lambda>userId.
      and_then (nullableString (g ''sessionId'') ''sessionId'') (\<lambda>sessionId.
      and_then (nullableString (g ''model'') ''model'') (\<lambda>model.
      and_then (nonEmptyString (g ''ts'') ''ts'') (\<lambda>tsRaw.
      and_then (wire_date parse_date tsRaw) (\<lambda>ts.
      and_then (wire_cost (g ''costUsd'')) (\<lambda>costUsd.
      and_then (tokenCount (g ''inputTokens'') ''inputTokens'') (\<lambda>inputTokens.
      and_then (tokenCount (g ''outputTokens'') ''outputTokens'') (\<lambda>outputTokens.
      and_then (tokenCount (g ''cacheReadTokens'') ''cacheReadTokens'') (\<lambda>cacheReadTokens.
      and_then (tokenCount (g ''cacheCreationTokens'') ''cacheCreationTokens'') (\<lambda>cacheCreationTokens.
      and_then (optTokenCount (g ''cacheCreation1hTokens'') ''cacheCreation1hTokens'') (\<lambda>oneHour.
      and_then (nullableString (g ''logAdapter'') ''logAdapter'') (\<lambda>logAdapter.
      and_then (nullableString (g ''host'') ''host'') (\<lambda>host.
      if oneHour > cacheCreationTokens then Inl One_hour_exceeds_creation
      else Inr \<lparr>we_dedupKey = dedupKey, we_providerKey = providerKey, we_userId = userId,
             we_sessionId = sessionId, we_model = model, we_ts = ts, we_inputTokens = inputTokens,
             we_outputTokens = outputTokens, we_cacheReadTokens = cacheReadTokens,
             we_cacheCreationTokens = cacheCreationTokens, we_cacheCreation1hTokens = oneHour,
             we_costUsd = costUsd, we_logAdapter = logAdapter, we_host = host\<rparr>))))))))))))))))"

definition parseUsageEventsBody :: "date_parser \<Rightarrow> jsvalue \<Rightarrow> (wire_problem \<times> nat option) + wire_event list" where
  "parseUsageEventsBody parse_date body =
     (case body of
        JArr items \<Rightarrow> (case parse_items (parseUsageEventWire parse_date) 0 items of
            Inl (e, i) \<Rightarrow> Inl (e, Some i)
          | Inr events \<Rightarrow> Inr events)
      | _ \<Rightarrow> Inl (Not_an_array, None))"

section \<open>What an accepted event promises\<close>

definition count_ok :: "int \<Rightarrow> bool" where
  "count_ok n \<longleftrightarrow> 0 \<le> n \<and> n \<le> max_safe_integer"

definition wire_event_ok :: "wire_event \<Rightarrow> bool" where
  "wire_event_ok e \<longleftrightarrow> we_dedupKey e \<noteq> [] \<and> we_providerKey e \<noteq> []
     \<and> count_ok (we_inputTokens e) \<and> count_ok (we_outputTokens e)
     \<and> count_ok (we_cacheReadTokens e) \<and> count_ok (we_cacheCreationTokens e)
     \<and> 0 \<le> we_cacheCreation1hTokens e \<and> we_cacheCreation1hTokens e \<le> we_cacheCreationTokens e
     \<and> 0 \<le> we_costUsd e"

lemma nonEmptyString_Inr: "nonEmptyString v f = Inr s \<longleftrightarrow> v = JStr s \<and> s \<noteq> []"
  by (auto simp: nonEmptyString_def split: jsvalue.splits)

lemma tokenCount_Inr: "tokenCount v f = Inr n \<longleftrightarrow> v = JNum (Fin (of_int n)) \<and> count_ok n"
proof
  assume "tokenCount v f = Inr n"
  then obtain q where v: "v = JNum (Fin q)" and q: "num_is_safe_integer (Fin q)" "0 \<le> q" and n: "n = \<lfloor>q\<rfloor>"
    by (auto simp: tokenCount_def split: jsvalue.splits jsnum.splits if_splits)
  from num_safe_integerD [OF q(1)] obtain m where "q = of_int m" "\<bar>m\<bar> \<le> max_safe_integer" by auto
  with v q(2) n show "v = JNum (Fin (of_int n)) \<and> count_ok n" by (simp add: count_ok_def)
next
  assume n: "v = JNum (Fin (of_int n)) \<and> count_ok n"
  then have "\<bar>of_int n :: rat\<bar> \<le> of_int max_safe_integer" by (simp add: count_ok_def flip: of_int_abs)
  with n show "tokenCount v f = Inr n"
    by (simp add: tokenCount_def num_is_safe_integer_def rat_is_int_def count_ok_def)
qed

lemma optTokenCount_Inr: "optTokenCount v f = Inr n \<Longrightarrow> 0 \<le> n"
  by (auto simp: optTokenCount_def tokenCount_Inr count_ok_def split: if_splits)

lemma wire_cost_Inr: "wire_cost v = Inr q \<Longrightarrow> 0 \<le> q"
  by (auto simp: wire_cost_def Let_def split: jsvalue.splits jsnum.splits if_splits)

lemma parseUsageEventWire_ok: "parseUsageEventWire pd v = Inr e \<Longrightarrow> wire_event_ok e"
  by (auto simp: parseUsageEventWire_def Let_def and_then_eq_Inr nonEmptyString_Inr tokenCount_Inr
    wire_event_ok_def optTokenCount_Inr wire_cost_Inr split: if_splits)

section \<open>The health report of the collectors\<close>

datatype health_problem =
  Invalid_report | Unsupported_field | Invalid_count | Unsupported_schema | Invalid_host_label
| Invalid_provider | Invalid_state | Invalid_error_code | Inconsistent_report

definition COLLECTION_STATES :: "string list" where
  "COLLECTION_STATES = [''ok'', ''no_records'', ''error'', ''unsupported'', ''paused'']"

definition COLLECTION_ERROR_CODES :: "string list" where
  "COLLECTION_ERROR_CODES =
     [''read_failed'', ''parse_failed'', ''queue_full'', ''transport_failed'', ''unsupported_schema'', ''unknown'']"

record collector_health =
  ch_providerKey :: string
  ch_state :: string
  ch_scannedFiles :: "int option"
  ch_parsedEvents :: "int option"
  ch_parseErrors :: "int option"
  ch_pendingEvents :: "int option"
  ch_errorCode :: "string option"

record health_report =
  hr_host :: "string option"
  hr_collectors :: "collector_health list"

definition health_object :: "jsvalue \<Rightarrow> health_problem + (string \<times> jsvalue) list" where
  "health_object v = (case v of JObj ps \<Rightarrow> Inr ps | _ \<Rightarrow> Inl Invalid_report)"

definition knownKeys :: "(string \<times> jsvalue) list \<Rightarrow> string list \<Rightarrow> health_problem + unit" where
  "knownKeys ps keys = (if list_ex (\<lambda>p. fst p \<notin> set keys) ps then Inl Unsupported_field else Inr ())"

definition health_count :: "jsvalue \<Rightarrow> health_problem + int option" where
  "health_count v =
     (if is_nullish v then Inr None
      else case v of
        JNum (Fin q) \<Rightarrow> if \<not> rat_is_int q \<or> q < 0 \<or> q > 1000000000 then Inl Invalid_count else Inr (Some \<lfloor>q\<rfloor>)
      | _ \<Rightarrow> Inl Invalid_count)"

text \<open>\<open>/[\x00-\x1f\x7f]/\<close> and \<open>/^(?:[/\\]|[a-z]:[/\\]|~[/\\])/i\<close>: a control character, and a path.\<close>

definition control_char :: "char \<Rightarrow> bool" where
  "control_char c \<longleftrightarrow> code_of c \<le> 31 \<or> code_of c = 127"

definition slash_char :: "char \<Rightarrow> bool" where
  "slash_char c \<longleftrightarrow> code_of c = 47 \<or> code_of c = 92"

fun path_like :: "string \<Rightarrow> bool" where
  "path_like [] = False"
| "path_like (a # rest) \<longleftrightarrow> slash_char a
     \<or> (case rest of
          [] \<Rightarrow> False
        | b # rest' \<Rightarrow>
            (is_lower a \<or> is_upper a) \<and> b = CHR '':'' \<and> (case rest' of [] \<Rightarrow> False | c # _ \<Rightarrow> slash_char c)
            \<or> a = CHR ''~'' \<and> slash_char b)"

definition host_label :: "jsvalue \<Rightarrow> health_problem + string option" where
  "host_label v =
     (if is_nullish v then Inr None
      else case v of
        JStr s \<Rightarrow> if length s > 255 \<or> list_ex control_char s \<or> path_like s then Inl Invalid_host_label else Inr (Some s)
      | _ \<Rightarrow> Inl Invalid_host_label)"

text \<open>\<open>/^[a-z0-9][a-z0-9_-]{0,63}$/\<close>\<close>

definition provider_key_shape :: "string \<Rightarrow> bool" where
  "provider_key_shape s =
     (case s of [] \<Rightarrow> False
      | c # cs \<Rightarrow> (is_lower c \<or> is_digit c) \<and> length cs \<le> 63
          \<and> list_all (\<lambda>d. is_lower d \<or> is_digit d \<or> d = CHR ''_'' \<or> d = CHR ''-'') cs)"

definition health_provider :: "string list \<Rightarrow> jsvalue \<Rightarrow> health_problem + string" where
  "health_provider seen v =
     (case v of JStr k \<Rightarrow> if \<not> provider_key_shape k \<or> k \<in> set seen then Inl Invalid_provider else Inr k
      | _ \<Rightarrow> Inl Invalid_provider)"

definition health_state :: "jsvalue \<Rightarrow> health_problem + string" where
  "health_state v =
     (case v of JStr s \<Rightarrow> if s \<in> set COLLECTION_STATES then Inr s else Inl Invalid_state
      | _ \<Rightarrow> Inl Invalid_state)"

definition health_error_code :: "jsvalue \<Rightarrow> health_problem + string option" where
  "health_error_code v =
     (if is_nullish v then Inr None
      else case v of
        JStr s \<Rightarrow> if s \<in> set COLLECTION_ERROR_CODES then Inr (Some s) else Inl Invalid_error_code
      | _ \<Rightarrow> Inl Invalid_error_code)"

text \<open>One collector; \<open>seen\<close> are the providers of the rows before it.\<close>

definition parse_collector :: "string list \<Rightarrow> jsvalue \<Rightarrow> health_problem + collector_health" where
  "parse_collector seen input =
     and_then (health_object input) (\<lambda>row.
     and_then (knownKeys row [''providerKey'', ''state'', ''scannedFiles'', ''parsedEvents'', ''parseErrors'',
       ''pendingEvents'', ''errorCode'']) (\<lambda>_.
     and_then (health_provider seen (js_get row ''providerKey'')) (\<lambda>provider.
     and_then (health_state (js_get row ''state'')) (\<lambda>state.
     and_then (health_error_code (js_get row ''errorCode'')) (\<lambda>errorCode.
     and_then (health_count (js_get row ''scannedFiles'')) (\<lambda>scanned.
     and_then (health_count (js_get row ''parsedEvents'')) (\<lambda>parsed.
     and_then (health_count (js_get row ''parseErrors'')) (\<lambda>errors.
     and_then (health_count (js_get row ''pendingEvents'')) (\<lambda>pending.
     if (case errors of None \<Rightarrow> 0 | Some n \<Rightarrow> n) > 0 \<and> state = ''ok'' then Inl Inconsistent_report
     else Inr \<lparr>ch_providerKey = provider, ch_state = state, ch_scannedFiles = scanned, ch_parsedEvents = parsed,
            ch_parseErrors = errors, ch_pendingEvents = pending, ch_errorCode = errorCode\<rparr>)))))))))"

fun parse_collectors :: "string list \<Rightarrow> jsvalue list \<Rightarrow> health_problem + collector_health list" where
  "parse_collectors seen [] = Inr []"
| "parse_collectors seen (v # vs) =
     and_then (parse_collector seen v) (\<lambda>c.
     and_then (parse_collectors (ch_providerKey c # seen) vs) (\<lambda>cs. Inr (c # cs)))"

definition parseCollectionHealthReport :: "jsvalue \<Rightarrow> health_problem + health_report" where
  "parseCollectionHealthReport v =
     and_then (health_object v) (\<lambda>report.
     and_then (knownKeys report [''schemaVersion'', ''host'', ''collectors'']) (\<lambda>_.
     and_then (case js_get report ''collectors'' of
         JArr rows \<Rightarrow> if js_get report ''schemaVersion'' \<noteq> JNum (Fin 1) \<or> length rows > 32
           then Inl Unsupported_schema else Inr rows
       | _ \<Rightarrow> Inl Unsupported_schema) (\<lambda>rows.
     and_then (host_label (js_get report ''host'')) (\<lambda>host.
     and_then (parse_collectors [] rows) (\<lambda>collectors.
     Inr \<lparr>hr_host = host, hr_collectors = collectors\<rparr>)))))"

definition health_count_ok :: "int option \<Rightarrow> bool" where
  "health_count_ok c = (case c of None \<Rightarrow> True | Some n \<Rightarrow> 0 \<le> n \<and> n \<le> 1000000000)"

definition collector_ok :: "collector_health \<Rightarrow> bool" where
  "collector_ok c \<longleftrightarrow> provider_key_shape (ch_providerKey c) \<and> ch_state c \<in> set COLLECTION_STATES
     \<and> (\<forall>e \<in> set_option (ch_errorCode c). e \<in> set COLLECTION_ERROR_CODES)
     \<and> list_all health_count_ok [ch_scannedFiles c, ch_parsedEvents c, ch_parseErrors c, ch_pendingEvents c]
     \<and> (ch_state c = ''ok'' \<longrightarrow> ch_parseErrors c = None \<or> ch_parseErrors c = Some 0)"

lemma health_count_Inr: "health_count v = Inr c \<Longrightarrow> health_count_ok c"
  by (auto simp: health_count_def health_count_ok_def floor_le_iff le_floor_iff
    split: jsvalue.splits jsnum.splits if_splits)

lemma health_provider_Inr: "health_provider seen v = Inr k \<Longrightarrow> provider_key_shape k \<and> k \<notin> set seen"
  by (auto simp: health_provider_def split: jsvalue.splits if_splits)

lemma health_state_Inr: "health_state v = Inr s \<Longrightarrow> s \<in> set COLLECTION_STATES"
  by (auto simp: health_state_def split: jsvalue.splits if_splits)

lemma health_error_code_Inr: "health_error_code v = Inr c \<Longrightarrow> e \<in> set_option c \<Longrightarrow> e \<in> set COLLECTION_ERROR_CODES"
  by (auto simp: health_error_code_def split: jsvalue.splits if_splits)

lemma parse_collector_Inr:
  assumes "parse_collector seen v = Inr c"
  shows "\<exists>row. health_provider seen (js_get row ''providerKey'') = Inr (ch_providerKey c)
    \<and> health_state (js_get row ''state'') = Inr (ch_state c)
    \<and> health_error_code (js_get row ''errorCode'') = Inr (ch_errorCode c)
    \<and> health_count (js_get row ''scannedFiles'') = Inr (ch_scannedFiles c)
    \<and> health_count (js_get row ''parsedEvents'') = Inr (ch_parsedEvents c)
    \<and> health_count (js_get row ''parseErrors'') = Inr (ch_parseErrors c)
    \<and> health_count (js_get row ''pendingEvents'') = Inr (ch_pendingEvents c)
    \<and> \<not> ((case ch_parseErrors c of None \<Rightarrow> 0 | Some n \<Rightarrow> n) > 0 \<and> ch_state c = ''ok'')"
  using assms unfolding parse_collector_def and_then_eq_Inr by (elim exE conjE) (simp split: if_splits, force)

lemma parse_collector_ok:
  assumes "parse_collector seen v = Inr c"
  shows "collector_ok c" and "ch_providerKey c \<notin> set seen"
proof -
  from parse_collector_Inr [OF assms] obtain row where
    p: "health_provider seen (js_get row ''providerKey'') = Inr (ch_providerKey c)"
    and s: "health_state (js_get row ''state'') = Inr (ch_state c)"
    and e: "health_error_code (js_get row ''errorCode'') = Inr (ch_errorCode c)"
    and n: "health_count (js_get row ''scannedFiles'') = Inr (ch_scannedFiles c)"
      "health_count (js_get row ''parsedEvents'') = Inr (ch_parsedEvents c)"
      "health_count (js_get row ''parseErrors'') = Inr (ch_parseErrors c)"
      "health_count (js_get row ''pendingEvents'') = Inr (ch_pendingEvents c)"
    and ok: "\<not> ((case ch_parseErrors c of None \<Rightarrow> 0 | Some n \<Rightarrow> n) > 0 \<and> ch_state c = ''ok'')"
    by blast
  show "ch_providerKey c \<notin> set seen" using health_provider_Inr [OF p] by simp
  note counts = n [THEN health_count_Inr]
  have "ch_state c = ''ok'' \<longrightarrow> ch_parseErrors c = None \<or> ch_parseErrors c = Some 0"
    using ok counts(3) by (auto simp: health_count_ok_def split: option.splits)
  then show "collector_ok c"
    using health_provider_Inr [OF p] health_state_Inr [OF s] health_error_code_Inr [OF e] counts
    by (simp add: collector_ok_def)
qed

lemma parse_collectors_ok:
  "parse_collectors seen vs = Inr cs \<Longrightarrow>
     list_all collector_ok cs \<and> distinct (map ch_providerKey cs) \<and> set (map ch_providerKey cs) \<inter> set seen = {}
     \<and> length cs = length vs"
proof (induction vs arbitrary: seen cs)
  case Nil
  then show ?case by simp
next
  case (Cons v vs)
  from Cons.prems obtain c cs' where c: "parse_collector seen v = Inr c"
      and cs': "parse_collectors (ch_providerKey c # seen) vs = Inr cs'" and cs: "cs = c # cs'"
    by (auto simp: and_then_eq_Inr)
  from Cons.IH [OF cs'] parse_collector_ok [OF c] show ?case unfolding cs by auto
qed

section \<open>The release identity\<close>

text \<open>The environment is a partial map; the schema version is compared as text.\<close>

definition LATEST_SCHEMA_VERSION :: string where
  "LATEST_SCHEMA_VERSION = ''1700000055''"

definition alnum :: "char \<Rightarrow> bool" where
  "alnum c \<longleftrightarrow> is_lower c \<or> is_digit c"

text \<open>\<open>[a-z0-9](?:[-a-z0-9]{0,61}[a-z0-9])?\<close>: a DNS label.\<close>

definition dns_label :: "string \<Rightarrow> bool" where
  "dns_label s \<longleftrightarrow> s \<noteq> [] \<and> length s \<le> 63 \<and> alnum (hd s) \<and> alnum (last s)
     \<and> list_all (\<lambda>c. alnum c \<or> c = CHR ''-'') s"

definition deployment_id_shape :: "string \<Rightarrow> bool" where
  "deployment_id_shape s = (case split_on CHR ''/'' s of [a, b] \<Rightarrow> dns_label a \<and> dns_label b | _ \<Rightarrow> False)"

definition hex64 :: "string \<Rightarrow> bool" where
  "hex64 s \<longleftrightarrow> length s = 64 \<and> list_all is_lower_hex s"

record release_identity =
  ri_deploymentId :: string
  ri_releaseCompletionId :: string
  ri_expectedSchemaVersion :: string

text \<open>\<open>Inl ()\<close> is the thrown \<open>DEPLOYMENT_RELEASE_ENV_INVALID\<close>.\<close>

definition parseDeploymentReleaseEnvironment ::
  "(string \<Rightarrow> string option) \<Rightarrow> unit + release_identity option" where
  "parseDeploymentReleaseEnvironment env =
     (case (env ''TOARD_DEPLOYMENT_ID'', env ''TOARD_RELEASE_COMPLETION_ID'', env ''TOARD_EXPECTED_SCHEMA_VERSION'') of
        (None, None, None) \<Rightarrow> Inr None
      | (Some deploymentId, Some completionId, Some schema) \<Rightarrow>
          if \<not> deployment_id_shape deploymentId then Inl ()
          else if \<not> hex64 completionId then Inl ()
          else if schema \<noteq> LATEST_SCHEMA_VERSION then Inl ()
          else Inr (Some \<lparr>ri_deploymentId = deploymentId, ri_releaseCompletionId = completionId,
                 ri_expectedSchemaVersion = LATEST_SCHEMA_VERSION\<rparr>)
      | _ \<Rightarrow> Inl ())"

section \<open>Properties\<close>

text \<open>the body of the events endpoint is accepted exactly when it is an array whose items all parse;
  every accepted event has non-empty keys, counts that are safe integers, a non-negative cost and no
  more one-hour cache tokens than cache tokens. A rejected array is reported with the index of its
  first bad item and that item's own error, with no item accepted.\<close>

theorem usage_events_body_result:
  "case parseUsageEventsBody parse_date body of
     Inr events \<Rightarrow> \<exists>items. body = JArr items
       \<and> list_all2 (\<lambda>item e. parseUsageEventWire parse_date item = Inr e) items events
       \<and> list_all wire_event_ok events
   | Inl (e, None) \<Rightarrow> e = Not_an_array \<and> (\<forall>items. body \<noteq> JArr items)
   | Inl (e, Some i) \<Rightarrow> \<exists>items. body = JArr items \<and> i < length items
       \<and> parseUsageEventWire parse_date (items ! i) = Inl e
       \<and> (\<forall>k < i. \<exists>ev. parseUsageEventWire parse_date (items ! k) = Inr ev)"
proof (cases body)
  case (JArr items)
  show ?thesis
  proof (cases "parse_items (parseUsageEventWire parse_date) 0 items")
    case (Inl err)
    obtain e i where err: "err = (e, i)" by (cases err)
    from parse_items_Inl [OF Inl [unfolded err]] show ?thesis
      by (simp add: parseUsageEventsBody_def JArr Inl err)
  next
    case (Inr events)
    then have l: "list_all2 (\<lambda>item e. parseUsageEventWire parse_date item = Inr e) items events"
      by (simp add: parse_items_Inr)
    then have "list_all wire_event_ok events"
      by (induction rule: list_all2_induct) (auto intro: parseUsageEventWire_ok)
    with l show ?thesis by (simp add: parseUsageEventsBody_def JArr Inr)
  qed
qed (simp_all add: parseUsageEventsBody_def)

text \<open>C39: an accepted health report is metadata only: at most 32 collectors, each of a different provider
  with a well-formed key, a known state and error code and counts from 0 to a billion, none that reports
  parse errors while its state is ok; the host, if given, is a short label without control characters
  that is not a path.\<close>

theorem collection_health_report_ok:
  assumes "parseCollectionHealthReport v = Inr r"
  shows "length (hr_collectors r) \<le> 32 \<and> distinct (map ch_providerKey (hr_collectors r))
    \<and> list_all collector_ok (hr_collectors r)
    \<and> (\<forall>h. hr_host r = Some h \<longrightarrow> length h \<le> 255 \<and> \<not> list_ex control_char h \<and> \<not> path_like h)"
proof -
  from assms obtain rows report where rows: "parse_collectors [] rows = Inr (hr_collectors r)"
      and len: "length rows \<le> 32" and host: "host_label (js_get report ''host'') = Inr (hr_host r)"
    unfolding parseCollectionHealthReport_def and_then_eq_Inr
    by (elim exE conjE) (auto split: jsvalue.splits if_splits)
  have "length h \<le> 255 \<and> \<not> list_ex control_char h \<and> \<not> path_like h" if "hr_host r = Some h" for h
    using host that by (auto simp: host_label_def split: if_splits jsvalue.splits)
  with parse_collectors_ok [OF rows] len show ?thesis by auto
qed

definition example_report :: jsvalue where
  "example_report = JObj [(''schemaVersion'', JNum (Fin 1)), (''host'', JStr ''mac''), (''collectors'', JArr
     [JObj [(''providerKey'', JStr ''codex''), (''state'', JStr ''ok''), (''parseErrors'', JNum (Fin 0))],
      JObj [(''providerKey'', JStr ''cursor''), (''state'', JStr ''error''), (''errorCode'', JStr ''read_failed'')]])]"

lemma collection_health_report_ok_witness:
  "\<exists>r. parseCollectionHealthReport example_report = Inr r \<and> length (hr_collectors r) = 2
     \<and> distinct (map ch_providerKey (hr_collectors r))"
proof -
  define r where "r = projr (parseCollectionHealthReport example_report)"
  have p: "parseCollectionHealthReport example_report = Inr r \<and> length (hr_collectors r) = 2"
    unfolding r_def by code_simp
  with collection_health_report_ok [of example_report r] show ?thesis by blast
qed

definition example_item :: jsvalue where
  "example_item = JObj
     [(''dedupKey'', JStr ''k''), (''providerKey'', JStr ''codex''), (''ts'', JStr ''2026-07-01''),
      (''inputTokens'', JNum (Fin 10)), (''outputTokens'', JNum (Fin 3)), (''cacheReadTokens'', JNum (Fin 0)),
      (''cacheCreationTokens'', JNum (Fin 5)), (''costUsd'', JNum (Fin (1/10)))]"

lemma usage_events_body_result_witness:
  "parseUsageEventsBody (\<lambda>s. Some 7) (JArr [example_item, JNull]) = Inl (Not_an_object, Some 1)
   \<and> (\<exists>ev. parseUsageEventWire (\<lambda>s. Some 7) example_item = Inr ev)"
proof -
  have r: "parseUsageEventsBody (\<lambda>s. Some 7) (JArr [example_item, JNull]) = Inl (Not_an_object, Some 1)" by code_simp
  from usage_events_body_result [where parse_date = "\<lambda>s. Some 7" and body = "JArr [example_item, JNull]"]
  show ?thesis unfolding r by auto
qed

end
