(* ===== verification/User_Key_Cache.thy ===== *)
theory User_Key_Cache
  imports Toard_Prelude "HOL-Library.Word"
begin

text \<open>
  \<open>apps/web/lib/key-management/user-key-cache.ts\<close>: the cache of unwrapped user keys. Buffers are
  cells of a store, so that overwriting a key with zeros is seen by everyone who shares the buffer.
  A promise is a \<open>flight\<close>; the stretches of code between two suspensions are the steps of the
  machine, in any order the event loop may run them: a call up to its \<open>await\<close>, the rest of a load
  once the loader's promise settles, the \<open>finally\<close> of the load, the resumption of a waiting caller,
  the end of a caller's callback, \<open>evict\<close>, \<open>clear\<close>, the timer and the clock.
\<close>

section \<open>State\<close>

type_synonym key_bytes = "8 word list"

definition USER_KEY_LENGTH :: nat where "USER_KEY_LENGTH = 32"

definition DEFAULT_CACHE_CAPACITY :: int where "DEFAULT_CACHE_CAPACITY = 256"

record cache_options =
  co_ttlMs :: int
  co_capacity :: nat
  co_records :: bool

record cache_entry =
  ent_key :: nat
  ent_expiresAt :: int

datatype promise_state = Pending | Resolved nat | Rejected

record flight =
  fl_key :: string
  fl_generation :: int
  fl_waiters :: nat
  fl_settled :: bool
  fl_source :: "nat option"
  fl_promise :: promise_state

datatype caller = No_caller | Waiting nat | Working string nat | Returned | Threw

datatype cache_result = Hit | Miss | Single_flight

record observation_identity =
  oi_provider :: string
  oi_fingerprint :: string
  oi_operation :: string

record key_cache =
  kc_entries :: "(string \<times> cache_entry) list"
  kc_inflight :: "(string \<times> nat) list"
  kc_generations :: "string \<Rightarrow> int option"
  kc_timer :: "int option"
  kc_bufs :: "nat \<Rightarrow> key_bytes"
  kc_nbufs :: nat
  kc_flights :: "nat \<Rightarrow> flight"
  kc_nflights :: nat
  kc_callers :: "nat \<Rightarrow> caller"
  kc_ncallers :: nat
  kc_now :: int
  kc_observed :: "(observation_identity \<times> cache_result) list"

definition no_flight :: flight where
  "no_flight = \<lparr>fl_key = [], fl_generation = 0, fl_waiters = 0, fl_settled = False, fl_source = None,
     fl_promise = Pending\<rparr>"

text \<open>The constructor; the capacity is checked to be a safe integer of at least 1.\<close>

definition new_options :: "int \<Rightarrow> int option \<Rightarrow> bool \<Rightarrow> cache_options option" where
  "new_options ttlMs capacity records =
     (let c = (case capacity of None \<Rightarrow> DEFAULT_CACHE_CAPACITY | Some n \<Rightarrow> n)
      in if c > 9007199254740991 \<or> c < 1 then None
         else Some \<lparr>co_ttlMs = ttlMs, co_capacity = nat c, co_records = records\<rparr>)"

definition empty_cache :: "int \<Rightarrow> key_cache" where
  "empty_cache now = \<lparr>kc_entries = [], kc_inflight = [], kc_generations = (\<lambda>_. None), kc_timer = None,
     kc_bufs = (\<lambda>_. []), kc_nbufs = 0, kc_flights = (\<lambda>_. no_flight), kc_nflights = 0,
     kc_callers = (\<lambda>_. No_caller), kc_ncallers = 0, kc_now = now, kc_observed = []\<rparr>"

section \<open>Buffers\<close>

definition fill_zero :: "nat \<Rightarrow> key_cache \<Rightarrow> key_cache" where
  "fill_zero b s = s\<lparr>kc_bufs := (kc_bufs s)(b := replicate (length (kc_bufs s b)) 0)\<rparr>"

text \<open>A new buffer with the given bytes; its cell is the old \<open>kc_nbufs\<close>.\<close>

definition alloc :: "key_bytes \<Rightarrow> key_cache \<Rightarrow> key_cache" where
  "alloc bs s = s\<lparr>kc_bufs := (kc_bufs s)(kc_nbufs s := bs), kc_nbufs := Suc (kc_nbufs s)\<rparr>"

section \<open>Private operations\<close>

definition generation :: "string \<Rightarrow> key_cache \<Rightarrow> int" where
  "generation k s = (case kc_generations s k of None \<Rightarrow> 0 | Some g \<Rightarrow> g)"

definition bump_generation :: "string \<Rightarrow> key_cache \<Rightarrow> key_cache" where
  "bump_generation k s = s\<lparr>kc_generations := (kc_generations s)(k \<mapsto> generation k s + 1)\<rparr>"

definition forget_generation :: "string \<Rightarrow> key_cache \<Rightarrow> key_cache" where
  "forget_generation k s = s\<lparr>kc_generations := (kc_generations s)(k := None)\<rparr>"

definition has_entry :: "string \<Rightarrow> key_cache \<Rightarrow> bool" where
  "has_entry k s \<longleftrightarrow> map_of (kc_entries s) k \<noteq> None"

definition has_flight :: "string \<Rightarrow> key_cache \<Rightarrow> bool" where
  "has_flight k s \<longleftrightarrow> map_of (kc_inflight s) k \<noteq> None"

fun earliest :: "(string \<times> cache_entry) list \<Rightarrow> int option" where
  "earliest [] = None"
| "earliest ((k, e) # es) =
     (case earliest es of
        None \<Rightarrow> Some (ent_expiresAt e)
      | Some t \<Rightarrow> Some (min (ent_expiresAt e) t))"

definition rescheduleExpiry :: "key_cache \<Rightarrow> key_cache" where
  "rescheduleExpiry s = s\<lparr>kc_timer :=
     (case earliest (kc_entries s) of
        None \<Rightarrow> None
      | Some expiresAt \<Rightarrow> Some (kc_now s + max 0 (expiresAt - kc_now s)))\<rparr>"

text \<open>Zero the key of an entry and delete it from the map.\<close>

definition drop_entry :: "string \<Rightarrow> key_cache \<Rightarrow> key_cache" where
  "drop_entry k s =
     (case map_of (kc_entries s) k of
        None \<Rightarrow> s
      | Some e \<Rightarrow> (fill_zero (ent_key e) s)\<lparr>kc_entries := AList.delete k (kc_entries s)\<rparr>)"

definition set_flight :: "nat \<Rightarrow> flight \<Rightarrow> key_cache \<Rightarrow> key_cache" where
  "set_flight f fl s = s\<lparr>kc_flights := (kc_flights s)(f := fl)\<rparr>"

definition cleanupLoad :: "string \<Rightarrow> nat \<Rightarrow> key_cache \<Rightarrow> key_cache" where
  "cleanupLoad k f s =
     (if \<not> fl_settled (kc_flights s f) \<or> fl_waiters (kc_flights s f) \<noteq> 0 then s
      else
        let s1 = (case fl_source (kc_flights s f) of
                    None \<Rightarrow> s
                  | Some b \<Rightarrow> set_flight f ((kc_flights s f)\<lparr>fl_source := None\<rparr>) (fill_zero b s));
            s2 = (if map_of (kc_inflight s1) k = Some f
                  then s1\<lparr>kc_inflight := AList.delete k (kc_inflight s1)\<rparr> else s1)
        in if \<not> has_entry k s2 \<and> \<not> has_flight k s2 then forget_generation k s2 else s2)"

lemma length_drop_entry: "kc_entries s = (k, e) # es \<Longrightarrow> length (kc_entries (drop_entry k s)) < length (kc_entries s)"
  by (simp add: drop_entry_def fill_zero_def AList.delete_eq le_imp_less_Suc)

text \<open>The oldest entries go until the capacity holds.\<close>

function enforceCapacity :: "nat \<Rightarrow> key_cache \<Rightarrow> key_cache" where
  "enforceCapacity capacity s =
     (if length (kc_entries s) \<le> capacity then s
      else case kc_entries s of
        [] \<Rightarrow> s
      | (k, e) # _ \<Rightarrow>
          let s1 = drop_entry k s
          in enforceCapacity capacity (if has_flight k s1 then s1 else forget_generation k s1))"
  by pat_completeness auto

termination
  by (relation "measure (\<lambda>(capacity, s). length (kc_entries s))")
    (use length_drop_entry in \<open>fastforce simp: forget_generation_def split: if_splits\<close>)+

declare enforceCapacity.simps [simp del]

text \<open>One pass over the entries as they were when the timer fired.\<close>

definition expire_one :: "string \<times> cache_entry \<Rightarrow> key_cache \<Rightarrow> key_cache" where
  "expire_one ke s =
     (if ent_expiresAt (snd ke) \<le> kc_now s
      then let s1 = drop_entry (fst ke) s
           in (if has_flight (fst ke) s1 then s1 else forget_generation (fst ke) s1)
      else s)"

definition expireEntries :: "key_cache \<Rightarrow> key_cache" where
  "expireEntries s = fold expire_one (kc_entries s) s"

section \<open>Metrics\<close>

text \<open>\<open>^<provider>:[0-9a-f]{24}$\<close>; a provider's name has no character special to the expression.\<close>

definition fingerprint_shape :: "string \<Rightarrow> string \<Rightarrow> bool" where
  "fingerprint_shape provider fp \<longleftrightarrow> take (length provider + 1) fp = provider @ '':''
     \<and> length fp = length provider + 25 \<and> list_all is_lower_hex (drop (length provider + 1) fp)"

definition observe :: "cache_options \<Rightarrow> observation_identity option \<Rightarrow> cache_result \<Rightarrow> key_cache \<Rightarrow> key_cache" where
  "observe cfg identity result s =
     (case identity of
        None \<Rightarrow> s
      | Some i \<Rightarrow>
          if \<not> co_records cfg
            \<or> oi_provider i \<notin> set [''local'', ''aws-kms'', ''gcp-kms'', ''azure-key-vault'', ''vault-transit'', ''openbao-transit'']
            \<or> \<not> fingerprint_shape (oi_provider i) (oi_fingerprint i)
            \<or> oi_operation i \<notin> set [''wrap'', ''unwrap'', ''health''] then s
          else s\<lparr>kc_observed := kc_observed s @ [(i, result)]\<rparr>)"

section \<open>The steps\<close>

definition evict :: "string \<Rightarrow> key_cache \<Rightarrow> key_cache" where
  "evict k s =
     (let flight = map_of (kc_inflight s) k;
          s1 = rescheduleExpiry (drop_entry k (bump_generation k s));
          s2 = s1\<lparr>kc_inflight := AList.delete k (kc_inflight s1)\<rparr>
      in if flight = None then forget_generation k s2 else s2)"

definition clear_entry :: "string \<times> cache_entry \<Rightarrow> key_cache \<Rightarrow> key_cache" where
  "clear_entry ke s = fill_zero (ent_key (snd ke)) (bump_generation (fst ke) s)"

definition clear_flight :: "string \<times> nat \<Rightarrow> key_cache \<Rightarrow> key_cache" where
  "clear_flight kf s =
     (let s1 = bump_generation (fst kf) s;
          s2 = s1\<lparr>kc_inflight := AList.delete (fst kf) (kc_inflight s1)\<rparr>
      in cleanupLoad (fst kf) (snd kf) s2)"

definition clear :: "key_cache \<Rightarrow> key_cache" where
  "clear s =
     (let s1 = (fold clear_entry (kc_entries s) s)\<lparr>kc_entries := []\<rparr>;
          s2 = (fold clear_flight (kc_inflight s1) s1)\<lparr>kc_timer := None\<rparr>
      in if kc_inflight s2 = [] then s2\<lparr>kc_generations := (\<lambda>_. None)\<rparr> else s2)"

text \<open>The new flight's number is the old \<open>kc_nflights\<close>.\<close>

definition startLoad :: "string \<Rightarrow> key_cache \<Rightarrow> key_cache" where
  "startLoad k s =
     (let f = kc_nflights s
      in s\<lparr>kc_flights := (kc_flights s)(f := no_flight\<lparr>fl_key := k, fl_generation := generation k s\<rparr>),
           kc_nflights := Suc f, kc_inflight := AList.update k f (kc_inflight s)\<rparr>)"

definition new_caller :: "caller \<Rightarrow> key_cache \<Rightarrow> key_cache" where
  "new_caller c s = s\<lparr>kc_callers := (kc_callers s)(kc_ncallers s := c), kc_ncallers := Suc (kc_ncallers s)\<rparr>"

text \<open>Joining a flight, a new one if none is under way; the caller then waits.\<close>

definition join_flight :: "cache_options \<Rightarrow> string \<Rightarrow> observation_identity option \<Rightarrow> key_cache \<Rightarrow> key_cache" where
  "join_flight cfg k identity s =
     (let existing = map_of (kc_inflight s) k;
          f = (case existing of None \<Rightarrow> kc_nflights s | Some f \<Rightarrow> f);
          s1 = (if existing = None then startLoad k s else s);
          s2 = set_flight f ((kc_flights s1 f)\<lparr>fl_waiters := fl_waiters (kc_flights s1 f) + 1\<rparr>) s1
      in new_caller (Waiting f) (observe cfg identity (if existing = None then Miss else Single_flight) s2))"

definition call :: "cache_options \<Rightarrow> string \<Rightarrow> observation_identity option \<Rightarrow> key_cache \<Rightarrow> key_cache" where
  "call cfg k identity s =
     (case map_of (kc_entries s) k of
        Some e \<Rightarrow>
          if ent_expiresAt e > kc_now s
          then let s1 = observe cfg identity Hit (s\<lparr>kc_entries := AList.delete k (kc_entries s) @ [(k, e)]\<rparr>)
               in new_caller (Working k (kc_nbufs s1)) (alloc (kc_bufs s1 (ent_key e)) s1)
          else join_flight cfg k identity (evict k s)
      | None \<Rightarrow> join_flight cfg k identity s)"

datatype load_result = Loaded key_bytes | Not_a_buffer | Load_failed

text \<open>The rest of the load when the loader's promise settles.\<close>

definition store_entry :: "cache_options \<Rightarrow> string \<Rightarrow> key_bytes \<Rightarrow> key_cache \<Rightarrow> key_cache" where
  "store_entry cfg k bs s =
     (let s1 = (alloc bs s)\<lparr>kc_entries :=
          AList.update k \<lparr>ent_key = kc_nbufs s, ent_expiresAt = kc_now s + co_ttlMs cfg\<rparr> (kc_entries s)\<rparr>
      in rescheduleExpiry (enforceCapacity (co_capacity cfg) s1))"

definition finish_load :: "cache_options \<Rightarrow> nat \<Rightarrow> load_result \<Rightarrow> key_cache \<Rightarrow> key_cache" where
  "finish_load cfg f result s =
     (let reject = (\<lambda>s. set_flight f ((kc_flights s f)\<lparr>fl_promise := Rejected\<rparr>) s)
      in case result of
           Loaded bs \<Rightarrow>
             let b = kc_nbufs s; k = fl_key (kc_flights s f); s1 = alloc bs s
             in if length bs \<noteq> USER_KEY_LENGTH then reject (fill_zero b s1)
                else
                  let s2 = set_flight f ((kc_flights s1 f)\<lparr>fl_source := Some b, fl_promise := Resolved b\<rparr>) s1
                  in if fl_generation (kc_flights s2 f) = generation k s2 \<and> map_of (kc_inflight s2) k = Some f
                     then store_entry cfg k bs s2 else s2
         | _ \<Rightarrow> reject s)"

definition settle :: "nat \<Rightarrow> key_cache \<Rightarrow> key_cache" where
  "settle f s = cleanupLoad (fl_key (kc_flights s f)) f
     (set_flight f ((kc_flights s f)\<lparr>fl_settled := True\<rparr>) s)"

definition leave_flight :: "nat \<Rightarrow> key_cache \<Rightarrow> key_cache" where
  "leave_flight f s = cleanupLoad (fl_key (kc_flights s f)) f
     (set_flight f ((kc_flights s f)\<lparr>fl_waiters := fl_waiters (kc_flights s f) - 1\<rparr>) s)"

definition set_caller :: "nat \<Rightarrow> caller \<Rightarrow> key_cache \<Rightarrow> key_cache" where
  "set_caller c x s = s\<lparr>kc_callers := (kc_callers s)(c := x)\<rparr>"

definition resume :: "nat \<Rightarrow> nat \<Rightarrow> key_cache \<Rightarrow> key_cache" where
  "resume c f s =
     (case fl_promise (kc_flights s f) of
        Resolved b \<Rightarrow>
          leave_flight f (set_caller c (Working (fl_key (kc_flights s f)) (kc_nbufs s)) (alloc (kc_bufs s b) s))
      | _ \<Rightarrow> leave_flight f (set_caller c Threw s))"

definition fire_timer :: "key_cache \<Rightarrow> key_cache" where
  "fire_timer s = rescheduleExpiry (expireEntries (s\<lparr>kc_timer := None\<rparr>))"

datatype cache_event =
  Call string "observation_identity option" | Load nat load_result | Settle nat | Resume nat
| Finish nat | Evict string | Clear | Fire | Clock int

definition cache_step :: "cache_options \<Rightarrow> cache_event \<Rightarrow> key_cache \<Rightarrow> key_cache option" where
  "cache_step cfg ev s =
     (case ev of
        Call k i \<Rightarrow> Some (call cfg k i s)
      | Load f r \<Rightarrow>
          if f < kc_nflights s \<and> fl_promise (kc_flights s f) = Pending then Some (finish_load cfg f r s) else None
      | Settle f \<Rightarrow>
          if f < kc_nflights s \<and> fl_promise (kc_flights s f) \<noteq> Pending \<and> \<not> fl_settled (kc_flights s f)
          then Some (settle f s) else None
      | Resume c \<Rightarrow>
          (case kc_callers s c of
             Waiting f \<Rightarrow> if fl_settled (kc_flights s f) then Some (resume c f s) else None
           | _ \<Rightarrow> None)
      | Finish c \<Rightarrow>
          (case kc_callers s c of Working k b \<Rightarrow> Some (set_caller c Returned (fill_zero b s)) | _ \<Rightarrow> None)
      | Evict k \<Rightarrow> Some (evict k s)
      | Clear \<Rightarrow> Some (clear s)
      | Fire \<Rightarrow> (case kc_timer s of
            Some d \<Rightarrow> if d \<le> kc_now s then Some (fire_timer s) else None
          | None \<Rightarrow> None)
      | Clock t \<Rightarrow> Some (s\<lparr>kc_now := t\<rparr>))"

text \<open>The runs of the cache from a state, with the events that led on.\<close>

inductive cache_run :: "cache_options \<Rightarrow> key_cache \<Rightarrow> cache_event list \<Rightarrow> key_cache \<Rightarrow> bool" for cfg s0 where
  start: "cache_run cfg s0 [] s0"
| step: "cache_run cfg s0 es s \<Longrightarrow> cache_step cfg ev s = Some s' \<Longrightarrow> cache_run cfg s0 (es @ [ev]) s'"

end
