(* ===== verification/User_Key_Cache_Proofs.thy ===== *)
theory User_Key_Cache_Proofs
  imports User_Key_Cache
begin

text \<open>
  The invariant of the key cache. Every buffer that still holds key bytes has exactly one owner (an
  entry, a flight or a working caller), and what it holds was loaded for the owner's key; the
  promises, waiter counts and sources of the flights agree; the map stays within its capacity and the
  timer is set exactly while there are entries.
\<close>

section \<open>The ledger of buffers\<close>

datatype owner = Oentry string | Oflight nat | Ocaller nat

definition buf_of :: "key_cache \<Rightarrow> owner \<Rightarrow> nat option" where
  "buf_of s w = (case w of
      Oentry k \<Rightarrow> map_option ent_key (map_of (kc_entries s) k)
    | Oflight f \<Rightarrow> fl_source (kc_flights s f)
    | Ocaller c \<Rightarrow> (case kc_callers s c of Working k b \<Rightarrow> Some b | _ \<Rightarrow> None))"

definition zeroed :: "key_bytes \<Rightarrow> bool" where
  "zeroed bs \<longleftrightarrow> (\<forall>x \<in> set bs. x = 0)"

text \<open>The bytes are those a flight numbered \<open>n\<close> or more loaded for the key.\<close>

definition loaded_since :: "nat \<Rightarrow> cache_event list \<Rightarrow> key_cache \<Rightarrow> string \<Rightarrow> key_bytes \<Rightarrow> bool" where
  "loaded_since n tr s k bs \<longleftrightarrow> length bs = USER_KEY_LENGTH
     \<and> (\<exists>f. n \<le> f \<and> f < kc_nflights s \<and> Load f (Loaded bs) \<in> set tr \<and> fl_key (kc_flights s f) = k)"

definition ledger_ok :: "(owner \<Rightarrow> key_bytes \<Rightarrow> bool) \<Rightarrow> (owner \<Rightarrow> nat option) \<Rightarrow> (nat \<Rightarrow> key_bytes) \<Rightarrow> nat \<Rightarrow> bool" where
  "ledger_ok good own bufs n \<longleftrightarrow>
     (\<forall>w b. own w = Some b \<longrightarrow> b < n \<and> good w (bufs b))
     \<and> (\<forall>w w' b. own w = Some b \<longrightarrow> own w' = Some b \<longrightarrow> w = w')
     \<and> (\<forall>b. (\<forall>w. own w \<noteq> Some b) \<longrightarrow> zeroed (bufs b))"

text \<open>
  A fence: the flights and the callers of a key numbered from here on are those that came after the
  key was revoked. What an owner's buffer has to hold, given the fences.
\<close>

type_synonym fence = "string \<Rightarrow> nat \<times> nat"

definition good :: "fence \<Rightarrow> cache_event list \<Rightarrow> key_cache \<Rightarrow> owner \<Rightarrow> key_bytes \<Rightarrow> bool" where
  "good fn tr s w bs = (case w of
      Oentry k \<Rightarrow> loaded_since (fst (fn k)) tr s k bs
    | Oflight f \<Rightarrow> length bs = USER_KEY_LENGTH \<and> f < kc_nflights s \<and> Load f (Loaded bs) \<in> set tr
    | Ocaller c \<Rightarrow> (case kc_callers s c of
          Working k b \<Rightarrow> loaded_since (if snd (fn k) \<le> c then fst (fn k) else 0) tr s k bs
        | _ \<Rightarrow> True))"

definition ledger :: "fence \<Rightarrow> cache_event list \<Rightarrow> key_cache \<Rightarrow> bool" where
  "ledger fn tr s \<longleftrightarrow> ledger_ok (good fn tr s) (buf_of s) (kc_bufs s) (kc_nbufs s)"

lemma zeroed_replicate [simp]: "zeroed (replicate n 0)"
  by (simp add: zeroed_def)

lemma ledger_okI:
  assumes "\<And>w b. own w = Some b \<Longrightarrow> b < n \<and> g w (bufs b)"
    and "\<And>w w' b. own w = Some b \<Longrightarrow> own w' = Some b \<Longrightarrow> w = w'"
    and "\<And>b. (\<And>w. own w \<noteq> Some b) \<Longrightarrow> zeroed (bufs b)"
  shows "ledger_ok g own bufs n"
  using assms unfolding ledger_ok_def by blast

lemma ledger_okD:
  assumes "ledger_ok g own bufs n"
  shows "own w = Some b \<Longrightarrow> b < n" "own w = Some b \<Longrightarrow> g w (bufs b)"
    "own w = Some b \<Longrightarrow> own w' = Some b \<Longrightarrow> w = w'"
    "(\<And>w. own w \<noteq> Some b) \<Longrightarrow> zeroed (bufs b)"
  using assms unfolding ledger_ok_def by blast+

lemma ledger_drop:
  assumes l: "ledger_ok g own bufs n" and w: "own w = Some b"
  shows "ledger_ok g (own(w := None)) (bufs(b := replicate m 0)) n"
proof (rule ledger_okI)
  fix v c assume v: "(own(w := None)) v = Some c"
  then have "v \<noteq> w" "own v = Some c" by (auto split: if_splits)
  moreover have "c \<noteq> b" using ledger_okD(3) [OF l w] calculation by auto
  ultimately show "c < n \<and> g v ((bufs(b := replicate m 0)) c)" using ledger_okD(1,2) [OF l] by simp
next
  fix v v' c assume "(own(w := None)) v = Some c" "(own(w := None)) v' = Some c"
  then show "v = v'" using ledger_okD(3) [OF l] by (auto split: if_splits)
next
  fix c assume c: "\<And>v. (own(w := None)) v \<noteq> Some c"
  show "zeroed ((bufs(b := replicate m 0)) c)"
  proof (cases "c = b")
    case False
    have "own v \<noteq> Some c" for v using c [of v] w False by (cases "v = w") auto
    then show ?thesis using ledger_okD(4) [OF l] False by simp
  qed simp
qed

lemma ledger_take:
  assumes l: "ledger_ok g own bufs n" and w: "own w = None" and bs: "g w bs"
  shows "ledger_ok g (own(w := Some n)) (bufs(n := bs)) (Suc n)"
proof (rule ledger_okI)
  fix v c assume "(own(w := Some n)) v = Some c"
  then show "c < Suc n \<and> g v ((bufs(n := bs)) c)"
    using ledger_okD(1,2) [OF l] bs by (cases "v = w") (auto simp: less_Suc_eq)
next
  fix v v' c assume "(own(w := Some n)) v = Some c" "(own(w := Some n)) v' = Some c"
  then show "v = v'" using ledger_okD(3) [OF l] ledger_okD(1) [OF l, of _ n] by (auto split: if_splits)
next
  fix c assume c: "\<And>v. (own(w := Some n)) v \<noteq> Some c"
  have "c \<noteq> n" using c [of w] by auto
  moreover have "own v \<noteq> Some c" for v using c [of v] w by (cases "v = w") auto
  ultimately show "zeroed ((bufs(n := bs)) c)" using ledger_okD(4) [OF l] by simp
qed

lemma ledger_spare:
  assumes l: "ledger_ok g own bufs n"
  shows "ledger_ok g own (bufs(n := replicate m 0)) (Suc n)"
  by (rule ledger_okI) (use ledger_okD [OF l] in \<open>fastforce simp: less_Suc_eq\<close>)+

lemma ledger_cong:
  assumes "ledger_ok g own bufs n" and "\<And>w b. own w = Some b \<Longrightarrow> g w (bufs b) \<Longrightarrow> g' w (bufs b)"
  shows "ledger_ok g' own bufs n"
  using assms unfolding ledger_ok_def by blast

text \<open>Dropping all entries at once.\<close>

lemma ledger_drop_entries:
  assumes l: "ledger_ok g own bufs n"
    and B: "\<And>b. b \<in> B \<longleftrightarrow> (\<exists>k. own (Oentry k) = Some b)"
  shows "ledger_ok g (\<lambda>w. case w of Oentry k \<Rightarrow> None | _ \<Rightarrow> own w)
    (\<lambda>b. if b \<in> B then replicate (length (bufs b)) 0 else bufs b) n"
proof (rule ledger_okI)
  fix w b assume w: "(case w of Oentry k \<Rightarrow> None | _ \<Rightarrow> own w) = Some b"
  then have o: "own w = Some b" and ne: "\<And>k. w \<noteq> Oentry k" by (auto split: owner.splits)
  have "b \<notin> B" using ledger_okD(3) [OF l o] ne B by blast
  then show "b < n \<and> g w (if b \<in> B then replicate (length (bufs b)) 0 else bufs b)"
    using ledger_okD(1,2) [OF l o] by simp
next
  fix w w' b
  assume "(case w of Oentry k \<Rightarrow> None | _ \<Rightarrow> own w) = Some b" "(case w' of Oentry k \<Rightarrow> None | _ \<Rightarrow> own w') = Some b"
  then have "own w = Some b" "own w' = Some b" by (auto split: owner.splits)
  then show "w = w'" by (rule ledger_okD(3) [OF l])
next
  fix b assume n: "\<And>w. (case w of Oentry k \<Rightarrow> None | _ \<Rightarrow> own w) \<noteq> Some b"
  have "zeroed (bufs b)" if "b \<notin> B"
    by (rule ledger_okD(4) [OF l]) (use n that B in \<open>auto split: owner.splits\<close>, metis owner.exhaust owner.simps(10,11,12))
  then show "zeroed (if b \<in> B then replicate (length (bufs b)) 0 else bufs b)" by simp
qed

section \<open>Flights\<close>

definition live :: "flight \<Rightarrow> bool" where
  "live fl \<longleftrightarrow> \<not> fl_settled fl \<or> fl_waiters fl \<noteq> 0"

definition waiting_for :: "(nat \<Rightarrow> caller) \<Rightarrow> nat \<Rightarrow> nat set" where
  "waiting_for callers f = {c. callers c = Waiting f}"

definition promised :: "flight \<Rightarrow> nat option" where
  "promised fl = (case fl_promise fl of Resolved b \<Rightarrow> Some b | _ \<Rightarrow> None)"

definition flight_ok :: "flight \<Rightarrow> bool" where
  "flight_ok fl \<longleftrightarrow> fl_source fl = (if live fl then promised fl else None)
     \<and> (fl_settled fl \<longrightarrow> fl_promise fl \<noteq> Pending)"

definition flights_inv :: "key_cache \<Rightarrow> bool" where
  "flights_inv s \<longleftrightarrow>
     (\<forall>f. flight_ok (kc_flights s f) \<and> fl_waiters (kc_flights s f) = card (waiting_for (kc_callers s) f))
     \<and> (\<forall>f \<ge> kc_nflights s. kc_flights s f = no_flight)
     \<and> (\<forall>c \<ge> kc_ncallers s. kc_callers s c = No_caller)
     \<and> (\<forall>c f. kc_callers s c = Waiting f \<longrightarrow> f < kc_nflights s)
     \<and> distinct (map fst (kc_inflight s))
     \<and> (\<forall>k f. map_of (kc_inflight s) k = Some f \<longrightarrow>
          f < kc_nflights s \<and> fl_key (kc_flights s f) = k \<and> live (kc_flights s f))"

definition core_inv :: "fence \<Rightarrow> cache_event list \<Rightarrow> key_cache \<Rightarrow> bool" where
  "core_inv fn tr s \<longleftrightarrow> distinct (map fst (kc_entries s)) \<and> ledger fn tr s \<and> flights_inv s"

lemma finite_waiting: "(\<forall>c \<ge> n. callers c = No_caller) \<Longrightarrow> finite (waiting_for callers f)"
  by (rule finite_subset [of _ "{..<n}"]) (auto simp: waiting_for_def not_less [symmetric])

lemma card_waiting_join:
  assumes "\<forall>c \<ge> n. callers c = No_caller"
  shows "card (waiting_for (callers(n := Waiting f)) g) = card (waiting_for callers g) + (if g = f then 1 else 0)"
proof -
  have "n \<notin> waiting_for callers g" using assms by (simp add: waiting_for_def)
  moreover have "waiting_for (callers(n := Waiting f)) g = (if g = f then insert n (waiting_for callers g) else waiting_for callers g)"
    using assms by (auto simp: waiting_for_def)
  ultimately show ?thesis using finite_waiting [OF assms, of g] by auto
qed

lemma card_waiting_leave:
  assumes "\<forall>c \<ge> n. callers c = No_caller" and "callers c = Waiting f" and "\<And>g. x \<noteq> Waiting g"
  shows "card (waiting_for (callers(c := x)) g) = card (waiting_for callers g) - (if g = f then 1 else 0)"
proof -
  have "waiting_for (callers(c := x)) g = waiting_for callers g - (if g = f then {c} else {})"
    using assms(2,3) by (auto simp: waiting_for_def)
  moreover have "c \<in> waiting_for callers f" using assms(2) by (simp add: waiting_for_def)
  ultimately show ?thesis using finite_waiting [OF assms(1), of g] by (auto simp: card_Diff_singleton)
qed

lemma waiting_other:
  "callers c \<noteq> Waiting f \<Longrightarrow> x \<noteq> Waiting f \<Longrightarrow> waiting_for (callers(c := x)) f = waiting_for callers f"
  by (auto simp: waiting_for_def)

section \<open>What does not touch keys\<close>

lemmas inv_unfold = core_inv_def ledger_def flights_inv_def good_def [abs_def] loaded_since_def
  buf_of_def [abs_def]

lemma core_inv_fields [simp]:
  "core_inv fn tr (s\<lparr>kc_generations := g\<rparr>) = core_inv fn tr s"
  "core_inv fn tr (s\<lparr>kc_timer := t\<rparr>) = core_inv fn tr s"
  "core_inv fn tr (s\<lparr>kc_now := n\<rparr>) = core_inv fn tr s"
  "core_inv fn tr (s\<lparr>kc_observed := os\<rparr>) = core_inv fn tr s"
  by (simp_all add: inv_unfold cong: owner.case_cong caller.case_cong)

lemma core_inv_generation [simp]:
  "core_inv fn tr (forget_generation k s) = core_inv fn tr s"
  "core_inv fn tr (bump_generation k s) = core_inv fn tr s"
  "core_inv fn tr (rescheduleExpiry s) = core_inv fn tr s"
  by (simp_all add: forget_generation_def bump_generation_def rescheduleExpiry_def)

lemma core_inv_observe [simp]: "core_inv fn tr (observe cfg i r s) = core_inv fn tr s"
  by (simp add: observe_def split: option.splits)

lemma core_inv_uninflight:
  "core_inv fn tr s \<Longrightarrow> core_inv fn tr (s\<lparr>kc_inflight := AList.delete k (kc_inflight s)\<rparr>)"
  by (auto simp: inv_unfold delete_conv' distinct_delete cong: owner.case_cong caller.case_cong split: if_splits)

lemma loaded_since_mono: "loaded_since n tr s k bs \<Longrightarrow> m \<le> n \<Longrightarrow> loaded_since m (tr @ es) s k bs"
  by (auto simp: loaded_since_def intro: le_trans)

lemma good_trace: "good fn tr s w bs \<Longrightarrow> good fn (tr @ es) s w bs"
  by (auto simp: good_def intro: loaded_since_mono split: owner.splits caller.splits)

lemma core_inv_trace:
  assumes "core_inv fn tr s"
  shows "core_inv fn (tr @ es) s"
proof -
  have "ledger fn (tr @ es) s"
    using assms unfolding core_inv_def ledger_def by (elim conjE ledger_cong) (rule good_trace)
  with assms show ?thesis by (simp add: core_inv_def)
qed

section \<open>Entries\<close>

lemma buf_of_drop_entry:
  assumes "map_of (kc_entries s) k = Some e"
  shows "buf_of (drop_entry k s) = (buf_of s)(Oentry k := None)"
  using assms by (auto simp: buf_of_def drop_entry_def fill_zero_def delete_conv' fun_eq_iff split: owner.splits)

lemma core_inv_drop_entry:
  assumes "core_inv fn tr s"
  shows "core_inv fn tr (drop_entry k s)"
proof (cases "map_of (kc_entries s) k")
  case None
  with assms show ?thesis by (simp add: drop_entry_def)
next
  case (Some e)
  let ?s = "drop_entry k s" and ?b = "ent_key e"
  have s: "distinct (map fst (kc_entries s))" "ledger fn tr s" "flights_inv s" using assms by (auto simp: core_inv_def)
  have "ledger_ok (good fn tr s) ((buf_of s)(Oentry k := None))
      ((kc_bufs s)(?b := replicate (length (kc_bufs s ?b)) 0)) (kc_nbufs s)"
    by (rule ledger_drop) (use s(2) Some in \<open>auto simp: ledger_def buf_of_def\<close>)
  moreover have "kc_bufs ?s = (kc_bufs s)(?b := replicate (length (kc_bufs s ?b)) 0)" "kc_nbufs ?s = kc_nbufs s"
      "good fn tr ?s = good fn tr s" "kc_entries ?s = AList.delete k (kc_entries s)"
    using Some by (simp_all add: drop_entry_def fill_zero_def good_def [abs_def] loaded_since_def cong: owner.case_cong caller.case_cong)
  moreover have "flights_inv ?s" using s(3) Some by (simp add: drop_entry_def fill_zero_def flights_inv_def)
  ultimately show ?thesis using s(1) buf_of_drop_entry [OF Some]
    by (simp add: core_inv_def ledger_def distinct_delete)
qed

lemma core_inv_enforce: "core_inv fn tr s \<Longrightarrow> core_inv fn tr (enforceCapacity n s)"
proof (induction n s rule: enforceCapacity.induct)
  case (1 n s)
  show ?case
    using 1 core_inv_drop_entry [OF 1(2)]
    by (subst enforceCapacity.simps) (auto simp: Let_def split: list.splits)
qed

lemma length_enforce: "length (kc_entries (enforceCapacity n s)) \<le> n"
proof (induction n s rule: enforceCapacity.induct)
  case (1 n s)
  show ?case
    using 1 by (subst enforceCapacity.simps) (auto simp: Let_def split: list.splits)
qed

lemma core_inv_expire: "core_inv fn tr s \<Longrightarrow> core_inv fn tr (expireEntries s)"
proof -
  have "core_inv fn tr s \<Longrightarrow> core_inv fn tr (fold expire_one es s)" for es
    by (induction es arbitrary: s) (auto simp: expire_one_def Let_def core_inv_drop_entry)
  then show "core_inv fn tr s \<Longrightarrow> core_inv fn tr (expireEntries s)" by (simp add: expireEntries_def)
qed

lemma length_drop_entry_le: "length (kc_entries (drop_entry k s)) \<le> length (kc_entries s)"
  by (auto simp: drop_entry_def fill_zero_def AList.delete_eq split: option.splits)

lemma length_expire: "length (kc_entries (expireEntries s)) \<le> length (kc_entries s)"
proof -
  have one: "length (kc_entries (expire_one ke s)) \<le> length (kc_entries s)" for ke s
    using length_drop_entry_le by (auto simp: expire_one_def Let_def forget_generation_def)
  have "length (kc_entries (fold expire_one es s)) \<le> length (kc_entries s)" for es
    by (induction es arbitrary: s) (use one le_trans in \<open>fastforce+\<close>)
  then show ?thesis by (simp add: expireEntries_def)
qed

text \<open>After every reschedule the timer is set exactly when there is an entry.\<close>

lemma earliest_None: "earliest es = None \<longleftrightarrow> es = []"
  by (induction es rule: earliest.induct) (auto split: option.splits)

lemma reschedule_timer:
  "kc_timer (rescheduleExpiry s) = None \<longleftrightarrow> kc_entries (rescheduleExpiry s) = []"
  "kc_entries (rescheduleExpiry s) = kc_entries s"
  using earliest_None [of "kc_entries s"] by (auto simp: rescheduleExpiry_def split: option.splits)

section \<open>Cleaning up a flight\<close>

text \<open>While a flight is being settled or left, it may be over and still hold its source.\<close>

definition flight_pre :: "flight \<Rightarrow> bool" where
  "flight_pre fl \<longleftrightarrow> (if live fl then fl_source fl = promised fl else fl_source fl = None \<or> fl_source fl = promised fl)
     \<and> (fl_settled fl \<longrightarrow> fl_promise fl \<noteq> Pending)"

definition flights_but :: "nat \<Rightarrow> key_cache \<Rightarrow> bool" where
  "flights_but f s \<longleftrightarrow>
     flight_pre (kc_flights s f) \<and> f < kc_nflights s
     \<and> (\<forall>g. (g \<noteq> f \<longrightarrow> flight_ok (kc_flights s g))
         \<and> fl_waiters (kc_flights s g) = card (waiting_for (kc_callers s) g))
     \<and> (\<forall>g \<ge> kc_nflights s. kc_flights s g = no_flight)
     \<and> (\<forall>c \<ge> kc_ncallers s. kc_callers s c = No_caller)
     \<and> (\<forall>c g. kc_callers s c = Waiting g \<longrightarrow> g < kc_nflights s)
     \<and> distinct (map fst (kc_inflight s))
     \<and> (\<forall>k g. map_of (kc_inflight s) k = Some g \<longrightarrow>
          g < kc_nflights s \<and> fl_key (kc_flights s g) = k \<and> (g \<noteq> f \<longrightarrow> live (kc_flights s g)))"

lemma flights_invI:
  assumes "\<And>f. flight_ok (kc_flights s f)"
    and "\<And>f. fl_waiters (kc_flights s f) = card (waiting_for (kc_callers s) f)"
    and "\<And>f. kc_nflights s \<le> f \<Longrightarrow> kc_flights s f = no_flight"
    and "\<And>c. kc_ncallers s \<le> c \<Longrightarrow> kc_callers s c = No_caller"
    and "\<And>c f. kc_callers s c = Waiting f \<Longrightarrow> f < kc_nflights s"
    and "distinct (map fst (kc_inflight s))"
    and "\<And>k f. map_of (kc_inflight s) k = Some f \<Longrightarrow>
      f < kc_nflights s \<and> fl_key (kc_flights s f) = k \<and> live (kc_flights s f)"
  shows "flights_inv s"
  using assms unfolding flights_inv_def by blast

lemma flights_invD:
  assumes "flights_inv s"
  shows "flight_ok (kc_flights s f)"
    and "fl_waiters (kc_flights s f) = card (waiting_for (kc_callers s) f)"
    and "kc_nflights s \<le> f \<Longrightarrow> kc_flights s f = no_flight"
    and "\<forall>c \<ge> kc_ncallers s. kc_callers s c = No_caller"
    and "kc_callers s c = Waiting f \<Longrightarrow> f < kc_nflights s"
    and "distinct (map fst (kc_inflight s))"
    and "map_of (kc_inflight s) k = Some f \<Longrightarrow>
      f < kc_nflights s \<and> fl_key (kc_flights s f) = k \<and> live (kc_flights s f)"
  using assms unfolding flights_inv_def by blast+

lemma flights_butD:
  assumes "flights_but f s"
  shows "flight_pre (kc_flights s f)" and "f < kc_nflights s"
    and "g \<noteq> f \<Longrightarrow> flight_ok (kc_flights s g)"
    and "fl_waiters (kc_flights s g) = card (waiting_for (kc_callers s) g)"
    and "kc_nflights s \<le> g \<Longrightarrow> kc_flights s g = no_flight"
    and "kc_ncallers s \<le> c \<Longrightarrow> kc_callers s c = No_caller"
    and "kc_callers s c = Waiting g \<Longrightarrow> g < kc_nflights s"
    and "distinct (map fst (kc_inflight s))"
    and "map_of (kc_inflight s) k = Some g \<Longrightarrow>
      g < kc_nflights s \<and> fl_key (kc_flights s g) = k \<and> (g \<noteq> f \<longrightarrow> live (kc_flights s g))"
  using assms unfolding flights_but_def by blast+

lemma flights_butI:
  assumes "flight_pre (kc_flights s f)" and "f < kc_nflights s"
    and "\<And>g. g \<noteq> f \<Longrightarrow> flight_ok (kc_flights s g)"
    and "\<And>g. fl_waiters (kc_flights s g) = card (waiting_for (kc_callers s) g)"
    and "\<And>g. kc_nflights s \<le> g \<Longrightarrow> kc_flights s g = no_flight"
    and "\<And>c. kc_ncallers s \<le> c \<Longrightarrow> kc_callers s c = No_caller"
    and "\<And>c g. kc_callers s c = Waiting g \<Longrightarrow> g < kc_nflights s"
    and "distinct (map fst (kc_inflight s))"
    and "\<And>k g. map_of (kc_inflight s) k = Some g \<Longrightarrow>
      g < kc_nflights s \<and> fl_key (kc_flights s g) = k \<and> (g \<noteq> f \<longrightarrow> live (kc_flights s g))"
  shows "flights_but f s"
  using assms unfolding flights_but_def by blast

lemma flight_ok_pre: "flight_ok fl \<longleftrightarrow> flight_pre fl \<and> (fl_source fl \<noteq> None \<longrightarrow> live fl)"
  by (auto simp: flight_ok_def flight_pre_def)

lemma flights_but_live:
  assumes fb: "flights_but f s" and l: "live (kc_flights s f)"
  shows "flights_inv s"
proof (rule flights_invI)
  show "flight_ok (kc_flights s g)" for g
    using flights_butD(1,3) [OF fb] l flight_ok_pre by (cases "g = f") auto
  show "g < kc_nflights s \<and> fl_key (kc_flights s g) = k \<and> live (kc_flights s g)"
    if "map_of (kc_inflight s) k = Some g" for k g
    using flights_butD(9) [OF fb that] l by (cases "g = f") auto
qed (rule flights_butD [OF fb], assumption?)+

text \<open>The source of a flight that is over is zeroed and the flight forgotten.\<close>

lemma core_inv_cleanup:
  assumes "distinct (map fst (kc_entries s))" and l: "ledger fn tr s" and fb: "flights_but f s"
  shows "core_inv fn tr (cleanupLoad (fl_key (kc_flights s f)) f s)"
proof (cases "live (kc_flights s f)")
  case True
  then have "cleanupLoad (fl_key (kc_flights s f)) f s = s" by (auto simp: cleanupLoad_def live_def)
  with assms flights_but_live [OF fb True] show ?thesis by (simp add: core_inv_def)
next
  case False
  let ?k = "fl_key (kc_flights s f)"
  define s1 where "s1 = (case fl_source (kc_flights s f) of None \<Rightarrow> s
    | Some b \<Rightarrow> set_flight f ((kc_flights s f)\<lparr>fl_source := None\<rparr>) (fill_zero b s))"
  have l1: "ledger fn tr s1"
  proof (cases "fl_source (kc_flights s f)")
    case None
    with l show ?thesis by (simp add: s1_def)
  next
    case (Some b)
    have "ledger_ok (good fn tr s) ((buf_of s)(Oflight f := None))
        ((kc_bufs s)(b := replicate (length (kc_bufs s b)) 0)) (kc_nbufs s)"
      by (rule ledger_drop) (use l Some in \<open>auto simp: ledger_def buf_of_def\<close>)
    moreover have "buf_of s1 = (buf_of s)(Oflight f := None)"
      using Some by (auto simp: s1_def buf_of_def set_flight_def fill_zero_def fun_eq_iff split: owner.splits)
    moreover have "good fn tr s1 = good fn tr s"
    proof -
      have "fl_key (kc_flights s1 g) = fl_key (kc_flights s g)" "kc_callers s1 = kc_callers s"
        "kc_nflights s1 = kc_nflights s" for g
        using Some by (auto simp: s1_def set_flight_def fill_zero_def)
      then show ?thesis by (simp add: good_def [abs_def] loaded_since_def cong: owner.case_cong caller.case_cong)
    qed
    ultimately show ?thesis using Some by (simp add: ledger_def s1_def set_flight_def fill_zero_def)
  qed
  have e1: "kc_entries s1 = kc_entries s" "kc_inflight s1 = kc_inflight s"
    by (auto simp: s1_def set_flight_def fill_zero_def split: option.splits)
  define s2 where "s2 = s1\<lparr>kc_inflight :=
    (if map_of (kc_inflight s1) ?k = Some f then AList.delete ?k (kc_inflight s1) else kc_inflight s1)\<rparr>"
  have fl1: "kc_flights s1 = (kc_flights s)(f := (kc_flights s f)\<lparr>fl_source := None\<rparr>)"
    by (auto simp: s1_def set_flight_def fill_zero_def split: option.splits)
  have ok: "flight_ok ((kc_flights s f)\<lparr>fl_source := None\<rparr>)"
  proof -
    have "flight_pre (kc_flights s f)" by (rule flights_butD(1) [OF fb])
    with False show ?thesis unfolding flight_ok_def flight_pre_def live_def by simp
  qed
  have r1: "kc_callers s1 = kc_callers s" "kc_ncallers s1 = kc_ncallers s" "kc_nflights s1 = kc_nflights s"
    by (auto simp: s1_def set_flight_def fill_zero_def split: option.splits)
  have f2: "kc_flights s2 g = (if g = f then (kc_flights s f)\<lparr>fl_source := None\<rparr> else kc_flights s g)" for g
    by (simp add: s2_def fl1)
  have r2: "kc_callers s2 = kc_callers s" "kc_ncallers s2 = kc_ncallers s" "kc_nflights s2 = kc_nflights s"
    by (simp_all add: s2_def r1)
  have i2: "map_of (kc_inflight s2) k = Some g \<Longrightarrow> map_of (kc_inflight s) k = Some g \<and> g \<noteq> f" for k g
  proof -
    assume k: "map_of (kc_inflight s2) k = Some g"
    then have k': "map_of (kc_inflight s) k = Some g" by (auto simp: s2_def e1 delete_conv' split: if_splits)
    have "g \<noteq> f"
    proof
      assume "g = f"
      then have "k = ?k" using flights_butD(9) [OF fb k'] by simp
      with k k' \<open>g = f\<close> show False by (simp add: s2_def e1 delete_conv')
    qed
    with k' show ?thesis by simp
  qed
  have "flights_inv s2"
  proof (rule flights_invI)
    show "flight_ok (kc_flights s2 g)" for g using flights_butD(3) [OF fb] ok by (simp add: f2)
    show "fl_waiters (kc_flights s2 g) = card (waiting_for (kc_callers s2) g)" for g
      using flights_butD(4) [OF fb] by (simp add: f2 r2)
    show "kc_nflights s2 \<le> g \<Longrightarrow> kc_flights s2 g = no_flight" for g
      using flights_butD(2,5) [OF fb] by (auto simp: f2 r2)
    show "kc_ncallers s2 \<le> c \<Longrightarrow> kc_callers s2 c = No_caller" for c
      using flights_butD(6) [OF fb] by (simp add: r2)
    show "kc_callers s2 c = Waiting g \<Longrightarrow> g < kc_nflights s2" for c g
      using flights_butD(7) [OF fb] by (simp add: r2)
    show "distinct (map fst (kc_inflight s2))" 
    proof -
      have "distinct (map fst (kc_inflight s))" by (rule flights_butD(8) [OF fb])
      then show ?thesis by (simp add: s2_def e1 distinct_delete)
    qed
    show "map_of (kc_inflight s2) k = Some g \<Longrightarrow>
        g < kc_nflights s2 \<and> fl_key (kc_flights s2 g) = k \<and> live (kc_flights s2 g)" for k g
    proof -
      assume "map_of (kc_inflight s2) k = Some g"
      from i2 [OF this] have k: "map_of (kc_inflight s) k = Some g" and g: "g \<noteq> f" by simp_all
      from flights_butD(9) [OF fb k] g show ?thesis by (simp add: f2 r2)
    qed
  qed
  moreover have "ledger fn tr s2"
    using l1 by (simp add: s2_def ledger_def good_def [abs_def] loaded_since_def buf_of_def [abs_def] cong: owner.case_cong caller.case_cong)
  ultimately have "core_inv fn tr s2" using assms(1) by (simp add: core_inv_def s2_def e1)
  moreover have "cleanupLoad ?k f s = (if \<not> has_entry ?k s2 \<and> \<not> has_flight ?k s2 then forget_generation ?k s2 else s2)"
    using False unfolding cleanupLoad_def Let_def s1_def [symmetric] s2_def live_def by auto
  ultimately show ?thesis by simp
qed

section \<open>Settling and resuming\<close>

lemma good_other:
  assumes "\<And>g. fl_key (kc_flights s' g) = fl_key (kc_flights s g)" and "kc_nflights s' = kc_nflights s"
    and "\<And>c. w = Ocaller c \<Longrightarrow> kc_callers s' c = kc_callers s c"
  shows "good fn tr s' w bs = good fn tr s w bs"
  using assms by (cases w) (simp_all add: good_def loaded_since_def cong: caller.case_cong)

lemma ledger_same:
  assumes "ledger fn tr s" and "\<And>w. buf_of s' w = buf_of s w"
    and "\<And>w b. buf_of s w = Some b \<Longrightarrow> good fn tr s w (kc_bufs s b) \<Longrightarrow> good fn tr s' w (kc_bufs s b)"
    and "kc_bufs s' = kc_bufs s" and "kc_nbufs s' = kc_nbufs s"
  shows "ledger fn tr s'"
proof -
  have "buf_of s' = buf_of s" using assms(2) by (rule ext)
  then show ?thesis using assms(1,3) unfolding ledger_def assms(4,5) by (auto elim: ledger_cong)
qed

lemma flight_pre_settled:
  "flight_ok fl \<Longrightarrow> fl_promise fl \<noteq> Pending \<Longrightarrow> flight_pre (fl\<lparr>fl_settled := True\<rparr>)"
  by (auto simp: flight_ok_def flight_pre_def live_def promised_def split: if_splits)

lemma flight_pre_left:
  "flight_ok fl \<Longrightarrow> flight_pre (fl\<lparr>fl_waiters := fl_waiters fl - 1\<rparr>)"
  by (auto simp: flight_ok_def flight_pre_def live_def promised_def split: if_splits)

lemma core_inv_settle:
  assumes c: "core_inv fn tr s" and f: "f < kc_nflights s" "fl_promise (kc_flights s f) \<noteq> Pending"
  shows "core_inv fn tr (settle f s)"
proof -
  define s1 where "s1 = set_flight f ((kc_flights s f)\<lparr>fl_settled := True\<rparr>) s"
  have fi: "flights_inv s" and l: "ledger fn tr s" using c by (auto simp: core_inv_def)
  have s1: "kc_flights s1 g = (if g = f then (kc_flights s f)\<lparr>fl_settled := True\<rparr> else kc_flights s g)"
    "kc_callers s1 = kc_callers s" "kc_ncallers s1 = kc_ncallers s" "kc_nflights s1 = kc_nflights s"
    "kc_inflight s1 = kc_inflight s" "kc_entries s1 = kc_entries s" "kc_bufs s1 = kc_bufs s"
    "kc_nbufs s1 = kc_nbufs s" for g
    by (simp_all add: s1_def set_flight_def)
  have "buf_of s1 w = buf_of s w" for w by (cases w) (simp_all add: buf_of_def s1)
  then have "ledger fn tr s1"
    by (rule ledger_same [OF l]) (simp_all add: s1 good_other [of s1 s])
  moreover have "flights_but f s1"
  proof (rule flights_butI)
    show "flight_pre (kc_flights s1 f)" using flight_pre_settled [OF flights_invD(1) [OF fi] f(2)] by (simp add: s1)
    show "flight_ok (kc_flights s1 g)" if "g \<noteq> f" for g using that flights_invD(1) [OF fi] by (simp add: s1)
    show "fl_waiters (kc_flights s1 g) = card (waiting_for (kc_callers s1) g)" for g
      using flights_invD(2) [OF fi] by (simp add: s1)
    show "kc_flights s1 g = no_flight" if "kc_nflights s1 \<le> g" for g
      using that f(1) flights_invD(3) [OF fi] by (auto simp: s1)
    show "g < kc_nflights s1 \<and> fl_key (kc_flights s1 g) = k \<and> (g \<noteq> f \<longrightarrow> live (kc_flights s1 g))"
      if "map_of (kc_inflight s1) k = Some g" for k g
      using flights_invD(7) [OF fi that [unfolded s1]] by (auto simp: s1)
  qed (use f(1) flights_invD(4,5,6) [OF fi] in \<open>simp_all add: s1\<close>)
  moreover have "distinct (map fst (kc_entries s1))" using c by (simp add: s1 core_inv_def)
  ultimately have "core_inv fn tr (cleanupLoad (fl_key (kc_flights s1 f)) f s1)" by (intro core_inv_cleanup)
  then show ?thesis by (simp add: settle_def s1 flip: s1_def)
qed

text \<open>A caller that waits finds the source of its flight untouched.\<close>

lemma waiting_source:
  assumes "flights_inv s" and "kc_callers s c = Waiting f" and "fl_promise (kc_flights s f) = Resolved b"
  shows "fl_source (kc_flights s f) = Some b"
proof -
  have "c \<in> waiting_for (kc_callers s) f" using assms(2) by (simp add: waiting_for_def)
  then have "fl_waiters (kc_flights s f) \<noteq> 0"
    using flights_invD(2) [OF assms(1)] finite_waiting [OF flights_invD(4) [OF assms(1)]] by (auto simp: card_eq_0_iff)
  then have "live (kc_flights s f)" by (simp add: live_def)
  then show ?thesis using flights_invD(1) [OF assms(1), of f] assms(3) by (simp add: flight_ok_def promised_def)
qed

lemma core_inv_leave:
  assumes d: "distinct (map fst (kc_entries s'))" and l: "ledger fn tr s'" and fi: "flights_inv s"
    and c: "kc_callers s c = Waiting f" and x: "\<And>g. x \<noteq> Waiting g"
    and s': "kc_flights s' = kc_flights s" "kc_callers s' = (kc_callers s)(c := x)"
      "kc_ncallers s' = kc_ncallers s" "kc_nflights s' = kc_nflights s" "kc_inflight s' = kc_inflight s"
  shows "core_inv fn tr (leave_flight f s')"
proof -
  define s1 where "s1 = set_flight f ((kc_flights s' f)\<lparr>fl_waiters := fl_waiters (kc_flights s' f) - 1\<rparr>) s'"
  have s1: "kc_flights s1 g = (if g = f then (kc_flights s f)\<lparr>fl_waiters := fl_waiters (kc_flights s f) - 1\<rparr> else kc_flights s g)"
    "kc_callers s1 = (kc_callers s)(c := x)" "kc_ncallers s1 = kc_ncallers s" "kc_nflights s1 = kc_nflights s"
    "kc_inflight s1 = kc_inflight s" "kc_entries s1 = kc_entries s'" "kc_bufs s1 = kc_bufs s'"
    "kc_nbufs s1 = kc_nbufs s'" for g
    by (simp_all add: s1_def set_flight_def s')
  have "buf_of s1 w = buf_of s' w" for w by (cases w) (simp_all add: buf_of_def s1 s')
  then have "ledger fn tr s1"
    by (rule ledger_same [OF l]) (simp_all add: s1 s' good_other [of s1 s'])
  moreover have "flights_but f s1"
  proof (rule flights_butI)
    show "flight_pre (kc_flights s1 f)" using flight_pre_left [OF flights_invD(1) [OF fi]] by (simp add: s1)
    show "flight_ok (kc_flights s1 g)" if "g \<noteq> f" for g using that flights_invD(1) [OF fi] by (simp add: s1)
    show "fl_waiters (kc_flights s1 g) = card (waiting_for (kc_callers s1) g)" for g
      using flights_invD(2) [OF fi, of g] card_waiting_leave [OF flights_invD(4) [OF fi] c x, of g] by (auto simp: s1)
    show "kc_flights s1 g = no_flight" if "kc_nflights s1 \<le> g" for g
      using that flights_invD(5) [OF fi c] flights_invD(3) [OF fi] by (auto simp: s1)
    show "kc_callers s1 v = No_caller" if "kc_ncallers s1 \<le> v" for v
      using that flights_invD(4) [OF fi] c by (auto simp: s1)
    show "g < kc_nflights s1" if "kc_callers s1 v = Waiting g" for v g
      using that flights_invD(5) [OF fi, of v g] x by (auto simp: s1 split: if_splits)
    show "g < kc_nflights s1 \<and> fl_key (kc_flights s1 g) = k \<and> (g \<noteq> f \<longrightarrow> live (kc_flights s1 g))"
      if "map_of (kc_inflight s1) k = Some g" for k g
      using flights_invD(7) [OF fi that [unfolded s1]] by (auto simp: s1)
  qed (use flights_invD(5) [OF fi c] flights_invD(6) [OF fi] in \<open>simp_all add: s1\<close>)
  ultimately have "core_inv fn tr (cleanupLoad (fl_key (kc_flights s1 f)) f s1)"
    using d by (intro core_inv_cleanup) (simp_all add: s1)
  then show ?thesis unfolding leave_flight_def s1_def [symmetric] by (simp add: s1 s')
qed

lemma core_inv_resume:
  assumes c: "core_inv fn tr s" and w: "kc_callers s c = Waiting f"
    and fence: "snd (fn (fl_key (kc_flights s f))) \<le> c \<Longrightarrow> fst (fn (fl_key (kc_flights s f))) \<le> f"
  shows "core_inv fn tr (resume c f s)"
proof -
  have fi: "flights_inv s" and l: "ledger fn tr s" and d: "distinct (map fst (kc_entries s))"
    using c by (auto simp: core_inv_def)
  show ?thesis
  proof (cases "\<exists>b. fl_promise (kc_flights s f) = Resolved b")
    case False
    have "ledger fn tr (set_caller c Threw s)"
    proof (rule ledger_same [OF l])
      show "buf_of (set_caller c Threw s) v = buf_of s v" for v
        using w by (cases v) (auto simp: buf_of_def set_caller_def)
      show "good fn tr (set_caller c Threw s) v bs" if "buf_of s v = Some b" "good fn tr s v bs" for v b bs
        using that w by (subst good_other [of _ s]) (auto simp: set_caller_def buf_of_def)
    qed (simp_all add: set_caller_def)
    then have "core_inv fn tr (leave_flight f (set_caller c Threw s))"
      by (intro core_inv_leave [OF _ _ fi w, where x = Threw]) (simp_all add: d set_caller_def)
    with False show ?thesis by (auto simp: resume_def split: promise_state.splits)
  next
    case True
    then obtain b where b: "fl_promise (kc_flights s f) = Resolved b" by blast
    let ?k = "fl_key (kc_flights s f)"
    define s' where "s' = set_caller c (Working ?k (kc_nbufs s)) (alloc (kc_bufs s b) s)"
    have s': "kc_flights s' = kc_flights s" "kc_callers s' = (kc_callers s)(c := Working ?k (kc_nbufs s))"
      "kc_ncallers s' = kc_ncallers s" "kc_nflights s' = kc_nflights s" "kc_inflight s' = kc_inflight s"
      "kc_entries s' = kc_entries s" "kc_bufs s' = (kc_bufs s)(kc_nbufs s := kc_bufs s b)" "kc_nbufs s' = Suc (kc_nbufs s)"
      by (simp_all add: s'_def set_caller_def alloc_def)
    have "buf_of s (Oflight f) = Some b" using waiting_source [OF fi w b] by (simp add: buf_of_def)
    then have "good fn tr s (Oflight f) (kc_bufs s b)" using l unfolding ledger_def by (metis ledger_okD(2))
    then have new: "good fn tr s' (Ocaller c) (kc_bufs s b)" 
      using fence by (auto simp: good_def loaded_since_def s')
    have "buf_of s (Ocaller c) = None" using w by (simp add: buf_of_def)
    moreover have "ledger_ok (good fn tr s') (buf_of s) (kc_bufs s) (kc_nbufs s)"
      using l unfolding ledger_def
    proof (rule ledger_cong)
      fix v b' assume "buf_of s v = Some b'" "good fn tr s v (kc_bufs s b')"
      then show "good fn tr s' v (kc_bufs s b')"
        using w by (subst good_other [of s' s]) (auto simp: s' buf_of_def)
    qed
    ultimately have "ledger_ok (good fn tr s') ((buf_of s)(Ocaller c := Some (kc_nbufs s)))
        ((kc_bufs s)(kc_nbufs s := kc_bufs s b)) (Suc (kc_nbufs s))"
      using new by (intro ledger_take)
    moreover have "buf_of s' = (buf_of s)(Ocaller c := Some (kc_nbufs s))"
      by (auto simp: buf_of_def s' fun_eq_iff split: owner.splits)
    ultimately have "ledger fn tr s'" by (simp add: ledger_def s')
    then have "core_inv fn tr (leave_flight f s')"
      by (intro core_inv_leave [OF _ _ fi w, where x = "Working ?k (kc_nbufs s)"]) (simp_all add: s' d)
    with b show ?thesis by (simp add: resume_def s'_def)
  qed
qed

section \<open>Calls\<close>

lemma flight_ok_join: "flight_ok fl \<Longrightarrow> live fl \<Longrightarrow> flight_ok (fl\<lparr>fl_waiters := Suc (fl_waiters fl)\<rparr>)"
  by (auto simp: flight_ok_def live_def promised_def split: if_splits)

lemma flight_ok_new: "flight_ok (no_flight\<lparr>fl_key := k, fl_generation := g\<rparr>)"
  "live (no_flight\<lparr>fl_key := k, fl_generation := g\<rparr>)"
  by (simp_all add: flight_ok_def live_def no_flight_def promised_def)

lemma loaded_since_grown:
  assumes "loaded_since n tr s k bs" and "kc_nflights s \<le> kc_nflights s'"
    and "\<And>g. g < kc_nflights s \<Longrightarrow> fl_key (kc_flights s' g) = fl_key (kc_flights s g)"
  shows "loaded_since n tr s' k bs"
  using assms unfolding loaded_since_def by (metis order_less_le_trans)

lemma good_grown:
  assumes "good fn tr s w bs" and "kc_nflights s \<le> kc_nflights s'"
    and "\<And>g. g < kc_nflights s \<Longrightarrow> fl_key (kc_flights s' g) = fl_key (kc_flights s g)"
    and "kc_callers s' = kc_callers s"
  shows "good fn tr s' w bs"
  using assms(1,2,4) loaded_since_grown [OF _ assms(2,3)]
  by (auto simp: good_def split: owner.splits caller.splits if_splits)

lemma core_inv_startLoad:
  assumes c: "core_inv fn tr s" and k: "map_of (kc_inflight s) k = None"
  shows "core_inv fn tr (startLoad k s)"
proof -
  have fi: "flights_inv s" and l: "ledger fn tr s" using c by (auto simp: core_inv_def)
  let ?s = "startLoad k s" and ?new = "no_flight\<lparr>fl_key := k, fl_generation := generation k s\<rparr>"
  have blank: "kc_flights s (kc_nflights s) = no_flight" using flights_invD(3) [OF fi] by simp
  have s': "kc_flights ?s g = (if g = kc_nflights s then ?new else kc_flights s g)"
    "kc_callers ?s = kc_callers s" "kc_ncallers ?s = kc_ncallers s" "kc_nflights ?s = Suc (kc_nflights s)"
    "kc_inflight ?s = AList.update k (kc_nflights s) (kc_inflight s)" "kc_entries ?s = kc_entries s"
    "kc_bufs ?s = kc_bufs s" "kc_nbufs ?s = kc_nbufs s" for g
    by (simp_all add: startLoad_def Let_def)
  have "ledger fn tr ?s"
  proof (rule ledger_same [OF l])
    show "buf_of ?s w = buf_of s w" for w
      using blank by (cases w) (auto simp: buf_of_def s' no_flight_def)
    show "good fn tr ?s w bs" if "buf_of s w = Some b" "good fn tr s w bs" for w b bs
      by (rule good_grown [OF that(2)]) (simp_all add: s')
  qed (simp_all add: s')
  moreover have "flights_inv ?s"
  proof (rule flights_invI)
    show "flight_ok (kc_flights ?s f)" for f using flights_invD(1) [OF fi] flight_ok_new by (simp add: s')
    show "fl_waiters (kc_flights ?s f) = card (waiting_for (kc_callers ?s) f)" for f
      using flights_invD(2) [OF fi, of f] blank by (auto simp: s' no_flight_def)
    show "kc_flights ?s f = no_flight" if "kc_nflights ?s \<le> f" for f
      using that flights_invD(3) [OF fi] by (simp add: s')
    show "f < kc_nflights ?s" if "kc_callers ?s c = Waiting f" for c f
      using flights_invD(5) [OF fi that [unfolded s']] by (simp add: s')
    show "f < kc_nflights ?s \<and> fl_key (kc_flights ?s f) = j \<and> live (kc_flights ?s f)"
      if "map_of (kc_inflight ?s) j = Some f" for j f
      using that flights_invD(7) [OF fi, of j f] flight_ok_new(2) [where k = k and g = "generation k s"]
      by (auto simp: s' update_conv' split: if_splits)
  qed (use flights_invD(4,6) [OF fi] in \<open>simp_all add: s' distinct_update\<close>)
  ultimately show ?thesis using c by (simp add: core_inv_def s')
qed

lemma core_inv_add_waiter:
  assumes c: "core_inv fn tr s" and k: "map_of (kc_inflight s) k = Some f"
  shows "core_inv fn tr (new_caller (Waiting f) (set_flight f ((kc_flights s f)\<lparr>fl_waiters := fl_waiters (kc_flights s f) + 1\<rparr>) s))"
    (is "core_inv fn tr ?s")
proof -
  define u where "u = ?s"
  have fi: "flights_inv s" and l: "ledger fn tr s" using c by (auto simp: core_inv_def)
  have f: "f < kc_nflights s" "live (kc_flights s f)" using flights_invD(7) [OF fi k] by auto
  have s': "kc_flights u g = (if g = f then (kc_flights s f)\<lparr>fl_waiters := Suc (fl_waiters (kc_flights s f))\<rparr> else kc_flights s g)"
    "kc_callers u = (kc_callers s)(kc_ncallers s := Waiting f)" "kc_ncallers u = Suc (kc_ncallers s)"
    "kc_nflights u = kc_nflights s" "kc_inflight u = kc_inflight s" "kc_entries u = kc_entries s"
    "kc_bufs u = kc_bufs s" "kc_nbufs u = kc_nbufs s" for g
    by (simp_all add: u_def new_caller_def set_flight_def)
  have nc: "kc_callers s (kc_ncallers s) = No_caller" using flights_invD(4) [OF fi] by simp
  have "ledger fn tr u"
  proof (rule ledger_same [OF l])
    show "buf_of u w = buf_of s w" for w using nc by (cases w) (auto simp: buf_of_def s')
    show "good fn tr u w bs" if "buf_of s w = Some b" "good fn tr s w bs" for w b bs
      using that nc by (subst good_other [of _ s]) (auto simp: s' buf_of_def)
  qed (simp_all add: s')
  moreover have "flights_inv u"
  proof (rule flights_invI)
    show "flight_ok (kc_flights u g)" for g
      using flights_invD(1) [OF fi] flight_ok_join [OF _ f(2)] by (simp add: s')
    show "fl_waiters (kc_flights u g) = card (waiting_for (kc_callers u) g)" for g
      using flights_invD(2) [OF fi, of g] card_waiting_join [OF flights_invD(4) [OF fi], of f g] by (auto simp: s')
    show "kc_flights u g = no_flight" if "kc_nflights u \<le> g" for g
      using that f(1) flights_invD(3) [OF fi] by (auto simp: s')
    show "kc_callers u v = No_caller" if "kc_ncallers u \<le> v" for v
      using that flights_invD(4) [OF fi] by (auto simp: s')
    show "g < kc_nflights u" if "kc_callers u v = Waiting g" for v g
      using that flights_invD(5) [OF fi, of v g] f(1) by (auto simp: s' split: if_splits)
    show "g < kc_nflights u \<and> fl_key (kc_flights u g) = j \<and> live (kc_flights u g)"
      if "map_of (kc_inflight u) j = Some g" for j g
      using flights_invD(7) [OF fi that [unfolded s']] by (auto simp: s' live_def)
  qed (use flights_invD(6) [OF fi] in \<open>simp add: s'\<close>)
  ultimately have "core_inv fn tr u" using c by (simp add: core_inv_def s')
  then show ?thesis by (simp only: u_def)
qed

lemma new_caller_observe: "new_caller x (observe cfg i r s) = observe cfg i r (new_caller x s)"
  by (simp add: observe_def new_caller_def split: option.splits)

lemma core_inv_join:
  assumes c: "core_inv fn tr s"
  shows "core_inv fn tr (join_flight cfg k i s)"
proof (cases "map_of (kc_inflight s) k")
  case None
  have f: "map_of (kc_inflight (startLoad k s)) k = Some (kc_nflights s)"
    by (simp add: startLoad_def Let_def update_conv')
  show ?thesis
    using core_inv_add_waiter [OF core_inv_startLoad [OF c None] f] None
    by (simp add: join_flight_def Let_def new_caller_observe)
next
  case (Some f)
  show ?thesis using core_inv_add_waiter [OF c Some] Some by (simp add: join_flight_def Let_def new_caller_observe)
qed

lemma core_inv_evict: "core_inv fn tr s \<Longrightarrow> core_inv fn tr (evict k s)"
  by (simp add: evict_def Let_def core_inv_uninflight core_inv_drop_entry)

lemma core_inv_reorder:
  assumes c: "core_inv fn tr s" and e: "map_of (kc_entries s) k = Some e"
  shows "core_inv fn tr (s\<lparr>kc_entries := AList.delete k (kc_entries s) @ [(k, e)]\<rparr>)" (is "core_inv fn tr ?s")
proof -
  have m: "[k \<mapsto> e] ++ map_of (AList.delete k (kc_entries s)) = map_of (kc_entries s)"
    using e by (auto simp: delete_conv' map_add_def fun_eq_iff split: option.splits)
  have d: "distinct (map fst (kc_entries s))" using c by (simp add: core_inv_def)
  have "distinct (map fst (kc_entries ?s))"
    using distinct_delete [OF d, of k] by (auto simp: AList.delete_eq)
  moreover have "ledger fn tr ?s"
    using c unfolding core_inv_def
    by (elim conjE ledger_same) (auto simp: buf_of_def m good_def loaded_since_def split: owner.splits caller.splits)
  moreover have "flights_inv ?s" using c by (simp add: core_inv_def flights_inv_def)
  ultimately show ?thesis by (simp add: core_inv_def)
qed

lemma core_inv_working_copy:
  assumes c: "core_inv fn tr s" and e: "map_of (kc_entries s) k = Some e"
  shows "core_inv fn tr (new_caller (Working k (kc_nbufs s)) (alloc (kc_bufs s (ent_key e)) s))" (is "core_inv fn tr ?u")
proof -
  define u where "u = ?u"
  have fi: "flights_inv s" and l: "ledger fn tr s" using c by (auto simp: core_inv_def)
  have nc: "kc_callers s (kc_ncallers s) = No_caller" using flights_invD(4) [OF fi] by simp
  have u: "kc_flights u = kc_flights s" "kc_callers u = (kc_callers s)(kc_ncallers s := Working k (kc_nbufs s))"
    "kc_ncallers u = Suc (kc_ncallers s)" "kc_nflights u = kc_nflights s" "kc_inflight u = kc_inflight s"
    "kc_entries u = kc_entries s" "kc_bufs u = (kc_bufs s)(kc_nbufs s := kc_bufs s (ent_key e))"
    "kc_nbufs u = Suc (kc_nbufs s)"
    by (simp_all add: u_def new_caller_def alloc_def)
  have "buf_of s (Oentry k) = Some (ent_key e)" using e by (simp add: buf_of_def)
  then have "good fn tr s (Oentry k) (kc_bufs s (ent_key e))" using l unfolding ledger_def by (metis ledger_okD(2))
  then have new: "good fn tr u (Ocaller (kc_ncallers s)) (kc_bufs s (ent_key e))"

    by (auto simp: good_def loaded_since_def u)
  have "ledger_ok (good fn tr u) (buf_of s) (kc_bufs s) (kc_nbufs s)"
    using l unfolding ledger_def
  proof (rule ledger_cong)
    fix w b assume "buf_of s w = Some b" "good fn tr s w (kc_bufs s b)"
    then show "good fn tr u w (kc_bufs s b)"
      using nc by (subst good_other [of u s]) (auto simp: u buf_of_def)
  qed
  then have "ledger_ok (good fn tr u) ((buf_of s)(Ocaller (kc_ncallers s) := Some (kc_nbufs s)))
      ((kc_bufs s)(kc_nbufs s := kc_bufs s (ent_key e))) (Suc (kc_nbufs s))"
    using new nc by (intro ledger_take) (simp_all add: buf_of_def)
  moreover have "buf_of u = (buf_of s)(Ocaller (kc_ncallers s) := Some (kc_nbufs s))"
    by (auto simp: buf_of_def u fun_eq_iff split: owner.splits)
  ultimately have "ledger fn tr u" by (simp add: ledger_def u)
  moreover have "flights_inv u"
  proof (rule flights_invI)
    show "fl_waiters (kc_flights u g) = card (waiting_for (kc_callers u) g)" for g
      using flights_invD(2) [OF fi, of g] nc by (simp add: u waiting_other)
    show "kc_callers u v = No_caller" if "kc_ncallers u \<le> v" for v
      using that flights_invD(4) [OF fi] by (auto simp: u)
    show "g < kc_nflights u" if "kc_callers u v = Waiting g" for v g
      using that flights_invD(5) [OF fi, of v g] by (auto simp: u split: if_splits)
    show "g < kc_nflights u \<and> fl_key (kc_flights u g) = j \<and> live (kc_flights u g)"
      if "map_of (kc_inflight u) j = Some g" for j g
      using flights_invD(7) [OF fi that [unfolded u]] by (simp add: u)
  qed (use flights_invD(1,3,6) [OF fi] in \<open>simp_all add: u\<close>)
  moreover have "distinct (map fst (kc_entries u))" using c by (simp add: core_inv_def u)
  ultimately show ?thesis unfolding u_def [symmetric] by (simp add: core_inv_def)
qed

lemma observe_simps [simp]:
  "kc_entries (observe cfg i r s) = kc_entries s" "kc_inflight (observe cfg i r s) = kc_inflight s"
  "kc_timer (observe cfg i r s) = kc_timer s" "kc_bufs (observe cfg i r s) = kc_bufs s"
  "kc_nbufs (observe cfg i r s) = kc_nbufs s" "kc_flights (observe cfg i r s) = kc_flights s"
  "kc_nflights (observe cfg i r s) = kc_nflights s" "kc_callers (observe cfg i r s) = kc_callers s"
  "kc_ncallers (observe cfg i r s) = kc_ncallers s" "kc_now (observe cfg i r s) = kc_now s"
  "kc_generations (observe cfg i r s) = kc_generations s"
  by (auto simp: observe_def split: option.splits)

lemma core_inv_call:
  assumes c: "core_inv fn tr s"
  shows "core_inv fn tr (call cfg k i s)"
proof (cases "map_of (kc_entries s) k")
  case None
  then show ?thesis using core_inv_join [OF c] by (simp add: call_def)
next
  case (Some e)
  let ?s = "observe cfg i Hit (s\<lparr>kc_entries := AList.delete k (kc_entries s) @ [(k, e)]\<rparr>)"
  have r: "core_inv fn tr ?s" using core_inv_reorder [OF c Some] by simp
  have "map_of (kc_entries ?s) k = Some e" by (simp add: delete_conv' map_add_def)
  from core_inv_working_copy [OF r this] show ?thesis
    using Some core_inv_join [OF core_inv_evict [OF c]] by (simp add: call_def Let_def)
qed

section \<open>The end of a caller, a clear and the timer\<close>

lemma core_inv_finish:
  assumes c: "core_inv fn tr s" and w: "kc_callers s c = Working k b"
  shows "core_inv fn tr (set_caller c Returned (fill_zero b s))" (is "core_inv fn tr ?u")
proof -
  define u where "u = ?u"
  have fi: "flights_inv s" and l: "ledger fn tr s" using c by (auto simp: core_inv_def)
  have u: "kc_flights u = kc_flights s" "kc_callers u = (kc_callers s)(c := Returned)"
    "kc_ncallers u = kc_ncallers s" "kc_nflights u = kc_nflights s" "kc_inflight u = kc_inflight s"
    "kc_entries u = kc_entries s" "kc_bufs u = (kc_bufs s)(b := replicate (length (kc_bufs s b)) 0)"
    "kc_nbufs u = kc_nbufs s"
    by (simp_all add: u_def set_caller_def fill_zero_def)
  have "ledger_ok (good fn tr s) ((buf_of s)(Ocaller c := None))
      ((kc_bufs s)(b := replicate (length (kc_bufs s b)) 0)) (kc_nbufs s)"
    by (rule ledger_drop) (use l w in \<open>auto simp: ledger_def buf_of_def\<close>)
  then have "ledger_ok (good fn tr u) ((buf_of s)(Ocaller c := None))
      ((kc_bufs s)(b := replicate (length (kc_bufs s b)) 0)) (kc_nbufs s)"
  proof (rule ledger_cong)
    fix v b' bs assume "((buf_of s)(Ocaller c := None)) v = Some b'"
      and "good fn tr s v (((kc_bufs s)(b := replicate (length (kc_bufs s b)) 0)) b')"
    then show "good fn tr u v (((kc_bufs s)(b := replicate (length (kc_bufs s b)) 0)) b')"
      by (subst good_other [of u s]) (auto simp: u split: if_splits)
  qed
  moreover have "buf_of u = (buf_of s)(Ocaller c := None)"
    by (auto simp: buf_of_def u fun_eq_iff split: owner.splits)
  ultimately have "ledger fn tr u" by (simp add: ledger_def u)
  moreover have "flights_inv u"
  proof (rule flights_invI)
    show "fl_waiters (kc_flights u g) = card (waiting_for (kc_callers u) g)" for g
      using flights_invD(2) [OF fi, of g] w by (simp add: u waiting_other)
    show "kc_callers u v = No_caller" if "kc_ncallers u \<le> v" for v
      using that flights_invD(4) [OF fi] w by (auto simp: u)
    show "g < kc_nflights u" if "kc_callers u v = Waiting g" for v g
      using that flights_invD(5) [OF fi, of v g] by (auto simp: u split: if_splits)
    show "g < kc_nflights u \<and> fl_key (kc_flights u g) = j \<and> live (kc_flights u g)"
      if "map_of (kc_inflight u) j = Some g" for j g
      using flights_invD(7) [OF fi that [unfolded u]] by (simp add: u)
  qed (use flights_invD(1,3,6) [OF fi] in \<open>simp_all add: u\<close>)
  moreover have "distinct (map fst (kc_entries u))" using c by (simp add: core_inv_def u)
  ultimately show ?thesis unfolding u_def [symmetric] by (simp add: core_inv_def)
qed

lemma fold_clear_entry:
  "fold clear_entry es s = s\<lparr>kc_generations := kc_generations (fold clear_entry es s),
     kc_bufs := (\<lambda>b. if b \<in> (ent_key \<circ> snd) ` set es then replicate (length (kc_bufs s b)) 0 else kc_bufs s b)\<rparr>"
proof (induction es arbitrary: s)
  case Nil
  then show ?case by simp
next
  case (Cons e es)
  show ?case
    by (simp only: fold.simps comp_apply, subst Cons.IH)
      (auto simp: clear_entry_def fill_zero_def bump_generation_def fun_eq_iff)
qed

lemma fold_clear_flight:
  "\<forall>(k, f) \<in> set fs. live (kc_flights s f) \<Longrightarrow>
     \<exists>g. fold clear_flight fs s = s\<lparr>kc_generations := g, kc_inflight := filter (\<lambda>(k, f). k \<notin> fst ` set fs) (kc_inflight s)\<rparr>"
proof (induction fs arbitrary: s)
  case Nil
  have "filter (\<lambda>(k, f). True) (kc_inflight s) = kc_inflight s" by (simp add: case_prod_unfold)
  then show ?case by (intro exI [of _ "kc_generations s"]) simp
next
  case (Cons kf fs)
  obtain k f where kf: "kf = (k, f)" by (cases kf)
  let ?s = "s\<lparr>kc_generations := (kc_generations s)(k \<mapsto> generation k s + 1), kc_inflight := AList.delete k (kc_inflight s)\<rparr>"
  have one: "clear_flight kf s = ?s"
    using Cons.prems by (auto simp: clear_flight_def cleanupLoad_def live_def kf Let_def bump_generation_def)
  have "\<forall>(k, f) \<in> set fs. live (kc_flights ?s f)" using Cons.prems by auto
  from Cons.IH [OF this] obtain g where
    "fold clear_flight fs ?s = ?s\<lparr>kc_generations := g, kc_inflight := filter (\<lambda>(k, f). k \<notin> fst ` set fs) (kc_inflight ?s)\<rparr>"
    by blast
  moreover have "filter (\<lambda>(j, f). j \<notin> fst ` set fs) (AList.delete k (kc_inflight s))
      = filter (\<lambda>(j, f). j \<notin> fst ` set (kf # fs)) (kc_inflight s)"
    by (auto simp: AList.delete_eq kf case_prod_unfold intro!: filter_cong)
  ultimately show ?case by (intro exI [of _ g]) (simp add: one)
qed

lemma clear_result:
  assumes "core_inv fn tr s"
  shows "core_inv fn tr (clear s) \<and> kc_entries (clear s) = [] \<and> kc_timer (clear s) = None
    \<and> kc_inflight (clear s) = [] \<and> kc_flights (clear s) = kc_flights s \<and> kc_nflights (clear s) = kc_nflights s
    \<and> kc_callers (clear s) = kc_callers s"
proof -
  define s1 where "s1 = (fold clear_entry (kc_entries s) s)\<lparr>kc_entries := []\<rparr>"
  let ?B = "(ent_key \<circ> snd) ` set (kc_entries s)"
  define g1 where "g1 = kc_generations (fold clear_entry (kc_entries s) s)"
  have "s1 = (s\<lparr>kc_generations := g1,
      kc_bufs := (\<lambda>b. if b \<in> ?B then replicate (length (kc_bufs s b)) 0 else kc_bufs s b)\<rparr>)\<lparr>kc_entries := []\<rparr>"
    unfolding s1_def g1_def by (rule arg_cong [OF fold_clear_entry])
  then have s1: "s1 = s\<lparr>kc_generations := g1, kc_entries := [],
      kc_bufs := (\<lambda>b. if b \<in> ?B then replicate (length (kc_bufs s b)) 0 else kc_bufs s b)\<rparr>"
    by simp
  have d: "distinct (map fst (kc_entries s))" and l: "ledger fn tr s" and fi: "flights_inv s"
    using assms by (auto simp: core_inv_def)
  have B: "b \<in> ?B \<longleftrightarrow> (\<exists>k. buf_of s (Oentry k) = Some b)" for b
    using d by (force simp: buf_of_def)
  have "core_inv fn tr s1"
  proof -
    have "buf_of s1 w = (case w of Oentry k \<Rightarrow> None | _ \<Rightarrow> buf_of s w)" for w
      by (cases w) (simp_all add: buf_of_def s1)
    then have "buf_of s1 = (\<lambda>w. case w of Oentry k \<Rightarrow> None | _ \<Rightarrow> buf_of s w)" by (rule ext)
    moreover have "good fn tr s1 = good fn tr s"
      by (intro ext good_other) (simp_all add: s1)
    ultimately have "ledger fn tr s1"
      using ledger_drop_entries [OF l [unfolded ledger_def], of ?B] B unfolding ledger_def by (simp add: s1)
    moreover have "flights_inv s1" using fi by (simp add: flights_inv_def s1)
    ultimately show ?thesis by (simp add: core_inv_def s1)
  qed
  moreover have "\<forall>(k, f) \<in> set (kc_inflight s1). live (kc_flights s1 f)"
    using flights_invD(6,7) [OF fi] by (auto simp: s1)
  then obtain g2 where s2: "fold clear_flight (kc_inflight s1) s1 = s1\<lparr>kc_generations := g2,
      kc_inflight := filter (\<lambda>(k, f). k \<notin> fst ` set (kc_inflight s1)) (kc_inflight s1)\<rparr>"
    using fold_clear_flight by blast
  have e: "filter (\<lambda>(k, f). k \<notin> fst ` set (kc_inflight s1)) (kc_inflight s1) = []"
    by (force simp: filter_empty_conv)
  have s2': "fold clear_flight (kc_inflight s1) s1 = s1\<lparr>kc_generations := g2, kc_inflight := []\<rparr>"
    using s2 unfolding e .
  have r: "clear s = ((s1\<lparr>kc_inflight := []\<rparr>)\<lparr>kc_generations := (\<lambda>_. None)\<rparr>)\<lparr>kc_timer := None\<rparr>"
    unfolding clear_def Let_def s1_def [symmetric] s2' by simp
  have "core_inv fn tr (s1\<lparr>kc_inflight := []\<rparr>)"
    using \<open>core_inv fn tr s1\<close> by (auto simp: inv_unfold cong: owner.case_cong caller.case_cong)
  then have "core_inv fn tr (clear s)" unfolding r by (simp only: core_inv_fields)
  then show ?thesis unfolding r by (simp add: s1)
qed

section \<open>Loading\<close>

lemma flight_ok_reject: "flight_ok fl \<Longrightarrow> fl_promise fl = Pending \<Longrightarrow> flight_ok (fl\<lparr>fl_promise := Rejected\<rparr>)"
  by (auto simp: flight_ok_def live_def promised_def split: if_splits)

lemma flight_ok_resolve:
  "flight_ok fl \<Longrightarrow> fl_promise fl = Pending \<Longrightarrow> flight_ok (fl\<lparr>fl_source := Some b, fl_promise := Resolved b\<rparr>)"
  by (auto simp: flight_ok_def live_def promised_def split: if_splits)

text \<open>A change of one flight that keeps its key, waiters and settledness.\<close>

lemma flights_inv_set_flight:
  assumes fi: "flights_inv s" and ok: "flight_ok fl" and f: "f < kc_nflights s"
    and same: "fl_key fl = fl_key (kc_flights s f)" "fl_waiters fl = fl_waiters (kc_flights s f)"
      "fl_settled fl = fl_settled (kc_flights s f)"
    and s': "kc_flights s' = (kc_flights s)(f := fl)" "kc_callers s' = kc_callers s" "kc_ncallers s' = kc_ncallers s"
      "kc_nflights s' = kc_nflights s" "kc_inflight s' = kc_inflight s"
  shows "flights_inv s'"
proof (rule flights_invI)
  show "flight_ok (kc_flights s' g)" for g using flights_invD(1) [OF fi] ok by (simp add: s')
  show "fl_waiters (kc_flights s' g) = card (waiting_for (kc_callers s') g)" for g
    using flights_invD(2) [OF fi, of g] same by (auto simp: s')
  show "kc_flights s' g = no_flight" if "kc_nflights s' \<le> g" for g
    using that f flights_invD(3) [OF fi] by (auto simp: s')
  show "g < kc_nflights s' \<and> fl_key (kc_flights s' g) = k \<and> live (kc_flights s' g)"
    if "map_of (kc_inflight s') k = Some g" for k g
    using flights_invD(7) [OF fi that [unfolded s']] same by (auto simp: s' live_def)
qed (use flights_invD(4,5,6) [OF fi] in \<open>simp_all add: s'\<close>)

lemma core_inv_reject:
  assumes c: "core_inv fn tr s" and f: "f < kc_nflights s" "fl_promise (kc_flights s f) = Pending"
  shows "core_inv fn tr (set_flight f ((kc_flights s f)\<lparr>fl_promise := Rejected\<rparr>) s)" (is "core_inv fn tr ?u")
proof -
  define u where "u = ?u"
  have fi: "flights_inv s" and l: "ledger fn tr s" using c by (auto simp: core_inv_def)
  have u: "kc_flights u = (kc_flights s)(f := (kc_flights s f)\<lparr>fl_promise := Rejected\<rparr>)"
    "kc_callers u = kc_callers s" "kc_ncallers u = kc_ncallers s" "kc_nflights u = kc_nflights s"
    "kc_inflight u = kc_inflight s" "kc_entries u = kc_entries s" "kc_bufs u = kc_bufs s" "kc_nbufs u = kc_nbufs s"
    by (simp_all add: u_def set_flight_def)
  have "ledger fn tr u"
  proof (rule ledger_same [OF l])
    show "buf_of u w = buf_of s w" for w by (cases w) (simp_all add: buf_of_def u)
  qed (simp_all add: u good_other [of u s])
  moreover have "flights_inv u"
    by (rule flights_inv_set_flight [OF fi flight_ok_reject [OF flights_invD(1) [OF fi] f(2)] f(1)]) (simp_all add: u)
  ultimately have "core_inv fn tr u" using c by (simp add: core_inv_def u)
  then show ?thesis by (simp only: u_def)
qed

text \<open>A buffer that is allocated and overwritten at once.\<close>

lemma core_inv_spare:
  assumes c: "core_inv fn tr s"
  shows "core_inv fn tr (fill_zero (kc_nbufs s) (alloc bs s))" (is "core_inv fn tr ?u")
proof -
  define u where "u = ?u"
  have u: "kc_flights u = kc_flights s" "kc_callers u = kc_callers s" "kc_ncallers u = kc_ncallers s"
    "kc_nflights u = kc_nflights s" "kc_inflight u = kc_inflight s" "kc_entries u = kc_entries s"
    "kc_bufs u = (kc_bufs s)(kc_nbufs s := replicate (length bs) 0)" "kc_nbufs u = Suc (kc_nbufs s)"
    by (simp_all add: u_def fill_zero_def alloc_def)
  have "buf_of u w = buf_of s w" for w by (cases w) (simp_all add: buf_of_def u)
  then have "buf_of u = buf_of s" by (rule ext)
  moreover have "good fn tr u = good fn tr s" by (intro ext good_other) (simp_all add: u)
  ultimately have "ledger fn tr u" using c by (simp add: core_inv_def ledger_def u ledger_spare)
  moreover have "flights_inv u" using c by (simp add: core_inv_def flights_inv_def u)
  ultimately have "core_inv fn tr u" using c by (simp add: core_inv_def u)
  then show ?thesis by (simp only: u_def)
qed

lemma core_inv_resolve:
  assumes c: "core_inv fn tr s" and f: "f < kc_nflights s" "fl_promise (kc_flights s f) = Pending"
    and bs: "length bs = USER_KEY_LENGTH" "Load f (Loaded bs) \<in> set tr"
  shows "core_inv fn tr (set_flight f ((kc_flights s f)\<lparr>fl_source := Some (kc_nbufs s), fl_promise := Resolved (kc_nbufs s)\<rparr>) (alloc bs s))"
    (is "core_inv fn tr ?u")
proof -
  define u where "u = ?u"
  let ?fl = "(kc_flights s f)\<lparr>fl_source := Some (kc_nbufs s), fl_promise := Resolved (kc_nbufs s)\<rparr>"
  have fi: "flights_inv s" and l: "ledger fn tr s" using c by (auto simp: core_inv_def)
  have u: "kc_flights u = (kc_flights s)(f := ?fl)" "kc_callers u = kc_callers s"
    "kc_ncallers u = kc_ncallers s" "kc_nflights u = kc_nflights s" "kc_inflight u = kc_inflight s"
    "kc_entries u = kc_entries s" "kc_bufs u = (kc_bufs s)(kc_nbufs s := bs)" "kc_nbufs u = Suc (kc_nbufs s)"
    by (simp_all add: u_def set_flight_def alloc_def)
  have none: "buf_of s (Oflight f) = None"
    using flights_invD(1) [OF fi, of f] f(2) by (simp add: buf_of_def flight_ok_def promised_def)
  have "good fn tr u = good fn tr s" by (intro ext good_other) (simp_all add: u)
  moreover have "good fn tr s (Oflight f) bs" using bs f by (simp add: good_def)
  moreover have "buf_of u = (buf_of s)(Oflight f := Some (kc_nbufs s))"
    by (auto simp: buf_of_def u fun_eq_iff split: owner.splits)
  ultimately have "ledger fn tr u" using l none by (simp add: ledger_def u ledger_take)
  moreover have "flights_inv u"
    by (rule flights_inv_set_flight [OF fi flight_ok_resolve [OF flights_invD(1) [OF fi] f(2)] f(1)]) (simp_all add: u)
  ultimately have "core_inv fn tr u" using c by (simp add: core_inv_def u)
  then show ?thesis by (simp only: u_def)
qed

text \<open>Storing the copy: the key has no entry, as its flight would not be under way.\<close>

lemma core_inv_add_entry:
  assumes c: "core_inv fn tr s" and k: "map_of (kc_entries s) k = None" and bs: "loaded_since (fst (fn k)) tr s k bs"
  shows "core_inv fn tr ((alloc bs s)\<lparr>kc_entries := AList.update k \<lparr>ent_key = kc_nbufs s, ent_expiresAt = t\<rparr> (kc_entries s)\<rparr>)"
    (is "core_inv fn tr ?u")
proof -
  define u where "u = ?u"
  have fi: "flights_inv s" and l: "ledger fn tr s" and d: "distinct (map fst (kc_entries s))" using c by (auto simp: core_inv_def)
  have u: "kc_flights u = kc_flights s" "kc_callers u = kc_callers s" "kc_ncallers u = kc_ncallers s"
    "kc_nflights u = kc_nflights s" "kc_inflight u = kc_inflight s"
    "kc_entries u = AList.update k \<lparr>ent_key = kc_nbufs s, ent_expiresAt = t\<rparr> (kc_entries s)"
    "kc_bufs u = (kc_bufs s)(kc_nbufs s := bs)" "kc_nbufs u = Suc (kc_nbufs s)"
    by (simp_all add: u_def alloc_def)
  have "good fn tr u = good fn tr s" by (intro ext good_other) (simp_all add: u)
  moreover have "good fn tr s (Oentry k) bs" using bs by (simp add: good_def)
  moreover have "buf_of u w = ((buf_of s)(Oentry k := Some (kc_nbufs s))) w" for w
    by (cases w) (auto simp: buf_of_def u update_conv')
  then have "buf_of u = (buf_of s)(Oentry k := Some (kc_nbufs s))" by (rule ext)
  moreover have "buf_of s (Oentry k) = None" using k by (simp add: buf_of_def)
  ultimately have "ledger fn tr u" using l by (simp add: ledger_def u ledger_take)
  moreover have "flights_inv u" using fi by (simp add: flights_inv_def u)
  ultimately have "core_inv fn tr u" using d by (simp add: core_inv_def u distinct_update)
  then show ?thesis by (simp only: u_def)
qed

section \<open>Fences\<close>

text \<open>
  Beyond a key's fence only later flights serve it: in the map of flights, and for the callers from
  the fence on. A flight whose load is pending and that is still in the map has no entry yet.
\<close>

definition fence_inv :: "fence \<Rightarrow> key_cache \<Rightarrow> bool" where
  "fence_inv fn s \<longleftrightarrow>
     (\<forall>k. fst (fn k) \<le> kc_nflights s)
     \<and> (\<forall>k f. map_of (kc_inflight s) k = Some f \<longrightarrow> fst (fn k) \<le> f)
     \<and> (\<forall>c f. kc_callers s c = Waiting f \<longrightarrow> snd (fn (fl_key (kc_flights s f))) \<le> c
          \<longrightarrow> fst (fn (fl_key (kc_flights s f))) \<le> f)
     \<and> (\<forall>k f. map_of (kc_inflight s) k = Some f \<longrightarrow> fl_promise (kc_flights s f) = Pending
          \<longrightarrow> map_of (kc_entries s) k = None)"

text \<open>Most operations only forget.\<close>

definition forgets :: "key_cache \<Rightarrow> key_cache \<Rightarrow> bool" where
  "forgets s s' \<longleftrightarrow> kc_nflights s' = kc_nflights s \<and> map_of (kc_inflight s') \<subseteq>\<^sub>m map_of (kc_inflight s)
     \<and> (\<forall>c f. kc_callers s' c = Waiting f \<longrightarrow> kc_callers s c = Waiting f)
     \<and> (\<forall>f. fl_key (kc_flights s' f) = fl_key (kc_flights s f))
     \<and> (\<forall>f. fl_promise (kc_flights s' f) = Pending \<longrightarrow> fl_promise (kc_flights s f) = Pending)
     \<and> dom (map_of (kc_entries s')) \<subseteq> dom (map_of (kc_entries s))"

lemma forgets_refl [simp]: "forgets s s"
  by (simp add: forgets_def)

lemma forgets_trans: "forgets s s' \<Longrightarrow> forgets s' s'' \<Longrightarrow> forgets s s''"
  unfolding forgets_def by (intro conjI) (simp, blast intro: map_le_trans, simp_all, blast+)

lemma fence_forgets:
  assumes "fence_inv fn s" and "forgets s s'"
  shows "fence_inv fn s'"
proof -
  have i: "map_of (kc_inflight s) k = Some f" if "map_of (kc_inflight s') k = Some f" for k f
    using assms(2) that unfolding forgets_def map_le_def by (metis domI)
  have e: "map_of (kc_entries s) k = None \<Longrightarrow> map_of (kc_entries s') k = None" for k
    using assms(2) unfolding forgets_def by blast
  show ?thesis using assms i e unfolding fence_inv_def forgets_def by metis
qed

lemma forgets_fields [simp]:
  "forgets s (s\<lparr>kc_timer := t\<rparr>)" "forgets s (s\<lparr>kc_generations := g\<rparr>)" "forgets s (s\<lparr>kc_now := n\<rparr>)"
  "forgets s (forget_generation k s)" "forgets s (bump_generation k s)" "forgets s (rescheduleExpiry s)"
  "forgets s (observe cfg i r s)"
  by (simp_all add: forgets_def forget_generation_def bump_generation_def rescheduleExpiry_def)

lemma forgets_uninflight: "forgets s (s\<lparr>kc_inflight := AList.delete k (kc_inflight s)\<rparr>)"
  by (auto simp: forgets_def map_le_def delete_conv')

lemma forgets_drop_entry: "forgets s (drop_entry k s)"
  by (auto simp: forgets_def drop_entry_def fill_zero_def delete_conv' split: option.splits if_splits)

lemma forgets_after:
  "forgets s s' \<Longrightarrow> forgets s (forget_generation k s')"
  "forgets s s' \<Longrightarrow> forgets s (rescheduleExpiry s')"
  "forgets s s' \<Longrightarrow> forgets s (drop_entry k s')"
  "forgets s s' \<Longrightarrow> forgets s (s'\<lparr>kc_inflight := AList.delete k (kc_inflight s')\<rparr>)"
  by (erule forgets_trans, simp add: forgets_drop_entry forgets_uninflight)+

lemma forgets_enforce: "forgets s (enforceCapacity n s)"
proof (induction n s rule: enforceCapacity.induct)
  case (1 n s)
  show ?case
  proof (cases "length (kc_entries s) \<le> n")
    case True
    then show ?thesis by (subst enforceCapacity.simps) simp
  next
    case False
    then obtain k e es where es: "kc_entries s = (k, e) # es" by (cases "kc_entries s") auto
    define u where "u = (if has_flight k (drop_entry k s) then drop_entry k s else forget_generation k (drop_entry k s))"
    have "enforceCapacity n s = enforceCapacity n u"
      using False es by (subst enforceCapacity.simps) (simp add: u_def Let_def)
    moreover have "forgets u (enforceCapacity n u)" unfolding u_def by (rule 1 [OF False es refl refl])
    moreover have "forgets s u" unfolding u_def using forgets_drop_entry by (auto intro: forgets_after)
    ultimately show ?thesis using forgets_trans by metis
  qed
qed

lemma forgets_expire: "forgets s (expireEntries s)"
proof -
  have one: "forgets s (expire_one ke s)" for ke s
    unfolding expire_one_def Let_def by (auto intro: forgets_drop_entry forgets_after)
  have "forgets s (fold expire_one es s)" for es
    by (induction es arbitrary: s) (auto intro: forgets_trans [OF one])
  then show ?thesis by (simp add: expireEntries_def)
qed

lemma forgets_evict: "forgets s (evict k s)"
  unfolding evict_def Let_def by (auto intro!: forgets_after)

lemma forgets_cleanup: "forgets s (cleanupLoad k f s)"
  by (auto simp: cleanupLoad_def Let_def forgets_def map_le_def set_flight_def fill_zero_def
    forget_generation_def delete_conv' split: option.splits if_splits)

lemma forgets_settle: "fl_promise (kc_flights s f) \<noteq> Pending \<Longrightarrow> forgets s (settle f s)"
  unfolding settle_def
  by (rule forgets_trans [OF _ forgets_cleanup]) (auto simp: forgets_def set_flight_def)

lemma forgets_resume: "kc_callers s c = Waiting f \<Longrightarrow> forgets s (resume c f s)"
  unfolding resume_def leave_flight_def
  by (auto split: promise_state.splits intro!: forgets_trans [OF _ forgets_cleanup])
    (auto simp: forgets_def set_flight_def set_caller_def alloc_def split: if_splits)

lemma forgets_finish: "forgets s (set_caller c Returned (fill_zero b s))"
  by (auto simp: forgets_def set_caller_def fill_zero_def split: if_splits)

lemma forgets_working_copy: "forgets s (new_caller (Working k b) (alloc bs s))"
  by (auto simp: forgets_def new_caller_def alloc_def split: if_splits)

lemma forgets_reorder:
  "map_of (kc_entries s) k = Some e \<Longrightarrow> forgets s (s\<lparr>kc_entries := AList.delete k (kc_entries s) @ [(k, e)]\<rparr>)"
  by (auto simp: forgets_def delete_conv' map_add_def split: option.splits if_splits)

lemma fence_join:
  assumes fe: "fence_inv fn s" and c: "core_inv gn tr s" and e: "map_of (kc_entries s) k = None"
  shows "fence_inv fn (join_flight cfg k i s)"
proof -
  have fi: "flights_inv s" using c by (simp add: core_inv_def)
  define u where "u = join_flight cfg k i s"
  define f where "f = (case map_of (kc_inflight s) k of None \<Rightarrow> kc_nflights s | Some f \<Rightarrow> f)"
  have u: "kc_entries u = kc_entries s" "kc_callers u = (kc_callers s)(kc_ncallers s := Waiting f)"
    by (auto simp: u_def f_def join_flight_def Let_def new_caller_def set_flight_def startLoad_def split: option.splits)
  have fn: "fst (fn k) \<le> f" using fe by (auto simp: f_def fence_inv_def split: option.splits)
  show ?thesis
  proof (cases "map_of (kc_inflight s) k")
    case (Some g)
    have "kc_nflights u = kc_nflights s" "kc_inflight u = kc_inflight s"
      "\<And>g. fl_key (kc_flights u g) = fl_key (kc_flights s g)" "\<And>g. fl_promise (kc_flights u g) = fl_promise (kc_flights s g)"
      using Some by (auto simp: u_def join_flight_def Let_def new_caller_def set_flight_def)
    moreover have "fl_key (kc_flights s f) = k" using flights_invD(7) [OF fi Some] Some by (simp add: f_def)
    ultimately show ?thesis using fe fn unfolding u_def [symmetric] fence_inv_def u by (auto split: if_splits)
  next
    case None
    have n: "kc_nflights u = Suc (kc_nflights s)" "kc_inflight u = AList.update k (kc_nflights s) (kc_inflight s)"
      "fl_key (kc_flights u (kc_nflights s)) = k"
      "\<And>g. g \<noteq> kc_nflights s \<Longrightarrow> kc_flights u g = kc_flights s g"
      using None by (auto simp: u_def join_flight_def Let_def new_caller_def set_flight_def startLoad_def)
    have f: "f = kc_nflights s" using None by (simp add: f_def)
    show ?thesis
      unfolding u_def [symmetric] fence_inv_def
    proof (intro conjI allI impI)
      show "fst (fn j) \<le> kc_nflights u" for j using fe by (auto simp: n fence_inv_def intro: le_SucI)
      show "fst (fn j) \<le> g" if "map_of (kc_inflight u) j = Some g" for j g
        using that fe fn f by (auto simp: n fence_inv_def update_conv' split: if_splits)
      show "fst (fn (fl_key (kc_flights u g))) \<le> g"
        if "kc_callers u c = Waiting g" "snd (fn (fl_key (kc_flights u g))) \<le> c" for c g
      proof (cases "g = kc_nflights s")
        case True
        then show ?thesis using fn f n(3) by simp
      next
        case False
        then have "kc_callers s c = Waiting g" using that(1) f by (auto simp: u split: if_splits)
        then show ?thesis using that(2) fe n(4) [OF False] unfolding fence_inv_def by metis
      qed
      show "map_of (kc_entries u) j = None"
        if "map_of (kc_inflight u) j = Some g" "fl_promise (kc_flights u g) = Pending" for j g
      proof (cases "j = k")
        case True
        then show ?thesis using e by (simp add: u)
      next
        case False
        then have j: "map_of (kc_inflight s) j = Some g" using that(1) by (simp add: n update_conv')
        then have "g \<noteq> kc_nflights s" using flights_invD(7) [OF fi j] by simp
        then show ?thesis using fe j that(2) n(4) unfolding fence_inv_def u by metis
      qed
    qed
  qed
qed

section \<open>The invariant of the cache\<close>

definition cache_inv :: "fence \<Rightarrow> cache_options \<Rightarrow> cache_event list \<Rightarrow> key_cache \<Rightarrow> bool" where
  "cache_inv fn cfg tr s \<longleftrightarrow> core_inv fn tr s \<and> fence_inv fn s \<and> length (kc_entries s) \<le> co_capacity cfg
     \<and> (kc_timer s = None \<longleftrightarrow> kc_entries s = []) \<and> (\<forall>f r. Load f r \<in> set tr \<longrightarrow> f < kc_nflights s)"

lemma core_inv_store:
  assumes c: "core_inv fn tr s" and fe: "fence_inv fn s" and i: "map_of (kc_inflight s) k = Some f"
    and e: "map_of (kc_entries s) k = None" and p: "fl_promise (kc_flights s f) \<noteq> Pending"
    and bs: "length bs = USER_KEY_LENGTH" "Load f (Loaded bs) \<in> set tr"
  shows "core_inv fn tr (store_entry cfg k bs s) \<and> fence_inv fn (store_entry cfg k bs s)
    \<and> length (kc_entries (store_entry cfg k bs s)) \<le> co_capacity cfg
    \<and> kc_nflights (store_entry cfg k bs s) = kc_nflights s"
proof -
  define u where "u = (alloc bs s)\<lparr>kc_entries :=
    AList.update k \<lparr>ent_key = kc_nbufs s, ent_expiresAt = kc_now s + co_ttlMs cfg\<rparr> (kc_entries s)\<rparr>"
  have fi: "flights_inv s" using c by (simp add: core_inv_def)
  have "loaded_since (fst (fn k)) tr s k bs"
    using bs fe i flights_invD(7) [OF fi i] unfolding loaded_since_def fence_inv_def by blast
  then have "core_inv fn tr u" unfolding u_def by (rule core_inv_add_entry [OF c e])
  moreover have "fence_inv fn u"
    using fe i p by (auto simp: fence_inv_def u_def alloc_def update_conv')
  ultimately have "core_inv fn tr (enforceCapacity (co_capacity cfg) u)" "fence_inv fn (enforceCapacity (co_capacity cfg) u)"
    using core_inv_enforce fence_forgets [OF _ forgets_enforce] by blast+
  moreover have "kc_nflights (enforceCapacity (co_capacity cfg) u) = kc_nflights s"
    using forgets_enforce [of u "co_capacity cfg"] by (simp add: forgets_def u_def alloc_def)
  moreover have "store_entry cfg k bs s = rescheduleExpiry (enforceCapacity (co_capacity cfg) u)"
    by (simp add: store_entry_def u_def Let_def)
  ultimately show ?thesis
    using length_enforce fence_forgets [OF _ forgets_fields(6)] reschedule_timer(2)
    by (simp add: rescheduleExpiry_def)
qed

lemma finish_load_inv:
  assumes c: "core_inv fn tr s" and fe: "fence_inv fn s"
    and f: "f < kc_nflights s" "fl_promise (kc_flights s f) = Pending" and r: "Load f r \<in> set tr"
    and len: "length (kc_entries s) \<le> co_capacity cfg" and timer: "kc_timer s = None \<longleftrightarrow> kc_entries s = []"
  shows "core_inv fn tr (finish_load cfg f r s) \<and> fence_inv fn (finish_load cfg f r s)
    \<and> length (kc_entries (finish_load cfg f r s)) \<le> co_capacity cfg
    \<and> (kc_timer (finish_load cfg f r s) = None \<longleftrightarrow> kc_entries (finish_load cfg f r s) = [])
    \<and> kc_nflights (finish_load cfg f r s) = kc_nflights s"
proof (cases "\<exists>bs. r = Loaded bs")
  case False
  then have u: "finish_load cfg f r s = set_flight f ((kc_flights s f)\<lparr>fl_promise := Rejected\<rparr>) s"
    by (cases r) (auto simp: finish_load_def)
  have "forgets s (finish_load cfg f r s)" unfolding u by (auto simp: forgets_def set_flight_def)
  then show ?thesis
    using core_inv_reject [OF c f] fence_forgets [OF fe] len timer unfolding u by (simp add: set_flight_def)
next
  case True
  then obtain bs where bs: "r = Loaded bs" by blast
  show ?thesis
  proof (cases "length bs = USER_KEY_LENGTH")
    case False
    let ?s = "fill_zero (kc_nbufs s) (alloc bs s)"
    have u: "finish_load cfg f r s = set_flight f ((kc_flights ?s f)\<lparr>fl_promise := Rejected\<rparr>) ?s"
      using False by (simp add: finish_load_def bs Let_def fill_zero_def alloc_def)
    have "core_inv fn tr (finish_load cfg f r s)"
      unfolding u by (rule core_inv_reject [OF core_inv_spare [OF c]]) (use f in \<open>simp_all add: fill_zero_def alloc_def\<close>)
    moreover have "forgets s (finish_load cfg f r s)"
      unfolding u by (auto simp: forgets_def set_flight_def fill_zero_def alloc_def)
    ultimately show ?thesis
      using fence_forgets [OF fe] len timer unfolding u by (simp add: set_flight_def fill_zero_def alloc_def)
  next
    case True
    let ?k = "fl_key (kc_flights s f)"
    define u where "u = set_flight f ((kc_flights s f)\<lparr>fl_source := Some (kc_nbufs s), fl_promise := Resolved (kc_nbufs s)\<rparr>) (alloc bs s)"
    have cu: "core_inv fn tr u" unfolding u_def by (rule core_inv_resolve [OF c f True]) (use r bs in simp)
    have "forgets s u" by (auto simp: u_def forgets_def set_flight_def alloc_def)
    then have fu: "fence_inv fn u" by (rule fence_forgets [OF fe])
    have u: "kc_inflight u = kc_inflight s" "kc_entries u = kc_entries s" "kc_timer u = kc_timer s"
      "kc_nflights u = kc_nflights s" "fl_promise (kc_flights u f) = Resolved (kc_nbufs s)"
      by (simp_all add: u_def set_flight_def alloc_def)
    have fl: "finish_load cfg f r s =
      (if fl_generation (kc_flights u f) = generation ?k u \<and> map_of (kc_inflight u) ?k = Some f
       then store_entry cfg ?k bs u else u)"
      using True by (simp add: finish_load_def bs Let_def u_def alloc_def)
    show ?thesis
    proof (cases "fl_generation (kc_flights u f) = generation ?k u \<and> map_of (kc_inflight u) ?k = Some f")
      case False
      then have "finish_load cfg f r s = u" using fl by auto
      then show ?thesis using cu fu len timer u by simp
    next
      case True
      then have i: "map_of (kc_inflight s) ?k = Some f" by (simp add: u)
      then have e: "map_of (kc_entries u) ?k = None" using fe f(2) unfolding fence_inv_def u by blast
      have "finish_load cfg f r s = store_entry cfg ?k bs u" using True fl by simp
      moreover have "kc_timer (store_entry cfg ?k bs u) = None \<longleftrightarrow> kc_entries (store_entry cfg ?k bs u) = []"
        unfolding store_entry_def Let_def by (rule reschedule_timer(1))
      ultimately show ?thesis
        using core_inv_store [OF cu fu _ e _ \<open>length bs = USER_KEY_LENGTH\<close>, of f cfg] i r bs by (simp add: u)
    qed
  qed
qed

lemma evict_result:
  "kc_entries (evict k s) = AList.delete k (kc_entries s)" "kc_inflight (evict k s) = AList.delete k (kc_inflight s)"
  "kc_timer (evict k s) = None \<longleftrightarrow> kc_entries (evict k s) = []" "kc_callers (evict k s) = kc_callers s"
proof -
  have d: "kc_entries (drop_entry k u) = AList.delete k (kc_entries u)" "kc_inflight (drop_entry k u) = kc_inflight u"
    "kc_callers (drop_entry k u) = kc_callers u" for u
    by (auto simp: drop_entry_def fill_zero_def map_of_eq_None_iff split: option.splits)
  show "kc_entries (evict k s) = AList.delete k (kc_entries s)" "kc_inflight (evict k s) = AList.delete k (kc_inflight s)"
    "kc_callers (evict k s) = kc_callers s"
    by (simp_all add: evict_def Let_def rescheduleExpiry_def forget_generation_def bump_generation_def d)
  show "kc_timer (evict k s) = None \<longleftrightarrow> kc_entries (evict k s) = []"
    using reschedule_timer(1) [of "drop_entry k (bump_generation k s)"]
    by (simp add: evict_def Let_def forget_generation_def)
qed

lemma cache_inv_evict:
  assumes "cache_inv fn cfg tr s"
  shows "cache_inv fn cfg tr (evict k s)"
proof -
  have "length (kc_entries (evict k s)) \<le> length (kc_entries s)"
    by (simp add: evict_result AList.delete_eq)
  moreover have "kc_nflights (evict k s) = kc_nflights s" using forgets_evict [of s k] by (simp add: forgets_def)
  ultimately show ?thesis
    using assms core_inv_evict fence_forgets [OF _ forgets_evict] evict_result(3) unfolding cache_inv_def by auto
qed

lemma cache_inv_join:
  assumes i: "cache_inv fn cfg tr s" and k: "map_of (kc_entries s) k = None"
  shows "cache_inv fn cfg tr (join_flight cfg k i s)"
proof -
  have "kc_entries (join_flight cfg k i s) = kc_entries s" "kc_timer (join_flight cfg k i s) = kc_timer s"
    "kc_nflights s \<le> kc_nflights (join_flight cfg k i s)"
    by (auto simp: join_flight_def Let_def new_caller_def set_flight_def startLoad_def)
  then show ?thesis
    using i core_inv_join fence_join [OF _ _ k] unfolding cache_inv_def by (metis order_less_le_trans)
qed

lemma length_reorder:
  "map_of es k = Some e \<Longrightarrow> distinct (map fst es) \<Longrightarrow> length (AList.delete k es @ [(k, e)]) = length es"
proof (induction es)
  case (Cons x es)
  show ?case
  proof (cases "fst x = k")
    case True
    then have "AList.delete k es = es" using Cons.prems(2) by (intro delete_id) auto
    then show ?thesis using True by (cases x) simp
  next
    case False
    then show ?thesis using Cons by (cases x) simp
  qed
qed simp

lemma cache_inv_call:
  assumes i: "cache_inv fn cfg tr s"
  shows "cache_inv fn cfg tr (call cfg k ident s)"
proof (cases "map_of (kc_entries s) k")
  case None
  then show ?thesis using cache_inv_join [OF i] by (simp add: call_def)
next
  case (Some e)
  show ?thesis
  proof (cases "ent_expiresAt e > kc_now s")
    case False
    have "map_of (kc_entries (evict k s)) k = None" by (simp add: evict_result delete_conv')
    then show ?thesis using cache_inv_join [OF cache_inv_evict [OF i]] Some False by (simp add: call_def)
  next
    case True
    let ?r = "s\<lparr>kc_entries := AList.delete k (kc_entries s) @ [(k, e)]\<rparr>"
    have u: "call cfg k ident s = new_caller (Working k (kc_nbufs s)) (alloc (kc_bufs s (ent_key e)) (observe cfg ident Hit ?r))"
      using Some True by (simp add: call_def Let_def)
    have "forgets s (call cfg k ident s)"
      unfolding u using forgets_reorder [OF Some] forgets_fields(7) forgets_working_copy by (meson forgets_trans)
    then have "fence_inv fn (call cfg k ident s)" using i fence_forgets unfolding cache_inv_def by blast
    moreover have "core_inv fn tr (call cfg k ident s)" using i core_inv_call unfolding cache_inv_def by blast
    moreover have "length (AList.delete k (kc_entries s) @ [(k, e)]) = length (kc_entries s)"
      using i Some by (intro length_reorder) (auto simp: cache_inv_def core_inv_def)
    then have "length (kc_entries (call cfg k ident s)) = length (kc_entries s)"
      by (simp add: u new_caller_def alloc_def)
    moreover have "kc_timer (call cfg k ident s) = kc_timer s" "kc_nflights (call cfg k ident s) = kc_nflights s"
      by (simp_all add: u new_caller_def alloc_def)
    moreover have "kc_entries (call cfg k ident s) = [] \<longleftrightarrow> kc_entries s = []"
      using calculation(3) by (metis length_0_conv)
    ultimately show ?thesis using i unfolding cache_inv_def by auto
  qed
qed

lemma cache_inv_forgets:
  assumes "cache_inv fn cfg tr s" and "forgets s s'" and "core_inv fn tr s'"
    and "kc_entries s' = kc_entries s" and "kc_timer s' = kc_timer s"
  shows "cache_inv fn cfg tr s'"
  using assms fence_forgets unfolding cache_inv_def by (auto simp: forgets_def)

lemma cleanup_keeps: "kc_entries (cleanupLoad k f s) = kc_entries s" "kc_timer (cleanupLoad k f s) = kc_timer s"
  by (auto simp: cleanupLoad_def Let_def set_flight_def fill_zero_def forget_generation_def split: option.splits)

lemma cache_inv_trace:
  assumes "cache_inv fn cfg tr s" and "\<And>f r. ev = Load f r \<Longrightarrow> f < kc_nflights s"
  shows "cache_inv fn cfg (tr @ [ev]) s"
  using assms core_inv_trace unfolding cache_inv_def by auto

lemma cache_inv_fire:
  assumes i: "cache_inv fn cfg tr s"
  shows "cache_inv fn cfg tr (fire_timer s)"
proof -
  let ?u = "expireEntries (s\<lparr>kc_timer := None\<rparr>)"
  have f: "forgets s ?u" using forgets_expire forgets_fields(1) forgets_trans by blast
  have "core_inv fn tr ?u" using i by (intro core_inv_expire) (simp add: cache_inv_def)
  moreover have "fence_inv fn (rescheduleExpiry ?u)"
    using i f fence_forgets forgets_fields(6) unfolding cache_inv_def by blast
  moreover have "length (kc_entries ?u) \<le> co_capacity cfg"
    using i length_expire [of "s\<lparr>kc_timer := None\<rparr>"] by (simp add: cache_inv_def)
  moreover have "kc_nflights (rescheduleExpiry ?u) = kc_nflights s" using f by (simp add: forgets_def rescheduleExpiry_def)
  ultimately show ?thesis
    using i reschedule_timer [of ?u] unfolding cache_inv_def fire_timer_def by simp
qed

theorem cache_inv_step:
  assumes i: "cache_inv fn cfg tr s" and st: "cache_step cfg ev s = Some s'"
  shows "cache_inv fn cfg (tr @ [ev]) s'"
proof (cases ev)
  case (Call k ident)
  with st have "s' = call cfg k ident s" by (simp add: cache_step_def)
  then show ?thesis using cache_inv_call [OF cache_inv_trace [OF i, of ev]] Call by simp
next
  case (Load f r)
  with st have f: "f < kc_nflights s" "fl_promise (kc_flights s f) = Pending" and s': "s' = finish_load cfg f r s"
    by (auto simp: cache_step_def split: if_splits)
  have t: "cache_inv fn cfg (tr @ [ev]) s" using cache_inv_trace [OF i, of ev] Load f(1) by simp
  then show ?thesis
    using finish_load_inv [of fn "tr @ [ev]" s f r cfg] f unfolding s' by (auto simp: cache_inv_def Load)
next
  case (Settle f)
  with st have f: "f < kc_nflights s" "fl_promise (kc_flights s f) \<noteq> Pending" and s': "s' = settle f s"
    by (auto simp: cache_step_def split: if_splits)
  have t: "cache_inv fn cfg (tr @ [ev]) s" using cache_inv_trace [OF i, of ev] Settle by simp
  show ?thesis
    unfolding s' using t core_inv_settle [OF _ f]
    by (intro cache_inv_forgets [OF t forgets_settle [OF f(2)]])
      (simp_all add: cache_inv_def settle_def cleanup_keeps set_flight_def)
next
  case (Resume c)
  with st obtain f where w: "kc_callers s c = Waiting f" and s': "s' = resume c f s"
    by (auto simp: cache_step_def split: caller.splits if_splits)
  have t: "cache_inv fn cfg (tr @ [ev]) s" using cache_inv_trace [OF i, of ev] Resume by simp
  have "core_inv fn (tr @ [ev]) (resume c f s)"
    by (rule core_inv_resume [OF _ w]) (use t w in \<open>auto simp: cache_inv_def fence_inv_def\<close>)
  then show ?thesis
    unfolding s' by (intro cache_inv_forgets [OF t forgets_resume [OF w]])
      (simp_all add: resume_def leave_flight_def cleanup_keeps set_flight_def set_caller_def alloc_def split: promise_state.splits)
next
  case (Finish c)
  with st obtain k b where w: "kc_callers s c = Working k b" and s': "s' = set_caller c Returned (fill_zero b s)"
    by (auto simp: cache_step_def split: caller.splits)
  have t: "cache_inv fn cfg (tr @ [ev]) s" using cache_inv_trace [OF i, of ev] Finish by simp
  show ?thesis
    unfolding s' using t core_inv_finish [OF _ w]
    by (intro cache_inv_forgets [OF t forgets_finish]) (simp_all add: cache_inv_def set_caller_def fill_zero_def)
next
  case (Evict k)
  with st have "s' = evict k s" by (simp add: cache_step_def)
  then show ?thesis using cache_inv_evict [OF cache_inv_trace [OF i, of ev]] Evict by simp
next
  case Clear
  with st have s': "s' = clear s" by (simp add: cache_step_def)
  have t: "cache_inv fn cfg (tr @ [ev]) s" using cache_inv_trace [OF i, of ev] Clear by simp
  then have r: "core_inv fn (tr @ [ev]) (clear s) \<and> kc_entries (clear s) = [] \<and> kc_timer (clear s) = None
    \<and> kc_inflight (clear s) = [] \<and> kc_flights (clear s) = kc_flights s \<and> kc_nflights (clear s) = kc_nflights s
    \<and> kc_callers (clear s) = kc_callers s"
    using clear_result by (auto simp: cache_inv_def)
  then have "forgets s (clear s)" by (simp add: forgets_def)
  then show ?thesis using t r fence_forgets unfolding s' cache_inv_def by auto
next
  case Fire
  with st have "s' = fire_timer s" by (auto simp: cache_step_def split: option.splits if_splits)
  then show ?thesis using cache_inv_fire [OF cache_inv_trace [OF i, of ev]] Fire by simp
next
  case (Clock n)
  with st have s': "s' = s\<lparr>kc_now := n\<rparr>" by (simp add: cache_step_def)
  have t: "cache_inv fn cfg (tr @ [ev]) s" using cache_inv_trace [OF i, of ev] Clock by simp
  show ?thesis unfolding s' by (rule cache_inv_forgets [OF t]) (use t in \<open>simp_all add: cache_inv_def\<close>)
qed

text \<open>Revoking a key raises its fence.\<close>

lemma cache_inv_fence:
  assumes i: "cache_inv fn cfg tr s" and e: "map_of (kc_entries s) k = None" "map_of (kc_inflight s) k = None"
  shows "cache_inv (fn(k := (kc_nflights s, kc_ncallers s))) cfg tr s"
proof -
  let ?fn = "fn(k := (kc_nflights s, kc_ncallers s))"
  have c: "core_inv fn tr s" and fe: "fence_inv fn s" using i by (auto simp: cache_inv_def)
  have l: "ledger fn tr s" and fi: "flights_inv s" using c by (auto simp: core_inv_def)
  have "ledger ?fn tr s"
    using l unfolding ledger_def
  proof (rule ledger_cong)
    fix w b assume w: "buf_of s w = Some b" and g: "good fn tr s w (kc_bufs s b)"
    show "good ?fn tr s w (kc_bufs s b)"
    proof (cases w)
      case (Oentry j)
      then have "j \<noteq> k" using w e by (auto simp: buf_of_def)
      then show ?thesis using g Oentry by (simp add: good_def)
    next
      case (Oflight f)
      then show ?thesis using g by (simp add: good_def)
    next
      case (Ocaller c)
      then obtain j where j: "kc_callers s c = Working j b" using w by (auto simp: buf_of_def split: caller.splits)
      then have "c < kc_ncallers s" using flights_invD(4) [OF fi] by (metis caller.distinct(3) not_le)
      then show ?thesis
        using g Ocaller j loaded_since_mono [of _ tr s j _ 0 "[]"] by (auto simp: good_def split: if_splits)
    qed
  qed
  then have "core_inv ?fn tr s" using c by (simp add: core_inv_def)
  moreover have "fence_inv ?fn s"
  proof -
    have "\<not> kc_ncallers s \<le> c" if "kc_callers s c = Waiting f" for c f
      using that flights_invD(4) [OF fi] by (metis caller.distinct(1))
    then show ?thesis using fe e unfolding fence_inv_def by auto
  qed
  ultimately show ?thesis using i by (simp add: cache_inv_def)
qed

lemma cache_inv_init: "cache_inv (\<lambda>_. (0, 0)) cfg [] (empty_cache now)"
  by (auto simp: cache_inv_def core_inv_def ledger_def ledger_ok_def flights_inv_def fence_inv_def empty_cache_def
    buf_of_def no_flight_def flight_ok_def promised_def waiting_for_def zeroed_def split: owner.splits)

lemma cache_inv_run_from:
  assumes "cache_run cfg s es s'" and "cache_inv fn cfg tr s"
  shows "cache_inv fn cfg (tr @ es) s'"
  using assms
proof (induction rule: cache_run.induct)
  case start
  then show ?case by simp
next
  case (step es s ev s')
  then show ?case using cache_inv_step [of fn cfg "tr @ es"] by auto
qed

lemma cache_inv_run: "cache_run cfg (empty_cache now) tr s \<Longrightarrow> cache_inv (\<lambda>_. (0, 0)) cfg tr s"
  using cache_inv_run_from [OF _ cache_inv_init] by fastforce

section \<open>Properties\<close>

text \<open>C8: in every state the cache can reach, by any interleaving of calls, loads, evictions, clears and
  timer events, the map holds each key once and no more than its capacity, the timer is set exactly
  while there are entries, and every buffer that still holds a non-zero byte belongs to an entry, to a
  load that is under way or has callers still waiting, or to a caller whose callback is running: evicted,
  expired, displaced and finished keys have been overwritten.\<close>

theorem key_material_is_zeroed:
  assumes "cache_run cfg (empty_cache now) tr s"
  shows "distinct (map fst (kc_entries s)) \<and> length (kc_entries s) \<le> co_capacity cfg
    \<and> (kc_timer s = None \<longleftrightarrow> kc_entries s = [])
    \<and> (\<forall>b. (\<exists>x \<in> set (kc_bufs s b). x \<noteq> 0) \<longrightarrow>
        (\<exists>k e. map_of (kc_entries s) k = Some e \<and> ent_key e = b)
        \<or> (\<exists>f. fl_source (kc_flights s f) = Some b
            \<and> (\<not> fl_settled (kc_flights s f) \<or> (\<exists>c. kc_callers s c = Waiting f)))
        \<or> (\<exists>c k. kc_callers s c = Working k b))"
proof -
  have i: "cache_inv (\<lambda>_. (0, 0)) cfg tr s" by (rule cache_inv_run [OF assms])
  then have l: "ledger (\<lambda>_. (0, 0)) tr s" and fi: "flights_inv s" by (auto simp: cache_inv_def core_inv_def)
  have "(\<exists>k e. map_of (kc_entries s) k = Some e \<and> ent_key e = b)
        \<or> (\<exists>f. fl_source (kc_flights s f) = Some b
            \<and> (\<not> fl_settled (kc_flights s f) \<or> (\<exists>c. kc_callers s c = Waiting f)))
        \<or> (\<exists>c k. kc_callers s c = Working k b)" if "\<not> zeroed (kc_bufs s b)" for b
  proof -
    have "\<exists>w. buf_of s w = Some b"
    proof (rule ccontr)
      assume "\<nexists>w. buf_of s w = Some b"
      then have n: "buf_of s w \<noteq> Some b" for w by simp
      from ledger_okD(4) [OF l [unfolded ledger_def] n] that show False by simp
    qed
    then obtain w where w: "buf_of s w = Some b" ..
    show ?thesis
    proof (cases w)
      case (Oentry k)
      then show ?thesis using w by (auto simp: buf_of_def)
    next
      case (Oflight f)
      then have f: "fl_source (kc_flights s f) = Some b" using w by (simp add: buf_of_def)
      have "live (kc_flights s f)"
      proof (rule ccontr)
        assume "\<not> live (kc_flights s f)"
        then have "fl_source (kc_flights s f) = None"
          using flights_invD(1) [OF fi] unfolding flight_ok_def by (metis (full_types))
        with f show False by simp
      qed
      moreover have "waiting_for (kc_callers s) f \<noteq> {}" if "fl_waiters (kc_flights s f) \<noteq> 0"
        using that unfolding flights_invD(2) [OF fi] by (metis card.empty)
      ultimately have "\<not> fl_settled (kc_flights s f) \<or> (\<exists>c. kc_callers s c = Waiting f)"
        unfolding live_def waiting_for_def by blast
      with f show ?thesis by blast
    next
      case (Ocaller c)
      then show ?thesis using w by (auto simp: buf_of_def split: caller.splits)
    qed
  qed
  then show ?thesis using i by (auto simp: cache_inv_def core_inv_def zeroed_def)
qed

text \<open>C23: while a caller's callback runs, the working copy it was given holds, unchanged, 32 bytes that a
  load for the very key it asked for returned: sharing one load among callers, eviction, expiry and the
  zeroing of the shared buffers never reach a copy that is in use, and keys are never mixed up.\<close>

theorem working_copy_intact:
  assumes "cache_run cfg (empty_cache now) tr s" and "kc_callers s c = Working k b"
  shows "length (kc_bufs s b) = USER_KEY_LENGTH
    \<and> (\<exists>f < kc_nflights s. Load f (Loaded (kc_bufs s b)) \<in> set tr \<and> fl_key (kc_flights s f) = k)"
proof -
  have "ledger (\<lambda>_. (0, 0)) tr s" using cache_inv_run [OF assms(1)] by (simp add: cache_inv_def core_inv_def)
  moreover have "buf_of s (Ocaller c) = Some b" using assms(2) by (simp add: buf_of_def)
  ultimately have "good (\<lambda>_. (0, 0)) tr s (Ocaller c) (kc_bufs s b)" unfolding ledger_def by (metis ledger_okD(2))
  then show ?thesis using assms(2) by (auto simp: good_def loaded_since_def)
qed

text \<open>C3: eviction revokes a key: whatever happens afterwards, also to loads that were under way, a caller
  that asks for the key after the eviction works with bytes that were loaded after it, by a load that was
  started after it.\<close>

theorem evicted_key_is_reloaded:
  assumes "cache_run cfg (empty_cache now) tr s" and "cache_run cfg (evict k s) es s'"
    and "kc_ncallers s \<le> c" and "kc_callers s' c = Working k b"
  shows "\<exists>f. kc_nflights s \<le> f \<and> Load f (Loaded (kc_bufs s' b)) \<in> set es \<and> fl_key (kc_flights s' f) = k"
proof -
  let ?s = "evict k s"
  let ?fn = "(\<lambda>_. (0, 0))(k := (kc_nflights ?s, kc_ncallers ?s))"
  have i0: "cache_inv (\<lambda>_. (0, 0)) cfg tr s" by (rule cache_inv_run [OF assms(1)])
  have n: "kc_nflights ?s = kc_nflights s" "kc_ncallers ?s = kc_ncallers s"
    by (auto simp: evict_def Let_def rescheduleExpiry_def forget_generation_def bump_generation_def drop_entry_def fill_zero_def
      split: option.splits)
  have "cache_inv ?fn cfg tr ?s"
    by (rule cache_inv_fence [OF cache_inv_evict [OF i0]]) (simp_all add: evict_result delete_conv')
  from cache_inv_run_from [OF assms(2) this] have i: "cache_inv ?fn cfg (tr @ es) s'" .
  then have l: "ledger ?fn (tr @ es) s'" by (simp add: cache_inv_def core_inv_def)
  moreover have "buf_of s' (Ocaller c) = Some b" using assms(4) by (simp add: buf_of_def)
  ultimately have "good ?fn (tr @ es) s' (Ocaller c) (kc_bufs s' b)" unfolding ledger_def by (metis ledger_okD(2))
  then obtain f where f: "kc_nflights s \<le> f" "Load f (Loaded (kc_bufs s' b)) \<in> set (tr @ es)" "fl_key (kc_flights s' f) = k"
    using assms(3,4) by (auto simp: good_def loaded_since_def n)
  have "Load f (Loaded (kc_bufs s' b)) \<notin> set tr" using i0 f(1) unfolding cache_inv_def by (meson not_le)
  with f show ?thesis by auto
qed

section \<open>A run\<close>

definition example_options :: cache_options where
  "example_options = \<lparr>co_ttlMs = 1000, co_capacity = 1, co_records = True\<rparr>"

definition example_key :: "8 word \<Rightarrow> key_bytes" where
  "example_key x = replicate 32 x"

lemma cache_run_Cons:
  "cache_step cfg ev s0 = Some s1 \<Longrightarrow> cache_run cfg s1 es s \<Longrightarrow> cache_run cfg s0 (ev # es) s"
proof -
  assume one: "cache_step cfg ev s0 = Some s1"
  assume "cache_run cfg s1 es s"
  then show ?thesis
  proof (induction rule: cache_run.induct)
    case start
    show ?case using cache_run.step [OF cache_run.start one] by simp
  next
    case (step es s ev' s')
    from cache_run.step [OF step.IH step.hyps(2)] show ?case by simp
  qed
qed

fun run_events :: "cache_options \<Rightarrow> cache_event list \<Rightarrow> key_cache \<Rightarrow> key_cache option" where
  "run_events cfg [] s = Some s"
| "run_events cfg (ev # es) s = Option.bind (cache_step cfg ev s) (run_events cfg es)"

lemma run_events_run: "run_events cfg es s = Some s' \<Longrightarrow> cache_run cfg s es s'"
  by (induction es arbitrary: s) (auto simp: bind_eq_Some_conv intro: cache_run.start cache_run_Cons)

text \<open>Two callers share a load of one key; a second key displaces it.\<close>

definition example_events :: "cache_event list" where
  "example_events = [Call ''a'' None, Call ''a'' None, Load 0 (Loaded (example_key 7)), Settle 0, Resume 0, Resume 1,
     Finish 0, Call ''b'' None, Load 1 (Loaded (example_key 9)), Settle 1, Resume 2]"

definition example_state :: key_cache where
  "example_state = the (run_events example_options example_events (empty_cache 0))"

lemma example_run: "cache_run example_options (empty_cache 0) example_events example_state"
proof (rule run_events_run)
  have "run_events example_options example_events (empty_cache 0) \<noteq> None" by code_simp
  then show "run_events example_options example_events (empty_cache 0) = Some example_state"
    unfolding example_state_def by (rule option.collapse [symmetric])
qed

lemma example_state_facts:
  "kc_callers example_state 1 = Working ''a'' 3" "map fst (kc_entries example_state) = [''b'']"
  "kc_bufs example_state 3 = example_key 7" "kc_ncallers example_state = 3" "kc_nflights example_state = 2"
  by code_simp+

lemma key_material_is_zeroed_witness:
  "length (kc_entries example_state) \<le> co_capacity example_options \<and> kc_timer example_state \<noteq> None"
  using key_material_is_zeroed [OF example_run] example_state_facts(2) by auto

lemma working_copy_intact_witness:
  "\<exists>f < kc_nflights example_state. Load f (Loaded (example_key 7)) \<in> set example_events
     \<and> fl_key (kc_flights example_state f) = ''a''"
  using working_copy_intact [OF example_run example_state_facts(1)] example_state_facts(3) by auto

definition example_after :: "cache_event list" where
  "example_after = [Call ''b'' None, Load 2 (Loaded (example_key 5)), Settle 2, Resume 3]"

definition example_evicted :: key_cache where
  "example_evicted = the (run_events example_options example_after (evict ''b'' example_state))"

lemma evicted_key_is_reloaded_witness:
  "\<exists>f. 2 \<le> f \<and> Load f (Loaded (example_key 5)) \<in> set example_after"
proof -
  have "run_events example_options example_after (evict ''b'' example_state) \<noteq> None" by code_simp
  then have r: "cache_run example_options (evict ''b'' example_state) example_after example_evicted"
    unfolding example_evicted_def by (intro run_events_run option.collapse [symmetric])
  have b: "kc_callers example_evicted 3 = Working ''b'' 9" "kc_bufs example_evicted 9 = example_key 5"
    by code_simp+
  have "kc_ncallers example_state \<le> 3" by (simp add: example_state_facts)
  from evicted_key_is_reloaded [OF example_run r this b(1)] show ?thesis unfolding b(2) example_state_facts by blast
qed

end
