(* ===== verification/Usage_Tables.thy ===== *)
theory Usage_Tables
  imports Local_Dates
begin

text \<open>
  The data of the usage pipeline in \<open>packages/storage-clickhouse/src/storage.ts\<close>: usage rows with
  their dimensions and measures, the ClickHouse tables they are kept in, \<open>GROUP BY\<close> with sums, the
  15 minute and hour buckets, and the scaled arithmetic of costs.

  A ClickHouse table with the engine \<open>ReplacingMergeTree(version)\<close>, read with \<open>FINAL\<close> (or through
  \<open>argMax(column, version)\<close>), shows one row for each value of its \<open>ORDER BY\<close> key, the one inserted
  with the greatest version, and on a tie the one inserted last. Versions are the clock at the
  insert and inserts into a rollup are serialised, so a table is an association list from keys to
  values in which an insert replaces.
\<close>

section \<open>Keyed tables\<close>

definition put_rows :: "('k \<times> 'v) list \<Rightarrow> ('k \<times> 'v) list \<Rightarrow> ('k \<times> 'v) list" where
  "put_rows rows table = foldl (\<lambda>m (k, v). AList.update k v m) table rows"

definition delete_where :: "('k \<Rightarrow> bool) \<Rightarrow> ('k \<times> 'v) list \<Rightarrow> ('k \<times> 'v) list" where
  "delete_where P table = filter (\<lambda>(k, v). \<not> P k) table"

abbreviation distinct_keys :: "('k \<times> 'v) list \<Rightarrow> bool" where
  "distinct_keys table \<equiv> distinct (map fst table)"

lemma keyed_put_rows [simp]: "distinct_keys table \<Longrightarrow> distinct_keys (put_rows rows table)"
  by (simp add: put_rows_def distinct_keys_update_fold)

lemma keyed_delete_where [simp]: "distinct_keys table \<Longrightarrow> distinct_keys (delete_where P table)"
  by (simp add: delete_where_def distinct_map_filter)

lemma map_of_put_rows: "map_of (put_rows rows table) k = (case map_of (rev rows) k of None \<Rightarrow> map_of table k | Some v \<Rightarrow> Some v)"
  by (simp add: put_rows_def map_of_update_fold map_add_def split: option.splits)

lemma map_of_put_keyed:
  "distinct_keys rows \<Longrightarrow> map_of (put_rows rows table) k = (case map_of rows k of None \<Rightarrow> map_of table k | Some v \<Rightarrow> Some v)"
  using map_of_inject_set [of "rev rows" rows] by (simp add: map_of_put_rows rev_map [symmetric])

lemma map_of_delete_where [simp]: "map_of (delete_where P table) k = (if P k then None else map_of table k)"
  by (induction table) (auto simp: delete_where_def)

lemma in_update: "x \<in> set (AList.update k v m) \<Longrightarrow> x = (k, v) \<or> x \<in> set m"
  by (induction m) (auto split: if_splits)

lemma put_rows_Nil [simp]: "put_rows [] table = table"
  by (simp add: put_rows_def)

section \<open>Dimensions and measures\<close>

text \<open>What a row is grouped by. A missing value is the empty string in ClickHouse.\<close>

record usage_dims =
  ud_provider :: string
  ud_user :: string
  ud_team :: string
  ud_session :: string
  ud_model :: string
  ud_host :: string
  ud_revision :: string
  ud_status :: string

text \<open>The summed columns; a cost is counted in units of \<open>10\<^sup>-\<^sup>8\<close> USD (\<open>Decimal(18, 8)\<close>).\<close>

datatype measures = Measures (m_events: int) (m_input: int) (m_output: int) (m_cacheRead: int)
  (m_cacheCreation: int) (m_cost: int)

instantiation measures :: comm_monoid_add
begin

definition zero_measures :: measures where
  "0 = Measures 0 0 0 0 0 0"

definition plus_measures :: "measures \<Rightarrow> measures \<Rightarrow> measures" where
  "a + b = Measures (m_events a + m_events b) (m_input a + m_input b) (m_output a + m_output b)
     (m_cacheRead a + m_cacheRead b) (m_cacheCreation a + m_cacheCreation b) (m_cost a + m_cost b)"

instance
  by standard (auto simp: zero_measures_def plus_measures_def)

end

text \<open>A row of \<open>usage_events\<close>, its key \<open>dedup_key\<close> apart.\<close>

record usage_row =
  ur_ts :: instant
  ur_dims :: usage_dims
  ur_input :: int
  ur_output :: int
  ur_cacheRead :: int
  ur_cacheCreation :: int
  ur_cost :: int
  ur_logAdapter :: string

section \<open>Buckets\<close>

definition STORAGE_FIFTEEN_MINUTES_MS :: int where "STORAGE_FIFTEEN_MINUTES_MS = 15 * 60 * 1000"

definition V2_ROLLUP_RETENTION_MS :: int where "V2_ROLLUP_RETENTION_MS = 400 * 24 * 60 * 60 * 1000"

definition hourBucket :: "instant \<Rightarrow> instant" where
  "hourBucket ts = ts - ts mod 3600000"

definition fifteenMinuteBucket :: "instant \<Rightarrow> instant" where
  "fifteenMinuteBucket ts = ts - ts mod 900000"

definition floorRollupDate :: "instant \<Rightarrow> int \<Rightarrow> instant" where
  "floorRollupDate ts intervalMs = (ts div intervalMs) * intervalMs"

definition ceilRollupDate :: "instant \<Rightarrow> int \<Rightarrow> instant" where
  "ceilRollupDate ts intervalMs =
     (let floor = floorRollupDate ts intervalMs in if floor = ts then floor else floor + intervalMs)"

definition clampV2RollupStart :: "instant \<Rightarrow> instant \<Rightarrow> instant" where
  "clampV2RollupStart firstBucket eligibleTo =
     (let minimum = eligibleTo - V2_ROLLUP_RETENTION_MS
      in if firstBucket > minimum then firstBucket else minimum)"

definition aligned :: "instant \<Rightarrow> bool" where
  "aligned t \<longleftrightarrow> t mod 900000 = 0"

lemma aligned_dvd: "aligned a \<longleftrightarrow> 900000 dvd a"
  by (simp add: aligned_def dvd_eq_mod_eq_0)

lemma fifteenMinuteBucket_floor: "fifteenMinuteBucket t = floorRollupDate t STORAGE_FIFTEEN_MINUTES_MS"
  by (simp add: fifteenMinuteBucket_def floorRollupDate_def STORAGE_FIFTEEN_MINUTES_MS_def minus_mod_eq_div_mult)

lemma aligned_bucket [simp]: "aligned (fifteenMinuteBucket t)"
  by (simp add: aligned_def fifteenMinuteBucket_def mod_diff_eq [symmetric])

lemma aligned_floor [simp]: "aligned (floorRollupDate t STORAGE_FIFTEEN_MINUTES_MS)"
  by (simp add: aligned_def floorRollupDate_def STORAGE_FIFTEEN_MINUTES_MS_def)

lemma aligned_add: "aligned a \<Longrightarrow> aligned b \<Longrightarrow> aligned (a + b)"
  by (simp add: aligned_dvd)

lemma aligned_clamp: "aligned a \<Longrightarrow> aligned b \<Longrightarrow> aligned (clampV2RollupStart a b)"
  by (simp add: aligned_dvd clampV2RollupStart_def V2_ROLLUP_RETENTION_MS_def Let_def)

lemma bucket_bounds: "fifteenMinuteBucket t \<le> t" "t < fifteenMinuteBucket t + 900000"
  by (simp_all add: fifteenMinuteBucket_def)

text \<open>Comparing an instant with an aligned one is comparing its bucket.\<close>

lemma multiple_le_iff:
  fixes a t c :: int
  assumes "0 < c" "c dvd a"
  shows "a \<le> t \<longleftrightarrow> a \<le> t - t mod c"
proof
  assume "a \<le> t"
  then have "a div c * c \<le> t div c * c" using assms(1) by (simp add: zdiv_mono1)
  then show "a \<le> t - t mod c" using assms(2) by (simp add: minus_mod_eq_div_mult)
next
  assume "a \<le> t - t mod c"
  then show "a \<le> t" using pos_mod_sign [of c t] assms(1) by linarith
qed

lemma aligned_le_iff: "aligned a \<Longrightarrow> a \<le> t \<longleftrightarrow> a \<le> fifteenMinuteBucket t"
  unfolding fifteenMinuteBucket_def by (rule multiple_le_iff) (auto simp: aligned_dvd)

lemma aligned_gt_iff: "aligned a \<Longrightarrow> t < a \<longleftrightarrow> fifteenMinuteBucket t < a"
  using aligned_le_iff [of a t] by linarith

lemma aligned_step:
  assumes "aligned a" "aligned b" "a < b"
  shows "a + 900000 \<le> b"
proof -
  have "900000 dvd b - a" using assms by (simp add: aligned_dvd)
  with assms(3) show ?thesis using zdvd_imp_le [of 900000 "b - a"] by simp
qed

lemma floor_le: "floorRollupDate t STORAGE_FIFTEEN_MINUTES_MS \<le> t"
  by (simp add: fifteenMinuteBucket_floor [symmetric] bucket_bounds)

lemma ceil_bounds: "t \<le> ceilRollupDate t STORAGE_FIFTEEN_MINUTES_MS" "aligned (ceilRollupDate t STORAGE_FIFTEEN_MINUTES_MS)"
proof -
  have c: "ceilRollupDate t STORAGE_FIFTEEN_MINUTES_MS
      = (if fifteenMinuteBucket t = t then fifteenMinuteBucket t else fifteenMinuteBucket t + 900000)"
    unfolding ceilRollupDate_def Let_def fifteenMinuteBucket_floor by (simp add: STORAGE_FIFTEEN_MINUTES_MS_def)
  show "t \<le> ceilRollupDate t STORAGE_FIFTEEN_MINUTES_MS" unfolding c using bucket_bounds [of t] by simp
  have d: "900000 dvd fifteenMinuteBucket t" by (rule aligned_dvd [THEN iffD1, OF aligned_bucket])
  show "aligned (ceilRollupDate t STORAGE_FIFTEEN_MINUTES_MS)"
    unfolding c aligned_dvd by (cases "fifteenMinuteBucket t = t") (use d in \<open>simp_all\<close>)
qed

section \<open>Grouping and summing\<close>

text \<open>\<open>SELECT key, sum(...) FROM rows GROUP BY key\<close>, the groups in the order of their first row.\<close>

definition add_to_group :: "'k \<Rightarrow> measures \<Rightarrow> ('k \<times> measures) list \<Rightarrow> ('k \<times> measures) list" where
  "add_to_group k v acc =
     (case map_of acc k of None \<Rightarrow> AList.update k v acc | Some old \<Rightarrow> AList.update k (old + v) acc)"

definition group_sum :: "('r \<Rightarrow> 'k) \<Rightarrow> ('r \<Rightarrow> measures) \<Rightarrow> 'r list \<Rightarrow> ('k \<times> measures) list" where
  "group_sum key val rows = foldl (\<lambda>acc r. add_to_group (key r) (val r) acc) [] rows"

text \<open>The sum over the rows of a result that satisfy a condition.\<close>

definition total :: "('k \<Rightarrow> bool) \<Rightarrow> ('k \<times> measures) list \<Rightarrow> measures" where
  "total P rows = sum_list (map snd (filter (\<lambda>(k, v). P k) rows))"

lemma total_Nil [simp]: "total P [] = 0"
  by (simp add: total_def)

lemma total_Cons: "total P (r # rs) = (if P (fst r) then snd r + total P rs else total P rs)"
  by (simp add: total_def case_prod_beta)

lemma total_append [simp]: "total P (xs @ ys) = total P xs + total P ys"
  by (simp add: total_def)

lemma total_filter: "total P (filter (\<lambda>(k, v). Q k) rows) = total (\<lambda>k. Q k \<and> P k) rows"
  by (induction rows) (auto simp: total_Cons)

lemma total_map: "total P (map (\<lambda>(k, v). (f k, v)) rows) = total (P \<circ> f) rows"
  by (induction rows) (auto simp: total_Cons)

lemma total_cong: "(\<And>k v. (k, v) \<in> set rows \<Longrightarrow> P k = Q k) \<Longrightarrow> total P rows = total Q rows"
proof (induction rows)
  case (Cons r rows)
  have "total P rows = total Q rows" by (rule Cons.IH) (use Cons.prems in auto)
  moreover have "P (fst r) = Q (fst r)" by (rule Cons.prems [of _ "snd r"]) simp
  ultimately show ?case by (simp add: total_Cons)
qed simp

lemma total_update:
  "distinct_keys acc \<Longrightarrow> total P (add_to_group k v acc) = (if P k then v else 0) + total P acc"
proof (induction acc)
  case Nil
  then show ?case by (simp add: add_to_group_def total_Cons)
next
  case (Cons a acc)
  show ?case
  proof (cases "fst a = k")
    case True
    then show ?thesis using Cons.prems
      by (cases a) (auto simp: add_to_group_def total_Cons ac_simps)
  next
    case False
    then have "add_to_group k v (a # acc) = a # add_to_group k v acc"
      by (cases a) (auto simp: add_to_group_def split: option.splits)
    then show ?thesis using Cons by (auto simp: total_Cons ac_simps)
  qed
qed

lemma keyed_add_to_group [simp]: "distinct_keys acc \<Longrightarrow> distinct_keys (add_to_group k v acc)"
  by (auto simp: add_to_group_def distinct_update split: option.splits)

lemma keyed_group_fold: "distinct_keys acc \<Longrightarrow> distinct_keys (foldl (\<lambda>acc r. add_to_group (key r) (val r) acc) acc rows)"
  by (induction rows arbitrary: acc) auto

lemma keyed_group_sum [simp]: "distinct_keys (group_sum key val rows)"
  by (simp add: group_sum_def keyed_group_fold)

lemma total_group_fold:
  "distinct_keys acc \<Longrightarrow> total P (foldl (\<lambda>acc r. add_to_group (key r) (val r) acc) acc rows)
     = total P acc + sum_list (map val (filter (\<lambda>r. P (key r)) rows))"
  by (induction rows arbitrary: acc) (auto simp: total_update ac_simps)

text \<open>Summing the groups is summing the rows.\<close>

lemma total_group_sum: "total P (group_sum key val rows) = sum_list (map val (filter (\<lambda>r. P (key r)) rows))"
  by (simp add: group_sum_def total_group_fold)

lemma map_of_add_to_group:
  "map_of (add_to_group k v acc) = (map_of acc)(k \<mapsto> (case map_of acc k of None \<Rightarrow> v | Some old \<Rightarrow> old + v))"
  by (simp add: add_to_group_def update_conv' split: option.splits)

lemma map_of_group_fold:
  "map_of (foldl (\<lambda>acc r. add_to_group (key r) (val r) acc) acc rows) k =
     (if k \<in> key ` set rows
      then Some ((case map_of acc k of None \<Rightarrow> 0 | Some v \<Rightarrow> v) + sum_list (map val (filter (\<lambda>r. key r = k) rows)))
      else map_of acc k)"
proof (induction rows arbitrary: acc)
  case Nil
  then show ?case by simp
next
  case (Cons r rows)
  have none: "filter (\<lambda>r. key r = k) rows = []" if "k \<notin> key ` set rows" using that by (auto simp: filter_empty_conv)
  show ?case using none
    by (auto simp: Cons.IH map_of_add_to_group ac_simps split: option.splits)
qed

lemma map_of_group_sum:
  "map_of (group_sum key val rows) k =
     (if k \<in> key ` set rows then Some (sum_list (map val (filter (\<lambda>r. key r = k) rows))) else None)"
  by (simp add: group_sum_def map_of_group_fold)

lemma map_of_group_sum_filter:
  "map_of (group_sum key val rows) k =
     (let rs = filter (\<lambda>r. key r = k) rows in if rs = [] then None else Some (sum_list (map val rs)))"
proof -
  have "k \<in> key ` set rows \<longleftrightarrow> filter (\<lambda>r. key r = k) rows \<noteq> []" by (force simp: filter_empty_conv)
  then show ?thesis by (simp add: map_of_group_sum Let_def)
qed

text \<open>A total depends only on what a distinct_keys table maps the selected keys to.\<close>

lemma total_as_sum:
  "distinct_keys rows \<Longrightarrow> total P rows = (\<Sum>k \<in> {k \<in> fst ` set rows. P k}. the (map_of rows k))"
proof (induction rows)
  case Nil
  then show ?case by simp
next
  case (Cons r rows)
  obtain k v where r: "r = (k, v)" by (cases r)
  have fresh: "k \<notin> fst ` set rows" using Cons.prems r by simp
  have split: "{x \<in> fst ` set (r # rows). P x} = (if P k then insert k {x \<in> fst ` set rows. P x} else {x \<in> fst ` set rows. P x})"
    using r by auto
  have rest: "(\<Sum>x \<in> {x \<in> fst ` set rows. P x}. the (map_of (r # rows) x)) = total P rows"
    unfolding Cons.IH [OF distinct.simps(2) [THEN iffD1, THEN conjunct2, OF Cons.prems [unfolded list.map]]]
    by (rule sum.cong) (use fresh r in auto)
  have fin: "finite {x \<in> fst ` set rows. P x}" by simp
  have nin: "k \<notin> {x \<in> fst ` set rows. P x}" using fresh by simp
  show ?case unfolding split using rest sum.insert [OF fin nin, of "\<lambda>x. the (map_of (r # rows) x)"] r
    by (simp add: total_Cons)
qed

lemma total_eqI:
  assumes "distinct_keys a" "distinct_keys b" "\<And>k. P k \<Longrightarrow> map_of a k = map_of b k"
  shows "total P a = total P b"
proof -
  have "{k \<in> fst ` set a. P k} = {k \<in> fst ` set b. P k}"
    using assms(3) by (metis (mono_tags, lifting) dom_map_of_conv_image_fst domIff)
  then show ?thesis using assms by (simp add: total_as_sum)
qed

lemma keys_iff: "k \<in> fst ` set rows \<longleftrightarrow> map_of rows k \<noteq> None"
  by (metis map_of_eq_None_iff)

lemma keys_group_sum [simp]: "fst ` set (group_sum key val rows) = key ` set rows"
  by (rule set_eqI) (simp add: keys_iff map_of_group_sum)

end
