(* ===== verification/Usage_Rows.thy ===== *)
theory Usage_Rows
  imports Usage_Tables
begin

text \<open>
  The row conversions of \<open>packages/storage-clickhouse/src/storage.ts\<close>: costs as text and as scaled
  integers, the rows of the outbox, the ClickHouse row of an outbox row, the buckets a set of rows
  touches and the hourly rollup rows of a batch.
\<close>

section \<open>Costs\<close>

definition COST_SCALE :: int where "COST_SCALE = 100000000"

text \<open>\<open>padStart\<close> and \<open>padEnd\<close>.\<close>

definition pad_start :: "nat \<Rightarrow> char \<Rightarrow> string \<Rightarrow> string" where
  "pad_start n c s = replicate (n - length s) c @ s"

definition pad_end :: "nat \<Rightarrow> char \<Rightarrow> string \<Rightarrow> string" where
  "pad_end n c s = s @ replicate (n - length s) c"

text \<open>\<open>BigInt(s)\<close> of a decimal literal; \<open>None\<close> is a \<open>SyntaxError\<close>. (Literals with a radix prefix, which
  a \<open>NUMERIC\<close> column never renders, are not modelled.)\<close>

definition big_int :: "string \<Rightarrow> int option" where
  "big_int s =
     (let t = js_trim s in
      if t = [] then Some 0
      else if digits1 t then Some (digits_value t)
      else case t of
        [] \<Rightarrow> None
      | c # ds \<Rightarrow>
          if c = CHR ''-'' \<and> digits1 ds then Some (- digits_value ds)
          else if c = CHR ''+'' \<and> digits1 ds then Some (digits_value ds)
          else None)"

definition costToScaled :: "string \<Rightarrow> int option" where
  "costToScaled v =
     (let parts = split_on CHR ''.'' v;
          rawWhole = hd parts;
          rawFrac = (case tl parts of [] \<Rightarrow> [] | f # _ \<Rightarrow> f);
          sign = (if starts_with rawWhole ''-'' then - 1 else 1);
          unsigned = remove1 CHR ''-'' rawWhole
      in case big_int (if unsigned = [] then ''0'' else unsigned) of
           None \<Rightarrow> None
         | Some whole \<Rightarrow>
            (case big_int (take 8 (pad_end 8 CHR ''0'' rawFrac)) of
               None \<Rightarrow> None
             | Some fr \<Rightarrow> Some (sign * (whole * COST_SCALE + fr))))"

definition scaledToCost :: "int \<Rightarrow> string" where
  "scaledToCost v =
     (let sign = (if v < 0 then ''-'' else []);
          absv = (if v < 0 then - v else v);
          whole = absv div COST_SCALE;
          fr = pad_start 8 CHR ''0'' (nat_digits (nat (absv mod COST_SCALE)))
      in sign @ nat_digits (nat whole) @ ''.'' @ fr)"

subsection \<open>Decimal digits\<close>

lemma code_of_digit_char: "code_of (digit_char n) = nat (48 + n mod 10)"
proof -
  have "nat (48 + n mod 10) < 256" using pos_mod_bound [of 10 n] by linarith
  then show ?thesis by (simp add: digit_char_def code_of_def)
qed

lemma is_digit_digit_char [simp]: "is_digit (digit_char n)"
  using pos_mod_bound [of 10 n] pos_mod_sign [of 10 n] by (simp add: is_digit_def code_of_digit_char) linarith

lemma digit_value_digit_char [simp]: "digit_value (digit_char n) = n mod 10"
  using pos_mod_sign [of 10 n] by (simp add: digit_value_def code_of_digit_char)

lemma digits_value_snoc [simp]: "digits_value (s @ [c]) = 10 * digits_value s + digit_value c"
  by (simp add: digits_value_def)

lemma nat_digits_step: "nat_digits n = (if n < 10 then [digit_char (int n)] else nat_digits (n div 10) @ [digit_char (int n)])"
proof -
  have "nat (48 + int n mod 10) = 48 + n mod 10" by (simp add: nat_add_distrib nat_mod_distrib)
  then show ?thesis by (subst nat_digits.simps) (auto simp: digit_char_def)
qed

lemma digits_nat_digits [simp]: "list_all is_digit (nat_digits n)"
  by (induction n rule: nat_digits.induct) (subst nat_digits_step, auto)

lemma nat_digits_not_Nil [simp]: "nat_digits n \<noteq> []"
  by (subst nat_digits_step) simp

lemma digits_value_nat_digits [simp]: "digits_value (nat_digits n) = int n"
proof (induction n rule: nat_digits.induct)
  case (1 n)
  show ?case
  proof (cases "n < 10")
    case True
    then show ?thesis by (subst nat_digits_step) (simp add: digits_value_def)
  next
    case False
    then show ?thesis using 1 [OF False] by (subst nat_digits_step) (simp add: zdiv_int)
  qed
qed

lemma length_nat_digits: "n < 10 ^ Suc k \<Longrightarrow> length (nat_digits n) \<le> Suc k"
proof (induction k arbitrary: n)
  case 0
  then show ?case by (subst nat_digits_step) simp
next
  case (Suc k)
  have "n div 10 < 10 ^ Suc k" using Suc.prems by (simp add: less_mult_imp_div_less)
  then show ?case using Suc.IH [of "n div 10"] by (subst nat_digits_step) auto
qed

lemma digits_value_zeros [simp]: "digits_value (replicate k CHR ''0'' @ s) = digits_value s"
proof (induction k)
  case (Suc k)
  have "digit_value CHR ''0'' = 0" by (simp add: digit_value_def code_of_def)
  then show ?case using Suc by (simp add: digits_value_def)
qed simp

lemma digit_not_space: "is_digit c \<Longrightarrow> \<not> is_space c"
  by (auto simp: is_digit_def is_space_def)

lemma dropWhile_none: "\<forall>x \<in> set xs. \<not> P x \<Longrightarrow> dropWhile P xs = xs"
  by (cases xs) auto

lemma js_trim_digits: "list_all is_digit s \<Longrightarrow> js_trim s = s"
  by (simp add: js_trim_def dropWhile_none list_all_iff digit_not_space)

lemma big_int_digits: "digits1 s \<Longrightarrow> big_int s = Some (digits_value s)"
  by (simp add: big_int_def js_trim_digits digits1_def Let_def)

lemma digits_no_char: "list_all is_digit s \<Longrightarrow> \<not> is_digit c \<Longrightarrow> c \<notin> set s"
  by (auto simp: list_all_iff)

text \<open>Rendering a scaled cost and reading it back loses nothing: every integer number of 10^-8 USD,
  negative ones included, survives scaledToCost followed by costToScaled.\<close>

theorem cost_text_roundtrip: "costToScaled (scaledToCost v) = Some v"
proof -
  define a where "a = (if v < 0 then - v else v)"
  define w where "w = nat_digits (nat (a div COST_SCALE))"
  define f where "f = pad_start 8 CHR ''0'' (nat_digits (nat (a mod COST_SCALE)))"
  have a0: "0 \<le> a" by (simp add: a_def)
  have fb: "nat (a mod COST_SCALE) < 10 ^ Suc 7"
    using pos_mod_bound [of COST_SCALE a] pos_mod_sign [of COST_SCALE a] by (simp add: COST_SCALE_def)
  have lenf: "length f = 8" using length_nat_digits [OF fb] by (simp add: f_def pad_start_def)
  have digf: "list_all is_digit f" by (simp add: f_def pad_start_def) (simp add: list_all_iff is_digit_def code_of_def)
  have valf: "digits_value f = a mod COST_SCALE"
    using pos_mod_sign [of COST_SCALE a] by (simp add: f_def pad_start_def COST_SCALE_def)
  have digw: "list_all is_digit w" and w0: "w \<noteq> []" and valw: "digits_value w = a div COST_SCALE"
    using a0 by (simp_all add: w_def COST_SCALE_def pos_imp_zdiv_nonneg_iff)
  have nodot: "CHR ''.'' \<notin> set w" "CHR ''.'' \<notin> set f" "CHR ''-'' \<notin> set w"
    by (rule digits_no_char [OF digw] digits_no_char [OF digf], simp add: is_digit_def code_of_def)+
  have rendered: "scaledToCost v = (if v < 0 then ''-'' else []) @ w @ ''.'' @ f"
    by (simp add: scaledToCost_def a_def w_def f_def Let_def)
  have parts: "split_on CHR ''.'' (scaledToCost v) = [(if v < 0 then ''-'' else []) @ w, f]"
    unfolding rendered using split_on_append [of "CHR ''.''" "(if v < 0 then ''-'' else []) @ w" f] split_on_no_sep [OF nodot(2)] nodot
    by simp
  have unsigned: "remove1 CHR ''-'' ((if v < 0 then ''-'' else []) @ w) = w"
    using nodot(3) by (simp add: remove1_idem)
  have sgn: "starts_with ((if v < 0 then ''-'' else []) @ w) ''-'' \<longleftrightarrow> v < 0"
    using nodot(3) w0 by (cases w) (auto simp: starts_with_def prefix_def)
  have "take 8 (pad_end 8 CHR ''0'' f) = f" using lenf by (simp add: pad_end_def)
  moreover have "digits1 w" "digits1 f" using digw w0 digf lenf by (auto simp: digits1_def)
  ultimately have r: "costToScaled (scaledToCost v) = Some ((if v < 0 then - 1 else 1) * (a div COST_SCALE * COST_SCALE + a mod COST_SCALE))"
    unfolding costToScaled_def Let_def parts using w0 unsigned sgn valw valf by (simp add: big_int_digits)
  then show ?thesis by (simp add: a_def)
qed

section \<open>Outbox rows\<close>

record outbox_row =
  or_dedup :: string
  or_batch :: nat
  or_provider :: string
  or_user :: "string option"
  or_team :: "string option"
  or_session :: "string option"
  or_model :: "string option"
  or_ts :: instant
  or_input :: int
  or_output :: int
  or_cacheRead :: int
  or_cacheCreation :: int
  or_cost :: string
  or_logAdapter :: "string option"
  or_host :: "string option"
  or_revision :: "string option"
  or_status :: string
  or_delivered :: "instant option"

definition or_empty :: "string option \<Rightarrow> string" where
  "or_empty x = (case x of None \<Rightarrow> [] | Some s \<Rightarrow> s)"

text \<open>ClickHouse reads the decimal text of the cost itself; \<open>costToScaled\<close> reads the same text.\<close>

definition clickHouseUsageRow :: "outbox_row \<Rightarrow> string \<times> usage_row" where
  "clickHouseUsageRow row =
     (or_dedup row,
      \<lparr>ur_ts = or_ts row,
       ur_dims = \<lparr>ud_provider = or_provider row, ud_user = or_empty (or_user row), ud_team = or_empty (or_team row),
         ud_session = or_empty (or_session row), ud_model = or_empty (or_model row), ud_host = or_empty (or_host row),
         ud_revision = or_empty (or_revision row), ud_status = or_status row\<rparr>,
       ur_input = or_input row, ur_output = or_output row, ur_cacheRead = or_cacheRead row,
       ur_cacheCreation = or_cacheCreation row,
       ur_cost = (case costToScaled (or_cost row) of None \<Rightarrow> 0 | Some c \<Rightarrow> c),
       ur_logAdapter = or_empty (or_logAdapter row)\<rparr>)"

text \<open>The distinct buckets of some instants, in order.\<close>

definition dirty15mBuckets :: "instant list \<Rightarrow> instant list" where
  "dirty15mBuckets ts = js_sort (\<lambda>a b. a - b) (js_unique (map fifteenMinuteBucket ts))"

lemma set_dirty15mBuckets [simp]: "set (dirty15mBuckets ts) = fifteenMinuteBucket ` set ts"
  by (simp add: dirty15mBuckets_def)

section \<open>The hourly rollup of a batch\<close>

type_synonym hour_key = "instant \<times> string \<times> string \<times> string \<times> string \<times> string \<times> string"

record rollup_row =
  rr_key :: hour_key
  rr_events :: int
  rr_input :: int
  rr_output :: int
  rr_cacheRead :: int
  rr_cacheCreation :: int
  rr_cost :: string

definition hour_key_of :: "outbox_row \<Rightarrow> hour_key" where
  "hour_key_of e = (hourBucket (or_ts e), or_provider e, or_empty (or_user e), or_empty (or_team e),
     or_empty (or_session e), or_empty (or_model e), or_empty (or_host e))"

definition hour_measures :: "outbox_row \<Rightarrow> measures option" where
  "hour_measures e = map_option
     (Measures 1 (or_input e) (or_output e) (or_cacheRead e) (or_cacheCreation e)) (costToScaled (or_cost e))"

text \<open>The loop over the rows: an entry of zeros where the key is new, then the six additions.\<close>

fun accumulate_rows :: "(hour_key \<times> measures) list \<Rightarrow> outbox_row list \<Rightarrow> (hour_key \<times> measures) list option" where
  "accumulate_rows acc [] = Some acc"
| "accumulate_rows acc (e # es) =
     (let acc1 = (if map_of acc (hour_key_of e) = None then AList.update (hour_key_of e) 0 acc else acc)
      in case (hour_measures e, map_of acc1 (hour_key_of e)) of
           (Some v, Some r) \<Rightarrow> accumulate_rows (AList.update (hour_key_of e) (r + v) acc1) es
         | _ \<Rightarrow> None)"

definition rollup_row_of :: "hour_key \<times> measures \<Rightarrow> rollup_row" where
  "rollup_row_of kv = \<lparr>rr_key = fst kv, rr_events = m_events (snd kv), rr_input = m_input (snd kv),
     rr_output = m_output (snd kv), rr_cacheRead = m_cacheRead (snd kv),
     rr_cacheCreation = m_cacheCreation (snd kv), rr_cost = scaledToCost (m_cost (snd kv))\<rparr>"

definition rollupRows :: "outbox_row list \<Rightarrow> rollup_row list option" where
  "rollupRows rows = map_option (map rollup_row_of) (accumulate_rows [] rows)"

lemma update_fresh_twice:
  "map_of acc k = None \<Longrightarrow> AList.update k v (AList.update k u acc) = AList.update k v acc"
  by (induction acc) (auto split: if_splits)

lemma accumulate_step:
  assumes "hour_measures e = Some v"
  shows "accumulate_rows acc (e # es) = accumulate_rows (add_to_group (hour_key_of e) v acc) es"
  using assms by (cases "map_of acc (hour_key_of e)") (auto simp: add_to_group_def update_conv' update_fresh_twice Let_def)

lemma accumulate_rows_eq:
  "(\<forall>e \<in> set rows. hour_measures e \<noteq> None) \<Longrightarrow>
     accumulate_rows acc rows = Some (foldl (\<lambda>acc e. add_to_group (hour_key_of e) (the (hour_measures e)) acc) acc rows)"
proof (induction rows arbitrary: acc)
  case (Cons e rows)
  then obtain v where "hour_measures e = Some v" by auto
  then show ?case using Cons by (simp only: accumulate_step list.set foldl.simps option.sel) simp
qed simp

text \<open>The hourly rollup rows of a batch are its rows grouped by hour and the six dimensions: each
  group has exactly one row, a group exists exactly if some row of the batch is in it, and its
  counters are the sums over those rows, the cost as the text of the sum of the scaled costs.\<close>

theorem rollupRows_group_sums:
  assumes "\<forall>e \<in> set rows. costToScaled (or_cost e) = Some (c e)"
  shows "\<exists>out. rollupRows rows = Some out
    \<and> distinct (map rr_key out)
    \<and> rr_key ` set out = hour_key_of ` set rows
    \<and> (\<forall>r \<in> set out. let es = filter (\<lambda>e. hour_key_of e = rr_key r) rows in
         rr_events r = int (length es)
         \<and> rr_input r = sum_list (map or_input es) \<and> rr_output r = sum_list (map or_output es)
         \<and> rr_cacheRead r = sum_list (map or_cacheRead es)
         \<and> rr_cacheCreation r = sum_list (map or_cacheCreation es)
         \<and> rr_cost r = scaledToCost (sum_list (map c es)))"
proof -
  define val where "val e = the (hour_measures e)" for e
  have val: "val e = Measures 1 (or_input e) (or_output e) (or_cacheRead e) (or_cacheCreation e) (c e)" if "e \<in> set rows" for e
    using assms that by (simp add: val_def hour_measures_def)
  define g where "g = group_sum hour_key_of val rows"
  have out: "rollupRows rows = Some (map rollup_row_of g)"
    using assms by (simp add: rollupRows_def accumulate_rows_eq hour_measures_def g_def group_sum_def val_def)
  have keys: "map rr_key (map rollup_row_of g) = map fst g" by (simp add: rollup_row_of_def)
  have dom: "fst ` set g = hour_key_of ` set rows"
    by (rule set_eqI) (simp add: keys_iff g_def map_of_group_sum)
  have sums: "sum_list (map val es) = Measures (int (length es)) (sum_list (map or_input es)) (sum_list (map or_output es))
     (sum_list (map or_cacheRead es)) (sum_list (map or_cacheCreation es)) (sum_list (map c es))"
    if "set es \<subseteq> set rows" for es
    using that by (induction es) (auto simp: zero_measures_def plus_measures_def val)
  have each: "snd kv = sum_list (map val (filter (\<lambda>e. hour_key_of e = fst kv) rows))" if "kv \<in> set g" for kv
  proof -
    have "map_of g (fst kv) = Some (snd kv)" using that by (simp add: g_def)
    then show ?thesis by (simp add: g_def map_of_group_sum split: if_splits)
  qed
  have "\<forall>r \<in> set (map rollup_row_of g). let es = filter (\<lambda>e. hour_key_of e = rr_key r) rows in
         rr_events r = int (length es)
         \<and> rr_input r = sum_list (map or_input es) \<and> rr_output r = sum_list (map or_output es)
         \<and> rr_cacheRead r = sum_list (map or_cacheRead es)
         \<and> rr_cacheCreation r = sum_list (map or_cacheCreation es)
         \<and> rr_cost r = scaledToCost (sum_list (map c es))"
    by (auto simp: rollup_row_of_def Let_def each sums)
  moreover have "distinct (map rr_key (map rollup_row_of g))" unfolding keys by (simp add: g_def)
  moreover have "rr_key ` set (map rollup_row_of g) = hour_key_of ` set rows"
    unfolding dom [symmetric] by (auto simp: rollup_row_of_def image_image)
  ultimately show ?thesis using out by blast
qed

definition sample_outbox_row :: "string \<Rightarrow> instant \<Rightarrow> string \<Rightarrow> outbox_row" where
  "sample_outbox_row k t cost =
     \<lparr>or_dedup = k, or_batch = 1, or_provider = ''codex'', or_user = Some ''u1'', or_team = None,
      or_session = Some ''s1'', or_model = Some ''m1'', or_ts = t, or_input = 10, or_output = 2, or_cacheRead = 0,
      or_cacheCreation = 0, or_cost = cost, or_logAdapter = Some ''codex'', or_host = None, or_revision = None,
      or_status = ''priced'', or_delivered = None\<rparr>"

theorem rollupRows_group_sums_witness:
  "\<exists>out. rollupRows [sample_outbox_row ''a'' 0 ''0.25000000'', sample_outbox_row ''b'' 3599999 ''1.50000000'',
       sample_outbox_row ''c'' 3600000 ''2.00000000''] = Some out \<and> distinct (map rr_key out)"
proof -
  let ?c = "\<lambda>e. the (costToScaled (or_cost e))"
  let ?rows = "[sample_outbox_row ''a'' 0 ''0.25000000'', sample_outbox_row ''b'' 3599999 ''1.50000000'',
    sample_outbox_row ''c'' 3600000 ''2.00000000'']"
  have "\<forall>e \<in> set ?rows. costToScaled (or_cost e) = Some (?c e)" by code_simp
  from rollupRows_group_sums [OF this] show ?thesis by blast
qed

end
