(* ===== verification/Usage_Pipeline.thy ===== *)
theory Usage_Pipeline
  imports Usage_Rows
begin

text \<open>
  The path of a usage event from the outbox to the rollups: \<open>enqueueUsageEvents\<close>,
  \<open>flushUsageOutbox\<close>, the repair and reconciliation of raw rows, \<open>compactUsageRollup\<close> for the 15
  minute rollup (version 2), and the timezone rollup (\<open>compactTimezoneRollup\<close> with the job queue of
  \<open>apps/web/lib/timezone-rollup.ts\<close>). Postgres and ClickHouse are one state; each statement or
  transaction that other processes can observe is one step, so that any number of flushers,
  repairs, workers and the compactor interleave. A step of a process that dies is a step too.
\<close>

section \<open>State\<close>

datatype resolution = Res_hour | Res_day

text \<open>
  The calendar functions of the three engines: \<open>date_trunc(resolution, t, timezone)\<close> and the start of
  the next local day in Postgres, \<open>nextTimezoneDayStart\<close> and the first instant of the local date of
  an instant in JavaScript, and \<open>toStartOfInterval\<close> and \<open>toStartOfDay\<close> in ClickHouse.
\<close>

record calendar =
  cal_trunc :: "resolution \<Rightarrow> string \<Rightarrow> instant \<Rightarrow> instant"
  cal_pg_next_day :: "string \<Rightarrow> instant \<Rightarrow> instant"
  cal_js_next_day :: "string \<Rightarrow> instant \<Rightarrow> string + instant"
  cal_js_day_start :: "string \<Rightarrow> instant \<Rightarrow> string + instant"
  cal_ch_start :: "resolution \<Rightarrow> string \<Rightarrow> instant \<Rightarrow> instant"

definition nextTimezoneDayStart :: "intl \<Rightarrow> instant \<Rightarrow> string \<Rightarrow> string + instant" where
  "nextTimezoneDayStart db bucket timezone =
     (case localDateKey db (Some bucket) timezone of
        Inl e \<Rightarrow> Inl e
      | Inr date \<Rightarrow>
         (case addLocalCalendarDays date 1 of
            Inl e \<Rightarrow> Inl e
          | Inr next_date \<Rightarrow> firstInstantOfLocalDate db next_date timezone))"

datatype batch_status = Batch_pending | Batch_inflight | Batch_delivered

record usage_batch =
  ub_id :: nat
  ub_token :: string
  ub_status :: batch_status
  ub_attempts :: nat
  ub_locked :: "instant option"
  ub_delivered :: "instant option"
  ub_created :: instant

datatype job_status = Job_pending | Job_inflight | Job_done

record zone_job =
  tj_id :: nat
  tj_resolution :: resolution
  tj_timezone :: string
  tj_bucket :: instant
  tj_sourceTo :: instant
  tj_generation :: nat
  tj_status :: job_status
  tj_created :: instant
  tj_updated :: instant

datatype flush_phase = Fl_claimed | Fl_read | Fl_raw | Fl_hourly

record flusher =
  fl_todo :: "(nat \<times> string) list"
  fl_rows :: "outbox_row list"
  fl_phase :: flush_phase

datatype raw_change =
  Replace "(string \<times> usage_row) list"
| Remove "string list"
| Remove_own string string string "string list"

datatype change_phase = Ch_begun | Ch_marked | Ch_applied

record changer =
  cg_change :: raw_change
  cg_times :: "instant list"
  cg_token :: "string option"
  cg_phase :: change_phase

datatype compaction_phase = Cp_planned | Cp_read | Cp_deleted | Cp_inserted

record compaction =
  cp_dirty :: "instant list"
  cp_contiguous :: "instant list"
  cp_watermark :: instant
  cp_rows :: "((instant \<times> usage_dims) \<times> measures) list"
  cp_phase :: compaction_phase

datatype worker_phase = Wk_claimed | Wk_locked | Wk_read | Wk_deleted | Wk_written

record worker =
  wk_todo :: "zone_job list"
  wk_rows :: "(usage_dims \<times> measures) list"
  wk_phase :: worker_phase

text \<open>\<open>gh_unmarked\<close> is a ghost: the buckets whose raw rows changed and were not marked dirty since.\<close>

record usage_db =
  db_batches :: "usage_batch list"
  db_nextBatch :: nat
  db_outbox :: "outbox_row list"
  db_dirty :: "instant list"
  db_watermark :: "instant option"
  db_zones :: "(string \<times> bool) list"
  db_jobs :: "zone_job list"
  db_nextJob :: nat
  db_coverage :: "(resolution \<times> string \<times> instant) list"
  ch_raw :: "(string \<times> usage_row) list"
  ch_tokens :: "string list"
  ch_hourly :: "rollup_row list"
  ch_base :: "((instant \<times> usage_dims) \<times> measures) list"
  ch_cache :: "((resolution \<times> string \<times> instant \<times> usage_dims) \<times> measures) list"
  pr_flush :: "(nat \<times> flusher) list"
  pr_change :: "(nat \<times> changer) list"
  pr_compact :: "compaction option"
  pr_work :: "(nat \<times> worker) list"
  gh_unmarked :: "instant list"

definition empty_db :: usage_db where
  "empty_db = \<lparr>db_batches = [], db_nextBatch = 0, db_outbox = [], db_dirty = [], db_watermark = None, db_zones = [], db_jobs = [], db_nextJob = 0,
     db_coverage = [], ch_raw = [], ch_tokens = [], ch_hourly = [], ch_base = [], ch_cache = [],
     pr_flush = [], pr_change = [], pr_compact = None, pr_work = [], gh_unmarked = []\<rparr>"

section \<open>Raw rows\<close>

definition row_measures :: "usage_row \<Rightarrow> measures" where
  "row_measures r = Measures 1 (ur_input r) (ur_output r) (ur_cacheRead r) (ur_cacheCreation r)
     (if ud_status (ur_dims r) = ''unpriced'' then 0 else ur_cost r)"

definition row_bucket :: "usage_row \<Rightarrow> instant" where
  "row_bucket r = fifteenMinuteBucket (ur_ts r)"

abbreviation raw_rows :: "usage_db \<Rightarrow> usage_row list" where
  "raw_rows s \<equiv> map snd (ch_raw s)"

text \<open>\<open>mark15mRollupDirty\<close> for the version 2 rollup: the buckets join the table of dirty buckets.\<close>

definition mark15mRollupDirty :: "instant list \<Rightarrow> usage_db \<Rightarrow> usage_db" where
  "mark15mRollupDirty ts s =
     (let buckets = dirty15mBuckets ts
      in s\<lparr>db_dirty := db_dirty s @ filter (\<lambda>b. b \<notin> set (db_dirty s)) buckets,
           gh_unmarked := filter (\<lambda>b. b \<notin> set buckets) (gh_unmarked s)\<rparr>)"

text \<open>The \<open>WHERE\<close> of the deletions, for a user, provider and adapter in \<open>reconcileUsageEvents\<close>.\<close>

fun removes :: "raw_change \<Rightarrow> string \<times> usage_row \<Rightarrow> bool" where
  "removes (Replace rows) kr = False"
| "removes (Remove ks) kr = (fst kr \<in> set ks)"
| "removes (Remove_own user provider adapter ks) kr = (fst kr \<in> set ks \<and> ud_user (ur_dims (snd kr)) = user
     \<and> ud_provider (ur_dims (snd kr)) = provider \<and> ur_logAdapter (snd kr) = adapter)"

fun replacements_of :: "raw_change \<Rightarrow> (string \<times> usage_row) list" where
  "replacements_of (Replace rows) = rows"
| "replacements_of _ = []"

text \<open>The buckets whose contents may differ after rows are replaced or removed.\<close>

definition touched_buckets :: "raw_change \<Rightarrow> (string \<times> usage_row) list \<Rightarrow> instant list" where
  "touched_buckets c raw =
     map (row_bucket \<circ> snd) (replacements_of c
       @ filter (\<lambda>kr. fst kr \<in> fst ` set (replacements_of c) \<or> removes c kr) raw)"

definition change_raw :: "raw_change \<Rightarrow> usage_db \<Rightarrow> usage_db" where
  "change_raw c s = s\<lparr>
     ch_raw := put_rows (replacements_of c) (filter (\<lambda>kr. \<not> removes c kr) (ch_raw s)),
     gh_unmarked := touched_buckets c (ch_raw s) @ gh_unmarked s\<rparr>"

section \<open>Ingest\<close>

record finalized_event =
  fe_dedup :: string
  fe_provider :: string
  fe_user :: "string option"
  fe_session :: "string option"
  fe_model :: "string option"
  fe_ts :: instant
  fe_input :: int
  fe_output :: int
  fe_cacheRead :: int
  fe_cacheCreation :: int
  fe_cost :: string
  fe_logAdapter :: "string option"
  fe_host :: "string option"
  fe_revision :: "string option"
  fe_status :: string

text \<open>A membership of a user in a team, from an instant to an instant or open-ended.\<close>

type_synonym assignment = "string \<times> string \<times> instant \<times> instant option"

definition teamMapAtEventTime :: "assignment list \<Rightarrow> finalized_event list \<Rightarrow> (string \<times> string) list" where
  "teamMapAtEventTime assignments events =
     js_map_of_list
       [(fe_dedup e, team). (user, team, from_t, to_t) \<leftarrow> assignments, e \<leftarrow> events,
          fe_user e = Some user \<and> user \<noteq> [] \<and> from_t \<le> fe_ts e
          \<and> (case to_t of None \<Rightarrow> True | Some u \<Rightarrow> fe_ts e < u)]"

definition outbox_row_of :: "nat \<Rightarrow> (string \<times> string) list \<Rightarrow> finalized_event \<Rightarrow> outbox_row" where
  "outbox_row_of batchId teamByEvent e =
     \<lparr>or_dedup = fe_dedup e, or_batch = batchId, or_provider = fe_provider e, or_user = fe_user e,
      or_team = (case fe_user e of None \<Rightarrow> None | Some u \<Rightarrow> if u = [] then None else map_of teamByEvent (fe_dedup e)),
      or_session = fe_session e, or_model = fe_model e, or_ts = fe_ts e, or_input = fe_input e, or_output = fe_output e,
      or_cacheRead = fe_cacheRead e, or_cacheCreation = fe_cacheCreation e, or_cost = fe_cost e,
      or_logAdapter = fe_logAdapter e, or_host = fe_host e, or_revision = fe_revision e,
      or_status = fe_status e, or_delivered = None\<rparr>"

text \<open>\<open>INSERT ... ON CONFLICT (dedup_key) DO NOTHING\<close> for each event, counting the rows inserted.\<close>

fun insert_events :: "nat \<Rightarrow> (string \<times> string) list \<Rightarrow> finalized_event list \<Rightarrow> outbox_row list \<Rightarrow> nat \<times> outbox_row list" where
  "insert_events batchId teams [] outbox = (0, outbox)"
| "insert_events batchId teams (e # es) outbox =
     (if fe_dedup e \<in> or_dedup ` set outbox then insert_events batchId teams es outbox
      else (let (n, out) = insert_events batchId teams es (outbox @ [outbox_row_of batchId teams e]) in (Suc n, out)))"

record enqueue_result =
  en_inserted :: nat
  en_deduped :: nat
  en_batch :: "nat option"

definition enqueueUsageEvents ::
  "assignment list \<Rightarrow> string \<Rightarrow> instant \<Rightarrow> finalized_event list \<Rightarrow> usage_db \<Rightarrow> enqueue_result \<times> usage_db" where
  "enqueueUsageEvents assignments token now events s =
     (let teams = teamMapAtEventTime assignments events;
          batchId = db_nextBatch s;
          (inserted, outbox) = insert_events batchId teams events (db_outbox s);
          batch = \<lparr>ub_id = batchId, ub_token = token, ub_status = Batch_pending, ub_attempts = 0,
                   ub_locked = None, ub_delivered = None, ub_created = now\<rparr>
      in (\<lparr>en_inserted = inserted, en_deduped = length events - inserted,
           en_batch = (if 0 < inserted then Some batchId else None)\<rparr>,
          s\<lparr>db_outbox := outbox, db_nextBatch := Suc batchId, db_batches := (if inserted = 0 then db_batches s else db_batches s @ [batch])\<rparr>))"

section \<open>Flushing the outbox\<close>

definition batch_claimable :: "instant \<Rightarrow> usage_batch \<Rightarrow> bool" where
  "batch_claimable now b \<longleftrightarrow> ub_delivered b = None
     \<and> (ub_status b = Batch_pending
        \<or> (ub_status b = Batch_inflight \<and> (case ub_locked b of None \<Rightarrow> False | Some t \<Rightarrow> t < now - 300000)))"

definition update_batch :: "nat \<Rightarrow> (usage_batch \<Rightarrow> usage_batch) \<Rightarrow> usage_batch list \<Rightarrow> usage_batch list" where
  "update_batch i f bs = map (\<lambda>b. if ub_id b = i then f b else b) bs"

definition claim_batches :: "instant \<Rightarrow> nat \<Rightarrow> usage_db \<Rightarrow> usage_batch list" where
  "claim_batches now limit s =
     take limit (js_sort (\<lambda>a b. ub_created a - ub_created b) (filter (batch_claimable now) (db_batches s)))"

definition flush_claim :: "instant \<Rightarrow> nat \<Rightarrow> usage_db \<Rightarrow> flusher \<times> usage_db" where
  "flush_claim now limit s =
     (let ids = map ub_id (claim_batches now limit s)
      in (\<lparr>fl_todo = map (\<lambda>b. (ub_id b, ub_token b)) (claim_batches now limit s), fl_rows = [], fl_phase = Fl_claimed\<rparr>,
          s\<lparr>db_batches := map (\<lambda>b. if ub_id b \<in> set ids
              then b\<lparr>ub_status := Batch_inflight, ub_attempts := ub_attempts b + 1, ub_locked := Some now\<rparr> else b)
              (db_batches s)\<rparr>))"

text \<open>
  The two inserts of \<open>insertOutboxRows\<close>. ClickHouse ignores an insert whose deduplication token it has
  seen (\<open>non_replicated_deduplication_window\<close>); an empty batch inserts nothing.
\<close>

definition insert_raw :: "string \<Rightarrow> outbox_row list \<Rightarrow> usage_db \<Rightarrow> usage_db" where
  "insert_raw token rows s =
     (let t = token @ '':raw''
      in if rows = [] \<or> t \<in> set (ch_tokens s) then s
         else (change_raw (Replace (map clickHouseUsageRow rows)) s)\<lparr>ch_tokens := t # ch_tokens s\<rparr>)"

definition insert_hourly :: "string \<Rightarrow> outbox_row list \<Rightarrow> usage_db \<Rightarrow> usage_db option" where
  "insert_hourly token rows s =
     (let t = token @ '':rollup''
      in case rollupRows rows of
           None \<Rightarrow> None
         | Some out \<Rightarrow>
            Some (if rows = [] \<or> t \<in> set (ch_tokens s) then s
                  else s\<lparr>ch_hourly := ch_hourly s @ out, ch_tokens := t # ch_tokens s\<rparr>))"

text \<open>The transaction that ends a batch, and the \<open>UPDATE\<close> of the \<open>catch\<close> block.\<close>

definition flush_commit :: "instant \<Rightarrow> nat \<Rightarrow> outbox_row list \<Rightarrow> usage_db \<Rightarrow> usage_db" where
  "flush_commit now i rows s =
     (let s1 = (if rows = [] then s else mark15mRollupDirty (map or_ts rows) s)
      in s1\<lparr>db_outbox := map (\<lambda>r. if or_batch r = i then r\<lparr>or_delivered := Some now\<rparr> else r) (db_outbox s1),
            db_batches := update_batch i (\<lambda>b. b\<lparr>ub_status := Batch_delivered, ub_delivered := Some now, ub_locked := None\<rparr>)
              (db_batches s1)\<rparr>)"

definition flush_rollback :: "nat \<Rightarrow> usage_db \<Rightarrow> usage_db" where
  "flush_rollback i s =
     s\<lparr>db_batches := update_batch i (\<lambda>b. b\<lparr>ub_status := Batch_pending, ub_locked := None\<rparr>) (db_batches s)\<rparr>"

section \<open>Changes of raw rows\<close>

text \<open>
  \<open>repairPricingUsage\<close>, \<open>reconcileCodexReplayUsage\<close> and \<open>reconcileUsageEvents\<close> select rows, mark their
  buckets dirty, change the rows, and mark the buckets again.
\<close>

record repair_request =
  rq_generation :: string
  rq_from :: instant
  rq_to :: instant
  rq_models :: "string list"
  rq_codexFallback :: bool
  rq_replaceRevisions :: "string list"
  rq_limit :: int

definition batch_limit :: "int \<Rightarrow> int \<Rightarrow> nat" where
  "batch_limit cap limit = nat (min (max limit 1) cap)"

text \<open>\<open>ORDER BY ts, dedup_key\<close>\<close>

definition by_ts_key :: "(string \<times> usage_row) list \<Rightarrow> (string \<times> usage_row) list" where
  "by_ts_key rows = js_sort (\<lambda>a b. cmp_ord (ur_ts (snd a)) (ur_ts (snd b))) (js_sort (\<lambda>a b. cmp_ord (fst a) (fst b)) rows)"

definition repair_selects :: "repair_request \<Rightarrow> usage_row \<Rightarrow> bool" where
  "repair_selects q r \<longleftrightarrow> rq_from q \<le> ur_ts r \<and> ur_ts r < rq_to q
     \<and> (ud_status (ur_dims r) \<in> {''unpriced'', ''legacy''} \<or> ud_revision (ur_dims r) \<in> set (rq_replaceRevisions q))
     \<and> (ud_model (ur_dims r) \<in> set (rq_models q)
        \<or> (rq_codexFallback q \<and> ud_provider (ur_dims r) = ''codex'' \<and> ur_logAdapter r = ''codex'' \<and> ud_model (ur_dims r) = []))"

text \<open>The resolver gives the new cost, revision and status of a row, or declines.\<close>

type_synonym price_resolver = "string \<Rightarrow> usage_row \<Rightarrow> (int \<times> string \<times> string) option"

text \<open>The text that is hashed with SHA-256 to the insert token; it stands for its digest.\<close>

definition repair_token :: "repair_request \<Rightarrow> (string \<times> usage_row) list \<Rightarrow> string" where
  "repair_token q replacements = ''pricing-repair:'' @ rq_generation q @ '':'' @ join_with [CHR 0x0A] (js_sort cmp_ord (map fst replacements))"

definition repairPricingUsage :: "price_resolver \<Rightarrow> repair_request \<Rightarrow> usage_db \<Rightarrow> changer option" where
  "repairPricingUsage resolver q s =
     (if (rq_models q = [] \<and> \<not> rq_codexFallback q) \<or> rq_limit q \<le> 0 then None
      else
        let candidates = take (batch_limit 1000 (rq_limit q)) (by_ts_key (filter (\<lambda>(k, r). repair_selects q r) (ch_raw s)));
            replacements = List.map_filter (\<lambda>(k, r). map_option (\<lambda>(cost, revision, status).
                (k, r\<lparr>ur_cost := cost, ur_dims := (ur_dims r)\<lparr>ud_revision := revision, ud_status := status\<rparr>\<rparr>))
              (resolver k r)) candidates
        in if replacements = [] then None
           else Some \<lparr>cg_change = Replace replacements, cg_times = map (ur_ts \<circ> snd) replacements,
                     cg_token = Some (repair_token q replacements), cg_phase = Ch_begun\<rparr>)"

text \<open>A row of Codex without a model that repeats a row of the same session with a model.\<close>

definition replay_tuple :: "usage_row \<Rightarrow> string \<times> string \<times> string \<times> string \<times> int \<times> int \<times> int \<times> int" where
  "replay_tuple r = (ud_session (ur_dims r), ud_user (ur_dims r), ud_host (ur_dims r), ur_logAdapter r,
     ur_input r, ur_output r, ur_cacheRead r, ur_cacheCreation r)"

definition replay_selects :: "instant \<Rightarrow> instant \<Rightarrow> usage_row list \<Rightarrow> usage_row \<Rightarrow> bool" where
  "replay_selects from_t to_t rows r \<longleftrightarrow> from_t \<le> ur_ts r \<and> ur_ts r < to_t
     \<and> ud_provider (ur_dims r) = ''codex'' \<and> ud_model (ur_dims r) = [] \<and> ud_status (ur_dims r) = ''unpriced''
     \<and> ud_session (ur_dims r) \<noteq> [] \<and> ur_logAdapter r = ''codex''
     \<and> replay_tuple r \<in> replay_tuple ` set (filter (\<lambda>x. ud_provider (ur_dims x) = ''codex''
          \<and> ud_model (ur_dims x) \<noteq> [] \<and> ud_session (ur_dims x) \<noteq> []) rows)"

definition reconcileCodexReplayUsage :: "instant \<Rightarrow> instant \<Rightarrow> int \<Rightarrow> usage_db \<Rightarrow> changer option" where
  "reconcileCodexReplayUsage from_t to_t limit s =
     (if limit \<le> 0 then None
      else
        let candidates = take (batch_limit 1000 limit)
              (by_ts_key (filter (\<lambda>(k, r). replay_selects from_t to_t (raw_rows s) r) (ch_raw s)))
        in if candidates = [] then None
           else Some \<lparr>cg_change = Remove (map fst candidates), cg_times = map (ur_ts \<circ> snd) candidates,
                     cg_token = None, cg_phase = Ch_begun\<rparr>)"

record reconcile_request =
  rr_user :: string
  rr_provider :: string
  rr_logAdapter :: string
  rr_dedupKeys :: "string list"

text \<open>The rows leave the outbox in a transaction of its own, before ClickHouse is asked.\<close>

definition reconcileUsageEvents :: "reconcile_request \<Rightarrow> usage_db \<Rightarrow> changer option \<times> usage_db" where
  "reconcileUsageEvents q s =
     (let keys = take 1000 (js_unique (rr_dedupKeys q))
      in if keys = [] then (None, s)
         else
           let mine = (\<lambda>r. or_user r = Some (rr_user q) \<and> or_provider r = rr_provider q
                        \<and> or_logAdapter r = Some (rr_logAdapter q) \<and> or_dedup r \<in> set keys);
               outboxRows = filter mine (db_outbox s);
               rows = filter (\<lambda>(k, r). ud_user (ur_dims r) = rr_user q \<and> ud_provider (ur_dims r) = rr_provider q
                        \<and> ur_logAdapter r = rr_logAdapter q \<and> k \<in> set keys) (ch_raw s);
               candidates = js_map_of_list (map (\<lambda>r. (or_dedup r, or_ts r)) outboxRows @ map (\<lambda>(k, r). (k, ur_ts r)) rows)
           in (if candidates = [] then None
               else Some \<lparr>cg_change = Remove_own (rr_user q) (rr_provider q) (rr_logAdapter q) (map fst candidates),
                         cg_times = map snd candidates, cg_token = None, cg_phase = Ch_begun\<rparr>,
               s\<lparr>db_outbox := filter (\<lambda>r. \<not> mine r) (db_outbox s)\<rparr>))"

end
