(* ===== verification/Usage_Rollup.thy ===== *)
theory Usage_Rollup
  imports Usage_Pipeline
begin

text \<open>
  The two rollup levels over the raw rows: \<open>compactUsageRollup\<close> (15 minute buckets, version 2), the
  job queue and worker of the timezone rollup, and the sources the dashboards read
  (\<open>resolveTimeseriesSource\<close>). The last section composes everything to the step function of the
  pipeline.
\<close>

section \<open>Compaction of 15 minute buckets\<close>

definition firstRollupBucket :: "usage_db \<Rightarrow> instant option" where
  "firstRollupBucket s =
     (case map row_bucket (raw_rows s) of [] \<Rightarrow> None | b # bs \<Rightarrow> Some (fold min bs b))"

definition readOrInitWatermark :: "instant \<Rightarrow> usage_db \<Rightarrow> instant" where
  "readOrInitWatermark eligibleTo s =
     (case db_watermark s of
        Some w \<Rightarrow> clampV2RollupStart w eligibleTo
      | None \<Rightarrow> clampV2RollupStart
          (case firstRollupBucket s of None \<Rightarrow> eligibleTo | Some b \<Rightarrow> clampV2RollupStart b eligibleTo) eligibleTo)"

definition select_dirty :: "instant \<Rightarrow> nat \<Rightarrow> usage_db \<Rightarrow> instant list" where
  "select_dirty eligibleTo limit s =
     take limit (js_sort (\<lambda>a b. a - b)
       (filter (\<lambda>b. clampV2RollupStart 0 eligibleTo \<le> b \<and> b < eligibleTo) (db_dirty s)))"

definition contiguous_buckets :: "instant \<Rightarrow> instant \<Rightarrow> nat \<Rightarrow> instant list" where
  "contiguous_buckets watermark eligibleTo remaining =
     (let count = min remaining (nat (max 0 ((eligibleTo - watermark) div STORAGE_FIFTEEN_MINUTES_MS)))
      in map (\<lambda>i. watermark + int i * STORAGE_FIFTEEN_MINUTES_MS) [0..<count])"

definition plan_compaction :: "instant \<Rightarrow> nat \<Rightarrow> usage_db \<Rightarrow> compaction" where
  "plan_compaction eligibleTo maxBuckets s =
     (let watermark = readOrInitWatermark eligibleTo s;
          dirty = select_dirty eligibleTo (max 1 ((maxBuckets + 1) div 2)) s
      in \<lparr>cp_dirty = dirty, cp_contiguous = contiguous_buckets watermark eligibleTo (maxBuckets - length dirty),
          cp_watermark = watermark, cp_rows = [], cp_phase = Cp_planned\<rparr>)"

definition cp_buckets :: "compaction \<Rightarrow> instant list" where
  "cp_buckets c = js_sort (\<lambda>a b. a - b) (js_unique (cp_contiguous c @ cp_dirty c))"

definition cp_new_watermark :: "compaction \<Rightarrow> instant" where
  "cp_new_watermark c = cp_watermark c + int (length (cp_contiguous c)) * STORAGE_FIFTEEN_MINUTES_MS"

text \<open>\<open>GROUP BY\<close> bucket and dimensions over \<open>usage_events FINAL\<close>; the cost of unpriced rows is left out.\<close>

definition base_key :: "usage_row \<Rightarrow> instant \<times> usage_dims" where
  "base_key r = (row_bucket r, ur_dims r)"

definition aggregateRollupBuckets :: "instant list \<Rightarrow> usage_db \<Rightarrow> ((instant \<times> usage_dims) \<times> measures) list" where
  "aggregateRollupBuckets buckets s =
     (if buckets = [] then []
      else
        let sorted = js_sort (\<lambda>a b. a - b) buckets;
            from_t = hd sorted;
            to_t = last sorted + STORAGE_FIFTEEN_MINUTES_MS
        in group_sum base_key row_measures
             (filter (\<lambda>r. from_t \<le> ur_ts r \<and> ur_ts r < to_t \<and> row_bucket r \<in> set sorted) (raw_rows s)))"

definition deleteRollupBuckets :: "instant list \<Rightarrow> usage_db \<Rightarrow> usage_db" where
  "deleteRollupBuckets buckets s = s\<lparr>ch_base := delete_where (\<lambda>(b, d). b \<in> set buckets) (ch_base s)\<rparr>"

definition pg_source_to :: "calendar \<Rightarrow> resolution \<Rightarrow> string \<Rightarrow> instant \<Rightarrow> instant" where
  "pg_source_to cal r z b = (case r of Res_hour \<Rightarrow> b + 3600000 | Res_day \<Rightarrow> cal_pg_next_day cal z b)"

definition requested_jobs :: "calendar \<Rightarrow> instant list \<Rightarrow> (string \<times> bool) list \<Rightarrow> (resolution \<times> string \<times> instant) list" where
  "requested_jobs cal buckets zones =
     remdups [(r, fst z, cal_trunc cal r (fst z) b). b \<leftarrow> buckets, z \<leftarrow> zones, r \<leftarrow> [Res_hour, Res_day]]"

definition job_key :: "zone_job \<Rightarrow> resolution \<times> string \<times> instant" where
  "job_key j = (tj_resolution j, tj_timezone j, tj_bucket j)"

definition new_job :: "nat \<Rightarrow> instant \<Rightarrow> resolution \<times> string \<times> instant \<Rightarrow> instant \<Rightarrow> zone_job" where
  "new_job i now key to_t = \<lparr>tj_id = i, tj_resolution = fst key, tj_timezone = fst (snd key), tj_bucket = snd (snd key),
     tj_sourceTo = to_t, tj_generation = 0, tj_status = Job_pending, tj_created = now, tj_updated = now\<rparr>"

text \<open>\<open>INSERT ... ON CONFLICT (resolution, timezone, bucket) DO UPDATE\<close> of one row. Ids are random in
  Postgres; here a fresh number, so an id is never used twice.\<close>

definition upsert_job :: "calendar \<Rightarrow> instant \<Rightarrow> resolution \<times> string \<times> instant \<Rightarrow> nat \<times> zone_job list \<Rightarrow> nat \<times> zone_job list" where
  "upsert_job cal now key nj =
     (let to_t = pg_source_to cal (fst key) (fst (snd key)) (snd (snd key))
      in if key \<in> job_key ` set (snd nj)
         then (fst nj, map (\<lambda>j. if job_key j = key
                then j\<lparr>tj_status := Job_pending, tj_sourceTo := to_t, tj_generation := tj_generation j + 1, tj_updated := now\<rparr>
                else j) (snd nj))
         else (Suc (fst nj), snd nj @ [new_job (fst nj) now key to_t]))"

definition invalidateTimezoneRollupJobs :: "calendar \<Rightarrow> instant \<Rightarrow> instant list \<Rightarrow> usage_db \<Rightarrow> usage_db" where
  "invalidateTimezoneRollupJobs cal now buckets s =
     (let requested = requested_jobs cal buckets (db_zones s);
          nj = fold (upsert_job cal now) requested (db_nextJob s, db_jobs s)
      in s\<lparr>db_coverage := filter (\<lambda>k. k \<notin> set requested) (db_coverage s), db_nextJob := fst nj, db_jobs := snd nj\<rparr>)"

definition begin_compaction :: "instant \<Rightarrow> nat \<Rightarrow> usage_db \<Rightarrow> usage_db" where
  "begin_compaction eligibleTo maxBuckets s =
     (let c = plan_compaction eligibleTo maxBuckets s
      in if cp_buckets c = []
         then s\<lparr>db_watermark := (case db_watermark s of None \<Rightarrow> Some (cp_watermark c) | Some w \<Rightarrow> Some w)\<rparr>
         else s\<lparr>pr_compact := Some c\<rparr>)"

definition commit_compaction :: "calendar \<Rightarrow> instant \<Rightarrow> compaction \<Rightarrow> usage_db \<Rightarrow> usage_db" where
  "commit_compaction cal now c s =
     (let s1 = invalidateTimezoneRollupJobs cal now (cp_buckets c) s
      in s1\<lparr>db_watermark := Some (cp_new_watermark c),
            db_dirty := filter (\<lambda>b. b \<notin> set (cp_buckets c)) (db_dirty s1), pr_compact := None\<rparr>)"

section \<open>The job queue of the timezone rollup\<close>

datatype registration = Created | Existing | Capacity

definition ensureRegisteredTimezone :: "string \<Rightarrow> nat \<Rightarrow> usage_db \<Rightarrow> registration \<times> usage_db" where
  "ensureRegisteredTimezone z maximum s =
     (if z \<in> fst ` set (db_zones s) then (Existing, s)
      else if maximum \<le> length (db_zones s) then (Capacity, s)
      else (Created, s\<lparr>db_zones := db_zones s @ [(z, False)]\<rparr>))"

text \<open>\<open>validated_at\<close> is set when the cutover has validated the zone; dashboards read it.\<close>

definition validate_zone :: "string \<Rightarrow> usage_db \<Rightarrow> usage_db" where
  "validate_zone z s = s\<lparr>db_zones := map (\<lambda>(z', v). (z', v \<or> z' = z)) (db_zones s)\<rparr>"

fun insert_missing :: "instant \<Rightarrow> resolution \<Rightarrow> string \<Rightarrow> (instant \<times> instant) list \<Rightarrow> usage_db \<Rightarrow> nat \<times> usage_db" where
  "insert_missing now r z [] s = (0, s)"
| "insert_missing now r z ((b, to_t) # ws) s =
     (if (r, z, b) \<in> set (db_coverage s) \<or> (r, z, b) \<in> job_key ` set (db_jobs s)
      then insert_missing now r z ws s
      else (let (n, s') = insert_missing now r z ws
                  (s\<lparr>db_jobs := db_jobs s @ [new_job (db_nextJob s) now (r, z, b) to_t], db_nextJob := Suc (db_nextJob s)\<rparr>)
            in (Suc n, s')))"

definition prewarmMissingJobs :: "instant \<Rightarrow> resolution \<Rightarrow> string \<Rightarrow> (instant \<times> instant) list \<Rightarrow> usage_db \<Rightarrow> nat \<times> usage_db" where
  "prewarmMissingJobs now r z windows s = (if windows = [] then (0, s) else insert_missing now r z windows s)"

definition below_watermark :: "zone_job \<Rightarrow> usage_db \<Rightarrow> bool" where
  "below_watermark j s = (case db_watermark s of None \<Rightarrow> False | Some w \<Rightarrow> tj_sourceTo j \<le> w)"

definition dirty_within :: "instant \<Rightarrow> instant \<Rightarrow> usage_db \<Rightarrow> bool" where
  "dirty_within from_t to_t s = (\<exists>b \<in> set (db_dirty s). from_t \<le> b \<and> b < to_t)"

text \<open>The condition of \<open>claimJobs\<close>, \<open>countBacklog\<close> and \<open>markDone\<close> on the base of a job.\<close>

definition job_ready :: "zone_job \<Rightarrow> usage_db \<Rightarrow> bool" where
  "job_ready j s \<longleftrightarrow> below_watermark j s \<and> \<not> dirty_within (tj_bucket j) (tj_sourceTo j) s"

definition job_claimable :: "instant \<Rightarrow> zone_job \<Rightarrow> bool" where
  "job_claimable now j \<longleftrightarrow> tj_status j = Job_pending \<or> (tj_status j = Job_inflight \<and> tj_updated j < now - 300000)"

definition update_job :: "nat \<Rightarrow> (zone_job \<Rightarrow> zone_job) \<Rightarrow> zone_job list \<Rightarrow> zone_job list" where
  "update_job i f js = map (\<lambda>j. if tj_id j = i then f j else j) js"

definition TIMEZONE_ROLLUP_MAX_JOBS_PER_TICK :: nat where "TIMEZONE_ROLLUP_MAX_JOBS_PER_TICK = 32"

definition claim_candidates :: "instant \<Rightarrow> int \<Rightarrow> usage_db \<Rightarrow> zone_job list" where
  "claim_candidates now limit s =
     take (min TIMEZONE_ROLLUP_MAX_JOBS_PER_TICK (nat (max 0 limit)))
       (js_sort (\<lambda>a b. tj_created a - tj_created b)
         (js_sort (\<lambda>a b. int (tj_id a) - int (tj_id b))
           (filter (\<lambda>j. job_claimable now j \<and> job_ready j s) (db_jobs s))))"

definition claimJobs :: "instant \<Rightarrow> int \<Rightarrow> usage_db \<Rightarrow> zone_job list \<times> usage_db" where
  "claimJobs now limit s =
     (let claimed = claim_candidates now limit s;
          ids = map tj_id claimed
      in (map (\<lambda>j. j\<lparr>tj_status := Job_inflight, tj_updated := now\<rparr>) claimed,
          s\<lparr>db_jobs := map (\<lambda>j. if tj_id j \<in> set ids then j\<lparr>tj_status := Job_inflight, tj_updated := now\<rparr> else j) (db_jobs s)\<rparr>))"

definition countBacklog :: "instant \<Rightarrow> usage_db \<Rightarrow> nat \<times> nat" where
  "countBacklog now s =
     (let backlog = filter (job_claimable now) (db_jobs s)
      in (length (filter (\<lambda>j. job_ready j s) backlog), length (filter (\<lambda>j. \<not> job_ready j s) backlog)))"

datatype done_result = Accepted | Not_accepted | Foreign_key_violation

text \<open>\<open>clickhouse_timezone_rollup_coverage.timezone\<close> references the registry, so the statement fails for a
  zone that is not registered.\<close>

definition markDone :: "instant \<Rightarrow> nat \<Rightarrow> nat \<Rightarrow> usage_db \<Rightarrow> done_result \<times> usage_db" where
  "markDone now i generation s =
     (case filter (\<lambda>j. tj_id j = i \<and> tj_generation j = generation \<and> tj_status j = Job_inflight \<and> job_ready j s) (db_jobs s) of
        [] \<Rightarrow> (Not_accepted, s)
      | j # _ \<Rightarrow>
          if tj_timezone j \<notin> fst ` set (db_zones s) then (Foreign_key_violation, s)
          else (Accepted, s\<lparr>
            db_jobs := update_job i (\<lambda>j. j\<lparr>tj_status := Job_done, tj_updated := now\<rparr>) (db_jobs s),
            db_coverage := List.insert (job_key j) (db_coverage s)\<rparr>))"

definition markPending :: "instant \<Rightarrow> nat \<Rightarrow> nat \<Rightarrow> usage_db \<Rightarrow> usage_db" where
  "markPending now i generation s = s\<lparr>db_jobs := map (\<lambda>j. if tj_id j = i \<and> tj_generation j = generation \<and> tj_status j = Job_inflight
     then j\<lparr>tj_status := Job_pending, tj_updated := now\<rparr> else j) (db_jobs s)\<rparr>"

text \<open>Deleting the registry row deletes its coverage (\<open>ON DELETE CASCADE\<close>).\<close>

definition disableTimezone :: "instant \<Rightarrow> string \<Rightarrow> usage_db \<Rightarrow> usage_db" where
  "disableTimezone now z s = s\<lparr>
     db_jobs := map (\<lambda>j. if tj_timezone j = z \<and> tj_status j \<noteq> Job_done
       then j\<lparr>tj_status := Job_done, tj_updated := now\<rparr> else j) (db_jobs s),
     db_zones := filter (\<lambda>(z', v). z' \<noteq> z) (db_zones s),
     db_coverage := filter (\<lambda>(r, z', b). z' \<noteq> z) (db_coverage s)\<rparr>"

section \<open>Filling the cache of a job\<close>

definition zone_window_end :: "calendar \<Rightarrow> resolution \<Rightarrow> string \<Rightarrow> instant \<Rightarrow> string + instant" where
  "zone_window_end cal r z b = (case r of Res_hour \<Rightarrow> Inr (b + 3600000) | Res_day \<Rightarrow> cal_js_next_day cal z b)"

definition aggregate_zone :: "calendar \<Rightarrow> resolution \<Rightarrow> string \<Rightarrow> instant \<Rightarrow> usage_db \<Rightarrow> string + (usage_dims \<times> measures) list" where
  "aggregate_zone cal r z b s =
     (case zone_window_end cal r z b of
        Inl e \<Rightarrow> Inl e
      | Inr to_t \<Rightarrow> Inr (group_sum (\<lambda>((k, d), m). d) snd
          (filter (\<lambda>((k, d), m). b \<le> k \<and> k < to_t \<and> cal_ch_start cal r z k = b) (ch_base s))))"

definition delete_zone :: "resolution \<Rightarrow> string \<Rightarrow> instant \<Rightarrow> usage_db \<Rightarrow> usage_db" where
  "delete_zone r z b s = s\<lparr>ch_cache := delete_where (\<lambda>(r', z', b', d). r' = r \<and> z' = z \<and> b' = b) (ch_cache s)\<rparr>"

definition insert_zone :: "resolution \<Rightarrow> string \<Rightarrow> instant \<Rightarrow> (usage_dims \<times> measures) list \<Rightarrow> usage_db \<Rightarrow> usage_db" where
  "insert_zone r z b rows s = s\<lparr>ch_cache := put_rows (map (\<lambda>(d, m). ((r, z, b, d), m)) rows) (ch_cache s)\<rparr>"

section \<open>Retention\<close>

definition CLICKHOUSE_RAW_RETENTION_DAYS :: int where "CLICKHOUSE_RAW_RETENTION_DAYS = 97"

definition delivered_before :: "instant \<Rightarrow> instant option \<Rightarrow> bool" where
  "delivered_before cutoff t = (case t of None \<Rightarrow> False | Some d \<Rightarrow> d < cutoff)"

definition pruneClickHouseUsageRetentionAt :: "instant \<Rightarrow> usage_db \<Rightarrow> (nat \<times> nat \<times> nat) \<times> usage_db" where
  "pruneClickHouseUsageRetentionAt now s =
     (let cutoff = now - CLICKHOUSE_RAW_RETENTION_DAYS * 24 * 60 * 60 * 1000;
          old_batch = (\<lambda>b. ub_status b = Batch_delivered \<and> delivered_before cutoff (ub_delivered b));
          outbox = filter (\<lambda>r. \<not> (delivered_before cutoff (or_delivered r)
                     \<and> (\<exists>b \<in> set (db_batches s). ub_id b = or_batch r \<and> old_batch b))) (db_outbox s);
          batches = filter (\<lambda>b. \<not> (old_batch b \<and> ub_id b \<notin> or_batch ` set outbox)) (db_batches s);
          jobs = filter (\<lambda>j. \<not> (tj_status j = Job_done \<and> tj_updated j < now - 7 * 24 * 60 * 60 * 1000)) (db_jobs s)
      in ((length (db_outbox s) - length outbox, length (db_batches s) - length batches, length (db_jobs s) - length jobs),
          s\<lparr>db_outbox := outbox, db_batches := batches, db_jobs := jobs\<rparr>))"

end
