(* ===== verification/Usage_Sources.thy ===== *)
theory Usage_Sources
  imports Usage_Rollup
begin

text \<open>
  What the dashboards read: \<open>resolveTimeseriesSource\<close> of
  \<open>packages/storage-clickhouse/src/storage.ts\<close> composes a query range from raw rows, 15 minute
  buckets and cached hours or days of a zone. A source is the list of its rows: the instant and the
  dimensions of a row (the start of its bucket, for a rollup) with its measures. Raw rows are read
  with \<open>FINAL\<close> (the option \<open>readFinal\<close>).
\<close>

record usage_query =
  uq_from :: instant
  uq_to :: instant
  uq_provider :: string
  uq_user :: string
  uq_team :: string
  uq_users :: "string list"

type_synonym source_rows = "((instant \<times> usage_dims) \<times> measures) list"

text \<open>\<open>scopedAndFilter\<close>; an absent filter is the empty string or list.\<close>

definition in_scope :: "usage_query \<Rightarrow> usage_dims \<Rightarrow> bool" where
  "in_scope q d \<longleftrightarrow> (uq_provider q = [] \<or> ud_provider d = uq_provider q)
     \<and> (uq_user q = [] \<or> ud_user d = uq_user q) \<and> (uq_team q = [] \<or> ud_team d = uq_team q)
     \<and> (uq_users q = [] \<or> ud_user d \<in> set (uq_users q))"

definition rawSource :: "usage_query \<Rightarrow> usage_db \<Rightarrow> source_rows" where
  "rawSource q s = map (\<lambda>r. ((ur_ts r, ur_dims r), row_measures r))
     (filter (\<lambda>r. uq_from q \<le> ur_ts r \<and> ur_ts r < uq_to q \<and> in_scope q (ur_dims r)) (raw_rows s))"

section \<open>Raw rows and 15 minute buckets\<close>

definition rollupWindow :: "usage_query \<Rightarrow> usage_db \<Rightarrow> (instant \<times> instant) option" where
  "rollupWindow q s =
     (if uq_to q \<le> uq_from q then None
      else
        let rollupFrom = ceilRollupDate (uq_from q) STORAGE_FIFTEEN_MINUTES_MS;
            to0 = floorRollupDate (uq_to q) STORAGE_FIFTEEN_MINUTES_MS
        in if to0 \<le> rollupFrom then None
           else case db_watermark s of
             None \<Rightarrow> None
           | Some current \<Rightarrow>
               let to1 = (if current < to0 then current else to0)
               in if to1 \<le> rollupFrom then None
                  else
                    let to2 = (case filter (\<lambda>b. rollupFrom \<le> b \<and> b < to1) (db_dirty s) of
                                 [] \<Rightarrow> to1
                               | b # bs \<Rightarrow> fold min bs b)
                    in if rollupFrom < to2 then Some (rollupFrom, to2) else None)"

definition rollupSource :: "usage_query \<Rightarrow> usage_db \<Rightarrow> source_rows option" where
  "rollupSource q s =
     (case rollupWindow q s of
        None \<Rightarrow> None
      | Some (rollupFrom, rollupTo) \<Rightarrow> Some
          (rawSource (q\<lparr>uq_to := rollupFrom\<rparr>) s
           @ filter (\<lambda>((b, d), m). rollupFrom \<le> b \<and> b < rollupTo \<and> in_scope q d) (ch_base s)
           @ rawSource (q\<lparr>uq_from := rollupTo\<rparr>) s))"

definition exactTimeseriesSource :: "bool \<Rightarrow> usage_query \<Rightarrow> usage_db \<Rightarrow> source_rows" where
  "exactTimeseriesSource readV2 q s =
     (case (if readV2 then rollupSource q s else None) of None \<Rightarrow> rawSource q s | Some src \<Rightarrow> src)"

section \<open>Cached hours and days\<close>

function advance_hours :: "instant \<Rightarrow> instant \<Rightarrow> instant" where
  "advance_hours cursor from_t = (if cursor < from_t then advance_hours (cursor + 3600000) from_t else cursor)"
  by pat_completeness auto
termination
  by (relation "measure (\<lambda>(cursor, from_t). nat (from_t - cursor))") auto

declare advance_hours.simps [simp del]

definition max_cache_buckets :: "resolution \<Rightarrow> nat" where
  "max_cache_buckets r = (case r of Res_day \<Rightarrow> 400 | Res_hour \<Rightarrow> 400 * 24)"

fun buckets_from :: "calendar \<Rightarrow> resolution \<Rightarrow> string \<Rightarrow> nat \<Rightarrow> instant \<Rightarrow> instant \<Rightarrow> string + (instant \<times> instant) list" where
  "buckets_from cal r z 0 cursor to_t = Inr []"
| "buckets_from cal r z (Suc n) cursor to_t =
     (if cursor < to_t
      then case zone_window_end cal r z cursor of
          Inl e \<Rightarrow> Inl e
        | Inr next_t \<Rightarrow>
            if next_t \<le> cursor \<or> to_t < next_t then Inr []
            else (case buckets_from cal r z n next_t to_t of
                    Inl e \<Rightarrow> Inl e
                  | Inr bs \<Rightarrow> Inr ((cursor, next_t) # bs))
      else Inr [])"

definition timezoneCacheBuckets :: "calendar \<Rightarrow> resolution \<Rightarrow> string \<Rightarrow> usage_query \<Rightarrow> string + (instant \<times> instant) list" where
  "timezoneCacheBuckets cal r z q =
     (if uq_to q \<le> uq_from q then Inr []
      else case cal_js_day_start cal z (uq_from q) of
          Inl e \<Rightarrow> Inl e
        | Inr day \<Rightarrow>
           (case (case r of
                    Res_day \<Rightarrow> if day < uq_from q then cal_js_next_day cal z day else Inr day
                  | Res_hour \<Rightarrow> Inr (advance_hours day (uq_from q))) of
              Inl e \<Rightarrow> Inl e
            | Inr cursor \<Rightarrow> buckets_from cal r z (max_cache_buckets r) cursor (uq_to q)))"

text \<open>The end of the longest run of expected buckets that are cached and up to date.\<close>

fun cached_until :: "instant \<Rightarrow> instant option \<Rightarrow> (instant \<Rightarrow> job_status option) \<Rightarrow> (instant \<Rightarrow> bool) \<Rightarrow>
    (instant \<times> instant) list \<Rightarrow> instant option \<Rightarrow> instant option" where
  "cached_until coveredTo dirtyBucket status covered [] cacheTo = cacheTo"
| "cached_until coveredTo dirtyBucket status covered ((b, e) # bs) cacheTo =
     (if coveredTo < e then cacheTo
      else if (case dirtyBucket of None \<Rightarrow> False | Some d \<Rightarrow> d < e) then cacheTo
      else if \<not> covered b \<or> (case status b of None \<Rightarrow> False | Some st \<Rightarrow> st \<noteq> Job_done) then cacheTo
      else cached_until coveredTo dirtyBucket status covered bs (Some e))"

definition job_status_at :: "resolution \<Rightarrow> string \<Rightarrow> usage_db \<Rightarrow> instant \<Rightarrow> job_status option" where
  "job_status_at r z s b = map_option tj_status (find (\<lambda>j. job_key j = (r, z, b)) (db_jobs s))"

definition readCacheReadySnapshot :: "calendar \<Rightarrow> resolution \<Rightarrow> string \<Rightarrow> usage_query \<Rightarrow> usage_db \<Rightarrow> (instant \<times> instant) option" where
  "readCacheReadySnapshot cal r z q s =
     (case timezoneCacheBuckets cal r z q of
        Inl e \<Rightarrow> None
      | Inr [] \<Rightarrow> None
      | Inr (first # rest) \<Rightarrow>
          if (z, True) \<notin> set (db_zones s) then None
          else (case db_watermark s of
            None \<Rightarrow> None
          | Some coveredTo \<Rightarrow>
             (let expected = first # rest;
                  dirtyBucket = (case filter (\<lambda>b. fst first \<le> b \<and> b < snd (last expected)) (db_dirty s) of
                                   [] \<Rightarrow> None
                                 | b # bs \<Rightarrow> Some (fold min bs b))
              in (case cached_until coveredTo dirtyBucket (job_status_at r z s) (\<lambda>b. (r, z, b) \<in> set (db_coverage s)) expected None of
                    None \<Rightarrow> None
                  | Some cacheTo \<Rightarrow> Some (fst first, cacheTo)))))"

definition timezoneSource :: "resolution \<Rightarrow> string \<Rightarrow> usage_query \<Rightarrow> usage_db \<Rightarrow> source_rows" where
  "timezoneSource r z q s = map (\<lambda>((r', z', b, d), m). ((b, d), m))
     (filter (\<lambda>((r', z', b, d), m). r' = r \<and> z' = z \<and> uq_from q \<le> b \<and> b < uq_to q \<and> in_scope q d) (ch_cache s))"

text \<open>
  \<open>readV2\<close> and \<open>readZone\<close> are the outcomes of \<open>readLayerEnabled\<close>; \<open>zone\<close> is the canonical zone with
  the resolution of the requested bucket, \<open>None\<close> where either is missing.
\<close>

definition resolveTimeseriesSource ::
  "calendar \<Rightarrow> bool \<Rightarrow> bool \<Rightarrow> (resolution \<times> string) option \<Rightarrow> usage_query \<Rightarrow> usage_db \<Rightarrow> source_rows" where
  "resolveTimeseriesSource cal readV2 readZone zone q s =
     (case zone of
        None \<Rightarrow> exactTimeseriesSource readV2 q s
      | Some (r, z) \<Rightarrow>
         (case (if readZone then readCacheReadySnapshot cal r z q s else None) of
            None \<Rightarrow> exactTimeseriesSource readV2 q s
          | Some (cacheFrom, cacheTo) \<Rightarrow>
              (if uq_from q < cacheFrom then exactTimeseriesSource readV2 (q\<lparr>uq_to := cacheFrom\<rparr>) s else [])
              @ timezoneSource r z (q\<lparr>uq_from := cacheFrom, uq_to := cacheTo\<rparr>) s
              @ (if cacheTo < uq_to q then exactTimeseriesSource readV2 (q\<lparr>uq_from := cacheTo\<rparr>) s else [])))"

section \<open>What the sources have to agree with\<close>

text \<open>The content a 15 minute bucket should have, from the raw rows.\<close>

definition exact_base :: "usage_db \<Rightarrow> ((instant \<times> usage_dims) \<times> measures) list" where
  "exact_base s = group_sum base_key row_measures (raw_rows s)"

definition base_accurate :: "usage_db \<Rightarrow> instant \<Rightarrow> bool" where
  "base_accurate s b \<longleftrightarrow> (\<forall>d. map_of (ch_base s) (b, d) = map_of (exact_base s) (b, d))"

definition zone_window :: "calendar \<Rightarrow> resolution \<Rightarrow> string \<Rightarrow> instant \<Rightarrow> instant set" where
  "zone_window cal r z b = {k. aligned k \<and> b \<le> k \<and> k < pg_source_to cal r z b}"

definition exact_zone :: "calendar \<Rightarrow> resolution \<Rightarrow> string \<Rightarrow> instant \<Rightarrow> usage_db \<Rightarrow> (usage_dims \<times> measures) list" where
  "exact_zone cal r z b s = group_sum (\<lambda>((k, d), m). d) snd
     (filter (\<lambda>((k, d), m). b \<le> k \<and> k < pg_source_to cal r z b) (ch_base s))"

definition cache_accurate :: "calendar \<Rightarrow> usage_db \<Rightarrow> resolution \<Rightarrow> string \<Rightarrow> instant \<Rightarrow> bool" where
  "cache_accurate cal s r z b \<longleftrightarrow> (\<forall>d. map_of (ch_cache s) (r, z, b, d) = map_of (exact_zone cal r z b s) d)"

text \<open>
  The calendars of the three engines agree: a local bucket starts and ends on quarter hours of UTC,
  an instant is in the bucket it is truncated to, truncating is constant on a bucket, and the other
  engines give the same starts and ends. This is what a time zone database promises for zones whose
  offset is a multiple of 15 minutes, and, for hours, whose transitions are by whole hours.
\<close>

definition bucket_start :: "calendar \<Rightarrow> resolution \<Rightarrow> string \<Rightarrow> instant \<Rightarrow> bool" where
  "bucket_start cal r z b \<longleftrightarrow> aligned b \<and> cal_trunc cal r z b = b"

definition calendar_agrees :: "calendar \<Rightarrow> bool" where
  "calendar_agrees cal \<longleftrightarrow>
     (\<forall>r z t. cal_trunc cal r z t \<le> t \<and> t < pg_source_to cal r z (cal_trunc cal r z t)
        \<and> aligned (cal_trunc cal r z t) \<and> aligned (pg_source_to cal r z (cal_trunc cal r z t))
        \<and> cal_trunc cal r z (fifteenMinuteBucket t) = cal_trunc cal r z t
        \<and> cal_ch_start cal r z t = cal_trunc cal r z t
        \<and> (\<forall>u. cal_trunc cal r z t \<le> u \<and> u < pg_source_to cal r z (cal_trunc cal r z t)
              \<longrightarrow> cal_trunc cal r z u = cal_trunc cal r z t))
     \<and> (\<forall>z t. cal_js_next_day cal z (cal_trunc cal Res_day z t) = Inr (cal_pg_next_day cal z (cal_trunc cal Res_day z t)))
     \<and> (\<forall>z t. cal_js_day_start cal z t = Inr (cal_trunc cal Res_day z t)
          \<and> cal_trunc cal Res_hour z (cal_trunc cal Res_day z t) = cal_trunc cal Res_day z t)"

text \<open>UTC, where all of this is arithmetic.\<close>

definition utc_length :: "resolution \<Rightarrow> int" where
  "utc_length r = (case r of Res_hour \<Rightarrow> 3600000 | Res_day \<Rightarrow> 86400000)"

definition utc_calendar :: calendar where
  "utc_calendar = \<lparr>cal_trunc = (\<lambda>r z t. t - t mod utc_length r), cal_pg_next_day = (\<lambda>z b. b + 86400000),
     cal_js_next_day = (\<lambda>z b. Inr (b + 86400000)), cal_js_day_start = (\<lambda>z t. Inr (t - t mod 86400000)),
     cal_ch_start = (\<lambda>r z t. t - t mod utc_length r)\<rparr>"

lemma floor_unique:
  fixes a u l :: int
  assumes "0 < l" "l dvd a" "a \<le> u" "u < a + l"
  shows "u - u mod l = a"
proof -
  obtain q where q: "a = l * q" using assms(2) by auto
  have "u div l = q" by (rule int_div_pos_eq [where r = "u - a"]) (use assms q in auto)
  then show ?thesis using q by (simp add: minus_mod_eq_mult_div)
qed

lemma utc_calendar_agrees: "calendar_agrees utc_calendar"
proof -
  have L: "0 < utc_length r" "900000 dvd utc_length r" for r by (cases r; simp add: utc_length_def)+
  have src: "pg_source_to utc_calendar r z b = b + utc_length r" for r z b
    by (cases r) (simp_all add: pg_source_to_def utc_calendar_def utc_length_def)
  have tr: "cal_trunc utc_calendar r z t = t - t mod utc_length r" for r z t by (simp add: utc_calendar_def)
  have dv: "utc_length r dvd t - t mod utc_length r" for r t by (simp add: minus_mod_eq_mult_div)
  have lo: "t - t mod utc_length r \<le> t" "t < t - t mod utc_length r + utc_length r" for r t
    using pos_mod_sign [OF L(1) [of r], of t] pos_mod_bound [OF L(1) [of r], of t] by linarith+
  have al: "aligned (t - t mod utc_length r)" "aligned (t - t mod utc_length r + utc_length r)" for r t
    using dvd_trans [OF L(2) dv] L(2) by (simp_all only: aligned_dvd dvd_add)
  have uniq: "u - u mod utc_length r = t - t mod utc_length r"
    if "t - t mod utc_length r \<le> u" "u < t - t mod utc_length r + utc_length r" for r t u
    by (rule floor_unique [OF L(1) dv that])
  have bucket: "fifteenMinuteBucket t - fifteenMinuteBucket t mod utc_length r = t - t mod utc_length r" for r t
  proof (rule uniq)
    show "t - t mod utc_length r \<le> fifteenMinuteBucket t" using aligned_le_iff [OF al(1), of t r t] lo(1) by blast
    show "fifteenMinuteBucket t < t - t mod utc_length r + utc_length r"
      using bucket_bounds(1) [of t] lo(2) [of t r] by linarith
  qed
  have day: "t - t mod 86400000 = t - t mod utc_length Res_day" for t by (simp add: utc_length_def)
  have hour: "b - b mod utc_length Res_hour = b" if "utc_length Res_day dvd b" for b
  proof -
    have "utc_length Res_hour dvd b" by (rule dvd_trans [OF _ that]) (simp add: utc_length_def)
    then show ?thesis by (simp add: dvd_eq_mod_eq_0)
  qed
  have ch: "cal_ch_start utc_calendar r z t = t - t mod utc_length r" for r z t by (simp add: utc_calendar_def)
  have js: "cal_js_next_day utc_calendar z b = Inr (b + utc_length Res_day)" "cal_pg_next_day utc_calendar z b = b + utc_length Res_day"
    "cal_js_day_start utc_calendar z t = Inr (t - t mod utc_length Res_day)" for z b t
    by (simp_all add: utc_calendar_def utc_length_def)
  show ?thesis
    unfolding calendar_agrees_def src tr ch js
    using lo al uniq bucket hour [OF dv] by blast
qed

end
