(* ===== verification/Usage_Steps.thy ===== *)
theory Usage_Steps
  imports Usage_Sources
begin

text \<open>
  The pipeline as one machine: an event is the next statement or transaction of some process, and
  \<open>step\<close> performs it, or is \<open>None\<close> where the process is not at that point. \<open>calm\<close> marks the steps that do
  not run into one of the races the code leaves open.
\<close>

datatype event =
  Ev_enqueue "assignment list" string instant "finalized_event list"
| Ev_flush_claim nat instant nat
| Ev_flush_read nat
| Ev_flush_raw nat
| Ev_flush_hourly nat
| Ev_flush_commit nat instant
| Ev_flush_fail nat
| Ev_flush_crash nat
| Ev_repair nat price_resolver repair_request
| Ev_replay nat instant instant int
| Ev_reconcile nat reconcile_request
| Ev_change_mark nat
| Ev_change_apply nat
| Ev_change_stop nat
| Ev_compact_begin instant int nat
| Ev_compact_read
| Ev_compact_delete
| Ev_compact_insert
| Ev_compact_commit instant
| Ev_compact_fail
| Ev_register string
| Ev_validate string
| Ev_prewarm instant resolution string "(instant \<times> instant) list"
| Ev_claim nat instant int
| Ev_lock nat instant
| Ev_unsupported nat instant
| Ev_work_read nat
| Ev_work_delete nat
| Ev_work_insert nat
| Ev_done nat instant
| Ev_work_fail nat instant
| Ev_work_crash nat
| Ev_prune instant

definition MAX_ACTIVE_ROLLUP_TIMEZONES :: nat where "MAX_ACTIVE_ROLLUP_TIMEZONES = 64"

text \<open>A process appears in the table of its kind while it runs.\<close>

definition set_process :: "nat \<Rightarrow> 'p option \<Rightarrow> (nat \<times> 'p) list \<Rightarrow> (nat \<times> 'p) list" where
  "set_process i p ps = (case p of None \<Rightarrow> AList.delete i ps | Some x \<Rightarrow> AList.update i x ps)"

lemma map_of_set_process [simp]: "map_of (set_process i p ps) k = (if k = i then p else map_of ps k)"
  by (cases p) (auto simp: set_process_def delete_conv' update_conv')

section \<open>Steps of a flusher\<close>

definition set_flush :: "nat \<Rightarrow> flusher option \<Rightarrow> usage_db \<Rightarrow> usage_db" where
  "set_flush p f s = s\<lparr>pr_flush := set_process p f (pr_flush s)\<rparr>"

definition flush_next :: "flusher \<Rightarrow> flusher option" where
  "flush_next f = (if tl (fl_todo f) = [] then None else Some \<lparr>fl_todo = tl (fl_todo f), fl_rows = [], fl_phase = Fl_claimed\<rparr>)"

definition flush_step :: "event \<Rightarrow> nat \<Rightarrow> flusher \<Rightarrow> usage_db \<Rightarrow> usage_db option" where
  "flush_step ev p f s =
     (case fl_todo f of
        [] \<Rightarrow> None
      | (i, token) # _ \<Rightarrow>
          (case (ev, fl_phase f) of
             (Ev_flush_read _, Fl_claimed) \<Rightarrow>
                Some (set_flush p (Some (f\<lparr>fl_rows := js_sort (\<lambda>a b. cmp_ord (or_dedup a) (or_dedup b))
                        (filter (\<lambda>r. or_batch r = i) (db_outbox s)), fl_phase := Fl_read\<rparr>)) s)
           | (Ev_flush_raw _, Fl_read) \<Rightarrow>
                Some (set_flush p (Some (f\<lparr>fl_phase := Fl_raw\<rparr>)) (insert_raw token (fl_rows f) s))
           | (Ev_flush_hourly _, Fl_raw) \<Rightarrow>
                map_option (set_flush p (Some (f\<lparr>fl_phase := Fl_hourly\<rparr>))) (insert_hourly token (fl_rows f) s)
           | (Ev_flush_commit _ now, Fl_hourly) \<Rightarrow>
                Some (set_flush p (flush_next f) (flush_commit now i (fl_rows f) s))
           | (Ev_flush_fail _, Fl_claimed) \<Rightarrow> None
           | (Ev_flush_fail _, _) \<Rightarrow> Some (set_flush p None (flush_rollback i s))
           | _ \<Rightarrow> None))"

section \<open>Steps of a change of raw rows\<close>

definition set_change :: "nat \<Rightarrow> changer option \<Rightarrow> usage_db \<Rightarrow> usage_db" where
  "set_change q c s = s\<lparr>pr_change := set_process q c (pr_change s)\<rparr>"

definition apply_change :: "changer \<Rightarrow> usage_db \<Rightarrow> usage_db" where
  "apply_change c s =
     (case cg_token c of
        None \<Rightarrow> change_raw (cg_change c) s
      | Some t \<Rightarrow> if t \<in> set (ch_tokens s) then s
                  else (change_raw (cg_change c) s)\<lparr>ch_tokens := t # ch_tokens s\<rparr>)"

definition change_step :: "event \<Rightarrow> nat \<Rightarrow> changer \<Rightarrow> usage_db \<Rightarrow> usage_db option" where
  "change_step ev q c s =
     (case (ev, cg_phase c) of
        (Ev_change_mark _, Ch_begun) \<Rightarrow> Some (set_change q (Some (c\<lparr>cg_phase := Ch_marked\<rparr>)) (mark15mRollupDirty (cg_times c) s))
      | (Ev_change_apply _, Ch_marked) \<Rightarrow> Some (set_change q (Some (c\<lparr>cg_phase := Ch_applied\<rparr>)) (apply_change c s))
      | (Ev_change_mark _, Ch_applied) \<Rightarrow> Some (set_change q None (mark15mRollupDirty (cg_times c) s))
      | _ \<Rightarrow> None)"

section \<open>Steps of the compactor\<close>

text \<open>The advisory lock \<open>rollup:usage_15m_v2\<close> admits one compaction at a time.\<close>

definition compact_step :: "calendar \<Rightarrow> event \<Rightarrow> compaction \<Rightarrow> usage_db \<Rightarrow> usage_db option" where
  "compact_step cal ev c s =
     (case (ev, cp_phase c) of
        (Ev_compact_read, Cp_planned) \<Rightarrow>
           Some (s\<lparr>pr_compact := Some (c\<lparr>cp_rows := aggregateRollupBuckets (cp_buckets c) s, cp_phase := Cp_read\<rparr>)\<rparr>)
      | (Ev_compact_delete, Cp_read) \<Rightarrow>
           Some ((deleteRollupBuckets (cp_dirty c) s)\<lparr>pr_compact := Some (c\<lparr>cp_phase := Cp_deleted\<rparr>)\<rparr>)
      | (Ev_compact_insert, Cp_deleted) \<Rightarrow>
           Some (s\<lparr>ch_base := put_rows (cp_rows c) (ch_base s), pr_compact := Some (c\<lparr>cp_phase := Cp_inserted\<rparr>)\<rparr>)
      | (Ev_compact_commit now, Cp_inserted) \<Rightarrow> Some (commit_compaction cal now c s)
      | (Ev_compact_fail, _) \<Rightarrow> Some (s\<lparr>pr_compact := None\<rparr>)
      | _ \<Rightarrow> None)"

section \<open>Steps of a timezone worker\<close>

definition set_work :: "nat \<Rightarrow> worker option \<Rightarrow> usage_db \<Rightarrow> usage_db" where
  "set_work w k s = s\<lparr>pr_work := set_process w k (pr_work s)\<rparr>"

definition work_next :: "worker \<Rightarrow> worker option" where
  "work_next k = (if tl (wk_todo k) = [] then None else Some \<lparr>wk_todo = tl (wk_todo k), wk_rows = [], wk_phase = Wk_claimed\<rparr>)"

text \<open>The session lock \<open>timezone-rollup:<resolution>:<timezone>\<close> is held while the cache is filled.\<close>

definition holds_lock :: "worker_phase \<Rightarrow> bool" where
  "holds_lock ph \<longleftrightarrow> ph \<in> {Wk_locked, Wk_read, Wk_deleted}"

definition lock_taken :: "zone_job \<Rightarrow> usage_db \<Rightarrow> bool" where
  "lock_taken j s \<longleftrightarrow> (\<exists>w \<in> set (map fst (pr_work s)).
     case map_of (pr_work s) w of
       None \<Rightarrow> False
     | Some k \<Rightarrow> holds_lock (wk_phase k) \<and> wk_todo k \<noteq> []
         \<and> tj_resolution (hd (wk_todo k)) = tj_resolution j \<and> tj_timezone (hd (wk_todo k)) = tj_timezone j)"

definition finish_job :: "instant \<Rightarrow> nat \<Rightarrow> worker \<Rightarrow> usage_db \<Rightarrow> usage_db" where
  "finish_job now w k s =
     (let j = hd (wk_todo k);
          (result, s1) = markDone now (tj_id j) (tj_generation j) s
      in set_work w (work_next k) (if result = Accepted then s1 else markPending now (tj_id j) (tj_generation j) s1))"

definition work_step :: "calendar \<Rightarrow> event \<Rightarrow> nat \<Rightarrow> worker \<Rightarrow> zone_job \<Rightarrow> usage_db \<Rightarrow> usage_db option" where
  "work_step cal ev w k j s =
     (case (ev, wk_phase k) of
        (Ev_unsupported _ now, Wk_claimed) \<Rightarrow> Some (set_work w (work_next k) (disableTimezone now (tj_timezone j) s))
      | (Ev_lock _ now, Wk_claimed) \<Rightarrow>
           Some (if lock_taken j s then set_work w (work_next k) (markPending now (tj_id j) (tj_generation j) s)
                 else set_work w (Some (k\<lparr>wk_phase := Wk_locked\<rparr>)) s)
      | (Ev_work_read _, Wk_locked) \<Rightarrow>
           (case aggregate_zone cal (tj_resolution j) (tj_timezone j) (tj_bucket j) s of
              Inl e \<Rightarrow> None
            | Inr rows \<Rightarrow> Some (set_work w (Some (k\<lparr>wk_rows := rows, wk_phase := Wk_read\<rparr>)) s))
      | (Ev_work_delete _, Wk_read) \<Rightarrow>
           Some (set_work w (Some (k\<lparr>wk_phase := Wk_deleted\<rparr>)) (delete_zone (tj_resolution j) (tj_timezone j) (tj_bucket j) s))
      | (Ev_work_insert _, Wk_deleted) \<Rightarrow>
           Some (set_work w (Some (k\<lparr>wk_phase := Wk_written\<rparr>))
             (insert_zone (tj_resolution j) (tj_timezone j) (tj_bucket j) (wk_rows k) s))
      | (Ev_done _ now, Wk_written) \<Rightarrow> Some (finish_job now w k s)
      | (Ev_work_fail _ now, _) \<Rightarrow> Some (set_work w (work_next k) (markPending now (tj_id j) (tj_generation j) s))
      | _ \<Rightarrow> None)"

section \<open>The machine\<close>

definition start_change :: "nat \<Rightarrow> changer option \<Rightarrow> usage_db \<Rightarrow> usage_db option" where
  "start_change q c s = (if map_of (pr_change s) q \<noteq> None then None else Some (set_change q c s))"

definition on_flusher :: "event \<Rightarrow> nat \<Rightarrow> usage_db \<Rightarrow> usage_db option" where
  "on_flusher ev p s = (case map_of (pr_flush s) p of None \<Rightarrow> None | Some f \<Rightarrow> flush_step ev p f s)"

definition on_changer :: "event \<Rightarrow> nat \<Rightarrow> usage_db \<Rightarrow> usage_db option" where
  "on_changer ev q s = (case map_of (pr_change s) q of None \<Rightarrow> None | Some c \<Rightarrow> change_step ev q c s)"

definition on_compactor :: "calendar \<Rightarrow> event \<Rightarrow> usage_db \<Rightarrow> usage_db option" where
  "on_compactor cal ev s = (case pr_compact s of None \<Rightarrow> None | Some c \<Rightarrow> compact_step cal ev c s)"

definition on_worker :: "calendar \<Rightarrow> event \<Rightarrow> nat \<Rightarrow> usage_db \<Rightarrow> usage_db option" where
  "on_worker cal ev w s =
     (case map_of (pr_work s) w of
        None \<Rightarrow> None
      | Some k \<Rightarrow> (case wk_todo k of [] \<Rightarrow> None | j # _ \<Rightarrow> work_step cal ev w k j s))"

fun step :: "calendar \<Rightarrow> event \<Rightarrow> usage_db \<Rightarrow> usage_db option" where
  "step cal (Ev_enqueue assignments token now events) s = Some (snd (enqueueUsageEvents assignments token now events s))"
| "step cal (Ev_flush_claim p now limit) s =
     (if map_of (pr_flush s) p \<noteq> None then None
      else let (f, s1) = flush_claim now limit s in Some (set_flush p (if fl_todo f = [] then None else Some f) s1))"
| "step cal (Ev_flush_read p) s = on_flusher (Ev_flush_read p) p s"
| "step cal (Ev_flush_raw p) s = on_flusher (Ev_flush_raw p) p s"
| "step cal (Ev_flush_hourly p) s = on_flusher (Ev_flush_hourly p) p s"
| "step cal (Ev_flush_commit p now) s = on_flusher (Ev_flush_commit p now) p s"
| "step cal (Ev_flush_fail p) s = on_flusher (Ev_flush_fail p) p s"
| "step cal (Ev_flush_crash p) s = Some (set_flush p None s)"
| "step cal (Ev_repair q resolver request) s = start_change q (repairPricingUsage resolver request s) s"
| "step cal (Ev_replay q from_t to_t limit) s = start_change q (reconcileCodexReplayUsage from_t to_t limit s) s"
| "step cal (Ev_reconcile q request) s =
     (let (c, s1) = reconcileUsageEvents request s in if map_of (pr_change s) q \<noteq> None then None else start_change q c s1)"
| "step cal (Ev_change_mark q) s = on_changer (Ev_change_mark q) q s"
| "step cal (Ev_change_apply q) s = on_changer (Ev_change_apply q) q s"
| "step cal (Ev_change_stop q) s = Some (set_change q None s)"
| "step cal (Ev_compact_begin now delayMs maxBuckets) s =
     (if pr_compact s \<noteq> None \<or> maxBuckets < 1 \<or> 256 < maxBuckets then None
      else Some (begin_compaction (floorRollupDate (now - delayMs) STORAGE_FIFTEEN_MINUTES_MS) maxBuckets s))"
| "step cal Ev_compact_read s = on_compactor cal Ev_compact_read s"
| "step cal Ev_compact_delete s = on_compactor cal Ev_compact_delete s"
| "step cal Ev_compact_insert s = on_compactor cal Ev_compact_insert s"
| "step cal (Ev_compact_commit now) s = on_compactor cal (Ev_compact_commit now) s"
| "step cal Ev_compact_fail s = on_compactor cal Ev_compact_fail s"
| "step cal (Ev_register z) s = Some (snd (ensureRegisteredTimezone z MAX_ACTIVE_ROLLUP_TIMEZONES s))"
| "step cal (Ev_validate z) s = Some (validate_zone z s)"
| "step cal (Ev_prewarm now r z windows) s = Some (snd (prewarmMissingJobs now r z windows s))"
| "step cal (Ev_claim w now limit) s =
     (if map_of (pr_work s) w \<noteq> None then None
      else let (js, s1) = claimJobs now limit s
           in Some (set_work w (if js = [] then None else Some \<lparr>wk_todo = js, wk_rows = [], wk_phase = Wk_claimed\<rparr>) s1))"
| "step cal (Ev_lock w now) s = on_worker cal (Ev_lock w now) w s"
| "step cal (Ev_unsupported w now) s = on_worker cal (Ev_unsupported w now) w s"
| "step cal (Ev_work_read w) s = on_worker cal (Ev_work_read w) w s"
| "step cal (Ev_work_delete w) s = on_worker cal (Ev_work_delete w) w s"
| "step cal (Ev_work_insert w) s = on_worker cal (Ev_work_insert w) w s"
| "step cal (Ev_done w now) s = on_worker cal (Ev_done w now) w s"
| "step cal (Ev_work_fail w now) s = on_worker cal (Ev_work_fail w now) w s"
| "step cal (Ev_work_crash w) s = Some (set_work w None s)"
| "step cal (Ev_prune now) s = Some (snd (pruneClickHouseUsageRetentionAt now s))"

section \<open>Calm runs\<close>

text \<open>
  A mark that lands while a compaction has read its buckets and not yet committed must find the rows
  it read still matching the raw rows: the commit deletes the mark.
\<close>

definition calm_mark :: "instant list \<Rightarrow> usage_db \<Rightarrow> bool" where
  "calm_mark ts s \<longleftrightarrow>
     (case pr_compact s of
        None \<Rightarrow> True
      | Some c \<Rightarrow> cp_phase c = Cp_planned
          \<or> (\<forall>b \<in> fifteenMinuteBucket ` set ts \<inter> set (cp_buckets c).
               \<forall>k \<in> fst ` (set (cp_rows c) \<union> set (exact_base s)). fst k = b \<longrightarrow> map_of (cp_rows c) k = map_of (exact_base s) k))"

text \<open>The 400 day horizon does not cut into unprocessed time, and the first compaction starts empty.\<close>

definition calm_begin :: "instant \<Rightarrow> usage_db \<Rightarrow> bool" where
  "calm_begin eligibleTo s \<longleftrightarrow>
     (case db_watermark s of
        Some w \<Rightarrow> eligibleTo - V2_ROLLUP_RETENTION_MS \<le> w
      | None \<Rightarrow> ch_base s = [] \<and> (\<forall>r \<in> set (raw_rows s). eligibleTo - V2_ROLLUP_RETENTION_MS \<le> row_bucket r))"

text \<open>What is left of the planned buckets after the deletion is overwritten by the insert.\<close>

definition calm_insert :: "compaction \<Rightarrow> usage_db \<Rightarrow> bool" where
  "calm_insert c s \<longleftrightarrow> (\<forall>k \<in> fst ` set (ch_base s). fst k \<in> set (cp_buckets c) \<longrightarrow> k \<in> fst ` set (cp_rows c))"

text \<open>A worker past its lock: its cache rows are being or have been written, and its job is not settled.\<close>

definition working :: "worker \<Rightarrow> bool" where
  "working k \<longleftrightarrow> wk_phase k \<noteq> Wk_claimed \<and> wk_todo k \<noteq> []"

text \<open>
  The lock is taken for a job that is still the one that was claimed, and no other worker is between
  its lock and its \<open>markDone\<close> for the same bucket.
\<close>

definition calm_lock :: "nat \<Rightarrow> zone_job \<Rightarrow> usage_db \<Rightarrow> bool" where
  "calm_lock w j s \<longleftrightarrow>
     (\<exists>j' \<in> set (db_jobs s). tj_id j' = tj_id j \<and> tj_generation j' = tj_generation j \<and> tj_status j' = Job_inflight)
     \<and> (\<forall>w' \<in> set (map fst (pr_work s)). w' \<noteq> w \<longrightarrow>
          (case map_of (pr_work s) w' of None \<Rightarrow> True | Some k \<Rightarrow> working k \<longrightarrow> job_key (hd (wk_todo k)) \<noteq> job_key j))"

fun calm :: "calendar \<Rightarrow> event \<Rightarrow> usage_db \<Rightarrow> bool" where
  "calm cal (Ev_flush_commit p now) s =
     (case map_of (pr_flush s) p of None \<Rightarrow> True | Some f \<Rightarrow> calm_mark (map or_ts (fl_rows f)) s)"
| "calm cal (Ev_change_mark q) s =
     (case map_of (pr_change s) q of None \<Rightarrow> True | Some c \<Rightarrow> calm_mark (cg_times c) s)"
| "calm cal (Ev_compact_begin now delayMs maxBuckets) s = calm_begin (floorRollupDate (now - delayMs) STORAGE_FIFTEEN_MINUTES_MS) s"
| "calm cal Ev_compact_insert s = (case pr_compact s of None \<Rightarrow> True | Some c \<Rightarrow> calm_insert c s)"
| "calm cal (Ev_register z) s =
     (\<forall>w \<in> set (map fst (pr_work s)).
        case map_of (pr_work s) w of None \<Rightarrow> True | Some k \<Rightarrow> working k \<longrightarrow> tj_timezone (hd (wk_todo k)) \<noteq> z)"
| "calm cal (Ev_prewarm now r z windows) s = (\<forall>(b, e) \<in> set windows. bucket_start cal r z b \<and> e = pg_source_to cal r z b)"
| "calm cal (Ev_lock w now) s =
     (case map_of (pr_work s) w of None \<Rightarrow> True | Some k \<Rightarrow> lock_taken (hd (wk_todo k)) s \<or> calm_lock w (hd (wk_todo k)) s)"
| "calm cal _ s = True"

fun run :: "calendar \<Rightarrow> event list \<Rightarrow> usage_db \<Rightarrow> usage_db option" where
  "run cal [] s = Some s"
| "run cal (e # es) s = (case step cal e s of None \<Rightarrow> None | Some s' \<Rightarrow> run cal es s')"

inductive reachable :: "calendar \<Rightarrow> usage_db \<Rightarrow> bool" for cal where
  start: "reachable cal empty_db"
| step: "reachable cal s \<Longrightarrow> step cal e s = Some s' \<Longrightarrow> calm cal e s \<Longrightarrow> reachable cal s'"

end
