(* ===== verification/Usage_Base_Proofs.thy ===== *)
theory Usage_Base_Proofs
  imports Usage_Steps
begin

text \<open>
  The invariant of the 15 minute rollup: below the watermark, a bucket that is not dirty and whose raw
  rows have not changed since they were last marked holds exactly the grouped sums of its raw rows.
  It is kept by every calm step.
\<close>

section \<open>What a step leaves alone\<close>

lemma filter_update_other:
  assumes "\<And>x. (k, x) \<in> set m \<Longrightarrow> \<not> P (k, x)" "\<not> P (k, v)"
  shows "filter P (AList.update k v m) = filter P m"
  using assms by (induction m) auto

lemma filter_put_rows_other:
  assumes "\<And>kr. kr \<in> set rows \<Longrightarrow> \<not> P kr" "\<And>kr. kr \<in> set m \<Longrightarrow> fst kr \<in> fst ` set rows \<Longrightarrow> \<not> P kr"
  shows "filter P (put_rows rows m) = filter P m"
  using assms
proof (induction rows arbitrary: m)
  case Nil
  then show ?case by simp
next
  case (Cons r rows)
  obtain k v where r: "r = (k, v)" by (cases r)
  have one: "filter P (AList.update k v m) = filter P m"
    by (rule filter_update_other) (use Cons.prems r in force)+
  have "filter P (put_rows rows (AList.update k v m)) = filter P (AList.update k v m)"
  proof (rule Cons.IH)
    show "\<not> P kr" if "kr \<in> set rows" for kr using Cons.prems(1) that by simp
    show "\<not> P kr" if a: "kr \<in> set (AList.update k v m)" "fst kr \<in> fst ` set rows" for kr
    proof (cases "kr = (k, v)")
      case True
      then show ?thesis using Cons.prems(1) r by simp
    next
      case False
      have "kr \<in> set m" using in_update [OF a(1)] False by blast
      then show ?thesis using Cons.prems(2) a(2) by simp
    qed
  qed
  then show ?case using one r by (simp add: put_rows_def)
qed

definition rows_in :: "instant \<Rightarrow> usage_db \<Rightarrow> usage_row list" where
  "rows_in b s = filter (\<lambda>r. row_bucket r = b) (raw_rows s)"

lemma rows_in_change_raw:
  assumes "b \<notin> set (touched_buckets c (ch_raw s))"
  shows "rows_in b (change_raw c s) = rows_in b s"
proof -
  let ?P = "\<lambda>kr. row_bucket (snd kr) = b"
  have fresh: "\<not> ?P kr" if "kr \<in> set (replacements_of c)" for kr
    using assms that by (auto simp: touched_buckets_def)
  have old: "\<not> ?P kr" if "kr \<in> set (ch_raw s)" "fst kr \<in> fst ` set (replacements_of c) \<or> removes c kr" for kr
    using assms that by (auto simp: touched_buckets_def)
  have "filter ?P (put_rows (replacements_of c) (filter (\<lambda>kr. \<not> removes c kr) (ch_raw s)))
      = filter ?P (filter (\<lambda>kr. \<not> removes c kr) (ch_raw s))"
    by (rule filter_put_rows_other) (use fresh old in auto)
  also have "\<dots> = filter ?P (ch_raw s)"
    unfolding filter_filter by (rule filter_cong [OF refl]) (use old in auto)
  finally show ?thesis by (simp add: rows_in_def change_raw_def filter_map o_def)
qed

section \<open>The exact content of a bucket\<close>

lemma map_of_exact_base:
  "map_of (exact_base s) (b, d) =
     (let rs = filter (\<lambda>r. ur_dims r = d) (rows_in b s)
      in if rs = [] then None else Some (sum_list (map row_measures rs)))"
proof -
  have "filter (\<lambda>r. base_key r = (b, d)) (raw_rows s) = filter (\<lambda>r. ur_dims r = d) (rows_in b s)"
    unfolding rows_in_def filter_filter by (rule filter_cong [OF refl]) (auto simp: base_key_def)
  then show ?thesis by (simp add: exact_base_def map_of_group_sum_filter Let_def)
qed

lemma exact_base_cong: "rows_in b s' = rows_in b s \<Longrightarrow> map_of (exact_base s') (b, d) = map_of (exact_base s) (b, d)"
  by (simp add: map_of_exact_base)

lemma aggregate_keys:
  assumes "k \<in> fst ` set (aggregateRollupBuckets bs s)"
  shows "fst k \<in> set bs"
  using assms by (auto simp only: aggregateRollupBuckets_def Let_def keys_group_sum base_key_def split: if_splits) auto

lemma keyed_aggregate [simp]: "distinct_keys (aggregateRollupBuckets bs s)"
  by (simp add: aggregateRollupBuckets_def Let_def)

lemma sorted_hd_last:
  fixes xs :: "int list"
  assumes "sorted xs" "x \<in> set xs"
  shows "hd xs \<le> x" "x \<le> last xs"
proof -
  show "hd xs \<le> x" using assms by (cases xs) auto
  show "x \<le> last xs" using assms
  proof (induction xs)
    case (Cons a xs)
    then show ?case by (cases "xs = []") (auto intro: order_trans dest: last_in_set)
  qed simp
qed

lemma map_of_aggregate:
  assumes "b \<in> set bs"
  shows "map_of (aggregateRollupBuckets bs s) (b, d) = map_of (exact_base s) (b, d)"
proof -
  define sorted_bs where "sorted_bs = js_sort (\<lambda>a b. a - b) bs"
  have so: "sorted sorted_bs" "set sorted_bs = set bs"
    using by_int_key.sorted_js_sort [of "\<lambda>x. x" bs] by (simp_all add: sorted_bs_def)
  let ?sel = "\<lambda>r. hd sorted_bs \<le> ur_ts r \<and> ur_ts r < last sorted_bs + STORAGE_FIFTEEN_MINUTES_MS \<and> row_bucket r \<in> set sorted_bs"
  have sel: "?sel r" if "row_bucket r = b" for r
    using sorted_hd_last [OF so(1), of b] so(2) assms that bucket_bounds [of "ur_ts r"]
    by (auto simp: row_bucket_def STORAGE_FIFTEEN_MINUTES_MS_def)
  have "filter (\<lambda>r. base_key r = (b, d)) (filter ?sel (raw_rows s)) = filter (\<lambda>r. base_key r = (b, d)) (raw_rows s)"
    unfolding filter_filter by (rule filter_cong [OF refl]) (use sel in \<open>auto simp: base_key_def\<close>)
  moreover have "bs \<noteq> []" using assms by auto
  ultimately show ?thesis
    unfolding aggregateRollupBuckets_def exact_base_def Let_def sorted_bs_def [symmetric]
    by (simp add: map_of_group_sum_filter)
qed

section \<open>The invariant\<close>

definition horizon :: "usage_db \<Rightarrow> instant option" where
  "horizon s = (case db_watermark s of Some w \<Rightarrow> Some w | None \<Rightarrow> map_option cp_watermark (pr_compact s))"

definition plan_sound :: "usage_db \<Rightarrow> compaction \<Rightarrow> bool" where
  "plan_sound s c \<longleftrightarrow> set (cp_dirty c) \<subseteq> set (db_dirty s) \<and> aligned (cp_watermark c)
     \<and> (\<forall>w. db_watermark s = Some w \<longrightarrow> w = cp_watermark c)"

definition plan_contiguous :: "compaction \<Rightarrow> bool" where
  "plan_contiguous c \<longleftrightarrow> (\<forall>b. b \<in> set (cp_contiguous c) \<longleftrightarrow> aligned b \<and> cp_watermark c \<le> b \<and> b < cp_new_watermark c)"

definition plan_rows :: "compaction \<Rightarrow> bool" where
  "plan_rows c \<longleftrightarrow> distinct_keys (cp_rows c) \<and> (\<forall>k \<in> fst ` set (cp_rows c). fst k \<in> set (cp_buckets c))"

definition plan_read :: "usage_db \<Rightarrow> compaction \<Rightarrow> bool" where
  "plan_read s c \<longleftrightarrow> (\<forall>b d. cp_phase c \<noteq> Cp_planned \<longrightarrow> b \<in> set (cp_buckets c) \<longrightarrow> b \<notin> set (gh_unmarked s) \<longrightarrow>
     map_of (cp_rows c) (b, d) = map_of (exact_base s) (b, d))"

definition plan_inserted :: "usage_db \<Rightarrow> compaction \<Rightarrow> bool" where
  "plan_inserted s c \<longleftrightarrow> (\<forall>b d. cp_phase c = Cp_inserted \<longrightarrow> b \<in> set (cp_buckets c) \<longrightarrow>
     map_of (ch_base s) (b, d) = map_of (cp_rows c) (b, d))"

definition compaction_inv :: "usage_db \<Rightarrow> compaction \<Rightarrow> bool" where
  "compaction_inv s c \<longleftrightarrow> plan_sound s c \<and> plan_contiguous c \<and> plan_rows c \<and> plan_read s c \<and> plan_inserted s c"

definition aligned_inv :: "usage_db \<Rightarrow> bool" where
  "aligned_inv s \<longleftrightarrow> (\<forall>w. db_watermark s = Some w \<longrightarrow> aligned w) \<and> (\<forall>b \<in> set (db_dirty s). aligned b)
     \<and> distinct_keys (ch_base s) \<and> (\<forall>k \<in> fst ` set (ch_base s). aligned (fst k))"

definition accurate_inv :: "usage_db \<Rightarrow> bool" where
  "accurate_inv s \<longleftrightarrow> (\<forall>h b. horizon s = Some h \<longrightarrow> aligned b \<longrightarrow> b < h \<longrightarrow> b \<notin> set (db_dirty s) \<longrightarrow> b \<notin> set (gh_unmarked s)
     \<longrightarrow> base_accurate s b)"

definition base_inv :: "usage_db \<Rightarrow> bool" where
  "base_inv s \<longleftrightarrow> aligned_inv s \<and> accurate_inv s \<and> (\<forall>c. pr_compact s = Some c \<longrightarrow> compaction_inv s c)"

lemma accurate_invD:
  "accurate_inv s \<Longrightarrow> horizon s = Some h \<Longrightarrow> aligned b \<Longrightarrow> b < h \<Longrightarrow> b \<notin> set (db_dirty s) \<Longrightarrow> b \<notin> set (gh_unmarked s)
     \<Longrightarrow> base_accurate s b"
  unfolding accurate_inv_def by blast

lemma accurate_invI:
  "(\<And>h b. horizon s = Some h \<Longrightarrow> aligned b \<Longrightarrow> b < h \<Longrightarrow> b \<notin> set (db_dirty s) \<Longrightarrow> b \<notin> set (gh_unmarked s) \<Longrightarrow> base_accurate s b)
     \<Longrightarrow> accurate_inv s"
  unfolding accurate_inv_def by blast

lemma plan_readD:
  "plan_read s c \<Longrightarrow> cp_phase c \<noteq> Cp_planned \<Longrightarrow> b \<in> set (cp_buckets c) \<Longrightarrow> b \<notin> set (gh_unmarked s)
     \<Longrightarrow> map_of (cp_rows c) (b, d) = map_of (exact_base s) (b, d)"
  unfolding plan_read_def by blast

lemma plan_readI:
  "(\<And>b d. cp_phase c \<noteq> Cp_planned \<Longrightarrow> b \<in> set (cp_buckets c) \<Longrightarrow> b \<notin> set (gh_unmarked s)
     \<Longrightarrow> map_of (cp_rows c) (b, d) = map_of (exact_base s) (b, d)) \<Longrightarrow> plan_read s c"
  unfolding plan_read_def by blast

lemma base_invE:
  assumes "base_inv s"
  obtains "aligned_inv s" "accurate_inv s" "\<And>c. pr_compact s = Some c \<Longrightarrow> compaction_inv s c"
  using assms unfolding base_inv_def by blast

lemma compaction_invE:
  assumes "compaction_inv s c"
  obtains "plan_sound s c" "plan_contiguous c" "plan_rows c" "plan_read s c" "plan_inserted s c"
  using assms unfolding compaction_inv_def by blast

lemma cp_buckets_set [simp]: "set (cp_buckets c) = set (cp_contiguous c) \<union> set (cp_dirty c)"
  by (simp add: cp_buckets_def)

text \<open>The parts of the state it speaks of.\<close>

definition base_view :: "usage_db \<Rightarrow> _" where
  "base_view s = (db_watermark s, db_dirty s, ch_base s, ch_raw s, gh_unmarked s, pr_compact s)"

lemma base_inv_frame:
  assumes "base_view s' = base_view s" "base_inv s"
  shows "base_inv s'"
proof -
  have e: "db_watermark s' = db_watermark s" "db_dirty s' = db_dirty s" "ch_base s' = ch_base s" "ch_raw s' = ch_raw s"
    "gh_unmarked s' = gh_unmarked s" "pr_compact s' = pr_compact s"
    using assms(1) by (simp_all add: base_view_def)
  have h: "horizon s' = horizon s" by (simp only: horizon_def e)
  have x: "exact_base s' = exact_base s" by (simp only: exact_base_def e)
  show ?thesis using assms(2)
    unfolding base_inv_def compaction_inv_def aligned_inv_def accurate_inv_def plan_sound_def plan_read_def
      plan_inserted_def base_accurate_def e h x .
qed

section \<open>Raw rows change\<close>

lemma base_inv_change_raw:
  assumes "base_inv s"
  shows "base_inv (change_raw c s)"
proof -
  let ?s = "change_raw c s"
  have same: "db_watermark ?s = db_watermark s" "db_dirty ?s = db_dirty s" "ch_base ?s = ch_base s" "pr_compact ?s = pr_compact s"
    "horizon ?s = horizon s"
    by (simp_all add: change_raw_def horizon_def split: option.split)
  have marks: "b \<notin> set (gh_unmarked s)" "b \<notin> set (touched_buckets c (ch_raw s))" if "b \<notin> set (gh_unmarked ?s)" for b
    using that by (simp_all add: change_raw_def)
  have ex: "map_of (exact_base ?s) (b, d) = map_of (exact_base s) (b, d)" if "b \<notin> set (gh_unmarked ?s)" for b d
    using exact_base_cong [OF rows_in_change_raw] marks [OF that] by blast
  from assms show ?thesis
  proof (rule base_invE)
    assume al: "aligned_inv s" and ac: "accurate_inv s" and ci: "\<And>c. pr_compact s = Some c \<Longrightarrow> compaction_inv s c"
    have "aligned_inv ?s" using al by (simp add: aligned_inv_def same)
    moreover have "accurate_inv ?s"
    proof (rule accurate_invI, unfold same)
      fix h b assume h: "horizon s = Some h" "aligned b" "b < h" "b \<notin> set (db_dirty s)" "b \<notin> set (gh_unmarked ?s)"
      show "base_accurate ?s b"
        using accurate_invD [OF ac h(1-4) marks(1) [OF h(5)]] ex [OF h(5)] by (simp add: base_accurate_def same)
    qed
    moreover have "compaction_inv ?s cp" if "pr_compact ?s = Some cp" for cp
      using ci [OF that [unfolded same]]
    proof (rule compaction_invE)
      assume p: "plan_sound s cp" "plan_contiguous cp" "plan_rows cp" "plan_read s cp" "plan_inserted s cp"
      have "plan_read ?s cp"
      proof (rule plan_readI)
        fix b d assume h: "cp_phase cp \<noteq> Cp_planned" "b \<in> set (cp_buckets cp)" "b \<notin> set (gh_unmarked ?s)"
        show "map_of (cp_rows cp) (b, d) = map_of (exact_base ?s) (b, d)"
          using plan_readD [OF p(4) h(1,2) marks(1) [OF h(3)]] ex [OF h(3)] by simp
      qed
      then show ?thesis using p by (simp add: compaction_inv_def plan_sound_def plan_inserted_def same)
    qed
    ultimately show ?thesis by (simp add: base_inv_def)
  qed
qed

section \<open>Buckets are marked\<close>

lemma calm_markD:
  assumes "calm_mark ts s" "pr_compact s = Some c" "cp_phase c \<noteq> Cp_planned" "b \<in> fifteenMinuteBucket ` set ts"
    "b \<in> set (cp_buckets c)"
  shows "map_of (cp_rows c) (b, d) = map_of (exact_base s) (b, d)"
proof (rule ccontr)
  assume ne: "map_of (cp_rows c) (b, d) \<noteq> map_of (exact_base s) (b, d)"
  then have k: "(b, d) \<in> fst ` (set (cp_rows c) \<union> set (exact_base s))"
    by (metis image_Un keys_iff UnI1 UnI2)
  have "\<forall>b \<in> fifteenMinuteBucket ` set ts \<inter> set (cp_buckets c).
       \<forall>k \<in> fst ` (set (cp_rows c) \<union> set (exact_base s)). fst k = b \<longrightarrow> map_of (cp_rows c) k = map_of (exact_base s) k"
    using assms(1-3) by (simp add: calm_mark_def)
  from bspec [OF bspec [OF this] k] assms(4,5) ne show False by simp
qed

lemma base_inv_mark:
  assumes "base_inv s" "calm_mark ts s"
  shows "base_inv (mark15mRollupDirty ts s)"
proof -
  let ?s = "mark15mRollupDirty ts s"
  have same: "db_watermark ?s = db_watermark s" "ch_base ?s = ch_base s" "pr_compact ?s = pr_compact s"
    "horizon ?s = horizon s" "exact_base ?s = exact_base s"
    by (simp_all add: mark15mRollupDirty_def horizon_def Let_def exact_base_def split: option.split)
  have dirty: "set (db_dirty ?s) = set (db_dirty s) \<union> fifteenMinuteBucket ` set ts"
    by (auto simp: mark15mRollupDirty_def Let_def)
  have unm: "b \<notin> set (gh_unmarked s) \<or> b \<in> fifteenMinuteBucket ` set ts" if "b \<notin> set (gh_unmarked ?s)" for b
    using that by (auto simp: mark15mRollupDirty_def Let_def)
  from assms(1) show ?thesis
  proof (rule base_invE)
    assume al: "aligned_inv s" and ac: "accurate_inv s" and ci: "\<And>c. pr_compact s = Some c \<Longrightarrow> compaction_inv s c"
    have "aligned_inv ?s" using al by (auto simp: aligned_inv_def same dirty)
    moreover have "accurate_inv ?s"
    proof (rule accurate_invI, unfold same)
      fix h b assume h: "horizon s = Some h" "aligned b" "b < h" "b \<notin> set (db_dirty ?s)" "b \<notin> set (gh_unmarked ?s)"
      have "b \<notin> set (db_dirty s)" "b \<notin> set (gh_unmarked s)" using h(4,5) unm unfolding dirty by blast+
      then show "base_accurate ?s b" using accurate_invD [OF ac h(1-3)] by (simp add: base_accurate_def same)
    qed
    moreover have "compaction_inv ?s c" if c: "pr_compact ?s = Some c" for c
      using ci [OF c [unfolded same]]
    proof (rule compaction_invE)
      assume p: "plan_sound s c" "plan_contiguous c" "plan_rows c" "plan_read s c" "plan_inserted s c"
      have "plan_read ?s c"
      proof (rule plan_readI)
        fix b d assume h: "cp_phase c \<noteq> Cp_planned" "b \<in> set (cp_buckets c)" "b \<notin> set (gh_unmarked ?s)"
        show "map_of (cp_rows c) (b, d) = map_of (exact_base ?s) (b, d)"
          unfolding same using plan_readD [OF p(4) h(1,2)] calm_markD [OF assms(2) c [unfolded same] h(1) _ h(2)] unm [OF h(3)] by blast
      qed
      moreover have "plan_sound ?s c" using p(1) by (auto simp: plan_sound_def same dirty)
      ultimately show ?thesis using p by (simp add: compaction_inv_def plan_inserted_def same)
    qed
    ultimately show ?thesis by (simp add: base_inv_def)
  qed
qed

section \<open>The steps of a compaction\<close>

lemma contiguous_iff:
  assumes "aligned W"
  shows "b \<in> set (contiguous_buckets W e n)
     \<longleftrightarrow> aligned b \<and> W \<le> b \<and> b < W + int (length (contiguous_buckets W e n)) * STORAGE_FIFTEEN_MINUTES_MS"
proof -
  define m where "m = length (contiguous_buckets W e n)"
  have l: "contiguous_buckets W e n = map (\<lambda>i. W + int i * 900000) [0..<m]"
    unfolding m_def by (simp add: contiguous_buckets_def Let_def STORAGE_FIFTEEN_MINUTES_MS_def)
  obtain q where q: "W = 900000 * q" using assms by (auto simp: aligned_dvd)
  show ?thesis
    unfolding m_def [symmetric] unfolding l
  proof
    assume "b \<in> set (map (\<lambda>i. W + int i * 900000) [0..<m])"
    then obtain i where "i < m" "b = W + int i * 900000" by auto
    then show "aligned b \<and> W \<le> b \<and> b < W + int m * STORAGE_FIFTEEN_MINUTES_MS"
      using assms by (simp add: aligned_dvd STORAGE_FIFTEEN_MINUTES_MS_def)
  next
    assume h: "aligned b \<and> W \<le> b \<and> b < W + int m * STORAGE_FIFTEEN_MINUTES_MS"
    then obtain p where p: "b = 900000 * p" by (auto simp: aligned_dvd)
    have "q \<le> p" "p < q + int m" using h p q by (auto simp: STORAGE_FIFTEEN_MINUTES_MS_def)
    then have "nat (p - q) < m" "b = W + int (nat (p - q)) * 900000" using p q by auto
    then show "b \<in> set (map (\<lambda>i. W + int i * 900000) [0..<m])"
      unfolding set_map by (intro image_eqI [where x = "nat (p - q)"]) simp_all
  qed
qed

lemma min_fold: "fold min xs a \<le> a \<and> (\<forall>x \<in> set xs. fold min xs a \<le> x)" for a :: int
proof (induction xs arbitrary: a)
  case (Cons y ys)
  have 1: "fold min ys (min y a) \<le> min y a" and 2: "\<forall>x \<in> set ys. fold min ys (min y a) \<le> x" using Cons.IH by blast+
  have "fold min ys (min y a) \<le> y" "fold min ys (min y a) \<le> a" using 1 by linarith+
  then show ?case using 2 by simp
qed simp

lemma min_fold_in: "fold min xs a \<in> insert a (set xs)" for a :: int
proof (induction xs arbitrary: a)
  case (Cons y ys)
  show ?case by (cases "y \<le> a") (use Cons.IH [of y] Cons.IH [of a] in \<open>auto simp: min_absorb1 min_absorb2\<close>)
qed simp

lemma clamp_ge: "e - V2_ROLLUP_RETENTION_MS \<le> w \<Longrightarrow> clampV2RollupStart w e = w"
  by (simp add: clampV2RollupStart_def Let_def)

lemma clamp_self [simp]: "clampV2RollupStart e e = e"
  by (rule clamp_ge) (simp add: V2_ROLLUP_RETENTION_MS_def)

lemma calm_watermark:
  assumes "base_inv s" "calm_begin e s" "aligned e"
  shows "aligned (readOrInitWatermark e s)"
    and "db_watermark s = Some w \<Longrightarrow> readOrInitWatermark e s = w"
    and "db_watermark s = None \<Longrightarrow> b < readOrInitWatermark e s \<Longrightarrow> base_accurate s b"
proof -
  have first: "firstRollupBucket s = Some f \<Longrightarrow> clampV2RollupStart f e = f \<and> f \<in> row_bucket ` set (raw_rows s)
      \<and> (\<forall>r \<in> set (raw_rows s). f \<le> row_bucket r)" if none: "db_watermark s = None" for f
  proof -
    assume "firstRollupBucket s = Some f"
    then obtain x xs where xs: "map row_bucket (raw_rows s) = x # xs" "f = fold min xs x"
      by (auto simp: firstRollupBucket_def split: list.splits)
    have eq: "row_bucket ` set (raw_rows s) = insert x (set xs)" using xs(1) by (metis list.set(2) set_map)
    then have in_f: "f \<in> row_bucket ` set (raw_rows s)" using xs(2) min_fold_in [of xs x] by simp
    moreover have "\<forall>r \<in> set (raw_rows s). e - V2_ROLLUP_RETENTION_MS \<le> row_bucket r"
      using assms(2) none by (simp add: calm_begin_def)
    then have "e - V2_ROLLUP_RETENTION_MS \<le> f" using in_f by auto
    moreover have "\<forall>r \<in> set (raw_rows s). f \<le> row_bucket r" using min_fold [of xs x] eq xs(2) by fastforce
    ultimately show ?thesis using clamp_ge by blast
  qed
  have 2: "readOrInitWatermark e s = w" if "db_watermark s = Some w" for w
    using assms(2) that by (simp add: calm_begin_def readOrInitWatermark_def clamp_ge)
  then show "db_watermark s = Some w \<Longrightarrow> readOrInitWatermark e s = w" .
  show "aligned (readOrInitWatermark e s)"
  proof (cases "db_watermark s")
    case (Some w)
    then have "aligned w" using assms(1) by (auto simp: base_inv_def aligned_inv_def)
    then show ?thesis by (simp add: 2 [OF Some])
  next
    case None
    show ?thesis
    proof (cases "firstRollupBucket s")
      case (Some f)
      have "aligned f" using first [OF None Some] by (auto simp: row_bucket_def)
      then show ?thesis using first [OF None Some] Some None by (simp add: readOrInitWatermark_def)
    qed (simp add: readOrInitWatermark_def None assms(3))
  qed
  assume none: "db_watermark s = None" and b: "b < readOrInitWatermark e s"
  have "rows_in b s = []"
  proof (cases "firstRollupBucket s")
    case None
    then have "raw_rows s = []" by (auto simp: firstRollupBucket_def split: list.splits)
    then show ?thesis by (simp add: rows_in_def)
  next
    case (Some f)
    then have "b < f" using b first [OF none Some] by (simp add: readOrInitWatermark_def none)
    moreover have "\<forall>r \<in> set (raw_rows s). f \<le> row_bucket r" using first [OF none Some] by blast
    ultimately show ?thesis unfolding rows_in_def filter_empty_conv by fastforce
  qed
  moreover have "ch_base s = []" using assms(2) none by (simp add: calm_begin_def)
  ultimately show "base_accurate s b" by (simp add: base_accurate_def map_of_exact_base)
qed

lemma base_inv_begin:
  assumes "base_inv s" "pr_compact s = None" "calm_begin e s" "aligned e"
  shows "base_inv (begin_compaction e m s)"
proof -
  define c where "c = plan_compaction e m s"
  define W where "W = readOrInitWatermark e s"
  note wm = calm_watermark [OF assms(1,3,4), folded W_def]
  have cW: "cp_watermark c = W" "cp_phase c = Cp_planned" "cp_rows c = []"
    by (simp_all add: c_def W_def plan_compaction_def Let_def)
  have cd: "set (cp_dirty c) \<subseteq> set (db_dirty s)"
  proof -
    have "set (select_dirty e n s) \<subseteq> set (db_dirty s)" for n
      using set_take_subset [of n "js_sort (\<lambda>a b. a - b) (filter (\<lambda>b. clampV2RollupStart 0 e \<le> b \<and> b < e) (db_dirty s))"]
      by (auto simp: select_dirty_def)
    then show ?thesis by (simp add: c_def plan_compaction_def Let_def)
  qed
  have cc: "plan_contiguous c"
    unfolding plan_contiguous_def cp_new_watermark_def cW(1)
    using contiguous_iff [OF wm(1)] by (simp add: c_def plan_compaction_def Let_def W_def)
  have al: "aligned_inv s" and ac: "accurate_inv s" using assms(1) by (simp_all add: base_inv_def)
  have below: "base_accurate s b" if "aligned b" "b < W" "b \<notin> set (db_dirty s)" "b \<notin> set (gh_unmarked s)" for b
  proof (cases "db_watermark s")
    case None
    then show ?thesis using wm(3) that(2) by blast
  next
    case (Some w)
    then have "horizon s = Some W" using wm(2) by (simp add: horizon_def)
    then show ?thesis using accurate_invD [OF ac] that by blast
  qed
  show ?thesis
  proof (cases "cp_buckets c = []")
    case True
    let ?s = "s\<lparr>db_watermark := (case db_watermark s of None \<Rightarrow> Some W | Some w \<Rightarrow> Some w)\<rparr>"
    have eq: "begin_compaction e m s = ?s" using True cW(1) by (simp add: begin_compaction_def c_def [symmetric] Let_def split: option.split)
    have wmW: "db_watermark ?s = Some W" using wm(2) by (auto split: option.splits)
    have "aligned_inv ?s" using al wm(1) wmW by (simp add: aligned_inv_def split: option.split)
    moreover have "accurate_inv ?s"
    proof (rule accurate_invI)
      fix h b assume h: "horizon ?s = Some h" "aligned b" "b < h" "b \<notin> set (db_dirty ?s)" "b \<notin> set (gh_unmarked ?s)"
      have "h = W" using h(1) wmW by (simp add: horizon_def)
      then show "base_accurate ?s b" using below h by (simp add: base_accurate_def exact_base_def)
    qed
    ultimately show ?thesis unfolding eq base_inv_def using assms(2) by simp
  next
    case False
    let ?s = "s\<lparr>pr_compact := Some c\<rparr>"
    have eq: "begin_compaction e m s = ?s" using False by (simp add: begin_compaction_def c_def [symmetric] Let_def)
    have hor: "horizon ?s = Some W" using wm(2) cW by (simp add: horizon_def split: option.split)
    have "aligned_inv ?s" using al by (simp add: aligned_inv_def)
    moreover have "accurate_inv ?s"
    proof (rule accurate_invI)
      fix h b assume h: "horizon ?s = Some h" "aligned b" "b < h" "b \<notin> set (db_dirty ?s)" "b \<notin> set (gh_unmarked ?s)"
      have "h = W" using h(1) hor by simp
      then show "base_accurate ?s b" using below h by (simp add: base_accurate_def exact_base_def)
    qed
    moreover have "compaction_inv ?s c"
      using cd cc wm(1,2) cW by (simp add: compaction_inv_def plan_sound_def plan_rows_def plan_read_def plan_inserted_def)
    ultimately show ?thesis unfolding eq base_inv_def by simp
  qed
qed

lemma horizon_compaction:
  assumes "base_inv s" "pr_compact s = Some c"
  shows "horizon s = Some (cp_watermark c)"
  using assms by (auto simp: base_inv_def compaction_inv_def plan_sound_def horizon_def split: option.split)

lemma below_not_planned:
  assumes "base_inv s" "pr_compact s = Some c" "b < cp_watermark c" "b \<notin> set (db_dirty s)"
  shows "b \<notin> set (cp_buckets c)"
  using assms by (auto simp: base_inv_def compaction_inv_def plan_sound_def plan_contiguous_def)

text \<open>A step that moves the compaction on and changes the base at most in its planned buckets.\<close>

lemma base_inv_compacting:
  assumes "base_inv s" "pr_compact s = Some c"
    and view: "db_watermark s' = db_watermark s" "db_dirty s' = db_dirty s" "ch_raw s' = ch_raw s" "gh_unmarked s' = gh_unmarked s"
      "pr_compact s' = Some c'"
    and plan: "cp_dirty c' = cp_dirty c" "cp_contiguous c' = cp_contiguous c" "cp_watermark c' = cp_watermark c"
    and base: "distinct_keys (ch_base s')" "\<And>k. k \<in> fst ` set (ch_base s') \<Longrightarrow> k \<in> fst ` set (ch_base s) \<or> fst k \<in> set (cp_buckets c)"
      "\<And>b d. b \<notin> set (cp_buckets c) \<Longrightarrow> map_of (ch_base s') (b, d) = map_of (ch_base s) (b, d)"
    and rows: "plan_rows c'" "plan_read s' c'" "plan_inserted s' c'"
  shows "base_inv s'"
proof -
  have al: "aligned_inv s" and ac: "accurate_inv s" and ci: "compaction_inv s c" using assms(1,2) by (simp_all add: base_inv_def)
  have nw: "cp_new_watermark c' = cp_new_watermark c" by (simp add: cp_new_watermark_def plan)
  have ex: "exact_base s' = exact_base s" by (simp add: exact_base_def view)
  have hor: "horizon s' = horizon s" using horizon_compaction [OF assms(1,2)]
    by (simp add: horizon_def view plan assms(2) split: option.splits)
  have alb: "aligned b" if "b \<in> set (cp_buckets c)" for b
    using that ci al by (auto simp: compaction_inv_def plan_sound_def plan_contiguous_def aligned_inv_def)
  have "aligned_inv s'"
    using al base(1,2) alb unfolding aligned_inv_def view by blast
  moreover have "accurate_inv s'"
  proof (rule accurate_invI, unfold view hor)
    fix h b assume h: "horizon s = Some h" "aligned b" "b < h" "b \<notin> set (db_dirty s)" "b \<notin> set (gh_unmarked s)"
    have "b < cp_watermark c" using h(1,3) horizon_compaction [OF assms(1,2)] by simp
    then have "b \<notin> set (cp_buckets c)" using below_not_planned [OF assms(1,2)] h(4) by blast
    then show "base_accurate s' b" using accurate_invD [OF ac h] base(3) by (simp add: base_accurate_def ex)
  qed
  moreover have "compaction_inv s' c'"
    using ci rows by (simp add: compaction_inv_def plan_sound_def plan_contiguous_def view plan nw)
  ultimately show ?thesis using view(5) by (simp add: base_inv_def)
qed

lemma base_inv_compact_step:
  assumes inv: "base_inv s" and c: "pr_compact s = Some c" and st: "compact_step cal ev c s = Some s'"
    and calm: "ev = Ev_compact_insert \<Longrightarrow> calm_insert c s"
  shows "base_inv s'"
proof -
  have al: "aligned_inv s" and ac: "accurate_inv s" and ci: "compaction_inv s c" using inv c by (simp_all add: base_inv_def)
  then have rows: "plan_rows c" "plan_read s c" and kb: "distinct_keys (ch_base s)" by (simp_all add: compaction_inv_def aligned_inv_def)
  consider (read) "ev = Ev_compact_read" "cp_phase c = Cp_planned" | (del) "ev = Ev_compact_delete" "cp_phase c = Cp_read"
    | (ins) "ev = Ev_compact_insert" "cp_phase c = Cp_deleted" | (com) now where "ev = Ev_compact_commit now" "cp_phase c = Cp_inserted"
    | (fl) "ev = Ev_compact_fail"
    using st by (auto simp: compact_step_def split: event.splits compaction_phase.splits)
  then show ?thesis
  proof cases
    case read
    let ?c = "c\<lparr>cp_rows := aggregateRollupBuckets (cp_buckets c) s, cp_phase := Cp_read\<rparr>"
    have s': "s' = s\<lparr>pr_compact := Some ?c\<rparr>" using st read by (simp add: compact_step_def)
    have b: "cp_buckets ?c = cp_buckets c" by (simp add: cp_buckets_def)
    show ?thesis
    proof (rule base_inv_compacting [OF inv c, where c' = ?c])
      show "plan_rows ?c" using aggregate_keys [of _ "cp_buckets c" s] unfolding plan_rows_def b by auto
      show "plan_read s' ?c" unfolding plan_read_def b using map_of_aggregate [of _ "cp_buckets c" s] s'
        by (simp add: exact_base_def)
    qed (use s' kb in \<open>simp_all add: plan_inserted_def\<close>)
  next
    case del
    let ?c = "c\<lparr>cp_phase := Cp_deleted\<rparr>"
    have s': "s' = (deleteRollupBuckets (cp_dirty c) s)\<lparr>pr_compact := Some ?c\<rparr>" using st del by (simp add: compact_step_def)
    have b: "cp_buckets ?c = cp_buckets c" by (simp add: cp_buckets_def)
    have base: "ch_base s' = delete_where (\<lambda>(b, d). b \<in> set (cp_dirty c)) (ch_base s)"
      by (simp add: s' deleteRollupBuckets_def)
    show ?thesis
    proof (rule base_inv_compacting [OF inv c, where c' = ?c])
      show "plan_rows ?c" using rows(1) by (simp add: plan_rows_def b)
      show "plan_read s' ?c" using rows(2) del(2) unfolding plan_read_def b by (simp add: s' deleteRollupBuckets_def exact_base_def)
      show "k \<in> fst ` set (ch_base s) \<or> fst k \<in> set (cp_buckets c)" if "k \<in> fst ` set (ch_base s')" for k
        using that unfolding base by (auto simp: delete_where_def)
    qed (use s' kb base in \<open>simp_all add: plan_inserted_def deleteRollupBuckets_def\<close>)
  next
    case ins
    let ?c = "c\<lparr>cp_phase := Cp_inserted\<rparr>"
    have s': "s' = s\<lparr>ch_base := put_rows (cp_rows c) (ch_base s), pr_compact := Some ?c\<rparr>" using st ins by (simp add: compact_step_def)
    have b: "cp_buckets ?c = cp_buckets c" by (simp add: cp_buckets_def)
    have kr: "distinct_keys (cp_rows c)" and keys: "\<And>k. k \<in> fst ` set (cp_rows c) \<Longrightarrow> fst k \<in> set (cp_buckets c)"
      using rows(1) by (auto simp: plan_rows_def)
    have put: "map_of (ch_base s') k = (case map_of (cp_rows c) k of None \<Rightarrow> map_of (ch_base s) k | Some v \<Rightarrow> Some v)" for k
      unfolding s' by (simp add: map_of_put_keyed [OF kr])
    show ?thesis
    proof (rule base_inv_compacting [OF inv c, where c' = ?c])
      show "plan_rows ?c" using rows(1) by (simp add: plan_rows_def b)
      show "plan_read s' ?c" using rows(2) ins(2) unfolding plan_read_def b by (simp add: s' exact_base_def)
      show "k \<in> fst ` set (ch_base s) \<or> fst k \<in> set (cp_buckets c)" if "k \<in> fst ` set (ch_base s')" for k
        using that keys [of k] unfolding keys_iff put by (auto split: option.splits)
      show "map_of (ch_base s') (x, d) = map_of (ch_base s) (x, d)" if "x \<notin> set (cp_buckets c)" for x d
      proof -
        have "map_of (cp_rows c) (x, d) = None" using keys [of "(x, d)"] that keys_iff by (metis fst_conv)
        then show ?thesis by (simp add: put)
      qed
      show "plan_inserted s' ?c"
        unfolding plan_inserted_def b
      proof (intro allI impI)
        fix x d assume x: "x \<in> set (cp_buckets c)"
        have "map_of (cp_rows c) (x, d) = None \<Longrightarrow> map_of (ch_base s) (x, d) = None"
          using calm [OF ins(1)] x unfolding calm_insert_def by (metis fst_conv keys_iff)
        then show "map_of (ch_base s') (x, d) = map_of (cp_rows ?c) (x, d)" by (simp add: put split: option.split)
      qed
    qed (use s' kb in simp_all)
  next
    case com
    have s': "s' = commit_compaction cal now c s" using st com by (simp add: compact_step_def)
    have v: "db_watermark s' = Some (cp_new_watermark c)" "set (db_dirty s') = set (db_dirty s) - set (cp_buckets c)" "ch_base s' = ch_base s"
      "ch_raw s' = ch_raw s" "gh_unmarked s' = gh_unmarked s" "pr_compact s' = None"
      by (auto simp: s' commit_compaction_def invalidateTimezoneRollupJobs_def Let_def)
    have ex: "exact_base s' = exact_base s" by (simp add: exact_base_def v)
    have "aligned (cp_new_watermark c)"
      using ci by (simp add: compaction_inv_def plan_sound_def cp_new_watermark_def aligned_dvd STORAGE_FIFTEEN_MINUTES_MS_def)
    then have "aligned_inv s'" using al by (auto simp: aligned_inv_def v)
    moreover have "accurate_inv s'"
    proof (rule accurate_invI)
      fix h b assume h: "horizon s' = Some h" "aligned b" "b < h" "b \<notin> set (db_dirty s')" "b \<notin> set (gh_unmarked s')"
      show "base_accurate s' b"
      proof (cases "b \<in> set (cp_buckets c)")
        case True
        have "cp_phase c \<noteq> Cp_planned" using com(2) by simp
        then have "map_of (cp_rows c) (b, d) = map_of (exact_base s) (b, d)" for d
          using plan_readD [OF rows(2) _ True] h(5) v(5) by simp
        moreover have "map_of (ch_base s) (b, d) = map_of (cp_rows c) (b, d)" for d
          using ci com(2) True by (auto simp: compaction_inv_def plan_inserted_def)
        ultimately show ?thesis by (simp add: base_accurate_def ex v)
      next
        case False
        have "h = cp_new_watermark c" using h(1) v by (simp add: horizon_def)
        then have "b < cp_watermark c" using False h(2,3) ci by (auto simp: compaction_inv_def plan_contiguous_def)
        moreover have "b \<notin> set (db_dirty s)" using h(4) v False by blast
        ultimately show ?thesis
          using accurate_invD [OF ac horizon_compaction [OF inv c] h(2)] h(5) by (simp add: base_accurate_def ex v)
      qed
    qed
    ultimately show ?thesis using v by (simp add: base_inv_def)
  next
    case fl
    have s': "s' = s\<lparr>pr_compact := None\<rparr>" using st fl by (simp add: compact_step_def split: compaction_phase.splits)
    have "accurate_inv s'"
    proof (rule accurate_invI)
      fix h b assume h: "horizon s' = Some h" "aligned b" "b < h" "b \<notin> set (db_dirty s')" "b \<notin> set (gh_unmarked s')"
      have "horizon s = Some h" using h(1) s' by (simp add: horizon_def split: option.splits)
      then show "base_accurate s' b" using accurate_invD [OF ac] h s' by (simp add: base_accurate_def exact_base_def)
    qed
    then show ?thesis using al s' by (simp add: base_inv_def aligned_inv_def)
  qed
qed

section \<open>Every calm step\<close>

lemma view_enqueue [simp]: "base_view (snd (enqueueUsageEvents as t now es s)) = base_view s"
  by (simp add: enqueueUsageEvents_def base_view_def Let_def split: prod.split)

lemma view_flush [simp]: "base_view (snd (flush_claim now n s)) = base_view s" "base_view (flush_rollback i s) = base_view s"
  by (simp_all add: flush_claim_def flush_rollback_def base_view_def Let_def)

lemma view_set [simp]: "base_view (set_flush p f s) = base_view s" "base_view (set_change q c s) = base_view s"
  "base_view (set_work w k s) = base_view s"
  by (simp_all add: set_flush_def set_change_def set_work_def base_view_def)

lemma view_reconcile [simp]: "base_view (snd (reconcileUsageEvents q s)) = base_view s"
  by (simp add: reconcileUsageEvents_def base_view_def Let_def)

lemma view_hourly: "insert_hourly t rows s = Some s' \<Longrightarrow> base_view s' = base_view s"
  by (auto simp: insert_hourly_def base_view_def Let_def split: option.splits if_splits)

lemma view_register [simp]: "base_view (snd (ensureRegisteredTimezone z m s)) = base_view s" "base_view (validate_zone z s) = base_view s"
  by (simp_all add: ensureRegisteredTimezone_def validate_zone_def base_view_def)

lemma view_missing [simp]: "base_view (snd (insert_missing now r z ws s)) = base_view s"
  by (induction now r z ws s rule: insert_missing.induct) (auto simp: base_view_def Let_def split: prod.splits)

lemma view_prewarm [simp]: "base_view (snd (prewarmMissingJobs now r z ws s)) = base_view s"
  by (simp add: prewarmMissingJobs_def)

lemma view_jobs [simp]: "base_view (snd (claimJobs now n s)) = base_view s" "base_view (markPending now i g s) = base_view s"
  "base_view (disableTimezone now z s) = base_view s"
  by (simp_all add: claimJobs_def markPending_def disableTimezone_def base_view_def Let_def)

lemma view_done [simp]: "base_view (snd (markDone now i g s)) = base_view s"
  by (simp add: markDone_def base_view_def split: list.split)

lemma view_zone [simp]: "base_view (delete_zone r z b s) = base_view s" "base_view (insert_zone r z b rows s) = base_view s"
  by (simp_all add: delete_zone_def insert_zone_def base_view_def)

lemma view_prune [simp]: "base_view (snd (pruneClickHouseUsageRetentionAt now s)) = base_view s"
  by (simp add: pruneClickHouseUsageRetentionAt_def base_view_def Let_def)

lemma view_pairs:
  "flush_claim now n s = (f, y) \<Longrightarrow> base_view y = base_view s"
  "reconcileUsageEvents q s = (c, y) \<Longrightarrow> base_view y = base_view s"
  "claimJobs now i s = (js, y) \<Longrightarrow> base_view y = base_view s"
  by (metis snd_conv view_flush(1), metis snd_conv view_reconcile, metis snd_conv view_jobs(1))

lemma base_inv_tokens: "base_inv s \<Longrightarrow> base_inv (s\<lparr>ch_tokens := t\<rparr>)"
  by (rule base_inv_frame) (simp_all add: base_view_def)

lemma base_inv_insert_raw: "base_inv s \<Longrightarrow> base_inv (insert_raw t rows s)"
  by (simp add: insert_raw_def Let_def base_inv_tokens base_inv_change_raw)

lemma base_inv_apply_change: "base_inv s \<Longrightarrow> base_inv (apply_change c s)"
  by (simp add: apply_change_def base_inv_tokens base_inv_change_raw split: option.split)

lemma base_inv_flush_commit:
  assumes "base_inv s" "calm_mark (map or_ts rows) s"
  shows "base_inv (flush_commit now i rows s)"
proof -
  let ?s = "if rows = [] then s else mark15mRollupDirty (map or_ts rows) s"
  have "base_inv ?s" using assms by (simp add: base_inv_mark)
  moreover have "base_view (flush_commit now i rows s) = base_view ?s"
    by (simp add: flush_commit_def base_view_def Let_def)
  ultimately show ?thesis using base_inv_frame by blast
qed

lemma base_inv_flush_step:
  assumes inv: "base_inv s" and st: "flush_step ev p f s = Some s'"
    and calm: "\<And>q now. ev = Ev_flush_commit q now \<Longrightarrow> calm_mark (map or_ts (fl_rows f)) s"
  shows "base_inv s'"
proof -
  obtain i t rest where todo: "fl_todo f = (i, t) # rest" using st by (auto simp: flush_step_def split: list.splits)
  note st' = st [unfolded flush_step_def todo list.case prod.case]
  consider (frame) "base_view s' = base_view s" | (raw) g where "s' = set_flush p g (insert_raw t (fl_rows f) s)"
    | (com) q now g where "ev = Ev_flush_commit q now" "s' = set_flush p g (flush_commit now i (fl_rows f) s)"
    using st' by (cases ev; cases "fl_phase f") (auto dest: view_hourly)
  then show ?thesis
  proof cases
    case frame
    then show ?thesis using base_inv_frame inv by blast
  next
    case raw
    show ?thesis unfolding raw by (rule base_inv_frame [OF view_set(1) base_inv_insert_raw [OF inv]])
  next
    case com
    show ?thesis unfolding com(2) by (rule base_inv_frame [OF view_set(1) base_inv_flush_commit [OF inv calm [OF com(1)]]])
  qed
qed

lemma base_inv_change_step:
  assumes inv: "base_inv s" and st: "change_step ev q c s = Some s'"
    and calm: "\<And>q. ev = Ev_change_mark q \<Longrightarrow> calm_mark (cg_times c) s"
  shows "base_inv s'"
proof -
  consider (mark) q' g where "ev = Ev_change_mark q'" "s' = set_change q g (mark15mRollupDirty (cg_times c) s)"
    | (app) g where "s' = set_change q g (apply_change c s)"
    using st by (cases ev; cases "cg_phase c") (auto simp: change_step_def)
  then show ?thesis
  proof cases
    case mark
    show ?thesis unfolding mark(2) by (rule base_inv_frame [OF view_set(2) base_inv_mark [OF inv calm [OF mark(1)]]])
  next
    case app
    show ?thesis unfolding app by (rule base_inv_frame [OF view_set(2) base_inv_apply_change [OF inv]])
  qed
qed

lemma view_finish [simp]: "base_view (finish_job now w k s) = base_view s"
proof -
  obtain x y where e: "markDone now (tj_id (hd (wk_todo k))) (tj_generation (hd (wk_todo k))) s = (x, y)" by fastforce
  then have "base_view y = base_view s" using view_done [of now "tj_id (hd (wk_todo k))" "tj_generation (hd (wk_todo k))" s] by simp
  then show ?thesis by (simp add: finish_job_def Let_def e)
qed

lemma view_work_step: "work_step cal ev w k j s = Some s' \<Longrightarrow> base_view s' = base_view s"
  by (cases ev; cases "wk_phase k") (auto simp: work_step_def split: sum.splits if_splits)

lemma view_on_worker: "on_worker cal ev w s = Some s' \<Longrightarrow> base_view s' = base_view s"
  by (auto simp: on_worker_def split: option.splits list.splits dest: view_work_step)

lemma base_inv_on_flusher:
  assumes "on_flusher ev p s = Some s'" "base_inv s"
    "\<And>q now f. ev = Ev_flush_commit q now \<Longrightarrow> map_of (pr_flush s) p = Some f \<Longrightarrow> calm_mark (map or_ts (fl_rows f)) s"
  shows "base_inv s'"
proof -
  obtain f where f: "map_of (pr_flush s) p = Some f" "flush_step ev p f s = Some s'"
    using assms(1) by (auto simp: on_flusher_def split: option.splits)
  show ?thesis by (rule base_inv_flush_step [OF assms(2) f(2)]) (rule assms(3) [OF _ f(1)])
qed

lemma base_inv_on_changer:
  assumes "on_changer ev q s = Some s'" "base_inv s"
    "\<And>q' c. ev = Ev_change_mark q' \<Longrightarrow> map_of (pr_change s) q = Some c \<Longrightarrow> calm_mark (cg_times c) s"
  shows "base_inv s'"
proof -
  obtain c where c: "map_of (pr_change s) q = Some c" "change_step ev q c s = Some s'"
    using assms(1) by (auto simp: on_changer_def split: option.splits)
  show ?thesis by (rule base_inv_change_step [OF assms(2) c(2)]) (rule assms(3) [OF _ c(1)])
qed

lemma base_inv_on_compactor:
  assumes "on_compactor cal ev s = Some s'" "base_inv s"
    "\<And>c. ev = Ev_compact_insert \<Longrightarrow> pr_compact s = Some c \<Longrightarrow> calm_insert c s"
  shows "base_inv s'"
proof -
  obtain c where c: "pr_compact s = Some c" "compact_step cal ev c s = Some s'"
    using assms(1) by (auto simp: on_compactor_def split: option.splits)
  show ?thesis by (rule base_inv_compact_step [OF assms(2) c]) (rule assms(3) [OF _ c(1)])
qed

lemma base_inv_step:
  assumes inv: "base_inv s" and st: "step cal ev s = Some s'" and calm: "calm cal ev s"
  shows "base_inv s'"
proof -
  have fr: "base_inv s'" if "base_view s' = base_view s" using base_inv_frame [OF that inv] .
  show ?thesis
  proof (cases ev)
    case (Ev_flush_claim p now limit)
    have "base_view s' = base_view s"
      using st Ev_flush_claim by (auto simp: Let_def dest: view_pairs split: prod.splits if_splits)
    then show ?thesis by (rule fr)
  next
    case (Ev_reconcile q r)
    have "base_view s' = base_view s"
      using st Ev_reconcile by (auto simp: start_change_def dest: view_pairs split: prod.splits if_splits)
    then show ?thesis by (rule fr)
  next
    case (Ev_compact_begin now d m)
    then show ?thesis using st inv calm by (auto split: if_splits intro: base_inv_begin)
  next
    case (Ev_claim w now limit)
    have "base_view s' = base_view s"
      using st Ev_claim by (auto simp: Let_def dest: view_pairs split: prod.splits if_splits)
    then show ?thesis by (rule fr)
  next
    case (Ev_flush_read p)
    show ?thesis by (rule base_inv_on_flusher [OF st [unfolded Ev_flush_read step.simps] inv]) (use calm Ev_flush_read in simp_all)
  next
    case (Ev_flush_raw p)
    show ?thesis by (rule base_inv_on_flusher [OF st [unfolded Ev_flush_raw step.simps] inv]) (use calm Ev_flush_raw in simp_all)
  next
    case (Ev_flush_hourly p)
    show ?thesis by (rule base_inv_on_flusher [OF st [unfolded Ev_flush_hourly step.simps] inv]) (use calm Ev_flush_hourly in simp_all)
  next
    case (Ev_flush_commit p now)
    show ?thesis by (rule base_inv_on_flusher [OF st [unfolded Ev_flush_commit step.simps] inv]) (use calm Ev_flush_commit in simp_all)
  next
    case (Ev_flush_fail p)
    show ?thesis by (rule base_inv_on_flusher [OF st [unfolded Ev_flush_fail step.simps] inv]) (use calm Ev_flush_fail in simp_all)
  next
    case (Ev_change_mark q)
    show ?thesis by (rule base_inv_on_changer [OF st [unfolded Ev_change_mark step.simps] inv]) (use calm Ev_change_mark in simp_all)
  next
    case (Ev_change_apply q)
    show ?thesis by (rule base_inv_on_changer [OF st [unfolded Ev_change_apply step.simps] inv]) (use calm Ev_change_apply in simp_all)
  next
    case Ev_compact_read
    show ?thesis by (rule base_inv_on_compactor [OF st [unfolded Ev_compact_read step.simps] inv]) (use calm Ev_compact_read in simp_all)
  next
    case Ev_compact_delete
    show ?thesis by (rule base_inv_on_compactor [OF st [unfolded Ev_compact_delete step.simps] inv]) (use calm Ev_compact_delete in simp_all)
  next
    case Ev_compact_insert
    show ?thesis by (rule base_inv_on_compactor [OF st [unfolded Ev_compact_insert step.simps] inv]) (use calm Ev_compact_insert in simp_all)
  next
    case (Ev_compact_commit now)
    show ?thesis by (rule base_inv_on_compactor [OF st [unfolded Ev_compact_commit step.simps] inv]) (use calm Ev_compact_commit in simp_all)
  next
    case Ev_compact_fail
    show ?thesis by (rule base_inv_on_compactor [OF st [unfolded Ev_compact_fail step.simps] inv]) (use calm Ev_compact_fail in simp_all)
  qed (use st in \<open>auto simp: start_change_def split: if_splits intro!: base_inv_frame [OF _ inv] dest!: view_on_worker\<close>)
qed

lemma base_inv_empty: "base_inv empty_db"
  by (simp add: empty_db_def base_inv_def aligned_inv_def accurate_inv_def horizon_def)

end
