(* ===== verification/Usage_Zone_Proofs.thy ===== *)
theory Usage_Zone_Proofs
  imports Usage_Base_Proofs
begin

text \<open>
  The invariant of the timezone rollup: a covered bucket below the watermark whose window holds no
  dirty bucket is cached exactly, and a worker that has read the rows of a job keeps rows that are
  exact as long as the job's generation is the one it claimed. It is kept by every calm step.
\<close>

section \<open>The invariant\<close>

definition job_sound :: "calendar \<Rightarrow> zone_job \<Rightarrow> bool" where
  "job_sound cal j \<longleftrightarrow> bucket_start cal (tj_resolution j) (tj_timezone j) (tj_bucket j)
     \<and> tj_sourceTo j = pg_source_to cal (tj_resolution j) (tj_timezone j) (tj_bucket j)"

abbreviation registered :: "usage_db \<Rightarrow> string set" where
  "registered s \<equiv> fst ` set (db_zones s)"

definition jobs_inv :: "calendar \<Rightarrow> usage_db \<Rightarrow> bool" where
  "jobs_inv cal s \<longleftrightarrow> distinct (map tj_id (db_jobs s)) \<and> distinct (map job_key (db_jobs s))
     \<and> (\<forall>j \<in> set (db_jobs s). tj_id j < db_nextJob s \<and> job_sound cal j)"

definition covered_ok :: "calendar \<Rightarrow> usage_db \<Rightarrow> resolution \<times> string \<times> instant \<Rightarrow> bool" where
  "covered_ok cal s key \<longleftrightarrow> (case key of (r, z, b) \<Rightarrow> z \<in> registered s \<and> bucket_start cal r z b
     \<and> (\<exists>w. db_watermark s = Some w \<and> pg_source_to cal r z b \<le> w)
     \<and> (\<not> dirty_within b (pg_source_to cal r z b) s \<longrightarrow> cache_accurate cal s r z b))"

definition coverage_inv :: "calendar \<Rightarrow> usage_db \<Rightarrow> bool" where
  "coverage_inv cal s \<longleftrightarrow> (\<forall>key \<in> set (db_coverage s). covered_ok cal s key)"

definition open_inv :: "usage_db \<Rightarrow> bool" where
  "open_inv s \<longleftrightarrow> (\<forall>j \<in> set (db_jobs s). tj_status j \<noteq> Job_done \<longrightarrow> job_key j \<notin> set (db_coverage s))"

definition cache_inv :: "calendar \<Rightarrow> usage_db \<Rightarrow> bool" where
  "cache_inv cal s \<longleftrightarrow> distinct_keys (ch_cache s) \<and> (\<forall>(r, z, b, d) \<in> fst ` set (ch_cache s). bucket_start cal r z b)"

definition claim_ok :: "calendar \<Rightarrow> usage_db \<Rightarrow> zone_job \<Rightarrow> bool" where
  "claim_ok cal s j \<longleftrightarrow> tj_id j < db_nextJob s \<and> job_sound cal j \<and> db_watermark s \<noteq> None
     \<and> (\<forall>j' \<in> set (db_jobs s). tj_id j' = tj_id j \<longrightarrow> job_key j' = job_key j \<and> tj_generation j \<le> tj_generation j')"

definition current :: "usage_db \<Rightarrow> zone_job \<Rightarrow> bool" where
  "current s j \<longleftrightarrow> (\<exists>j' \<in> set (db_jobs s). tj_id j' = tj_id j \<and> tj_generation j' = tj_generation j)"

definition job_exact :: "calendar \<Rightarrow> usage_db \<Rightarrow> zone_job \<Rightarrow> (usage_dims \<times> measures) list" where
  "job_exact cal s j = exact_zone cal (tj_resolution j) (tj_timezone j) (tj_bucket j) s"

definition rows_ok :: "calendar \<Rightarrow> usage_db \<Rightarrow> zone_job \<Rightarrow> (usage_dims \<times> measures) list \<Rightarrow> bool" where
  "rows_ok cal s j rows \<longleftrightarrow> distinct_keys rows
     \<and> (tj_timezone j \<in> registered s \<longrightarrow> current s j \<longrightarrow> job_ready j s \<longrightarrow> (\<forall>d. map_of rows d = map_of (job_exact cal s j) d))"

definition cached_at :: "usage_db \<Rightarrow> zone_job \<Rightarrow> usage_dims \<Rightarrow> measures option" where
  "cached_at s j d = map_of (ch_cache s) (tj_resolution j, tj_timezone j, tj_bucket j, d)"

definition work_ok :: "calendar \<Rightarrow> usage_db \<Rightarrow> zone_job \<Rightarrow> worker \<Rightarrow> bool" where
  "work_ok cal s j k \<longleftrightarrow> job_key j \<notin> set (db_coverage s)
     \<and> (wk_phase k \<noteq> Wk_locked \<longrightarrow> rows_ok cal s j (wk_rows k))
     \<and> (wk_phase k = Wk_deleted \<longrightarrow> (\<forall>d. cached_at s j d = None))
     \<and> (wk_phase k = Wk_written \<longrightarrow> (\<forall>d. cached_at s j d = map_of (wk_rows k) d))"

definition worker_ok :: "calendar \<Rightarrow> usage_db \<Rightarrow> worker \<Rightarrow> bool" where
  "worker_ok cal s k \<longleftrightarrow> (\<forall>j \<in> set (wk_todo k). claim_ok cal s j) \<and> (working k \<longrightarrow> work_ok cal s (hd (wk_todo k)) k)"

definition workers_inv :: "calendar \<Rightarrow> usage_db \<Rightarrow> bool" where
  "workers_inv cal s \<longleftrightarrow> (\<forall>w k. map_of (pr_work s) w = Some k \<longrightarrow> worker_ok cal s k)"

definition exclusive_inv :: "usage_db \<Rightarrow> bool" where
  "exclusive_inv s \<longleftrightarrow> (\<forall>w k w' k'. map_of (pr_work s) w = Some k \<longrightarrow> map_of (pr_work s) w' = Some k' \<longrightarrow>
     working k \<longrightarrow> working k' \<longrightarrow> job_key (hd (wk_todo k)) = job_key (hd (wk_todo k')) \<longrightarrow> w = w')"

definition zone_inv :: "calendar \<Rightarrow> usage_db \<Rightarrow> bool" where
  "zone_inv cal s \<longleftrightarrow> jobs_inv cal s \<and> coverage_inv cal s \<and> open_inv s \<and> cache_inv cal s \<and> workers_inv cal s \<and> exclusive_inv s"

lemma workers_invD: "workers_inv cal s \<Longrightarrow> map_of (pr_work s) w = Some k \<Longrightarrow> worker_ok cal s k"
  unfolding workers_inv_def by blast

lemma workers_invI: "(\<And>w k. map_of (pr_work s) w = Some k \<Longrightarrow> worker_ok cal s k) \<Longrightarrow> workers_inv cal s"
  unfolding workers_inv_def by blast

lemma worker_okD:
  "worker_ok cal s k \<Longrightarrow> j \<in> set (wk_todo k) \<Longrightarrow> claim_ok cal s j"
  "worker_ok cal s k \<Longrightarrow> working k \<Longrightarrow> work_ok cal s (hd (wk_todo k)) k"
  unfolding worker_ok_def by blast+

lemma working_hd: "working k \<Longrightarrow> hd (wk_todo k) \<in> set (wk_todo k)"
  by (simp add: working_def)

lemma zone_invE:
  assumes "zone_inv cal s"
  obtains "jobs_inv cal s" "coverage_inv cal s" "open_inv s" "cache_inv cal s" "workers_inv cal s" "exclusive_inv s"
  using assms unfolding zone_inv_def by blast

section \<open>Windows\<close>

lemma calendar_law:
  assumes "calendar_agrees cal"
  shows "cal_trunc cal r z t \<le> t" "t < pg_source_to cal r z (cal_trunc cal r z t)"
    "aligned (cal_trunc cal r z t)" "aligned (pg_source_to cal r z (cal_trunc cal r z t))"
    "cal_trunc cal r z (fifteenMinuteBucket t) = cal_trunc cal r z t"
    "cal_ch_start cal r z t = cal_trunc cal r z t"
    "cal_trunc cal r z t \<le> u \<Longrightarrow> u < pg_source_to cal r z (cal_trunc cal r z t) \<Longrightarrow> cal_trunc cal r z u = cal_trunc cal r z t"
    "cal_js_next_day cal z (cal_trunc cal Res_day z t) = Inr (cal_pg_next_day cal z (cal_trunc cal Res_day z t))"
    "cal_js_day_start cal z t = Inr (cal_trunc cal Res_day z t)"
    "cal_trunc cal Res_hour z (cal_trunc cal Res_day z t) = cal_trunc cal Res_day z t"
proof -
  note a = assms [unfolded calendar_agrees_def]
  note l = spec [OF spec [OF spec [OF conjunct1 [OF a], of r], of z], of t]
  note m = spec [OF spec [OF conjunct1 [OF conjunct2 [OF a]], of z], of t]
  note n = spec [OF spec [OF conjunct2 [OF conjunct2 [OF a]], of z], of t]
  note l2 = conjunct2 [OF l] note l3 = conjunct2 [OF l2] note l4 = conjunct2 [OF l3]
  note l5 = conjunct2 [OF l4] note l6 = conjunct2 [OF l5] note l7 = conjunct2 [OF l6]
  show "cal_trunc cal r z t \<le> t" by (rule conjunct1 [OF l])
  show "t < pg_source_to cal r z (cal_trunc cal r z t)" by (rule conjunct1 [OF l2])
  show "aligned (cal_trunc cal r z t)" by (rule conjunct1 [OF l3])
  show "aligned (pg_source_to cal r z (cal_trunc cal r z t))" by (rule conjunct1 [OF l4])
  show "cal_trunc cal r z (fifteenMinuteBucket t) = cal_trunc cal r z t" by (rule conjunct1 [OF l5])
  show "cal_ch_start cal r z t = cal_trunc cal r z t" by (rule conjunct1 [OF l6])
  show "cal_trunc cal r z t \<le> u \<Longrightarrow> u < pg_source_to cal r z (cal_trunc cal r z t) \<Longrightarrow> cal_trunc cal r z u = cal_trunc cal r z t"
    using l7 by blast
  show "cal_js_next_day cal z (cal_trunc cal Res_day z t) = Inr (cal_pg_next_day cal z (cal_trunc cal Res_day z t))" by (rule m)
  show "cal_js_day_start cal z t = Inr (cal_trunc cal Res_day z t)"
    "cal_trunc cal Res_hour z (cal_trunc cal Res_day z t) = cal_trunc cal Res_day z t"
    by (rule conjunct1 [OF n], rule conjunct2 [OF n])
qed

lemma bucket_start_trunc: "calendar_agrees cal \<Longrightarrow> bucket_start cal r z (cal_trunc cal r z k)"
proof -
  assume ca: "calendar_agrees cal"
  have "cal_trunc cal r z (cal_trunc cal r z k) = cal_trunc cal r z k"
    by (rule calendar_law(7) [OF ca]) (use calendar_law(1,2) [OF ca, where r = r and z = z and t = k] in linarith)+
  then show ?thesis using calendar_law(3) [OF ca] by (simp add: bucket_start_def)
qed

text \<open>An instant is in the window of a bucket exactly if it is truncated to it.\<close>

lemma window_iff:
  assumes "calendar_agrees cal" "bucket_start cal r z b"
  shows "b \<le> k \<and> k < pg_source_to cal r z b \<longleftrightarrow> cal_trunc cal r z k = b"
proof -
  have t: "cal_trunc cal r z b = b" using assms(2) by (simp add: bucket_start_def)
  have "b \<le> k \<Longrightarrow> k < pg_source_to cal r z b \<Longrightarrow> cal_trunc cal r z k = b"
    using calendar_law(7) [OF assms(1), where r = r and z = z and t = b and u = k] t by simp
  moreover have "cal_trunc cal r z k = b \<Longrightarrow> b \<le> k \<and> k < pg_source_to cal r z b"
    using calendar_law(1,2) [OF assms(1), where r = r and z = z and t = k] by auto
  ultimately show ?thesis by blast
qed

lemma window_facts:
  assumes "calendar_agrees cal" "bucket_start cal r z b"
  shows "b < pg_source_to cal r z b" "aligned (pg_source_to cal r z b)" "aligned b"
  using calendar_law(2,4) [OF assms(1), where r = r and z = z and t = b] assms(2)
  by (simp_all add: bucket_start_def)

lemma zone_window_end_eq:
  assumes "calendar_agrees cal" "bucket_start cal r z b"
  shows "zone_window_end cal r z b = Inr (pg_source_to cal r z b)"
  using calendar_law(8) [OF assms(1), where z = z and t = b] assms(2)
  by (cases r) (simp_all add: zone_window_end_def pg_source_to_def bucket_start_def)

lemma aggregate_zone_exact:
  assumes "calendar_agrees cal" "bucket_start cal r z b"
  shows "aggregate_zone cal r z b s = Inr (exact_zone cal r z b s)"
proof -
  note ch = calendar_law(6) [OF assms(1)]
  have "filter (\<lambda>((k, d), m). b \<le> k \<and> k < pg_source_to cal r z b \<and> cal_ch_start cal r z k = b) (ch_base s)
      = filter (\<lambda>((k, d), m). b \<le> k \<and> k < pg_source_to cal r z b) (ch_base s)"
    by (rule filter_cong [OF refl]) (use window_iff [OF assms] ch in auto)
  then show ?thesis by (simp add: aggregate_zone_def zone_window_end_eq [OF assms] exact_zone_def)
qed

section \<open>Jobs move on\<close>

definition evolves :: "usage_db \<Rightarrow> usage_db \<Rightarrow> bool" where
  "evolves s s' \<longleftrightarrow> db_nextJob s \<le> db_nextJob s'
     \<and> (\<forall>j' \<in> set (db_jobs s'). (\<exists>j \<in> set (db_jobs s). tj_id j' = tj_id j \<and> job_key j' = job_key j \<and> tj_generation j \<le> tj_generation j')
          \<or> db_nextJob s \<le> tj_id j')"

lemma evolvesD:
  "evolves s s' \<Longrightarrow> j' \<in> set (db_jobs s') \<Longrightarrow> tj_id j' < db_nextJob s \<Longrightarrow>
     \<exists>j \<in> set (db_jobs s). tj_id j' = tj_id j \<and> job_key j' = job_key j \<and> tj_generation j \<le> tj_generation j'"
  unfolding evolves_def by fastforce

lemma evolves_same: "db_jobs s' = db_jobs s \<Longrightarrow> db_nextJob s' = db_nextJob s \<Longrightarrow> evolves s s'"
  unfolding evolves_def by auto

lemma evolves_map:
  assumes "db_jobs s' = map f (db_jobs s)" "db_nextJob s' = db_nextJob s"
    "\<And>j. tj_id (f j) = tj_id j \<and> job_key (f j) = job_key j \<and> tj_generation (f j) = tj_generation j"
  shows "evolves s s'"
  using assms by (auto simp: evolves_def)

lemma claim_ok_evolves:
  assumes "claim_ok cal s j" "evolves s s'" "db_watermark s' \<noteq> None"
  shows "claim_ok cal s' j"
proof -
  have "job_key j' = job_key j \<and> tj_generation j \<le> tj_generation j'" if a: "j' \<in> set (db_jobs s')" "tj_id j' = tj_id j" for j'
  proof -
    have "tj_id j' < db_nextJob s" using assms(1) that(2) by (simp add: claim_ok_def)
    then obtain j0 where "j0 \<in> set (db_jobs s)" "tj_id j' = tj_id j0" "job_key j' = job_key j0" "tj_generation j0 \<le> tj_generation j'"
      using evolvesD [OF assms(2) a(1)] by blast
    then show ?thesis using assms(1) a(2) by (fastforce simp: claim_ok_def)
  qed
  then show ?thesis using assms by (auto simp: claim_ok_def evolves_def)
qed

lemma current_evolves:
  assumes "claim_ok cal s j" "evolves s s'" "current s' j"
  shows "current s j"
proof -
  obtain j' where j': "j' \<in> set (db_jobs s')" "tj_id j' = tj_id j" "tj_generation j' = tj_generation j"
    using assms(3) by (auto simp: current_def)
  have "tj_id j' < db_nextJob s" using assms(1) j'(2) by (simp add: claim_ok_def)
  then obtain j0 where j0: "j0 \<in> set (db_jobs s)" "tj_id j' = tj_id j0" "tj_generation j0 \<le> tj_generation j'"
    using evolvesD [OF assms(2) j'(1)] by blast
  moreover have "tj_generation j \<le> tj_generation j0" using assms(1) j0 j'(2) by (auto simp: claim_ok_def)
  ultimately show ?thesis using j' by (auto simp: current_def)
qed

lemma rows_ok_evolves:
  assumes "rows_ok cal s j rows" "claim_ok cal s j" "evolves s s'"
    "tj_timezone j \<in> registered s' \<Longrightarrow> current s' j \<Longrightarrow> job_ready j s' \<Longrightarrow>
       tj_timezone j \<in> registered s \<and> job_ready j s \<and> (\<forall>d. map_of (job_exact cal s' j) d = map_of (job_exact cal s j) d)"
  shows "rows_ok cal s' j rows"
  using assms(1,4) current_evolves [OF assms(2,3)] unfolding rows_ok_def by metis

text \<open>A worker that does not move itself.\<close>

lemma worker_ok_evolves:
  assumes "worker_ok cal s k" "evolves s s'" "db_watermark s \<noteq> None \<Longrightarrow> db_watermark s' \<noteq> None"
    and key: "working k \<Longrightarrow> job_key (hd (wk_todo k)) \<notin> set (db_coverage s) \<Longrightarrow> job_key (hd (wk_todo k)) \<notin> set (db_coverage s')"
    and cache: "\<And>d. working k \<Longrightarrow> cached_at s' (hd (wk_todo k)) d = cached_at s (hd (wk_todo k)) d"
    and rows: "working k \<Longrightarrow> rows_ok cal s (hd (wk_todo k)) (wk_rows k) \<Longrightarrow> rows_ok cal s' (hd (wk_todo k)) (wk_rows k)"
  shows "worker_ok cal s' k"
proof -
  have "claim_ok cal s' j" if "j \<in> set (wk_todo k)" for j
    using claim_ok_evolves [OF worker_okD(1) [OF assms(1) that] assms(2)] assms(3) worker_okD(1) [OF assms(1) that]
    by (simp add: claim_ok_def)
  moreover have "work_ok cal s' (hd (wk_todo k)) k" if w: "working k"
    using worker_okD(2) [OF assms(1) w] key [OF w] cache [OF w] rows [OF w] unfolding work_ok_def by simp
  ultimately show ?thesis unfolding worker_ok_def by blast
qed


section \<open>What a step leaves alone\<close>

definition zone_view :: "usage_db \<Rightarrow> _" where
  "zone_view s = (db_watermark s, db_dirty s, db_zones s, db_jobs s, db_nextJob s, db_coverage s, ch_base s, ch_cache s, map_of (pr_work s))"

lemma zone_inv_frame:
  assumes "zone_view s' = zone_view s" "zone_inv cal s"
  shows "zone_inv cal s'"
proof -
  have e: "db_watermark s' = db_watermark s" "db_dirty s' = db_dirty s" "db_zones s' = db_zones s" "db_jobs s' = db_jobs s"
    "db_nextJob s' = db_nextJob s" "db_coverage s' = db_coverage s" "ch_base s' = ch_base s" "ch_cache s' = ch_cache s"
    "map_of (pr_work s') = map_of (pr_work s)"
    using assms(1) by (simp_all add: zone_view_def)
  show ?thesis using assms(2)
    unfolding zone_inv_def jobs_inv_def coverage_inv_def covered_ok_def open_inv_def cache_inv_def workers_inv_def exclusive_inv_def
      worker_ok_def claim_ok_def work_ok_def rows_ok_def current_def job_exact_def job_ready_def below_watermark_def dirty_within_def
      cached_at_def cache_accurate_def exact_zone_def e .
qed

lemma job_exact_cong: "ch_base s' = ch_base s \<Longrightarrow> job_exact cal s' j = job_exact cal s j"
  by (simp add: job_exact_def exact_zone_def)

lemma cache_accurate_cong:
  "ch_base s' = ch_base s \<Longrightarrow> ch_cache s' = ch_cache s \<Longrightarrow> cache_accurate cal s' r z b = cache_accurate cal s r z b"
  by (simp add: cache_accurate_def exact_zone_def)

lemma job_ready_mono:
  "db_watermark s' = db_watermark s \<Longrightarrow> set (db_dirty s) \<subseteq> set (db_dirty s') \<Longrightarrow> job_ready j s' \<Longrightarrow> job_ready j s"
  by (auto simp: job_ready_def below_watermark_def dirty_within_def)

text \<open>
  A step that writes neither the base nor the cache: marks are added, coverage is given up, and jobs
  change their status or are added or dropped.
\<close>

lemma zone_inv_quiet:
  assumes inv: "zone_inv cal s"
    and same: "db_watermark s' = db_watermark s" "ch_base s' = ch_base s" "ch_cache s' = ch_cache s" "map_of (pr_work s') = map_of (pr_work s)"
    and dirty: "set (db_dirty s) \<subseteq> set (db_dirty s')"
    and jobs: "jobs_inv cal s'" "evolves s s'"
    and cov: "set (db_coverage s') \<subseteq> set (db_coverage s)" "\<And>r z b. (r, z, b) \<in> set (db_coverage s') \<Longrightarrow> z \<in> registered s \<Longrightarrow> z \<in> registered s'"
    and op: "open_inv s'"
    and zones: "\<And>w k. map_of (pr_work s) w = Some k \<Longrightarrow> working k \<Longrightarrow> tj_timezone (hd (wk_todo k)) \<in> registered s' \<Longrightarrow>
      tj_timezone (hd (wk_todo k)) \<in> registered s"
  shows "zone_inv cal s'"
proof -
  from inv obtain old: "coverage_inv cal s" "cache_inv cal s" "workers_inv cal s" "exclusive_inv s" by (rule zone_invE)
  have acc: "cache_accurate cal s' r z b = cache_accurate cal s r z b" for r z b by (rule cache_accurate_cong) (rule same)+
  have "covered_ok cal s' key" if "key \<in> set (db_coverage s')" for key
  proof -
    have "covered_ok cal s key" using that cov(1) old(1) by (auto simp: coverage_inv_def)
    moreover have "\<not> dirty_within x y s' \<Longrightarrow> \<not> dirty_within x y s" for x y using dirty by (auto simp: dirty_within_def)
    ultimately show ?thesis using cov(2) that unfolding covered_ok_def same(1) acc by (cases key) auto
  qed
  then have "coverage_inv cal s'" by (simp add: coverage_inv_def)
  moreover have "cache_inv cal s'" using old(2) by (simp add: cache_inv_def same)
  moreover have "exclusive_inv s'" using old(4) unfolding exclusive_inv_def same(4) .
  moreover have "workers_inv cal s'"
  proof (rule workers_invI, unfold same(4))
    fix w k assume k: "map_of (pr_work s) w = Some k"
    note ok = workers_invD [OF old(3) k]
    show "worker_ok cal s' k"
    proof (rule worker_ok_evolves [OF ok jobs(2)])
      let ?j = "hd (wk_todo k)"
      show "rows_ok cal s' ?j (wk_rows k)" if w: "working k" and r: "rows_ok cal s ?j (wk_rows k)"
      proof (rule rows_ok_evolves [OF r worker_okD(1) [OF ok working_hd [OF w]] jobs(2)])
        assume a: "tj_timezone ?j \<in> registered s'" "job_ready ?j s'"
        show "tj_timezone ?j \<in> registered s \<and> job_ready ?j s \<and> (\<forall>d. map_of (job_exact cal s' ?j) d = map_of (job_exact cal s ?j) d)"
          using zones [OF k w a(1)] job_ready_mono [OF same(1) dirty a(2)] job_exact_cong [OF same(2)] by simp
      qed
      show "job_key ?j \<notin> set (db_coverage s')" if "job_key ?j \<notin> set (db_coverage s)" using that cov(1) by blast
    qed (simp_all add: same cached_at_def)
  qed
  ultimately show ?thesis using jobs(1) op by (simp add: zone_inv_def)
qed

lemma jobs_inv_cong: "db_jobs s' = db_jobs s \<Longrightarrow> db_nextJob s' = db_nextJob s \<Longrightarrow> jobs_inv cal s \<Longrightarrow> jobs_inv cal s'"
  by (simp add: jobs_inv_def)

lemma zone_inv_mark:
  assumes "zone_inv cal s"
  shows "zone_inv cal (mark15mRollupDirty ts s)"
proof -
  from assms obtain old: "jobs_inv cal s" "open_inv s" by (rule zone_invE)
  have same: "db_jobs (mark15mRollupDirty ts s) = db_jobs s" "db_nextJob (mark15mRollupDirty ts s) = db_nextJob s"
    "db_coverage (mark15mRollupDirty ts s) = db_coverage s" "db_zones (mark15mRollupDirty ts s) = db_zones s"
    by (simp_all add: mark15mRollupDirty_def Let_def)
  show ?thesis
    by (rule zone_inv_quiet [OF assms, OF _ _ _ _ _ jobs_inv_cong [OF same(1,2) old(1)] evolves_same [OF same(1,2)]])
      (use old(2) in \<open>simp_all add: same open_inv_def, simp_all add: mark15mRollupDirty_def Let_def\<close>)
qed

lemma zone_inv_register:
  assumes "zone_inv cal s"
    "\<And>w k. map_of (pr_work s) w = Some k \<Longrightarrow> working k \<Longrightarrow> tj_timezone (hd (wk_todo k)) \<noteq> z"
  shows "zone_inv cal (snd (ensureRegisteredTimezone z m s))"
proof -
  from assms(1) obtain old: "jobs_inv cal s" "open_inv s" by (rule zone_invE)
  let ?s = "snd (ensureRegisteredTimezone z m s)"
  have same: "db_jobs ?s = db_jobs s" "db_nextJob ?s = db_nextJob s" "db_coverage ?s = db_coverage s" "registered s \<subseteq> registered ?s"
    "registered ?s \<subseteq> insert z (registered s)"
    by (auto simp: ensureRegisteredTimezone_def)
  show ?thesis
    by (rule zone_inv_quiet [OF assms(1), OF _ _ _ _ _ jobs_inv_cong [OF same(1,2) old(1)] evolves_same [OF same(1,2)]])
      (use old(2) same assms(2) in \<open>auto simp: open_inv_def, auto simp: ensureRegisteredTimezone_def split: if_splits\<close>)
qed

lemma registered_validate: "registered (validate_zone z s) = registered s"
  by (force simp: validate_zone_def)

lemma zone_inv_validate:
  assumes "zone_inv cal s"
  shows "zone_inv cal (validate_zone z s)"
proof -
  from assms obtain old: "jobs_inv cal s" "open_inv s" by (rule zone_invE)
  have same: "db_jobs (validate_zone z s) = db_jobs s" "db_nextJob (validate_zone z s) = db_nextJob s"
    "db_coverage (validate_zone z s) = db_coverage s"
    by (simp_all add: validate_zone_def)
  show ?thesis
    by (rule zone_inv_quiet [OF assms, OF _ _ _ _ _ jobs_inv_cong [OF same(1,2) old(1)] evolves_same [OF same(1,2)]])
      (use old(2) in \<open>simp_all add: registered_validate same open_inv_def, simp_all add: validate_zone_def\<close>)
qed


section \<open>The job queue\<close>

text \<open>Changing the status of jobs, to one that is not done only from one that is not done.\<close>

lemma zone_inv_status:
  assumes inv: "zone_inv cal s"
    and js: "db_jobs s' = map f (db_jobs s)"
    and f: "\<And>j. tj_id (f j) = tj_id j \<and> job_key (f j) = job_key j \<and> tj_generation (f j) = tj_generation j \<and> tj_sourceTo (f j) = tj_sourceTo j"
      "\<And>j. j \<in> set (db_jobs s) \<Longrightarrow> tj_status (f j) \<noteq> Job_done \<Longrightarrow> tj_status j \<noteq> Job_done"
    and same: "db_watermark s' = db_watermark s" "ch_base s' = ch_base s" "ch_cache s' = ch_cache s" "map_of (pr_work s') = map_of (pr_work s)"
      "db_dirty s' = db_dirty s" "db_nextJob s' = db_nextJob s"
    and cov: "set (db_coverage s') \<subseteq> set (db_coverage s)" "\<And>r z b. (r, z, b) \<in> set (db_coverage s') \<Longrightarrow> z \<in> registered s \<Longrightarrow> z \<in> registered s'"
      "registered s' \<subseteq> registered s"
  shows "zone_inv cal s'"
proof -
  from inv obtain old: "jobs_inv cal s" "open_inv s" by (rule zone_invE)
  have key: "job_sound cal (f j) = job_sound cal j" for j
    using f(1) [of j] by (simp add: job_sound_def job_key_def)
  have m: "map tj_id (map f (db_jobs s)) = map tj_id (db_jobs s)" "map job_key (map f (db_jobs s)) = map job_key (db_jobs s)"
    using f(1) by simp_all
  have "jobs_inv cal s'"
    using old(1) f(1) unfolding jobs_inv_def js same m by (simp add: key)
  moreover have "evolves s s'" by (rule evolves_map [OF js same(6)]) (use f(1) in blast)
  moreover have "open_inv s'"
    unfolding open_inv_def js
  proof (intro ballI impI)
    fix j' assume a: "j' \<in> set (map f (db_jobs s))" "tj_status j' \<noteq> Job_done"
    then obtain j where j: "j \<in> set (db_jobs s)" "j' = f j" by auto
    then have "job_key j \<notin> set (db_coverage s)" using old(2) f(2) a(2) by (auto simp: open_inv_def)
    then show "job_key j' \<notin> set (db_coverage s')" using f(1) [of j] cov(1) j(2) by auto
  qed
  ultimately show ?thesis
    by (intro zone_inv_quiet [OF inv]) (use same cov in auto)
qed

lemma job_key_update: "job_key (j\<lparr>tj_status := st\<rparr>) = job_key j" "job_key (j\<lparr>tj_updated := u\<rparr>) = job_key j"
  "job_key (j\<lparr>tj_sourceTo := e\<rparr>) = job_key j" "job_key (j\<lparr>tj_generation := g\<rparr>) = job_key j"
  by (simp_all add: job_key_def)

lemma zone_inv_pending: "zone_inv cal s \<Longrightarrow> zone_inv cal (markPending now i g s)"
  by (rule zone_inv_status [where s = s and f = "\<lambda>j. if tj_id j = i \<and> tj_generation j = g \<and> tj_status j = Job_inflight
     then j\<lparr>tj_status := Job_pending, tj_updated := now\<rparr> else j"])
    (auto simp: markPending_def job_key_update split: if_splits)

lemma zone_inv_disable: "zone_inv cal s \<Longrightarrow> zone_inv cal (disableTimezone now z s)"
  by (rule zone_inv_status [where s = s and f = "\<lambda>j. if tj_timezone j = z \<and> tj_status j \<noteq> Job_done
       then j\<lparr>tj_status := Job_done, tj_updated := now\<rparr> else j"])
    (auto simp: disableTimezone_def job_key_update split: if_splits)

lemma js_sort_mem: "x \<in> set (js_sort c xs) \<longleftrightarrow> x \<in> set xs"
  by simp

lemma claim_candidates_mem:
  "j \<in> set (claim_candidates now n s) \<Longrightarrow> j \<in> set (db_jobs s) \<and> job_claimable now j \<and> job_ready j s"
  unfolding claim_candidates_def by (drule in_set_takeD) auto

lemma distinct_idD: "distinct (map f xs) \<Longrightarrow> x \<in> set xs \<Longrightarrow> y \<in> set xs \<Longrightarrow> f x = f y \<Longrightarrow> x = y"
  by (auto simp: distinct_map inj_on_def)

lemma zone_inv_claim_jobs:
  assumes "zone_inv cal s"
  shows "zone_inv cal (snd (claimJobs now n s))"
proof -
  from assms obtain old: "jobs_inv cal s" by (rule zone_invE)
  let ?ids = "map tj_id (claim_candidates now n s)"
  show ?thesis
  proof (rule zone_inv_status [OF assms, where f = "\<lambda>j. if tj_id j \<in> set ?ids then j\<lparr>tj_status := Job_inflight, tj_updated := now\<rparr> else j"])
    fix j assume j: "j \<in> set (db_jobs s)"
      and nd: "tj_status (if tj_id j \<in> set ?ids then j\<lparr>tj_status := Job_inflight, tj_updated := now\<rparr> else j) \<noteq> Job_done"
    show "tj_status j \<noteq> Job_done"
    proof (cases "tj_id j \<in> set ?ids")
      case True
      then obtain i where i: "i \<in> set (claim_candidates now n s)" "tj_id i = tj_id j" by auto
      then have "i = j" using distinct_idD [of tj_id "db_jobs s" i j] j old claim_candidates_mem [OF i(1)] by (simp add: jobs_inv_def)
      then show ?thesis using claim_candidates_mem [OF i(1)] by (auto simp: job_claimable_def)
    qed (use nd in simp)
  qed (simp_all add: claimJobs_def Let_def job_key_update)
qed

lemma zone_inv_prune:
  assumes "zone_inv cal s"
  shows "zone_inv cal (snd (pruneClickHouseUsageRetentionAt now s))"
proof -
  from assms obtain old: "jobs_inv cal s" "open_inv s" by (rule zone_invE)
  let ?s = "snd (pruneClickHouseUsageRetentionAt now s)"
  have same: "db_nextJob ?s = db_nextJob s" "db_coverage ?s = db_coverage s" "db_zones ?s = db_zones s" "db_watermark ?s = db_watermark s"
    "ch_base ?s = ch_base s" "ch_cache ?s = ch_cache s" "pr_work ?s = pr_work s" "db_dirty ?s = db_dirty s"
    by (simp_all add: pruneClickHouseUsageRetentionAt_def Let_def)
  obtain P where P: "db_jobs ?s = filter P (db_jobs s)"
    by (simp add: pruneClickHouseUsageRetentionAt_def Let_def)
  have "jobs_inv cal ?s" using old(1) by (simp add: jobs_inv_def P same distinct_map_filter)
  moreover have "evolves s ?s" by (auto simp: evolves_def P same)
  moreover have "open_inv ?s" using old(2) by (simp add: open_inv_def P same)
  ultimately show ?thesis by (intro zone_inv_quiet [OF assms]) (simp_all add: same)
qed

lemma zone_inv_add_job:
  assumes inv: "zone_inv cal s" and new: "key \<notin> set (db_coverage s)" "key \<notin> job_key ` set (db_jobs s)"
    and b: "bucket_start cal (fst key) (fst (snd key)) (snd (snd key))" "e = pg_source_to cal (fst key) (fst (snd key)) (snd (snd key))"
  shows "zone_inv cal (s\<lparr>db_jobs := db_jobs s @ [new_job (db_nextJob s) now key e], db_nextJob := Suc (db_nextJob s)\<rparr>)"
    (is "zone_inv cal ?s")
proof -
  from inv obtain old: "jobs_inv cal s" "open_inv s" by (rule zone_invE)
  let ?j = "new_job (db_nextJob s) now key e"
  have j: "job_key ?j = key" "tj_id ?j = db_nextJob s" by (simp_all add: job_key_def new_job_def)
  have s: "job_sound cal ?j" using b by (simp add: job_sound_def new_job_def)
  have ids: "\<forall>j \<in> set (db_jobs s). tj_id j < db_nextJob s" using old(1) by (simp add: jobs_inv_def)
  have "jobs_inv cal ?s" using old(1) new(2) s ids j by (auto simp: jobs_inv_def less_Suc_eq)
  moreover have "evolves s ?s" by (auto simp: evolves_def j)
  moreover have "open_inv ?s" using old(2) new(1) by (auto simp: open_inv_def j)
  ultimately show ?thesis by (intro zone_inv_quiet [OF inv]) simp_all
qed

lemma zone_inv_insert_missing:
  assumes "zone_inv cal s" "\<forall>(b, e) \<in> set ws. bucket_start cal r z b \<and> e = pg_source_to cal r z b"
  shows "zone_inv cal (snd (insert_missing now r z ws s))"
  using assms
proof (induction now r z ws s rule: insert_missing.induct)
  case (1 now r z s)
  then show ?case by simp
next
  case (2 now r z b e ws s)
  show ?case
  proof (cases "(r, z, b) \<in> set (db_coverage s) \<or> (r, z, b) \<in> job_key ` set (db_jobs s)")
    case True
    then show ?thesis using 2 by simp
  next
    case False
    let ?s = "s\<lparr>db_jobs := db_jobs s @ [new_job (db_nextJob s) now (r, z, b) e], db_nextJob := Suc (db_nextJob s)\<rparr>"
    have "zone_inv cal ?s" by (rule zone_inv_add_job [OF 2(3)]) (use False 2(4) in auto)
    then have "zone_inv cal (snd (insert_missing now r z ws ?s))" using 2(2) [OF False] 2(4) by simp
    then show ?thesis using False by (cases "insert_missing now r z ws ?s") simp
  qed
qed

lemma zone_inv_prewarm:
  "zone_inv cal s \<Longrightarrow> \<forall>(b, e) \<in> set ws. bucket_start cal r z b \<and> e = pg_source_to cal r z b \<Longrightarrow>
     zone_inv cal (snd (prewarmMissingJobs now r z ws s))"
  by (simp add: prewarmMissingJobs_def zone_inv_insert_missing)

section \<open>Workers\<close>

lemma zone_inv_set_work:
  assumes inv: "zone_inv cal s"
    and ok: "\<And>k'. k = Some k' \<Longrightarrow> worker_ok cal s k'"
    and alone: "\<And>k' w' k''. k = Some k' \<Longrightarrow> working k' \<Longrightarrow> map_of (pr_work s) w' = Some k'' \<Longrightarrow> working k'' \<Longrightarrow> w' \<noteq> w \<Longrightarrow>
      job_key (hd (wk_todo k'')) \<noteq> job_key (hd (wk_todo k'))"
  shows "zone_inv cal (set_work w k s)"
proof -
  let ?s = "set_work w k s"
  have e: "db_watermark ?s = db_watermark s" "db_dirty ?s = db_dirty s" "db_zones ?s = db_zones s" "db_jobs ?s = db_jobs s"
    "db_nextJob ?s = db_nextJob s" "db_coverage ?s = db_coverage s" "ch_base ?s = ch_base s" "ch_cache ?s = ch_cache s"
    by (simp_all add: set_work_def)
  have work: "map_of (pr_work ?s) v = (if v = w then k else map_of (pr_work s) v)" for v
    by (simp add: set_work_def)
  have wk: "worker_ok cal ?s x = worker_ok cal s x" for x
    unfolding worker_ok_def claim_ok_def work_ok_def rows_ok_def current_def job_exact_def job_ready_def below_watermark_def dirty_within_def
      cached_at_def exact_zone_def e ..
  from inv obtain old: "jobs_inv cal s" "coverage_inv cal s" "open_inv s" "cache_inv cal s" "workers_inv cal s" "exclusive_inv s"
    by (rule zone_invE)
  have rest: "jobs_inv cal ?s" "coverage_inv cal ?s" "open_inv ?s" "cache_inv cal ?s"
    using old(1-4) unfolding jobs_inv_def coverage_inv_def covered_ok_def open_inv_def cache_inv_def dirty_within_def
      cache_accurate_def exact_zone_def e .
  have "workers_inv cal ?s"
    by (rule workers_invI) (use ok workers_invD [OF old(5)] in \<open>auto simp: work wk split: if_splits\<close>)
  moreover have "exclusive_inv ?s"
    unfolding exclusive_inv_def work
  proof (intro allI impI)
    fix v x v' x'
    assume a: "(if v = w then k else map_of (pr_work s) v) = Some x" "(if v' = w then k else map_of (pr_work s) v') = Some x'"
      "working x" "working x'" "job_key (hd (wk_todo x)) = job_key (hd (wk_todo x'))"
    show "v = v'"
    proof (cases "v = w"; cases "v' = w")
      assume "v \<noteq> w" "v' \<noteq> w"
      then show ?thesis using old(6) a unfolding exclusive_inv_def by (metis (full_types))
    next
      assume h: "v = w" "v' \<noteq> w"
      have "job_key (hd (wk_todo x')) \<noteq> job_key (hd (wk_todo x))" by (rule alone) (use a h in simp_all)
      then show ?thesis using a(5) by simp
    next
      assume h: "v \<noteq> w" "v' = w"
      have "job_key (hd (wk_todo x)) \<noteq> job_key (hd (wk_todo x'))" by (rule alone) (use a h in simp_all)
      then show ?thesis using a(5) by simp
    qed simp
  qed
  ultimately show ?thesis using rest by (simp add: zone_inv_def)
qed

lemma worker_ok_next:
  assumes "worker_ok cal s k" "work_next k = Some k'"
  shows "worker_ok cal s k'" "\<not> working k'"
proof -
  have k': "k' = \<lparr>wk_todo = tl (wk_todo k), wk_rows = [], wk_phase = Wk_claimed\<rparr>"
    using assms(2) by (auto simp: work_next_def split: if_splits)
  then show "\<not> working k'" by (simp add: working_def)
  moreover have "set (tl (wk_todo k)) \<subseteq> set (wk_todo k)" by (cases "wk_todo k") auto
  ultimately show "worker_ok cal s k'" using assms(1) k' by (auto simp: worker_ok_def)
qed

lemma zone_inv_next:
  assumes "zone_inv cal s" "map_of (pr_work s) w = Some k"
  shows "zone_inv cal (set_work w (work_next k) s)"
proof -
  have "worker_ok cal s k" using assms by (auto simp: zone_inv_def dest: workers_invD)
  then show ?thesis by (intro zone_inv_set_work [OF assms(1)]) (auto dest: worker_ok_next)
qed

lemma zone_inv_crash: "zone_inv cal s \<Longrightarrow> zone_inv cal (set_work w None s)"
  by (rule zone_inv_set_work) auto

lemma zone_inv_claim:
  assumes inv: "zone_inv cal s" and c: "claimJobs now n s = (js, s1)"
  shows "zone_inv cal (set_work w (if js = [] then None else Some \<lparr>wk_todo = js, wk_rows = [], wk_phase = Wk_claimed\<rparr>) s1)"
proof -
  have inv1: "zone_inv cal s1" using zone_inv_claim_jobs [OF inv, of now n] c by simp
  from inv obtain old: "jobs_inv cal s" by (rule zone_invE)
  have js: "js = map (\<lambda>j. j\<lparr>tj_status := Job_inflight, tj_updated := now\<rparr>) (claim_candidates now n s)"
    and s1: "db_nextJob s1 = db_nextJob s" "db_watermark s1 = db_watermark s"
      "db_jobs s1 = map (\<lambda>j. if tj_id j \<in> tj_id ` set (claim_candidates now n s) then j\<lparr>tj_status := Job_inflight, tj_updated := now\<rparr> else j) (db_jobs s)"
    using c by (auto simp: claimJobs_def Let_def)
  have claim: "claim_ok cal s1 j" if j: "j \<in> set js" for j
  proof -
    obtain i where i: "i \<in> set (claim_candidates now n s)" "j = i\<lparr>tj_status := Job_inflight, tj_updated := now\<rparr>"
      using j js by auto
    note m = claim_candidates_mem [OF i(1)]
    have k: "tj_id j = tj_id i" "job_key j = job_key i" "tj_generation j = tj_generation i" "job_sound cal j = job_sound cal i"
      by (simp_all add: i(2) job_key_def job_sound_def)
    have "job_key j' = job_key i \<and> tj_generation i \<le> tj_generation j'" if j': "j' \<in> set (db_jobs s1)" "tj_id j' = tj_id i" for j'
    proof -
      obtain j0 where j0': "j0 \<in> set (db_jobs s)"
        "j' = (if tj_id j0 \<in> tj_id ` set (claim_candidates now n s) then j0\<lparr>tj_status := Job_inflight, tj_updated := now\<rparr> else j0)"
        using j'(1) unfolding s1(3) set_map by (rule imageE)
      have j0: "j0 \<in> set (db_jobs s)" "tj_id j' = tj_id j0" "job_key j' = job_key j0" "tj_generation j' = tj_generation j0"
        by (rule j0'(1)) (simp_all add: j0'(2) job_key_update)
      have "tj_id j0 = tj_id i" by (rule trans [OF sym [OF j0(2)] j'(2)])
      then have "j0 = i" by (rule distinct_idD [OF conjunct1 [OF old [unfolded jobs_inv_def]] j0(1) conjunct1 [OF m]])
      then show ?thesis by (simp only: j0 order_refl simp_thms)
    qed
    moreover have "db_watermark s1 \<noteq> None" using m unfolding s1 by (cases "db_watermark s") (simp_all add: job_ready_def below_watermark_def)
    moreover have "tj_id i < db_nextJob s1 \<and> job_sound cal i" using old m by (simp add: s1 jobs_inv_def)
    ultimately show ?thesis unfolding claim_ok_def k by blast
  qed
  show ?thesis
    by (rule zone_inv_set_work [OF inv1]) (auto simp: worker_ok_def working_def claim split: if_splits)
qed

end
