(* ===== verification/Usage_Worker_Proofs.thy ===== *)
theory Usage_Worker_Proofs
  imports Usage_Zone_Proofs
begin

text \<open>
  The steps that write the cache of the timezone rollup and its coverage: a worker that locks, reads,
  deletes, inserts and settles a job.
\<close>

section \<open>Writing the cache\<close>

text \<open>A bucket that is not covered, and that no other worker is filling, may be rewritten.\<close>

lemma zone_inv_cache:
  assumes inv: "zone_inv cal s" and key: "(r, z, b) \<notin> set (db_coverage s)" "bucket_start cal r z b"
    and same: "db_watermark s' = db_watermark s" "db_dirty s' = db_dirty s" "db_zones s' = db_zones s" "db_jobs s' = db_jobs s"
      "db_nextJob s' = db_nextJob s" "db_coverage s' = db_coverage s" "ch_base s' = ch_base s" "map_of (pr_work s') = map_of (pr_work s)"
    and dk: "distinct_keys (ch_cache s')"
    and other: "\<And>r' z' b' d. (r', z', b') \<noteq> (r, z, b) \<Longrightarrow> map_of (ch_cache s') (r', z', b', d) = map_of (ch_cache s) (r', z', b', d)"
    and idle: "\<And>w k. map_of (pr_work s) w = Some k \<Longrightarrow> working k \<Longrightarrow> job_key (hd (wk_todo k)) = (r, z, b) \<Longrightarrow>
      wk_phase k \<noteq> Wk_deleted \<and> wk_phase k \<noteq> Wk_written"
  shows "zone_inv cal s'"
proof -
  from inv obtain old: "jobs_inv cal s" "coverage_inv cal s" "open_inv s" "cache_inv cal s" "workers_inv cal s" "exclusive_inv s"
    by (rule zone_invE)
  have acc: "cache_accurate cal s' r' z' b' = cache_accurate cal s r' z' b'" if "(r', z', b') \<noteq> (r, z, b)" for r' z' b'
    by (simp add: cache_accurate_def exact_zone_def same other [OF that])
  have "jobs_inv cal s'" "open_inv s'" "exclusive_inv s'"
    using old(1,3,6) unfolding jobs_inv_def open_inv_def exclusive_inv_def same .
  moreover have "covered_ok cal s' key" if k: "key \<in> set (db_coverage s')" for key
  proof -
    obtain r' z' b' where e: "key = (r', z', b')" by (cases key)
    have "covered_ok cal s key" using k old(2) by (simp add: coverage_inv_def same)
    moreover have "key \<noteq> (r, z, b)" using k key(1) by (auto simp: same)
    ultimately show ?thesis by (simp add: covered_ok_def e same acc dirty_within_def)
  qed
  then have "coverage_inv cal s'" by (simp add: coverage_inv_def)
  moreover have "cache_inv cal s'"
  proof -
    have "bucket_start cal r' z' b'" if k: "(r', z', b', d) \<in> fst ` set (ch_cache s')" for r' z' b' d
    proof (cases "(r', z', b') = (r, z, b)")
      case False
      then have "(r', z', b', d) \<in> fst ` set (ch_cache s)" using k other by (simp only: keys_iff) simp
      then show ?thesis using old(4) by (auto simp: cache_inv_def)
    qed (use key(2) in simp)
    then show ?thesis using dk unfolding cache_inv_def by (simp only: split: prod.split) blast
  qed
  moreover have "workers_inv cal s'"
  proof (rule workers_invI, unfold same)
    fix w k assume k: "map_of (pr_work s) w = Some k"
    note ok = workers_invD [OF old(5) k]
    let ?j = "hd (wk_todo k)"
    have st: "job_ready j s' = job_ready j s" "current s' j = current s j" "registered s' = registered s" "job_exact cal s' j = job_exact cal s j" for j
      by (simp_all add: job_ready_def below_watermark_def dirty_within_def current_def job_exact_def exact_zone_def same)
    have "claim_ok cal s' j" if "j \<in> set (wk_todo k)" for j
      using worker_okD(1) [OF ok that] unfolding claim_ok_def same .
    moreover have "work_ok cal s' ?j k" if w: "working k"
    proof -
      have o: "work_ok cal s ?j k" by (rule worker_okD(2) [OF ok w])
      have c: "cached_at s' ?j d = cached_at s ?j d" if "job_key ?j \<noteq> (r, z, b)" for d
        using other [of "tj_resolution ?j" "tj_timezone ?j" "tj_bucket ?j" d] that by (simp add: cached_at_def job_key_def)
      have n: "wk_phase k \<noteq> Wk_deleted \<and> wk_phase k \<noteq> Wk_written" if "job_key ?j = (r, z, b)" by (rule idle [OF k w that])
      show ?thesis using o c n unfolding work_ok_def rows_ok_def same st by (cases "job_key ?j = (r, z, b)") simp_all
    qed
    ultimately show "worker_ok cal s' k" by (simp add: worker_ok_def)
  qed
  ultimately show ?thesis by (simp add: zone_inv_def)
qed

text \<open>A job is settled: its bucket is covered from now on.\<close>

lemma zone_inv_cover:
  assumes inv: "zone_inv cal s" and j: "j \<in> set (db_jobs s)" "tj_status j = Job_inflight" "job_ready j s" "tj_timezone j \<in> registered s"
    and exact: "cache_accurate cal s (tj_resolution j) (tj_timezone j) (tj_bucket j)"
    and idle: "\<And>w k. map_of (pr_work s) w = Some k \<Longrightarrow> working k \<Longrightarrow> job_key (hd (wk_todo k)) \<noteq> job_key j"
    and same: "db_watermark s' = db_watermark s" "db_dirty s' = db_dirty s" "db_zones s' = db_zones s"
      "db_nextJob s' = db_nextJob s" "ch_base s' = ch_base s" "ch_cache s' = ch_cache s" "map_of (pr_work s') = map_of (pr_work s)"
    and s': "db_jobs s' = update_job (tj_id j) (\<lambda>j. j\<lparr>tj_status := Job_done, tj_updated := now\<rparr>) (db_jobs s)"
      "db_coverage s' = List.insert (job_key j) (db_coverage s)"
  shows "zone_inv cal s'"
proof -
  from inv obtain old: "jobs_inv cal s" "coverage_inv cal s" "open_inv s" "cache_inv cal s" "workers_inv cal s" "exclusive_inv s"
    by (rule zone_invE)
  have js: "job_sound cal j" using old(1) j(1) by (simp add: jobs_inv_def)
  have cov: "set (db_coverage s') = insert (job_key j) (set (db_coverage s))" by (simp add: s')
  have acc: "cache_accurate cal s' r z b = cache_accurate cal s r z b" for r z b by (rule cache_accurate_cong) (rule same)+
  have dw: "dirty_within x y s' = dirty_within x y s" for x y by (simp add: dirty_within_def same)
  let ?f = "\<lambda>i. if tj_id i = tj_id j then i\<lparr>tj_status := Job_done, tj_updated := now\<rparr> else i"
  have jm: "db_jobs s' = map ?f (db_jobs s)" by (simp add: s' update_job_def)
  have m: "map tj_id (map ?f (db_jobs s)) = map tj_id (db_jobs s)" "map job_key (map ?f (db_jobs s)) = map job_key (db_jobs s)"
    by (simp_all add: job_key_update)
  have "jobs_inv cal s'" using old(1) unfolding jobs_inv_def jm same m by (auto simp: job_sound_def)
  moreover have "covered_ok cal s' key" if k: "key \<in> set (db_coverage s')" for key
  proof (cases "key = job_key j")
    case True
    have "below_watermark j s" "\<not> dirty_within (tj_bucket j) (tj_sourceTo j) s" using j(3) by (simp_all add: job_ready_def)
    then have "\<exists>w. db_watermark s = Some w \<and> tj_sourceTo j \<le> w" by (simp add: below_watermark_def split: option.splits)
    then show ?thesis using j(4) exact js by (simp add: covered_ok_def True job_key_def job_sound_def same acc)
  next
    case False
    then have "covered_ok cal s key" using k old(2) by (simp add: coverage_inv_def cov)
    then show ?thesis by (simp add: covered_ok_def same acc dw)
  qed
  then have "coverage_inv cal s'" by (simp add: coverage_inv_def)
  moreover have "open_inv s'"
    unfolding open_inv_def jm cov
  proof (intro ballI impI)
    fix i' assume a: "i' \<in> set (map ?f (db_jobs s))" "tj_status i' \<noteq> Job_done"
    then obtain i where i: "i \<in> set (db_jobs s)" "i' = ?f i" by auto
    then have ne: "tj_id i \<noteq> tj_id j" "i' = i" using a(2) by (auto split: if_splits)
    then have "job_key i \<noteq> job_key j" using distinct_idD [of job_key "db_jobs s" i j] i(1) j(1) old(1) by (auto simp: jobs_inv_def)
    then show "job_key i' \<notin> insert (job_key j) (set (db_coverage s))" using old(3) i(1) a(2) ne by (auto simp: open_inv_def)
  qed
  moreover have "cache_inv cal s'" "exclusive_inv s'" using old(4,6) unfolding cache_inv_def exclusive_inv_def same .
  moreover have "workers_inv cal s'"
  proof (rule workers_invI, unfold same(7))
    fix w k assume k: "map_of (pr_work s) w = Some k"
    note ok = workers_invD [OF old(5) k]
    have ev: "evolves s s'" by (rule evolves_map [OF jm same(4)]) (simp add: job_key_update)
    show "worker_ok cal s' k"
    proof (rule worker_ok_evolves [OF ok ev])
      let ?i = "hd (wk_todo k)"
      show "job_key ?i \<notin> set (db_coverage s')" if w: "working k" and n: "job_key ?i \<notin> set (db_coverage s)"
        using idle [OF k w] n cov by simp
      show "rows_ok cal s' ?i (wk_rows k)" if w: "working k" and r: "rows_ok cal s ?i (wk_rows k)"
        by (rule rows_ok_evolves [OF r worker_okD(1) [OF ok working_hd [OF w]] ev])
          (simp add: same job_ready_def below_watermark_def dw job_exact_cong [OF same(5)])
    qed (simp_all add: same cached_at_def)
  qed
  ultimately show ?thesis by (simp add: zone_inv_def)
qed

section \<open>The steps of a worker\<close>

lemma zone_inv_worker_phase:
  assumes inv: "zone_inv cal s" and k: "map_of (pr_work s) w = Some k" "wk_todo k \<noteq> []"
    and new: "wk_todo k' = wk_todo k" "working k' \<Longrightarrow> work_ok cal s (hd (wk_todo k)) k'"
    and alone: "working k \<or> (\<forall>w' k''. map_of (pr_work s) w' = Some k'' \<longrightarrow> working k'' \<longrightarrow> w' \<noteq> w \<longrightarrow> job_key (hd (wk_todo k'')) \<noteq> job_key (hd (wk_todo k)))"
  shows "zone_inv cal (set_work w (Some k') s)"
proof (rule zone_inv_set_work [OF inv])
  from inv obtain old: "workers_inv cal s" "exclusive_inv s" by (rule zone_invE)
  have ok: "worker_ok cal s k" by (rule workers_invD [OF old(1) k(1)])
  show "worker_ok cal s x" if "Some k' = Some x" for x
    using ok new that by (simp add: worker_ok_def)
  show "job_key (hd (wk_todo y)) \<noteq> job_key (hd (wk_todo x))"
    if "Some k' = Some x" "working x" "map_of (pr_work s) w' = Some y" "working y" "w' \<noteq> w" for x w' y
    using alone
  proof
    assume "working k"
    then show ?thesis using old(2) k(1) that new(1) unfolding exclusive_inv_def by (metis option.inject)
  qed (use that new(1) in auto)
qed

lemma zone_inv_lock:
  assumes inv: "zone_inv cal s" and k: "map_of (pr_work s) w = Some k" "wk_todo k = j # rest" and calm: "calm_lock w j s"
  shows "zone_inv cal (set_work w (Some (k\<lparr>wk_phase := Wk_locked\<rparr>)) s)"
proof (rule zone_inv_worker_phase [OF inv k(1)])
  from inv obtain old: "open_inv s" "workers_inv cal s" by (rule zone_invE)
  obtain j' where j': "j' \<in> set (db_jobs s)" "tj_id j' = tj_id j" "tj_status j' = Job_inflight" using calm by (auto simp: calm_lock_def)
  have "claim_ok cal s j" using worker_okD(1) [OF workers_invD [OF old(2) k(1)]] k(2) by simp
  then have "job_key j' = job_key j" using j' by (simp add: claim_ok_def)
  moreover have "job_key j' \<notin> set (db_coverage s)" using old(1) j' by (simp add: open_inv_def)
  ultimately show "work_ok cal s (hd (wk_todo k)) (k\<lparr>wk_phase := Wk_locked\<rparr>)" by (simp add: work_ok_def k(2))
  have "job_key (hd (wk_todo x)) \<noteq> job_key j" if x: "map_of (pr_work s) v = Some x" "working x" "v \<noteq> w" for v x
  proof -
    have "v \<in> set (map fst (pr_work s))" using x(1) by (force dest: map_of_SomeD)
    then show ?thesis using calm x unfolding calm_lock_def by fastforce
  qed
  then show "working k \<or> (\<forall>w' k''. map_of (pr_work s) w' = Some k'' \<longrightarrow> working k'' \<longrightarrow> w' \<noteq> w \<longrightarrow> job_key (hd (wk_todo k'')) \<noteq> job_key (hd (wk_todo k)))"
    using k(2) by simp
qed (use k in simp_all)

lemma worker_facts:
  assumes "zone_inv cal s" "map_of (pr_work s) w = Some k" "wk_todo k = j # rest" "wk_phase k \<noteq> Wk_claimed"
  shows "working k" "work_ok cal s j k" "claim_ok cal s j" "job_sound cal j" "job_key j \<notin> set (db_coverage s)"
    "map_of (pr_work s) w' = Some k' \<Longrightarrow> working k' \<Longrightarrow> job_key (hd (wk_todo k')) = job_key j \<Longrightarrow> w' = w \<and> k' = k"
proof -
  from assms(1) obtain old: "workers_inv cal s" "exclusive_inv s" by (rule zone_invE)
  show w: "working k" using assms(3,4) by (simp add: working_def)
  note ok = workers_invD [OF old(1) assms(2)]
  show "work_ok cal s j k" using worker_okD(2) [OF ok w] assms(3) by simp
  then show "job_key j \<notin> set (db_coverage s)" by (simp add: work_ok_def)
  show c: "claim_ok cal s j" using worker_okD(1) [OF ok] assms(3) by simp
  then show "job_sound cal j" by (simp add: claim_ok_def)
  show "map_of (pr_work s) w' = Some k' \<Longrightarrow> working k' \<Longrightarrow> job_key (hd (wk_todo k')) = job_key j \<Longrightarrow> w' = w \<and> k' = k"
    using old(2) assms(2,3) w unfolding exclusive_inv_def by (metis list.sel(1) option.inject)
qed

lemma job_soundD: "job_sound cal j \<Longrightarrow> bucket_start cal (tj_resolution j) (tj_timezone j) (tj_bucket j)"
  by (simp add: job_sound_def)

lemma zone_inv_read:
  assumes inv: "zone_inv cal s" and ca: "calendar_agrees cal" and k: "map_of (pr_work s) w = Some k" "wk_todo k = j # rest" "wk_phase k = Wk_locked"
    and rows: "aggregate_zone cal (tj_resolution j) (tj_timezone j) (tj_bucket j) s = Inr rows"
  shows "zone_inv cal (set_work w (Some (k\<lparr>wk_rows := rows, wk_phase := Wk_read\<rparr>)) s)"
proof (rule zone_inv_worker_phase [OF inv k(1)])
  have "wk_phase k \<noteq> Wk_claimed" using k(3) by simp
  note f = worker_facts [OF inv k(1,2) this]
  have "rows = job_exact cal s j"
    using aggregate_zone_exact [OF ca job_soundD [OF f(4)], of s] rows by (simp add: job_exact_def)
  then show "work_ok cal s (hd (wk_todo k)) (k\<lparr>wk_rows := rows, wk_phase := Wk_read\<rparr>)"
    using f(5) by (simp add: work_ok_def k(2) rows_ok_def job_exact_def exact_zone_def)
  show "working k \<or> (\<forall>w' k''. map_of (pr_work s) w' = Some k'' \<longrightarrow> working k'' \<longrightarrow> w' \<noteq> w \<longrightarrow> job_key (hd (wk_todo k'')) \<noteq> job_key (hd (wk_todo k)))"
    using f(1) by simp
qed (use k in simp_all)

lemma zone_inv_delete:
  assumes inv: "zone_inv cal s" and k: "map_of (pr_work s) w = Some k" "wk_todo k = j # rest" "wk_phase k = Wk_read"
  shows "zone_inv cal (set_work w (Some (k\<lparr>wk_phase := Wk_deleted\<rparr>)) (delete_zone (tj_resolution j) (tj_timezone j) (tj_bucket j) s))"
proof -
  have ph: "wk_phase k \<noteq> Wk_claimed" using k(3) by simp
  note f = worker_facts [OF inv k(1,2) ph]
  let ?s = "delete_zone (tj_resolution j) (tj_timezone j) (tj_bucket j) s"
  from inv have c: "cache_inv cal s" by (rule zone_invE)
  have w: "pr_work ?s = pr_work s" by (simp add: delete_zone_def)
  have inv1: "zone_inv cal ?s"
  proof (rule zone_inv_cache [OF inv, where r = "tj_resolution j" and z = "tj_timezone j" and b = "tj_bucket j"])
    show "(tj_resolution j, tj_timezone j, tj_bucket j) \<notin> set (db_coverage s)" using f(5) by (simp add: job_key_def)
    show "bucket_start cal (tj_resolution j) (tj_timezone j) (tj_bucket j)" by (rule job_soundD [OF f(4)])
    show "distinct_keys (ch_cache ?s)" using c by (simp add: delete_zone_def cache_inv_def)
    show "wk_phase k' \<noteq> Wk_deleted \<and> wk_phase k' \<noteq> Wk_written"
      if "map_of (pr_work s) w' = Some k'" "working k'" "job_key (hd (wk_todo k')) = (tj_resolution j, tj_timezone j, tj_bucket j)" for w' k'
      using f(6) [OF that(1,2)] that(3) k(3) by (simp add: job_key_def)
  qed (auto simp: delete_zone_def)
  have k1: "map_of (pr_work ?s) w = Some k" using k(1) w by simp
  note f1 = worker_facts [OF inv1 k1 k(2) ph]
  show ?thesis
  proof (rule zone_inv_worker_phase [OF inv1 k1])
    show "work_ok cal ?s (hd (wk_todo k)) (k\<lparr>wk_phase := Wk_deleted\<rparr>)"
      using f1(2) k(3) by (simp add: work_ok_def k(2) cached_at_def) (simp add: delete_zone_def)
  qed (use k(2) f(1) in simp_all)
qed

lemma keyed_cache_rows: "distinct_keys rows \<Longrightarrow> distinct_keys (map (\<lambda>(d, m). ((r, z, b, d), m)) rows)"
  by (induction rows) (auto simp: image_iff)

lemma map_of_cache_rows:
  "map_of (map (\<lambda>(d, m). ((r', z', b', d), m)) rows) (r, z, b, d) = (if (r, z, b) = (r', z', b') then map_of rows d else None)"
  by (induction rows) auto

lemma zone_inv_insert:
  assumes inv: "zone_inv cal s" and k: "map_of (pr_work s) w = Some k" "wk_todo k = j # rest" "wk_phase k = Wk_deleted"
  shows "zone_inv cal (set_work w (Some (k\<lparr>wk_phase := Wk_written\<rparr>))
     (insert_zone (tj_resolution j) (tj_timezone j) (tj_bucket j) (wk_rows k) s))"
proof -
  have ph: "wk_phase k \<noteq> Wk_claimed" using k(3) by simp
  note f = worker_facts [OF inv k(1,2) ph]
  let ?key = "(tj_resolution j, tj_timezone j, tj_bucket j)"
  let ?k = "k\<lparr>wk_phase := Wk_read\<rparr>"
  let ?u = "set_work w (Some ?k) s"
  let ?s = "insert_zone (tj_resolution j) (tj_timezone j) (tj_bucket j) (wk_rows k) ?u"
  have rows: "distinct_keys (wk_rows k)" "\<And>d. cached_at s j d = None" using f(2) k(3) by (simp_all add: work_ok_def rows_ok_def)
  have inv0: "zone_inv cal ?u"
  proof (rule zone_inv_worker_phase [OF inv k(1)])
    show "work_ok cal s (hd (wk_todo k)) ?k" using f(2) k(3) by (simp add: work_ok_def k(2))
  qed (use k(2) f(1) in simp_all)
  have k0: "map_of (pr_work ?u) w = Some ?k" "wk_todo ?k = j # rest" by (simp_all add: set_work_def k(2))
  have ph0: "wk_phase ?k \<noteq> Wk_claimed" by simp
  note f0 = worker_facts [OF inv0 k0 ph0]
  from inv0 have c: "cache_inv cal ?u" by (rule zone_invE)
  let ?out = "map (\<lambda>(d, m). ((tj_resolution j, tj_timezone j, tj_bucket j, d), m)) (wk_rows k)"
  have dk: "distinct_keys ?out" by (rule keyed_cache_rows [OF rows(1)])
  have get: "map_of ?out (r, z, b, d) = (if (r, z, b) = ?key then map_of (wk_rows k) d else None)" for r z b d
    by (rule map_of_cache_rows)
  have put: "map_of (ch_cache ?s) (r, z, b, d)
      = (if (r, z, b) = ?key \<and> map_of (wk_rows k) d \<noteq> None then map_of (wk_rows k) d else map_of (ch_cache s) (r, z, b, d))" for r z b d
    by (simp add: insert_zone_def map_of_put_keyed [OF dk] get set_work_def split: option.split)
  have inv1: "zone_inv cal ?s"
  proof (rule zone_inv_cache [OF inv0, where r = "tj_resolution j" and z = "tj_timezone j" and b = "tj_bucket j"])
    show "?key \<notin> set (db_coverage ?u)" using f0(5) by (simp add: job_key_def)
    show "bucket_start cal (tj_resolution j) (tj_timezone j) (tj_bucket j)" by (rule job_soundD [OF f(4)])
    show "distinct_keys (ch_cache ?s)" using c by (simp add: insert_zone_def cache_inv_def)
    show "map_of (ch_cache ?s) (r', z', b', d) = map_of (ch_cache ?u) (r', z', b', d)" if "(r', z', b') \<noteq> ?key" for r' z' b' d
      using put [of r' z' b' d] that by (auto simp: set_work_def)
    show "wk_phase k' \<noteq> Wk_deleted \<and> wk_phase k' \<noteq> Wk_written"
      if "map_of (pr_work ?u) w' = Some k'" "working k'" "job_key (hd (wk_todo k')) = ?key" for w' k'
      using f0(6) [OF that(1,2)] that(3) by (simp add: job_key_def)
  qed (simp_all add: insert_zone_def)
  have k1: "map_of (pr_work ?s) w = Some ?k" using k0 by (simp add: insert_zone_def)
  note f1 = worker_facts [OF inv1 k1 k0(2) ph0]
  have "zone_inv cal (set_work w (Some (k\<lparr>wk_phase := Wk_written\<rparr>)) ?s)"
  proof (rule zone_inv_worker_phase [OF inv1 k1])
    have "cached_at ?s j d = map_of (wk_rows k) d" for d
      using put [of "tj_resolution j" "tj_timezone j" "tj_bucket j" d] rows(2) [of d] by (simp add: cached_at_def)
    then show "work_ok cal ?s (hd (wk_todo ?k)) (k\<lparr>wk_phase := Wk_written\<rparr>)" using f1(2) by (simp add: work_ok_def k(2))
  qed (use k(2) f1(1) in simp_all)
  then show ?thesis
    by (rule zone_inv_frame [rotated]) (auto simp: zone_view_def set_work_def insert_zone_def)
qed

lemma zone_inv_finish:
  assumes inv: "zone_inv cal s" and k: "map_of (pr_work s) w = Some k" "wk_todo k = j # rest" "wk_phase k = Wk_written"
  shows "zone_inv cal (finish_job now w k s)"
proof -
  have ph: "wk_phase k \<noteq> Wk_claimed" using k(3) by simp
  note f = worker_facts [OF inv k(1,2) ph]
  obtain res s1 where md: "markDone now (tj_id j) (tj_generation j) s = (res, s1)" by fastforce
  show ?thesis
  proof (cases "res = Accepted")
    case False
    then have "s1 = s" using md by (auto simp: markDone_def split: list.splits if_splits)
    then have e: "finish_job now w k s = set_work w (work_next k) (markPending now (tj_id j) (tj_generation j) s)"
      using False md by (simp add: finish_job_def k(2))
    have "map_of (pr_work (markPending now (tj_id j) (tj_generation j) s)) w = Some k" using k(1) by (simp add: markPending_def)
    then show ?thesis unfolding e by (rule zone_inv_next [OF zone_inv_pending [OF inv]])
  next
    case True
    obtain i rest' where flt: "filter (\<lambda>i. tj_id i = tj_id j \<and> tj_generation i = tj_generation j \<and> tj_status i = Job_inflight \<and> job_ready i s) (db_jobs s) = i # rest'"
      and reg: "tj_timezone i \<in> registered s"
      and s1: "s1 = s\<lparr>db_jobs := update_job (tj_id j) (\<lambda>j. j\<lparr>tj_status := Job_done, tj_updated := now\<rparr>) (db_jobs s),
            db_coverage := List.insert (job_key i) (db_coverage s)\<rparr>"
      using md True by (auto simp: markDone_def split: list.splits if_splits)
    have "i \<in> set (i # rest')" by simp
    then have i: "i \<in> set (db_jobs s)" "tj_id i = tj_id j" "tj_generation i = tj_generation j" "tj_status i = Job_inflight" "job_ready i s"
      unfolding flt [symmetric] by simp_all
    have ki: "job_key i = job_key j" using f(3) i(1,2) by (simp add: claim_ok_def)
    from inv have "jobs_inv cal s" by (rule zone_invE)
    then have "job_sound cal i" using i(1) by (simp add: jobs_inv_def)
    then have eq: "tj_resolution i = tj_resolution j" "tj_timezone i = tj_timezone j" "tj_bucket i = tj_bucket j" "tj_sourceTo i = tj_sourceTo j"
      using ki f(4) by (auto simp: job_key_def job_sound_def)
    have "current s j" using i by (auto simp: current_def)
    moreover have "job_ready j s" using i(5) eq by (simp add: job_ready_def below_watermark_def split: option.splits)
    ultimately have "map_of (wk_rows k) d = map_of (job_exact cal s j) d" for d
      using f(2) reg eq k(3) by (simp add: work_ok_def rows_ok_def)
    moreover have "cached_at s j d = map_of (wk_rows k) d" for d using f(2) k(3) by (simp add: work_ok_def)
    ultimately have exact: "cache_accurate cal s (tj_resolution j) (tj_timezone j) (tj_bucket j)"
      by (simp add: cache_accurate_def cached_at_def job_exact_def)
    let ?u = "set_work w (work_next k) s"
    have inv0: "zone_inv cal ?u" by (rule zone_inv_next [OF inv k(1)])
    have "zone_inv cal (finish_job now w k s)"
    proof (rule zone_inv_cover [OF inv0, of i])
      show "cache_accurate cal ?u (tj_resolution i) (tj_timezone i) (tj_bucket i)"
        using exact by (simp add: eq cache_accurate_def exact_zone_def set_work_def)
      show "job_key (hd (wk_todo k')) \<noteq> job_key i" if x: "map_of (pr_work ?u) w' = Some k'" "working k'" for w' k'
      proof (cases "w' = w")
        case True
        then have "work_next k = Some k'" using x(1) by (simp add: set_work_def)
        then show ?thesis using x(2) by (auto simp: work_next_def working_def split: if_splits)
      next
        case False
        then show ?thesis using f(6) [of w' k'] x ki by (auto simp: set_work_def)
      qed
    qed (use i reg eq True md s1 ki in \<open>auto simp: finish_job_def k(2) set_work_def job_ready_def below_watermark_def dirty_within_def\<close>)
    then show ?thesis .
  qed
qed

lemma zone_inv_work_step:
  assumes inv: "zone_inv cal s" and ca: "calendar_agrees cal" and k: "map_of (pr_work s) w = Some k" "wk_todo k = j # rest"
    and st: "work_step cal ev w k j s = Some s'"
    and calm: "\<And>v now. ev = Ev_lock v now \<Longrightarrow> lock_taken j s \<or> calm_lock w j s"
  shows "zone_inv cal s'"
proof -
  have nx: "zone_inv cal (set_work w (work_next k) (markPending now (tj_id j) (tj_generation j) s))"
    "zone_inv cal (set_work w (work_next k) (disableTimezone now (tj_timezone j) s))" for now
    by (rule zone_inv_next [OF zone_inv_pending [OF inv]], simp add: markPending_def k(1),
        rule zone_inv_next [OF zone_inv_disable [OF inv]], simp add: disableTimezone_def k(1))
  show ?thesis
  proof (cases ev)
    case (Ev_lock v now)
    then show ?thesis using st nx calm [OF Ev_lock] zone_inv_lock [OF inv k]
      by (auto simp: work_step_def split: worker_phase.splits if_splits)
  next
    case (Ev_work_read v)
    then show ?thesis using st zone_inv_read [OF inv ca k] by (auto simp: work_step_def split: worker_phase.splits sum.splits)
  next
    case (Ev_work_delete v)
    then show ?thesis using st zone_inv_delete [OF inv k] by (auto simp: work_step_def split: worker_phase.splits)
  next
    case (Ev_work_insert v)
    then show ?thesis using st zone_inv_insert [OF inv k] by (auto simp: work_step_def split: worker_phase.splits)
  next
    case (Ev_done v now)
    then show ?thesis using st zone_inv_finish [OF inv k] by (auto simp: work_step_def split: worker_phase.splits)
  qed (use st nx in \<open>auto simp: work_step_def split: worker_phase.splits\<close>)
qed

end
