(* ===== verification/Usage_Exactness.thy ===== *)
theory Usage_Exactness
  imports Usage_Worker_Proofs
begin

text \<open>
  The compactor against the timezone rollup: rewriting planned buckets leaves every settled window
  alone, and the commit takes the coverage of the windows it touched and outdates their jobs. With
  this every calm step keeps both invariants, so every reachable state has them.
\<close>

section \<open>The base changes in planned buckets\<close>

definition planned :: "usage_db \<Rightarrow> instant \<Rightarrow> bool" where
  "planned s k \<longleftrightarrow> (case pr_compact s of None \<Rightarrow> False | Some c \<Rightarrow> k \<in> set (cp_buckets c))"

lemma not_planned:
  assumes "base_inv s" "db_watermark s = Some w" "k < w" "k \<notin> set (db_dirty s)"
  shows "\<not> planned s k"
proof (cases "pr_compact s")
  case (Some c)
  have "cp_watermark c = w" using assms(1,2) Some by (auto simp: base_inv_def compaction_inv_def plan_sound_def)
  then have "k \<notin> set (cp_buckets c)" using below_not_planned [OF assms(1) Some] assms(3,4) by simp
  then show ?thesis using Some by (simp add: planned_def)
qed (simp add: planned_def)

text \<open>A window that is below the watermark and clean holds no planned bucket.\<close>

lemma window_not_planned:
  assumes "base_inv s" "db_watermark s = Some w" "to_t \<le> w" "\<not> dirty_within b to_t s" "b \<le> k" "k < to_t"
  shows "\<not> planned s k"
  by (rule not_planned [OF assms(1,2)]) (use assms(3-6) in \<open>auto simp: dirty_within_def\<close>)

lemma exact_zone_unplanned:
  assumes base: "filter (\<lambda>((k, d), m). \<not> planned s k) (ch_base s') = filter (\<lambda>((k, d), m). \<not> planned s k) (ch_base s)"
    and clear: "\<And>k. b \<le> k \<Longrightarrow> k < pg_source_to cal r z b \<Longrightarrow> \<not> planned s k"
  shows "exact_zone cal r z b s' = exact_zone cal r z b s"
proof -
  have "filter (\<lambda>((k, d), m). b \<le> k \<and> k < pg_source_to cal r z b) xs
      = filter (\<lambda>((k, d), m). b \<le> k \<and> k < pg_source_to cal r z b) (filter (\<lambda>((k, d), m). \<not> planned s k) xs)"
    for xs :: "((instant \<times> usage_dims) \<times> measures) list"
    unfolding filter_filter by (rule filter_cong [OF refl]) (use clear in auto)
  from this [of "ch_base s'"] this [of "ch_base s"] show ?thesis by (simp only: exact_zone_def base)
qed

lemma ready_not_planned:
  assumes "base_inv s" "job_ready j s" "tj_bucket j \<le> k" "k < tj_sourceTo j"
  shows "\<not> planned s k"
proof -
  obtain w where "db_watermark s = Some w" "tj_sourceTo j \<le> w" "\<not> dirty_within (tj_bucket j) (tj_sourceTo j) s"
    using assms(2) by (auto simp: job_ready_def below_watermark_def split: option.splits)
  then show ?thesis using window_not_planned [OF assms(1)] assms(3,4) by blast
qed

lemma zone_inv_base:
  assumes inv: "zone_inv cal s" and bi: "base_inv s"
    and same: "db_watermark s' = db_watermark s" "db_dirty s' = db_dirty s" "db_zones s' = db_zones s" "db_jobs s' = db_jobs s"
      "db_nextJob s' = db_nextJob s" "db_coverage s' = db_coverage s" "ch_cache s' = ch_cache s" "pr_work s' = pr_work s"
    and base: "filter (\<lambda>((k, d), m). \<not> planned s k) (ch_base s') = filter (\<lambda>((k, d), m). \<not> planned s k) (ch_base s)"
  shows "zone_inv cal s'"
proof -
  from inv obtain old: "jobs_inv cal s" "coverage_inv cal s" "open_inv s" "cache_inv cal s" "workers_inv cal s" "exclusive_inv s"
    by (rule zone_invE)
  have rest: "jobs_inv cal s'" "open_inv s'" "cache_inv cal s'" "exclusive_inv s'"
    using old(1,3,4,6) unfolding jobs_inv_def open_inv_def cache_inv_def exclusive_inv_def same .
  have st: "dirty_within x y s' = dirty_within x y s" "job_ready j s' = job_ready j s" "current s' j = current s j" for x y j
    by (simp_all add: dirty_within_def job_ready_def below_watermark_def current_def same)
  have "covered_ok cal s' key" if "key \<in> set (db_coverage s')" for key
  proof -
    obtain r z b where e: "key = (r, z, b)" by (cases key)
    have o: "covered_ok cal s (r, z, b)" using that old(2) by (simp add: coverage_inv_def same e)
    then obtain w where w: "db_watermark s = Some w" "pg_source_to cal r z b \<le> w" by (auto simp: covered_ok_def)
    have "exact_zone cal r z b s' = exact_zone cal r z b s" if "\<not> dirty_within b (pg_source_to cal r z b) s"
      by (rule exact_zone_unplanned [OF base]) (rule window_not_planned [OF bi w that])
    then show ?thesis using o by (simp add: e covered_ok_def same st cache_accurate_def)
  qed
  then have "coverage_inv cal s'" by (simp add: coverage_inv_def)
  moreover have "workers_inv cal s'"
  proof (rule workers_invI, unfold same)
    fix w k assume k: "map_of (pr_work s) w = Some k"
    note ok = workers_invD [OF old(5) k]
    let ?j = "hd (wk_todo k)"
    have ev: "evolves s s'" by (rule evolves_same) (rule same)+
    show "worker_ok cal s' k"
    proof (rule worker_ok_evolves [OF ok ev])
      show "rows_ok cal s' ?j (wk_rows k)" if w: "working k" and r: "rows_ok cal s ?j (wk_rows k)"
      proof (rule rows_ok_evolves [OF r worker_okD(1) [OF ok working_hd [OF w]] ev])
        assume a: "tj_timezone ?j \<in> registered s'" "job_ready ?j s'"
        have js: "job_sound cal ?j" using worker_okD(1) [OF ok working_hd [OF w]] by (simp add: claim_ok_def)
        have rd: "job_ready ?j s" using a(2) st by simp
        have "job_exact cal s' ?j = job_exact cal s ?j"
          unfolding job_exact_def
          by (rule exact_zone_unplanned [OF base]) (rule ready_not_planned [OF bi rd], use js in \<open>simp_all add: job_sound_def\<close>)
        then show "tj_timezone ?j \<in> registered s \<and> job_ready ?j s \<and> (\<forall>d. map_of (job_exact cal s' ?j) d = map_of (job_exact cal s ?j) d)"
          using a(1) rd by (simp add: same)
      qed
    qed (simp_all add: same cached_at_def)
  qed
  ultimately show ?thesis using rest by (simp add: zone_inv_def)
qed

section \<open>A compaction begins\<close>

lemma zone_inv_first_watermark:
  assumes inv: "zone_inv cal s" and none: "db_watermark s = None"
  shows "zone_inv cal (s\<lparr>db_watermark := Some w\<rparr>)"
proof -
  let ?s = "s\<lparr>db_watermark := Some w\<rparr>"
  from inv obtain old: "jobs_inv cal s" "coverage_inv cal s" "open_inv s" "cache_inv cal s" "workers_inv cal s" "exclusive_inv s"
    by (rule zone_invE)
  have cov: "db_coverage s = []"
  proof (cases "db_coverage s")
    case (Cons key ks)
    then have "covered_ok cal s key" using old(2) by (simp add: coverage_inv_def)
    then show ?thesis using none by (cases key) (simp add: covered_ok_def)
  qed
  have "worker_ok cal ?s k" if k: "map_of (pr_work s) v = Some k" for v k
  proof -
    have "claim_ok cal s j" if "j \<in> set (wk_todo k)" for j using worker_okD(1) [OF workers_invD [OF old(5) k] that] .
    then have "wk_todo k = []" using none by (cases "wk_todo k") (auto simp: claim_ok_def)
    then show ?thesis by (simp add: worker_ok_def working_def)
  qed
  then have "workers_inv cal ?s" by (simp add: workers_inv_def)
  then show ?thesis using old(1,3,4,6) cov
    by (simp add: zone_inv_def jobs_inv_def coverage_inv_def open_inv_def cache_inv_def exclusive_inv_def)
qed

lemma zone_inv_begin:
  assumes inv: "zone_inv cal s"
  shows "zone_inv cal (begin_compaction e m s)"
proof (cases "cp_buckets (plan_compaction e m s) = []")
  case False
  then have "begin_compaction e m s = s\<lparr>pr_compact := Some (plan_compaction e m s)\<rparr>" by (simp add: begin_compaction_def Let_def)
  then show ?thesis by (simp add: zone_inv_frame [OF _ inv] zone_view_def)
next
  case True
  show ?thesis
  proof (cases "db_watermark s")
    case None
    then show ?thesis using True zone_inv_first_watermark [OF inv None] by (simp add: begin_compaction_def Let_def)
  next
    case (Some w)
    then have "begin_compaction e m s = s" using True by (simp add: begin_compaction_def Let_def)
    then show ?thesis using inv by simp
  qed
qed

section \<open>A compaction commits\<close>

text \<open>What the upserts of a commit do to the jobs.\<close>

definition traced :: "(resolution \<times> string \<times> instant) list \<Rightarrow> nat \<times> zone_job list \<Rightarrow> zone_job \<Rightarrow> bool" where
  "traced keys old j' \<longleftrightarrow> fst old \<le> tj_id j'
     \<or> (\<exists>j \<in> set (snd old). tj_id j' = tj_id j \<and> job_key j' = job_key j \<and> tj_generation j \<le> tj_generation j'
           \<and> (job_key j' \<in> set keys \<longrightarrow> tj_generation j < tj_generation j'))"

definition upserted :: "calendar \<Rightarrow> (resolution \<times> string \<times> instant) list \<Rightarrow> nat \<times> zone_job list \<Rightarrow> nat \<times> zone_job list \<Rightarrow> bool" where
  "upserted cal keys old new \<longleftrightarrow> fst old \<le> fst new
     \<and> distinct (map tj_id (snd new)) \<and> distinct (map job_key (snd new))
     \<and> (\<forall>j \<in> set (snd new). tj_id j < fst new \<and> job_sound cal j)
     \<and> (\<forall>j' \<in> set (snd new). traced keys old j')
     \<and> (\<forall>j' \<in> set (snd new). job_key j' \<notin> set keys \<longrightarrow> j' \<in> set (snd old))"

lemma upsertedD:
  assumes "upserted cal keys old (n, js)"
  shows "fst old \<le> n" "distinct (map tj_id js)" "distinct (map job_key js)"
    "j \<in> set js \<Longrightarrow> tj_id j < n" "j \<in> set js \<Longrightarrow> job_sound cal j" "j \<in> set js \<Longrightarrow> traced keys old j"
    "j \<in> set js \<Longrightarrow> job_key j \<notin> set keys \<Longrightarrow> j \<in> set (snd old)"
  using assms unfolding upserted_def by auto

lemma upsertedI:
  assumes "fst old \<le> n" "distinct (map tj_id js)" "distinct (map job_key js)"
    "\<And>j. j \<in> set js \<Longrightarrow> tj_id j < n \<and> job_sound cal j" "\<And>j. j \<in> set js \<Longrightarrow> traced keys old j"
    "\<And>j. j \<in> set js \<Longrightarrow> job_key j \<notin> set keys \<Longrightarrow> j \<in> set (snd old)"
  shows "upserted cal keys old (n, js)"
  using assms unfolding upserted_def fst_conv snd_conv by blast

lemma upserted_refl:
  assumes "distinct (map tj_id js)" "distinct (map job_key js)" "\<forall>j \<in> set js. tj_id j < n \<and> job_sound cal j"
  shows "upserted cal [] (n, js) (n, js)"
  by (rule upsertedI) (use assms in \<open>auto simp: traced_def\<close>)

definition renew :: "instant \<Rightarrow> instant \<Rightarrow> zone_job \<Rightarrow> zone_job" where
  "renew now e j = j\<lparr>tj_status := Job_pending, tj_sourceTo := e, tj_generation := tj_generation j + 1, tj_updated := now\<rparr>"

lemma renew_simps [simp]: "tj_id (renew now e j) = tj_id j" "job_key (renew now e j) = job_key j"
  "tj_generation (renew now e j) = Suc (tj_generation j)" "tj_sourceTo (renew now e j) = e"
  by (simp_all add: renew_def job_key_def)

lemma upserted_renew:
  assumes up: "upserted cal keys old (n, js)"
    and b: "bucket_start cal (fst key) (fst (snd key)) (snd (snd key))"
    and e: "e = pg_source_to cal (fst key) (fst (snd key)) (snd (snd key))"
  shows "upserted cal (key # keys) old (n, map (\<lambda>j. if job_key j = key then renew now e j else j) js)"
proof -
  let ?f = "\<lambda>j. if job_key j = key then renew now e j else j"
  note u = upsertedD [OF up]
  have f: "tj_id (?f j) = tj_id j" "job_key (?f j) = job_key j" "tj_generation j \<le> tj_generation (?f j)" for j by simp_all
  have m: "map tj_id (map ?f js) = map tj_id js" "map job_key (map ?f js) = map job_key js" using f by simp_all
  show ?thesis
  proof (rule upsertedI, unfold m)
    fix j' assume "j' \<in> set (map ?f js)"
    then obtain i where i: "i \<in> set js" "j' = ?f i" by auto
    have "job_sound cal (renew now e i)" if "job_key i = key"
      using b e that by (auto simp: job_sound_def job_key_def renew_def)
    then show "tj_id j' < n \<and> job_sound cal j'" using u(4,5) [OF i(1)] i(2) by simp
    show "traced (key # keys) old j'"
      using u(6) [OF i(1)] i(2) unfolding traced_def by (cases "job_key i = key") (auto simp: less_Suc_eq_le)
    show "j' \<in> set (snd old)" if "job_key j' \<notin> set (key # keys)"
      using u(7) [OF i(1)] i(2) that by (auto split: if_splits)
  qed (use u in auto)
qed

lemma upserted_new:
  assumes up: "upserted cal keys old (n, js)" and fresh: "key \<notin> job_key ` set js"
    and j: "job_key j = key" "tj_id j = n" "job_sound cal j"
  shows "upserted cal (key # keys) old (Suc n, js @ [j])"
proof -
  note u = upsertedD [OF up]
  have ids: "n \<notin> tj_id ` set js" using u(4) by force
  show ?thesis
  proof (rule upsertedI)
    fix j' assume a: "j' \<in> set (js @ [j])"
    show "tj_id j' < Suc n \<and> job_sound cal j'" using a u(4,5) [of j'] j by (auto simp: less_Suc_eq)
    show "traced (key # keys) old j'"
    proof (cases "j' \<in> set js")
      case True
      then have "job_key j' \<noteq> key" using fresh by auto
      then show ?thesis using u(6) [OF True] by (simp add: traced_def)
    qed (use a j u(1) in \<open>auto simp: traced_def\<close>)
    show "j' \<in> set (snd old)" if "job_key j' \<notin> set (key # keys)" using a u(7) [of j'] j(1) that by auto
  qed (use u ids fresh j in auto)
qed

lemma upserted_step:
  assumes up: "upserted cal keys old nj"
    and b: "bucket_start cal (fst key) (fst (snd key)) (snd (snd key))"
  shows "upserted cal (key # keys) old (upsert_job cal now key nj)"
proof -
  obtain n js where nj: "nj = (n, js)" by (cases nj)
  let ?e = "pg_source_to cal (fst key) (fst (snd key)) (snd (snd key))"
  show ?thesis
  proof (cases "key \<in> job_key ` set js")
    case True
    then have "upsert_job cal now key nj = (n, map (\<lambda>j. if job_key j = key then renew now ?e j else j) js)"
      by (simp add: upsert_job_def nj Let_def renew_def)
    then show ?thesis using upserted_renew [OF up [unfolded nj] b refl, of now] by simp
  next
    case False
    have "upsert_job cal now key nj = (Suc n, js @ [new_job n now key ?e])"
      using False by (simp add: upsert_job_def nj Let_def)
    then show ?thesis using upserted_new [OF up [unfolded nj] False, of "new_job n now key ?e"] b
      by (simp add: job_key_def job_sound_def new_job_def)
  qed
qed

lemma upserted_fold:
  assumes "upserted cal done_keys old nj" "\<forall>key \<in> set ks. bucket_start cal (fst key) (fst (snd key)) (snd (snd key))"
  shows "upserted cal (rev ks @ done_keys) old (fold (upsert_job cal now) ks nj)"
  using assms
proof (induction ks arbitrary: done_keys nj)
  case (Cons k ks)
  have "upserted cal (k # done_keys) old (upsert_job cal now k nj)" by (rule upserted_step) (use Cons.prems in auto)
  from Cons.IH [OF this] Cons.prems(2) show ?case by simp
qed simp


lemma plan_in_window:
  assumes bi: "base_inv s" and c: "pr_compact s = Some c" and ca: "calendar_agrees cal" and b: "bucket_start cal r z b"
    and w: "db_watermark s \<noteq> None" and to_t: "pg_source_to cal r z b \<le> cp_new_watermark c"
    and clear: "\<And>k. b \<le> k \<Longrightarrow> k < pg_source_to cal r z b \<Longrightarrow> k \<notin> set (cp_buckets c)"
  shows "\<exists>w. db_watermark s = Some w \<and> pg_source_to cal r z b \<le> w"
proof -
  have ps: "plan_sound s c" "plan_contiguous c" using bi c by (simp_all add: base_inv_def compaction_inv_def)
  obtain w0 where w0: "db_watermark s = Some w0" using w by blast
  have w0': "w0 = cp_watermark c" using ps(1) w0 unfolding plan_sound_def by blast
  note wf = window_facts [OF ca b]
  have "pg_source_to cal r z b \<le> cp_watermark c"
  proof (rule ccontr)
    assume n: "\<not> pg_source_to cal r z b \<le> cp_watermark c"
    let ?k = "pg_source_to cal r z b - 900000"
    have ap: "aligned (cp_watermark c)" using ps(1) by (simp add: plan_sound_def)
    have al: "aligned ?k" using wf(2) by (simp add: aligned_dvd)
    have "b \<le> ?k" using aligned_step [OF wf(3,2,1)] by simp
    moreover have "cp_watermark c \<le> ?k" using aligned_step [OF ap wf(2)] n by simp
    ultimately have "?k \<in> set (cp_contiguous c)" using ps(2) al to_t by (simp add: plan_contiguous_def)
    then show False using clear [OF \<open>b \<le> ?k\<close>] by simp
  qed
  then show ?thesis using w0 w0' by simp
qed

lemma zone_inv_commit:
  assumes inv: "zone_inv cal s" and bi: "base_inv s" and ca: "calendar_agrees cal" and c: "pr_compact s = Some c"
  shows "zone_inv cal (commit_compaction cal now c s)"
proof -
  let ?s = "commit_compaction cal now c s"
  let ?R = "requested_jobs cal (cp_buckets c) (db_zones s)"
  from inv obtain old: "jobs_inv cal s" "coverage_inv cal s" "open_inv s" "cache_inv cal s" "workers_inv cal s" "exclusive_inv s"
    by (rule zone_invE)
  have same: "db_zones ?s = db_zones s" "ch_base ?s = ch_base s" "ch_cache ?s = ch_cache s" "pr_work ?s = pr_work s"
    by (simp_all add: commit_compaction_def invalidateTimezoneRollupJobs_def Let_def)
  have wm: "db_watermark ?s = Some (cp_new_watermark c)" by (simp add: commit_compaction_def Let_def)
  have dirty: "set (db_dirty ?s) = set (db_dirty s) - set (cp_buckets c)"
    by (auto simp: commit_compaction_def invalidateTimezoneRollupJobs_def Let_def)
  have cov: "db_coverage ?s = filter (\<lambda>k. k \<notin> set ?R) (db_coverage s)"
    by (simp add: commit_compaction_def invalidateTimezoneRollupJobs_def Let_def)
  have R: "(r, z, b) \<in> set ?R \<longleftrightarrow> z \<in> registered s \<and> (\<exists>k \<in> set (cp_buckets c). b = cal_trunc cal r z k)" for r z b
    by (cases r) (auto simp: requested_jobs_def)
  have up: "upserted cal (rev ?R) (db_nextJob s, db_jobs s) (db_nextJob ?s, db_jobs ?s)"
  proof -
    have "upserted cal [] (db_nextJob s, db_jobs s) (db_nextJob s, db_jobs s)"
      by (rule upserted_refl) (use old(1) in \<open>simp_all add: jobs_inv_def\<close>)
    moreover have "\<forall>key \<in> set ?R. bucket_start cal (fst key) (fst (snd key)) (snd (snd key))"
      using R bucket_start_trunc [OF ca] by auto
    ultimately have "upserted cal (rev ?R @ []) (db_nextJob s, db_jobs s) (fold (upsert_job cal now) ?R (db_nextJob s, db_jobs s))"
      by (rule upserted_fold)
    then show ?thesis by (simp add: commit_compaction_def invalidateTimezoneRollupJobs_def Let_def)
  qed
  have ps: "plan_sound s c" using bi c by (simp add: base_inv_def compaction_inv_def)
  note u = upsertedD [OF up]
  have ev: "evolves s ?s" using u(1,6) unfolding evolves_def traced_def by fastforce
  text \<open>A window of a registered zone that the plan leaves alone.\<close>
  have alone: "(\<exists>w. db_watermark s = Some w \<and> pg_source_to cal r z b \<le> w)" "\<not> dirty_within b (pg_source_to cal r z b) s"
    if k: "z \<in> registered s" "(r, z, b) \<notin> set ?R" "bucket_start cal r z b" and w: "db_watermark s \<noteq> None"
      and to_t: "pg_source_to cal r z b \<le> cp_new_watermark c" and cl: "\<not> dirty_within b (pg_source_to cal r z b) ?s" for r z b
  proof -
    have clear: "x \<notin> set (cp_buckets c)" if "b \<le> x" "x < pg_source_to cal r z b" for x
      using k(1,2) R window_iff [OF ca k(3), of x] that by blast
    show "\<exists>w. db_watermark s = Some w \<and> pg_source_to cal r z b \<le> w" by (rule plan_in_window [OF bi c ca k(3) w to_t clear])
    show "\<not> dirty_within b (pg_source_to cal r z b) s" using cl clear unfolding dirty_within_def dirty by blast
  qed
  have "jobs_inv cal ?s" using u(2-5) unfolding jobs_inv_def by blast
  moreover have "covered_ok cal ?s key" if k: "key \<in> set (db_coverage ?s)" for key
  proof -
    obtain r z b where e: "key = (r, z, b)" by (cases key)
    have k': "(r, z, b) \<in> set (db_coverage s)" "(r, z, b) \<notin> set ?R" using k by (simp_all add: cov e)
    have o: "covered_ok cal s (r, z, b)" using k'(1) old(2) by (simp add: coverage_inv_def)
    then obtain w where w: "db_watermark s = Some w" "pg_source_to cal r z b \<le> w" by (auto simp: covered_ok_def)
    have "w = cp_watermark c" using ps w(1) unfolding plan_sound_def by blast
    then have to_t: "pg_source_to cal r z b \<le> cp_new_watermark c" using w(2) by (simp add: cp_new_watermark_def STORAGE_FIFTEEN_MINUTES_MS_def)
    have reg: "z \<in> registered s" "bucket_start cal r z b" using o by (simp_all add: covered_ok_def)
    have acc: "cache_accurate cal ?s r z b = cache_accurate cal s r z b" by (rule cache_accurate_cong) (rule same)+
    show ?thesis using o reg to_t alone(2) [OF reg(1) k'(2) reg(2) _ to_t] w(1)
      by (auto simp: e covered_ok_def same(1) wm acc)
  qed
  then have "coverage_inv cal ?s" by (simp add: coverage_inv_def)
  moreover have "open_inv ?s"
    unfolding open_inv_def
  proof (intro ballI impI)
    fix j assume j: "j \<in> set (db_jobs ?s)" "tj_status j \<noteq> Job_done"
    show "job_key j \<notin> set (db_coverage ?s)"
    proof (cases "job_key j \<in> set ?R")
      case False
      then have "j \<in> set (db_jobs s)" using u(7) [OF j(1)] by simp
      then show ?thesis using old(3) j(2) by (simp add: open_inv_def cov)
    qed (simp add: cov)
  qed
  moreover have "cache_inv cal ?s" "exclusive_inv ?s" using old(4,6) unfolding cache_inv_def exclusive_inv_def same .
  moreover have "workers_inv cal ?s"
  proof (rule workers_invI, unfold same(4))
    fix w k assume k: "map_of (pr_work s) w = Some k"
    note ok = workers_invD [OF old(5) k]
    let ?j = "hd (wk_todo k)"
    show "worker_ok cal ?s k"
    proof (rule worker_ok_evolves [OF ok ev])
      show "rows_ok cal ?s ?j (wk_rows k)" if wk: "working k" and r: "rows_ok cal s ?j (wk_rows k)"
      proof (rule rows_ok_evolves [OF r worker_okD(1) [OF ok working_hd [OF wk]] ev])
        assume a: "tj_timezone ?j \<in> registered ?s" "current ?s ?j" "job_ready ?j ?s"
        have cl: "claim_ok cal s ?j" by (rule worker_okD(1) [OF ok working_hd [OF wk]])
        then have js: "bucket_start cal (tj_resolution ?j) (tj_timezone ?j) (tj_bucket ?j)"
          "tj_sourceTo ?j = pg_source_to cal (tj_resolution ?j) (tj_timezone ?j) (tj_bucket ?j)" by (simp_all add: claim_ok_def job_sound_def)
        obtain j' where j': "j' \<in> set (db_jobs ?s)" "tj_id j' = tj_id ?j" "tj_generation j' = tj_generation ?j"
          using a(2) by (auto simp: current_def)
        have "\<not> db_nextJob s \<le> tj_id j'" using cl j'(2) by (simp add: claim_ok_def)
        then obtain i where i: "i \<in> set (db_jobs s)" "tj_id j' = tj_id i" "job_key j' = job_key i"
          "job_key j' \<in> set (rev ?R) \<longrightarrow> tj_generation i < tj_generation j'"
          using u(6) [OF j'(1)] unfolding traced_def by auto
        have "job_key i = job_key ?j \<and> tj_generation ?j \<le> tj_generation i" using cl i(1,2) j'(2) by (simp add: claim_ok_def)
        then have "job_key ?j \<notin> set ?R" using i(3,4) j'(3) by auto
        then have nR: "(tj_resolution ?j, tj_timezone ?j, tj_bucket ?j) \<notin> set ?R" by (simp add: job_key_def)
        have to_t: "pg_source_to cal (tj_resolution ?j) (tj_timezone ?j) (tj_bucket ?j) \<le> cp_new_watermark c"
          "\<not> dirty_within (tj_bucket ?j) (pg_source_to cal (tj_resolution ?j) (tj_timezone ?j) (tj_bucket ?j)) ?s"
          using a(3) js(2) by (simp_all add: job_ready_def below_watermark_def wm)
        have w: "db_watermark s \<noteq> None" using cl by (simp add: claim_ok_def)
        have reg: "tj_timezone ?j \<in> registered s" using a(1) by (simp add: same)
        have "job_ready ?j s"
          using alone [OF reg nR js(1) w to_t] by (auto simp: job_ready_def below_watermark_def js(2))
        then show "tj_timezone ?j \<in> registered s \<and> job_ready ?j s \<and> (\<forall>d. map_of (job_exact cal ?s ?j) d = map_of (job_exact cal s ?j) d)"
          using reg job_exact_cong [OF same(2)] by simp
      qed
    qed (simp_all add: wm cov cached_at_def same)
  qed
  ultimately show ?thesis by (simp add: zone_inv_def)
qed


section \<open>Every calm step\<close>

lemma zone_view_frames:
  "zone_view (snd (enqueueUsageEvents as t now es s)) = zone_view s"
  "zone_view (flush_rollback i s) = zone_view s"
  "zone_view (set_flush p f s) = zone_view s" "zone_view (set_change q c s) = zone_view s"
  "zone_view (change_raw x s) = zone_view s" "zone_view (apply_change g s) = zone_view s"
  "zone_view (insert_raw tok rows s) = zone_view s" "zone_view (s\<lparr>pr_compact := cp\<rparr>) = zone_view s"
  by (simp_all add: enqueueUsageEvents_def flush_rollback_def set_flush_def set_change_def change_raw_def apply_change_def
      insert_raw_def zone_view_def Let_def split: prod.split option.split)

lemma zone_view_pairs:
  "flush_claim now n s = (f, y) \<Longrightarrow> zone_view y = zone_view s"
  "reconcileUsageEvents r s = (c, y) \<Longrightarrow> zone_view y = zone_view s"
  "insert_hourly t rows s = Some s' \<Longrightarrow> zone_view s' = zone_view s"
  by (auto simp: flush_claim_def reconcileUsageEvents_def insert_hourly_def zone_view_def Let_def split: option.splits if_splits)

lemma zone_inv_flush_commit:
  assumes "zone_inv cal s"
  shows "zone_inv cal (flush_commit now i rows s)"
proof -
  let ?s = "if rows = [] then s else mark15mRollupDirty (map or_ts rows) s"
  have "zone_inv cal ?s" using assms by (simp add: zone_inv_mark)
  moreover have "zone_view (flush_commit now i rows s) = zone_view ?s"
    by (simp add: flush_commit_def zone_view_def Let_def)
  ultimately show ?thesis using zone_inv_frame by blast
qed

lemma zone_inv_on_flusher:
  assumes "on_flusher ev p s = Some s'" "zone_inv cal s"
  shows "zone_inv cal s'"
proof -
  obtain f where f: "flush_step ev p f s = Some s'"
    using assms(1) by (auto simp: on_flusher_def split: option.splits)
  obtain i t rest where todo: "fl_todo f = (i, t) # rest" using f by (auto simp: flush_step_def split: list.splits)
  note st = f [unfolded flush_step_def todo list.case prod.case]
  consider (frame) "zone_view s' = zone_view s" | (com) now g where "s' = set_flush p g (flush_commit now i (fl_rows f) s)"
    using st by (cases ev; cases "fl_phase f") (auto simp: zone_view_frames dest: zone_view_pairs(3))
  then show ?thesis
  proof cases
    case frame
    then show ?thesis using zone_inv_frame assms(2) by blast
  next
    case com
    show ?thesis unfolding com by (rule zone_inv_frame [OF zone_view_frames(3) zone_inv_flush_commit [OF assms(2)]])
  qed
qed

lemma zone_inv_on_changer:
  assumes "on_changer ev q s = Some s'" "zone_inv cal s"
  shows "zone_inv cal s'"
proof -
  obtain c where c: "change_step ev q c s = Some s'"
    using assms(1) by (auto simp: on_changer_def split: option.splits)
  consider (mark) g where "s' = set_change q g (mark15mRollupDirty (cg_times c) s)" | (app) g where "s' = set_change q g (apply_change c s)"
    using c by (cases ev; cases "cg_phase c") (auto simp: change_step_def)
  then show ?thesis
  proof cases
    case mark
    show ?thesis unfolding mark by (rule zone_inv_frame [OF zone_view_frames(4) zone_inv_mark [OF assms(2)]])
  next
    case app
    show ?thesis unfolding app by (rule zone_inv_frame [OF trans [OF zone_view_frames(4) zone_view_frames(6)] assms(2)])
  qed
qed

lemma zone_inv_on_compactor:
  assumes "on_compactor cal ev s = Some s'" "zone_inv cal s" "base_inv s" "calendar_agrees cal"
  shows "zone_inv cal s'"
proof -
  obtain c where c: "pr_compact s = Some c" "compact_step cal ev c s = Some s'"
    using assms(1) by (auto simp: on_compactor_def split: option.splits)
  have pl: "planned s k \<longleftrightarrow> k \<in> set (cp_contiguous c) \<or> k \<in> set (cp_dirty c)" for k by (simp add: planned_def c(1))
  consider (read) "ev = Ev_compact_read" "cp_phase c = Cp_planned" | (del) "ev = Ev_compact_delete" "cp_phase c = Cp_read"
    | (ins) "ev = Ev_compact_insert" "cp_phase c = Cp_deleted" | (com) now where "ev = Ev_compact_commit now" "cp_phase c = Cp_inserted"
    | (fl) "ev = Ev_compact_fail"
    using c(2) by (auto simp: compact_step_def split: event.splits compaction_phase.splits)
  then show ?thesis
  proof cases
    case read
    then have "zone_view s' = zone_view s" using c(2) by (auto simp: compact_step_def zone_view_frames)
    then show ?thesis using zone_inv_frame assms(2) by blast
  next
    case del
    then have s': "s' = (deleteRollupBuckets (cp_dirty c) s)\<lparr>pr_compact := Some (c\<lparr>cp_phase := Cp_deleted\<rparr>)\<rparr>"
      using c(2) by (simp add: compact_step_def)
    have "filter (\<lambda>((k, d), m). \<not> planned s k) (ch_base s') = filter (\<lambda>((k, d), m). \<not> planned s k) (ch_base s)"
      unfolding s' deleteRollupBuckets_def delete_where_def
      by (simp add: filter_filter) (rule filter_cong [OF refl], use pl in auto)
    then show ?thesis by (rule zone_inv_base [OF assms(2,3), rotated 8]) (simp_all add: s' deleteRollupBuckets_def)
  next
    case ins
    then have s': "s' = s\<lparr>ch_base := put_rows (cp_rows c) (ch_base s), pr_compact := Some (c\<lparr>cp_phase := Cp_inserted\<rparr>)\<rparr>"
      using c(2) by (simp add: compact_step_def)
    have rows: "\<And>k. k \<in> fst ` set (cp_rows c) \<Longrightarrow> planned s (fst k)"
      using assms(3) c(1) unfolding pl by (auto simp: base_inv_def compaction_inv_def plan_rows_def)
    have "filter (\<lambda>((k, d), m). \<not> planned s k) (put_rows (cp_rows c) (ch_base s)) = filter (\<lambda>((k, d), m). \<not> planned s k) (ch_base s)"
      by (rule filter_put_rows_other) (use rows in force)+
    then have "filter (\<lambda>((k, d), m). \<not> planned s k) (ch_base s') = filter (\<lambda>((k, d), m). \<not> planned s k) (ch_base s)" by (simp add: s')
    then show ?thesis by (rule zone_inv_base [OF assms(2,3), rotated 8]) (simp_all add: s')
  next
    case com
    then have s': "s' = commit_compaction cal now c s" using c(2) by (simp add: compact_step_def)
    show ?thesis unfolding s' by (rule zone_inv_commit [OF assms(2-4) c(1)])
  next
    case fl
    then have "s' = s\<lparr>pr_compact := None\<rparr>" using c(2) by (simp add: compact_step_def split: compaction_phase.splits)
    then show ?thesis using zone_inv_frame [OF zone_view_frames(8) assms(2)] by simp
  qed
qed

lemma zone_inv_on_worker:
  assumes "on_worker cal ev w s = Some s'" "zone_inv cal s" "calendar_agrees cal"
    "\<And>v now k. ev = Ev_lock v now \<Longrightarrow> map_of (pr_work s) w = Some k \<Longrightarrow> lock_taken (hd (wk_todo k)) s \<or> calm_lock w (hd (wk_todo k)) s"
  shows "zone_inv cal s'"
proof -
  obtain k j rest where k: "map_of (pr_work s) w = Some k" "wk_todo k = j # rest" "work_step cal ev w k j s = Some s'"
    using assms(1) by (auto simp: on_worker_def split: option.splits list.splits)
  have "lock_taken j s \<or> calm_lock w j s" if "ev = Ev_lock v now" for v now
    using assms(4) [OF that k(1)] k(2) by simp
  then show ?thesis by (rule zone_inv_work_step [OF assms(2,3) k])
qed

lemma zone_inv_step:
  assumes inv: "zone_inv cal s" and bi: "base_inv s" and ca: "calendar_agrees cal"
    and st: "step cal ev s = Some s'" and calm: "calm cal ev s"
  shows "zone_inv cal s'"
proof -
  have fr: "zone_inv cal s'" if "zone_view s' = zone_view s" using zone_inv_frame [OF that inv] .
  note fl = zone_inv_on_flusher [OF _ inv] and ch = zone_inv_on_changer [OF _ inv]
    and co = zone_inv_on_compactor [OF _ inv bi ca] and wo = zone_inv_on_worker [OF _ inv ca]
  show ?thesis
  proof (cases ev)
    case (Ev_flush_claim p now limit)
    have "zone_view s' = zone_view s"
      using st Ev_flush_claim by (auto simp: Let_def zone_view_frames dest: zone_view_pairs split: prod.splits if_splits)
    then show ?thesis by (rule fr)
  next
    case (Ev_reconcile q r)
    have "zone_view s' = zone_view s"
      using st Ev_reconcile by (auto simp: start_change_def zone_view_frames dest: zone_view_pairs split: prod.splits if_splits)
    then show ?thesis by (rule fr)
  next
    case (Ev_compact_begin now d m)
    then show ?thesis using st by (auto split: if_splits intro: zone_inv_begin [OF inv])
  next
    case (Ev_claim w now limit)
    obtain js s1 where c: "claimJobs now limit s = (js, s1)" by fastforce
    then show ?thesis using st Ev_claim zone_inv_claim [OF inv c] by (auto split: if_splits)
  next
    case (Ev_register z)
    have "zone_inv cal (snd (ensureRegisteredTimezone z MAX_ACTIVE_ROLLUP_TIMEZONES s))"
    proof (rule zone_inv_register [OF inv])
      fix w k assume a: "map_of (pr_work s) w = Some k" "working k"
      have "w \<in> set (map fst (pr_work s))" using a(1) by (force dest: map_of_SomeD)
      then show "tj_timezone (hd (wk_todo k)) \<noteq> z" using calm a Ev_register by force
    qed
    then show ?thesis using st Ev_register by simp
  next
    case (Ev_lock w now)
    show ?thesis by (rule wo [OF st [unfolded Ev_lock step.simps]]) (use calm Ev_lock in auto)
  qed (use st calm inv in
      \<open>auto simp: start_change_def zone_view_frames zone_inv_validate zone_inv_prewarm zone_inv_crash zone_inv_prune
        intro: fl ch co wo zone_inv_frame [OF _ inv] split: if_splits\<close>)
qed

lemma zone_inv_empty: "zone_inv cal empty_db"
  by (simp add: empty_db_def zone_inv_def jobs_inv_def coverage_inv_def open_inv_def cache_inv_def workers_inv_def exclusive_inv_def)

text \<open>Both invariants hold in every state a calm run reaches.\<close>

lemma reachable_base_inv: "reachable cal s \<Longrightarrow> base_inv s"
  by (induction rule: reachable.induct) (auto intro: base_inv_empty base_inv_step)

lemma reachable_zone_inv: "reachable cal s \<Longrightarrow> calendar_agrees cal \<Longrightarrow> zone_inv cal s"
  by (induction rule: reachable.induct) (auto intro: zone_inv_empty zone_inv_step reachable_base_inv)

end
