(* ===== verification/Usage_Reads.thy ===== *)
theory Usage_Reads
  imports Usage_Exactness
begin

text \<open>
  What the dashboards read is what the raw rows say: \<open>exactTimeseriesSource\<close> and
  \<open>resolveTimeseriesSource\<close> give, for every bucket and every selection of dimensions, the totals a scan
  of the raw rows gives, wherever no raw change is still waiting to be marked.
\<close>

section \<open>Totals over a range\<close>

lemma sum_filter_split:
  fixes f :: "'a \<Rightarrow> measures"
  shows "sum_list (map f (filter P xs)) = sum_list (map f (filter (\<lambda>x. P x \<and> R x) xs)) + sum_list (map f (filter (\<lambda>x. P x \<and> \<not> R x) xs))"
  by (induction xs) (auto simp: ac_simps)

lemma total_split: "total P rows = total (\<lambda>k. P k \<and> R k) rows + total (\<lambda>k. P k \<and> \<not> R k) rows"
  by (induction rows) (auto simp: total_Cons ac_simps)

lemma total_range_split:
  fixes a m b :: int
  assumes "a \<le> m" "m \<le> b"
  shows "total (\<lambda>(t, d). a \<le> t \<and> t < b \<and> Q t d) rows = total (\<lambda>(t, d). a \<le> t \<and> t < m \<and> Q t d) rows + total (\<lambda>(t, d). m \<le> t \<and> t < b \<and> Q t d) rows"
proof -
  have "total (\<lambda>(t, d). a \<le> t \<and> t < b \<and> Q t d) rows
      = total (\<lambda>k. (case k of (t, d) \<Rightarrow> a \<le> t \<and> t < b \<and> Q t d) \<and> fst k < m) rows
        + total (\<lambda>k. (case k of (t, d) \<Rightarrow> a \<le> t \<and> t < b \<and> Q t d) \<and> \<not> fst k < m) rows"
    by (rule total_split)
  also have "total (\<lambda>k. (case k of (t, d) \<Rightarrow> a \<le> t \<and> t < b \<and> Q t d) \<and> fst k < m) rows = total (\<lambda>(t, d). a \<le> t \<and> t < m \<and> Q t d) rows"
    by (rule total_cong) (use assms in auto)
  also have "total (\<lambda>k. (case k of (t, d) \<Rightarrow> a \<le> t \<and> t < b \<and> Q t d) \<and> \<not> fst k < m) rows = total (\<lambda>(t, d). m \<le> t \<and> t < b \<and> Q t d) rows"
    by (rule total_cong) (use assms in auto)
  finally show ?thesis .
qed

text \<open>The raw rows as a source, and the totals of a query in a range.\<close>

definition raw_source :: "usage_db \<Rightarrow> source_rows" where
  "raw_source s = map (\<lambda>r. ((ur_ts r, ur_dims r), row_measures r)) (raw_rows s)"

definition raw_total :: "(instant \<Rightarrow> usage_dims \<Rightarrow> bool) \<Rightarrow> instant \<Rightarrow> instant \<Rightarrow> usage_db \<Rightarrow> measures" where
  "raw_total Q a b s = total (\<lambda>(t, d). a \<le> t \<and> t < b \<and> Q t d) (raw_source s)"

lemma raw_total_split: "a \<le> m \<Longrightarrow> m \<le> b \<Longrightarrow> raw_total Q a b s = raw_total Q a m s + raw_total Q m b s"
  unfolding raw_total_def by (rule total_range_split)

lemma raw_total_empty: "b \<le> a \<Longrightarrow> raw_total Q a b s = 0"
proof -
  assume "b \<le> a"
  then have "filter (\<lambda>(k, v). case k of (t, d) \<Rightarrow> a \<le> t \<and> t < b \<and> Q t d) (raw_source s) = []"
    by (auto simp: filter_empty_conv)
  then show ?thesis by (simp add: raw_total_def total_def)
qed

lemma total_rawSource: "total (\<lambda>(t, d). Q t d) (rawSource q s) = raw_total (\<lambda>t d. in_scope q d \<and> Q t d) (uq_from q) (uq_to q) s"
proof -
  have "rawSource q s = filter (\<lambda>((t, d), m). uq_from q \<le> t \<and> t < uq_to q \<and> in_scope q d) (raw_source s)"
    by (simp add: rawSource_def raw_source_def filter_map o_def)
  also have "\<dots> = filter (\<lambda>(k, m). (case k of (t, d) \<Rightarrow> uq_from q \<le> t \<and> t < uq_to q \<and> in_scope q d)) (raw_source s)"
    by (rule filter_cong [OF refl]) auto
  finally have "total (\<lambda>(t, d). Q t d) (rawSource q s)
      = total (\<lambda>k. (case k of (t, d) \<Rightarrow> uq_from q \<le> t \<and> t < uq_to q \<and> in_scope q d) \<and> (case k of (t, d) \<Rightarrow> Q t d)) (raw_source s)"
    by (simp only: total_filter)
  also have "\<dots> = raw_total (\<lambda>t d. in_scope q d \<and> Q t d) (uq_from q) (uq_to q) s"
    unfolding raw_total_def by (rule total_cong) auto
  finally show ?thesis .
qed

section \<open>15 minute buckets\<close>

text \<open>A condition on the instant of a row that depends only on its 15 minute bucket.\<close>

definition bucketed :: "(instant \<Rightarrow> usage_dims \<Rightarrow> bool) \<Rightarrow> bool" where
  "bucketed Q \<longleftrightarrow> (\<forall>t d. Q (fifteenMinuteBucket t) d = Q t d)"

text \<open>A range of 15 minute buckets that the base has processed.\<close>

definition settled :: "usage_db \<Rightarrow> instant \<Rightarrow> instant \<Rightarrow> bool" where
  "settled s lo hi \<longleftrightarrow> aligned lo \<and> aligned hi \<and> (\<exists>w. db_watermark s = Some w \<and> hi \<le> w)
     \<and> (\<forall>b. lo \<le> b \<longrightarrow> b < hi \<longrightarrow> b \<notin> set (db_dirty s) \<and> b \<notin> set (gh_unmarked s))"

lemma total_base:
  assumes inv: "base_inv s" and st: "settled s lo hi" and Q: "bucketed Q"
  shows "total (\<lambda>(b, d). lo \<le> b \<and> b < hi \<and> Q b d) (ch_base s) = raw_total Q lo hi s"
proof -
  let ?P = "\<lambda>(b, d). lo \<le> b \<and> b < hi \<and> Q b d"
  have al: "aligned_inv s" "accurate_inv s" using inv by (simp_all add: base_inv_def)
  obtain w where w: "db_watermark s = Some w" "hi \<le> w" "aligned lo" "aligned hi" using st by (auto simp: settled_def)
  have hor: "horizon s = Some w" using w(1) by (simp add: horizon_def)
  have "total ?P (ch_base s) = total ?P (exact_base s)"
  proof (rule total_eqI)
    show "distinct_keys (ch_base s)" using al(1) by (simp add: aligned_inv_def)
    show "distinct_keys (exact_base s)" by (simp add: exact_base_def)
    fix k assume k: "?P k"
    obtain b d where e: "k = (b, d)" by (cases k)
    show "map_of (ch_base s) k = map_of (exact_base s) k"
    proof (cases "aligned b")
      case True
      have "b \<notin> set (db_dirty s)" "b \<notin> set (gh_unmarked s)" "b < w" using st k w(2) by (auto simp: e settled_def)
      then have "base_accurate s b" using accurate_invD [OF al(2) hor True] by blast
      then show ?thesis by (simp add: base_accurate_def e)
    next
      case False
      have "k \<notin> fst ` set (ch_base s)" using al(1) False by (auto simp: aligned_inv_def e)
      moreover have "k \<notin> fst ` set (exact_base s)"
      proof
        assume "k \<in> fst ` set (exact_base s)"
        then have "k \<in> base_key ` set (raw_rows s)" by (simp only: exact_base_def keys_group_sum)
        then show False using False by (auto simp: e base_key_def row_bucket_def)
      qed
      ultimately show ?thesis by (simp only: keys_iff not_not)
    qed
  qed
  also have "\<dots> = sum_list (map row_measures (filter (\<lambda>r. ?P (base_key r)) (raw_rows s)))"
    by (simp only: exact_base_def total_group_sum)
  also have "filter (\<lambda>r. ?P (base_key r)) (raw_rows s) = filter (\<lambda>r. lo \<le> ur_ts r \<and> ur_ts r < hi \<and> Q (ur_ts r) (ur_dims r)) (raw_rows s)"
    by (rule filter_cong [OF refl])
      (use aligned_le_iff [OF w(3)] aligned_gt_iff [OF w(4)] Q in \<open>simp add: base_key_def row_bucket_def bucketed_def\<close>)
  also have "sum_list (map row_measures \<dots>) = raw_total Q lo hi s"
    by (simp add: raw_total_def raw_source_def total_def filter_map o_def)
  finally show ?thesis .
qed

lemma rollupWindow_settled:
  assumes inv: "base_inv s" and w: "rollupWindow q s = Some (lo, hi)"
    and un: "\<forall>b \<in> set (gh_unmarked s). b + 900000 \<le> uq_from q \<or> uq_to q \<le> b"
  shows "settled s lo hi" "uq_from q \<le> lo" "lo \<le> hi" "hi \<le> uq_to q"
proof -
  have al: "aligned_inv s" using inv by (simp add: base_inv_def)
  let ?f = "floorRollupDate (uq_to q) STORAGE_FIFTEEN_MINUTES_MS"
  obtain wm where wm: "db_watermark s = Some wm" using w by (auto simp: rollupWindow_def Let_def split: if_splits option.splits)
  define to1 where "to1 = (if wm < ?f then wm else ?f)"
  define ds where "ds = filter (\<lambda>b. lo \<le> b \<and> b < to1) (db_dirty s)"
  define to2 where "to2 = (case ds of [] \<Rightarrow> to1 | b # bs \<Rightarrow> fold min bs b)"
  have lo: "lo = ceilRollupDate (uq_from q) STORAGE_FIFTEEN_MINUTES_MS"
    using w wm by (auto simp: rollupWindow_def Let_def split: if_splits)
  have hi: "hi = to2" "lo < hi"
    using w wm unfolding rollupWindow_def Let_def to2_def ds_def to1_def lo by (auto split: if_splits)
  have t1: "to1 \<le> wm" "to1 \<le> ?f" "aligned to1" using al wm by (auto simp: to1_def aligned_inv_def)
  have t2: "to2 \<le> to1 \<and> aligned to2 \<and> (\<forall>b \<in> set ds. to2 \<le> b)"
  proof (cases ds)
    case Nil
    then show ?thesis using t1 by (simp add: to2_def)
  next
    case (Cons b bs)
    have e: "to2 = fold min bs b" by (simp add: to2_def Cons)
    have "to2 \<in> set ds" using min_fold_in [of bs b] by (simp add: e Cons)
    then have "to2 < to1" "aligned to2" using al by (auto simp: ds_def aligned_inv_def)
    moreover have "\<forall>b \<in> set ds. to2 \<le> b" using min_fold [of bs b] by (simp add: e Cons)
    ultimately show ?thesis by simp
  qed
  show 1: "uq_from q \<le> lo" unfolding lo by (rule ceil_bounds(1))
  show "lo \<le> hi" using hi(2) by simp
  show 2: "hi \<le> uq_to q" using t1(2) t2 floor_le [of "uq_to q"] by (simp add: hi(1))
  have "b \<notin> set (db_dirty s) \<and> b \<notin> set (gh_unmarked s)" if b: "lo \<le> b" "b < hi" for b
  proof
    show "b \<notin> set (db_dirty s)"
    proof
      assume "b \<in> set (db_dirty s)"
      then have "b \<in> set ds" using b t2 hi(1) by (auto simp: ds_def)
      then show False using t2 b(2) hi(1) by fastforce
    qed
    show "b \<notin> set (gh_unmarked s)" using un b 1 2 by force
  qed
  moreover have "aligned lo" unfolding lo by (rule ceil_bounds(2))
  moreover have "aligned hi" "hi \<le> wm" using t1 t2 by (auto simp: hi(1))
  ultimately show "settled s lo hi" using wm by (auto simp: settled_def)
qed

lemma total_exact_source:
  assumes inv: "base_inv s" and Q: "bucketed Q"
    and un: "\<forall>b \<in> set (gh_unmarked s). b + 900000 \<le> uq_from q \<or> uq_to q \<le> b"
  shows "total (\<lambda>(t, d). Q t d) (exactTimeseriesSource readV2 q s) = raw_total (\<lambda>t d. in_scope q d \<and> Q t d) (uq_from q) (uq_to q) s"
proof (cases "if readV2 then rollupSource q s else None")
  case None
  then show ?thesis by (simp add: exactTimeseriesSource_def total_rawSource)
next
  case (Some src)
  then obtain lo hi where w: "rollupWindow q s = Some (lo, hi)"
    and src: "src = rawSource (q\<lparr>uq_to := lo\<rparr>) s @ filter (\<lambda>((b, d), m). lo \<le> b \<and> b < hi \<and> in_scope q d) (ch_base s) @ rawSource (q\<lparr>uq_from := hi\<rparr>) s"
    by (auto simp: rollupSource_def split: if_splits option.splits)
  note st = rollupWindow_settled [OF inv w un]
  let ?Q = "\<lambda>t d. in_scope q d \<and> Q t d"
  have sc: "in_scope (q\<lparr>uq_to := lo\<rparr>) = in_scope q" "in_scope (q\<lparr>uq_from := hi\<rparr>) = in_scope q"
    by (simp_all add: in_scope_def fun_eq_iff)
  have "filter (\<lambda>((b, d), m). lo \<le> b \<and> b < hi \<and> in_scope q d) (ch_base s)
      = filter (\<lambda>(k, m). case k of (b, d) \<Rightarrow> lo \<le> b \<and> b < hi \<and> in_scope q d) (ch_base s)"
    by (rule filter_cong [OF refl]) auto
  then have "total (\<lambda>(t, d). Q t d) (filter (\<lambda>((b, d), m). lo \<le> b \<and> b < hi \<and> in_scope q d) (ch_base s))
      = total (\<lambda>k. (case k of (b, d) \<Rightarrow> lo \<le> b \<and> b < hi \<and> in_scope q d) \<and> (case k of (t, d) \<Rightarrow> Q t d)) (ch_base s)"
    by (simp only: total_filter)
  also have "\<dots> = total (\<lambda>(b, d). lo \<le> b \<and> b < hi \<and> ?Q b d) (ch_base s)" by (rule total_cong) auto
  also have "\<dots> = raw_total ?Q lo hi s" by (rule total_base [OF inv st(1)]) (use Q in \<open>simp add: bucketed_def\<close>)
  finally have "total (\<lambda>(t, d). Q t d) src = raw_total ?Q (uq_from q) lo s + raw_total ?Q lo hi s + raw_total ?Q hi (uq_to q) s"
    unfolding src total_append total_rawSource sc by (simp add: ac_simps)
  also have "\<dots> = raw_total ?Q (uq_from q) (uq_to q) s"
    using raw_total_split [of "uq_from q" lo "uq_to q" ?Q s] raw_total_split [of lo hi "uq_to q" ?Q s] st(2-4)
    by (simp add: ac_simps)
  finally show ?thesis using Some by (simp add: exactTimeseriesSource_def)
qed


section \<open>Cached hours and days\<close>

lemma next_bucket_start:
  assumes ca: "calendar_agrees cal" and b: "bucket_start cal r z b"
  shows "bucket_start cal r z (pg_source_to cal r z b)"
proof -
  let ?x = "pg_source_to cal r z b"
  let ?y = "cal_trunc cal r z ?x"
  note wf = window_facts [OF ca b]
  have y: "?y \<le> ?x" "?x < pg_source_to cal r z ?y" using calendar_law(1,2) [OF ca, where r = r and z = z and t = ?x] by simp_all
  have ys: "bucket_start cal r z ?y" by (rule bucket_start_trunc [OF ca])
  have "\<not> ?y < ?x"
  proof
    assume l: "?y < ?x"
    show False
    proof (cases "b \<le> ?y")
      case True
      then have "cal_trunc cal r z ?y = b" using window_iff [OF ca b, of ?y] l by blast
      then have "?y = b" using ys by (simp add: bucket_start_def)
      then show False using y(2) by simp
    next
      case False
      then have "cal_trunc cal r z b = ?y" using window_iff [OF ca ys, of b] wf(1) y(2) by simp
      then show False using b False by (simp add: bucket_start_def)
    qed
  qed
  then have "?y = ?x" using y(1) by simp
  then show ?thesis using wf(2) by (simp add: bucket_start_def)
qed

text \<open>A run of adjoining local buckets, from its start to the end of its last bucket.\<close>

fun tiles :: "calendar \<Rightarrow> resolution \<Rightarrow> string \<Rightarrow> instant \<Rightarrow> (instant \<times> instant) list \<Rightarrow> instant \<Rightarrow> bool" where
  "tiles cal r z c [] e \<longleftrightarrow> c = e"
| "tiles cal r z c ((b, b') # bs) e \<longleftrightarrow> b = c \<and> bucket_start cal r z c \<and> b' = pg_source_to cal r z c \<and> tiles cal r z b' bs e"

lemma tiles_append: "tiles cal r z c (xs @ ys) e \<longleftrightarrow> (\<exists>m. tiles cal r z c xs m \<and> tiles cal r z m ys e)"
  by (induction cal r z c xs e rule: tiles.induct) auto

lemma tiles_le: "calendar_agrees cal \<Longrightarrow> tiles cal r z c bs e \<Longrightarrow> c \<le> e"
proof (induction cal r z c bs e rule: tiles.induct)
  case (2 cal r z c b b' bs e)
  then show ?case using window_facts(1) [of cal r z c] by fastforce
qed simp

lemma tiles_member:
  "calendar_agrees cal \<Longrightarrow> tiles cal r z c bs e \<Longrightarrow> (b, b') \<in> set bs \<Longrightarrow> c \<le> b \<and> b' \<le> e \<and> bucket_start cal r z b \<and> b' = pg_source_to cal r z b"
proof (induction cal r z c bs e rule: tiles.induct)
  case (2 cal r z c x x' bs e)
  have h: "bucket_start cal r z c" "x = c" "x' = pg_source_to cal r z c" "tiles cal r z x' bs e" using 2(3) by auto
  note le = window_facts(1) [OF 2(2) h(1)]
  show ?case
  proof (cases "(b, b') \<in> set bs")
    case True
    then show ?thesis using 2(1) [OF 2(2) h(4)] h(3) le by fastforce
  next
    case False
    then have "b = c" "b' = x'" using 2(4) h(2) by auto
    then show ?thesis using h tiles_le [OF 2(2) h(4)] by simp
  qed
qed simp

lemma buckets_from_tiles:
  assumes ca: "calendar_agrees cal"
  shows "bucket_start cal r z cursor \<Longrightarrow> cursor \<le> to_t \<Longrightarrow> buckets_from cal r z n cursor to_t = Inr bs \<Longrightarrow>
    \<exists>e. tiles cal r z cursor bs e \<and> e \<le> to_t"
proof (induction n arbitrary: cursor bs)
  case (Suc n)
  let ?e = "pg_source_to cal r z cursor"
  have e: "zone_window_end cal r z cursor = Inr ?e" by (rule zone_window_end_eq [OF ca Suc.prems(1)])
  show ?case
  proof (cases "cursor < to_t \<and> ?e \<le> to_t")
    case True
    then obtain bs' where bs: "bs = (cursor, ?e) # bs'" "buckets_from cal r z n ?e to_t = Inr bs'"
      using Suc.prems(3) e window_facts(1) [OF ca Suc.prems(1)] by (auto split: sum.splits)
    obtain x where "tiles cal r z ?e bs' x" "x \<le> to_t"
      using Suc.IH [OF next_bucket_start [OF ca Suc.prems(1)] _ bs(2)] True by blast
    then show ?thesis using bs(1) Suc.prems(1) by auto
  next
    case False
    then have "bs = []" using Suc.prems(3) e by (auto split: if_splits sum.splits)
    then show ?thesis using Suc.prems(2) by auto
  qed
qed auto

lemma advance_hours_start:
  assumes ca: "calendar_agrees cal"
  shows "bucket_start cal Res_hour z cursor \<Longrightarrow> bucket_start cal Res_hour z (advance_hours cursor from_t) \<and> from_t \<le> advance_hours cursor from_t"
proof (induction cursor from_t rule: advance_hours.induct)
  case (1 cursor from_t)
  have "pg_source_to cal Res_hour z cursor = cursor + 3600000" by (simp add: pg_source_to_def)
  then have "bucket_start cal Res_hour z (cursor + 3600000)" using next_bucket_start [OF ca 1(2)] by simp
  then show ?case using 1 by (subst (1 2) advance_hours.simps) auto
qed

lemma buckets_from_empty: "to_t < cursor \<Longrightarrow> buckets_from cal r z n cursor to_t = Inr []"
  by (cases n) simp_all

lemma timezoneCacheBuckets_tiles:
  assumes ca: "calendar_agrees cal" and bs: "timezoneCacheBuckets cal r z q = Inr (first # rest)"
  shows "uq_from q \<le> fst first" "\<exists>e. tiles cal r z (fst first) (first # rest) e \<and> e \<le> uq_to q"
proof -
  let ?day = "cal_trunc cal Res_day z (uq_from q)"
  have day: "bucket_start cal Res_day z ?day" by (rule bucket_start_trunc [OF ca])
  have src: "pg_source_to cal Res_day z ?day = cal_pg_next_day cal z ?day" by (simp add: pg_source_to_def)
  have "\<exists>cursor. bucket_start cal r z cursor \<and> uq_from q \<le> cursor
      \<and> buckets_from cal r z (max_cache_buckets r) cursor (uq_to q) = Inr (first # rest)"
  proof (cases r)
    case Res_day
    have nx: "cal_js_next_day cal z ?day = Inr (cal_pg_next_day cal z ?day)" by (rule calendar_law(8) [OF ca])
    have "uq_from q < cal_pg_next_day cal z ?day" using calendar_law(2) [OF ca, where r = Res_day and z = z and t = "uq_from q"] src by simp
    moreover have "bucket_start cal Res_day z (cal_pg_next_day cal z ?day)" using next_bucket_start [OF ca day] src by simp
    moreover have "\<not> ?day < uq_from q \<Longrightarrow> ?day = uq_from q" using calendar_law(1) [OF ca, where r = Res_day and z = z and t = "uq_from q"] by simp
    ultimately show ?thesis using bs day nx
      by (cases "?day < uq_from q") (auto simp: timezoneCacheBuckets_def Res_day calendar_law(9) [OF ca] split: if_splits)
  next
    case Res_hour
    have "bucket_start cal Res_hour z ?day" using day calendar_law(10) [OF ca] by (simp add: bucket_start_def)
    then show ?thesis using bs advance_hours_start [OF ca]
      by (auto simp: timezoneCacheBuckets_def Res_hour calendar_law(9) [OF ca] split: if_splits)
  qed
  then obtain cursor where c: "bucket_start cal r z cursor" "uq_from q \<le> cursor"
    "buckets_from cal r z (max_cache_buckets r) cursor (uq_to q) = Inr (first # rest)" by blast
  have "cursor \<le> uq_to q" using buckets_from_empty [of "uq_to q" cursor cal r z "max_cache_buckets r"] c(3) by force
  then obtain e where e: "tiles cal r z cursor (first # rest) e" "e \<le> uq_to q" using buckets_from_tiles [OF ca c(1) _ c(3)] by blast
  then have "fst first = cursor" by (cases first) simp
  then show "uq_from q \<le> fst first" "\<exists>e. tiles cal r z (fst first) (first # rest) e \<and> e \<le> uq_to q" using c(2) e by auto
qed

lemma cached_until_prefix:
  "cached_until cov dirty status covered bs acc = Some e \<Longrightarrow>
     \<exists>xs ys. bs = xs @ ys \<and> (xs = [] \<longrightarrow> acc = Some e) \<and> (xs \<noteq> [] \<longrightarrow> e = snd (last xs))
       \<and> (\<forall>(b, b') \<in> set xs. b' \<le> cov \<and> covered b \<and> (\<forall>d. dirty = Some d \<longrightarrow> b' \<le> d))"
proof (induction cov dirty status covered bs acc rule: cached_until.induct)
  case (1 cov dirty status covered acc)
  then show ?case by simp
next
  case (2 cov dirty status covered b b' bs acc)
  show ?case
  proof (cases "cov < b' \<or> (case dirty of None \<Rightarrow> False | Some d \<Rightarrow> d < b')
      \<or> (\<not> covered b \<or> (case status b of None \<Rightarrow> False | Some st \<Rightarrow> st \<noteq> Job_done))")
    case True
    then have "acc = Some e" using 2(2) by (auto split: if_splits)
    then show ?thesis by (intro exI [of _ "[]"] exI [of _ "(b, b') # bs"]) simp
  next
    case False
    then have n: "\<not> cov < b'" "\<not> (case dirty of None \<Rightarrow> False | Some d \<Rightarrow> d < b')"
      "\<not> (\<not> covered b \<or> (case status b of None \<Rightarrow> False | Some st \<Rightarrow> st \<noteq> Job_done))" by blast+
    have "cached_until cov dirty status covered bs (Some b') = Some e" using 2(2) n by (simp split: if_splits)
    from 2(1) [OF n this] obtain xs ys where xs: "bs = xs @ ys" "xs = [] \<longrightarrow> Some b' = Some e" "xs \<noteq> [] \<longrightarrow> e = snd (last xs)"
      "\<forall>(b, b') \<in> set xs. b' \<le> cov \<and> covered b \<and> (\<forall>d. dirty = Some d \<longrightarrow> b' \<le> d)" by blast
    have "e = snd (last ((b, b') # xs))" using xs(2,3) by auto
    moreover have "b' \<le> cov \<and> covered b \<and> (\<forall>d. dirty = Some d \<longrightarrow> b' \<le> d)" using n by (auto split: option.splits)
    ultimately show ?thesis using xs(1,4) by (intro exI [of _ "(b, b') # xs"] exI [of _ ys]) auto
  qed
qed

lemma tiles_end: "tiles cal r z c bs e \<Longrightarrow> bs \<noteq> [] \<Longrightarrow> e = snd (last bs)"
  by (induction cal r z c bs e rule: tiles.induct) (auto split: if_splits)

text \<open>What the snapshot promises: adjoining covered buckets below the watermark, none of them dirty.\<close>

lemma snapshot_facts:
  assumes ca: "calendar_agrees cal" and sn: "readCacheReadySnapshot cal r z q s = Some (cf, ct)"
  obtains bs w where "bs \<noteq> []" "tiles cal r z cf bs ct" "uq_from q \<le> cf" "cf \<le> ct" "ct \<le> uq_to q" "db_watermark s = Some w" "ct \<le> w"
    "\<And>b b'. (b, b') \<in> set bs \<Longrightarrow> (r, z, b) \<in> set (db_coverage s)"
    "\<And>d. d \<in> set (db_dirty s) \<Longrightarrow> cf \<le> d \<Longrightarrow> ct \<le> d"
proof -
  obtain first rest where exp: "timezoneCacheBuckets cal r z q = Inr (first # rest)"
    using sn by (auto simp: readCacheReadySnapshot_def split: sum.splits list.splits)
  obtain w where w: "db_watermark s = Some w" using sn exp by (auto simp: readCacheReadySnapshot_def split: if_splits option.splits)
  define ds where "ds = filter (\<lambda>b. fst first \<le> b \<and> b < snd (last (first # rest))) (db_dirty s)"
  define dirty where "dirty = (case ds of [] \<Rightarrow> None | b # bs \<Rightarrow> Some (fold min bs b))"
  have cu: "cached_until w dirty (job_status_at r z s) (\<lambda>b. (r, z, b) \<in> set (db_coverage s)) (first # rest) None = Some ct" "cf = fst first"
    using sn exp w unfolding readCacheReadySnapshot_def ds_def dirty_def by (auto simp: Let_def split: if_splits option.splits)
  obtain xs ys where xs: "first # rest = xs @ ys" "xs \<noteq> []" "ct = snd (last xs)"
    "\<forall>(b, b') \<in> set xs. b' \<le> w \<and> (r, z, b) \<in> set (db_coverage s) \<and> (\<forall>d. dirty = Some d \<longrightarrow> b' \<le> d)"
    using cached_until_prefix [OF cu(1)] by blast
  obtain e where e: "tiles cal r z cf (first # rest) e" "e \<le> uq_to q" "uq_from q \<le> cf"
    using timezoneCacheBuckets_tiles [OF ca exp] cu(2) by blast
  obtain m where m: "tiles cal r z cf xs m" "tiles cal r z m ys e" using e(1) unfolding xs(1) tiles_append by blast
  have mct: "m = ct" using tiles_end [OF m(1) xs(2)] xs(3) by simp
  have "(fst (last xs), snd (last xs)) \<in> set xs" using xs(2) by simp
  then have last: "ct \<le> w" "\<forall>d. dirty = Some d \<longrightarrow> ct \<le> d" using xs(3,4) by fastforce+
  have le: "cf \<le> ct" "ct \<le> e" using tiles_le [OF ca m(1)] tiles_le [OF ca m(2)] mct by simp_all
  have "ct \<le> d" if d: "d \<in> set (db_dirty s)" "cf \<le> d" for d
  proof (rule ccontr)
    assume n: "\<not> ct \<le> d"
    have "e = snd (last (first # rest))" by (rule tiles_end [OF e(1)]) simp
    then have "d \<in> set ds" using d n le cu(2) by (simp add: ds_def)
    then obtain b bs where b: "ds = b # bs" "d \<in> set (b # bs)" by (cases ds) auto
    then have "fold min bs b \<le> d" using min_fold [of bs b] by auto
    moreover have "ct \<le> fold min bs b" using last(2) b(1) by (simp add: dirty_def)
    ultimately show False using n by simp
  qed
  then show ?thesis using that [of xs w] m(1) mct e le xs(2,4) w last(1) by fastforce
qed

text \<open>One covered bucket of the cache.\<close>

definition cache_total :: "resolution \<Rightarrow> string \<Rightarrow> (instant \<Rightarrow> usage_dims \<Rightarrow> bool) \<Rightarrow> instant \<Rightarrow> instant \<Rightarrow> usage_db \<Rightarrow> measures" where
  "cache_total r z Q lo hi s = total (\<lambda>(r', z', b, d). r' = r \<and> z' = z \<and> lo \<le> b \<and> b < hi \<and> Q b d) (ch_cache s)"

lemma cache_total_split:
  assumes "a \<le> m" "m \<le> b"
  shows "cache_total r z Q a b s = cache_total r z Q a m s + cache_total r z Q m b s"
proof -
  let ?P = "\<lambda>(r', z', x, d). r' = r \<and> z' = z \<and> a \<le> x \<and> x < b \<and> Q x d"
  have "cache_total r z Q a b s = total (\<lambda>k. ?P k \<and> fst (snd (snd k)) < m) (ch_cache s) + total (\<lambda>k. ?P k \<and> \<not> fst (snd (snd k)) < m) (ch_cache s)"
    unfolding cache_total_def by (rule total_split)
  also have "total (\<lambda>k. ?P k \<and> fst (snd (snd k)) < m) (ch_cache s) = cache_total r z Q a m s"
    unfolding cache_total_def by (rule total_cong) (use assms in auto)
  also have "total (\<lambda>k. ?P k \<and> \<not> fst (snd (snd k)) < m) (ch_cache s) = cache_total r z Q m b s"
    unfolding cache_total_def by (rule total_cong) (use assms in auto)
  finally show ?thesis .
qed

fun rows_of :: "resolution \<Rightarrow> string \<Rightarrow> instant \<Rightarrow> ((resolution \<times> string \<times> instant \<times> usage_dims) \<times> measures) list \<Rightarrow>
    (usage_dims \<times> measures) list" where
  "rows_of r z b [] = []"
| "rows_of r z b (((r', z', b', d), m) # rows) =
     (if r' = r \<and> z' = z \<and> b' = b then (d, m) # rows_of r z b rows else rows_of r z b rows)"

lemma map_of_rows_of: "map_of (rows_of r z b rows) d = map_of rows (r, z, b, d)"
  by (induction r z b rows rule: rows_of.induct) auto

lemma keyed_rows_of: "distinct_keys rows \<Longrightarrow> distinct_keys (rows_of r z b rows)"
proof (induction r z b rows rule: rows_of.induct)
  case (2 r z b r' z' b' d m rows)
  have "map_of rows (r', z', b', d) = None" using 2(3) by (simp add: map_of_eq_None_iff)
  then have "map_of (rows_of r' z' b' rows) d = None" by (simp only: map_of_rows_of)
  then have "d \<notin> fst ` set (rows_of r' z' b' rows)" by (rule map_of_eq_None_iff [THEN iffD1])
  then show ?case using 2 by auto
qed simp

lemma total_rows_of:
  "total P (rows_of r z b rows)
     = total (\<lambda>k. (case k of (r', z', b', d) \<Rightarrow> r' = r \<and> z' = z \<and> b' = b) \<and> P (snd (snd (snd k)))) rows"
  by (induction r z b rows rule: rows_of.induct) (simp_all add: total_Cons)

lemma cache_total_bucket:
  assumes ca: "calendar_agrees cal" and inv: "cache_inv cal s" and b: "bucket_start cal r z b" and acc: "cache_accurate cal s r z b"
  shows "cache_total r z Q b (pg_source_to cal r z b) s
     = total (\<lambda>(k, d). b \<le> k \<and> k < pg_source_to cal r z b \<and> Q (cal_trunc cal r z k) d) (ch_base s)"
proof -
  let ?e = "pg_source_to cal r z b"
  let ?in = "\<lambda>(r', z', b', d). r' = r \<and> z' = z \<and> b' = b"
  let ?rows = "rows_of r z b (ch_cache s)"
  have keys: "bucket_start cal r' z' b'" if "((r', z', b', d), m) \<in> set (ch_cache s)" for r' z' b' d m
    using inv that unfolding cache_inv_def by force
  have w: "Q b d = Q (cal_trunc cal r z k) d" if "b \<le> k" "k < ?e" for k d using window_iff [OF ca b, of k] that by simp
  have sel: "filter (\<lambda>((k, d), m). Q b d) (filter (\<lambda>((k, d), m). b \<le> k \<and> k < ?e) (ch_base s))
      = filter (\<lambda>(x, m). case x of (k, d) \<Rightarrow> b \<le> k \<and> k < ?e \<and> Q (cal_trunc cal r z k) d) (ch_base s)"
    unfolding filter_filter
  proof (rule filter_cong [OF refl])
    fix x :: "(instant \<times> usage_dims) \<times> measures"
    obtain k d m where x: "x = ((k, d), m)" by (metis surj_pair)
    show "((\<lambda>((k, d), m). b \<le> k \<and> k < ?e) x \<and> (\<lambda>((k, d), m). Q b d) x)
        = (\<lambda>(x, m). case x of (k, d) \<Rightarrow> b \<le> k \<and> k < ?e \<and> Q (cal_trunc cal r z k) d) x"
      unfolding x prod.case using w by blast
  qed
  have "cache_total r z Q b ?e s = total (\<lambda>k. ?in k \<and> Q b (snd (snd (snd k)))) (ch_cache s)"
    unfolding cache_total_def
  proof (rule total_cong)
    fix k m assume k: "(k, m) \<in> set (ch_cache s)"
    obtain r' z' b' d where e: "k = (r', z', b', d)" by (cases k)
    have "b \<le> b' \<and> b' < ?e \<Longrightarrow> r' = r \<Longrightarrow> z' = z \<Longrightarrow> b' = b"
      using window_iff [OF ca b, of b'] keys k by (auto simp: e bucket_start_def)
    then show "(case k of (r', z', b', d) \<Rightarrow> r' = r \<and> z' = z \<and> b \<le> b' \<and> b' < ?e \<and> Q b' d) = (?in k \<and> Q b (snd (snd (snd k))))"
      using window_facts(1) [OF ca b] by (auto simp: e)
  qed
  also have "\<dots> = total (\<lambda>d. Q b d) ?rows" by (rule total_rows_of [symmetric])
  also have "\<dots> = total (\<lambda>d. Q b d) (exact_zone cal r z b s)"
  proof (rule total_eqI)
    show "distinct_keys ?rows" by (rule keyed_rows_of) (use inv in \<open>simp add: cache_inv_def\<close>)
    show "distinct_keys (exact_zone cal r z b s)" by (simp add: exact_zone_def)
    show "map_of ?rows d = map_of (exact_zone cal r z b s) d" for d using acc by (simp add: cache_accurate_def map_of_rows_of)
  qed
  also have "\<dots> = sum_list (map snd (filter (\<lambda>((k, d), m). Q b d) (filter (\<lambda>((k, d), m). b \<le> k \<and> k < ?e) (ch_base s))))"
    by (simp add: exact_zone_def total_group_sum case_prod_beta)
  also have "\<dots> = total (\<lambda>(k, d). b \<le> k \<and> k < ?e \<and> Q (cal_trunc cal r z k) d) (ch_base s)"
    by (simp only: total_def sel)
  finally show ?thesis .
qed

lemma cache_total_tiles:
  assumes ca: "calendar_agrees cal" and inv: "cache_inv cal s"
    and acc: "\<And>b b'. (b, b') \<in> set bs \<Longrightarrow> cache_accurate cal s r z b"
    and t: "tiles cal r z c bs e"
  shows "cache_total r z Q c e s = total (\<lambda>(k, d). c \<le> k \<and> k < e \<and> Q (cal_trunc cal r z k) d) (ch_base s)"
  using acc t
proof (induction bs arbitrary: c)
  case Nil
  then have "filter (\<lambda>(k, v). case k of (r', z', b, d) \<Rightarrow> r' = r \<and> z' = z \<and> c \<le> b \<and> b < e \<and> Q b d) (ch_cache s) = []"
    "filter (\<lambda>(x, v). case x of (k, d) \<Rightarrow> c \<le> k \<and> k < e \<and> Q (cal_trunc cal r z k) d) (ch_base s) = []"
    by (auto simp: filter_empty_conv)
  then show ?case by (simp add: cache_total_def total_def)
next
  case (Cons x bs)
  obtain b b' where x: "x = (b, b')" by (cases x)
  have h: "b = c" "bucket_start cal r z c" "b' = pg_source_to cal r z c" "tiles cal r z b' bs e" using Cons.prems(2) by (auto simp: x)
  have le: "c \<le> b'" "b' \<le> e" using window_facts(1) [OF ca h(2)] tiles_le [OF ca h(4)] h(3) by simp_all
  have "cache_accurate cal s r z c" using Cons.prems(1) [of b b'] x h(1) by simp
  note one = cache_total_bucket [OF ca inv h(2) this, of Q, folded h(3)]
  have rest: "cache_total r z Q b' e s = total (\<lambda>(k, d). b' \<le> k \<and> k < e \<and> Q (cal_trunc cal r z k) d) (ch_base s)"
    by (rule Cons.IH [OF _ h(4)]) (use Cons.prems(1) in auto)
  show ?case
    unfolding cache_total_split [OF le] one rest
    by (rule total_range_split [OF le, of "\<lambda>k d. Q (cal_trunc cal r z k) d", symmetric])
qed


lemma total_timezone_source:
  "total (\<lambda>(t, d). Q t d) (timezoneSource r z q s)
     = cache_total r z (\<lambda>t d. in_scope q d \<and> Q t d) (uq_from q) (uq_to q) s"
proof -
  let ?P = "\<lambda>(r', z', b, d). r' = r \<and> z' = z \<and> uq_from q \<le> b \<and> b < uq_to q \<and> in_scope q d"
  let ?f = "\<lambda>(r', z', b, d). (b, d)"
  have "timezoneSource r z q s = map (\<lambda>(k, m). (?f k, m)) (filter (\<lambda>(k, m). ?P k) (ch_cache s))"
    unfolding timezoneSource_def by (rule map_cong) (auto intro: filter_cong)
  then have "total (\<lambda>(t, d). Q t d) (timezoneSource r z q s) = total (\<lambda>k. ?P k \<and> ((\<lambda>(t, d). Q t d) \<circ> ?f) k) (ch_cache s)"
    by (simp only: total_map total_filter)
  also have "\<dots> = cache_total r z (\<lambda>t d. in_scope q d \<and> Q t d) (uq_from q) (uq_to q) s"
    unfolding cache_total_def by (rule total_cong) auto
  finally show ?thesis .
qed

lemma local_bucketed: "calendar_agrees cal \<Longrightarrow> bucketed (\<lambda>t d. Q (cal_trunc cal r z t) d)"
  by (simp add: bucketed_def calendar_law(5))

section \<open>A calm run\<close>

text \<open>Performs events one after the other; \<open>None\<close> if one is not possible or not calm.\<close>

fun calm_run :: "calendar \<Rightarrow> event list \<Rightarrow> usage_db \<Rightarrow> usage_db option" where
  "calm_run cal [] s = Some s"
| "calm_run cal (e # es) s =
     (if calm cal e s then (case step cal e s of None \<Rightarrow> None | Some s' \<Rightarrow> calm_run cal es s') else None)"

lemma calm_run_reachable: "reachable cal s \<Longrightarrow> calm_run cal es s = Some s' \<Longrightarrow> reachable cal s'"
proof (induction es arbitrary: s)
  case (Cons e es)
  then obtain s1 where "calm cal e s" "step cal e s = Some s1" "calm_run cal es s1 = Some s'"
    by (auto split: if_splits option.splits)
  then show ?case using Cons reachable.step by blast
qed simp

text \<open>
  An event is enqueued, flushed and compacted; the zone is registered and validated, its hour is
  prewarmed, invalidated by the compaction, claimed and filled.
\<close>

definition demo_event :: finalized_event where
  "demo_event = \<lparr>fe_dedup = ''a'', fe_provider = ''p'', fe_user = Some ''u'', fe_session = None, fe_model = None, fe_ts = 100,
     fe_input = 10, fe_output = 1, fe_cacheRead = 0, fe_cacheCreation = 0, fe_cost = ''0.00000007'', fe_logAdapter = None,
     fe_host = None, fe_revision = None, fe_status = ''priced''\<rparr>"

definition demo_events :: "event list" where
  "demo_events =
     [Ev_enqueue [] ''t'' 3600000 [demo_event], Ev_flush_claim 1 3600000 10, Ev_flush_read 1, Ev_flush_raw 1, Ev_flush_hourly 1,
      Ev_flush_commit 1 3600001, Ev_register ''UTC'', Ev_validate ''UTC'', Ev_prewarm 3600002 Res_hour ''UTC'' [(0, 3600000)],
      Ev_compact_begin 5400000 1800000 8, Ev_compact_read, Ev_compact_delete, Ev_compact_insert, Ev_compact_commit 5400001,
      Ev_claim 1 5400002 8, Ev_lock 1 5400003, Ev_work_read 1, Ev_work_delete 1, Ev_work_insert 1, Ev_done 1 5400004]"

definition demo_db :: usage_db where
  "demo_db = the (calm_run utc_calendar demo_events empty_db)"

definition demo_query :: usage_query where
  "demo_query = \<lparr>uq_from = 0, uq_to = 5400000, uq_provider = [], uq_user = [], uq_team = [], uq_users = []\<rparr>"

lemma demo_end:
  "map_option (\<lambda>s. (gh_unmarked s, db_coverage s, db_dirty s, db_watermark s, db_zones s, job_status_at Res_hour ''UTC'' s 0))
     (calm_run utc_calendar demo_events empty_db)
   = Some ([], [(Res_hour, ''UTC'', 0)], [], Some 3600000, [(''UTC'', True)], Some Job_done)"
  by code_simp

lemma demo_run: "calm_run utc_calendar demo_events empty_db = Some demo_db"
proof -
  obtain s where "calm_run utc_calendar demo_events empty_db = Some s"
    using demo_end by (cases "calm_run utc_calendar demo_events empty_db") simp_all
  then show ?thesis by (simp only: demo_db_def option.sel)
qed

lemma demo_facts:
  "reachable utc_calendar demo_db" "gh_unmarked demo_db = []" "db_coverage demo_db = [(Res_hour, ''UTC'', 0)]" "db_dirty demo_db = []"
  "db_watermark demo_db = Some 3600000" "db_zones demo_db = [(''UTC'', True)]" "job_status_at Res_hour ''UTC'' demo_db 0 = Some Job_done"
proof -
  show "reachable utc_calendar demo_db" by (rule calm_run_reachable [OF reachable.start demo_run])
  note r = demo_end [unfolded demo_run option.map option.inject prod.inject]
  show "gh_unmarked demo_db = []" by (rule conjunct1 [OF r])
  note r2 = conjunct2 [OF r]
  show "db_coverage demo_db = [(Res_hour, ''UTC'', 0)]" by (rule conjunct1 [OF r2])
  note r3 = conjunct2 [OF r2]
  show "db_dirty demo_db = []" by (rule conjunct1 [OF r3])
  note r4 = conjunct2 [OF r3]
  show "db_watermark demo_db = Some 3600000" by (rule conjunct1 [OF r4])
  note r5 = conjunct2 [OF r4]
  show "db_zones demo_db = [(''UTC'', True)]" by (rule conjunct1 [OF r5])
  show "job_status_at Res_hour ''UTC'' demo_db 0 = Some Job_done" by (rule conjunct2 [OF r5])
qed

lemma demo_cacheable:
  assumes "db_coverage s = [(Res_hour, ''UTC'', 0)]" "db_dirty s = []" "db_watermark s = Some 3600000" "db_zones s = [(''UTC'', True)]"
    "job_status_at Res_hour ''UTC'' s 0 = Some Job_done"
  shows "readCacheReadySnapshot utc_calendar Res_hour ''UTC'' demo_query s = Some (0, 3600000)"
proof -
  have start: "advance_hours 0 0 = 0" by (subst advance_hours.simps) simp
  have two: "buckets_from cal Res_hour z (Suc (Suc n)) 0 5400000 = Inr [(0, 3600000)]" for cal z n
    by (simp add: zone_window_end_def)
  have n: "buckets_from cal Res_hour z (max_cache_buckets Res_hour) 0 5400000 = Inr [(0, 3600000)]" for cal z
    using two [of cal z 9598] by (simp add: max_cache_buckets_def)
  have "timezoneCacheBuckets utc_calendar Res_hour ''UTC'' demo_query = Inr [(0, 3600000)]"
    unfolding timezoneCacheBuckets_def
    by (simp add: demo_query_def utc_calendar_def start n)
  then show ?thesis by (simp add: readCacheReadySnapshot_def assms)
qed

section \<open>The dashboards read what the raw rows say\<close>

text \<open>C5: In every state a calm run reaches, a 15 minute bucket below the watermark of the version 2 rollup
  that is not dirty, and whose raw rows did not change since they were last marked, holds exactly the
  sums of its raw rows, grouped by dimensions.\<close>

theorem processed_bucket_is_exact:
  assumes "reachable cal s" "db_watermark s = Some w" "aligned b" "b < w" "b \<notin> set (db_dirty s)" "b \<notin> set (gh_unmarked s)"
  shows "map_of (ch_base s) (b, d)
     = (let rows = filter (\<lambda>r. row_bucket r = b \<and> ur_dims r = d) (raw_rows s)
        in if rows = [] then None else Some (sum_list (map row_measures rows)))"
proof -
  have "horizon s = Some w" using assms(2) by (simp add: horizon_def)
  moreover have "accurate_inv s" using reachable_base_inv [OF assms(1)] by (simp add: base_inv_def)
  ultimately have "base_accurate s b" using accurate_invD assms(3-6) by blast
  moreover have "filter (\<lambda>r. ur_dims r = d) (rows_in b s) = filter (\<lambda>r. row_bucket r = b \<and> ur_dims r = d) (raw_rows s)"
    by (simp add: rows_in_def conj_commute)
  ultimately show ?thesis by (simp only: base_accurate_def map_of_exact_base)
qed

lemma processed_bucket_is_exact_witness:
  "\<forall>d. map_of (ch_base demo_db) (900000, d)
     = (let rows = filter (\<lambda>r. row_bucket r = 900000 \<and> ur_dims r = d) (raw_rows demo_db)
        in if rows = [] then None else Some (sum_list (map row_measures rows)))"
  by (rule allI, rule processed_bucket_is_exact [OF demo_facts(1,5)]) (simp_all add: demo_facts(2,4) aligned_def)

text \<open>C4: In every state a calm run reaches, a bucket of the timezone rollup that is covered and whose window
  holds no dirty 15 minute bucket is cached exactly: its rows are the 15 minute rows of its window,
  regrouped by dimensions.\<close>

theorem covered_bucket_is_exact:
  assumes "calendar_agrees cal" "reachable cal s" "(r, z, b) \<in> set (db_coverage s)"
    "\<forall>k \<in> set (db_dirty s). k < b \<or> pg_source_to cal r z b \<le> k"
  shows "map_of (ch_cache s) (r, z, b, d)
     = map_of (group_sum (\<lambda>((k, d), m). d) snd (filter (\<lambda>((k, d), m). b \<le> k \<and> k < pg_source_to cal r z b) (ch_base s))) d"
proof -
  have "covered_ok cal s (r, z, b)"
    using reachable_zone_inv [OF assms(2,1)] assms(3) by (auto simp: zone_inv_def coverage_inv_def)
  moreover have "\<not> dirty_within b (pg_source_to cal r z b) s" using assms(4) by (fastforce simp: dirty_within_def)
  ultimately show ?thesis by (simp add: covered_ok_def cache_accurate_def exact_zone_def)
qed

lemma covered_bucket_is_exact_witness:
  "\<forall>d. map_of (ch_cache demo_db) (Res_hour, ''UTC'', 0, d)
     = map_of (group_sum (\<lambda>((k, d), m). d) snd
         (filter (\<lambda>((k, d), m). 0 \<le> k \<and> k < pg_source_to utc_calendar Res_hour ''UTC'' 0) (ch_base demo_db))) d"
  by (rule allI, rule covered_bucket_is_exact [OF utc_calendar_agrees demo_facts(1)]) (simp_all add: demo_facts(3,4))

text \<open>
  Whatever the read flags say and however much of the query the 15 minute rollup and the cache of the
  timezone rollup answer, a time series has the totals of a scan of the raw rows if no raw change in
  the queried range is unmarked. \<open>Usage_Delivery\<close> shows where that is so.
\<close>

lemma resolved_source_unmarked:
  assumes ca: "calendar_agrees cal" and re: "reachable cal s"
    and un: "\<forall>b \<in> set (gh_unmarked s). b + 900000 \<le> uq_from q \<or> uq_to q \<le> b"
  shows "total (\<lambda>(t, d). Q (cal_trunc cal r z t) d) (resolveTimeseriesSource cal readV2 readZone (Some (r, z)) q s)
       = total (\<lambda>(t, d). Q (cal_trunc cal r z t) d) (rawSource q s)"
proof (cases "if readZone then readCacheReadySnapshot cal r z q s else None")
  case None
  then have "resolveTimeseriesSource cal readV2 readZone (Some (r, z)) q s = exactTimeseriesSource readV2 q s"
    by (simp add: resolveTimeseriesSource_def)
  then show ?thesis using total_exact_source [OF reachable_base_inv [OF re] local_bucketed [OF ca] un] by (simp add: total_rawSource)
next
  case (Some snap)
  obtain cf ct where sn: "readCacheReadySnapshot cal r z q s = Some (cf, ct)" and snap: "snap = (cf, ct)"
    using Some by (cases snap) (auto split: if_splits)
  obtain bs w where ne: "bs \<noteq> []" and f: "tiles cal r z cf bs ct" "uq_from q \<le> cf" "cf \<le> ct" "ct \<le> uq_to q" "db_watermark s = Some w" "ct \<le> w"
    and cov: "\<And>b b'. (b, b') \<in> set bs \<Longrightarrow> (r, z, b) \<in> set (db_coverage s)"
    and clean: "\<And>d. d \<in> set (db_dirty s) \<Longrightarrow> cf \<le> d \<Longrightarrow> ct \<le> d"
    by (rule snapshot_facts [OF ca sn]) blast
  note bi = reachable_base_inv [OF re] and zi = reachable_zone_inv [OF re ca]
  let ?l = "\<lambda>t d. Q (cal_trunc cal r z t) d"
  let ?Q = "\<lambda>t d. in_scope q d \<and> ?l t d"
  have acc: "cache_accurate cal s r z b" if "(b, b') \<in> set bs" for b b'
  proof -
    have "covered_ok cal s (r, z, b)" using zi cov [OF that] by (auto simp: zone_inv_def coverage_inv_def)
    moreover have "\<not> dirty_within b (pg_source_to cal r z b) s"
      using tiles_member [OF ca f(1) that] clean unfolding dirty_within_def by fastforce
    ultimately show ?thesis by (simp add: covered_ok_def)
  qed
  have ci: "cache_inv cal s" using zi by (simp add: zone_inv_def)
  have sc: "in_scope (q\<lparr>uq_to := x\<rparr>) = in_scope q" "in_scope (q\<lparr>uq_from := x\<rparr>) = in_scope q"
    "in_scope (q\<lparr>uq_from := x, uq_to := y\<rparr>) = in_scope q" for x y
    by (simp_all add: in_scope_def fun_eq_iff)
  have idem: "cal_trunc cal r z (cal_trunc cal r z t) = cal_trunc cal r z t" for t
    using bucket_start_trunc [OF ca, of r z t] by (simp add: bucket_start_def)
  have bq: "bucketed ?Q" using local_bucketed [OF ca] by (simp add: bucketed_def)
  have before: "total (\<lambda>(t, d). ?l t d) (if uq_from q < cf then exactTimeseriesSource readV2 (q\<lparr>uq_to := cf\<rparr>) s else []) = raw_total ?Q (uq_from q) cf s"
  proof (cases "uq_from q < cf")
    case True
    have "\<forall>b \<in> set (gh_unmarked s). b + 900000 \<le> uq_from (q\<lparr>uq_to := cf\<rparr>) \<or> uq_to (q\<lparr>uq_to := cf\<rparr>) \<le> b"
      using un f(3,4) by auto
    from total_exact_source [OF bi local_bucketed [OF ca] this, of Q r z readV2] True show ?thesis by (simp add: sc)
  qed (use f(2) in \<open>simp add: raw_total_empty\<close>)
  have after: "total (\<lambda>(t, d). ?l t d) (if ct < uq_to q then exactTimeseriesSource readV2 (q\<lparr>uq_from := ct\<rparr>) s else []) = raw_total ?Q ct (uq_to q) s"
  proof (cases "ct < uq_to q")
    case True
    have "\<forall>b \<in> set (gh_unmarked s). b + 900000 \<le> uq_from (q\<lparr>uq_from := ct\<rparr>) \<or> uq_to (q\<lparr>uq_from := ct\<rparr>) \<le> b"
      using un f(2,3) by auto
    from total_exact_source [OF bi local_bucketed [OF ca] this, of Q r z readV2] True show ?thesis by (simp add: sc)
  qed (simp add: raw_total_empty)
  have "total (\<lambda>(t, d). ?l t d) (timezoneSource r z (q\<lparr>uq_from := cf, uq_to := ct\<rparr>) s) = cache_total r z ?Q cf ct s"
    by (simp add: total_timezone_source sc)
  also have "\<dots> = total (\<lambda>(k, d). cf \<le> k \<and> k < ct \<and> ?Q (cal_trunc cal r z k) d) (ch_base s)"
    by (rule cache_total_tiles [OF ca ci acc f(1)])
  also have "\<dots> = total (\<lambda>(k, d). cf \<le> k \<and> k < ct \<and> ?Q k d) (ch_base s)" by (simp only: idem)
  also have "\<dots> = raw_total ?Q cf ct s"
  proof (rule total_base [OF bi _ bq])
    have "aligned cf \<and> aligned ct"
    proof -
      obtain b b' rest where bs: "bs = (b, b') # rest" using ne by (cases bs) auto
      have "bucket_start cal r z cf" using f(1) bs by simp
      moreover have "(fst (last bs), snd (last bs)) \<in> set bs" using ne by simp
      then have "aligned (snd (last bs))" using tiles_member [OF ca f(1)] window_facts(2) [OF ca] by metis
      then have "aligned ct" using tiles_end [OF f(1) ne] by simp
      ultimately show ?thesis by (simp add: bucket_start_def)
    qed
    moreover have "b \<notin> set (db_dirty s) \<and> b \<notin> set (gh_unmarked s)" if "cf \<le> b" "b < ct" for b
      using clean [of b] un f(2,4) that by force
    ultimately show "settled s cf ct" using f(5,6) by (auto simp: settled_def)
  qed
  finally have cache: "total (\<lambda>(t, d). ?l t d) (timezoneSource r z (q\<lparr>uq_from := cf, uq_to := ct\<rparr>) s) = raw_total ?Q cf ct s" .
  have "total (\<lambda>(t, d). ?l t d) (resolveTimeseriesSource cal readV2 readZone (Some (r, z)) q s)
      = raw_total ?Q (uq_from q) cf s + (raw_total ?Q cf ct s + raw_total ?Q ct (uq_to q) s)"
    using Some unfolding snap resolveTimeseriesSource_def option.case prod.case by (simp only: total_append before cache after option.case prod.case)
  also have "\<dots> = raw_total ?Q (uq_from q) (uq_to q) s"
    using raw_total_split [of "uq_from q" cf "uq_to q" ?Q s] raw_total_split [of cf ct "uq_to q" ?Q s] f(2-4) by simp
  finally show ?thesis by (simp add: total_rawSource)
qed

end
