(* ===== verification/Usage_Races.thy ===== *)
theory Usage_Races
  imports Usage_Reads
begin

text \<open>
  Runs that are not calm: the interleavings that the exactness of the rollups, or the delivery of the
  outbox, does not survive. Each is a concrete run of the machine of \<open>Usage_Steps\<close>.
\<close>

definition race_event :: "string \<Rightarrow> instant \<Rightarrow> finalized_event" where
  "race_event key ts = \<lparr>fe_dedup = key, fe_provider = ''p'', fe_user = Some ''u'', fe_session = None, fe_model = None, fe_ts = ts,
     fe_input = 10, fe_output = 1, fe_cacheRead = 0, fe_cacheCreation = 0, fe_cost = ''0.00000007'', fe_logAdapter = Some ''l'',
     fe_host = None, fe_revision = None, fe_status = ''priced''\<rparr>"

definition flush_events :: "nat \<Rightarrow> instant \<Rightarrow> event list" where
  "flush_events p now = [Ev_flush_claim p now 10, Ev_flush_read p, Ev_flush_raw p, Ev_flush_hourly p, Ev_flush_commit p now]"

definition compact_events :: "instant \<Rightarrow> event list" where
  "compact_events now = [Ev_compact_read, Ev_compact_delete, Ev_compact_insert, Ev_compact_commit now]"

definition race_query :: usage_query where
  "race_query = \<lparr>uq_from = 0, uq_to = 5400000, uq_provider = [], uq_user = [], uq_team = [], uq_users = []\<rparr>"

definition event_count :: "source_rows \<Rightarrow> int" where
  "event_count rows = m_events (total (\<lambda>k. True) rows)"

section \<open>A mark between the read and the commit of a compaction\<close>









section \<open>Stale rows of a compaction that failed\<close>

text \<open>
  A compaction fails after its insert; then a row of the inserted bucket is removed. The next
  compaction has room for one dirty bucket, an older one, and reaches the bucket as the next in line:
  it inserts without deleting, and clears the mark.
\<close>

definition undeleted_bucket_events :: "event list" where
  "undeleted_bucket_events =
     Ev_enqueue [] ''t'' 900000 [race_event ''a'' 100] # flush_events 1 900001
     @ Ev_compact_begin 2700000 1800000 8 # compact_events 2700001
     @ Ev_enqueue [] ''v'' 2700002 [race_event ''b'' 900100] # flush_events 1 2700003
     @ [Ev_compact_begin 3600000 1800000 8, Ev_compact_read, Ev_compact_delete, Ev_compact_insert, Ev_compact_fail]
     @ Ev_enqueue [] ''w'' 3600001 [race_event ''c'' 200] # flush_events 1 3600002
     @ [Ev_reconcile 1 \<lparr>rr_user = ''u'', rr_provider = ''p'', rr_logAdapter = ''l'', rr_dedupKeys = [''b'']\<rparr>,
        Ev_change_mark 1, Ev_change_apply 1, Ev_change_mark 1]
     @ Ev_compact_begin 3600003 1800000 2 # compact_events 3600004"

lemma undeleted_bucket_is_stale:
  "map_option (\<lambda>s. (gh_unmarked s, db_dirty s, event_count (rawSource race_query s), event_count (exactTimeseriesSource True race_query s)))
     (run utc_calendar undeleted_bucket_events empty_db)
   = Some ([], [], 2, 3)"
  by code_simp

section \<open>A reconciliation during a flush\<close>

text \<open>
  The rows of a reconciled event leave the outbox and ClickHouse; a flusher that had read them before
  inserts them afterwards.
\<close>

definition resurrected_events :: "event list" where
  "resurrected_events =
     [Ev_enqueue [] ''t'' 3600000 [race_event ''a'' 100], Ev_flush_claim 1 3600001 10, Ev_flush_read 1,
      Ev_reconcile 1 \<lparr>rr_user = ''u'', rr_provider = ''p'', rr_logAdapter = ''l'', rr_dedupKeys = [''a'']\<rparr>,
      Ev_change_mark 1, Ev_change_apply 1, Ev_change_mark 1, Ev_flush_raw 1, Ev_flush_hourly 1, Ev_flush_commit 1 3600002]"

lemma reconciled_event_reappears:
  "map_option (\<lambda>s. (length (db_outbox s), event_count (rawSource race_query s), map fst (pr_change s)))
     (run utc_calendar resurrected_events empty_db)
   = Some (0, 1, [])"
  by code_simp

section \<open>A stale flusher that fails\<close>

text \<open>
  A flusher is slow, its lease of five minutes ends, another delivers the batch, and the first one
  fails then: its \<open>catch\<close> block makes the delivered batch pending again.
\<close>

definition wedged_batch_events :: "event list" where
  "wedged_batch_events =
     [Ev_enqueue [] ''t'' 3600000 [race_event ''a'' 100], Ev_flush_claim 1 3600001 10, Ev_flush_read 1]
     @ flush_events 2 3900002 @ [Ev_flush_fail 1]"

lemma wedged_batch:
  "map_option (\<lambda>s. map (\<lambda>b. (ub_status b, ub_delivered b)) (db_batches s)) (run utc_calendar wedged_batch_events empty_db)
   = Some [(Batch_pending, Some 3900002)]"
  by code_simp

text \<open>Such a batch is never claimed again, and retention never deletes it or its rows.\<close>

lemma wedged_batch_stays:
  assumes "b \<in> set (db_batches s)" "ub_status b = Batch_pending" "ub_delivered b = Some t" "distinct (map ub_id (db_batches s))"
  shows "\<not> batch_claimable now b" "b \<in> set (db_batches (snd (pruneClickHouseUsageRetentionAt now s)))"
    "r \<in> set (db_outbox s) \<Longrightarrow> or_batch r = ub_id b \<Longrightarrow> r \<in> set (db_outbox (snd (pruneClickHouseUsageRetentionAt now s)))"
proof -
  show "\<not> batch_claimable now b" using assms(3) by (simp add: batch_claimable_def)
  show "b \<in> set (db_batches (snd (pruneClickHouseUsageRetentionAt now s)))"
    using assms(1,2) by (simp add: pruneClickHouseUsageRetentionAt_def Let_def)
  have one: "b' = b" if "b' \<in> set (db_batches s)" "ub_id b' = ub_id b" for b'
    by (rule distinct_idD [OF assms(4) that(1) assms(1) that(2)])
  show "r \<in> set (db_outbox (snd (pruneClickHouseUsageRetentionAt now s)))" if "r \<in> set (db_outbox s)" "or_batch r = ub_id b"
    using that assms(2) by (auto simp: pruneClickHouseUsageRetentionAt_def Let_def dest: one)
qed

section \<open>A zone that comes back\<close>

text \<open>
  A worker finds the zone of a job unsupported and takes it out of the registry, with its coverage;
  its jobs become done. Registered again, its windows are not prewarmed: the old jobs are in the way.
\<close>

definition returning_zone_events :: "event list" where
  "returning_zone_events =
     Ev_enqueue [] ''t'' 3600000 [race_event ''a'' 100] # flush_events 1 3600001
     @ [Ev_register ''UTC'', Ev_validate ''UTC'', Ev_compact_begin 5400000 1800000 8] @ compact_events 5400001
     @ [Ev_claim 1 5400002 8, Ev_unsupported 1 5400003,
        Ev_register ''UTC'', Ev_validate ''UTC'', Ev_prewarm 5400004 Res_hour ''UTC'' [(0, 3600000)]]"

lemma returning_zone_is_not_prewarmed:
  "map_option (\<lambda>s. (db_zones s, map (\<lambda>j. (job_key j, tj_status j)) (db_jobs s), db_coverage s))
     (run utc_calendar returning_zone_events empty_db)
   = Some ([(''UTC'', True)], [((Res_hour, ''UTC'', 0), Job_done), ((Res_day, ''UTC'', 0), Job_done)], [])"
  by code_simp

end
