(* ===== verification/Usage_Delivery.thy ===== *)
theory Usage_Delivery
  imports Usage_Reads
begin

text \<open>
  Delivery marks what it wrote. In a tidy run the buckets whose raw rows changed without a mark are
  those of outbox rows that are not delivered yet, or of a change that is about to mark them again:
  a flusher may die or fail at any point, for the batch is claimed again, its insert is dropped by its
  token, and the commit marks. So a dashboard differs from the raw rows in no range where every
  event is delivered and no change is under way.
\<close>

section \<open>Tidy runs\<close>

definition instant_buckets :: "instant list \<Rightarrow> instant set" where
  "instant_buckets ts = fifteenMinuteBucket ` set ts"

abbreviation row_buckets :: "outbox_row list \<Rightarrow> instant set" where
  "row_buckets rows \<equiv> instant_buckets (map or_ts rows)"

text \<open>
  A raw row that is replaced keeps to the buckets the process knows of and marks. A change that was
  applied is not stopped before its second mark. A reconciliation takes an undelivered row from the
  outbox only while no flusher has read its batch and its bucket waits for no mark.
\<close>

fun tidy :: "event \<Rightarrow> usage_db \<Rightarrow> bool" where
  "tidy (Ev_flush_raw p) s =
     (case map_of (pr_flush s) p of
        None \<Rightarrow> True
      | Some f \<Rightarrow> set (touched_buckets (Replace (map clickHouseUsageRow (fl_rows f))) (ch_raw s)) \<subseteq> row_buckets (fl_rows f))"
| "tidy (Ev_change_apply q) s =
     (case map_of (pr_change s) q of
        None \<Rightarrow> True
      | Some c \<Rightarrow> set (touched_buckets (cg_change c) (ch_raw s)) \<subseteq> instant_buckets (cg_times c))"
| "tidy (Ev_change_stop q) s = (case map_of (pr_change s) q of None \<Rightarrow> True | Some c \<Rightarrow> cg_phase c \<noteq> Ch_applied)"
| "tidy (Ev_reconcile q r) s =
     (\<forall>x \<in> set (db_outbox s) - set (db_outbox (snd (reconcileUsageEvents r s))). or_delivered x = None \<longrightarrow>
        fifteenMinuteBucket (or_ts x) \<notin> set (gh_unmarked s)
        \<and> (\<forall>p \<in> set (map fst (pr_flush s)).
             case map_of (pr_flush s) p of
               None \<Rightarrow> True
             | Some f \<Rightarrow> fl_phase f \<noteq> Fl_claimed \<longrightarrow> fl_todo f \<noteq> [] \<longrightarrow> fst (hd (fl_todo f)) \<noteq> or_batch x))"
| "tidy _ s = True"

inductive tidy_reachable :: "calendar \<Rightarrow> usage_db \<Rightarrow> bool" for cal where
  start: "tidy_reachable cal empty_db"
| step: "tidy_reachable cal s \<Longrightarrow> step cal e s = Some s' \<Longrightarrow> calm cal e s \<Longrightarrow> tidy e s \<Longrightarrow> tidy_reachable cal s'"

lemma tidy_reachable_calm: "tidy_reachable cal s \<Longrightarrow> reachable cal s"
  by (induction rule: tidy_reachable.induct) (auto intro: reachable.intros)

section \<open>The invariant\<close>

text \<open>The batches and their tokens, in the table and in the hands of flushers.\<close>

definition batch_tokens :: "usage_db \<Rightarrow> (nat \<times> string) set" where
  "batch_tokens s = (\<lambda>b. (ub_id b, ub_token b)) ` set (db_batches s) \<union> (\<Union>f \<in> ran (map_of (pr_flush s)). set (fl_todo f))"

definition sent :: "usage_db \<Rightarrow> string \<Rightarrow> bool" where
  "sent s t \<longleftrightarrow> t @ '':raw'' \<in> set (ch_tokens s)"

definition undelivered :: "usage_db \<Rightarrow> instant set" where
  "undelivered s = {fifteenMinuteBucket (or_ts r) | r. r \<in> set (db_outbox s) \<and> or_delivered r = None}"

definition applied :: "usage_db \<Rightarrow> instant set" where
  "applied s = (\<Union>c \<in> {c \<in> ran (map_of (pr_change s)). cg_phase c = Ch_applied}. instant_buckets (cg_times c))"

definition tokens_ok :: "usage_db \<Rightarrow> bool" where
  "tokens_ok s \<longleftrightarrow> single_valued (batch_tokens s) \<and> (\<forall>(i, t) \<in> batch_tokens s. i < db_nextBatch s)
     \<and> (\<forall>r \<in> set (db_outbox s). or_batch r < db_nextBatch s)"

definition delivered_ok :: "usage_db \<Rightarrow> bool" where
  "delivered_ok s \<longleftrightarrow> (\<forall>(i, t) \<in> batch_tokens s. \<forall>r \<in> set (db_outbox s). or_batch r = i \<longrightarrow> or_delivered r \<noteq> None \<longrightarrow> sent s t)"

definition batch_ok :: "usage_db \<Rightarrow> flusher \<Rightarrow> nat \<Rightarrow> string \<Rightarrow> bool" where
  "batch_ok s f i t \<longleftrightarrow>
     (\<forall>r \<in> set (db_outbox s). or_batch r = i \<longrightarrow> fifteenMinuteBucket (or_ts r) \<in> row_buckets (fl_rows f))
     \<and> (sent s t \<or> (\<forall>k \<in> row_buckets (fl_rows f). \<exists>r \<in> set (db_outbox s). or_batch r = i \<and> or_delivered r = None \<and> fifteenMinuteBucket (or_ts r) = k))
     \<and> (fl_phase f \<in> {Fl_raw, Fl_hourly} \<longrightarrow> fl_rows f \<noteq> [] \<longrightarrow> sent s t)"

definition flusher_ok :: "usage_db \<Rightarrow> flusher \<Rightarrow> bool" where
  "flusher_ok s f \<longleftrightarrow> fl_phase f = Fl_claimed \<or> fl_todo f = [] \<or> (case hd (fl_todo f) of (i, t) \<Rightarrow> batch_ok s f i t)"

definition delivery_inv :: "usage_db \<Rightarrow> bool" where
  "delivery_inv s \<longleftrightarrow> tokens_ok s \<and> delivered_ok s \<and> (\<forall>f \<in> ran (map_of (pr_flush s)). flusher_ok s f)
     \<and> set (gh_unmarked s) \<subseteq> undelivered s \<union> applied s"

lemma delivery_invI:
  assumes "tokens_ok s" "delivered_ok s" "\<And>p f. map_of (pr_flush s) p = Some f \<Longrightarrow> flusher_ok s f"
    "set (gh_unmarked s) \<subseteq> undelivered s \<union> applied s"
  shows "delivery_inv s"
  using assms by (auto simp: delivery_inv_def ran_def)

lemma delivery_invD:
  assumes "delivery_inv s"
  shows "tokens_ok s" "delivered_ok s" "map_of (pr_flush s) p = Some f \<Longrightarrow> flusher_ok s f"
    "set (gh_unmarked s) \<subseteq> undelivered s \<union> applied s"
  using assms by (auto simp: delivery_inv_def intro: ranI)

text \<open>What the invariant is about.\<close>

definition delivery_view :: "usage_db \<Rightarrow> _" where
  "delivery_view s = (batch_tokens s, db_nextBatch s, db_outbox s, ch_tokens s, map_of (pr_flush s), map_of (pr_change s), gh_unmarked s)"

lemma delivery_inv_frame:
  assumes "delivery_view s' = delivery_view s" "delivery_inv s"
  shows "delivery_inv s'"
proof -
  have e: "batch_tokens s' = batch_tokens s" "db_nextBatch s' = db_nextBatch s" "db_outbox s' = db_outbox s" "ch_tokens s' = ch_tokens s"
    "map_of (pr_flush s') = map_of (pr_flush s)" "map_of (pr_change s') = map_of (pr_change s)" "gh_unmarked s' = gh_unmarked s"
    using assms(1) by (simp_all add: delivery_view_def)
  show ?thesis using assms(2)
    unfolding delivery_inv_def tokens_ok_def delivered_ok_def flusher_ok_def batch_ok_def sent_def undelivered_def applied_def e .
qed

section \<open>How the parts of the invariant carry over\<close>

lemma tokens_ok_mono:
  assumes "tokens_ok s" "batch_tokens s' \<subseteq> batch_tokens s" "db_nextBatch s' = db_nextBatch s"
    "or_batch ` set (db_outbox s') \<subseteq> or_batch ` set (db_outbox s)"
  shows "tokens_ok s'"
proof -
  have "single_valued (batch_tokens s')" using assms(1,2) by (auto simp: tokens_ok_def intro: single_valued_subset)
  moreover have "or_batch r < db_nextBatch s" if "r \<in> set (db_outbox s')" for r
  proof -
    have "or_batch r \<in> or_batch ` set (db_outbox s)" using assms(4) that by blast
    then show ?thesis using assms(1) by (auto simp: tokens_ok_def)
  qed
  ultimately show ?thesis using assms(1-3) by (auto simp: tokens_ok_def)
qed

lemma sent_mono: "set (ch_tokens s) \<subseteq> set (ch_tokens s') \<Longrightarrow> sent s t \<Longrightarrow> sent s' t"
  by (auto simp: sent_def)

lemma delivered_ok_mono:
  assumes "delivered_ok s" "batch_tokens s' \<subseteq> batch_tokens s" "set (ch_tokens s) \<subseteq> set (ch_tokens s')"
    "set (db_outbox s') \<subseteq> set (db_outbox s)"
  shows "delivered_ok s'"
  unfolding delivered_ok_def
proof (intro ballI, clarify)
  fix i t r u assume a: "(or_batch r, t) \<in> batch_tokens s'" "r \<in> set (db_outbox s')" "or_delivered r = Some u"
  then have "sent s t" using assms(1,2,4) unfolding delivered_ok_def by fastforce
  then show "sent s' t" by (rule sent_mono [OF assms(3)])
qed

lemma batch_ok_mono:
  assumes ok: "batch_ok s f i t" and tok: "set (ch_tokens s) \<subseteq> set (ch_tokens s')"
    and older: "\<And>r'. r' \<in> set (db_outbox s') \<Longrightarrow> or_batch r' = i \<Longrightarrow> \<exists>r \<in> set (db_outbox s). or_batch r = i \<and> or_ts r = or_ts r'"
    and newer: "\<And>r. \<not> sent s' t \<Longrightarrow> r \<in> set (db_outbox s) \<Longrightarrow> or_batch r = i \<Longrightarrow> or_delivered r = None \<Longrightarrow> r \<in> set (db_outbox s')"
  shows "batch_ok s' f i t"
proof -
  have m: "sent s t \<Longrightarrow> sent s' t" by (rule sent_mono [OF tok])
  have "fifteenMinuteBucket (or_ts r') \<in> row_buckets (fl_rows f)" if "r' \<in> set (db_outbox s')" "or_batch r' = i" for r'
    using older [OF that] ok by (auto simp: batch_ok_def)
  moreover have "sent s' t \<or> (\<forall>k \<in> row_buckets (fl_rows f). \<exists>r \<in> set (db_outbox s'). or_batch r = i \<and> or_delivered r = None \<and> fifteenMinuteBucket (or_ts r) = k)"
    using ok m newer unfolding batch_ok_def by blast
  ultimately show ?thesis using ok m unfolding batch_ok_def by blast
qed

lemma flusher_ok_mono:
  assumes "flusher_ok s f" "set (ch_tokens s) \<subseteq> set (ch_tokens s')"
    "\<And>i t r'. fl_phase f \<noteq> Fl_claimed \<Longrightarrow> fl_todo f \<noteq> [] \<Longrightarrow> hd (fl_todo f) = (i, t) \<Longrightarrow> r' \<in> set (db_outbox s') \<Longrightarrow> or_batch r' = i
       \<Longrightarrow> \<exists>r \<in> set (db_outbox s). or_batch r = i \<and> or_ts r = or_ts r'"
    "\<And>i t r. fl_phase f \<noteq> Fl_claimed \<Longrightarrow> fl_todo f \<noteq> [] \<Longrightarrow> hd (fl_todo f) = (i, t) \<Longrightarrow> \<not> sent s' t \<Longrightarrow> r \<in> set (db_outbox s)
       \<Longrightarrow> or_batch r = i \<Longrightarrow> or_delivered r = None \<Longrightarrow> r \<in> set (db_outbox s')"
  shows "flusher_ok s' f"
proof (cases "fl_phase f = Fl_claimed \<or> fl_todo f = []")
  case False
  obtain i t where h: "hd (fl_todo f) = (i, t)" by (cases "hd (fl_todo f)")
  have "batch_ok s f i t" using assms(1) False h by (auto simp: flusher_ok_def)
  then have "batch_ok s' f i t" by (rule batch_ok_mono) (use assms(2-4) False h in blast)+
  then show ?thesis by (simp add: flusher_ok_def h)
qed (auto simp: flusher_ok_def)

lemma undelivered_cong: "db_outbox s' = db_outbox s \<Longrightarrow> undelivered s' = undelivered s"
  by (simp add: undelivered_def)

lemma applied_cong: "map_of (pr_change s') = map_of (pr_change s) \<Longrightarrow> applied s' = applied s"
  by (simp add: applied_def)

lemma appliedI: "map_of (pr_change s) q = Some c \<Longrightarrow> cg_phase c = Ch_applied \<Longrightarrow> k \<in> instant_buckets (cg_times c) \<Longrightarrow> k \<in> applied s"
  by (auto simp: applied_def intro: ranI)

lemma appliedE:
  assumes "k \<in> applied s"
  obtains q c where "map_of (pr_change s) q = Some c" "cg_phase c = Ch_applied" "k \<in> instant_buckets (cg_times c)"
  using assms by (auto simp: applied_def ran_def)

text \<open>The tokens of the batches when the table of one flusher changes.\<close>

definition batch_pairs :: "usage_db \<Rightarrow> (nat \<times> string) set" where
  "batch_pairs s = (\<lambda>b. (ub_id b, ub_token b)) ` set (db_batches s)"

lemma batch_tokens_pairs: "batch_tokens s = batch_pairs s \<union> (\<Union>f \<in> ran (map_of (pr_flush s)). set (fl_todo f))"
  by (simp add: batch_tokens_def batch_pairs_def)

lemma todo_batch_tokens: "map_of (pr_flush s) p = Some f \<Longrightarrow> set (fl_todo f) \<subseteq> batch_tokens s"
  by (auto simp: batch_tokens_def intro: ranI)

lemma batch_tokens_set_flush:
  assumes "batch_pairs s' \<subseteq> batch_tokens s" "\<And>k. k \<noteq> p \<Longrightarrow> map_of (pr_flush s') k = map_of (pr_flush s) k"
    "\<And>f. map_of (pr_flush s') p = Some f \<Longrightarrow> set (fl_todo f) \<subseteq> batch_tokens s"
  shows "batch_tokens s' \<subseteq> batch_tokens s"
proof -
  have "set (fl_todo f) \<subseteq> batch_tokens s" if "map_of (pr_flush s') k = Some f" for k f
    using assms(2,3) that todo_batch_tokens by (cases "k = p") auto
  then show ?thesis using assms(1) unfolding batch_tokens_pairs [of s'] ran_def by blast
qed

section \<open>Steps of a flusher\<close>

text \<open>A step of flusher \<open>p\<close> that leaves the outbox and the changes alone.\<close>

lemma delivery_inv_flush:
  assumes inv: "delivery_inv s"
    and same: "batch_pairs s' = batch_pairs s" "db_nextBatch s' = db_nextBatch s" "db_outbox s' = db_outbox s"
      "map_of (pr_change s') = map_of (pr_change s)"
    and tok: "set (ch_tokens s) \<subseteq> set (ch_tokens s')"
    and others: "\<And>k. k \<noteq> p \<Longrightarrow> map_of (pr_flush s') k = map_of (pr_flush s) k"
    and todo: "\<And>f. map_of (pr_flush s') p = Some f \<Longrightarrow> set (fl_todo f) \<subseteq> batch_tokens s"
    and me: "\<And>f. map_of (pr_flush s') p = Some f \<Longrightarrow> flusher_ok s' f"
    and un: "set (gh_unmarked s') \<subseteq> undelivered s \<union> applied s"
  shows "delivery_inv s'"
proof (rule delivery_invI)
  note inv' = delivery_invD [OF inv]
  have bt: "batch_tokens s' \<subseteq> batch_tokens s"
    by (rule batch_tokens_set_flush [where p = p]) (use others todo in \<open>auto simp: same(1) batch_tokens_pairs\<close>)
  show "tokens_ok s'" by (rule tokens_ok_mono [OF inv'(1) bt same(2)]) (simp add: same(3))
  show "delivered_ok s'" by (rule delivered_ok_mono [OF inv'(2) bt tok]) (simp add: same(3))
  show "flusher_ok s' f" if "map_of (pr_flush s') k = Some f" for k f
  proof (cases "k = p")
    case False
    then have "flusher_ok s f" using that others inv'(3) by simp
    then show ?thesis by (rule flusher_ok_mono [OF _ tok]) (auto simp: same(3))
  qed (use me that in simp)
  show "set (gh_unmarked s') \<subseteq> undelivered s' \<union> applied s'"
    using un by (simp add: undelivered_cong [OF same(3)] applied_cong [OF same(4)])
qed

lemma map_of_set_flush: "map_of (pr_flush (set_flush p f s)) k = (if k = p then f else map_of (pr_flush s) k)"
  by (simp add: set_flush_def)

lemma set_flush_simps [simp]:
  "batch_pairs (set_flush p f s) = batch_pairs s" "db_nextBatch (set_flush p f s) = db_nextBatch s" "db_outbox (set_flush p f s) = db_outbox s"
  "pr_change (set_flush p f s) = pr_change s" "ch_tokens (set_flush p f s) = ch_tokens s" "gh_unmarked (set_flush p f s) = gh_unmarked s"
  "ch_raw (set_flush p f s) = ch_raw s"
  by (simp_all add: set_flush_def batch_pairs_def)

lemma delivery_inv_drop:
  assumes "delivery_inv s"
  shows "delivery_inv (set_flush p None s)"
  by (rule delivery_inv_flush [where p = p, OF assms]) (simp_all add: map_of_set_flush delivery_invD(4) [OF assms])

lemma batch_pairs_map:
  assumes "db_batches s' = map g (db_batches s)" "\<And>b. ub_id (g b) = ub_id b \<and> ub_token (g b) = ub_token b"
  shows "batch_pairs s' = batch_pairs s"
  using assms(2) by (simp add: batch_pairs_def assms(1) image_image)

lemma flush_rollback_view: "delivery_view (flush_rollback i s) = delivery_view s"
proof -
  have "batch_pairs (flush_rollback i s) = batch_pairs s"
    by (rule batch_pairs_map [where g = "\<lambda>b. if ub_id b = i then b\<lparr>ub_status := Batch_pending, ub_locked := None\<rparr> else b"])
      (simp_all add: flush_rollback_def update_batch_def)
  then show ?thesis by (simp add: delivery_view_def batch_tokens_pairs flush_rollback_def)
qed

lemma delivery_inv_claim:
  assumes inv: "delivery_inv s" and free: "map_of (pr_flush s) p = None" and c: "flush_claim now n s = (f, s1)"
  shows "delivery_inv (set_flush p (if fl_todo f = [] then None else Some f) s1)"
proof -
  have s1: "db_nextBatch s1 = db_nextBatch s" "db_outbox s1 = db_outbox s" "pr_change s1 = pr_change s" "ch_tokens s1 = ch_tokens s"
    "pr_flush s1 = pr_flush s" "gh_unmarked s1 = gh_unmarked s"
    using c by (auto simp: flush_claim_def Let_def)
  have pairs: "batch_pairs s1 = batch_pairs s"
    by (rule batch_pairs_map [where g = "\<lambda>b. if ub_id b \<in> set (map ub_id (claim_batches now n s))
          then b\<lparr>ub_status := Batch_inflight, ub_attempts := ub_attempts b + 1, ub_locked := Some now\<rparr> else b"])
      (use c in \<open>auto simp: flush_claim_def Let_def\<close>)
  have f: "fl_phase f = Fl_claimed" "fl_todo f = map (\<lambda>b. (ub_id b, ub_token b)) (claim_batches now n s)"
    using c by (auto simp: flush_claim_def Let_def)
  have "set (claim_batches now n s) \<subseteq> set (db_batches s)"
    unfolding claim_batches_def by (rule subset_trans [OF set_take_subset]) auto
  then have todo: "set (fl_todo f) \<subseteq> batch_tokens s" unfolding f(2) batch_tokens_pairs batch_pairs_def by auto
  show ?thesis
    by (rule delivery_inv_flush [where p = p, OF inv])
      (use todo f(1) delivery_invD(4) [OF inv] in \<open>auto simp: s1 pairs map_of_set_flush flusher_ok_def split: if_splits\<close>)
qed

lemma delivery_inv_read:
  assumes inv: "delivery_inv s" and f: "map_of (pr_flush s) p = Some f" "fl_todo f = (i, t) # rest"
  shows "delivery_inv (set_flush p (Some (f\<lparr>fl_rows := js_sort (\<lambda>a b. cmp_ord (or_dedup a) (or_dedup b))
           (filter (\<lambda>r. or_batch r = i) (db_outbox s)), fl_phase := Fl_read\<rparr>)) s)" (is "delivery_inv ?s'")
proof -
  let ?f = "f\<lparr>fl_rows := js_sort (\<lambda>a b. cmp_ord (or_dedup a) (or_dedup b)) (filter (\<lambda>r. or_batch r = i) (db_outbox s)), fl_phase := Fl_read\<rparr>"
  have rb: "row_buckets (fl_rows ?f) = (\<lambda>r. fifteenMinuteBucket (or_ts r)) ` {r \<in> set (db_outbox s). or_batch r = i}"
    by (simp add: instant_buckets_def image_image)
  have it: "(i, t) \<in> batch_tokens s" using todo_batch_tokens [OF f(1)] f(2) by simp
  have "sent s t \<or> (\<forall>r \<in> set (db_outbox s). or_batch r = i \<longrightarrow> or_delivered r = None)"
    using delivery_invD(2) [OF inv] it unfolding delivered_ok_def by blast
  then have "batch_ok ?s' ?f i t" unfolding batch_ok_def rb by (auto simp: sent_def)
  then have me: "flusher_ok ?s' ?f" by (simp add: flusher_ok_def f(2))
  show ?thesis
    by (rule delivery_inv_flush [where p = p, OF inv])
      (use me todo_batch_tokens [OF f(1)] delivery_invD(4) [OF inv] in \<open>auto simp: map_of_set_flush split: if_splits\<close>)
qed

lemma delivery_inv_raw:
  assumes inv: "delivery_inv s" and f: "map_of (pr_flush s) p = Some f" "fl_todo f = (i, t) # rest" "fl_phase f = Fl_read"
    and td: "set (touched_buckets (Replace (map clickHouseUsageRow (fl_rows f))) (ch_raw s)) \<subseteq> row_buckets (fl_rows f)"
  shows "delivery_inv (set_flush p (Some (f\<lparr>fl_phase := Fl_raw\<rparr>)) (insert_raw t (fl_rows f) s))" (is "delivery_inv ?s'")
proof -
  let ?s1 = "insert_raw t (fl_rows f) s"
  have ok: "batch_ok s f i t" using delivery_invD(3) [OF inv f(1)] f(2,3) by (simp add: flusher_ok_def)
  have s1: "batch_pairs ?s1 = batch_pairs s" "db_nextBatch ?s1 = db_nextBatch s" "db_outbox ?s1 = db_outbox s" "pr_change ?s1 = pr_change s"
    "pr_flush ?s1 = pr_flush s" "set (ch_tokens s) \<subseteq> set (ch_tokens ?s1)"
    by (auto simp: insert_raw_def change_raw_def batch_pairs_def Let_def)
  have sent: "fl_rows f \<noteq> [] \<Longrightarrow> sent ?s1 t" by (auto simp: insert_raw_def sent_def Let_def)
  have un: "set (gh_unmarked ?s1) \<subseteq> undelivered s \<union> applied s"
  proof (cases "fl_rows f = [] \<or> sent s t")
    case True
    then have "?s1 = s" by (auto simp: insert_raw_def sent_def)
    then show ?thesis using delivery_invD(4) [OF inv] by simp
  next
    case False
    then have "\<exists>r \<in> set (db_outbox s). or_delivered r = None \<and> fifteenMinuteBucket (or_ts r) = k" if "k \<in> row_buckets (fl_rows f)" for k
      using ok that unfolding batch_ok_def by blast
    then have "row_buckets (fl_rows f) \<subseteq> undelivered s" unfolding undelivered_def by fastforce
    moreover have "set (gh_unmarked ?s1) = set (touched_buckets (Replace (map clickHouseUsageRow (fl_rows f))) (ch_raw s)) \<union> set (gh_unmarked s)"
      using False by (simp add: insert_raw_def change_raw_def sent_def Let_def)
    ultimately show ?thesis using td delivery_invD(4) [OF inv] by blast
  qed
  have "batch_ok ?s1 f i t" by (rule batch_ok_mono [OF ok s1(6)]) (auto simp: s1(3))
  then have "batch_ok ?s' (f\<lparr>fl_phase := Fl_raw\<rparr>) i t" using sent by (auto simp: batch_ok_def sent_def)
  then have me: "flusher_ok ?s' (f\<lparr>fl_phase := Fl_raw\<rparr>)" by (simp add: flusher_ok_def f(2))
  show ?thesis
    by (rule delivery_inv_flush [where p = p, OF inv])
      (use me todo_batch_tokens [OF f(1)] un s1(6) in \<open>auto simp: s1 map_of_set_flush split: if_splits\<close>)
qed

lemma delivery_inv_hourly:
  assumes inv: "delivery_inv s" and f: "map_of (pr_flush s) p = Some f" "fl_todo f = (i, t) # rest" "fl_phase f = Fl_raw"
    and h: "insert_hourly t (fl_rows f) s = Some s1"
  shows "delivery_inv (set_flush p (Some (f\<lparr>fl_phase := Fl_hourly\<rparr>)) s1)" (is "delivery_inv ?s'")
proof -
  have ok: "batch_ok s f i t" using delivery_invD(3) [OF inv f(1)] f(2,3) by (simp add: flusher_ok_def)
  have s1: "batch_pairs s1 = batch_pairs s" "db_nextBatch s1 = db_nextBatch s" "db_outbox s1 = db_outbox s" "pr_change s1 = pr_change s"
    "pr_flush s1 = pr_flush s" "set (ch_tokens s) \<subseteq> set (ch_tokens s1)" "gh_unmarked s1 = gh_unmarked s"
    using h by (auto simp: insert_hourly_def batch_pairs_def Let_def split: option.splits if_splits)
  have "batch_ok s1 f i t" by (rule batch_ok_mono [OF ok s1(6)]) (auto simp: s1(3))
  then have "batch_ok ?s' (f\<lparr>fl_phase := Fl_hourly\<rparr>) i t" using f(3) by (auto simp: batch_ok_def sent_def)
  then have me: "flusher_ok ?s' (f\<lparr>fl_phase := Fl_hourly\<rparr>)" by (simp add: flusher_ok_def f(2))
  show ?thesis
    by (rule delivery_inv_flush [where p = p, OF inv])
      (use me todo_batch_tokens [OF f(1)] delivery_invD(4) [OF inv] s1(6) in \<open>auto simp: s1 map_of_set_flush split: if_splits\<close>)
qed

lemma flush_commit_simps [simp]:
  "db_nextBatch (flush_commit now i rows s) = db_nextBatch s" "pr_change (flush_commit now i rows s) = pr_change s"
  "pr_flush (flush_commit now i rows s) = pr_flush s" "ch_tokens (flush_commit now i rows s) = ch_tokens s"
  "db_outbox (flush_commit now i rows s) = map (\<lambda>r. if or_batch r = i then r\<lparr>or_delivered := Some now\<rparr> else r) (db_outbox s)"
  "set (gh_unmarked (flush_commit now i rows s)) = set (gh_unmarked s) - row_buckets rows"
  by (auto simp: flush_commit_def mark15mRollupDirty_def instant_buckets_def Let_def)

lemma batch_pairs_commit [simp]: "batch_pairs (flush_commit now i rows s) = batch_pairs s"
  by (rule batch_pairs_map [where g = "\<lambda>b. if ub_id b = i
        then b\<lparr>ub_status := Batch_delivered, ub_delivered := Some now, ub_locked := None\<rparr> else b"])
    (simp_all add: flush_commit_def update_batch_def mark15mRollupDirty_def Let_def)

lemma tokens_single: "tokens_ok s \<Longrightarrow> (i, t) \<in> batch_tokens s \<Longrightarrow> (i, t') \<in> batch_tokens s \<Longrightarrow> t = t'"
  by (auto simp: tokens_ok_def dest: single_valuedD)

lemma delivery_inv_commit:
  assumes inv: "delivery_inv s" and f: "map_of (pr_flush s) p = Some f" "fl_todo f = (i, t) # rest" "fl_phase f = Fl_hourly"
  shows "delivery_inv (set_flush p (flush_next f) (flush_commit now i (fl_rows f) s))" (is "delivery_inv ?s'")
proof (rule delivery_invI)
  note inv' = delivery_invD [OF inv]
  have ok: "batch_ok s f i t" using inv'(3) [OF f(1)] f(2,3) by (simp add: flusher_ok_def)
  have it: "(i, t) \<in> batch_tokens s" using todo_batch_tokens [OF f(1)] f(2) by simp
  have sent: "sent s t" if "r \<in> set (db_outbox s)" "or_batch r = i" for r
  proof -
    have "fl_rows f \<noteq> []" using ok that by (auto simp: batch_ok_def instant_buckets_def)
    then show ?thesis using ok f(3) by (simp add: batch_ok_def)
  qed
  have next_todo: "set (fl_todo g) \<subseteq> batch_tokens s \<and> fl_phase g = Fl_claimed" if "flush_next f = Some g" for g
    using that todo_batch_tokens [OF f(1)] f(2) by (auto simp: flush_next_def split: if_splits)
  have bt: "batch_tokens ?s' \<subseteq> batch_tokens s"
    by (rule batch_tokens_set_flush [where p = p]) (use next_todo in \<open>auto simp: map_of_set_flush batch_tokens_pairs\<close>)
  show "tokens_ok ?s'" by (rule tokens_ok_mono [OF inv'(1) bt]) (auto simp: image_image)
  show "delivered_ok ?s'"
    unfolding delivered_ok_def
  proof (intro ballI, clarify)
    fix j u r v assume a: "(or_batch r, u) \<in> batch_tokens ?s'" "r \<in> set (db_outbox ?s')" "or_delivered r = Some v"
    obtain r0 where r0: "r0 \<in> set (db_outbox s)" "r = (if or_batch r0 = i then r0\<lparr>or_delivered := Some now\<rparr> else r0)"
      using a(2) by auto
    have b: "(or_batch r0, u) \<in> batch_tokens s" using a(1) bt r0(2) by (auto split: if_splits)
    show "sent ?s' u"
    proof (cases "or_batch r0 = i")
      case True
      then have "u = t" using tokens_single [OF inv'(1) b] it by simp
      then show ?thesis using sent [OF r0(1) True] by (simp add: sent_def)
    next
      case False
      then have "sent s u" using inv'(2) b r0 a(3) by (auto simp: delivered_ok_def)
      then show ?thesis by (simp add: sent_def)
    qed
  qed
  show "flusher_ok ?s' g" if g: "map_of (pr_flush ?s') k = Some g" for k g
  proof (cases "k = p")
    case True
    then show ?thesis using g next_todo by (simp add: map_of_set_flush flusher_ok_def)
  next
    case False
    then have gk: "map_of (pr_flush s) k = Some g" using g by (simp add: map_of_set_flush)
    show ?thesis
    proof (rule flusher_ok_mono [OF inv'(3) [OF gk]])
      show "\<exists>r \<in> set (db_outbox s). or_batch r = j \<and> or_ts r = or_ts r'" if "r' \<in> set (db_outbox ?s')" "or_batch r' = j" for j r'
        using that by (auto split: if_splits)
      fix j u r assume a: "fl_todo g \<noteq> []" "hd (fl_todo g) = (j, u)" "\<not> sent ?s' u" "r \<in> set (db_outbox s)" "or_batch r = j"
      have ju: "(j, u) \<in> batch_tokens s" using todo_batch_tokens [OF gk] a(1,2) by (cases "fl_todo g") auto
      have "j \<noteq> i"
      proof
        assume "j = i"
        then have "u = t" using tokens_single [OF inv'(1)] ju it by simp
        then show False using sent a(3,4,5) \<open>j = i\<close> by (simp add: sent_def)
      qed
      then show "r \<in> set (db_outbox ?s')" using a(4,5) by force
    qed simp
  qed
  show "set (gh_unmarked ?s') \<subseteq> undelivered ?s' \<union> applied ?s'"
  proof
    fix k assume "k \<in> set (gh_unmarked ?s')"
    then have k: "k \<in> set (gh_unmarked s)" "k \<notin> row_buckets (fl_rows f)" by simp_all
    have "applied ?s' = applied s" by (rule applied_cong) simp
    moreover have "k \<in> undelivered ?s'" if "k \<in> undelivered s"
    proof -
      obtain r where r: "r \<in> set (db_outbox s)" "or_delivered r = None" "k = fifteenMinuteBucket (or_ts r)"
        using \<open>k \<in> undelivered s\<close> by (auto simp: undelivered_def)
      then have "or_batch r \<noteq> i" using ok k(2) by (auto simp: batch_ok_def)
      then have "r \<in> set (db_outbox ?s')" using r(1) by force
      then show ?thesis using r by (auto simp: undelivered_def)
    qed
    ultimately show "k \<in> undelivered ?s' \<union> applied ?s'" using inv'(4) k(1) by blast
  qed
qed

lemma delivery_inv_on_flusher:
  assumes st: "on_flusher ev p s = Some s'" and inv: "delivery_inv s" and td: "tidy ev s"
    and ev: "ev \<in> {Ev_flush_read p, Ev_flush_raw p, Ev_flush_hourly p, Ev_flush_commit p now, Ev_flush_fail p}"
  shows "delivery_inv s'"
proof -
  obtain f i t rest where f: "map_of (pr_flush s) p = Some f" "fl_todo f = (i, t) # rest" and fs: "flush_step ev p f s = Some s'"
    using st by (auto simp: on_flusher_def flush_step_def split: option.splits list.splits)
  note step = fs [unfolded flush_step_def f(2) list.case prod.case]
  from ev consider "ev = Ev_flush_read p" | "ev = Ev_flush_raw p" | "ev = Ev_flush_hourly p" | "ev = Ev_flush_commit p now" | "ev = Ev_flush_fail p"
    by blast
  then show ?thesis
  proof cases
    case 1
    then show ?thesis using step delivery_inv_read [OF inv f] by (cases "fl_phase f") auto
  next
    case 2
    then show ?thesis using step td delivery_inv_raw [OF inv f] f(1) by (cases "fl_phase f") auto
  next
    case 3
    then show ?thesis using step delivery_inv_hourly [OF inv f] by (cases "fl_phase f") auto
  next
    case 4
    then show ?thesis using step delivery_inv_commit [OF inv f] by (cases "fl_phase f") auto
  next
    case 5
    have "delivery_inv (set_flush p None (flush_rollback i s))"
      by (rule delivery_inv_drop [OF delivery_inv_frame [OF flush_rollback_view inv]])
    then show ?thesis using step 5 by (cases "fl_phase f") auto
  qed
qed

section \<open>The outbox\<close>

lemma insert_events_appends:
  "\<exists>new. snd (insert_events i teams es outbox) = outbox @ new \<and> (\<forall>r \<in> set new. or_batch r = i \<and> or_delivered r = None)"
proof (induction es arbitrary: outbox)
  case (Cons e es)
  show ?case
  proof (cases "fe_dedup e \<in> or_dedup ` set outbox")
    case False
    obtain new where "snd (insert_events i teams es (outbox @ [outbox_row_of i teams e])) = (outbox @ [outbox_row_of i teams e]) @ new"
      "\<forall>r \<in> set new. or_batch r = i \<and> or_delivered r = None"
      using Cons.IH by blast
    then show ?thesis using False by (auto simp: case_prod_beta outbox_row_of_def intro: exI [of _ "outbox_row_of i teams e # new"])
  qed (simp add: Cons.IH)
qed simp

lemma delivery_inv_enqueue:
  assumes inv: "delivery_inv s"
  shows "delivery_inv (snd (enqueueUsageEvents assignments token now events s))" (is "delivery_inv ?s'")
proof -
  note inv' = delivery_invD [OF inv]
  let ?n = "db_nextBatch s"
  obtain new where out: "db_outbox ?s' = db_outbox s @ new" and new: "\<forall>r \<in> set new. or_batch r = ?n \<and> or_delivered r = None"
    using insert_events_appends [of ?n "teamMapAtEventTime assignments events" events "db_outbox s"]
    by (auto simp: enqueueUsageEvents_def case_prod_beta Let_def)
  have s': "db_nextBatch ?s' = Suc ?n" "pr_change ?s' = pr_change s" "pr_flush ?s' = pr_flush s" "ch_tokens ?s' = ch_tokens s" "gh_unmarked ?s' = gh_unmarked s"
    by (simp_all add: enqueueUsageEvents_def case_prod_beta Let_def)
  have bp: "batch_pairs ?s' \<subseteq> insert (?n, token) (batch_pairs s)"
    by (auto simp: enqueueUsageEvents_def case_prod_beta Let_def batch_pairs_def)
  have bt: "batch_tokens ?s' \<subseteq> insert (?n, token) (batch_tokens s)" using bp by (auto simp: batch_tokens_pairs s'(3))
  have fresh: "i < ?n" if "(i, t) \<in> batch_tokens s" for i t using inv'(1) that by (auto simp: tokens_ok_def)
  have old: "or_batch r < ?n" if "r \<in> set (db_outbox s)" for r using inv'(1) that by (auto simp: tokens_ok_def)
  show ?thesis
  proof (rule delivery_invI)
    have "single_valued (insert (?n, token) (batch_tokens s))"
      using inv'(1) fresh by (fastforce simp: tokens_ok_def single_valued_def)
    then have "single_valued (batch_tokens ?s')" using bt by (rule single_valued_subset [rotated])
    moreover have "i < Suc ?n" if "(i, t) \<in> batch_tokens ?s'" for i t using that bt fresh less_SucI by blast
    ultimately show "tokens_ok ?s'" using old new by (auto simp: tokens_ok_def s'(1) out less_SucI)
    show "delivered_ok ?s'"
      unfolding delivered_ok_def
    proof (intro ballI, clarify)
      fix t r v assume a: "(or_batch r, t) \<in> batch_tokens ?s'" "r \<in> set (db_outbox ?s')" "or_delivered r = Some v"
      then have r: "r \<in> set (db_outbox s)" using new by (auto simp: out)
      then have "(or_batch r, t) \<in> batch_tokens s" using a(1) bt old [OF r] by auto
      then have "sent s t" using inv'(2) r a(3) by (auto simp: delivered_ok_def)
      then show "sent ?s' t" by (simp add: sent_def s')
    qed
    show "flusher_ok ?s' f" if f: "map_of (pr_flush ?s') p = Some f" for p f
    proof -
      have fp: "map_of (pr_flush s) p = Some f" using f by (simp add: s')
      show ?thesis
      proof (rule flusher_ok_mono [OF inv'(3) [OF fp]])
        fix i t r' assume a: "fl_todo f \<noteq> []" "hd (fl_todo f) = (i, t)" "r' \<in> set (db_outbox ?s')" "or_batch r' = i"
        have "(i, t) \<in> batch_tokens s" using todo_batch_tokens [OF fp] a(1,2) by (cases "fl_todo f") auto
        then have "i < ?n" by (rule fresh)
        then show "\<exists>r \<in> set (db_outbox s). or_batch r = i \<and> or_ts r = or_ts r'" using a(3,4) new by (auto simp: out)
      qed (simp_all add: s' out)
    qed
    show "set (gh_unmarked ?s') \<subseteq> undelivered ?s' \<union> applied ?s'"
      using inv'(4) applied_cong [of ?s' s] by (auto simp: s' out undelivered_def)
  qed
qed

text \<open>Rows leave the outbox: those still undelivered are in no bucket that waits for a mark, and no flusher has read them.\<close>

lemma delivery_inv_outbox:
  assumes inv: "delivery_inv s"
    and same: "db_nextBatch s' = db_nextBatch s" "ch_tokens s' = ch_tokens s" "map_of (pr_flush s') = map_of (pr_flush s)"
      "map_of (pr_change s') = map_of (pr_change s)" "gh_unmarked s' = gh_unmarked s"
    and pairs: "batch_pairs s' \<subseteq> batch_pairs s" and sub: "set (db_outbox s') \<subseteq> set (db_outbox s)"
    and gone: "\<And>x. x \<in> set (db_outbox s) \<Longrightarrow> x \<notin> set (db_outbox s') \<Longrightarrow> or_delivered x = None \<Longrightarrow>
      fifteenMinuteBucket (or_ts x) \<notin> set (gh_unmarked s)
      \<and> (\<forall>p f. map_of (pr_flush s) p = Some f \<longrightarrow> fl_phase f \<noteq> Fl_claimed \<longrightarrow> fl_todo f \<noteq> [] \<longrightarrow> fst (hd (fl_todo f)) \<noteq> or_batch x)"
  shows "delivery_inv s'"
proof (rule delivery_invI)
  note inv' = delivery_invD [OF inv]
  have bt: "batch_tokens s' \<subseteq> batch_tokens s" using pairs by (auto simp: batch_tokens_pairs same(3))
  show "tokens_ok s'" by (rule tokens_ok_mono [OF inv'(1) bt same(1)]) (use sub in auto)
  show "delivered_ok s'" by (rule delivered_ok_mono [OF inv'(2) bt _ sub]) (simp add: same(2))
  show "flusher_ok s' f" if f: "map_of (pr_flush s') p = Some f" for p f
  proof -
    have fp: "map_of (pr_flush s) p = Some f" using f by (simp add: same(3))
    show ?thesis
    proof (rule flusher_ok_mono [OF inv'(3) [OF fp]])
      fix i t r assume a: "fl_phase f \<noteq> Fl_claimed" "fl_todo f \<noteq> []" "hd (fl_todo f) = (i, t)" "r \<in> set (db_outbox s)" "or_batch r = i" "or_delivered r = None"
      show "r \<in> set (db_outbox s')"
      proof (rule ccontr)
        assume "r \<notin> set (db_outbox s')"
        then have "fst (hd (fl_todo f)) \<noteq> or_batch r" using gone [OF a(4) _ a(6)] fp a(1,2) by blast
        then show False using a(3,5) by simp
      qed
    qed (use sub in \<open>auto simp: same(2)\<close>)
  qed
  have "k \<in> undelivered s'" if "k \<in> set (gh_unmarked s)" "k \<in> undelivered s" for k
    using gone sub that unfolding undelivered_def by blast
  then show "set (gh_unmarked s') \<subseteq> undelivered s' \<union> applied s'"
    using inv'(4) by (auto simp: same(5) applied_cong [OF same(4)])
qed

lemma delivery_inv_prune:
  assumes "delivery_inv s"
  shows "delivery_inv (snd (pruneClickHouseUsageRetentionAt now s))"
  by (rule delivery_inv_outbox [OF assms])
    (auto simp: pruneClickHouseUsageRetentionAt_def Let_def batch_pairs_def delivered_before_def)

section \<open>Changes of raw rows\<close>

text \<open>A step of change \<open>q\<close> that leaves the outbox and the flushers alone.\<close>

lemma delivery_inv_change:
  assumes inv: "delivery_inv s"
    and same: "batch_pairs s' = batch_pairs s" "db_nextBatch s' = db_nextBatch s" "db_outbox s' = db_outbox s" "pr_flush s' = pr_flush s"
    and tok: "set (ch_tokens s) \<subseteq> set (ch_tokens s')"
    and un: "set (gh_unmarked s') \<subseteq> undelivered s \<union> applied s'"
  shows "delivery_inv s'"
proof (rule delivery_invI)
  note inv' = delivery_invD [OF inv]
  have bt: "batch_tokens s' \<subseteq> batch_tokens s" by (simp add: batch_tokens_pairs same)
  show "tokens_ok s'" by (rule tokens_ok_mono [OF inv'(1) bt same(2)]) (simp add: same(3))
  show "delivered_ok s'" by (rule delivered_ok_mono [OF inv'(2) bt tok]) (simp add: same(3))
  show "flusher_ok s' f" if "map_of (pr_flush s') p = Some f" for p f
  proof -
    have "flusher_ok s f" using that inv'(3) by (simp add: same(4))
    then show ?thesis by (rule flusher_ok_mono [OF _ tok]) (auto simp: same(3))
  qed
  show "set (gh_unmarked s') \<subseteq> undelivered s' \<union> applied s'" using un by (simp add: undelivered_cong [OF same(3)])
qed

lemma map_of_set_change: "map_of (pr_change (set_change q c s)) k = (if k = q then c else map_of (pr_change s) k)"
  by (simp add: set_change_def)

lemma set_change_simps [simp]:
  "batch_pairs (set_change q c s) = batch_pairs s" "db_nextBatch (set_change q c s) = db_nextBatch s" "db_outbox (set_change q c s) = db_outbox s"
  "pr_flush (set_change q c s) = pr_flush s" "ch_tokens (set_change q c s) = ch_tokens s" "gh_unmarked (set_change q c s) = gh_unmarked s"
  by (simp_all add: set_change_def batch_pairs_def)

text \<open>A change that is not between its writes and its second mark comes, goes or moves on.\<close>

lemma applied_set_change:
  assumes "\<And>c. map_of (pr_change s) q = Some c \<Longrightarrow> cg_phase c \<noteq> Ch_applied"
  shows "applied s \<subseteq> applied (set_change q d s)"
proof
  fix k assume "k \<in> applied s"
  then obtain q' c where c: "map_of (pr_change s) q' = Some c" "cg_phase c = Ch_applied" "k \<in> instant_buckets (cg_times c)" by (rule appliedE)
  then have "q' \<noteq> q" using assms by auto
  then show "k \<in> applied (set_change q d s)" using c by (auto simp: map_of_set_change intro: appliedI [of _ q'])
qed

lemma delivery_inv_set_change:
  assumes "delivery_inv s" "\<And>c. map_of (pr_change s) q = Some c \<Longrightarrow> cg_phase c \<noteq> Ch_applied"
  shows "delivery_inv (set_change q d s)"
proof -
  have "applied s \<subseteq> applied (set_change q d s)" using assms(2) by (rule applied_set_change)
  then show ?thesis using delivery_invD(4) [OF assms(1)] by (intro delivery_inv_change [OF assms(1)]) auto
qed

lemma delivery_inv_start: "start_change q c s = Some s' \<Longrightarrow> delivery_inv s \<Longrightarrow> delivery_inv s'"
  by (auto simp: start_change_def intro: delivery_inv_set_change split: if_splits)

lemma mark_simps [simp]:
  "batch_pairs (mark15mRollupDirty ts s) = batch_pairs s" "db_nextBatch (mark15mRollupDirty ts s) = db_nextBatch s"
  "db_outbox (mark15mRollupDirty ts s) = db_outbox s" "pr_flush (mark15mRollupDirty ts s) = pr_flush s"
  "pr_change (mark15mRollupDirty ts s) = pr_change s" "ch_tokens (mark15mRollupDirty ts s) = ch_tokens s"
  "set (gh_unmarked (mark15mRollupDirty ts s)) = set (gh_unmarked s) - instant_buckets ts"
  by (auto simp: mark15mRollupDirty_def instant_buckets_def batch_pairs_def Let_def)

lemma delivery_inv_mark:
  assumes inv: "delivery_inv s" and c: "map_of (pr_change s) q = Some c"
  shows "delivery_inv (set_change q d (mark15mRollupDirty (cg_times c) s))" (is "delivery_inv ?s'")
proof (rule delivery_inv_change [OF inv])
  show "set (gh_unmarked ?s') \<subseteq> undelivered s \<union> applied ?s'"
  proof
    fix k assume "k \<in> set (gh_unmarked ?s')"
    then have k: "k \<in> set (gh_unmarked s)" "k \<notin> instant_buckets (cg_times c)" by simp_all
    then have "k \<in> undelivered s \<or> k \<in> applied s" using delivery_invD(4) [OF inv] by blast
    then show "k \<in> undelivered s \<union> applied ?s'"
    proof
      assume "k \<in> applied s"
      then obtain q' e where e: "map_of (pr_change s) q' = Some e" "cg_phase e = Ch_applied" "k \<in> instant_buckets (cg_times e)" by (rule appliedE)
      then have "q' \<noteq> q" using c k(2) by auto
      then show ?thesis using e by (auto simp: map_of_set_change intro: appliedI [of _ q'])
    qed simp
  qed
qed simp_all

lemma delivery_inv_apply:
  assumes inv: "delivery_inv s" and c: "map_of (pr_change s) q = Some c" "cg_phase c = Ch_marked"
    and td: "set (touched_buckets (cg_change c) (ch_raw s)) \<subseteq> instant_buckets (cg_times c)"
  shows "delivery_inv (set_change q (Some (c\<lparr>cg_phase := Ch_applied\<rparr>)) (apply_change c s))" (is "delivery_inv ?s'")
proof (rule delivery_inv_change [OF inv])
  have ap: "pr_change (apply_change c s) = pr_change s" by (simp add: apply_change_def change_raw_def split: option.split)
  have "applied s \<subseteq> applied ?s'"
    using applied_set_change [of s q "Some (c\<lparr>cg_phase := Ch_applied\<rparr>)"] c applied_cong [of "set_change q (Some (c\<lparr>cg_phase := Ch_applied\<rparr>)) s" ?s']
    by (simp add: set_change_def ap)
  moreover have "instant_buckets (cg_times c) \<subseteq> applied ?s'"
    by (auto simp: map_of_set_change intro: appliedI [of _ q "c\<lparr>cg_phase := Ch_applied\<rparr>"])
  moreover have "set (gh_unmarked ?s') \<subseteq> set (touched_buckets (cg_change c) (ch_raw s)) \<union> set (gh_unmarked s)"
    by (auto simp: apply_change_def change_raw_def split: option.splits if_splits)
  ultimately show "set (gh_unmarked ?s') \<subseteq> undelivered s \<union> applied ?s'" using td delivery_invD(4) [OF inv] by blast
qed (auto simp: apply_change_def change_raw_def set_change_def batch_pairs_def split: option.split)

lemma delivery_inv_on_changer:
  assumes st: "on_changer ev q s = Some s'" and inv: "delivery_inv s" and td: "tidy ev s" and ev: "ev \<in> {Ev_change_mark q, Ev_change_apply q}"
  shows "delivery_inv s'"
proof -
  obtain c where c: "map_of (pr_change s) q = Some c" "change_step ev q c s = Some s'"
    using st by (auto simp: on_changer_def split: option.splits)
  from ev show ?thesis
    using c td delivery_inv_mark [OF inv c(1)] delivery_inv_apply [OF inv c(1)]
    by (cases "cg_phase c") (auto simp: change_step_def)
qed

lemma delivery_inv_reconcile:
  assumes inv: "delivery_inv s" and td: "tidy (Ev_reconcile q r) s" and c: "reconcileUsageEvents r s = (c, s1)"
  shows "delivery_inv s1"
proof (rule delivery_inv_outbox [OF inv])
  fix x assume x: "x \<in> set (db_outbox s)" "x \<notin> set (db_outbox s1)" "or_delivered x = None"
  have t: "fifteenMinuteBucket (or_ts x) \<notin> set (gh_unmarked s)
      \<and> (\<forall>p \<in> set (map fst (pr_flush s)). case map_of (pr_flush s) p of None \<Rightarrow> True
           | Some f \<Rightarrow> fl_phase f \<noteq> Fl_claimed \<longrightarrow> fl_todo f \<noteq> [] \<longrightarrow> fst (hd (fl_todo f)) \<noteq> or_batch x)"
    using td x by (simp add: c)
  have "fst (hd (fl_todo f)) \<noteq> or_batch x" if f: "map_of (pr_flush s) p = Some f" "fl_phase f \<noteq> Fl_claimed" "fl_todo f \<noteq> []" for p f
  proof -
    have "p \<in> set (map fst (pr_flush s))" using f(1) by (force dest: map_of_SomeD)
    then have "case map_of (pr_flush s) p of None \<Rightarrow> True
           | Some f \<Rightarrow> fl_phase f \<noteq> Fl_claimed \<longrightarrow> fl_todo f \<noteq> [] \<longrightarrow> fst (hd (fl_todo f)) \<noteq> or_batch x"
      using t by blast
    then show ?thesis using f by simp
  qed
  then show "fifteenMinuteBucket (or_ts x) \<notin> set (gh_unmarked s)
      \<and> (\<forall>p f. map_of (pr_flush s) p = Some f \<longrightarrow> fl_phase f \<noteq> Fl_claimed \<longrightarrow> fl_todo f \<noteq> [] \<longrightarrow> fst (hd (fl_todo f)) \<noteq> or_batch x)"
    using t by blast
qed (use c in \<open>auto simp: reconcileUsageEvents_def batch_pairs_def Let_def split: if_splits\<close>)

section \<open>Every tidy run\<close>

lemma delivery_inv_empty: "delivery_inv empty_db"
  by (simp add: delivery_inv_def tokens_ok_def delivered_ok_def batch_tokens_def empty_db_def single_valued_def)

lemma delivery_view_simps:
  "delivery_view (snd (ensureRegisteredTimezone z n s)) = delivery_view s" "delivery_view (validate_zone z s) = delivery_view s"
  "delivery_view (begin_compaction e m s) = delivery_view s" "delivery_view (set_work w k s) = delivery_view s"
  "delivery_view (s\<lparr>pr_compact := x\<rparr>) = delivery_view s"
  by (simp_all add: delivery_view_def batch_tokens_def ensureRegisteredTimezone_def validate_zone_def begin_compaction_def set_work_def Let_def)

lemma delivery_view_prewarm: "delivery_view (snd (prewarmMissingJobs now r z ws s)) = delivery_view s"
proof -
  have "delivery_view (snd (insert_missing now r z ws s)) = delivery_view s" for s
    by (induction now r z ws s rule: insert_missing.induct) (simp_all add: case_prod_beta, simp add: delivery_view_def batch_tokens_def)
  then show ?thesis by (simp add: prewarmMissingJobs_def)
qed

lemma delivery_view_claim: "claimJobs now n s = (js, s1) \<Longrightarrow> delivery_view s1 = delivery_view s"
  by (auto simp: claimJobs_def Let_def delivery_view_def batch_tokens_def)

lemma delivery_view_compactor: "on_compactor cal ev s = Some s' \<Longrightarrow> delivery_view s' = delivery_view s"
  by (auto simp: on_compactor_def compact_step_def deleteRollupBuckets_def commit_compaction_def invalidateTimezoneRollupJobs_def
      delivery_view_def batch_tokens_def Let_def case_prod_beta split: option.splits event.splits compaction_phase.splits)

lemma delivery_view_work:
  "delivery_view (disableTimezone now z s) = delivery_view s" "delivery_view (markPending now i g s) = delivery_view s"
  "delivery_view (delete_zone r z b s) = delivery_view s" "delivery_view (insert_zone r z b rows s) = delivery_view s"
  "delivery_view (snd (markDone now i g s)) = delivery_view s"
  by (simp_all add: disableTimezone_def markPending_def delete_zone_def insert_zone_def markDone_def delivery_view_def batch_tokens_def split: list.split)

lemma delivery_view_worker:
  assumes "on_worker cal ev w s = Some s'"
  shows "delivery_view s' = delivery_view s"
proof -
  obtain k j where "work_step cal ev w k j s = Some s'"
    using assms by (auto simp: on_worker_def split: option.splits list.splits)
  then show ?thesis
    by (auto simp: work_step_def finish_job_def case_prod_beta Let_def delivery_view_simps delivery_view_work
        split: event.splits worker_phase.splits sum.splits if_splits)
qed

lemma delivery_inv_step:
  assumes inv: "delivery_inv s" and st: "step cal ev s = Some s'" and td: "tidy ev s"
  shows "delivery_inv s'"
proof -
  have fr: "delivery_inv s'" if "delivery_view s' = delivery_view s" using delivery_inv_frame [OF that inv] .
  show ?thesis
  proof (cases ev)
    case (Ev_flush_claim p now n)
    obtain f s1 where c: "flush_claim now n s = (f, s1)" by fastforce
    show ?thesis using st Ev_flush_claim delivery_inv_claim [OF inv _ c] by (auto simp: c split: if_splits)
  next
    case (Ev_reconcile q r)
    obtain c s1 where c: "reconcileUsageEvents r s = (c, s1)" by fastforce
    have "delivery_inv s1" by (rule delivery_inv_reconcile [OF inv _ c]) (use td Ev_reconcile in simp)
    then show ?thesis using st Ev_reconcile delivery_inv_start by (auto simp: c split: if_splits)
  next
    case (Ev_change_stop q)
    then show ?thesis using st td delivery_inv_set_change [OF inv, of q] by (auto split: option.splits)
  next
    case (Ev_compact_begin now d m)
    then show ?thesis using st fr by (auto simp: delivery_view_simps split: if_splits)
  next
    case (Ev_claim w now n)
    obtain js s1 where c: "claimJobs now n s = (js, s1)" by fastforce
    then show ?thesis using st Ev_claim fr delivery_view_claim [OF c] by (auto simp: c delivery_view_simps split: if_splits)
  qed (use st td inv fr in \<open>auto simp: delivery_view_simps delivery_view_prewarm intro: delivery_inv_on_flusher delivery_inv_on_changer
        delivery_inv_enqueue delivery_inv_drop delivery_inv_start delivery_inv_prune dest: delivery_view_compactor delivery_view_worker\<close>)
qed

lemma tidy_reachable_delivery: "tidy_reachable cal s \<Longrightarrow> delivery_inv s"
  by (induction rule: tidy_reachable.induct) (auto intro: delivery_inv_empty delivery_inv_step)

section \<open>A run in which a flusher dies\<close>

text \<open>Performs events one after the other; \<open>None\<close> if one is not possible, not calm or not tidy.\<close>

fun tidy_run :: "calendar \<Rightarrow> event list \<Rightarrow> usage_db \<Rightarrow> usage_db option" where
  "tidy_run cal [] s = Some s"
| "tidy_run cal (e # es) s =
     (if calm cal e s \<and> tidy e s then (case step cal e s of None \<Rightarrow> None | Some s' \<Rightarrow> tidy_run cal es s') else None)"

lemma tidy_run_reachable: "tidy_reachable cal s \<Longrightarrow> tidy_run cal es s = Some s' \<Longrightarrow> tidy_reachable cal s'"
proof (induction es arbitrary: s)
  case (Cons e es)
  then obtain s1 where "calm cal e s" "tidy e s" "step cal e s = Some s1" "tidy_run cal es s1 = Some s'"
    by (auto split: if_splits option.splits)
  then show ?case using Cons tidy_reachable.step by blast
qed simp

text \<open>
  The first flusher dies after its insert; five minutes later another delivers the batch. Then the
  bucket is compacted, and the zone is registered, prewarmed and filled.
\<close>

definition crash_events :: "event list" where
  "crash_events =
     [Ev_enqueue [] ''t'' 3600000 [demo_event], Ev_flush_claim 1 3600000 10, Ev_flush_read 1, Ev_flush_raw 1, Ev_flush_crash 1,
      Ev_flush_claim 2 3900001 10, Ev_flush_read 2, Ev_flush_raw 2, Ev_flush_hourly 2, Ev_flush_commit 2 3900002,
      Ev_register ''UTC'', Ev_validate ''UTC'', Ev_prewarm 3900003 Res_hour ''UTC'' [(0, 3600000)],
      Ev_compact_begin 5400000 1800000 8, Ev_compact_read, Ev_compact_delete, Ev_compact_insert, Ev_compact_commit 5400001,
      Ev_claim 1 5400002 8, Ev_lock 1 5400003, Ev_work_read 1, Ev_work_delete 1, Ev_work_insert 1, Ev_done 1 5400004]"

definition crash_db :: usage_db where
  "crash_db = the (tidy_run utc_calendar crash_events empty_db)"

lemma crash_end:
  "map_option (\<lambda>s. (map or_delivered (db_outbox s), pr_change s, db_coverage s, db_dirty s, db_watermark s, db_zones s, job_status_at Res_hour ''UTC'' s 0))
     (tidy_run utc_calendar crash_events empty_db)
   = Some ([Some 3900002], [], [(Res_hour, ''UTC'', 0)], [], Some 3600000, [(''UTC'', True)], Some Job_done)"
  by code_simp

lemma crash_run: "tidy_run utc_calendar crash_events empty_db = Some crash_db"
proof -
  obtain s where "tidy_run utc_calendar crash_events empty_db = Some s"
    using crash_end by (cases "tidy_run utc_calendar crash_events empty_db") simp_all
  then show ?thesis by (simp only: crash_db_def option.sel)
qed

lemma crash_facts:
  "tidy_reachable utc_calendar crash_db" "\<forall>r \<in> set (db_outbox crash_db). or_delivered r \<noteq> None" "pr_change crash_db = []"
  "readCacheReadySnapshot utc_calendar Res_hour ''UTC'' demo_query crash_db = Some (0, 3600000)"
proof -
  show "tidy_reachable utc_calendar crash_db" by (rule tidy_run_reachable [OF tidy_reachable.start crash_run])
  note r = crash_end [unfolded crash_run option.map option.inject prod.inject]
  have "or_delivered ` set (db_outbox crash_db) = {Some 3900002}" using arg_cong [OF conjunct1 [OF r], of set] by simp
  then show "\<forall>r \<in> set (db_outbox crash_db). or_delivered r \<noteq> None" by force
  show "pr_change crash_db = []" using r by blast
  show "readCacheReadySnapshot utc_calendar Res_hour ''UTC'' demo_query crash_db = Some (0, 3600000)"
    by (rule demo_cacheable) (use r in blast)+
qed

section \<open>The dashboards read what the raw rows say\<close>

text \<open>A bucket of an instant lies outside of the range a query asks for.\<close>

definition outside :: "usage_query \<Rightarrow> instant \<Rightarrow> bool" where
  "outside q t \<longleftrightarrow> fifteenMinuteBucket t + 900000 \<le> uq_from q \<or> uq_to q \<le> fifteenMinuteBucket t"

text \<open>C1: In every state a calm and tidy run reaches, flushers dying and failing at any point, a time series
  over a range in which every event of the outbox is delivered and no change of raw rows stands
  between its writes and its second mark has, whatever the read flags say and however much of it the
  15 minute rollup and the cache of the timezone rollup answer, for every local hour or day and every
  selection of dimensions the totals of a scan of the raw rows.\<close>

theorem resolved_source_refines_raw:
  assumes "calendar_agrees cal" "tidy_reachable cal s"
    and "\<forall>x \<in> set (db_outbox s). or_delivered x = None \<longrightarrow> outside q (or_ts x)"
    and "\<forall>c \<in> ran (map_of (pr_change s)). cg_phase c = Ch_applied \<longrightarrow> (\<forall>t \<in> set (cg_times c). outside q t)"
  shows "total (\<lambda>(t, d). Q (cal_trunc cal r z t) d) (resolveTimeseriesSource cal readV2 readZone (Some (r, z)) q s)
       = total (\<lambda>(t, d). Q (cal_trunc cal r z t) d) (rawSource q s)"
proof (rule resolved_source_unmarked [OF assms(1) tidy_reachable_calm [OF assms(2)]])
  have "b + 900000 \<le> uq_from q \<or> uq_to q \<le> b" if b: "b \<in> undelivered s \<union> applied s" for b
    using b
  proof
    assume "b \<in> applied s"
    then show ?thesis using assms(4) by (auto simp: applied_def instant_buckets_def outside_def)
  qed (use assms(3) in \<open>auto simp: undelivered_def outside_def\<close>)
  then show "\<forall>b \<in> set (gh_unmarked s). b + 900000 \<le> uq_from q \<or> uq_to q \<le> b"
    using delivery_invD(4) [OF tidy_reachable_delivery [OF assms(2)]] by blast
qed

lemma resolved_source_refines_raw_witness:
  "total (\<lambda>(t, d). (t - t mod 3600000 = 0 \<and> ud_user d = ''u''))
     (resolveTimeseriesSource utc_calendar True True (Some (Res_hour, ''UTC'')) demo_query crash_db)
   = total (\<lambda>(t, d). (t - t mod 3600000 = 0 \<and> ud_user d = ''u'')) (rawSource demo_query crash_db)
   \<and> readCacheReadySnapshot utc_calendar Res_hour ''UTC'' demo_query crash_db = Some (0, 3600000)"
proof -
  have "cal_trunc utc_calendar Res_hour ''UTC'' t = t - t mod 3600000" for t by (simp add: utc_calendar_def utc_length_def)
  then show ?thesis
    using resolved_source_refines_raw [OF utc_calendar_agrees crash_facts(1), of demo_query "\<lambda>t d. t = 0 \<and> ud_user d = ''u''" Res_hour "''UTC''" True True]
      crash_facts(2)
    by (auto simp: crash_facts(3,4))
qed

end
