(* ===== verification/Timezone_Rollup.thy ===== *)
theory Timezone_Rollup
  imports Usage_Reads
begin

text \<open>
  \<open>apps/web/lib/timezone-rollup.ts\<close> beside its SQL, which \<open>Usage_Rollup\<close> models: the windows a zone is
  prewarmed with, the activation of one zone and of all zones in use, the gate in front of it, and the
  worker that fills the cache, here as the loop it is, run without interruption.
\<close>

section \<open>Windows\<close>

definition TIMEZONE_ROLLUP_JOBS_PER_TICK :: int where "TIMEZONE_ROLLUP_JOBS_PER_TICK = 8"
definition TIMEZONE_ROLLUP_DAY_PREWARM_DAYS :: nat where "TIMEZONE_ROLLUP_DAY_PREWARM_DAYS = 400"
definition TIMEZONE_ROLLUP_HOUR_PREWARM_DAYS :: nat where "TIMEZONE_ROLLUP_HOUR_PREWARM_DAYS = 32"
definition TIMEZONE_ROLLUP_PREWARM_CHUNK_BUCKETS :: nat where "TIMEZONE_ROLLUP_PREWARM_CHUNK_BUCKETS = 16"

fun map_or_throw :: "('a \<Rightarrow> 'e + 'b) \<Rightarrow> 'a list \<Rightarrow> 'e + 'b list" where
  "map_or_throw f [] = Inr []"
| "map_or_throw f (x # xs) = and_then (f x) (\<lambda>y. and_then (map_or_throw f xs) (\<lambda>ys. Inr (y # ys)))"

definition requireCanonicalTimezone :: "intl \<Rightarrow> string \<Rightarrow> string + string" where
  "requireCanonicalTimezone db timezone =
     (case canonicalTimezoneId db timezone of
        Some (c # cs) \<Rightarrow> Inr (c # cs)
      | _ \<Rightarrow> Inl (''not an IANA timezone: '' @ timezone))"

text \<open>An invalid \<open>Date\<close> is \<open>None\<close>.\<close>

definition timezoneCoverageCutoffs :: "intl \<Rightarrow> string \<Rightarrow> instant option \<Rightarrow> string + (instant \<times> instant)" where
  "timezoneCoverageCutoffs db timezone now =
     (if now = None then Inl ''not a valid coverage instant''
      else and_then (requireCanonicalTimezone db timezone) (\<lambda>canonical.
        and_then (localDateKey db now canonical) (\<lambda>today.
        and_then (addLocalCalendarDays today (- (int TIMEZONE_ROLLUP_HOUR_PREWARM_DAYS - 1))) (\<lambda>hour_date.
        and_then (firstInstantOfLocalDate db hour_date canonical) (\<lambda>hour.
        and_then (addLocalCalendarDays today (- (int TIMEZONE_ROLLUP_DAY_PREWARM_DAYS - 1))) (\<lambda>day_date.
        and_then (firstInstantOfLocalDate db day_date canonical) (\<lambda>day. Inr (hour, day))))))))"

definition day_window :: "intl \<Rightarrow> string \<Rightarrow> string \<Rightarrow> string + (instant \<times> instant)" where
  "day_window db timezone date =
     and_then (firstInstantOfLocalDate db date timezone) (\<lambda>bucket.
     and_then (addLocalCalendarDays date 1) (\<lambda>next_date.
     and_then (firstInstantOfLocalDate db next_date timezone) (\<lambda>sourceTo. Inr (bucket, sourceTo))))"

definition dailyPrewarmWindows :: "intl \<Rightarrow> string \<Rightarrow> instant option \<Rightarrow> string + (instant \<times> instant) list" where
  "dailyPrewarmWindows db timezone now =
     and_then (timezoneCoverageCutoffs db timezone now) (\<lambda>(hour, day).
     and_then (localDateKey db (Some day) timezone) (\<lambda>firstDate.
       map_or_throw (\<lambda>index. and_then (addLocalCalendarDays firstDate (int index)) (day_window db timezone))
         [0..<TIMEZONE_ROLLUP_DAY_PREWARM_DAYS]))"

function hour_windows :: "instant \<Rightarrow> instant \<Rightarrow> (instant \<times> instant) list" where
  "hour_windows cursor to_t =
     (if cursor < to_t then (cursor, cursor + 3600000) # hour_windows (cursor + 3600000) to_t else [])"
  by pat_completeness auto
termination
  by (relation "measure (\<lambda>(cursor, to_t). nat (to_t - cursor))") auto

declare hour_windows.simps [simp del]

definition hourlyPrewarmWindows :: "intl \<Rightarrow> string \<Rightarrow> instant option \<Rightarrow> string + (instant \<times> instant) list" where
  "hourlyPrewarmWindows db timezone now =
     and_then (localDateKey db now timezone) (\<lambda>today.
     and_then (timezoneCoverageCutoffs db timezone now) (\<lambda>(hour, day).
     and_then (addLocalCalendarDays today 1) (\<lambda>tomorrow.
     and_then (firstInstantOfLocalDate db tomorrow timezone) (\<lambda>to_t. Inr (hour_windows hour to_t)))))"

definition timezoneRollupWindow :: "intl \<Rightarrow> resolution \<Rightarrow> string \<Rightarrow> instant \<Rightarrow> string + (instant \<times> instant)" where
  "timezoneRollupWindow db r timezone bucket =
     (case r of
        Res_hour \<Rightarrow> Inr (bucket, bucket + 3600000)
      | Res_day \<Rightarrow>
          and_then (localDateKey db (Some bucket) timezone) (\<lambda>date.
          and_then (addLocalCalendarDays date 1) (\<lambda>next_date.
          and_then (firstInstantOfLocalDate db next_date timezone) (\<lambda>sourceTo. Inr (bucket, sourceTo)))))"

definition timezonePrewarmWindows :: "intl \<Rightarrow> resolution \<Rightarrow> string \<Rightarrow> instant option \<Rightarrow> string + (instant \<times> instant) list" where
  "timezonePrewarmWindows db r timezone now =
     and_then (requireCanonicalTimezone db timezone) (\<lambda>canonical.
       if now = None then Inl ''not a valid prewarm instant''
       else case r of Res_day \<Rightarrow> dailyPrewarmWindows db canonical now | Res_hour \<Rightarrow> hourlyPrewarmWindows db canonical now)"

section \<open>Activation\<close>

text \<open>\<open>pgNow\<close> is the clock of Postgres, \<open>now\<close> the \<open>Date\<close> the caller passes.\<close>

function prewarmMissingBuckets ::
  "instant \<Rightarrow> resolution \<Rightarrow> string \<Rightarrow> (instant \<times> instant) list \<Rightarrow> usage_db \<Rightarrow> nat \<times> usage_db" where
  "prewarmMissingBuckets pgNow r z windows s =
     (if windows = [] then (0, s)
      else
        let (n, s1) = prewarmMissingJobs pgNow r z (take TIMEZONE_ROLLUP_PREWARM_CHUNK_BUCKETS windows) s;
            (m, s2) = prewarmMissingBuckets pgNow r z (drop TIMEZONE_ROLLUP_PREWARM_CHUNK_BUCKETS windows) s1
        in (n + m, s2))"
  by pat_completeness auto
termination
  by (relation "measure (\<lambda>(pgNow, r, z, windows, s). length windows)")
    (auto simp: TIMEZONE_ROLLUP_PREWARM_CHUNK_BUCKETS_def)

declare prewarmMissingBuckets.simps [simp del]

definition enqueueTimezoneRollupWith ::
  "intl \<Rightarrow> instant \<Rightarrow> resolution \<Rightarrow> string \<Rightarrow> instant option \<Rightarrow> usage_db \<Rightarrow> (string + unit) \<times> usage_db" where
  "enqueueTimezoneRollupWith db pgNow r timezone bucket s =
     (case and_then (requireCanonicalTimezone db timezone) (\<lambda>canonical.
             case bucket of
               None \<Rightarrow> Inl ''not a valid rollup bucket''
             | Some b \<Rightarrow> and_then (timezoneRollupWindow db r canonical b) (\<lambda>w. Inr (canonical, w))) of
        Inl e \<Rightarrow> (Inl e, s)
      | Inr (canonical, w) \<Rightarrow> (Inr (), snd (prewarmMissingJobs pgNow r canonical [w] s)))"

definition activateTimezoneRollupWith ::
  "intl \<Rightarrow> (string \<Rightarrow> string + bool) \<Rightarrow> instant \<Rightarrow> instant option \<Rightarrow> string \<Rightarrow> usage_db \<Rightarrow>
     (string + registration \<times> nat \<times> nat) \<times> usage_db" where
  "activateTimezoneRollupWith db supports pgNow now timezone s =
     (case and_then (requireCanonicalTimezone db timezone) (\<lambda>canonical. and_then (supports canonical) (\<lambda>ok. Inr (canonical, ok))) of
        Inl e \<Rightarrow> (Inl e, s)
      | Inr (canonical, ok) \<Rightarrow>
         if \<not> ok then (Inl (''ClickHouse does not support the timezone: '' @ canonical), s)
         else
           (let (registration, s1) = ensureRegisteredTimezone canonical MAX_ACTIVE_ROLLUP_TIMEZONES s
            in if registration = Capacity then (Inl ''too many active timezones'', s1)
               else case timezonePrewarmWindows db Res_day canonical now of
                   Inl e \<Rightarrow> (Inl e, s1)
                 | Inr days \<Rightarrow>
                    (let (day, s2) = prewarmMissingBuckets pgNow Res_day canonical days s1
                     in case timezonePrewarmWindows db Res_hour canonical now of
                         Inl e \<Rightarrow> (Inl e, s2)
                       | Inr hours \<Rightarrow>
                          (let (hour, s3) = prewarmMissingBuckets pgNow Res_hour canonical hours s2
                           in (Inr (registration, day, hour), s3)))))"

definition resolveSupportedRollupTimezone :: "intl \<Rightarrow> (string \<Rightarrow> string + bool) \<Rightarrow> string \<Rightarrow> string + string option" where
  "resolveSupportedRollupTimezone db supports timezone =
     (case canonicalTimezoneId db timezone of
        Some (c # cs) \<Rightarrow> and_then (supports (c # cs)) (\<lambda>ok. Inr (if ok then Some (c # cs) else None))
      | _ \<Rightarrow> Inr None)"

record activation_result =
  ar_activated :: "string list"
  ar_skipped :: "string list"
  ar_failed :: "string list"

text \<open>The first loop: the canonical names, in the order of their first occurrence, and the names that
  are skipped or failed.\<close>

fun resolve_all :: "intl \<Rightarrow> (string \<Rightarrow> string + bool) \<Rightarrow> string list \<Rightarrow> string list \<Rightarrow> activation_result \<Rightarrow> string list \<times> activation_result" where
  "resolve_all db supports [] zones result = (zones, result)"
| "resolve_all db supports (raw # raws) zones result =
     (if js_trim raw = [] then resolve_all db supports raws zones result
      else case resolveSupportedRollupTimezone db supports raw of
          Inl e \<Rightarrow> resolve_all db supports raws zones (result\<lparr>ar_failed := ar_failed result @ [raw]\<rparr>)
        | Inr None \<Rightarrow> resolve_all db supports raws zones (result\<lparr>ar_skipped := ar_skipped result @ [raw]\<rparr>)
        | Inr (Some z) \<Rightarrow> resolve_all db supports raws (if z \<in> set zones then zones else zones @ [z]) result)"

fun activate_all :: "(string \<Rightarrow> 's \<Rightarrow> (string + unit) \<times> 's) \<Rightarrow> string list \<Rightarrow> activation_result \<Rightarrow> 's \<Rightarrow> activation_result \<times> 's" where
  "activate_all activate [] result s = (result, s)"
| "activate_all activate (z # zs) result s =
     (case activate z s of
        (Inl e, s1) \<Rightarrow> activate_all activate zs (result\<lparr>ar_failed := ar_failed result @ [z]\<rparr>) s1
      | (Inr u, s1) \<Rightarrow> activate_all activate zs (result\<lparr>ar_activated := ar_activated result @ [z]\<rparr>) s1)"

text \<open>A saved zone that is \<open>null\<close> is the empty string: both are passed over.\<close>

definition activatePersistedTimezoneRollupsWith ::
  "intl \<Rightarrow> (string \<Rightarrow> string + bool) \<Rightarrow> (string \<Rightarrow> 's \<Rightarrow> (string + unit) \<times> 's) \<Rightarrow> string \<Rightarrow> string list \<Rightarrow> 's \<Rightarrow> activation_result \<times> 's" where
  "activatePersistedTimezoneRollupsWith db supports activate orgTimezone savedTimezones s =
     (let (zones, result) = resolve_all db supports (orgTimezone # savedTimezones) []
            \<lparr>ar_activated = [], ar_skipped = [], ar_failed = []\<rparr>
      in activate_all activate zones result s)"

text \<open>
  The gate: a call starts an activation unless one of the zone has been started and has not failed
  since. The first component is the activation that is started.
\<close>

definition gate_call :: "intl \<Rightarrow> string \<Rightarrow> string list \<Rightarrow> string option \<times> string list" where
  "gate_call db timezone activated =
     (case canonicalTimezoneId db timezone of
        Some (c # cs) \<Rightarrow> if c # cs \<in> set activated then (None, activated) else (Some (c # cs), activated @ [c # cs])
      | _ \<Rightarrow> (None, activated))"

definition gate_failed :: "string \<Rightarrow> string list \<Rightarrow> string list" where
  "gate_failed canonical activated = removeAll canonical activated"

section \<open>The worker\<close>

definition compactTimezoneRollup :: "calendar \<Rightarrow> zone_job \<Rightarrow> usage_db \<Rightarrow> string + nat \<times> usage_db" where
  "compactTimezoneRollup cal j s =
     and_then (aggregate_zone cal (tj_resolution j) (tj_timezone j) (tj_bucket j) s) (\<lambda>rows.
       let s1 = delete_zone (tj_resolution j) (tj_timezone j) (tj_bucket j) s
       in Inr (if rows = [] then (0, s1)
               else (length rows, insert_zone (tj_resolution j) (tj_timezone j) (tj_bucket j) rows s1)))"

record work_result =
  wr_jobs :: nat
  wr_rows :: nat
  wr_failure :: "string option"

definition failed_with :: "string \<Rightarrow> work_result \<Rightarrow> work_result" where
  "failed_with e result = result\<lparr>wr_failure := (case wr_failure result of None \<Rightarrow> Some e | Some f \<Rightarrow> Some f)\<rparr>"

fun work_jobs :: "calendar \<Rightarrow> (string \<Rightarrow> string + bool) \<Rightarrow> instant \<Rightarrow> zone_job list \<Rightarrow> work_result \<Rightarrow> usage_db \<Rightarrow> work_result \<times> usage_db" where
  "work_jobs cal supports now [] result s = (result, s)"
| "work_jobs cal supports now (j # js) result s =
     (let pend = markPending now (tj_id j) (tj_generation j) in
      case supports (tj_timezone j) of
        Inl e \<Rightarrow> work_jobs cal supports now js (failed_with e result) (pend s)
      | Inr False \<Rightarrow> work_jobs cal supports now js result (disableTimezone now (tj_timezone j) s)
      | Inr True \<Rightarrow>
          if lock_taken j s then work_jobs cal supports now js result (pend s)
          else (case compactTimezoneRollup cal j s of
              Inl e \<Rightarrow> work_jobs cal supports now js (failed_with e result) (pend s)
            | Inr (n, s1) \<Rightarrow>
                (case markDone now (tj_id j) (tj_generation j) s1 of
                   (Accepted, s2) \<Rightarrow> work_jobs cal supports now js (result\<lparr>wr_jobs := Suc (wr_jobs result), wr_rows := wr_rows result + n\<rparr>) s2
                 | (Not_accepted, s2) \<Rightarrow> work_jobs cal supports now js result (pend s2)
                 | (Foreign_key_violation, s2) \<Rightarrow>
                     work_jobs cal supports now js (failed_with ''violates a foreign key constraint'' result) (pend s2))))"

definition runTimezoneRollupWorkerWith ::
  "calendar \<Rightarrow> (string \<Rightarrow> string + bool) \<Rightarrow> instant \<Rightarrow> int \<Rightarrow> usage_db \<Rightarrow> (string + nat \<times> nat) \<times> usage_db" where
  "runTimezoneRollupWorkerWith cal supports now limit s =
     (let (claimed, s1) = claimJobs now limit s;
          (result, s2) = work_jobs cal supports now claimed \<lparr>wr_jobs = 0, wr_rows = 0, wr_failure = None\<rparr> s1
      in (case wr_failure result of Some e \<Rightarrow> Inl e | None \<Rightarrow> Inr (wr_jobs result, wr_rows result), s2))"

section \<open>Prewarming\<close>

lemma insert_missing_append:
  "insert_missing now r z (xs @ ys) s
     = (let (n, s1) = insert_missing now r z xs s; (m, s2) = insert_missing now r z ys s1 in (n + m, s2))"
  by (induction now r z xs s rule: insert_missing.induct) (simp_all add: Let_def split: prod.split)

text \<open>Prewarming in chunks is prewarming at once.\<close>

lemma prewarmMissingBuckets_all: "prewarmMissingBuckets now r z ws s = insert_missing now r z ws s"
proof (induction now r z ws s rule: prewarmMissingBuckets.induct)
  case (1 now r z ws s)
  show ?case
  proof (cases "ws = []")
    case False
    let ?c = TIMEZONE_ROLLUP_PREWARM_CHUNK_BUCKETS
    obtain n s1 where one: "insert_missing now r z (take ?c ws) s = (n, s1)" by fastforce
    have t: "take ?c ws \<noteq> []" using False by (simp add: TIMEZONE_ROLLUP_PREWARM_CHUNK_BUCKETS_def)
    have p: "prewarmMissingJobs now r z (take ?c ws) s = (n, s1)" using one t by (simp add: prewarmMissingJobs_def)
    have "insert_missing now r z (take ?c ws @ drop ?c ws) s
        = (let (m, s2) = insert_missing now r z (drop ?c ws) s1 in (n + m, s2))"
      by (simp only: insert_missing_append one Let_def prod.case)
    moreover have "prewarmMissingBuckets now r z (drop ?c ws) s1 = insert_missing now r z (drop ?c ws) s1"
      by (rule 1 [OF False p [symmetric] refl])
    ultimately show ?thesis using False p by (subst prewarmMissingBuckets.simps) simp
  qed (simp add: prewarmMissingBuckets.simps)
qed

lemma insert_missing_keeps:
  assumes "insert_missing now r z ws s = (n, s')"
  shows "db_zones s' = db_zones s" "db_coverage s' = db_coverage s" "set (db_jobs s) \<subseteq> set (db_jobs s')"
    "length (db_jobs s') = length (db_jobs s) + n"
    "\<forall>(b, e) \<in> set ws. (r, z, b) \<in> set (db_coverage s') \<or> (r, z, b) \<in> job_key ` set (db_jobs s')"
proof -
  have "db_zones s' = db_zones s \<and> db_coverage s' = db_coverage s \<and> set (db_jobs s) \<subseteq> set (db_jobs s')
      \<and> length (db_jobs s') = length (db_jobs s) + n
      \<and> (\<forall>(b, e) \<in> set ws. (r, z, b) \<in> set (db_coverage s') \<or> (r, z, b) \<in> job_key ` set (db_jobs s'))"
    using assms
  proof (induction now r z ws s arbitrary: n rule: insert_missing.induct)
    case (2 now r z b e ws s)
    show ?case
    proof (cases "(r, z, b) \<in> set (db_coverage s) \<or> (r, z, b) \<in> job_key ` set (db_jobs s)")
      case True
      then have "insert_missing now r z ws s = (n, s')" using 2(3) by simp
      from 2(1) [OF True this] True show ?thesis by auto
    next
      case False
      let ?s = "s\<lparr>db_jobs := db_jobs s @ [new_job (db_nextJob s) now (r, z, b) e], db_nextJob := Suc (db_nextJob s)\<rparr>"
      obtain m where m: "insert_missing now r z ws ?s = (m, s')" "n = Suc m"
        using 2(3) False by (auto simp: Let_def split: prod.splits)
      have "(r, z, b) \<in> job_key ` set (db_jobs ?s)" by (simp add: job_key_def new_job_def)
      then show ?thesis using 2(2) [OF False m(1)] m(2) by auto
    qed
  qed simp
  then show "db_zones s' = db_zones s" "db_coverage s' = db_coverage s" "set (db_jobs s) \<subseteq> set (db_jobs s')"
    "length (db_jobs s') = length (db_jobs s) + n"
    "\<forall>(b, e) \<in> set ws. (r, z, b) \<in> set (db_coverage s') \<or> (r, z, b) \<in> job_key ` set (db_jobs s')" by blast+
qed


text \<open>
  A successful activation leaves the zone registered and every window of both resolutions covered or
  queued; it keeps all jobs and adds exactly the ones it counts.
\<close>

lemma activation_prewarms_every_window:
  assumes act: "activateTimezoneRollupWith db supports pgNow now timezone s = (Inr (registration, day, hour), s')"
  obtains canonical days hours where
    "requireCanonicalTimezone db timezone = Inr canonical" "supports canonical = Inr True" "canonical \<in> registered s'"
    "timezonePrewarmWindows db Res_day canonical now = Inr days" "timezonePrewarmWindows db Res_hour canonical now = Inr hours"
    "\<forall>(b, e) \<in> set days. (Res_day, canonical, b) \<in> set (db_coverage s') \<or> (Res_day, canonical, b) \<in> job_key ` set (db_jobs s')"
    "\<forall>(b, e) \<in> set hours. (Res_hour, canonical, b) \<in> set (db_coverage s') \<or> (Res_hour, canonical, b) \<in> job_key ` set (db_jobs s')"
    "set (db_jobs s) \<subseteq> set (db_jobs s')" "length (db_jobs s') = length (db_jobs s) + day + hour" "db_coverage s' = db_coverage s"
proof -
  obtain canonical where c: "requireCanonicalTimezone db timezone = Inr canonical" "supports canonical = Inr True"
    using act by (auto simp: activateTimezoneRollupWith_def and_then_def split: sum.splits if_splits)
  obtain reg s1 where reg: "ensureRegisteredTimezone canonical MAX_ACTIVE_ROLLUP_TIMEZONES s = (reg, s1)" by fastforce
  have s1: "db_jobs s1 = db_jobs s" "db_coverage s1 = db_coverage s" "reg \<noteq> Capacity \<Longrightarrow> canonical \<in> registered s1"
    using reg by (auto simp: ensureRegisteredTimezone_def split: if_splits)
  have nc: "reg \<noteq> Capacity" using act c reg by (auto simp: activateTimezoneRollupWith_def and_then_def)
  obtain days where days: "timezonePrewarmWindows db Res_day canonical now = Inr days"
    using act c reg nc by (auto simp: activateTimezoneRollupWith_def and_then_def split: sum.splits)
  obtain n s2 where n: "insert_missing pgNow Res_day canonical days s1 = (n, s2)" by fastforce
  obtain hours where hours: "timezonePrewarmWindows db Res_hour canonical now = Inr hours"
    using act c reg nc days n by (auto simp: activateTimezoneRollupWith_def and_then_def prewarmMissingBuckets_all split: sum.splits)
  obtain m s3 where m: "insert_missing pgNow Res_hour canonical hours s2 = (m, s3)" by fastforce
  have res: "day = n" "hour = m" "s' = s3"
    using act c reg nc days n hours m by (auto simp: activateTimezoneRollupWith_def and_then_def prewarmMissingBuckets_all)
  note k2 = insert_missing_keeps [OF n] and k3 = insert_missing_keeps [OF m]
  have "(Res_day, canonical, b) \<in> set (db_coverage s') \<or> (Res_day, canonical, b) \<in> job_key ` set (db_jobs s')" if "(b, e) \<in> set days" for b e
  proof -
    have "(Res_day, canonical, b) \<in> set (db_coverage s2) \<or> (Res_day, canonical, b) \<in> job_key ` set (db_jobs s2)" using k2(5) that by auto
    then show ?thesis using k3(2,3) res(3) by auto
  qed
  then show ?thesis
    using that [of canonical days hours] c days hours s1 nc k2(1-4) k3 res by auto
qed

section \<open>A worker that is not interrupted\<close>

text \<open>
  The rest of a claim: a job of a supported zone is in flight and ready, and its zone registered; the
  row of a job of a zone that is not supported may have been settled with an earlier job of the zone.
\<close>

definition claim_ready :: "(string \<Rightarrow> string + bool) \<Rightarrow> usage_db \<Rightarrow> zone_job list \<Rightarrow> bool" where
  "claim_ready supports s js \<longleftrightarrow> pr_work s = [] \<and> distinct (map tj_id js)
     \<and> (\<forall>j \<in> set js.
          (supports (tj_timezone j) = Inr True \<and> j \<in> set (db_jobs s) \<and> tj_status j = Job_inflight \<and> job_ready j s \<and> tj_timezone j \<in> registered s)
          \<or> (supports (tj_timezone j) = Inr False \<and> (\<exists>i \<in> set (db_jobs s). tj_id i = tj_id j \<and> tj_timezone i = tj_timezone j)))"

text \<open>What working through jobs does: the supported ones become covered, the zones of the others leave the registry.\<close>

definition settles :: "(string \<Rightarrow> string + bool) \<Rightarrow> usage_db \<Rightarrow> zone_job list \<Rightarrow> usage_db \<Rightarrow> bool" where
  "settles supports s js s' \<longleftrightarrow> db_dirty s' = db_dirty s \<and> registered s' \<subseteq> registered s \<and> map tj_id (db_jobs s') = map tj_id (db_jobs s)
     \<and> (\<forall>k \<in> set (db_coverage s). supports (fst (snd k)) \<noteq> Inr False \<longrightarrow> k \<in> set (db_coverage s'))
     \<and> (\<forall>k \<in> set (db_coverage s'). k \<in> set (db_coverage s) \<or> supports (fst (snd k)) = Inr True)
     \<and> (\<forall>j \<in> set js. if supports (tj_timezone j) = Inr True then job_key j \<in> set (db_coverage s')
          else tj_timezone j \<notin> registered s' \<and> (\<forall>k \<in> set (db_coverage s'). fst (snd k) \<noteq> tj_timezone j))
     \<and> (\<forall>i \<in> set (db_jobs s'). tj_status i = Job_done \<or> (i \<in> set (db_jobs s) \<and> tj_id i \<notin> tj_id ` set js))"

lemma settlesD:
  assumes "settles supports s js s'"
  shows "db_dirty s' = db_dirty s" "registered s' \<subseteq> registered s" "map tj_id (db_jobs s') = map tj_id (db_jobs s)"
    "k \<in> set (db_coverage s) \<Longrightarrow> supports (fst (snd k)) \<noteq> Inr False \<Longrightarrow> k \<in> set (db_coverage s')"
    "k \<in> set (db_coverage s') \<Longrightarrow> k \<in> set (db_coverage s) \<or> supports (fst (snd k)) = Inr True"
    "j \<in> set js \<Longrightarrow> supports (tj_timezone j) = Inr True \<Longrightarrow> job_key j \<in> set (db_coverage s')"
    "j \<in> set js \<Longrightarrow> supports (tj_timezone j) \<noteq> Inr True \<Longrightarrow> tj_timezone j \<notin> registered s'"
    "j \<in> set js \<Longrightarrow> supports (tj_timezone j) \<noteq> Inr True \<Longrightarrow> k \<in> set (db_coverage s') \<Longrightarrow> fst (snd k) \<noteq> tj_timezone j"
    "i \<in> set (db_jobs s') \<Longrightarrow> tj_status i = Job_done \<or> (i \<in> set (db_jobs s) \<and> tj_id i \<notin> tj_id ` set js)"
proof -
  note d = assms [unfolded settles_def]
  show "db_dirty s' = db_dirty s" "registered s' \<subseteq> registered s" "map tj_id (db_jobs s') = map tj_id (db_jobs s)" using d by blast+
  show "k \<in> set (db_coverage s) \<Longrightarrow> supports (fst (snd k)) \<noteq> Inr False \<Longrightarrow> k \<in> set (db_coverage s')" using d by blast
  show "k \<in> set (db_coverage s') \<Longrightarrow> k \<in> set (db_coverage s) \<or> supports (fst (snd k)) = Inr True" using d by blast
  have j: "j \<in> set js \<Longrightarrow> if supports (tj_timezone j) = Inr True then job_key j \<in> set (db_coverage s')
      else tj_timezone j \<notin> registered s' \<and> (\<forall>k \<in> set (db_coverage s'). fst (snd k) \<noteq> tj_timezone j)" using d by blast
  show "j \<in> set js \<Longrightarrow> supports (tj_timezone j) = Inr True \<Longrightarrow> job_key j \<in> set (db_coverage s')"
    "j \<in> set js \<Longrightarrow> supports (tj_timezone j) \<noteq> Inr True \<Longrightarrow> tj_timezone j \<notin> registered s'"
    "j \<in> set js \<Longrightarrow> supports (tj_timezone j) \<noteq> Inr True \<Longrightarrow> k \<in> set (db_coverage s') \<Longrightarrow> fst (snd k) \<noteq> tj_timezone j"
    using j by auto
  show "i \<in> set (db_jobs s') \<Longrightarrow> tj_status i = Job_done \<or> (i \<in> set (db_jobs s) \<and> tj_id i \<notin> tj_id ` set js)" using d by blast
qed

lemma settles_Nil: "settles supports s [] s"
  by (simp add: settles_def)

lemma settles_Cons:
  assumes one: "settles supports s [j] s1" and rest: "settles supports s1 js s'"
    and sup: "supports (tj_timezone j) = Inr True \<or> supports (tj_timezone j) = Inr False"
  shows "settles supports s (j # js) s'"
  unfolding settles_def
proof (intro conjI ballI)
  note o = settlesD [OF one] and r = settlesD [OF rest]
  show "db_dirty s' = db_dirty s" "map tj_id (db_jobs s') = map tj_id (db_jobs s)" using o(1,3) r(1,3) by simp_all
  show "registered s' \<subseteq> registered s" using o(2) r(2) by (rule order_trans [rotated])
  show "supports (fst (snd k)) \<noteq> Inr False \<longrightarrow> k \<in> set (db_coverage s')" if "k \<in> set (db_coverage s)" for k using o(4) r(4) that by blast
  show "k \<in> set (db_coverage s) \<or> supports (fst (snd k)) = Inr True" if "k \<in> set (db_coverage s')" for k using o(5) r(5) that by blast
  show "tj_status i = Job_done \<or> (i \<in> set (db_jobs s) \<and> tj_id i \<notin> tj_id ` set (j # js))" if "i \<in> set (db_jobs s')" for i
    using r(9) [OF that] o(9) [of i] by auto
  fix i assume "i \<in> set (j # js)"
  then consider "i = j" | "i \<in> set js" by auto
  then show "if supports (tj_timezone i) = Inr True then job_key i \<in> set (db_coverage s')
      else tj_timezone i \<notin> registered s' \<and> (\<forall>k \<in> set (db_coverage s'). fst (snd k) \<noteq> tj_timezone i)"
  proof cases
    case 1
    show ?thesis
    proof (cases "supports (tj_timezone j) = Inr True")
      case True
      then have "job_key j \<in> set (db_coverage s1)" using o(6) by simp
      then have "job_key j \<in> set (db_coverage s')" using r(4) True by (simp add: job_key_def)
      then show ?thesis using 1 True by simp
    next
      case False
      then have f: "supports (tj_timezone j) = Inr False" using sup by simp
      have "fst (snd k) \<noteq> tj_timezone j" if k: "k \<in> set (db_coverage s')" for k
      proof (cases "k \<in> set (db_coverage s1)")
        case True
        then show ?thesis using o(8) False by simp
      next
        case False
        then have "supports (fst (snd k)) = Inr True" using r(5) [OF k] by simp
        then show ?thesis using f by auto
      qed
      moreover have "tj_timezone j \<notin> registered s'" using o(7) [of j] r(2) False by auto
      ultimately show ?thesis using 1 False by simp
    qed
  qed (use r(6-8) in simp)
qed

lemma compact_keeps:
  assumes "compactTimezoneRollup cal j s = Inr (n, s1)"
  shows "db_watermark s1 = db_watermark s \<and> db_dirty s1 = db_dirty s \<and> db_zones s1 = db_zones s \<and> db_jobs s1 = db_jobs s
    \<and> db_nextJob s1 = db_nextJob s \<and> db_coverage s1 = db_coverage s \<and> ch_base s1 = ch_base s \<and> pr_work s1 = pr_work s"
  using assms by (auto simp: compactTimezoneRollup_def and_then_def Let_def delete_zone_def insert_zone_def split: sum.splits if_splits)

lemma zone_inv_compact:
  assumes inv: "zone_inv cal s" and ca: "calendar_agrees cal" and j: "job_sound cal j" "job_key j \<notin> set (db_coverage s)" and idle: "pr_work s = []"
  obtains n s1 where "compactTimezoneRollup cal j s = Inr (n, s1)" "zone_inv cal s1"
    "cache_accurate cal s1 (tj_resolution j) (tj_timezone j) (tj_bucket j)"
proof -
  let ?r = "tj_resolution j" and ?z = "tj_timezone j" and ?b = "tj_bucket j"
  let ?rows = "exact_zone cal ?r ?z ?b s"
  let ?d = "delete_zone ?r ?z ?b s"
  let ?s = "insert_zone ?r ?z ?b ?rows ?d"
  from inv have ci: "cache_inv cal s" by (rule zone_invE)
  have key: "(?r, ?z, ?b) \<notin> set (db_coverage s)" using j(2) by (simp add: job_key_def)
  have b: "bucket_start cal ?r ?z ?b" by (rule job_soundD [OF j(1)])
  have dk: "distinct_keys ?rows" by (simp add: exact_zone_def)
  have del: "zone_inv cal ?d"
    by (rule zone_inv_cache [OF inv key b]) (use ci idle in \<open>auto simp: delete_zone_def cache_inv_def\<close>)
  have put: "map_of (ch_cache ?s) (r', z', b', d)
      = (if (r', z', b') = (?r, ?z, ?b) then map_of ?rows d else map_of (ch_cache s) (r', z', b', d))" for r' z' b' d
    by (simp add: insert_zone_def delete_zone_def map_of_put_keyed [OF keyed_cache_rows [OF dk]] map_of_cache_rows split: option.split)
  have ins: "zone_inv cal ?s"
  proof (rule zone_inv_cache [OF del, where r = ?r and z = ?z and b = ?b])
    show "(?r, ?z, ?b) \<notin> set (db_coverage ?d)" using key by (simp add: delete_zone_def)
    show "distinct_keys (ch_cache ?s)" using ci by (simp add: insert_zone_def delete_zone_def cache_inv_def)
    show "map_of (ch_cache ?s) (r', z', b', d) = map_of (ch_cache ?d) (r', z', b', d)" if "(r', z', b') \<noteq> (?r, ?z, ?b)" for r' z' b' d
      using put [of r' z' b' d] that by (auto simp: delete_zone_def)
  qed (use b idle in \<open>auto simp: delete_zone_def insert_zone_def\<close>)
  have acc: "cache_accurate cal ?s ?r ?z ?b"
    by (simp add: cache_accurate_def put) (simp add: exact_zone_def insert_zone_def delete_zone_def)
  have e: "?s = ?d" if "?rows = []" using that by (simp add: insert_zone_def)
  have "compactTimezoneRollup cal j s = Inr (length ?rows, ?s)"
    using e by (cases "?rows = []") (simp_all add: compactTimezoneRollup_def and_then_def aggregate_zone_exact [OF ca b] Let_def)
  then show ?thesis using that ins acc by blast
qed

lemma settle_supported:
  assumes ca: "calendar_agrees cal" and inv: "zone_inv cal s" and cr: "claim_ready supports s (j # js)"
    and sup: "supports (tj_timezone j) = Inr True"
  obtains n s2 where "work_jobs cal supports now (j # js) result s
      = work_jobs cal supports now js (result\<lparr>wr_jobs := Suc (wr_jobs result), wr_rows := wr_rows result + n\<rparr>) s2"
    "zone_inv cal s2" "claim_ready supports s2 js" "settles supports s [j] s2"
proof -
  have j: "j \<in> set (db_jobs s)" "tj_status j = Job_inflight" "job_ready j s" "tj_timezone j \<in> registered s" "pr_work s = []" "distinct (map tj_id (j # js))"
    using cr sup by (auto simp: claim_ready_def)
  from inv have jo: "jobs_inv cal s" "open_inv s" by (blast elim: zone_invE)+
  have js: "job_sound cal j" "job_key j \<notin> set (db_coverage s)" using jo j(1,2) by (simp_all add: jobs_inv_def open_inv_def)
  obtain n s1 where s1: "compactTimezoneRollup cal j s = Inr (n, s1)" "zone_inv cal s1"
    "cache_accurate cal s1 (tj_resolution j) (tj_timezone j) (tj_bucket j)"
    by (rule zone_inv_compact [OF inv ca js j(5)])
  note k = compact_keeps [OF s1(1)]
  have free: "\<not> lock_taken j s" using j(5) by (simp add: lock_taken_def)
  have rd: "job_ready i s1 = job_ready i s" for i using k by (simp add: job_ready_def below_watermark_def dirty_within_def)
  have head: "i = j" if "i \<in> set (db_jobs s)" "tj_id i = tj_id j" for i
    using distinct_idD [OF conjunct1 [OF jo(1) [unfolded jobs_inv_def]] that(1) j(1) that(2)] .
  let ?P = "\<lambda>i. tj_id i = tj_id j \<and> tj_generation i = tj_generation j \<and> tj_status i = Job_inflight \<and> job_ready i s1"
  let ?s2 = "s1\<lparr>db_jobs := update_job (tj_id j) (\<lambda>j. j\<lparr>tj_status := Job_done, tj_updated := now\<rparr>) (db_jobs s1),
            db_coverage := List.insert (job_key j) (db_coverage s1)\<rparr>"
  have "j \<in> set (filter ?P (db_jobs s1))" using j k rd by simp
  then obtain i rest where flt: "filter ?P (db_jobs s1) = i # rest" by (cases "filter ?P (db_jobs s1)") auto
  then have "i \<in> set (filter ?P (db_jobs s1))" by simp
  then have "i = j" using head k by simp
  then have done_j: "markDone now (tj_id j) (tj_generation j) s1 = (Accepted, ?s2)"
    using flt j(4) k by (simp add: markDone_def)
  have inv2: "zone_inv cal ?s2"
    by (rule zone_inv_cover [OF s1(2), of j]) (use j k rd s1(3) in \<open>simp_all\<close>)
  have jobs2: "i \<in> set (db_jobs ?s2) \<longleftrightarrow> (\<exists>i0 \<in> set (db_jobs s). i = (if tj_id i0 = tj_id j then i0\<lparr>tj_status := Job_done, tj_updated := now\<rparr> else i0))" for i
    using k by (auto simp: update_job_def)
  have rd2: "job_ready i ?s2 = job_ready i s" for i using rd [of i] by (simp add: job_ready_def below_watermark_def dirty_within_def)
  have ready: "claim_ready supports ?s2 js"
    unfolding claim_ready_def
  proof (intro conjI ballI)
    fix i assume i: "i \<in> set js"
    have "tj_id i \<in> tj_id ` set js" using i by (rule imageI)
    then have ne: "tj_id i \<noteq> tj_id j" using j(6) by auto
    have stay: "x \<in> set (db_jobs ?s2)" if "x \<in> set (db_jobs s)" "tj_id x = tj_id i" for x
      unfolding jobs2 using that ne by (intro bexI [of _ x]) simp_all
    have "(supports (tj_timezone i) = Inr True \<and> i \<in> set (db_jobs s) \<and> tj_status i = Job_inflight \<and> job_ready i s \<and> tj_timezone i \<in> registered s)
        \<or> (supports (tj_timezone i) = Inr False \<and> (\<exists>x \<in> set (db_jobs s). tj_id x = tj_id i \<and> tj_timezone x = tj_timezone i))"
      using cr i by (simp add: claim_ready_def)
    then show "(supports (tj_timezone i) = Inr True \<and> i \<in> set (db_jobs ?s2) \<and> tj_status i = Job_inflight \<and> job_ready i ?s2 \<and> tj_timezone i \<in> registered ?s2)
        \<or> (supports (tj_timezone i) = Inr False \<and> (\<exists>x \<in> set (db_jobs ?s2). tj_id x = tj_id i \<and> tj_timezone x = tj_timezone i))"
      unfolding rd2 using stay k by auto
  qed (use j k in simp_all)
  have "settles supports s [j] ?s2"
    unfolding settles_def
  proof (intro conjI ballI)
    show "tj_status i = Job_done \<or> (i \<in> set (db_jobs s) \<and> tj_id i \<notin> tj_id ` set [j])" if i: "i \<in> set (db_jobs ?s2)" for i
    proof -
      obtain i0 where "i0 \<in> set (db_jobs s)" "i = (if tj_id i0 = tj_id j then i0\<lparr>tj_status := Job_done, tj_updated := now\<rparr> else i0)"
        using i unfolding jobs2 by blast
      then show ?thesis by (cases "tj_id i0 = tj_id j") auto
    qed
  qed (use k sup in \<open>auto simp: update_job_def job_key_def\<close>)
  then show ?thesis using that [of n ?s2] inv2 ready sup free s1(1) done_j by (simp add: Let_def)
qed

lemma settle_unsupported:
  fixes now :: instant
  assumes inv: "zone_inv cal s" and cr: "claim_ready supports s (j # js)" and sup: "supports (tj_timezone j) = Inr False"
  defines "s2 \<equiv> disableTimezone now (tj_timezone j) s"
  shows "claim_ready supports s2 js" "settles supports s [j] s2"
proof -
  let ?f = "\<lambda>i. if tj_timezone i = tj_timezone j \<and> tj_status i \<noteq> Job_done then i\<lparr>tj_status := Job_done, tj_updated := now\<rparr> else i"
  have s2: "db_jobs s2 = map ?f (db_jobs s)" "db_coverage s2 = filter (\<lambda>(r, z', b). z' \<noteq> tj_timezone j) (db_coverage s)"
    "registered s2 = registered s - {tj_timezone j}" "db_dirty s2 = db_dirty s" "db_watermark s2 = db_watermark s" "pr_work s2 = pr_work s"
    by (auto simp: s2_def disableTimezone_def)
  have f: "tj_id (?f i) = tj_id i" "tj_timezone (?f i) = tj_timezone i" for i :: zone_job by simp_all
  have rd: "job_ready i s2 = job_ready i s" for i by (simp add: job_ready_def below_watermark_def dirty_within_def s2)
  obtain x where x: "x \<in> set (db_jobs s)" "tj_id x = tj_id j" "tj_timezone x = tj_timezone j"
    using cr sup by (auto simp: claim_ready_def)
  from inv have "distinct (map tj_id (db_jobs s))" by (simp add: zone_inv_def jobs_inv_def)
  note one = distinct_idD [OF this _ x(1)]
  show "claim_ready supports s2 js"
    unfolding claim_ready_def
  proof (intro conjI ballI)
    show "pr_work s2 = []" "distinct (map tj_id js)" using cr by (simp_all add: claim_ready_def s2)
    fix i assume i: "i \<in> set js"
    have "(supports (tj_timezone i) = Inr True \<and> i \<in> set (db_jobs s) \<and> tj_status i = Job_inflight \<and> job_ready i s \<and> tj_timezone i \<in> registered s)
        \<or> (supports (tj_timezone i) = Inr False \<and> (\<exists>x \<in> set (db_jobs s). tj_id x = tj_id i \<and> tj_timezone x = tj_timezone i))"
      using cr i by (simp add: claim_ready_def)
    then show "(supports (tj_timezone i) = Inr True \<and> i \<in> set (db_jobs s2) \<and> tj_status i = Job_inflight \<and> job_ready i s2 \<and> tj_timezone i \<in> registered s2)
        \<or> (supports (tj_timezone i) = Inr False \<and> (\<exists>x \<in> set (db_jobs s2). tj_id x = tj_id i \<and> tj_timezone x = tj_timezone i))"
    proof (elim disjE conjE bexE)
      assume a: "supports (tj_timezone i) = Inr True" "i \<in> set (db_jobs s)" "tj_status i = Job_inflight" "job_ready i s" "tj_timezone i \<in> registered s"
      have "tj_timezone i \<noteq> tj_timezone j" using a(1) sup by auto
      then have "i \<in> set (db_jobs s2)" "tj_timezone i \<in> registered s2" unfolding s2 using a(2,5) by (auto intro!: image_eqI [where x = i])
      then show ?thesis using a rd by simp
    next
      fix y assume a: "supports (tj_timezone i) = Inr False" "y \<in> set (db_jobs s)" "tj_id y = tj_id i" "tj_timezone y = tj_timezone i"
      have "?f y \<in> set (db_jobs s2)" unfolding s2(1) set_map using a(2) by (rule imageI)
      then show ?thesis using a f [of y] by auto
    qed
  qed
  have ids: "map tj_id (db_jobs s2) = map tj_id (db_jobs s)" by (simp add: s2(1))
  show "settles supports s [j] s2"
    unfolding settles_def
  proof (intro conjI ballI)
    show "tj_status i = Job_done \<or> (i \<in> set (db_jobs s) \<and> tj_id i \<notin> tj_id ` set [j])" if i: "i \<in> set (db_jobs s2)" for i
    proof -
      obtain i0 where i0: "i0 \<in> set (db_jobs s)" "i = ?f i0" using i unfolding s2(1) set_map by (rule imageE)
      show ?thesis
      proof (cases "tj_timezone i0 = tj_timezone j")
        case False
        then have "tj_id i0 \<noteq> tj_id j" using one [OF i0(1)] x(2,3) by auto
        then show ?thesis using i0 False by simp
      qed (use i0 in simp)
    qed
  qed (use s2 ids sup in auto)
qed

lemma work_jobs_settles:
  assumes "calendar_agrees cal" "zone_inv cal s" "claim_ready supports s js" "wr_failure result = None"
  shows "\<exists>rows s'. work_jobs cal supports now js result s
      = (\<lparr>wr_jobs = wr_jobs result + length (filter (\<lambda>j. supports (tj_timezone j) = Inr True) js), wr_rows = rows, wr_failure = None\<rparr>, s')
    \<and> zone_inv cal s' \<and> settles supports s js s'"
  using assms(2-4)
proof (induction js arbitrary: s result)
  case Nil
  obtain n m f where "result = \<lparr>wr_jobs = n, wr_rows = m, wr_failure = f\<rparr>" by (cases result) auto
  then show ?case using Nil settles_Nil by auto
next
  case (Cons j js)
  have "supports (tj_timezone j) = Inr True \<or> supports (tj_timezone j) = Inr False" using Cons.prems(2) by (auto simp: claim_ready_def)
  then show ?case
  proof
    assume sup: "supports (tj_timezone j) = Inr True"
    obtain n s2 where w: "work_jobs cal supports now (j # js) result s
        = work_jobs cal supports now js (result\<lparr>wr_jobs := Suc (wr_jobs result), wr_rows := wr_rows result + n\<rparr>) s2"
      and s2: "zone_inv cal s2" "claim_ready supports s2 js" "settles supports s [j] s2"
      by (rule settle_supported [where result = result and now = now, OF assms(1) Cons.prems(1,2) sup])
    have "wr_failure (result\<lparr>wr_jobs := Suc (wr_jobs result), wr_rows := wr_rows result + n\<rparr>) = None" using Cons.prems(3) by simp
    from Cons.IH [OF s2(1,2) this] show ?thesis
      unfolding w using settles_Cons [OF s2(3)] sup by fastforce
  next
    assume sup: "supports (tj_timezone j) = Inr False"
    let ?s2 = "disableTimezone now (tj_timezone j) s"
    note u = settle_unsupported [OF Cons.prems(1,2) sup, of now]
    have "work_jobs cal supports now (j # js) result s = work_jobs cal supports now js result ?s2" by (simp add: sup Let_def)
    then show ?thesis using Cons.IH [OF zone_inv_disable [OF Cons.prems(1)] u(1) Cons.prems(3)] settles_Cons [OF u(2)] sup by fastforce
  qed
qed

text \<open>C6: A worker that is not interrupted, and finds no other worker, settles every job it claimed, where
  ClickHouse says of each zone whether it supports it and the zones it supports are registered: the
  worker returns the number of the jobs of supported zones, and afterwards every claimed job is done;
  the bucket of a job of a supported zone is covered and its cache exact; a zone that is not supported
  is out of the registry and nothing of it is covered.\<close>

theorem uninterrupted_worker_settles_claims:
  assumes "calendar_agrees cal" "reachable cal s" "pr_work s = []"
    "\<forall>j \<in> set (claim_candidates now limit s).
       supports (tj_timezone j) = Inr False \<or> (supports (tj_timezone j) = Inr True \<and> tj_timezone j \<in> registered s)"
  shows "\<exists>rows s'. runTimezoneRollupWorkerWith cal supports now limit s
      = (Inr (length (filter (\<lambda>j. supports (tj_timezone j) = Inr True) (claim_candidates now limit s)), rows), s')
    \<and> (\<forall>j \<in> set (claim_candidates now limit s).
         (\<exists>j' \<in> set (db_jobs s'). tj_id j' = tj_id j \<and> tj_status j' = Job_done)
         \<and> (if supports (tj_timezone j) = Inr True
            then job_key j \<in> set (db_coverage s') \<and> cache_accurate cal s' (tj_resolution j) (tj_timezone j) (tj_bucket j)
            else tj_timezone j \<notin> registered s' \<and> (\<forall>k \<in> set (db_coverage s'). fst (snd k) \<noteq> tj_timezone j)))"
proof -
  let ?C = "claim_candidates now limit s"
  obtain js s1 where c: "claimJobs now limit s = (js, s1)" by fastforce
  have inv: "zone_inv cal s" by (rule reachable_zone_inv [OF assms(2,1)])
  have inv1: "zone_inv cal s1" using zone_inv_claim_jobs [OF inv, of now limit] c by simp
  have js: "js = map (\<lambda>j. j\<lparr>tj_status := Job_inflight, tj_updated := now\<rparr>) ?C"
    and s1: "db_jobs s1 = map (\<lambda>j. if tj_id j \<in> tj_id ` set ?C then j\<lparr>tj_status := Job_inflight, tj_updated := now\<rparr> else j) (db_jobs s)"
      "db_watermark s1 = db_watermark s" "db_dirty s1 = db_dirty s" "db_zones s1 = db_zones s" "pr_work s1 = pr_work s"
    using c by (auto simp: claimJobs_def Let_def)
  have rd: "job_ready (j\<lparr>tj_status := st, tj_updated := u\<rparr>) s1 = job_ready j s" for j st u
    by (simp add: job_ready_def below_watermark_def dirty_within_def s1 split: option.split)
  have dist: "distinct (map tj_id ?C)"
  proof -
    have "distinct (map tj_id (db_jobs s))" using inv by (auto simp: zone_inv_def jobs_inv_def)
    then have "distinct (map tj_id (filter P (db_jobs s)))" for P by (simp add: distinct_map_filter)
    then show ?thesis unfolding claim_candidates_def
      by (simp add: distinct_map take_map [symmetric] inj_on_subset [OF _ set_take_subset])
  qed
  have ready: "claim_ready supports s1 js"
    unfolding claim_ready_def
  proof (intro conjI ballI)
    show "pr_work s1 = []" using assms(3) s1(5) by simp
    show "distinct (map tj_id js)" using dist by (simp add: js o_def)
    fix j' assume "j' \<in> set js"
    then obtain j where j: "j \<in> set ?C" "j' = j\<lparr>tj_status := Job_inflight, tj_updated := now\<rparr>" by (auto simp: js)
    note m = claim_candidates_mem [OF j(1)]
    have "j' \<in> set (db_jobs s1)" unfolding s1(1) using m j by (auto intro!: image_eqI [where x = j])
    then show "(supports (tj_timezone j') = Inr True \<and> j' \<in> set (db_jobs s1) \<and> tj_status j' = Job_inflight \<and> job_ready j' s1 \<and> tj_timezone j' \<in> registered s1)
        \<or> (supports (tj_timezone j') = Inr False \<and> (\<exists>i \<in> set (db_jobs s1). tj_id i = tj_id j' \<and> tj_timezone i = tj_timezone j'))"
    proof (cases "supports (tj_timezone j) = Inr True")
      case True
      then show ?thesis using \<open>j' \<in> set (db_jobs s1)\<close> m assms(4) j rd s1(4) by auto
    next
      case False
      then have "supports (tj_timezone j') = Inr False" using assms(4) j by auto
      then show ?thesis using \<open>j' \<in> set (db_jobs s1)\<close> by blast
    qed
  qed
  have sup: "length (filter (\<lambda>j. supports (tj_timezone j) = Inr True) js) = length (filter (\<lambda>j. supports (tj_timezone j) = Inr True) ?C)"
    by (simp add: js filter_map o_def)
  obtain rows s' where w: "work_jobs cal supports now js \<lparr>wr_jobs = 0, wr_rows = 0, wr_failure = None\<rparr> s1
        = (\<lparr>wr_jobs = length (filter (\<lambda>j. supports (tj_timezone j) = Inr True) ?C), wr_rows = rows, wr_failure = None\<rparr>, s')"
    and inv': "zone_inv cal s'" and st: "settles supports s1 js s'"
    using work_jobs_settles [OF assms(1) inv1 ready, of "\<lparr>wr_jobs = 0, wr_rows = 0, wr_failure = None\<rparr>" now] sup by auto
  note s' = settlesD [OF st]
  have "runTimezoneRollupWorkerWith cal supports now limit s
      = (Inr (length (filter (\<lambda>j. supports (tj_timezone j) = Inr True) ?C), rows), s')"
    using c w by (simp add: runTimezoneRollupWorkerWith_def)
  moreover have "(\<exists>j' \<in> set (db_jobs s'). tj_id j' = tj_id j \<and> tj_status j' = Job_done)
      \<and> (if supports (tj_timezone j) = Inr True
         then job_key j \<in> set (db_coverage s') \<and> cache_accurate cal s' (tj_resolution j) (tj_timezone j) (tj_bucket j)
         else tj_timezone j \<notin> registered s' \<and> (\<forall>k \<in> set (db_coverage s'). fst (snd k) \<noteq> tj_timezone j))" if j: "j \<in> set ?C" for j
  proof -
    let ?j = "j\<lparr>tj_status := Job_inflight, tj_updated := now\<rparr>"
    have jj: "?j \<in> set js" using j by (simp add: js)
    have "map tj_id (db_jobs s1) = map tj_id (db_jobs s)" by (simp add: s1)
    then have "tj_id ` set (db_jobs s') = tj_id ` set (db_jobs s)" using s'(3) by (metis set_map)
    then obtain j' where j': "j' \<in> set (db_jobs s')" "tj_id j' = tj_id j" using claim_candidates_mem [OF j] by (metis image_iff)
    have "tj_id ?j \<in> tj_id ` set js" using jj by (rule imageI)
    then have "tj_id j' \<in> tj_id ` set js" using j'(2) by simp
    then have done_j: "tj_status j' = Job_done" using s'(9) [OF j'(1)] by blast
    show ?thesis
    proof (cases "supports (tj_timezone j) = Inr True")
      case True
      then have cov: "job_key j \<in> set (db_coverage s')" using s'(6) [OF jj] by (simp add: job_key_update)
      then have "covered_ok cal s' (job_key j)" using inv' by (auto simp: zone_inv_def coverage_inv_def)
      moreover have "job_sound cal j" using inv claim_candidates_mem [OF j] by (auto simp: zone_inv_def jobs_inv_def)
      moreover have "\<not> dirty_within (tj_bucket j) (tj_sourceTo j) s'" using claim_candidates_mem [OF j] s'(1) s1(3) by (simp add: job_ready_def dirty_within_def)
      ultimately show ?thesis using j' cov done_j True by (auto simp: covered_ok_def job_key_def job_sound_def)
    next
      case False
      then show ?thesis using s'(7) [OF jj] s'(8) [OF jj] j' done_j by auto
    qed
  qed
  ultimately show ?thesis by blast
qed

definition demo_ready :: usage_db where
  "demo_ready = the (calm_run utc_calendar (take 14 demo_events) empty_db)"

lemma demo_ready_end:
  "map_option (\<lambda>s. (pr_work s, db_zones s, map (\<lambda>j. (job_key j, tj_timezone j)) (claim_candidates 5400002 8 s)))
     (calm_run utc_calendar (take 14 demo_events) empty_db)
   = Some ([], [(''UTC'', True)], [((Res_hour, ''UTC'', 0), ''UTC'')])"
  by code_simp

lemma uninterrupted_worker_settles_claims_witness:
  "\<exists>rows s'. runTimezoneRollupWorkerWith utc_calendar (\<lambda>z. Inr True) 5400002 8 demo_ready = (Inr (1, rows), s')
    \<and> (Res_hour, ''UTC'', 0) \<in> set (db_coverage s')"
proof -
  obtain s where "calm_run utc_calendar (take 14 demo_events) empty_db = Some s"
    using demo_ready_end by (cases "calm_run utc_calendar (take 14 demo_events) empty_db") simp_all
  then have run: "calm_run utc_calendar (take 14 demo_events) empty_db = Some demo_ready" by (simp only: demo_ready_def option.sel)
  note f = demo_ready_end [unfolded run option.map option.inject prod.inject]
  obtain j where j: "claim_candidates 5400002 8 demo_ready = [j]" "job_key j = (Res_hour, ''UTC'', 0)" "tj_timezone j = ''UTC''"
    using conjunct2 [OF conjunct2 [OF f]] by auto
  have "\<forall>j \<in> set (claim_candidates 5400002 8 demo_ready).
      (\<lambda>z. Inr True :: string + bool) (tj_timezone j) = Inr False
      \<or> ((\<lambda>z. Inr True :: string + bool) (tj_timezone j) = Inr True \<and> tj_timezone j \<in> registered demo_ready)"
    using j f by simp
  from uninterrupted_worker_settles_claims [OF utc_calendar_agrees calm_run_reachable [OF reachable.start run] conjunct1 [OF f] this]
  show ?thesis using j by auto
qed

end
