(* ===== verification/Outbox_Worker.thy ===== *)
theory Outbox_Worker
  imports Usage_Rollup Rollup_Worker_State Rollup_Cutover
begin

text \<open>
  \<open>apps/web/lib/clickhouse-outbox.ts\<close>: the adapter that runs a rollup worker with an adaptive batch
  size and records what happened, the readiness of the timezone rollup, and the flags that switch the
  read layers (\<open>packages/storage-clickhouse/src/storage.ts\<close>).
\<close>

section \<open>Read layers\<close>

datatype read_mode = Mode_fixed bool | Mode_auto

definition present :: "string option \<Rightarrow> bool" where
  "present v = (case v of None \<Rightarrow> False | Some s \<Rightarrow> js_trim s \<noteq> [])"

definition envFlagValue :: "string option \<Rightarrow> bool" where
  "envFlagValue v = (case v of None \<Rightarrow> False | Some s \<Rightarrow> js_trim s \<noteq> [] \<and> js_lower (js_trim s) \<in> {''1'', ''true'', ''on''})"

definition resolveRollupReadMode :: "string option \<Rightarrow> read_mode" where
  "resolveRollupReadMode v = (if \<not> present v then Mode_auto else Mode_fixed (envFlagValue v))"

definition resolveTimezoneRollupReadMode :: "env \<Rightarrow> read_mode" where
  "resolveTimezoneRollupReadMode env =
     (if present (env ''CLICKHOUSE_READ_TIMEZONE_ROLLUP'') then resolveRollupReadMode (env ''CLICKHOUSE_READ_TIMEZONE_ROLLUP'')
      else if present (env ''CLICKHOUSE_READ_ROLLUP'') then resolveRollupReadMode (env ''CLICKHOUSE_READ_ROLLUP'')
      else Mode_auto)"

record read_flag =
  rf_enabled :: bool
  rf_legacy :: bool

definition resolveClickHouseRollupReadFlag :: "env \<Rightarrow> read_flag" where
  "resolveClickHouseRollupReadFlag env =
     (let legacyValue = map_option js_trim (env ''CLICKHOUSE_READ_ROLLUP'');
          newValue = map_option js_trim (env ''CLICKHOUSE_READ_TIMEZONE_ROLLUP'');
          newExplicit = newValue \<noteq> None \<and> newValue \<noteq> Some []
      in \<lparr>rf_enabled = (if newExplicit then envFlagValue newValue else envFlagValue legacyValue),
          rf_legacy = (legacyValue \<noteq> None \<and> legacyValue \<noteq> Some [])\<rparr>)"

text \<open>The states of the cutover, \<open>None\<close> where the query fails; \<open>runtimeReadStates\<close> caches them.\<close>

definition readLayerEnabled :: "(cutover_layer \<Rightarrow> cutover_state option) option \<Rightarrow> cutover_layer \<Rightarrow> read_mode \<Rightarrow> bool" where
  "readLayerEnabled states layer mode =
     (case mode of
        Mode_fixed b \<Rightarrow> b
      | Mode_auto \<Rightarrow> (case states of None \<Rightarrow> False | Some f \<Rightarrow> f layer = Some Active))"

section \<open>Readiness of the timezone rollup\<close>

definition TIMEZONE_ROLLUP_MAX_LAG_SECONDS :: int where "TIMEZONE_ROLLUP_MAX_LAG_SECONDS = 30 * 60"
definition TIMEZONE_ROLLUP_MAX_PENDING_JOBS :: nat where "TIMEZONE_ROLLUP_MAX_PENDING_JOBS = 10000"
definition READINESS_BUCKET_MS :: int where "READINESS_BUCKET_MS = 15 * 60 * 1000"

datatype readiness_status = Rs_disabled | Rs_healthy | Rs_fallback

record timezone_readiness =
  tr_status :: readiness_status
  tr_watermark :: "instant option"
  tr_lagSeconds :: "int option"
  tr_pendingJobs :: nat
  tr_legacy :: bool

text \<open>
  \<open>delayMs\<close> is \<open>rollupFinalizeDelayMs\<close> of the environment, \<open>state\<close> the state of the layer, \<open>None\<close>
  where the query fails; a stored watermark is a valid \<open>Date\<close>.
\<close>

definition getTimezoneRollupReadinessAt ::
  "env \<Rightarrow> int \<Rightarrow> cutover_state option option \<Rightarrow> instant \<Rightarrow> usage_db \<Rightarrow> timezone_readiness" where
  "getTimezoneRollupReadinessAt env delayMs state now s =
     (let rollupRead = resolveClickHouseRollupReadFlag env;
          explicitRead = present (env ''CLICKHOUSE_READ_TIMEZONE_ROLLUP'') \<or> present (env ''CLICKHOUSE_READ_ROLLUP'')
      in if \<not> explicitRead \<and> state = None
         then \<lparr>tr_status = Rs_fallback, tr_watermark = None, tr_lagSeconds = None, tr_pendingJobs = 0, tr_legacy = False\<rparr>
         else
           let readEnabled = (if explicitRead then rf_enabled rollupRead else state = Some (Some Active))
           in if \<not> readEnabled
              then \<lparr>tr_status = (if rf_legacy rollupRead then Rs_fallback else Rs_disabled), tr_watermark = None,
                    tr_lagSeconds = None, tr_pendingJobs = 0, tr_legacy = rf_legacy rollupRead\<rparr>
              else
                let pendingJobs = length (filter (\<lambda>j. tj_status j = Job_pending) (db_jobs s));
                    eligible = ((now - delayMs) div READINESS_BUCKET_MS) * READINESS_BUCKET_MS;
                    lagSeconds = map_option (\<lambda>w. max 0 ((eligible - w) div 1000)) (db_watermark s);
                    fallback = (rf_legacy rollupRead \<or> lagSeconds = None
                      \<or> (case lagSeconds of None \<Rightarrow> False | Some lag \<Rightarrow> TIMEZONE_ROLLUP_MAX_LAG_SECONDS < lag)
                      \<or> TIMEZONE_ROLLUP_MAX_PENDING_JOBS < pendingJobs)
                in \<lparr>tr_status = (if fallback then Rs_fallback else Rs_healthy), tr_watermark = db_watermark s,
                    tr_lagSeconds = lagSeconds, tr_pendingJobs = pendingJobs, tr_legacy = rf_legacy rollupRead\<rparr>)"

section \<open>The adaptive batch size\<close>

definition ADAPTIVE_MINIMUM :: int where "ADAPTIVE_MINIMUM = 1"

definition ADAPTIVE_MAXIMUM :: "rollup_worker_name \<Rightarrow> int" where
  "ADAPTIVE_MAXIMUM w = (case w of Usage_15m_v2 \<Rightarrow> 64 | Timezone \<Rightarrow> int TIMEZONE_ROLLUP_MAX_JOBS_PER_TICK)"

definition ADAPTIVE_FAST_BATCH_MS :: int where "ADAPTIVE_FAST_BATCH_MS = 2000"
definition ADAPTIVE_SLOW_BATCH_MS :: int where "ADAPTIVE_SLOW_BATCH_MS = 10000"

text \<open>\<open>Math.ceil(limit * 1.25)\<close> of an integer is exact.\<close>

definition nextAdaptiveLimit :: "int \<Rightarrow> int \<Rightarrow> int \<Rightarrow> bool \<Rightarrow> int \<Rightarrow> int \<Rightarrow> int" where
  "nextAdaptiveLimit limit0 processed durationMs failed minimum0 maximum0 =
     (let minimum = max 1 minimum0;
          maximum = max minimum maximum0;
          limit = min maximum (max minimum limit0)
      in if failed \<or> ADAPTIVE_SLOW_BATCH_MS \<le> durationMs then max minimum (limit div 2)
         else if limit \<le> processed \<and> durationMs \<le> ADAPTIVE_FAST_BATCH_MS then min maximum ((5 * limit + 3) div 4)
         else limit)"

section \<open>The observed worker\<close>

datatype task_outcome = Task_disabled | Task_paused | Task_completed | Task_failed

definition maximum_limit :: "rollup_worker_name \<Rightarrow> int option \<Rightarrow> int" where
  "maximum_limit w maximumLimit =
     max ADAPTIVE_MINIMUM (min (ADAPTIVE_MAXIMUM w) (case maximumLimit of None \<Rightarrow> ADAPTIVE_MAXIMUM w | Some m \<Rightarrow> m))"

definition current_limit :: "int \<Rightarrow> rollup_worker_record \<Rightarrow> int" where
  "current_limit maximum r = min maximum (max ADAPTIVE_MINIMUM (adaptiveLimit r))"

text \<open>
  \<open>run\<close> is the worker itself; the status rows are part of the state it may change, as others change
  them meanwhile. A write of an observation that fails is only logged: \<open>written\<close> tells, for each of the
  three, whether it reaches the database.
\<close>

definition runObservedWorkerTask ::
  "rollup_worker_name \<Rightarrow> bool \<Rightarrow> int option \<Rightarrow> (int \<Rightarrow> worker_table \<times> 's \<Rightarrow> (string + int \<times> int) \<times> (worker_table \<times> 's)) \<Rightarrow>
     instant \<Rightarrow> instant \<Rightarrow> (nat \<Rightarrow> bool) \<Rightarrow> worker_table \<times> 's \<Rightarrow> (pg_error + task_outcome) \<times> (worker_table \<times> 's)" where
  "runObservedWorkerTask w hardEnabled maximumLimit run startedAt finishedAt written st =
     (if \<not> hardEnabled then (Inr Task_disabled, st)
      else case get_worker (fst st) w of
          Inl e \<Rightarrow> (Inl e, st)
        | Inr r \<Rightarrow>
           if paused r then (Inr Task_paused, st)
           else
             let maximum = maximum_limit w maximumLimit;
                 limit = current_limit maximum r;
                 durationMs = max 0 (finishedAt - startedAt)
             in (case run limit ((if written 0 then markStarted (fst st) w startedAt else fst st), snd st) of
                   (Inr (units, rows), tbl, s) \<Rightarrow>
                     let tbl1 = (if written 1 then markSucceeded tbl w startedAt finishedAt units rows else tbl);
                         next_limit = nextAdaptiveLimit limit units durationMs False ADAPTIVE_MINIMUM maximum;
                         load = (if ADAPTIVE_SLOW_BATCH_MS \<le> durationMs then Throttled else Normal)
                     in (Inr Task_completed, (if written 2 then setAdaptiveState tbl1 w next_limit load else tbl1), s)
                 | (Inl e, tbl, s) \<Rightarrow>
                     let tbl1 = (if written 1
                                 then (case markFailed tbl w startedAt finishedAt (sanitizeRollupError e) of Inl pe \<Rightarrow> tbl | Inr tbl' \<Rightarrow> tbl')
                                 else tbl);
                         next_limit = nextAdaptiveLimit limit 0 durationMs True ADAPTIVE_MINIMUM maximum
                     in (Inr Task_failed, (if written 2 then setAdaptiveState tbl1 w next_limit Throttled else tbl1), s)))"

text \<open>The deprecated wrapper takes the load slot itself; \<open>Inr None\<close> is \<open>"busy"\<close>.\<close>

definition runObservedWorkerTick ::
  "rollup_worker_name \<Rightarrow> bool \<Rightarrow> int option \<Rightarrow> (int \<Rightarrow> worker_table \<times> 's \<Rightarrow> (string + int \<times> int) \<times> (worker_table \<times> 's)) \<Rightarrow>
     instant \<Rightarrow> instant \<Rightarrow> (nat \<Rightarrow> bool) \<Rightarrow> bool \<times> (worker_table \<times> 's) \<Rightarrow>
     (bool \<times> (worker_table \<times> 's)) \<times> (pg_error + task_outcome option)" where
  "runObservedWorkerTick w hardEnabled maximumLimit run startedAt finishedAt written st =
     (if \<not> hardEnabled then (st, Inr (Some Task_disabled))
      else withLoadSlot (\<lambda>s. let (r, s') = runObservedWorkerTask w hardEnabled maximumLimit run startedAt finishedAt written s in (s', r)) st)"

section \<open>The start of a run\<close>

text \<open>
  What the coordinator relies on: a worker that is switched on and not paused has its start recorded, if
  the writes reach the database and the run itself does not touch the time. One that is switched off
  changes nothing.
\<close>

lemma observed_start_recorded:
  assumes "fst st w = Some r" "\<not> paused r" "written 0"
    and keeps: "\<And>limit tbl s res tbl' s'. run limit (tbl, s) = (res, tbl', s') \<Longrightarrow> map_option lastStartedAt (tbl' w) = map_option lastStartedAt (tbl w)"
    and run: "runObservedWorkerTask w True maximumLimit run startedAt finishedAt written st = (outcome, tbl, s)"
  shows "map_option lastStartedAt (tbl w) = Some (Some startedAt)"
proof -
  let ?t0 = "markStarted (fst st) w startedAt"
  obtain res tbl0 s0 where r0: "run (current_limit (maximum_limit w maximumLimit) r) (?t0, snd st) = (res, tbl0, s0)" by (metis surj_pair)
  define started where "started t \<longleftrightarrow> map_option lastStartedAt (t w) = Some (Some startedAt)"
    for t :: worker_table
  have t0: "started tbl0"
    using keeps [OF r0] assms(1) by (simp add: started_def markStarted_def update_row_def)
  have succeeded: "started (markSucceeded t w startedAt finishedAt u n)" if "started t" for t u n
    using that by (cases "t w") (simp_all add: started_def markSucceeded_def update_row_def Let_def)
  have failed: "started t'" if "started t" "markFailed t w startedAt finishedAt e = Inr t'" for t t' e
    using that by (cases "t w"; cases "backoff_seconds (consecutiveFailures (the (t w)))") (auto simp: started_def markFailed_def update_row_def)
  have adapted: "started (setAdaptiveState t w lim load)" if "started t" for t lim load
    using that by (cases "t w") (simp_all add: started_def setAdaptiveState_def update_row_def)
  have g: "get_worker (fst st) w = Inr r" using assms(1) by (simp add: get_worker_def requireWorkerRow_def)
  have "started tbl"
    using run t0 assms(2,3) r0 g
    by (cases res) (auto simp: runObservedWorkerTask_def Let_def split: if_splits sum.splits dest: failed [OF t0]
        intro!: succeeded adapted)
  then show ?thesis by (simp add: started_def)
qed

lemma disabled_worker_records_nothing:
  "runObservedWorkerTask w False maximumLimit run startedAt finishedAt written st = (Inr Task_disabled, st)"
  by (simp add: runObservedWorkerTask_def)

section \<open>Bounds\<close>

lemma maximum_limit_bounds: "1 \<le> maximum_limit w m \<and> maximum_limit w m \<le> ADAPTIVE_MAXIMUM w"
  by (cases w) (auto simp: maximum_limit_def ADAPTIVE_MINIMUM_def ADAPTIVE_MAXIMUM_def TIMEZONE_ROLLUP_MAX_JOBS_PER_TICK_def)

lemma current_limit_bounds: "1 \<le> maximum \<Longrightarrow> 1 \<le> current_limit maximum r \<and> current_limit maximum r \<le> maximum"
  by (auto simp: current_limit_def ADAPTIVE_MINIMUM_def)

lemma nextAdaptiveLimit_bounds:
  "1 \<le> minimum \<Longrightarrow> minimum \<le> maximum \<Longrightarrow>
     minimum \<le> nextAdaptiveLimit limit processed durationMs failed minimum maximum
     \<and> nextAdaptiveLimit limit processed durationMs failed minimum maximum \<le> maximum"
  by (auto simp: nextAdaptiveLimit_def Let_def)

text \<open>C25: Whatever is configured and stored, a rollup worker is only ever called with a batch size between
  one and the maximum of its kind, and a batch size that the adapter stores lies there too.\<close>

theorem worker_batch_size_bounds:
  assumes "\<forall>limit. 1 \<le> limit \<and> limit \<le> ADAPTIVE_MAXIMUM w \<longrightarrow> run limit = run' limit"
  shows "runObservedWorkerTask w enabled maximumLimit run startedAt finishedAt written st
       = runObservedWorkerTask w enabled maximumLimit run' startedAt finishedAt written st
     \<and> (\<forall>outcome tbl s r. runObservedWorkerTask w enabled maximumLimit run startedAt finishedAt written st = (Inr outcome, tbl, s) \<longrightarrow>
          outcome \<in> {Task_completed, Task_failed} \<longrightarrow> written 2 \<longrightarrow> tbl w = Some r \<longrightarrow>
          1 \<le> adaptiveLimit r \<and> adaptiveLimit r \<le> ADAPTIVE_MAXIMUM w)"
proof (cases "\<not> enabled \<or> (case get_worker (fst st) w of Inl e \<Rightarrow> True | Inr r \<Rightarrow> paused r)")
  case True
  then show ?thesis by (auto simp: runObservedWorkerTask_def split: sum.splits)
next
  case False
  then obtain r0 where en: enabled and r0: "get_worker (fst st) w = Inr r0" "\<not> paused r0" by (auto split: sum.splits)
  let ?max = "maximum_limit w maximumLimit"
  let ?lim = "current_limit ?max r0"
  note mb = maximum_limit_bounds [of w maximumLimit]
  note lb = current_limit_bounds [OF conjunct1 [OF mb], of r0]
  have same: "run ?lim = run' ?lim" using assms lb mb by simp
  have nb: "1 \<le> nextAdaptiveLimit ?lim p d f ADAPTIVE_MINIMUM ?max \<and> nextAdaptiveLimit ?lim p d f ADAPTIVE_MINIMUM ?max \<le> ADAPTIVE_MAXIMUM w" for p d f
    using nextAdaptiveLimit_bounds [of ADAPTIVE_MINIMUM ?max ?lim p d f] mb by (simp add: ADAPTIVE_MINIMUM_def)
  define in_bounds where "in_bounds tbl \<longleftrightarrow> (\<forall>r. tbl w = Some r \<longrightarrow> 1 \<le> adaptiveLimit r \<and> adaptiveLimit r \<le> ADAPTIVE_MAXIMUM w)"
    for tbl :: worker_table
  have stored: "in_bounds (setAdaptiveState tbl w (nextAdaptiveLimit ?lim p d f ADAPTIVE_MINIMUM ?max) ld)" for tbl p d f ld
    using nb [of p d f] by (auto simp: in_bounds_def setAdaptiveState_def update_row_def)
  show ?thesis
  proof
    show "runObservedWorkerTask w enabled maximumLimit run startedAt finishedAt written st
        = runObservedWorkerTask w enabled maximumLimit run' startedAt finishedAt written st"
      by (simp add: runObservedWorkerTask_def r0 Let_def same)
    show "\<forall>outcome tbl s r. runObservedWorkerTask w enabled maximumLimit run startedAt finishedAt written st = (Inr outcome, tbl, s) \<longrightarrow>
          outcome \<in> {Task_completed, Task_failed} \<longrightarrow> written 2 \<longrightarrow> tbl w = Some r \<longrightarrow>
          1 \<le> adaptiveLimit r \<and> adaptiveLimit r \<le> ADAPTIVE_MAXIMUM w"
    proof (intro allI impI)
      fix outcome tbl s r
      assume h: "runObservedWorkerTask w enabled maximumLimit run startedAt finishedAt written st = (Inr outcome, tbl, s)" "written 2" "tbl w = Some r"
      obtain res tbl0 s0 where run: "run ?lim ((if written 0 then markStarted (fst st) w startedAt else fst st), snd st) = (res, tbl0, s0)"
        by (metis surj_pair)
      have "in_bounds tbl"
        using h(1,2) en r0 run stored unfolding runObservedWorkerTask_def
        by (cases res) (auto simp: Let_def split: prod.splits)
      then show "1 \<le> adaptiveLimit r \<and> adaptiveLimit r \<le> ADAPTIVE_MAXIMUM w" using h(3) by (simp add: in_bounds_def)
    qed
  qed
qed


definition idle_run :: "int \<Rightarrow> worker_table \<times> unit \<Rightarrow> (string + int \<times> int) \<times> (worker_table \<times> unit)" where
  "idle_run limit st = (if limit = 8 then Inr (8, 80) else Inl ''unexpected'', st)"

lemma worker_batch_size_bounds_witness:
  "runObservedWorkerTask Timezone True None idle_run 0 1500 (\<lambda>i. True) (\<lambda>w. Some (initial_worker_row w 0), ())
       = runObservedWorkerTask Timezone True None (\<lambda>limit. if limit \<le> 32 then idle_run limit else undefined) 0 1500 (\<lambda>i. True)
           (\<lambda>w. Some (initial_worker_row w 0), ())"
proof -
  have "ADAPTIVE_MAXIMUM Timezone = 32" by (simp add: ADAPTIVE_MAXIMUM_def TIMEZONE_ROLLUP_MAX_JOBS_PER_TICK_def)
  then have "\<forall>limit. 1 \<le> limit \<and> limit \<le> ADAPTIVE_MAXIMUM Timezone \<longrightarrow>
      idle_run limit = (\<lambda>limit. if limit \<le> 32 then idle_run limit else undefined) limit" by simp
  from worker_batch_size_bounds [OF this] show ?thesis by blast
qed

section \<open>Backing off and recovering\<close>

text \<open>A slow or failing batch, and a full batch that was fast, from the batch size that the last one left.\<close>

definition after_failure :: "int \<Rightarrow> int \<Rightarrow> int" where
  "after_failure maximum limit = nextAdaptiveLimit limit 0 0 True ADAPTIVE_MINIMUM maximum"

definition after_full_batch :: "int \<Rightarrow> int \<Rightarrow> int" where
  "after_full_batch maximum limit = nextAdaptiveLimit limit limit 0 False ADAPTIVE_MINIMUM maximum"

lemma after_failure_eq: "1 \<le> limit \<Longrightarrow> limit \<le> maximum \<Longrightarrow> after_failure maximum limit = max 1 (limit div 2)"
  by (auto simp: after_failure_def nextAdaptiveLimit_def ADAPTIVE_MINIMUM_def Let_def)

lemma after_full_batch_eq: "1 \<le> limit \<Longrightarrow> limit \<le> maximum \<Longrightarrow> after_full_batch maximum limit = min maximum ((5 * limit + 3) div 4)"
  by (auto simp: after_full_batch_def nextAdaptiveLimit_def ADAPTIVE_MINIMUM_def ADAPTIVE_FAST_BATCH_MS_def ADAPTIVE_SLOW_BATCH_MS_def Let_def)

lemma after_failure_pow:
  "1 \<le> limit \<Longrightarrow> limit \<le> maximum \<Longrightarrow> limit < 2 ^ Suc n \<Longrightarrow> (after_failure maximum ^^ n) limit = 1"
proof (induction n arbitrary: limit)
  case (Suc n)
  have s: "after_failure maximum limit = max 1 (limit div 2)" by (rule after_failure_eq [OF Suc.prems(1,2)])
  have "1 \<le> max 1 (limit div 2)" "max 1 (limit div 2) \<le> maximum" "max 1 (limit div 2) < 2 ^ Suc n"
    using Suc.prems one_less_power [of "2 :: int" "Suc n"] by (auto simp: max_def)
  from Suc.IH [OF this] show ?case by (simp only: funpow_Suc_right o_apply s)
qed simp


text \<open>Full fast batches reach at least what they reach from one.\<close>

definition grown :: "int \<Rightarrow> int" where
  "grown limit = (5 * limit + 3) div 4"

lemma grown_mono: "a \<le> b \<Longrightarrow> grown a \<le> grown b"
  by (simp add: grown_def zdiv_mono1)

lemma grown_increases: "1 \<le> a \<Longrightarrow> a < grown a"
  by (simp add: grown_def)

lemma after_full_batch_within:
  "1 \<le> limit \<Longrightarrow> limit \<le> maximum \<Longrightarrow> 1 \<le> after_full_batch maximum limit \<and> after_full_batch maximum limit \<le> maximum"
  using grown_increases [of limit] by (simp add: after_full_batch_eq grown_def)

lemma after_full_batch_pow:
  "1 \<le> limit \<Longrightarrow> limit \<le> maximum \<Longrightarrow>
     min maximum ((grown ^^ n) 1) \<le> (after_full_batch maximum ^^ n) limit
     \<and> 1 \<le> (after_full_batch maximum ^^ n) limit \<and> (after_full_batch maximum ^^ n) limit \<le> maximum"
proof (induction n)
  case (Suc n)
  let ?l = "(after_full_batch maximum ^^ n) limit"
  let ?g = "(grown ^^ n) 1"
  have ih: "min maximum ?g \<le> ?l" "1 \<le> ?l" "?l \<le> maximum" using Suc.IH [OF Suc.prems] by blast+
  have "min maximum (grown ?g) \<le> min maximum (grown ?l)"
  proof (cases "?g \<le> maximum")
    case True
    then have "?g \<le> ?l" using ih(1) by simp
    from grown_mono [OF this] show ?thesis by (auto simp: min_def)
  next
    case False
    then have "?l = maximum" using ih by simp
    then show ?thesis using grown_increases [of maximum] ih by simp
  qed
  then show ?case using after_full_batch_within [OF ih(2,3)] after_full_batch_eq [OF ih(2,3)]
    by (simp add: grown_def [symmetric])
qed simp

lemma grown_pow_15: "(grown ^^ 15) 1 = 75"
  by (simp add: grown_def numeral_eq_Suc)

text \<open>A worker that keeps failing is down to single jobs after six batches, and one that keeps up is
  back at its maximum after fifteen full, fast batches, from wherever it starts.\<close>

theorem batch_size_backs_off_and_recovers:
  assumes "1 \<le> limit" "limit \<le> ADAPTIVE_MAXIMUM w"
  shows "(after_failure (ADAPTIVE_MAXIMUM w) ^^ 6) limit = 1
     \<and> (after_full_batch (ADAPTIVE_MAXIMUM w) ^^ 15) limit = ADAPTIVE_MAXIMUM w"
proof -
  have "ADAPTIVE_MAXIMUM w \<le> 64"
    by (cases w) (simp_all add: ADAPTIVE_MAXIMUM_def TIMEZONE_ROLLUP_MAX_JOBS_PER_TICK_def)
  then show ?thesis
    using after_failure_pow [OF assms, of 6] after_full_batch_pow [OF assms, of 15] assms grown_pow_15 by simp
qed

lemma batch_size_backs_off_and_recovers_witness:
  "(after_failure 64 ^^ 6) 40 = 1 \<and> (after_full_batch 64 ^^ 15) 40 = 64"
  using batch_size_backs_off_and_recovers [of 40 Usage_15m_v2] by (simp add: ADAPTIVE_MAXIMUM_def)

end
