(* ===== verification/Pricing_Repair.thy ===== *)
theory Pricing_Repair
  imports Rollup_Coordinator Pricing Usage_Pipeline
begin

text \<open>
  \<open>apps/web/lib/pricing-repair.ts\<close>: the single row of \<open>pricing_repair_status\<close>, the requests that
  fill it (the SQL function \<open>enqueue_pricing_repair\<close>, which the storages call when they save an event
  without a price, and \<open>markPricingRepairPending\<close> of \<open>pricing-sync.ts\<close>), the operations of
  \<open>PgPricingRepairRepository\<close>, and one run of the task, \<open>runPricingRepairTaskWith\<close>.

  A timestamp is an instant; \<open>generation::text\<close> is identified with the instant it prints. What the
  task calls in the storage, the schedule and the price history is a record of operations.
\<close>

section \<open>The row\<close>

datatype repair_state = Repair_idle | Repair_pending | Repair_running | Repair_waiting | Repair_failed

text \<open>Instants that the code passes on as ISO text are kept as instants.\<close>

record unresolved_model =
  um_model :: "string option"
  um_events :: int
  um_unpricedEvents :: int
  um_legacyEvents :: int
  um_firstAt :: instant
  um_lastAt :: instant

record repair_row =
  rp_generation :: "instant option"
  rp_state :: repair_state
  rp_targetTo :: "instant option"
  rp_queuedTargetTo :: "instant option"
  rp_processed :: int
  rp_recovered :: int
  rp_reconciled :: int
  rp_repricedLegacy :: int
  rp_remainingUnpriced :: int
  rp_remainingLegacy :: int
  rp_unresolved :: "unresolved_model list"
  rp_lastStarted :: "instant option"
  rp_lastSucceeded :: "instant option"
  rp_lastError :: "string option"
  rp_limit :: int
  rp_load :: load_state
  rp_eligibleSince :: "instant option"
  rp_nextAttempt :: "instant option"
  rp_failures :: nat
  rp_updated :: instant

text \<open>The row the migrations insert.\<close>

definition initial_repair_row :: "instant \<Rightarrow> repair_row" where
  "initial_repair_row t =
     \<lparr>rp_generation = None, rp_state = Repair_idle, rp_targetTo = None, rp_queuedTargetTo = None,
      rp_processed = 0, rp_recovered = 0, rp_reconciled = 0, rp_repricedLegacy = 0,
      rp_remainingUnpriced = 0, rp_remainingLegacy = 0, rp_unresolved = [],
      rp_lastStarted = None, rp_lastSucceeded = None, rp_lastError = None, rp_limit = 100, rp_load = Normal,
      rp_eligibleSince = None, rp_nextAttempt = None, rp_failures = 0, rp_updated = t\<rparr>"

text \<open>\<open>GREATEST\<close> ignores nulls.\<close>

definition greatest :: "instant option \<Rightarrow> instant option \<Rightarrow> instant option" where
  "greatest a b = (case (a, b) of (None, x) \<Rightarrow> x | (x, None) \<Rightarrow> x | (Some x, Some y) \<Rightarrow> Some (max x y))"

section \<open>Requests\<close>

definition enqueue_pricing_repair :: "instant \<Rightarrow> repair_row \<Rightarrow> repair_row" where
  "enqueue_pricing_repair requested_to r =
     (if rp_state r = Repair_idle \<or> rp_generation r = None \<or> rp_targetTo r = None
      then r\<lparr>rp_generation := Some requested_to, rp_state := Repair_pending, rp_targetTo := Some requested_to,
             rp_queuedTargetTo := None, rp_processed := 0, rp_recovered := 0, rp_reconciled := 0,
             rp_repricedLegacy := 0, rp_remainingUnpriced := 0, rp_remainingLegacy := 0, rp_unresolved := [],
             rp_eligibleSince := Some requested_to, rp_nextAttempt := Some requested_to, rp_failures := 0,
             rp_lastError := None, rp_updated := max (rp_updated r) requested_to\<rparr>
      else r\<lparr>rp_queuedTargetTo := greatest (rp_queuedTargetTo r) (Some requested_to),
             rp_updated := max (rp_updated r) requested_to\<rparr>)"

text \<open>\<open>now\<close> is the time of the transaction.\<close>

definition markPricingRepairPending :: "instant \<Rightarrow> instant \<Rightarrow> instant \<Rightarrow> repair_row \<Rightarrow> repair_row" where
  "markPricingRepairPending generation targetTo now r =
     r\<lparr>rp_generation := Some generation, rp_state := Repair_pending, rp_targetTo := Some targetTo,
       rp_processed := 0, rp_recovered := 0, rp_reconciled := 0, rp_repricedLegacy := 0,
       rp_remainingUnpriced := 0, rp_remainingLegacy := 0, rp_unresolved := [],
       rp_eligibleSince := Some now, rp_nextAttempt := Some now, rp_failures := 0,
       rp_lastError := None, rp_updated := now\<rparr>"

section \<open>The repository\<close>

definition STALE_RUNNING_MS :: int where "STALE_RUNNING_MS = 5 * 60 * 1000"
definition WAITING_RETRY_MS :: int where "WAITING_RETRY_MS = 60 * 60 * 1000"
definition PRICING_ROLLUP_RECONCILIATION_LIMIT :: int where "PRICING_ROLLUP_RECONCILIATION_LIMIT = 10000"

definition not_after :: "instant option \<Rightarrow> instant \<Rightarrow> bool" where
  "not_after t now = (case t of None \<Rightarrow> True | Some x \<Rightarrow> x \<le> now)"

text \<open>The condition of the \<open>UPDATE\<close>; a null \<open>last_started_at\<close> compares as unknown.\<close>

definition repair_claimable :: "instant \<Rightarrow> repair_row \<Rightarrow> bool" where
  "repair_claimable at_t r \<longleftrightarrow> rp_generation r \<noteq> None \<and> rp_targetTo r \<noteq> None
     \<and> (rp_state r = Repair_pending
        \<or> (rp_state r \<in> {Repair_failed, Repair_waiting} \<and> not_after (rp_nextAttempt r) at_t)
        \<or> (rp_state r = Repair_running
           \<and> (case rp_lastStarted r of None \<Rightarrow> False | Some s \<Rightarrow> s \<le> at_t - 5 * 60 * 1000)))"

definition repair_claim :: "instant \<Rightarrow> repair_row \<Rightarrow> repair_row option" where
  "repair_claim at_t r =
     (if repair_claimable at_t r
      then Some (r\<lparr>rp_state := Repair_running, rp_targetTo := greatest (rp_targetTo r) (rp_queuedTargetTo r),
                   rp_queuedTargetTo := None, rp_lastStarted := Some at_t,
                   rp_eligibleSince := (case rp_eligibleSince r of None \<Rightarrow> Some at_t | Some e \<Rightarrow> Some e),
                   rp_updated := at_t\<rparr>)
      else None)"

record repair_progress =
  pg_generation :: instant
  pg_state :: repair_state
  pg_processed :: int
  pg_recovered :: int
  pg_reconciled :: int
  pg_repricedLegacy :: int
  pg_remaining :: int
  pg_remainingLegacy :: int
  pg_unresolved :: "unresolved_model list"
  pg_limit :: int
  pg_load :: load_state
  pg_nextAttempt :: "instant option"
  pg_at :: instant

definition repair_markProgress :: "repair_progress \<Rightarrow> repair_row \<Rightarrow> bool \<times> repair_row" where
  "repair_markProgress p r =
     (if rp_generation r \<noteq> Some (pg_generation p) then (False, r)
      else
        let queued = rp_queuedTargetTo r \<noteq> None
        in (True, r\<lparr>
             rp_state := (if queued then Repair_pending else pg_state p),
             rp_targetTo := greatest (rp_targetTo r) (rp_queuedTargetTo r),
             rp_processed := rp_processed r + pg_processed p,
             rp_recovered := rp_recovered r + pg_recovered p,
             rp_reconciled := rp_reconciled r + pg_reconciled p,
             rp_repricedLegacy := rp_repricedLegacy r + pg_repricedLegacy p,
             rp_remainingUnpriced := pg_remaining p,
             rp_remainingLegacy := pg_remainingLegacy p,
             rp_unresolved := pg_unresolved p,
             rp_lastSucceeded := Some (pg_at p),
             rp_lastError := None,
             rp_limit := pg_limit p,
             rp_load := pg_load p,
             rp_eligibleSince := (if queued \<or> pg_state p = Repair_pending
                then (case rp_eligibleSince r of None \<Rightarrow> Some (pg_at p) | Some e \<Rightarrow> Some e) else None),
             rp_nextAttempt := (if queued then Some (pg_at p) else pg_nextAttempt p),
             rp_queuedTargetTo := None,
             rp_failures := 0,
             rp_updated := pg_at p\<rparr>))"

text \<open>The interval is computed in 32-bit integers, as in \<open>rollup-worker-state.ts\<close>.\<close>

definition repair_markFailed :: "instant \<Rightarrow> instant \<Rightarrow> string \<Rightarrow> repair_row \<Rightarrow> pg_error + bool \<times> repair_row" where
  "repair_markFailed generation at_t err r =
     (if rp_generation r \<noteq> Some generation then Inr (False, r)
      else (case backoff_seconds (rp_failures r) of
          Inl e \<Rightarrow> Inl e
        | Inr secs \<Rightarrow> Inr (True, r\<lparr>rp_state := Repair_failed, rp_lastError := Some (sanitizeRollupError err),
             rp_failures := rp_failures r + 1, rp_nextAttempt := Some (at_t + secs * 1000), rp_updated := at_t\<rparr>)))"

section \<open>What the coordinator sees\<close>

definition pricingRepairCandidateFromStatus :: "repair_row \<Rightarrow> instant \<Rightarrow> coordinator_candidate option" where
  "pricingRepairCandidateFromStatus status now =
     (let retryDue = not_after (rp_nextAttempt status) now;
          stalled = (rp_state status = Repair_running
            \<and> (case rp_lastStarted status of None \<Rightarrow> False | Some s \<Rightarrow> STALE_RUNNING_MS \<le> now - s));
          due = (rp_state status = Repair_pending
            \<or> (rp_state status \<in> {Repair_failed, Repair_waiting} \<and> retryDue) \<or> stalled)
      in if \<not> due then None
         else Some \<lparr>cand_task = Task_pricing_repair, cand_due = True,
                cand_eligibleSince = (case rp_eligibleSince status of None \<Rightarrow> Some now | Some e \<Rightarrow> Some e),
                cand_lastStartedAt = rp_lastStarted status, cand_nextAttemptAt = rp_nextAttempt status\<rparr>)"

section \<open>One run\<close>

record repair_diagnostic =
  di_provider :: string
  di_logAdapter :: "string option"
  di_model :: "string option"
  di_events :: int
  di_unpricedEvents :: int
  di_legacyEvents :: int
  di_firstAt :: instant
  di_lastAt :: instant

definition truthy_text :: "string option \<Rightarrow> bool" where
  "truthy_text v \<longleftrightarrow> v \<noteq> None \<and> v \<noteq> Some []"

definition probe_args :: "repair_diagnostic \<Rightarrow> resolve_at_args" where
  "probe_args d =
     \<lparr>a_model = di_model d, a_inputTokens = Fin 0, a_outputTokens = Fin 0, a_cacheReadTokens = Fin 0,
      a_cacheCreationTokens = Fin 0, a_cacheCreation1hTokens = None, a_isFast = False, a_providedCostUsd = None,
      a_mode = Some Calculate, a_occurredAt = di_firstAt d, a_providerKey = Some (di_provider d),
      a_logAdapter = di_logAdapter d\<rparr>"

fun supported_targets :: "repair_diagnostic list \<Rightarrow> pricing_schedule \<Rightarrow> string list \<times> bool \<Rightarrow> string list \<times> bool" where
  "supported_targets [] schedule acc = acc"
| "supported_targets (d # ds) schedule (models, fallback) =
     supported_targets ds schedule
       (if res_status (resolveCostAt (probe_args d) schedule) = Unpriced then (models, fallback)
        else if truthy_text (di_model d)
        then (if the (di_model d) \<in> set models then models else models @ [the (di_model d)], fallback)
        else if di_provider d = ''codex'' \<and> di_logAdapter d = Some ''codex'' then (models, True)
        else (models, fallback))"

definition supportedPricingTargets :: "repair_diagnostic list \<Rightarrow> pricing_schedule \<Rightarrow> string list \<times> bool" where
  "supportedPricingTargets diagnostics schedule = supported_targets diagnostics schedule ([], False)"

text \<open>\<open>Math.ceil(current * 1.25)\<close> of an integer is exact.\<close>

definition nextPricingRepairBatchLimit :: "int \<Rightarrow> int \<Rightarrow> bool \<Rightarrow> int \<times> load_state" where
  "nextPricingRepairBatchLimit current durationMs fullBatch =
     (if 10000 \<le> durationMs then (max 25 (current div 2), Throttled)
      else if fullBatch \<and> durationMs \<le> 2000 then (min 500 (max 25 ((5 * current + 3) div 4)), Normal)
      else (min 500 (max 25 current), Normal))"

definition unresolvedModels :: "repair_diagnostic list \<Rightarrow> unresolved_model list" where
  "unresolvedModels = map (\<lambda>d. \<lparr>um_model = di_model d, um_events = di_events d, um_unpricedEvents = di_unpricedEvents d,
     um_legacyEvents = di_legacyEvents d, um_firstAt = di_firstAt d, um_lastAt = di_lastAt d\<rparr>)"

record historical_diagnostic =
  hd_model :: "string option"
  hd_events :: int
  hd_firstAt :: instant
  hd_lastAt :: instant

definition completedHistoricalDiagnostics :: "repair_diagnostic list \<Rightarrow> instant \<Rightarrow> historical_diagnostic list" where
  "completedHistoricalDiagnostics diagnostics todayStart =
     map (\<lambda>d. \<lparr>hd_model = di_model d, hd_events = di_events d, hd_firstAt = di_firstAt d,
            hd_lastAt = (if di_lastAt d < todayStart then di_lastAt d else todayStart - 1)\<rparr>)
       (filter (\<lambda>d. \<not> todayStart \<le> di_firstAt d) diagnostics)"

datatype history_step =
  History_listing instant | History_fetching instant | History_waiting_source instant
| History_promoted int | History_no_evidence instant

record replay_result =
  rs_scanned :: int
  rs_reconciled :: int
  rs_remainingUnpriced :: int
  rs_hasMore :: bool

record repair_result =
  rb_scanned :: int
  rb_recovered :: int
  rb_repricedLegacy :: int
  rb_hasMore :: bool

type_synonym repair_resolver = "resolve_at_args \<Rightarrow> (jsnum \<times> string \<times> cost_status) option"

definition schedule_resolver :: "pricing_schedule \<Rightarrow> repair_resolver" where
  "schedule_resolver schedule event =
     (let resolved = resolveCostAt (event\<lparr>a_mode := Some Calculate\<rparr>) schedule
      in if res_status resolved \<noteq> Unpriced \<and> truthy_text (res_pricingRevisionId resolved)
         then Some (res_costUsd resolved, the (res_pricingRevisionId resolved), res_status resolved) else None)"

record 'w repair_deps =
  rd_now :: "('w, exn, instant) io"
  rd_claim :: "instant \<Rightarrow> ('w, exn, repair_row option) io"
  rd_markProgress :: "repair_progress \<Rightarrow> ('w, exn, bool) io"
  rd_markFailed :: "instant \<Rightarrow> instant \<Rightarrow> string \<Rightarrow> ('w, exn, bool) io"
  rd_withCacheChange :: "(('w, exn, replay_result) io \<Rightarrow> ('w, exn, replay_result) io) option"
  rd_reconcileReplay :: "instant \<Rightarrow> instant \<Rightarrow> int \<Rightarrow> ('w, exn, replay_result) io"
  rd_getSchedule :: "('w, exn, pricing_schedule) io"
  rd_revisionIds :: "('w, exn, string list) io option"
  rd_recoveryModels :: "instant \<Rightarrow> instant \<Rightarrow> string list \<Rightarrow> ('w, exn, repair_diagnostic list) io"
  rd_repairUsage :: "repair_request \<Rightarrow> repair_resolver \<Rightarrow> ('w, exn, repair_result) io"
  rd_reconcileRollup :: "(instant \<Rightarrow> instant \<Rightarrow> int \<Rightarrow> ('w, exn, bool) io) option"
  rd_history :: "(historical_diagnostic list \<Rightarrow> ('w, exn, history_step) io) option"
  rd_invalidate :: "('w, exn, unit) io option"
  rd_todayStart :: "instant \<Rightarrow> exn + instant"

definition catchE :: "('w, 'e, 'a) io \<Rightarrow> ('e \<Rightarrow> ('w, 'f, 'a) io) \<Rightarrow> ('w, 'f, 'a) io" where
  "catchE m handler w = (case m w of (w', Inl e) \<Rightarrow> handler e w' | (w', Inr a) \<Rightarrow> (w', Inr a))"

definition liftE :: "'e + 'a \<Rightarrow> ('w, 'e, 'a) io" where
  "liftE x w = (w, x)"

definition sum_of :: "('a \<Rightarrow> int) \<Rightarrow> 'a list \<Rightarrow> int" where
  "sum_of f xs = foldl (\<lambda>s x. s + f x) 0 xs"

text \<open>What is left after the batch: the diagnostics that stay open, and the counts.\<close>

definition remaining_supported :: "repair_result \<Rightarrow> bool" where
  "remaining_supported b \<longleftrightarrow> rb_hasMore b \<or> rb_recovered b + rb_repricedLegacy b < rb_scanned b"

definition remaining_total :: "repair_diagnostic list \<Rightarrow> repair_result \<Rightarrow> int" where
  "remaining_total diagnostics b = max 0 (sum_of di_events diagnostics - rb_recovered b - rb_repricedLegacy b)"

definition remaining_diagnostics :: "repair_diagnostic list \<Rightarrow> string list \<times> bool \<Rightarrow> repair_result \<Rightarrow> repair_diagnostic list" where
  "remaining_diagnostics diagnostics targets b =
     (if \<not> rb_hasMore b \<and> rb_scanned b = rb_recovered b + rb_repricedLegacy b
      then filter (\<lambda>d. if truthy_text (di_model d) then the (di_model d) \<notin> set (fst targets)
                       else \<not> (snd targets \<and> di_provider d = ''codex'' \<and> di_logAdapter d = Some ''codex'')) diagnostics
      else diagnostics)"

definition history_verdict :: "instant \<Rightarrow> history_step \<Rightarrow> repair_state \<times> instant option" where
  "history_verdict at_t step =
     (case step of
        History_promoted n \<Rightarrow> (Repair_pending, Some at_t)
      | History_listing t \<Rightarrow> (Repair_pending, Some t)
      | History_fetching t \<Rightarrow> (Repair_pending, Some t)
      | History_waiting_source t \<Rightarrow> (Repair_pending, Some t)
      | History_no_evidence t \<Rightarrow> (Repair_waiting, Some t))"

definition applied_outcome :: "bool \<Rightarrow> scheduler_outcome" where
  "applied_outcome applied = (if applied then Out_success else Out_superseded)"

text \<open>The first part of the \<open>try\<close> block: a batch of Codex replays.\<close>

definition replay_progress :: "instant \<Rightarrow> repair_row \<Rightarrow> instant \<Rightarrow> replay_result \<Rightarrow> instant \<Rightarrow> repair_progress" where
  "replay_progress startedAt claimed g replay at_t =
     (let (limit, load) = nextPricingRepairBatchLimit (rp_limit claimed) (at_t - startedAt)
            (rs_hasMore replay \<or> rp_limit claimed \<le> rs_scanned replay)
      in \<lparr>pg_generation = g, pg_state = Repair_pending, pg_processed = rs_scanned replay, pg_recovered = 0,
          pg_reconciled = rs_reconciled replay, pg_repricedLegacy = 0, pg_remaining = rs_remainingUnpriced replay,
          pg_remainingLegacy = rp_remainingLegacy claimed, pg_unresolved = rp_unresolved claimed,
          pg_limit = limit, pg_load = load, pg_nextAttempt = Some at_t, pg_at = at_t\<rparr>)"

definition no_repair :: repair_result where
  "no_repair = \<lparr>rb_scanned = 0, rb_recovered = 0, rb_repricedLegacy = 0, rb_hasMore = False\<rparr>"

definition try_ignore :: "('w, exn, unit) io option \<Rightarrow> ('w, exn, unit) io" where
  "try_ignore m = (case m of None \<Rightarrow> returnE () | Some f \<Rightarrow> catchE f (\<lambda>e. returnE ()))"

definition batch_progress ::
  "instant \<Rightarrow> repair_row \<Rightarrow> instant \<Rightarrow> replay_result \<Rightarrow> repair_diagnostic list \<Rightarrow> repair_diagnostic list \<Rightarrow>
     repair_result \<Rightarrow> repair_state \<times> instant option \<Rightarrow> instant \<Rightarrow> repair_progress" where
  "batch_progress startedAt claimed g replay diagnostics open_diagnostics b verdict at_t =
     (let (limit, load) = nextPricingRepairBatchLimit (rp_limit claimed) (at_t - startedAt) (rp_limit claimed \<le> rb_scanned b)
      in \<lparr>pg_generation = g, pg_state = fst verdict, pg_processed = rs_scanned replay + rb_scanned b,
          pg_recovered = rb_recovered b, pg_reconciled = rs_reconciled replay, pg_repricedLegacy = rb_repricedLegacy b,
          pg_remaining = max 0 (sum_of di_unpricedEvents diagnostics - rb_recovered b),
          pg_remainingLegacy = max 0 (sum_of di_legacyEvents diagnostics - rb_repricedLegacy b),
          pg_unresolved = unresolvedModels open_diagnostics, pg_limit = limit, pg_load = load,
          pg_nextAttempt = snd verdict, pg_at = at_t\<rparr>)"

definition first_verdict :: "bool \<Rightarrow> int \<Rightarrow> instant \<Rightarrow> repair_state \<times> instant option" where
  "first_verdict unfinished remainingTotal at_t =
     (if unfinished then (Repair_pending, Some at_t)
      else if remainingTotal = 0 then (Repair_idle, None)
      else (Repair_waiting, Some (at_t + WAITING_RETRY_MS)))"

definition repair_body ::
  "'w repair_deps \<Rightarrow> instant \<Rightarrow> repair_row \<Rightarrow> instant \<Rightarrow> instant \<Rightarrow> ('w, exn, scheduler_outcome) io" where
  "repair_body deps startedAt claimed g targetTo =
     (let replayOperation = rd_reconcileReplay deps 0 targetTo (rp_limit claimed) in
      bindE (case rd_withCacheChange deps of None \<Rightarrow> replayOperation | Some wrap \<Rightarrow> wrap replayOperation) (\<lambda>replay.
      if 0 < rs_scanned replay
      then bindE (rd_now deps) (\<lambda>at_t.
           bindE (rd_markProgress deps (replay_progress startedAt claimed g replay at_t)) (\<lambda>applied.
           returnE (applied_outcome applied)))
      else
        bindE (rd_getSchedule deps) (\<lambda>schedule.
        bindE (case rd_revisionIds deps of None \<Rightarrow> returnE [] | Some f \<Rightarrow> f) (\<lambda>replaceRevisionIds.
        bindE (rd_recoveryModels deps 0 targetTo replaceRevisionIds) (\<lambda>diagnostics.
        let targets = supportedPricingTargets diagnostics schedule in
        bindE (if fst targets \<noteq> [] \<or> snd targets
               then rd_repairUsage deps \<lparr>rq_generation = int_to_string g, rq_from = 0, rq_to = targetTo, rq_models = fst targets,
                      rq_codexFallback = snd targets, rq_replaceRevisions = replaceRevisionIds, rq_limit = rp_limit claimed\<rparr>
                      (schedule_resolver schedule)
               else returnE no_repair) (\<lambda>b.
        let remainingTotal = remaining_total diagnostics b;
            remainingSupported = remaining_supported b;
            remainingDiagnostics = remaining_diagnostics diagnostics targets b in
        bindE (if \<not> rb_hasMore b \<and> \<not> remainingSupported \<and> remainingTotal = 0
               then (case rd_reconcileRollup deps of None \<Rightarrow> returnE False
                     | Some f \<Rightarrow> f 0 targetTo PRICING_ROLLUP_RECONCILIATION_LIMIT)
               else returnE False) (\<lambda>rollupMore.
        bindE (rd_now deps) (\<lambda>at_t.
        let verdict = first_verdict (rb_hasMore b \<or> remainingSupported \<or> rollupMore) remainingTotal at_t in
        bindE (liftE (rd_todayStart deps at_t)) (\<lambda>todayStart.
        let historical = completedHistoricalDiagnostics remainingDiagnostics todayStart in
        bindE (if \<not> rb_hasMore b \<and> \<not> remainingSupported \<and> 0 < remainingTotal \<and> historical \<noteq> [] \<and> rd_history deps \<noteq> None
               then bindE (the (rd_history deps) historical) (\<lambda>h. returnE (history_verdict at_t h))
               else returnE verdict) (\<lambda>verdict.
        bindE (rd_markProgress deps (batch_progress startedAt claimed g replay diagnostics remainingDiagnostics b verdict at_t)) (\<lambda>applied.
        bindE (if applied \<and> (fst verdict = Repair_idle \<or> fst verdict = Repair_waiting)
               then try_ignore (rd_invalidate deps) else returnE ()) (\<lambda>u.
        returnE (applied_outcome applied)))))))))))))"

definition runPricingRepairTaskWith :: "'w repair_deps \<Rightarrow> ('w, exn, scheduler_outcome) io" where
  "runPricingRepairTaskWith deps =
     bindE (rd_now deps) (\<lambda>startedAt.
     bindE (rd_claim deps startedAt) (\<lambda>claimed.
     case claimed of
       None \<Rightarrow> returnE Out_superseded
     | Some row \<Rightarrow>
        (case (rp_generation row, rp_targetTo row) of
           (Some g, Some targetTo) \<Rightarrow>
             catchE (repair_body deps startedAt row g targetTo) (\<lambda>e.
               bindE (rd_now deps) (\<lambda>at_t.
               bindE (rd_markFailed deps g at_t e) (\<lambda>applied.
               returnE (if applied then Out_failed else Out_superseded))))
         | _ \<Rightarrow> returnE Out_superseded)))"


section \<open>The production task\<close>

text \<open>
  \<open>runPricingRepairTask\<close> with a given \<open>now\<close>: the repository is the row, the other services act on the
  rest of the process. \<open>sv_reconcileReplay\<close> includes the wrapper \<open>withAllUtilizationCacheChange\<close>. The
  step of the price history may end a job with \<open>promote\<close>, which rewrites the row: the service says with
  its result, be it a value or an exception thrown later in the step, the time of the promotion it
  committed, if it committed one.
\<close>

record 'x repair_services =
  sv_reconcileReplay :: "instant \<Rightarrow> instant \<Rightarrow> int \<Rightarrow> ('x, exn, replay_result) io"
  sv_getSchedule :: "('x, exn, pricing_schedule) io"
  sv_revisionIds :: "('x, exn, string list) io"
  sv_recoveryModels :: "instant \<Rightarrow> instant \<Rightarrow> string list \<Rightarrow> ('x, exn, repair_diagnostic list) io"
  sv_repairUsage :: "repair_request \<Rightarrow> repair_resolver \<Rightarrow> ('x, exn, repair_result) io"
  sv_reconcileRollup :: "(instant \<Rightarrow> instant \<Rightarrow> int \<Rightarrow> ('x, exn, bool) io) option"
  sv_history :: "historical_diagnostic list \<Rightarrow> 'x \<Rightarrow> 'x \<times> instant option \<times> (exn + history_step)"
  sv_revalidateTag :: "('x, exn, unit) io"
  sv_todayStart :: "instant \<Rightarrow> exn + instant"

definition on_service :: "('x, exn, 'a) io \<Rightarrow> (repair_row \<times> 'x, exn, 'a) io" where
  "on_service m w = (let (x, r) = m (snd w) in ((fst w, x), r))"

text \<open>The \<open>UPDATE pricing_repair_status\<close> of \<open>promote\<close>, where evidence was found.\<close>

definition promoted_row :: "instant \<Rightarrow> repair_row \<Rightarrow> repair_row" where
  "promoted_row at_t r =
     r\<lparr>rp_generation := Some at_t, rp_state := Repair_pending, rp_targetTo := Some at_t,
       rp_processed := 0, rp_recovered := 0, rp_reconciled := 0, rp_repricedLegacy := 0,
       rp_remainingUnpriced := 0, rp_remainingLegacy := 0, rp_unresolved := [],
       rp_eligibleSince := Some at_t, rp_nextAttempt := Some at_t, rp_failures := 0,
       rp_lastError := None, rp_updated := at_t\<rparr>"

definition on_history :: "('x \<Rightarrow> 'x \<times> instant option \<times> (exn + 'a)) \<Rightarrow> (repair_row \<times> 'x, exn, 'a) io" where
  "on_history m w =
     (let (x, promoted, res) = m (snd w)
      in ((case promoted of None \<Rightarrow> fst w | Some at_t \<Rightarrow> promoted_row at_t (fst w), x), res))"

definition pg_error_text :: "pg_error \<Rightarrow> exn" where
  "pg_error_text e = (case e of Row_not_found \<Rightarrow> ''row not found'' | Integer_out_of_range \<Rightarrow> ''integer out of range'')"

definition productionRepair :: "instant \<Rightarrow> 'x repair_services \<Rightarrow> (repair_row \<times> 'x) repair_deps" where
  "productionRepair now sv =
     \<lparr>rd_now = returnE now,
      rd_claim = (\<lambda>at_t w. case repair_claim at_t (fst w) of
          None \<Rightarrow> (w, Inr None) | Some r \<Rightarrow> ((r, snd w), Inr (Some r))),
      rd_markProgress = (\<lambda>p w. let (applied, r) = repair_markProgress p (fst w) in ((r, snd w), Inr applied)),
      rd_markFailed = (\<lambda>g at_t err w. case repair_markFailed g at_t err (fst w) of
          Inl e \<Rightarrow> (w, Inl (pg_error_text e)) | Inr (applied, r) \<Rightarrow> ((r, snd w), Inr applied)),
      rd_withCacheChange = None,
      rd_reconcileReplay = (\<lambda>f t l. on_service (sv_reconcileReplay sv f t l)),
      rd_getSchedule = on_service (sv_getSchedule sv),
      rd_revisionIds = Some (on_service (sv_revisionIds sv)),
      rd_recoveryModels = (\<lambda>f t ids. on_service (sv_recoveryModels sv f t ids)),
      rd_repairUsage = (\<lambda>q resolver. on_service (sv_repairUsage sv q resolver)),
      rd_reconcileRollup = map_option (\<lambda>g f t l. on_service (g f t l)) (sv_reconcileRollup sv),
      rd_history = Some (\<lambda>ds. on_history (sv_history sv ds)),
      rd_invalidate = Some (on_service (sv_revalidateTag sv)),
      rd_todayStart = sv_todayStart sv\<rparr>"

definition runPricingRepairTask :: "instant \<Rightarrow> 'x repair_services \<Rightarrow> (repair_row \<times> 'x, exn, scheduler_outcome) io" where
  "runPricingRepairTask now sv = runPricingRepairTaskWith (productionRepair now sv)"

section \<open>Requests and runs interleaved\<close>

text \<open>
  Requests, resets and runs of the task as steps on the row, at the moment the row is written. The
  time in a step is what its process read from a clock before: a request waits for the row with its
  time in hand, a reset is the end of a transaction that took its time at the start (\<open>observedAt\<close> of
  \<open>runPricingSyncTransaction\<close>, read before the revisions are inserted, or \<open>at\<close> of \<open>promote\<close>). So any
  other step may come between the clock and the write, and no order of the times is assumed. A run
  is what its claim returned; \<open>rn_serving\<close> and \<open>rw_unserved\<close> are bookkeeping of the specification: the
  requests made before the claim, and the requests no run has served. A request is served when a run
  that claimed after it reports that nothing is left.
\<close>

record repair_runner =
  rn_row :: repair_row
  rn_serving :: "instant list"

record repair_world =
  rw_row :: repair_row
  rw_runners :: "repair_runner list"
  rw_unserved :: "instant list"

datatype repair_event =
  Ev_request instant | Ev_reset instant instant | Ev_claim instant
| Ev_report nat repair_progress | Ev_fail nat instant string | Ev_die nat

definition without_runner :: "nat \<Rightarrow> repair_world \<Rightarrow> repair_world" where
  "without_runner i w = w\<lparr>rw_runners := take i (rw_runners w) @ drop (Suc i) (rw_runners w)\<rparr>"

fun repair_step :: "repair_event \<Rightarrow> repair_world \<Rightarrow> repair_world option" where
  "repair_step (Ev_request t) w =
     Some (w\<lparr>rw_row := enqueue_pricing_repair t (rw_row w), rw_unserved := t # rw_unserved w\<rparr>)"
| "repair_step (Ev_reset observedAt now) w =
     Some (w\<lparr>rw_row := markPricingRepairPending observedAt observedAt now (rw_row w), rw_unserved := observedAt # rw_unserved w\<rparr>)"
| "repair_step (Ev_claim t) w =
     map_option (\<lambda>r. w\<lparr>rw_row := r, rw_runners := rw_runners w @ [\<lparr>rn_row = r, rn_serving = rw_unserved w\<rparr>]\<rparr>)
       (repair_claim t (rw_row w))"
| "repair_step (Ev_report i p) w =
     (if length (rw_runners w) \<le> i \<or> rp_generation (rn_row (rw_runners w ! i)) \<noteq> Some (pg_generation p)
         \<or> pg_state p \<notin> {Repair_idle, Repair_pending, Repair_waiting} then None
      else
        let (applied, r) = repair_markProgress p (rw_row w);
            serving = rn_serving (rw_runners w ! i)
        in Some (without_runner i (w\<lparr>rw_row := r,
             rw_unserved := (if applied \<and> pg_state p = Repair_idle
                then filter (\<lambda>t. t \<notin> set serving) (rw_unserved w) else rw_unserved w)\<rparr>)))"
| "repair_step (Ev_fail i t err) w =
     (if length (rw_runners w) \<le> i then None
      else Some (without_runner i (w\<lparr>rw_row :=
        (case rp_generation (rn_row (rw_runners w ! i)) of None \<Rightarrow> rw_row w
         | Some g \<Rightarrow> (case repair_markFailed g t err (rw_row w) of Inl e \<Rightarrow> rw_row w | Inr (applied, r) \<Rightarrow> r))\<rparr>)))"
| "repair_step (Ev_die i) w =
     (if length (rw_runners w) \<le> i then None else Some (without_runner i w))"

text \<open>
  The load slot keeps runs apart: a claim while another run is alive is not calm. A new generation is
  not the one of a run that is alive. A reset is calm if the target of the row is not past its time,
  for it overwrites the target (not the queued one).
\<close>

definition fresh_generation :: "instant \<Rightarrow> repair_world \<Rightarrow> bool" where
  "fresh_generation g w \<longleftrightarrow> (\<forall>n \<in> set (rw_runners w). rp_generation (rn_row n) \<noteq> Some g)"

definition not_beyond :: "instant \<Rightarrow> instant option \<Rightarrow> bool" where
  "not_beyond c x = (case x of None \<Rightarrow> True | Some t \<Rightarrow> t \<le> c)"

fun repair_calm :: "repair_event \<Rightarrow> repair_world \<Rightarrow> bool" where
  "repair_calm (Ev_request t) w = fresh_generation t w"
| "repair_calm (Ev_reset observedAt now) w = (fresh_generation observedAt w \<and> not_beyond observedAt (rp_targetTo (rw_row w)))"
| "repair_calm (Ev_claim t) w = (rw_runners w = [])"
| "repair_calm _ w = True"

definition repair_start :: "instant \<Rightarrow> repair_world" where
  "repair_start t = \<lparr>rw_row = initial_repair_row t, rw_runners = [], rw_unserved = []\<rparr>"

inductive repair_reachable :: "repair_world \<Rightarrow> bool" where
  repair_init: "repair_reachable (repair_start t)"
| repair_next: "repair_reachable w \<Longrightarrow> repair_calm e w \<Longrightarrow> repair_step e w = Some w' \<Longrightarrow> repair_reachable w'"

fun repair_run :: "repair_event list \<Rightarrow> repair_world \<Rightarrow> repair_world option" where
  "repair_run [] w = Some w"
| "repair_run (e # es) w = (case repair_step e w of None \<Rightarrow> None | Some w' \<Rightarrow> repair_run es w')"


section \<open>No request is lost\<close>

definition covered_request :: "repair_row \<Rightarrow> instant \<Rightarrow> bool" where
  "covered_request r t = (case greatest (rp_targetTo r) (rp_queuedTargetTo r) of None \<Rightarrow> False | Some T \<Rightarrow> t \<le> T)"

definition queued_request :: "repair_row \<Rightarrow> instant \<Rightarrow> bool" where
  "queued_request r t = (case rp_queuedTargetTo r of None \<Rightarrow> False | Some q \<Rightarrow> t \<le> q)"

definition repair_row_inv :: "repair_row \<Rightarrow> bool" where
  "repair_row_inv r \<longleftrightarrow>
     (rp_state r \<noteq> Repair_idle \<longrightarrow> rp_generation r \<noteq> None \<and> rp_targetTo r \<noteq> None)
     \<and> (rp_state r = Repair_running \<longrightarrow> rp_lastStarted r \<noteq> None)"

definition runner_inv :: "repair_world \<Rightarrow> repair_runner \<Rightarrow> bool" where
  "runner_inv w n \<longleftrightarrow>
     rp_generation (rn_row n) \<noteq> None
     \<and> (rp_generation (rw_row w) = rp_generation (rn_row n) \<longrightarrow> rp_state (rw_row w) = Repair_running
        \<and> (\<forall>t \<in> set (rw_unserved w). t \<in> set (rn_serving n) \<or> queued_request (rw_row w) t))"

definition repair_inv :: "repair_world \<Rightarrow> bool" where
  "repair_inv w \<longleftrightarrow> repair_row_inv (rw_row w)
     \<and> (rp_state (rw_row w) = Repair_idle \<longrightarrow> rw_unserved w = [])
     \<and> (\<forall>t \<in> set (rw_unserved w). covered_request (rw_row w) t)
     \<and> (\<forall>n \<in> set (rw_runners w). runner_inv w n) \<and> length (rw_runners w) \<le> 1"

lemma repair_invI:
  assumes "repair_row_inv (rw_row w)"
    and "rp_state (rw_row w) = Repair_idle \<Longrightarrow> rw_unserved w = []"
    and "\<And>t. t \<in> set (rw_unserved w) \<Longrightarrow> covered_request (rw_row w) t"
    and "\<And>n. n \<in> set (rw_runners w) \<Longrightarrow> runner_inv w n" "length (rw_runners w) \<le> 1"
  shows "repair_inv w"
  using assms by (simp add: repair_inv_def)

lemma repair_invD:
  assumes "repair_inv w"
  shows "repair_row_inv (rw_row w)" "rp_state (rw_row w) = Repair_idle \<Longrightarrow> rw_unserved w = []"
    "t \<in> set (rw_unserved w) \<Longrightarrow> covered_request (rw_row w) t"
    "n \<in> set (rw_runners w) \<Longrightarrow> runner_inv w n" "length (rw_runners w) \<le> 1"
  using assms by (simp_all add: repair_inv_def)

lemma repair_inv_start: "repair_inv (repair_start t)"
  by (simp add: repair_inv_def repair_row_inv_def repair_start_def initial_repair_row_def)

lemma not_beyond_simps [simp]: "not_beyond c None" "not_beyond c (Some t) \<longleftrightarrow> t \<le> c"
  by (simp_all add: not_beyond_def)

lemma greatest_None [simp]: "greatest x None = x" "greatest None x = x"
  by (cases x; simp add: greatest_def)+

lemma greatest_eq_None [simp]: "greatest x y = None \<longleftrightarrow> x = None \<and> y = None"
  by (cases x; cases y) (auto simp: greatest_def)

lemma greatest_Some [simp]: "greatest (Some a) (Some b) = Some (max a b)"
  by (simp add: greatest_def)

subsection \<open>Requests and resets\<close>

text \<open>A new generation outdates every run.\<close>

lemma runner_inv_new_generation:
  assumes "runner_inv w n" "fresh_generation g w" "n \<in> set (rw_runners w)" "rp_generation (rw_row w') = Some g"
  shows "runner_inv w' n"
  using assms by (auto simp: runner_inv_def fresh_generation_def)

lemma repair_inv_request:
  assumes inv: "repair_inv w" and calm: "fresh_generation t w" and s: "repair_step (Ev_request t) w = Some w'"
  shows "repair_inv w'"
proof -
  let ?r = "rw_row w"
  have w': "w' = w\<lparr>rw_row := enqueue_pricing_repair t ?r, rw_unserved := t # rw_unserved w\<rparr>" using s by simp
  have row: "repair_row_inv ?r" by (rule repair_invD(1) [OF inv])
  show ?thesis
  proof (cases "rp_state ?r = Repair_idle")
    case True
    have e: "enqueue_pricing_repair t ?r = ?r\<lparr>rp_generation := Some t, rp_state := Repair_pending, rp_targetTo := Some t,
             rp_queuedTargetTo := None, rp_processed := 0, rp_recovered := 0, rp_reconciled := 0,
             rp_repricedLegacy := 0, rp_remainingUnpriced := 0, rp_remainingLegacy := 0, rp_unresolved := [],
             rp_eligibleSince := Some t, rp_nextAttempt := Some t, rp_failures := 0,
             rp_lastError := None, rp_updated := max (rp_updated ?r) t\<rparr>"
      using True by (simp add: enqueue_pricing_repair_def)
    show ?thesis
    proof (rule repair_invI)
      show "runner_inv w' n" if "n \<in> set (rw_runners w')" for n
        by (rule runner_inv_new_generation [OF repair_invD(4) [OF inv] calm]) (use that in \<open>simp_all add: w' e\<close>)
    qed (use True repair_invD(2,5) [OF inv] in \<open>auto simp: w' e repair_row_inv_def covered_request_def\<close>)
  next
    case False
    have gt: "rp_generation ?r \<noteq> None" "rp_targetTo ?r \<noteq> None" using row False by (auto simp: repair_row_inv_def)
    have idle: "\<not> (rp_state ?r = Repair_idle \<or> rp_generation ?r = None \<or> rp_targetTo ?r = None)" using False gt by blast
    have e: "enqueue_pricing_repair t ?r = ?r\<lparr>rp_queuedTargetTo := greatest (rp_queuedTargetTo ?r) (Some t), rp_updated := max (rp_updated ?r) t\<rparr>"
      unfolding enqueue_pricing_repair_def if_not_P [OF idle] ..
    have row': "repair_row_inv (rw_row w')" using row unfolding w' e by (simp add: repair_row_inv_def)
    have cov: "covered_request (rw_row w') u" if "u = t \<or> covered_request ?r u" for u
      using gt that unfolding w' e covered_request_def
      by (cases "rp_targetTo ?r"; cases "rp_queuedTargetTo ?r") auto
    have queue: "queued_request (rw_row w') u" if "u = t \<or> queued_request ?r u" for u
      using that unfolding w' e queued_request_def by (cases "rp_queuedTargetTo ?r") auto
    have run: "runner_inv w' n" if "n \<in> set (rw_runners w)" for n
      using repair_invD(4) [OF inv that] queue unfolding runner_inv_def by (auto simp: w' e)
    show ?thesis
      by (rule repair_invI) (use row' cov run repair_invD(3,5) [OF inv] False in \<open>auto simp: w' e\<close>)
  qed
qed

text \<open>A promotion is a reset.\<close>

lemma promoted_row_reset: "promoted_row at_t r = markPricingRepairPending at_t at_t at_t r"
  by (simp add: promoted_row_def markPricingRepairPending_def)

lemma repair_inv_reset:
  assumes inv: "repair_inv w" and fresh: "fresh_generation observedAt w" and late: "not_beyond observedAt (rp_targetTo (rw_row w))"
    and s: "repair_step (Ev_reset observedAt now) w = Some w'"
  shows "repair_inv w'"
proof -
  let ?r = "rw_row w"
  have w': "w' = w\<lparr>rw_row := markPricingRepairPending observedAt observedAt now ?r, rw_unserved := observedAt # rw_unserved w\<rparr>"
    using s by simp
  have cov: "covered_request (rw_row w') u" if "u = observedAt \<or> covered_request ?r u" for u
    using late that unfolding w' covered_request_def
    by (cases "rp_targetTo ?r"; cases "rp_queuedTargetTo ?r") (auto simp: markPricingRepairPending_def)
  show ?thesis
  proof (rule repair_invI)
    show "runner_inv w' n" if "n \<in> set (rw_runners w')" for n
      by (rule runner_inv_new_generation [OF repair_invD(4) [OF inv] fresh])
         (use that in \<open>simp_all add: w' markPricingRepairPending_def\<close>)
    show "covered_request (rw_row w') u" if "u \<in> set (rw_unserved w')" for u
      using that cov repair_invD(3) [OF inv] by (auto simp: w')
  qed (use repair_invD(5) [OF inv] in \<open>auto simp: w' markPricingRepairPending_def repair_row_inv_def\<close>)
qed

subsection \<open>Runs\<close>

lemma repair_inv_claim:
  assumes inv: "repair_inv w" and calm: "rw_runners w = []" and s: "repair_step (Ev_claim t) w = Some w'"
  shows "repair_inv w'"
proof -
  let ?r = "rw_row w"
  obtain r where r: "repair_claim t ?r = Some r"
    and w': "w' = w\<lparr>rw_row := r, rw_runners := [\<lparr>rn_row = r, rn_serving = rw_unserved w\<rparr>]\<rparr>"
    using s calm by auto
  have cl: "repair_claimable t ?r" using r by (simp add: repair_claim_def split: if_splits)
  have e: "rp_generation r = rp_generation ?r" "rp_state r = Repair_running" "rp_queuedTargetTo r = None"
    "rp_targetTo r = greatest (rp_targetTo ?r) (rp_queuedTargetTo ?r)" "rp_lastStarted r = Some t"
    using r cl by (auto simp: repair_claim_def)
  have gt: "rp_generation ?r \<noteq> None" "rp_targetTo ?r \<noteq> None" using cl by (auto simp: repair_claimable_def)
  show ?thesis
  proof (rule repair_invI)
    show "repair_row_inv (rw_row w')" using gt unfolding w' repair_row_inv_def by (simp add: e)
    show "runner_inv w' n" if "n \<in> set (rw_runners w')" for n using that gt by (simp add: w' runner_inv_def e)
    show "covered_request (rw_row w') u" if "u \<in> set (rw_unserved w')" for u
      using that repair_invD(3) [OF inv] by (simp add: w' covered_request_def e)
  qed (simp_all add: w' e)
qed

lemma without_one: "length xs \<le> 1 \<Longrightarrow> i < length xs \<Longrightarrow> take i xs @ drop (Suc i) xs = []"
  by (cases xs) auto

lemma repair_inv_report:
  assumes inv: "repair_inv w" and s: "repair_step (Ev_report i p) w = Some w'"
  shows "repair_inv w'"
proof -
  let ?r = "rw_row w" and ?n = "rw_runners w ! i"
  obtain applied r where m: "repair_markProgress p ?r = (applied, r)" by fastforce
  have i: "i < length (rw_runners w)" and g: "rp_generation (rn_row ?n) = Some (pg_generation p)"
    and st: "pg_state p \<in> {Repair_idle, Repair_pending, Repair_waiting}"
    and w': "w' = without_runner i (w\<lparr>rw_row := r, rw_unserved :=
        (if applied \<and> pg_state p = Repair_idle then filter (\<lambda>t. t \<notin> set (rn_serving ?n)) (rw_unserved w) else rw_unserved w)\<rparr>)"
    using s m by (auto simp: Let_def split: if_splits)
  have rn: "runner_inv w ?n" by (rule repair_invD(4) [OF inv nth_mem [OF i]])
  have row: "repair_row_inv ?r" by (rule repair_invD(1) [OF inv])
  have none: "rw_runners w' = []" using without_one [OF repair_invD(5) [OF inv] i] by (simp add: w' without_runner_def)
  have row': "rw_row w' = r" by (simp add: w' without_runner_def)
  show ?thesis
  proof (cases "rp_generation ?r = Some (pg_generation p)")
    case False
    then have "applied = False" "r = ?r" using m by (auto simp: repair_markProgress_def)
    then have un: "rw_unserved w' = rw_unserved w" and r: "rw_row w' = ?r" by (simp_all add: w' without_runner_def)
    show ?thesis by (rule repair_invI) (use repair_invD(2,3) [OF inv] row none in \<open>simp_all add: un r\<close>)
  next
    case True
    have ap: "applied" and e: "rp_generation r = rp_generation ?r" "rp_lastStarted r = rp_lastStarted ?r"
      "rp_state r = (if rp_queuedTargetTo ?r \<noteq> None then Repair_pending else pg_state p)" "rp_queuedTargetTo r = None"
      "rp_targetTo r = greatest (rp_targetTo ?r) (rp_queuedTargetTo ?r)"
      using m True by (auto simp: repair_markProgress_def Let_def)
    have run: "rp_state ?r = Repair_running"
      and req: "\<And>t. t \<in> set (rw_unserved w) \<Longrightarrow> t \<in> set (rn_serving ?n) \<or> queued_request ?r t"
      using rn True g by (simp_all add: runner_inv_def)
    have gt: "rp_generation ?r \<noteq> None" "rp_targetTo ?r \<noteq> None" using row run by (simp_all add: repair_row_inv_def)
    have un: "rw_unserved w' = (if pg_state p = Repair_idle
        then filter (\<lambda>t. t \<notin> set (rn_serving ?n)) (rw_unserved w) else rw_unserved w)"
      using ap by (simp add: w' without_runner_def)
    show ?thesis
    proof (rule repair_invI)
      show "repair_row_inv (rw_row w')" using gt st unfolding row' repair_row_inv_def by (auto simp: e)
      show "rw_unserved w' = []" if "rp_state (rw_row w') = Repair_idle"
      proof -
        have q: "rp_queuedTargetTo ?r = None" and idle: "pg_state p = Repair_idle"
          using that by (simp_all add: row' e split: if_splits)
        have "t \<in> set (rn_serving ?n)" if "t \<in> set (rw_unserved w)" for t
          using req [OF that] q by (simp add: queued_request_def)
        then show ?thesis by (auto simp: un idle filter_empty_conv)
      qed
      show "covered_request (rw_row w') t" if "t \<in> set (rw_unserved w')" for t
      proof -
        have "t \<in> set (rw_unserved w)" using that by (auto simp: un split: if_splits)
        then show ?thesis using repair_invD(3) [OF inv, of t] by (simp add: row' covered_request_def e)
      qed
    qed (use none in simp_all)
  qed
qed

lemma repair_inv_fail:
  assumes inv: "repair_inv w" and s: "repair_step (Ev_fail i t err) w = Some w'"
  shows "repair_inv w'"
proof -
  let ?r = "rw_row w" and ?n = "rw_runners w ! i"
  have i: "i < length (rw_runners w)" using s by (auto split: if_splits)
  define r where "r = rw_row w'"
  have w': "rw_unserved w' = rw_unserved w" and none: "rw_runners w' = []"
    using s without_one [OF repair_invD(5) [OF inv] i] by (auto simp: without_runner_def split: if_splits)
  have rn: "runner_inv w ?n" by (rule repair_invD(4) [OF inv nth_mem [OF i]])
  have row: "repair_row_inv ?r" by (rule repair_invD(1) [OF inv])
  obtain g where g: "rp_generation (rn_row ?n) = Some g" using rn by (auto simp: runner_inv_def)
  have e: "r = ?r \<or> (rp_generation ?r = Some g \<and> rp_generation r = rp_generation ?r \<and> rp_targetTo r = rp_targetTo ?r
      \<and> rp_queuedTargetTo r = rp_queuedTargetTo ?r \<and> rp_state r = Repair_failed)"
    using s i g by (auto simp: r_def without_runner_def repair_markFailed_def split: if_splits sum.splits)
  have keep: "covered_request r u = covered_request ?r u" for u using e by (auto simp: covered_request_def)
  show ?thesis
  proof (rule repair_invI)
    show "repair_row_inv (rw_row w')"
      using e
    proof
      assume "r = ?r" then show ?thesis using row by (simp add: r_def [symmetric])
    next
      assume f: "rp_generation ?r = Some g \<and> rp_generation r = rp_generation ?r \<and> rp_targetTo r = rp_targetTo ?r
        \<and> rp_queuedTargetTo r = rp_queuedTargetTo ?r \<and> rp_state r = Repair_failed"
      then have "rp_state ?r = Repair_running" using rn g by (simp add: runner_inv_def)
      then show ?thesis using row f unfolding r_def [symmetric] repair_row_inv_def by simp
    qed
    show "rw_unserved w' = []" if "rp_state (rw_row w') = Repair_idle"
      using that e repair_invD(2) [OF inv] by (auto simp: w' r_def [symmetric])
    show "covered_request (rw_row w') u" if "u \<in> set (rw_unserved w')" for u
      using that repair_invD(3) [OF inv, of u] by (simp add: w' r_def [symmetric] keep)
  qed (use none in simp_all)
qed

lemma repair_inv_die:
  assumes inv: "repair_inv w" and s: "repair_step (Ev_die i) w = Some w'"
  shows "repair_inv w'"
proof -
  have i: "i < length (rw_runners w)" and w': "w' = without_runner i w" using s by (auto split: if_splits)
  have none: "rw_runners w' = []" using without_one [OF repair_invD(5) [OF inv] i] by (simp add: w' without_runner_def)
  have same: "rw_row w' = rw_row w" "rw_unserved w' = rw_unserved w" by (simp_all add: w' without_runner_def)
  show ?thesis using inv unfolding repair_inv_def none same by simp
qed

lemma repair_reachable_inv: "repair_reachable w \<Longrightarrow> repair_inv w"
proof (induction rule: repair_reachable.induct)
  case (repair_init t)
  show ?case by (rule repair_inv_start)
next
  case (repair_next w e w')
  then show ?case
    by (cases e) (auto simp only: repair_calm.simps intro: repair_inv_request repair_inv_reset
        repair_inv_claim repair_inv_report repair_inv_fail repair_inv_die)
qed

text \<open>When the row can be claimed, whatever happens to the run that holds it.\<close>

definition claim_time :: "repair_row \<Rightarrow> instant" where
  "claim_time r = (case rp_state r of
      Repair_running \<Rightarrow> the (rp_lastStarted r) + STALE_RUNNING_MS
    | _ \<Rightarrow> (case rp_nextAttempt r of None \<Rightarrow> 0 | Some t \<Rightarrow> t))"

lemma repair_claimable_later:
  assumes "repair_row_inv r" "rp_state r \<noteq> Repair_idle" "claim_time r \<le> t"
  shows "repair_claimable t r"
  using assms
  by (cases "rp_state r")
     (auto simp: repair_row_inv_def repair_claimable_def claim_time_def not_after_def STALE_RUNNING_MS_def split: option.splits)

text \<open>C9: Where the load slot keeps runs apart, no request or reset carries the very time that is the
  generation of a run at work, and no reset of the row (by a price synchronisation or a promotion)
  carries a time before the target it overwrites, a request to price late events is never lost: as long as no run that claimed the row after the request has reported that nothing is left, the
  row is not idle, the next run can claim it at latest at the row's retry time (five minutes after its
  start, if the run that holds it has died), and that run covers the events up to the request. Requests,
  resets, failures and deaths of runs come in any order, and their times in any order with them.\<close>

theorem no_repair_request_is_lost:
  assumes "repair_reachable w" "t \<in> set (rw_unserved w)"
  shows "rp_state (rw_row w) \<noteq> Repair_idle
    \<and> (\<forall>now. claim_time (rw_row w) \<le> now \<longrightarrow>
        (\<exists>claimed T. repair_claim now (rw_row w) = Some claimed \<and> rp_targetTo claimed = Some T \<and> t \<le> T))"
proof -
  have inv: "repair_inv w" by (rule repair_reachable_inv [OF assms(1)])
  have ni: "rp_state (rw_row w) \<noteq> Repair_idle" using repair_invD(2) [OF inv] assms(2) by auto
  obtain T where T: "greatest (rp_targetTo (rw_row w)) (rp_queuedTargetTo (rw_row w)) = Some T" "t \<le> T"
    using repair_invD(3) [OF inv assms(2)] by (auto simp: covered_request_def split: option.splits)
  have "repair_claimable now (rw_row w)" if "claim_time (rw_row w) \<le> now" for now
    by (rule repair_claimable_later [OF repair_invD(1) [OF inv] ni that])
  then show ?thesis using ni T by (auto simp: repair_claim_def)
qed

definition progress_of :: "instant \<Rightarrow> repair_state \<Rightarrow> instant \<Rightarrow> repair_progress" where
  "progress_of g st at_t = \<lparr>pg_generation = g, pg_state = st, pg_processed = 0, pg_recovered = 0, pg_reconciled = 0,
     pg_repricedLegacy = 0, pg_remaining = 0, pg_remainingLegacy = 0, pg_unresolved = [], pg_limit = 100, pg_load = Normal,
     pg_nextAttempt = None, pg_at = at_t\<rparr>"

fun calm_repair_run :: "repair_event list \<Rightarrow> repair_world \<Rightarrow> repair_world option" where
  "calm_repair_run [] w = Some w"
| "calm_repair_run (e # es) w =
     (if repair_calm e w then (case repair_step e w of None \<Rightarrow> None | Some w' \<Rightarrow> calm_repair_run es w') else None)"

lemma repair_reachable_run:
  "repair_reachable w \<Longrightarrow> calm_repair_run es w = Some w' \<Longrightarrow> repair_reachable w'"
  by (induction es arbitrary: w) (auto split: if_splits option.splits intro: repair_next)

text \<open>A second request arrives while a run for the first one is working; the run reports that it is done.\<close>

definition late_request_run :: "repair_event list" where
  "late_request_run = [Ev_request 10, Ev_claim 20, Ev_request 30, Ev_report 0 (progress_of 10 Repair_idle 40)]"

lemma no_repair_request_is_lost_witness:
  "\<exists>w. calm_repair_run late_request_run (repair_start 0) = Some w \<and> rw_unserved w = [30] \<and> rp_state (rw_row w) \<noteq> Repair_idle
     \<and> (\<exists>claimed T. repair_claim 50 (rw_row w) = Some claimed \<and> rp_targetTo claimed = Some T \<and> 30 \<le> T)"
proof -
  have "map_option (\<lambda>w. (rw_unserved w, claim_time (rw_row w))) (calm_repair_run late_request_run (repair_start 0)) = Some ([30], 40)"
    by code_simp
  then obtain w where w: "calm_repair_run late_request_run (repair_start 0) = Some w" "rw_unserved w = [30]" "claim_time (rw_row w) = 40"
    by auto
  have r: "repair_reachable w" by (rule repair_reachable_run [OF repair_init w(1)])
  have "30 \<in> set (rw_unserved w)" by (simp add: w(2))
  from no_repair_request_is_lost [OF r this] w show ?thesis by auto
qed

text \<open>
  Without the load slot it would be: a run that was taken for dead after five minutes reports that
  nothing is left, while the run that replaced it, and alone covers the second request, dies.
\<close>

lemma overlapping_repairs_lose_a_request:
  "map_option (\<lambda>w. (rp_state (rw_row w), rw_unserved w))
     (repair_run [Ev_request 10, Ev_claim 20, Ev_request 30, Ev_claim 300020,
        Ev_report 0 (progress_of 10 Repair_idle 300030), Ev_die 0] (repair_start 0))
   = Some (Repair_idle, [30])"
  by code_simp

text \<open>
  Nor does a request survive a reset with an older time: it arrives while the row is idle, after a
  synchronisation has read its clock and before it writes the row, and the synchronisation puts its
  own, earlier target in the place of the request's.
\<close>

lemma older_reset_loses_a_request:
  assumes "rp_state (rw_row w) = Repair_idle" "observedAt < t" "repair_run [Ev_request t, Ev_reset observedAt now] w = Some w'"
  shows "t \<in> set (rw_unserved w')" "\<not> covered_request (rw_row w') t"
    "repair_claim later (rw_row w') = Some claimed \<Longrightarrow> rp_targetTo claimed = Some observedAt"
proof -
  have w': "w' = w\<lparr>rw_row := markPricingRepairPending observedAt observedAt now (enqueue_pricing_repair t (rw_row w)),
      rw_unserved := observedAt # t # rw_unserved w\<rparr>"
    using assms(3) by simp
  have row: "rp_targetTo (rw_row w') = Some observedAt" "rp_queuedTargetTo (rw_row w') = None"
    using assms(1) by (simp_all add: w' markPricingRepairPending_def enqueue_pricing_repair_def)
  show "t \<in> set (rw_unserved w')" by (simp add: w')
  show "\<not> covered_request (rw_row w') t" using assms(2) by (simp add: covered_request_def row)
  show "rp_targetTo claimed = Some observedAt" if "repair_claim later (rw_row w') = Some claimed"
    using that by (auto simp: repair_claim_def row split: if_splits)
qed

text \<open>The run that follows covers the older target only, reports that nothing is left, and the row is idle.\<close>

lemma older_reset_ends_idle:
  "map_option (\<lambda>w. (rp_state (rw_row w), map (\<lambda>n. rp_targetTo (rn_row n)) (rw_runners w)))
     (repair_run [Ev_request 30, Ev_reset 20 10, Ev_claim 40] (repair_start 0)) = Some (Repair_running, [Some 20])"
  "map_option (\<lambda>w. rp_state (rw_row w))
     (repair_run [Ev_request 30, Ev_reset 20 10, Ev_claim 40, Ev_report 0 (progress_of 20 Repair_idle 50)] (repair_start 0)) = Some Repair_idle"
  by code_simp+

section \<open>The coordinator and the repository agree\<close>

text \<open>In every reachable state the coordinator takes a repair for due exactly when the repository would
  let it claim the row.\<close>

theorem repair_due_iff_claimable:
  assumes "repair_reachable w"
  shows "pricingRepairCandidateFromStatus (rw_row w) now \<noteq> None \<longleftrightarrow> repair_claim now (rw_row w) \<noteq> None"
proof -
  have inv: "repair_row_inv (rw_row w)" by (rule repair_invD(1) [OF repair_reachable_inv [OF assms]])
  have stalled: "STALE_RUNNING_MS \<le> now - s \<longleftrightarrow> s \<le> now - 5 * 60 * 1000" for s by (auto simp: STALE_RUNNING_MS_def)
  show ?thesis
    using inv unfolding repair_row_inv_def
    by (cases "rp_state (rw_row w)")
       (simp_all add: pricingRepairCandidateFromStatus_def Let_def repair_claim_def repair_claimable_def stalled split: option.split)
qed

lemma repair_due_iff_claimable_witness:
  "\<exists>w. calm_repair_run late_request_run (repair_start 0) = Some w
     \<and> (pricingRepairCandidateFromStatus (rw_row w) 50 \<noteq> None \<longleftrightarrow> repair_claim 50 (rw_row w) \<noteq> None)"
proof -
  have "calm_repair_run late_request_run (repair_start 0) \<noteq> None" by code_simp
  then obtain w where w: "calm_repair_run late_request_run (repair_start 0) = Some w" by blast
  from repair_due_iff_claimable [OF repair_reachable_run [OF repair_init w]] w show ?thesis by blast
qed

section \<open>What a run leaves behind\<close>

lemma nextPricingRepairBatchLimit_bounds:
  "25 \<le> current \<Longrightarrow> current \<le> 500 \<Longrightarrow>
     25 \<le> fst (nextPricingRepairBatchLimit current d full) \<and> fst (nextPricingRepairBatchLimit current d full) \<le> 500"
  by (auto simp: nextPricingRepairBatchLimit_def)

lemma on_service_row: "on_service m w = (w', r) \<Longrightarrow> fst w' = fst w"
  by (auto simp: on_service_def split: prod.splits)

lemma production_simps [simp]:
  "rd_now (productionRepair now sv) = returnE now" "rd_withCacheChange (productionRepair now sv) = None"
  "rd_reconcileReplay (productionRepair now sv) = (\<lambda>f t l. on_service (sv_reconcileReplay sv f t l))"
  "rd_getSchedule (productionRepair now sv) = on_service (sv_getSchedule sv)"
  "rd_revisionIds (productionRepair now sv) = Some (on_service (sv_revisionIds sv))"
  "rd_recoveryModels (productionRepair now sv) = (\<lambda>f t ids. on_service (sv_recoveryModels sv f t ids))"
  "rd_repairUsage (productionRepair now sv) = (\<lambda>q resolver. on_service (sv_repairUsage sv q resolver))"
  "rd_reconcileRollup (productionRepair now sv) = map_option (\<lambda>g f t l. on_service (g f t l)) (sv_reconcileRollup sv)"
  "rd_history (productionRepair now sv) = Some (\<lambda>ds. on_history (sv_history sv ds))"
  "rd_invalidate (productionRepair now sv) = Some (on_service (sv_revalidateTag sv))"
  "rd_todayStart (productionRepair now sv) = sv_todayStart sv"
  by (simp_all add: productionRepair_def)


lemma on_service_eq: "on_service m (r, x) = ((r', x'), res) \<longleftrightarrow> r' = r \<and> m x = (x', res)"
  by (auto simp: on_service_def split: prod.splits)

text \<open>What the services answered in a run that found nothing left: no replay, every event without a price
  up to the target repriced in this batch, and the rollups agree with the raw rows.\<close>

definition nothing_left :: "'x repair_services \<Rightarrow> instant \<Rightarrow> instant \<Rightarrow> int \<Rightarrow> 'x \<Rightarrow> bool" where
  "nothing_left sv g T limit x \<longleftrightarrow> (\<exists>x1 x2 x3 x4 x5 replay schedule ids diagnostics b.
     sv_reconcileReplay sv 0 T limit x = (x1, Inr replay) \<and> rs_scanned replay \<le> 0
     \<and> sv_getSchedule sv x1 = (x2, Inr schedule) \<and> sv_revisionIds sv x2 = (x3, Inr ids)
     \<and> sv_recoveryModels sv 0 T ids x3 = (x4, Inr diagnostics)
     \<and> (let targets = supportedPricingTargets diagnostics schedule in
        if fst targets \<noteq> [] \<or> snd targets
        then sv_repairUsage sv \<lparr>rq_generation = int_to_string g, rq_from = 0, rq_to = T, rq_models = fst targets,
               rq_codexFallback = snd targets, rq_replaceRevisions = ids, rq_limit = limit\<rparr> (schedule_resolver schedule) x4 = (x5, Inr b)
        else x5 = x4 \<and> b = no_repair)
     \<and> \<not> rb_hasMore b \<and> rb_scanned b \<le> rb_recovered b + rb_repricedLegacy b
     \<and> sum_of di_events diagnostics \<le> rb_recovered b + rb_repricedLegacy b
     \<and> (case sv_reconcileRollup sv of None \<Rightarrow> True
        | Some f \<Rightarrow> \<exists>x6. f 0 T PRICING_ROLLUP_RECONCILIATION_LIMIT x5 = (x6, Inr False)))"

text \<open>
  The outcome of the body: it throws without writing the row itself, or it writes progress once, on
  the row it was given or on the one a promotion of the price history has left.
\<close>

definition row_ends :: "instant \<Rightarrow> instant \<Rightarrow> bool \<Rightarrow> repair_row \<Rightarrow> (repair_row \<times> 'x) \<times> (exn + scheduler_outcome) \<Rightarrow> bool" where
  "row_ends now g idle_ok r w \<longleftrightarrow>
     (case snd w of
        Inl e \<Rightarrow> fst (fst w) = r
      | Inr outcome \<Rightarrow> (\<exists>p applied. pg_generation p = g \<and> pg_at p = now \<and> pg_state p \<in> {Repair_idle, Repair_pending, Repair_waiting}
          \<and> repair_markProgress p r = (applied, fst (fst w)) \<and> outcome = applied_outcome applied
          \<and> (pg_state p = Repair_idle \<longrightarrow> idle_ok)))"

definition body_ends ::
  "'x repair_services \<Rightarrow> instant \<Rightarrow> repair_row \<Rightarrow> instant \<Rightarrow> instant \<Rightarrow> repair_row \<Rightarrow> 'x \<Rightarrow>
     (repair_row \<times> 'x) \<times> (exn + scheduler_outcome) \<Rightarrow> bool" where
  "body_ends sv now claimed g T r x w \<longleftrightarrow>
     row_ends now g (nothing_left sv g T (rp_limit claimed) x) r w \<or> (\<exists>t. row_ends now g False (promoted_row t r) w)"

lemma body_ends_throw: "body_ends sv now claimed g T r x ((r, x'), Inl e)"
  by (simp add: body_ends_def row_ends_def)

lemma body_ends_bind:
  assumes "\<And>x' e. m (r, y) = ((r, x'), Inl e) \<Longrightarrow> body_ends sv now claimed g T r x ((r, x'), Inl e)"
    and "\<And>x' a. m (r, y) = ((r, x'), Inr a) \<Longrightarrow> body_ends sv now claimed g T r x (f a (r, x'))"
    and "\<And>r' x' res. m (r, y) = ((r', x'), res) \<Longrightarrow> r' = r"
  shows "body_ends sv now claimed g T r x (bindE m f (r, y))"
proof -
  obtain r' x' res where m: "m (r, y) = ((r', x'), res)" by (metis surj_pair)
  then have "r' = r" by (rule assms(3))
  with m assms(1,2) show ?thesis by (cases res) auto
qed

lemma body_ends_service:
  assumes "\<And>x' a. m y = (x', Inr a) \<Longrightarrow> body_ends sv now claimed g T r x (f a (r, x'))"
  shows "body_ends sv now claimed g T r x (bindE (on_service m) f (r, y))"
  by (rule body_ends_bind) (use assms in \<open>auto simp: on_service_eq body_ends_throw\<close>)

lemma body_ends_return: "body_ends sv now claimed g T r x (f a (r, y)) \<Longrightarrow> body_ends sv now claimed g T r x (bindE (returnE a) f (r, y))"
  by simp

lemma row_ends_progress:
  assumes "pg_generation p = g" "pg_at p = now" "pg_state p \<in> {Repair_idle, Repair_pending, Repair_waiting}"
    and "pg_state p = Repair_idle \<Longrightarrow> idle_ok"
    and "\<And>applied r'. \<exists>x'. f applied (r', y) = ((r', x'), Inr (applied_outcome applied))"
  shows "row_ends now g idle_ok r (bindE (rd_markProgress (productionRepair now sv) p) f (r, y))"
proof -
  obtain applied r' where m: "repair_markProgress p r = (applied, r')" by fastforce
  then have "rd_markProgress (productionRepair now sv) p (r, y) = ((r', y), Inr applied)" by (simp add: productionRepair_def)
  moreover obtain x' where "f applied (r', y) = ((r', x'), Inr (applied_outcome applied))" using assms(5) by blast
  ultimately have b: "bindE (rd_markProgress (productionRepair now sv) p) f (r, y) = ((r', x'), Inr (applied_outcome applied))" by simp
  show ?thesis unfolding b row_ends_def using assms(1-4) m by auto
qed

lemma body_ends_progress:
  assumes "pg_generation p = g" "pg_at p = now" "pg_state p \<in> {Repair_idle, Repair_pending, Repair_waiting}"
    and "pg_state p = Repair_idle \<Longrightarrow> nothing_left sv g T (rp_limit claimed) x"
    and "\<And>applied r'. \<exists>x'. f applied (r', y) = ((r', x'), Inr (applied_outcome applied))"
  shows "body_ends sv now claimed g T r x (bindE (rd_markProgress (productionRepair now sv) p) f (r, y))"
  unfolding body_ends_def using row_ends_progress [OF assms] by blast

lemma row_ends_weaken: "row_ends now g False r w \<Longrightarrow> row_ends now g idle_ok r w"
  unfolding row_ends_def by (cases "snd w") auto

text \<open>The step of the price history, and the progress that is written after it.\<close>

lemma body_ends_history:
  assumes rest: "\<And>h x' r1. (r1 = r \<or> (\<exists>t. r1 = promoted_row t r)) \<Longrightarrow> row_ends now g False r1 (f h (r1, x'))"
  shows "body_ends sv now claimed g T r x (bindE (on_history m) f (r, y))"
proof -
  obtain x' promoted res where m: "m y = (x', promoted, res)" by (metis surj_pair)
  let ?r1 = "case promoted of None \<Rightarrow> r | Some t \<Rightarrow> promoted_row t r"
  have h: "on_history m (r, y) = ((?r1, x'), res)" by (cases promoted) (simp_all add: on_history_def m)
  have r1: "?r1 = r \<or> (\<exists>t. ?r1 = promoted_row t r)" by (cases promoted) auto
  have e: "row_ends now g False ?r1 (bindE (on_history m) f (r, y))"
  proof (cases res)
    case (Inl e)
    then have "bindE (on_history m) f (r, y) = ((?r1, x'), Inl e)" using h by (simp add: bindE_def)
    then show ?thesis by (simp add: row_ends_def)
  next
    case (Inr a)
    then have "bindE (on_history m) f (r, y) = f a (?r1, x')" using h by (simp add: bindE_def)
    then show ?thesis using rest [OF r1] by simp
  qed
  show ?thesis
  proof (cases promoted)
    case None
    then have "row_ends now g False r (bindE (on_history m) f (r, y))" using e by simp
    then show ?thesis unfolding body_ends_def by (intro disjI1) (rule row_ends_weaken)
  next
    case (Some t)
    then show ?thesis using e by (auto simp: body_ends_def)
  qed
qed

lemma ignored_result: "\<exists>x'. bindE (if c then try_ignore (Some (on_service m)) else returnE ()) (\<lambda>u. returnE a) (r, y) = ((r, x'), Inr a)"
proof (cases c)
  case True
  obtain y' res where "m y = (y', res)" by fastforce
  then show ?thesis using True by (cases res) (auto simp: try_ignore_def catchE_def on_service_def bindE_def returnE_def)
qed simp

lemma replay_progress_simps [simp]:
  "pg_generation (replay_progress s c g rep t) = g" "pg_state (replay_progress s c g rep t) = Repair_pending"
  "pg_at (replay_progress s c g rep t) = t"
  by (simp_all add: replay_progress_def split: prod.splits)

lemma batch_progress_simps [simp]:
  "pg_generation (batch_progress s c g rep ds ods b v t) = g" "pg_state (batch_progress s c g rep ds ods b v t) = fst v"
  "pg_at (batch_progress s c g rep ds ods b v t) = t"
  by (simp_all add: batch_progress_def split: prod.splits)

lemma history_verdict_state: "fst (history_verdict t h) \<in> {Repair_pending, Repair_waiting}"
  by (cases h) (auto simp: history_verdict_def)


lemma nothing_leftI:
  assumes "sv_reconcileReplay sv 0 T limit x = (x1, Inr replay)" "rs_scanned replay \<le> 0"
    "sv_getSchedule sv x1 = (x2, Inr schedule)" "sv_revisionIds sv x2 = (x3, Inr ids)"
    "sv_recoveryModels sv 0 T ids x3 = (x4, Inr diagnostics)"
    "let targets = supportedPricingTargets diagnostics schedule in
        if fst targets \<noteq> [] \<or> snd targets
        then sv_repairUsage sv \<lparr>rq_generation = int_to_string g, rq_from = 0, rq_to = T, rq_models = fst targets,
               rq_codexFallback = snd targets, rq_replaceRevisions = ids, rq_limit = limit\<rparr> (schedule_resolver schedule) x4 = (x5, Inr b)
        else x5 = x4 \<and> b = no_repair"
    "\<not> remaining_supported b" "remaining_total diagnostics b = 0"
    "case sv_reconcileRollup sv of None \<Rightarrow> True | Some f \<Rightarrow> \<exists>x6. f 0 T PRICING_ROLLUP_RECONCILIATION_LIMIT x5 = (x6, Inr False)"
  shows "nothing_left sv g T limit x"
proof -
  have "\<not> rb_hasMore b" "rb_scanned b \<le> rb_recovered b + rb_repricedLegacy b"
    "sum_of di_events diagnostics \<le> rb_recovered b + rb_repricedLegacy b"
    using assms(7,8) by (auto simp: remaining_supported_def remaining_total_def)
  with assms(1-6,9) show ?thesis
    unfolding nothing_left_def by (intro exI [of _ x1] exI [of _ x2] exI [of _ x3] exI [of _ x4] exI [of _ x5]
        exI [of _ replay] exI [of _ schedule] exI [of _ ids] exI [of _ diagnostics] exI [of _ b]) blast
qed

lemma bindE_returnE: "bindE (returnE a) f = f a"
  by (rule ext) simp

lemma bindE_assoc: "bindE (bindE m f) k = bindE m (\<lambda>a. bindE (f a) k)"
  by (rule ext) (simp add: bindE_def split: prod.split sum.split)

text \<open>The last part of the body, from the diagnostics after the batch on.\<close>

lemma repair_tail_ends:
  assumes nl: "\<not> remaining_supported b \<Longrightarrow> remaining_total diagnostics b = 0 \<Longrightarrow>
      (case sv_reconcileRollup sv of None \<Rightarrow> True | Some f \<Rightarrow> \<exists>x6. f 0 T PRICING_ROLLUP_RECONCILIATION_LIMIT y = (x6, Inr False)) \<Longrightarrow>
      nothing_left sv g T (rp_limit c) x"
  shows "body_ends sv now c g T r x
    (bindE (if \<not> rb_hasMore b \<and> \<not> remaining_supported b \<and> remaining_total diagnostics b = 0
            then (case map_option (\<lambda>g f t l. on_service (g f t l)) (sv_reconcileRollup sv) of None \<Rightarrow> returnE False
                  | Some f \<Rightarrow> f 0 T PRICING_ROLLUP_RECONCILIATION_LIMIT)
            else returnE False) (\<lambda>rollupMore.
     bindE (liftE (sv_todayStart sv now)) (\<lambda>todayStart.
     bindE (if \<not> rb_hasMore b \<and> \<not> remaining_supported b \<and> 0 < remaining_total diagnostics b
               \<and> completedHistoricalDiagnostics ods todayStart \<noteq> []
            then bindE (on_history (sv_history sv (completedHistoricalDiagnostics ods todayStart))) (\<lambda>h. returnE (history_verdict now h))
            else returnE (first_verdict (rb_hasMore b \<or> remaining_supported b \<or> rollupMore) (remaining_total diagnostics b) now)) (\<lambda>verdict.
     bindE (rd_markProgress (productionRepair now sv) (batch_progress s c g rep diagnostics ods b verdict now)) (\<lambda>applied.
     bindE (if applied \<and> (fst verdict = Repair_idle \<or> fst verdict = Repair_waiting)
            then try_ignore (Some (on_service (sv_revalidateTag sv))) else returnE ()) (\<lambda>u.
     returnE (applied_outcome applied)))))) (r, y))"
    (is "body_ends _ _ _ _ _ _ _ (bindE ?roll ?rest _)")
proof (rule body_ends_bind)
  fix x' rollupMore
  assume roll: "?roll (r, y) = ((r, x'), Inr rollupMore)"
  let ?first = "first_verdict (rb_hasMore b \<or> remaining_supported b \<or> rollupMore) (remaining_total diagnostics b) now"
  have idle: "nothing_left sv g T (rp_limit c) x" if "fst ?first = Repair_idle"
  proof (rule nl)
    show ns: "\<not> remaining_supported b" and z: "remaining_total diagnostics b = 0"
      using that by (auto simp: first_verdict_def split: if_splits)
    show "case sv_reconcileRollup sv of None \<Rightarrow> True | Some f \<Rightarrow> \<exists>x6. f 0 T PRICING_ROLLUP_RECONCILIATION_LIMIT y = (x6, Inr False)"
      using roll that ns z by (cases "sv_reconcileRollup sv")
        (auto simp: first_verdict_def remaining_supported_def on_service_eq split: if_splits)
  qed
  have done_: "body_ends sv now c g T r x
      (bindE (rd_markProgress (productionRepair now sv) (batch_progress s c g rep diagnostics ods b verdict now)) (\<lambda>applied.
       bindE (if applied \<and> (fst verdict = Repair_idle \<or> fst verdict = Repair_waiting)
            then try_ignore (Some (on_service (sv_revalidateTag sv))) else returnE ()) (\<lambda>u. returnE (applied_outcome applied))) (r, z))"
    if "verdict = ?first \<or> fst verdict \<in> {Repair_pending, Repair_waiting}" for verdict z
    using that idle
    by (intro body_ends_progress ignored_result) (auto simp: first_verdict_def split: if_splits)
  show "body_ends sv now c g T r x (?rest rollupMore (r, x'))"
  proof (rule body_ends_bind, goal_cases)
    case (2 x2 todayStart)
    show ?case
    proof (cases "\<not> rb_hasMore b \<and> \<not> remaining_supported b \<and> 0 < remaining_total diagnostics b
               \<and> completedHistoricalDiagnostics ods todayStart \<noteq> []")
      case False
      show ?thesis unfolding if_not_P [OF False] bindE_returnE by (rule done_) simp
    next
      case True
      show ?thesis
        unfolding if_P [OF True] bindE_assoc bindE_returnE
      proof (rule body_ends_history)
        fix h z r1
        show "row_ends now g False r1
            (bindE (rd_markProgress (productionRepair now sv) (batch_progress s c g rep diagnostics ods b (history_verdict now h) now)) (\<lambda>applied.
             bindE (if applied \<and> (fst (history_verdict now h) = Repair_idle \<or> fst (history_verdict now h) = Repair_waiting)
               then try_ignore (Some (on_service (sv_revalidateTag sv))) else returnE ()) (\<lambda>u. returnE (applied_outcome applied))) (r1, z))"
          using history_verdict_state [of now h] by (intro row_ends_progress ignored_result) auto
      qed
    qed
  next
    case (3 r' x' res)
    then show ?case by (simp add: liftE_def)
  qed (rule body_ends_throw)
next
  fix r' x' res
  assume "?roll (r, y) = ((r', x'), res)"
  then show "r' = r" by (auto simp: returnE_def on_service_eq split: if_splits option.splits)
qed (rule body_ends_throw)


lemma repair_body_ends:
  "body_ends sv now c g T r x (repair_body (productionRepair now sv) now c g T (r, x))"
  unfolding repair_body_def Let_def production_simps option.case
  apply (rule body_ends_service)
  subgoal for x1 replay
    apply (cases "0 < rs_scanned replay"; simp only: if_True if_False bindE_returnE)
    subgoal by (rule body_ends_progress) (auto simp: returnE_def)
    subgoal
      apply (rule body_ends_service, rule body_ends_service, rule body_ends_service)
      subgoal for x2 schedule x3 ids x4 diagnostics
        apply (rule body_ends_bind)
        subgoal by (rule body_ends_throw)
        subgoal for x5 b
          apply (simp only: option.sel option.distinct simp_thms not_False_eq_True)
          apply (rule repair_tail_ends)
          apply (rule nothing_leftI [of sv T "rp_limit c" x x1 replay x2 schedule x3 ids x4 diagnostics g x5 b])
          by (auto simp: on_service_eq returnE_def Let_def split: if_splits)
        subgoal by (auto simp: on_service_eq returnE_def split: if_splits)
        done
      done
    done
  done

lemma repair_claim_Some:
  assumes "repair_claim now row = Some c"
  shows "rp_generation c = rp_generation row" "rp_state c = Repair_running" "rp_queuedTargetTo c = None"
    "rp_failures c = rp_failures row" "rp_limit c = rp_limit row"
    "\<exists>g T. rp_generation c = Some g \<and> rp_targetTo c = Some T" "rp_lastStarted c = Some now"
proof -
  have cl: "repair_claimable now row" using assms by (simp add: repair_claim_def split: if_splits)
  show "rp_generation c = rp_generation row" "rp_state c = Repair_running" "rp_queuedTargetTo c = None"
    "rp_failures c = rp_failures row" "rp_limit c = rp_limit row" "rp_lastStarted c = Some now"
    using assms cl by (auto simp: repair_claim_def)
  have "rp_generation row \<noteq> None" "rp_targetTo row \<noteq> None" using cl by (simp_all add: repair_claimable_def)
  moreover have "rp_targetTo c = greatest (rp_targetTo row) (rp_queuedTargetTo row)" "rp_generation c = rp_generation row"
    using assms cl by (auto simp: repair_claim_def)
  ultimately have "rp_generation c \<noteq> None" "rp_targetTo c \<noteq> None" by (simp_all only: greatest_eq_None simp_thms)
  then show "\<exists>g T. rp_generation c = Some g \<and> rp_targetTo c = Some T" by blast
qed

lemma run_without_claim:
  "repair_claim now row = None \<Longrightarrow> runPricingRepairTask now sv (row, x) = ((row, x), Inr Out_superseded)"
  by (simp add: runPricingRepairTask_def runPricingRepairTaskWith_def productionRepair_def bindE_def returnE_def)

text \<open>
  A claimed run ends with its progress in the row, or with a failure, or superseded by a promotion it
  made itself.
\<close>

lemma run_with_claim:
  assumes c: "repair_claim now row = Some c" "rp_generation c = Some g" "rp_targetTo c = Some T"
    and run: "runPricingRepairTask now sv (row, x) = ((row', x'), res)"
  shows "\<exists>r1. (r1 = c \<or> (\<exists>t. r1 = promoted_row t c)) \<and>
      ((\<exists>p applied. pg_generation p = g \<and> repair_markProgress p r1 = (applied, row') \<and> res = Inr (applied_outcome applied)
            \<and> pg_state p \<in> {Repair_idle, Repair_pending, Repair_waiting}
            \<and> (pg_state p = Repair_idle \<longrightarrow> r1 = c \<and> nothing_left sv g T (rp_limit c) x))
       \<or> (\<exists>e. (case repair_markFailed g now e r1 of
            Inl pe \<Rightarrow> row' = r1 \<and> res = Inl (pg_error_text pe)
          | Inr (applied, r) \<Rightarrow> row' = r \<and> res = Inr (if applied then Out_failed else Out_superseded))))"
proof -
  let ?dep = "productionRepair now sv"
  let ?body = "repair_body ?dep now c g T (c, x)"
  obtain r2 x2 res2 where b: "?body = ((r2, x2), res2)" by (metis surj_pair)
  have ends: "body_ends sv now c g T c x ((r2, x2), res2)" using repair_body_ends [of sv now c g T c x] b by simp
  obtain r1 idle_ok where r1: "r1 = c \<or> (\<exists>t. r1 = promoted_row t c)" "row_ends now g idle_ok r1 ((r2, x2), res2)"
    "idle_ok \<Longrightarrow> r1 = c \<and> nothing_left sv g T (rp_limit c) x"
    using ends unfolding body_ends_def by blast
  have claim: "rd_claim ?dep now (row, x) = ((c, x), Inr (Some c))" using c(1) by (simp add: productionRepair_def)
  have run': "((row', x'), res) = catchE (repair_body ?dep now c g T)
      (\<lambda>e. bindE (rd_now ?dep) (\<lambda>at_t. bindE (rd_markFailed ?dep g at_t e)
         (\<lambda>applied. returnE (if applied then Out_failed else Out_superseded)))) (c, x)"
    using run c claim by (simp add: runPricingRepairTask_def runPricingRepairTaskWith_def bindE_returnE)
  show ?thesis
  proof (intro exI [of _ r1] conjI)
    show "r1 = c \<or> (\<exists>t. r1 = promoted_row t c)" by (rule r1(1))
    show "(\<exists>p applied. pg_generation p = g \<and> repair_markProgress p r1 = (applied, row') \<and> res = Inr (applied_outcome applied)
            \<and> pg_state p \<in> {Repair_idle, Repair_pending, Repair_waiting}
            \<and> (pg_state p = Repair_idle \<longrightarrow> r1 = c \<and> nothing_left sv g T (rp_limit c) x))
       \<or> (\<exists>e. (case repair_markFailed g now e r1 of
            Inl pe \<Rightarrow> row' = r1 \<and> res = Inl (pg_error_text pe)
          | Inr (applied, r) \<Rightarrow> row' = r \<and> res = Inr (if applied then Out_failed else Out_superseded)))"
    proof (cases res2)
      case (Inr outcome)
      then have "row' = r2" "res = Inr outcome" using run' b by (simp_all add: catchE_def)
      then show ?thesis using r1(2,3) Inr by (auto simp: row_ends_def)
    next
      case (Inl e)
      then have "r2 = r1" using r1(2) by (simp add: row_ends_def)
      then have "((row', x'), res) = bindE (rd_markFailed ?dep g now e) (\<lambda>applied. returnE (if applied then Out_failed else Out_superseded)) (r1, x2)"
        using run' b Inl by (simp add: catchE_def bindE_returnE)
      then have "case repair_markFailed g now e r1 of
            Inl pe \<Rightarrow> row' = r1 \<and> res = Inl (pg_error_text pe)
          | Inr (applied, r) \<Rightarrow> row' = r \<and> res = Inr (if applied then Out_failed else Out_superseded)"
        by (auto simp: productionRepair_def bindE_def returnE_def split: sum.splits)
      then show ?thesis by blast
    qed
  qed
qed






text \<open>A run leaves the row idle only if nothing is left: there was no Codex replay to remove, the batch
  priced every event without a price (or with a replaced one) up to the target, and the comparison of the
  rollups with the raw rows found no more to do.\<close>

theorem idle_means_nothing_left:
  assumes "runPricingRepairTask now sv (row, x) = ((row', x'), Inr Out_success)" "rp_state row' = Repair_idle"
  shows "\<exists>c g T. repair_claim now row = Some c \<and> rp_generation c = Some g \<and> rp_targetTo c = Some T
    \<and> nothing_left sv g T (rp_limit row) x"
proof -
  obtain c where c: "repair_claim now row = Some c" using assms(1) run_without_claim [of now row sv x] by (cases "repair_claim now row") auto
  obtain g T where gT: "rp_generation c = Some g" "rp_targetTo c = Some T" using repair_claim_Some(6) [OF c] by blast
  obtain r1 where "(\<exists>p applied. pg_generation p = g \<and> repair_markProgress p r1 = (applied, row') \<and> Inr Out_success = Inr (applied_outcome applied)
            \<and> pg_state p \<in> {Repair_idle, Repair_pending, Repair_waiting}
            \<and> (pg_state p = Repair_idle \<longrightarrow> r1 = c \<and> nothing_left sv g T (rp_limit c) x))
       \<or> (\<exists>e. (case repair_markFailed g now e r1 of
            Inl pe \<Rightarrow> row' = r1 \<and> (Inr Out_success :: exn + scheduler_outcome) = Inl (pg_error_text pe)
          | Inr (applied, r) \<Rightarrow> row' = r \<and> (Inr Out_success :: exn + scheduler_outcome) = Inr (if applied then Out_failed else Out_superseded)))"
    using run_with_claim [OF c gT assms(1)] by blast
  then have "nothing_left sv g T (rp_limit c) x"
  proof (elim disjE exE conjE)
    fix p applied
    assume p: "repair_markProgress p r1 = (applied, row')" "Inr Out_success = Inr (applied_outcome applied)"
      "pg_state p = Repair_idle \<longrightarrow> r1 = c \<and> nothing_left sv g T (rp_limit c) x"
    have "pg_state p = Repair_idle"
      using p(1,2) assms(2) by (auto simp: repair_markProgress_def Let_def applied_outcome_def split: if_splits)
    then show ?thesis using p(3) by blast
  qed (auto split: sum.splits if_splits)
  then show ?thesis using c gT repair_claim_Some(5) [OF c] by simp
qed

definition quiet_services :: "unit repair_services" where
  "quiet_services =
     \<lparr>sv_reconcileReplay = (\<lambda>f t l. returnE \<lparr>rs_scanned = 0, rs_reconciled = 0, rs_remainingUnpriced = 0, rs_hasMore = False\<rparr>),
      sv_getSchedule = returnE [], sv_revisionIds = returnE [], sv_recoveryModels = (\<lambda>f t ids. returnE []),
      sv_repairUsage = (\<lambda>q resolver. throwE ''unused''), sv_reconcileRollup = None, sv_history = (\<lambda>ds x. (x, None, Inl ''unused'')),
      sv_revalidateTag = returnE (), sv_todayStart = (\<lambda>t. Inr 0)\<rparr>"

lemma idle_means_nothing_left_witness:
  "\<exists>c g T. repair_claim 20 (enqueue_pricing_repair 10 (initial_repair_row 0)) = Some c \<and> rp_generation c = Some g
     \<and> rp_targetTo c = Some T \<and> nothing_left quiet_services g T 100 ()"
proof -
  let ?row = "enqueue_pricing_repair 10 (initial_repair_row 0)"
  have "case runPricingRepairTask 20 quiet_services (?row, ()) of ((r, u), res) \<Rightarrow> res = Inr Out_success \<and> rp_state r = Repair_idle"
    by code_simp
  then obtain r u where r: "runPricingRepairTask 20 quiet_services (?row, ()) = ((r, u), Inr Out_success)" "rp_state r = Repair_idle"
    by (auto split: prod.splits)
  have "rp_limit ?row = 100" by (simp add: enqueue_pricing_repair_def initial_repair_row_def)
  with idle_means_nothing_left [OF r] show ?thesis by simp
qed

end
