(* ===== verification/Pricing_Jobs.thy ===== *)
theory Pricing_Jobs
  imports Pricing_History Pricing_Repair
begin

text \<open>
  \<open>apps/web/lib/pricing-history.ts\<close>: the job that reconstructs past prices from the commits of the
  LiteLLM catalogue. A job lists the commits of its range, applies their snapshots a few at a time to a
  table of candidates, and promotes the closed candidates to price revisions. One step of the job is
  \<open>runHistoricalPricingStepWith\<close>; the operations of \<open>PgPricingHistoryRepository\<close> act on one state.

  The rows of \<open>pricing_history_candidates\<close> of a job are kept with the job. ISO texts of instants are the
  instants. The answers of GitHub and the time zone database of the host are parameters.
\<close>

section \<open>State\<close>

datatype history_state =
  Job_state_pending | Job_listing | Job_fetching | Job_promoting | Job_completed | Job_waiting_source | Job_failed

record history_candidate =
  hc_model :: string
  hc_source :: string
  hc_effectiveAt :: instant
  hc_validUntil :: "instant option"
  hc_pricing :: model_pricing
  hc_sha :: string
  hc_committedAt :: instant

record history_job =
  hj_id :: string
  hj_version :: int
  hj_state :: history_state
  hj_rangeFrom :: instant
  hj_rangeTo :: instant
  hj_models :: "string list"
  hj_refs :: "commit_ref list"
  hj_listPage :: int
  hj_nextIndex :: nat
  hj_nextAttempt :: "instant option"
  hj_rateLimitReset :: "instant option"
  hj_failures :: nat
  hj_lastError :: "string option"
  hj_completedAt :: "instant option"
  hj_candidates :: "history_candidate list"

text \<open>A row of \<open>pricing_revisions\<close>.\<close>

record revision_row =
  rv_id :: string
  rv_model :: string
  rv_effectiveAt :: instant
  rv_validUntil :: "instant option"
  rv_pricing :: model_pricing
  rv_source :: string
  rv_authoritative :: bool
  rv_sourceRef :: "string option"
  rv_sourceModelId :: "string option"
  rv_observedAt :: instant

text \<open>The jobs in the order of \<open>created_at\<close>; the setting is the version of the price cache.\<close>

record pricing_db =
  pd_jobs :: "history_job list"
  pd_revisions :: "revision_row list"
  pd_repair :: repair_row
  pd_cacheVersion :: "instant option"

definition MAX_MODELS_PER_JOB :: nat where "MAX_MODELS_PER_JOB = 20"
definition MAX_SNAPSHOTS_PER_STEP :: nat where "MAX_SNAPSHOTS_PER_STEP = 4"
definition INVALID_SNAPSHOT_SKIP_AFTER_FAILURES :: nat where "INVALID_SNAPSHOT_SKIP_AFTER_FAILURES = 2"
definition SOURCE_RETRY_BASE_MS :: int where "SOURCE_RETRY_BASE_MS = 60000"
definition SOURCE_RETRY_MAX_MS :: int where "SOURCE_RETRY_MAX_MS = 60 * 60000"
definition HISTORY_SOURCE :: string where "HISTORY_SOURCE = ''litellm-git-history''"
definition HISTORY_ALGORITHM_VERSION :: int where "HISTORY_ALGORITHM_VERSION = 3"

record history_status =
  hs_state :: "history_state option"
  hs_rangeFrom :: "instant option"
  hs_rangeTo :: "instant option"
  hs_models :: nat
  hs_processedSnapshots :: nat
  hs_totalSnapshots :: nat
  hs_nextAttempt :: "instant option"
  hs_lastError :: "string option"

text \<open>\<open>hs_state = None\<close> is \<open>"idle"\<close>.\<close>

definition historicalPricingStatusFromJob :: "history_job option \<Rightarrow> history_status" where
  "historicalPricingStatusFromJob job =
     (case job of
        None \<Rightarrow> \<lparr>hs_state = None, hs_rangeFrom = None, hs_rangeTo = None, hs_models = 0, hs_processedSnapshots = 0,
                 hs_totalSnapshots = 0, hs_nextAttempt = None, hs_lastError = None\<rparr>
      | Some j \<Rightarrow> \<lparr>hs_state = Some (hj_state j), hs_rangeFrom = Some (hj_rangeFrom j), hs_rangeTo = Some (hj_rangeTo j),
                 hs_models = length (hj_models j), hs_processedSnapshots = hj_nextIndex j,
                 hs_totalSnapshots = length (hj_refs j), hs_nextAttempt = hj_nextAttempt j, hs_lastError = hj_lastError j\<rparr>)"

section \<open>The input of a job\<close>

text \<open>Dates of models' first and last use; the texts are compared as instants.\<close>

definition usable_diagnostics :: "historical_diagnostic list \<Rightarrow> historical_diagnostic list" where
  "usable_diagnostics ds =
     js_sort (\<lambda>l r. hd_firstAt l - hd_firstAt r)
       (filter (\<lambda>d. case hd_model d of None \<Rightarrow> False | Some m \<Rightarrow> js_trim m \<noteq> []) ds)"

definition nextDate :: "string \<Rightarrow> string + string" where
  "nextDate date = addLocalCalendarDays date 1"

definition day_start :: "intl \<Rightarrow> string \<Rightarrow> string \<Rightarrow> string + instant" where
  "day_start db timezone date = firstInstantOfLocalDate db date timezone"

definition jobInput ::
  "intl \<Rightarrow> string \<Rightarrow> historical_diagnostic list \<Rightarrow> string + (instant \<times> instant \<times> string list) option" where
  "jobInput db timezone ds =
     (let usable = usable_diagnostics ds;
          models = take MAX_MODELS_PER_JOB (js_unique (map (the \<circ> hd_model) usable));
          selected = filter (\<lambda>d. the (hd_model d) \<in> set models) usable
      in if models = [] then Inr None
         else
           let firstAt = Min (set (map hd_firstAt selected)); lastAt = Max (set (map hd_lastAt selected)) in
           and_then (localDateKey db (Some firstAt) timezone) (\<lambda>firstDay.
           and_then (day_start db timezone firstDay) (\<lambda>rangeFrom.
           and_then (localDateKey db (Some lastAt) timezone) (\<lambda>lastDay.
           and_then (nextDate lastDay) (\<lambda>dayAfter.
           and_then (day_start db timezone dayAfter) (\<lambda>rangeTo.
           Inr (if rangeFrom < rangeTo then Some (rangeFrom, rangeTo, models) else None)))))))"

section \<open>Commits\<close>

fun append_new :: "string list \<Rightarrow> commit_ref list \<Rightarrow> commit_ref list" where
  "append_new seen [] = []"
| "append_new seen (r # rs) =
     (if ref_sha r \<in> set seen then append_new seen rs else r # append_new (ref_sha r # seen) rs)"

definition appendUnique :: "commit_ref list \<Rightarrow> commit_ref list \<Rightarrow> commit_ref list" where
  "appendUnique current nxt = append_new [] (current @ nxt)"

definition executionOrder :: "commit_ref list \<Rightarrow> commit_ref list" where
  "executionOrder refs =
     (case refs of
        [] \<Rightarrow> []
      | baseline # changes \<Rightarrow> appendUnique [baseline] (filter (\<lambda>r. ref_sha r \<noteq> ref_sha baseline) (rev changes)))"

definition resumeState :: "history_job \<Rightarrow> history_state" where
  "resumeState job =
     (if 0 < hj_listPage job then Job_listing else if hj_refs job \<noteq> [] then Job_fetching else Job_state_pending)"

datatype source_error = Rate_limited instant | Snapshot_invalid | Source_error string

definition rate_limit_reset :: "source_error \<Rightarrow> instant option" where
  "rate_limit_reset e = (case e of Rate_limited t \<Rightarrow> Some t | _ \<Rightarrow> None)"

definition known_source_error :: "string \<Rightarrow> bool" where
  "known_source_error s \<longleftrightarrow>
     (\<exists>p \<in> {''pricing commit list failed: '', ''pricing snapshot fetch failed: ''}.
        starts_with s p \<and> length s = length p + 3 \<and> list_all is_digit (drop (length p) s))"

definition sanitizedSourceError :: "source_error \<Rightarrow> string" where
  "sanitizedSourceError e =
     (case e of
        Rate_limited t \<Rightarrow> ''pricing source rate limited''
      | Snapshot_invalid \<Rightarrow> ''pricing history source unavailable''
      | Source_error s \<Rightarrow> if known_source_error s then s else ''pricing history source unavailable'')"

definition retryAt :: "history_job \<Rightarrow> instant \<Rightarrow> instant" where
  "retryAt job now = now + min SOURCE_RETRY_MAX_MS (SOURCE_RETRY_BASE_MS * 2 ^ min 10 (hj_failures job))"

section \<open>Candidates\<close>

text \<open>
  What the table keeps of a price: \<open>candidatePricing\<close> of the stored row. Prices are exact in
  \<open>NUMERIC\<close> columns, and the details in \<open>JSONB\<close>, as they are finite.
\<close>

definition stored_pricing :: "model_pricing \<Rightarrow> model_pricing" where
  "stored_pricing p =
     (let d = pricingDetails p in
      p\<lparr>p_contextTiers := p_contextTiers d, p_cacheCreate1hPerM := p_cacheCreate1hPerM d, p_contextScope := p_contextScope d,
        p_fastMultiplier := Some (case p_fastMultiplier p of None \<Rightarrow> Fin 1 | Some m \<Rightarrow> m)\<rparr>)"

definition same_candidate :: "history_candidate \<Rightarrow> history_candidate \<Rightarrow> bool" where
  "same_candidate c d \<longleftrightarrow> hc_model c = hc_model d \<and> hc_effectiveAt c = hc_effectiveAt d"

text \<open>\<open>INSERT ... ON CONFLICT DO UPDATE\<close> with \<open>valid_until = NULL\<close>.\<close>

definition upsert_candidate :: "history_candidate \<Rightarrow> history_candidate list \<Rightarrow> history_candidate list" where
  "upsert_candidate c cs = (if list_ex (same_candidate c) cs then map (\<lambda>d. if same_candidate c d then c else d) cs else cs @ [c])"

type_synonym snapshot_state = "history_candidate list \<times> (string \<times> history_candidate) list \<times> string list"

text \<open>The row of \<open>previous\<close> ends at the boundary, or goes if it would be empty.\<close>

definition close_previous :: "history_candidate \<Rightarrow> instant \<Rightarrow> history_candidate list \<Rightarrow> history_candidate list" where
  "close_previous previous boundary cs =
     (if hc_effectiveAt previous < boundary
      then map (\<lambda>c. if same_candidate previous c then c\<lparr>hc_validUntil := Some boundary\<rparr> else c) cs
      else filter (\<lambda>c. \<not> same_candidate previous c) cs)"

definition snapshot_row :: "string \<Rightarrow> string \<Rightarrow> instant \<Rightarrow> model_pricing \<Rightarrow> string \<Rightarrow> instant \<Rightarrow> history_candidate" where
  "snapshot_row model src effectiveAt p sha committedAt =
     \<lparr>hc_model = model, hc_source = src, hc_effectiveAt = effectiveAt, hc_validUntil = None,
      hc_pricing = stored_pricing p, hc_sha = sha, hc_committedAt = committedAt\<rparr>"

definition apply_to_model ::
  "history_job \<Rightarrow> instant \<Rightarrow> instant \<Rightarrow> pricing_snapshot \<Rightarrow> snapshot_state \<Rightarrow> string \<Rightarrow> snapshot_state" where
  "apply_to_model job boundary committedAt snapshot st model =
     (let (cands, opened, seen) = st;
          previous = map_of opened model;
          resolved = resolvePricingEntry (Some model) (snap_pricing snapshot)
      in if (case (previous, resolved) of
               (Some r, Some (src, p)) \<Rightarrow> hc_source r = src \<and> samePricing (hc_pricing r) p
             | _ \<Rightarrow> False)
         then st
         else
           let cands' = (case previous of None \<Rightarrow> cands | Some r \<Rightarrow> close_previous r boundary cands);
               opened' = AList.delete model opened;
               effectiveAt = (if model \<in> set seen then boundary else hj_rangeFrom job)
           in (case resolved of
                 None \<Rightarrow> (cands', opened', seen)
               | Some (src, p) \<Rightarrow>
                   if hj_rangeTo job \<le> effectiveAt then (cands', opened', seen)
                   else let row = snapshot_row model src effectiveAt p (ref_sha (snap_ref snapshot)) committedAt
                        in (upsert_candidate row cands', AList.update model row opened',
                            if model \<in> set seen then seen else seen @ [model])))"

definition applySnapshot :: "history_job \<Rightarrow> pricing_snapshot \<Rightarrow> snapshot_state \<Rightarrow> string + snapshot_state" where
  "applySnapshot job snapshot st =
     (case ref_committedAt (snap_ref snapshot) of
        None \<Rightarrow> Inl ''invalid pricing history commit time''
      | Some committedAt \<Rightarrow>
          (let boundary = (if committedAt < hj_rangeFrom job then hj_rangeFrom job else committedAt)
           in Inr (foldl (apply_to_model job boundary committedAt snapshot) st (hj_models job))))"

fun applySnapshots :: "history_job \<Rightarrow> pricing_snapshot list \<Rightarrow> snapshot_state \<Rightarrow> string + snapshot_state" where
  "applySnapshots job [] st = Inr st"
| "applySnapshots job (s # ss) st = and_then (applySnapshot job s st) (applySnapshots job ss)"

definition open_candidates :: "history_candidate list \<Rightarrow> (string \<times> history_candidate) list" where
  "open_candidates cs = js_map_of_list (map (\<lambda>c. (hc_model c, c)) (filter (\<lambda>c. hc_validUntil c = None) cs))"

definition seen_models :: "history_candidate list \<Rightarrow> string list" where
  "seen_models cs = js_unique (map hc_model cs)"

definition close_all :: "instant \<Rightarrow> history_candidate list \<Rightarrow> history_candidate list" where
  "close_all rangeTo cs =
     filter (\<lambda>c. hc_validUntil c \<noteq> None)
       (map (\<lambda>c. if hc_validUntil c = None \<and> hc_effectiveAt c < rangeTo then c\<lparr>hc_validUntil := Some rangeTo\<rparr> else c) cs)"

section \<open>The repository\<close>

definition SUPERSEDED :: string where "SUPERSEDED = ''historical pricing job update was superseded''"

text \<open>\<open>UPDATE ... WHERE id = i AND ... RETURNING\<close>: the updated row, or an exception.\<close>

definition update_history ::
  "string \<Rightarrow> (history_job \<Rightarrow> bool) \<Rightarrow> (history_job \<Rightarrow> history_job) \<Rightarrow> pricing_db \<Rightarrow> (string + history_job) \<times> pricing_db" where
  "update_history i P f db =
     (case find (\<lambda>j. hj_id j = i \<and> P j) (pd_jobs db) of
        None \<Rightarrow> (Inl SUPERSEDED, db)
      | Some j \<Rightarrow> (Inr (f j), db\<lparr>pd_jobs := map (\<lambda>k. if hj_id k = i \<and> P k then f k else k) (pd_jobs db)\<rparr>))"

definition getActive :: "pricing_db \<Rightarrow> history_job option" where
  "getActive db = find (\<lambda>j. hj_state j \<noteq> Job_completed) (pd_jobs db)"

definition findCompleted :: "instant \<Rightarrow> instant \<Rightarrow> string list \<Rightarrow> pricing_db \<Rightarrow> history_job option" where
  "findCompleted rangeFrom rangeTo models db =
     (case js_sort (\<lambda>l r. cmp_ord (case hj_completedAt r of None \<Rightarrow> 0 | Some t \<Rightarrow> t) (case hj_completedAt l of None \<Rightarrow> 0 | Some t \<Rightarrow> t))
        (filter (\<lambda>j. hj_state j = Job_completed \<and> hj_rangeFrom j = rangeFrom \<and> hj_rangeTo j = rangeTo
            \<and> set (hj_models j) = set models \<and> hj_version j = HISTORY_ALGORITHM_VERSION) (pd_jobs db))
      of [] \<Rightarrow> None | j # _ \<Rightarrow> Some j)"

definition getStatus :: "pricing_db \<Rightarrow> history_status" where
  "getStatus db = historicalPricingStatusFromJob
     (case rev (filter (\<lambda>j. hj_state j \<noteq> Job_completed) (pd_jobs db)) of
        j # _ \<Rightarrow> Some j
      | [] \<Rightarrow> (case rev (pd_jobs db) of j # _ \<Rightarrow> Some j | [] \<Rightarrow> None))"

text \<open>The unique index allows one job that is not completed. \<open>newId\<close> is the generated key.\<close>

definition create_job ::
  "string \<Rightarrow> instant \<Rightarrow> instant \<Rightarrow> string list \<Rightarrow> pricing_db \<Rightarrow> history_job \<times> pricing_db" where
  "create_job newId rangeFrom rangeTo models db =
     (case getActive db of
        Some j \<Rightarrow> (j, db)
      | None \<Rightarrow>
          (let j = \<lparr>hj_id = newId, hj_version = HISTORY_ALGORITHM_VERSION, hj_state = Job_state_pending, hj_rangeFrom = rangeFrom,
              hj_rangeTo = rangeTo, hj_models = models, hj_refs = [], hj_listPage = 0, hj_nextIndex = 0, hj_nextAttempt = None,
              hj_rateLimitReset = None, hj_failures = 0, hj_lastError = None, hj_completedAt = None, hj_candidates = []\<rparr>
           in (j, db\<lparr>pd_jobs := pd_jobs db @ [j]\<rparr>)))"

definition saveBaseline :: "string \<Rightarrow> commit_ref list \<Rightarrow> pricing_db \<Rightarrow> (string + history_job) \<times> pricing_db" where
  "saveBaseline i refs = update_history i (\<lambda>j. hj_state j = Job_state_pending)
     (\<lambda>j. j\<lparr>hj_state := Job_listing, hj_refs := refs, hj_listPage := 1, hj_nextAttempt := None, hj_rateLimitReset := None,
            hj_failures := 0, hj_lastError := None\<rparr>)"

definition saveCommitPage :: "string \<Rightarrow> commit_ref list \<Rightarrow> int option \<Rightarrow> pricing_db \<Rightarrow> (string + history_job) \<times> pricing_db" where
  "saveCommitPage i refs nextPage = update_history i (\<lambda>j. hj_state j = Job_listing)
     (\<lambda>j. j\<lparr>hj_state := (if nextPage = None then Job_fetching else Job_listing), hj_refs := refs,
            hj_listPage := (case nextPage of None \<Rightarrow> 0 | Some p \<Rightarrow> p), hj_nextIndex := 0, hj_nextAttempt := None,
            hj_rateLimitReset := None, hj_failures := 0, hj_lastError := None\<rparr>)"

definition saveSnapshots :: "string \<Rightarrow> pricing_snapshot list \<Rightarrow> pricing_db \<Rightarrow> (string + history_job) \<times> pricing_db" where
  "saveSnapshots i snapshots db =
     (case find (\<lambda>j. hj_id j = i \<and> hj_state j = Job_fetching) (pd_jobs db) of
        None \<Rightarrow> (Inl ''historical pricing job was superseded'', db)
      | Some job \<Rightarrow>
          if map ref_sha (take (length snapshots) (drop (hj_nextIndex job) (hj_refs job))) \<noteq> map (ref_sha \<circ> snap_ref) snapshots
          then (Inl ''historical pricing snapshot cursor mismatch'', db)
          else
            (case applySnapshots job snapshots (hj_candidates job, open_candidates (hj_candidates job), seen_models (hj_candidates job)) of
               Inl e \<Rightarrow> (Inl e, db)
             | Inr (cands, opened, seen) \<Rightarrow>
                 (let nextIndex = hj_nextIndex job + length snapshots;
                      finished = (nextIndex = length (hj_refs job))
                  in update_history i (\<lambda>j. hj_state j = Job_fetching)
                       (\<lambda>j. j\<lparr>hj_state := (if finished then Job_promoting else Job_fetching), hj_nextIndex := nextIndex,
                              hj_failures := 0, hj_lastError := None, hj_nextAttempt := None, hj_rateLimitReset := None,
                              hj_candidates := (if finished then close_all (hj_rangeTo job) cands else cands)\<rparr>) db)))"

definition skipSnapshot :: "string \<Rightarrow> commit_ref \<Rightarrow> pricing_db \<Rightarrow> (string + history_job) \<times> pricing_db" where
  "skipSnapshot i ref db =
     (case find (\<lambda>j. hj_id j = i \<and> hj_state j = Job_fetching) (pd_jobs db) of
        None \<Rightarrow> (Inl ''historical pricing job was superseded'', db)
      | Some job \<Rightarrow>
          if map ref_sha (take 1 (drop (hj_nextIndex job) (hj_refs job))) \<noteq> [ref_sha ref]
          then (Inl ''historical pricing snapshot cursor mismatch'', db)
          else
            (let nextIndex = hj_nextIndex job + 1
             in update_history i (\<lambda>j. hj_state j = Job_fetching)
                  (\<lambda>j. j\<lparr>hj_state := (if nextIndex = length (hj_refs job) then Job_promoting else Job_fetching),
                         hj_nextIndex := nextIndex, hj_failures := 0, hj_nextAttempt := None, hj_rateLimitReset := None,
                         hj_lastError := Some ''invalid pricing snapshot skipped''\<rparr>) db))"

text \<open>\<open>INSERT ... ON CONFLICT (model_id, effective_at, source) DO NOTHING\<close>. The generated key is the
  position, which no other row has, as rows are never deleted.\<close>

definition revision_conflict :: "revision_row \<Rightarrow> revision_row \<Rightarrow> bool" where
  "revision_conflict r s \<longleftrightarrow> rv_model r = rv_model s \<and> rv_effectiveAt r = rv_effectiveAt s \<and> rv_source r = rv_source s"

definition insert_revision :: "nat \<times> revision_row list \<Rightarrow> revision_row \<Rightarrow> nat \<times> revision_row list" where
  "insert_revision acc r =
     (let (n, rows) = acc
      in if list_ex (revision_conflict r) rows then acc
         else (n + 1, rows @ [r\<lparr>rv_id := int_to_string (int (length rows))\<rparr>]))"

definition insert_revisions :: "revision_row list \<Rightarrow> revision_row list \<Rightarrow> nat \<times> revision_row list" where
  "insert_revisions new_rows rows = foldl insert_revision (0, rows) new_rows"

definition revision_of :: "instant \<Rightarrow> history_candidate \<Rightarrow> revision_row" where
  "revision_of at_t c =
     \<lparr>rv_id = [], rv_model = hc_model c, rv_effectiveAt = hc_effectiveAt c, rv_validUntil = hc_validUntil c,
      rv_pricing = hc_pricing c, rv_source = HISTORY_SOURCE, rv_authoritative = True, rv_sourceRef = Some (hc_sha c),
      rv_sourceModelId = Some (hc_source c), rv_observedAt = at_t\<rparr>"

definition by_model_effective :: "history_candidate \<Rightarrow> history_candidate \<Rightarrow> int" where
  "by_model_effective l r =
     (if hc_model l = hc_model r then hc_effectiveAt l - hc_effectiveAt r else cmp_ord (hc_model l) (hc_model r))"

definition promote :: "string \<Rightarrow> instant \<Rightarrow> pricing_db \<Rightarrow> (string + nat \<times> bool) \<times> pricing_db" where
  "promote i at_t db =
     (case find (\<lambda>j. hj_id j = i \<and> hj_state j = Job_promoting) (pd_jobs db) of
        None \<Rightarrow> (Inl ''historical pricing promotion was superseded'', db)
      | Some job \<Rightarrow>
          (let evidence = js_sort by_model_effective (filter (\<lambda>c. hc_validUntil c \<noteq> None) (hj_candidates job));
               evidenceFound = (evidence \<noteq> []);
               (inserted, revisions) = insert_revisions (map (revision_of at_t) evidence) (pd_revisions db);
               completed = (\<lambda>j. if hj_id j = i \<and> hj_state j = Job_promoting
                  then j\<lparr>hj_state := Job_completed, hj_completedAt := Some at_t, hj_nextAttempt := None,
                         hj_rateLimitReset := None, hj_lastError := None\<rparr> else j)
           in (Inr (inserted, evidenceFound),
               if evidenceFound
               then db\<lparr>pd_jobs := map completed (pd_jobs db), pd_revisions := revisions, pd_cacheVersion := Some at_t,
                       pd_repair := markPricingRepairPending at_t at_t at_t (pd_repair db)\<rparr>
               else db\<lparr>pd_jobs := map completed (pd_jobs db)\<rparr>)))"

definition waitForSource :: "string \<Rightarrow> instant \<Rightarrow> instant option \<Rightarrow> string \<Rightarrow> pricing_db \<Rightarrow> (string + history_job) \<times> pricing_db" where
  "waitForSource i retry_t resetAt err =
     update_history i (\<lambda>j. hj_state j \<in> {Job_state_pending, Job_listing, Job_fetching})
       (\<lambda>j. j\<lparr>hj_state := Job_waiting_source, hj_nextAttempt := Some retry_t, hj_rateLimitReset := resetAt,
              hj_failures := hj_failures j + 1, hj_lastError := Some (take 200 err)\<rparr>)"

definition resume_job :: "string \<Rightarrow> history_state \<Rightarrow> pricing_db \<Rightarrow> (string + history_job) \<times> pricing_db" where
  "resume_job i st = update_history i (\<lambda>j. hj_state j = Job_waiting_source)
     (\<lambda>j. j\<lparr>hj_state := st, hj_nextAttempt := None, hj_rateLimitReset := None\<rparr>)"


section \<open>One step\<close>

record history_source =
  so_listBaseline :: "instant \<Rightarrow> source_error + commit_ref list"
  so_listChanges :: "instant \<Rightarrow> instant \<Rightarrow> int \<Rightarrow> source_error + commit_ref list"
  so_fetchSnapshot :: "string \<Rightarrow> source_error + pricing_map"

text \<open>
  The loop of the fetching state: the snapshots fetched, and the reference whose snapshot is invalid and
  is given up, if it came to one.
\<close>

fun fetch_snapshots ::
  "history_source \<Rightarrow> nat \<Rightarrow> commit_ref list \<Rightarrow> source_error + pricing_snapshot list \<times> commit_ref option" where
  "fetch_snapshots source failures [] = Inr ([], None)"
| "fetch_snapshots source failures (r # rs) =
     (case so_fetchSnapshot source (ref_sha r) of
        Inr pricing \<Rightarrow>
          (case fetch_snapshots source failures rs of
             Inl e \<Rightarrow> Inl e
           | Inr (ss, skipped) \<Rightarrow> Inr (\<lparr>snap_ref = r, snap_pricing = pricing\<rparr> # ss, skipped))
      | Inl e \<Rightarrow>
          if e \<noteq> Snapshot_invalid \<or> failures < INVALID_SNAPSHOT_SKIP_AFTER_FAILURES then Inl e else Inr ([], Some r))"

text \<open>The \<open>try\<close> block: the result or what was thrown, with the state as it was then.\<close>

type_synonym attempt = "(source_error + history_step) \<times> pricing_db"

definition saved :: "(string + history_job) \<times> pricing_db \<Rightarrow> (history_job \<Rightarrow> pricing_db \<Rightarrow> attempt) \<Rightarrow> attempt" where
  "saved r continue = (case r of (Inl e, db) \<Rightarrow> (Inl (Source_error e), db) | (Inr j, db) \<Rightarrow> continue j db)"

definition step_pending :: "history_source \<Rightarrow> instant \<Rightarrow> history_job \<Rightarrow> pricing_db \<Rightarrow> attempt" where
  "step_pending source now job db =
     (case so_listBaseline source (hj_rangeFrom job) of
        Inl e \<Rightarrow> (Inl e, db)
      | Inr [] \<Rightarrow> saved (waitForSource (hj_id job) (retryAt job now) None ''pricing history baseline unavailable'' db)
                   (\<lambda>j db. (Inr (History_no_evidence (retryAt job now)), db))
      | Inr (b # bs) \<Rightarrow> saved (saveBaseline (hj_id job) [b] db) (\<lambda>j db. (Inr (History_listing now), db)))"

definition step_listing :: "history_source \<Rightarrow> instant \<Rightarrow> history_job \<Rightarrow> pricing_db \<Rightarrow> attempt" where
  "step_listing source now job db =
     (case so_listChanges source (hj_rangeFrom job) (hj_rangeTo job) (hj_listPage job) of
        Inl e \<Rightarrow> (Inl e, db)
      | Inr page \<Rightarrow>
          (let refs = appendUnique (hj_refs job) page;
               finished = (length page < 100)
           in saved (saveCommitPage (hj_id job) (if finished then executionOrder refs else refs)
                  (if finished then None else Some (hj_listPage job + 1)) db)
                (\<lambda>j db. (Inr (if finished then History_fetching now else History_listing now), db))))"

definition step_fetching :: "history_source \<Rightarrow> instant \<Rightarrow> history_job \<Rightarrow> pricing_db \<Rightarrow> attempt" where
  "step_fetching source now job db =
     (let refs = take MAX_SNAPSHOTS_PER_STEP (drop (hj_nextIndex job) (hj_refs job))
      in if refs = [] then (Inl (Source_error ''pricing history cursor is invalid''), db)
         else (case fetch_snapshots source (hj_failures job) refs of
             Inl e \<Rightarrow> (Inl e, db)
           | Inr (snapshots, None) \<Rightarrow> saved (saveSnapshots (hj_id job) snapshots db) (\<lambda>j db. (Inr (History_fetching now), db))
           | Inr (snapshots, Some r) \<Rightarrow>
               if snapshots \<noteq> []
               then saved (saveSnapshots (hj_id job) snapshots db) (\<lambda>j db.
                      saved (skipSnapshot (hj_id j) r db) (\<lambda>k db. (Inr (History_fetching now), db)))
               else saved (skipSnapshot (hj_id job) r db) (\<lambda>k db. (Inr (History_fetching now), db))))"

definition step_promoting :: "instant \<Rightarrow> history_job \<Rightarrow> pricing_db \<Rightarrow> attempt" where
  "step_promoting now job db =
     (case promote (hj_id job) now db of
        (Inl e, db) \<Rightarrow> (Inl (Source_error e), db)
      | (Inr (inserted, evidenceFound), db) \<Rightarrow>
          (Inr (if evidenceFound then History_promoted (int inserted) else History_no_evidence (now + SOURCE_RETRY_MAX_MS)), db))"

definition step_job :: "history_source \<Rightarrow> instant \<Rightarrow> history_job \<Rightarrow> pricing_db \<Rightarrow> attempt" where
  "step_job source now job db =
     (case hj_state job of
        Job_state_pending \<Rightarrow> step_pending source now job db
      | Job_listing \<Rightarrow> step_listing source now job db
      | Job_fetching \<Rightarrow> step_fetching source now job db
      | Job_promoting \<Rightarrow> step_promoting now job db
      | _ \<Rightarrow> (Inr (History_no_evidence (now + SOURCE_RETRY_MAX_MS)), db))"

text \<open>The \<open>catch\<close> block. Its own \<open>waitForSource\<close> may throw. It writes with \<open>job\<close> as fetched, of
  which only the key and the failures count.\<close>

definition wait_after :: "instant \<Rightarrow> history_job \<Rightarrow> attempt \<Rightarrow> (string + history_step) \<times> pricing_db" where
  "wait_after now job a =
     (case a of
        (Inr result, db) \<Rightarrow> (Inr result, db)
      | (Inl e, db) \<Rightarrow>
          (let t = (case rate_limit_reset e of Some reset \<Rightarrow> reset | None \<Rightarrow> retryAt job now)
           in (case waitForSource (hj_id job) t (rate_limit_reset e) (sanitizedSourceError e) db of
                 (Inl err, db) \<Rightarrow> (Inl err, db)
               | (Inr j, db) \<Rightarrow> (Inr (History_waiting_source t), db))))"

definition runHistoricalPricingStepWith ::
  "intl \<Rightarrow> string \<Rightarrow> history_source \<Rightarrow> instant \<Rightarrow> string \<Rightarrow> historical_diagnostic list \<Rightarrow> pricing_db \<Rightarrow>
     (string + history_step) \<times> pricing_db" where
  "runHistoricalPricingStepWith tzdb timezone source now newId diagnostics db =
     (case getActive db of
        None \<Rightarrow>
          (case jobInput tzdb timezone diagnostics of
             Inl e \<Rightarrow> (Inl e, db)
           | Inr None \<Rightarrow> (Inr (History_no_evidence (now + SOURCE_RETRY_MAX_MS)), db)
           | Inr (Some (rangeFrom, rangeTo, models)) \<Rightarrow>
               if findCompleted rangeFrom rangeTo models db \<noteq> None
               then (Inr (History_no_evidence (now + SOURCE_RETRY_MAX_MS)), db)
               else (Inr (History_listing now), snd (create_job newId rangeFrom rangeTo models db)))
      | Some job \<Rightarrow>
          if hj_state job = Job_waiting_source
          then
            if (case hj_nextAttempt job of None \<Rightarrow> False | Some t \<Rightarrow> now < t)
            then (Inr (History_waiting_source (the (hj_nextAttempt job))), db)
            else
              (case resume_job (hj_id job) (resumeState job) db of
                 (Inl e, db) \<Rightarrow> (Inl e, db)
               | (Inr j, db) \<Rightarrow> (Inr (if resumeState job = Job_fetching then History_fetching now else History_listing now), db))
          else wait_after now job (step_job source now job db))"

end
