(* ===== verification/Pricing_Jobs_Proofs.thy ===== *)
theory Pricing_Jobs_Proofs
  imports Pricing_Jobs
begin

text \<open>
  What the job promotes: the candidates of a model cover its range with the price of the snapshot in
  force, and with the first listed price before the model was listed, however the snapshots are batched.
\<close>

section \<open>The reference\<close>

definition listed_in :: "string \<Rightarrow> instant \<times> pricing_map \<Rightarrow> bool" where
  "listed_in m s \<longleftrightarrow> resolvePricingEntry (Some m) (snd s) \<noteq> None"

text \<open>The price in force at \<open>t\<close>, or the first one of the series while the model has not been listed yet.\<close>

definition backdated_price :: "snapshots \<Rightarrow> instant \<Rightarrow> string \<Rightarrow> (string \<times> model_pricing) option" where
  "backdated_price snaps t m =
     (if list_ex (\<lambda>s. fst s \<le> t \<and> listed_in m s) snaps then price_in_force snaps t m
      else (case filter (listed_in m) snaps of [] \<Rightarrow> None | s # _ \<Rightarrow> resolvePricingEntry (Some m) (snd s)))"

definition row_covers :: "instant \<Rightarrow> history_candidate \<Rightarrow> bool" where
  "row_covers t c \<longleftrightarrow> hc_effectiveAt c \<le> t \<and> (case hc_validUntil c of None \<Rightarrow> True | Some u \<Rightarrow> t < u)"

definition history_covering :: "instant \<Rightarrow> history_candidate list \<Rightarrow> (string \<times> model_pricing) list" where
  "history_covering t cs = map (\<lambda>c. (hc_source c, hc_pricing c)) (filter (row_covers t) cs)"

definition price_agrees :: "string \<times> model_pricing \<Rightarrow> string \<times> model_pricing \<Rightarrow> bool" where
  "price_agrees stored sp \<longleftrightarrow> fst stored = fst sp \<and> (snd stored = stored_pricing (snd sp) \<or> samePricing (snd stored) (snd sp))"

definition covered_by :: "(string \<times> model_pricing) list \<Rightarrow> (string \<times> model_pricing) option \<Rightarrow> bool" where
  "covered_by cs price = (case price of None \<Rightarrow> cs = [] | Some sp \<Rightarrow> (\<exists>c. cs = [c] \<and> price_agrees c sp))"

definition model_rows :: "string \<Rightarrow> history_candidate list \<Rightarrow> history_candidate list" where
  "model_rows m = filter (\<lambda>c. hc_model c = m)"

lemma price_in_force_last:
  "c \<le> t \<Longrightarrow> price_in_force (snaps @ [(c, p)]) t m = resolvePricingEntry (Some m) p"
  by (simp add: price_in_force_append)

lemma backdated_price_append:
  assumes "\<And>s. s \<in> set snaps \<Longrightarrow> fst s \<le> c"
  shows "backdated_price (snaps @ [(c, p)]) t m =
    (if list_ex (listed_in m) snaps \<and> t < c then backdated_price snaps t m else resolvePricingEntry (Some m) p)"
proof (cases "list_ex (listed_in m) snaps")
  case True
  then obtain s where s: "s \<in> set snaps" "listed_in m s" by (auto simp: list_ex_iff)
  show ?thesis
  proof (cases "t < c")
    case True
    then have "filter (listed_in m) snaps \<noteq> []" using s by (auto simp: filter_empty_conv)
    then show ?thesis using True s \<open>list_ex _ _\<close>
      by (auto simp: backdated_price_def price_in_force_append split: list.splits)
  next
    case False
    then have "fst s \<le> t" using assms [OF s(1)] by simp
    then show ?thesis using False s by (auto simp: backdated_price_def price_in_force_append list_ex_iff)
  qed
next
  case False
  then have none: "filter (listed_in m) snaps = []" and ex: "\<not> list_ex (\<lambda>s. fst s \<le> t \<and> listed_in m s) snaps"
    by (auto simp: list_ex_iff filter_empty_conv)
  show ?thesis
    using False none ex
    by (cases "resolvePricingEntry (Some m) p") (auto simp: backdated_price_def price_in_force_append listed_in_def)
qed

section \<open>One model\<close>

definition history_ok ::
  "instant \<Rightarrow> instant \<Rightarrow> snapshots \<Rightarrow> string \<Rightarrow> instant \<Rightarrow> history_candidate list \<Rightarrow> history_candidate option \<Rightarrow> bool \<Rightarrow> bool" where
  "history_ok F U snaps m b rows prev seen \<longleftrightarrow>
     (\<forall>t. F \<le> t \<and> t < U \<longrightarrow> covered_by (history_covering t rows) (backdated_price snaps t m))
     \<and> (\<forall>c \<in> set rows. hc_model c = m \<and> F \<le> hc_effectiveAt c \<and> hc_effectiveAt c < U \<and> hc_effectiveAt c \<le> b
          \<and> (case hc_validUntil c of None \<Rightarrow> prev = Some c | Some u \<Rightarrow> hc_effectiveAt c < u \<and> u \<le> b))
     \<and> distinct (map hc_effectiveAt rows)
     \<and> (case prev of None \<Rightarrow> True | Some r \<Rightarrow> r \<in> set rows \<and> hc_validUntil r = None)
     \<and> (seen \<longleftrightarrow> rows \<noteq> []) \<and> (seen \<longleftrightarrow> list_ex (listed_in m) snaps)"

lemma history_ok_initial: "history_ok F U [] m (F - 1) [] None False"
  by (simp add: history_ok_def history_covering_def covered_by_def backdated_price_def price_in_force_def)

text \<open>One model through one snapshot, on its own rows.\<close>

definition keeps_row :: "history_candidate option \<Rightarrow> (string \<times> model_pricing) option \<Rightarrow> bool" where
  "keeps_row prev resolved = (case (prev, resolved) of
     (Some r, Some (src, p)) \<Rightarrow> hc_source r = src \<and> samePricing (hc_pricing r) p | _ \<Rightarrow> False)"

definition closed_rows :: "history_candidate option \<Rightarrow> instant \<Rightarrow> history_candidate list \<Rightarrow> history_candidate list" where
  "closed_rows prev b rows = (case prev of None \<Rightarrow> rows | Some r \<Rightarrow> close_previous r b rows)"

lemma history_covering_append: "history_covering t (xs @ ys) = history_covering t xs @ history_covering t ys"
  by (simp add: history_covering_def)

lemma history_covering_close:
  assumes d: "distinct (map hc_effectiveAt rows)" and r: "r \<in> set rows" "hc_validUntil r = None" "hc_effectiveAt r < b"
    and m: "\<forall>c \<in> set rows. hc_model c = hc_model r"
  shows "t < b \<Longrightarrow> history_covering t (close_previous r b rows) = history_covering t rows"
    and "\<forall>c \<in> set rows. (case hc_validUntil c of None \<Rightarrow> c = r | Some u \<Rightarrow> u \<le> b) \<Longrightarrow> b \<le> t \<Longrightarrow>
       history_covering t (close_previous r b rows) = []"
    and "map hc_effectiveAt (close_previous r b rows) = map hc_effectiveAt rows"
proof -
  let ?f = "\<lambda>c. if same_candidate r c then c\<lparr>hc_validUntil := Some b\<rparr> else c"
  have same: "c = r" if "c \<in> set rows" "same_candidate r c" for c
    using d that r(1) by (auto simp: same_candidate_def distinct_map inj_on_def)
  have cp: "close_previous r b rows = map ?f rows" using r(3) by (simp add: close_previous_def)
  show "map hc_effectiveAt (close_previous r b rows) = map hc_effectiveAt rows" by (auto simp: cp)
  show "history_covering t (close_previous r b rows) = history_covering t rows" if t: "t < b"
  proof -
    have "row_covers t (?f c) = row_covers t c" if "c \<in> set rows" for c
      using same [OF that] r(2) t by (auto simp: row_covers_def)
    then have "filter (row_covers t) (map ?f rows) = map ?f (filter (row_covers t) rows)"
      by (induction rows) auto
    then show ?thesis by (auto simp: history_covering_def cp)
  qed
  show "history_covering t (close_previous r b rows) = []"
    if a: "\<forall>c \<in> set rows. case hc_validUntil c of None \<Rightarrow> c = r | Some u \<Rightarrow> u \<le> b" and t: "b \<le> t"
  proof -
    have "\<not> row_covers t (?f c)" if c: "c \<in> set rows" for c
    proof (cases "hc_validUntil c")
      case None
      then have "c = r" using a c by fastforce
      then show ?thesis using t by (simp add: row_covers_def same_candidate_def)
    next
      case (Some u)
      then have "u \<le> b" using a c by fastforce
      then show ?thesis using t Some by (simp add: row_covers_def)
    qed
    then have "filter (row_covers t) (map ?f rows) = []" unfolding filter_empty_conv set_map by blast
    then show ?thesis by (simp only: history_covering_def cp list.map)
  qed
qed


lemma history_ok_step:
  assumes ok: "history_ok F U snaps m b0 rows prev seen" and b: "b = max F c" "b0 < b"
    and times: "\<And>s. s \<in> set snaps \<Longrightarrow> fst s \<le> c" and FU: "F < U"
    and new: "rows' = (if keeps_row prev (resolvePricingEntry (Some m) p) then rows
        else closed_rows prev b rows @ (case resolvePricingEntry (Some m) p of None \<Rightarrow> []
          | Some (src, q) \<Rightarrow> if U \<le> (if seen then b else F) then [] else [snapshot_row m src (if seen then b else F) q sha c]))"
    and prev': "prev' = (if keeps_row prev (resolvePricingEntry (Some m) p) then prev
        else (case resolvePricingEntry (Some m) p of None \<Rightarrow> None
          | Some (src, q) \<Rightarrow> if U \<le> (if seen then b else F) then None else Some (snapshot_row m src (if seen then b else F) q sha c)))"
    and seen': "seen' = (seen \<or> resolvePricingEntry (Some m) p \<noteq> None)"
  shows "history_ok F U (snaps @ [(c, p)]) m b rows' prev' seen'"
proof -
  let ?res = "resolvePricingEntry (Some m) p"
  have cov: "\<And>t. F \<le> t \<Longrightarrow> t < U \<Longrightarrow> covered_by (history_covering t rows) (backdated_price snaps t m)"
    and row: "\<And>d. d \<in> set rows \<Longrightarrow> hc_model d = m \<and> F \<le> hc_effectiveAt d \<and> hc_effectiveAt d < U \<and> hc_effectiveAt d \<le> b0
          \<and> (case hc_validUntil d of None \<Rightarrow> prev = Some d | Some u \<Rightarrow> hc_effectiveAt d < u \<and> u \<le> b0)"
    and dist: "distinct (map hc_effectiveAt rows)"
    and pr: "\<And>r. prev = Some r \<Longrightarrow> r \<in> set rows \<and> hc_validUntil r = None"
    and sr: "seen \<longleftrightarrow> rows \<noteq> []" and sl: "seen \<longleftrightarrow> list_ex (listed_in m) snaps"
    using ok by (auto simp: history_ok_def split: option.splits)
  have spec: "backdated_price (snaps @ [(c, p)]) t m = (if seen \<and> t < b then backdated_price snaps t m else ?res)" if "F \<le> t" for t
    using backdated_price_append [of snaps c p t m] times sl that b(1) by (auto simp: max_def split: if_splits)
  have listed: "seen' \<longleftrightarrow> list_ex (listed_in m) (snaps @ [(c, p)])" using sl by (auto simp: seen' listed_in_def)
  have unseen: "rows = []" "prev = None" if "\<not> seen" using that sr pr by fastforce+
  show ?thesis
  proof (cases "keeps_row prev ?res")
    case True
    then obtain r src q where r: "prev = Some r" "?res = Some (src, q)" "hc_source r = src" "samePricing (hc_pricing r) q"
      by (auto simp: keeps_row_def split: option.splits)
    have seen: "seen" using pr [OF r(1)] sr by auto
    have rr: "r \<in> set rows" "hc_validUntil r = None" "hc_effectiveAt r < b" using pr [OF r(1)] row [of r] b(2) by auto
    have one: "history_covering t rows = [(src, hc_pricing r)]" if t: "b \<le> t" for t
    proof -
      have c1: "row_covers t d \<longleftrightarrow> d = r" if "d \<in> set rows" for d
        using row [OF that] r(1) rr b(2) t by (auto simp: row_covers_def split: option.splits)
      have "distinct rows" using dist by (simp add: distinct_map)
      then have "filter (\<lambda>d. d = r) rows = [r]" using rr(1) by (induction rows) (auto simp: filter_empty_conv)
      moreover have "filter (row_covers t) rows = filter (\<lambda>d. d = r) rows" using c1 by (rule filter_cong [OF refl])
      ultimately show ?thesis using r(3) by (simp add: history_covering_def)
    qed
    have "covered_by (history_covering t rows) (backdated_price (snaps @ [(c, p)]) t m)" if t: "F \<le> t" "t < U" for t
    proof (cases "t < b")
      case True
      then show ?thesis using cov [OF t] spec [OF t(1)] seen by simp
    next
      case False
      then show ?thesis using one [of t] spec [OF t(1)] r by (simp add: covered_by_def price_agrees_def)
    qed
    moreover have "hc_model d = m \<and> F \<le> hc_effectiveAt d \<and> hc_effectiveAt d < U \<and> hc_effectiveAt d \<le> b
          \<and> (case hc_validUntil d of None \<Rightarrow> prev = Some d | Some u \<Rightarrow> hc_effectiveAt d < u \<and> u \<le> b)" if "d \<in> set rows" for d
      using row [OF that] b(2) by (auto split: option.splits)
    ultimately show ?thesis
      using True dist pr sr seen r(1) listed unfolding history_ok_def new prev' by (simp add: seen')
  next
    case False
    have open_b: "\<forall>d \<in> set rows. case hc_validUntil d of None \<Rightarrow> prev = Some d | Some u \<Rightarrow> u \<le> b"
      using row b(2) by (fastforce split: option.splits)
    let ?cl = "closed_rows prev b rows"
    have before: "history_covering t ?cl = history_covering t rows" if "t < b" for t
    proof (cases prev)
      case (Some r)
      have "hc_effectiveAt r < b" "hc_model r = m" using pr [OF Some] row [of r] b(2) by auto
      then show ?thesis using history_covering_close(1) [OF dist _ _ _ _ that, of r] pr [OF Some] row Some by (simp add: closed_rows_def)
    qed (simp add: closed_rows_def)
    have after: "history_covering t ?cl = []" if t: "b \<le> t" for t
    proof (cases prev)
      case None
      have "\<not> row_covers t d" if "d \<in> set rows" for d
        using open_b [rule_format, OF that] t None by (auto simp: row_covers_def split: option.splits)
      then show ?thesis by (simp add: closed_rows_def None history_covering_def filter_empty_conv)
    next
      case (Some r)
      have "hc_effectiveAt r < b" "hc_model r = m" using pr [OF Some] row [of r] b(2) by auto
      moreover have "\<forall>d \<in> set rows. case hc_validUntil d of None \<Rightarrow> d = r | Some u \<Rightarrow> u \<le> b"
        using open_b Some by (auto split: option.splits)
      ultimately show ?thesis using history_covering_close(2) [OF dist _ _ _ _ _ t, of r] pr [OF Some] row Some by (simp add: closed_rows_def)
    qed
    have eff: "map hc_effectiveAt ?cl = map hc_effectiveAt rows"
    proof (cases prev)
      case (Some r)
      have "hc_effectiveAt r < b" "hc_model r = m" using pr [OF Some] row [of r] b(2) by auto
      then show ?thesis using history_covering_close(3) [OF dist, of r b] pr [OF Some] row Some by (simp add: closed_rows_def)
    qed (simp add: closed_rows_def)
    have clr: "hc_model d = m \<and> F \<le> hc_effectiveAt d \<and> hc_effectiveAt d < U \<and> hc_effectiveAt d \<le> b0
          \<and> (\<exists>u. hc_validUntil d = Some u \<and> hc_effectiveAt d < u \<and> u \<le> b)" if d: "d \<in> set ?cl" for d
    proof (cases prev)
      case None
      then show ?thesis using d row [of d] b(2) by (auto simp: closed_rows_def split: option.splits)
    next
      case (Some r)
      have rb: "hc_effectiveAt r < b" "hc_model r = m" using pr [OF Some] row [of r] b(2) by auto
      obtain e where e: "e \<in> set rows" "d = (if same_candidate r e then e\<lparr>hc_validUntil := Some b\<rparr> else e)"
        using d rb(1) Some by (auto simp: closed_rows_def close_previous_def)
      have "e = r" if "hc_validUntil e = None" using row [OF e(1)] that Some by simp
      then show ?thesis using row [OF e(1)] e(2) rb b(2)
        by (auto simp: same_candidate_def split: option.splits if_splits)
    qed
    have cl_empty: "?cl = [] \<longleftrightarrow> rows = []" using eff by (metis map_is_Nil_conv)
    let ?at = "if seen then b else F"
    show ?thesis
    proof (cases "?res = None \<or> U \<le> ?at")
      case True
      have "rows' = ?cl \<and> prev' = None"
      proof (cases ?res)
        case None
        then show ?thesis using False by (simp add: new prev')
      next
        case (Some sp)
        obtain src q where sp: "?res = Some (src, q)" using Some by (cases sp) simp
        then have "U \<le> ?at" using True by simp
        then show ?thesis using False sp by (simp add: new prev')
      qed
      then have rows': "rows' = ?cl" and prev'': "prev' = None" by simp_all
      have same_seen: "seen' = seen"
      proof (cases "?res = None")
        case True
        then show ?thesis by (simp add: seen')
      next
        case False
        then have "\<not> (?at < U)" using True by linarith
        then have seen using FU by (cases seen) auto
        then show ?thesis by (simp add: seen')
      qed
      have "covered_by (history_covering t ?cl) (backdated_price (snaps @ [(c, p)]) t m)" if t: "F \<le> t" "t < U" for t
      proof (cases "t < b")
        case tb: True
        show ?thesis
        proof (cases seen)
          case True
          then show ?thesis using cov [OF t] before [OF tb] spec [OF t(1)] tb by simp
        next
          case ns: False
          then have "?res = None" using True FU by simp
          then show ?thesis using ns unseen [OF ns] spec [OF t(1)] by (simp add: covered_by_def closed_rows_def history_covering_def)
        qed
      next
        case tb: False
        have "?res = None" using True tb t FU by (auto split: if_splits)
        then show ?thesis using after [of t] tb spec [OF t(1)] by (simp add: covered_by_def)
      qed
      moreover have "hc_model d = m \<and> F \<le> hc_effectiveAt d \<and> hc_effectiveAt d < U \<and> hc_effectiveAt d \<le> b
          \<and> (case hc_validUntil d of None \<Rightarrow> None = Some d | Some u \<Rightarrow> hc_effectiveAt d < u \<and> u \<le> b)" if "d \<in> set ?cl" for d
        using clr [OF that] b(2) by auto
      ultimately show ?thesis
        unfolding history_ok_def rows' prev'' same_seen
        using dist eff sr cl_empty listed same_seen by simp
    next
      case open_: False
      then obtain src q where res: "?res = Some (src, q)" and at_U: "?at < U" by auto
      let ?row = "snapshot_row m src ?at q sha c"
      have rows': "rows' = ?cl @ [?row]" and prev'': "prev' = Some ?row" using False at_U res by (simp_all add: new prev')
      have s': "seen'" using res by (simp add: seen')
      have rc: "row_covers t ?row \<longleftrightarrow> ?at \<le> t" for t by (simp add: row_covers_def snapshot_row_def)
      have "covered_by (history_covering t rows') (backdated_price (snaps @ [(c, p)]) t m)" if t: "F \<le> t" "t < U" for t
      proof (cases "seen \<and> t < b")
        case True
        then show ?thesis using cov [OF t] before [of t] spec [OF t(1)] rc [of t]
          by (simp add: rows' history_covering_append) (simp add: history_covering_def)
      next
        case tb: False
        have "history_covering t ?cl = []"
          using tb after [of t] unseen by (cases seen) (simp_all add: closed_rows_def history_covering_def)
        moreover have "row_covers t ?row" using tb t rc [of t] by (auto split: if_splits)
        ultimately show ?thesis using tb spec [OF t(1)] res
          by (auto simp: rows' history_covering_append covered_by_def price_agrees_def history_covering_def snapshot_row_def)
      qed
      moreover have "hc_model d = m \<and> F \<le> hc_effectiveAt d \<and> hc_effectiveAt d < U \<and> hc_effectiveAt d \<le> b
          \<and> (case hc_validUntil d of None \<Rightarrow> prev' = Some d | Some u \<Rightarrow> hc_effectiveAt d < u \<and> u \<le> b)" if "d \<in> set rows'" for d
      proof (cases "d = ?row")
        case True
        then show ?thesis using at_U b prev'' by (auto simp: snapshot_row_def)
      next
        case False
        then have "d \<in> set ?cl" using that by (auto simp: rows')
        from clr [OF this] show ?thesis using b(2) by auto
      qed
      moreover have "distinct (map hc_effectiveAt rows')"
      proof -
        have "hc_effectiveAt d < ?at" if "d \<in> set ?cl" for d
        proof -
          have seen using that cl_empty sr by (metis empty_iff empty_set)
          then show ?thesis using clr [OF that] b(2) by simp
        qed
        moreover have "distinct (map hc_effectiveAt ?cl)" using dist eff by simp
        ultimately show ?thesis by (fastforce simp: rows' snapshot_row_def)
      qed
      moreover have "(seen' \<longleftrightarrow> rows' \<noteq> []) \<and> (seen' \<longleftrightarrow> list_ex (listed_in m) (snaps @ [(c, p)]))"
        using s' listed by (simp add: rows')
      moreover have "case prev' of None \<Rightarrow> True | Some r \<Rightarrow> r \<in> set rows' \<and> hc_validUntil r = None"
        by (simp add: prev'' rows') (simp add: snapshot_row_def)
      ultimately show ?thesis unfolding history_ok_def by blast
    qed
  qed
qed


section \<open>All models of a job\<close>

lemma model_rows_append [simp]: "model_rows m (xs @ ys) = model_rows m xs @ model_rows m ys"
  by (simp add: model_rows_def)

lemma model_rows_close:
  "model_rows k (close_previous r b cs) = (if k = hc_model r then close_previous r b (model_rows k cs) else model_rows k cs)"
  by (induction cs) (auto simp: model_rows_def close_previous_def same_candidate_def)

lemma close_previous_effective:
  "hc_effectiveAt r < b \<Longrightarrow> map hc_effectiveAt (close_previous r b cs) = map hc_effectiveAt cs"
  by (auto simp: close_previous_def)

text \<open>A snapshot's row is new in the table when no row of the model starts where it does.\<close>

lemma upsert_new:
  "hc_effectiveAt c \<notin> hc_effectiveAt ` set (model_rows (hc_model c) cs) \<Longrightarrow> upsert_candidate c cs = cs @ [c]"
  by (auto simp: upsert_candidate_def list_ex_iff same_candidate_def model_rows_def)

definition snapshot_inv ::
  "history_job \<Rightarrow> snapshots \<Rightarrow> instant \<Rightarrow> string \<Rightarrow> snapshot_state \<Rightarrow> bool" where
  "snapshot_inv job snaps b m st \<longleftrightarrow>
     history_ok (hj_rangeFrom job) (hj_rangeTo job) snaps m b (model_rows m (fst st)) (map_of (fst (snd st)) m) (m \<in> set (snd (snd st)))"

lemma map_of_delete_other: "k \<noteq> m \<Longrightarrow> map_of (AList.delete m al) k = map_of al k"
  by (simp add: delete_conv')

lemma apply_to_model_other:
  assumes "k \<noteq> m" "\<And>r. map_of (fst (snd st)) m = Some r \<Longrightarrow> hc_model r = m"
  shows "model_rows k (fst (apply_to_model job b c s st m)) = model_rows k (fst st)"
    and "map_of (fst (snd (apply_to_model job b c s st m))) k = map_of (fst (snd st)) k"
    and "k \<in> set (snd (snd (apply_to_model job b c s st m))) \<longleftrightarrow> k \<in> set (snd (snd st))"
proof -
  obtain cands opened seen where st: "st = (cands, opened, seen)" by (cases st)
  have up: "model_rows k (upsert_candidate r cs) = model_rows k cs" if "hc_model r = m" for r cs
  proof -
    have "model_rows k (map (\<lambda>d. if same_candidate r d then r else d) cs) = model_rows k cs"
      using that assms(1) by (induction cs) (auto simp: model_rows_def same_candidate_def)
    then show ?thesis using that assms(1) by (simp add: upsert_candidate_def) (simp add: model_rows_def)
  qed
  have cl: "model_rows k (close_previous r b cs) = model_rows k cs" if "map_of opened m = Some r" for r cs
    using assms that by (auto simp: model_rows_close st)
  show "model_rows k (fst (apply_to_model job b c s st m)) = model_rows k (fst st)"
    by (auto simp: apply_to_model_def st Let_def up cl snapshot_row_def split: option.splits prod.splits)
  show "map_of (fst (snd (apply_to_model job b c s st m))) k = map_of (fst (snd st)) k"
    using assms(1) by (auto simp: apply_to_model_def st Let_def map_of_delete_other update_conv' split: option.splits prod.splits)
  show "k \<in> set (snd (snd (apply_to_model job b c s st m))) \<longleftrightarrow> k \<in> set (snd (snd st))"
    using assms(1) by (auto simp: apply_to_model_def st Let_def split: option.splits prod.splits)
qed


lemma apply_to_model_same:
  fixes job c b m p s
  defines "F \<equiv> hj_rangeFrom job" and "U \<equiv> hj_rangeTo job"
  assumes inv: "snapshot_inv job snaps b0 m st" and b: "b = max F c" "b0 < b"
    and times: "\<And>s. s \<in> set snaps \<Longrightarrow> fst s \<le> c" and FU: "F < U"
  shows "snapshot_inv job (snaps @ [(c, snap_pricing s)]) b m (apply_to_model job b c s st m)"
proof -
  obtain cands opened seen where st: "st = (cands, opened, seen)" by (cases st)
  let ?rows = "model_rows m cands" and ?prev = "map_of opened m" and ?res = "resolvePricingEntry (Some m) (snap_pricing s)"
  let ?at = "if m \<in> set seen then b else F"
  have ok: "history_ok F U snaps m b0 ?rows ?prev (m \<in> set seen)" using inv by (simp add: snapshot_inv_def st F_def U_def)
  note step = history_ok_step [OF ok b times FU refl refl refl, where p = "snap_pricing s" and sha = "ref_sha (snap_ref s)"]
  show ?thesis
  proof (cases "keeps_row ?prev ?res")
    case True
    then have "apply_to_model job b c s st m = st" by (simp add: apply_to_model_def st Let_def keeps_row_def)
    moreover have "m \<in> set seen" using True ok by (auto simp: keeps_row_def history_ok_def split: option.splits)
    ultimately show ?thesis using step True unfolding snapshot_inv_def by (simp add: st F_def U_def)
  next
    case False
    let ?cl = "closed_rows ?prev b cands"
    have pm: "hc_model r = m" if "?prev = Some r" for r
      using ok that by (auto simp: history_ok_def)
    have cl: "model_rows m ?cl = closed_rows ?prev b ?rows"
      using pm by (auto simp: closed_rows_def model_rows_close split: option.splits)
    have eff: "hc_effectiveAt ` set (model_rows m ?cl) = hc_effectiveAt ` set ?rows"
    proof (cases ?prev)
      case (Some r)
      have "hc_effectiveAt r < b" using ok Some b(2) by (auto simp: history_ok_def)
      from close_previous_effective [OF this] have "map hc_effectiveAt (close_previous r b ?rows) = map hc_effectiveAt ?rows" .
      then have "set (map hc_effectiveAt (close_previous r b ?rows)) = set (map hc_effectiveAt ?rows)" by simp
      then show ?thesis using Some cl by (simp add: closed_rows_def)
    qed (simp add: closed_rows_def)
    have fresh: "?at \<notin> hc_effectiveAt ` set (model_rows m ?cl)"
    proof -
      have "hc_effectiveAt d < b" if "d \<in> set ?rows" for d using ok that b(2) by (auto simp: history_ok_def)
      moreover have "?rows = []" if "m \<notin> set seen" using ok that by (simp add: history_ok_def)
      ultimately show ?thesis unfolding eff by auto
    qed
    have app: "apply_to_model job b c s st m =
        (case ?res of None \<Rightarrow> (?cl, AList.delete m opened, seen)
         | Some (src, q) \<Rightarrow> if U \<le> ?at then (?cl, AList.delete m opened, seen)
             else (?cl @ [snapshot_row m src ?at q (ref_sha (snap_ref s)) c],
                   AList.update m (snapshot_row m src ?at q (ref_sha (snap_ref s)) c) (AList.delete m opened),
                   if m \<in> set seen then seen else seen @ [m]))"
    proof -
      have up: "upsert_candidate (snapshot_row m src ?at q sha c) ?cl = ?cl @ [snapshot_row m src ?at q sha c]" for src q sha
        by (rule upsert_new) (use fresh in \<open>simp add: snapshot_row_def\<close>)
      have nk: "\<not> (case ?prev of None \<Rightarrow> False | Some r \<Rightarrow> (case ?res of None \<Rightarrow> False
          | Some (src, p) \<Rightarrow> hc_source r = src \<and> samePricing (hc_pricing r) p))"
        using False by (simp add: keeps_row_def)
      have cl': "(case ?prev of None \<Rightarrow> cands | Some r \<Rightarrow> close_previous r b cands) = ?cl" by (simp add: closed_rows_def)
      show ?thesis
        unfolding apply_to_model_def st Let_def prod.case if_not_P [OF nk] cl' F_def [symmetric] U_def [symmetric] up ..
    qed
    have del: "map_of (AList.delete m opened) m = None" by (simp add: delete_conv')
    show ?thesis
    proof (cases ?res)
      case None
      then show ?thesis using step False by (simp add: snapshot_inv_def app cl del F_def U_def)
    next
      case (Some sp)
      obtain src q where sp: "?res = Some (src, q)" using Some by (cases sp) simp
      show ?thesis
      proof (cases "U \<le> ?at")
        case True
        have seen: "m \<in> set seen" using True FU by (cases "m \<in> set seen") simp_all
        show ?thesis using step False sp True seen by (simp add: snapshot_inv_def app cl del F_def U_def)
      next
        case nU: False
        have mr: "model_rows m [snapshot_row m src a q sha c] = [snapshot_row m src a q sha c]" for a sha
          by (simp add: model_rows_def snapshot_row_def)
        have "snapshot_inv job (snaps @ [(c, snap_pricing s)]) b m
           (?cl @ [snapshot_row m src ?at q (ref_sha (snap_ref s)) c],
                   AList.update m (snapshot_row m src ?at q (ref_sha (snap_ref s)) c) (AList.delete m opened),
                   if m \<in> set seen then seen else seen @ [m])"
          unfolding snapshot_inv_def fst_conv snd_conv model_rows_append cl mr
          using step False sp nU by (cases "m \<in> set seen") (simp_all add: update_conv' F_def U_def)
        then show ?thesis unfolding app sp option.case prod.case if_not_P [OF nU] .
      qed
    qed
  qed
qed


definition keyed_rows :: "snapshot_state \<Rightarrow> bool" where
  "keyed_rows st \<longleftrightarrow> (\<forall>k r. map_of (fst (snd st)) k = Some r \<longrightarrow> hc_model r = k)"

lemma keyed_rowsD: "keyed_rows st \<Longrightarrow> map_of (fst (snd st)) k = Some r \<Longrightarrow> hc_model r = k"
  by (simp add: keyed_rows_def)

lemma keyed_rows_apply:
  assumes "keyed_rows st"
  shows "keyed_rows (apply_to_model job b c s st m)"
  unfolding keyed_rows_def
proof (intro allI impI)
  fix k r
  assume r: "map_of (fst (snd (apply_to_model job b c s st m))) k = Some r"
  show "hc_model r = k"
  proof (cases "k = m")
    case False
    have "hc_model x = m" if "map_of (fst (snd st)) m = Some x" for x by (rule keyed_rowsD [OF assms that])
    from apply_to_model_other(2) [where job = job and b = b and c = c and s = s and st = st, OF False this] r show ?thesis using keyed_rowsD [OF assms] by simp
  next
    case True
    obtain cands opened seen where st: "st = (cands, opened, seen)" by (cases st)
    have d: "map_of (AList.delete m opened) m = None" by (simp add: delete_conv')
    have "map_of opened m = Some r \<or> (\<exists>src a q sha. r = snapshot_row m src a q sha c)"
      using r True d by (auto simp: apply_to_model_def st Let_def update_conv' split: option.splits prod.splits if_splits)
    then show ?thesis using keyed_rowsD [OF assms, of m r] True by (auto simp: st snapshot_row_def)
  qed
qed

lemma apply_to_models:
  fixes job c b s
  defines "step \<equiv> apply_to_model job b c s"
  assumes b: "b = max (hj_rangeFrom job) c" "b0 < b" and times: "\<And>s. s \<in> set snaps \<Longrightarrow> fst s \<le> c"
    and FU: "hj_rangeFrom job < hj_rangeTo job"
  shows "distinct ms \<Longrightarrow> keyed_rows st \<Longrightarrow> (\<And>m. m \<in> set ms \<Longrightarrow> snapshot_inv job snaps b0 m st) \<Longrightarrow>
    keyed_rows (foldl step st ms)
    \<and> (\<forall>m \<in> set ms. snapshot_inv job (snaps @ [(c, snap_pricing s)]) b m (foldl step st ms))
    \<and> (\<forall>k sn b. k \<notin> set ms \<longrightarrow> snapshot_inv job sn b k (foldl step st ms) = snapshot_inv job sn b k st)"
proof (induction ms arbitrary: st)
  case (Cons m ms)
  let ?st = "step st m"
  have k: "keyed_rows ?st" unfolding step_def by (rule keyed_rows_apply [OF Cons.prems(2)])
  have other: "snapshot_inv job sn b' k' ?st = snapshot_inv job sn b' k' st" if "k' \<noteq> m" for sn b' k'
  proof -
    have key: "hc_model x = m" if "map_of (fst (snd st)) m = Some x" for x by (rule keyed_rowsD [OF Cons.prems(2) that])
    show ?thesis using apply_to_model_other [where job = job and b = b and c = c and s = s and st = st, OF that key] by (simp add: snapshot_inv_def step_def)
  qed
  have here: "snapshot_inv job (snaps @ [(c, snap_pricing s)]) b m ?st"
    unfolding step_def by (rule apply_to_model_same [OF _ b times FU]) (use Cons.prems(3) in auto)
  have rest: "snapshot_inv job snaps b0 m' ?st" if "m' \<in> set ms" for m'
  proof -
    have "m' \<noteq> m" using Cons.prems(1) that by auto
    then show ?thesis using other Cons.prems(3) [of m'] that by simp
  qed
  from Cons.IH [OF _ k rest] Cons.prems(1) have ih: "keyed_rows (foldl step ?st ms)"
    "\<forall>m \<in> set ms. snapshot_inv job (snaps @ [(c, snap_pricing s)]) b m (foldl step ?st ms)"
    "\<forall>k sn b. k \<notin> set ms \<longrightarrow> snapshot_inv job sn b k (foldl step ?st ms) = snapshot_inv job sn b k ?st" by auto
  show ?case using ih here other Cons.prems(1) by auto
qed simp

section \<open>All snapshots of a batch\<close>

definition job_inv :: "history_job \<Rightarrow> snapshots \<Rightarrow> instant \<Rightarrow> snapshot_state \<Rightarrow> bool" where
  "job_inv job snaps b st \<longleftrightarrow> keyed_rows st \<and> (\<forall>m \<in> set (hj_models job). snapshot_inv job snaps b m st)"

definition boundary_of :: "instant \<Rightarrow> pricing_snapshot \<Rightarrow> instant" where
  "boundary_of F s = max F (the (ref_committedAt (snap_ref s)))"

definition well_formed_job :: "history_job \<Rightarrow> bool" where
  "well_formed_job job \<longleftrightarrow> distinct (hj_models job) \<and> hj_rangeFrom job < hj_rangeTo job"

definition dated :: "pricing_snapshot \<Rightarrow> bool" where
  "dated s \<longleftrightarrow> ref_committedAt (snap_ref s) \<noteq> None"

lemma snapshots_of_append: "snapshots_of (xs @ ys) = snapshots_of xs @ snapshots_of ys"
  by (simp add: snapshots_of_def)

lemma job_inv_snapshots:
  assumes wf: "well_formed_job job"
  shows "job_inv job (snapshots_of past) b0 st \<Longrightarrow> (\<forall>s \<in> set ss. dated s) \<Longrightarrow>
     (\<forall>s \<in> set past. boundary_of (hj_rangeFrom job) s \<le> b0) \<Longrightarrow>
     sorted_wrt (<) (b0 # map (boundary_of (hj_rangeFrom job)) ss) \<Longrightarrow>
     \<exists>st'. applySnapshots job ss st = Inr st'
       \<and> job_inv job (snapshots_of (past @ ss)) (last (b0 # map (boundary_of (hj_rangeFrom job)) ss)) st'"
proof (induction ss arbitrary: st past b0)
  case (Cons s ss)
  let ?F = "hj_rangeFrom job"
  let ?b = "boundary_of ?F s"
  obtain c where c: "ref_committedAt (snap_ref s) = Some c" using Cons.prems(2) by (auto simp: dated_def)
  have b: "?b = max ?F c" by (simp add: boundary_of_def c)
  have lt: "b0 < ?b" using Cons.prems(4) by simp
  have times: "fst x \<le> c" if "x \<in> set (snapshots_of past)" for x
    using that Cons.prems(3) lt b by (auto simp: snapshots_of_def boundary_of_def max_def split: if_splits)
  let ?st = "foldl (apply_to_model job ?b c s) st (hj_models job)"
  have app: "applySnapshot job s st = Inr ?st"
  proof -
    have "(if c < ?F then ?F else c) = ?b" using b by simp
    then show ?thesis by (simp add: applySnapshot_def c Let_def)
  qed
  have past': "snapshots_of (past @ [s]) = snapshots_of past @ [(c, snap_pricing s)]" by (simp add: snapshots_of_def c)
  have inv: "job_inv job (snapshots_of (past @ [s])) ?b ?st"
    using apply_to_models [where ms = "hj_models job" and st = st and s = s, OF b lt times] wf Cons.prems(1)
    by (simp add: job_inv_def well_formed_job_def past')
  have "\<forall>x \<in> set (past @ [s]). boundary_of ?F x \<le> ?b" using Cons.prems(3) lt by fastforce
  from Cons.IH [OF inv _ this] Cons.prems(2,4) obtain st' where "applySnapshots job ss ?st = Inr st'"
      "job_inv job (snapshots_of ((past @ [s]) @ ss)) (last (?b # map (boundary_of ?F) ss)) st'" by auto
  then show ?case using app by (intro exI [of _ st']) auto
qed (simp add: job_inv_def)

section \<open>Reloading between batches\<close>

text \<open>A batch starts from what the table holds; the loaded maps are those the last batch ended with.\<close>

definition reloaded :: "history_candidate list \<Rightarrow> snapshot_state" where
  "reloaded cs = (cs, open_candidates cs, seen_models cs)"

lemma map_of_open_candidates:
  assumes "history_ok F U snaps m b (model_rows m cs) prev seen"
  shows "map_of (open_candidates cs) m = prev"
proof -
  let ?xs = "map (\<lambda>c. (hc_model c, c)) (filter (\<lambda>c. hc_validUntil c = None) cs)"
  have "map_of (rev ?xs) m = prev"
  proof (cases "map_of (rev ?xs) m")
    case None
    then have "\<forall>c \<in> set cs. hc_model c = m \<longrightarrow> hc_validUntil c \<noteq> None" by (force simp: map_of_eq_None_iff)
    then show ?thesis using assms None by (cases prev) (auto simp: history_ok_def model_rows_def)
  next
    case (Some r)
    then have "r \<in> set (model_rows m cs)" "hc_validUntil r = None" by (auto dest!: map_of_SomeD simp: model_rows_def)
    then show ?thesis using assms Some by (auto simp: history_ok_def)
  qed
  then show ?thesis by (simp add: open_candidates_def)
qed

lemma job_inv_reloaded:
  assumes "job_inv job snaps b st"
  shows "job_inv job snaps b (reloaded (fst st))"
proof -
  have "keyed_rows (reloaded (fst st))"
    by (auto simp: keyed_rows_def reloaded_def open_candidates_def dest!: map_of_SomeD)
  moreover have "snapshot_inv job snaps b m (reloaded (fst st))" if "m \<in> set (hj_models job)" for m
  proof -
    have ok: "history_ok (hj_rangeFrom job) (hj_rangeTo job) snaps m b (model_rows m (fst st)) (map_of (fst (snd st)) m) (m \<in> set (snd (snd st)))"
      using assms that by (simp add: job_inv_def snapshot_inv_def)
    have "m \<in> set (seen_models (fst st)) \<longleftrightarrow> m \<in> set (snd (snd st))"
      using ok by (auto simp: history_ok_def seen_models_def model_rows_def filter_empty_conv)
    then show ?thesis using ok by (simp add: snapshot_inv_def reloaded_def map_of_open_candidates [OF ok])
  qed
  ultimately show ?thesis by (simp add: job_inv_def)
qed


section \<open>The rows of a job\<close>

text \<open>The closed candidates of a finished job cover its range as the open ones did.\<close>

lemma model_rows_close_all:
  assumes "history_ok F U snaps m b (model_rows m cs) prev seen" "t < U"
  shows "history_covering t (model_rows m (close_all U cs)) = history_covering t (model_rows m cs)"
proof -
  let ?f = "\<lambda>c. if hc_validUntil c = None \<and> hc_effectiveAt c < U then c\<lparr>hc_validUntil := Some U\<rparr> else c"
  have rows: "hc_effectiveAt c < U" if "c \<in> set cs" "hc_model c = m" for c
    using assms(1) that by (auto simp: history_ok_def model_rows_def)
  have "model_rows m (close_all U cs) = map ?f (model_rows m cs)"
    unfolding close_all_def model_rows_def using rows
    by (induction cs) auto
  moreover have "row_covers t (?f c) = row_covers t c" for c
    using assms(2) by (auto simp: row_covers_def)
  ultimately show ?thesis by (simp add: history_covering_def filter_map comp_def)
qed

lemma update_history_at:
  assumes "pd_jobs db = us @ j # vs" "hj_id j \<notin> hj_id ` set (us @ vs)" "P j"
  shows "update_history (hj_id j) P f db = (Inr (f j), db\<lparr>pd_jobs := us @ f j # vs\<rparr>)"
    and "find (\<lambda>k. hj_id k = hj_id j \<and> P k) (pd_jobs db) = Some j"
proof -
  have n: "hj_id k \<noteq> hj_id j" if "k \<in> set us \<or> k \<in> set vs" for k using assms(2) that by (metis UnCI image_eqI set_append)
  show f: "find (\<lambda>k. hj_id k = hj_id j \<and> P k) (pd_jobs db) = Some j"
    unfolding assms(1) using n assms(3) by (induction us) auto
  have "map (\<lambda>k. if hj_id k = hj_id j \<and> P k then f k else k) (pd_jobs db) = us @ f j # vs"
    unfolding assms(1) using n assms(3) by (simp add: map_idI)
  then show "update_history (hj_id j) P f db = (Inr (f j), db\<lparr>pd_jobs := us @ f j # vs\<rparr>)"
    using f by (simp add: update_history_def)
qed

fun save_batches :: "string \<Rightarrow> pricing_snapshot list list \<Rightarrow> pricing_db \<Rightarrow> (string + unit) \<times> pricing_db" where
  "save_batches i [] db = (Inr (), db)"
| "save_batches i (b # bs) db =
     (case saveSnapshots i b db of (Inl e, db') \<Rightarrow> (Inl e, db') | (Inr j, db') \<Rightarrow> save_batches i bs db')"

text \<open>The job with its progress after the snapshots \<open>past\<close>.\<close>

definition at_snapshot :: "pricing_snapshot list \<Rightarrow> pricing_snapshot list \<Rightarrow> history_job \<Rightarrow> bool" where
  "at_snapshot past rest job \<longleftrightarrow> hj_state job = Job_fetching \<and> hj_nextIndex job = length past
     \<and> map ref_sha (hj_refs job) = map (ref_sha \<circ> snap_ref) (past @ rest)"

lemma sorted_split:
  "sorted_wrt (<) (b0 # xs @ ys) \<Longrightarrow> sorted_wrt (<) (b0 # xs) \<and> sorted_wrt (<) (last (b0 # xs) # ys)"
  for b0 :: int
proof (induction xs arbitrary: b0)
  case (Cons x xs)
  then have "sorted_wrt (<) (x # xs @ ys)" by simp
  from Cons.IH [OF this] Cons.prems show ?case by auto
qed simp

lemma last_boundary_max:
  "sorted_wrt (<) (b0 # xs) \<Longrightarrow> y \<in> set (b0 # xs) \<Longrightarrow> y \<le> last (b0 # xs)" for b0 :: int
  by (induction xs arbitrary: b0) fastforce+

lemma save_batches_inv:
  assumes "well_formed_job job0"
  shows "pd_jobs db = us @ job # vs \<Longrightarrow> hj_id job \<notin> hj_id ` set (us @ vs) \<Longrightarrow>
    at_snapshot past (concat bs) job \<Longrightarrow> bs \<noteq> [] \<Longrightarrow> (\<forall>b \<in> set bs. b \<noteq> []) \<Longrightarrow>
    hj_rangeFrom job = hj_rangeFrom job0 \<Longrightarrow> hj_rangeTo job = hj_rangeTo job0 \<Longrightarrow> hj_models job = hj_models job0 \<Longrightarrow>
    job_inv job (snapshots_of past) b0 (reloaded (hj_candidates job)) \<Longrightarrow>
    (\<forall>s \<in> set past. boundary_of (hj_rangeFrom job) s \<le> b0) \<Longrightarrow>
    (\<forall>s \<in> set (concat bs). dated s) \<Longrightarrow>
    sorted_wrt (<) (b0 # map (boundary_of (hj_rangeFrom job)) (concat bs)) \<Longrightarrow>
    \<exists>job' cands prev seen b. save_batches (hj_id job) bs db = (Inr (), db\<lparr>pd_jobs := us @ job' # vs\<rparr>)
      \<and> hj_id job' = hj_id job \<and> hj_state job' = Job_promoting \<and> hj_candidates job' = close_all (hj_rangeTo job) cands
      \<and> (\<forall>m \<in> set (hj_models job). history_ok (hj_rangeFrom job) (hj_rangeTo job) (snapshots_of (past @ concat bs)) m b
            (model_rows m cands) (prev m) (seen m))"
proof (induction bs arbitrary: db job past b0)
  case (Cons bt bs)
  let ?F = "hj_rangeFrom job"
  let ?bt = "map (boundary_of ?F) bt"
  have wf: "well_formed_job job" using assms Cons.prems(6-8) by (simp add: well_formed_job_def)
  have sorted: "sorted_wrt (<) (b0 # ?bt)" "sorted_wrt (<) (last (b0 # ?bt) # map (boundary_of ?F) (concat bs))"
    using sorted_split [of b0 ?bt "map (boundary_of ?F) (concat bs)"] Cons.prems(12) by simp_all
  obtain st where st: "applySnapshots job bt (reloaded (hj_candidates job)) = Inr st"
      "job_inv job (snapshots_of (past @ bt)) (last (b0 # ?bt)) st"
    using job_inv_snapshots [OF wf Cons.prems(9) _ Cons.prems(10) sorted(1)] Cons.prems(11) by auto
  obtain cands opened seen where stc: "st = (cands, opened, seen)" by (cases st)
  let ?fin = "length past + length bt = length (hj_refs job)"
  let ?f = "\<lambda>j. j\<lparr>hj_state := (if ?fin then Job_promoting else Job_fetching), hj_nextIndex := length past + length bt,
      hj_failures := 0, hj_lastError := None, hj_nextAttempt := None, hj_rateLimitReset := None,
      hj_candidates := (if ?fin then close_all (hj_rangeTo job) cands else cands)\<rparr>"
  have fetching: "hj_state job = Job_fetching" and idx: "hj_nextIndex job = length past"
    and refs: "map ref_sha (hj_refs job) = map (ref_sha \<circ> snap_ref) (past @ bt @ concat bs)"
    using Cons.prems(3) by (simp_all add: at_snapshot_def)
  have len: "length (hj_refs job) = length past + length bt + length (concat bs)"
    using arg_cong [OF refs, of length] by simp
  have cursor: "map ref_sha (take (length bt) (drop (hj_nextIndex job) (hj_refs job))) = map (ref_sha \<circ> snap_ref) bt"
    using arg_cong [OF refs, of "\<lambda>xs. take (length bt) (drop (length past) xs)"] idx by (simp add: take_map drop_map)
  note upd = update_history_at(1) [where P = "\<lambda>j. hj_state j = Job_fetching" and f = ?f, OF Cons.prems(1,2) fetching]
    update_history_at(2) [where P = "\<lambda>j. hj_state j = Job_fetching", OF Cons.prems(1,2) fetching]
  have save: "saveSnapshots (hj_id job) bt db = (Inr (?f job), db\<lparr>pd_jobs := us @ ?f job # vs\<rparr>)"
    unfolding saveSnapshots_def upd(2) option.case
    using cursor st(1) upd(1) by (simp add: idx stc reloaded_def Let_def)
  show ?case
  proof (cases bs)
    case Nil
    then have fin: "?fin" using len by simp
    have ok: "history_ok ?F (hj_rangeTo job) (snapshots_of (past @ bt)) m (last (b0 # ?bt)) (model_rows m cands) (map_of opened m) (m \<in> set seen)"
      if "m \<in> set (hj_models job)" for m
      using st(2) that by (simp add: job_inv_def snapshot_inv_def stc)
    show ?thesis
      using save fin ok
      by (intro exI [of _ "?f job"] exI [of _ cands] exI [of _ "map_of opened"] exI [of _ "\<lambda>m. m \<in> set seen"] exI [of _ "last (b0 # ?bt)"])
         (simp add: Nil)
  next
    case (Cons b1 bs')
    note bs = this
    have "concat bs \<noteq> []" using Cons.prems(5) bs by auto
    then have fin: "\<not> ?fin" using len by simp
    have jobs': "pd_jobs (db\<lparr>pd_jobs := us @ ?f job # vs\<rparr>) = us @ ?f job # vs" by simp
    have at': "at_snapshot (past @ bt) (concat bs) (?f job)" using fin refs by (simp add: at_snapshot_def)
    have "job_inv job (snapshots_of (past @ bt)) (last (b0 # ?bt)) (reloaded cands)"
      using job_inv_reloaded [OF st(2)] by (simp add: stc)
    then have inv': "job_inv (?f job) (snapshots_of (past @ bt)) (last (b0 # ?bt)) (reloaded (hj_candidates (?f job)))"
      using fin by (simp add: job_inv_def snapshot_inv_def)
    have past': "\<forall>s \<in> set (past @ bt). boundary_of ?F s \<le> last (b0 # ?bt)"
    proof
      fix s assume "s \<in> set (past @ bt)"
      then consider "s \<in> set past" | "boundary_of ?F s \<in> set (b0 # ?bt)" by auto
      then show "boundary_of ?F s \<le> last (b0 # ?bt)"
      proof cases
        case 1
        then have "boundary_of ?F s \<le> b0" using Cons.prems(10) by blast
        then show ?thesis using last_boundary_max [OF sorted(1), of b0] by simp
      next
        case 2
        then show ?thesis by (rule last_boundary_max [OF sorted(1)])
      qed
    qed
    obtain job' cands' prev seen' b' where r: "save_batches (hj_id (?f job)) bs (db\<lparr>pd_jobs := us @ ?f job # vs\<rparr>)
          = (Inr (), db\<lparr>pd_jobs := us @ ?f job # vs\<rparr>\<lparr>pd_jobs := us @ job' # vs\<rparr>)"
        "hj_id job' = hj_id (?f job)" "hj_state job' = Job_promoting" "hj_candidates job' = close_all (hj_rangeTo (?f job)) cands'"
        "\<forall>m \<in> set (hj_models (?f job)). history_ok (hj_rangeFrom (?f job)) (hj_rangeTo (?f job)) (snapshots_of ((past @ bt) @ concat bs)) m b'
            (model_rows m cands') (prev m) (seen' m)"
      using Cons.IH [OF jobs' _ at' _ _ _ _ _ inv'] Cons.prems(2,5-8,11) bs past' sorted(2) by auto
    show ?thesis
      using r save by (intro exI [of _ job'] exI [of _ cands'] exI [of _ prev] exI [of _ seen'] exI [of _ b']) simp
  qed
qed simp


section \<open>Promotion\<close>

definition revision_view :: "revision_row \<Rightarrow> instant \<times> instant option \<times> string option \<times> model_pricing" where
  "revision_view r = (rv_effectiveAt r, rv_validUntil r, rv_sourceModelId r, rv_pricing r)"

definition history_row :: "string \<Rightarrow> revision_row \<Rightarrow> bool" where
  "history_row m r \<longleftrightarrow> rv_model r = m \<and> rv_source r = HISTORY_SOURCE"

lemma insert_revisions_history:
  "\<forall>r \<in> set new_rows. rv_source r = HISTORY_SOURCE \<Longrightarrow>
   distinct (map rv_effectiveAt (filter (history_row m) rows @ filter (history_row m) new_rows)) \<Longrightarrow>
   map revision_view (filter (history_row m) (snd (foldl insert_revision (n, rows) new_rows)))
     = map revision_view (filter (history_row m) rows @ filter (history_row m) new_rows)"
proof (induction new_rows arbitrary: n rows)
  case (Cons r rs)
  show ?case
  proof (cases "list_ex (revision_conflict r) rows")
    case True
    have "\<not> history_row m r"
    proof
      assume h: "history_row m r"
      obtain q where "q \<in> set rows" "revision_conflict r q" using True by (auto simp: list_ex_iff)
      then have q: "q \<in> set (filter (history_row m) rows)" "rv_effectiveAt q = rv_effectiveAt r"
        using h by (auto simp: revision_conflict_def history_row_def)
      have "rv_effectiveAt r \<notin> rv_effectiveAt ` set (filter (history_row m) rows)"
        using Cons.prems(2) h by auto
      then show False using imageI [OF q(1), of rv_effectiveAt] unfolding q(2) by (rule notE)
    qed
    then have skip: "filter (history_row m) (r # rs) = filter (history_row m) rs" by simp
    have step: "insert_revision (n, rows) r = (n, rows)" using True by (simp add: insert_revision_def)
    have "map revision_view (filter (history_row m) (snd (foldl insert_revision (n, rows) rs)))
        = map revision_view (filter (history_row m) rows @ filter (history_row m) rs)"
      using Cons.prems(1) Cons.prems(2) [unfolded skip] by (intro Cons.IH) simp_all
    then show ?thesis by (simp only: foldl.simps step skip)
  next
    case False
    let ?r = "r\<lparr>rv_id := int_to_string (int (length rows))\<rparr>"
    have h: "history_row m ?r = history_row m r" and v: "revision_view ?r = revision_view r"
      by (simp_all add: history_row_def revision_view_def)
    have "map revision_view (filter (history_row m) (snd (foldl insert_revision (n + 1, rows @ [?r]) rs)))
        = map revision_view (filter (history_row m) (rows @ [?r]) @ filter (history_row m) rs)"
      by (rule Cons.IH) (use Cons.prems h in \<open>auto split: if_splits\<close>)
    moreover have "insert_revision (n, rows) r = (n + 1, rows @ [?r])" using False by (simp add: insert_revision_def)
    ultimately show ?thesis using h v by simp
  qed
qed simp

lemma covered_by_perm: "mset xs = mset ys \<Longrightarrow> covered_by xs price = covered_by ys price"
  by (cases price) (auto simp: covered_by_def)

text \<open>The promoted prices of a model at a time.\<close>

definition promoted_prices :: "string \<Rightarrow> instant \<Rightarrow> revision_row list \<Rightarrow> (string \<times> model_pricing) list" where
  "promoted_prices m t rows =
     map (\<lambda>r. (the (rv_sourceModelId r), rv_pricing r))
       (filter (\<lambda>r. history_row m r \<and> rv_effectiveAt r \<le> t \<and> (case rv_validUntil r of None \<Rightarrow> True | Some u \<Rightarrow> t < u)) rows)"

lemma promoted_prices_view:
  "promoted_prices m t rows = map (\<lambda>(a, u, src, p). (the src, p))
     (filter (\<lambda>(a, u, src, p). a \<le> t \<and> (case u of None \<Rightarrow> True | Some u \<Rightarrow> t < u)) (map revision_view (filter (history_row m) rows)))"
  by (simp add: promoted_prices_def revision_view_def filter_map comp_def conj_commute)

text \<open>Candidates of a range that no earlier history revision of the model starts in or covers.\<close>

lemma promoted_candidates:
  assumes key: "distinct (map rv_effectiveAt (filter (history_row m) rows))"
    and apart: "\<forall>r \<in> set rows. history_row m r \<longrightarrow> rv_effectiveAt r \<notin> hc_effectiveAt ` set (model_rows m cs)"
    and none: "promoted_prices m t rows = []"
    and dist: "distinct (map hc_effectiveAt (model_rows m cs))" and closed: "\<forall>c \<in> set cs. hc_validUntil c \<noteq> None"
  shows "mset (promoted_prices m t (snd (insert_revisions (map (revision_of at_t) (js_sort by_model_effective cs)) rows)))
    = mset (history_covering t (model_rows m cs))"
proof -
  let ?s = "js_sort by_model_effective cs"
  let ?new = "map (revision_of at_t) ?s"
  have src: "\<forall>r \<in> set ?new. rv_source r = HISTORY_SOURCE" by (auto simp: revision_of_def)
  have fm: "filter (history_row m) ?new = map (revision_of at_t) (model_rows m ?s)"
    by (auto simp: model_rows_def history_row_def revision_of_def filter_map comp_def)
  have ms: "mset (model_rows m ?s) = mset (model_rows m cs)" by (simp add: model_rows_def)
  have "mset (map hc_effectiveAt (model_rows m ?s)) = mset (map hc_effectiveAt (model_rows m cs))" using ms by simp
  then have "distinct (map hc_effectiveAt (model_rows m ?s))" using dist by (rule mset_eq_imp_distinct_iff [THEN iffD2])
  then have d: "distinct (map rv_effectiveAt (filter (history_row m) rows @ filter (history_row m) ?new))"
    unfolding fm using key apart mset_eq_setD [OF ms] by (auto simp: revision_of_def comp_def)
  have "map revision_view (filter (history_row m) (snd (insert_revisions ?new rows)))
      = map revision_view (filter (history_row m) rows) @ map revision_view (map (revision_of at_t) (model_rows m ?s))"
    using insert_revisions_history [OF src d, of 0] unfolding insert_revisions_def fm by simp
  then have "promoted_prices m t (snd (insert_revisions ?new rows)) = promoted_prices m t rows @ history_covering t (model_rows m ?s)"
    unfolding promoted_prices_view
    by (simp add: filter_map comp_def revision_view_def revision_of_def history_covering_def row_covers_def [abs_def])
  then have "promoted_prices m t (snd (insert_revisions ?new rows)) = history_covering t (model_rows m ?s)" by (simp add: none)
  then show ?thesis using ms by (simp add: history_covering_def)
qed

text \<open>A history revision of another range: it ends by the start of this one, or begins at its end.\<close>

definition outside_range :: "instant \<Rightarrow> instant \<Rightarrow> revision_row \<Rightarrow> bool" where
  "outside_range F U r \<longleftrightarrow>
     (case rv_validUntil r of None \<Rightarrow> U \<le> rv_effectiveAt r | Some u \<Rightarrow> (rv_effectiveAt r < u \<and> u \<le> F) \<or> U \<le> rv_effectiveAt r)"

text \<open>C12: A price history job whose snapshots are ordered by strictly increasing times, and whose models have
  history revisions of other ranges only, promotes the history of its snapshots: however its snapshots
  are batched, after the last batch the job can be promoted, and then, for each of its models and each
  time of its range, the promoted revisions in force are the price of the snapshot in force at that time,
  and before the first snapshot that lists the model they are that first price, backdated.\<close>

theorem promoted_history_matches_snapshots:
  assumes job: "pd_jobs db = us @ job # vs" "hj_id job \<notin> hj_id ` set (us @ vs)" "well_formed_job job"
    and start: "hj_state job = Job_fetching" "hj_nextIndex job = 0" "hj_candidates job = []"
    and batches: "bs \<noteq> []" "\<forall>b \<in> set bs. b \<noteq> []" "map ref_sha (hj_refs job) = map (ref_sha \<circ> snap_ref) (concat bs)"
    and times: "\<forall>s \<in> set (concat bs). dated s" "sorted_wrt (<) (map (boundary_of (hj_rangeFrom job)) (concat bs))"
    and key: "\<forall>m \<in> set (hj_models job). distinct (map rv_effectiveAt (filter (history_row m) (pd_revisions db)))"
    and apart: "\<forall>m \<in> set (hj_models job). \<forall>r \<in> set (pd_revisions db). history_row m r \<longrightarrow>
      outside_range (hj_rangeFrom job) (hj_rangeTo job) r"
  shows "\<exists>db1 db2 n found. save_batches (hj_id job) bs db = (Inr (), db1)
    \<and> promote (hj_id job) now db1 = (Inr (n, found), db2)
    \<and> (\<forall>m \<in> set (hj_models job). \<forall>t. hj_rangeFrom job \<le> t \<and> t < hj_rangeTo job \<longrightarrow>
         covered_by (promoted_prices m t (pd_revisions db2)) (backdated_price (snapshots_of (concat bs)) t m))"
proof -
  let ?F = "hj_rangeFrom job" and ?U = "hj_rangeTo job"
  have at_start: "at_snapshot [] (concat bs) job" using start batches(3) by (simp add: at_snapshot_def)
  have inv: "job_inv job (snapshots_of []) (?F - 1) (reloaded (hj_candidates job))"
    using history_ok_initial by (simp add: job_inv_def keyed_rows_def reloaded_def start(3) snapshot_inv_def open_candidates_def
        seen_models_def model_rows_def snapshots_of_def)
  have sorted: "sorted_wrt (<) ((?F - 1) # map (boundary_of ?F) (concat bs))"
    using times(2) by (auto simp: boundary_of_def)
  obtain job' cands prev seen b where r: "save_batches (hj_id job) bs db = (Inr (), db\<lparr>pd_jobs := us @ job' # vs\<rparr>)"
      "hj_id job' = hj_id job" "hj_state job' = Job_promoting" "hj_candidates job' = close_all ?U cands"
      "\<forall>m \<in> set (hj_models job). history_ok ?F ?U (snapshots_of ([] @ concat bs)) m b (model_rows m cands) (prev m) (seen m)"
    using save_batches_inv [OF job(3) job(1,2) at_start batches(1,2) refl refl refl inv _ times(1) sorted] by auto
  let ?db1 = "db\<lparr>pd_jobs := us @ job' # vs\<rparr>"
  let ?cl = "close_all ?U cands"
  have found: "find (\<lambda>j. hj_id j = hj_id job' \<and> hj_state j = Job_promoting) (pd_jobs ?db1) = Some job'"
    by (rule update_history_at(2) [where us = us and vs = vs and P = "\<lambda>j. hj_state j = Job_promoting"]) (use job(2) r(2,3) in auto)
  have closed: "\<forall>c \<in> set ?cl. hc_validUntil c \<noteq> None" by (auto simp: close_all_def)
  then have all: "filter (\<lambda>c. hc_validUntil c \<noteq> None) ?cl = ?cl" by simp
  obtain n rows where ins: "insert_revisions (map (revision_of now) (js_sort by_model_effective ?cl)) (pd_revisions db) = (n, rows)" by fastforce
  define db2 where "db2 = snd (promote (hj_id job) now ?db1)"
  have found': "find (\<lambda>j. hj_id j = hj_id job \<and> hj_state j = Job_promoting) (pd_jobs ?db1) = Some job'"
    using found by (simp only: r(2))
  have ins': "insert_revisions (map (revision_of now) (js_sort by_model_effective ?cl)) (pd_revisions ?db1) = (n, rows)"
    using ins by simp
  have p: "promote (hj_id job) now ?db1 = (Inr (n, js_sort by_model_effective ?cl \<noteq> []), db2)"
    unfolding db2_def promote_def found' option.case r(4) all Let_def ins' prod.case by (simp only: snd_conv)
  have rev: "pd_revisions db2 = (if js_sort by_model_effective ?cl \<noteq> [] then rows else pd_revisions db)"
    unfolding db2_def promote_def found' option.case r(4) all Let_def ins' prod.case snd_conv by simp
  have rows: "pd_revisions db2 = rows" using rev ins by (cases "js_sort by_model_effective ?cl = []") (simp_all add: insert_revisions_def)
  have "covered_by (promoted_prices m t (pd_revisions db2)) (backdated_price (snapshots_of (concat bs)) t m)"
    if m: "m \<in> set (hj_models job)" and t: "?F \<le> t" "t < ?U" for m t
  proof -
    have ok: "history_ok ?F ?U (snapshots_of (concat bs)) m b (model_rows m cands) (prev m) (seen m)" using r(5) m by simp
    have "map hc_effectiveAt (model_rows m ?cl) = map hc_effectiveAt (model_rows m cands)"
    proof -
      have "\<forall>c \<in> set cands. hc_model c = m \<longrightarrow> hc_effectiveAt c < ?U" using ok by (auto simp: history_ok_def model_rows_def)
      then show ?thesis by (induction cands) (auto simp: close_all_def model_rows_def)
    qed
    then have d: "distinct (map hc_effectiveAt (model_rows m ?cl))" using ok by (simp add: history_ok_def)
    have inside: "?F \<le> hc_effectiveAt c \<and> hc_effectiveAt c < ?U" if "c \<in> set (model_rows m ?cl)" for c
    proof -
      have "hc_effectiveAt c \<in> set (map hc_effectiveAt (model_rows m ?cl))" using that by simp
      then have "hc_effectiveAt c \<in> hc_effectiveAt ` set (model_rows m cands)"
        by (simp only: \<open>map hc_effectiveAt (model_rows m ?cl) = map hc_effectiveAt (model_rows m cands)\<close> set_map)
      then show ?thesis using ok by (auto simp: history_ok_def)
    qed
    have other: "outside_range ?F ?U q" if "q \<in> set (pd_revisions db)" "history_row m q" for q using apart m that by blast
    have none: "promoted_prices m t (pd_revisions db) = []"
    proof -
      have "\<not> (rv_effectiveAt q \<le> t \<and> (case rv_validUntil q of None \<Rightarrow> True | Some u \<Rightarrow> t < u))"
        if "q \<in> set (pd_revisions db)" "history_row m q" for q
        using other [OF that] t by (cases "rv_validUntil q") (auto simp: outside_range_def)
      then show ?thesis by (auto simp: promoted_prices_def filter_empty_conv)
    qed
    have apart_m: "\<forall>q \<in> set (pd_revisions db). history_row m q \<longrightarrow> rv_effectiveAt q \<notin> hc_effectiveAt ` set (model_rows m ?cl)"
    proof (intro ballI impI notI)
      fix q assume q: "q \<in> set (pd_revisions db)" "history_row m q" and "rv_effectiveAt q \<in> hc_effectiveAt ` set (model_rows m ?cl)"
      then have "?F \<le> rv_effectiveAt q \<and> rv_effectiveAt q < ?U" using inside by auto
      then show False using other [OF q] by (cases "rv_validUntil q") (auto simp: outside_range_def)
    qed
    have "mset (promoted_prices m t rows) = mset (history_covering t (model_rows m ?cl))"
      using promoted_candidates [OF _ apart_m none d closed, of now] key m ins by simp
    also have "history_covering t (model_rows m ?cl) = history_covering t (model_rows m cands)"
      by (rule model_rows_close_all [OF ok t(2)])
    finally have "covered_by (promoted_prices m t rows) (backdated_price (snapshots_of (concat bs)) t m)
        = covered_by (history_covering t (model_rows m cands)) (backdated_price (snapshots_of (concat bs)) t m)"
      by (rule covered_by_perm)
    then show ?thesis using ok t by (simp add: rows history_ok_def)
  qed
  then show ?thesis using r(1) p by blast
qed

definition example_job :: history_job where
  "example_job =
     \<lparr>hj_id = ''1'', hj_version = HISTORY_ALGORITHM_VERSION, hj_state = Job_fetching, hj_rangeFrom = 100, hj_rangeTo = 400,
      hj_models = [''claude-sonnet''], hj_refs = map snap_ref example_snapshots, hj_listPage = 0, hj_nextIndex = 0,
      hj_nextAttempt = None, hj_rateLimitReset = None, hj_failures = 0, hj_lastError = None, hj_completedAt = None,
      hj_candidates = []\<rparr>"

definition example_db :: pricing_db where
  "example_db = \<lparr>pd_jobs = [example_job], pd_revisions = [], pd_repair = initial_repair_row 0, pd_cacheVersion = None\<rparr>"

definition example_batches :: "pricing_snapshot list list" where
  "example_batches = [take 1 example_snapshots, drop 1 example_snapshots]"

lemma promoted_history_matches_snapshots_witness:
  "\<exists>db1 db2 n. save_batches ''1'' example_batches example_db = (Inr (), db1)
    \<and> promote ''1'' 1000 db1 = (Inr (n, True), db2)
    \<and> map rv_effectiveAt (pd_revisions db2) = [100, 200]
    \<and> covered_by (promoted_prices ''claude-sonnet'' 250 (pd_revisions db2))
         (backdated_price (snapshots_of (concat example_batches)) 250 ''claude-sonnet'')"
proof -
  have run: "case save_batches ''1'' example_batches example_db of (Inl e, db1) \<Rightarrow> False | (Inr u, db1) \<Rightarrow>
      (case promote ''1'' 1000 db1 of (Inl e, db2) \<Rightarrow> False | (Inr (n, found), db2) \<Rightarrow>
         found \<and> map rv_effectiveAt (pd_revisions db2) = [100, 200])" by code_simp
  have "\<exists>db1 db2 n found. save_batches (hj_id example_job) example_batches example_db = (Inr (), db1)
    \<and> promote (hj_id example_job) 1000 db1 = (Inr (n, found), db2)
    \<and> (\<forall>m \<in> set (hj_models example_job). \<forall>t. hj_rangeFrom example_job \<le> t \<and> t < hj_rangeTo example_job \<longrightarrow>
         covered_by (promoted_prices m t (pd_revisions db2)) (backdated_price (snapshots_of (concat example_batches)) t m))"
    by (rule promoted_history_matches_snapshots [where us = "[]" and vs = "[]"])
      (simp_all add: example_job_def example_db_def example_batches_def example_snapshots_def well_formed_job_def
         dated_def boundary_of_def)
  then show ?thesis using run by (force simp: example_job_def)
qed


section \<open>A skipped last snapshot\<close>

lemma promote_nothing:
  assumes "find (\<lambda>j. hj_id j = i \<and> hj_state j = Job_promoting) (pd_jobs db) = Some job"
    and "filter (\<lambda>c. hc_validUntil c \<noteq> None) (hj_candidates job) = []"
  shows "promote i now db = (Inr (0, False), db\<lparr>pd_jobs := map (\<lambda>j. if hj_id j = i \<and> hj_state j = Job_promoting
    then j\<lparr>hj_state := Job_completed, hj_completedAt := Some now, hj_nextAttempt := None, hj_rateLimitReset := None,
      hj_lastError := None\<rparr> else j) (pd_jobs db)\<rparr>)"
  unfolding promote_def assms(1) option.case assms(2) by (simp add: insert_revisions_def)

lemma findCompleted_some:
  assumes "j \<in> set (pd_jobs db)" "hj_state j = Job_completed" "hj_rangeFrom j = f" "hj_rangeTo j = t"
    "set (hj_models j) = set ms" "hj_version j = HISTORY_ALGORITHM_VERSION"
  shows "findCompleted f t ms db \<noteq> None"
proof -
  let ?xs = "filter (\<lambda>j. hj_state j = Job_completed \<and> hj_rangeFrom j = f \<and> hj_rangeTo j = t
    \<and> set (hj_models j) = set ms \<and> hj_version j = HISTORY_ALGORITHM_VERSION) (pd_jobs db)"
  have "j \<in> set ?xs" using assms by simp
  then have "?xs \<noteq> []" by (rule length_pos_if_in_set [THEN length_greater_0_conv [THEN iffD1]])
  then have "js_sort c ?xs \<noteq> []" for c by (simp only: js_sort_eq_Nil not_False_eq_True)
  then show ?thesis unfolding findCompleted_def by (auto split: list.split)
qed

text \<open>C32: When the last snapshot of a job is given up as invalid, the job goes on to its promotion with the
  prices still in force left open, and the promotion takes closed prices only: a job all of whose prices
  are still in force promotes none of them, is completed without evidence, and a new job over the same
  range and models is refused, as that completed job is found.\<close>

theorem skipped_last_snapshot_drops_open_prices:
  assumes job: "pd_jobs db = us @ job # vs" "hj_id job \<notin> hj_id ` set (us @ vs)"
    and last: "hj_state job = Job_fetching" "hj_nextIndex job + 1 = length (hj_refs job)"
      "ref_sha ref = ref_sha (last (hj_refs job))"
    and still: "\<forall>c \<in> set (hj_candidates job). hc_validUntil c = None"
    and version: "hj_version job = HISTORY_ALGORITHM_VERSION"
  shows "\<exists>job' db1 db2. skipSnapshot (hj_id job) ref db = (Inr job', db1)
    \<and> hj_state job' = Job_promoting \<and> hj_candidates job' = hj_candidates job
    \<and> promote (hj_id job) now db1 = (Inr (0, False), db2) \<and> pd_revisions db2 = pd_revisions db
    \<and> findCompleted (hj_rangeFrom job) (hj_rangeTo job) (hj_models job) db2 \<noteq> None"
proof -
  let ?job' = "job\<lparr>hj_state := Job_promoting, hj_nextIndex := hj_nextIndex job + 1, hj_failures := 0, hj_nextAttempt := None,
    hj_rateLimitReset := None, hj_lastError := Some ''invalid pricing snapshot skipped''\<rparr>"
  let ?db1 = "db\<lparr>pd_jobs := us @ ?job' # vs\<rparr>"
  have ne: "hj_refs job \<noteq> []" using last(2) by auto
  have at_last: "map ref_sha (take 1 (drop (hj_nextIndex job) (hj_refs job))) = [ref_sha ref]"
  proof -
    have "hj_refs job = butlast (hj_refs job) @ [last (hj_refs job)]" using ne by simp
    moreover have "hj_nextIndex job = length (butlast (hj_refs job))" using last(2) by simp
    ultimately have "drop (hj_nextIndex job) (hj_refs job) = [last (hj_refs job)]" by (metis append_eq_conv_conj)
    then show ?thesis using last(3) by simp
  qed
  have skip: "skipSnapshot (hj_id job) ref db = (Inr ?job', ?db1)"
    unfolding skipSnapshot_def
    using update_history_at(2) [OF job, of "\<lambda>j. hj_state j = Job_fetching"]
      update_history_at(1) [OF job, of "\<lambda>j. hj_state j = Job_fetching"] last(1,2) at_last
    by (simp add: Let_def)
  have found: "find (\<lambda>j. hj_id j = hj_id job \<and> hj_state j = Job_promoting) (pd_jobs ?db1) = Some ?job'"
    using update_history_at(2) [of ?db1 us ?job' vs "\<lambda>j. hj_state j = Job_promoting"] job(2) by simp
  have none: "filter (\<lambda>c. hc_validUntil c \<noteq> None) (hj_candidates job) = []" using still by (simp add: filter_empty_conv)
  obtain db2 where p: "promote (hj_id job) now ?db1 = (Inr (0, False), db2)" and db2: "db2 = ?db1\<lparr>pd_jobs := map (\<lambda>j.
      if hj_id j = hj_id job \<and> hj_state j = Job_promoting
      then j\<lparr>hj_state := Job_completed, hj_completedAt := Some now, hj_nextAttempt := None, hj_rateLimitReset := None,
        hj_lastError := None\<rparr> else j) (pd_jobs ?db1)\<rparr>"
    using promote_nothing [OF found, of now] none by simp
  let ?done = "?job'\<lparr>hj_state := Job_completed, hj_completedAt := Some now, hj_nextAttempt := None,
    hj_rateLimitReset := None, hj_lastError := None\<rparr>"
  have "?done \<in> set (pd_jobs db2)" unfolding db2 by simp
  then have "findCompleted (hj_rangeFrom job) (hj_rangeTo job) (hj_models job) db2 \<noteq> None"
    by (rule findCompleted_some) (simp_all add: version)
  then show ?thesis using skip p by (intro exI [of _ ?job'] exI [of _ ?db1] exI [of _ db2]) (simp add: db2)
qed

definition skipping_job :: history_job where
  "skipping_job = example_job\<lparr>hj_nextIndex := 2, hj_candidates :=
     [\<lparr>hc_model = ''claude-sonnet'', hc_source = ''claude-sonnet'', hc_effectiveAt = 100, hc_validUntil = None,
       hc_pricing = example_pricing, hc_sha = ''a'', hc_committedAt = 50\<rparr>]\<rparr>"

lemma skipped_last_snapshot_drops_open_prices_witness:
  "\<exists>job' db1 db2. skipSnapshot ''1'' \<lparr>ref_sha = ''c'', ref_committedAt = Some 300\<rparr> (example_db\<lparr>pd_jobs := [skipping_job]\<rparr>) = (Inr job', db1)
    \<and> map hc_effectiveAt (hj_candidates job') = [100] \<and> promote ''1'' 1000 db1 = (Inr (0, False), db2) \<and> pd_revisions db2 = []
    \<and> findCompleted 100 400 [''claude-sonnet''] db2 \<noteq> None"
  using skipped_last_snapshot_drops_open_prices [where db = "example_db\<lparr>pd_jobs := [skipping_job]\<rparr>" and us = "[]" and vs = "[]"
      and job = skipping_job and ref = "\<lparr>ref_sha = ''c'', ref_committedAt = Some 300\<rparr>" and now = 1000]
  by (fastforce simp: skipping_job_def example_db_def example_job_def example_snapshots_def)

end
