(* ===== verification/Pricing_Sync.thy ===== *)
theory Pricing_Sync
  imports Pricing_Jobs_Proofs "HOL-Library.Option_ord"
begin

text \<open>
  \<open>apps/web/lib/pricing-sync.ts\<close>, the daily synchronisation of the price catalogue into revisions, and
  \<open>apps/web/lib/pricing.ts\<close>, the schedule of the authoritative revisions and its cache. The transaction
  is one function on the database; what it fetches, the digest of a price (SHA-256 of its JSON text) and
  the clocks of the process and of the database are arguments.
\<close>

section \<open>State\<close>

text \<open>The second setting is the day and the time of the last synchronisation.\<close>

record sync_db =
  sd_pricing :: pricing_db
  sd_syncStatus :: "(string \<times> instant) option"

definition CHUNK :: nat where "CHUNK = 500"

section \<open>The latest revisions\<close>

text \<open>\<open>ORDER BY effective_at, observed_at, id\<close>.\<close>

definition by_recency :: "revision_row \<Rightarrow> revision_row \<Rightarrow> int" where
  "by_recency r s =
     (if rv_effectiveAt r \<noteq> rv_effectiveAt s then rv_effectiveAt r - rv_effectiveAt s
      else if rv_observedAt r \<noteq> rv_observedAt s then rv_observedAt r - rv_observedAt s
      else cmp_ord (rv_id r) (rv_id s))"

text \<open>\<open>SELECT DISTINCT ON (model_id) ... ORDER BY model_id, effective_at DESC, observed_at DESC, id DESC\<close>.\<close>

definition latest_revision :: "revision_row list \<Rightarrow> string \<Rightarrow> revision_row option" where
  "latest_revision rows m =
     (case js_sort (\<lambda>r s. by_recency s r) (filter (\<lambda>r. rv_model r = m) rows) of [] \<Rightarrow> None | r # _ \<Rightarrow> Some r)"

text \<open>An absent column is \<open>undefined\<close>, as an absent price.\<close>

definition same_as_row :: "revision_row \<Rightarrow> model_pricing \<Rightarrow> bool" where
  "same_as_row r p \<longleftrightarrow>
     (let q = rv_pricing r
      in num_eq (p_inputPerM q) (p_inputPerM p) \<and> num_eq (p_outputPerM q) (p_outputPerM p)
       \<and> same_optional (p_cacheReadPerM q) (p_cacheReadPerM p)
       \<and> same_optional (p_cacheCreatePerM q) (p_cacheCreatePerM p)
       \<and> same_optional (p_inputAbove200kPerM q) (p_inputAbove200kPerM p)
       \<and> same_optional (p_outputAbove200kPerM q) (p_outputAbove200kPerM p)
       \<and> num_eq (the (coalesce (p_fastMultiplier q) (Some (Fin 1)))) (the (coalesce (p_fastMultiplier p) (Some (Fin 1))))
       \<and> json_details (pricingDetails q) = json_details (pricingDetails p))"

section \<open>Synchronisation\<close>

text \<open>The JSON array that identifies a price: what is absent or not finite is \<open>null\<close>.\<close>

type_synonym price_identity = "jsnum option list \<times> (rat \<times> jsnum option option list) list option \<times> jsnum option option \<times> context_scope option"

definition json_entry :: "jsnum option \<Rightarrow> jsnum option" where
  "json_entry v = (case v of None \<Rightarrow> None | Some x \<Rightarrow> json_number x)"

definition price_identity_of :: "model_pricing \<Rightarrow> price_identity" where
  "price_identity_of p =
     (map json_entry [Some (p_inputPerM p), Some (p_outputPerM p), p_cacheReadPerM p, p_cacheCreatePerM p,
        p_inputAbove200kPerM p, p_outputAbove200kPerM p, coalesce (p_fastMultiplier p) (Some (Fin 1))],
      json_details (pricingDetails p))"

definition litellm_source :: "(price_identity \<Rightarrow> string) \<Rightarrow> model_pricing \<Rightarrow> string" where
  "litellm_source digest p = ''litellm:'' @ digest (price_identity_of p)"

definition catalogue_row :: "(price_identity \<Rightarrow> string) \<Rightarrow> instant \<Rightarrow> instant \<Rightarrow> string \<times> model_pricing \<Rightarrow> revision_row" where
  "catalogue_row digest effectiveAt clock e =
     \<lparr>rv_id = [], rv_model = fst e, rv_effectiveAt = effectiveAt, rv_validUntil = None,
      rv_pricing = stored_pricing (snd e), rv_source = litellm_source digest (snd e), rv_authoritative = True,
      rv_sourceRef = None, rv_sourceModelId = None, rv_observedAt = clock\<rparr>"

function chunks_of :: "nat \<Rightarrow> 'a list \<Rightarrow> 'a list list" where
  "chunks_of n xs = (if xs = [] \<or> n = 0 then [] else take n xs # chunks_of n (drop n xs))"
  by pat_completeness auto
termination by (relation "measure (length \<circ> snd)") auto

definition changed_entries :: "revision_row list \<Rightarrow> pricing_map \<Rightarrow> pricing_map" where
  "changed_entries rows pricing =
     filter (\<lambda>(m, p). case latest_revision rows m of None \<Rightarrow> True | Some r \<Rightarrow> \<not> same_as_row r p) pricing"

definition syncPricingRevisions ::
  "(price_identity \<Rightarrow> string) \<Rightarrow> instant \<Rightarrow> pricing_map \<Rightarrow> instant \<Rightarrow> revision_row list \<Rightarrow> nat \<times> revision_row list" where
  "syncPricingRevisions digest clock pricing effectiveAt rows =
     foldl (\<lambda>(inserted, rows) chunk.
         (let (n, rows') = insert_revisions (map (catalogue_row digest effectiveAt clock) chunk) rows in (inserted + n, rows')))
       (0, rows) (chunks_of CHUNK (changed_entries rows pricing))"

text \<open>A rolled back transaction leaves the database as it was.\<close>

definition runPricingSyncTransaction ::
  "intl \<Rightarrow> (price_identity \<Rightarrow> string) \<Rightarrow> instant \<Rightarrow> instant \<Rightarrow> string + pricing_map \<Rightarrow> string \<Rightarrow> string \<Rightarrow> sync_db \<Rightarrow>
     (string + nat) \<times> sync_db" where
  "runPricingSyncTransaction tzdb digest clock now fetched day timezone db =
     (case fetched of
        Inl e \<Rightarrow> (Inl e, db)
      | Inr pricing \<Rightarrow>
          (case day_start tzdb timezone day of
             Inl e \<Rightarrow> (Inl e, db)
           | Inr effectiveAt \<Rightarrow>
               (let (upserted, rows) = syncPricingRevisions digest clock pricing effectiveAt (pd_revisions (sd_pricing db))
                in (Inr upserted,
                    db\<lparr>sd_pricing := sd_pricing db\<lparr>pd_revisions := rows,
                           pd_repair := markPricingRepairPending now now clock (pd_repair (sd_pricing db)),
                           pd_cacheVersion := Some now\<rparr>,
                       sd_syncStatus := Some (day, now)\<rparr>))))"

datatype pricing_sync_result = Sync_ok nat string | Sync_failed string bool

text \<open>\<open>kept\<close> tells a failed fetch from another failure.\<close>

definition runPricingSync ::
  "intl \<Rightarrow> (price_identity \<Rightarrow> string) \<Rightarrow> instant \<Rightarrow> instant \<Rightarrow> string + pricing_map \<Rightarrow> string \<Rightarrow> string \<Rightarrow> sync_db \<Rightarrow>
     pricing_sync_result \<times> sync_db" where
  "runPricingSync tzdb digest clock now fetched day timezone db =
     (case runPricingSyncTransaction tzdb digest clock now fetched day timezone db of
        (Inl e, db') \<Rightarrow> (Sync_failed e (case fetched of Inl _ \<Rightarrow> True | Inr _ \<Rightarrow> False), db')
      | (Inr upserted, db') \<Rightarrow> (Sync_ok upserted day, db'))"

section \<open>The schedule\<close>

definition revision_from_row :: "revision_row \<Rightarrow> pricing_revision" where
  "revision_from_row r =
     \<lparr>rev_id = rv_id r, rev_modelId = rv_model r, rev_effectiveAt = rv_effectiveAt r, rev_validUntil = rv_validUntil r,
      rev_pricing = rv_pricing r,
      rev_sourceModelId = (if truthy_text (rv_sourceModelId r) then rv_sourceModelId r else None)\<rparr>"

definition by_model_recency :: "revision_row \<Rightarrow> revision_row \<Rightarrow> int" where
  "by_model_recency r s = (if rv_model r = rv_model s then by_recency r s else cmp_ord (rv_model r) (rv_model s))"

definition add_revision :: "pricing_schedule \<Rightarrow> revision_row \<Rightarrow> pricing_schedule" where
  "add_revision schedule r =
     AList.update (rv_model r)
       ((case map_of schedule (rv_model r) of Some revisions \<Rightarrow> revisions | None \<Rightarrow> []) @ [revision_from_row r]) schedule"

definition loadPricingSchedule :: "revision_row list \<Rightarrow> pricing_schedule" where
  "loadPricingSchedule rows = foldl add_revision [] (js_sort by_model_recency (filter rv_authoritative rows))"

definition getPricingMap :: "pricing_schedule \<Rightarrow> pricing_map" where
  "getPricingMap schedule = map (\<lambda>(m, rs). (m, rev_pricing (last rs))) (filter (\<lambda>(m, rs). rs \<noteq> []) schedule)"

definition loadPricingStatus :: "sync_db \<Rightarrow> nat \<times> string option" where
  "loadPricingStatus db = (length (remdups (map rv_model (pd_revisions (sd_pricing db)))), map_option fst (sd_syncStatus db))"

section \<open>The cache of the schedule\<close>

definition TTL_MS :: int where "TTL_MS = 60 * 60 * 1000"

record schedule_entry =
  se_schedule :: pricing_schedule
  se_at :: instant
  se_version :: "instant option"

definition readVersion :: "sync_db \<Rightarrow> instant option" where
  "readVersion db = (case pd_cacheVersion (sd_pricing db) of Some v \<Rightarrow> Some v | None \<Rightarrow> map_option snd (sd_syncStatus db))"

text \<open>The answer of \<open>get\<close> after it has read the version and the clock, if it needs no load.\<close>

definition cache_hit :: "instant option \<Rightarrow> instant \<Rightarrow> schedule_entry option \<Rightarrow> pricing_schedule option" where
  "cache_hit version currentTime entry =
     (case entry of
        Some e \<Rightarrow> if se_version e = version \<and> currentTime - se_at e < TTL_MS then Some (se_schedule e) else None
      | None \<Rightarrow> None)"

definition cache_fill :: "instant option \<Rightarrow> instant \<Rightarrow> pricing_schedule \<Rightarrow> schedule_entry" where
  "cache_fill version currentTime schedule = \<lparr>se_schedule = schedule, se_at = currentTime, se_version = version\<rparr>"

end
