(* ===== verification/Pricing_Sync_Proofs.thy ===== *)
theory Pricing_Sync_Proofs
  imports Pricing_Sync
begin

text \<open>
  The synchronised catalogue is in force: what a synchronisation leaves in the table prices the next
  events. The cache of the schedule is current, as every change of the revisions changes the version.
  Two runs in which a price is not in force conclude.
\<close>

section \<open>Batches of inserts\<close>

declare chunks_of.simps [simp del]

lemma concat_chunks: "0 < n \<Longrightarrow> concat (chunks_of n xs) = xs"
proof (induction n xs rule: chunks_of.induct)
  case (1 n xs)
  then show ?case using chunks_of.simps [of n xs] by (cases "xs = []") auto
qed

lemma insert_count:
  "foldl insert_revision (n + k, rows) new
     = (n + fst (foldl insert_revision (k, rows) new), snd (foldl insert_revision (k, rows) new))"
proof (induction new arbitrary: k rows)
  case (Cons r rs)
  show ?case
  proof (cases "list_ex (revision_conflict r) rows")
    case True
    then have "insert_revision (j, rows) r = (j, rows)" for j by (simp add: insert_revision_def)
    then show ?thesis using Cons.IH [of k rows] by (simp only: foldl.simps)
  next
    case False
    let ?rows = "rows @ [r\<lparr>rv_id := int_to_string (int (length rows))\<rparr>]"
    have "insert_revision (j, rows) r = (j + 1, ?rows)" for j using False by (simp add: insert_revision_def)
    then show ?thesis using Cons.IH [of "k + 1" ?rows] by (simp only: foldl.simps add.assoc [symmetric])
  qed
qed simp

lemma insert_batches:
  "foldl (\<lambda>(inserted, rows) chunk. (let (n, rows') = insert_revisions (map f chunk) rows in (inserted + n, rows'))) (k, rows) cs
     = foldl insert_revision (k, rows) (map f (concat cs))"
proof (induction cs arbitrary: k rows)
  case (Cons c cs)
  obtain n rows' where r: "insert_revisions (map f c) rows = (n, rows')" by fastforce
  have "foldl insert_revision (k, rows) (map f c) = (k + n, rows')"
    using insert_count [of k 0 rows "map f c"] r by (simp add: insert_revisions_def)
  then show ?case using Cons.IH [of "k + n" rows'] r by (simp add: map_concat)
qed simp

text \<open>The batches are immaterial.\<close>

lemma sync_batches:
  "syncPricingRevisions digest clock pricing E rows
     = insert_revisions (map (catalogue_row digest E clock) (changed_entries rows pricing)) rows"
proof -
  have "0 < CHUNK" by (simp add: CHUNK_def)
  then show ?thesis
    unfolding syncPricingRevisions_def insert_batches by (simp only: insert_revisions_def concat_chunks)
qed

lemma insert_other_models:
  "\<forall>r \<in> set new. rv_model r \<noteq> m \<Longrightarrow>
     filter (\<lambda>r. rv_model r = m) (snd (foldl insert_revision (n, rows) new)) = filter (\<lambda>r. rv_model r = m) rows"
proof (induction new arbitrary: n rows)
  case (Cons r rs)
  then show ?case using Cons.IH [of n rows]
      Cons.IH [of "n + 1" "rows @ [r\<lparr>rv_id := int_to_string (int (length rows))\<rparr>]"]
    by (cases "list_ex (revision_conflict r) rows") (simp_all add: insert_revision_def [of "(n, rows)"])
qed simp

lemma insert_one_of_model:
  assumes "\<forall>q \<in> set us \<union> set vs. rv_model q \<noteq> rv_model r" "\<forall>q \<in> set rows. \<not> revision_conflict r q"
  shows "\<exists>i. filter (\<lambda>q. rv_model q = rv_model r) (snd (foldl insert_revision (n, rows) (us @ r # vs)))
    = filter (\<lambda>q. rv_model q = rv_model r) rows @ [r\<lparr>rv_id := i\<rparr>]"
proof -
  obtain k rows' where us: "foldl insert_revision (n, rows) us = (k, rows')" by fastforce
  have same: "filter (\<lambda>q. rv_model q = rv_model r) rows' = filter (\<lambda>q. rv_model q = rv_model r) rows"
    using insert_other_models [of us "rv_model r" n rows] assms(1) us by simp
  have "\<not> revision_conflict r q" if "q \<in> set rows'" for q
  proof
    assume c: "revision_conflict r q"
    then have "q \<in> set (filter (\<lambda>q. rv_model q = rv_model r) rows')" using that by (simp add: revision_conflict_def)
    then show False using c assms(2) unfolding same by simp
  qed
  then have "insert_revision (k, rows') r = (k + 1, rows' @ [r\<lparr>rv_id := int_to_string (int (length rows'))\<rparr>])"
    by (auto simp: insert_revision_def list_ex_iff)
  then show ?thesis using insert_other_models [of vs "rv_model r"] assms(1) us same by auto
qed

section \<open>The latest revision\<close>

lemma cmp_ord_flip: "0 < cmp_ord a b \<longleftrightarrow> cmp_ord b a < 0"
  by (auto simp: cmp_ord_def)

interpretation recency: comparator by_recency
proof
  show "0 < by_recency x y \<longleftrightarrow> by_recency y x < 0" for x y by (auto simp: by_recency_def cmp_ord_def)
  show "by_recency x z \<le> 0" if "by_recency x y \<le> 0" "by_recency y z \<le> 0" for x y z
    using that by (auto simp: by_recency_def cmp_ord_def split: if_splits)
qed

interpretation newest: comparator "\<lambda>r s. by_recency s r"
proof
  show "0 < by_recency y x \<longleftrightarrow> by_recency x y < 0" for x y by (rule recency.flip)
  show "by_recency z x \<le> 0" if "by_recency y x \<le> 0" "by_recency z y \<le> 0" for x y z
    using that by (metis recency.trans)
qed

interpretation model_recency: comparator by_model_recency
proof
  show "0 < by_model_recency x y \<longleftrightarrow> by_model_recency y x < 0" for x y
    using recency.flip [of x y] by (auto simp: by_model_recency_def cmp_ord_def)
  show "by_model_recency x z \<le> 0" if "by_model_recency x y \<le> 0" "by_model_recency y z \<le> 0" for x y z
    using that recency.trans [of x y z] by (auto simp: by_model_recency_def cmp_ord_def split: if_splits)
qed

definition newer_than_all :: "revision_row \<Rightarrow> revision_row list \<Rightarrow> bool" where
  "newer_than_all r rows \<longleftrightarrow> r \<in> set rows \<and> (\<forall>q \<in> set rows. q \<noteq> r \<longrightarrow> by_recency q r < 0)"

lemma sorted_last_newest:
  assumes "sorted_wrt (\<lambda>r s. by_recency r s \<le> 0) rows" "newer_than_all r rows"
  shows "\<exists>qs. rows = qs @ [r]"
proof -
  have ne: "rows \<noteq> []" using assms(2) by (auto simp: newer_than_all_def)
  then have s: "rows = butlast rows @ [last rows]" by simp
  have "last rows = r"
  proof (rule ccontr)
    assume n: "last rows \<noteq> r"
    then have "by_recency (last rows) r < 0" using assms(2) ne by (simp add: newer_than_all_def)
    moreover have "r \<in> set (butlast rows)"
      using assms(2) n s by (metis Un_iff empty_iff insert_iff list.set(1) list.set(2) newer_than_all_def set_append)
    then have "by_recency r (last rows) \<le> 0" using assms(1) s by (metis sorted_wrt_append list.set_intros(1))
    ultimately show False using recency.flip [of r "last rows"] by simp
  qed
  then show ?thesis using s by metis
qed

lemma latest_revision_newest:
  "latest_revision rows m = Some r \<Longrightarrow> r \<in> set rows \<and> rv_model r = m
     \<and> (\<forall>q \<in> set rows. rv_model q = m \<longrightarrow> by_recency q r \<le> 0)"
proof -
  assume l: "latest_revision rows m = Some r"
  let ?xs = "filter (\<lambda>r. rv_model r = m) rows"
  have ne: "js_sort (\<lambda>r s. by_recency s r) ?xs \<noteq> []" and hd: "hd (js_sort (\<lambda>r s. by_recency s r) ?xs) = r"
    using l by (auto simp: latest_revision_def split: list.splits)
  have "r \<in> set ?xs" using hd_in_set [OF ne] unfolding hd by simp
  moreover have "\<forall>q \<in> set ?xs. by_recency q r \<le> 0" using newest.js_sort_hd_le [of _ ?xs] unfolding hd by blast
  ultimately show ?thesis by auto
qed

lemma latest_revision_None: "latest_revision rows m = None \<longleftrightarrow> (\<forall>q \<in> set rows. rv_model q \<noteq> m)"
proof -
  have "latest_revision rows m = None \<longleftrightarrow> js_sort (\<lambda>r s. by_recency s r) (filter (\<lambda>r. rv_model r = m) rows) = []"
    by (auto simp: latest_revision_def split: list.split)
  then show ?thesis by (simp only: js_sort_eq_Nil filter_empty_conv)
qed

section \<open>The schedule\<close>

lemma map_of_add_revisions:
  "map_of (foldl add_revision schedule rows) m =
     (case filter (\<lambda>r. rv_model r = m) rows of
        [] \<Rightarrow> map_of schedule m
      | rs \<Rightarrow> Some ((case map_of schedule m of Some old \<Rightarrow> old | None \<Rightarrow> []) @ map revision_from_row rs))"
  by (induction rows arbitrary: schedule) (auto simp: add_revision_def update_conv split: list.splits option.splits)

definition revisions_of :: "pricing_schedule \<Rightarrow> string \<Rightarrow> pricing_revision list" where
  "revisions_of schedule m = (case map_of schedule m of Some rs \<Rightarrow> rs | None \<Rightarrow> [])"

definition model_rows_by_age :: "string \<Rightarrow> revision_row list \<Rightarrow> revision_row list" where
  "model_rows_by_age m rows = filter (\<lambda>r. rv_model r = m) (js_sort by_model_recency (filter rv_authoritative rows))"

lemma revisions_of_schedule: "revisions_of (loadPricingSchedule rows) m = map revision_from_row (model_rows_by_age m rows)"
  by (simp add: revisions_of_def loadPricingSchedule_def map_of_add_revisions model_rows_by_age_def split: list.splits)

lemma model_rows_by_age_sorted: "sorted_wrt (\<lambda>r s. by_recency r s \<le> 0) (model_rows_by_age m rows)"
proof -
  have "sorted_wrt (\<lambda>r s. by_model_recency r s \<le> 0) (model_rows_by_age m rows)"
    unfolding model_rows_by_age_def by (intro sorted_wrt_filter model_recency.sorted_js_sort)
  then show ?thesis
    by (rule sorted_wrt_mono_rel [rotated]) (auto simp: model_rows_by_age_def by_model_recency_def)
qed

lemma set_model_rows_by_age: "set (model_rows_by_age m rows) = {r \<in> set rows. rv_authoritative r \<and> rv_model r = m}"
  by (auto simp: model_rows_by_age_def)

lemma select_append: "select_revision t (xs @ ys) sel = select_revision t ys (select_revision t xs sel)"
  by (induction xs arbitrary: sel) simp_all

lemma select_last:
  assumes "revision_valid t r" "\<forall>q \<in> set qs. rev_effectiveAt q \<le> rev_effectiveAt r"
  shows "select_revision t (qs @ [r]) None = Some r"
proof (cases "select_revision t qs None")
  case (Some s)
  then have "s \<in> set qs" by (rule select_revision_Some(1))
  then show ?thesis using Some assms by (simp add: select_append)
qed (use assms in \<open>simp add: select_append\<close>)

text \<open>The newest authoritative row is the price in force from its time on, unless it has ended.\<close>

lemma newest_row_in_force:
  assumes "newer_than_all r (model_rows_by_age m rows)" "rv_effectiveAt r \<le> t" "rv_validUntil r = None"
  shows "select_revision t (revisions_of (loadPricingSchedule rows) m) None = Some (revision_from_row r)"
proof -
  obtain qs where q: "model_rows_by_age m rows = qs @ [r]"
    using sorted_last_newest [OF model_rows_by_age_sorted assms(1)] by blast
  have "rv_effectiveAt x \<le> rv_effectiveAt r" if "x \<in> set qs" for x
    using model_rows_by_age_sorted [of m rows] that unfolding q
    by (auto simp: sorted_wrt_append by_recency_def cmp_ord_def split: if_splits)
  then show ?thesis unfolding revisions_of_schedule q map_append list.map
    by (intro select_last) (use assms(2,3) in \<open>auto simp: revision_valid_def revision_from_row_def\<close>)
qed


section \<open>After a synchronisation\<close>

lemma same_as_row_same: "same_as_row r p \<longleftrightarrow> samePricing (rv_pricing r) p"
  by (simp add: same_as_row_def samePricing_def Let_def)

lemma by_recency_id: "by_recency q r = 0 \<Longrightarrow> rv_id q = rv_id r"
  by (auto simp: by_recency_def cmp_ord_def split: if_splits)

lemma split_catalogue:
  assumes "(m, p) \<in> set xs" "distinct (map fst xs)"
  shows "\<exists>us vs. xs = us @ (m, p) # vs \<and> (\<forall>x \<in> set us \<union> set vs. fst x \<noteq> m)"
proof -
  obtain us vs where xs: "xs = us @ (m, p) # vs" using split_list [OF assms(1)] by blast
  then have "m \<notin> fst ` set us" "m \<notin> fst ` set vs" using assms(2) by simp_all
  then have "\<forall>x \<in> set us \<union> set vs. fst x \<noteq> m" by (metis UnE imageI)
  then show ?thesis using xs by blast
qed

lemma distinct_changed: "distinct (map fst pricing) \<Longrightarrow> distinct (map fst (changed_entries rows pricing))"
  by (simp add: changed_entries_def distinct_map_filter)

text \<open>A model whose latest row has the catalogue's price keeps its rows.\<close>

lemma sync_keeps_model:
  assumes "(m, p) \<in> set pricing" "distinct (map fst pricing)" "latest_revision rows m = Some r" "same_as_row r p"
  shows "filter (\<lambda>r. rv_model r = m) (snd (syncPricingRevisions digest clock pricing E rows)) = filter (\<lambda>r. rv_model r = m) rows"
proof -
  have "fst e \<noteq> m" if "e \<in> set (changed_entries rows pricing)" for e
  proof
    assume m: "fst e = m"
    have e: "e \<in> set pricing" "\<not> same_as_row r (snd e)" using that m assms(3) by (auto simp: changed_entries_def split: option.splits)
    have "(m, snd e) \<in> set pricing" using e(1) m by (metis prod.collapse)
    then have "map_of pricing m = Some (snd e)" by (rule map_of_is_SomeI [OF assms(2)])
    moreover have "map_of pricing m = Some p" by (rule map_of_is_SomeI [OF assms(2,1)])
    ultimately show False using e(2) assms(4) by simp
  qed
  then have "\<forall>r \<in> set (map (catalogue_row digest E clock) (changed_entries rows pricing)). rv_model r \<noteq> m"
    by (auto simp: catalogue_row_def)
  from insert_other_models [OF this] show ?thesis by (simp add: sync_batches insert_revisions_def)
qed

lemma sync_adds_model:
  assumes "(m, p) \<in> set pricing" "distinct (map fst pricing)"
    and "case latest_revision rows m of None \<Rightarrow> True | Some r \<Rightarrow> \<not> same_as_row r p"
    and "\<forall>r \<in> set rows. rv_model r = m \<and> rv_effectiveAt r = E \<longrightarrow> rv_source r \<noteq> litellm_source digest p"
  shows "\<exists>i. filter (\<lambda>r. rv_model r = m) (snd (syncPricingRevisions digest clock pricing E rows))
    = filter (\<lambda>r. rv_model r = m) rows @ [catalogue_row digest E clock (m, p)\<lparr>rv_id := i\<rparr>]"
proof -
  have "(m, p) \<in> set (changed_entries rows pricing)" using assms(1,3) by (auto simp: changed_entries_def)
  then obtain us vs where c: "changed_entries rows pricing = us @ (m, p) # vs" "\<forall>x \<in> set us \<union> set vs. fst x \<noteq> m"
    using split_catalogue [OF _ distinct_changed [OF assms(2)]] by blast
  let ?f = "catalogue_row digest E clock"
  have model: "rv_model (?f x) = fst x" for x by (simp add: catalogue_row_def)
  have "\<forall>q \<in> set rows. \<not> revision_conflict (?f (m, p)) q"
    using assms(4) by (auto simp: revision_conflict_def catalogue_row_def)
  moreover have "\<forall>q \<in> set (map ?f us) \<union> set (map ?f vs). rv_model q \<noteq> rv_model (?f (m, p))"
  proof
    fix q assume "q \<in> set (map ?f us) \<union> set (map ?f vs)"
    then obtain x where x: "x \<in> set us \<union> set vs" "q = ?f x" by (metis UnE UnI1 UnI2 image_iff set_map)
    then show "rv_model q \<noteq> rv_model (?f (m, p))" using bspec [OF c(2) x(1)] by (simp only: model fst_conv not_False_eq_True)
  qed
  ultimately show ?thesis
    using insert_one_of_model [of "map ?f us" "map ?f vs" "?f (m, p)" rows 0] model
    by (simp add: sync_batches insert_revisions_def c(1))
qed

lemma newer_than_all_rows:
  assumes "filter (\<lambda>r. rv_model r = m) rows = qs @ [r]" "rv_authoritative r"
    and "\<forall>q \<in> set qs. by_recency q r < 0"
  shows "newer_than_all r (model_rows_by_age m rows)"
proof -
  have s: "{q \<in> set rows. rv_model q = m} = insert r (set qs)" using arg_cong [OF assms(1), of set] by simp
  then have r: "r \<in> set rows" "rv_model r = m" by blast+
  have "q \<in> set qs" if "q \<in> set rows" "rv_model q = m" "q \<noteq> r" for q using s that by blast
  then show ?thesis using assms(2,3) r unfolding newer_than_all_def set_model_rows_by_age by blast
qed

text \<open>C13: After a synchronisation the schedule prices each model of the catalogue at the catalogue's price
  from the start of the day on: provided the catalogue names each model once, the ids of the revisions are
  distinct, the earlier revisions of the model are authoritative, open ended, effective no later than
  this day and observed before, and none of this day has the same source.\<close>

theorem sync_puts_catalogue_in_force:
  assumes cat: "(m, p) \<in> set pricing" "distinct (map fst pricing)"
    and rows: "\<forall>r \<in> set rows. rv_model r = m \<longrightarrow> rv_authoritative r \<and> rv_validUntil r = None
      \<and> rv_effectiveAt r \<le> E \<and> rv_observedAt r < clock"
    and fresh: "\<forall>r \<in> set rows. rv_model r = m \<and> rv_effectiveAt r = E \<longrightarrow> rv_source r \<noteq> litellm_source digest p"
    and ids: "distinct (map rv_id rows)" and t: "E \<le> t"
  shows "\<exists>rev. select_revision t (revisions_of (loadPricingSchedule (snd (syncPricingRevisions digest clock pricing E rows))) m) None = Some rev
    \<and> (rev_pricing rev = stored_pricing p \<or> samePricing (rev_pricing rev) p)"
proof (cases "case latest_revision rows m of None \<Rightarrow> True | Some r \<Rightarrow> \<not> same_as_row r p")
  case True
  obtain i where added: "filter (\<lambda>r. rv_model r = m) (snd (syncPricingRevisions digest clock pricing E rows))
    = filter (\<lambda>r. rv_model r = m) rows @ [catalogue_row digest E clock (m, p)\<lparr>rv_id := i\<rparr>]"
    using sync_adds_model [OF cat True fresh, of clock] by blast
  let ?r = "catalogue_row digest E clock (m, p)\<lparr>rv_id := i\<rparr>"
  have "\<forall>q \<in> set (filter (\<lambda>r. rv_model r = m) rows). by_recency q ?r < 0"
    using rows by (auto simp: by_recency_def catalogue_row_def)
  then have n: "newer_than_all ?r (model_rows_by_age m (snd (syncPricingRevisions digest clock pricing E rows)))"
    by (intro newer_than_all_rows [OF added]) (simp_all add: catalogue_row_def)
  show ?thesis using newest_row_in_force [OF n, of t] t by (simp add: catalogue_row_def revision_from_row_def)
next
  case False
  then obtain r where l: "latest_revision rows m = Some r" "same_as_row r p" by (auto split: option.splits)
  note r = latest_revision_newest [OF l(1)]
  let ?rows = "snd (syncPricingRevisions digest clock pricing E rows)"
  have "{q \<in> set ?rows. rv_model q = m} = {q \<in> set rows. rv_model q = m}"
    using arg_cong [OF sync_keeps_model [OF cat l, of digest clock E], of set] by simp
  then have same: "q \<in> set ?rows \<longleftrightarrow> q \<in> set rows" if "rv_model q = m" for q using that by blast
  have "by_recency q r < 0" if "q \<in> set rows" "rv_model q = m" "q \<noteq> r" for q
  proof -
    have "rv_id q \<noteq> rv_id r" using ids that(1,3) r by (auto simp: distinct_map inj_on_def)
    then have "by_recency q r \<noteq> 0" using by_recency_id by blast
    then show ?thesis using r that(1,2) by (metis le_less)
  qed
  then have n: "newer_than_all r (model_rows_by_age m ?rows)"
    using r rows same unfolding newer_than_all_def set_model_rows_by_age by blast
  have in_force: "rv_effectiveAt r \<le> t" "rv_validUntil r = None" using rows r t by (blast intro: order.trans)+
  show ?thesis using newest_row_in_force [OF n in_force] l(2) by (simp add: revision_from_row_def same_as_row_same)
qed

definition text_digest :: "price_identity \<Rightarrow> string" where
  "text_digest i = (case fst i of _ # Some (Fin x) # _ \<Rightarrow> int_to_string \<lfloor>x\<rfloor> | _ \<Rightarrow> [])"

definition catalogue_with :: "rat \<Rightarrow> pricing_map" where
  "catalogue_with output = [(''claude-sonnet'', example_pricing\<lparr>p_outputPerM := Fin output\<rparr>)]"

lemma sync_puts_catalogue_in_force_witness:
  "\<exists>rev. select_revision 1500 (revisions_of (loadPricingSchedule (snd (syncPricingRevisions text_digest 1200 (catalogue_with 20) 1000
      (snd (syncPricingRevisions text_digest 200 (catalogue_with 15) 100 []))))) ''claude-sonnet'') None = Some rev
    \<and> (rev_pricing rev = stored_pricing (example_pricing\<lparr>p_outputPerM := Fin 20\<rparr>)
       \<or> samePricing (rev_pricing rev) (example_pricing\<lparr>p_outputPerM := Fin 20\<rparr>))"
proof (rule sync_puts_catalogue_in_force)
  let ?rows = "snd (syncPricingRevisions text_digest 200 (catalogue_with 15) 100 [])"
  have "map (\<lambda>r. (rv_id r, rv_model r, rv_authoritative r, rv_validUntil r, rv_effectiveAt r, rv_observedAt r)) ?rows
      = [(''0'', ''claude-sonnet'', True, None, 100, 200)]" by code_simp
  then obtain r where r: "?rows = [r]" "rv_authoritative r" "rv_validUntil r = None" "rv_effectiveAt r = 100" "rv_observedAt r = 200"
    by auto
  show "\<forall>r \<in> set ?rows. rv_model r = ''claude-sonnet'' \<longrightarrow> rv_authoritative r \<and> rv_validUntil r = None
      \<and> rv_effectiveAt r \<le> 1000 \<and> rv_observedAt r < 1200" using r by simp
  show "\<forall>r \<in> set ?rows. rv_model r = ''claude-sonnet'' \<and> rv_effectiveAt r = 1000 \<longrightarrow>
      rv_source r \<noteq> litellm_source text_digest (example_pricing\<lparr>p_outputPerM := Fin 20\<rparr>)" using r by simp
  show "distinct (map rv_id ?rows)" using r by simp
qed (simp_all add: catalogue_with_def)

section \<open>Prices that are not in force\<close>

text \<open>C33: A synchronisation compares the catalogue with the latest revision of a model, whether or not that
  revision has ended or is authoritative. If the price is the same it stores nothing, and a model all of
  whose authoritative revisions have ended, as after the promotion of its price history up to midnight,
  has no price although the catalogue lists it.\<close>

theorem sync_leaves_expired_model_unpriced:
  assumes "(m, p) \<in> set pricing" "distinct (map fst pricing)" "latest_revision rows m = Some r" "same_as_row r p"
    and expired: "\<forall>q \<in> set rows. rv_model q = m \<and> rv_authoritative q \<longrightarrow> (case rv_validUntil q of None \<Rightarrow> False | Some u \<Rightarrow> u \<le> t)"
  shows "select_revision t (revisions_of (loadPricingSchedule (snd (syncPricingRevisions digest clock pricing E rows))) m) None = None"
proof -
  let ?rows = "snd (syncPricingRevisions digest clock pricing E rows)"
  have "{q \<in> set ?rows. rv_model q = m} = {q \<in> set rows. rv_model q = m}"
    using arg_cong [OF sync_keeps_model [OF assms(1-4), of digest clock E], of set] by simp
  then have "q \<in> set rows" if "q \<in> set (model_rows_by_age m ?rows)" for q
    using that unfolding set_model_rows_by_age by blast
  then have "\<not> revision_valid t (revision_from_row q)" if "q \<in> set (model_rows_by_age m ?rows)" for q
    using expired that by (fastforce simp: set_model_rows_by_age revision_valid_def revision_from_row_def split: option.splits)
  then show ?thesis by (simp add: revisions_of_schedule select_revision_None)
qed

text \<open>The history of two days is promoted, then the next day is synchronised.\<close>

definition history_then_sync :: "revision_row list" where
  "history_then_sync =
     pd_revisions (snd (promote ''1'' 410 (snd (save_batches ''1'' [take 2 example_snapshots]
       (example_db\<lparr>pd_jobs := [example_job\<lparr>hj_refs := map snap_ref (take 2 example_snapshots)\<rparr>]\<rparr>)))))"

lemma sync_leaves_expired_model_unpriced_witness:
  "map (\<lambda>r. (rv_effectiveAt r, rv_validUntil r)) history_then_sync = [(100, Some 200), (200, Some 400)]
   \<and> select_revision 450 (revisions_of (loadPricingSchedule (snd (syncPricingRevisions text_digest 420 (catalogue_with 20) 400
       history_then_sync))) ''claude-sonnet'') None = None"
proof (intro conjI)
  show rows: "map (\<lambda>r. (rv_effectiveAt r, rv_validUntil r)) history_then_sync = [(100, Some 200), (200, Some 400)]" by code_simp
  have latest: "case latest_revision history_then_sync ''claude-sonnet'' of None \<Rightarrow> False
    | Some r \<Rightarrow> same_as_row r (example_pricing\<lparr>p_outputPerM := Fin 20\<rparr>)" by code_simp
  then obtain r where r: "latest_revision history_then_sync ''claude-sonnet'' = Some r"
      "same_as_row r (example_pricing\<lparr>p_outputPerM := Fin 20\<rparr>)" by (auto split: option.splits)
  have "list_all (\<lambda>q. case rv_validUntil q of None \<Rightarrow> False | Some u \<Rightarrow> u \<le> 450) history_then_sync" by code_simp
  then show "select_revision 450 (revisions_of (loadPricingSchedule (snd (syncPricingRevisions text_digest 420 (catalogue_with 20) 400
       history_then_sync))) ''claude-sonnet'') None = None"
    by (intro sync_leaves_expired_model_unpriced [OF _ _ r]) (auto simp: catalogue_with_def list_all_iff)
qed

text \<open>A price that changes and changes back within a day: the row of the first price is still there, so the
  third synchronisation stores nothing and the second price stays the latest.\<close>

lemma price_back_within_a_day_is_lost:
  "(let rows = snd (syncPricingRevisions text_digest 110 (catalogue_with 15) 100 []);
        rows = snd (syncPricingRevisions text_digest 120 (catalogue_with 20) 100 rows);
        rows = snd (syncPricingRevisions text_digest 130 (catalogue_with 15) 100 rows)
    in map_option (\<lambda>r. p_outputPerM (rv_pricing r)) (latest_revision rows ''claude-sonnet'')) = Some (Fin 20)"
  by code_simp


section \<open>The cached schedule\<close>

text \<open>
  What was read at a version of the past is what is there now if the version is still the same. The cache
  relies on this: a step that leaves the version alone leaves the content alone, and another step raises
  it.
\<close>

definition read_at :: "('s \<Rightarrow> 'v::linorder) \<Rightarrow> ('s \<Rightarrow> 'c) \<Rightarrow> 's \<Rightarrow> 'v \<Rightarrow> 'c \<Rightarrow> bool" where
  "read_at version content s v c \<longleftrightarrow> v \<le> version s \<and> (v = version s \<longrightarrow> c = content s)"

locale versioned_source =
  fixes version :: "'s \<Rightarrow> 'v::linorder" and content :: "'s \<Rightarrow> 'c" and step :: "'s \<Rightarrow> 's \<Rightarrow> bool"
  assumes versioned: "step s s' \<Longrightarrow> version s' = version s \<and> content s' = content s \<or> version s < version s'"
begin

lemma read_at_step: "step s s' \<Longrightarrow> read_at version content s v c \<Longrightarrow> read_at version content s' v c"
  using versioned [of s s'] by (auto simp: read_at_def)

lemma read_at_load: "v \<le> version s \<Longrightarrow> read_at version content s v (content s)"
  by (simp add: read_at_def)

lemma version_step: "step s s' \<Longrightarrow> v \<le> version s \<Longrightarrow> v \<le> version s'"
  using versioned [of s s'] by (auto intro: less_imp_le le_less_trans)

lemma read_at_current: "read_at version content s (version s) c \<Longrightarrow> c = content s"
  by (simp add: read_at_def)

end

text \<open>
  The writers of the revisions: a synchronisation and a promotion, each at a time later than the version
  (the clocks of the processes agree to that extent), and whatever leaves revisions and version alone.
\<close>

inductive pricing_step :: "sync_db \<Rightarrow> sync_db \<Rightarrow> bool" where
  step_sync: "readVersion db < Some now \<Longrightarrow>
     runPricingSyncTransaction tzdb digest clock now fetched day timezone db = (r, db') \<Longrightarrow> pricing_step db db'"
| step_promote: "readVersion db < Some now \<Longrightarrow> promote i now (sd_pricing db) = (r, pdb) \<Longrightarrow>
     pricing_step db (db\<lparr>sd_pricing := pdb\<rparr>)"
| step_other: "pd_revisions pdb = pd_revisions (sd_pricing db) \<Longrightarrow> pd_cacheVersion pdb = pd_cacheVersion (sd_pricing db) \<Longrightarrow>
     pricing_step db (db\<lparr>sd_pricing := pdb\<rparr>)"

definition current_schedule :: "sync_db \<Rightarrow> pricing_schedule" where
  "current_schedule db = loadPricingSchedule (pd_revisions (sd_pricing db))"

lemma sync_transaction_versioned:
  assumes "runPricingSyncTransaction tzdb digest clock now fetched day timezone db = (r, db')"
  shows "db' = db \<or> readVersion db' = Some now"
  using assms by (auto simp: runPricingSyncTransaction_def readVersion_def split: sum.splits prod.splits)

lemma promote_versioned:
  assumes "promote i now db = (r, db')"
  shows "pd_revisions db' = pd_revisions db \<and> pd_cacheVersion db' = pd_cacheVersion db \<or> pd_cacheVersion db' = Some now"
  using assms by (auto simp: promote_def Let_def split: option.splits prod.splits if_splits)

interpretation schedule_source: versioned_source readVersion current_schedule pricing_step
proof
  fix db db' assume "pricing_step db db'"
  then show "readVersion db' = readVersion db \<and> current_schedule db' = current_schedule db \<or> readVersion db < readVersion db'"
  proof cases
    case (step_sync now tzdb digest clock fetched day timezone r)
    then show ?thesis using sync_transaction_versioned [OF step_sync(2)] by (elim disjE) simp_all
  next
    case (step_promote now i r pdb)
    have st: "sd_syncStatus db' = sd_syncStatus db" "sd_pricing db' = pdb" by (simp_all add: step_promote(1))
    from promote_versioned [OF step_promote(3)] show ?thesis
    proof
      assume "pd_revisions pdb = pd_revisions (sd_pricing db) \<and> pd_cacheVersion pdb = pd_cacheVersion (sd_pricing db)"
      then show ?thesis unfolding readVersion_def current_schedule_def st by simp
    next
      assume "pd_cacheVersion pdb = Some now"
      then have "readVersion db' = Some now" by (simp add: readVersion_def st)
      then show ?thesis using step_promote(2) by simp
    qed
  next
    case (step_other pdb)
    have st: "sd_syncStatus db' = sd_syncStatus db" "sd_pricing db' = pdb" by (simp_all add: step_other(1))
    show ?thesis unfolding readVersion_def current_schedule_def st step_other(2,3) by simp
  qed
qed

text \<open>The cache with the calls of \<open>get\<close> that have read the version and the clock and wait for the load.\<close>

record cache_world =
  cw_db :: sync_db
  cw_entry :: "schedule_entry option"
  cw_loads :: "(instant option \<times> instant) list"

inductive cache_reachable :: "cache_world \<Rightarrow> bool" where
  cache_init: "cache_reachable \<lparr>cw_db = db, cw_entry = None, cw_loads = []\<rparr>"
| cache_db: "cache_reachable w \<Longrightarrow> pricing_step (cw_db w) db \<Longrightarrow> cache_reachable (w\<lparr>cw_db := db\<rparr>)"
| cache_miss: "cache_reachable w \<Longrightarrow> cache_hit (readVersion (cw_db w)) now (cw_entry w) = None \<Longrightarrow>
     cache_reachable (w\<lparr>cw_loads := cw_loads w @ [(readVersion (cw_db w), now)]\<rparr>)"
| cache_loaded: "cache_reachable w \<Longrightarrow> cw_loads w = us @ (v, now) # vs \<Longrightarrow>
     cache_reachable (w\<lparr>cw_loads := us @ vs, cw_entry := Some (cache_fill v now (current_schedule (cw_db w)))\<rparr>)"
| cache_invalidate: "cache_reachable w \<Longrightarrow> cache_reachable (w\<lparr>cw_entry := None\<rparr>)"

definition cache_inv :: "cache_world \<Rightarrow> bool" where
  "cache_inv w \<longleftrightarrow>
     (case cw_entry w of None \<Rightarrow> True | Some e \<Rightarrow> read_at readVersion current_schedule (cw_db w) (se_version e) (se_schedule e))
     \<and> (\<forall>(v, t) \<in> set (cw_loads w). v \<le> readVersion (cw_db w))"

lemma cache_reachable_inv: "cache_reachable w \<Longrightarrow> cache_inv w"
proof (induction rule: cache_reachable.induct)
  case (cache_db w db)
  then show ?case
    by (auto simp: cache_inv_def split: option.splits intro: schedule_source.read_at_step schedule_source.version_step)
next
  case (cache_loaded w us v now vs)
  then show ?case by (auto simp: cache_inv_def cache_fill_def intro: schedule_source.read_at_load)
qed (auto simp: cache_inv_def split: option.splits)

text \<open>C14: While the clocks of the processes that write prices agree enough for their versions to increase,
  the cache never answers with a schedule other than the one the database holds at that time, however
  loads, synchronisations, promotions and invalidations interleave.\<close>

theorem cached_schedule_is_current:
  assumes "cache_reachable w" and "cache_hit (readVersion (cw_db w)) now (cw_entry w) = Some schedule"
  shows "schedule = loadPricingSchedule (pd_revisions (sd_pricing (cw_db w)))"
  using cache_reachable_inv [OF assms(1)] assms(2)
  by (auto simp: cache_inv_def cache_hit_def current_schedule_def split: option.splits if_splits
      dest!: schedule_source.read_at_current)

lemma cached_schedule_is_current_witness:
  "\<exists>w. cache_reachable w \<and> pd_revisions (sd_pricing (cw_db w)) \<noteq> []
     \<and> cache_hit (readVersion (cw_db w)) 20 (cw_entry w) = Some (loadPricingSchedule (pd_revisions (sd_pricing (cw_db w))))"
proof -
  let ?db = "\<lparr>sd_pricing = example_db\<lparr>pd_revisions := history_then_sync, pd_cacheVersion := Some 5\<rparr>, sd_syncStatus = None\<rparr>"
  let ?w0 = "\<lparr>cw_db = ?db, cw_entry = None, cw_loads = []\<rparr>"
  let ?w1 = "?w0\<lparr>cw_loads := [(Some 5, 10)]\<rparr>"
  let ?w = "?w1\<lparr>cw_loads := [], cw_entry := Some (cache_fill (Some 5) 10 (current_schedule ?db))\<rparr>"
  have "cache_reachable ?w1" using cache_miss [OF cache_init [of ?db], of 10] by (simp add: cache_hit_def readVersion_def)
  from cache_loaded [OF this, of "[]" "Some 5" 10 "[]"] have w: "cache_reachable ?w" by simp
  have hit: "cache_hit (readVersion (cw_db ?w)) 20 (cw_entry ?w) = Some (current_schedule ?db)"
    by (simp add: cache_hit_def cache_fill_def readVersion_def TTL_MS_def)
  have "current_schedule ?db = loadPricingSchedule (pd_revisions (sd_pricing (cw_db ?w)))"
    by (rule cached_schedule_is_current [OF w hit])
  moreover have "history_then_sync \<noteq> []" by code_simp
  ultimately show ?thesis using w hit by (intro exI [of _ ?w]) simp
qed

end
