(* ===== verification/Device_Control.thy ===== *)
theory Device_Control
  imports Toard_Prelude
begin

text \<open>
  \<open>apps/web/lib/device-control-repository.ts\<close>: the commands and the content mode that a user wants on a
  device, and the synchronisation in which the device reports what it did and is handed what to do. Each
  operation is one transaction on the tables; the constraints of migration
  \<open>1700000050_device_control.sql\<close> raise errors. Generated keys are arguments, and so is the clock, in the queries as well; a generation stays
  below the largest safe integer.
\<close>

section \<open>Tables\<close>

datatype content_mode = Mode_off | Mode_server | Mode_e2ee
datatype command_type = Cmd_collect | Cmd_doctor
datatype command_status = Cmd_pending | Cmd_claimed | Cmd_succeeded | Cmd_failed | Cmd_expired

text \<open>The device of a row: user, ingest token and fingerprint.\<close>

record device_owner =
  ow_user :: string
  ow_token :: string

record device_snapshot =
  ds_user :: string
  ds_token :: string
  ds_fp :: string
  ds_host :: string
  ds_received :: instant

record device_policy =
  dp_user :: string
  dp_token :: string
  dp_fp :: string
  dp_generation :: int
  dp_mode :: content_mode
  dp_since :: "instant option"

record device_observation =
  do_user :: string
  do_token :: string
  do_fp :: string
  do_host :: "string option"
  do_version :: string
  do_active :: bool
  do_generation :: int
  do_mode :: content_mode
  do_since :: "instant option"
  do_error :: "string option"
  do_sync :: instant

record device_command =
  cm_id :: string
  cm_user :: string
  cm_token :: string
  cm_fp :: string
  cm_type :: command_type
  cm_status :: command_status
  cm_result :: "string option"
  cm_created :: instant
  cm_expires :: instant
  cm_claimedAt :: "instant option"
  cm_lease :: "instant option"
  cm_completed :: "instant option"

datatype device_audit =
    Mode_changed string string string "(int \<times> content_mode \<times> instant option) option" int content_mode "instant option"
  | Command_created string string string string command_type

record device_db =
  dd_snapshots :: "device_snapshot list"
  dd_policies :: "device_policy list"
  dd_observations :: "device_observation list"
  dd_commands :: "device_command list"
  dd_audit :: "device_audit list"

section \<open>Input\<close>

record command_report =
  cr_id :: string
  cr_succeeded :: bool
  cr_code :: "string option"

record device_report =
  dr_fp :: string
  dr_host :: "string option"
  dr_version :: string
  dr_active :: bool
  dr_generation :: int
  dr_mode :: content_mode
  dr_since :: "instant option"
  dr_error :: "string option"
  dr_results :: "command_report list"

datatype device_error = Invalid_fingerprint | Invalid_error_code | Policy_missing | Command_insert_failed | Check_violation

text \<open>\<open>/^[a-f0-9]{64}$/\<close> and \<open>/^[a-z0-9_]{1,80}$/\<close>.\<close>

definition hex_digit :: "char \<Rightarrow> bool" where
  "hex_digit c \<longleftrightarrow> c \<in> set ''0123456789abcdef''"

definition valid_fingerprint :: "string \<Rightarrow> bool" where
  "valid_fingerprint s \<longleftrightarrow> length s = 64 \<and> list_all hex_digit s"

definition valid_error_code :: "string option \<Rightarrow> bool" where
  "valid_error_code v =
     (case v of None \<Rightarrow> True
      | Some s \<Rightarrow> 1 \<le> length s \<and> length s \<le> 80 \<and> list_all (\<lambda>c. c \<in> set ''abcdefghijklmnopqrstuvwxyz0123456789_'') s)"

definition deviceBelongsToOwner :: "device_owner \<Rightarrow> string \<Rightarrow> device_db \<Rightarrow> bool" where
  "deviceBelongsToOwner owner fp db =
     list_ex (\<lambda>d. ds_user d = ow_user owner \<and> ds_token d = ow_token owner \<and> ds_fp d = fp) (dd_snapshots db)"

section \<open>Synchronisation\<close>

definition LEASE_MS :: int where "LEASE_MS = 5 * 60 * 1000"
definition COMMAND_TTL_MS :: int where "COMMAND_TTL_MS = 10 * 60 * 1000"
definition MAX_COMMANDS :: nat where "MAX_COMMANDS = 8"

definition own_command :: "device_owner \<Rightarrow> string \<Rightarrow> device_command \<Rightarrow> bool" where
  "own_command owner fp c \<longleftrightarrow> cm_user c = ow_user owner \<and> cm_token c = ow_token owner \<and> cm_fp c = fp"

definition active :: "device_command \<Rightarrow> bool" where
  "active c \<longleftrightarrow> cm_status c \<in> {Cmd_pending, Cmd_claimed}"

definition update_host :: "device_owner \<Rightarrow> device_report \<Rightarrow> device_db \<Rightarrow> device_db" where
  "update_host owner rep db =
     (let host = (case dr_host rep of None \<Rightarrow> [] | Some h \<Rightarrow> h)
      in db\<lparr>dd_snapshots := map (\<lambda>d. if ds_user d = ow_user owner \<and> ds_token d = ow_token owner \<and> ds_fp d = dr_fp rep
             then d\<lparr>ds_host := host\<rparr> else d) (dd_snapshots db)\<rparr>)"

definition apply_result :: "device_owner \<Rightarrow> string \<Rightarrow> instant \<Rightarrow> command_report \<Rightarrow> device_command \<Rightarrow> device_command" where
  "apply_result owner fp now r c =
     (if cm_id c = cr_id r \<and> own_command owner fp c \<and> cm_status c = Cmd_claimed
      then c\<lparr>cm_status := (if cr_succeeded r then Cmd_succeeded else Cmd_failed), cm_result := cr_code r,
             cm_completed := Some now, cm_lease := None\<rparr> else c)"

definition record_result :: "device_owner \<Rightarrow> string \<Rightarrow> instant \<Rightarrow> device_command list \<Rightarrow> command_report \<Rightarrow> device_command list" where
  "record_result owner fp now cs r = map (apply_result owner fp now r) cs"

definition observe_device :: "device_owner \<Rightarrow> device_report \<Rightarrow> instant \<Rightarrow> device_observation list \<Rightarrow> device_observation list" where
  "observe_device owner rep now obs =
     (let new = \<lparr>do_user = ow_user owner, do_token = ow_token owner, do_fp = dr_fp rep, do_host = dr_host rep,
                 do_version = dr_version rep, do_active = dr_active rep, do_generation = dr_generation rep,
                 do_mode = dr_mode rep, do_since = dr_since rep, do_error = dr_error rep, do_sync = now\<rparr>
      in if list_ex (\<lambda>d. do_token d = ow_token owner \<and> do_fp d = dr_fp rep) obs
         then map (\<lambda>d. if do_token d = ow_token owner \<and> do_fp d = dr_fp rep
             then if do_generation d \<le> dr_generation rep then new
                  else new\<lparr>do_generation := do_generation d, do_mode := do_mode d, do_since := do_since d\<rparr>
             else d) obs
         else obs @ [new])"

definition init_policy :: "device_owner \<Rightarrow> device_report \<Rightarrow> device_policy list \<Rightarrow> device_policy list" where
  "init_policy owner rep ps =
     (if list_ex (\<lambda>p. dp_token p = ow_token owner \<and> dp_fp p = dr_fp rep) ps then ps
      else ps @ [\<lparr>dp_user = ow_user owner, dp_token = ow_token owner, dp_fp = dr_fp rep, dp_generation = 1,
                  dp_mode = dr_mode rep, dp_since = dr_since rep\<rparr>])"

definition expire_command :: "device_owner \<Rightarrow> string \<Rightarrow> instant \<Rightarrow> device_command \<Rightarrow> device_command" where
  "expire_command owner fp now c =
     (if own_command owner fp c \<and> active c \<and> cm_expires c \<le> now
      then c\<lparr>cm_status := Cmd_expired, cm_result := Some ''command_expired'', cm_completed := Some now, cm_lease := None\<rparr>
      else c)"

definition expire_commands :: "device_owner \<Rightarrow> string \<Rightarrow> instant \<Rightarrow> device_command list \<Rightarrow> device_command list" where
  "expire_commands owner fp now cs = map (expire_command owner fp now) cs"

definition claimable :: "device_owner \<Rightarrow> string \<Rightarrow> instant \<Rightarrow> device_command \<Rightarrow> bool" where
  "claimable owner fp now c \<longleftrightarrow>
     own_command owner fp c \<and> now < cm_expires c
     \<and> (cm_status c = Cmd_pending
        \<or> (cm_status c = Cmd_claimed \<and> (case cm_lease c of None \<Rightarrow> False | Some t \<Rightarrow> t \<le> now)))"

definition by_age :: "device_command \<Rightarrow> device_command \<Rightarrow> int" where
  "by_age l r = (if cm_created l \<noteq> cm_created r then cm_created l - cm_created r else cmp_ord (cm_id l) (cm_id r))"

definition candidates :: "device_owner \<Rightarrow> string \<Rightarrow> instant \<Rightarrow> device_command list \<Rightarrow> string list" where
  "candidates owner fp now cs = map cm_id (take MAX_COMMANDS (js_sort by_age (filter (claimable owner fp now) cs)))"

definition claim_command :: "instant \<Rightarrow> string list \<Rightarrow> device_command \<Rightarrow> device_command" where
  "claim_command now ids c =
     (if cm_id c \<in> set ids
      then c\<lparr>cm_status := Cmd_claimed,
             cm_claimedAt := (case cm_claimedAt c of None \<Rightarrow> Some now | Some t \<Rightarrow> Some t),
             cm_lease := Some (now + LEASE_MS)\<rparr>
      else c)"

definition claim_commands :: "device_owner \<Rightarrow> string \<Rightarrow> instant \<Rightarrow> device_command list \<Rightarrow> device_command list" where
  "claim_commands owner fp now cs =
     map (claim_command now (candidates owner fp now cs)) cs"

record sync_result =
  sr_generation :: int
  sr_mode :: content_mode
  sr_since :: "instant option"
  sr_commands :: "(string \<times> command_type) list"

definition sync_commands :: "device_owner \<Rightarrow> device_report \<Rightarrow> instant \<Rightarrow> device_command list \<Rightarrow> device_command list" where
  "sync_commands owner rep now cs =
     expire_commands owner (dr_fp rep) now (foldl (record_result owner (dr_fp rep) now) cs (dr_results rep))"

definition device_sync :: "device_owner \<Rightarrow> device_report \<Rightarrow> instant \<Rightarrow> device_db \<Rightarrow> (device_error + sync_result option) \<times> device_db" where
  "device_sync owner rep now db =
     (if \<not> valid_fingerprint (dr_fp rep) then (Inl Invalid_fingerprint, db)
      else if \<not> valid_error_code (dr_error rep) \<or> \<not> list_all (\<lambda>r. valid_error_code (cr_code r)) (dr_results rep)
      then (Inl Invalid_error_code, db)
      else if \<not> deviceBelongsToOwner owner (dr_fp rep) db then (Inr None, db)
      else if dr_generation rep < 0 \<or> length (dr_version rep) < 1 \<or> 80 < length (dr_version rep) then (Inl Check_violation, db)
      else
        (let waiting = sync_commands owner rep now (dd_commands db);
             claimed = claim_commands owner (dr_fp rep) now waiting;
             ids = candidates owner (dr_fp rep) now waiting;
             db' = (update_host owner rep db)\<lparr>dd_observations := observe_device owner rep now (dd_observations db),
                      dd_policies := init_policy owner rep (dd_policies db), dd_commands := claimed\<rparr>
         in (case find (\<lambda>p. dp_user p = ow_user owner \<and> dp_token p = ow_token owner \<and> dp_fp p = dr_fp rep) (dd_policies db') of
               None \<Rightarrow> (Inl Policy_missing, db)
             | Some p \<Rightarrow>
                 (Inr (Some \<lparr>sr_generation = dp_generation p, sr_mode = dp_mode p, sr_since = dp_since p,
                    sr_commands = map (\<lambda>c. (cm_id c, cm_type c)) (filter (\<lambda>c. cm_id c \<in> set ids) claimed)\<rparr>), db'))))"

section \<open>What the user asks for\<close>

definition setDesiredContentMode ::
  "device_owner \<Rightarrow> string \<Rightarrow> content_mode \<Rightarrow> instant \<Rightarrow> device_db \<Rightarrow> (device_error + bool) \<times> device_db" where
  "setDesiredContentMode owner fp mode now db =
     (if \<not> valid_fingerprint fp then (Inl Invalid_fingerprint, db)
      else if \<not> deviceBelongsToOwner owner fp db then (Inr False, db)
      else
        (let before = find (\<lambda>p. dp_user p = ow_user owner \<and> dp_token p = ow_token owner \<and> dp_fp p = fp) (dd_policies db);
             generation = (case before of Some p \<Rightarrow> dp_generation p + 1 | None \<Rightarrow> 1);
             since = (if mode = Mode_server then Some now else None);
             ps = dd_policies db;
             ps' = (if list_ex (\<lambda>p. dp_token p = ow_token owner \<and> dp_fp p = fp) ps
                then map (\<lambda>p. if dp_token p = ow_token owner \<and> dp_fp p = fp
                    then p\<lparr>dp_generation := generation, dp_mode := mode, dp_since := since\<rparr> else p) ps
                else ps @ [\<lparr>dp_user = ow_user owner, dp_token = ow_token owner, dp_fp = fp, dp_generation = generation,
                            dp_mode = mode, dp_since = since\<rparr>])
         in (Inr True,
             db\<lparr>dd_policies := ps',
                dd_audit := dd_audit db @ [Mode_changed (ow_user owner) (ow_token owner) fp
                  (map_option (\<lambda>p. (dp_generation p, dp_mode p, dp_since p)) before) generation mode since]\<rparr>)))"

text \<open>The unique index on the active commands of a type of a device.\<close>

definition active_conflict :: "device_owner \<Rightarrow> string \<Rightarrow> command_type \<Rightarrow> device_command \<Rightarrow> bool" where
  "active_conflict owner fp ty c \<longleftrightarrow> active c \<and> cm_token c = ow_token owner \<and> cm_fp c = fp \<and> cm_type c = ty"

definition enqueueCommand ::
  "string \<Rightarrow> device_owner \<Rightarrow> string \<Rightarrow> command_type \<Rightarrow> instant \<Rightarrow> device_db \<Rightarrow> (device_error + string option) \<times> device_db" where
  "enqueueCommand key owner fp ty now db =
     (if \<not> valid_fingerprint fp then (Inl Invalid_fingerprint, db)
      else if \<not> deviceBelongsToOwner owner fp db then (Inr None, db)
      else
        (let cs = expire_commands owner fp now (dd_commands db);
             new = \<lparr>cm_id = key, cm_user = ow_user owner, cm_token = ow_token owner, cm_fp = fp, cm_type = ty,
                    cm_status = Cmd_pending, cm_result = None, cm_created = now, cm_expires = now + COMMAND_TTL_MS,
                    cm_claimedAt = None, cm_lease = None, cm_completed = None\<rparr>;
             conflict = list_ex (\<lambda>c. active_conflict owner fp ty c \<or> cm_id c = key) cs;
             existing = js_sort (\<lambda>l r. cm_created r - cm_created l)
               (filter (\<lambda>c. own_command owner fp c \<and> cm_type c = ty \<and> active c \<and> now < cm_expires c) cs);
             found = (if conflict then map_option cm_id (case existing of [] \<Rightarrow> None | c # _ \<Rightarrow> Some c) else Some key)
         in (case found of
               None \<Rightarrow> (Inl Command_insert_failed, db)
             | Some i \<Rightarrow>
                 (Inr (Some i),
                  db\<lparr>dd_commands := (if conflict then cs else cs @ [new]),
                     dd_audit := dd_audit db @ [Command_created (ow_user owner) (ow_token owner) fp i ty]\<rparr>))))"

section \<open>The list of devices\<close>

record device_view =
  vw_token :: string
  vw_fp :: string
  vw_host :: "string option"
  vw_desired :: "(int \<times> content_mode) option"
  vw_applied :: "(int \<times> content_mode) option"
  vw_version :: "string option"
  vw_active :: "bool option"
  vw_lastSync :: "instant option"
  vw_error :: "string option"
  vw_command :: "(string \<times> command_type \<times> command_status \<times> string option \<times> instant) option"

definition shown_status :: "instant \<Rightarrow> device_command \<Rightarrow> command_status" where
  "shown_status now c = (if active c \<and> cm_expires c \<le> now then Cmd_expired else cm_status c)"

definition latest_snapshots :: "string \<Rightarrow> device_db \<Rightarrow> device_snapshot list" where
  "latest_snapshots user db =
     (let mine = js_sort (\<lambda>l r. ds_received r - ds_received l) (filter (\<lambda>d. ds_user d = user) (dd_snapshots db))
      in foldl (\<lambda>acc d. if list_ex (\<lambda>e. ds_token e = ds_token d \<and> ds_fp e = ds_fp d) acc then acc else acc @ [d]) [] mine)"

definition device_view_of :: "string \<Rightarrow> instant \<Rightarrow> device_db \<Rightarrow> device_snapshot \<Rightarrow> device_view" where
  "device_view_of user now db d =
     (let p = find (\<lambda>p. dp_user p = user \<and> dp_token p = ds_token d \<and> dp_fp p = ds_fp d) (dd_policies db);
          ob = find (\<lambda>b. do_user b = user \<and> do_token b = ds_token d \<and> do_fp b = ds_fp d) (dd_observations db);
          cs = js_sort (\<lambda>l r. cm_created r - cm_created l)
            (filter (own_command \<lparr>ow_user = user, ow_token = ds_token d\<rparr> (ds_fp d)) (dd_commands db))
      in \<lparr>vw_token = ds_token d, vw_fp = ds_fp d, vw_host = (if ds_host d = [] then None else Some (ds_host d)),
          vw_desired = map_option (\<lambda>p. (dp_generation p, dp_mode p)) p,
          vw_applied = map_option (\<lambda>b. (do_generation b, do_mode b)) ob,
          vw_version = map_option do_version ob, vw_active = map_option do_active ob,
          vw_lastSync = map_option do_sync ob, vw_error = Option.bind ob do_error,
          vw_command = (case cs of [] \<Rightarrow> None | c # _ \<Rightarrow> Some (cm_id c, cm_type c, shown_status now c, cm_result c, cm_created c))\<rparr>)"

definition listUserDevices :: "string \<Rightarrow> instant \<Rightarrow> device_db \<Rightarrow> device_view list" where
  "listUserDevices user now db = map (device_view_of user now db) (latest_snapshots user db)"

end
