(* ===== verification/Device_Control_Proofs.thy ===== *)
theory Device_Control_Proofs
  imports Device_Control
begin

text \<open>
  The life of a command: pending, claimed under a lease, finished. A finished command does not change,
  a device is handed only its own commands that are due, and at most one command of a type is under way.
\<close>

section \<open>Each update of the commands\<close>

definition cmd_key :: "device_command \<Rightarrow> string \<times> string \<times> string \<times> string \<times> command_type \<times> instant" where
  "cmd_key c = (cm_id c, cm_user c, cm_token c, cm_fp c, cm_type c, cm_expires c)"

text \<open>An update of a command that keeps what it is, and leaves a finished one alone.\<close>

definition command_update :: "(device_command \<Rightarrow> device_command) \<Rightarrow> bool" where
  "command_update f \<longleftrightarrow> (\<forall>c. cmd_key (f c) = cmd_key c \<and> (active (f c) \<longrightarrow> active c) \<and> (\<not> active c \<longrightarrow> f c = c))"

lemma command_updateD:
  assumes "command_update f"
  shows "cmd_key (f c) = cmd_key c" "active (f c) \<Longrightarrow> active c" "\<not> active c \<Longrightarrow> f c = c"
  using assms unfolding command_update_def by blast+

lemma command_update_result: "command_update (apply_result owner fp now r)"
  unfolding command_update_def
proof (intro allI conjI impI)
  fix c
  show "cmd_key (apply_result owner fp now r c) = cmd_key c" by (simp add: apply_result_def cmd_key_def)
  show "active (apply_result owner fp now r c) \<Longrightarrow> active c" by (simp add: apply_result_def active_def split: if_splits)
  show "\<not> active c \<Longrightarrow> apply_result owner fp now r c = c" unfolding apply_result_def active_def by simp
qed

lemma command_update_expire: "command_update (expire_command owner fp now)"
  unfolding command_update_def
proof (intro allI conjI impI)
  fix c
  show "cmd_key (expire_command owner fp now c) = cmd_key c" by (simp add: expire_command_def cmd_key_def)
  show "active (expire_command owner fp now c) \<Longrightarrow> active c" by (simp add: expire_command_def active_def split: if_splits)
  show "\<not> active c \<Longrightarrow> expire_command owner fp now c = c" unfolding expire_command_def by simp
qed

lemma command_update_comp: "command_update f \<Longrightarrow> command_update g \<Longrightarrow> command_update (g \<circ> f)"
  unfolding command_update_def comp_def by metis

lemma results_map: "\<exists>f. foldl (record_result owner fp now) cs rs = map f cs \<and> command_update f"
proof (induction rs arbitrary: cs)
  case Nil
  then show ?case by (intro exI [of _ id]) (simp add: command_update_def)
next
  case (Cons r rs)
  let ?f = "apply_result owner fp now r"
  obtain g where g: "foldl (record_result owner fp now) (map ?f cs) rs = map g (map ?f cs)" "command_update g" using Cons by blast
  have "foldl (record_result owner fp now) cs (r # rs) = map (g \<circ> ?f) cs" using g(1) by (simp add: record_result_def)
  then show ?case using command_update_comp [OF command_update_result g(2)] by blast
qed

lemma sync_map: "\<exists>f. sync_commands owner rep now cs = map f cs \<and> command_update f"
proof -
  obtain f where f: "foldl (record_result owner (dr_fp rep) now) cs (dr_results rep) = map f cs" "command_update f"
    using results_map by blast
  have "sync_commands owner rep now cs = map (expire_command owner (dr_fp rep) now \<circ> f) cs"
    by (simp add: sync_commands_def f(1) expire_commands_def)
  then show ?thesis using command_update_comp [OF f(2) command_update_expire] by blast
qed

section \<open>The invariant\<close>

definition command_inv :: "device_command list \<Rightarrow> bool" where
  "command_inv cs \<longleftrightarrow> distinct (map cm_id cs)
     \<and> (\<forall>c \<in> set cs. \<forall>d \<in> set cs. active c \<and> active d \<and> cm_token c = cm_token d \<and> cm_fp c = cm_fp d \<and> cm_type c = cm_type d \<longrightarrow> c = d)"

lemma command_inv_id: "command_inv cs \<Longrightarrow> c \<in> set cs \<Longrightarrow> d \<in> set cs \<Longrightarrow> cm_id c = cm_id d \<Longrightarrow> c = d"
  unfolding command_inv_def by (auto simp: distinct_map inj_on_def)

lemma command_inv_one:
  "command_inv cs \<Longrightarrow> c \<in> set cs \<Longrightarrow> d \<in> set cs \<Longrightarrow> active c \<Longrightarrow> active d \<Longrightarrow> cm_token c = cm_token d \<Longrightarrow> cm_fp c = cm_fp d \<Longrightarrow>
     cm_type c = cm_type d \<Longrightarrow> c = d"
  unfolding command_inv_def by blast

lemma command_inv_map:
  assumes inv: "command_inv cs" and key: "\<And>c. cmd_key (f c) = cmd_key c" and act: "\<And>c. c \<in> set cs \<Longrightarrow> active (f c) \<Longrightarrow> active c"
  shows "command_inv (map f cs)"
proof -
  have same: "cm_id (f c) = cm_id c" "cm_token (f c) = cm_token c" "cm_fp (f c) = cm_fp c" "cm_type (f c) = cm_type c" for c
    using key [of c] by (simp_all add: cmd_key_def)
  have d: "distinct (map cm_id (map f cs))" using inv same(1) by (simp add: command_inv_def comp_def)
  have "x = y" if "x \<in> set (map f cs)" "y \<in> set (map f cs)" "active x" "active y" "cm_token x = cm_token y" "cm_fp x = cm_fp y"
    "cm_type x = cm_type y" for x y
  proof -
    note eqs = that(3-7)
    from that(1) obtain c where c: "c \<in> set cs" "x = f c" unfolding set_map by (rule imageE) simp
    from that(2) obtain d where d: "d \<in> set cs" "y = f d" unfolding set_map by (rule imageE) simp
    have a: "active c" "active d" using act [OF c(1)] act [OF d(1)] eqs(1,2) unfolding c(2) d(2) by simp_all
    have "c = d" by (rule command_inv_one [OF inv c(1) d(1) a eqs(3-5) [unfolded c(2) d(2) same]])
    then show ?thesis using c d by simp
  qed
  then show ?thesis using d unfolding command_inv_def by blast
qed

lemma command_inv_update: "command_inv cs \<Longrightarrow> command_update f \<Longrightarrow> command_inv (map f cs)"
  using command_inv_map [of cs f] command_updateD(1,2) [of f] by blast

lemma candidates_claimable:
  assumes "i \<in> set (candidates owner fp now cs)"
  shows "\<exists>c \<in> set cs. cm_id c = i \<and> claimable owner fp now c"
proof -
  obtain c where c: "c \<in> set (take MAX_COMMANDS (js_sort by_age (filter (claimable owner fp now) cs)))" "cm_id c = i"
    using assms by (auto simp: candidates_def)
  then have "c \<in> set (js_sort by_age (filter (claimable owner fp now) cs))" by (rule_tac in_set_takeD) simp
  then show ?thesis using c(2) by auto
qed

lemma claimable_active: "claimable owner fp now c \<Longrightarrow> active c"
  by (auto simp: claimable_def active_def)

lemma candidate_iff:
  assumes "command_inv cs" "c \<in> set cs" "cm_id c \<in> set (candidates owner fp now cs)"
  shows "claimable owner fp now c"
  using candidates_claimable [OF assms(3)] command_inv_id [OF assms(1) _ assms(2)] by metis

lemma claim_commands_inv: "command_inv cs \<Longrightarrow> command_inv (claim_commands owner fp now cs)"
proof -
  assume inv: "command_inv cs"
  show ?thesis unfolding claim_commands_def
  proof (rule command_inv_map [OF inv])
    show "cmd_key (claim_command now (candidates owner fp now cs) c) = cmd_key c" for c by (simp add: claim_command_def cmd_key_def)
    fix c assume c: "c \<in> set cs" and a: "active (claim_command now (candidates owner fp now cs) c)"
    show "active c"
    proof (cases "cm_id c \<in> set (candidates owner fp now cs)")
      case True
      then show ?thesis by (rule claimable_active [OF candidate_iff [OF inv c]])
    next
      case False
      then show ?thesis using a by (simp add: claim_command_def)
    qed
  qed
qed

lemma finished_stays:
  assumes "command_inv cs" "c \<in> set cs" "\<not> active c"
  shows "c \<in> set (claim_commands owner fp now cs)"
proof -
  have "cm_id c \<notin> set (candidates owner fp now cs)" using candidate_iff [OF assms(1,2)] claimable_active assms(3) by blast
  then have "claim_command now (candidates owner fp now cs) c = c" by (simp add: claim_command_def)
  then show ?thesis using assms(2) unfolding claim_commands_def by (metis image_eqI set_map)
qed

section \<open>Runs\<close>

inductive device_step :: "device_db \<Rightarrow> device_db \<Rightarrow> bool" where
  step_sync: "device_sync owner rep now db = (r, db') \<Longrightarrow> device_step db db'"
| step_mode: "setDesiredContentMode owner fp mode now db = (r, db') \<Longrightarrow> device_step db db'"
| step_enqueue: "enqueueCommand key owner fp ty now db = (r, db') \<Longrightarrow> device_step db db'"
| step_inventory: "device_step db (db\<lparr>dd_snapshots := snapshots\<rparr>)"

inductive device_reachable :: "device_db \<Rightarrow> bool" where
  device_start: "dd_commands db = [] \<Longrightarrow> device_reachable db"
| device_next: "device_reachable db \<Longrightarrow> device_step db db' \<Longrightarrow> device_reachable db'"

lemma sync_cases:
  assumes "device_sync owner rep now db = (r, db')"
  shows "db' = db \<and> (\<forall>x. r \<noteq> Inr (Some x)) \<or>
    dd_commands db' = claim_commands owner (dr_fp rep) now (sync_commands owner rep now (dd_commands db))
    \<and> (\<exists>x. r = Inr (Some x) \<and> sr_commands x = map (\<lambda>c. (cm_id c, cm_type c))
         (filter (\<lambda>c. cm_id c \<in> set (candidates owner (dr_fp rep) now (sync_commands owner rep now (dd_commands db)))) (dd_commands db')))"
  using assms by (auto simp: device_sync_def Let_def split: if_splits option.splits)

lemma mode_commands: "setDesiredContentMode owner fp mode now db = (r, db') \<Longrightarrow> dd_commands db' = dd_commands db"
  by (auto simp: setDesiredContentMode_def Let_def split: if_splits)

lemma enqueue_cases:
  assumes "enqueueCommand key owner fp ty now db = (r, db')"
  shows "dd_commands db' = dd_commands db \<or> dd_commands db' = expire_commands owner fp now (dd_commands db)
    \<or> (\<exists>n. dd_commands db' = expire_commands owner fp now (dd_commands db) @ [n]
        \<and> cm_token n = ow_token owner \<and> cm_fp n = fp \<and> cm_type n = ty \<and> cm_id n = key \<and> active n
        \<and> (\<forall>c \<in> set (expire_commands owner fp now (dd_commands db)). \<not> active_conflict owner fp ty c \<and> cm_id c \<noteq> key))"
  using assms
  by (auto simp: enqueueCommand_def Let_def list_ex_iff active_def split: if_splits option.splits)

lemma step_inv:
  assumes "device_step db db'" "command_inv (dd_commands db)"
  shows "command_inv (dd_commands db')"
  using assms(1)
proof cases
  case (step_sync owner rep now r)
  obtain f where f: "sync_commands owner rep now (dd_commands db) = map f (dd_commands db)" "command_update f" using sync_map by blast
  have "command_inv (claim_commands owner (dr_fp rep) now (sync_commands owner rep now (dd_commands db)))"
    unfolding f(1) by (rule claim_commands_inv [OF command_inv_update [OF assms(2) f(2)]])
  then show ?thesis using sync_cases [OF step_sync] assms(2) by metis
next
  case (step_mode owner fp mode now r)
  then show ?thesis using mode_commands assms(2) by metis
next
  case (step_enqueue key owner fp ty now r)
  have e: "command_inv (expire_commands owner fp now (dd_commands db))"
    unfolding expire_commands_def by (rule command_inv_update [OF assms(2) command_update_expire])
  from enqueue_cases [OF step_enqueue] show ?thesis
  proof (elim disjE exE conjE)
    fix n assume n: "dd_commands db' = expire_commands owner fp now (dd_commands db) @ [n]"
      "cm_token n = ow_token owner" "cm_fp n = fp" "cm_type n = ty" "cm_id n = key" "active n"
      "\<forall>c \<in> set (expire_commands owner fp now (dd_commands db)). \<not> active_conflict owner fp ty c \<and> cm_id c \<noteq> key"
    then have "\<forall>c \<in> set (expire_commands owner fp now (dd_commands db)). active c \<and> cm_token c = cm_token n \<and> cm_fp c = cm_fp n \<longrightarrow> cm_type c \<noteq> cm_type n"
      by (auto simp: active_conflict_def)
    then show ?thesis using e n(5,7) unfolding command_inv_def n(1) by auto
  qed (use e assms(2) in simp_all)
qed (use assms(2) in simp)

lemma device_reachable_inv: "device_reachable db \<Longrightarrow> command_inv (dd_commands db)"
  by (induction rule: device_reachable.induct) (auto simp: command_inv_def [of "[]"] intro: step_inv)


section \<open>Commands\<close>

text \<open>C16: A finished command never changes again, whatever a device reports and however synchronisations, new
  commands and changes of the mode follow, and at no time two commands of a type are under way on a device.\<close>

theorem finished_command_is_final:
  assumes "device_reachable db" "device_step db db'" "c \<in> set (dd_commands db)" "\<not> active c"
  shows "c \<in> set (dd_commands db')
    \<and> \<not> (\<exists>x \<in> set (dd_commands db'). \<exists>y \<in> set (dd_commands db'). x \<noteq> y \<and> active x \<and> active y
          \<and> cm_token x = cm_token y \<and> cm_fp x = cm_fp y \<and> cm_type x = cm_type y)"
proof -
  have inv: "command_inv (dd_commands db)" by (rule device_reachable_inv [OF assms(1)])
  have kept: "c \<in> set (map f (dd_commands db))" if "command_update f" for f
    using command_updateD(3) [OF that assms(4)] assms(3) by (metis image_eqI set_map)
  have "c \<in> set (dd_commands db')"
    using assms(2)
  proof cases
    case (step_sync owner rep now r)
    obtain f where f: "sync_commands owner rep now (dd_commands db) = map f (dd_commands db)" "command_update f" using sync_map by blast
    have "c \<in> set (claim_commands owner (dr_fp rep) now (sync_commands owner rep now (dd_commands db)))"
      unfolding f(1) by (rule finished_stays [OF command_inv_update [OF inv f(2)] kept [OF f(2)] assms(4)])
    then show ?thesis using sync_cases [OF step_sync] assms(3) by metis
  next
    case (step_mode owner fp mode now r)
    then show ?thesis using mode_commands assms(3) by metis
  next
    case (step_enqueue key owner fp ty now r)
    have "c \<in> set (expire_commands owner fp now (dd_commands db))"
      unfolding expire_commands_def by (rule kept [OF command_update_expire])
    then show ?thesis using enqueue_cases [OF step_enqueue] assms(3) by (elim disjE exE conjE) simp_all
  qed (use assms(3) in simp)
  moreover have "command_inv (dd_commands db')" by (rule step_inv [OF assms(2) inv])
  ultimately show ?thesis unfolding command_inv_def by blast
qed

lemma sync_expired:
  assumes "c \<in> set (sync_commands owner rep now cs)" "own_command owner (dr_fp rep) c" "active c"
  shows "now < cm_expires c"
proof -
  obtain d where d: "c = expire_command owner (dr_fp rep) now d"
    using assms(1) unfolding sync_commands_def expire_commands_def by auto
  show ?thesis
  proof (cases "own_command owner (dr_fp rep) d \<and> active d \<and> cm_expires d \<le> now")
    case True
    then have "cm_status c = Cmd_expired" unfolding d expire_command_def if_P [OF True] by simp
    then show ?thesis using assms(3) by (simp add: active_def)
  next
    case False
    then have "c = d" unfolding d expire_command_def by (rule if_not_P)
    then show ?thesis using False assms(2,3) by auto
  qed
qed

text \<open>C22: A synchronisation hands a device at most eight commands, each its own, not expired and now leased
  for five minutes, which was waiting or whose lease had run out; and it leaves no command of the device
  under way that has expired.\<close>

theorem sync_hands_out_due_commands:
  assumes reach: "device_reachable db" and run: "device_sync owner rep now db = (Inr (Some r), db')"
  shows "length (sr_commands r) \<le> 8
    \<and> (\<forall>(i, ty) \<in> set (sr_commands r). \<exists>c \<in> set (dd_commands db'). cm_id c = i \<and> cm_type c = ty
         \<and> own_command owner (dr_fp rep) c \<and> cm_status c = Cmd_claimed \<and> now < cm_expires c \<and> cm_lease c = Some (now + LEASE_MS)
         \<and> (\<exists>d \<in> set (sync_commands owner rep now (dd_commands db)). cm_id d = i \<and> claimable owner (dr_fp rep) now d))
    \<and> (\<forall>c \<in> set (dd_commands db'). own_command owner (dr_fp rep) c \<and> active c \<longrightarrow> now < cm_expires c)"
proof -
  let ?cs = "sync_commands owner rep now (dd_commands db)"
  let ?ids = "candidates owner (dr_fp rep) now ?cs"
  obtain f where f: "?cs = map f (dd_commands db)" "command_update f" using sync_map by blast
  have inv: "command_inv ?cs" unfolding f(1) by (rule command_inv_update [OF device_reachable_inv [OF reach] f(2)])
  have db': "dd_commands db' = map (claim_command now ?ids) ?cs"
    and cmds: "sr_commands r = map (\<lambda>c. (cm_id c, cm_type c)) (filter (\<lambda>c. cm_id c \<in> set ?ids) (dd_commands db'))"
    using sync_cases [OF run] unfolding claim_commands_def by auto
  have key: "cmd_key (claim_command now ?ids d) = cmd_key d" for d by (simp add: claim_command_def cmd_key_def)
  have ids: "map cm_id (dd_commands db') = map cm_id ?cs" unfolding db' using key by (auto simp: cmd_key_def)
  have "length (sr_commands r) = length (filter (\<lambda>i. i \<in> set ?ids) (map cm_id (dd_commands db')))"
    unfolding cmds by (simp add: filter_map comp_def)
  also have "\<dots> = card (set (filter (\<lambda>i. i \<in> set ?ids) (map cm_id ?cs)))"
    unfolding ids using inv by (simp add: command_inv_def distinct_card del: set_filter)
  also have "\<dots> \<le> card (set ?ids)" by (rule card_mono) auto
  also have "\<dots> \<le> 8" using card_length [of ?ids] by (simp add: candidates_def MAX_COMMANDS_def)
  finally have len: "length (sr_commands r) \<le> 8" .
  have handed: "\<exists>c \<in> set (dd_commands db'). cm_id c = i \<and> cm_type c = ty
       \<and> own_command owner (dr_fp rep) c \<and> cm_status c = Cmd_claimed \<and> now < cm_expires c \<and> cm_lease c = Some (now + LEASE_MS)
       \<and> (\<exists>d \<in> set ?cs. cm_id d = i \<and> claimable owner (dr_fp rep) now d)" if i: "(i, ty) \<in> set (sr_commands r)" for i ty
  proof -
    obtain d where d: "d \<in> set ?cs" "cm_id (claim_command now ?ids d) \<in> set ?ids"
        "i = cm_id (claim_command now ?ids d)" "ty = cm_type (claim_command now ?ids d)"
      using i unfolding cmds db' by auto
    have same: "cm_id (claim_command now ?ids d) = cm_id d" using key [of d] by (simp add: cmd_key_def)
    then have in_ids: "cm_id d \<in> set ?ids" using d(2) by simp
    have cl: "claimable owner (dr_fp rep) now d" by (rule candidate_iff [OF inv d(1) in_ids])
    have eq: "claim_command now ?ids d = d\<lparr>cm_status := Cmd_claimed,
        cm_claimedAt := (case cm_claimedAt d of None \<Rightarrow> Some now | Some t \<Rightarrow> Some t), cm_lease := Some (now + LEASE_MS)\<rparr>"
      unfolding claim_command_def using in_ids by (rule if_P)
    show ?thesis
    proof (rule bexI [of _ "claim_command now ?ids d"])
      show "claim_command now ?ids d \<in> set (dd_commands db')" unfolding db' using d(1) by simp
      show "cm_id (claim_command now ?ids d) = i \<and> cm_type (claim_command now ?ids d) = ty
       \<and> own_command owner (dr_fp rep) (claim_command now ?ids d) \<and> cm_status (claim_command now ?ids d) = Cmd_claimed
       \<and> now < cm_expires (claim_command now ?ids d) \<and> cm_lease (claim_command now ?ids d) = Some (now + LEASE_MS)
       \<and> (\<exists>d \<in> set ?cs. cm_id d = i \<and> claimable owner (dr_fp rep) now d)"
        using cl d(1,3,4) same unfolding eq by (auto simp: claimable_def own_command_def)
    qed
  qed
  have fresh: "now < cm_expires c" if c: "c \<in> set (dd_commands db')" "own_command owner (dr_fp rep) c" "active c" for c
  proof -
    obtain d where d: "d \<in> set ?cs" "c = claim_command now ?ids d" using c(1) unfolding db' by auto
    have k: "cm_expires c = cm_expires d" "own_command owner (dr_fp rep) d"
      using key [of d] c(2) unfolding d(2) by (simp_all add: cmd_key_def own_command_def)
    show ?thesis
    proof (cases "cm_id d \<in> set ?ids")
      case True
      then have "claimable owner (dr_fp rep) now d" by (rule candidate_iff [OF inv d(1)])
      then show ?thesis using k(1) by (simp add: claimable_def)
    next
      case False
      then have "c = d" unfolding d(2) claim_command_def by (rule if_not_P)
      then show ?thesis using sync_expired [OF d(1) k(2)] c(3) k(1) by simp
    qed
  qed
  show ?thesis using len handed fresh by blast
qed

section \<open>An example\<close>

definition example_owner :: device_owner where "example_owner = \<lparr>ow_user = ''u'', ow_token = ''t''\<rparr>"

definition example_fp :: string where "example_fp = replicate 64 (CHR ''a'')"

definition example_device_db :: device_db where
  "example_device_db =
     \<lparr>dd_snapshots = [\<lparr>ds_user = ''u'', ds_token = ''t'', ds_fp = example_fp, ds_host = [], ds_received = 0\<rparr>],
      dd_policies = [], dd_observations = [], dd_commands = [], dd_audit = []\<rparr>"

definition example_device_report :: "command_report list \<Rightarrow> device_report" where
  "example_device_report results =
     \<lparr>dr_fp = example_fp, dr_host = None, dr_version = ''1.0.0'', dr_active = True, dr_generation = 0, dr_mode = Mode_off,
      dr_since = None, dr_error = None, dr_results = results\<rparr>"

definition queued_db :: device_db where
  "queued_db = snd (enqueueCommand ''1'' example_owner example_fp Cmd_collect 100 example_device_db)"

definition claimed_db :: device_db where
  "claimed_db = snd (device_sync example_owner (example_device_report []) 200 queued_db)"

definition finished_db :: device_db where
  "finished_db = snd (device_sync example_owner (example_device_report [\<lparr>cr_id = ''1'', cr_succeeded = True, cr_code = None\<rparr>]) 300 claimed_db)"

lemma queued_reachable: "device_reachable queued_db"
proof -
  have "device_reachable example_device_db" by (rule device_start) (simp add: example_device_db_def)
  moreover have "device_step example_device_db queued_db" unfolding queued_db_def by (rule step_enqueue) (rule prod.collapse [symmetric])
  ultimately show ?thesis by (rule device_next)
qed

lemma finished_reachable: "device_reachable finished_db"
proof -
  have "device_step queued_db claimed_db" unfolding claimed_db_def by (rule step_sync) (rule prod.collapse [symmetric])
  then have "device_reachable claimed_db" by (rule device_next [OF queued_reachable])
  moreover have "device_step claimed_db finished_db" unfolding finished_db_def by (rule step_sync) (rule prod.collapse [symmetric])
  ultimately show ?thesis by (rule device_next)
qed

lemma sync_hands_out_due_commands_witness:
  "\<exists>r db' c. device_sync example_owner (example_device_report []) 200 queued_db = (Inr (Some r), db') \<and> sr_commands r = [(''1'', Cmd_collect)]
     \<and> c \<in> set (dd_commands db') \<and> cm_id c = ''1'' \<and> cm_lease c = Some (200 + LEASE_MS)"
proof -
  have ex: "case device_sync example_owner (example_device_report []) 200 queued_db of
      (Inr (Some r), db') \<Rightarrow> sr_commands r = [(''1'', Cmd_collect)] | _ \<Rightarrow> False" by code_simp
  then obtain r db' where r: "device_sync example_owner (example_device_report []) 200 queued_db = (Inr (Some r), db')"
      "sr_commands r = [(''1'', Cmd_collect)]" by (auto split: prod.splits sum.splits option.splits)
  from sync_hands_out_due_commands [OF queued_reachable r(1)] r show ?thesis by auto
qed

lemma finished_command_is_final_witness:
  "\<exists>c db'. cm_status c = Cmd_succeeded \<and> c \<in> set (dd_commands finished_db)
     \<and> enqueueCommand ''2'' example_owner example_fp Cmd_collect 400 finished_db = (Inr (Some ''2''), db') \<and> c \<in> set (dd_commands db')"
proof -
  have ex: "case dd_commands finished_db of [c] \<Rightarrow> cm_status c = Cmd_succeeded | _ \<Rightarrow> False" by code_simp
  then obtain c where c: "dd_commands finished_db = [c]" "cm_status c = Cmd_succeeded" by (auto split: list.splits)
  have e: "fst (enqueueCommand ''2'' example_owner example_fp Cmd_collect 400 finished_db) = Inr (Some ''2'')" by code_simp
  obtain db' where r: "enqueueCommand ''2'' example_owner example_fp Cmd_collect 400 finished_db = (Inr (Some ''2''), db')"
    using e by (metis prod.collapse)
  have m: "c \<in> set (dd_commands finished_db)" and a: "\<not> active c" using c by (simp_all add: active_def)
  from finished_command_is_final [OF finished_reachable step_enqueue [OF r] m a] m c(2) r show ?thesis by blast
qed

end
