(* ===== verification/Team_Membership.thy ===== *)
theory Team_Membership
  imports Rollup_Worker_State
begin

text \<open>
  \<open>apps/web/lib/team-membership.ts\<close>: \<open>changeUserTeam\<close>, the transaction that moves a user between teams
  and keeps the history of the periods, and \<open>apps/web/lib/team-attribution.ts\<close>: the job that gives the
  events before a first assignment to its team. The constraints of the tables (migrations
  \<open>1700000042_team_membership_attribution.sql\<close>) raise errors as in Postgres. A generated key is an
  argument.
\<close>

section \<open>Tables\<close>

text \<open>A period starts at \<open>None\<close> for \<open>-infinity\<close> and ends at \<open>None\<close> while it is open.\<close>

datatype assignment_kind = Kind_onboarding | Kind_admin | Kind_legacy_seed

record assignment =
  as_id :: string
  as_user :: string
  as_team :: string
  as_from :: "instant option"
  as_to :: "instant option"
  as_kind :: assignment_kind
  as_actor :: "string option"

datatype user_role = Role_admin | Role_member
datatype team_role = Team_member | Team_leader

record team_user =
  tu_id :: string
  tu_team :: "string option"
  tu_role :: user_role
  tu_teamRole :: team_role
  tu_onboarded :: "instant option"

datatype attribution_kind = Initial_backfill | Legacy_adoption
datatype attribution_state = Attr_pending | Attr_running | Attr_succeeded | Attr_failed

record attribution_job =
  aj_id :: string
  aj_assignment :: string
  aj_user :: string
  aj_team :: string
  aj_kind :: attribution_kind
  aj_state :: attribution_state
  aj_from :: "instant option"
  aj_to :: "instant option"
  aj_matched :: int
  aj_processed :: int
  aj_updated :: int
  aj_attempts :: nat
  aj_nextAttempt :: instant
  aj_lastError :: "string option"
  aj_startedAt :: "instant option"
  aj_finishedAt :: "instant option"
  aj_created :: instant
  aj_changed :: instant

record team_db =
  td_users :: "team_user list"
  td_teams :: "string list"
  td_assignments :: "assignment list"
  td_jobs :: "attribution_job list"
  td_fences :: "(string \<times> instant option \<times> instant option) list"

section \<open>Constraints\<close>

text \<open>\<open>CHECK (effective_to IS NULL OR effective_to > effective_from)\<close>.\<close>

definition valid_period :: "assignment \<Rightarrow> bool" where
  "valid_period a = (case (as_from a, as_to a) of (Some f, Some t) \<Rightarrow> f < t | _ \<Rightarrow> True)"

definition starts_before_end :: "instant option \<Rightarrow> instant option \<Rightarrow> bool" where
  "starts_before_end f t = (case (f, t) of (Some f, Some t) \<Rightarrow> f < t | _ \<Rightarrow> True)"

text \<open>\<open>tstzrange(effective_from, effective_to, '[)') && ...\<close> of two valid periods.\<close>

definition overlaps :: "assignment \<Rightarrow> assignment \<Rightarrow> bool" where
  "overlaps a b \<longleftrightarrow> starts_before_end (as_from a) (as_to b) \<and> starts_before_end (as_from b) (as_to a)"

section \<open>The change of a team\<close>

datatype team_error =
    Invalid_team_change_time | Team_not_found | User_not_found | Team_membership_inconsistent
  | Constraint_violation

datatype team_change_kind = Change_noop | Change_initial | Change_transfer | Change_unassignment | Change_reassignment

record team_change =
  tc_changed :: bool
  tc_kind :: team_change_kind
  tc_assignment :: "string option"
  tc_job :: "string option"

definition no_change :: team_change where
  "no_change = \<lparr>tc_changed = False, tc_kind = Change_noop, tc_assignment = None, tc_job = None\<rparr>"

text \<open>The keys are those the database generates if it inserts.\<close>

record team_input =
  ti_user :: string
  ti_team :: "string option"
  ti_actor :: string
  ti_now :: "instant option"
  ti_onboarding :: bool
  ti_assignmentKey :: string
  ti_jobKey :: string

definition user_assignments :: "string \<Rightarrow> assignment list \<Rightarrow> assignment list" where
  "user_assignments u rows = filter (\<lambda>a. as_user a = u) rows"

definition change_kind :: "team_user \<Rightarrow> string option \<Rightarrow> assignment list \<Rightarrow> team_change_kind" where
  "change_kind user team assignments =
     (if tu_team user = None \<and> team \<noteq> None \<and> assignments = [] then Change_initial
      else if tu_team user \<noteq> None \<and> team \<noteq> None then Change_transfer
      else if tu_team user \<noteq> None then Change_unassignment
      else Change_reassignment)"

text \<open>\<open>UPDATE ... SET effective_to = now WHERE id = ... AND effective_to IS NULL\<close>.\<close>

definition close_assignment :: "string \<Rightarrow> instant \<Rightarrow> assignment list \<Rightarrow> team_error + assignment list" where
  "close_assignment i now rows =
     (let rows' = map (\<lambda>a. if as_id a = i \<and> as_to a = None then a\<lparr>as_to := Some now\<rparr> else a) rows
      in if list_all valid_period rows' then Inr rows' else Inl Constraint_violation)"

definition insert_assignment :: "assignment \<Rightarrow> team_db \<Rightarrow> assignment list \<Rightarrow> team_error + assignment list" where
  "insert_assignment a db rows =
     (if list_ex (\<lambda>b. as_user b = as_user a \<and> overlaps a b) rows \<or> as_id a \<in> as_id ` set rows
         \<or> (case as_actor a of None \<Rightarrow> False | Some actor \<Rightarrow> actor \<notin> tu_id ` set (td_users db))
      then Inl Constraint_violation else Inr (rows @ [a]))"

definition moved_user :: "team_input \<Rightarrow> instant \<Rightarrow> team_user \<Rightarrow> team_user" where
  "moved_user inp now user =
     user\<lparr>tu_team := ti_team inp,
          tu_teamRole := (if ti_team inp = None then Team_member else tu_teamRole user),
          tu_onboarded := (if ti_onboarding inp \<and> tu_onboarded user = None then Some now else tu_onboarded user)\<rparr>"

definition initial_job :: "team_input \<Rightarrow> instant \<Rightarrow> string \<Rightarrow> attribution_job" where
  "initial_job inp now team =
     \<lparr>aj_id = ti_jobKey inp, aj_assignment = ti_assignmentKey inp, aj_user = ti_user inp, aj_team = team,
      aj_kind = Initial_backfill, aj_state = Attr_pending, aj_from = None, aj_to = None, aj_matched = 0,
      aj_processed = 0, aj_updated = 0, aj_attempts = 0, aj_nextAttempt = now, aj_lastError = None,
      aj_startedAt = None, aj_finishedAt = None, aj_created = now, aj_changed = now\<rparr>"

text \<open>From the update of the open period on; the errors roll back.\<close>

definition apply_team_change :: "team_input \<Rightarrow> instant \<Rightarrow> team_user \<Rightarrow> team_db \<Rightarrow> (team_error + team_change) \<times> team_db" where
  "apply_team_change inp now user db =
     (let mine = user_assignments (ti_user inp) (td_assignments db);
          kind = change_kind user (ti_team inp) mine;
          closed = (case find (\<lambda>a. as_to a = None) mine of
              None \<Rightarrow> Inr (td_assignments db) | Some a \<Rightarrow> close_assignment (as_id a) now (td_assignments db));
          inserted = and_then closed (\<lambda>rows. case ti_team inp of
              None \<Rightarrow> Inr rows
            | Some team \<Rightarrow> insert_assignment
                \<lparr>as_id = ti_assignmentKey inp, as_user = ti_user inp, as_team = team,
                 as_from = (if kind = Change_initial then None else Some now), as_to = None,
                 as_kind = (if ti_onboarding inp then Kind_onboarding else Kind_admin), as_actor = Some (ti_actor inp)\<rparr> db rows)
      in (case inserted of
            Inl e \<Rightarrow> (Inl e, db)
          | Inr rows \<Rightarrow>
              (Inr \<lparr>tc_changed = True, tc_kind = kind,
                    tc_assignment = (if ti_team inp = None then None else Some (ti_assignmentKey inp)),
                    tc_job = (if kind = Change_initial then Some (ti_jobKey inp) else None)\<rparr>,
               db\<lparr>td_assignments := rows,
                  td_users := map (\<lambda>v. if tu_id v = ti_user inp then moved_user inp now v else v) (td_users db),
                  td_jobs := td_jobs db @ (if kind = Change_initial then [initial_job inp now (the (ti_team inp))] else [])\<rparr>)))"

definition changeUserTeam :: "team_input \<Rightarrow> team_db \<Rightarrow> (team_error + team_change) \<times> team_db" where
  "changeUserTeam inp db =
     (case ti_now inp of
        None \<Rightarrow> (Inl Invalid_team_change_time, db)
      | Some now \<Rightarrow>
          (case find (\<lambda>v. tu_id v = ti_user inp) (td_users db) of
             None \<Rightarrow> (Inl User_not_found, db)
           | Some user \<Rightarrow>
               if ti_onboarding inp \<and> (tu_role user \<noteq> Role_member \<or> tu_team user \<noteq> None \<or> tu_onboarded user \<noteq> None)
               then (Inr no_change, db)
               else if tu_team user = ti_team inp then (Inr no_change, db)
               else if (case ti_team inp of None \<Rightarrow> False | Some team \<Rightarrow> team \<notin> set (td_teams db))
               then (Inl Team_not_found, db)
               else
                 (let open_row = find (\<lambda>a. as_to a = None) (user_assignments (ti_user inp) (td_assignments db))
                  in if (tu_team user = None) \<noteq> (open_row = None)
                        \<or> (case open_row of None \<Rightarrow> False | Some a \<Rightarrow> Some (as_team a) \<noteq> tu_team user)
                     then (Inl Team_membership_inconsistent, db)
                     else apply_team_change inp now user db)))"

text \<open>The rows of a new account, which \<open>acceptInvite\<close> and \<open>createOAuthMember\<close> insert in their transactions.\<close>

definition admitted_user :: "string \<Rightarrow> user_role \<Rightarrow> string option \<Rightarrow> instant \<Rightarrow> team_user" where
  "admitted_user key role team now =
     \<lparr>tu_id = key, tu_team = team, tu_role = role, tu_teamRole = Team_member, tu_onboarded = Some now\<rparr>"

definition first_assignment :: "string \<Rightarrow> string \<Rightarrow> string \<Rightarrow> string option \<Rightarrow> instant \<Rightarrow> assignment" where
  "first_assignment key akey team actor now =
     \<lparr>as_id = akey, as_user = key, as_team = team, as_from = Some now, as_to = None, as_kind = Kind_admin, as_actor = actor\<rparr>"

definition admit_member ::
  "string \<Rightarrow> string \<Rightarrow> user_role \<Rightarrow> string option \<Rightarrow> string option \<Rightarrow> instant \<Rightarrow> team_db \<Rightarrow> team_error + team_db" where
  "admit_member key akey role team actor now db =
     (if key \<in> tu_id ` set (td_users db) \<or> (case team of None \<Rightarrow> False | Some t \<Rightarrow> t \<notin> set (td_teams db))
      then Inl Constraint_violation
      else (let db' = db\<lparr>td_users := td_users db @ [admitted_user key role team now]\<rparr>
            in (case team of
                  None \<Rightarrow> Inr db'
                | Some t \<Rightarrow> and_then (insert_assignment (first_assignment key akey t actor now) db' (td_assignments db))
                    (\<lambda>rows. Inr (db'\<lparr>td_assignments := rows\<rparr>)))))"

text \<open>\<open>UPDATE users SET role = ...\<close> of \<open>admin-members.ts\<close>.\<close>

definition set_role :: "string \<Rightarrow> user_role \<Rightarrow> team_db \<Rightarrow> team_db" where
  "set_role u role db = db\<lparr>td_users := map (\<lambda>v. if tu_id v = u then v\<lparr>tu_role := role\<rparr> else v) (td_users db)\<rparr>"

section \<open>The attribution jobs\<close>

definition STALE_MS :: int where "STALE_MS = 5 * 60 * 1000"

definition attribution_claimable :: "instant \<Rightarrow> attribution_job \<Rightarrow> bool" where
  "attribution_claimable now j \<longleftrightarrow>
     (aj_state j \<in> {Attr_pending, Attr_failed} \<and> aj_nextAttempt j \<le> now)
     \<or> (aj_state j = Attr_running \<and> aj_changed j \<le> now - STALE_MS)"

definition by_created :: "attribution_job \<Rightarrow> attribution_job \<Rightarrow> int" where
  "by_created l r = (if aj_created l \<noteq> aj_created r then aj_created l - aj_created r else cmp_ord (aj_id l) (aj_id r))"

definition assignment_end :: "attribution_job \<Rightarrow> team_db \<Rightarrow> instant option option" where
  "assignment_end j db = map_option as_to (find (\<lambda>a. as_id a = aj_assignment j) (td_assignments db))"

definition update_attribution :: "string \<Rightarrow> (attribution_job \<Rightarrow> attribution_job) \<Rightarrow> team_db \<Rightarrow> team_db" where
  "update_attribution i f db = db\<lparr>td_jobs := map (\<lambda>j. if aj_id j = i then f j else j) (td_jobs db)\<rparr>"

text \<open>The job as selected, with the end of its assignment and one more attempt.\<close>

definition attribution_claim :: "instant \<Rightarrow> team_db \<Rightarrow> attribution_job option \<times> team_db" where
  "attribution_claim now db =
     (case js_sort by_created (filter (\<lambda>j. attribution_claimable now j \<and> assignment_end j db \<noteq> None) (td_jobs db)) of
        [] \<Rightarrow> (None, db)
      | j # _ \<Rightarrow>
          (let ends = the (assignment_end j db)
           in (Some (j\<lparr>aj_to := ends, aj_attempts := aj_attempts j + 1\<rparr>),
               update_attribution (aj_id j)
                 (\<lambda>j. j\<lparr>aj_state := Attr_running, aj_to := ends, aj_attempts := aj_attempts j + 1,
                        aj_startedAt := (case aj_startedAt j of None \<Rightarrow> Some now | Some t \<Rightarrow> Some t),
                        aj_lastError := None, aj_changed := now\<rparr>) db)))"

definition recordMatched :: "string \<Rightarrow> int \<Rightarrow> instant \<Rightarrow> team_db \<Rightarrow> team_db" where
  "recordMatched i events now =
     update_attribution i (\<lambda>j. j\<lparr>aj_matched := max (aj_matched j) (max 0 events), aj_changed := now\<rparr>)"

record attribution_batch =
  ab_processed :: int
  ab_updated :: int
  ab_hasMore :: bool

definition attribution_markProgress :: "string \<Rightarrow> attribution_batch \<Rightarrow> instant \<Rightarrow> team_db \<Rightarrow> team_db" where
  "attribution_markProgress i b now db =
     (let db' = update_attribution i
        (\<lambda>j. j\<lparr>aj_state := (if ab_hasMore b then Attr_pending else Attr_succeeded),
               aj_processed := aj_processed j + ab_processed b, aj_updated := aj_updated j + ab_updated b,
               aj_nextAttempt := now, aj_lastError := None,
               aj_finishedAt := (if ab_hasMore b then None else Some now), aj_changed := now\<rparr>) db
      in if ab_hasMore b then db' else db'\<lparr>td_fences := filter (\<lambda>f. fst f \<noteq> i) (td_fences db')\<rparr>)"

text \<open>\<open>5 * power(2, GREATEST(attempts - 1, 0))::integer\<close> in 32-bit integers.\<close>

definition attribution_backoff :: "nat \<Rightarrow> pg_error + int" where
  "attribution_backoff attempts =
     (if 2 ^ (attempts - 1) > int4_max then Inl Integer_out_of_range
      else if 5 * 2 ^ (attempts - 1) > int4_max then Inl Integer_out_of_range
      else Inr (min 300 (5 * 2 ^ (attempts - 1))))"

definition attribution_markFailed :: "string \<Rightarrow> string \<Rightarrow> instant \<Rightarrow> team_db \<Rightarrow> (pg_error + unit) \<times> team_db" where
  "attribution_markFailed i code now db =
     (case find (\<lambda>j. aj_id j = i) (td_jobs db) of
        None \<Rightarrow> (Inr (), db)
      | Some j \<Rightarrow>
          (case attribution_backoff (aj_attempts j) of
             Inl e \<Rightarrow> (Inl e, db)
           | Inr secs \<Rightarrow> (Inr (), update_attribution i
               (\<lambda>j. j\<lparr>aj_state := Attr_failed, aj_lastError := Some code, aj_nextAttempt := now + 1000 * secs, aj_changed := now\<rparr>) db)))"

definition hasFence :: "instant \<Rightarrow> instant \<Rightarrow> team_db \<Rightarrow> bool" where
  "hasFence from_t to_t db =
     list_ex (\<lambda>(i, f, t). (case f of None \<Rightarrow> True | Some f \<Rightarrow> f < to_t) \<and> (case t of None \<Rightarrow> True | Some t \<Rightarrow> from_t < t)) (td_fences db)"

text \<open>The newest job of each user, for the settings pages. The counts of a row are not negative.\<close>

record attribution_status =
  ats_job :: string
  ats_kind :: attribution_kind
  ats_state :: attribution_state
  ats_matched :: int
  ats_processed :: int
  ats_updated :: int
  ats_attempts :: nat
  ats_lastError :: "string option"
  ats_nextAttempt :: instant
  ats_finishedAt :: "instant option"

definition mapStatus :: "attribution_job \<Rightarrow> attribution_status" where
  "mapStatus j =
     \<lparr>ats_job = aj_id j, ats_kind = aj_kind j, ats_state = aj_state j, ats_matched = max 0 (aj_matched j),
      ats_processed = max 0 (aj_processed j), ats_updated = max 0 (aj_updated j), ats_attempts = aj_attempts j,
      ats_lastError = aj_lastError j, ats_nextAttempt = aj_nextAttempt j, ats_finishedAt = aj_finishedAt j\<rparr>"

definition getStatuses :: "string list \<Rightarrow> team_db \<Rightarrow> string \<rightharpoonup> attribution_status" where
  "getStatuses users db u =
     (if u \<in> set users
      then (case js_sort (\<lambda>l r. by_created r l) (filter (\<lambda>j. aj_user j = u) (td_jobs db)) of
              [] \<Rightarrow> None | j # _ \<Rightarrow> Some (mapStatus j))
      else None)"

definition ROLLUP_VERIFICATION_FAILED :: string where "ROLLUP_VERIFICATION_FAILED = ''ROLLUP_VERIFICATION_FAILED''"
definition TEAM_ATTRIBUTION_FAILED :: string where "TEAM_ATTRIBUTION_FAILED = ''TEAM_ATTRIBUTION_FAILED''"

datatype attribution_error = Rollup_verification | Other_failure

definition sanitizeTeamAttributionError :: "attribution_error \<Rightarrow> string" where
  "sanitizeTeamAttributionError e = (case e of Rollup_verification \<Rightarrow> ROLLUP_VERIFICATION_FAILED | Other_failure \<Rightarrow> TEAM_ATTRIBUTION_FAILED)"

datatype batch_outcome = Batch_idle | Batch_progress | Batch_complete | Batch_failed

text \<open>The storage answers a preview with a count and a batch with its result, or throws.\<close>

definition runTeamAttributionBatchAt ::
  "(attribution_job \<Rightarrow> attribution_error + int) \<Rightarrow> (attribution_job \<Rightarrow> attribution_error + attribution_batch) \<Rightarrow>
     instant \<Rightarrow> team_db \<Rightarrow> (pg_error + batch_outcome) \<times> team_db" where
  "runTeamAttributionBatchAt preview backfill now db =
     (case attribution_claim now db of
        (None, db) \<Rightarrow> (Inr Batch_idle, db)
      | (Some job, db) \<Rightarrow>
          (let failed = (\<lambda>e db. case attribution_markFailed (aj_id job) (sanitizeTeamAttributionError e) now db of
                 (Inl err, db) \<Rightarrow> (Inl err, db) | (Inr u, db) \<Rightarrow> (Inr Batch_failed, db));
               matched = (if aj_matched job = 0 \<and> aj_processed job = 0
                 then map_sum id (\<lambda>n. recordMatched (aj_id job) n now db) (preview job) else Inr db)
           in (case matched of
                 Inl e \<Rightarrow> failed e db
               | Inr db \<Rightarrow>
                   (case backfill job of
                      Inl e \<Rightarrow> failed e db
                    | Inr b \<Rightarrow> (Inr (if ab_hasMore b then Batch_progress else Batch_complete),
                        attribution_markProgress (aj_id job) b now db)))))"

end
