(* ===== verification/Members.thy ===== *)
theory Members
  imports Team_Membership
begin

text \<open>
  How accounts come into being: \<open>apps/web/lib/invites.ts\<close>, \<open>registration.ts\<close>, \<open>auth-policy.ts\<close>,
  \<open>initialized-auth-adapter.ts\<close>, \<open>setup.ts\<close> and \<open>admin-members.ts\<close>. The table of users has two parts here:
  the account, and the row of \<open>Team_Membership\<close> with role and team. Every operation is one transaction;
  the email of an account is unique, and the digest of a token is a parameter. Keys and tokens the
  database and the random source produce are arguments.
\<close>

section \<open>Tables\<close>

record account =
  ac_id :: string
  ac_email :: string
  ac_name :: "string option"
  ac_password :: "string option"
  ac_image :: "string option"
  ac_verified :: "instant option"

record invite =
  iv_id :: string
  iv_email :: string
  iv_hash :: string
  iv_role :: user_role
  iv_team :: "string option"
  iv_creator :: "string option"
  iv_created :: instant
  iv_expires :: instant
  iv_accepted :: "instant option"

record member_db =
  mb_accounts :: "account list"
  mb_invites :: "invite list"
  mb_links :: "(string \<times> string \<times> string) list"
  mb_team :: team_db

datatype member_error =
    Member_constraint | VERIFIED_EMAIL_REQUIRED | REGISTRATION_EMAIL_EXISTS | INVITATION_REQUIRED | INITIAL_SETUP_REQUIRED

definition known_email :: "string \<Rightarrow> member_db \<Rightarrow> bool" where
  "known_email email db \<longleftrightarrow> email \<in> ac_email ` set (mb_accounts db)"

definition pending_invite :: "instant \<Rightarrow> invite \<Rightarrow> bool" where
  "pending_invite now i \<longleftrightarrow> iv_accepted i = None \<and> now < iv_expires i"

section \<open>Policy of emails\<close>

text \<open>\<open>/^[^\s@]+@[^\s@]+\.[^\s@]+$/\<close>: one @, no white space, and a dot with something on both sides behind it.\<close>

definition inner_dot :: "string \<Rightarrow> bool" where
  "inner_dot d \<longleftrightarrow> list_ex (\<lambda>i. d ! i = CHR ''.'') [1..<length d - 1]"

definition isValidEmail :: "string \<Rightarrow> bool" where
  "isValidEmail email \<longleftrightarrow> list_all (\<lambda>c. \<not> is_space c) email
     \<and> (case split_on CHR ''@'' email of [l, d] \<Rightarrow> l \<noteq> [] \<and> inner_dot d | _ \<Rightarrow> False)"

definition isEmailDomainAllowed :: "string list \<Rightarrow> string \<Rightarrow> bool" where
  "isEmailDomainAllowed allowed email \<longleftrightarrow> allowed = [] \<or> last (split_on CHR ''@'' (js_lower email)) \<in> set allowed"

datatype registration_mode = Invite_only | Verified_oauth

definition registrationMode :: "string option \<Rightarrow> registration_mode" where
  "registrationMode env = (if env = Some ''verified_oauth'' then Verified_oauth else Invite_only)"

section \<open>Invitations\<close>

definition INVITE_TTL_MS :: int where "INVITE_TTL_MS = 7 * 24 * 60 * 60 * 1000"

datatype invite_refusal = Existing_user | Invite_team_not_found

definition role_of_text :: "string \<Rightarrow> user_role" where
  "role_of_text role = (if role = ''admin'' then Role_admin else Role_member)"

definition createInvite ::
  "(string \<Rightarrow> string) \<Rightarrow> string \<Rightarrow> string \<Rightarrow> string \<Rightarrow> string \<Rightarrow> string \<Rightarrow> string \<Rightarrow> instant \<Rightarrow> member_db \<Rightarrow>
     (member_error + (invite_refusal + string)) \<times> member_db" where
  "createInvite digest key token email role team creator now db =
     (if known_email email db then (Inr (Inl Existing_user), db)
      else if team \<notin> set (td_teams (mb_team db)) then (Inr (Inl Invite_team_not_found), db)
      else
        (let kept = filter (\<lambda>i. \<not> (iv_email i = email \<and> iv_accepted i = None)) (mb_invites db);
             new = \<lparr>iv_id = key, iv_email = email, iv_hash = digest token, iv_role = role_of_text role, iv_team = Some team,
                    iv_creator = Some creator, iv_created = now, iv_expires = now + INVITE_TTL_MS, iv_accepted = None\<rparr>
         in if key \<in> iv_id ` set kept \<or> digest token \<in> iv_hash ` set kept \<or> creator \<notin> ac_id ` set (mb_accounts db)
            then (Inl Member_constraint, db)
            else (Inr (Inr token), db\<lparr>mb_invites := kept @ [new]\<rparr>)))"

definition getValidInvite :: "(string \<Rightarrow> string) \<Rightarrow> string \<Rightarrow> instant \<Rightarrow> member_db \<Rightarrow> invite option" where
  "getValidInvite digest token now db = find (\<lambda>i. iv_hash i = digest token \<and> pending_invite now i) (mb_invites db)"

definition consume_invite :: "string \<Rightarrow> instant \<Rightarrow> invite list \<Rightarrow> invite list" where
  "consume_invite i now rows = map (\<lambda>r. if iv_id r = i then r\<lparr>iv_accepted := Some now\<rparr> else r) rows"

text \<open>A unique violation is the answer \<open>null\<close>, any other error of the database is thrown.\<close>

definition acceptInvite ::
  "(string \<Rightarrow> string) \<Rightarrow> string \<Rightarrow> string \<Rightarrow> string \<Rightarrow> string \<Rightarrow> string \<Rightarrow> instant \<Rightarrow> member_db \<Rightarrow>
     (member_error + string option) \<times> member_db" where
  "acceptInvite digest key akey token name password now db =
     (case getValidInvite digest token now db of
        None \<Rightarrow> (Inr None, db)
      | Some i \<Rightarrow>
          if known_email (iv_email i) db then (Inr None, db)
          else if key \<in> ac_id ` set (mb_accounts db) \<or> akey \<in> as_id ` set (td_assignments (mb_team db)) then (Inr None, db)
          else (case admit_member key akey (iv_role i) (iv_team i) (iv_creator i) now (mb_team db) of
              Inl e \<Rightarrow> (Inl Member_constraint, db)
            | Inr team \<Rightarrow>
                (Inr (Some (iv_email i)),
                 db\<lparr>mb_accounts := mb_accounts db @ [\<lparr>ac_id = key, ac_email = iv_email i, ac_name = (if name = [] then None else Some name),
                       ac_password = Some password, ac_image = None, ac_verified = None\<rparr>],
                    mb_invites := consume_invite (iv_id i) now (mb_invites db), mb_team := team\<rparr>)))"

definition listPendingInvites :: "instant \<Rightarrow> member_db \<Rightarrow> invite list" where
  "listPendingInvites now db = take 50 (js_sort (\<lambda>l r. iv_created r - iv_created l) (filter (pending_invite now) (mb_invites db)))"

section \<open>Registration with a provider\<close>

record oauth_profile =
  op_email :: string
  op_name :: "string option"
  op_image :: "string option"
  op_verified :: bool

definition canSignInWithOAuth ::
  "registration_mode \<Rightarrow> string list \<Rightarrow> string \<Rightarrow> (string \<times> string) option \<Rightarrow> instant \<Rightarrow> member_db \<Rightarrow> bool" where
  "canSignInWithOAuth mode allowed email provider now db =
     (let address = js_lower (js_trim email)
      in if \<not> isValidEmail address then False
         else if (case provider of None \<Rightarrow> False
              | Some (p, i) \<Rightarrow> list_ex (\<lambda>(q, j, u). q = p \<and> j = i \<and> u \<in> ac_id ` set (mb_accounts db)) (mb_links db)) then True
         else if known_email address db then True
         else list_ex (\<lambda>i. iv_email i = address \<and> pending_invite now i) (mb_invites db)
              \<or> (mode = Verified_oauth \<and> isEmailDomainAllowed allowed address))"

definition newest_invite :: "string \<Rightarrow> instant \<Rightarrow> member_db \<Rightarrow> invite option" where
  "newest_invite email now db =
     (case js_sort (\<lambda>l r. iv_created r - iv_created l) (filter (\<lambda>i. iv_email i = email \<and> pending_invite now i) (mb_invites db)) of
        [] \<Rightarrow> None | i # _ \<Rightarrow> Some i)"

definition createOAuthMember ::
  "registration_mode \<Rightarrow> string list \<Rightarrow> string \<Rightarrow> string \<Rightarrow> oauth_profile \<Rightarrow> instant \<Rightarrow> member_db \<Rightarrow> (member_error + account) \<times> member_db" where
  "createOAuthMember mode allowed key akey profile now db =
     (let email = js_lower (js_trim (op_email profile));
          invitation = newest_invite email now db;
          user = \<lparr>ac_id = key, ac_email = email, ac_name = op_name profile, ac_password = None, ac_image = op_image profile,
                  ac_verified = Some now\<rparr>
      in if \<not> op_verified profile \<or> \<not> isValidEmail email then (Inl VERIFIED_EMAIL_REQUIRED, db)
         else if known_email email db then (Inl REGISTRATION_EMAIL_EXISTS, db)
         else if invitation = None \<and> (mode \<noteq> Verified_oauth \<or> \<not> isEmailDomainAllowed allowed email) then (Inl INVITATION_REQUIRED, db)
         else (case admit_member key akey (case invitation of None \<Rightarrow> Role_member | Some i \<Rightarrow> iv_role i)
                 (Option.bind invitation iv_team) (Option.bind invitation iv_creator) now (mb_team db) of
              Inl e \<Rightarrow> (Inl Member_constraint, db)
            | Inr team \<Rightarrow>
                (Inr user,
                 db\<lparr>mb_accounts := mb_accounts db @ [user],
                    mb_invites := (case invitation of None \<Rightarrow> mb_invites db | Some i \<Rightarrow> consume_invite (iv_id i) now (mb_invites db)),
                    mb_team := team\<rparr>)))"

section \<open>The first administrator\<close>

definition hasAdminUser :: "member_db \<Rightarrow> bool" where
  "hasAdminUser db = list_ex (\<lambda>v. tu_role v = Role_admin) (td_users (mb_team db))"

datatype first_admin_result = First_admin string | Admin_exists | Email_exists

definition add_admin :: "string \<Rightarrow> team_db \<Rightarrow> team_db" where
  "add_admin key db = db\<lparr>td_users := td_users db @
     [\<lparr>tu_id = key, tu_team = None, tu_role = Role_admin, tu_teamRole = Team_member, tu_onboarded = None\<rparr>]\<rparr>"

definition createFirstAdmin ::
  "string \<Rightarrow> string \<Rightarrow> string \<Rightarrow> string option \<Rightarrow> member_db \<Rightarrow> first_admin_result \<times> member_db" where
  "createFirstAdmin key email name password db =
     (if hasAdminUser db then (Admin_exists, db)
      else if known_email email db \<or> key \<in> ac_id ` set (mb_accounts db) then (Email_exists, db)
      else (First_admin key,
            db\<lparr>mb_accounts := mb_accounts db @ [\<lparr>ac_id = key, ac_email = email, ac_name = Some name, ac_password = password,
                  ac_image = None, ac_verified = None\<rparr>],
               mb_team := add_admin key (mb_team db)\<rparr>))"

text \<open>\<open>createUser\<close> of the adapter that \<open>guardAdapterUserCreation\<close> and \<open>registrationAdapter\<close> build.\<close>

definition guarded_createUser ::
  "registration_mode \<Rightarrow> string list \<Rightarrow> string \<Rightarrow> string \<Rightarrow> oauth_profile \<Rightarrow> instant \<Rightarrow> member_db \<Rightarrow> (member_error + account) \<times> member_db" where
  "guarded_createUser mode allowed key akey profile now db =
     (if \<not> hasAdminUser db then (Inl INITIAL_SETUP_REQUIRED, db) else createOAuthMember mode allowed key akey profile now db)"

section \<open>Roles\<close>

datatype role_result = Role_assigned | Invalid_role | Role_user_not_found | Last_admin

definition parseUserRole :: "string \<Rightarrow> user_role option" where
  "parseUserRole role = (if role = ''admin'' then Some Role_admin else if role = ''member'' then Some Role_member else None)"

definition assignUserRole :: "string \<Rightarrow> string \<Rightarrow> member_db \<Rightarrow> role_result \<times> member_db" where
  "assignUserRole u role db =
     (case parseUserRole role of
        None \<Rightarrow> (Invalid_role, db)
      | Some next_role \<Rightarrow>
          (case find (\<lambda>v. tu_id v = u) (td_users (mb_team db)) of
             None \<Rightarrow> (Role_user_not_found, db)
           | Some row \<Rightarrow>
               if tu_role row = Role_admin \<and> next_role = Role_member
                  \<and> length (filter (\<lambda>v. tu_role v = Role_admin) (td_users (mb_team db))) \<le> 1
               then (Last_admin, db)
               else (Role_assigned, db\<lparr>mb_team := set_role u next_role (mb_team db)\<rparr>)))"

end
