(* ===== verification/Team_Membership_Proofs.thy ===== *)
theory Team_Membership_Proofs
  imports Team_Membership
begin

text \<open>
  The history of the periods as a function of time: a user is in one team at a time, a change moves the
  user from its time on and leaves the past alone, except that a first assignment holds from the
  beginning. And the job of a large history whose failure cannot be recorded.
\<close>

section \<open>Periods\<close>

definition in_force :: "assignment \<Rightarrow> instant \<Rightarrow> bool" where
  "in_force a t \<longleftrightarrow> (case as_from a of None \<Rightarrow> True | Some f \<Rightarrow> f \<le> t) \<and> (case as_to a of None \<Rightarrow> True | Some e \<Rightarrow> t < e)"

text \<open>The specification: the team of a user at a time.\<close>

definition team_at :: "assignment list \<Rightarrow> string \<Rightarrow> instant \<Rightarrow> string option" where
  "team_at rows u t = map_option as_team (find (\<lambda>a. as_user a = u \<and> in_force a t) rows)"

lemma in_force_overlap: "in_force a t \<Longrightarrow> in_force b t \<Longrightarrow> overlaps a b"
  by (auto simp: in_force_def overlaps_def starts_before_end_def split: option.splits)

lemma open_overlap: "as_to a = None \<Longrightarrow> as_to b = None \<Longrightarrow> overlaps a b"
  by (auto simp: overlaps_def starts_before_end_def split: option.splits)

lemma overlaps_sym: "overlaps a b \<longleftrightarrow> overlaps b a"
  by (auto simp: overlaps_def)

definition history_inv :: "assignment list \<Rightarrow> bool" where
  "history_inv rows \<longleftrightarrow> distinct (map as_id rows) \<and> (\<forall>a \<in> set rows. valid_period a)
     \<and> (\<forall>a \<in> set rows. \<forall>b \<in> set rows. as_user a = as_user b \<and> a \<noteq> b \<longrightarrow> \<not> overlaps a b)"

definition member_inv :: "assignment list \<Rightarrow> team_user \<Rightarrow> bool" where
  "member_inv rows v \<longleftrightarrow>
     (\<forall>a \<in> set rows. as_user a = tu_id v \<and> as_to a = None \<longrightarrow> tu_team v = Some (as_team a))
     \<and> (tu_team v \<noteq> None \<longrightarrow> (\<exists>a \<in> set rows. as_user a = tu_id v \<and> as_to a = None))"

definition team_inv :: "team_db \<Rightarrow> bool" where
  "team_inv db \<longleftrightarrow> distinct (map tu_id (td_users db)) \<and> history_inv (td_assignments db)
     \<and> (\<forall>v \<in> set (td_users db). member_inv (td_assignments db) v)
     \<and> as_user ` set (td_assignments db) \<subseteq> tu_id ` set (td_users db)"

lemma history_overlap:
  "history_inv rows \<Longrightarrow> a \<in> set rows \<Longrightarrow> b \<in> set rows \<Longrightarrow> as_user a = as_user b \<Longrightarrow> overlaps a b \<Longrightarrow> a = b"
  unfolding history_inv_def by blast

lemma history_id: "history_inv rows \<Longrightarrow> a \<in> set rows \<Longrightarrow> b \<in> set rows \<Longrightarrow> as_id a = as_id b \<Longrightarrow> a = b"
  unfolding history_inv_def by (auto simp: distinct_map inj_on_def)

lemma team_at_eqI:
  "history_inv rows \<Longrightarrow> a \<in> set rows \<Longrightarrow> as_user a = u \<Longrightarrow> in_force a t \<Longrightarrow> team_at rows u t = Some (as_team a)"
proof -
  assume h: "history_inv rows" "a \<in> set rows" "as_user a = u" "in_force a t"
  obtain b where b: "find (\<lambda>a. as_user a = u \<and> in_force a t) rows = Some b"
    using h(2-4) by (cases "find (\<lambda>a. as_user a = u \<and> in_force a t) rows") (auto simp: find_None_iff)
  then have "b \<in> set rows" "as_user b = u" "in_force b t" by (auto simp: find_Some_iff)
  then have "b = a" using history_overlap [OF h(1) _ h(2)] in_force_overlap [OF _ h(4)] h(3) by simp
  then show ?thesis using b by (simp add: team_at_def)
qed

lemma team_at_None: "team_at rows u t = None \<longleftrightarrow> (\<forall>a \<in> set rows. as_user a = u \<longrightarrow> \<not> in_force a t)"
  by (auto simp: team_at_def find_None_iff)

lemma team_at_iff:
  "history_inv rows \<Longrightarrow> team_at rows u t = Some x \<longleftrightarrow> (\<exists>a \<in> set rows. as_user a = u \<and> in_force a t \<and> as_team a = x)"
  using team_at_eqI by (fastforce simp: team_at_def find_Some_iff)

text \<open>Two histories with the same periods in force have the same team.\<close>

lemma team_at_cong:
  assumes "history_inv rows" "history_inv rows'"
    and "\<And>x. (\<exists>a \<in> set rows. as_user a = u \<and> in_force a t \<and> as_team a = x)
      \<longleftrightarrow> (\<exists>a \<in> set rows'. as_user a = u \<and> in_force a t \<and> as_team a = x)"
  shows "team_at rows u t = team_at rows' u t"
  using assms team_at_iff by (metis option.exhaust)

section \<open>Closing and inserting\<close>

lemma close_assignment_rows:
  assumes h: "history_inv rows" and a: "a \<in> set rows" "as_to a = None" and c: "close_assignment (as_id a) now rows = Inr rows'"
  shows "set rows' = insert (a\<lparr>as_to := Some now\<rparr>) (set rows - {a})" "map as_id rows' = map as_id rows"
    "valid_period (a\<lparr>as_to := Some now\<rparr>)"
proof -
  have r: "rows' = map (\<lambda>b. if as_id b = as_id a \<and> as_to b = None then b\<lparr>as_to := Some now\<rparr> else b) rows" "list_all valid_period rows'"
    using c by (auto simp: close_assignment_def Let_def split: if_splits)
  have uniq: "b = a" if "b \<in> set rows" "as_id b = as_id a" for b
    using history_id [OF h that(1) a(1) that(2)] .
  show "set rows' = insert (a\<lparr>as_to := Some now\<rparr>) (set rows - {a})"
  proof (intro equalityI subsetI)
    fix x assume "x \<in> set rows'"
    then obtain b where b: "b \<in> set rows" "x = (if as_id b = as_id a \<and> as_to b = None then b\<lparr>as_to := Some now\<rparr> else b)"
      unfolding r(1) by auto
    then show "x \<in> insert (a\<lparr>as_to := Some now\<rparr>) (set rows - {a})" using uniq a(2) by (cases "b = a") auto
  next
    fix x assume "x \<in> insert (a\<lparr>as_to := Some now\<rparr>) (set rows - {a})"
    then show "x \<in> set rows'"
    proof
      assume "x = a\<lparr>as_to := Some now\<rparr>"
      then show ?thesis unfolding r(1) using a by (auto intro: image_eqI [where x = a])
    next
      assume "x \<in> set rows - {a}"
      then show ?thesis unfolding r(1) using uniq by (auto intro: image_eqI [where x = x])
    qed
  qed
  then show "valid_period (a\<lparr>as_to := Some now\<rparr>)" using r(2) by (auto simp: list_all_iff)
  show "map as_id rows' = map as_id rows" unfolding r(1) by simp
qed

lemma closed_overlap: "overlaps (a\<lparr>as_to := Some (now :: int)\<rparr>) b \<Longrightarrow> as_to a = None \<Longrightarrow> overlaps a b"
  by (auto simp: overlaps_def starts_before_end_def split: option.splits)

lemma close_assignment_inv:
  assumes h: "history_inv rows" and a: "a \<in> set rows" "as_to a = None" and c: "close_assignment (as_id a) now rows = Inr rows'"
  shows "history_inv rows'"
proof -
  note s = close_assignment_rows [OF assms]
  let ?a = "a\<lparr>as_to := Some now\<rparr>"
  have n: "\<not> overlaps ?a b" if "b \<in> set rows - {a}" "as_user b = as_user a" for b
    using that history_overlap [OF h a(1), of b] closed_overlap [OF _ a(2), of now b] by auto
  have "distinct (map as_id rows')" using h unfolding s(2) by (simp add: history_inv_def)
  moreover have "\<forall>x \<in> set rows'. valid_period x" using h s by (auto simp: history_inv_def)
  moreover have "\<not> overlaps x y" if "x \<in> set rows'" "y \<in> set rows'" "as_user x = as_user y" "x \<noteq> y" for x y
  proof -
    have ne: "x \<noteq> y" by (rule that(4))
    have "x = ?a \<or> x \<in> set rows - {a}" "y = ?a \<or> y \<in> set rows - {a}" using that(1,2) unfolding s(1) by blast+
    then consider "x = ?a" "y \<in> set rows - {a}" | "y = ?a" "x \<in> set rows - {a}" | "x \<in> set rows - {a}" "y \<in> set rows - {a}"
      using ne by metis
    then show ?thesis
    proof cases
      case 1 then show ?thesis using n [of y] that(3) by simp
    next
      case 2 then show ?thesis using n [of x] that(3) overlaps_sym by simp
    next
      case 3 then show ?thesis using history_overlap [OF h] that(3,4) by blast
    qed
  qed
  ultimately show ?thesis by (auto simp: history_inv_def)
qed

lemma insert_assignment_inv:
  assumes "history_inv rows" "insert_assignment a db rows = Inr rows'" "as_to a = None"
  shows "history_inv rows'" "rows' = rows @ [a]" "\<forall>b \<in> set rows. as_user b = as_user a \<longrightarrow> \<not> overlaps a b"
proof -
  show r: "rows' = rows @ [a]" and n: "\<forall>b \<in> set rows. as_user b = as_user a \<longrightarrow> \<not> overlaps a b"
    using assms(2) by (auto simp: insert_assignment_def list_ex_iff split: if_splits)
  have "as_id a \<notin> as_id ` set rows" using assms(2) by (auto simp: insert_assignment_def split: if_splits)
  moreover have "valid_period a" using assms(3) by (auto simp: valid_period_def split: option.splits)
  ultimately show "history_inv rows'" using assms(1) n overlaps_sym unfolding r history_inv_def by auto
qed

text \<open>A period that does not overlap one that starts now and is open has ended by now.\<close>

lemma ended_by:
  assumes "\<not> overlaps a b" "as_from a = Some now" "as_to a = None"
  shows "\<exists>e. as_to b = Some e \<and> e \<le> now"
  using assms by (auto simp: overlaps_def starts_before_end_def split: option.splits)


section \<open>A change\<close>

lemma close_user:
  "close_assignment i now rows = Inr rows' \<Longrightarrow> as_user ` set rows' = as_user ` set rows"
proof -
  assume "close_assignment i now rows = Inr rows'"
  then have "rows' = map (\<lambda>a. if as_id a = i \<and> as_to a = None then a\<lparr>as_to := Some now\<rparr> else a) rows"
    by (simp add: close_assignment_def Let_def split: if_splits)
  then have "map as_user rows' = map as_user rows" by simp
  then show ?thesis by (metis set_map)
qed

definition closed_periods :: "team_input \<Rightarrow> instant \<Rightarrow> team_db \<Rightarrow> team_error + assignment list" where
  "closed_periods inp now db =
     (case find (\<lambda>a. as_to a = None) (user_assignments (ti_user inp) (td_assignments db)) of
        None \<Rightarrow> Inr (td_assignments db) | Some a \<Rightarrow> close_assignment (as_id a) now (td_assignments db))"

definition new_assignment :: "team_input \<Rightarrow> instant \<Rightarrow> team_change_kind \<Rightarrow> string \<Rightarrow> assignment" where
  "new_assignment inp now kind team =
     \<lparr>as_id = ti_assignmentKey inp, as_user = ti_user inp, as_team = team,
      as_from = (if kind = Change_initial then None else Some now), as_to = None,
      as_kind = (if ti_onboarding inp then Kind_onboarding else Kind_admin), as_actor = Some (ti_actor inp)\<rparr>"

lemma new_assignment_simps [simp]:
  "as_user (new_assignment inp now k team) = ti_user inp" "as_team (new_assignment inp now k team) = team"
  "as_to (new_assignment inp now k team) = None"
  "as_from (new_assignment inp now k team) = (if k = Change_initial then None else Some now)"
  by (simp_all add: new_assignment_def)

text \<open>What a change that is not refused has done.\<close>

lemma changeUserTeam_changed:
  assumes "changeUserTeam inp db = (Inr c, db')" "tc_changed c"
  obtains now user rows rows' where "ti_now inp = Some now" "find (\<lambda>v. tu_id v = ti_user inp) (td_users db) = Some user"
    "tu_team user \<noteq> ti_team inp" "closed_periods inp now db = Inr rows"
    "(case ti_team inp of None \<Rightarrow> rows' = rows
      | Some team \<Rightarrow> insert_assignment (new_assignment inp now (tc_kind c) team) db rows = Inr rows')"
    "tc_kind c = change_kind user (ti_team inp) (user_assignments (ti_user inp) (td_assignments db))"
    "td_assignments db' = rows'" "td_users db' = map (\<lambda>v. if tu_id v = ti_user inp then moved_user inp now v else v) (td_users db)"
proof -
  obtain now where now: "ti_now inp = Some now" using assms by (auto simp: changeUserTeam_def split: option.splits)
  obtain user where user: "find (\<lambda>v. tu_id v = ti_user inp) (td_users db) = Some user"
    using assms now by (auto simp: changeUserTeam_def split: option.splits)
  have neq: "tu_team user \<noteq> ti_team inp" and a: "apply_team_change inp now user db = (Inr c, db')"
    using assms now user by (auto simp: changeUserTeam_def no_change_def Let_def split: if_splits)
  let ?kind = "change_kind user (ti_team inp) (user_assignments (ti_user inp) (td_assignments db))"
  have a': "apply_team_change inp now user db =
      (case and_then (closed_periods inp now db) (\<lambda>rows. case ti_team inp of None \<Rightarrow> Inr rows
          | Some team \<Rightarrow> insert_assignment (new_assignment inp now ?kind team) db rows) of
         Inl e \<Rightarrow> (Inl e, db)
       | Inr rows \<Rightarrow> (Inr \<lparr>tc_changed = True, tc_kind = ?kind,
               tc_assignment = (if ti_team inp = None then None else Some (ti_assignmentKey inp)),
               tc_job = (if ?kind = Change_initial then Some (ti_jobKey inp) else None)\<rparr>,
             db\<lparr>td_assignments := rows,
                td_users := map (\<lambda>v. if tu_id v = ti_user inp then moved_user inp now v else v) (td_users db),
                td_jobs := td_jobs db @ (if ?kind = Change_initial then [initial_job inp now (the (ti_team inp))] else [])\<rparr>))"
    by (simp only: apply_team_change_def Let_def closed_periods_def new_assignment_def)
  obtain rows where rows: "closed_periods inp now db = Inr rows" using a unfolding a' by (cases "closed_periods inp now db") auto
  show thesis
  proof (cases "ti_team inp")
    case None
    then show ?thesis using a unfolding a' rows by (intro that [OF now user neq rows]) auto
  next
    case (Some team)
    then obtain rows' where "insert_assignment (new_assignment inp now ?kind team) db rows = Inr rows'"
      using a unfolding a' rows by (cases "insert_assignment (new_assignment inp now ?kind team) db rows") auto
    then show ?thesis using a Some unfolding a' rows by (intro that [OF now user neq rows]) auto
  qed
qed

lemma changeUserTeam_unchanged:
  assumes "changeUserTeam inp db = (r, db')" "\<forall>c. r = Inr c \<longrightarrow> \<not> tc_changed c"
  shows "db' = db"
  using assms
  by (auto simp: changeUserTeam_def apply_team_change_def Let_def split: option.splits if_splits sum.splits)

text \<open>The open period of a member, and the rows after it has been closed.\<close>

lemma open_period:
  assumes inv: "team_inv db" and user: "find (\<lambda>v. tu_id v = ti_user inp) (td_users db) = Some user"
    and c: "closed_periods inp now db = Inr rows"
  shows "(tu_team user = None \<and> rows = td_assignments db \<and> (\<forall>b \<in> set rows. as_user b = ti_user inp \<longrightarrow> as_to b \<noteq> None))
    \<or> (\<exists>a \<in> set (td_assignments db). as_user a = ti_user inp \<and> as_to a = None \<and> tu_team user = Some (as_team a)
        \<and> close_assignment (as_id a) now (td_assignments db) = Inr rows)"
proof -
  have u: "user \<in> set (td_users db)" "tu_id user = ti_user inp" using user by (auto simp: find_Some_iff)
  then have m: "member_inv (td_assignments db) user" using inv by (auto simp: team_inv_def)
  show ?thesis
  proof (cases "find (\<lambda>a. as_to a = None) (user_assignments (ti_user inp) (td_assignments db))")
    case None
    then have "\<forall>b \<in> set (td_assignments db). as_user b = ti_user inp \<longrightarrow> as_to b \<noteq> None"
      by (auto simp: find_None_iff user_assignments_def)
    then show ?thesis using m u None c by (auto simp: member_inv_def closed_periods_def)
  next
    case (Some a)
    then have "as_to a = None" "a \<in> set (user_assignments (ti_user inp) (td_assignments db))" by (auto simp: find_Some_iff)
    then show ?thesis using m u Some c by (auto simp: member_inv_def closed_periods_def user_assignments_def)
  qed
qed


lemma team_at_insert:
  assumes "history_inv (rows @ [n])" "history_inv rows"
  shows "team_at (rows @ [n]) v t = (if v = as_user n \<and> in_force n t then Some (as_team n) else team_at rows v t)"
proof (cases "v = as_user n \<and> in_force n t")
  case True
  then show ?thesis using team_at_eqI [OF assms(1), of n v t] by simp
next
  case False
  have "team_at (rows @ [n]) v t = team_at rows v t" by (rule team_at_cong [OF assms]) (use False in auto)
  then show ?thesis unfolding if_not_P [OF False] .
qed

lemma bex_replace: "a \<in> R \<Longrightarrow> P a' = P a \<Longrightarrow> (\<exists>b \<in> insert a' (R - {a}). P b) \<longleftrightarrow> (\<exists>b \<in> R. P b)"
  by blast

lemma team_at_close:
  assumes h: "history_inv rows" and a: "a \<in> set rows" "as_to a = None" and c: "close_assignment (as_id a) now rows = Inr rows'"
  shows "team_at rows' v t = (if v = as_user a \<and> now \<le> t then None else team_at rows v t)"
proof -
  note s = close_assignment_rows [OF assms]
  note h' = close_assignment_inv [OF assms]
  let ?a = "a\<lparr>as_to := Some now\<rparr>"
  have force: "in_force ?a t \<longleftrightarrow> in_force a t \<and> t < now" using a(2) by (auto simp: in_force_def)
  show ?thesis
  proof (cases "v = as_user a \<and> now \<le> t")
    case True
    have "\<not> in_force b t" if b: "b \<in> set rows - {a}" "as_user b = v" for b
    proof -
      have "\<not> overlaps a b" using history_overlap [OF h a(1), of b] b True by auto
      then obtain f e where "as_from a = Some f" "as_to b = Some e" "e \<le> f"
        using a(2) by (auto simp: overlaps_def starts_before_end_def split: option.splits)
      moreover have "f < now" using s(3) calculation by (simp add: valid_period_def)
      ultimately show ?thesis using True by (auto simp: in_force_def)
    qed
    moreover have "\<not> in_force ?a t" using force True by simp
    ultimately have "team_at rows' v t = None" unfolding team_at_None s(1) by blast
    then show ?thesis using True by simp
  next
    case False
    have "team_at rows' v t = team_at rows v t"
    proof (rule team_at_cong [OF h' h])
      fix x
      have fields: "as_user ?a = as_user a" "as_team ?a = as_team a" by simp_all
      have "in_force ?a t \<longleftrightarrow> in_force a t" if "as_user a = v" using force False that by auto
      then have "(as_user ?a = v \<and> in_force ?a t \<and> as_team ?a = x) = (as_user a = v \<and> in_force a t \<and> as_team a = x)"
        unfolding fields by blast
      then show "(\<exists>b \<in> set rows'. as_user b = v \<and> in_force b t \<and> as_team b = x)
          \<longleftrightarrow> (\<exists>b \<in> set rows. as_user b = v \<and> in_force b t \<and> as_team b = x)"
        unfolding s(1) by (rule bex_replace [OF a(1)])
    qed
    then show ?thesis unfolding if_not_P [OF False] .
  qed
qed

text \<open>A change of the tables in the terms of the specification.\<close>

lemma change_team_at:
  assumes inv: "team_inv db" and run: "changeUserTeam inp db = (Inr c, db')" "tc_changed c" and now: "ti_now inp = Some now"
  shows "history_inv (td_assignments db')"
    and "team_at (td_assignments db') v t =
      (if v = ti_user inp \<and> (tc_kind c = Change_initial \<or> now \<le> t) then ti_team inp else team_at (td_assignments db) v t)"
proof -
  obtain now' user rows rows' where r: "ti_now inp = Some now'" "find (\<lambda>v. tu_id v = ti_user inp) (td_users db) = Some user"
      "tu_team user \<noteq> ti_team inp" "closed_periods inp now' db = Inr rows"
      "(case ti_team inp of None \<Rightarrow> rows' = rows
        | Some team \<Rightarrow> insert_assignment (new_assignment inp now' (tc_kind c) team) db rows = Inr rows')"
      "tc_kind c = change_kind user (ti_team inp) (user_assignments (ti_user inp) (td_assignments db))"
      "td_assignments db' = rows'"
    by (rule changeUserTeam_changed [OF run]) blast
  have n: "now' = now" using r(1) now by simp
  have h: "history_inv (td_assignments db)" using inv by (simp add: team_inv_def)
  have initial: "tc_kind c = Change_initial \<longleftrightarrow> tu_team user = None \<and> ti_team inp \<noteq> None \<and> user_assignments (ti_user inp) (td_assignments db) = []"
    using r(3,6) by (auto simp: change_kind_def)
  have closed: "history_inv rows \<and> (\<forall>v t. team_at rows v t =
      (if v = ti_user inp \<and> tu_team user \<noteq> None \<and> now \<le> t then None else team_at (td_assignments db) v t))"
    using open_period [OF inv r(2,4)]
  proof (elim disjE bexE conjE)
    fix a assume a: "a \<in> set (td_assignments db)" "as_user a = ti_user inp" "as_to a = None" "tu_team user = Some (as_team a)"
      "close_assignment (as_id a) now' (td_assignments db) = Inr rows"
    show ?thesis using close_assignment_inv [OF h a(1,3,5)] team_at_close [OF h a(1,3,5)] a(2,4) n by simp
  qed (use h in simp)
  have "history_inv rows' \<and> team_at rows' v t =
      (if v = ti_user inp \<and> (tc_kind c = Change_initial \<or> now \<le> t) then ti_team inp else team_at (td_assignments db) v t)"
  proof (cases "ti_team inp")
    case None
    then have "rows' = rows" "tu_team user \<noteq> None" "tc_kind c \<noteq> Change_initial" using r(3,5) initial by auto
    then show ?thesis using closed None by simp
  next
    case (Some team)
    let ?n = "new_assignment inp now (tc_kind c) team"
    have ins: "insert_assignment ?n db rows = Inr rows'" using r(5) Some n by simp
    note i = insert_assignment_inv [OF conjunct1 [OF closed] ins]
    have rows': "rows' = rows @ [?n]" and h': "history_inv rows'" using i by simp_all
    have force: "in_force ?n t \<longleftrightarrow> tc_kind c = Change_initial \<or> now \<le> t" by (simp add: in_force_def)
    have "team_at rows' v t = (if v = ti_user inp \<and> (tc_kind c = Change_initial \<or> now \<le> t) then Some team else team_at rows v t)"
      using team_at_insert [of rows ?n v t] h' closed unfolding rows' force new_assignment_simps by simp
    then show ?thesis using closed h' Some by auto
  qed
  then show "history_inv (td_assignments db')"
    and "team_at (td_assignments db') v t =
      (if v = ti_user inp \<and> (tc_kind c = Change_initial \<or> now \<le> t) then ti_team inp else team_at (td_assignments db) v t)"
    unfolding r(7) by blast+
qed


section \<open>The invariant\<close>

lemma open_rows_close:
  assumes h: "history_inv rows" and a: "a \<in> set rows" "as_to a = None" and c: "close_assignment (as_id a) now rows = Inr rows'"
  shows "b \<in> set rows' \<and> as_to b = None \<longleftrightarrow> b \<in> set rows \<and> as_to b = None \<and> as_user b \<noteq> as_user a"
proof -
  note s = close_assignment_rows [OF assms]
  have "as_user b \<noteq> as_user a" if "b \<in> set rows" "as_to b = None" "b \<noteq> a"
    using history_overlap [OF h a(1) that(1)] open_overlap [OF a(2) that(2)] that(3) by metis
  moreover have "as_to (a\<lparr>as_to := Some now\<rparr>) \<noteq> None" by simp
  ultimately show ?thesis unfolding s(1) by (metis Diff_iff empty_iff insert_iff)
qed

lemma member_inv_cong:
  assumes "\<And>b. as_user b = tu_id v \<Longrightarrow> as_to b = None \<Longrightarrow> b \<in> set rows \<longleftrightarrow> b \<in> set rows'"
  shows "member_inv rows v \<longleftrightarrow> member_inv rows' v"
  unfolding member_inv_def using assms by blast

lemma change_inv:
  assumes inv: "team_inv db" and run: "changeUserTeam inp db = (Inr c, db')" "tc_changed c"
  shows "team_inv db'"
proof -
  obtain now user rows rows' where r: "ti_now inp = Some now" "find (\<lambda>v. tu_id v = ti_user inp) (td_users db) = Some user"
      "tu_team user \<noteq> ti_team inp" "closed_periods inp now db = Inr rows"
      "(case ti_team inp of None \<Rightarrow> rows' = rows
        | Some team \<Rightarrow> insert_assignment (new_assignment inp now (tc_kind c) team) db rows = Inr rows')"
      "td_assignments db' = rows'" "td_users db' = map (\<lambda>v. if tu_id v = ti_user inp then moved_user inp now v else v) (td_users db)"
    by (rule changeUserTeam_changed [OF run]) blast
  have h: "history_inv (td_assignments db)" using inv by (simp add: team_inv_def)
  have h': "history_inv rows'" using change_team_at(1) [OF inv run r(1)] r(6) by simp
  have users: "map tu_id (td_users db') = map tu_id (td_users db)" unfolding r(7) by (simp add: moved_user_def)
  have "user \<in> set (td_users db)" "tu_id user = ti_user inp" using r(2) by (auto simp: find_Some_iff)
  then have known: "ti_user inp \<in> tu_id ` set (td_users db)" by (metis imageI)
  have others: "b \<in> set rows \<and> as_to b = None \<longleftrightarrow> b \<in> set (td_assignments db) \<and> as_to b = None \<and> as_user b \<noteq> ti_user inp" for b
    using open_period [OF inv r(2,4)]
  proof (elim disjE bexE conjE)
    fix a assume a: "a \<in> set (td_assignments db)" "as_user a = ti_user inp" "as_to a = None"
      "close_assignment (as_id a) now (td_assignments db) = Inr rows"
    show ?thesis using open_rows_close [OF h a(1,3,4), of b] a(2) by simp
  qed auto
  have subset: "as_user ` set rows \<subseteq> tu_id ` set (td_users db)"
    using open_period [OF inv r(2,4)] close_user inv unfolding team_inv_def by (elim disjE bexE conjE) simp_all
  have new: "rows' = rows \<and> ti_team inp = None \<or> (\<exists>team n. ti_team inp = Some team \<and> rows' = rows @ [n] \<and> as_user n = ti_user inp
      \<and> as_to n = None \<and> as_team n = team)"
  proof (cases "ti_team inp")
    case (Some team)
    then have "insert_assignment (new_assignment inp now (tc_kind c) team) db rows = Inr rows'" using r(5) by simp
    then have "rows' = rows @ [new_assignment inp now (tc_kind c) team]" by (simp add: insert_assignment_def split: if_splits)
    then show ?thesis using Some by simp
  qed (use r(5) in simp)
  have mem: "member_inv rows' (if tu_id v = ti_user inp then moved_user inp now v else v)" if v: "v \<in> set (td_users db)" for v
  proof (cases "tu_id v = ti_user inp")
    case True
    have id: "tu_id (moved_user inp now v) = ti_user inp" "tu_team (moved_user inp now v) = ti_team inp"
      using True by (simp_all add: moved_user_def)
    have "b \<notin> set rows" if "as_to b = None" "as_user b = ti_user inp" for b using others [of b] that by simp
    then have "member_inv rows' (moved_user inp now v)" using new unfolding member_inv_def id by (elim disjE exE conjE) auto
    then show ?thesis using True by simp
  next
    case False
    have "member_inv (td_assignments db) v" using inv v by (simp add: team_inv_def)
    moreover have "b \<in> set (td_assignments db) \<longleftrightarrow> b \<in> set rows'" if "as_user b = tu_id v" "as_to b = None" for b
      using others [of b] that False new by (elim disjE exE conjE) auto
    ultimately have "member_inv rows' v" using member_inv_cong [of v "td_assignments db" rows'] by blast
    then show ?thesis using False by simp
  qed
  have "as_user ` set rows' \<subseteq> tu_id ` set (td_users db)" using new subset known by (elim disjE exE conjE) simp_all
  moreover have "tu_id ` set (td_users db') = tu_id ` set (td_users db)" using users by (metis set_map)
  moreover have "\<forall>v \<in> set (td_users db'). member_inv rows' v"
  proof
    fix w assume "w \<in> set (td_users db')"
    then obtain v where "v \<in> set (td_users db)" "w = (if tu_id v = ti_user inp then moved_user inp now v else v)"
      unfolding r(7) set_map by (rule imageE)
    then show "member_inv rows' w" using mem by (simp only:)
  qed
  ultimately show ?thesis using h' inv users by (simp add: team_inv_def r(6))
qed

lemma admit_cases:
  assumes "admit_member key akey role team actor now db = Inr db'"
  shows "key \<notin> tu_id ` set (td_users db)" "td_users db' = td_users db @ [admitted_user key role team now]" "td_teams db' = td_teams db"
    "case team of None \<Rightarrow> td_assignments db' = td_assignments db
     | Some t \<Rightarrow> insert_assignment (first_assignment key akey t actor now) (db\<lparr>td_users := td_users db @ [admitted_user key role team now]\<rparr>)
         (td_assignments db) = Inr (td_assignments db')"
  using assms by (auto simp: admit_member_def Let_def and_then_eq_Inr split: if_splits option.splits)

lemma admit_inv:
  assumes inv: "team_inv db" and run: "admit_member key akey role team actor now db = Inr db'"
  shows "team_inv db'"
proof -
  note r = admit_cases [OF run]
  have h: "history_inv (td_assignments db)" "as_user ` set (td_assignments db) \<subseteq> tu_id ` set (td_users db)"
    using inv by (simp_all add: team_inv_def)
  have fresh: "as_user a \<noteq> key" if "a \<in> set (td_assignments db)" for a using h(2) r(1) that by (metis imageI subsetD)
  have new: "td_assignments db' = td_assignments db \<and> team = None
    \<or> (\<exists>t. team = Some t \<and> td_assignments db' = td_assignments db @ [first_assignment key akey t actor now])"
    using r(4) by (auto simp: insert_assignment_def split: option.splits if_splits)
  have h': "history_inv (td_assignments db')"
  proof (cases team)
    case None
    then show ?thesis using r(4) h(1) by simp
  next
    case (Some t)
    then show ?thesis using r(4) insert_assignment_inv(1) [OF h(1)] by (simp add: first_assignment_def)
  qed
  have "member_inv (td_assignments db') v" if v: "v \<in> set (td_users db')" for v
  proof (cases "tu_id v = key")
    case True
    then have "v \<notin> set (td_users db)" using r(1) by (metis imageI)
    then have "tu_team v = team" using v r(2) by (simp add: admitted_user_def)
    then show ?thesis using True fresh new by (auto simp: member_inv_def first_assignment_def)
  next
    case False
    then have "v \<in> set (td_users db)" using v r(2) by (auto simp: admitted_user_def)
    then have "member_inv (td_assignments db) v" using inv by (simp add: team_inv_def)
    then show ?thesis using False new by (auto simp: member_inv_def first_assignment_def)
  qed
  moreover have "as_user ` set (td_assignments db') \<subseteq> tu_id ` set (td_users db')"
  proof -
    have "as_user ` set (td_assignments db') \<subseteq> insert key (as_user ` set (td_assignments db))"
    proof (cases team)
      case (Some t)
      then have "td_assignments db' = td_assignments db @ [first_assignment key akey t actor now]" using new by simp
      then show ?thesis by (simp add: first_assignment_def)
    qed (use new in auto)
    also have "\<dots> \<subseteq> insert key (tu_id ` set (td_users db))" by (rule insert_mono [OF h(2)])
    also have "\<dots> = tu_id ` set (td_users db')" by (simp add: r(2) admitted_user_def)
    finally show ?thesis .
  qed
  moreover have "distinct (map tu_id (td_users db'))" using inv r(1) by (simp add: team_inv_def r(2) admitted_user_def)
  ultimately show ?thesis using h' by (simp add: team_inv_def)
qed

lemma admitted_history:
  assumes inv: "team_inv db" and run: "admit_member key akey role team actor now db = Inr db'"
  shows "team_at (td_assignments db') key t = (if now \<le> t then team else None)"
proof -
  note r = admit_cases [OF run]
  have "as_user a \<noteq> key" if "a \<in> set (td_assignments db)" for a
    using inv r(1) that unfolding team_inv_def by (metis imageI subsetD)
  then have none: "find (\<lambda>a. as_user a = key \<and> in_force a t) (td_assignments db) = None" by (auto simp: find_None_iff)
  show ?thesis
  proof (cases team)
    case None
    then show ?thesis using r(4) none by (simp add: team_at_def)
  next
    case (Some x)
    then have "td_assignments db' = td_assignments db @ [first_assignment key akey x actor now]"
      using r(4) by (auto simp: insert_assignment_def split: if_splits)
    moreover have "as_user (first_assignment key akey x actor now) = key" "as_team (first_assignment key akey x actor now) = x"
        "in_force (first_assignment key akey x actor now) t \<longleftrightarrow> now \<le> t"
      by (simp_all add: first_assignment_def in_force_def)
    ultimately show ?thesis using Some unfolding team_at_def by (simp add: find_snoc [OF none])
  qed
qed

lemma role_inv: "team_inv db \<Longrightarrow> team_inv (set_role u role db)"
proof -
  assume inv: "team_inv db"
  have ids: "map tu_id (td_users (set_role u role db)) = map tu_id (td_users db)" by (simp add: set_role_def)
  then have "tu_id ` set (td_users (set_role u role db)) = tu_id ` set (td_users db)" by (metis set_map)
  moreover have "member_inv rows (if tu_id v = u then v\<lparr>tu_role := role\<rparr> else v) = member_inv rows v" for rows v
    by (simp add: member_inv_def)
  then have "list_all (member_inv (td_assignments db)) (td_users (set_role u role db)) = list_all (member_inv (td_assignments db)) (td_users db)"
    by (simp add: set_role_def list.pred_map comp_def)
  moreover have "td_assignments (set_role u role db) = td_assignments db" by (simp add: set_role_def)
  ultimately show ?thesis using inv ids unfolding team_inv_def list_all_iff by simp
qed

text \<open>A user registers without a team or is admitted with one; roles change; teams come and go; the jobs do not
  touch the periods.\<close>

inductive team_reachable :: "team_db \<Rightarrow> bool" where
  team_start: "distinct (map tu_id users) \<Longrightarrow> \<forall>v \<in> set users. tu_team v = None \<Longrightarrow>
     team_reachable \<lparr>td_users = users, td_teams = teams, td_assignments = [], td_jobs = [], td_fences = []\<rparr>"
| team_change: "team_reachable db \<Longrightarrow> changeUserTeam inp db = (r, db') \<Longrightarrow> team_reachable db'"
| team_register: "team_reachable db \<Longrightarrow> tu_team v = None \<Longrightarrow> tu_id v \<notin> tu_id ` set (td_users db) \<Longrightarrow>
     team_reachable (db\<lparr>td_users := td_users db @ [v]\<rparr>)"
| team_admit: "team_reachable db \<Longrightarrow> admit_member key akey role team actor now db = Inr db' \<Longrightarrow> team_reachable db'"
| team_role_change: "team_reachable db \<Longrightarrow> team_reachable (set_role u role db)"
| team_teams: "team_reachable db \<Longrightarrow> team_reachable (db\<lparr>td_teams := teams\<rparr>)"
| team_jobs: "team_reachable db \<Longrightarrow> team_reachable (db\<lparr>td_jobs := jobs, td_fences := fences\<rparr>)"

lemma team_reachable_inv: "team_reachable db \<Longrightarrow> team_inv db"
proof (induction rule: team_reachable.induct)
  case (team_start users teams)
  then show ?case by (simp add: team_inv_def history_inv_def member_inv_def)
next
  case (team_change db inp r db')
  show ?case
  proof (cases "\<exists>c. r = Inr c \<and> tc_changed c")
    case True
    then show ?thesis using change_inv team_change by blast
  next
    case False
    then have "db' = db" using changeUserTeam_unchanged [OF team_change(2)] by blast
    then show ?thesis using team_change by simp
  qed
next
  case (team_register db v)
  then have "as_user ` set (td_assignments db) \<subseteq> tu_id ` set (td_users db)" by (simp add: team_inv_def)
  then have "\<forall>a \<in> set (td_assignments db). as_user a \<noteq> tu_id v" using team_register(3) by (metis imageI subsetD)
  then show ?case using team_register by (auto simp: team_inv_def member_inv_def)
next
  case (team_admit db)
  then show ?case by (blast intro: admit_inv)
next
  case (team_role_change db)
  then show ?case by (blast intro: role_inv)
qed (simp_all add: team_inv_def)

text \<open>C15: A change of team that goes through moves the user from its time on and leaves the user's past and
  everybody else alone; a first assignment holds for all times.\<close>

theorem team_change_refines_history:
  assumes "team_reachable db" "changeUserTeam inp db = (Inr c, db')" "tc_changed c" "ti_now inp = Some now"
  shows "team_at (td_assignments db') v t =
    (if v \<noteq> ti_user inp then team_at (td_assignments db) v t
     else if tc_kind c = Change_initial then ti_team inp
     else if t < now then team_at (td_assignments db) v t else ti_team inp)"
  using change_team_at(2) [OF team_reachable_inv [OF assms(1)] assms(2-4), of v t] by auto

text \<open>C19: In every reachable state the periods of a user do not overlap, so that at each time at most one of
  them is in force, and the team of the user's row is the team of the period that is open.\<close>

theorem one_team_at_a_time:
  assumes "team_reachable db" "a \<in> set (td_assignments db)" "b \<in> set (td_assignments db)" "as_user a = as_user b"
    and "in_force a t" "in_force b t" "v \<in> set (td_users db)"
  shows "a = b \<and> (tu_id v = as_user a \<and> as_to a = None \<longrightarrow> tu_team v = Some (as_team a))"
proof -
  have inv: "history_inv (td_assignments db)" "member_inv (td_assignments db) v"
    using team_reachable_inv [OF assms(1)] assms(7) unfolding team_inv_def by blast+
  have "a = b" by (rule history_overlap [OF inv(1) assms(2-4) in_force_overlap [OF assms(5,6)]])
  moreover have "tu_id v = as_user a \<and> as_to a = None \<longrightarrow> tu_team v = Some (as_team a)"
    using inv(2) assms(2) unfolding member_inv_def by metis
  ultimately show ?thesis by blast
qed

definition example_user :: team_user where
  "example_user = \<lparr>tu_id = ''u'', tu_team = None, tu_role = Role_member, tu_teamRole = Team_member, tu_onboarded = None\<rparr>"

definition example_team_db :: team_db where
  "example_team_db = \<lparr>td_users = [example_user], td_teams = [''red'', ''blue''], td_assignments = [], td_jobs = [], td_fences = []\<rparr>"

definition example_move :: "string \<Rightarrow> instant \<Rightarrow> string \<Rightarrow> team_input" where
  "example_move team now key =
     \<lparr>ti_user = ''u'', ti_team = Some team, ti_actor = ''u'', ti_now = Some now, ti_onboarding = False,
      ti_assignmentKey = key, ti_jobKey = key\<rparr>"

definition example_assigned :: team_db where
  "example_assigned = snd (changeUserTeam (example_move ''red'' 100 ''1'') example_team_db)"

lemma example_assigned_reachable: "team_reachable example_assigned"
proof -
  have "team_reachable example_team_db" unfolding example_team_db_def by (rule team_start) (simp_all add: example_user_def)
  then show ?thesis unfolding example_assigned_def using team_change by (metis prod.collapse)
qed

lemma team_change_refines_history_witness:
  "\<exists>c db'. changeUserTeam (example_move ''blue'' 200 ''2'') example_assigned = (Inr c, db') \<and> tc_kind c = Change_transfer
     \<and> team_at (td_assignments db') ''u'' 150 = Some ''red'' \<and> team_at (td_assignments db') ''u'' 250 = Some ''blue''"
proof -
  have run: "case changeUserTeam (example_move ''blue'' 200 ''2'') example_assigned of (Inl e, db') \<Rightarrow> False
      | (Inr c, db') \<Rightarrow> tc_changed c \<and> tc_kind c = Change_transfer" by code_simp
  then obtain c db' where c: "changeUserTeam (example_move ''blue'' 200 ''2'') example_assigned = (Inr c, db')"
      "tc_changed c" "tc_kind c = Change_transfer" by (auto split: prod.splits sum.splits)
  have now: "ti_now (example_move ''blue'' 200 ''2'') = Some 200" by (simp add: example_move_def)
  have old: "team_at (td_assignments example_assigned) ''u'' 150 = Some ''red''" by code_simp
  show ?thesis
    using team_change_refines_history [OF example_assigned_reachable c(1,2) now, of "''u''" 150]
      team_change_refines_history [OF example_assigned_reachable c(1,2) now, of "''u''" 250] c old
    by (simp add: example_move_def)
qed

lemma one_team_at_a_time_witness:
  "\<exists>a v. a \<in> set (td_assignments example_assigned) \<and> v \<in> set (td_users example_assigned) \<and> tu_team v = Some (as_team a)"
proof -
  have ex: "case (td_assignments example_assigned, td_users example_assigned) of
      (a # _, v # _) \<Rightarrow> in_force a 150 \<and> tu_id v = as_user a \<and> as_to a = None | _ \<Rightarrow> False" by code_simp
  then obtain a as v vs where e: "td_assignments example_assigned = a # as" "td_users example_assigned = v # vs"
      "in_force a 150" "tu_id v = as_user a" "as_to a = None" by (auto split: list.splits)
  have "a = a \<and> (tu_id v = as_user a \<and> as_to a = None \<longrightarrow> tu_team v = Some (as_team a))"
    by (rule one_team_at_a_time [OF example_assigned_reachable _ _ refl e(3,3)]) (simp_all add: e)
  then show ?thesis using e by auto
qed

section \<open>The backoff of a large job\<close>

lemma backoff_overflow: "30 \<le> attempts \<Longrightarrow> attribution_backoff attempts = Inl Integer_out_of_range"
proof -
  assume "30 \<le> attempts"
  then have "(2::int) ^ 29 \<le> 2 ^ (attempts - 1)" by (intro power_increasing) auto
  then show ?thesis by (simp add: attribution_backoff_def int4_max_def)
qed

text \<open>C34: Every claim of an attribution job counts as an attempt, also for a batch that makes progress. From the
  thirtieth batch on a failure cannot be recorded: the update raises a range error, and the job is left
  running as it was claimed.\<close>

theorem large_attribution_failure_is_not_recorded:
  assumes keys: "distinct (map aj_id (td_jobs db))"
    and claim: "attribution_claim now db = (Some job, db')" and attempts: "30 \<le> aj_attempts job"
    and known: "aj_matched job \<noteq> 0 \<or> aj_processed job \<noteq> 0" and fails: "backfill job = Inl e"
  shows "runTeamAttributionBatchAt preview backfill now db = (Inl Integer_out_of_range, db')
    \<and> (\<forall>j \<in> set (td_jobs db'). aj_id j = aj_id job \<longrightarrow> aj_state j = Attr_running)"
proof -
  obtain j ends where j: "job = j\<lparr>aj_to := ends, aj_attempts := aj_attempts j + 1\<rparr>"
    and db': "db' = update_attribution (aj_id j) (\<lambda>j. j\<lparr>aj_state := Attr_running, aj_to := ends, aj_attempts := aj_attempts j + 1,
        aj_startedAt := (case aj_startedAt j of None \<Rightarrow> Some now | Some t \<Rightarrow> Some t),
        aj_lastError := None, aj_changed := now\<rparr>) db"
    and m: "j \<in> set (td_jobs db)"
    using claim
  proof (cases "js_sort by_created (filter (\<lambda>j. attribution_claimable now j \<and> assignment_end j db \<noteq> None) (td_jobs db))")
    case (Cons j js)
    have "j \<in> set (js_sort by_created (filter (\<lambda>j. attribution_claimable now j \<and> assignment_end j db \<noteq> None) (td_jobs db)))"
      unfolding Cons by simp
    then have "j \<in> set (td_jobs db)" by simp
    moreover have "job = j\<lparr>aj_to := the (assignment_end j db), aj_attempts := aj_attempts j + 1\<rparr>"
      "db' = update_attribution (aj_id j) (\<lambda>k. k\<lparr>aj_state := Attr_running, aj_to := the (assignment_end j db), aj_attempts := aj_attempts k + 1,
        aj_startedAt := (case aj_startedAt k of None \<Rightarrow> Some now | Some t \<Rightarrow> Some t), aj_lastError := None, aj_changed := now\<rparr>) db"
      using claim [unfolded attribution_claim_def Cons list.case Let_def prod.inject option.inject] by (simp_all only:)
    ultimately show ?thesis using that by blast
  qed (simp add: attribution_claim_def)
  have state: "\<forall>k \<in> set (td_jobs db'). aj_id k = aj_id job \<longrightarrow> aj_state k = Attr_running"
    unfolding db' by (auto simp: update_attribution_def j)
  have failed: "attribution_markFailed (aj_id job) code now db' = (Inl Integer_out_of_range, db')" for code
  proof -
    obtain k where k: "find (\<lambda>k. aj_id k = aj_id job) (td_jobs db') = Some k"
      using m by (cases "find (\<lambda>k. aj_id k = aj_id job) (td_jobs db')") (auto simp: find_None_iff db' update_attribution_def j)
    then have "k \<in> set (td_jobs db')" "aj_id k = aj_id j" by (auto simp: find_Some_iff j)
    then obtain j' where j': "j' \<in> set (td_jobs db)" "aj_id j' = aj_id j" "aj_attempts k = aj_attempts j' + 1"
      unfolding db' by (auto simp: update_attribution_def split: if_splits)
    then have "j' = j" using keys m by (auto simp: distinct_map inj_on_def)
    then have "30 \<le> aj_attempts k" using attempts j'(3) by (simp add: j)
    from backoff_overflow [OF this] show ?thesis by (simp add: attribution_markFailed_def k)
  qed
  have old: "\<not> (aj_matched job = 0 \<and> aj_processed job = 0)" using known by blast
  have "runTeamAttributionBatchAt preview backfill now db = (Inl Integer_out_of_range, db')"
    unfolding runTeamAttributionBatchAt_def claim prod.case option.case Let_def if_not_P [OF old] sum.case fails failed ..
  then show ?thesis using state by (rule conjI)
qed


definition large_job :: attribution_job where
  "large_job = initial_job (example_move ''red'' 100 ''1'') 100 ''red''\<lparr>aj_attempts := 29, aj_matched := 8000, aj_processed := 7250\<rparr>"

lemma large_attribution_failure_is_not_recorded_witness:
  "\<exists>db'. runTeamAttributionBatchAt (\<lambda>j. Inr 0) (\<lambda>j. Inl Other_failure) 200 (example_assigned\<lparr>td_jobs := [large_job]\<rparr>)
     = (Inl Integer_out_of_range, db')"
proof -
  let ?db = "example_assigned\<lparr>td_jobs := [large_job]\<rparr>"
  have ex: "case attribution_claim 200 ?db of (None, db') \<Rightarrow> False | (Some job, db') \<Rightarrow> 30 \<le> aj_attempts job \<and> aj_matched job \<noteq> 0"
    by code_simp
  then obtain job db' where c: "attribution_claim 200 ?db = (Some job, db')" "30 \<le> aj_attempts job" "aj_matched job \<noteq> 0"
    by (auto split: prod.splits option.splits)
  have "distinct (map aj_id (td_jobs ?db))" by simp
  from large_attribution_failure_is_not_recorded [OF this c(1,2), of "\<lambda>j. Inl Other_failure" Other_failure "\<lambda>j. Inr 0"] c(3)
  show ?thesis by blast
qed

end
