(* ===== verification/Members_Proofs.thy ===== *)
theory Members_Proofs
  imports Members Team_Membership_Proofs
begin

text \<open>
  Runs of the members: with registration by invitation every account but the first stands for an accepted
  invitation of its own, an installation with accounts keeps an administrator, and the transactions of this
  component are steps of the machine of \<open>Team_Membership_Proofs\<close>.
\<close>

section \<open>Steps\<close>

definition drop_team :: "string \<Rightarrow> invite list \<Rightarrow> invite list" where
  "drop_team team rows = map (\<lambda>i. if iv_team i = Some team then i\<lparr>iv_team := None\<rparr> else i) rows"

text \<open>A deleted team leaves the invitations that name it; the other steps of the teams are those of a user's team,
  of the teams and of the jobs.\<close>

inductive member_step :: "registration_mode \<Rightarrow> member_db \<Rightarrow> member_db \<Rightarrow> bool" for mode where
  step_first_admin: "createFirstAdmin key email name password db = (r, db') \<Longrightarrow> member_step mode db db'"
| step_invite: "createInvite digest key token email role team creator now db = (r1, db') \<Longrightarrow> member_step mode db db'"
| step_accept: "acceptInvite digest key akey token name password now db = (r2, db') \<Longrightarrow> member_step mode db db'"
| step_oauth: "guarded_createUser mode allowed key akey profile now db = (r3, db') \<Longrightarrow> member_step mode db db'"
| step_role: "assignUserRole u role db = (r4, db') \<Longrightarrow> member_step mode db db'"
| step_change_team: "changeUserTeam inp (mb_team db) = (r5, t) \<Longrightarrow> member_step mode db (db\<lparr>mb_team := t\<rparr>)"
| step_new_teams: "member_step mode db (db\<lparr>mb_team := (mb_team db)\<lparr>td_teams := teams\<rparr>\<rparr>)"
| step_drop_team: "member_step mode db (db\<lparr>mb_invites := drop_team team (mb_invites db),
    mb_team := (mb_team db)\<lparr>td_teams := removeAll team (td_teams (mb_team db))\<rparr>\<rparr>)"
| step_team_jobs: "member_step mode db (db\<lparr>mb_team := (mb_team db)\<lparr>td_jobs := jobs, td_fences := fences\<rparr>\<rparr>)"
| step_link: "member_step mode db (db\<lparr>mb_links := links\<rparr>)"

inductive member_run :: "registration_mode \<Rightarrow> member_db \<Rightarrow> member_db \<Rightarrow> bool" for mode where
  member_stop: "member_run mode db db"
| member_next: "member_run mode a b \<Longrightarrow> member_step mode b c \<Longrightarrow> member_run mode a c"

definition fresh_installation :: member_db where
  "fresh_installation = \<lparr>mb_accounts = [], mb_invites = [], mb_links = [],
     mb_team = \<lparr>td_users = [], td_teams = [], td_assignments = [], td_jobs = [], td_fences = []\<rparr>\<rparr>"

definition member_reachable :: "registration_mode \<Rightarrow> member_db \<Rightarrow> bool" where
  "member_reachable mode db \<longleftrightarrow> member_run mode fresh_installation db"

section \<open>What a step does\<close>

definition admins :: "member_db \<Rightarrow> team_user list" where
  "admins db = filter (\<lambda>v. tu_role v = Role_admin) (td_users (mb_team db))"

lemma hasAdminUser_admins: "hasAdminUser db \<longleftrightarrow> admins db \<noteq> []"
  by (auto simp: hasAdminUser_def admins_def list_ex_iff filter_empty_conv)

text \<open>A new account: the bootstrap, an invitation, or in the other mode a verified address.\<close>

inductive new_account :: "registration_mode \<Rightarrow> member_db \<Rightarrow> account \<Rightarrow> member_db \<Rightarrow> bool" for mode db a db' where
  by_bootstrap: "\<not> hasAdminUser db \<Longrightarrow> mb_invites db' = mb_invites db \<Longrightarrow> mb_team db' = add_admin (ac_id a) (mb_team db)
     \<Longrightarrow> new_account mode db a db'"
| by_invite: "i \<in> set (mb_invites db) \<Longrightarrow> pending_invite now i \<Longrightarrow> iv_email i = ac_email a \<Longrightarrow>
     mb_invites db' = consume_invite (iv_id i) now (mb_invites db) \<Longrightarrow>
     admit_member (ac_id a) akey (iv_role i) (iv_team i) (iv_creator i) now (mb_team db) = Inr (mb_team db') \<Longrightarrow> new_account mode db a db'"
| by_domain: "mode = Verified_oauth \<Longrightarrow> hasAdminUser db \<Longrightarrow> mb_invites db' = mb_invites db \<Longrightarrow>
     admit_member (ac_id a) akey Role_member None None now (mb_team db) = Inr (mb_team db') \<Longrightarrow> new_account mode db a db'"

definition registers :: "registration_mode \<Rightarrow> member_db \<Rightarrow> member_db \<Rightarrow> bool" where
  "registers mode db db' \<longleftrightarrow>
     (\<exists>a. mb_accounts db' = mb_accounts db @ [a] \<and> \<not> known_email (ac_email a) db \<and> ac_id a \<notin> ac_id ` set (mb_accounts db)
        \<and> new_account mode db a db')"

lemma registersI:
  "mb_accounts db' = mb_accounts db @ [a] \<Longrightarrow> \<not> known_email (ac_email a) db \<Longrightarrow> ac_id a \<notin> ac_id ` set (mb_accounts db) \<Longrightarrow>
   new_account mode db a db' \<Longrightarrow> registers mode db db'"
  unfolding registers_def by blast

lemma first_admin_cases:
  assumes "createFirstAdmin key email name password db = (r, db')"
  shows "db' = db \<or> registers mode db db'"
proof (cases "db' = db")
  case False
  then have c: "\<not> hasAdminUser db" "\<not> known_email email db" "key \<notin> ac_id ` set (mb_accounts db)"
    and db': "db' = db\<lparr>mb_accounts := mb_accounts db @ [\<lparr>ac_id = key, ac_email = email, ac_name = Some name, ac_password = password,
                  ac_image = None, ac_verified = None\<rparr>], mb_team := add_admin key (mb_team db)\<rparr>"
    using assms unfolding createFirstAdmin_def by (auto split: if_splits)
  have "registers mode db db'"
    by (rule registersI [of _ _ "\<lparr>ac_id = key, ac_email = email, ac_name = Some name, ac_password = password,
                  ac_image = None, ac_verified = None\<rparr>"]) (use c in \<open>auto simp: db' intro: by_bootstrap\<close>)
  then show ?thesis by simp
qed simp

lemma accept_cases:
  assumes "acceptInvite digest key akey token name password now db = (r, db')"
  shows "db' = db \<and> (\<forall>email. r \<noteq> Inr (Some email)) \<or>
    (\<exists>i team. getValidInvite digest token now db = Some i \<and> r = Inr (Some (iv_email i)) \<and> \<not> known_email (iv_email i) db
      \<and> key \<notin> ac_id ` set (mb_accounts db) \<and> admit_member key akey (iv_role i) (iv_team i) (iv_creator i) now (mb_team db) = Inr team
      \<and> db' = db\<lparr>mb_accounts := mb_accounts db @ [\<lparr>ac_id = key, ac_email = iv_email i, ac_name = (if name = [] then None else Some name),
                       ac_password = Some password, ac_image = None, ac_verified = None\<rparr>],
                    mb_invites := consume_invite (iv_id i) now (mb_invites db), mb_team := team\<rparr>)"
  using assms unfolding acceptInvite_def by (simp split: option.splits if_splits sum.splits) blast+

lemma accept_registers:
  assumes "acceptInvite digest key akey token name password now db = (r, db')"
  shows "db' = db \<or> registers mode db db'"
  using accept_cases [OF assms]
proof (elim disjE exE conjE)
  fix i team
  assume i: "getValidInvite digest token now db = Some i" "\<not> known_email (iv_email i) db" "key \<notin> ac_id ` set (mb_accounts db)"
    and admit: "admit_member key akey (iv_role i) (iv_team i) (iv_creator i) now (mb_team db) = Inr team"
    and db': "db' = db\<lparr>mb_accounts := mb_accounts db @ [\<lparr>ac_id = key, ac_email = iv_email i, ac_name = (if name = [] then None else Some name),
                       ac_password = Some password, ac_image = None, ac_verified = None\<rparr>],
                    mb_invites := consume_invite (iv_id i) now (mb_invites db), mb_team := team\<rparr>"
  have "i \<in> set (mb_invites db)" "pending_invite now i" using i(1) by (auto simp: getValidInvite_def find_Some_iff)
  then have "registers mode db db'"
    by (intro registersI [of _ _ "\<lparr>ac_id = key, ac_email = iv_email i, ac_name = (if name = [] then None else Some name),
                       ac_password = Some password, ac_image = None, ac_verified = None\<rparr>"] by_invite [of i _ now _ _ akey])
      (use i admit in \<open>simp_all add: db'\<close>)
  then show ?thesis by simp
qed simp

lemma newest_invite_Some:
  assumes "newest_invite email now db = Some i"
  shows "i \<in> set (mb_invites db) \<and> iv_email i = email \<and> pending_invite now i"
proof -
  obtain xs where x: "js_sort (\<lambda>l r. iv_created r - iv_created l) (filter (\<lambda>i. iv_email i = email \<and> pending_invite now i) (mb_invites db)) = i # xs"
    using assms unfolding newest_invite_def by (auto split: list.splits)
  have "i \<in> set (i # xs)" by simp
  then show ?thesis unfolding x [symmetric] by simp
qed


lemma admit_fresh: "admit_member key akey role team actor now db = Inr db' \<Longrightarrow> key \<notin> tu_id ` set (td_users db)"
  by (rule admit_cases(1))

lemma oauth_registers:
  assumes run: "guarded_createUser mode allowed key akey profile now db = (r, db')"
    and ids: "map ac_id (mb_accounts db) = map tu_id (td_users (mb_team db))"
  shows "db' = db \<or> registers mode db db'"
proof (cases "db' = db")
  case False
  define email where "email = js_lower (js_trim (op_email profile))"
  define invitation where "invitation = newest_invite email now db"
  define user where "user = \<lparr>ac_id = key, ac_email = email, ac_name = op_name profile, ac_password = None, ac_image = op_image profile,
                  ac_verified = Some now\<rparr>"
  have admin: "hasAdminUser db" and run': "createOAuthMember mode allowed key akey profile now db = (r, db')"
    using run False unfolding guarded_createUser_def by (auto split: if_splits)
  then obtain team where c: "\<not> known_email email db" "invitation = None \<longrightarrow> mode = Verified_oauth"
      "admit_member key akey (case invitation of None \<Rightarrow> Role_member | Some i \<Rightarrow> iv_role i)
         (Option.bind invitation iv_team) (Option.bind invitation iv_creator) now (mb_team db) = Inr team"
      "db' = db\<lparr>mb_accounts := mb_accounts db @ [user],
         mb_invites := (case invitation of None \<Rightarrow> mb_invites db | Some i \<Rightarrow> consume_invite (iv_id i) now (mb_invites db)), mb_team := team\<rparr>"
    using False unfolding createOAuthMember_def Let_def email_def [symmetric] invitation_def [symmetric] user_def [symmetric]
    by (auto split: if_splits sum.splits)
  have "key \<notin> set (map tu_id (td_users (mb_team db)))" using admit_fresh [OF c(3)] by simp
  then have fresh: "key \<notin> ac_id ` set (mb_accounts db)" unfolding ids [symmetric] by simp
  have "new_account mode db user db'"
  proof (cases invitation)
    case None
    show ?thesis by (rule by_domain) (use c None admin in \<open>simp_all add: user_def\<close>)
  next
    case (Some i)
    then have i: "i \<in> set (mb_invites db)" "iv_email i = email" "pending_invite now i"
      using newest_invite_Some [of email now db i] by (simp_all add: invitation_def)
    show ?thesis by (rule by_invite [of i _ now _ _ akey]) (use c Some i in \<open>simp_all add: user_def\<close>)
  qed
  then have "registers mode db db'" by (intro registersI) (use c fresh in \<open>simp_all add: user_def\<close>)
  then show ?thesis by simp
qed simp

text \<open>The other steps keep the accounts, and of the invitations those that were accepted.\<close>

definition accepted_kept :: "invite list \<Rightarrow> invite list \<Rightarrow> bool" where
  "accepted_kept rows rows' \<longleftrightarrow>
     (\<forall>i \<in> set rows. iv_accepted i \<noteq> None \<longrightarrow> (\<exists>j \<in> set rows'. iv_email j = iv_email i \<and> iv_hash j = iv_hash i \<and> iv_accepted j \<noteq> None))"

definition invites_ok :: "invite list \<Rightarrow> bool" where
  "invites_ok rows \<longleftrightarrow> distinct (map iv_id rows) \<and> distinct (map iv_hash rows)"

lemma accepted_kept_refl: "accepted_kept rows rows"
  by (auto simp: accepted_kept_def)

lemma accepted_kept_map:
  assumes "\<And>i. iv_email (f i) = iv_email i \<and> iv_hash (f i) = iv_hash i \<and> (iv_accepted i \<noteq> None \<longrightarrow> iv_accepted (f i) \<noteq> None)"
  shows "accepted_kept rows (map f rows)"
  unfolding accepted_kept_def
proof (intro ballI impI)
  fix i assume i: "i \<in> set rows" "iv_accepted i \<noteq> None"
  then have "f i \<in> set (map f rows)" by simp
  then show "\<exists>j \<in> set (map f rows). iv_email j = iv_email i \<and> iv_hash j = iv_hash i \<and> iv_accepted j \<noteq> None"
    using assms [of i] i(2) by blast
qed

lemma consume_kept: "accepted_kept rows (consume_invite i now rows)"
  unfolding consume_invite_def by (rule accepted_kept_map) simp

lemma consume_ok: "invites_ok rows \<Longrightarrow> invites_ok (consume_invite i now rows)"
proof -
  have "map iv_id (consume_invite i now rows) = map iv_id rows" "map iv_hash (consume_invite i now rows) = map iv_hash rows"
    by (simp_all add: consume_invite_def)
  then show "invites_ok rows \<Longrightarrow> invites_ok (consume_invite i now rows)" by (simp add: invites_ok_def)
qed

lemma drop_team_kept: "accepted_kept rows (drop_team team rows)"
  unfolding drop_team_def by (rule accepted_kept_map) simp

lemma drop_team_ok: "invites_ok rows \<Longrightarrow> invites_ok (drop_team team rows)"
proof -
  have "map iv_id (drop_team team rows) = map iv_id rows" "map iv_hash (drop_team team rows) = map iv_hash rows"
    by (simp_all add: drop_team_def)
  then show "invites_ok rows \<Longrightarrow> invites_ok (drop_team team rows)" by (simp add: invites_ok_def)
qed

lemma createInvite_cases:
  assumes "createInvite digest key token email role team creator now db = (r, db')"
  shows "db' = db \<or> (mb_accounts db' = mb_accounts db \<and> mb_team db' = mb_team db \<and> mb_accounts db \<noteq> []
    \<and> accepted_kept (mb_invites db) (mb_invites db') \<and> (invites_ok (mb_invites db) \<longrightarrow> invites_ok (mb_invites db')))"
proof (cases "db' = db")
  case False
  define kept where "kept = filter (\<lambda>i. \<not> (iv_email i = email \<and> iv_accepted i = None)) (mb_invites db)"
  define new where "new = \<lparr>iv_id = key, iv_email = email, iv_hash = digest token, iv_role = role_of_text role, iv_team = Some team,
                    iv_creator = Some creator, iv_created = now, iv_expires = now + INVITE_TTL_MS, iv_accepted = None\<rparr>"
  have n: "\<not> (key \<in> iv_id ` set kept \<or> digest token \<in> iv_hash ` set kept \<or> creator \<notin> ac_id ` set (mb_accounts db))"
      "iv_id new = key" "iv_hash new = digest token" "db' = db\<lparr>mb_invites := kept @ [new]\<rparr>"
    using assms False unfolding createInvite_def Let_def kept_def [symmetric] new_def [symmetric]
    by (auto split: if_splits) (simp_all add: new_def)
  have "accepted_kept (mb_invites db) (kept @ [new])" by (auto simp: accepted_kept_def kept_def)
  moreover have "invites_ok (kept @ [new])" if "invites_ok (mb_invites db)"
    using that n(1-3) by (auto simp: invites_ok_def kept_def distinct_map_filter)
  ultimately show ?thesis using n(1) by (auto simp: n(4))
qed simp

lemma change_team_users:
  assumes "changeUserTeam inp db = (r, db')"
  shows "map tu_id (td_users db') = map tu_id (td_users db)" "map tu_role (td_users db') = map tu_role (td_users db)"
proof -
  have "td_users db' = td_users db \<or> (\<exists>now. td_users db' = map (\<lambda>v. if tu_id v = ti_user inp then moved_user inp now v else v) (td_users db))"
    using assms by (auto simp: changeUserTeam_def apply_team_change_def Let_def split: option.splits if_splits sum.splits)
  then show "map tu_id (td_users db') = map tu_id (td_users db)" "map tu_role (td_users db') = map tu_role (td_users db)"
    by (auto simp: moved_user_def)
qed

lemma admins_roles: "hasAdminUser db \<longleftrightarrow> Role_admin \<in> set (map tu_role (td_users (mb_team db)))"
  unfolding hasAdminUser_def list_ex_iff set_map image_iff by metis

lemma assign_role_cases:
  assumes "assignUserRole u role db = (r, db')" and ids: "distinct (map tu_id (td_users (mb_team db)))"
  shows "db' = db \<or> (\<exists>n. db' = db\<lparr>mb_team := set_role u n (mb_team db)\<rparr>)" "hasAdminUser db \<Longrightarrow> hasAdminUser db'"
proof -
  have c: "db' = db \<or> (\<exists>n row. db' = db\<lparr>mb_team := set_role u n (mb_team db)\<rparr> \<and> row \<in> set (td_users (mb_team db)) \<and> tu_id row = u
      \<and> \<not> (tu_role row = Role_admin \<and> n = Role_member \<and> length (admins db) \<le> 1))"
    using assms(1) unfolding assignUserRole_def admins_def by (simp split: option.splits if_splits) (use find_SomeD in fastforce)+
  then show "db' = db \<or> (\<exists>n. db' = db\<lparr>mb_team := set_role u n (mb_team db)\<rparr>)" by blast
  show "hasAdminUser db'" if admin: "hasAdminUser db"
    using c
  proof (elim disjE exE conjE)
    fix n row
    assume db': "db' = db\<lparr>mb_team := set_role u n (mb_team db)\<rparr>" and row: "row \<in> set (td_users (mb_team db))" "tu_id row = u"
      and guard: "\<not> (tu_role row = Role_admin \<and> n = Role_member \<and> length (admins db) \<le> 1)"
    have keep: "hasAdminUser db'" if "v \<in> set (td_users (mb_team db))" "tu_role v = Role_admin" "tu_id v = u \<longrightarrow> n = Role_admin" for v
    proof -
      have "(if tu_id v = u then v\<lparr>tu_role := n\<rparr> else v) \<in> set (td_users (mb_team db'))"
        unfolding db' set_role_def using that(1) by simp
      moreover have "tu_role (if tu_id v = u then v\<lparr>tu_role := n\<rparr> else v) = Role_admin" using that by simp
      ultimately show ?thesis unfolding hasAdminUser_def list_ex_iff by blast
    qed
    obtain v where v: "v \<in> set (td_users (mb_team db))" "tu_role v = Role_admin" using admin by (auto simp: hasAdminUser_def list_ex_iff)
    show ?thesis
    proof (cases "\<exists>w \<in> set (admins db). tu_id w \<noteq> u")
      case True
      then show ?thesis using keep by (auto simp: admins_def)
    next
      case False
      then have "set (map tu_id (admins db)) \<subseteq> {u}" by auto
      moreover have "distinct (map tu_id (admins db))" unfolding admins_def by (rule distinct_map_filter [OF ids])
      ultimately have "length (admins db) \<le> 1" using distinct_at_most_one [of "map tu_id (admins db)" u] by simp
      moreover have "tu_id v = u" using False v by (auto simp: admins_def)
      then have "v = row" using ids v(1) row by (auto simp: distinct_map inj_on_def)
      ultimately have "n \<noteq> Role_member" using guard v(2) by simp
      then show ?thesis using keep [OF v] by (cases n) simp_all
    qed
  qed (use admin in simp)
qed


section \<open>The invariant\<close>

definition account_inv :: "registration_mode \<Rightarrow> member_db \<Rightarrow> bool" where
  "account_inv mode db \<longleftrightarrow>
     distinct (map ac_email (mb_accounts db)) \<and> map ac_id (mb_accounts db) = map tu_id (td_users (mb_team db))
     \<and> team_reachable (mb_team db) \<and> (mb_accounts db \<noteq> [] \<longrightarrow> hasAdminUser db) \<and> invites_ok (mb_invites db)
     \<and> (mb_accounts db = [] \<longrightarrow> mb_invites db = [])
     \<and> (mode = Invite_only \<longrightarrow> (\<forall>a \<in> set (tl (mb_accounts db)). \<exists>i \<in> set (mb_invites db). iv_email i = ac_email a \<and> iv_accepted i \<noteq> None))"

lemma account_invD:
  assumes "account_inv mode db"
  shows "distinct (map ac_email (mb_accounts db))" "map ac_id (mb_accounts db) = map tu_id (td_users (mb_team db))"
    "team_reachable (mb_team db)" "mb_accounts db \<noteq> [] \<Longrightarrow> hasAdminUser db" "invites_ok (mb_invites db)"
    "mb_accounts db = [] \<Longrightarrow> mb_invites db = []"
    "mode = Invite_only \<Longrightarrow> a \<in> set (tl (mb_accounts db)) \<Longrightarrow> \<exists>i \<in> set (mb_invites db). iv_email i = ac_email a \<and> iv_accepted i \<noteq> None"
  using assms by (simp_all add: account_inv_def)

text \<open>A step that keeps the accounts.\<close>

lemma quiet_inv:
  assumes inv: "account_inv mode db" and same: "mb_accounts db' = mb_accounts db"
    and users: "map tu_id (td_users (mb_team db')) = map tu_id (td_users (mb_team db))"
    and team: "team_reachable (mb_team db')" and admin: "hasAdminUser db \<Longrightarrow> hasAdminUser db'"
    and kept: "accepted_kept (mb_invites db) (mb_invites db')" and ok: "invites_ok (mb_invites db')"
    and none: "mb_accounts db = [] \<Longrightarrow> mb_invites db' = []"
  shows "account_inv mode db'"
proof -
  have "\<exists>j \<in> set (mb_invites db'). iv_email j = ac_email a \<and> iv_accepted j \<noteq> None"
    if "mode = Invite_only" "a \<in> set (tl (mb_accounts db))" for a
    using account_invD(7) [OF inv that] kept unfolding accepted_kept_def by metis
  then show ?thesis using account_invD(1-4) [OF inv] team admin ok none unfolding account_inv_def same users by blast
qed

lemma bootstrap_team:
  assumes "team_reachable db" "key \<notin> tu_id ` set (td_users db)"
  shows "team_reachable (add_admin key db)"
  unfolding add_admin_def by (rule team_register [OF assms(1)]) (use assms(2) in simp_all)

lemma register_inv:
  assumes inv: "account_inv mode db" and reg: "registers mode db db'"
  shows "account_inv mode db'"
proof -
  obtain a where a: "mb_accounts db' = mb_accounts db @ [a]" "\<not> known_email (ac_email a) db" "ac_id a \<notin> ac_id ` set (mb_accounts db)"
    and new: "new_account mode db a db'" using reg unfolding registers_def by blast
  have "ac_id a \<notin> set (map ac_id (mb_accounts db))" using a(3) by simp
  then have fresh: "ac_id a \<notin> tu_id ` set (td_users (mb_team db))" unfolding account_invD(2) [OF inv] by simp
  have emails: "distinct (map ac_email (mb_accounts db'))" using account_invD(1) [OF inv] a(1,2) by (simp add: known_email_def)
  have admitted: "td_users (mb_team db') = td_users (mb_team db) @ [admitted_user (ac_id a) role team now]"
      "team_reachable (mb_team db')" if "admit_member (ac_id a) akey role team actor now (mb_team db) = Inr (mb_team db')" for akey role team actor now
    using admit_cases(2) [OF that] team_admit [OF account_invD(3) [OF inv] that] by simp_all
  have late: ?thesis if admin: "hasAdminUser db"
    and users: "\<exists>v. td_users (mb_team db') = td_users (mb_team db) @ [v] \<and> tu_id v = ac_id a" "team_reachable (mb_team db')"
    and kept: "accepted_kept (mb_invites db) (mb_invites db')" "invites_ok (mb_invites db')"
    and mine: "mode = Invite_only \<Longrightarrow> \<exists>i \<in> set (mb_invites db'). iv_email i = ac_email a \<and> iv_accepted i \<noteq> None"
  proof -
    obtain v where v: "td_users (mb_team db') = td_users (mb_team db) @ [v]" "tu_id v = ac_id a" using users(1) by blast
    have "td_users (mb_team db) \<noteq> []" using admin by (auto simp: hasAdminUser_def)
    then have "map ac_id (mb_accounts db) \<noteq> []" unfolding account_invD(2) [OF inv] by simp
    then have tl: "tl (mb_accounts db') = tl (mb_accounts db) @ [a]" unfolding a(1) by simp
    have old: "\<exists>j \<in> set (mb_invites db'). iv_email j = ac_email b \<and> iv_accepted j \<noteq> None"
      if "mode = Invite_only" "b \<in> set (tl (mb_accounts db))" for b
      using account_invD(7) [OF inv that] kept(1) unfolding accepted_kept_def by metis
    have "\<exists>j \<in> set (mb_invites db'). iv_email j = ac_email b \<and> iv_accepted j \<noteq> None"
      if "mode = Invite_only" "b \<in> set (tl (mb_accounts db'))" for b
      using that(2) mine [OF that(1)] old [OF that(1)] unfolding tl by auto
    moreover have "hasAdminUser db'" using admin v(1) by (simp add: hasAdminUser_def)
    moreover have "map ac_id (mb_accounts db') = map tu_id (td_users (mb_team db'))" using account_invD(2) [OF inv] a(1) v by simp
    moreover have "mb_accounts db' \<noteq> []" using a(1) by simp
    ultimately show ?thesis using emails users(2) kept(2) unfolding account_inv_def by blast
  qed
  from new show ?thesis
  proof cases
    case by_bootstrap
    then have none: "mb_accounts db = []" using account_invD(4) [OF inv] by blast
    have "td_users (mb_team db) = []" using account_invD(2) [OF inv] none by simp
    then have "hasAdminUser db'" "map ac_id (mb_accounts db') = map tu_id (td_users (mb_team db'))"
      using by_bootstrap(3) a(1) none by (simp_all add: hasAdminUser_def add_admin_def)
    moreover have "team_reachable (mb_team db')" unfolding by_bootstrap(3) by (rule bootstrap_team [OF account_invD(3) [OF inv] fresh])
    ultimately show ?thesis using emails account_invD(5,6) [OF inv] none a(1) by_bootstrap(2) by (simp add: account_inv_def)
  next
    case (by_invite i now akey)
    have "mb_accounts db \<noteq> []" using account_invD(6) [OF inv] by_invite(1) by auto
    then have admin: "hasAdminUser db" by (rule account_invD(4) [OF inv])
    have "i\<lparr>iv_accepted := Some now\<rparr> \<in> set (mb_invites db')"
      unfolding by_invite(4) consume_invite_def set_map using by_invite(1) by (intro image_eqI [of _ _ i]) simp_all
    then have mine: "\<exists>j \<in> set (mb_invites db'). iv_email j = ac_email a \<and> iv_accepted j \<noteq> None"
      using by_invite(3) by (intro bexI [of _ "i\<lparr>iv_accepted := Some now\<rparr>"]) simp_all
    show ?thesis
    proof (rule late [OF admin _ admitted(2) [OF by_invite(5)] _ _ mine])
      show "\<exists>v. td_users (mb_team db') = td_users (mb_team db) @ [v] \<and> tu_id v = ac_id a"
        using admitted(1) [OF by_invite(5)] by (simp add: admitted_user_def)
      show "accepted_kept (mb_invites db) (mb_invites db')" unfolding by_invite(4) by (rule consume_kept)
      show "invites_ok (mb_invites db')" unfolding by_invite(4) by (rule consume_ok [OF account_invD(5) [OF inv]])
    qed
  next
    case (by_domain akey now)
    show ?thesis
    proof (rule late [OF by_domain(2) _ admitted(2) [OF by_domain(4)]])
      show "\<exists>v. td_users (mb_team db') = td_users (mb_team db) @ [v] \<and> tu_id v = ac_id a"
        using admitted(1) [OF by_domain(4)] by (simp add: admitted_user_def)
      show "accepted_kept (mb_invites db) (mb_invites db')" unfolding by_domain(3) by (rule accepted_kept_refl)
      show "invites_ok (mb_invites db')" unfolding by_domain(3) by (rule account_invD(5) [OF inv])
    qed (use by_domain(1) in simp)
  qed
qed


lemma register_kept:
  assumes "registers mode db db'"
  shows "accepted_kept (mb_invites db) (mb_invites db')"
proof -
  obtain a where "new_account mode db a db'" using assms unfolding registers_def by blast
  then show ?thesis by cases (simp_all add: accepted_kept_refl consume_kept)
qed

lemma member_step_inv:
  assumes step: "member_step mode db db'" and inv: "account_inv mode db"
  shows "account_inv mode db' \<and> accepted_kept (mb_invites db) (mb_invites db')"
proof -
  note ids = account_invD(2) [OF inv] and team = account_invD(3) [OF inv] and ok = account_invD(5) [OF inv] and none = account_invD(6) [OF inv]
  have distinct: "distinct (map tu_id (td_users (mb_team db)))" using team_reachable_inv [OF team] by (simp add: team_inv_def)
  have reg: ?thesis if "db' = db \<or> registers mode db db'"
    using that inv register_inv [OF inv] register_kept accepted_kept_refl by blast
  have quiet: ?thesis if "mb_accounts db' = mb_accounts db" "mb_invites db' = mb_invites db"
      "map tu_id (td_users (mb_team db')) = map tu_id (td_users (mb_team db))" "team_reachable (mb_team db')" "hasAdminUser db \<Longrightarrow> hasAdminUser db'"
    using quiet_inv [OF inv that(1,3,4,5)] that(2) ok none accepted_kept_refl by simp
  from step show ?thesis
  proof cases
    case step_first_admin
    then show ?thesis by (rule reg [OF first_admin_cases])
  next
    case step_accept
    then show ?thesis by (rule reg [OF accept_registers])
  next
    case step_oauth
    then show ?thesis by (rule reg [OF oauth_registers [OF _ ids]])
  next
    case step_invite
    then show ?thesis
    proof (elim createInvite_cases [THEN disjE])
      assume c: "mb_accounts db' = mb_accounts db \<and> mb_team db' = mb_team db \<and> mb_accounts db \<noteq> []
        \<and> accepted_kept (mb_invites db) (mb_invites db') \<and> (invites_ok (mb_invites db) \<longrightarrow> invites_ok (mb_invites db'))"
      then have "account_inv mode db'" by (intro quiet_inv [OF inv]) (use team ok in \<open>auto simp: hasAdminUser_def\<close>)
      then show ?thesis using c by blast
    qed (use inv accepted_kept_refl in blast)
  next
    case (step_role u role r)
    note a = assign_role_cases [OF step_role distinct]
    show ?thesis
    proof (cases "db' = db")
      case False
      then obtain n where n: "db' = db\<lparr>mb_team := set_role u n (mb_team db)\<rparr>" using a(1) by blast
      show ?thesis
      proof (rule quiet)
        show "map tu_id (td_users (mb_team db')) = map tu_id (td_users (mb_team db))" by (simp add: n set_role_def)
        show "team_reachable (mb_team db')" using team_role_change [OF team] by (simp add: n)
      qed (use a(2) in \<open>simp_all add: n\<close>)
    qed (use inv accepted_kept_refl in blast)
  next
    case (step_change_team inp r t)
    note u = change_team_users [OF step_change_team(2)]
    show ?thesis
    proof (rule quiet)
      show "team_reachable (mb_team db')" using team_change [OF team step_change_team(2)] step_change_team(1) by simp
      show "hasAdminUser db \<Longrightarrow> hasAdminUser db'" unfolding admins_roles step_change_team(1) by (simp add: u(2) del: set_map)
    qed (simp_all add: step_change_team(1) u)
  next
    case (step_new_teams teams)
    show ?thesis by (rule quiet) (use team_teams [OF team] in \<open>simp_all add: step_new_teams hasAdminUser_def\<close>)
  next
    case (step_drop_team t)
    have "account_inv mode db'"
      by (rule quiet_inv [OF inv])
        (use team_teams [OF team] ok none in \<open>simp_all add: step_drop_team hasAdminUser_def drop_team_kept drop_team_ok, simp add: drop_team_def\<close>)
    then show ?thesis by (simp add: step_drop_team drop_team_kept)
  next
    case (step_team_jobs jobs fences)
    show ?thesis by (rule quiet) (use team_jobs [OF team] in \<open>simp_all add: step_team_jobs hasAdminUser_def\<close>)
  next
    case (step_link links)
    show ?thesis by (rule quiet) (use team in \<open>simp_all add: step_link hasAdminUser_def\<close>)
  qed
qed

lemma accepted_kept_trans: "accepted_kept a b \<Longrightarrow> accepted_kept b c \<Longrightarrow> accepted_kept a c"
  unfolding accepted_kept_def by metis

lemma member_run_inv:
  "member_run mode db db' \<Longrightarrow> account_inv mode db \<Longrightarrow> account_inv mode db' \<and> accepted_kept (mb_invites db) (mb_invites db')"
proof (induction rule: member_run.induct)
  case (member_next a b c)
  then have "account_inv mode b" "accepted_kept (mb_invites a) (mb_invites b)" by blast+
  then show ?case using member_step_inv [OF member_next.hyps(2)] accepted_kept_trans by blast
qed (simp add: accepted_kept_refl)

lemma member_reachable_inv: "member_reachable mode db \<Longrightarrow> account_inv mode db"
proof -
  assume r: "member_reachable mode db"
  have "team_reachable (mb_team fresh_installation)" unfolding fresh_installation_def by (simp add: team_start)
  then have "account_inv mode fresh_installation"
    by (simp add: account_inv_def fresh_installation_def invites_ok_def hasAdminUser_def)
  then show ?thesis using member_run_inv r unfolding member_reachable_def by blast
qed

section \<open>Admission\<close>

text \<open>C11: With registration by invitation every account but the first administrator's stands for an accepted
  invitation to its address, and no two accounts for the same one.\<close>

theorem accounts_need_invitation:
  assumes "member_reachable Invite_only db" "a \<in> set (mb_accounts db)"
  shows "a = hd (mb_accounts db)
    \<or> (\<exists>i \<in> set (mb_invites db). iv_accepted i \<noteq> None \<and> iv_email i = ac_email a
         \<and> (\<forall>b \<in> set (mb_accounts db). iv_email i = ac_email b \<longrightarrow> b = a))"
proof (cases "a = hd (mb_accounts db)")
  case False
  note inv = member_reachable_inv [OF assms(1)]
  have "a \<in> set (tl (mb_accounts db))" using assms(2) False by (cases "mb_accounts db") simp_all
  from account_invD(7) [OF inv refl this] obtain i where i: "i \<in> set (mb_invites db)" "iv_email i = ac_email a" "iv_accepted i \<noteq> None"
    by blast
  have "b = a" if "b \<in> set (mb_accounts db)" "iv_email i = ac_email b" for b
    using account_invD(1) [OF inv] that assms(2) i(2) by (auto simp: distinct_map inj_on_def)
  then show ?thesis using i by blast
qed simp

text \<open>C21: An installation that has an account has an administrator, whatever happens to the roles, and the first
  administrator cannot be created a second time.\<close>

theorem installation_keeps_an_admin:
  assumes "member_reachable mode db" "mb_accounts db \<noteq> []"
  shows "hasAdminUser db \<and> createFirstAdmin key email name password db = (Admin_exists, db)"
  using account_invD(4) [OF member_reachable_inv [OF assms(1)] assms(2)] by (simp add: createFirstAdmin_def)

lemma accepted_is_spent:
  assumes "account_inv mode db \<and> accepted_kept rows (mb_invites db)" "\<exists>i \<in> set rows. iv_hash i = digest token \<and> iv_accepted i \<noteq> None"
  shows "getValidInvite digest token now db = None"
proof -
  obtain j where j: "j \<in> set (mb_invites db)" "iv_hash j = digest token" "iv_accepted j \<noteq> None"
    using assms unfolding accepted_kept_def by metis
  have "distinct (map iv_hash (mb_invites db))" using account_invD(5) assms(1) by (auto simp: invites_ok_def)
  then have "k = j" if "k \<in> set (mb_invites db)" "iv_hash k = digest token" for k
    using that j(1,2) by (auto simp: distinct_map inj_on_def)
  then show ?thesis using j(3) by (auto simp: getValidInvite_def pending_invite_def find_None_iff)
qed

text \<open>C18: An invitation admits one member: the account of its address with its role, in its team from the moment of
  acceptance on. Whatever happens afterwards, its token is never accepted again.\<close>

theorem invitation_admits_one_member:
  assumes reach: "member_reachable mode db" and run: "acceptInvite digest key akey token name password now db = (Inr (Some email), db')"
    and later: "member_run mode db' db''"
  shows "(\<exists>i \<in> set (mb_invites db). iv_hash i = digest token \<and> iv_email i = email \<and> pending_invite now i
       \<and> (\<exists>a \<in> set (mb_accounts db'). ac_id a = key \<and> ac_email a = email)
       \<and> (\<exists>v \<in> set (td_users (mb_team db')). tu_id v = key \<and> tu_role v = iv_role i \<and> tu_team v = iv_team i)
       \<and> (\<forall>t. team_at (td_assignments (mb_team db')) key t = (if now \<le> t then iv_team i else None)))
    \<and> acceptInvite digest key' akey' token name' password' now' db'' = (Inr None, db'')"
proof -
  note inv = member_reachable_inv [OF reach]
  obtain i team where i: "getValidInvite digest token now db = Some i" "email = iv_email i"
      "admit_member key akey (iv_role i) (iv_team i) (iv_creator i) now (mb_team db) = Inr team"
      "db' = db\<lparr>mb_accounts := mb_accounts db @ [\<lparr>ac_id = key, ac_email = iv_email i, ac_name = (if name = [] then None else Some name),
                       ac_password = Some password, ac_image = None, ac_verified = None\<rparr>],
                    mb_invites := consume_invite (iv_id i) now (mb_invites db), mb_team := team\<rparr>"
    using accept_cases [OF run] by auto
  have mem: "i \<in> set (mb_invites db)" "iv_hash i = digest token" "pending_invite now i"
    using find_SomeD [of _ "mb_invites db" i] i(1) by (auto simp: getValidInvite_def)
  note admit = admit_cases [OF i(3)]
  have t_inv: "team_inv (mb_team db)" by (rule team_reachable_inv [OF account_invD(3) [OF inv]])
  have user: "\<exists>v \<in> set (td_users (mb_team db')). tu_id v = key \<and> tu_role v = iv_role i \<and> tu_team v = iv_team i"
    by (simp add: i(4) admit(2) admitted_user_def)
  have history: "team_at (td_assignments (mb_team db')) key t = (if now \<le> t then iv_team i else None)" for t
    using admitted_history [OF t_inv i(3)] by (simp add: i(4))
  have "i\<lparr>iv_accepted := Some now\<rparr> \<in> set (consume_invite (iv_id i) now (mb_invites db))"
    unfolding consume_invite_def set_map using mem(1) by (intro image_eqI [of _ _ i]) simp_all
  then have used: "\<exists>j \<in> set (mb_invites db'). iv_hash j = digest token \<and> iv_accepted j \<noteq> None"
    using mem(2) by (intro bexI [of _ "i\<lparr>iv_accepted := Some now\<rparr>"]) (simp_all add: i(4))
  have "account_inv mode db'" using member_step_inv [OF step_accept [OF run] inv] by blast
  from accepted_is_spent [of mode db'' "mb_invites db'" digest token now', OF member_run_inv [OF later this] used]
  have "acceptInvite digest key' akey' token name' password' now' db'' = (Inr None, db'')" by (simp add: acceptInvite_def)
  then show ?thesis using mem user history i(2) by (auto simp: i(4))
qed


section \<open>An example\<close>

definition first_db :: member_db where "first_db = snd (createFirstAdmin ''a'' ''a@x.io'' ''A'' None fresh_installation)"
definition teams_db :: member_db where "teams_db = first_db\<lparr>mb_team := (mb_team first_db)\<lparr>td_teams := [''t'']\<rparr>\<rparr>"
definition invited_db :: member_db where
  "invited_db = snd (createInvite (\<lambda>s. s) ''i'' ''k'' ''b@x.io'' ''member'' ''t'' ''a'' 100 teams_db)"
definition accepted_db :: member_db where
  "accepted_db = snd (acceptInvite (\<lambda>s. s) ''b'' ''s'' ''k'' ''B'' ''p'' 200 invited_db)"

lemma invited_reachable: "member_reachable Invite_only invited_db"
proof -
  have "member_run Invite_only fresh_installation first_db"
    unfolding first_db_def by (rule member_next [OF member_stop step_first_admin]) (rule prod.collapse [symmetric])
  then have "member_run Invite_only fresh_installation teams_db"
    unfolding teams_db_def by (rule member_next [OF _ step_new_teams])
  then have "member_run Invite_only fresh_installation invited_db"
    unfolding invited_db_def by (rule member_next [OF _ step_invite]) (rule prod.collapse [symmetric])
  then show ?thesis by (simp add: member_reachable_def)
qed

lemma accepted_reachable: "member_reachable Invite_only accepted_db"
proof -
  have "member_step Invite_only invited_db accepted_db"
    unfolding accepted_db_def by (rule step_accept) (rule prod.collapse [symmetric])
  then show ?thesis using member_next invited_reachable unfolding member_reachable_def by blast
qed

lemma accounts_need_invitation_witness:
  "\<exists>a b i. mb_accounts accepted_db = [a, b] \<and> a \<noteq> b \<and> i \<in> set (mb_invites accepted_db) \<and> iv_accepted i \<noteq> None \<and> iv_email i = ac_email b"
proof -
  have ex: "case mb_accounts accepted_db of [a, b] \<Rightarrow> ac_id a \<noteq> ac_id b | _ \<Rightarrow> False" by code_simp
  then obtain a b where ab: "mb_accounts accepted_db = [a, b]" "ac_id a \<noteq> ac_id b" by (auto split: list.splits)
  from accounts_need_invitation [OF accepted_reachable, of b] ab show ?thesis by auto
qed

lemma installation_keeps_an_admin_witness:
  "hasAdminUser accepted_db \<and> createFirstAdmin ''c'' ''c@x.io'' ''C'' None accepted_db = (Admin_exists, accepted_db)"
proof -
  have "length (mb_accounts accepted_db) = 2" by code_simp
  then have "mb_accounts accepted_db \<noteq> []" by auto
  then show ?thesis by (rule installation_keeps_an_admin [OF accepted_reachable])
qed

lemma invitation_admits_one_member_witness:
  "acceptInvite (\<lambda>s. s) ''b'' ''s'' ''k'' ''B'' ''p'' 200 invited_db = (Inr (Some ''b@x.io''), accepted_db)
     \<and> acceptInvite (\<lambda>s. s) ''c'' ''s2'' ''k'' ''C'' ''p'' 300 accepted_db = (Inr None, accepted_db)"
proof -
  have "case fst (acceptInvite (\<lambda>s. s) ''b'' ''s'' ''k'' ''B'' ''p'' 200 invited_db) of
      Inr (Some email) \<Rightarrow> email = ''b@x.io'' | _ \<Rightarrow> False" by code_simp
  then have "fst (acceptInvite (\<lambda>s. s) ''b'' ''s'' ''k'' ''B'' ''p'' 200 invited_db) = Inr (Some ''b@x.io'')"
    by (auto split: sum.splits option.splits)
  then have r: "acceptInvite (\<lambda>s. s) ''b'' ''s'' ''k'' ''B'' ''p'' 200 invited_db = (Inr (Some ''b@x.io''), accepted_db)"
    unfolding accepted_db_def by (metis prod.collapse)
  from invitation_admits_one_member [OF invited_reachable r member_stop] r show ?thesis by blast
qed

end
