(* ===== verification/Mfa.thy ===== *)
theory Mfa
  imports Js_Value
begin

text \<open>
  \<open>apps/web/lib/mfa-store.ts\<close>, \<open>mfa.ts\<close> and \<open>history-mfa.ts\<close>: passkeys, the policies that require them,
  the challenges of a ceremony, and the signed token that opens the prompt history for a while. An
  operation of the store is a statement or a transaction on three tables of migration
  \<open>1700000048_user_mfa.sql\<close>; a transaction locks the row of the settings before it counts passkeys, so it is
  atomic here. The verification of WebAuthn responses is a function of the challenge it expects; the
  encoding of tokens and their signature are parameters (\<open>token_codec\<close>). The version of the settings
  stays within 32 bits. The status of a user is read by two queries; the operations take it from one state.
\<close>

section \<open>Tables\<close>

datatype passkey_purpose = For_registration | For_login | For_history | For_settings
datatype device_kind = Single_device | Multi_device

record passkey =
  pk_id :: string
  pk_user :: string
  pk_key :: string
  pk_counter :: int
  pk_transports :: "string list"
  pk_device :: device_kind
  pk_backedUp :: bool
  pk_label :: string
  pk_created :: instant
  pk_lastUsed :: "instant option"

record mfa_settings =
  ms_user :: string
  ms_login :: bool
  ms_history :: bool
  ms_version :: int

record passkey_challenge =
  ch_id :: string
  ch_user :: string
  ch_purpose :: passkey_purpose
  ch_text :: string
  ch_expires :: instant

record mfa_db =
  md_passkeys :: "passkey list"
  md_settings :: "mfa_settings list"
  md_challenges :: "passkey_challenge list"

datatype mfa_error =
    PASSKEY_VERIFICATION_FAILED | PASSKEY_NOT_ENROLLED | PASSKEY_LAST_PROTECTED | PASSKEY_NOT_FOUND
  | PASSKEY_CHALLENGE_EXPIRED | Mfa_constraint

section \<open>Reading\<close>

record mfa_status =
  st_enrolled :: bool
  st_login :: bool
  st_history :: bool
  st_version :: int
  st_passkeys :: "passkey list"

definition settings_of :: "string \<Rightarrow> mfa_db \<Rightarrow> mfa_settings option" where
  "settings_of u db = find (\<lambda>s. ms_user s = u) (md_settings db)"

definition loadCredentials :: "string \<Rightarrow> mfa_db \<Rightarrow> passkey list" where
  "loadCredentials u db = filter (\<lambda>k. pk_user k = u) (md_passkeys db)"

text \<open>
  The two queries of a status are issued together on the pool, so that other transactions may commit
  between them: \<open>readMfaStatus\<close> reads the settings in one state and the passkeys in another. A status
  without a commit between its queries is \<open>getMfaStatus\<close>, which the operations below use.
\<close>

definition readMfaStatus :: "string \<Rightarrow> mfa_db \<Rightarrow> mfa_db \<Rightarrow> mfa_status" where
  "readMfaStatus u settings_db passkeys_db =
     (let row = settings_of u settings_db;
          keys = js_sort (\<lambda>l r. pk_created l - pk_created r) (loadCredentials u passkeys_db)
      in \<lparr>st_enrolled = (keys \<noteq> []),
          st_login = (keys \<noteq> [] \<and> (case row of None \<Rightarrow> False | Some s \<Rightarrow> ms_login s)),
          st_history = (keys \<noteq> [] \<and> (case row of None \<Rightarrow> False | Some s \<Rightarrow> ms_history s)),
          st_version = (case row of None \<Rightarrow> 0 | Some s \<Rightarrow> ms_version s),
          st_passkeys = keys\<rparr>)"

definition getMfaStatus :: "string \<Rightarrow> mfa_db \<Rightarrow> mfa_status" where
  "getMfaStatus u db = readMfaStatus u db db"

text \<open>Where only one of the two tables changed between the queries, the status is that of one of the states.\<close>

lemma readMfaStatus_one_state:
  "loadCredentials u d2 = loadCredentials u d1 \<Longrightarrow> readMfaStatus u d1 d2 = getMfaStatus u d1"
  "settings_of u d2 = settings_of u d1 \<Longrightarrow> readMfaStatus u d1 d2 = getMfaStatus u d2"
  by (simp_all add: getMfaStatus_def readMfaStatus_def)

definition isCredentialMfaRequired :: "string \<Rightarrow> mfa_db \<Rightarrow> bool" where
  "isCredentialMfaRequired u db =
     (case settings_of u db of None \<Rightarrow> False | Some s \<Rightarrow> ms_login s \<and> loadCredentials u db \<noteq> [])"

section \<open>Challenges\<close>

definition CHALLENGE_TTL_MS :: int where "CHALLENGE_TTL_MS = 5 * 60 * 1000"

definition saveChallenge ::
  "string \<Rightarrow> string \<Rightarrow> passkey_purpose \<Rightarrow> string \<Rightarrow> instant \<Rightarrow> mfa_db \<Rightarrow> (mfa_error + string) \<times> mfa_db" where
  "saveChallenge key u purpose challenge now db =
     (if key \<in> ch_id ` set (md_challenges db) then (Inl Mfa_constraint, db)
      else (Inr key, db\<lparr>md_challenges := md_challenges db @
             [\<lparr>ch_id = key, ch_user = u, ch_purpose = purpose, ch_text = challenge, ch_expires = now + CHALLENGE_TTL_MS\<rparr>]\<rparr>))"

definition takeable :: "string \<Rightarrow> string \<Rightarrow> passkey_purpose \<Rightarrow> instant \<Rightarrow> passkey_challenge \<Rightarrow> bool" where
  "takeable u i purpose now c \<longleftrightarrow> ch_id c = i \<and> ch_user c = u \<and> ch_purpose c = purpose \<and> now < ch_expires c"

definition takeChallenge ::
  "string \<Rightarrow> string \<Rightarrow> passkey_purpose \<Rightarrow> instant \<Rightarrow> mfa_db \<Rightarrow> (mfa_error + string) \<times> mfa_db" where
  "takeChallenge u i purpose now db =
     (case find (takeable u i purpose now) (md_challenges db) of
        None \<Rightarrow> (Inl PASSKEY_CHALLENGE_EXPIRED, db)
      | Some c \<Rightarrow> (Inr (ch_text c), db\<lparr>md_challenges := filter (\<lambda>c. \<not> takeable u i purpose now c) (md_challenges db)\<rparr>))"

text \<open>The options of a ceremony are the library's; of the store they hold the ids of the credentials.\<close>

definition beginPasskeyRegistration ::
  "string \<Rightarrow> string \<Rightarrow> string \<Rightarrow> instant \<Rightarrow> mfa_db \<Rightarrow> (mfa_error + string \<times> string list) \<times> mfa_db" where
  "beginPasskeyRegistration key challenge u now db =
     (case saveChallenge key u For_registration challenge now db of
        (Inl e, db') \<Rightarrow> (Inl e, db') | (Inr i, db') \<Rightarrow> (Inr (i, map pk_id (loadCredentials u db)), db'))"

definition beginPasskeyAuthentication ::
  "string \<Rightarrow> string \<Rightarrow> string \<Rightarrow> passkey_purpose \<Rightarrow> instant \<Rightarrow> mfa_db \<Rightarrow> (mfa_error + string \<times> string list) \<times> mfa_db" where
  "beginPasskeyAuthentication key challenge u purpose now db =
     (if loadCredentials u db = [] then (Inl PASSKEY_NOT_ENROLLED, db)
      else (case saveChallenge key u purpose challenge now db of
        (Inl e, db') \<Rightarrow> (Inl e, db') | (Inr i, db') \<Rightarrow> (Inr (i, map pk_id (loadCredentials u db)), db')))"

section \<open>Registration\<close>

record registration_info =
  ri_id :: string
  ri_key :: string
  ri_counter :: int
  ri_transports :: "string list"
  ri_device :: device_kind
  ri_backedUp :: bool

definition passkey_label :: "string \<Rightarrow> string" where
  "passkey_label l = (let s = take 80 (js_trim l) in if s = [] then ''Passkey'' else s)"

definition bump_version :: "string \<Rightarrow> mfa_settings list \<Rightarrow> mfa_settings list" where
  "bump_version u rows = map (\<lambda>s. if ms_user s = u then s\<lparr>ms_version := ms_version s + 1\<rparr> else s) rows"

definition default_settings :: "string \<Rightarrow> mfa_settings" where
  "default_settings u = \<lparr>ms_user = u, ms_login = False, ms_history = False, ms_version = 1\<rparr>"

text \<open>The transaction that stores a verified passkey.\<close>

definition store_passkey :: "string \<Rightarrow> string \<Rightarrow> registration_info \<Rightarrow> instant \<Rightarrow> mfa_db \<Rightarrow> (mfa_error + unit) \<times> mfa_db" where
  "store_passkey u label info now db =
     (if ri_id info \<in> pk_id ` set (md_passkeys db) \<or> ri_counter info < 0 then (Inl Mfa_constraint, db)
      else (Inr (), db\<lparr>md_passkeys := md_passkeys db @
             [\<lparr>pk_id = ri_id info, pk_user = u, pk_key = ri_key info, pk_counter = ri_counter info,
               pk_transports = ri_transports info, pk_device = ri_device info, pk_backedUp = ri_backedUp info,
               pk_label = passkey_label label, pk_created = now, pk_lastUsed = None\<rparr>],
           md_settings := (if settings_of u db = None then md_settings db @ [default_settings u]
                           else bump_version u (md_settings db))\<rparr>))"

definition finishPasskeyRegistration ::
  "(string \<Rightarrow> registration_info option) \<Rightarrow> string \<Rightarrow> string \<Rightarrow> string \<Rightarrow> instant \<Rightarrow> mfa_db \<Rightarrow> (mfa_error + mfa_status) \<times> mfa_db" where
  "finishPasskeyRegistration verify u i label now db =
     (case takeChallenge u i For_registration now db of
        (Inl e, db1) \<Rightarrow> (Inl e, db1)
      | (Inr challenge, db1) \<Rightarrow>
          (case verify challenge of
             None \<Rightarrow> (Inl PASSKEY_VERIFICATION_FAILED, db1)
           | Some info \<Rightarrow>
               (case store_passkey u label info now db1 of
                  (Inl e, db2) \<Rightarrow> (Inl e, db2) | (Inr x, db2) \<Rightarrow> (Inr (getMfaStatus u db2), db2))))"

section \<open>Authentication\<close>

record authentication_info =
  ai_counter :: int
  ai_device :: device_kind
  ai_backedUp :: bool

definition mark_used :: "string \<Rightarrow> string \<Rightarrow> authentication_info \<Rightarrow> instant \<Rightarrow> passkey \<Rightarrow> passkey" where
  "mark_used u credential info now k =
     (if pk_id k = credential \<and> pk_user k = u
      then k\<lparr>pk_counter := ai_counter info, pk_device := ai_device info, pk_backedUp := ai_backedUp info, pk_lastUsed := Some now\<rparr>
      else k)"

definition store_authentication :: "string \<Rightarrow> string \<Rightarrow> authentication_info \<Rightarrow> instant \<Rightarrow> mfa_db \<Rightarrow> (mfa_error + unit) \<times> mfa_db" where
  "store_authentication u credential info now db =
     (if ai_counter info < 0 \<and> (\<exists>k \<in> set (md_passkeys db). pk_id k = credential \<and> pk_user k = u) then (Inl Mfa_constraint, db)
      else (Inr (), db\<lparr>md_passkeys := map (mark_used u credential info now) (md_passkeys db)\<rparr>))"

definition finishPasskeyAuthentication ::
  "(string \<Rightarrow> passkey \<Rightarrow> authentication_info option) \<Rightarrow> string \<Rightarrow> string \<Rightarrow> passkey_purpose \<Rightarrow> string \<Rightarrow> instant \<Rightarrow> mfa_db \<Rightarrow>
     (mfa_error + mfa_status) \<times> mfa_db" where
  "finishPasskeyAuthentication verify u i purpose credential now db =
     (case takeChallenge u i purpose now db of
        (Inl e, db1) \<Rightarrow> (Inl e, db1)
      | (Inr challenge, db1) \<Rightarrow>
          (case find (\<lambda>k. pk_id k = credential \<and> pk_user k = u) (md_passkeys db1) of
             None \<Rightarrow> (Inl PASSKEY_VERIFICATION_FAILED, db1)
           | Some k \<Rightarrow>
               (case verify challenge k of
                  None \<Rightarrow> (Inl PASSKEY_VERIFICATION_FAILED, db1)
                | Some info \<Rightarrow>
                    (case store_authentication u credential info now db1 of
                       (Inl e, db2) \<Rightarrow> (Inl e, db2) | (Inr x, db2) \<Rightarrow> (Inr (getMfaStatus u db2), db2)))))"

section \<open>Policies\<close>

definition set_policies :: "string \<Rightarrow> bool \<Rightarrow> bool \<Rightarrow> mfa_settings \<Rightarrow> mfa_settings" where
  "set_policies u login history s =
     (if ms_user s = u then s\<lparr>ms_login := login, ms_history := history, ms_version := ms_version s + 1\<rparr> else s)"

definition updateMfaPolicies :: "string \<Rightarrow> bool \<Rightarrow> bool \<Rightarrow> mfa_db \<Rightarrow> (mfa_error + mfa_status) \<times> mfa_db" where
  "updateMfaPolicies u login history db =
     (let rows = (if settings_of u db = None then md_settings db @ [default_settings u] else md_settings db)
      in if (login \<or> history) \<and> loadCredentials u db = [] then (Inl PASSKEY_NOT_ENROLLED, db)
         else (let db' = db\<lparr>md_settings := map (set_policies u login history) rows\<rparr>
               in (Inr (getMfaStatus u db'), db')))"

definition deletePasskey :: "string \<Rightarrow> string \<Rightarrow> mfa_db \<Rightarrow> (mfa_error + mfa_status) \<times> mfa_db" where
  "deletePasskey u credential db =
     (if length (loadCredentials u db) \<le> 1
         \<and> (case settings_of u db of None \<Rightarrow> False | Some s \<Rightarrow> ms_login s \<or> ms_history s)
      then (Inl PASSKEY_LAST_PROTECTED, db)
      else if \<not> list_ex (\<lambda>k. pk_user k = u \<and> pk_id k = credential) (md_passkeys db) then (Inl PASSKEY_NOT_FOUND, db)
      else (let db' = db\<lparr>md_passkeys := filter (\<lambda>k. \<not> (pk_user k = u \<and> pk_id k = credential)) (md_passkeys db),
                         md_settings := bump_version u (md_settings db)\<rparr>
            in (Inr (getMfaStatus u db'), db')))"

section \<open>Signed tokens\<close>

datatype token_purpose = Credential_challenge | Credential_ticket | History_access

fun purpose_text :: "token_purpose \<Rightarrow> string" where
  "purpose_text Credential_challenge = ''credential-challenge''"
| "purpose_text Credential_ticket = ''credential-ticket''"
| "purpose_text History_access = ''history-access''"

text \<open>\<open>JSON.stringify\<close> and base64url, their inverse, and the HMAC under the server's secret in base64url.\<close>

record token_codec =
  tk_encode :: "jsvalue \<Rightarrow> string"
  tk_decode :: "string \<Rightarrow> jsvalue option"
  tk_sign :: "string \<Rightarrow> string"

record token_input =
  tn_purpose :: token_purpose
  tn_user :: string
  tn_expires :: instant
  tn_nonce :: string
  tn_version :: "int option"

definition token_json :: "token_input \<Rightarrow> jsvalue" where
  "token_json t =
     JObj ([(''version'', JNum (num_of_int 1)), (''purpose'', JStr (purpose_text (tn_purpose t))), (''userId'', JStr (tn_user t)),
            (''expiresAt'', JNum (num_of_int (tn_expires t))), (''nonce'', JStr (tn_nonce t))]
           @ (case tn_version t of None \<Rightarrow> [] | Some v \<Rightarrow> [(''mfaVersion'', JNum (num_of_int v))]))"

definition createSignedMfaToken :: "token_codec \<Rightarrow> token_input \<Rightarrow> string" where
  "createSignedMfaToken codec t =
     (let encoded = tk_encode codec (token_json t) in encoded @ ''.'' @ tk_sign codec encoded)"

record token_payload =
  tp_user :: string
  tp_expires :: jsnum
  tp_nonce :: string
  tp_version :: "jsnum option"

definition json_field :: "jsvalue \<Rightarrow> string \<Rightarrow> jsvalue" where
  "json_field v k = (case v of JObj ps \<Rightarrow> js_get ps k | _ \<Rightarrow> JUndef)"

definition nonempty_text :: "jsvalue \<Rightarrow> string option" where
  "nonempty_text v = (case v of JStr s \<Rightarrow> if s = [] then None else Some s | _ \<Rightarrow> None)"

text \<open>The checks of the fields; a value that is not an object has no version.\<close>

definition check_payload :: "token_purpose \<Rightarrow> instant \<Rightarrow> jsvalue \<Rightarrow> token_payload option" where
  "check_payload purpose now v =
     (case (json_field v ''version'', json_field v ''purpose'', json_field v ''expiresAt'',
            nonempty_text (json_field v ''userId''), nonempty_text (json_field v ''nonce'')) of
        (JNum ver, JStr p, JNum t, Some u, Some n) \<Rightarrow>
          if num_eq ver (num_of_int 1) \<and> p = purpose_text purpose \<and> \<not> num_le t (num_of_int now)
          then (case json_field v ''mfaVersion'' of
                  JUndef \<Rightarrow> Some \<lparr>tp_user = u, tp_expires = t, tp_nonce = n, tp_version = None\<rparr>
                | JNum m \<Rightarrow> if num_is_integer m \<and> \<not> num_lt m (num_of_int 1)
                    then Some \<lparr>tp_user = u, tp_expires = t, tp_nonce = n, tp_version = Some m\<rparr> else None
                | _ \<Rightarrow> None)
          else None
      | _ \<Rightarrow> None)"

definition verifySignedMfaToken :: "token_codec \<Rightarrow> string \<Rightarrow> token_purpose \<Rightarrow> instant \<Rightarrow> token_payload option" where
  "verifySignedMfaToken codec token purpose now =
     (case split_on CHR ''.'' token of
        [encoded, signature] \<Rightarrow>
          if encoded = [] \<or> signature = [] then None
          else if tk_sign codec encoded \<noteq> signature then None
          else Option.bind (tk_decode codec encoded) (check_payload purpose now)
      | _ \<Rightarrow> None)"

section \<open>The gate of the history\<close>

definition HISTORY_MFA_TTL_SECONDS :: int where "HISTORY_MFA_TTL_SECONDS = 30 * 60"

definition isHistoryMfaTokenValid ::
  "token_codec \<Rightarrow> string option \<Rightarrow> string \<Rightarrow> mfa_status \<Rightarrow> string option \<Rightarrow> instant \<Rightarrow> bool" where
  "isHistoryMfaTokenValid codec token u status session now =
     (if \<not> st_enrolled status \<or> \<not> st_history status then True
      else (case (token, session) of
              (Some t, Some s) \<Rightarrow>
                if t = [] \<or> s = [] then False
                else (case verifySignedMfaToken codec t History_access now of
                        None \<Rightarrow> False
                      | Some p \<Rightarrow> tp_user p = u \<and> tp_version p = Some (num_of_int (st_version status)) \<and> tp_nonce p = s)
            | _ \<Rightarrow> False))"

record history_gate =
  hg_required :: bool
  hg_verified :: bool

definition getHistoryMfaGate :: "token_codec \<Rightarrow> string option \<Rightarrow> string \<Rightarrow> string option \<Rightarrow> instant \<Rightarrow> mfa_db \<Rightarrow> history_gate" where
  "getHistoryMfaGate codec cookie u session now db =
     (let status = getMfaStatus u db
      in if st_enrolled status \<and> st_history status
         then \<lparr>hg_required = True, hg_verified = isHistoryMfaTokenValid codec cookie u status session now\<rparr>
         else \<lparr>hg_required = False, hg_verified = True\<rparr>)"

text \<open>The token in the cookie.\<close>

definition grantHistoryMfaAccess :: "token_codec \<Rightarrow> string \<Rightarrow> int \<Rightarrow> string \<Rightarrow> instant \<Rightarrow> string" where
  "grantHistoryMfaAccess codec u version session now =
     createSignedMfaToken codec \<lparr>tn_purpose = History_access, tn_user = u, tn_expires = now + HISTORY_MFA_TTL_SECONDS * 1000,
       tn_nonce = session, tn_version = Some version\<rparr>"

section \<open>The actions of the settings and history pages\<close>

text \<open>The answer and the new cookie: a token, or cleared.\<close>

definition renew_grant :: "token_codec \<Rightarrow> string \<Rightarrow> string option \<Rightarrow> instant \<Rightarrow> mfa_status \<Rightarrow> string option" where
  "renew_grant codec u session now status =
     (case session of
        Some s \<Rightarrow> if st_history status \<and> s \<noteq> [] then Some (grantHistoryMfaAccess codec u (st_version status) s now) else None
      | None \<Rightarrow> None)"

definition completePasskeyPolicyAction ::
  "token_codec \<Rightarrow> (string \<Rightarrow> passkey \<Rightarrow> authentication_info option) \<Rightarrow> string \<Rightarrow> string option \<Rightarrow> string \<Rightarrow> string \<Rightarrow> bool \<Rightarrow> bool \<Rightarrow> instant \<Rightarrow> mfa_db \<Rightarrow>
     (mfa_error + mfa_status \<times> string option) \<times> mfa_db" where
  "completePasskeyPolicyAction codec verify u session i credential login history now db =
     (case finishPasskeyAuthentication verify u i For_settings credential now db of
        (Inl e, db1) \<Rightarrow> (Inl e, db1)
      | (Inr x, db1) \<Rightarrow>
          (case updateMfaPolicies u login history db1 of
             (Inl e, db2) \<Rightarrow> (Inl e, db2)
           | (Inr status, db2) \<Rightarrow> (Inr (status, renew_grant codec u session now status), db2)))"

definition completeDeletePasskeyAction ::
  "token_codec \<Rightarrow> (string \<Rightarrow> passkey \<Rightarrow> authentication_info option) \<Rightarrow> string \<Rightarrow> string option \<Rightarrow> string \<Rightarrow> string \<Rightarrow> string \<Rightarrow> instant \<Rightarrow> mfa_db \<Rightarrow>
     (mfa_error + mfa_status \<times> string option) \<times> mfa_db" where
  "completeDeletePasskeyAction codec verify u session i credential removed now db =
     (case finishPasskeyAuthentication verify u i For_settings credential now db of
        (Inl e, db1) \<Rightarrow> (Inl e, db1)
      | (Inr x, db1) \<Rightarrow>
          (case deletePasskey u removed db1 of
             (Inl e, db2) \<Rightarrow> (Inl e, db2)
           | (Inr status, db2) \<Rightarrow> (Inr (status, renew_grant codec u session now status), db2)))"

text \<open>The new cookie, if the history is protected.\<close>

definition completeHistoryPasskeyAction ::
  "token_codec \<Rightarrow> (string \<Rightarrow> passkey \<Rightarrow> authentication_info option) \<Rightarrow> string \<Rightarrow> string \<Rightarrow> string \<Rightarrow> string \<Rightarrow> instant \<Rightarrow> mfa_db \<Rightarrow>
     (mfa_error + string option) \<times> mfa_db" where
  "completeHistoryPasskeyAction codec verify u session i credential now db =
     (case finishPasskeyAuthentication verify u i For_history credential now db of
        (Inl e, db1) \<Rightarrow> (Inl e, db1)
      | (Inr status, db1) \<Rightarrow>
          (Inr (if st_history status then Some (grantHistoryMfaAccess codec u (st_version status) session now) else None), db1))"

end
