(* ===== verification/Mfa_Proofs.thy ===== *)
theory Mfa_Proofs
  imports Mfa
begin

text \<open>
  The store as a machine whose steps are its statements and transactions, so that the operations of
  several sessions may interleave. A policy never outlives the last passkey, a challenge serves once, and
  a version stands for one policy and one set of passkeys, which makes a grant end when they change.
\<close>

section \<open>Steps and runs\<close>

datatype mfa_event = Issues string | Closes string | Proceeds

definition close_account :: "string \<Rightarrow> mfa_db \<Rightarrow> mfa_db" where
  "close_account u db =
     \<lparr>md_passkeys = filter (\<lambda>k. pk_user k \<noteq> u) (md_passkeys db), md_settings = filter (\<lambda>s. ms_user s \<noteq> u) (md_settings db),
      md_challenges = filter (\<lambda>c. ch_user c \<noteq> u) (md_challenges db)\<rparr>"

inductive mfa_step :: "mfa_event \<Rightarrow> mfa_db \<Rightarrow> mfa_db \<Rightarrow> bool" where
  step_issue: "saveChallenge i u p challenge now db = (r, db') \<Longrightarrow> mfa_step (Issues i) db db'"
| step_take: "takeChallenge u i p now db = (r, db') \<Longrightarrow> mfa_step Proceeds db db'"
| step_register: "store_passkey u label info now db = (r, db') \<Longrightarrow> mfa_step Proceeds db db'"
| step_authenticate: "store_authentication u credential auth now db = (r, db') \<Longrightarrow> mfa_step Proceeds db db'"
| step_policies: "updateMfaPolicies u login history db = (r, db') \<Longrightarrow> mfa_step Proceeds db db'"
| step_delete: "deletePasskey u credential db = (r, db') \<Longrightarrow> mfa_step Proceeds db db'"
| step_close: "mfa_step (Closes u) db (close_account u db)"

text \<open>Runs without the events of a set.\<close>

inductive mfa_run :: "mfa_event set \<Rightarrow> mfa_db \<Rightarrow> mfa_db \<Rightarrow> bool" for E where
  run_stop: "mfa_run E db db"
| run_step: "mfa_run E a b \<Longrightarrow> mfa_step e b c \<Longrightarrow> e \<notin> E \<Longrightarrow> mfa_run E a c"

definition mfa_reachable :: "mfa_db \<Rightarrow> bool" where
  "mfa_reachable db \<longleftrightarrow> mfa_run {} \<lparr>md_passkeys = [], md_settings = [], md_challenges = []\<rparr> db"

lemma mfa_reachable_run: "mfa_run E db db' \<Longrightarrow> mfa_reachable db \<Longrightarrow> mfa_reachable db'"
  unfolding mfa_reachable_def by (induction rule: mfa_run.induct) (auto intro: run_step)

section \<open>Rows\<close>

definition owners :: "passkey list \<Rightarrow> string set" where "owners keys = pk_user ` set keys"
definition holders :: "mfa_settings list \<Rightarrow> string set" where "holders rows = ms_user ` set rows"
definition guarded :: "mfa_settings list \<Rightarrow> string set" where
  "guarded rows = ms_user ` set (filter (\<lambda>s. ms_login s \<or> ms_history s) rows)"

lemma settings_of_Some: "settings_of u db = Some s \<Longrightarrow> s \<in> set (md_settings db) \<and> ms_user s = u"
  by (auto simp: settings_of_def find_Some_iff)

lemma settings_of_None: "settings_of u db = None \<longleftrightarrow> u \<notin> holders (md_settings db)"
  by (auto simp: settings_of_def find_None_iff holders_def)

lemma settings_of_unique:
  "distinct (map ms_user (md_settings db)) \<Longrightarrow> s \<in> set (md_settings db) \<Longrightarrow> settings_of (ms_user s) db = Some s"
  unfolding settings_of_def by (rule find_key)

lemma no_credentials: "loadCredentials u db = [] \<longleftrightarrow> u \<notin> owners (md_passkeys db)"
  by (auto simp: loadCredentials_def filter_empty_conv owners_def)

lemma bump_user [simp]: "map ms_user (bump_version u rows) = map ms_user rows"
  by (simp add: bump_version_def)

lemma policies_user [simp]: "map ms_user (map (set_policies u login history) rows) = map ms_user rows"
  by (simp add: set_policies_def)

lemma holders_map: "map ms_user rows = map ms_user rows' \<Longrightarrow> holders rows = holders rows'"
  unfolding holders_def by (metis set_map)

lemma guarded_bump: "guarded (bump_version u rows) = guarded rows"
proof -
  have "map ms_user (filter (\<lambda>s. ms_login s \<or> ms_history s) (bump_version u rows))
      = map ms_user (filter (\<lambda>s. ms_login s \<or> ms_history s) rows)"
    by (induction rows) (simp_all add: bump_version_def)
  then show ?thesis unfolding guarded_def by (metis set_map)
qed

lemma guarded_Cons:
  "guarded (s # rows) = (if ms_login s \<or> ms_history s then insert (ms_user s) (guarded rows) else guarded rows)"
  by (simp add: guarded_def)

lemma guarded_policies:
  "guarded (map (set_policies u login history) rows) \<subseteq> (guarded rows - {u}) \<union> (if login \<or> history then {u} else {})"
proof (induction rows)
  case (Cons s rows)
  then show ?case by (cases "ms_user s = u") (auto simp: guarded_Cons set_policies_def)
qed (simp add: guarded_def)

lemma guarded_default: "guarded (rows @ [default_settings u]) = guarded rows"
  by (auto simp: guarded_def default_settings_def)

lemma owners_used: "owners (map (mark_used u credential info now) keys) = owners keys"
proof -
  have "map pk_user (map (mark_used u credential info now) keys) = map pk_user keys" by (simp add: mark_used_def)
  then show ?thesis unfolding owners_def by (metis set_map)
qed

lemma ids_used: "map pk_id (map (mark_used u credential info now) keys) = map pk_id keys"
  by (simp add: mark_used_def)

section \<open>The invariant\<close>

definition mfa_inv :: "mfa_db \<Rightarrow> bool" where
  "mfa_inv db \<longleftrightarrow>
     distinct (map pk_id (md_passkeys db)) \<and> distinct (map ms_user (md_settings db)) \<and> distinct (map ch_id (md_challenges db))
     \<and> owners (md_passkeys db) \<subseteq> holders (md_settings db) \<and> guarded (md_settings db) \<subseteq> owners (md_passkeys db)"

lemma mfa_invI:
  assumes "distinct (map pk_id (md_passkeys db))" "distinct (map ms_user (md_settings db))" "distinct (map ch_id (md_challenges db))"
    "owners (md_passkeys db) \<subseteq> holders (md_settings db)" "guarded (md_settings db) \<subseteq> owners (md_passkeys db)"
  shows "mfa_inv db"
  using assms by (simp add: mfa_inv_def)

lemma mfa_invD:
  assumes "mfa_inv db"
  shows "distinct (map pk_id (md_passkeys db))" "distinct (map ms_user (md_settings db))" "distinct (map ch_id (md_challenges db))"
    "owners (md_passkeys db) \<subseteq> holders (md_settings db)" "guarded (md_settings db) \<subseteq> owners (md_passkeys db)"
  using assms by (simp_all add: mfa_inv_def)

lemma inv_issue: "mfa_inv db \<Longrightarrow> saveChallenge i u p challenge now db = (r, db') \<Longrightarrow> mfa_inv db'"
  by (auto simp: saveChallenge_def mfa_inv_def split: if_splits)

lemma inv_take: "mfa_inv db \<Longrightarrow> takeChallenge u i p now db = (r, db') \<Longrightarrow> mfa_inv db'"
  by (auto simp: takeChallenge_def mfa_inv_def distinct_map_filter split: option.splits)

lemma inv_register:
  assumes inv: "mfa_inv db" and run: "store_passkey u label info now db = (r, db')"
  shows "mfa_inv db'"
proof (cases "ri_id info \<in> pk_id ` set (md_passkeys db) \<or> ri_counter info < 0")
  case True
  then have "db' = db" using run unfolding store_passkey_def by simp
  then show ?thesis using inv by simp
next
  case False
  define rows where "rows = (if settings_of u db = None then md_settings db @ [default_settings u] else bump_version u (md_settings db))"
  have h: "holders rows = insert u (holders (md_settings db))"
  proof (cases "settings_of u db = None")
    case True
    then show ?thesis by (simp add: rows_def holders_def default_settings_def)
  next
    case False
    then have "u \<in> holders (md_settings db)" by (simp add: settings_of_None)
    moreover have "holders rows = holders (md_settings db)" 
      unfolding rows_def if_not_P [OF False] by (rule holders_map) (rule bump_user)
    ultimately show ?thesis by (simp add: insert_absorb)
  qed
  have d: "distinct (map ms_user rows)"
    using mfa_invD(2) [OF inv] settings_of_None [of u db] by (auto simp: rows_def holders_def default_settings_def)
  have g: "guarded rows = guarded (md_settings db)" by (simp add: rows_def guarded_bump guarded_default)
  obtain k where k: "pk_user k = u" "pk_id k = ri_id info" "md_passkeys db' = md_passkeys db @ [k]" "md_settings db' = rows"
      "md_challenges db' = md_challenges db"
  proof
    define k where "k = \<lparr>pk_id = ri_id info, pk_user = u, pk_key = ri_key info, pk_counter = ri_counter info,
      pk_transports = ri_transports info, pk_device = ri_device info, pk_backedUp = ri_backedUp info,
      pk_label = passkey_label label, pk_created = now, pk_lastUsed = None\<rparr>"
    have db': "db' = db\<lparr>md_passkeys := md_passkeys db @ [k], md_settings := rows\<rparr>"
      using run unfolding store_passkey_def if_not_P [OF False] k_def rows_def by simp
    show "pk_user k = u" "pk_id k = ri_id info" by (simp_all add: k_def)
    show "md_passkeys db' = md_passkeys db @ [k]" "md_settings db' = rows" "md_challenges db' = md_challenges db"
      by (simp_all add: db')
  qed
  show ?thesis
    by (rule mfa_invI) (use mfa_invD [OF inv] False d h g k in \<open>auto simp: owners_def\<close>)
qed

lemma inv_authenticate: "mfa_inv db \<Longrightarrow> store_authentication u credential auth now db = (r, db') \<Longrightarrow> mfa_inv db'"
  by (auto simp: store_authentication_def mfa_inv_def owners_used ids_used simp del: map_map split: if_splits)

lemma inv_policies:
  assumes inv: "mfa_inv db" and run: "updateMfaPolicies u login history db = (r, db')"
  shows "mfa_inv db'"
proof (cases "(login \<or> history) \<and> loadCredentials u db = []")
  case True
  then have "db' = db" using run unfolding updateMfaPolicies_def by (simp add: Let_def)
  then show ?thesis using inv by simp
next
  case False
  define rows where "rows = (if settings_of u db = None then md_settings db @ [default_settings u] else md_settings db)"
  have db': "md_settings db' = map (set_policies u login history) rows" "md_passkeys db' = md_passkeys db" "md_challenges db' = md_challenges db"
    using run False unfolding updateMfaPolicies_def rows_def Let_def by auto
  have d: "distinct (map ms_user rows)" "holders (md_settings db) \<subseteq> holders rows" "guarded rows = guarded (md_settings db)"
    using mfa_invD(2) [OF inv] settings_of_None [of u db]
    by (auto simp: rows_def holders_def default_settings_def guarded_default [unfolded default_settings_def])
  have "(if login \<or> history then {u} else {}) \<subseteq> owners (md_passkeys db)" using False unfolding no_credentials by auto
  then have g: "guarded (md_settings db') \<subseteq> owners (md_passkeys db)"
    using guarded_policies [of u login history rows] mfa_invD(5) [OF inv] d(3) unfolding db'(1) by blast
  have h: "holders (md_settings db') = holders rows" unfolding db'(1) by (rule holders_map) (rule policies_user)
  show ?thesis
    by (rule mfa_invI) (use mfa_invD [OF inv] d g h db' in \<open>auto simp del: map_map\<close>)
qed

lemma last_passkey_stays:
  assumes inv: "mfa_inv db" and g: "u \<in> guarded (md_settings db)"
    and many: "\<not> (length (loadCredentials u db) \<le> 1 \<and> (case settings_of u db of None \<Rightarrow> False | Some s \<Rightarrow> ms_login s \<or> ms_history s))"
  shows "\<exists>k \<in> set (md_passkeys db). pk_user k = u \<and> pk_id k \<noteq> credential"
proof (rule ccontr)
  assume "\<not> ?thesis"
  then have "set (map pk_id (loadCredentials u db)) \<subseteq> {credential}" by (auto simp: loadCredentials_def)
  moreover have "distinct (map pk_id (loadCredentials u db))"
    unfolding loadCredentials_def by (rule distinct_map_filter [OF mfa_invD(1) [OF inv]])
  ultimately have "length (loadCredentials u db) \<le> 1" using distinct_at_most_one by fastforce
  moreover obtain s where s: "s \<in> set (md_settings db)" "ms_user s = u" "ms_login s \<or> ms_history s"
    using g by (auto simp: guarded_def)
  moreover from settings_of_unique [OF mfa_invD(2) [OF inv] s(1)] have "settings_of u db = Some s" by (simp add: s(2))
  ultimately show False using many by simp
qed

lemma inv_delete:
  assumes inv: "mfa_inv db" and run: "deletePasskey u credential db = (r, db')"
  shows "mfa_inv db'"
proof (cases "db' = db")
  case False
  then have many: "\<not> (length (loadCredentials u db) \<le> 1 \<and> (case settings_of u db of None \<Rightarrow> False | Some s \<Rightarrow> ms_login s \<or> ms_history s))"
    and db': "md_passkeys db' = filter (\<lambda>k. \<not> (pk_user k = u \<and> pk_id k = credential)) (md_passkeys db)"
      "md_settings db' = bump_version u (md_settings db)" "md_challenges db' = md_challenges db"
    using run unfolding deletePasskey_def Let_def by (auto split: if_splits)
  have "guarded (md_settings db) \<subseteq> owners (md_passkeys db')"
  proof
    fix v assume v: "v \<in> guarded (md_settings db)"
    then have "v \<in> owners (md_passkeys db)" using mfa_invD(5) [OF inv] by blast
    then show "v \<in> owners (md_passkeys db')"
    proof (cases "v = u")
      case True
      then obtain k where "k \<in> set (md_passkeys db)" "pk_user k = u" "pk_id k \<noteq> credential"
        using last_passkey_stays [OF inv _ many] v by blast
      then show ?thesis unfolding db'(1) owners_def using True by (intro image_eqI [of _ _ k]) simp_all
    next
      case False
      then obtain k where "k \<in> set (md_passkeys db)" "pk_user k = v"
        using \<open>v \<in> owners (md_passkeys db)\<close> unfolding owners_def by blast
      then show ?thesis unfolding db'(1) owners_def using False by (intro image_eqI [of _ _ k]) simp_all
    qed
  qed
  moreover have "holders (md_settings db') = holders (md_settings db)" unfolding db'(2) by (rule holders_map) simp
  moreover have "owners (md_passkeys db') \<subseteq> owners (md_passkeys db)" unfolding db'(1) owners_def by auto
  ultimately show ?thesis
    by (intro mfa_invI) (use mfa_invD [OF inv] db' in \<open>auto simp: guarded_bump distinct_map_filter\<close>)
qed (use inv in simp)

lemma inv_close:
  assumes inv: "mfa_inv db"
  shows "mfa_inv (close_account u db)"
proof -
  have "owners (filter (\<lambda>k. pk_user k \<noteq> u) keys) = owners keys - {u}" "holders (filter (\<lambda>s. ms_user s \<noteq> u) rows) = holders rows - {u}"
    "guarded (filter (\<lambda>s. ms_user s \<noteq> u) rows) = guarded rows - {u}" for keys rows
    by (auto simp: owners_def holders_def guarded_def)
  then show ?thesis
    by (intro mfa_invI) (use mfa_invD [OF inv] in \<open>auto simp: close_account_def distinct_map_filter\<close>)
qed

lemma mfa_step_inv: "mfa_step e db db' \<Longrightarrow> mfa_inv db \<Longrightarrow> mfa_inv db'"
  by (induction rule: mfa_step.induct)
    (blast intro: inv_issue inv_take inv_register inv_authenticate inv_policies inv_delete inv_close)+

lemma mfa_run_inv: "mfa_run E db db' \<Longrightarrow> mfa_inv db \<Longrightarrow> mfa_inv db'"
  by (induction rule: mfa_run.induct) (auto intro: mfa_step_inv)

lemma mfa_reachable_inv: "mfa_reachable db \<Longrightarrow> mfa_inv db"
  unfolding mfa_reachable_def by (erule mfa_run_inv) (simp add: mfa_inv_def owners_def holders_def guarded_def)


section \<open>Versions\<close>

definition version_of :: "string \<Rightarrow> mfa_db \<Rightarrow> int" where
  "version_of u db = (case settings_of u db of None \<Rightarrow> 0 | Some s \<Rightarrow> ms_version s)"

definition credential_ids :: "string \<Rightarrow> mfa_db \<Rightarrow> string list" where
  "credential_ids u db = map pk_id (loadCredentials u db)"

text \<open>What may happen to a user: nothing, or a later version.\<close>

definition mfa_version_step :: "string \<Rightarrow> mfa_db \<Rightarrow> mfa_db \<Rightarrow> bool" where
  "mfa_version_step u db db' \<longleftrightarrow>
     settings_of u db' = settings_of u db \<and> credential_ids u db' = credential_ids u db \<or> version_of u db < version_of u db'"

lemma version_step_same:
  "md_passkeys db' = md_passkeys db \<Longrightarrow> md_settings db' = md_settings db \<Longrightarrow> mfa_version_step u db db'"
  by (simp add: mfa_version_step_def settings_of_def credential_ids_def loadCredentials_def)

lemma version_step_other:
  "find (\<lambda>s. ms_user s = u) (md_settings db') = find (\<lambda>s. ms_user s = u) (md_settings db) \<Longrightarrow>
   filter (\<lambda>k. pk_user k = u) (md_passkeys db') = filter (\<lambda>k. pk_user k = u) (md_passkeys db) \<Longrightarrow> mfa_version_step u db db'"
  by (simp add: mfa_version_step_def settings_of_def credential_ids_def loadCredentials_def)

lemma find_bump:
  "find (\<lambda>s. ms_user s = u) (bump_version v rows) =
     map_option (\<lambda>s. if u = v then s\<lparr>ms_version := ms_version s + 1\<rparr> else s) (find (\<lambda>s. ms_user s = u) rows)"
  by (induction rows) (auto simp: bump_version_def)

lemma find_policies:
  "find (\<lambda>s. ms_user s = u) (map (set_policies v login history) rows) =
     map_option (\<lambda>s. if u = v then s\<lparr>ms_login := login, ms_history := history, ms_version := ms_version s + 1\<rparr> else s)
       (find (\<lambda>s. ms_user s = u) rows)"
  by (induction rows) (auto simp: set_policies_def)

lemma find_default:
  "find (\<lambda>s. ms_user s = u) (rows @ [default_settings v]) =
     (case find (\<lambda>s. ms_user s = u) rows of Some s \<Rightarrow> Some s | None \<Rightarrow> if u = v then Some (default_settings v) else None)"
  by (induction rows) (auto simp: default_settings_def)

lemma default_version [simp]: "ms_version (default_settings u) = 1" by (simp add: default_settings_def)

lemma version_bumped:
  assumes "md_settings db' = bump_version u (md_settings db)" "settings_of u db \<noteq> None"
  shows "version_of u db < version_of u db'"
  using assms by (auto simp: version_of_def settings_of_def find_bump)

lemma version_register:
  assumes "store_passkey v label info now db = (r, db')"
  shows "mfa_version_step u db db'"
proof (cases "ri_id info \<in> pk_id ` set (md_passkeys db) \<or> ri_counter info < 0")
  case True
  then show ?thesis using assms unfolding store_passkey_def by (intro version_step_same) simp_all
next
  case False
  have db': "md_settings db' = (if settings_of v db = None then md_settings db @ [default_settings v] else bump_version v (md_settings db))"
    "u \<noteq> v \<Longrightarrow> filter (\<lambda>k. pk_user k = u) (md_passkeys db') = filter (\<lambda>k. pk_user k = u) (md_passkeys db)"
    using assms unfolding store_passkey_def if_not_P [OF False] by auto
  show ?thesis
  proof (cases "u = v")
    case True
    have "version_of v db < version_of v db'"
    proof (cases "settings_of v db = None")
      case True
      then show ?thesis using db'(1) by (simp add: version_of_def settings_of_def find_default)
    next
      case False
      then show ?thesis by (intro version_bumped [OF db'(1) [unfolded if_not_P [OF False]]])
    qed
    then show ?thesis using True by (simp add: mfa_version_step_def)
  next
    case False
    have "find (\<lambda>s. ms_user s = u) (md_settings db') = find (\<lambda>s. ms_user s = u) (md_settings db)"
      unfolding db'(1) using False by (auto simp: find_default find_bump option.map_ident split: option.splits)
    then show ?thesis using db'(2) [OF False] by (rule version_step_other)
  qed
qed

lemma version_authenticate:
  assumes "store_authentication v credential auth now db = (r, db')"
  shows "mfa_version_step u db db'"
proof (cases "db' = db")
  case False
  then have db': "md_passkeys db' = map (mark_used v credential auth now) (md_passkeys db)" "md_settings db' = md_settings db"
    using assms unfolding store_authentication_def by (auto split: if_splits)
  have "map pk_id (filter (\<lambda>k. pk_user k = u) (map (mark_used v credential auth now) ks)) = map pk_id (filter (\<lambda>k. pk_user k = u) ks)" for ks
  proof -
    have "pk_user (mark_used v credential auth now k) = pk_user k" "pk_id (mark_used v credential auth now k) = pk_id k" for k
      by (simp_all add: mark_used_def)
    then show ?thesis by (simp add: filter_map comp_def)
  qed
  then show ?thesis unfolding mfa_version_step_def settings_of_def credential_ids_def loadCredentials_def db' by simp
qed (simp add: version_step_same)

lemma version_policies:
  assumes "mfa_inv db" "updateMfaPolicies v login history db = (r, db')"
  shows "mfa_version_step u db db'"
proof (cases "(login \<or> history) \<and> loadCredentials v db = []")
  case True
  then show ?thesis using assms unfolding updateMfaPolicies_def by (intro version_step_same) (simp_all add: Let_def)
next
  case False
  define rows where "rows = (if settings_of v db = None then md_settings db @ [default_settings v] else md_settings db)"
  have db': "md_settings db' = map (set_policies v login history) rows" "md_passkeys db' = md_passkeys db"
    using assms(2) False unfolding updateMfaPolicies_def rows_def Let_def by auto
  show ?thesis
  proof (cases "u = v")
    case True
    have "version_of v db < version_of v db'"
      unfolding version_of_def settings_of_def db' find_policies rows_def
      by (auto simp: find_default settings_of_def split: option.splits)
    then show ?thesis using True by (simp add: mfa_version_step_def)
  next
    case False
    have "find (\<lambda>s. ms_user s = u) (md_settings db') = find (\<lambda>s. ms_user s = u) (md_settings db)"
      unfolding db' find_policies rows_def using False by (auto simp: find_default option.map_ident split: option.splits)
    then show ?thesis by (rule version_step_other) (simp add: db'(2))
  qed
qed

lemma version_delete:
  assumes inv: "mfa_inv db" and run: "deletePasskey v credential db = (r, db')"
  shows "mfa_version_step u db db'"
proof (cases "db' = db")
  case False
  then have db': "md_passkeys db' = filter (\<lambda>k. \<not> (pk_user k = v \<and> pk_id k = credential)) (md_passkeys db)"
      "md_settings db' = bump_version v (md_settings db)" and some: "list_ex (\<lambda>k. pk_user k = v \<and> pk_id k = credential) (md_passkeys db)"
    using run unfolding deletePasskey_def Let_def by (auto split: if_splits)
  show ?thesis
  proof (cases "u = v")
    case True
    have "v \<in> owners (md_passkeys db)" using some by (auto simp: list_ex_iff owners_def)
    then have "settings_of v db \<noteq> None" using mfa_invD(4) [OF inv] settings_of_None [of v db] by blast
    then show ?thesis using version_bumped [OF db'(2)] True by (simp add: mfa_version_step_def)
  next
    case False
    show ?thesis
    proof (rule version_step_other)
      show "find (\<lambda>s. ms_user s = u) (md_settings db') = find (\<lambda>s. ms_user s = u) (md_settings db)"
        unfolding db' find_bump using False by (simp add: option.map_ident)
      show "filter (\<lambda>k. pk_user k = u) (md_passkeys db') = filter (\<lambda>k. pk_user k = u) (md_passkeys db)"
        unfolding db' filter_filter using False by (intro filter_cong) auto
    qed
  qed
qed (simp add: version_step_same)

lemma version_close:
  assumes "u \<noteq> v"
  shows "mfa_version_step u db (close_account v db)"
proof (rule version_step_other)
  show "find (\<lambda>s. ms_user s = u) (md_settings (close_account v db)) = find (\<lambda>s. ms_user s = u) (md_settings db)"
    using assms by (simp add: close_account_def find_filter)
  show "filter (\<lambda>k. pk_user k = u) (md_passkeys (close_account v db)) = filter (\<lambda>k. pk_user k = u) (md_passkeys db)"
    unfolding close_account_def using assms by (simp, intro filter_cong) auto
qed

lemma mfa_step_version:
  assumes "mfa_step e db db'" "mfa_inv db" "e \<noteq> Closes u"
  shows "mfa_version_step u db db'"
  using assms(1)
proof cases
  case step_issue
  then show ?thesis by (intro version_step_same) (auto simp: saveChallenge_def split: if_splits)
next
  case step_take
  then show ?thesis by (intro version_step_same) (auto simp: takeChallenge_def split: option.splits)
next
  case step_register
  then show ?thesis by (intro version_register)
next
  case step_authenticate
  then show ?thesis by (intro version_authenticate)
next
  case step_policies
  then show ?thesis by (intro version_policies [OF assms(2)])
next
  case step_delete
  then show ?thesis by (intro version_delete [OF assms(2)])
next
  case (step_close v)
  then show ?thesis using assms(3) version_close [of u v db] by auto
qed

lemma mfa_run_version:
  assumes "mfa_run E db db'" "mfa_inv db" "Closes u \<in> E"
  shows "mfa_version_step u db db'"
  using assms(1,2)
proof (induction rule: mfa_run.induct)
  case (run_step a b e c)
  have "e \<noteq> Closes u" using run_step.hyps(3) assms(3) by blast
  then have "mfa_version_step u b c"
    by (rule mfa_step_version [OF run_step.hyps(2) mfa_run_inv [OF run_step.hyps(1) run_step.prems]])
  then show ?case using run_step.IH [OF run_step.prems] unfolding mfa_version_step_def version_of_def by auto
qed (simp add: version_step_same)


section \<open>Policies and challenges\<close>

text \<open>C20: A policy that requires a passkey never lapses: whoever has switched one on has a passkey, so that the
  login and the history ask for it exactly when the row of the settings says so.\<close>

theorem required_policy_has_passkey:
  assumes "mfa_reachable db"
  shows "isCredentialMfaRequired u db = (\<exists>s \<in> set (md_settings db). ms_user s = u \<and> ms_login s)
    \<and> st_history (getMfaStatus u db) = (\<exists>s \<in> set (md_settings db). ms_user s = u \<and> ms_history s)
    \<and> st_login (getMfaStatus u db) = isCredentialMfaRequired u db"
proof -
  have inv: "mfa_inv db" by (rule mfa_reachable_inv [OF assms])
  have has: "loadCredentials u db \<noteq> []" if "settings_of u db = Some s" "ms_login s \<or> ms_history s" for s
  proof -
    have "u \<in> guarded (md_settings db)" using settings_of_Some [OF that(1)] that(2) by (auto simp: guarded_def)
    then show ?thesis using mfa_invD(5) [OF inv] by (auto simp: no_credentials)
  qed
  have ex: "(\<exists>s \<in> set (md_settings db). ms_user s = u \<and> P s) = (case settings_of u db of None \<Rightarrow> False | Some s \<Rightarrow> P s)" for P
  proof (cases "settings_of u db")
    case None
    then show ?thesis using settings_of_None [of u db] by (auto simp: holders_def)
  next
    case (Some s)
    have "t = s" if "t \<in> set (md_settings db)" "ms_user t = u" for t
      using settings_of_unique [OF mfa_invD(2) [OF inv] that(1)] Some that(2) by simp
    then show ?thesis using settings_of_Some [OF Some] Some by auto
  qed
  show ?thesis unfolding ex
    using has by (auto simp: isCredentialMfaRequired_def getMfaStatus_def readMfaStatus_def Let_def split: option.splits)
qed

definition issued :: "mfa_db \<Rightarrow> string set" where "issued db = ch_id ` set (md_challenges db)"

lemma take_removes:
  assumes inv: "mfa_inv db" and run: "takeChallenge u i p now db = (Inr challenge, db')"
  shows "\<exists>c \<in> set (md_challenges db). takeable u i p now c \<and> ch_text c = challenge"
    "i \<notin> issued db'" "md_passkeys db' = md_passkeys db"
proof -
  obtain c where f: "find (takeable u i p now) (md_challenges db) = Some c"
    and db': "challenge = ch_text c" "db' = db\<lparr>md_challenges := filter (\<lambda>c. \<not> takeable u i p now c) (md_challenges db)\<rparr>"
    using run unfolding takeChallenge_def by (auto split: option.splits)
  have c: "c \<in> set (md_challenges db)" "takeable u i p now c" using f by (auto simp: find_Some_iff)
  have "d = c" if "d \<in> set (md_challenges db)" "ch_id d = i" for d
    using mfa_invD(3) [OF inv] that c by (auto simp: distinct_map inj_on_def takeable_def)
  then show "i \<notin> issued db'" unfolding db' issued_def using c(2) by auto
  show "\<exists>c \<in> set (md_challenges db). takeable u i p now c \<and> ch_text c = challenge" "md_passkeys db' = md_passkeys db"
    using c db' by auto
qed

lemma take_missing: "i \<notin> issued db \<Longrightarrow> takeChallenge u i p now db = (Inl PASSKEY_CHALLENGE_EXPIRED, db)"
  by (auto simp: takeChallenge_def issued_def takeable_def find_None_iff split: option.splits)

lemma step_issued: "mfa_step e db db' \<Longrightarrow> i \<in> issued db' \<Longrightarrow> i \<in> issued db \<or> e = Issues i"
  by (induction rule: mfa_step.induct)
    (auto simp: saveChallenge_def takeChallenge_def store_passkey_def store_authentication_def updateMfaPolicies_def
      deletePasskey_def close_account_def issued_def Let_def split: if_splits option.splits)

lemma run_issued: "mfa_run E db db' \<Longrightarrow> Issues i \<in> E \<Longrightarrow> i \<notin> issued db \<Longrightarrow> i \<notin> issued db'"
  by (induction rule: mfa_run.induct) (use step_issued in blast)+

text \<open>C17: A passkey authenticates its user only with a challenge that was issued to the user for this purpose
  and has not expired. The challenge serves once: whatever happens afterwards, short of issuing it again,
  no authentication and no registration succeeds with it.\<close>

theorem passkey_challenge_is_single_use:
  assumes reach: "mfa_reachable db" and ok: "finishPasskeyAuthentication verify u i purpose credential now db = (Inr status, db1)"
    and run: "mfa_run {Issues i} db1 db2"
  shows "(\<exists>c \<in> set (md_challenges db). \<exists>k \<in> set (md_passkeys db). ch_id c = i \<and> ch_user c = u \<and> ch_purpose c = purpose
           \<and> now < ch_expires c \<and> pk_id k = credential \<and> pk_user k = u \<and> verify (ch_text c) k \<noteq> None)
    \<and> finishPasskeyAuthentication verify' v i purpose' credential' later db2 = (Inl PASSKEY_CHALLENGE_EXPIRED, db2)
    \<and> finishPasskeyRegistration verify'' v i label later db2 = (Inl PASSKEY_CHALLENGE_EXPIRED, db2)"
proof -
  have inv: "mfa_inv db" by (rule mfa_reachable_inv [OF reach])
  obtain challenge dbt k where t: "takeChallenge u i purpose now db = (Inr challenge, dbt)"
      "find (\<lambda>k. pk_id k = credential \<and> pk_user k = u) (md_passkeys dbt) = Some k" "verify challenge k \<noteq> None"
      "md_challenges db1 = md_challenges dbt"
    using ok unfolding finishPasskeyAuthentication_def
    by (auto simp: store_authentication_def split: prod.splits sum.splits option.splits if_splits)
  note removed = take_removes [OF inv t(1)]
  have k: "k \<in> set (md_passkeys db)" "pk_id k = credential" "pk_user k = u" using t(2) removed(3) by (auto simp: find_Some_iff)
  have "i \<notin> issued db1" using removed(2) t(4) by (simp add: issued_def)
  then have "i \<notin> issued db2" using run_issued [OF run] by simp
  then have "finishPasskeyAuthentication verify' v i purpose' credential' later db2 = (Inl PASSKEY_CHALLENGE_EXPIRED, db2)"
      "finishPasskeyRegistration verify'' v i label later db2 = (Inl PASSKEY_CHALLENGE_EXPIRED, db2)"
    by (simp_all add: finishPasskeyAuthentication_def finishPasskeyRegistration_def take_missing)
  then show ?thesis using removed(1) k t(3) by (auto simp: takeable_def)
qed


section \<open>Grants of the history\<close>

text \<open>What the encodings promise: base64url has no dot, a decoded text is what was encoded.\<close>

definition codec_ok :: "token_codec \<Rightarrow> jsvalue \<Rightarrow> bool" where
  "codec_ok codec v \<longleftrightarrow>
     (let e = tk_encode codec v
      in e \<noteq> [] \<and> CHR ''.'' \<notin> set e \<and> tk_decode codec e = Some v \<and> tk_sign codec e \<noteq> [] \<and> CHR ''.'' \<notin> set (tk_sign codec e))"

lemma num_of_int_simps [simp]:
  "num_eq (num_of_int a) (num_of_int b) \<longleftrightarrow> a = b" "num_le (num_of_int a) (num_of_int b) \<longleftrightarrow> a \<le> b"
  "num_lt (num_of_int a) (num_of_int b) \<longleftrightarrow> a < b" "num_is_integer (num_of_int a)" "num_of_int a = num_of_int b \<longleftrightarrow> a = b"
  by (auto simp: num_of_int_def num_eq_def num_le_def num_is_integer_def rat_is_int_def)

lemma purpose_text_inject: "purpose_text p = purpose_text q \<longleftrightarrow> p = q"
  by (cases p; cases q) simp_all

lemma token_fields:
  "json_field (token_json t) ''version'' = JNum (num_of_int 1)" "json_field (token_json t) ''purpose'' = JStr (purpose_text (tn_purpose t))"
  "json_field (token_json t) ''userId'' = JStr (tn_user t)" "json_field (token_json t) ''expiresAt'' = JNum (num_of_int (tn_expires t))"
  "json_field (token_json t) ''nonce'' = JStr (tn_nonce t)"
  "json_field (token_json t) ''mfaVersion'' = (case tn_version t of None \<Rightarrow> JUndef | Some v \<Rightarrow> JNum (num_of_int v))"
  by (simp_all add: json_field_def token_json_def js_get_def split: option.splits)

definition payload_of :: "token_input \<Rightarrow> token_payload" where
  "payload_of t = \<lparr>tp_user = tn_user t, tp_expires = num_of_int (tn_expires t), tp_nonce = tn_nonce t,
     tp_version = map_option num_of_int (tn_version t)\<rparr>"

definition acceptable :: "token_purpose \<Rightarrow> instant \<Rightarrow> token_input \<Rightarrow> bool" where
  "acceptable purpose now t \<longleftrightarrow> purpose = tn_purpose t \<and> tn_user t \<noteq> [] \<and> tn_nonce t \<noteq> [] \<and> now < tn_expires t
     \<and> (case tn_version t of None \<Rightarrow> True | Some v \<Rightarrow> 1 \<le> v)"

lemma check_created: "check_payload purpose now (token_json t) = (if acceptable purpose now t then Some (payload_of t) else None)"
  unfolding check_payload_def token_fields acceptable_def payload_of_def
  by (auto simp: nonempty_text_def purpose_text_inject split: option.splits)

lemma verify_created:
  assumes "codec_ok codec (token_json t)"
  shows "verifySignedMfaToken codec (createSignedMfaToken codec t) purpose now =
    (if acceptable purpose now t then Some (payload_of t) else None)"
proof -
  let ?e = "tk_encode codec (token_json t)"
  have "createSignedMfaToken codec t = ?e @ CHR ''.'' # tk_sign codec ?e" by (simp add: createSignedMfaToken_def Let_def)
  then have "split_on CHR ''.'' (createSignedMfaToken codec t) = [?e, tk_sign codec ?e]"
    using assms by (simp add: codec_ok_def Let_def split_on_append split_on_no_sep)
  then have "verifySignedMfaToken codec (createSignedMfaToken codec t) purpose now = check_payload purpose now (token_json t)"
    using assms by (simp add: verifySignedMfaToken_def codec_ok_def Let_def)
  then show ?thesis by (simp add: check_created)
qed

lemma verified_parts:
  assumes "verifySignedMfaToken codec token purpose now = Some p"
  obtains e v where "token = e @ CHR ''.'' # tk_sign codec e" "tk_decode codec e = Some v" "check_payload purpose now v = Some p"
proof -
  from assms obtain e s where parts: "split_on CHR ''.'' token = [e, s]" "tk_sign codec e = s"
    "Option.bind (tk_decode codec e) (check_payload purpose now) = Some p"
    by (auto simp: verifySignedMfaToken_def split: list.splits if_splits)
  have "token = e @ CHR ''.'' # s" using join_split_on [of "CHR ''.''" token] unfolding parts(1) by simp
  then show thesis using that parts(2,3) by (auto simp: bind_eq_Some_conv)
qed

text \<open>C36: A signed token reads back what it was made of, exactly for its own purpose, before it expires, and
  where the user, the nonce and the version of the settings are well formed; and whatever token is
  accepted consists of an encoded text and the signature of that very text, which decodes to fields for
  the purpose asked for that have not expired, so that changing either part or the purpose is refused.\<close>

theorem signed_token_roundtrip:
  assumes "codec_ok codec (token_json t)"
  shows "(verifySignedMfaToken codec (createSignedMfaToken codec t) purpose now = Some p \<longleftrightarrow>
      p = payload_of t \<and> purpose = tn_purpose t \<and> now < tn_expires t \<and> tn_user t \<noteq> [] \<and> tn_nonce t \<noteq> []
        \<and> (case tn_version t of None \<Rightarrow> True | Some v \<Rightarrow> 1 \<le> v))
    \<and> (verifySignedMfaToken codec token purpose now = Some p \<longrightarrow>
      (\<exists>e v. token = e @ CHR ''.'' # tk_sign codec e \<and> tk_decode codec e = Some v
         \<and> json_field v ''purpose'' = JStr (purpose_text purpose) \<and> json_field v ''userId'' = JStr (tp_user p)
         \<and> json_field v ''nonce'' = JStr (tp_nonce p) \<and> \<not> num_le (tp_expires p) (num_of_int now)))"
proof -
  have fields: "json_field v ''purpose'' = JStr (purpose_text purpose) \<and> json_field v ''userId'' = JStr (tp_user p)
         \<and> json_field v ''nonce'' = JStr (tp_nonce p) \<and> \<not> num_le (tp_expires p) (num_of_int now)"
    if "check_payload purpose now v = Some p" for v
    using that by (auto simp: check_payload_def nonempty_text_def split: jsvalue.splits option.splits if_splits)
  have created: "verifySignedMfaToken codec (createSignedMfaToken codec t) purpose now = Some p \<longleftrightarrow>
      p = payload_of t \<and> purpose = tn_purpose t \<and> now < tn_expires t \<and> tn_user t \<noteq> [] \<and> tn_nonce t \<noteq> []
        \<and> (case tn_version t of None \<Rightarrow> True | Some v \<Rightarrow> 1 \<le> v)"
    unfolding verify_created [OF assms] acceptable_def by auto
  have "\<exists>e v. token = e @ CHR ''.'' # tk_sign codec e \<and> tk_decode codec e = Some v
         \<and> json_field v ''purpose'' = JStr (purpose_text purpose) \<and> json_field v ''userId'' = JStr (tp_user p)
         \<and> json_field v ''nonce'' = JStr (tp_nonce p) \<and> \<not> num_le (tp_expires p) (num_of_int now)"
    if "verifySignedMfaToken codec token purpose now = Some p"
    using that by (rule verified_parts) (use fields in blast)
  then show ?thesis using created by blast
qed

definition grant_input :: "string \<Rightarrow> int \<Rightarrow> string \<Rightarrow> instant \<Rightarrow> token_input" where
  "grant_input u version session t = \<lparr>tn_purpose = History_access, tn_user = u, tn_expires = t + HISTORY_MFA_TTL_SECONDS * 1000,
     tn_nonce = session, tn_version = Some version\<rparr>"

lemma created_not_empty: "createSignedMfaToken codec t \<noteq> []" by (simp add: createSignedMfaToken_def Let_def)

definition positive :: "mfa_settings list \<Rightarrow> bool" where "positive rows \<longleftrightarrow> (\<forall>s \<in> set rows. 1 \<le> ms_version s)"

lemma positive_rows:
  "positive rows \<Longrightarrow> positive (bump_version u rows)" "positive rows \<Longrightarrow> positive (map (set_policies u login history) rows)"
  "positive rows \<Longrightarrow> positive (rows @ [default_settings u])" "positive rows \<Longrightarrow> positive (filter P rows)"
  by (auto simp: positive_def bump_version_def set_policies_def)

lemma step_positive:
  assumes "mfa_step e db db'" "positive (md_settings db)"
  shows "positive (md_settings db')"
  using assms(1)
proof cases
  case (step_policies u login history r)
  have "positive (map (set_policies u login history) (if settings_of u db = None then md_settings db @ [default_settings u] else md_settings db))"
    by (intro positive_rows(2)) (simp add: assms(2) positive_rows(3))
  then show ?thesis using step_policies assms(2) unfolding updateMfaPolicies_def Let_def by (auto split: if_splits)
qed (use assms(2) positive_rows in \<open>auto simp: saveChallenge_def takeChallenge_def store_passkey_def store_authentication_def
      deletePasskey_def close_account_def Let_def split: if_splits option.splits\<close>)

lemma reachable_positive: "mfa_reachable db \<Longrightarrow> s \<in> set (md_settings db) \<Longrightarrow> 1 \<le> ms_version s"
proof -
  have "positive (md_settings b)" if "mfa_run {} a b" "md_settings a = []" for a b
    using that by (induction rule: mfa_run.induct) (simp add: positive_def, blast intro: step_positive)
  then show "mfa_reachable db \<Longrightarrow> s \<in> set (md_settings db) \<Longrightarrow> 1 \<le> ms_version s"
    unfolding mfa_reachable_def positive_def by force
qed

text \<open>C10: A grant of the history made at a time for a session opens the history exactly for this user and session,
  for thirty minutes, and while neither the settings nor the passkeys of the user have changed.\<close>

theorem history_grant_ends_with_policy:
  assumes reach: "mfa_reachable db" and run: "mfa_run {Closes u} db db'"
    and codec: "codec_ok codec (token_json (grant_input u (st_version (getMfaStatus u db)) session t))"
    and names: "u \<noteq> []" "session \<noteq> []" and required: "hg_required (getHistoryMfaGate codec cookie v s now db')"
    and cookie: "cookie = Some (grantHistoryMfaAccess codec u (st_version (getMfaStatus u db)) session t)"
  shows "hg_verified (getHistoryMfaGate codec cookie v s now db') \<longleftrightarrow>
    v = u \<and> s = Some session \<and> now < t + 30 * 60 * 1000 \<and> settings_of u db' = settings_of u db
    \<and> map pk_id (loadCredentials u db') = map pk_id (loadCredentials u db)"
proof -
  let ?n = "st_version (getMfaStatus u db)"
  define token where "token = createSignedMfaToken codec (grant_input u ?n session t)"
  have status: "st_enrolled (getMfaStatus v db')" "st_history (getMfaStatus v db')"
    using required by (auto simp: getHistoryMfaGate_def Let_def split: if_splits)
  have versions: "st_version (getMfaStatus w d) = version_of w d" for w d
    by (simp add: getMfaStatus_def readMfaStatus_def version_of_def Let_def)
  have verified: "verifySignedMfaToken codec token History_access now =
    (if now < t + 30 * 60 * 1000 \<and> 1 \<le> version_of u db
     then Some \<lparr>tp_user = u, tp_expires = num_of_int (t + 30 * 60 * 1000), tp_nonce = session, tp_version = Some (num_of_int (version_of u db))\<rparr>
     else None)"
    using names verify_created [OF codec, of History_access now]
    by (simp add: token_def grant_input_def versions HISTORY_MFA_TTL_SECONDS_def acceptable_def payload_of_def)
  have cookie': "cookie = Some token" "token \<noteq> []"
    using cookie created_not_empty by (simp_all add: token_def grantHistoryMfaAccess_def grant_input_def)
  have gate: "hg_verified (getHistoryMfaGate codec cookie v s now db') \<longleftrightarrow>
      v = u \<and> s = Some session \<and> now < t + 30 * 60 * 1000 \<and> 1 \<le> version_of u db \<and> version_of u db = version_of v db'"
  proof (cases "now < t + 30 * 60 * 1000 \<and> 1 \<le> version_of u db")
    case True
    show ?thesis
      unfolding getHistoryMfaGate_def Let_def isHistoryMfaTokenValid_def cookie'(1)
      using status names cookie'(2) True by (auto simp: verified [unfolded if_P [OF True]] versions split: option.splits)
  next
    case False
    show ?thesis
      unfolding getHistoryMfaGate_def Let_def isHistoryMfaTokenValid_def cookie'(1)
      using status names cookie'(2) False by (auto simp: verified [unfolded if_not_P [OF False]] split: option.splits)
  qed
  have step: "mfa_version_step u db db'" by (rule mfa_run_version [OF run mfa_reachable_inv [OF reach]]) simp
  have positive: "1 \<le> version_of v db'"
  proof -
    obtain x where "settings_of v db' = Some x" using status(2) by (auto simp: getMfaStatus_def readMfaStatus_def Let_def split: option.splits)
    then show ?thesis
      using reachable_positive [OF mfa_reachable_run [OF run reach]] settings_of_Some [of v db' x] by (simp add: version_of_def)
  qed
  have "version_of u db = version_of u db' \<longleftrightarrow> settings_of u db' = settings_of u db \<and> credential_ids u db' = credential_ids u db"
    if "v = u"
    using step unfolding mfa_version_step_def by (auto simp: version_of_def)
  then show ?thesis unfolding gate credential_ids_def using positive by auto
qed


section \<open>Examples\<close>

definition empty_mfa :: mfa_db where "empty_mfa = \<lparr>md_passkeys = [], md_settings = [], md_challenges = []\<rparr>"

definition example_registration :: "string \<Rightarrow> registration_info" where
  "example_registration i = \<lparr>ri_id = i, ri_key = ''p'', ri_counter = 0, ri_transports = [], ri_device = Single_device, ri_backedUp = False\<rparr>"

definition counted :: "int \<Rightarrow> authentication_info" where
  "counted n = \<lparr>ai_counter = n, ai_device = Single_device, ai_backedUp = False\<rparr>"

definition enrolled_mfa :: mfa_db where "enrolled_mfa = snd (store_passkey ''u'' [] (example_registration ''k'') 0 empty_mfa)"
definition protected_mfa :: mfa_db where "protected_mfa = snd (updateMfaPolicies ''u'' True True enrolled_mfa)"
definition challenged_mfa :: mfa_db where "challenged_mfa = snd (saveChallenge ''1'' ''u'' For_history ''x'' 100 protected_mfa)"

lemma protected_reachable: "mfa_reachable protected_mfa"
proof -
  have "mfa_run {} empty_mfa enrolled_mfa"
    unfolding enrolled_mfa_def by (rule run_step [OF run_stop step_register]) (rule prod.collapse [symmetric], simp)
  then have "mfa_run {} empty_mfa protected_mfa"
    unfolding protected_mfa_def by (rule run_step [OF _ step_policies]) (rule prod.collapse [symmetric], simp)
  then show ?thesis by (simp add: mfa_reachable_def empty_mfa_def)
qed

lemma challenged_run: "mfa_run {Closes ''u''} protected_mfa challenged_mfa"
  unfolding challenged_mfa_def by (rule run_step [OF run_stop step_issue]) (rule prod.collapse [symmetric], simp)

lemma challenged_reachable: "mfa_reachable challenged_mfa"
  by (rule mfa_reachable_run [OF challenged_run protected_reachable])

lemma required_policy_has_passkey_witness:
  "isCredentialMfaRequired ''u'' protected_mfa \<and> st_login (getMfaStatus ''u'' protected_mfa)"
proof -
  have "list_ex (\<lambda>s. ms_user s = ''u'' \<and> ms_login s) (md_settings protected_mfa)" by code_simp
  then show ?thesis using required_policy_has_passkey [OF protected_reachable, of "''u''"] by (auto simp: list_ex_iff)
qed

lemma passkey_challenge_is_single_use_witness:
  "\<exists>status db. finishPasskeyAuthentication (\<lambda>c k. Some (counted 1)) ''u'' ''1'' For_history ''k'' 200 challenged_mfa = (Inr status, db)
     \<and> finishPasskeyAuthentication (\<lambda>c k. Some (counted 1)) ''u'' ''1'' For_history ''k'' 201 db = (Inl PASSKEY_CHALLENGE_EXPIRED, db)"
proof -
  have ex: "case fst (finishPasskeyAuthentication (\<lambda>c k. Some (counted 1)) ''u'' ''1'' For_history ''k'' 200 challenged_mfa) of
      Inr st \<Rightarrow> True | Inl e \<Rightarrow> False" by code_simp
  then obtain status db where r:
      "finishPasskeyAuthentication (\<lambda>c k. Some (counted 1)) ''u'' ''1'' For_history ''k'' 200 challenged_mfa = (Inr status, db)"
    by (cases "finishPasskeyAuthentication (\<lambda>c k. Some (counted 1)) ''u'' ''1'' For_history ''k'' 200 challenged_mfa")
      (auto split: sum.splits)
  from passkey_challenge_is_single_use [OF challenged_reachable r run_stop] r show ?thesis by blast
qed

definition example_codec :: token_codec where
  "example_codec = \<lparr>tk_encode = (\<lambda>v. ''e''), tk_decode = (\<lambda>s. Some (token_json (grant_input ''u'' 2 ''s'' 0))), tk_sign = (\<lambda>e. ''m'')\<rparr>"

lemma signed_token_roundtrip_witness:
  "verifySignedMfaToken example_codec (createSignedMfaToken example_codec (grant_input ''u'' 2 ''s'' 0)) History_access 1000
     = Some \<lparr>tp_user = ''u'', tp_expires = num_of_int 1800000, tp_nonce = ''s'', tp_version = Some (num_of_int 2)\<rparr>
   \<and> verifySignedMfaToken example_codec (createSignedMfaToken example_codec (grant_input ''u'' 2 ''s'' 0)) History_access 1800000 = None"
proof -
  have c: "codec_ok example_codec (token_json (grant_input ''u'' 2 ''s'' 0))" by (simp add: codec_ok_def example_codec_def)
  have "verifySignedMfaToken example_codec (createSignedMfaToken example_codec (grant_input ''u'' 2 ''s'' 0)) History_access 1800000 \<noteq> Some p" for p
    using signed_token_roundtrip [OF c, of History_access 1800000 p] by (simp add: grant_input_def HISTORY_MFA_TTL_SECONDS_def)
  then have "verifySignedMfaToken example_codec (createSignedMfaToken example_codec (grant_input ''u'' 2 ''s'' 0)) History_access 1800000 = None" by blast
  then show ?thesis
    using signed_token_roundtrip [OF c, of History_access 1000 "payload_of (grant_input ''u'' 2 ''s'' 0)"]
    by (simp add: grant_input_def payload_of_def HISTORY_MFA_TTL_SECONDS_def)
qed

lemma history_grant_ends_with_policy_witness:
  "hg_verified (getHistoryMfaGate example_codec (Some (grantHistoryMfaAccess example_codec ''u'' 2 ''s'' 0)) ''u'' (Some ''s'') 1000 challenged_mfa)
     \<and> \<not> hg_verified (getHistoryMfaGate example_codec (Some (grantHistoryMfaAccess example_codec ''u'' 2 ''s'' 0)) ''u'' (Some ''r'') 1000 challenged_mfa)"
proof -
  have v: "st_version (getMfaStatus ''u'' protected_mfa) = 2" by code_simp
  have c: "codec_ok example_codec (token_json (grant_input ''u'' 2 ''s'' 0))" by (simp add: codec_ok_def example_codec_def)
  have r: "hg_required (getHistoryMfaGate example_codec cookie ''u'' s 1000 challenged_mfa)" for cookie s
  proof -
    have "st_enrolled (getMfaStatus ''u'' challenged_mfa) \<and> st_history (getMfaStatus ''u'' challenged_mfa)" by code_simp
    then show ?thesis by (simp add: getHistoryMfaGate_def Let_def)
  qed
  have same: "md_settings challenged_mfa = md_settings protected_mfa" "md_passkeys challenged_mfa = md_passkeys protected_mfa"
    by (auto simp: challenged_mfa_def saveChallenge_def)
  show ?thesis
    using history_grant_ends_with_policy [OF protected_reachable challenged_run c [folded v] _ _ r, unfolded v, OF _ _ refl, of "Some ''s''"]
      history_grant_ends_with_policy [OF protected_reachable challenged_run c [folded v] _ _ r, unfolded v, OF _ _ refl, of "Some ''r''"]
    by (simp add: settings_of_def loadCredentials_def same)
qed

text \<open>Of two authentications that read a passkey at the same time, the one that stores last decides its counter,
  which may then fall.\<close>

lemma late_authentication_lowers_counter:
  assumes "k \<in> set (md_passkeys db)" "0 \<le> n" "n < m"
  shows "\<exists>k' \<in> set (md_passkeys (snd (store_authentication (pk_user k) (pk_id k) (counted n) t'
      (snd (store_authentication (pk_user k) (pk_id k) (counted m) t db))))). pk_id k' = pk_id k \<and> pk_counter k' = n"
proof -
  let ?f = "mark_used (pk_user k) (pk_id k) (counted m) t" and ?g = "mark_used (pk_user k) (pk_id k) (counted n) t'"
  have "snd (store_authentication (pk_user k) (pk_id k) (counted i) x d) = d\<lparr>md_passkeys := map (mark_used (pk_user k) (pk_id k) (counted i) x) (md_passkeys d)\<rparr>"
    if "0 \<le> i" for i x d using that by (simp add: store_authentication_def counted_def)
  then have keys: "md_passkeys (snd (store_authentication (pk_user k) (pk_id k) (counted n) t'
      (snd (store_authentication (pk_user k) (pk_id k) (counted m) t db)))) = map ?g (map ?f (md_passkeys db))"
    using assms(2,3) by simp
  show ?thesis unfolding keys
  proof (rule bexI [of _ "?g (?f k)"])
    show "pk_id (?g (?f k)) = pk_id k \<and> pk_counter (?g (?f k)) = n" by (simp add: mark_used_def counted_def)
    show "?g (?f k) \<in> set (map ?g (map ?f (md_passkeys db)))" unfolding set_map by (intro imageI assms(1))
  qed
qed

text \<open>Registration asks for no passkey: a session of a user with a protected history can add one and open the
  history with it.\<close>

lemma new_passkey_opens_history:
  "let db1 = snd (beginPasskeyRegistration ''1'' ''x'' ''u'' 100 protected_mfa);
       db2 = snd (finishPasskeyRegistration (\<lambda>c. Some (example_registration ''new'')) ''u'' ''1'' [] 200 db1);
       db3 = snd (beginPasskeyAuthentication ''2'' ''y'' ''u'' For_history 300 db2)
   in case fst (completeHistoryPasskeyAction example_codec (\<lambda>c k. if pk_id k = ''new'' then Some (counted 1) else None) ''u'' ''s'' ''2'' ''new'' 400 db3) of
        Inr cookie \<Rightarrow> cookie \<noteq> None | Inl e \<Rightarrow> False"
  by code_simp

end
