(* ===== verification/Spec2Isabelle.thy ===== *)
theory Spec2Isabelle
  imports Rollup_Cutover_Proofs Rollup_Coordinator Pricing_History Operation_Controller Tool_Deployment
    Versions Local_Dates Utilization Wire User_Key_Cache_Proofs Usage_Races Usage_Delivery Timezone_Rollup Outbox_Worker Pricing_Sync_Proofs
    Device_Control_Proofs Members_Proofs Mfa_Proofs
begin

text \<open>
  A verification development for toard, a self-hosted service that collects, prices and reports the
  usage of AI coding tools.

  \<^bold>\<open>The program.\<close> Devices send usage events to the web application (\<open>apps/web\<close>), which prices them
  (\<open>packages/pricing\<close>) and stores them through a storage backend. With the ClickHouse backend
  (\<open>packages/storage-clickhouse\<close>) an event goes into an outbox table of Postgres, a flusher copies it to
  the raw table of ClickHouse, a compactor sums the raw rows into 15 minute buckets, and a second worker
  sums these into the hours and days of each time zone that is in use. Dashboards read the coarsest
  level that is known to be exact for each part of their range and the finer levels for the rest. A
  coordinator in every process picks one background task per tick under a lease. Prices come from a
  catalogue that is synchronised daily; events without a price are repaired later, where needed with
  the past prices that a job reconstructs from the commits of the catalogue. Shims on the devices are
  given the tools their team should have, through rollouts that a second coordinator moves from canary
  to complete. Prompt texts are encrypted under user keys that the server caches for a short time.

  \<^bold>\<open>Theories.\<close> Each theory names in its first text the file it models; names of definitions are those of
  the code, with the class in front where two clash.

  \<^item> \<open>Toard_Prelude\<close>, \<open>Js_Value\<close>: the part of the JavaScript library the code calls (stable sort with a
    comparator, sets and maps in insertion order, splitting and trimming), numbers with infinities and
    NaN, JSON values, and the sequencing of fallible effects (\<open>io\<close>).
  \<^item> \<open>Rollup_Worker_State\<close>, \<open>Rollup_Coordinator\<close>, \<open>Outbox_Worker\<close>: \<open>rollup-worker-state.ts\<close>,
    \<open>rollup-coordinator.ts\<close>, \<open>rollup-coordinator-state.ts\<close> and the adapter of \<open>clickhouse-outbox.ts\<close>.
    The tables are lists of rows, one operation of a repository is one function on them. Shown: the
    order of the candidates, that a starved task runs within three ticks unless a task selected before it
    has left no start in its row (as a worker that is switched off does, whose candidate does not ask for
    the switch), that a tick records what happened whatever the task does, and the bounds, backing off
    and recovery of the batch size.
  \<^item> \<open>Rollup_Cutover\<close>, \<open>Rollup_Cutover_Proofs\<close>: \<open>rollup-cutover.ts\<close>, \<open>rollup-cutover-state.ts\<close>. The
    machine that lets dashboards read a rollup only after comparing it with the raw rows. The
    repository is a locale, interpreted on the table; the invariant of a row is shown by induction over
    its steps, and activation needs an hour of agreeing observations.
  \<^item> \<open>Usage_Tables\<close>, \<open>Usage_Rows\<close>, \<open>Usage_Rollup\<close>, \<open>Usage_Pipeline\<close>, \<open>Usage_Sources\<close>, \<open>Timezone_Rollup\<close>:
    \<open>storage.ts\<close> of the ClickHouse backend, \<open>timezone-rollup.ts\<close> and \<open>clickhouse-outbox.ts\<close>: tables, rows,
    compaction, outbox, the plan of a hybrid read, and the registration and worker of time zones.
    \<open>Usage_Steps\<close> puts them into one machine, in which an event is one statement or transaction that
    another process can observe.
  \<^item> \<open>Usage_Base_Proofs\<close>, \<open>Usage_Zone_Proofs\<close>, \<open>Usage_Worker_Proofs\<close>, \<open>Usage_Exactness\<close>, \<open>Usage_Reads\<close>: the
    two invariants (a clean bucket holds the sums of its raw rows; a covered bucket of a zone is exact
    and a settled job was computed from its generation), that every calm step keeps them, and that a
    resolved read is a refinement of the read of the raw rows up to the rows whose bucket is not marked
    yet. \<open>Usage_Delivery\<close> follows these rows back to the outbox: in a tidy run, whatever crashes, such a
    bucket is one of an event that is not delivered or of a change under way, so a range without these is
    read exactly. \<open>Usage_Races\<close> has the runs that are not calm, where this fails.
  \<^item> \<open>Pricing\<close>, \<open>Pricing_History\<close>: \<open>aliases.ts\<close>, \<open>cost.ts\<close>, \<open>sync.ts\<close> of \<open>packages/pricing\<close> and
    \<open>pricing-history-intervals.ts\<close>: lookup of a model, cost of a request, the revision in force, the
    translation of a catalogue, and intervals of constant price.
  \<^item> \<open>Pricing_Repair\<close>: \<open>pricing-repair.ts\<close> and \<open>enqueue_pricing_repair\<close>. The row of the repair is a machine
    over requests, resets by a synchronisation or a promotion, claims, reports and crashes of runners: a
    request that is not served keeps the row from being idle. The task itself is a function of its
    services, which may throw anywhere; its history step may promote and thereby replace the row.
  \<^item> \<open>Pricing_Jobs\<close>, \<open>Pricing_Jobs_Proofs\<close>: \<open>pricing-history.ts\<close>, the job that fetches the snapshots of a
    range in batches and promotes candidates to revisions. The invariant of a job between two batches
    is that its candidates cover the range up to the last snapshot with the prices in force.
  \<^item> \<open>Pricing_Sync\<close>, \<open>Pricing_Sync_Proofs\<close>: \<open>pricing-sync.ts\<close> and \<open>pricing.ts\<close>, the daily synchronisation of
    the catalogue and the cached schedule of the revisions. That the cache is current rests on the locale
    \<open>versioned_source\<close>, interpreted on the writers of the revisions. The
    properties of the catalogue and of the history state what they need of earlier revisions.
  \<^item> \<open>Team_Membership\<close>, \<open>Team_Membership_Proofs\<close>: \<open>team-membership.ts\<close> and \<open>team-attribution.ts\<close>. A history
    of periods per user and the job that attributes the events before a first assignment. The abstract
    specification is the team of a user at a time, which a change overrides from its time on; the
    invariant of the rows is that the periods of a user are disjoint and end where the user's row says.
  \<^item> \<open>Members\<close>, \<open>Members_Proofs\<close>: \<open>invites.ts\<close>, \<open>registration.ts\<close>, \<open>auth-policy.ts\<close>, \<open>setup.ts\<close>,
    \<open>admin-members.ts\<close>, \<open>initialized-auth-adapter.ts\<close>: how accounts come into being. The machine of the
    members contains that of the teams; an account stands for an invitation, an administrator remains.
  \<^item> \<open>Mfa\<close>, \<open>Mfa_Proofs\<close>: \<open>mfa-store.ts\<close>, \<open>mfa.ts\<close>, \<open>history-mfa.ts\<close> and the server actions that use them:
    passkeys, policies, challenges and the signed grant of the history, as a machine of statements and
    transactions. The status of a user is read by two queries (\<open>readMfaStatus\<close>); the operations and the
    properties take both from one state. A signed token round trips for its purpose and time. What WebAuthn verifies, the encoding of a token and its signature are parameters.
  \<^item> \<open>Device_Control\<close>, \<open>Device_Control_Proofs\<close>: \<open>device-control-repository.ts\<close>, the queue of commands to a
    device. The life of a command (waiting, leased, finished) is a machine over synchronisations, new
    commands and changes of the mode.
  \<^item> \<open>Operation_Controller\<close>: \<open>operation-controller.ts\<close>, admission, queueing and retries of queries.
  \<^item> \<open>Tool_Deployment\<close>, \<open>Versions\<close>: \<open>tool-deployment.ts\<close>, \<open>tool-rollout-coordinator.ts\<close>, \<open>version.ts\<close>.
  \<^item> \<open>Local_Dates\<close>: \<open>timezone.ts\<close>, \<open>timeseries.ts\<close>; the time zone database is a parameter.
  \<^item> \<open>Utilization\<close>, \<open>Wire\<close>: \<open>utilization.ts\<close>; \<open>wire.ts\<close>, \<open>collection-health.ts\<close>, \<open>deployment-release.ts\<close>.
  \<^item> \<open>User_Key_Cache\<close>, \<open>User_Key_Cache_Proofs\<close>: \<open>user-key-cache.ts\<close> over a store of byte buffers. Shown by
    one invariant over all interleavings of callers, loaders and timers: every buffer with key bytes
    has one owner, an evicted key is loaded again, and what leaves the cache is zeroed.

  \<^bold>\<open>Interfaces.\<close> Locales state what a client relies on: a comparator of a sort, the repository of the
  cutover, and the contracts named in the theories that interpret them on the model's own definitions.

  \<^bold>\<open>Bounds and fuel.\<close> Loops that may not end have fuel or are machines: the retry loop of an operation
  has a measure; searches over instants are bounded by the interval they halve. Integers of Postgres
  that may overflow are checked (\<open>pg_error\<close>); hashes of cohorts are 32-bit words.

  \<^bold>\<open>Calm runs.\<close> The exactness of the rollups holds for runs in which no flush commits a dirty mark between
  the aggregation and the commit of a compaction that deletes it, no compaction fails after its insert,
  and no batch outlives its lease. The code does not enforce these conditions; \<open>Usage_Races\<close> shows what
  happens otherwise. A tidy run is calm, and in it a replaced raw row keeps to the buckets the process
  marks, an applied change reaches its second mark, and a reconciliation removes an undelivered row only
  while no flusher holds its batch. In the same way \<open>no_repair_request_is_lost\<close> is about runs with one repair at a
  time, which the load slot of the coordinator gives (\<open>overlapping_repairs_lose_a_request\<close> is the run
  without it), and in which no reset of the row carries a time before the target it overwrites, which
  the code does not enforce (\<open>older_reset_loses_a_request\<close>): the synchronisation reads its clock before
  it inserts and sets the target from it whatever came in between.

  \<^bold>\<open>What differs from the program.\<close> Doubles are exact rationals with infinities and NaN; timestamps have
  the resolution of milliseconds; Postgres and ClickHouse are one state with atomic statements; texts
  of errors are constructors where no code reads them. ISO texts of instants are the instants. Zones
  are those whose offsets are multiples of 15 minutes and whose transitions fall on such a boundary.

  \<^bold>\<open>Not modelled.\<close> The user interface and its server actions, HTTP handlers, the Rust shim, installers and
  the updater; the Postgres backend and the other dashboard queries of the ClickHouse backend, whose
  work is in one SQL text each; version 1 of the 15 minute rollup, the retention of raw rows by the
  TTL of ClickHouse, and the ten second cache of the read state; clients of key management services,
  WebCrypto, prompt history and its migrations; the schedulers' timers; ingest tokens, passwords and sessions;
  the tool catalogue and its sources on GitHub; reports and charts; operational scripts. These are input and output around
  third-party services, or SQL without logic of its own in the program's language.
\<close>

end
